(* ===== verification/Prelude.thy ===== *)
theory Prelude
  imports Main "HOL-Library.Word"
begin

unbundle bit_operations_syntax

text \<open>
  Shared vocabulary of the rCore development: the machine integers of the 64-bit RISC-V
  target, the panics of the Rust code as values, the two container idioms the sources use
  everywhere (\<^verbatim>\<open>iter().enumerate().find(..)\<close> followed by \<^verbatim>\<open>Vec::remove\<close>, and the
  \<^verbatim>\<open>VecDeque\<close> used as a queue), and the little-endian encoding of words into bytes.
\<close>

section \<open>Machine integers and panics\<close>

text \<open>
  \<^verbatim>\<open>usize\<close>, \<^verbatim>\<open>isize\<close> and \<^verbatim>\<open>u64\<close> are 64 bits wide on the target; an \<^verbatim>\<open>isize\<close> is kept as its
  bit pattern, so that the casts \<^verbatim>\<open>as usize\<close> and \<^verbatim>\<open>as isize\<close> of the sources are the identity,
  and is read with \<^const>\<open>sint\<close>.
\<close>

type_synonym u8 = "8 word"
type_synonym u32 = "32 word"
type_synonym u64 = "64 word"
type_synonym usize = "64 word"
type_synonym isize = "64 word"

text \<open>The newtypes \<^verbatim>\<open>ProcId\<close> and \<^verbatim>\<open>ThreadId\<close> of \<^verbatim>\<open>task-manage/src/id.rs\<close> wrap a \<^verbatim>\<open>usize\<close>.\<close>

type_synonym proc_id = usize
type_synonym thread_id = usize

text \<open>Every way in which the modelled Rust code can panic (or hang) instead of returning.\<close>

datatype panic =
    Unwrap_None            \<comment> \<open>\<open>Option::unwrap\<close> on \<open>None\<close>\<close>
  | Index_Out_Of_Bounds    \<comment> \<open>slice or array indexing\<close>
  | Assertion_Failed       \<comment> \<open>\<open>assert!\<close> and \<open>assert_eq!\<close>\<close>
  | Arith_Overflow         \<comment> \<open>overflow check of a debug build\<close>
  | Explicit_Panic         \<comment> \<open>\<open>panic!\<close>\<close>
  | Todo                   \<comment> \<open>\<open>todo!\<close> and \<open>unimplemented!\<close>\<close>
  | Self_Deadlock          \<comment> \<open>locking a spin lock that the same control flow holds\<close>
  | Invalid_Value          \<comment> \<open>bytes that are no value of the type they are read at\<close>
  | Diverges               \<comment> \<open>a loop that never ends\<close>

type_synonym 'a res = "panic + 'a"

definition rbind :: "'a res \<Rightarrow> ('a \<Rightarrow> 'b res) \<Rightarrow> 'b res" where
  "rbind r f = (case r of Inl e \<Rightarrow> Inl e | Inr x \<Rightarrow> f x)"

definition unwrap :: "'a option \<Rightarrow> 'a res" where
  "unwrap x = (case x of None \<Rightarrow> Inl Unwrap_None | Some y \<Rightarrow> Inr y)"

definition rassert :: "bool \<Rightarrow> unit res" where
  "rassert b = (if b then Inr () else Inl Assertion_Failed)"

definition vec_index :: "'a list \<Rightarrow> nat \<Rightarrow> 'a res" where
  "vec_index xs i = (if i < length xs then Inr (xs ! i) else Inl Index_Out_Of_Bounds)"

text \<open>A computation defined by recursion without a bound, as a fallible one.\<close>

definition finished :: "'a res option \<Rightarrow> 'a res" where
  "finished r = (case r of Some x \<Rightarrow> x | None \<Rightarrow> Inl Diverges)"

named_theorems res_simps \<open>evaluation of fallible computations\<close>

lemma rbind_simps [simp, res_simps]:
  "rbind (Inl e) f = Inl e" "rbind (Inr x) f = f x"
  by (simp_all add: rbind_def)

lemma finished_simps [simp, res_simps]: "finished (Some x) = x" "finished None = Inl Diverges"
  by (simp_all add: finished_def)

lemma rbind_eq_Inr: "rbind r f = Inr y \<longleftrightarrow> (\<exists>x. r = Inr x \<and> f x = Inr y)"
  by (cases r) simp_all

lemma rbindE: "rbind r f = Inr y \<Longrightarrow> (\<And>x. r = Inr x \<Longrightarrow> f x = Inr y \<Longrightarrow> thesis) \<Longrightarrow> thesis"
  by (auto simp: rbind_eq_Inr)

lemma rbind_eq_Inl: "rbind r f = Inl e \<longleftrightarrow> r = Inl e \<or> (\<exists>x. r = Inr x \<and> f x = Inl e)"
  by (cases r) auto

lemma rbind_assoc [res_simps]: "rbind (rbind r f) g = rbind r (\<lambda>x. rbind (f x) g)"
  by (cases r) simp_all

lemma rbind_cong [fundef_cong]:
  "r = r' \<Longrightarrow> (\<And>x. r' = Inr x \<Longrightarrow> f x = g x) \<Longrightarrow> rbind r f = rbind r' g"
  by (cases r') auto

lemma unwrap_simps [simp, res_simps]:
  "unwrap None = Inl Unwrap_None" "unwrap (Some x) = Inr x"
  by (simp_all add: unwrap_def)

lemma unwrap_eq_Inr: "unwrap x = Inr y \<longleftrightarrow> x = Some y"
  by (cases x) simp_all

lemma rassert_eq_Inr [simp]: "rassert b = Inr u \<longleftrightarrow> b"
  by (simp add: rassert_def)

lemma rassert_simps [simp, res_simps]: "rassert True = Inr ()" "rassert False = Inl Assertion_Failed"
  by (simp_all add: rassert_def)

lemma vec_index_Inr [simp]: "i < length xs \<Longrightarrow> vec_index xs i = Inr (xs ! i)"
  by (simp add: vec_index_def)

lemma vec_index_eq_Inr: "vec_index xs i = Inr y \<longleftrightarrow> i < length xs \<and> y = xs ! i"
  by (auto simp: vec_index_def)

lemmas res_eq_simps = rbind_eq_Inr rbind_eq_Inl unwrap_eq_Inr vec_index_eq_Inr

text \<open>Every fallible loop of the sources is a fold that stops at the first panic.\<close>

fun rfold :: "('a \<Rightarrow> 's \<Rightarrow> 's res) \<Rightarrow> 'a list \<Rightarrow> 's \<Rightarrow> 's res" where
  "rfold f [] s = Inr s"
| "rfold f (x # xs) s = rbind (f x s) (rfold f xs)"

lemma rfold_append: "rfold f (xs @ ys) s = rbind (rfold f xs s) (rfold f ys)"
proof (induction xs arbitrary: s)
  case (Cons x xs)
  then show ?case by (cases "f x s") simp_all
qed simp

lemma rfold_inv:
  assumes "\<And>x s. x \<in> set xs \<Longrightarrow> P s \<Longrightarrow> \<exists>s'. f x s = Inr s' \<and> P s'" and "P s"
  shows "\<exists>s'. rfold f xs s = Inr s' \<and> P s'"
  using assms
proof (induction xs arbitrary: s)
  case (Cons x xs)
  from Cons.prems obtain s1 where "f x s = Inr s1" "P s1"
    by (meson list.set_intros(1))
  with Cons.IH [of s1] Cons.prems(1) show ?case by simp
qed simp

text \<open>A fold that is simulated step by step by another one.\<close>

lemma rfold_sim:
  assumes "\<And>x s. map_sum id f (g x s) = h x (f s)"
  shows "map_sum id f (rfold g xs s) = rfold h xs (f s)"
proof (induction xs arbitrary: s)
  case (Cons x xs)
  show ?case
  proof (cases "g x s")
    case (Inl e)
    with assms [of x s, symmetric] show ?thesis by simp
  next
    case (Inr s')
    with assms [of x s, symmetric] have "h x (f s) = Inr (f s')" by simp
    with Inr Cons.IH show ?thesis by simp
  qed
qed simp

section \<open>Vectors and queues\<close>

text \<open>\<^verbatim>\<open>xs.iter().enumerate().find(|(_, x)| p(x))\<close>, reduced to the index it finds.\<close>

fun find_index :: "('a \<Rightarrow> bool) \<Rightarrow> 'a list \<Rightarrow> nat option" where
  "find_index p [] = None"
| "find_index p (x # xs) = (if p x then Some 0 else map_option Suc (find_index p xs))"

text \<open>\<^verbatim>\<open>Vec::remove\<close> at an index in range, without the returned element.\<close>

definition remove_at :: "nat \<Rightarrow> 'a list \<Rightarrow> 'a list" where
  "remove_at i xs = take i xs @ drop (Suc i) xs"

lemma find_index_None: "find_index p xs = None \<longleftrightarrow> (\<forall>x \<in> set xs. \<not> p x)"
  by (induction xs) auto

lemma find_index_Some:
  "find_index p xs = Some i \<longleftrightarrow> i < length xs \<and> p (xs ! i) \<and> (\<forall>j < i. \<not> p (xs ! j))"
proof (induction xs arbitrary: i)
  case (Cons x xs)
  show ?case
  proof (cases i)
    case 0
    then show ?thesis by simp
  next
    case (Suc k)
    with Cons.IH [of k] show ?thesis by (auto simp: less_Suc_eq_0_disj)
  qed
qed simp

lemma find_index_lt: "find_index p xs = Some i \<Longrightarrow> i < length xs"
  by (simp add: find_index_Some)

lemma find_index_nth: "find_index p xs = Some i \<Longrightarrow> p (xs ! i)"
  by (simp add: find_index_Some)

lemma find_index_append_Some:
  "find_index p xs = Some i \<Longrightarrow> find_index p (xs @ ys) = Some i"
  by (auto simp: find_index_Some nth_append)

lemma find_index_append_None:
  "find_index p xs = None \<Longrightarrow>
     find_index p (xs @ ys) = map_option (\<lambda>i. length xs + i) (find_index p ys)"
  by (cases "find_index p ys"; induction xs) (auto split: if_splits)

lemma find_index_mem: "x \<in> set xs \<Longrightarrow> p x \<Longrightarrow> \<exists>i. find_index p xs = Some i"
  using find_index_None [of p xs] by (cases "find_index p xs") auto

lemma set_remove_at_subset: "set (remove_at i xs) \<subseteq> set xs"
  unfolding remove_at_def by (auto dest: in_set_takeD in_set_dropD)

lemma remove_at_Cons_Suc [simp]: "remove_at (Suc i) (x # xs) = x # remove_at i xs"
  by (simp add: remove_at_def)

lemma remove_at_Cons_0 [simp]: "remove_at 0 (x # xs) = xs"
  by (simp add: remove_at_def)

lemma length_remove_at: "i < length xs \<Longrightarrow> length (remove_at i xs) = length xs - 1"
  by (auto simp: remove_at_def)

lemma distinct_remove_at: "distinct xs \<Longrightarrow> distinct (remove_at i xs)"
proof (induction xs arbitrary: i)
  case (Cons x xs)
  then show ?case
    using set_remove_at_subset [of _ xs] by (cases i) auto
qed (simp add: remove_at_def)

lemma remove_at_remove1:
  "find_index p xs = Some i \<Longrightarrow> distinct xs \<Longrightarrow> remove_at i xs = remove1 (xs ! i) xs"
proof (induction xs arbitrary: i)
  case (Cons x xs)
  show ?case
  proof (cases "p x")
    case True
    with Cons.prems show ?thesis by simp
  next
    case False
    with Cons.prems obtain k where k: "find_index p xs = Some k" "i = Suc k" by auto
    then have "k < length xs" by (simp add: find_index_lt)
    with Cons.prems k have "xs ! k \<noteq> x" by auto
    with k Cons show ?thesis by simp
  qed
qed simp

lemma set_remove_at_find:
  "find_index (\<lambda>x. x = y) xs = Some i \<Longrightarrow> distinct xs \<Longrightarrow> set (remove_at i xs) = set xs - {y}"
  using remove_at_remove1 [of "\<lambda>x. x = y" xs i] find_index_nth [of "\<lambda>x. x = y" xs i] by simp

text \<open>A \<^verbatim>\<open>VecDeque\<close> is a list; \<^verbatim>\<open>push_back\<close> appends and \<^verbatim>\<open>pop_front\<close> takes the head.\<close>

definition push_back :: "'a \<Rightarrow> 'a list \<Rightarrow> 'a list" where
  "push_back x q = q @ [x]"

fun pop_front :: "'a list \<Rightarrow> 'a option \<times> 'a list" where
  "pop_front [] = (None, [])"
| "pop_front (x # q) = (Some x, q)"

text \<open>\<^verbatim>\<open>Vec::pop\<close> takes the last element.\<close>

definition pop_back :: "'a list \<Rightarrow> 'a option \<times> 'a list" where
  "pop_back xs = (if xs = [] then (None, []) else (Some (last xs), butlast xs))"

lemma pop_front_None [simp]: "pop_front q = (None, q') \<longleftrightarrow> q = [] \<and> q' = []"
  by (cases q) auto

lemma pop_front_Some [simp]: "pop_front q = (Some x, q') \<longleftrightarrow> q = x # q'"
  by (cases q) auto

lemma fst_pop_front: "fst (pop_front q) = (if q = [] then None else Some (hd q))"
  by (cases q) simp_all

lemma snd_pop_front: "snd (pop_front q) = tl q"
  by (cases q) simp_all

section \<open>Bits of words\<close>

text \<open>\<^verbatim>\<open>trailing_zeros\<close> and \<^verbatim>\<open>trailing_ones\<close> of an unsigned integer.\<close>

definition trailing_zeros :: "'a::len word \<Rightarrow> nat" where
  "trailing_zeros w = length (takeWhile (\<lambda>i. \<not> bit w i) [0..<LENGTH('a)])"

definition trailing_ones :: "'a::len word \<Rightarrow> nat" where
  "trailing_ones w = length (takeWhile (\<lambda>i. bit w i) [0..<LENGTH('a)])"

lemma takeWhile_upt_eq:
  assumes "k < n" "\<not> P k" "\<And>j. j < k \<Longrightarrow> P j"
  shows "takeWhile P [0..<n] = [0..<k]"
proof -
  have "[0..<n] = [0..<k] @ k # [Suc k..<n]"
    using assms(1) by (metis less_imp_add_positive upt_add_eq_append upt_conv_Cons zero_le
        less_imp_le_nat le_add_diff_inverse)
  then have "takeWhile P [0..<n] = takeWhile P ([0..<k] @ k # [Suc k..<n])" by simp
  also have "\<dots> = [0..<k]"
    using assms(2,3) by (subst takeWhile_append2) auto
  finally show ?thesis .
qed

lemma trailing_zeros_eqI:
  fixes w :: "'a::len word"
  assumes "bit w k" "\<And>j. j < k \<Longrightarrow> \<not> bit w j"
  shows "trailing_zeros w = k"
  using assms takeWhile_upt_eq [of k "LENGTH('a)" "\<lambda>i. \<not> bit w i"]
  by (simp add: trailing_zeros_def bit_imp_le_length)

lemma least_bit_exists:
  fixes w :: "'a::len word"
  assumes "w \<noteq> 0"
  obtains k where "bit w k" "\<And>j. j < k \<Longrightarrow> \<not> bit w j" "k < LENGTH('a)"
proof -
  from assms have "\<exists>k. bit w k" by (metis bit_eqI bit_0_eq bot_apply bot_bool_def)
  then obtain k where "bit w k \<and> (\<forall>j < k. \<not> bit w j)" using exists_least_iff by blast
  then show ?thesis using that bit_imp_le_length by blast
qed

lemma trailing_zeros_bit:
  fixes w :: "'a::len word"
  assumes "w \<noteq> 0"
  shows "bit w (trailing_zeros w)" "j < trailing_zeros w \<Longrightarrow> \<not> bit w j"
    "trailing_zeros w < LENGTH('a)"
  using least_bit_exists [OF assms] trailing_zeros_eqI [of w] by metis+

lemma trailing_zeros_0: "trailing_zeros (0 :: 'a::len word) = LENGTH('a)"
  by (simp add: trailing_zeros_def takeWhile_eq_all_conv [THEN iffD2])

lemma trailing_zeros_eq_len:
  fixes w :: "'a::len word"
  shows "trailing_zeros w = LENGTH('a) \<longleftrightarrow> w = 0"
  using trailing_zeros_bit(3) [of w] trailing_zeros_0 by (metis less_irrefl)

lemma trailing_ones_zeros: "trailing_ones w = trailing_zeros (NOT w)"
proof -
  have "takeWhile (\<lambda>i. bit w i) [0..<LENGTH('a)] = takeWhile (\<lambda>i. \<not> bit (NOT w) i) [0..<LENGTH('a)]"
    by (rule takeWhile_cong) (auto simp: bit_not_iff)
  then show ?thesis by (simp add: trailing_ones_def trailing_zeros_def)
qed

lemma trailing_ones_bit:
  fixes w :: "'a::len word"
  assumes "w \<noteq> -1"
  shows "\<not> bit w (trailing_ones w)" "j < trailing_ones w \<Longrightarrow> bit w j"
    "trailing_ones w < LENGTH('a)"
proof -
  have nz: "NOT w \<noteq> 0" using assms by (metis bit.compl_zero bit.double_compl)
  note tz = trailing_zeros_bit [OF nz, folded trailing_ones_zeros]
  show l: "trailing_ones w < LENGTH('a)" by (rule tz(3))
  show "\<not> bit w (trailing_ones w)" using tz(1) by (simp add: bit_not_iff)
  show "j < trailing_ones w \<Longrightarrow> bit w j" using tz(2) [of j] l by (auto simp: bit_not_iff)
qed

lemma bit_single: "bit (push_bit k (1 :: 'a::len word)) i \<longleftrightarrow> i = k \<and> k < LENGTH('a)"
  by (simp only: bit_push_bit_iff bit_1_iff possible_bit_word) auto

section \<open>Little-endian bytes\<close>

definition to_le :: "nat \<Rightarrow> 'a::len word \<Rightarrow> u8 list" where
  "to_le n w = map (\<lambda>i. ucast (drop_bit (8 * i) w)) [0..<n]"

fun of_le :: "u8 list \<Rightarrow> 'a::len word" where
  "of_le [] = 0"
| "of_le (b # bs) = ucast b OR push_bit 8 (of_le bs)"

lemma length_to_le [simp]: "length (to_le n w) = n"
  by (simp add: to_le_def)

lemma bit_to_le:
  "i < n \<Longrightarrow> bit (to_le n w ! i) j \<longleftrightarrow> j < 8 \<and> bit w (8 * i + j)"
  by (auto simp: to_le_def bit_ucast_iff bit_drop_bit_eq)

lemma bit_of_le:
  "bit (of_le bs :: 'a::len word) i \<longleftrightarrow>
     i < LENGTH('a) \<and> i div 8 < length bs \<and> bit (bs ! (i div 8)) (i mod 8)"
proof (induction bs arbitrary: i)
  case (Cons b bs)
  show ?case
  proof (cases "i < 8")
    case True
    then show ?thesis by (auto simp: bit_or_iff bit_push_bit_iff bit_ucast_iff)
  next
    case False
    then have "i div 8 = Suc ((i - 8) div 8)" "i mod 8 = (i - 8) mod 8"
      by (simp_all add: le_div_geq le_mod_geq)
    moreover have "\<not> bit b i" using False bit_imp_le_length [of b i] by auto
    ultimately show ?thesis
      using False Cons.IH [of "i - 8"] by (auto simp: bit_or_iff bit_push_bit_iff bit_ucast_iff)
  qed
qed simp

lemma of_le_to_le:
  fixes w :: "'a::len word"
  assumes "LENGTH('a) \<le> 8 * n"
  shows "of_le (to_le n w) = w"
proof (rule bit_word_eqI)
  fix i assume i: "i < LENGTH('a)"
  with assms have "i div 8 < n" by (simp add: less_mult_imp_div_less mult.commute)
  moreover have "8 * (i div 8) + i mod 8 = i" by simp
  ultimately show "bit (of_le (to_le n w) :: 'a word) i = bit w i"
    using i by (simp add: bit_of_le bit_to_le)
qed

lemma to_le_of_le:
  assumes "8 * length bs = LENGTH('a::len)"
  shows "to_le (length bs) (of_le bs :: 'a word) = bs"
proof (rule nth_equalityI)
  fix k assume k: "k < length (to_le (length bs) (of_le bs :: 'a word))"
  show "to_le (length bs) (of_le bs :: 'a word) ! k = bs ! k"
  proof (rule bit_word_eqI)
    fix j assume j: "j < LENGTH(8)"
    then have "8 * k + j < LENGTH('a)" using k assms by simp
    then show "bit (to_le (length bs) (of_le bs :: 'a word) ! k) j = bit (bs ! k) j"
      using k j by (simp add: bit_to_le bit_of_le)
  qed
qed simp

text \<open>Counters that are not about to wrap around.\<close>

lemma inc_less: "n < n + 1" if "n \<noteq> - 1" for n :: usize
proof -
  from that have "unat (n + 1) = Suc (unat n)" by (metis add.commute add_eq_0_iff unatSuc)
  then show ?thesis by (simp add: word_less_nat_alt)
qed

lemma less_inc: "i < n \<Longrightarrow> n \<noteq> - 1 \<Longrightarrow> i < n + 1" for n :: usize
  using inc_less [of n] by simp

end
