(* ===== verification/Context.thy ===== *)
theory Context
  imports Prelude
begin

unbundle bit_operations_syntax

text \<open>
  Thread contexts, from \<^verbatim>\<open>kernel-context/src/lib.rs\<close> and \<^verbatim>\<open>kernel-context/src/foreign\<close>: the saved
  registers of a thread, the \<^verbatim>\<open>sstatus\<close> value a thread is resumed with, the portal through
  which the kernel enters another address space, and the bookkeeping that
  \<^verbatim>\<open>ForeignContext::execute\<close> does around one stay in user mode. What the processor does between
  \<^verbatim>\<open>sret\<close> and the next trap is a parameter.
\<close>

section \<open>The local context\<close>

record local_context =
  sctx :: usize
  xregs :: "usize list"
  sepc :: usize
  supervisor :: bool
  interrupt :: bool

definition ctx_empty :: local_context where
  "ctx_empty = \<lparr>sctx = 0, xregs = replicate 31 0, sepc = 0, supervisor = False, interrupt = False\<rparr>"

definition ctx_user :: "usize \<Rightarrow> local_context" where
  "ctx_user pc = \<lparr>sctx = 0, xregs = replicate 31 0, sepc = pc, supervisor = False, interrupt = True\<rparr>"

definition ctx_thread :: "usize \<Rightarrow> bool \<Rightarrow> local_context" where
  "ctx_thread pc intr =
     \<lparr>sctx = 0, xregs = replicate 31 0, sepc = pc, supervisor = True, interrupt = intr\<rparr>"

text \<open>
  \<^verbatim>\<open>x(n)\<close> reads \<^verbatim>\<open>self.x[n - 1]\<close>: the subtraction overflows for register 0 and the index is
  checked against the array of 31 registers.
\<close>

definition ctx_x :: "local_context \<Rightarrow> nat \<Rightarrow> usize res" where
  "ctx_x c n = (if n = 0 then Inl Arith_Overflow else vec_index (xregs c) (n - 1))"

text \<open>Assignment through the reference that \<^verbatim>\<open>x_mut(n)\<close> returns.\<close>

definition ctx_set_x :: "nat \<Rightarrow> usize \<Rightarrow> local_context \<Rightarrow> local_context res" where
  "ctx_set_x n v c =
     (if n = 0 then Inl Arith_Overflow
      else if n - 1 < length (xregs c) then Inr (c\<lparr>xregs := (xregs c)[n - 1 := v]\<rparr>)
      else Inl Index_Out_Of_Bounds)"

definition ctx_a :: "local_context \<Rightarrow> nat \<Rightarrow> usize res" where
  "ctx_a c n = ctx_x c (n + 10)"

definition ctx_set_a :: "nat \<Rightarrow> usize \<Rightarrow> local_context \<Rightarrow> local_context res" where
  "ctx_set_a n v c = ctx_set_x (n + 10) v c"

definition ctx_ra :: "local_context \<Rightarrow> usize res" where
  "ctx_ra c = ctx_x c 1"

definition ctx_sp :: "local_context \<Rightarrow> usize res" where
  "ctx_sp c = ctx_x c 2"

definition ctx_set_sp :: "usize \<Rightarrow> local_context \<Rightarrow> local_context res" where
  "ctx_set_sp v c = ctx_set_x 2 v c"

definition ctx_pc :: "local_context \<Rightarrow> usize" where
  "ctx_pc c = sepc c"

definition ctx_set_pc :: "usize \<Rightarrow> local_context \<Rightarrow> local_context" where
  "ctx_set_pc v c = c\<lparr>sepc := v\<rparr>"

definition ctx_move_next :: "local_context \<Rightarrow> local_context" where
  "ctx_move_next c = c\<lparr>sepc := sepc c + 4\<rparr>"

text \<open>
  The array \<^verbatim>\<open>x: [usize; 31]\<close> has 31 elements; every constructor and every write keeps that.
\<close>

definition ctx_wf :: "local_context \<Rightarrow> bool" where
  "ctx_wf c \<longleftrightarrow> length (xregs c) = 31"

lemma ctx_wf_constructors [simp]:
  "ctx_wf ctx_empty" "ctx_wf (ctx_user pc)" "ctx_wf (ctx_thread pc i)"
  by (simp_all add: ctx_wf_def ctx_empty_def ctx_user_def ctx_thread_def)

lemma ctx_wf_updates [simp]:
  "ctx_wf (ctx_set_pc v c) = ctx_wf c" "ctx_wf (ctx_move_next c) = ctx_wf c"
  "ctx_wf (c\<lparr>supervisor := b\<rparr>) = ctx_wf c" "ctx_wf (c\<lparr>interrupt := b\<rparr>) = ctx_wf c"
  "ctx_wf (c\<lparr>sepc := v\<rparr>) = ctx_wf c"
  by (simp_all add: ctx_wf_def ctx_set_pc_def ctx_move_next_def)

lemma ctx_set_x_wf [simp]:
  "ctx_wf c \<Longrightarrow> 0 < n \<Longrightarrow> n \<le> 31 \<Longrightarrow>
     ctx_set_x n v c = Inr (c\<lparr>xregs := (xregs c)[n - 1 := v]\<rparr>)"
  by (auto simp: ctx_set_x_def ctx_wf_def)

lemma ctx_x_wf [simp]: "ctx_wf c \<Longrightarrow> 0 < n \<Longrightarrow> n \<le> 31 \<Longrightarrow> ctx_x c n = Inr (xregs c ! (n - 1))"
  by (auto simp: ctx_x_def ctx_wf_def)

lemma ctx_a_wf [simp]: "ctx_wf c \<Longrightarrow> n \<le> 21 \<Longrightarrow> ctx_a c n = Inr (xregs c ! (9 + n))"
  by (simp add: ctx_a_def)

lemma ctx_set_a_wf [simp]:
  "ctx_wf c \<Longrightarrow> n \<le> 21 \<Longrightarrow> ctx_set_a n v c = Inr (c\<lparr>xregs := (xregs c)[9 + n := v]\<rparr>)"
  by (simp add: ctx_set_a_def)

lemma ctx_set_a_keeps_wf: "ctx_wf c \<Longrightarrow> ctx_set_a n v c = Inr c' \<Longrightarrow> ctx_wf c'"
  by (auto simp: ctx_set_a_def ctx_set_x_def ctx_wf_def split: if_splits)

text \<open>Reading a register after writing one: the write is seen, and seen nowhere else.\<close>

lemma ctx_x_set_x:
  assumes "ctx_set_x n v c = Inr c'"
  shows "ctx_x c' m = (if m = n then Inr v else ctx_x c m)"
proof -
  from assms have n: "0 < n" "n - 1 < length (xregs c)" "c' = c\<lparr>xregs := (xregs c)[n - 1 := v]\<rparr>"
    by (auto simp: ctx_set_x_def split: if_splits)
  then show ?thesis
    by (cases "m = 0") (auto simp: ctx_x_def vec_index_def nth_list_update)
qed

section \<open>The status register\<close>

definition PREVILEGE_BIT :: usize where "PREVILEGE_BIT = push_bit 8 1"
definition INTERRUPT_BIT :: usize where "INTERRUPT_BIT = push_bit 5 1"

text \<open>\<^verbatim>\<open>build_sstatus\<close>, with the value read from the \<^verbatim>\<open>sstatus\<close> register as its first argument.\<close>

definition build_sstatus :: "usize \<Rightarrow> bool \<Rightarrow> bool \<Rightarrow> usize" where
  "build_sstatus sstatus superv intr =
     (let s1 = (if superv then sstatus OR PREVILEGE_BIT else sstatus AND NOT PREVILEGE_BIT)
      in if intr then s1 OR INTERRUPT_BIT else s1 AND NOT INTERRUPT_BIT)"

lemma bit_build_sstatus:
  "bit (build_sstatus s su i) n \<longleftrightarrow>
     (if n = 8 then su else if n = 5 then i else bit s n)"
proof (cases "n < 64")
  case True
  then show ?thesis
    by (simp only: build_sstatus_def PREVILEGE_BIT_def INTERRUPT_BIT_def Let_def
          if_distrib [of bit] if_distribR bit_or_iff bit_and_iff bit_not_iff_eq bit_single)
       (auto simp: bit_or_iff bit_and_iff bit_not_iff bit_single)
next
  case False
  then have "\<not> bit (build_sstatus s su i) n" "\<not> bit s n"
    using bit_imp_le_length [of "build_sstatus s su i" n] bit_imp_le_length [of s n] by auto
  with False show ?thesis by auto
qed

section \<open>The portal\<close>

record portal_cache =
  pc_a0 :: usize
  pc_a1 :: usize
  pc_satp :: usize
  pc_sstatus :: usize
  pc_sepc :: usize
  pc_stvec :: usize
  pc_sscratch :: usize

definition portal_cache_init ::
    "usize \<Rightarrow> usize \<Rightarrow> usize \<Rightarrow> usize \<Rightarrow> bool \<Rightarrow> bool \<Rightarrow> portal_cache \<Rightarrow> portal_cache" where
  "portal_cache_init csr satp pc a0 superv intr k =
     k\<lparr>pc_satp := satp, pc_sepc := pc, pc_a0 := a0, pc_sstatus := build_sstatus csr superv intr\<rparr>"

record multislot_portal =
  slot_count :: nat
  text_size :: nat

text \<open>Sizes of the two \<^verbatim>\<open>repr(C)\<close> structures: two and seven 8-byte words.\<close>

definition sizeof_portal :: nat where "sizeof_portal = 2 * 8"
definition sizeof_cache :: nat where "sizeof_cache = 7 * 8"

text \<open>\<^verbatim>\<open>PortalText::aligned_size\<close>: the code is \<open>len\<close> 16-bit parcels, rounded up to words.\<close>

definition aligned_size :: "usize \<Rightarrow> usize" where
  "aligned_size len = (len * 2 + 7) AND NOT 7"

definition calculate_size :: "nat \<Rightarrow> nat \<Rightarrow> nat" where
  "calculate_size text slots = sizeof_portal + text + slots * sizeof_cache"

definition init_transit :: "nat \<Rightarrow> nat \<Rightarrow> multislot_portal" where
  "init_transit text slots = \<lparr>slot_count = slots, text_size = text\<rparr>"

definition text_offset :: nat where "text_offset = sizeof_portal"

definition cache_offset :: "multislot_portal \<Rightarrow> nat \<Rightarrow> nat" where
  "cache_offset p key = sizeof_portal + text_size p + key * sizeof_cache"

definition total_size :: "multislot_portal \<Rightarrow> nat" where
  "total_size p = cache_offset p (slot_count p)"

definition transit_entry :: "nat \<Rightarrow> nat" where
  "transit_entry transit_address = transit_address + text_offset"

definition transit_cache :: "nat \<Rightarrow> multislot_portal \<Rightarrow> nat \<Rightarrow> nat" where
  "transit_cache transit_address p key = transit_address + cache_offset p key"

section \<open>Executing a thread of another address space\<close>

record foreign_context =
  fcontext :: local_context
  fsatp :: usize

text \<open>
  \<^verbatim>\<open>ForeignContext::execute\<close>. The parameter \<open>run\<close> is the stay in user mode: given the context
  that enters the portal and the portal cache, it yields the context and the cache found after
  the next trap and the \<^verbatim>\<open>sstatus\<close> read there; \<open>csr\<close> is the \<^verbatim>\<open>sstatus\<close> read by
  \<^verbatim>\<open>build_sstatus\<close>, \<open>entry\<close> and \<open>addr\<close> the entry point and the cache address of the portal.
\<close>

type_synonym user_run =
  "local_context \<Rightarrow> portal_cache \<Rightarrow> local_context \<times> portal_cache \<times> usize"

definition foreign_execute ::
    "user_run \<Rightarrow> usize \<Rightarrow> usize \<Rightarrow> usize \<Rightarrow> portal_cache \<Rightarrow> foreign_context \<Rightarrow>
     (foreign_context \<times> portal_cache \<times> usize) res" where
  "foreign_execute run csr entry addr cache f =
     (let c = fcontext f; su = supervisor c; i = interrupt c;
          c1 = c\<lparr>supervisor := True, interrupt := False\<rparr>
      in rbind (ctx_a c1 0) (\<lambda>a0.
         let cache1 = portal_cache_init csr (fsatp f) (sepc c1) a0 su i cache
         in rbind (ctx_set_a 0 addr (ctx_set_pc entry c1)) (\<lambda>c2.
            let (c3, cache2, st) = run c2 cache1
            in rbind (ctx_set_a 0 (pc_a0 cache2) (c3\<lparr>supervisor := su, interrupt := i\<rparr>)) (\<lambda>c4.
               Inr (f\<lparr>fcontext := c4\<rparr>, cache2, st)))))"

section \<open>Properties\<close>

lemma foreign_execute_eq:
  assumes "ctx_wf (fcontext f)"
    and run: "run ((fcontext f)\<lparr>supervisor := True, interrupt := False, sepc := entry,
                    xregs := (xregs (fcontext f))[9 := addr]\<rparr>)
                  (portal_cache_init csr (fsatp f) (sepc (fcontext f)) (xregs (fcontext f) ! 9)
                    (supervisor (fcontext f)) (interrupt (fcontext f)) cache) = (c3, cache2, st)"
    and "ctx_wf c3"
  shows "foreign_execute run csr entry addr cache f =
     Inr (f\<lparr>fcontext := c3\<lparr>supervisor := supervisor (fcontext f), interrupt := interrupt (fcontext f),
                           xregs := (xregs c3)[9 := pc_a0 cache2]\<rparr>\<rparr>, cache2, st)"
  using assms by (simp add: foreign_execute_def Let_def ctx_set_pc_def)

text \<open>
  Whatever the thread did in user mode (any \<open>run\<close> that hands back a well-formed register
  file), \<^verbatim>\<open>ForeignContext::execute\<close> returns, keeps the target address space, gives the thread back
  the privilege and interrupt settings it had before the call, and leaves in \<^verbatim>\<open>a0\<close> the value the
  portal saved for the thread, not the address of the portal cache that travelled in \<^verbatim>\<open>a0\<close>.
\<close>

theorem foreign_execute_restores:
  assumes "ctx_wf (fcontext f)" and "\<And>c k. ctx_wf c \<Longrightarrow> ctx_wf (fst (run c k))"
  shows "\<exists>f' k' st. foreign_execute run csr entry addr cache f = Inr (f', k', st)
           \<and> supervisor (fcontext f') = supervisor (fcontext f)
           \<and> interrupt (fcontext f') = interrupt (fcontext f)
           \<and> fsatp f' = fsatp f \<and> ctx_wf (fcontext f')
           \<and> ctx_a (fcontext f') 0 = Inr (pc_a0 k')"
proof -
  define c2 where "c2 = (fcontext f)\<lparr>supervisor := True, interrupt := False, sepc := entry,
                    xregs := (xregs (fcontext f))[9 := addr]\<rparr>"
  define k1 where "k1 = portal_cache_init csr (fsatp f) (sepc (fcontext f)) (xregs (fcontext f) ! 9)
                    (supervisor (fcontext f)) (interrupt (fcontext f)) cache"
  obtain c3 k2 st where r: "run c2 k1 = (c3, k2, st)" by (cases "run c2 k1")
  have "ctx_wf c2" using assms(1) by (simp add: c2_def ctx_wf_def)
  with assms(2) [of c2 k1] r have wf3: "ctx_wf c3" by simp
  note eq = foreign_execute_eq [where run = run and csr = csr and entry = entry and addr = addr, OF assms(1) r [unfolded c2_def k1_def] wf3]
  show ?thesis using wf3 by (simp add: eq ctx_wf_def)
qed

theorem foreign_execute_restores_witness:
  "\<exists>f' k' st. foreign_execute (\<lambda>c k. (c\<lparr>supervisor := False\<rparr>, k, 7)) 0 64 128
       \<lparr>pc_a0 = 0, pc_a1 = 0, pc_satp = 0, pc_sstatus = 0, pc_sepc = 0, pc_stvec = 0, pc_sscratch = 0\<rparr>
       \<lparr>fcontext = ctx_user 4096, fsatp = 3\<rparr> = Inr (f', k', st)
     \<and> supervisor (fcontext f') = False \<and> interrupt (fcontext f') = True \<and> fsatp f' = 3
     \<and> ctx_wf (fcontext f') \<and> ctx_a (fcontext f') 0 = Inr (pc_a0 k')"
  using foreign_execute_restores [where f = "\<lparr>fcontext = ctx_user 4096, fsatp = 3\<rparr>"
      and run = "\<lambda>c k. (c\<lparr>supervisor := False\<rparr>, k, 7)" and csr = 0 and entry = 64 and addr = 128
      and cache = "\<lparr>pc_a0 = 0, pc_a1 = 0, pc_satp = 0, pc_sstatus = 0, pc_sepc = 0, pc_stvec = 0,
                    pc_sscratch = 0\<rparr>"]
  by (simp add: ctx_user_def ctx_wf_def)

end
