(* ===== verification/Switch.thy ===== *)
theory Switch
  imports Context
begin

text \<open>
  The assembly of \<^verbatim>\<open>kernel-context\<close>: the switch into a thread and back (\<^verbatim>\<open>LocalContext::execute\<close> with
  \<^verbatim>\<open>execute_naked_rv64\<close> and \<^verbatim>\<open>execute_naked_rv32\<close> in \<^verbatim>\<open>lib.rs\<close>), and the portal into another address space
  (\<^verbatim>\<open>ForeignContext::execute\<close> with \<^verbatim>\<open>foreign_execute_rv64\<close> and \<^verbatim>\<open>foreign_execute_rv32\<close> in \<^verbatim>\<open>foreign/mod.rs\<close>). A machine
  has the general registers, the five control registers the code uses, memory and the privilege; the code is lists
  of instructions between the points where control is transferred. The width of a register is a type variable, and
  the size \<open>w\<close> of a word in bytes a parameter of the code: 8 on RV64 and 4 on RV32, the only difference between the two
  versions. Address translation and the stay in user mode are parameters.
\<close>

section \<open>The machine\<close>

datatype csr = Sscratch | Sepc | Sstatus | Stvec | Satp

record 'w machine =
  m_x :: "nat \<Rightarrow> 'w"
  m_pc :: 'w
  m_super :: bool
  m_csr :: "csr \<Rightarrow> 'w"
  m_mem :: "'w \<Rightarrow> 'w"

text \<open>
  A store or load moves one register; \<open>Jr 1\<close> is \<^verbatim>\<open>ret\<close>. \<open>La\<close> carries the address of its label, and \<open>Call\<close> the address
  of its target and the address behind it.
\<close>

datatype 'w instr =
    Store nat int nat
  | Load nat int nat
  | Addi nat nat int
  | Mv nat nat
  | La nat 'w
  | Csrrw nat csr nat
  | Csrr nat csr
  | Csrw csr nat
  | Sfence_vma
  | Call 'w 'w
  | Jr nat
  | Sret

abbreviation x_ra :: nat where "x_ra \<equiv> 1"
abbreviation x_sp :: nat where "x_sp \<equiv> 2"
abbreviation x_t0 :: nat where "x_t0 \<equiv> 5"
abbreviation x_a0 :: nat where "x_a0 \<equiv> 10"
abbreviation x_a1 :: nat where "x_a1 \<equiv> 11"

definition reg :: "('a::len) word machine \<Rightarrow> nat \<Rightarrow> 'a word" where
  "reg m r = (if r = 0 then 0 else m_x m r)"

definition set_reg :: "nat \<Rightarrow> ('a::len) word \<Rightarrow> 'a word machine \<Rightarrow> 'a word machine" where
  "set_reg r v m = (if r = 0 then m else m\<lparr>m_x := (m_x m)(r := v)\<rparr>)"

definition set_csr :: "csr \<Rightarrow> ('a::len) word \<Rightarrow> 'a word machine \<Rightarrow> 'a word machine" where
  "set_csr c v m = m\<lparr>m_csr := (m_csr m)(c := v)\<rparr>"

definition aligned :: "('a::len) word \<Rightarrow> bool" where
  "aligned a \<longleftrightarrow> unat a mod (LENGTH('a) div 8) = 0"

text \<open>The translation of an address under a value of \<^verbatim>\<open>satp\<close>.\<close>

type_synonym 'a translation = "'a word \<Rightarrow> 'a word \<Rightarrow> 'a word"

definition at_addr :: "'a translation \<Rightarrow> ('a::len) word machine \<Rightarrow> 'a word \<Rightarrow> 'a word" where
  "at_addr tr m a = tr (m_csr m Satp) a"

text \<open>
  \<^verbatim>\<open>sret\<close> goes to \<^verbatim>\<open>sepc\<close> with the privilege in bit 8 of \<^verbatim>\<open>sstatus\<close>; bit 5 becomes the interrupt enable, bit 1.
\<close>

definition sret_status :: "('a::len) word \<Rightarrow> 'a word" where
  "sret_status s = set_bit 5 (unset_bit 8 (if bit s 5 then set_bit 1 s else unset_bit 1 s))"

definition sret :: "('a::len) word machine \<Rightarrow> 'a word machine" where
  "sret m = m\<lparr>m_pc := m_csr m Sepc, m_super := bit (m_csr m Sstatus) 8,
     m_csr := (m_csr m)(Sstatus := sret_status (m_csr m Sstatus))\<rparr>"

fun step1 :: "('a::len) translation \<Rightarrow> 'a word instr \<Rightarrow> 'a word machine \<Rightarrow> 'a word machine option" where
  "step1 tr (Store r off b) m = (let a = reg m b + of_int off in
     if aligned a then Some (m\<lparr>m_mem := (m_mem m)(at_addr tr m a := reg m r)\<rparr>) else None)"
| "step1 tr (Load r off b) m = (let a = reg m b + of_int off in
     if aligned a then Some (set_reg r (m_mem m (at_addr tr m a)) m) else None)"
| "step1 tr (Addi r s i) m = Some (set_reg r (reg m s + of_int i) m)"
| "step1 tr (Mv r s) m = Some (set_reg r (reg m s) m)"
| "step1 tr (La r l) m = Some (set_reg r l m)"
| "step1 tr (Csrrw r c s) m = Some (set_reg r (m_csr m c) (set_csr c (reg m s) m))"
| "step1 tr (Csrr r c) m = Some (set_reg r (m_csr m c) m)"
| "step1 tr (Csrw c s) m = Some (set_csr c (reg m s) m)"
| "step1 tr Sfence_vma m = Some m"
| "step1 tr (Call t l) m = Some ((set_reg x_ra l m)\<lparr>m_pc := t\<rparr>)"
| "step1 tr (Jr r) m = Some (m\<lparr>m_pc := reg m r\<rparr>)"
| "step1 tr Sret m = Some (sret m)"

text \<open>
  The code of the kernel needs supervisor mode for its control registers, and it has given \<^verbatim>\<open>stvec\<close> and \<^verbatim>\<open>sscratch\<close> a
  meaning that an interrupt in between would destroy: a block that is not in supervisor mode with interrupts off has
  no result.
\<close>

definition undisturbed :: "('a::len) word machine \<Rightarrow> bool" where
  "undisturbed m \<longleftrightarrow> m_super m \<and> \<not> bit (m_csr m Sstatus) 1"

fun exec :: "('a::len) translation \<Rightarrow> 'a word instr list \<Rightarrow> 'a word machine \<Rightarrow> 'a word machine option" where
  "exec tr [] m = Some m"
| "exec tr (i # is) m = (if undisturbed m then Option.bind (step1 tr i m) (exec tr is) else None)"

section \<open>The code\<close>

definition SAVE_ALL :: "int \<Rightarrow> 'a word instr list" where
  "SAVE_ALL w = Store 1 (1 * w) x_sp # map (\<lambda>n. Store n (int n * w) x_sp) [3..<32]"

definition LOAD_ALL :: "int \<Rightarrow> 'a word instr list" where
  "LOAD_ALL w = Load 1 (1 * w) x_sp # map (\<lambda>n. Load n (int n * w) x_sp) [3..<32]"

text \<open>\<^verbatim>\<open>execute_naked\<close>: up to \<^verbatim>\<open>sret\<close>, and from the label \<^verbatim>\<open>1:\<close>, whose address is \<open>l1\<close>, to \<^verbatim>\<open>ret\<close>.\<close>

definition naked_entry :: "int \<Rightarrow> 'a word \<Rightarrow> 'a word instr list" where
  "naked_entry w l1 =
     [Addi x_sp x_sp (- (32 * w))] @ SAVE_ALL w @
     [La x_t0 l1, Csrw Stvec x_t0,
      Csrr x_t0 Sscratch, Store x_sp 0 x_t0, Mv x_sp x_t0] @ LOAD_ALL w @
     [Load x_sp (2 * w) x_sp, Sret]"

definition naked_trap :: "int \<Rightarrow> 'a word instr list" where
  "naked_trap w =
     [Csrrw x_sp Sscratch x_sp] @ SAVE_ALL w @
     [Csrrw x_t0 Sscratch x_sp, Store x_t0 (2 * w) x_sp,
      Load x_sp 0 x_sp] @ LOAD_ALL w @
     [Addi x_sp x_sp (32 * w), Jr x_ra]"

definition execute_naked_rv64 :: "'a word \<Rightarrow> 'a word instr list \<times> 'a word instr list" where
  "execute_naked_rv64 l1 = (naked_entry 8 l1, naked_trap 8)"

definition execute_naked_rv32 :: "'a word \<Rightarrow> 'a word instr list \<times> 'a word instr list" where
  "execute_naked_rv32 l1 = (naked_entry 4 l1, naked_trap 4)"

text \<open>
  The assembly inside \<^verbatim>\<open>LocalContext::execute\<close>, before and behind the call. The compiler chooses the registers of the
  operands \<^verbatim>\<open>ctx\<close>, \<^verbatim>\<open>old_ss\<close>, \<^verbatim>\<open>sepc\<close> and \<^verbatim>\<open>sstatus\<close>.
\<close>

record operands =
  r_ctx :: nat
  r_old_ss :: nat
  r_sepc :: nat
  r_sstatus :: nat

definition execute_call :: "int \<Rightarrow> operands \<Rightarrow> 'a word \<Rightarrow> 'a word \<Rightarrow> 'a word instr list" where
  "execute_call w r execute_naked back =
     [Csrrw (r_old_ss r) Sscratch (r_ctx r), Csrw Sepc (r_sepc r), Csrw Sstatus (r_sstatus r),
      Addi x_sp x_sp (- (2 * w)), Store x_ra 0 x_sp, Store (r_old_ss r) w x_sp, Call execute_naked back]"

definition execute_return :: "int \<Rightarrow> operands \<Rightarrow> 'a word instr list" where
  "execute_return w r =
     [Load (r_old_ss r) w x_sp, Load x_ra 0 x_sp, Addi x_sp x_sp (2 * w),
      Csrw Sscratch (r_old_ss r), Csrr (r_sepc r) Sepc, Csrr (r_sstatus r) Sstatus]"

text \<open>\<^verbatim>\<open>foreign_execute\<close>: up to \<^verbatim>\<open>sret\<close>, and from its label \<^verbatim>\<open>1:\<close> to \<^verbatim>\<open>jr a0\<close>.\<close>

definition portal_entry :: "int \<Rightarrow> 'a word \<Rightarrow> 'a word instr list" where
  "portal_entry w l1 =
     [Store x_a1 (1 * w) x_a0,
      Load x_a1 (2 * w) x_a0, Csrrw x_a1 Satp x_a1, Sfence_vma, Store x_a1 (2 * w) x_a0,
      Load x_a1 (3 * w) x_a0, Csrw Sstatus x_a1,
      Load x_a1 (4 * w) x_a0, Csrw Sepc x_a1,
      La x_a1 l1, Csrrw x_a1 Stvec x_a1, Store x_a1 (5 * w) x_a0,
      Csrrw x_a1 Sscratch x_a0, Store x_a1 (6 * w) x_a0,
      Load x_a1 (1 * w) x_a0, Load x_a0 0 x_a0,
      Sret]"

definition portal_trap :: "int \<Rightarrow> 'a word instr list" where
  "portal_trap w =
     [Csrrw x_a0 Sscratch x_a0,
      Store x_a1 (1 * w) x_a0,
      Load x_a1 (6 * w) x_a0, Csrrw x_a1 Sscratch x_a1, Store x_a1 0 x_a0,
      Load x_a1 (2 * w) x_a0, Csrrw x_a1 Satp x_a1, Sfence_vma, Store x_a1 (2 * w) x_a0,
      Load x_a1 (1 * w) x_a0,
      Load x_a0 (5 * w) x_a0, Csrw Stvec x_a0,
      Jr x_a0]"

definition foreign_execute_rv64 :: "'a word \<Rightarrow> 'a word instr list \<times> 'a word instr list" where
  "foreign_execute_rv64 l1 = (portal_entry 8 l1, portal_trap 8)"

definition foreign_execute_rv32 :: "'a word \<Rightarrow> 'a word instr list \<times> 'a word instr list" where
  "foreign_execute_rv32 l1 = (portal_entry 4 l1, portal_trap 4)"

text \<open>
  \<^verbatim>\<open>PortalText::new\<close> finds the end of the portal's code: the first place, at least 32 parcels of 16 bits behind its start, where a
  compressed \<^verbatim>\<open>jr a0\<close> is followed by a zero parcel. \<^verbatim>\<open>copy_to\<close> copies the code to an address.
\<close>

type_synonym u16 = "16 word"

partial_function (option) portal_text_from :: "(nat \<Rightarrow> u16) \<Rightarrow> nat \<Rightarrow> u16 list option" where
  "portal_text_from text len =
     (let slice = map text [0..<len] in
      if take 2 (drop (len - 2) slice) = [0x8502, 0] then Some slice else portal_text_from text (Suc len))"

definition portal_text_new :: "(nat \<Rightarrow> u16) \<Rightarrow> u16 list option" where
  "portal_text_new text = portal_text_from text 32"

fun copy_to :: "u16 list \<Rightarrow> nat \<Rightarrow> (nat \<Rightarrow> u16) \<Rightarrow> nat \<Rightarrow> u16" where
  "copy_to [] a mem = mem"
| "copy_to (p # ps) a mem = copy_to ps (a + 1) (mem(a := p))"

lemma last_parcels: "take 2 (drop (len + 2 - 2) (map text [0..<len + 2])) = [text len, text (len + 1)]"
  by (simp only: drop_map drop_upt add_0 add_diff_cancel_right') (simp add: upt_conv_Cons)

lemma portal_text_from_found:
  assumes "text (len + n) = 0x8502" "text (len + n + 1) = 0" "2 \<le> len"
    and "\<And>i. i < n \<Longrightarrow> \<not> (text (len + i) = 0x8502 \<and> text (len + i + 1) = 0)"
  shows "portal_text_from text (len + 2) = Some (map text [0..<len + n + 2])"
  using assms
proof (induction n arbitrary: len)
  case 0
  then show ?case by (subst portal_text_from.simps) (simp only: Let_def last_parcels, simp)
next
  case (Suc n)
  from Suc.prems(4) [of 0] have "\<not> (text len = 0x8502 \<and> text (len + 1) = 0)" by simp
  moreover have "portal_text_from text (Suc len + 2) = Some (map text [0..<Suc len + n + 2])"
    by (rule Suc.IH) (use Suc.prems(1-3) Suc.prems(4) [of "Suc _"] in simp_all)
  ultimately show ?case by (subst portal_text_from.simps) (simp only: Let_def last_parcels, auto)
qed

lemma copy_to_text: "copy_to ps a mem b = (if a \<le> b \<and> b < a + length ps then ps ! (b - a) else mem b)"
  by (induction ps arbitrary: a mem) (auto simp: nth_Cons')

text \<open>The copy is the code up to the end that was found; memory around it is unchanged.\<close>

lemma portal_text_copied:
  assumes "text (30 + n) = 0x8502" "text (31 + n) = 0" "\<And>i. i < n \<Longrightarrow> \<not> (text (30 + i) = 0x8502 \<and> text (31 + i) = 0)"
  shows "\<exists>ps. portal_text_new text = Some ps \<and> length ps = 32 + n
    \<and> (\<forall>b. copy_to ps a mem b = (if a \<le> b \<and> b < a + 32 + n then text (b - a) else mem b))"
proof -
  have "portal_text_from text (30 + 2) = Some (map text [0..<30 + n + 2])"
    by (rule portal_text_from_found) (use assms in simp_all)
  then show ?thesis by (auto simp: portal_text_new_def copy_to_text)
qed

text \<open>
  Where the linker and \<^verbatim>\<open>copy_to\<close> put the code: \<^verbatim>\<open>execute_naked\<close> with its label, the address behind the call in
  \<^verbatim>\<open>execute\<close>, and the portal with its label.
\<close>

record 'w image =
  at_naked :: 'w
  at_trap :: 'w
  at_back :: 'w
  at_portal :: 'w
  at_portal_trap :: 'w

definition code_addrs :: "'a word image \<Rightarrow> 'a word list" where
  "code_addrs im = [at_naked im, at_trap im, at_back im, at_portal im, at_portal_trap im]"

definition text_at :: "int \<Rightarrow> 'a word image \<Rightarrow> 'a word \<Rightarrow> 'a word instr list option" where
  "text_at w im a =
     (if a = at_naked im then Some (naked_entry w (at_trap im))
      else if a = at_trap im then Some (naked_trap w)
      else if a = at_portal im then Some (portal_entry w (at_portal_trap im))
      else if a = at_portal_trap im then Some (portal_trap w) else None)"

text \<open>
  From the call to the return: where the kernel has code at the program counter the machine executes it, anywhere else
  the thread runs until its next trap, which is the parameter \<open>user\<close>. The value is \<open>None\<close> when a block has no result or
  the return is never reached.
\<close>

partial_function (option) switch ::
    "('a::len) translation \<Rightarrow> int \<Rightarrow> 'a word image \<Rightarrow> ('a word machine \<Rightarrow> 'a word machine) \<Rightarrow> 'a word machine \<Rightarrow> 'a word machine option" where
  "switch tr w im user m =
     (if m_super m \<and> m_pc m = at_back im then Some m
      else Option.bind (case (if m_super m then text_at w im (m_pc m) else None) of
          Some b \<Rightarrow> exec tr b m | None \<Rightarrow> Some (user m)) (switch tr w im user))"

section \<open>The Rust code around it\<close>

text \<open>Word \<open>i\<close> of a structure at address \<open>a\<close>.\<close>

definition word_at :: "int \<Rightarrow> 'a word \<Rightarrow> nat \<Rightarrow> ('a::len) word" where
  "word_at w a i = a + of_nat i * of_int w"

definition peek :: "'a translation \<Rightarrow> 'a word \<Rightarrow> ('a::len) word machine \<Rightarrow> 'a word" where
  "peek tr a m = m_mem m (at_addr tr m a)"

definition poke :: "'a translation \<Rightarrow> 'a word \<Rightarrow> 'a word \<Rightarrow> ('a::len) word machine \<Rightarrow> 'a word machine" where
  "poke tr a v m = m\<lparr>m_mem := (m_mem m)(at_addr tr m a := v)\<rparr>"

text \<open>
  \<^verbatim>\<open>LocalContext::execute\<close> on the context at address \<open>c\<close>. In the \<^verbatim>\<open>repr(C)\<close> layout word 0 is \<^verbatim>\<open>sctx\<close>, word \<open>n\<close> is
  register \<open>n\<close> and word 32 is \<^verbatim>\<open>sepc\<close>; the two flags \<^verbatim>\<open>supervisor\<close> and \<^verbatim>\<open>interrupt\<close>, which only the Rust code reads, are
  arguments.
\<close>

definition with_operands :: "operands \<Rightarrow> usize \<Rightarrow> usize \<Rightarrow> usize \<Rightarrow> usize machine \<Rightarrow> usize machine" where
  "with_operands r ctx epc sstatus m =
     set_reg (r_sstatus r) sstatus (set_reg (r_sepc r) epc (set_reg (r_ctx r) ctx m))"

definition local_execute ::
    "64 translation \<Rightarrow> operands \<Rightarrow> usize image \<Rightarrow> (usize machine \<Rightarrow> usize machine) \<Rightarrow> usize \<Rightarrow> bool \<Rightarrow> bool \<Rightarrow> usize machine
     \<Rightarrow> (usize machine \<times> usize) option" where
  "local_execute tr r im user c superv intr m =
     (let sstatus = build_sstatus (m_csr m Sstatus) superv intr;
          sepc = peek tr (word_at 8 c 32) m
      in Option.bind (exec tr (execute_call 8 r (at_naked im) (at_back im)) (with_operands r c sepc sstatus m)) (\<lambda>m1.
         Option.bind (switch tr 8 im user m1) (\<lambda>m2.
         Option.bind (exec tr (execute_return 8 r) m2) (\<lambda>m3.
           Some (poke tr (word_at 8 c 32) (reg m3 (r_sepc r)) m3, reg m3 (r_sstatus r))))))"

text \<open>
  \<^verbatim>\<open>ForeignContext::execute\<close> with the portal cache at address \<open>k\<close>, whose words are \<^verbatim>\<open>a0\<close>, \<^verbatim>\<open>a1\<close>, \<^verbatim>\<open>satp\<close>,
  \<^verbatim>\<open>sstatus\<close>, \<^verbatim>\<open>sepc\<close>, \<^verbatim>\<open>stvec\<close> and \<^verbatim>\<open>sscratch\<close>.
\<close>

definition foreign_execute_at ::
    "64 translation \<Rightarrow> operands \<Rightarrow> usize image \<Rightarrow> (usize machine \<Rightarrow> usize machine) \<Rightarrow> usize \<Rightarrow> bool \<Rightarrow> bool \<Rightarrow> usize \<Rightarrow> usize
     \<Rightarrow> usize machine \<Rightarrow> (usize machine \<times> usize) option" where
  "foreign_execute_at tr r im user c superv intr satp k m =
     (let pc = peek tr (word_at 8 c 32) m;
          a0 = peek tr (word_at 8 c 10) m;
          m1 = poke tr (word_at 8 k 0) a0 (poke tr (word_at 8 k 4) pc (poke tr (word_at 8 k 2) satp m));
          m2 = poke tr (word_at 8 k 3) (build_sstatus (m_csr m1 Sstatus) superv intr) m1;
          m3 = poke tr (word_at 8 c 10) k (poke tr (word_at 8 c 32) (at_portal im) m2)
      in Option.bind (local_execute tr r im user c True False m3) (\<lambda>(m4, sstatus).
           Some (poke tr (word_at 8 c 10) (peek tr (word_at 8 k 0) m4) m4, sstatus)))"

section \<open>Straight-line code\<close>

lemma machine_simps [simp]:
  "undisturbed (m\<lparr>m_mem := mu\<rparr>) = undisturbed m" "undisturbed (m\<lparr>m_x := xs\<rparr>) = undisturbed m"
  "undisturbed (m\<lparr>m_pc := p\<rparr>) = undisturbed m" "undisturbed (set_reg r v m) = undisturbed m"
  "c \<noteq> Sstatus \<Longrightarrow> undisturbed (set_csr c v m) = undisturbed m"
  "undisturbed (set_csr Sstatus v m) \<longleftrightarrow> m_super m \<and> \<not> bit v 1"
  by (simp_all add: undisturbed_def set_reg_def set_csr_def)

text \<open>Updates of a machine in the order of its fields.\<close>

lemma machine_order [simp]:
  fixes m :: "'w machine"
  shows "m\<lparr>m_pc := p, m_x := xs\<rparr> = m\<lparr>m_x := xs, m_pc := p\<rparr>"
    "m\<lparr>m_super := s, m_x := xs\<rparr> = m\<lparr>m_x := xs, m_super := s\<rparr>"
    "m\<lparr>m_super := s, m_pc := p\<rparr> = m\<lparr>m_pc := p, m_super := s\<rparr>"
    "m\<lparr>m_csr := cs, m_x := xs\<rparr> = m\<lparr>m_x := xs, m_csr := cs\<rparr>"
    "m\<lparr>m_csr := cs, m_pc := p\<rparr> = m\<lparr>m_pc := p, m_csr := cs\<rparr>"
    "m\<lparr>m_csr := cs, m_super := s\<rparr> = m\<lparr>m_super := s, m_csr := cs\<rparr>"
    "m\<lparr>m_mem := mu, m_x := xs\<rparr> = m\<lparr>m_x := xs, m_mem := mu\<rparr>"
    "m\<lparr>m_mem := mu, m_pc := p\<rparr> = m\<lparr>m_pc := p, m_mem := mu\<rparr>"
    "m\<lparr>m_mem := mu, m_super := s\<rparr> = m\<lparr>m_super := s, m_mem := mu\<rparr>"
    "m\<lparr>m_mem := mu, m_csr := cs\<rparr> = m\<lparr>m_csr := cs, m_mem := mu\<rparr>"
  by (cases m, simp)+

lemma undisturbed_csr [simp]: "undisturbed (m\<lparr>m_csr := cs\<rparr>) \<longleftrightarrow> m_super m \<and> \<not> bit (cs Sstatus) 1"
  by (simp add: undisturbed_def)

lemma exec_append: "exec tr (is @ js) m = Option.bind (exec tr is m) (exec tr js)"
  by (induction "is" arbitrary: m) (auto simp: Option.bind_assoc split: bind_splits)

lemma exec_seq: "exec tr is m = Some m1 \<Longrightarrow> exec tr js m1 = r \<Longrightarrow> exec tr (is @ js) m = r"
  by (simp add: exec_append)

primrec puts :: "('i \<Rightarrow> 'k) \<Rightarrow> ('i \<Rightarrow> 'v) \<Rightarrow> 'i list \<Rightarrow> ('k \<Rightarrow> 'v) \<Rightarrow> 'k \<Rightarrow> 'v" where
  "puts g f [] mu = mu"
| "puts g f (i # is) mu = puts g f is (mu(g i := f i))"

lemma puts_other: "a \<notin> g ` set is \<Longrightarrow> puts g f is mu a = mu a"
  by (induction "is" arbitrary: mu) auto

lemma puts_at: "distinct is \<Longrightarrow> inj_on g (set is) \<Longrightarrow> i \<in> set is \<Longrightarrow> puts g f is mu (g i) = f i"
proof (induction "is" arbitrary: mu)
  case (Cons k ks)
  show ?case
  proof (cases "i = k")
    case True
    then have "g i \<notin> g ` set ks" using Cons.prems by (auto simp: inj_on_def)
    with True show ?thesis by (simp add: puts_other)
  qed (use Cons in auto)
qed simp

text \<open>The stores of \<open>SAVE_ALL\<close> and the loads of \<open>LOAD_ALL\<close>, for any list of registers.\<close>

definition saved :: "('a::len) translation \<Rightarrow> int \<Rightarrow> 'a word \<Rightarrow> nat list \<Rightarrow> 'a word machine \<Rightarrow> 'a word \<Rightarrow> 'a word" where
  "saved tr w a ns m = puts (\<lambda>n. at_addr tr m (word_at w a n)) (reg m) ns (m_mem m)"

lemma exec_saves:
  assumes "undisturbed m" "\<forall>n \<in> set ns. aligned (word_at w (reg m x_sp) n)"
  shows "exec tr (map (\<lambda>n. Store n (int n * w) x_sp) ns) m = Some (m\<lparr>m_mem := saved tr w (reg m x_sp) ns m\<rparr>)"
  using assms
proof (induction ns arbitrary: m)
  case (Cons n ns)
  have [simp]: "reg (m\<lparr>m_mem := mu\<rparr>) = reg m" "at_addr tr (m\<lparr>m_mem := mu\<rparr>) = at_addr tr m" for mu
    by (auto simp: reg_def at_addr_def)
  show ?case using Cons by (simp add: Let_def word_at_def [symmetric] saved_def)
qed (simp add: saved_def)

lemma exec_loads:
  assumes "undisturbed m" "\<forall>n \<in> set ns. aligned (word_at w (reg m x_sp) n)" "x_sp \<notin> set ns" "0 \<notin> set ns" "distinct ns"
  shows "exec tr (map (\<lambda>n. Load n (int n * w) x_sp) ns) m
    = Some (m\<lparr>m_x := \<lambda>n. if n \<in> set ns then peek tr (word_at w (reg m x_sp) n) m else m_x m n\<rparr>)"
  using assms
proof (induction ns arbitrary: m)
  case (Cons n ns)
  have "n \<noteq> 0" "n \<noteq> x_sp" using Cons.prems by auto
  then show ?case using Cons
    by (auto simp: Let_def word_at_def [symmetric] reg_def set_reg_def peek_def at_addr_def fun_eq_iff
        intro!: arg_cong [where f = "\<lambda>x. m\<lparr>m_x := x\<rparr>"])
qed simp

definition all_but_sp :: "nat list" where
  "all_but_sp = 1 # [3..<32]"

lemma all_but_sp [simp]: "n \<in> set all_but_sp \<longleftrightarrow> 0 < n \<and> n < 32 \<and> n \<noteq> x_sp" "distinct all_but_sp"
  unfolding all_but_sp_def by (simp only: set_simps insert_iff set_upt atLeastLessThan_iff) (presburger, simp)

lemma SAVE_ALL_eq: "SAVE_ALL w = map (\<lambda>n. Store n (int n * w) x_sp) all_but_sp"
  by (simp add: SAVE_ALL_def all_but_sp_def)

lemma LOAD_ALL_eq: "LOAD_ALL w = map (\<lambda>n. Load n (int n * w) x_sp) all_but_sp"
  by (simp add: LOAD_ALL_def all_but_sp_def)

lemma puts_cong: "(\<And>i. i \<in> set is \<Longrightarrow> f i = h i) \<Longrightarrow> puts g f is mu = puts g h is mu"
  by (induction "is" arbitrary: mu) auto

lemma saved_cong:
  assumes "\<And>n. n \<in> set ns \<Longrightarrow> reg m n = reg m' n" "m_mem m = m_mem m'" "m_csr m Satp = m_csr m' Satp"
  shows "saved tr w a ns m = saved tr w a ns m'"
  unfolding saved_def at_addr_def assms(2,3) by (rule puts_cong) (rule assms(1))

lemmas saves = exec_saves [of _ all_but_sp, folded SAVE_ALL_eq]
lemmas loads = exec_loads [of _ all_but_sp, folded LOAD_ALL_eq]

lemma reg_simps [simp]:
  "reg (m\<lparr>m_mem := mu\<rparr>) r = reg m r" "reg (m\<lparr>m_pc := p\<rparr>) r = reg m r" "reg (set_csr c v m) r = reg m r"
  "reg (m\<lparr>m_x := xs\<rparr>) r = (if r = 0 then 0 else xs r)"
  "reg (set_reg r v m) s = (if r = s \<and> 0 < r then v else reg m s)"
  by (auto simp: reg_def set_csr_def set_reg_def)

lemma mem_simps [simp]:
  "m_mem (set_reg r v m) = m_mem m" "m_mem (set_csr c v m) = m_mem m"
  "m_csr (set_reg r v m) = m_csr m" "m_csr (set_csr c v m) = (m_csr m)(c := v)"
  "m_super (set_reg r v m) = m_super m" "m_super (set_csr c v m) = m_super m"
  "at_addr tr (set_reg r v m) = at_addr tr m" "at_addr tr (m\<lparr>m_mem := mu\<rparr>) = at_addr tr m"
  "at_addr tr (m\<lparr>m_csr := cs\<rparr>) = tr (cs Satp)" "reg (m\<lparr>m_csr := cs\<rparr>) = reg m"
  "at_addr tr (m\<lparr>m_x := xs\<rparr>) = at_addr tr m" "c \<noteq> Satp \<Longrightarrow> at_addr tr (set_csr c v m) = at_addr tr m"
  by (auto simp: set_reg_def set_csr_def at_addr_def reg_def fun_eq_iff)

lemma peek_simps [simp]: "peek tr a (m\<lparr>m_x := xs\<rparr>) = peek tr a m" "peek tr a (m\<lparr>m_pc := p\<rparr>) = peek tr a m"
  by (simp_all add: peek_def at_addr_def)

lemma naked_entry_exec:
  fixes m :: "('a::len) word machine" and w :: int
  defines "c \<equiv> m_csr m Sscratch" and "f \<equiv> reg m x_sp - 32 * of_int w"
  assumes "undisturbed m" "\<forall>n<32. aligned (word_at w f n)" "\<forall>n<32. aligned (word_at w c n)"
    and "\<forall>n<32. \<forall>i<32. at_addr tr m (word_at w f n) \<noteq> at_addr tr m (word_at w c i)"
    and "inj_on (\<lambda>n. at_addr tr m (word_at w c n)) {..<32}"
  shows "exec tr (naked_entry w l1) m = Some (sret (m\<lparr>
    m_x := \<lambda>n. if 0 < n \<and> n < 32 then peek tr (word_at w c n) m else m_x m n,
    m_csr := (m_csr m)(Stvec := l1), m_mem := (saved tr w f all_but_sp m)(at_addr tr m c := f)\<rparr>))"
proof -
  let ?mu = "(saved tr w f all_but_sp m)(at_addr tr m c := f)"
  define m1 where "m1 = m\<lparr>m_x := (m_x m)(x_sp := f), m_mem := saved tr w f all_but_sp m\<rparr>"
  define m2 where "m2 = m\<lparr>m_x := (m_x m)(x_sp := c, x_t0 := c), m_csr := (m_csr m)(Stvec := l1), m_mem := ?mu\<rparr>"
  have c0: "word_at w c 0 = c" by (simp add: word_at_def)
  have und: "m_super m" "\<not> bit (m_csr m Sstatus) 1" using assms(3) by (simp_all add: undisturbed_def)
  have "saved tr w f all_but_sp (m\<lparr>m_x := (m_x m)(x_sp := f)\<rparr>) = saved tr w f all_but_sp m" by (rule saved_cong) (auto simp: reg_def)
  then have s1: "exec tr ([Addi x_sp x_sp (- (32 * w))] @ SAVE_ALL w) m = Some m1"
    using assms(3,4) by (simp add: exec_append saves m1_def f_def [symmetric] set_reg_def)
  have "aligned c" using assms(5) c0 by force
  then have s2: "exec tr [La x_t0 l1, Csrw Stvec x_t0, Csrr x_t0 Sscratch, Store x_sp 0 x_t0, Mv x_sp x_t0] m1 = Some m2"
    using assms(3) und by (simp add: m1_def m2_def Let_def c_def [symmetric] set_reg_def set_csr_def at_addr_def fun_upd_twist)
  have m2: "reg m2 x_sp = c" "undisturbed m2" "undisturbed (m2\<lparr>m_x := xs\<rparr>)" for xs using und by (simp_all add: m2_def)
  have s3: "exec tr (LOAD_ALL w) m2
      = Some (m2\<lparr>m_x := \<lambda>n. if n \<in> set all_but_sp then peek tr (word_at w c n) m2 else m_x m2 n\<rparr>)"
    using assms(5) m2(1,2) by (simp add: loads cong: if_cong)
  have pk: "peek tr (word_at w c n) m2 = peek tr (word_at w c n) m" if "0 < n" "n < 32" for n
  proof -
    have "at_addr tr m (word_at w c n) \<noteq> at_addr tr m (word_at w c 0)" using inj_onD [OF assms(7), of n 0] that by auto
    moreover have "at_addr tr m (word_at w c n) \<notin> (\<lambda>i. at_addr tr m (word_at w f i)) ` set all_but_sp" using assms(6) that by fastforce
    ultimately show ?thesis by (simp add: m2_def peek_def saved_def puts_other c0 at_addr_def)
  qed
  define m3 where "m3 = m2\<lparr>m_x := \<lambda>n. if n \<in> set all_but_sp then peek tr (word_at w c n) m2 else m_x m2 n\<rparr>"
  have m3: "undisturbed m3" "reg m3 x_sp = c" using m2 by (auto simp: m3_def reg_def)
  have "aligned (word_at w c 2)" using assms(5) by simp
  then have s4: "exec tr [Load x_sp (2 * w) x_sp, Sret] m3 = Some (sret (m3\<lparr>m_x := (m_x m3)(x_sp := peek tr (word_at w c 2) m3)\<rparr>))"
    using m3 by (simp add: Let_def peek_def word_at_def set_reg_def)
  have "exec tr (naked_entry w l1) m = Some (sret (m3\<lparr>m_x := (m_x m3)(x_sp := peek tr (word_at w c 2) m3)\<rparr>))"
    unfolding naked_entry_def append_assoc [symmetric] by (rule exec_seq [OF exec_seq [OF exec_seq [OF s1 s2] s3 [folded m3_def]] s4])
  also have "(m_x m3)(x_sp := peek tr (word_at w c 2) m3) = (\<lambda>n. if 0 < n \<and> n < 32 then peek tr (word_at w c n) m else m_x m n)"
    by (auto simp: fun_eq_iff m3_def pk) (simp_all add: m2_def)
  finally show ?thesis by (simp add: m3_def m2_def)
qed

lemma machine_same_csr:
  fixes m :: "'w machine"
  shows "m\<lparr>m_x := xs, m_csr := m_csr m, m_mem := mu\<rparr> = m\<lparr>m_x := xs, m_mem := mu\<rparr>"
  by (cases m) simp

lemma naked_trap_exec:
  fixes m :: "('a::len) word machine" and w :: int and tr :: "'a translation"
  defines "c \<equiv> m_csr m Sscratch" and "f \<equiv> peek tr (m_csr m Sscratch) m"
  assumes "undisturbed m" "\<forall>n<32. aligned (word_at w f n)" "\<forall>n<32. aligned (word_at w c n)"
    and "\<forall>n<32. \<forall>i<32. at_addr tr m (word_at w f n) \<noteq> at_addr tr m (word_at w c i)"
    and "inj_on (\<lambda>n. at_addr tr m (word_at w c n)) {..<32}"
  shows "exec tr (naked_trap w) m = Some (m\<lparr>
    m_x := \<lambda>n. if n = x_sp then f + 32 * of_int w else if 0 < n \<and> n < 32 then peek tr (word_at w f n) m else m_x m n,
    m_pc := peek tr (word_at w f 1) m, m_mem := (saved tr w c all_but_sp m)(at_addr tr m (word_at w c 2) := reg m x_sp)\<rparr>)"
proof -
  let ?mu = "(saved tr w c all_but_sp m)(at_addr tr m (word_at w c 2) := reg m x_sp)"
  define m1 where "m1 = m\<lparr>m_x := (m_x m)(x_sp := c), m_csr := (m_csr m)(Sscratch := reg m x_sp), m_mem := saved tr w c all_but_sp m\<rparr>"
  define m2 where "m2 = m\<lparr>m_x := (m_x m)(x_sp := f, x_t0 := reg m x_sp), m_mem := ?mu\<rparr>"
  define m3 where "m3 = m2\<lparr>m_x := \<lambda>n. if n \<in> set all_but_sp then peek tr (word_at w f n) m2 else m_x m2 n\<rparr>"
  have c0: "word_at w c 0 = c" by (simp add: word_at_def)
  have und: "m_super m" "\<not> bit (m_csr m Sstatus) 1" using assms(3) by (simp_all add: undisturbed_def)
  have "saved tr w c all_but_sp (m\<lparr>m_x := (m_x m)(x_sp := c), m_csr := (m_csr m)(Sscratch := reg m x_sp)\<rparr>) = saved tr w c all_but_sp m"
    by (rule saved_cong) (auto simp: reg_def)
  then have s1: "exec tr ([Csrrw x_sp Sscratch x_sp] @ SAVE_ALL w) m = Some m1"
    using assms(3,5) und by (simp add: exec_append saves m1_def c_def [symmetric] set_reg_def set_csr_def)
  have "aligned (word_at w c 0)" "aligned (word_at w c 2)" using assms(5) by simp_all
  then have al: "aligned c" "aligned (c + 2 * of_int w)" by (simp_all add: word_at_def)
  have "at_addr tr m c \<noteq> at_addr tr m (word_at w c n)" if "n \<in> set all_but_sp" for n
    using inj_onD [OF assms(7), of n 0] that c0 by auto
  then have "at_addr tr m c \<notin> (\<lambda>n. at_addr tr m (word_at w c n)) ` set all_but_sp" by blast
  then have "saved tr w c all_but_sp m (at_addr tr m c) = f" unfolding saved_def by (simp add: puts_other f_def c_def peek_def)
  moreover have "at_addr tr m c \<noteq> at_addr tr m (word_at w c 2)" using inj_onD [OF assms(7), of 0 2] c0 by auto
  moreover have cs: "(m_csr m)(Sscratch := c) = m_csr m" by (simp add: c_def)
  ultimately have s2: "exec tr [Csrrw x_t0 Sscratch x_sp, Store x_t0 (2 * w) x_sp, Load x_sp 0 x_sp] m1 = Some m2"
    using und al assms(3) by (simp add: m1_def m2_def Let_def set_reg_def set_csr_def at_addr_def word_at_def c_def [symmetric] fun_upd_twist cs machine_same_csr)
  have m2: "reg m2 x_sp = f" "undisturbed m2" using assms(3) by (simp_all add: m2_def)
  have s3: "exec tr (LOAD_ALL w) m2 = Some m3" unfolding m3_def using assms(4) m2 by (simp add: loads cong: if_cong)
  have pk: "peek tr (word_at w f n) m2 = peek tr (word_at w f n) m" if "n < 32" for n
  proof -
    have "at_addr tr m (word_at w f n) \<noteq> at_addr tr m (word_at w c 2)" using assms(6) that by simp
    moreover have "at_addr tr m (word_at w f n) \<notin> (\<lambda>i. at_addr tr m (word_at w c i)) ` set all_but_sp" using assms(6) that by fastforce
    ultimately show ?thesis by (simp add: m2_def peek_def saved_def puts_other)
  qed
  have m3: "undisturbed m3" "reg m3 x_sp = f" "m_x m3 x_ra = peek tr (word_at w f 1) m"
    using m2 pk [of 1] by (auto simp: m3_def reg_def)
  then have s4: "exec tr [Addi x_sp x_sp (32 * w), Jr x_ra] m3
      = Some (m3\<lparr>m_x := (m_x m3)(x_sp := f + 32 * of_int w), m_pc := peek tr (word_at w f 1) m\<rparr>)"
    by (simp add: set_reg_def reg_def)
  have "exec tr (naked_trap w) m = Some (m3\<lparr>m_x := (m_x m3)(x_sp := f + 32 * of_int w), m_pc := peek tr (word_at w f 1) m\<rparr>)"
    unfolding naked_trap_def append_assoc [symmetric] by (rule exec_seq [OF exec_seq [OF exec_seq [OF s1 s2] s3] s4])
  also have "(m_x m3)(x_sp := f + 32 * of_int w) = (\<lambda>n. if n = x_sp then f + 32 * of_int w
      else if 0 < n \<and> n < 32 then peek tr (word_at w f n) m else m_x m n)"
    by (auto simp: fun_eq_iff m3_def pk) (simp_all add: m2_def)
  finally show ?thesis by (simp add: m3_def m2_def)
qed

text \<open>The seven words of the portal cache, addressed from the register that holds its address.\<close>

lemma cache_words:
  assumes "\<forall>i<7. P i (word_at w k i)"
  shows "P 0 k" "P 1 (k + of_int w)" "P 2 (k + 2 * of_int w)" "P 3 (k + 3 * of_int w)" "P 4 (k + 4 * of_int w)"
    "P 5 (k + 5 * of_int w)" "P 6 (k + 6 * of_int w)"
  using assms [rule_format, of 0] assms [rule_format, of 1] assms [rule_format, of 2] assms [rule_format, of 3]
    assms [rule_format, of 4] assms [rule_format, of 5] assms [rule_format, of 6]
  by (simp_all add: word_at_def)

lemmas cache_aligned = cache_words [where P = "\<lambda>_. aligned"]
lemmas cache_slots = cache_words [where P = "\<lambda>i a. tr s a = K i" for tr s K]

lemma portal_entry_exec:
  fixes m :: "('a::len) word machine" and w :: int and tr :: "'a translation" and K :: "nat \<Rightarrow> 'a word"
  assumes "undisturbed m" "reg m x_a0 = k" "\<not> bit (m_mem m (K 3)) 1" "\<forall>i<7. aligned (word_at w k i)" "inj_on K {..<7}"
    and "\<forall>i<7. tr (m_csr m Satp) (word_at w k i) = K i" "\<forall>i<7. tr (m_mem m (K 2)) (word_at w k i) = K i"
  shows "exec tr (portal_entry w l1) m = Some (sret (m\<lparr>m_x := (m_x m)(x_a0 := m_mem m (K 0)),
    m_csr := (m_csr m)(Satp := m_mem m (K 2), Sstatus := m_mem m (K 3), Sepc := m_mem m (K 4), Stvec := l1, Sscratch := k),
    m_mem := (m_mem m)(K 1 := reg m x_a1, K 2 := m_csr m Satp, K 5 := m_csr m Stvec, K 6 := m_csr m Sscratch)\<rparr>))"
proof -
  have und: "m_super m" "\<not> bit (m_csr m Sstatus) 1" using assms(1) by (simp_all add: undisturbed_def)
  have k: "m_x m x_a0 = k" using assms(2) by (simp add: reg_def)
  have Kd: "K i = K j \<longleftrightarrow> i = j" if "i < 7" "j < 7" for i j using assms(5) that by (simp add: inj_on_eq_iff)
  show ?thesis unfolding portal_entry_def using assms(1,3) und k
    by (simp add: Let_def set_reg_def set_csr_def reg_def at_addr_def cache_aligned [OF assms(4)] cache_slots [where tr = tr and K = K, OF assms(6)]
        cache_slots [where tr = tr and K = K, OF assms(7)] Kd)
qed

lemma portal_trap_exec:
  fixes m :: "('a::len) word machine" and w :: int and tr :: "'a translation" and K :: "nat \<Rightarrow> 'a word"
  assumes "undisturbed m" "m_csr m Sscratch = k" "\<forall>i<7. aligned (word_at w k i)" "inj_on K {..<7}"
    and "\<forall>i<7. tr (m_csr m Satp) (word_at w k i) = K i" "\<forall>i<7. tr (m_mem m (K 2)) (word_at w k i) = K i"
  shows "exec tr (portal_trap w) m = Some (m\<lparr>m_x := (m_x m)(x_a0 := m_mem m (K 5)), m_pc := m_mem m (K 5),
    m_csr := (m_csr m)(Sscratch := m_mem m (K 6), Satp := m_mem m (K 2), Stvec := m_mem m (K 5)),
    m_mem := (m_mem m)(K 1 := reg m x_a1, K 0 := reg m x_a0, K 2 := m_csr m Satp)\<rparr>)"
proof -
  have und: "m_super m" "\<not> bit (m_csr m Sstatus) 1" using assms(1) by (simp_all add: undisturbed_def)
  have Kd: "K i = K j \<longleftrightarrow> i = j" if "i < 7" "j < 7" for i j using assms(4) that by (simp add: inj_on_eq_iff)
  show ?thesis unfolding portal_trap_def using assms(1,2) und
    by (simp add: Let_def set_reg_def set_csr_def reg_def at_addr_def cache_aligned [OF assms(3)]
        cache_slots [where tr = tr and K = K, OF assms(5)] cache_slots [where tr = tr and K = K, OF assms(6)] Kd)
qed

text \<open>The two halves of the assembly in \<^verbatim>\<open>execute\<close>, for operands in registers that the compiler may choose.\<close>

definition operands_ok :: "operands \<Rightarrow> bool" where
  "operands_ok r \<longleftrightarrow> distinct [r_ctx r, r_old_ss r, r_sepc r, r_sstatus r]
     \<and> {r_ctx r, r_old_ss r, r_sepc r, r_sstatus r} \<inter> {0, x_sp} = {}"

lemma execute_call_exec:
  fixes m :: "('a::len) word machine" and w :: int and tr :: "'a translation"
  assumes "undisturbed m" "operands_ok r" "\<not> bit (reg m (r_sstatus r)) 1" "s = reg m x_sp - 2 * of_int w"
    and "aligned (word_at w s 0)" "aligned (word_at w s 1)" "at_addr tr m (word_at w s 0) \<noteq> at_addr tr m (word_at w s 1)"
  shows "exec tr (execute_call w r t back) m = Some (m\<lparr>
    m_x := (m_x m)(r_old_ss r := m_csr m Sscratch, x_sp := s, x_ra := back), m_pc := t,
    m_csr := (m_csr m)(Sscratch := reg m (r_ctx r), Sepc := reg m (r_sepc r), Sstatus := reg m (r_sstatus r)),
    m_mem := (m_mem m)(at_addr tr m (word_at w s 0) := (if r_old_ss r = x_ra then m_csr m Sscratch else reg m x_ra),
      at_addr tr m (word_at w s 1) := m_csr m Sscratch)\<rparr>)"
proof -
  have und: "m_super m" "\<not> bit (m_csr m Sstatus) 1" using assms(1) by (simp_all add: undisturbed_def)
  have r: "r_old_ss r \<noteq> 0" "r_old_ss r \<noteq> x_sp" "r_sepc r \<noteq> 0" "r_sstatus r \<noteq> 0" "r_ctx r \<noteq> 0" "r_old_ss r \<noteq> r_sepc r" "r_old_ss r \<noteq> r_sstatus r"
    using assms(2) by (auto simp: operands_ok_def)
  show ?thesis unfolding execute_call_def using assms(1,3-) und r
    by (simp add: Let_def set_reg_def set_csr_def reg_def at_addr_def word_at_def)
qed

lemma execute_return_exec:
  fixes m :: "('a::len) word machine" and w :: int and tr :: "'a translation"
  assumes "undisturbed m" "operands_ok r" "reg m x_sp = s" "aligned (word_at w s 0)" "aligned (word_at w s 1)"
    and "peek tr (word_at w s 1) m = v" "r_old_ss r = x_ra \<longrightarrow> peek tr (word_at w s 0) m = v"
  shows "exec tr (execute_return w r) m = Some (m\<lparr>
    m_x := (m_x m)(r_old_ss r := v, x_ra := peek tr (word_at w s 0) m, x_sp := s + 2 * of_int w,
      r_sepc r := m_csr m Sepc, r_sstatus r := m_csr m Sstatus),
    m_csr := (m_csr m)(Sscratch := v)\<rparr>)"
proof -
  have und: "m_super m" "\<not> bit (m_csr m Sstatus) 1" using assms(1) by (simp_all add: undisturbed_def)
  have r: "r_old_ss r \<noteq> 0" "r_old_ss r \<noteq> x_sp" "r_sepc r \<noteq> 0" "r_sstatus r \<noteq> 0" "r_ctx r \<noteq> 0"
    using assms(2) by (auto simp: operands_ok_def)
  show ?thesis unfolding execute_return_def using assms(1,3-) und r
    by (simp add: Let_def set_reg_def set_csr_def reg_def at_addr_def word_at_def peek_def)
qed

section \<open>A stay in another address space\<close>

text \<open>
  The memory a switch uses, under the kernel's \<^verbatim>\<open>satp\<close> \<open>ks\<close>: 34 words of stack at \<open>f\<close>, the 33 words of the context at \<open>c\<close> up
  to \<^verbatim>\<open>sepc\<close>, and the 7 words of the portal cache at \<open>k\<close>. They are different words, and the cache is mapped at the same place
  under the \<^verbatim>\<open>satp\<close> \<open>us\<close> of the thread.
\<close>

definition own_words :: "int \<Rightarrow> 'a word \<Rightarrow> 'a word \<Rightarrow> ('a::len) word list" where
  "own_words w f c = map (word_at w f) [0..<34] @ map (word_at w c) [0..<33]"

definition area_ok :: "('a::len) translation \<Rightarrow> 'a word \<Rightarrow> 'a word \<Rightarrow> int \<Rightarrow> 'a word \<Rightarrow> 'a word \<Rightarrow> 'a word \<Rightarrow> bool" where
  "area_ok tr ks us w f c k \<longleftrightarrow>
     distinct (map (tr ks) (own_words w f c @ map (word_at w k) [0..<7]))
     \<and> list_all aligned (own_words w f c @ map (word_at w k) [0..<7])
     \<and> list_all (\<lambda>a. tr us a = tr ks a) (map (word_at w k) [0..<7])"

definition area :: "('a::len) translation \<Rightarrow> 'a word \<Rightarrow> int \<Rightarrow> 'a word \<Rightarrow> 'a word \<Rightarrow> 'a word \<Rightarrow> 'a word set" where
  "area tr ks w f c k = tr ks ` set (own_words w f c @ map (word_at w k) [0..<7])"

lemma area_iff:
  "a \<in> area tr ks w f c k \<longleftrightarrow>
     (\<exists>i<34. a = tr ks (word_at w f i)) \<or> (\<exists>i<33. a = tr ks (word_at w c i)) \<or> (\<exists>i<7. a = tr ks (word_at w k i))"
  by (auto simp: area_def own_words_def image_Un image_image)

lemma image_disjD: "f ` {..<a} \<inter> g ` {..<b} = {} \<Longrightarrow> i < a \<Longrightarrow> j < b \<Longrightarrow> f i \<noteq> g j" for a b :: nat
  by blast

lemma area_okD:
  assumes "area_ok tr ks us w f c k"
  shows "\<forall>i<34. aligned (word_at w f i)" "\<forall>i<33. aligned (word_at w c i)" "\<forall>i<7. aligned (word_at w k i)"
    "\<forall>i<7. tr us (word_at w k i) = tr ks (word_at w k i)"
    "inj_on (\<lambda>i. tr ks (word_at w f i)) {..<34}" "inj_on (\<lambda>i. tr ks (word_at w c i)) {..<33}"
    "inj_on (\<lambda>i. tr ks (word_at w k i)) {..<7}"
    "\<forall>i<34. \<forall>j<33. tr ks (word_at w f i) \<noteq> tr ks (word_at w c j)"
    "\<forall>i<34. \<forall>j<7. tr ks (word_at w f i) \<noteq> tr ks (word_at w k j)"
    "\<forall>i<33. \<forall>j<7. tr ks (word_at w c i) \<noteq> tr ks (word_at w k j)"
proof -
  let ?F = "\<lambda>i. tr ks (word_at w f i)" and ?C = "\<lambda>i. tr ks (word_at w c i)" and ?K = "\<lambda>i. tr ks (word_at w k i)"
  have "distinct (map ?F [0..<34] @ map ?C [0..<33] @ map ?K [0..<7])"
    using assms by (simp add: area_ok_def own_words_def comp_def)
  then have d: "inj_on ?F {..<34}" "inj_on ?C {..<33}" "inj_on ?K {..<7}"
      "?F ` {..<34} \<inter> ?C ` {..<33} = {}" "?F ` {..<34} \<inter> ?K ` {..<7} = {}" "?C ` {..<33} \<inter> ?K ` {..<7} = {}"
    by (simp_all only: distinct_append distinct_map set_append set_map set_upt atLeast0LessThan Int_Un_distrib Un_empty)
  from d(1-3) show "inj_on ?F {..<34}" "inj_on ?C {..<33}" "inj_on ?K {..<7}" .
  show "\<forall>i<34. \<forall>j<33. ?F i \<noteq> ?C j" "\<forall>i<34. \<forall>j<7. ?F i \<noteq> ?K j" "\<forall>i<33. \<forall>j<7. ?C i \<noteq> ?K j"
    using image_disjD [OF d(4)] image_disjD [OF d(5)] image_disjD [OF d(6)] by blast+
qed (use assms in \<open>auto simp: area_ok_def own_words_def list_all_iff\<close>)

lemma area_distinct:
  assumes "area_ok tr ks us w f c k" "\<And>i. F i = tr ks (word_at w f i)" "\<And>i. C i = tr ks (word_at w c i)" "\<And>i. K i = tr ks (word_at w k i)"
  shows "i < 34 \<Longrightarrow> j < 34 \<Longrightarrow> F i = F j \<longleftrightarrow> i = j" "i < 33 \<Longrightarrow> j < 33 \<Longrightarrow> C i = C j \<longleftrightarrow> i = j"
    "i < 7 \<Longrightarrow> j < 7 \<Longrightarrow> K i = K j \<longleftrightarrow> i = j" "i < 34 \<Longrightarrow> j < 33 \<Longrightarrow> F i \<noteq> C j" "i < 34 \<Longrightarrow> j < 33 \<Longrightarrow> C j \<noteq> F i"
    "i < 34 \<Longrightarrow> j < 7 \<Longrightarrow> F i \<noteq> K j" "i < 34 \<Longrightarrow> j < 7 \<Longrightarrow> K j \<noteq> F i" "i < 33 \<Longrightarrow> j < 7 \<Longrightarrow> C i \<noteq> K j" "i < 33 \<Longrightarrow> j < 7 \<Longrightarrow> K j \<noteq> C i"
  using area_okD(8) [OF assms(1), rule_format, of i j] area_okD(9) [OF assms(1), rule_format, of i j]
    area_okD(10) [OF assms(1), rule_format, of i j] inj_on_eq_iff [OF area_okD(5) [OF assms(1)]]
    inj_on_eq_iff [OF area_okD(6) [OF assms(1)]] inj_on_eq_iff [OF area_okD(7) [OF assms(1)]]
  by (auto simp: assms(2-4))

lemma sret_status_interrupts [simp]: "bit (sret_status s) (Suc 0) = bit s 5"
  by (auto simp: sret_status_def bit_simps dest: bit_imp_le_length)

lemma sret_simps [simp]:
  "m_x (sret m) = m_x m" "m_mem (sret m) = m_mem m" "m_pc (sret m) = m_csr m Sepc" "m_super (sret m) = bit (m_csr m Sstatus) 8"
  "m_csr (sret m) = (m_csr m)(Sstatus := sret_status (m_csr m Sstatus))" "reg (sret m) = reg m"
  by (simp_all add: sret_def reg_def fun_eq_iff)

text \<open>What the thread finds when it starts: \<open>m\<close> is the machine at the call of \<^verbatim>\<open>execute_naked\<close>, \<open>u\<close> the machine after both \<^verbatim>\<open>sret\<close>.\<close>

definition entered :: "('a::len) translation \<Rightarrow> int \<Rightarrow> 'a word image \<Rightarrow> 'a word \<Rightarrow> 'a word \<Rightarrow> 'a word \<Rightarrow> 'a word machine \<Rightarrow> 'a word machine \<Rightarrow> bool" where
  "entered tr w im f c k m u \<longleftrightarrow>
     (let F = (\<lambda>i. at_addr tr m (word_at w f i)); C = (\<lambda>i. at_addr tr m (word_at w c i)); K = (\<lambda>i. at_addr tr m (word_at w k i)) in
      m_pc u = m_mem m (K 4) \<and> m_super u = bit (m_mem m (K 3)) 8
      \<and> m_csr u Satp = m_mem m (K 2) \<and> m_csr u Sstatus = sret_status (m_mem m (K 3))
      \<and> m_csr u Stvec = at_portal_trap im \<and> m_csr u Sscratch = k
      \<and> (\<forall>n. 0 < n \<and> n < 32 \<longrightarrow> m_x u n = (if n = x_a0 then m_mem m (K 0) else m_mem m (C n)))
      \<and> (\<forall>n \<in> set all_but_sp. m_mem u (F n) = reg m n) \<and> m_mem u (F 32) = m_mem m (F 32) \<and> m_mem u (F 33) = m_mem m (F 33)
      \<and> m_mem u (C 0) = f \<and> m_mem u (K 2) = m_csr m Satp \<and> m_mem u (K 5) = at_trap im \<and> m_mem u (K 6) = c
      \<and> (\<forall>a. a \<notin> area tr (m_csr m Satp) w f c k \<longrightarrow> m_mem u a = m_mem m a))"

lemma enter_portal:
  fixes m :: "('a::len) word machine" and w :: int and tr :: "'a translation"
  assumes "undisturbed m" "m_csr m Sscratch = c" "m_csr m Sepc = at_portal im" "reg m x_sp = f + 32 * of_int w"
    and "bit (m_csr m Sstatus) 8" "\<not> bit (m_csr m Sstatus) 5"
    and "area_ok tr (m_csr m Satp) (peek tr (word_at w k 2) m) w f c k" "peek tr (word_at w c 10) m = k"
    and "\<not> bit (peek tr (word_at w k 3) m) 1"
  shows "\<exists>m1 u. exec tr (naked_entry w (at_trap im)) m = Some m1 \<and> m_super m1 \<and> m_pc m1 = at_portal im
    \<and> exec tr (portal_entry w (at_portal_trap im)) m1 = Some u \<and> entered tr w im f c k m u"
proof -
  define F where "F i = at_addr tr m (word_at w f i)" for i
  define C where "C i = at_addr tr m (word_at w c i)" for i
  define K where "K i = at_addr tr m (word_at w k i)" for i
  note ok = area_okD [OF assms(7), folded at_addr_def, folded F_def C_def K_def]
  note ne = area_distinct [OF assms(7), folded at_addr_def, of F C K, OF F_def C_def K_def]
  let ?m0 = "m\<lparr>m_x := \<lambda>n. if 0 < n \<and> n < 32 then m_mem m (C n) else m_x m n,
    m_csr := (m_csr m)(Stvec := at_trap im), m_mem := (saved tr w f all_but_sp m)(C 0 := f)\<rparr>"
  have c0: "at_addr tr m c = C 0" by (simp add: C_def word_at_def)
  have pC: "peek tr (word_at w c n) m = m_mem m (C n)" for n by (simp add: peek_def C_def)
  have f: "reg m x_sp - 32 * of_int w = f" using assms(4) by simp
  have "inj_on (\<lambda>n. at_addr tr m (word_at w c n)) {..<32}" using ok(6) by (simp add: C_def [symmetric] inj_on_def)
  moreover have "\<forall>n<32. \<forall>i<32. at_addr tr m (word_at w f n) \<noteq> at_addr tr m (word_at w c i)" using ok(8) by (simp add: F_def C_def)
  ultimately have s1: "exec tr (naked_entry w (at_trap im)) m = Some (sret ?m0)"
    using naked_entry_exec [where m = m and w = w and tr = tr and ?l1.0 = "at_trap im", unfolded assms(2) f] assms(1) ok(1,2)
    by (simp add: pC c0 cong: if_cong)
  define m1 where "m1 = sret ?m0"
  have mem1: "m_mem m1 = (puts F (reg m) all_but_sp (m_mem m))(C 0 := f)" by (simp add: m1_def saved_def F_def [symmetric, abs_def])
  have puts: "puts F (reg m) all_but_sp (m_mem m) a = m_mem m a" if "\<And>n. n < 32 \<Longrightarrow> a \<noteq> F n" for a
    by (rule puts_other) (use that in force)
  have K: "m_mem m1 (K i) = m_mem m (K i)" if "i < 7" for i
    using that by (simp add: mem1 puts ne)
  have satp: "m_csr m1 Satp = m_csr m Satp" by (simp add: m1_def)
  have m1: "undisturbed m1" "reg m1 x_a0 = k" using assms by (simp_all add: m1_def undisturbed_def reg_def pC)
  have tk: "\<forall>i<7. tr (m_csr m1 Satp) (word_at w k i) = K i" by (simp add: satp K_def at_addr_def)
  have tu: "\<forall>i<7. tr (m_mem m1 (K 2)) (word_at w k i) = K i" using ok(4) K [of 2] by (simp add: K_def peek_def at_addr_def)
  have st: "\<not> bit (m_mem m1 (K 3)) 1" using assms(9) K [of 3] by (simp add: K_def peek_def)
  have "inj_on K {..<7}" by (simp add: inj_on_def ne)
  from portal_entry_exec [OF m1 st ok(3) this tk tu]
  have s2: "exec tr (portal_entry w (at_portal_trap im)) m1 = Some (sret (m1\<lparr>m_x := (m_x m1)(x_a0 := m_mem m (K 0)),
      m_csr := (m_csr m1)(Satp := m_mem m (K 2), Sstatus := m_mem m (K 3), Sepc := m_mem m (K 4), Stvec := at_portal_trap im, Sscratch := k),
      m_mem := (m_mem m1)(K 1 := reg m1 x_a1, K 2 := m_csr m Satp, K 5 := m_csr m1 Stvec, K 6 := m_csr m1 Sscratch)\<rparr>))"
    (is "_ = Some ?u") by (simp add: K satp)
  have cs: "m_csr m1 Stvec = at_trap im" "m_csr m1 Sscratch = c" using assms(2) by (simp_all add: m1_def)
  have xs: "m_x m1 n = m_mem m (C n)" if "0 < n" "n < 32" for n using that by (simp add: m1_def)
  have regs: "puts F (reg m) all_but_sp (m_mem m) (F n) = reg m n" if "n \<in> set all_but_sp" for n
    by (rule puts_at) (use that in \<open>auto simp: inj_on_def ne\<close>)
  have out: "((m_mem m1)(K 1 := v1, K 2 := v2, K 5 := v5, K 6 := v6)) a = m_mem m a" if "a \<notin> area tr (m_csr m Satp) w f c k" for a v1 v2 v5 v6
  proof -
    have "\<forall>i<34. a \<noteq> F i" "\<forall>i<33. a \<noteq> C i" "\<forall>i<7. a \<noteq> K i" using that by (auto simp: area_iff F_def C_def K_def at_addr_def)
    then show ?thesis by (simp add: mem1 puts)
  qed
  have "entered tr w im f c k m ?u" unfolding entered_def Let_def F_def [symmetric] C_def [symmetric] K_def [symmetric]
    using out by (simp add: ne mem1 puts regs cs xs)
  with s1 s2 assms(3,5) show ?thesis unfolding m1_def by fastforce
qed

text \<open>What the kernel finds when \<^verbatim>\<open>execute_naked\<close> returns: \<open>u\<close> is the machine at the trap, \<open>m'\<close> the machine after \<^verbatim>\<open>ret\<close>.\<close>

definition came_back :: "('a::len) translation \<Rightarrow> int \<Rightarrow> 'a word \<Rightarrow> 'a word \<Rightarrow> 'a word \<Rightarrow> 'a word machine \<Rightarrow> 'a word machine \<Rightarrow> 'a word machine \<Rightarrow> bool" where
  "came_back tr w f c k m u m' \<longleftrightarrow>
     (let F = (\<lambda>i. at_addr tr m (word_at w f i)); C = (\<lambda>i. at_addr tr m (word_at w c i)); K = (\<lambda>i. at_addr tr m (word_at w k i)) in
      undisturbed m' \<and> m_pc m' = reg m x_ra
      \<and> (\<forall>n. 0 < n \<and> n < 32 \<longrightarrow> m_x m' n = reg m n)
      \<and> m_csr m' Satp = m_csr m Satp \<and> m_csr m' Sscratch = c \<and> m_csr m' Sepc = m_csr u Sepc \<and> m_csr m' Sstatus = m_csr u Sstatus
      \<and> (\<forall>n. 0 < n \<and> n < 32 \<and> n \<noteq> x_a0 \<longrightarrow> m_mem m' (C n) = reg u n) \<and> m_mem m' (K 0) = reg u x_a0
      \<and> m_mem m' (F 32) = m_mem m (F 32) \<and> m_mem m' (F 33) = m_mem m (F 33)
      \<and> (\<forall>a. a \<notin> area tr (m_csr m Satp) w f c k \<longrightarrow> m_mem m' a = m_mem u a))"

lemma leave_portal:
  fixes m :: "('a::len) word machine" and w :: int and tr :: "'a translation"
  assumes "reg m x_sp = f + 32 * of_int w"
    and "area_ok tr (m_csr m Satp) (peek tr (word_at w k 2) m) w f c k" "entered tr w im f c k m u0"
    and "undisturbed u" "m_csr u Satp = m_csr u0 Satp" "m_csr u Sscratch = m_csr u0 Sscratch"
    and "\<forall>a \<in> area tr (m_csr m Satp) w f c k. m_mem u a = m_mem u0 a"
  shows "\<exists>m1 m2. exec tr (portal_trap w) u = Some m1 \<and> m_super m1 \<and> m_pc m1 = at_trap im
    \<and> exec tr (naked_trap w) m1 = Some m2 \<and> came_back tr w f c k m u m2"
proof -
  define F where "F i = at_addr tr m (word_at w f i)" for i
  define C where "C i = at_addr tr m (word_at w c i)" for i
  define K where "K i = at_addr tr m (word_at w k i)" for i
  note ok = area_okD [OF assms(2), folded at_addr_def, folded F_def C_def K_def]
  note ne = area_distinct [OF assms(2), folded at_addr_def, of F C K, OF F_def C_def K_def]
  note en = assms(3) [unfolded entered_def Let_def, folded F_def C_def K_def]
  have "F i \<in> area tr (m_csr m Satp) w f c k" if "i < 34" for i using that by (auto simp: area_iff F_def at_addr_def)
  then have uF: "m_mem u (F i) = m_mem u0 (F i)" if "i < 34" for i using assms(7) that by blast
  have "C i \<in> area tr (m_csr m Satp) w f c k" if "i < 33" for i using that by (auto simp: area_iff C_def at_addr_def)
  then have uC: "m_mem u (C 0) = f" using assms(7) en by simp
  have "K i \<in> area tr (m_csr m Satp) w f c k" if "i < 7" for i using that by (auto simp: area_iff K_def at_addr_def)
  then have uK: "m_mem u (K 2) = m_csr m Satp" "m_mem u (K 5) = at_trap im" "m_mem u (K 6) = c" using assms(7) en by simp_all
  have us: "m_csr u Satp = peek tr (word_at w k 2) m" "m_csr u Sscratch = k" using assms(5,6) en by (simp_all add: peek_def K_def)
  define m1 where "m1 = u\<lparr>m_x := (m_x u)(x_a0 := at_trap im), m_pc := at_trap im,
    m_csr := (m_csr u)(Sscratch := c, Satp := m_csr m Satp, Stvec := at_trap im),
    m_mem := (m_mem u)(K 1 := reg u x_a1, K 0 := reg u x_a0, K 2 := m_csr u Satp)\<rparr>"
  have tu: "\<forall>i<7. tr (m_csr u Satp) (word_at w k i) = K i" using ok(4) by (simp add: us)
  have tk: "\<forall>i<7. tr (m_mem u (K 2)) (word_at w k i) = K i" unfolding uK(1) by (simp add: K_def at_addr_def)
  have "inj_on K {..<7}" by (simp add: inj_on_def ne)
  from portal_trap_exec [OF assms(4) us(2) ok(3) this tu tk]
  have s1: "exec tr (portal_trap w) u = Some m1" by (simp add: m1_def uK)
  define m2 where "m2 = m1\<lparr>m_x := \<lambda>n. if n = x_sp then f + 32 * of_int w else if 0 < n \<and> n < 32 then m_mem m1 (F n) else m_x m1 n,
    m_pc := m_mem m1 (F 1), m_mem := (puts C (reg m1) all_but_sp (m_mem m1))(C 2 := reg m1 x_sp)\<rparr>"
  have m1: "at_addr tr m1 = at_addr tr m" "m_csr m1 Sscratch = c" "undisturbed m1"
    using assms(4) by (auto simp: m1_def at_addr_def undisturbed_def)
  have "m_mem m1 (C 0) = f" using uC by (simp add: m1_def ne)
  then have f: "peek tr c m1 = f" by (simp add: peek_def m1(1)) (simp add: C_def word_at_def)
  have pF: "peek tr (word_at w f n) m1 = m_mem m1 (F n)" for n by (simp add: peek_def m1(1) F_def)
  have "saved tr w c all_but_sp m1 = puts C (reg m1) all_but_sp (m_mem m1)" by (simp add: saved_def m1(1) C_def [abs_def])
  moreover have "inj_on (\<lambda>n. at_addr tr m (word_at w c n)) {..<32}" by (simp add: C_def [symmetric] inj_on_def ne)
  moreover have "\<forall>n<32. \<forall>i<32. at_addr tr m (word_at w f n) \<noteq> at_addr tr m (word_at w c i)" using ok(8) by (simp add: F_def C_def)
  ultimately have s2: "exec tr (naked_trap w) m1 = Some m2"
    using naked_trap_exec [where m = m1 and w = w and tr = tr, unfolded m1(1,2) f] m1(3) ok(1,2)
    by (simp add: m2_def pF C_def cong: if_cong)
  have kF: "m_mem m1 (F n) = m_mem u (F n)" if "n < 34" for n using that by (simp add: m1_def ne)
  have kept: "m_mem m2 a = m_mem m1 a" if "\<And>n. 0 < n \<Longrightarrow> n < 32 \<Longrightarrow> a \<noteq> C n" for a
  proof -
    have "a \<notin> C ` set all_but_sp" "a \<noteq> C 2" using that by (auto simp: image_iff)
    then show ?thesis by (simp add: m2_def puts_other)
  qed
  have "m_mem m2 (C n) = reg m1 n" if "0 < n" "n < 32" for n
  proof (cases "n = x_sp")
    case False
    have "inj_on C (set all_but_sp)" by (simp add: inj_on_def ne)
    then have "puts C (reg m1) all_but_sp (m_mem m1) (C n) = reg m1 n" by (rule puts_at [rotated]) (use that False in simp_all)
    then show ?thesis using False that by (simp add: m2_def ne)
  qed (simp add: m2_def)
  moreover have "m_mem m2 a = m_mem u a" if "a \<notin> area tr (m_csr m Satp) w f c k" for a
  proof -
    have "\<forall>i<33. a \<noteq> C i" "\<forall>i<7. a \<noteq> K i" using that by (auto simp: area_iff C_def K_def at_addr_def)
    then show ?thesis by (simp add: kept) (simp add: m1_def)
  qed
  moreover have "m_mem m2 (F n) = m_mem m1 (F n)" if "n < 34" for n using that by (simp add: kept ne)
  moreover have "m_mem m2 (K 0) = reg u x_a0" by (simp add: kept ne) (simp add: m1_def ne)
  ultimately have "came_back tr w f c k m u m2" unfolding came_back_def Let_def F_def [symmetric] C_def [symmetric] K_def [symmetric]
    using en uF kF assms(1) m1(3)
    by simp (auto simp: m2_def m1_def reg_def)
  then show ?thesis using s1 s2 m1(3) by (auto simp: m1_def undisturbed_def)
qed

text \<open>
  What is asked of the hardware and of the thread between \<^verbatim>\<open>sret\<close> and the trap that ends the stay: the trap goes to
  \<^verbatim>\<open>stvec\<close> in supervisor mode with interrupts off, and the thread has changed neither the control registers of the
  supervisor nor the words in \<open>A\<close>, which its address space does not map or, as the portal, does not let it write.
\<close>

definition traps_back :: "('a::len) word set \<Rightarrow> ('a word machine \<Rightarrow> 'a word machine) \<Rightarrow> bool" where
  "traps_back A user \<longleftrightarrow> (\<forall>u. undisturbed (user u) \<and> m_pc (user u) = m_csr u Stvec
     \<and> (\<forall>r \<in> {Stvec, Sscratch, Satp}. m_csr (user u) r = m_csr u r) \<and> (\<forall>a \<in> A. m_mem (user u) a = m_mem u a))"

lemma switch_block:
  "m_super m \<Longrightarrow> m_pc m \<noteq> at_back im \<Longrightarrow> text_at w im (m_pc m) = Some b \<Longrightarrow> exec tr b m = Some m'
     \<Longrightarrow> switch tr w im user m = switch tr w im user m'"
  by (subst switch.simps) simp

lemma switch_user:
  "m_super m \<longrightarrow> m_pc m \<notin> set (code_addrs im) \<Longrightarrow> switch tr w im user m = switch tr w im user (user m)"
  by (subst switch.simps) (auto simp: text_at_def code_addrs_def)

lemma switch_back: "m_super m \<Longrightarrow> m_pc m = at_back im \<Longrightarrow> switch tr w im user m = Some m"
  by (subst switch.simps) simp

lemma switch_roundtrip:
  fixes m :: "('a::len) word machine" and w :: int and tr :: "'a translation"
  assumes "undisturbed m" "m_csr m Sscratch = c" "m_csr m Sepc = at_portal im" "reg m x_sp = f + 32 * of_int w"
    and "bit (m_csr m Sstatus) 8" "\<not> bit (m_csr m Sstatus) 5"
    and "area_ok tr (m_csr m Satp) (peek tr (word_at w k 2) m) w f c k" "peek tr (word_at w c 10) m = k"
    and "\<not> bit (peek tr (word_at w k 3) m) 1"
    and "m_pc m = at_naked im" "reg m x_ra = at_back im" "distinct (code_addrs im)"
    and "traps_back (area tr (m_csr m Satp) w f c k) user"
    and "bit (peek tr (word_at w k 3) m) 8 \<longrightarrow> peek tr (word_at w k 4) m \<notin> set (code_addrs im)"
  shows "\<exists>u m'. switch tr w im user m = Some m' \<and> entered tr w im f c k m u \<and> came_back tr w f c k m (user u) m'"
proof -
  from enter_portal [OF assms(1-9)] obtain m1 u where e: "exec tr (naked_entry w (at_trap im)) m = Some m1"
    "m_super m1" "m_pc m1 = at_portal im" "exec tr (portal_entry w (at_portal_trap im)) m1 = Some u" "entered tr w im f c k m u" by blast
  have t: "undisturbed (user u)" "m_pc (user u) = at_portal_trap im" "m_csr (user u) Satp = m_csr u Satp"
    "m_csr (user u) Sscratch = m_csr u Sscratch" "\<forall>a \<in> area tr (m_csr m Satp) w f c k. m_mem (user u) a = m_mem u a"
    using assms(13) e(5) by (simp_all add: traps_back_def entered_def Let_def)
  from leave_portal [OF assms(4,7) e(5) t(1,3-5)] obtain m2 m' where l: "exec tr (portal_trap w) (user u) = Some m2"
    "m_super m2" "m_pc m2 = at_trap im" "exec tr (naked_trap w) m2 = Some m'" "came_back tr w f c k m (user u) m'" by blast
  have "switch tr w im user m = switch tr w im user m1"
    by (rule switch_block [OF _ _ _ e(1)]) (use assms(1,10,12) in \<open>auto simp: undisturbed_def code_addrs_def text_at_def\<close>)
  also have "\<dots> = switch tr w im user u"
    by (rule switch_block [OF _ _ _ e(4)]) (use e(2,3) assms(12) in \<open>auto simp: code_addrs_def text_at_def\<close>)
  also have "\<dots> = switch tr w im user (user u)"
    by (rule switch_user) (use e(5) assms(14) in \<open>simp add: entered_def Let_def peek_def\<close>)
  also have "\<dots> = switch tr w im user m2"
    by (rule switch_block [OF _ _ _ l(1)]) (use t(1,2) assms(12) in \<open>auto simp: undisturbed_def code_addrs_def text_at_def\<close>)
  also have "\<dots> = switch tr w im user m'"
    by (rule switch_block [OF _ _ _ l(4)]) (use l(2,3) assms(12) in \<open>auto simp: code_addrs_def text_at_def\<close>)
  also have "\<dots> = Some m'"
    by (rule switch_back) (use l(5) assms(11) in \<open>auto simp: came_back_def Let_def undisturbed_def\<close>)
  finally show ?thesis using e(5) l(5) by blast
qed

section \<open>Executing a thread through the portal\<close>

text \<open>The two words that \<^verbatim>\<open>execute\<close> pushes lie above the 32 words of \<^verbatim>\<open>execute_naked\<close>.\<close>

lemma word_at_plus: "word_at w (f + of_nat i * of_int w) j = word_at w f (i + j)"
  by (simp add: word_at_def algebra_simps)

lemma portal_status:
  "bit (build_sstatus s True False) 8" "\<not> bit (build_sstatus s True False) 5"
  "\<not> bit s 1 \<Longrightarrow> \<not> bit (build_sstatus s su i) 1"
  by (simp_all add: bit_build_sstatus)

definition operand_regs :: "operands \<Rightarrow> nat set" where
  "operand_regs r = {r_ctx r, r_old_ss r, r_sepc r, r_sstatus r}"

text \<open>The machine at the entry of \<^verbatim>\<open>execute_naked\<close>: \<open>m\<close> is the machine before the \<^verbatim>\<open>asm!\<close> block.\<close>

definition called ::
    "64 translation \<Rightarrow> operands \<Rightarrow> usize image \<Rightarrow> usize \<Rightarrow> usize \<Rightarrow> usize \<Rightarrow> usize \<Rightarrow> usize machine \<Rightarrow> usize machine \<Rightarrow> bool" where
  "called tr r im f c pc st m m1 \<longleftrightarrow>
     (let F = (\<lambda>i. at_addr tr m (word_at 8 f i)) in
      m_super m1 \<and> m_pc m1 = at_naked im \<and> reg m1 x_ra = at_back im \<and> reg m1 x_sp = f + 32 * 8
      \<and> m_csr m1 = (m_csr m)(Sscratch := c, Sepc := pc, Sstatus := st)
      \<and> m_mem m1 (F 33) = m_csr m Sscratch \<and> (r_old_ss r = x_ra \<longrightarrow> m_mem m1 (F 32) = m_csr m Sscratch)
      \<and> (x_ra \<notin> operand_regs r \<longrightarrow> m_mem m1 (F 32) = reg m x_ra)
      \<and> (\<forall>n. n \<notin> operand_regs r \<union> {x_ra, x_sp} \<longrightarrow> reg m1 n = reg m n)
      \<and> (\<forall>a. a \<noteq> F 32 \<and> a \<noteq> F 33 \<longrightarrow> m_mem m1 a = m_mem m a))"

lemma execute_called:
  fixes m :: "usize machine" and f c k :: usize
  assumes "undisturbed m" "operands_ok r" "reg m x_sp = f + 34 * 8" "area_ok tr (m_csr m Satp) us 8 f c k" "\<not> bit st 1"
  shows "\<exists>m1. exec tr (execute_call 8 r (at_naked im) (at_back im)) (with_operands r c pc st m) = Some m1 \<and> called tr r im f c pc st m m1"
proof -
  define s where "s = f + of_nat 32 * of_int 8"
  have s: "word_at 8 s 0 = word_at 8 f 32" "word_at 8 s 1 = word_at 8 f 33" by (simp_all only: s_def word_at_plus) simp_all
  note ok = area_okD [OF assms(4)]
  define m0 where "m0 = with_operands r c pc st m"
  have m0: "undisturbed m0" "at_addr tr m0 = at_addr tr m" "m_mem m0 = m_mem m" "m_csr m0 = m_csr m" "m_super m0 = m_super m"
    "reg m0 (r_ctx r) = c" "reg m0 (r_sepc r) = pc" "reg m0 (r_sstatus r) = st" "reg m0 x_sp = f + 34 * 8"
    "n \<notin> {r_ctx r, r_sepc r, r_sstatus r} \<Longrightarrow> reg m0 n = reg m n" for n
    using assms(1-3) by (auto simp: m0_def with_operands_def operands_ok_def)
  have sp: "s = reg m0 x_sp - 2 * of_int 8" by (simp add: m0(9) s_def)
  have al: "aligned (word_at 8 s 0)" "aligned (word_at 8 s 1)" unfolding s using ok(1) by simp_all
  have ne: "at_addr tr m (word_at 8 f 32) \<noteq> at_addr tr m (word_at 8 f 33)" using inj_onD [OF ok(5), of 32 33] by (auto simp: at_addr_def)
  then have "at_addr tr m0 (word_at 8 s 0) \<noteq> at_addr tr m0 (word_at 8 s 1)" unfolding s m0(2) .
  from execute_call_exec [OF m0(1) assms(2) assms(5) [folded m0(8)] sp al this]
  have "exec tr (execute_call 8 r (at_naked im) (at_back im)) m0 = Some (m0\<lparr>
    m_x := (m_x m0)(r_old_ss r := m_csr m Sscratch, x_sp := s, x_ra := at_back im), m_pc := at_naked im,
    m_csr := (m_csr m)(Sscratch := c, Sepc := pc, Sstatus := st),
    m_mem := (m_mem m)(at_addr tr m (word_at 8 f 32) := (if r_old_ss r = x_ra then m_csr m Sscratch else reg m0 x_ra),
      at_addr tr m (word_at 8 f 33) := m_csr m Sscratch)\<rparr>)" (is "_ = Some ?m1") by (simp only: m0 s)
  moreover have "reg ?m1 n = reg m n" if "n \<notin> operand_regs r \<union> {x_ra, x_sp}" for n
    using m0(10) [of n] that by (auto simp: operand_regs_def reg_def)
  then have "called tr r im f c pc st m ?m1" unfolding called_def Let_def
    using assms(1) ne m0(5) m0(10) [of x_ra] by (auto simp: s_def operand_regs_def undisturbed_def)
  ultimately show ?thesis unfolding m0_def by blast
qed

lemma execute_returned:
  fixes m :: "usize machine" and f c k :: usize
  assumes "operands_ok r" "reg m x_sp = f + 34 * 8" "area_ok tr (m_csr m Satp) us 8 f c k"
    and "called tr r im f c pc st m m1" "came_back tr 8 f c k m1 v n3"
  shows "\<exists>n4. exec tr (execute_return 8 r) n3 = Some n4 \<and> undisturbed n4 \<and> reg n4 (r_sepc r) = m_csr v Sepc \<and> reg n4 (r_sstatus r) = m_csr v Sstatus
    \<and> m_csr n4 Satp = m_csr m Satp \<and> m_csr n4 Sscratch = m_csr m Sscratch \<and> m_mem n4 = m_mem n3
    \<and> (\<forall>n < 32. n \<notin> operand_regs r \<longrightarrow> reg n4 n = reg m n)"
proof -
  define F where "F i = at_addr tr m (word_at 8 f i)" for i
  define s where "s = f + of_nat 32 * of_int 8"
  have s: "word_at 8 s 0 = word_at 8 f 32" "word_at 8 s 1 = word_at 8 f 33" by (simp_all only: s_def word_at_plus) simp_all
  have al: "aligned (word_at 8 s 0)" "aligned (word_at 8 s 1)" unfolding s using area_okD(1) [OF assms(3)] by simp_all
  note ca = assms(4) [unfolded called_def Let_def, folded F_def]
  have a1: "at_addr tr m1 = at_addr tr m" using ca by (simp add: at_addr_def fun_eq_iff)
  note re = assms(5) [unfolded came_back_def Let_def a1, folded F_def]
  have a3: "at_addr tr n3 = at_addr tr m" using re ca by (simp add: at_addr_def fun_eq_iff)
  have n3: "undisturbed n3" "reg n3 x_sp = s" using re ca by (simp_all add: reg_def s_def)
  have S1: "peek tr (word_at 8 s 1) n3 = m_csr m Sscratch" unfolding peek_def a3 s F_def [symmetric] using re ca by simp
  have S0: "peek tr (word_at 8 s 0) n3 = m_mem m1 (F 32)" unfolding peek_def a3 s F_def [symmetric] using re by simp
  then have "r_old_ss r = x_ra \<longrightarrow> peek tr (word_at 8 s 0) n3 = m_csr m Sscratch" using ca by simp
  from execute_return_exec [OF n3(1) assms(1) n3(2) al S1 this]
  have "exec tr (execute_return 8 r) n3 = Some (n3\<lparr>m_x := (m_x n3)(r_old_ss r := m_csr m Sscratch, x_ra := m_mem m1 (F 32), x_sp := s + 2 * of_int 8,
      r_sepc r := m_csr v Sepc, r_sstatus r := m_csr v Sstatus), m_csr := (m_csr n3)(Sscratch := m_csr m Sscratch)\<rparr>)" (is "_ = Some ?n4")
    using re by (simp add: S0)
  moreover have "reg ?n4 n = reg m n" if n: "n < 32" "n \<notin> operand_regs r" for n
  proof -
    consider "n = 0" | "n = x_ra" | "n = x_sp" | "n \<noteq> 0" "n \<notin> {x_ra, x_sp}" by blast
    then show ?thesis
    proof cases
      case 4
      then have "m_x n3 n = reg m n" using re ca n by simp
      with 4 n show ?thesis by (simp add: operand_regs_def reg_def)
    qed (use n ca assms(2) in \<open>simp_all add: operand_regs_def reg_def s_def\<close>)
  qed
  moreover have "undisturbed ?n4" using n3(1) by (simp add: undisturbed_def)
  moreover have "reg ?n4 (r_sepc r) = m_csr v Sepc" "reg ?n4 (r_sstatus r) = m_csr v Sstatus"
    using assms(1) by (auto simp: operands_ok_def)
  ultimately show ?thesis using re ca by (intro exI [of _ ?n4]) simp
qed

text \<open>One stay of the thread, as \<^verbatim>\<open>LocalContext::execute\<close> sees it: \<open>u\<close> is the machine when the thread starts, \<open>v\<close> at its trap.\<close>

definition stay ::
    "64 translation \<Rightarrow> operands \<Rightarrow> usize \<Rightarrow> usize \<Rightarrow> usize \<Rightarrow> usize machine \<Rightarrow> usize machine \<Rightarrow> usize machine \<Rightarrow> usize machine \<Rightarrow> bool" where
  "stay tr r f c k m u v m' \<longleftrightarrow>
     m_pc u = peek tr (word_at 8 k 4) m \<and> m_super u = bit (peek tr (word_at 8 k 3) m) 8
     \<and> m_csr u Satp = peek tr (word_at 8 k 2) m \<and> m_csr u Sstatus = sret_status (peek tr (word_at 8 k 3) m)
     \<and> (\<forall>n. 0 < n \<and> n < 32 \<longrightarrow> reg u n = (if n = x_a0 then peek tr (word_at 8 k 0) m else peek tr (word_at 8 c n) m))
     \<and> undisturbed m' \<and> m_csr m' Satp = m_csr m Satp \<and> m_csr m' Sscratch = m_csr m Sscratch
     \<and> (\<forall>n < 32. n \<notin> operand_regs r \<longrightarrow> reg m' n = reg m n)
     \<and> (\<forall>n. 0 < n \<and> n < 32 \<and> n \<noteq> x_a0 \<longrightarrow> peek tr (word_at 8 c n) m' = reg v n)
     \<and> peek tr (word_at 8 k 0) m' = reg v x_a0 \<and> peek tr (word_at 8 c 32) m' = m_csr v Sepc
     \<and> (\<forall>a. a \<notin> area tr (m_csr m Satp) 8 f c k \<longrightarrow> m_mem u a = m_mem m a \<and> m_mem m' a = m_mem v a)"

lemma called_then_stay:
  fixes m :: "usize machine" and f c k :: usize
  assumes "area_ok tr (m_csr m Satp) us 8 f c k" "called tr r im f c pc st m m1" "entered tr 8 im f c k m1 u" "came_back tr 8 f c k m1 v n3"
    and "undisturbed n4" "m_csr n4 Satp = m_csr m Satp" "m_csr n4 Sscratch = m_csr m Sscratch" "m_mem n4 = m_mem n3"
    and "\<forall>n < 32. n \<notin> operand_regs r \<longrightarrow> reg n4 n = reg m n"
  shows "stay tr r f c k m u v (poke tr (word_at 8 c 32) (m_csr v Sepc) n4)"
proof -
  define F where "F i = at_addr tr m (word_at 8 f i)" for i
  define C where "C i = at_addr tr m (word_at 8 c i)" for i
  define K where "K i = at_addr tr m (word_at 8 k i)" for i
  note ne = area_distinct [OF assms(1), folded at_addr_def, of F C K, OF F_def C_def K_def]
  note ca = assms(2) [unfolded called_def Let_def, folded F_def]
  have a1: "at_addr tr m1 = at_addr tr m" "m_csr m1 Satp = m_csr m Satp" using ca by (simp_all add: at_addr_def fun_eq_iff)
  note en = assms(3) [unfolded entered_def Let_def a1, folded F_def C_def K_def]
  note re = assms(4) [unfolded came_back_def Let_def a1, folded F_def C_def K_def]
  have pk: "peek tr (word_at 8 c i) m = m_mem m (C i)" "peek tr (word_at 8 k i) m = m_mem m (K i)" for i
    by (simp_all add: peek_def C_def K_def)
  have m1: "i < 33 \<Longrightarrow> m_mem m1 (C i) = m_mem m (C i)" "i < 7 \<Longrightarrow> m_mem m1 (K i) = m_mem m (K i)" for i using ca by (simp_all add: ne)
  let ?m' = "poke tr (word_at 8 c 32) (m_csr v Sepc) n4"
  have pk': "peek tr (word_at 8 c i) ?m' = ((m_mem n3)(C 32 := m_csr v Sepc)) (C i)"
    "peek tr (word_at 8 k i) ?m' = ((m_mem n3)(C 32 := m_csr v Sepc)) (K i)" for i
    using assms(6,8) by (simp_all add: peek_def poke_def at_addr_def C_def K_def)
  have "m_mem u a = m_mem m a \<and> m_mem ?m' a = m_mem v a" if "a \<notin> area tr (m_csr m Satp) 8 f c k" for a
  proof -
    have "\<forall>i<34. a \<noteq> F i" "\<forall>i<33. a \<noteq> C i" using that by (auto simp: area_iff F_def C_def at_addr_def)
    then show ?thesis using en re ca that assms(6,8) by (simp add: poke_def at_addr_def C_def)
  qed
  moreover have "undisturbed ?m'" "m_csr ?m' = m_csr n4" "reg ?m' = reg n4" using assms(5) by (auto simp: poke_def reg_def)
  ultimately show ?thesis unfolding stay_def pk pk' using en re assms(6,7,9) by (simp add: m1 ne reg_def)
qed

lemma local_execute_portal:
  fixes m :: "usize machine" and f c k :: usize
  assumes "undisturbed m" "operands_ok r" "distinct (code_addrs im)" "reg m x_sp = f + 34 * 8"
    and "area_ok tr (m_csr m Satp) (peek tr (word_at 8 k 2) m) 8 f c k" "traps_back (area tr (m_csr m Satp) 8 f c k) user"
    and "peek tr (word_at 8 c 32) m = at_portal im" "peek tr (word_at 8 c 10) m = k"
    and "\<not> bit (peek tr (word_at 8 k 3) m) 1"
    and "bit (peek tr (word_at 8 k 3) m) 8 \<longrightarrow> peek tr (word_at 8 k 4) m \<notin> set (code_addrs im)"
  shows "\<exists>u m'. local_execute tr r im user c True False m = Some (m', m_csr (user u) Sstatus) \<and> stay tr r f c k m u (user u) m'"
proof -
  define st where "st = build_sstatus (m_csr m Sstatus) True False"
  have st: "\<not> bit st 1" "bit st 8" "\<not> bit st 5" using assms(1) portal_status by (auto simp: st_def undisturbed_def)
  from execute_called [OF assms(1,2,4,5) st(1)] obtain m1 where
    c1: "exec tr (execute_call 8 r (at_naked im) (at_back im)) (with_operands r c (at_portal im) st m) = Some m1"
    and ca: "called tr r im f c (at_portal im) st m m1" by blast
  have a1: "at_addr tr m1 = at_addr tr m" "m_csr m1 Satp = m_csr m Satp" using ca by (simp_all add: called_def Let_def at_addr_def fun_eq_iff)
  note ne = area_distinct [OF assms(5) refl refl refl, folded at_addr_def]
  have pk: "i < 33 \<Longrightarrow> peek tr (word_at 8 c i) m1 = peek tr (word_at 8 c i) m" "i < 7 \<Longrightarrow> peek tr (word_at 8 k i) m1 = peek tr (word_at 8 k i) m" for i
    using ca unfolding called_def Let_def peek_def a1 by (simp_all add: ne)
  have m1: "undisturbed m1" "m_csr m1 Sscratch = c" "m_csr m1 Sepc = at_portal im" "reg m1 x_sp = f + 32 * of_int 8"
    "bit (m_csr m1 Sstatus) 8" "\<not> bit (m_csr m1 Sstatus) 5" "m_pc m1 = at_naked im" "reg m1 x_ra = at_back im"
    using ca st by (simp_all add: called_def Let_def undisturbed_def)
  have ok1: "area_ok tr (m_csr m1 Satp) (peek tr (word_at 8 k 2) m1) 8 f c k" "peek tr (word_at 8 c 10) m1 = k"
    "\<not> bit (peek tr (word_at 8 k 3) m1) 1" "traps_back (area tr (m_csr m1 Satp) 8 f c k) user"
    "bit (peek tr (word_at 8 k 3) m1) 8 \<longrightarrow> peek tr (word_at 8 k 4) m1 \<notin> set (code_addrs im)"
    using assms(5,6,8-10) by (simp_all add: a1 pk)
  from switch_roundtrip [OF m1(1-6) ok1(1-3) m1(7,8) assms(3) ok1(4,5)] obtain u n3 where
    sw: "switch tr 8 im user m1 = Some n3" "entered tr 8 im f c k m1 u" "came_back tr 8 f c k m1 (user u) n3" by blast
  from execute_returned [OF assms(2,4,5) ca sw(3)] obtain n4 where n4: "exec tr (execute_return 8 r) n3 = Some n4" "undisturbed n4"
    "reg n4 (r_sepc r) = m_csr (user u) Sepc" "reg n4 (r_sstatus r) = m_csr (user u) Sstatus" "m_csr n4 Satp = m_csr m Satp"
    "m_csr n4 Sscratch = m_csr m Sscratch" "m_mem n4 = m_mem n3" "\<forall>n < 32. n \<notin> operand_regs r \<longrightarrow> reg n4 n = reg m n" by blast
  have "local_execute tr r im user c True False m = Some (poke tr (word_at 8 c 32) (m_csr (user u) Sepc) n4, m_csr (user u) Sstatus)"
    by (simp add: local_execute_def Let_def assms(7) st_def [symmetric] c1 sw(1) n4(1,3,4))
  with called_then_stay [OF assms(5) ca sw(2,3) n4(2,5-8)] show ?thesis by blast
qed

lemma poke_simps [simp]:
  "reg (poke tr a v m) = reg m" "m_csr (poke tr a v m) = m_csr m" "at_addr tr (poke tr' a v m) = at_addr tr m"
  "undisturbed (poke tr a v m) = undisturbed m" "m_mem (poke tr a v m) = (m_mem m)(at_addr tr m a := v)"
  by (auto simp: poke_def reg_def at_addr_def)

text \<open>
  C6. A thread of another address space runs as if nothing else existed, and the kernel does not notice that it ran. When
  \<^verbatim>\<open>ForeignContext::execute\<close> is called, the thread starts at its saved program counter with all its saved registers, in its
  own address space, with its own privilege and interrupt settings. When it traps, the call returns: the context holds the
  registers and the program counter the thread had at the trap, the result is the \<^verbatim>\<open>sstatus\<close> of the trap, and the kernel is
  back in its address space with \<^verbatim>\<open>sscratch\<close> and every register as before, except the registers of the operands of the
  \<^verbatim>\<open>asm!\<close> block. Nothing outside the words of the switch was written by it. The hypotheses: the kernel calls in supervisor mode
  with interrupts off; the words the switch uses are distinct and the cache is mapped alike in both spaces; the thread
  cannot change these words or the supervisor's registers.
\<close>

theorem foreign_switch:
  fixes m :: "usize machine"
  defines "ks \<equiv> m_csr m Satp" and "f \<equiv> reg m x_sp - 34 * 8"
  assumes "undisturbed m" "operands_ok r" "distinct (code_addrs im)" "area_ok tr ks satp 8 f c k" "traps_back (area tr ks 8 f c k) user"
    and "superv \<longrightarrow> peek tr (word_at 8 c 32) m \<notin> set (code_addrs im)"
  shows "\<exists>u m'. foreign_execute_at tr r im user c superv intr satp k m = Some (m', m_csr (user u) Sstatus)
    \<and> m_pc u = peek tr (word_at 8 c 32) m \<and> (\<forall>n. 0 < n \<and> n < 32 \<longrightarrow> reg u n = peek tr (word_at 8 c n) m)
    \<and> m_csr u Satp = satp \<and> m_super u = superv \<and> m_csr u Sstatus = sret_status (build_sstatus (m_csr m Sstatus) superv intr)
    \<and> (\<forall>n. 0 < n \<and> n < 32 \<longrightarrow> peek tr (word_at 8 c n) m' = reg (user u) n) \<and> peek tr (word_at 8 c 32) m' = m_csr (user u) Sepc
    \<and> undisturbed m' \<and> m_csr m' Satp = ks \<and> m_csr m' Sscratch = m_csr m Sscratch
    \<and> (\<forall>n < 32. n \<notin> operand_regs r \<longrightarrow> reg m' n = reg m n)
    \<and> (\<forall>a. a \<notin> area tr ks 8 f c k \<longrightarrow> m_mem u a = m_mem m a \<and> m_mem m' a = m_mem (user u) a)"
proof -
  define C where "C i = at_addr tr m (word_at 8 c i)" for i
  define K where "K i = at_addr tr m (word_at 8 k i)" for i
  note ne = area_distinct [OF assms(6) [unfolded ks_def], folded at_addr_def, of "\<lambda>i. at_addr tr m (word_at 8 f i)" C K, OF refl C_def K_def]
  define pc where "pc = peek tr (word_at 8 c 32) m"
  define a0 where "a0 = peek tr (word_at 8 c 10) m"
  define st where "st = build_sstatus (m_csr m Sstatus) superv intr"
  define mp where "mp = poke tr (word_at 8 c 10) k (poke tr (word_at 8 c 32) (at_portal im) (poke tr (word_at 8 k 3) st
    (poke tr (word_at 8 k 0) a0 (poke tr (word_at 8 k 4) pc (poke tr (word_at 8 k 2) satp m)))))"
  have mp: "reg mp = reg m" "m_csr mp = m_csr m" "at_addr tr mp = at_addr tr m" "undisturbed mp" using assms(3) by (simp_all add: mp_def)
  have mem: "m_mem mp = (m_mem m)(K 2 := satp, K 4 := pc, K 0 := a0, K 3 := st, C 32 := at_portal im, C 10 := k)"
    by (simp add: mp_def C_def K_def)
  have pk: "peek tr (word_at 8 k 2) mp = satp" "peek tr (word_at 8 k 3) mp = st" "peek tr (word_at 8 k 4) mp = pc" "peek tr (word_at 8 k 0) mp = a0"
    "peek tr (word_at 8 c 32) mp = at_portal im" "peek tr (word_at 8 c 10) mp = k"
    unfolding peek_def mp mem C_def [symmetric] K_def [symmetric] by (simp_all add: ne)
  have pC: "peek tr (word_at 8 c n) mp = peek tr (word_at 8 c n) m" if "n < 32" "n \<noteq> 10" for n
    unfolding peek_def mp mem C_def [symmetric] using that by (simp add: ne)
  have st: "\<not> bit st 1" "bit st 8 = superv" using assms(3) by (simp_all add: st_def bit_build_sstatus undisturbed_def)
  have "reg m x_sp = f + 34 * 8" by (simp add: f_def)
  have "bit st 8 \<longrightarrow> pc \<notin> set (code_addrs im)" using assms(8) st(2) by (simp add: pc_def)
  from local_execute_portal [where m = mp and f = f and tr = tr and c = c and k = k and user = user, OF mp(4) assms(4,5),
      unfolded pk mp, folded ks_def, OF \<open>reg m x_sp = f + 34 * 8\<close> assms(6,7) refl refl st(1) this]
  obtain u m4 where l: "local_execute tr r im user c True False mp = Some (m4, m_csr (user u) Sstatus)"
    "stay tr r f c k mp u (user u) m4" by blast
  note stay = l(2) [unfolded stay_def pk mp, folded ks_def]
  let ?m' = "poke tr (word_at 8 c 10) (reg (user u) x_a0) m4"
  have "foreign_execute_at tr r im user c superv intr satp k m = Some (?m', m_csr (user u) Sstatus)"
    unfolding foreign_execute_at_def Let_def pc_def [symmetric] a0_def [symmetric]
    using stay by (simp add: st_def [symmetric] mp_def [symmetric] l(1))
  moreover have a4: "at_addr tr m4 = at_addr tr m" using stay by (simp add: at_addr_def ks_def fun_eq_iff)
  moreover have "reg u n = peek tr (word_at 8 c n) m" if "0 < n" "n < 32" for n
    using stay that pC [of n] by (simp add: a0_def)
  moreover have "peek tr (word_at 8 c n) ?m' = reg (user u) n" if "0 < n" "n < 32" for n
    using stay that unfolding peek_def poke_simps a4 C_def [symmetric] by (simp add: ne)
  moreover have "peek tr (word_at 8 c 32) ?m' = m_csr (user u) Sepc"
    using stay unfolding peek_def poke_simps a4 C_def [symmetric] by (simp add: ne)
  moreover have "m_mem u a = m_mem m a \<and> m_mem ?m' a = m_mem (user u) a" if "a \<notin> area tr ks 8 f c k" for a
  proof -
    have "\<forall>i<33. a \<noteq> C i" "\<forall>i<7. a \<noteq> K i" using that by (auto simp: area_iff C_def K_def at_addr_def ks_def)
    then show ?thesis using stay that by (simp add: mem a4 C_def [symmetric])
  qed
  ultimately show ?thesis using stay st(2) by (intro exI [of _ u] exI [of _ ?m']) (simp add: pc_def [symmetric] st_def [symmetric])
qed

definition demo_image :: "usize image" where
  "demo_image = \<lparr>at_naked = 0x80200100, at_trap = 0x80200200, at_back = 0x80200300, at_portal = 0x1000, at_portal_trap = 0x1040\<rparr>"

definition demo_thread :: "usize machine \<Rightarrow> usize machine" where
  "demo_thread u = u\<lparr>m_x := \<lambda>n. of_nat n, m_pc := m_csr u Stvec, m_super := True, m_csr := (m_csr u)(Sepc := 0x444, Sstatus := 0)\<rparr>"

definition demo_kernel :: "usize machine" where
  "demo_kernel = \<lparr>m_x = \<lambda>n. if n = x_sp then 0x20000 else 0, m_pc = 0, m_super = True, m_csr = \<lambda>_. 0, m_mem = \<lambda>_. 0x400\<rparr>"

lemma distinct_words:
  assumes "distinct ns" "\<forall>n \<in> set ns. n < 2 ^ 64"
  shows "distinct (map of_nat ns :: usize list)"
proof -
  have "map unat (map of_nat ns :: usize list) = ns"
    unfolding map_map using assms(2) by (intro map_idI) (simp add: unat_of_nat take_bit_nat_eq_self)
  with assms(1) show ?thesis by (metis distinct_map)
qed

lemma demo_area: "area_ok (\<lambda>_ a. a) 0 8 8 (0x20000 - 34 * 8 :: usize) 0x30000 0x2000"
proof -
  define ns :: "nat list" where "ns = map (\<lambda>i. 130800 + 8 * i) [0..<34] @ map (\<lambda>i. 196608 + 8 * i) [0..<33] @ map (\<lambda>i. 8192 + 8 * i) [0..<7]"
  have ws: "own_words 8 (0x20000 - 34 * 8 :: usize) 0x30000 @ map (word_at 8 0x2000) [0..<7] = map of_nat ns"
    by (simp add: ns_def own_words_def word_at_def)
  have lt: "\<forall>n \<in> set ns. n < 2 ^ 64" "\<forall>n \<in> set ns. n mod 8 = 0" by (auto simp: ns_def mod_add_eq [symmetric])
  have "distinct ns" by (auto simp: ns_def distinct_map inj_on_def)
  with lt(1) have "distinct (map of_nat ns :: usize list)" by (rule distinct_words [rotated])
  moreover have "aligned (of_nat n :: usize)" if "n \<in> set ns" for n
    using lt that by (simp add: aligned_def unat_of_nat take_bit_nat_eq_self)
  ultimately show ?thesis unfolding area_ok_def ws by (simp add: list_all_iff)
qed

theorem foreign_switch_witness:
  "\<exists>(u :: usize machine) m'. foreign_execute_at (\<lambda>_ a. a) \<lparr>r_ctx = 5, r_old_ss = 6, r_sepc = 7, r_sstatus = 28\<rparr> demo_image demo_thread 0x30000 False True 8 0x2000
       demo_kernel = Some (m', 0)
     \<and> m_pc u = 0x400 \<and> m_csr u Satp = 8 \<and> peek (\<lambda>_ a. a) (word_at 8 0x30000 7) m' = 7 \<and> reg m' x_sp = 0x20000"
proof -
  have k: "undisturbed demo_kernel" "m_csr demo_kernel Satp = 0" "reg demo_kernel x_sp = 0x20000" "m_csr demo_kernel Sstatus = 0"
    by (simp_all add: demo_kernel_def undisturbed_def reg_def)
  have "traps_back A demo_thread" for A by (simp add: traps_back_def demo_thread_def undisturbed_def)
  from foreign_switch [where m = demo_kernel and r = "\<lparr>r_ctx = 5, r_old_ss = 6, r_sepc = 7, r_sstatus = 28\<rparr>" and im = demo_image
      and superv = False and intr = True, unfolded k, OF k(1) _ _ demo_area this]
  obtain u m' where f: "foreign_execute_at (\<lambda>_ a. a) \<lparr>r_ctx = 5, r_old_ss = 6, r_sepc = 7, r_sstatus = 28\<rparr> demo_image demo_thread 0x30000 False True 8 0x2000
       demo_kernel = Some (m', m_csr (demo_thread u) Sstatus)" "m_pc u = peek (\<lambda>_ a. a) (word_at 8 0x30000 32) demo_kernel" "m_csr u Satp = 8"
      "\<forall>n. 0 < n \<and> n < 32 \<longrightarrow> peek (\<lambda>_ a. a) (word_at 8 0x30000 n) m' = reg (demo_thread u) n"
      "\<forall>n < 32. n \<notin> {5, 6, 7, 28} \<longrightarrow> reg m' n = reg demo_kernel n"
    by (auto simp: operands_ok_def operand_regs_def code_addrs_def demo_image_def)
  have "reg m' x_sp = 0x20000" using f(5) [rule_format, of x_sp] k by simp
  then show ?thesis by (intro exI [of _ u] exI [of _ m']) (use f k in \<open>simp add: demo_thread_def reg_def peek_def demo_kernel_def\<close>)
qed

end
