(* ===== verification/Syscall.thy ===== *)
theory Syscall
  imports Context
begin

text \<open>
  The system-call interface of the kernels, from \<^verbatim>\<open>syscall/src\<close>: the numbers of \<^verbatim>\<open>syscall.h.in\<close> that
  \<^verbatim>\<open>build.rs\<close> turns into constants, the time values of \<^verbatim>\<open>time.rs\<close>, the traits of \<^verbatim>\<open>kernel/mod.rs\<close> as
  records of functions over the kernel's state (with the \<^verbatim>\<open>unimplemented!()\<close> defaults), the containers
  in which a kernel registers its implementations, and the dispatcher \<^verbatim>\<open>handle\<close>.
\<close>

section \<open>System-call numbers\<close>

text \<open>\<^verbatim>\<open>SyscallId\<close> wraps a \<^verbatim>\<open>usize\<close>; the constants are those of the calls that \<^verbatim>\<open>handle\<close> knows.\<close>

type_synonym syscall_id = usize

definition SYS_OPENAT :: syscall_id where "SYS_OPENAT = 56"
definition SYS_CLOSE :: syscall_id where "SYS_CLOSE = 57"
definition SYS_READ :: syscall_id where "SYS_READ = 63"
definition SYS_WRITE :: syscall_id where "SYS_WRITE = 64"
definition SYS_EXIT :: syscall_id where "SYS_EXIT = 93"
definition SYS_WAITID :: syscall_id where "SYS_WAITID = 95"
definition SYS_CLOCK_GETTIME :: syscall_id where "SYS_CLOCK_GETTIME = 113"
definition SYS_SCHED_YIELD :: syscall_id where "SYS_SCHED_YIELD = 124"
definition SYS_KILL :: syscall_id where "SYS_KILL = 129"
definition SYS_RT_SIGACTION :: syscall_id where "SYS_RT_SIGACTION = 134"
definition SYS_RT_SIGPROCMASK :: syscall_id where "SYS_RT_SIGPROCMASK = 135"
definition SYS_RT_SIGRETURN :: syscall_id where "SYS_RT_SIGRETURN = 139"
definition SYS_GETPID :: syscall_id where "SYS_GETPID = 172"
definition SYS_GETTID :: syscall_id where "SYS_GETTID = 178"
definition SYS_MUNMAP :: syscall_id where "SYS_MUNMAP = 215"
definition SYS_CLONE :: syscall_id where "SYS_CLONE = 220"
definition SYS_EXECVE :: syscall_id where "SYS_EXECVE = 221"
definition SYS_MMAP :: syscall_id where "SYS_MMAP = 222"
definition SYS_WAIT4 :: syscall_id where "SYS_WAIT4 = 260"
definition SYS_THREAD_CREATE :: syscall_id where "SYS_THREAD_CREATE = 1000"
definition SYS_MUTEX_CREATE :: syscall_id where "SYS_MUTEX_CREATE = 1010"
definition SYS_MUTEX_LOCK :: syscall_id where "SYS_MUTEX_LOCK = 1011"
definition SYS_MUTEX_UNLOCK :: syscall_id where "SYS_MUTEX_UNLOCK = 1012"
definition SYS_SEMAPHORE_CREATE :: syscall_id where "SYS_SEMAPHORE_CREATE = 1020"
definition SYS_SEMAPHORE_UP :: syscall_id where "SYS_SEMAPHORE_UP = 1021"
definition SYS_SEMAPHORE_DOWN :: syscall_id where "SYS_SEMAPHORE_DOWN = 1022"
definition SYS_CONDVAR_CREATE :: syscall_id where "SYS_CONDVAR_CREATE = 1030"
definition SYS_CONDVAR_SIGNAL :: syscall_id where "SYS_CONDVAR_SIGNAL = 1031"
definition SYS_CONDVAR_WAIT :: syscall_id where "SYS_CONDVAR_WAIT = 1032"

lemmas syscall_ids =
  SYS_OPENAT_def SYS_CLOSE_def SYS_READ_def SYS_WRITE_def
  SYS_EXIT_def SYS_WAITID_def SYS_CLOCK_GETTIME_def SYS_SCHED_YIELD_def
  SYS_KILL_def SYS_RT_SIGACTION_def SYS_RT_SIGPROCMASK_def SYS_RT_SIGRETURN_def
  SYS_GETPID_def SYS_GETTID_def SYS_MUNMAP_def SYS_CLONE_def
  SYS_EXECVE_def SYS_MMAP_def SYS_WAIT4_def SYS_THREAD_CREATE_def
  SYS_MUTEX_CREATE_def SYS_MUTEX_LOCK_def SYS_MUTEX_UNLOCK_def SYS_SEMAPHORE_CREATE_def
  SYS_SEMAPHORE_UP_def SYS_SEMAPHORE_DOWN_def SYS_CONDVAR_CREATE_def SYS_CONDVAR_SIGNAL_def
  SYS_CONDVAR_WAIT_def

text \<open>The descriptors of \<^verbatim>\<open>io.rs\<close>.\<close>

definition STDIN :: usize where "STDIN = 0"
definition STDOUT :: usize where "STDOUT = 1"
definition STDDEBUG :: usize where "STDDEBUG = 2"

section \<open>Time values\<close>

definition CLOCK_MONOTONIC :: usize where "CLOCK_MONOTONIC = 1"

record time_spec =
  tv_sec :: usize
  tv_nsec :: usize

definition from_millsecond :: "usize \<Rightarrow> time_spec" where
  "from_millsecond millsecond =
     \<lparr>tv_sec = millsecond div 1000, tv_nsec = millsecond mod 1000 * 1000000\<rparr>"

definition checked_usize_add :: "usize \<Rightarrow> usize \<Rightarrow> usize res" where
  "checked_usize_add a b = (if unat a + unat b < 2 ^ 64 then Inr (a + b) else Inl Arith_Overflow)"

definition time_add :: "time_spec \<Rightarrow> time_spec \<Rightarrow> time_spec res" where
  "time_add lhs rhs =
     rbind (checked_usize_add (tv_sec lhs) (tv_sec rhs)) (\<lambda>sec.
     rbind (checked_usize_add (tv_nsec lhs) (tv_nsec rhs)) (\<lambda>nsec.
       if nsec > 1000000000
       then rbind (checked_usize_add sec 1) (\<lambda>sec1.
              Inr \<lparr>tv_sec = sec1, tv_nsec = nsec - 1000000000\<rparr>)
       else Inr \<lparr>tv_sec = sec, tv_nsec = nsec\<rparr>))"

section \<open>The traits a kernel implements\<close>

text \<open>
  A method takes the caller and the decoded arguments and acts on the kernel's state; its value is an
  \<^verbatim>\<open>isize\<close>. An \<^verbatim>\<open>i32\<close> argument is kept as its bit pattern.
\<close>

record caller =
  entity :: usize
  flow :: usize

type_synonym 's sys = "'s \<Rightarrow> (isize \<times> 's) res"

definition sys_todo :: "'s sys" where
  "sys_todo s = Inl Todo"

record 's process_sys =
  sys_exit :: "caller \<Rightarrow> usize \<Rightarrow> 's sys"
  sys_fork :: "caller \<Rightarrow> 's sys"
  sys_exec :: "caller \<Rightarrow> usize \<Rightarrow> usize \<Rightarrow> 's sys"
  sys_wait :: "caller \<Rightarrow> isize \<Rightarrow> usize \<Rightarrow> 's sys"
  sys_getpid :: "caller \<Rightarrow> 's sys"

definition process_sys_default :: "'s process_sys" where
  "process_sys_default =
     \<lparr>sys_exit = (\<lambda>_ _. sys_todo),
      sys_fork = (\<lambda>_. sys_todo),
      sys_exec = (\<lambda>_ _ _. sys_todo),
      sys_wait = (\<lambda>_ _ _. sys_todo),
      sys_getpid = (\<lambda>_. sys_todo)\<rparr>"

record 's io_sys =
  sys_read :: "caller \<Rightarrow> usize \<Rightarrow> usize \<Rightarrow> usize \<Rightarrow> 's sys"
  sys_write :: "caller \<Rightarrow> usize \<Rightarrow> usize \<Rightarrow> usize \<Rightarrow> 's sys"
  sys_open :: "caller \<Rightarrow> usize \<Rightarrow> usize \<Rightarrow> 's sys"
  sys_close :: "caller \<Rightarrow> usize \<Rightarrow> 's sys"

definition io_sys_default :: "'s io_sys" where
  "io_sys_default =
     \<lparr>sys_read = (\<lambda>_ _ _ _. sys_todo),
      sys_write = (\<lambda>_ _ _ _. sys_todo),
      sys_open = (\<lambda>_ _ _. sys_todo),
      sys_close = (\<lambda>_ _. sys_todo)\<rparr>"

record 's memory_sys =
  sys_mmap :: "caller \<Rightarrow> usize \<Rightarrow> usize \<Rightarrow> u32 \<Rightarrow> u32 \<Rightarrow> u32 \<Rightarrow> usize \<Rightarrow> 's sys"
  sys_munmap :: "caller \<Rightarrow> usize \<Rightarrow> usize \<Rightarrow> 's sys"

definition memory_sys_default :: "'s memory_sys" where
  "memory_sys_default =
     \<lparr>sys_mmap = (\<lambda>_ _ _ _ _ _ _. sys_todo),
      sys_munmap = (\<lambda>_ _ _. sys_todo)\<rparr>"

record 's scheduling_sys =
  sys_sched_yield :: "caller \<Rightarrow> 's sys"

definition scheduling_sys_default :: "'s scheduling_sys" where
  "scheduling_sys_default =
     \<lparr>sys_sched_yield = (\<lambda>_. sys_todo)\<rparr>"

record 's clock_sys =
  sys_clock_gettime :: "caller \<Rightarrow> usize \<Rightarrow> usize \<Rightarrow> 's sys"

definition clock_sys_default :: "'s clock_sys" where
  "clock_sys_default =
     \<lparr>sys_clock_gettime = (\<lambda>_ _ _. sys_todo)\<rparr>"

record 's signal_sys =
  sys_kill :: "caller \<Rightarrow> isize \<Rightarrow> u8 \<Rightarrow> 's sys"
  sys_sigaction :: "caller \<Rightarrow> u8 \<Rightarrow> usize \<Rightarrow> usize \<Rightarrow> 's sys"
  sys_sigprocmask :: "caller \<Rightarrow> usize \<Rightarrow> 's sys"
  sys_sigreturn :: "caller \<Rightarrow> 's sys"

definition signal_sys_default :: "'s signal_sys" where
  "signal_sys_default =
     \<lparr>sys_kill = (\<lambda>_ _ _. sys_todo),
      sys_sigaction = (\<lambda>_ _ _ _. sys_todo),
      sys_sigprocmask = (\<lambda>_ _. sys_todo),
      sys_sigreturn = (\<lambda>_. sys_todo)\<rparr>"

record 's thread_sys =
  sys_thread_create :: "caller \<Rightarrow> usize \<Rightarrow> usize \<Rightarrow> 's sys"
  sys_waittid :: "caller \<Rightarrow> usize \<Rightarrow> 's sys"
  sys_gettid :: "caller \<Rightarrow> 's sys"

definition thread_sys_default :: "'s thread_sys" where
  "thread_sys_default =
     \<lparr>sys_thread_create = (\<lambda>_ _ _. sys_todo),
      sys_waittid = (\<lambda>_ _. sys_todo),
      sys_gettid = (\<lambda>_. sys_todo)\<rparr>"

record 's sync_mutex_sys =
  sys_semaphore_create :: "caller \<Rightarrow> usize \<Rightarrow> 's sys"
  sys_semaphore_up :: "caller \<Rightarrow> usize \<Rightarrow> 's sys"
  sys_semaphore_down :: "caller \<Rightarrow> usize \<Rightarrow> 's sys"
  sys_mutex_create :: "caller \<Rightarrow> bool \<Rightarrow> 's sys"
  sys_mutex_lock :: "caller \<Rightarrow> usize \<Rightarrow> 's sys"
  sys_mutex_unlock :: "caller \<Rightarrow> usize \<Rightarrow> 's sys"
  sys_condvar_create :: "caller \<Rightarrow> usize \<Rightarrow> 's sys"
  sys_condvar_signal :: "caller \<Rightarrow> usize \<Rightarrow> 's sys"
  sys_condvar_wait :: "caller \<Rightarrow> usize \<Rightarrow> usize \<Rightarrow> 's sys"

definition sync_mutex_sys_default :: "'s sync_mutex_sys" where
  "sync_mutex_sys_default =
     \<lparr>sys_semaphore_create = (\<lambda>_ _. sys_todo),
      sys_semaphore_up = (\<lambda>_ _. sys_todo),
      sys_semaphore_down = (\<lambda>_ _. sys_todo),
      sys_mutex_create = (\<lambda>_ _. sys_todo),
      sys_mutex_lock = (\<lambda>_ _. sys_todo),
      sys_mutex_unlock = (\<lambda>_ _. sys_todo),
      sys_condvar_create = (\<lambda>_ _. sys_todo),
      sys_condvar_signal = (\<lambda>_ _. sys_todo),
      sys_condvar_wait = (\<lambda>_ _ _. sys_todo)\<rparr>"

section \<open>Containers and dispatch\<close>

text \<open>
  A \<^verbatim>\<open>Container\<close> is a \<^verbatim>\<open>spin::Once\<close>: the first \<^verbatim>\<open>init\<close> wins. The eight static containers are the
  fields of one record.
\<close>

type_synonym 't container = "'t option"

definition container_new :: "'t container" where
  "container_new = None"

definition container_init :: "'t \<Rightarrow> 't container \<Rightarrow> 't container" where
  "container_init val c = (case c of None \<Rightarrow> Some val | Some old \<Rightarrow> Some old)"

datatype syscall_result = Done isize | Unsupported syscall_id

definition container_call ::
    "'t container \<Rightarrow> syscall_id \<Rightarrow> ('t \<Rightarrow> 's sys) \<Rightarrow> 's \<Rightarrow> (syscall_result \<times> 's) res" where
  "container_call c sid f s =
     (case c of None \<Rightarrow> Inr (Unsupported sid, s)
      | Some t \<Rightarrow> rbind (f t s) (\<lambda>(r, s1). Inr (Done r, s1)))"

record 's containers =
  c_process :: "'s process_sys container"
  c_io :: "'s io_sys container"
  c_memory :: "'s memory_sys container"
  c_scheduling :: "'s scheduling_sys container"
  c_clock :: "'s clock_sys container"
  c_signal :: "'s signal_sys container"
  c_thread :: "'s thread_sys container"
  c_sync_mutex :: "'s sync_mutex_sys container"

definition containers_new :: "'s containers" where
  "containers_new =
     \<lparr>c_process = container_new,
      c_io = container_new,
      c_memory = container_new,
      c_scheduling = container_new,
      c_clock = container_new,
      c_signal = container_new,
      c_thread = container_new,
      c_sync_mutex = container_new\<rparr>"

definition init_process :: "'s process_sys \<Rightarrow> 's containers \<Rightarrow> 's containers" where
  "init_process v c = c\<lparr>c_process := container_init v (c_process c)\<rparr>"

definition init_io :: "'s io_sys \<Rightarrow> 's containers \<Rightarrow> 's containers" where
  "init_io v c = c\<lparr>c_io := container_init v (c_io c)\<rparr>"

definition init_memory :: "'s memory_sys \<Rightarrow> 's containers \<Rightarrow> 's containers" where
  "init_memory v c = c\<lparr>c_memory := container_init v (c_memory c)\<rparr>"

definition init_scheduling :: "'s scheduling_sys \<Rightarrow> 's containers \<Rightarrow> 's containers" where
  "init_scheduling v c = c\<lparr>c_scheduling := container_init v (c_scheduling c)\<rparr>"

definition init_clock :: "'s clock_sys \<Rightarrow> 's containers \<Rightarrow> 's containers" where
  "init_clock v c = c\<lparr>c_clock := container_init v (c_clock c)\<rparr>"

definition init_signal :: "'s signal_sys \<Rightarrow> 's containers \<Rightarrow> 's containers" where
  "init_signal v c = c\<lparr>c_signal := container_init v (c_signal c)\<rparr>"

definition init_thread :: "'s thread_sys \<Rightarrow> 's containers \<Rightarrow> 's containers" where
  "init_thread v c = c\<lparr>c_thread := container_init v (c_thread c)\<rparr>"

definition init_sync_mutex :: "'s sync_mutex_sys \<Rightarrow> 's containers \<Rightarrow> 's containers" where
  "init_sync_mutex v c = c\<lparr>c_sync_mutex := container_init v (c_sync_mutex c)\<rparr>"

text \<open>The six argument registers, \<^verbatim>\<open>[usize; 6]\<close>.\<close>

type_synonym sys_args = "usize \<times> usize \<times> usize \<times> usize \<times> usize \<times> usize"

definition handle ::
    "'s containers \<Rightarrow> caller \<Rightarrow> syscall_id \<Rightarrow> sys_args \<Rightarrow> 's \<Rightarrow> (syscall_result \<times> 's) res" where
  "handle c clr sid args s =
     (let (a0, a1, a2, a3, a4, a5) = args in
      if sid = SYS_WRITE then container_call (c_io c) sid (\<lambda>x. sys_write x clr a0 a1 a2) s
      else if sid = SYS_READ then container_call (c_io c) sid (\<lambda>x. sys_read x clr a0 a1 a2) s
      else if sid = SYS_OPENAT then container_call (c_io c) sid (\<lambda>x. sys_open x clr a0 a1) s
      else if sid = SYS_CLOSE then container_call (c_io c) sid (\<lambda>x. sys_close x clr a0) s
      else if sid = SYS_EXIT then container_call (c_process c) sid (\<lambda>x. sys_exit x clr a0) s
      else if sid = SYS_CLONE then container_call (c_process c) sid (\<lambda>x. sys_fork x clr) s
      else if sid = SYS_EXECVE then container_call (c_process c) sid (\<lambda>x. sys_exec x clr a0 a1) s
      else if sid = SYS_WAIT4 then container_call (c_process c) sid (\<lambda>x. sys_wait x clr a0 a1) s
      else if sid = SYS_GETPID then container_call (c_process c) sid (\<lambda>x. sys_getpid x clr) s
      else if sid = SYS_CLOCK_GETTIME then container_call (c_clock c) sid (\<lambda>x. sys_clock_gettime x clr a0 a1) s
      else if sid = SYS_SCHED_YIELD then container_call (c_scheduling c) sid (\<lambda>x. sys_sched_yield x clr) s
      else if sid = SYS_MUNMAP then container_call (c_memory c) sid (\<lambda>x. sys_munmap x clr a0 a1) s
      else if sid = SYS_MMAP then container_call (c_memory c) sid (\<lambda>x. sys_mmap x clr a0 a1 (ucast a2) (ucast a3) (ucast a4) a5) s
      else if sid = SYS_KILL then container_call (c_signal c) sid (\<lambda>x. sys_kill x clr a0 (ucast a1)) s
      else if sid = SYS_RT_SIGACTION then container_call (c_signal c) sid (\<lambda>x. sys_sigaction x clr (ucast a0) a1 a2) s
      else if sid = SYS_RT_SIGPROCMASK then container_call (c_signal c) sid (\<lambda>x. sys_sigprocmask x clr a0) s
      else if sid = SYS_RT_SIGRETURN then container_call (c_signal c) sid (\<lambda>x. sys_sigreturn x clr) s
      else if sid = SYS_WAITID then container_call (c_thread c) sid (\<lambda>x. sys_waittid x clr a0) s
      else if sid = SYS_GETTID then container_call (c_thread c) sid (\<lambda>x. sys_gettid x clr) s
      else if sid = SYS_THREAD_CREATE then container_call (c_thread c) sid (\<lambda>x. sys_thread_create x clr a0 a1) s
      else if sid = SYS_SEMAPHORE_CREATE then container_call (c_sync_mutex c) sid (\<lambda>x. sys_semaphore_create x clr a0) s
      else if sid = SYS_SEMAPHORE_UP then container_call (c_sync_mutex c) sid (\<lambda>x. sys_semaphore_up x clr a0) s
      else if sid = SYS_SEMAPHORE_DOWN then container_call (c_sync_mutex c) sid (\<lambda>x. sys_semaphore_down x clr a0) s
      else if sid = SYS_MUTEX_CREATE then container_call (c_sync_mutex c) sid (\<lambda>x. sys_mutex_create x clr (a0 \<noteq> 0)) s
      else if sid = SYS_MUTEX_LOCK then container_call (c_sync_mutex c) sid (\<lambda>x. sys_mutex_lock x clr a0) s
      else if sid = SYS_MUTEX_UNLOCK then container_call (c_sync_mutex c) sid (\<lambda>x. sys_mutex_unlock x clr a0) s
      else if sid = SYS_CONDVAR_CREATE then container_call (c_sync_mutex c) sid (\<lambda>x. sys_condvar_create x clr a0) s
      else if sid = SYS_CONDVAR_SIGNAL then container_call (c_sync_mutex c) sid (\<lambda>x. sys_condvar_signal x clr a0) s
      else if sid = SYS_CONDVAR_WAIT then container_call (c_sync_mutex c) sid (\<lambda>x. sys_condvar_wait x clr a0 a1) s
      else Inr (Unsupported sid, s))"

text \<open>
  What a trap hands to the dispatcher: the number in \<^verbatim>\<open>a7\<close> and the arguments in \<^verbatim>\<open>a0\<close> to \<^verbatim>\<open>a5\<close>, the
  way the main loop of every kernel (here \<^verbatim>\<open>ch8/src/main.rs\<close>) reads them.
\<close>

definition read_frame :: "local_context \<Rightarrow> (syscall_id \<times> sys_args) res" where
  "read_frame ctx =
     rbind (ctx_a ctx 7) (\<lambda>sid.
     rbind (ctx_a ctx 0) (\<lambda>a0. rbind (ctx_a ctx 1) (\<lambda>a1. rbind (ctx_a ctx 2) (\<lambda>a2.
     rbind (ctx_a ctx 3) (\<lambda>a3. rbind (ctx_a ctx 4) (\<lambda>a4. rbind (ctx_a ctx 5) (\<lambda>a5.
       Inr (sid, (a0, a1, a2, a3, a4, a5)))))))))"

section \<open>Lemmas\<close>

lemma read_frame_wf:
  "ctx_wf c \<Longrightarrow> read_frame c = Inr (xregs c ! 16, xregs c ! 9, xregs c ! 10, xregs c ! 11, xregs c ! 12,
     xregs c ! 13, xregs c ! 14)"
  by (simp add: read_frame_def)

text \<open>Nanoseconds of a time value.\<close>

definition time_total :: "time_spec \<Rightarrow> nat" where
  "time_total t = unat (tv_sec t) * 10 ^ 9 + unat (tv_nsec t)"

definition time_normal :: "time_spec \<Rightarrow> bool" where
  "time_normal t \<longleftrightarrow> unat (tv_nsec t) < 10 ^ 9"

lemma unat_checked_add:
  assumes "checked_usize_add a b = Inr c"
  shows "unat c = unat a + unat b"
  using assms by (auto simp: checked_usize_add_def unat_word_ariths split: if_splits)

lemma from_millsecond_total:
  "time_normal (from_millsecond ms) \<and> time_total (from_millsecond ms) = unat ms * 10 ^ 6"
proof -
  have m: "unat (ms mod 1000) < 1000" by (simp add: unat_mod)
  have "unat (ms mod 1000 * 1000000) = unat (ms mod 1000) * 1000000"
    using m by (simp add: unat_word_ariths(2))
  moreover have "unat ms = 1000 * unat (ms div 1000) + unat (ms mod 1000)"
    by (simp add: unat_mod unat_div)
  ultimately show ?thesis
    using m unfolding time_normal_def time_total_def from_millsecond_def by simp
qed

text \<open>
  \<^verbatim>\<open>TimeSpec::add\<close> adds durations: for normalised operands whose seconds do not overflow it
  returns, and the nanoseconds the sum stands for are those of the operands together. The result is
  normalised again except when the nanosecond fields add up to exactly one second, where the carry
  test \<^verbatim>\<open>> 1_000_000_000\<close> leaves a nanosecond field of a full second.
\<close>

theorem time_add_exact:
  assumes "time_normal a" "time_normal b" "unat (tv_sec a) + unat (tv_sec b) + 1 < 2 ^ 64"
  shows "\<exists>t. time_add a b = Inr t \<and> time_total t = time_total a + time_total b \<and>
     (time_normal t \<longleftrightarrow> unat (tv_nsec a) + unat (tv_nsec b) \<noteq> 10 ^ 9)"
proof -
  obtain sec where sec: "checked_usize_add (tv_sec a) (tv_sec b) = Inr sec"
    using assms(3) by (simp add: checked_usize_add_def)
  obtain ns where ns: "checked_usize_add (tv_nsec a) (tv_nsec b) = Inr ns"
    using assms(1,2) by (simp add: checked_usize_add_def time_normal_def)
  note u = unat_checked_add [OF sec] unat_checked_add [OF ns]
  show ?thesis
  proof (cases "ns > 1000000000")
    case True
    then have gt: "unat ns > 1000000000" by (simp add: word_less_nat_alt)
    obtain sec1 where sec1: "checked_usize_add sec 1 = Inr sec1"
      using assms(3) u by (simp add: checked_usize_add_def)
    have sub: "unat (ns - 1000000000) = unat ns - 1000000000"
      using True by (simp add: unat_sub word_le_nat_alt word_less_nat_alt)
    show ?thesis
      using assms(1,2) gt u unat_checked_add [OF sec1] sub True
      by (simp add: time_add_def sec ns sec1 time_total_def time_normal_def)
  next
    case False
    then have "unat ns \<le> 1000000000" by (simp add: word_less_nat_alt)
    then show ?thesis
      using u False by (auto simp: time_add_def sec ns time_total_def time_normal_def)
  qed
qed

theorem time_add_exact_witness:
  "\<exists>t. time_add (from_millsecond 700) (from_millsecond 300) = Inr t \<and> time_total t = 10 ^ 9 \<and>
     \<not> time_normal t"
proof -
  have n: "time_normal (from_millsecond 700)" "time_normal (from_millsecond 300)"
    by (simp_all add: from_millsecond_total)
  have v: "unat (tv_sec (from_millsecond 700)) = 0" "unat (tv_sec (from_millsecond 300)) = 0"
    "unat (tv_nsec (from_millsecond 700)) = 700000000" "unat (tv_nsec (from_millsecond 300)) = 300000000"
    by (simp_all add: from_millsecond_def)
  from v have "unat (tv_sec (from_millsecond 700)) + unat (tv_sec (from_millsecond 300)) + 1 < 2 ^ 64" by simp
  from time_add_exact [OF n this] v show ?thesis by (simp add: time_total_def)
qed

end
