(* ===== verification/Apps.thy ===== *)
theory Apps
  imports Syscall
begin

text \<open>
  Applications that are linked into the image of a kernel, from \<^verbatim>\<open>linker/src/app.rs\<close>. Memory is flat:
  the kernels that load such applications to fixed places run without address translation. The table
  of the image is what the build generates; \<^verbatim>\<open>locate\<close> returns the place of that table.
\<close>

section \<open>Flat memory\<close>

type_synonym flat = "usize \<Rightarrow> u8"

definition mem_read :: "flat \<Rightarrow> usize \<Rightarrow> nat \<Rightarrow> u8 list" where
  "mem_read mem a n = map (\<lambda>i. mem (a + of_nat i)) [0..<n]"

definition mem_fill :: "usize \<Rightarrow> usize \<Rightarrow> u8 \<Rightarrow> flat \<Rightarrow> flat" where
  "mem_fill a n v mem = (\<lambda>x. if x - a < n then v else mem x)"

definition mem_copy :: "usize \<Rightarrow> usize \<Rightarrow> usize \<Rightarrow> flat \<Rightarrow> flat" where
  "mem_copy src dst n mem = (\<lambda>x. if x - dst < n then mem (src + (x - dst)) else mem x)"

fun mem_store :: "usize \<Rightarrow> u8 list \<Rightarrow> flat \<Rightarrow> flat" where
  "mem_store a [] mem = mem"
| "mem_store a (b # bs) mem = mem_store (a + 1) bs (mem(a := b))"

definition checked_usize_sub :: "usize \<Rightarrow> usize \<Rightarrow> usize res" where
  "checked_usize_sub a b = (if b \<le> a then Inr (a - b) else Inl Arith_Overflow)"

definition checked_usize_mul :: "usize \<Rightarrow> usize \<Rightarrow> usize res" where
  "checked_usize_mul a b = (if unat a * unat b < 2 ^ 64 then Inr (a * b) else Inl Arith_Overflow)"

section \<open>The table and its iterator\<close>

text \<open>\<^verbatim>\<open>am_table\<close> are the words from \<^verbatim>\<open>first\<close> on: the starts of the images and the end of the last one.\<close>

record app_meta =
  am_base :: usize
  am_step :: usize
  am_count :: usize
  am_table :: "usize list"

definition APP_AREA :: usize where
  "APP_AREA = 0x200000"

text \<open>
  \<^verbatim>\<open>AppIterator::next\<close>: the place and the length of the next application, if there is one, with the
  new position of the iterator. With a base address the application is copied to its place and the rest
  of its area is cleared; the slice \<^verbatim>\<open>[size..]\<close> panics when the application is larger than its area.
\<close>

definition app_next :: "app_meta \<Rightarrow> usize \<Rightarrow> flat \<Rightarrow> (((usize \<times> usize) \<times> usize) option \<times> flat) res" where
  "app_next meta i mem =
     (if i \<ge> am_count meta then Inr (None, mem)
      else
        rbind (vec_index (am_table meta) (unat i)) (\<lambda>pos.
        rbind (vec_index (am_table meta) (unat i + 1)) (\<lambda>fin.
        rbind (checked_usize_sub fin pos) (\<lambda>len.
        rbind (checked_usize_mul i (am_step meta)) (\<lambda>off.
        rbind (checked_usize_add (am_base meta) off) (\<lambda>base.
          if base \<noteq> 0 then
            let mem1 = mem_copy pos base len mem in
            if len \<le> APP_AREA
            then Inr (Some ((base, len), i + 1), mem_fill (base + len) (APP_AREA - len) 0 mem1)
            else Inl Index_Out_Of_Bounds
          else Inr (Some ((pos, len), i + 1), mem)))))))"

lemma unat_inc: "i < c \<Longrightarrow> unat (i + 1) = unat i + 1" for i c :: usize
  using unsigned_less [of c, where 'a = nat] by (simp add: word_less_nat_alt unat_word_ariths)

lemma app_next_advances:
  "app_next meta i mem = Inr (Some (app, j), mem1) \<Longrightarrow> i < am_count meta \<and> j = i + 1"
  by (auto simp: app_next_def rbind_eq_Inr Let_def split: if_splits)

text \<open>A \<^verbatim>\<open>for\<close> loop over the applications with their numbers; the body may change memory.\<close>

function apps_loop ::
    "(nat \<Rightarrow> usize \<times> usize \<Rightarrow> 's \<Rightarrow> 's res) \<Rightarrow> ('s \<Rightarrow> flat) \<Rightarrow> (flat \<Rightarrow> 's \<Rightarrow> 's) \<Rightarrow> app_meta \<Rightarrow> usize \<Rightarrow> 's \<Rightarrow> 's res" where
  "apps_loop body get put meta i s =
     rbind (app_next meta i (get s)) (\<lambda>(r, mem).
       case r of
         None \<Rightarrow> Inr (put mem s)
       | Some (app, j) \<Rightarrow> rbind (body (unat i) app (put mem s)) (apps_loop body get put meta j))"
  by auto
termination
  by (relation "measure (\<lambda>(_, _, _, meta, i, _). unat (am_count meta) - unat i)")
     (auto dest!: app_next_advances simp: unat_inc diff_less_mono2 word_less_nat_alt [symmetric])

declare apps_loop.simps [simp del]

section \<open>The table of chapter 3\<close>

text \<open>
  A table as the build generates it for chapter 3, with a base address and a step of at least 2 MiB: the
  images follow each other and fit into their areas, the areas do not overlap, end below the top of the
  address space and do not meet the images. (Chapter 2 has step 0, so that its applications share one area,
  and the later chapters have no base address, so that nothing is copied.)
\<close>

definition app_area :: "app_meta \<Rightarrow> nat \<Rightarrow> nat set" where
  "app_area meta k = {a. unat (am_base meta) + k * unat (am_step meta) \<le> a \<and>
     a < unat (am_base meta) + k * unat (am_step meta) + unat APP_AREA}"

definition apps_wf :: "app_meta \<Rightarrow> bool" where
  "apps_wf meta \<longleftrightarrow>
     length (am_table meta) = unat (am_count meta) + 1 \<and> am_base meta \<noteq> 0 \<and> am_step meta \<ge> APP_AREA \<and>
     unat (am_base meta) + unat (am_count meta) * unat (am_step meta) < 2 ^ 64 \<and>
     (\<forall>k < unat (am_count meta). am_table meta ! k \<le> am_table meta ! (k + 1) \<and>
        am_table meta ! (k + 1) - am_table meta ! k \<le> APP_AREA) \<and>
     (\<forall>k < unat (am_count meta). \<forall>l < unat (am_count meta). \<forall>a.
        unat (am_table meta ! k) \<le> a \<and> a < unat (am_table meta ! (k + 1)) \<longrightarrow> a \<notin> app_area meta l)"

lemma in_range_iff:
  fixes x a n :: usize
  assumes "unat a + unat n \<le> 2 ^ 64"
  shows "x - a < n \<longleftrightarrow> unat a \<le> unat x \<and> unat x < unat a + unat n"
proof (cases "unat a \<le> unat x")
  case True
  then have "unat (x - a) = unat x - unat a" by (simp add: unat_sub word_le_nat_alt)
  with True show ?thesis by (auto simp: word_less_nat_alt)
next
  case False
  then have "unat (x - a) = 2 ^ 64 + unat x - unat a"
    using unsigned_less [of a, where 'a = nat] by (simp add: unat_sub_if_size word_size word_le_nat_alt)
  with False assms show ?thesis by (auto simp: word_less_nat_alt)
qed

lemma unat_add_small:
  fixes a :: usize
  assumes "unat a + j < 2 ^ 64"
  shows "unat (a + of_nat j) = unat a + j"
proof -
  have "unat (of_nat j :: usize) = j" using assms by (simp add: unsigned_of_nat take_bit_nat_eq_self)
  with assms show ?thesis by (simp add: unat_word_ariths)
qed

lemma APP_AREA_nat [simp]: "unat APP_AREA = 0x200000"
  by (simp add: APP_AREA_def)

lemma app_area_unique:
  assumes "apps_wf meta" "a \<in> app_area meta k" "a \<in> app_area meta l"
  shows "k = l"
proof -
  have s: "unat (am_step meta) \<ge> 0x200000" using assms(1) by (simp add: apps_wf_def word_le_nat_alt)
  have "l \<le> k" if "a \<in> app_area meta k" "a \<in> app_area meta l" for k l
  proof (rule ccontr)
    assume "\<not> l \<le> k"
    then have "Suc k \<le> l" by simp
    then have "Suc k * unat (am_step meta) \<le> l * unat (am_step meta)" by (rule mult_le_mono1)
    with s that show False by (auto simp: app_area_def)
  qed
  with assms(2,3) show ?thesis by (metis le_antisym)
qed

text \<open>One application: its area holds its image and zeroes, and nothing else changes.\<close>

lemma app_next_loads:
  assumes wf: "apps_wf meta" and i: "unat i < unat (am_count meta)"
  defines "base \<equiv> am_base meta + i * am_step meta"
    and "pos \<equiv> am_table meta ! unat i" and "len \<equiv> am_table meta ! (unat i + 1) - am_table meta ! unat i"
  shows "\<exists>mem1. app_next meta i mem = Inr (Some ((base, len), i + 1), mem1) \<and>
     unat base = unat (am_base meta) + unat i * unat (am_step meta) \<and>
     (\<forall>x. mem1 x = (if unat x \<in> app_area meta (unat i)
        then if x - base < len then mem (pos + (x - base)) else 0 else mem x))"
proof -
  define c where "c = unat (am_count meta)"
  define st where "st = unat (am_step meta)"
  have w: "length (am_table meta) = c + 1" "am_base meta \<noteq> 0" "unat (am_base meta) + c * st < 2 ^ 64" "st \<ge> 0x200000"
    "pos \<le> am_table meta ! (unat i + 1)" "len \<le> APP_AREA"
    using wf i unfolding apps_wf_def c_def st_def pos_def len_def by (auto simp: word_le_nat_alt)
  have ii: "unat i < c" using i by (simp add: c_def)
  have "Suc (unat i) * st \<le> c * st" using ii by (intro mult_le_mono1) simp
  then have le: "unat i * st + st \<le> c * st" by simp
  then have lt: "unat i * st < 2 ^ 64" "unat (am_base meta) + unat i * st + st < 2 ^ 64" using w(3) by linarith+
  have off: "unat (i * am_step meta) = unat i * st"
    using lt(1) by (simp add: unat_word_ariths st_def)
  have base: "unat base = unat (am_base meta) + unat i * st"
    using lt(2) off by (simp add: base_def unat_word_ariths)
  have l: "unat len \<le> 0x200000" using w(6) by (simp add: word_le_nat_alt)
  have bl: "unat (base + len) = unat base + unat len"
    using lt(2) w(4) l base by (simp add: unat_word_ariths)
  have al: "unat (APP_AREA - len) = 0x200000 - unat len"
    using w(6) by (simp add: unat_sub)
  have "base \<noteq> 0" using base w(2) by (auto simp: unsigned_eq_0_iff)
  moreover have "am_table meta ! Suc (unat i) - pos = len" by (simp add: len_def pos_def)
  ultimately have run: "app_next meta i mem = Inr (Some ((base, len), i + 1),
      mem_fill (base + len) (APP_AREA - len) 0 (mem_copy pos base len mem))"
    using w(1,5,6) ii off lt base
    by (simp add: app_next_def checked_usize_sub_def checked_usize_mul_def checked_usize_add_def st_def [symmetric]
        c_def pos_def [symmetric] len_def [symmetric] base_def [symmetric] Let_def word_le_nat_alt)
  have "mem_fill (base + len) (APP_AREA - len) 0 (mem_copy pos base len mem) x =
      (if unat x \<in> app_area meta (unat i) then if x - base < len then mem (pos + (x - base)) else 0 else mem x)" for x
  proof -
    have r1: "x - base < len \<longleftrightarrow> unat base \<le> unat x \<and> unat x < unat base + unat len"
      using lt(2) w(4) l base by (intro in_range_iff) simp
    have r2: "x - (base + len) < APP_AREA - len \<longleftrightarrow> unat base + unat len \<le> unat x \<and> unat x < unat base + 0x200000"
      using lt(2) w(4) l base bl al in_range_iff [of "base + len" "APP_AREA - len" x] by (simp add: add.assoc)
    have r3: "unat x \<in> app_area meta (unat i) \<longleftrightarrow> unat base \<le> unat x \<and> unat x < unat base + 0x200000"
      by (simp add: app_area_def base st_def)
    show ?thesis using r1 r2 r3 l by (auto simp: mem_fill_def mem_copy_def)
  qed
  with run base show ?thesis by (auto simp: st_def)
qed

text \<open>What is at address \<^verbatim>\<open>x\<close> of area \<^verbatim>\<open>k\<close> once the application is loaded.\<close>

definition app_byte :: "app_meta \<Rightarrow> flat \<Rightarrow> nat \<Rightarrow> nat \<Rightarrow> u8" where
  "app_byte meta mem k j =
     (let pos = am_table meta ! k in
      if j < unat (am_table meta ! (k + 1) - pos) then mem (pos + of_nat j) else 0)"

lemma image_kept:
  assumes "apps_wf meta" "k < unat (am_count meta)" "j < unat (am_table meta ! (k + 1) - am_table meta ! k)"
    and "l < unat (am_count meta)"
  shows "unat (am_table meta ! k + of_nat j) \<notin> app_area meta l"
proof -
  let ?p = "am_table meta ! k" and ?q = "am_table meta ! (k + 1)"
  have "?p \<le> ?q" using assms(1,2) unfolding apps_wf_def by blast
  then have d: "unat (?q - ?p) = unat ?q - unat ?p" by (simp add: unat_sub)
  have "unat (?p + of_nat j) = unat ?p + j"
    using assms(3) d unsigned_less [of ?q, where 'a = nat] by (intro unat_add_small) simp
  then show ?thesis using assms d unfolding apps_wf_def by simp
qed

definition demo_apps :: app_meta where
  "demo_apps = \<lparr>am_base = 0x80400000, am_step = 0x200000, am_count = 2, am_table = [0x1000, 0x1003, 0x1005]\<rparr>"

lemma demo_apps_wf: "apps_wf demo_apps"
proof -
  have two: "(k < 2) = (k = 0 \<or> k = 1)" for k :: nat by auto
  show ?thesis by (auto simp: apps_wf_def demo_apps_def APP_AREA_def app_area_def two)
qed

end
