(* ===== verification/Build.thy ===== *)
theory Build
  imports Apps
begin

text \<open>
  The build commands of \<^verbatim>\<open>xtask\<close> (\<^verbatim>\<open>main.rs\<close>, \<^verbatim>\<open>user.rs\<close>) and the build script of the user programs (\<^verbatim>\<open>user/build.rs\<close>).
  What a command does to the host is a list of requests: the calls of the builders of \<^verbatim>\<open>os_xtask_utils\<close> with their arguments,
  the files that are written, and the disk image that is packed. The directory of the project and the test cases that
  \<^verbatim>\<open>user/cases.toml\<close> lists for a chapter are parameters. The lines of the generated assembly file are values, one for each line.
\<close>

section \<open>Requests to the host\<close>

type_synonym path = "string list"

text \<open>An argument is a word, a path, or the description \<^verbatim>\<open>file={},if=none,format=raw,id=x0\<close> of a drive with the path of its image.\<close>

datatype arg = Word string | Path path | Drive path

datatype cargo_call =
    Package string
  | Features bool "string list"
  | Env string arg
  | Release
  | Target string
  | Arg string

datatype asm_value = Hex u64 | Dec nat | Symbol string

datatype asm_line =
    Global string
  | Section string
  | Align nat
  | Label string
  | Data string asm_value
  | Incbin path
  | Asm_string string

datatype request =
    Cargo_build "cargo_call list"
  | Objcopy "arg list"
  | Dump_asm path path
  | Write_file path "asm_line list"
  | Easy_fs_pack "string list" path
  | Qemu_search string
  | Qemu_system string "arg list"

text \<open>Decimal numbers, as \<^verbatim>\<open>to_string\<close> and the format macros write them and \<^verbatim>\<open>parse::<u64>\<close> reads them.\<close>

fun to_string :: "nat \<Rightarrow> string" where
  "to_string n = (if n < 10 then [char_of (48 + n)] else to_string (n div 10) @ [char_of (48 + n mod 10)])"

declare to_string.simps [simp del]

definition digit_of :: "char \<Rightarrow> nat option" where
  "digit_of c = (let n = of_char c in if 48 \<le> n \<and> n \<le> 57 then Some (n - 48) else None)"

fun parse_digits :: "string \<Rightarrow> nat \<Rightarrow> nat option" where
  "parse_digits [] acc = (if acc < 2 ^ 64 then Some acc else None)"
| "parse_digits (c # cs) acc = (case digit_of c of None \<Rightarrow> None | Some d \<Rightarrow> parse_digits cs (acc * 10 + d))"

definition parse_u64 :: "string \<Rightarrow> u64 option" where
  "parse_u64 s = (let t = (if s \<noteq> [] \<and> hd s = CHR ''+'' then tl s else s) in
     if t = [] then None else map_option of_nat (parse_digits t 0))"

section \<open>Architectures and directories\<close>

datatype arch = Riscv64 | Riscv32

definition TARGET_ARCH_RV64 :: string where "TARGET_ARCH_RV64 = ''riscv64gc-unknown-none-elf''"
definition TARGET_ARCH_RV32 :: string where "TARGET_ARCH_RV32 = ''riscv32imac-unknown-none-elf''"

fun arch_target :: "arch \<Rightarrow> string" where
  "arch_target Riscv64 = TARGET_ARCH_RV64"
| "arch_target Riscv32 = TARGET_ARCH_RV32"

fun qemu_system :: "arch \<Rightarrow> string" where
  "qemu_system Riscv64 = ''riscv64''"
| "qemu_system Riscv32 = ''riscv32''"

definition get_target_dir :: "path \<Rightarrow> string \<Rightarrow> path" where
  "get_target_dir project a = project @ [''target'', a]"

text \<open>\<^verbatim>\<open>Path::with_extension\<close>: the last component loses what follows its last dot, unless the dot comes first.\<close>

definition file_stem :: "string \<Rightarrow> string" where
  "file_stem n =
     (let r = dropWhile (\<lambda>c. c \<noteq> CHR ''.'') (rev n) in
      if length r \<le> 1 then n else rev (tl r))"

definition with_extension :: "path \<Rightarrow> string \<Rightarrow> path" where
  "with_extension p ext = (if p = [] then p else butlast p @ [file_stem (last p) @ ''.'' @ ext])"

definition objcopy :: "path \<Rightarrow> bool \<Rightarrow> path \<times> request list" where
  "objcopy elf binary =
     (let bin = with_extension elf ''bin'' in
      (bin, [Objcopy ([Path elf, Word ''--strip-all''] @ (if binary then [Word ''-O'', Word ''binary''] else []) @ [Path bin])]))"

section \<open>User programs\<close>

record test_cases =
  tc_base :: "u64 option"
  tc_step :: "u64 option"
  tc_cases :: "string list option"

record cases_info =
  ci_base :: u64
  ci_step :: u64
  ci_bins :: "path list"

definition profile :: "bool \<Rightarrow> string" where
  "profile release = (if release then ''release'' else ''debug'')"

text \<open>\<^verbatim>\<open>build_one\<close>: one program; with an address it becomes a flat binary that is linked at that address.\<close>

definition build_one :: "path \<Rightarrow> string \<Rightarrow> bool \<Rightarrow> u64 \<Rightarrow> string \<Rightarrow> path \<times> request list" where
  "build_one project name release base_address target_arch =
     (let binary = (base_address \<noteq> 0);
          cargo = Cargo_build ([Package ''user_lib'', Target target_arch, Arg ''--bin'', Arg name]
            @ (if release then [Release] else [])
            @ (if binary then [Env ''BASE_ADDRESS'' (Word (to_string (unat base_address)))] else []));
          elf = get_target_dir project target_arch @ [profile release, name]
      in if binary then let (bin, rs) = objcopy elf binary in (bin, cargo # rs) else (elf, [cargo]))"

text \<open>The iteration of \<^verbatim>\<open>Cases::build\<close> over the names with their numbers; \<^verbatim>\<open>base + i as u64 * step\<close> is overflow-checked.\<close>

fun build_names :: "path \<Rightarrow> bool \<Rightarrow> u64 \<Rightarrow> u64 \<Rightarrow> string \<Rightarrow> nat \<Rightarrow> string list \<Rightarrow> (path list \<times> request list) res" where
  "build_names project release base step target_arch i [] = Inr ([], [])"
| "build_names project release base step target_arch i (name # names) =
     rbind (checked_usize_mul (of_nat i) step) (\<lambda>off.
     rbind (checked_usize_add base off) (\<lambda>addr.
       let (bin, rs) = build_one project name release addr target_arch in
       rbind (build_names project release base step target_arch (i + 1) names) (\<lambda>(bins, rs2).
         Inr (bin # bins, rs @ rs2))))"

definition cases_build :: "path \<Rightarrow> test_cases \<Rightarrow> bool \<Rightarrow> string \<Rightarrow> (cases_info \<times> request list) res" where
  "cases_build project c release target_arch =
     (case tc_cases c of
        Some names \<Rightarrow>
          let base = (case tc_base c of Some b \<Rightarrow> b | None \<Rightarrow> 0);
              step = (case tc_base c of Some _ \<Rightarrow> (case tc_step c of Some s \<Rightarrow> s | None \<Rightarrow> 0) | None \<Rightarrow> 0)
          in rbind (build_names project release base step target_arch 0 names) (\<lambda>(bins, rs).
               Inr (\<lparr>ci_base = base, ci_step = step, ci_bins = bins\<rparr>, rs))
      | None \<Rightarrow> Inr (\<lparr>ci_base = 0, ci_step = 0, ci_bins = []\<rparr>, []))"

text \<open>The file \<^verbatim>\<open>app.asm\<close>: the table of the programs, then the programs, then their names in chapter 5.\<close>

definition app_label :: "nat \<Rightarrow> string \<Rightarrow> string" where
  "app_label i s = ''app_'' @ to_string i @ s"

definition asm_directive :: "arch \<Rightarrow> string \<times> nat" where
  "asm_directive a = (case a of Riscv64 \<Rightarrow> (''.quad'', 3) | Riscv32 \<Rightarrow> (''.word'', 2))"

definition asm_table :: "arch \<Rightarrow> cases_info \<Rightarrow> asm_line list" where
  "asm_table a info =
     (let (d, align_size) = asm_directive a; n = length (ci_bins info) in
      [Global ''apps'', Section ''.data'', Align align_size, Label ''apps'',
       Data d (Hex (ci_base info)), Data d (Hex (ci_step info)), Data d (Dec n)]
      @ map (\<lambda>i. Data d (Symbol (app_label i ''_start''))) [0..<n]
      @ [Data d (Symbol (app_label (n - 1) ''_end''))])"

definition asm_programs :: "path list \<Rightarrow> asm_line list" where
  "asm_programs bins = concat (map (\<lambda>i. [Label (app_label i ''_start''), Incbin (bins ! i), Label (app_label i ''_end'')]) [0..<length bins])"

definition asm_names :: "arch \<Rightarrow> path list \<Rightarrow> asm_line list" where
  "asm_names a bins =
     [Align (snd (asm_directive a)), Section ''.data'', Global ''app_names'', Label ''app_names''] @ map (\<lambda>p. Asm_string (last p)) bins"

definition build_for :: "path \<Rightarrow> (nat \<Rightarrow> test_cases option) \<Rightarrow> nat \<Rightarrow> bool \<Rightarrow> arch \<Rightarrow> request list res" where
  "build_for project toml ch release kernel_arch =
     (let target_arch = arch_target kernel_arch; target_dir = get_target_dir project target_arch;
          c = (case toml ch of Some c \<Rightarrow> c | None \<Rightarrow> \<lparr>tc_base = None, tc_step = None, tc_cases = None\<rparr>)
      in rbind (cases_build project c release target_arch) (\<lambda>(info, rs).
         if ci_bins info = [] then Inr rs
         else
           let asm = asm_table kernel_arch info @ asm_programs (ci_bins info)
                       @ (if ch = 5 then asm_names kernel_arch (ci_bins info) else []);
               rs1 = rs @ [Write_file (target_dir @ [profile release, ''app.asm'']) asm]
           in if 6 \<le> ch
              then rbind (unwrap (tc_cases c)) (\<lambda>names. Inr (rs1 @ [Easy_fs_pack names (target_dir @ [profile release])]))
              else Inr rs1))"

section \<open>Kernels\<close>

record build_args =
  ba_ch :: nat
  ba_lab :: bool
  ba_arch :: arch
  ba_features :: "string option"
  ba_log :: "string option"
  ba_release :: bool
  ba_nobios :: bool

fun split_whitespace :: "string \<Rightarrow> string \<Rightarrow> string list" where
  "split_whitespace acc [] = (if acc = [] then [] else [rev acc])"
| "split_whitespace acc (c # cs) =
     (if of_char c \<in> {9, 10, 11, 12, 13, 32 :: nat}
      then (if acc = [] then [] else [rev acc]) @ split_whitespace [] cs
      else split_whitespace (c # acc) cs)"

text \<open>\<^verbatim>\<open>BuildArgs::make\<close>: the requests and the path of the kernel. A chapter outside 1 to 8 is \<^verbatim>\<open>unreachable!\<close>.\<close>

definition build_make :: "path \<Rightarrow> (nat \<Rightarrow> test_cases option) \<Rightarrow> build_args \<Rightarrow> (path \<times> request list) res" where
  "build_make project toml args =
     (let target_arch = arch_target (ba_arch args); target_dir = get_target_dir project target_arch;
          finish = (\<lambda>package env rs.
            Inr (target_dir @ [profile (ba_release args), package],
                 rs @ [Cargo_build ([Package package]
                   @ (case ba_features args of Some f \<Rightarrow> [Features False (split_whitespace [] f)] | None \<Rightarrow> [])
                   @ (case ba_log args of Some l \<Rightarrow> [Env ''LOG'' (Word l)] | None \<Rightarrow> [])
                   @ (if ba_release args then [Release] else [])
                   @ (if ba_nobios args then [Features False [''nobios'']] else [])
                   @ [Target target_arch] @ env)]))
      in if ba_ch args = 1 then finish (if ba_lab args then ''ch1-lab'' else ''ch1'') [] []
         else if 2 \<le> ba_ch args \<and> ba_ch args \<le> 8
         then rbind (build_for project toml (ba_ch args) False (ba_arch args)) (\<lambda>rs.
                finish (''ch'' @ to_string (ba_ch args)) [Env ''APP_ASM'' (Path (target_dir @ [''debug'', ''app.asm'']))] rs)
         else Inl Explicit_Panic)"

definition asm_dump :: "path \<Rightarrow> (nat \<Rightarrow> test_cases option) \<Rightarrow> build_args \<Rightarrow> string option \<Rightarrow> request list res" where
  "asm_dump project toml args console =
     rbind (build_make project toml args) (\<lambda>(elf, rs).
       Inr (rs @ [Dump_asm elf (project @ [case console of Some n \<Rightarrow> n | None \<Rightarrow> ''ch'' @ to_string (ba_ch args) @ ''.asm''])]))"

record qemu_args =
  qa_build :: build_args
  qa_qemu_dir :: "string option"
  qa_smp :: "nat option"
  qa_gdb :: "nat option"

definition fs_img :: "path \<Rightarrow> build_args \<Rightarrow> path" where
  "fs_img project args = get_target_dir project (arch_target (ba_arch args)) @ [profile (ba_release args), ''fs.img'']"

definition qemu_boot :: "path \<Rightarrow> build_args \<Rightarrow> path \<Rightarrow> arg list \<times> request list" where
  "qemu_boot project args elf =
     (let (bin, rs) = objcopy elf True in
      if ba_nobios args \<or> ba_arch args = Riscv32 then ([Word ''-bios'', Word ''none'', Word ''-kernel'', Path bin], rs)
      else ([Word ''-bios'', Path (project @ [''rustsbi-qemu.bin'']), Word ''-kernel'', Path bin], rs))"

definition qemu_run :: "path \<Rightarrow> (nat \<Rightarrow> test_cases option) \<Rightarrow> qemu_args \<Rightarrow> request list res" where
  "qemu_run project toml q =
     (let args = qa_build q in
      rbind (build_make project toml args) (\<lambda>(elf, rs).
      let search = (case qa_qemu_dir q of Some p \<Rightarrow> [Qemu_search p] | None \<Rightarrow> []);
          (boot, rs2) = qemu_boot project args elf;
          drive = (if ba_ch args > 5
            then [Word ''-drive'', Drive (fs_img project args),
                  Word ''-device'', Word ''virtio-blk-device,drive=x0,bus=virtio-mmio-bus.0'']
            else []);
          gdb = (case qa_gdb q of Some p \<Rightarrow> [Word ''-S'', Word ''-gdb'', Word (''tcp::'' @ to_string p)] | None \<Rightarrow> [])
      in Inr (rs @ search @ rs2 @ [Qemu_system (qemu_system (ba_arch args))
           ([Word ''-machine'', Word ''virt'', Word ''-nographic''] @ boot
            @ [Word ''-smp'', Word (to_string (case qa_smp q of Some n \<Rightarrow> n | None \<Rightarrow> 1)), Word ''-m'', Word ''64M'',
               Word ''-serial'', Word ''mon:stdio''] @ drive @ gdb)])))"

datatype commands = Make build_args | Asm build_args "string option" | Qemu qemu_args

fun xtask_main :: "path \<Rightarrow> (nat \<Rightarrow> test_cases option) \<Rightarrow> commands \<Rightarrow> request list res" where
  "xtask_main project toml (Make args) = rbind (build_make project toml args) (\<lambda>(_, rs). Inr rs)"
| "xtask_main project toml (Asm args console) = asm_dump project toml args console"
| "xtask_main project toml (Qemu q) = qemu_run project toml q"

text \<open>
  \<^verbatim>\<open>user/build.rs\<close>: with a base address in its environment, the build of a program gets a linker script that starts at this
  address.
\<close>

datatype script_line = Place u64 | Out_section string "string list"

definition linker_script :: "u64 \<Rightarrow> script_line list" where
  "linker_script base =
     [Place base, Out_section ''.text'' [''.text.entry'', ''.text .text.*''], Out_section ''.rodata'' [''.rodata .rodata.*'', ''.srodata .srodata.*''],
      Out_section ''.data'' [''.data .data.*'', ''.sdata .sdata.*''], Out_section ''.bss'' [''.bss .bss.*'', ''.sbss .sbss.*'']]"

definition user_build_rs :: "string option \<Rightarrow> script_line list option" where
  "user_build_rs base_address = map_option linker_script (Option.bind base_address parse_u64)"

section \<open>Numbers survive the environment\<close>

lemma digit_of_char: "d < 10 \<Longrightarrow> digit_of (char_of (48 + d)) = Some d" for d :: nat
  by (simp add: digit_of_def Let_def)

lemma parse_digits_append:
  "parse_digits (to_string n @ cs) acc = parse_digits cs (acc * 10 ^ length (to_string n) + n)"
proof (induction n arbitrary: cs acc rule: to_string.induct)
  case (1 n)
  show ?case
  proof (cases "n < 10")
    case True
    then show ?thesis by (simp add: to_string.simps [of n] digit_of_char)
  next
    case False
    define q d where "q = n div 10" and "d = n mod 10"
    have n: "n = q * 10 + d" "d < 10" by (simp_all add: q_def d_def)
    have ts: "to_string n = to_string q @ [char_of (48 + d)]" using False by (subst to_string.simps) (simp add: q_def d_def)
    have "parse_digits (to_string n @ cs) acc = parse_digits (char_of (48 + d) # cs) (acc * 10 ^ length (to_string q) + q)"
      using "1.IH" [OF False, folded q_def] by (simp add: ts)
    also have "\<dots> = parse_digits cs ((acc * 10 ^ length (to_string q) + q) * 10 + d)" using n(2) by (simp add: digit_of_char)
    also have "(acc * 10 ^ length (to_string q) + q) * 10 + d = acc * 10 ^ length (to_string n) + n"
    proof -
      have "length (to_string n) = Suc (length (to_string q))" by (simp add: ts)
      then show ?thesis using n(1) by (simp add: algebra_simps)
    qed
    finally show ?thesis .
  qed
qed

lemma to_string_start: "\<exists>(d :: nat) cs. to_string n = char_of (48 + d) # cs \<and> d < 10"
proof (induction n rule: to_string.induct)
  case (1 n)
  show ?case
  proof (cases "n < 10")
    case True
    then show ?thesis by (intro exI [of _ n] exI [of _ "[]"]) (simp add: to_string.simps [of n])
  next
    case False
    from 1 [OF False] obtain d :: nat and cs where d: "to_string (n div 10) = char_of (48 + d) # cs" "d < 10" by blast
    have "to_string n = char_of (48 + d) # (cs @ [char_of (48 + n mod 10)])" using False d(1) by (subst to_string.simps) simp
    with d(2) show ?thesis by blast
  qed
qed

lemma parse_to_string: "n < 2 ^ 64 \<Longrightarrow> parse_u64 (to_string n) = Some (of_nat n)"
proof -
  assume n: "n < 2 ^ 64"
  obtain d :: nat and cs where ts: "to_string n = char_of (48 + d) # cs" "d < 10" using to_string_start by blast
  have "char_of (48 + d) \<noteq> CHR ''+''"
  proof
    assume "char_of (48 + d) = CHR ''+''"
    then have "(of_char (char_of (48 + d) :: char) :: nat) = of_char CHR ''+''" by simp
    then show False using ts(2) by simp
  qed
  then show ?thesis using parse_digits_append [of n "[]" 0] n by (simp add: parse_u64_def Let_def ts(1) del: parse_digits.simps) simp
qed

section \<open>Programs are linked where they are loaded\<close>

text \<open>The requests and the result for program number \<open>i\<close>.\<close>

definition link_address :: "u64 \<Rightarrow> u64 \<Rightarrow> nat \<Rightarrow> u64" where
  "link_address base step i = base + of_nat i * step"

lemma build_names_nth:
  assumes "build_names project release base step a k names = Inr (bins, rs)" "i < length names"
  shows "length bins = length names \<and> bins ! i = fst (build_one project (names ! i) release (link_address base step (k + i)) a)
    \<and> set (snd (build_one project (names ! i) release (link_address base step (k + i)) a)) \<subseteq> set rs"
  using assms
proof (induction names arbitrary: k bins rs i)
  case (Cons name names)
  from Cons.prems(1) obtain b r bins2 rs2 where u: "build_one project name release (link_address base step k) a = (b, r)"
    "build_names project release base step a (k + 1) names = Inr (bins2, rs2)" "bins = b # bins2" "rs = r @ rs2"
    by (auto simp: rbind_eq_Inr checked_usize_mul_def checked_usize_add_def link_address_def split: if_splits prod.splits)
  have "length bins2 = length names"
  proof (cases names)
    case Nil
    then show ?thesis using u(2) by simp
  next
    case (Cons n ns)
    then show ?thesis using Cons.IH [OF u(2), of 0] by simp
  qed
  then show ?case
  proof (cases i)
    case (Suc j)
    then show ?thesis using Cons.IH [OF u(2), of j] Cons.prems(2) u(3,4) by auto
  qed (simp add: u)
qed simp

lemma cases_build_eq:
  assumes "cases_build project c release a = Inr (info, rs)" "tc_cases c = Some names"
  shows "build_names project release (ci_base info) (ci_step info) a 0 names = Inr (ci_bins info, rs)"
  using assms by (auto simp: cases_build_def Let_def rbind_eq_Inr split: option.splits)

lemma app_next_place:
  assumes "app_next meta i mem = Inr (Some ((place, len), j), mem')" "am_base meta + i * am_step meta \<noteq> 0"
  shows "place = am_base meta + i * am_step meta"
  using assms by (auto simp: app_next_def rbind_eq_Inr checked_usize_mul_def checked_usize_add_def Let_def split: if_splits)

text \<open>
  C33. A flat program runs where it was linked. Whatever base and step the test cases have: if the kernel finds in its table the
  base and the step that the build wrote there, it copies program number \<open>i\<close> to exactly the address at which the build linked
  it. That address went through the environment of the build as decimal digits and came back in the linker script of
  \<^verbatim>\<open>user/build.rs\<close>. Where the address is zero the program is not linked to an address and stays an ELF file.
\<close>

theorem linked_where_loaded:
  assumes "cases_build project c release a = Inr (info, rs)" "tc_cases c = Some names" "i < length names"
    and "am_base meta = ci_base info" "am_step meta = ci_step info" "app_next meta (of_nat i) mem = Inr (Some ((place, len), j), mem')"
  shows "\<exists>calls. Cargo_build calls \<in> set rs \<and> Arg (names ! i) \<in> set calls
    \<and> (if ci_base info + of_nat i * ci_step info = 0
       then (\<forall>s. Env ''BASE_ADDRESS'' s \<notin> set calls) \<and> ci_bins info ! i = get_target_dir project a @ [profile release, names ! i]
       else \<exists>s. Env ''BASE_ADDRESS'' (Word s) \<in> set calls \<and> user_build_rs (Some s) = Some (linker_script place))"
proof -
  let ?addr = "link_address (ci_base info) (ci_step info) i"
  have "set (snd (build_one project (names ! i) release ?addr a)) \<subseteq> set rs" "ci_bins info ! i = fst (build_one project (names ! i) release ?addr a)"
    using build_names_nth [OF cases_build_eq [OF assms(1,2)] assms(3)] by simp_all
  moreover have "user_build_rs (Some (to_string (unat ?addr))) = Some (linker_script ?addr)"
    using parse_to_string [of "unat ?addr"] unsigned_less [of ?addr, where 'a = nat] by (simp add: user_build_rs_def)
  moreover have "?addr \<noteq> 0 \<Longrightarrow> place = ?addr"
    using app_next_place [OF assms(6)] assms(4,5) by (simp add: link_address_def)
  ultimately show ?thesis by (auto simp: build_one_def Let_def link_address_def split: prod.splits if_splits)
qed

definition demo_cases :: test_cases where
  "demo_cases = \<lparr>tc_base = Some 0x80400000, tc_step = Some 0x200000, tc_cases = Some [''05write_a'', ''06write_b'']\<rparr>"

definition demo_meta :: app_meta where
  "demo_meta = \<lparr>am_base = 0x80400000, am_step = 0x200000, am_count = 2, am_table = [0x80210000, 0x80210100, 0x80210180]\<rparr>"

theorem linked_where_loaded_witness:
  "\<exists>info rs calls s. cases_build [] demo_cases False TARGET_ARCH_RV64 = Inr (info, rs) \<and> Cargo_build calls \<in> set rs
     \<and> Env ''BASE_ADDRESS'' (Word s) \<in> set calls \<and> user_build_rs (Some s) = Some (linker_script 0x80600000)"
proof -
  obtain info rs where b: "cases_build [] demo_cases False TARGET_ARCH_RV64 = Inr (info, rs)"
    "ci_base info = 0x80400000" "ci_step info = 0x200000"
    by (simp add: cases_build_def demo_cases_def Let_def checked_usize_mul_def checked_usize_add_def build_one_def objcopy_def)
  have "app_next demo_meta (of_nat 1) (\<lambda>_. 0) = Inr (Some ((0x80600000, 0x80), 2), mem_fill 0x80600080 0x1FFF80 0 (mem_copy 0x80210100 0x80600000 0x80 (\<lambda>_. 0)))"
    by (simp add: app_next_def demo_meta_def vec_index_def checked_usize_sub_def checked_usize_mul_def checked_usize_add_def Let_def APP_AREA_def)
      (simp add: word_le_nat_alt)
  from linked_where_loaded [OF b(1) _ _ _ _ this, of "[''05write_a'', ''06write_b'']"] b show ?thesis
    by (auto simp: demo_cases_def demo_meta_def)
qed

section \<open>The image QEMU boots with\<close>

lemma build_for_pack:
  assumes "build_for project toml ch release a = Inr rs" "Easy_fs_pack names dir \<in> set rs"
  shows "dir = get_target_dir project (arch_target a) @ [profile release] \<and> 6 \<le> ch"
proof -
  have "Easy_fs_pack names dir \<notin> set (snd (build_one project n release b t))" for n b t
    by (simp add: build_one_def objcopy_def Let_def)
  then have "Easy_fs_pack names dir \<notin> set rs1" if "build_names project release base step t k ns = Inr (bins, rs1)" for base step t k ns bins rs1
    using that
  proof (induction ns arbitrary: k bins rs1)
    case (Cons n ns)
    then obtain b bins2 rs2 where "build_names project release base step t (k + 1) ns = Inr (bins2, rs2)"
      "rs1 = snd (build_one project n release b t) @ rs2" by (auto simp: rbind_eq_Inr split_def Let_def)
    with Cons show ?case by auto
  qed simp
  then have "Easy_fs_pack names dir \<notin> set rs1" if "cases_build project c release t = Inr (info, rs1)" for c t info rs1
    using that by (auto simp: cases_build_def Let_def rbind_eq_Inr split: option.splits)
  with assms show ?thesis
    by (auto simp: build_for_def Let_def rbind_eq_Inr split: option.splits if_splits prod.splits)
qed

text \<open>
  The disk image that \<^verbatim>\<open>cargo qemu\<close> packs is the one it attaches exactly when the kernel is not built in release mode: the
  programs are always built and packed below \<^verbatim>\<open>debug\<close>, the drive is taken from the directory of the kernel.
\<close>

theorem attached_image:
  assumes "qemu_run project toml q = Inr rs" "Easy_fs_pack names dir \<in> set rs"
  shows "\<exists>sys as. Qemu_system sys as \<in> set rs \<and> Drive (fs_img project (qa_build q)) \<in> set as
    \<and> (dir @ [''fs.img''] = fs_img project (qa_build q) \<longleftrightarrow> \<not> ba_release (qa_build q))"
proof -
  let ?args = "qa_build q"
  from assms(1) obtain elf rs1 where mk: "build_make project toml ?args = Inr (elf, rs1)" by (auto simp: qemu_run_def Let_def rbind_eq_Inr)
  with assms have "Easy_fs_pack names dir \<in> set rs1"
    by (auto simp: qemu_run_def Let_def qemu_boot_def objcopy_def split: option.splits if_splits prod.splits)
  with mk obtain rs2 where "build_for project toml (ba_ch ?args) False (ba_arch ?args) = Inr rs2" "Easy_fs_pack names dir \<in> set rs2"
    by (auto simp: build_make_def Let_def rbind_eq_Inr split: if_splits)
  then have d: "dir = get_target_dir project (arch_target (ba_arch ?args)) @ [''debug'']" "6 \<le> ba_ch ?args"
    using build_for_pack by (fastforce simp: profile_def)+
  obtain boot rsb where "qemu_boot project ?args elf = (boot, rsb)" by fastforce
  with assms(1) mk d(2) have "\<exists>sys as. rs \<noteq> [] \<and> last rs = Qemu_system sys as \<and> Drive (fs_img project ?args) \<in> set as"
    by (auto simp: qemu_run_def Let_def)
  moreover have "dir @ [''fs.img''] = fs_img project ?args \<longleftrightarrow> \<not> ba_release ?args" by (simp add: d(1) fs_img_def profile_def)
  ultimately show ?thesis using last_in_set by metis
qed

end
