(* ===== verification/Signal_Defs.thy ===== *)
theory Signal_Defs
  imports Prelude
begin

text \<open>
  Signal numbers and actions, from \<^verbatim>\<open>signal-defs/src/lib.rs\<close>: the C-like enumeration of the 64
  signals, its discriminants, the checked conversion from \<^verbatim>\<open>u8\<close> that \<^verbatim>\<open>numeric_enum!\<close> derives and
  the unchecked conversion from \<^verbatim>\<open>usize\<close>. The signal module (theory \<^verbatim>\<open>Signals\<close>) and the system
  calls \<^verbatim>\<open>kill\<close> and \<^verbatim>\<open>sigaction\<close> are the clients.
\<close>

record signal_action =
  handler :: usize
  act_mask :: usize

definition signal_action_default :: signal_action where
  "signal_action_default = \<lparr>handler = 0, act_mask = 0\<rparr>"

definition MAX_SIG :: nat where "MAX_SIG = 31"

datatype (plugins only: code) signal_no =
    ERR | SIGHUP | SIGINT | SIGQUIT
  | SIGILL | SIGTRAP | SIGABRT | SIGBUS
  | SIGFPE | SIGKILL | SIGUSR1 | SIGSEGV
  | SIGUSR2 | SIGPIPE | SIGALRM | SIGTERM
  | SIGSTKFLT | SIGCHLD | SIGCONT | SIGSTOP
  | SIGTSTP | SIGTTIN | SIGTTOU | SIGURG
  | SIGXCPU | SIGXFSZ | SIGVTALRM | SIGPROF
  | SIGWINCH | SIGIO | SIGPWR | SIGSYS
  | SIGRTMIN | SIGRT1 | SIGRT2 | SIGRT3
  | SIGRT4 | SIGRT5 | SIGRT6 | SIGRT7
  | SIGRT8 | SIGRT9 | SIGRT10 | SIGRT11
  | SIGRT12 | SIGRT13 | SIGRT14 | SIGRT15
  | SIGRT16 | SIGRT17 | SIGRT18 | SIGRT19
  | SIGRT20 | SIGRT21 | SIGRT22 | SIGRT23
  | SIGRT24 | SIGRT25 | SIGRT26 | SIGRT27
  | SIGRT28 | SIGRT29 | SIGRT30 | SIGRT31

primrec signal_num :: "signal_no \<Rightarrow> nat" where
    "signal_num ERR = 0" | "signal_num SIGHUP = 1" | "signal_num SIGINT = 2" | "signal_num SIGQUIT = 3"
  | "signal_num SIGILL = 4" | "signal_num SIGTRAP = 5" | "signal_num SIGABRT = 6" | "signal_num SIGBUS = 7"
  | "signal_num SIGFPE = 8" | "signal_num SIGKILL = 9" | "signal_num SIGUSR1 = 10" | "signal_num SIGSEGV = 11"
  | "signal_num SIGUSR2 = 12" | "signal_num SIGPIPE = 13" | "signal_num SIGALRM = 14" | "signal_num SIGTERM = 15"
  | "signal_num SIGSTKFLT = 16" | "signal_num SIGCHLD = 17" | "signal_num SIGCONT = 18" | "signal_num SIGSTOP = 19"
  | "signal_num SIGTSTP = 20" | "signal_num SIGTTIN = 21" | "signal_num SIGTTOU = 22" | "signal_num SIGURG = 23"
  | "signal_num SIGXCPU = 24" | "signal_num SIGXFSZ = 25" | "signal_num SIGVTALRM = 26" | "signal_num SIGPROF = 27"
  | "signal_num SIGWINCH = 28" | "signal_num SIGIO = 29" | "signal_num SIGPWR = 30" | "signal_num SIGSYS = 31"
  | "signal_num SIGRTMIN = 32" | "signal_num SIGRT1 = 33" | "signal_num SIGRT2 = 34" | "signal_num SIGRT3 = 35"
  | "signal_num SIGRT4 = 36" | "signal_num SIGRT5 = 37" | "signal_num SIGRT6 = 38" | "signal_num SIGRT7 = 39"
  | "signal_num SIGRT8 = 40" | "signal_num SIGRT9 = 41" | "signal_num SIGRT10 = 42" | "signal_num SIGRT11 = 43"
  | "signal_num SIGRT12 = 44" | "signal_num SIGRT13 = 45" | "signal_num SIGRT14 = 46" | "signal_num SIGRT15 = 47"
  | "signal_num SIGRT16 = 48" | "signal_num SIGRT17 = 49" | "signal_num SIGRT18 = 50" | "signal_num SIGRT19 = 51"
  | "signal_num SIGRT20 = 52" | "signal_num SIGRT21 = 53" | "signal_num SIGRT22 = 54" | "signal_num SIGRT23 = 55"
  | "signal_num SIGRT24 = 56" | "signal_num SIGRT25 = 57" | "signal_num SIGRT26 = 58" | "signal_num SIGRT27 = 59"
  | "signal_num SIGRT28 = 60" | "signal_num SIGRT29 = 61" | "signal_num SIGRT30 = 62" | "signal_num SIGRT31 = 63"

definition all_signals :: "signal_no list" where
  "all_signals =
     [ERR, SIGHUP, SIGINT, SIGQUIT, 
      SIGILL, SIGTRAP, SIGABRT, SIGBUS, 
      SIGFPE, SIGKILL, SIGUSR1, SIGSEGV, 
      SIGUSR2, SIGPIPE, SIGALRM, SIGTERM, 
      SIGSTKFLT, SIGCHLD, SIGCONT, SIGSTOP, 
      SIGTSTP, SIGTTIN, SIGTTOU, SIGURG, 
      SIGXCPU, SIGXFSZ, SIGVTALRM, SIGPROF, 
      SIGWINCH, SIGIO, SIGPWR, SIGSYS, 
      SIGRTMIN, SIGRT1, SIGRT2, SIGRT3, 
      SIGRT4, SIGRT5, SIGRT6, SIGRT7, 
      SIGRT8, SIGRT9, SIGRT10, SIGRT11, 
      SIGRT12, SIGRT13, SIGRT14, SIGRT15, 
      SIGRT16, SIGRT17, SIGRT18, SIGRT19, 
      SIGRT20, SIGRT21, SIGRT22, SIGRT23, 
      SIGRT24, SIGRT25, SIGRT26, SIGRT27, 
      SIGRT28, SIGRT29, SIGRT30, SIGRT31]"

text \<open>\<^verbatim>\<open>SignalNo::try_from\<close>: the discriminants are exactly 0 to 63.\<close>

definition signal_try_from :: "u8 \<Rightarrow> signal_no option" where
  "signal_try_from n = (if unat n < 64 then Some (all_signals ! unat n) else None)"

text \<open>\<^verbatim>\<open>impl From<usize> for SignalNo\<close>: the number is cut down to a byte first.\<close>

definition signal_from :: "usize \<Rightarrow> signal_no" where
  "signal_from n = (case signal_try_from (ucast n) of None \<Rightarrow> ERR | Some s \<Rightarrow> s)"

lemma length_all_signals [simp]: "length all_signals = 64"
  by (simp add: all_signals_def)

lemma map_signal_num_all: "map signal_num all_signals = [0..<64]"
  by (simp add: all_signals_def upt_rec)

lemma signal_num_all [simp]: "n < 64 \<Longrightarrow> signal_num (all_signals ! n) = n"
  using map_signal_num_all by (metis diff_zero length_all_signals nth_map nth_upt plus_nat.add_0)

lemma signal_num_lt [simp]: "signal_num s < 64"
  by (cases s) simp_all

lemma all_signals_num [simp]: "all_signals ! signal_num s = s"
  by (cases s) (simp_all add: all_signals_def)

lemma signal_num_inject: "signal_num s = signal_num t \<longleftrightarrow> s = t"
  by (metis all_signals_num)

lemma signal_try_from_num: "signal_try_from (of_nat (signal_num s)) = Some s"
proof -
  have "signal_num s < 2 ^ 8" by (rule less_trans [OF signal_num_lt]) simp
  then have "take_bit 8 (signal_num s) = signal_num s" by (rule take_bit_nat_eq_self)
  then show ?thesis by (simp add: signal_try_from_def unsigned_of_nat)
qed

lemma signal_try_from_Some: "signal_try_from n = Some s \<longleftrightarrow> unat n = signal_num s"
  by (auto simp: signal_try_from_def)

lemma signal_from_lt: "n < 64 \<Longrightarrow> signal_from (of_nat n) = all_signals ! n"
  by (simp add: signal_from_def signal_try_from_def unsigned_ucast_eq take_bit_nat_eq_self unsigned_of_nat)

lemma signal_from_num [simp]: "signal_from (of_nat (signal_num s)) = s"
  by (simp add: signal_from_lt)

lemma signal_num_from: "n < 64 \<Longrightarrow> signal_num (signal_from (of_nat n)) = n"
  by (simp add: signal_from_lt)

end
