(* ===== verification/User_Abi.thy ===== *)
theory User_Abi
  imports Syscall Signal_Defs
begin

text \<open>
  The user side of the system-call interface, \<^verbatim>\<open>syscall/src/user.rs\<close>: the \<^verbatim>\<open>ecall\<close> wrappers and the
  functions that applications call. Running the kernel from an \<^verbatim>\<open>ecall\<close> until the thread resumes is
  the parameter \<^verbatim>\<open>ue_ecall\<close>; it has no result when the thread never resumes. The registers a wrapper
  does not set hold whatever the program left there (\<^verbatim>\<open>ue_regs\<close>). The properties join both sides: a
  wrapper followed by the dispatcher of theory \<^verbatim>\<open>Syscall\<close> reaches the method it names, with the
  arguments the application passed.
\<close>

section \<open>The wrappers around ecall\<close>

record 'w user_env =
  ue_regs :: "'w \<Rightarrow> local_context"
  ue_ecall :: "local_context \<Rightarrow> 'w \<Rightarrow> (isize \<times> 'w) option"

text \<open>The operands of \<^verbatim>\<open>asm!\<close>: each pair puts a value into the argument register \<^verbatim>\<open>a<n>\<close>.\<close>

definition set_regs :: "(nat \<times> usize) list \<Rightarrow> local_context \<Rightarrow> local_context" where
  "set_regs rs ctx = fold (\<lambda>(n, v) c. c\<lparr>xregs := (xregs c)[n + 9 := v]\<rparr>) rs ctx"

type_synonym 'w user_call = "'w \<Rightarrow> (isize \<times> 'w) option"

definition ecall_with :: "'w user_env \<Rightarrow> (nat \<times> usize) list \<Rightarrow> 'w user_call" where
  "ecall_with env rs w = ue_ecall env (set_regs rs (ue_regs env w)) w"

definition syscall0 :: "'w user_env \<Rightarrow> syscall_id \<Rightarrow> 'w user_call" where
  "syscall0 env sid = ecall_with env [(7, sid)]"

definition syscall1 :: "'w user_env \<Rightarrow> syscall_id \<Rightarrow> usize \<Rightarrow> 'w user_call" where
  "syscall1 env sid a0 = ecall_with env [(7, sid), (0, a0)]"

definition syscall2 :: "'w user_env \<Rightarrow> syscall_id \<Rightarrow> usize \<Rightarrow> usize \<Rightarrow> 'w user_call" where
  "syscall2 env sid a0 a1 = ecall_with env [(7, sid), (0, a0), (1, a1)]"

definition syscall3 :: "'w user_env \<Rightarrow> syscall_id \<Rightarrow> usize \<Rightarrow> usize \<Rightarrow> usize \<Rightarrow> 'w user_call" where
  "syscall3 env sid a0 a1 a2 = ecall_with env [(7, sid), (0, a0), (1, a1), (2, a2)]"

definition syscall4 :: "'w user_env \<Rightarrow> syscall_id \<Rightarrow> usize \<Rightarrow> usize \<Rightarrow> usize \<Rightarrow> usize \<Rightarrow> 'w user_call" where
  "syscall4 env sid a0 a1 a2 a3 = ecall_with env [(7, sid), (0, a0), (1, a1), (2, a2), (3, a3)]"

definition syscall5 :: "'w user_env \<Rightarrow> syscall_id \<Rightarrow> usize \<Rightarrow> usize \<Rightarrow> usize \<Rightarrow> usize \<Rightarrow> usize \<Rightarrow> 'w user_call" where
  "syscall5 env sid a0 a1 a2 a3 a4 = ecall_with env [(7, sid), (0, a0), (1, a1), (2, a2), (3, a3), (4, a4)]"

definition syscall6 :: "'w user_env \<Rightarrow> syscall_id \<Rightarrow> usize \<Rightarrow> usize \<Rightarrow> usize \<Rightarrow> usize \<Rightarrow> usize \<Rightarrow> usize \<Rightarrow> 'w user_call" where
  "syscall6 env sid a0 a1 a2 a3 a4 a5 = ecall_with env [(7, sid), (0, a0), (1, a1), (2, a2), (3, a3), (4, a4), (5, a5)]"

section \<open>The functions applications call\<close>

text \<open>A slice argument is its address and length, a pointer its address.\<close>

definition user_write :: "'w user_env \<Rightarrow> usize \<Rightarrow> usize \<Rightarrow> usize \<Rightarrow> 'w user_call" where
  "user_write env fd ptr len = syscall3 env SYS_WRITE fd ptr len"

definition user_read :: "'w user_env \<Rightarrow> usize \<Rightarrow> usize \<Rightarrow> usize \<Rightarrow> 'w user_call" where
  "user_read env fd ptr len = syscall3 env SYS_READ fd ptr len"

definition user_open :: "'w user_env \<Rightarrow> usize \<Rightarrow> u32 \<Rightarrow> 'w user_call" where
  "user_open env path flags = syscall2 env SYS_OPENAT path (ucast flags)"

definition user_close :: "'w user_env \<Rightarrow> usize \<Rightarrow> 'w user_call" where
  "user_close env fd = syscall1 env SYS_CLOSE fd"

definition user_exit :: "'w user_env \<Rightarrow> u32 \<Rightarrow> 'w user_call" where
  "user_exit env exit_code = syscall1 env SYS_EXIT (scast exit_code)"

definition user_sched_yield :: "'w user_env \<Rightarrow> 'w user_call" where
  "user_sched_yield env = syscall0 env SYS_SCHED_YIELD"

definition user_clock_gettime :: "'w user_env \<Rightarrow> usize \<Rightarrow> usize \<Rightarrow> 'w user_call" where
  "user_clock_gettime env clockid tp = syscall2 env SYS_CLOCK_GETTIME clockid tp"

definition user_fork :: "'w user_env \<Rightarrow> 'w user_call" where
  "user_fork env = syscall0 env SYS_CLONE"

definition user_exec :: "'w user_env \<Rightarrow> usize \<Rightarrow> usize \<Rightarrow> 'w user_call" where
  "user_exec env path len = syscall2 env SYS_EXECVE path len"

definition user_getpid :: "'w user_env \<Rightarrow> 'w user_call" where
  "user_getpid env = syscall0 env SYS_GETPID"

definition user_kill :: "'w user_env \<Rightarrow> isize \<Rightarrow> signal_no \<Rightarrow> 'w user_call" where
  "user_kill env pid signum = syscall2 env SYS_KILL pid (of_nat (signal_num signum))"

definition user_sigaction :: "'w user_env \<Rightarrow> signal_no \<Rightarrow> usize \<Rightarrow> usize \<Rightarrow> 'w user_call" where
  "user_sigaction env signum action old_action = syscall3 env SYS_RT_SIGACTION (of_nat (signal_num signum)) action old_action"

definition user_sigprocmask :: "'w user_env \<Rightarrow> usize \<Rightarrow> 'w user_call" where
  "user_sigprocmask env msk = syscall1 env SYS_RT_SIGPROCMASK msk"

definition user_sigreturn :: "'w user_env \<Rightarrow> 'w user_call" where
  "user_sigreturn env = syscall0 env SYS_RT_SIGRETURN"

definition user_thread_create :: "'w user_env \<Rightarrow> usize \<Rightarrow> usize \<Rightarrow> 'w user_call" where
  "user_thread_create env entry arg = syscall2 env SYS_THREAD_CREATE entry arg"

definition user_gettid :: "'w user_env \<Rightarrow> 'w user_call" where
  "user_gettid env = syscall0 env SYS_GETTID"

definition user_semaphore_create :: "'w user_env \<Rightarrow> usize \<Rightarrow> 'w user_call" where
  "user_semaphore_create env res_count = syscall1 env SYS_SEMAPHORE_CREATE res_count"

definition user_semaphore_up :: "'w user_env \<Rightarrow> usize \<Rightarrow> 'w user_call" where
  "user_semaphore_up env sem_id = syscall1 env SYS_SEMAPHORE_UP sem_id"

definition user_semaphore_down :: "'w user_env \<Rightarrow> usize \<Rightarrow> 'w user_call" where
  "user_semaphore_down env sem_id = syscall1 env SYS_SEMAPHORE_DOWN sem_id"

definition user_mutex_create :: "'w user_env \<Rightarrow> bool \<Rightarrow> 'w user_call" where
  "user_mutex_create env blocking = syscall1 env SYS_MUTEX_CREATE (of_bool blocking)"

definition user_mutex_lock :: "'w user_env \<Rightarrow> usize \<Rightarrow> 'w user_call" where
  "user_mutex_lock env mutex_id = syscall1 env SYS_MUTEX_LOCK mutex_id"

definition user_mutex_unlock :: "'w user_env \<Rightarrow> usize \<Rightarrow> 'w user_call" where
  "user_mutex_unlock env mutex_id = syscall1 env SYS_MUTEX_UNLOCK mutex_id"

definition user_condvar_create :: "'w user_env \<Rightarrow> 'w user_call" where
  "user_condvar_create env = syscall1 env SYS_CONDVAR_CREATE 0"

definition user_condvar_signal :: "'w user_env \<Rightarrow> usize \<Rightarrow> 'w user_call" where
  "user_condvar_signal env condvar_id = syscall1 env SYS_CONDVAR_SIGNAL condvar_id"

definition user_condvar_wait :: "'w user_env \<Rightarrow> usize \<Rightarrow> usize \<Rightarrow> 'w user_call" where
  "user_condvar_wait env condvar_id mutex_id = syscall2 env SYS_CONDVAR_WAIT condvar_id mutex_id"

text \<open>
  \<^verbatim>\<open>wait\<close>, \<^verbatim>\<open>waitpid\<close> and \<^verbatim>\<open>waittid\<close> repeat their system call, yielding in between, as long as the
  kernel answers -2. The loop has no result while it runs.
\<close>

partial_function (option) poll :: "'w user_env \<Rightarrow> 'w user_call \<Rightarrow> 'w user_call" where
  "poll env call w =
     Option.bind (call w) (\<lambda>(r, w1).
       if r = - 2 then Option.bind (user_sched_yield env w1) (\<lambda>(_, w2). poll env call w2)
       else Some (r, w1))"

definition user_wait :: "'w user_env \<Rightarrow> usize \<Rightarrow> 'w user_call" where
  "user_wait env exit_code_ptr = poll env (syscall2 env SYS_WAIT4 (- 1) exit_code_ptr)"

definition user_waitpid :: "'w user_env \<Rightarrow> isize \<Rightarrow> usize \<Rightarrow> 'w user_call" where
  "user_waitpid env pid exit_code_ptr = poll env (syscall2 env SYS_WAIT4 pid exit_code_ptr)"

definition user_waittid :: "'w user_env \<Rightarrow> usize \<Rightarrow> 'w user_call" where
  "user_waittid env tid = poll env (syscall1 env SYS_WAITID tid)"

section \<open>Polling\<close>

text \<open>\<^verbatim>\<open>n\<close> rounds of the loop in which the kernel answered -2.\<close>

fun busy_rounds :: "'w user_env \<Rightarrow> 'w user_call \<Rightarrow> nat \<Rightarrow> 'w \<Rightarrow> 'w option" where
  "busy_rounds env call 0 w = Some w"
| "busy_rounds env call (Suc n) w =
     (case call w of
        Some (r, w1) \<Rightarrow>
          if r = - 2 then (case user_sched_yield env w1 of
              Some (_, w2) \<Rightarrow> busy_rounds env call n w2 | None \<Rightarrow> None)
          else None
      | None \<Rightarrow> None)"

lemma poll_after_busy:
  assumes "busy_rounds env call n w = Some wn" "call wn = Some (r, w')" "r \<noteq> - 2"
  shows "poll env call w = Some (r, w')"
  using assms
proof (induction n arbitrary: w)
  case 0
  then show ?case by (simp add: poll.simps)
next
  case (Suc n)
  from Suc.prems(1) obtain w1 x w2 where
    c: "call w = Some (- 2, w1)" "user_sched_yield env w1 = Some (x, w2)" "busy_rounds env call n w2 = Some wn"
    by (auto split: option.splits if_splits)
  from c Suc.IH [OF c(3) Suc.prems(2,3)] show ?case by (subst poll.simps) simp
qed

text \<open>Rule induction over the runs of the loop that return.\<close>

lemma poll_Some:
  assumes "poll env call w = Some y"
  shows "\<exists>n wn. busy_rounds env call n w = Some wn \<and> call wn = Some y \<and> fst y \<noteq> - 2"
proof (rule poll.raw_induct [where P = "\<lambda>env call w y.
    \<exists>n wn. busy_rounds env call n w = Some wn \<and> call wn = Some y \<and> fst y \<noteq> - 2", OF _ assms])
  fix rec and env :: "'a user_env" and call w y
  assume ih: "\<And>env call w y. rec env call w = Some y \<Longrightarrow>
      \<exists>n wn. busy_rounds env call n w = Some wn \<and> call wn = Some y \<and> fst y \<noteq> - 2"
    and run: "Option.bind (call w) (\<lambda>(r, w1).
       if r = - 2 then Option.bind (user_sched_yield env w1) (\<lambda>(_, w2). rec env call w2)
       else Some (r, w1)) = Some y"
  from run obtain r w1 where c: "call w = Some (r, w1)"
    by (cases "call w") auto
  show "\<exists>n wn. busy_rounds env call n w = Some wn \<and> call wn = Some y \<and> fst y \<noteq> - 2"
  proof (cases "r = - 2")
    case True
    with run c obtain x w2 where
      y2: "user_sched_yield env w1 = Some (x, w2)" "rec env call w2 = Some y"
      by (auto simp: bind_eq_Some_conv)
    from ih [OF y2(2)] obtain n wn where
      "busy_rounds env call n w2 = Some wn" "call wn = Some y" "fst y \<noteq> - 2" by blast
    with c True y2(1) have "busy_rounds env call (Suc n) w = Some wn" by simp
    with \<open>call wn = Some y\<close> \<open>fst y \<noteq> - 2\<close> show ?thesis by blast
  next
    case False
    with run c have "y = (r, w1)" by simp
    with c False show ?thesis by (intro exI [of _ 0]) simp
  qed
qed

text \<open>
  Waiting by polling. \<^verbatim>\<open>waitpid\<close> returns exactly when the kernel, asked again and again with a
  yield in between, at some point answers something else than -2; it then returns that first other
  answer, and never -2 itself.
\<close>

theorem waitpid_polls:
  "user_waitpid env pid ptr w = Some y \<longleftrightarrow>
     (\<exists>n wn. busy_rounds env (syscall2 env SYS_WAIT4 pid ptr) n w = Some wn \<and>
        syscall2 env SYS_WAIT4 pid ptr wn = Some y \<and> fst y \<noteq> - 2)"
  unfolding user_waitpid_def
  using poll_Some [of env "syscall2 env SYS_WAIT4 pid ptr" w y]
    poll_after_busy [of env "syscall2 env SYS_WAIT4 pid ptr" _ w _ "fst y" "snd y"]
  by (metis prod.collapse)

section \<open>Both sides together\<close>

text \<open>
  An \<^verbatim>\<open>ecall\<close> answered by the dispatcher: the kernel reads the frame, calls \<^verbatim>\<open>handle\<close> and returns the
  value of a call that is done.
\<close>

definition returned :: "(isize \<times> 's) res \<Rightarrow> (isize \<times> 's) option" where
  "returned r = (case r of Inl _ \<Rightarrow> None | Inr x \<Rightarrow> Some x)"

definition kernel_ecall :: "'s containers \<Rightarrow> caller \<Rightarrow> local_context \<Rightarrow> 's \<Rightarrow> (isize \<times> 's) option" where
  "kernel_ecall c clr ctx s =
     (case rbind (read_frame ctx) (\<lambda>(sid, args). handle c clr sid args s) of
        Inr (Done r, s1) \<Rightarrow> Some (r, s1)
      | _ \<Rightarrow> None)"

definition abi_env :: "'s containers \<Rightarrow> caller \<Rightarrow> ('s \<Rightarrow> local_context) \<Rightarrow> 's user_env" where
  "abi_env c clr regs = \<lparr>ue_regs = regs, ue_ecall = kernel_ecall c clr\<rparr>"

text \<open>A kernel that has registered every interface.\<close>

definition registered ::
    "'s process_sys \<Rightarrow> 's io_sys \<Rightarrow> 's memory_sys \<Rightarrow> 's scheduling_sys \<Rightarrow> 's clock_sys \<Rightarrow>
     's signal_sys \<Rightarrow> 's thread_sys \<Rightarrow> 's sync_mutex_sys \<Rightarrow> 's containers" where
  "registered P I M S C G T X =
     init_sync_mutex X (init_thread T (init_signal G (init_clock C (init_scheduling S
       (init_memory M (init_io I (init_process P containers_new)))))))"

lemmas registered_defs =
  registered_def init_sync_mutex_def init_thread_def init_signal_def init_clock_def
  init_scheduling_def init_memory_def init_io_def init_process_def containers_new_def
  container_init_def container_new_def

lemma registered_sel [simp]:
  "c_process (registered P I M S C G T X) = Some P" "c_io (registered P I M S C G T X) = Some I"
  "c_scheduling (registered P I M S C G T X) = Some S" "c_clock (registered P I M S C G T X) = Some C"
  "c_signal (registered P I M S C G T X) = Some G" "c_thread (registered P I M S C G T X) = Some T"
  "c_sync_mutex (registered P I M S C G T X) = Some X"
  by (simp_all add: registered_defs)

text \<open>What the kernel reads from the argument registers after a wrapper has set some of them.\<close>

definition frame_reg :: "(nat \<times> usize) list \<Rightarrow> local_context \<Rightarrow> nat \<Rightarrow> usize" where
  "frame_reg rs ctx n = (case map_of (rev rs) n of Some v \<Rightarrow> v | None \<Rightarrow> xregs ctx ! (n + 9))"

lemma set_regs_nth:
  assumes "n < 8" "length (xregs ctx) = 31" "\<forall>(m, v) \<in> set rs. m < 8"
  shows "xregs (set_regs rs ctx) ! (n + 9) = frame_reg rs ctx n \<and> length (xregs (set_regs rs ctx)) = 31"
  using assms
proof (induction rs arbitrary: ctx)
  case (Cons p rs)
  obtain m v where p: "p = (m, v)" by force
  have "set_regs (p # rs) ctx = set_regs rs (ctx\<lparr>xregs := (xregs ctx)[m + 9 := v]\<rparr>)"
    by (simp add: set_regs_def p)
  with Cons.IH [of "ctx\<lparr>xregs := (xregs ctx)[m + 9 := v]\<rparr>"] Cons.prems show ?case
    by (auto simp: p map_add_def frame_reg_def split: option.splits)
qed (simp add: set_regs_def frame_reg_def)

lemma ctx_a_set_regs:
  assumes "ctx_wf ctx" "\<forall>(m, v) \<in> set rs. m < 8" "n < 8"
  shows "ctx_a (set_regs rs ctx) n = Inr (frame_reg rs ctx n)"
  using set_regs_nth [of n ctx rs] assms by (simp add: ctx_a_def ctx_x_def ctx_wf_def add.commute)

text \<open>How the answer of the dispatcher comes back to the application.\<close>

definition answer :: "(syscall_result \<times> 's) res \<Rightarrow> (isize \<times> 's) option" where
  "answer r = (case r of Inr (Done v, s) \<Rightarrow> Some (v, s) | _ \<Rightarrow> None)"

lemma answer_call [simp]: "answer (container_call (Some t) sid f s) = returned (f t s)"
  by (cases "f t s") (auto simp: answer_def container_call_def returned_def)

lemma ecall_dispatch:
  assumes "ctx_wf (regs s)" "\<forall>(m, v) \<in> set rs. m < 8"
  shows "ecall_with (abi_env c clr regs) rs s =
     answer (let g = frame_reg rs (regs s) in handle c clr (g 7) (g 0, g 1, g 2, g 3, g 4, g 5) s)"
  using ctx_a_set_regs [OF assms]
  by (simp add: ecall_with_def abi_env_def kernel_ecall_def read_frame_def answer_def Let_def)

lemmas syscall_defs = syscall0_def syscall1_def syscall2_def syscall3_def

lemmas user_defs =
  user_write_def user_read_def user_open_def user_close_def
  user_exit_def user_sched_yield_def user_clock_gettime_def user_fork_def
  user_exec_def user_getpid_def user_kill_def user_sigaction_def
  user_sigprocmask_def user_sigreturn_def user_thread_create_def user_gettid_def
  user_semaphore_create_def user_semaphore_up_def user_semaphore_down_def user_mutex_create_def
  user_mutex_lock_def user_mutex_unlock_def user_condvar_create_def user_condvar_signal_def
  user_condvar_wait_def

lemmas abi_eval = ecall_dispatch handle_def syscall_ids frame_reg_def

lemma abi_polls:
  assumes "\<And>s. ctx_wf (regs s)"
  shows "syscall2 (abi_env (registered P I M S C G T X) clr regs) SYS_WAIT4 pid ptr =
      (\<lambda>s. returned (sys_wait P clr pid ptr s))"
    "syscall1 (abi_env (registered P I M S C G T X) clr regs) SYS_WAITID tid =
      (\<lambda>s. returned (sys_waittid T clr tid s))"
  by (auto simp: syscall_defs abi_eval assms)

lemma signal_num_u8: "(ucast (of_nat (signal_num g) :: usize) :: u8) = of_nat (signal_num g)"
  by (rule bit_word_eqI) (simp add: bit_simps)

text \<open>
  C28. The two sides of the system-call interface agree. In a kernel that has registered its
  implementations, every function that \<^verbatim>\<open>user.rs\<close> offers to applications reaches the trait method of
  the same name with exactly the arguments passed (a signal number narrowed to \<^verbatim>\<open>u8\<close>, a negative exit
  code sign-extended, a boolean turned into 0 or 1 and back), whatever the other registers hold, and
  returns what the method returns; the three waiting functions poll it.
\<close>

theorem abi_roundtrip:
  assumes "\<And>s. ctx_wf (regs s)"
    and "env = abi_env (registered P I M S C G T X) clr regs"
  shows "user_write env fd ptr len s = returned (sys_write I clr fd ptr len s) \<and>
     user_read env fd ptr len s = returned (sys_read I clr fd ptr len s) \<and>
     user_open env path flags s = returned (sys_open I clr path (ucast flags) s) \<and>
     user_close env fd s = returned (sys_close I clr fd s) \<and>
     user_exit env exit_code s = returned (sys_exit P clr (scast exit_code) s) \<and>
     user_sched_yield env s = returned (sys_sched_yield S clr s) \<and>
     user_clock_gettime env clockid tp s = returned (sys_clock_gettime C clr clockid tp s) \<and>
     user_fork env s = returned (sys_fork P clr s) \<and>
     user_exec env path len s = returned (sys_exec P clr path len s) \<and>
     user_getpid env s = returned (sys_getpid P clr s) \<and>
     user_kill env pid signum s = returned (sys_kill G clr pid (of_nat (signal_num signum)) s) \<and>
     user_sigaction env signum action old_action s = returned (sys_sigaction G clr (of_nat (signal_num signum)) action old_action s) \<and>
     user_sigprocmask env msk s = returned (sys_sigprocmask G clr msk s) \<and>
     user_sigreturn env s = returned (sys_sigreturn G clr s) \<and>
     user_thread_create env entry arg s = returned (sys_thread_create T clr entry arg s) \<and>
     user_gettid env s = returned (sys_gettid T clr s) \<and>
     user_semaphore_create env res_count s = returned (sys_semaphore_create X clr res_count s) \<and>
     user_semaphore_up env sem_id s = returned (sys_semaphore_up X clr sem_id s) \<and>
     user_semaphore_down env sem_id s = returned (sys_semaphore_down X clr sem_id s) \<and>
     user_mutex_create env blocking s = returned (sys_mutex_create X clr blocking s) \<and>
     user_mutex_lock env mutex_id s = returned (sys_mutex_lock X clr mutex_id s) \<and>
     user_mutex_unlock env mutex_id s = returned (sys_mutex_unlock X clr mutex_id s) \<and>
     user_condvar_create env s = returned (sys_condvar_create X clr 0 s) \<and>
     user_condvar_signal env condvar_id s = returned (sys_condvar_signal X clr condvar_id s) \<and>
     user_condvar_wait env condvar_id mutex_id s = returned (sys_condvar_wait X clr condvar_id mutex_id s) \<and>
     user_wait env ptr s = poll env (\<lambda>s. returned (sys_wait P clr (- 1) ptr s)) s \<and>
     user_waitpid env pid ptr s = poll env (\<lambda>s. returned (sys_wait P clr pid ptr s)) s \<and>
     user_waittid env tid s = poll env (\<lambda>s. returned (sys_waittid T clr tid s)) s"
  using assms(1)
  unfolding assms(2) user_wait_def user_waitpid_def user_waittid_def abi_polls [OF assms(1)]
  by (intro conjI) (simp_all add: user_defs syscall_defs abi_eval signal_num_u8)

text \<open>A kernel that only implements \<^verbatim>\<open>exit\<close>, and counts the calls.\<close>

definition demo_process_sys :: "nat process_sys" where
  "demo_process_sys = process_sys_default\<lparr>sys_exit := \<lambda>_ code s. Inr (code, s + 1)\<rparr>"

definition demo_abi :: "nat user_env" where
  "demo_abi = abi_env (registered demo_process_sys io_sys_default memory_sys_default
     scheduling_sys_default clock_sys_default signal_sys_default thread_sys_default
     sync_mutex_sys_default) \<lparr>entity = 0, flow = 0\<rparr> (\<lambda>_. ctx_empty)"

theorem abi_roundtrip_witness: "user_exit demo_abi (- 5) 0 = Some (- 5, 1)"
proof -
  have "\<And>s :: nat. ctx_wf ctx_empty" by simp
  from abi_roundtrip [OF this demo_abi_def, where s = 0 and exit_code = "- 5"]
  have "user_exit demo_abi (- 5) 0 = returned (sys_exit demo_process_sys \<lparr>entity = 0, flow = 0\<rparr> (scast (- 5 :: u32)) 0)"
    by simp
  then show ?thesis by (simp add: demo_process_sys_def process_sys_default_def returned_def)
qed

end
