(* ===== verification/Signals.thy ===== *)
theory Signals
  imports Signal_Defs Context
begin

unbundle bit_operations_syntax

text \<open>
  The signal module of a process, from \<^verbatim>\<open>signal-impl/src\<close>: the bit set of pending signals
  (\<^verbatim>\<open>SignalSet\<close>), the default actions, and \<^verbatim>\<open>SignalImpl\<close> with every method of the \<^verbatim>\<open>Signal\<close> trait of
  \<^verbatim>\<open>signal/src/lib.rs\<close>. A method that takes \<^verbatim>\<open>&mut self\<close> returns the new state; \<^verbatim>\<open>handle_signals\<close>
  and \<^verbatim>\<open>sig_return\<close> also return the user context they rewrite.
\<close>

section \<open>Signal sets\<close>

type_synonym signal_set = usize

text \<open>
  Shifting by \<^verbatim>\<open>kth\<close> is overflow-checked in Rust: a position of 64 or more panics.
\<close>

definition contain_bit :: "signal_set \<Rightarrow> nat \<Rightarrow> bool res" where
  "contain_bit s kth =
     (if kth < 64 then Inr (drop_bit kth s AND 1 > 0) else Inl Arith_Overflow)"

definition add_bit :: "nat \<Rightarrow> signal_set \<Rightarrow> signal_set res" where
  "add_bit kth s = (if kth < 64 then Inr (s OR push_bit kth 1) else Inl Arith_Overflow)"

definition remove_bit :: "nat \<Rightarrow> signal_set \<Rightarrow> signal_set res" where
  "remove_bit kth s = (if kth < 64 then Inr (s AND NOT (push_bit kth 1)) else Inl Arith_Overflow)"

definition get_union :: "signal_set \<Rightarrow> signal_set \<Rightarrow> signal_set" where
  "get_union t s = s OR t"

definition get_difference :: "signal_set \<Rightarrow> signal_set \<Rightarrow> signal_set" where
  "get_difference t s = s AND NOT t"

definition set_new :: "signal_set \<Rightarrow> signal_set \<Rightarrow> signal_set \<times> usize" where
  "set_new t s = (t, s)"

definition find_first_one :: "signal_set \<Rightarrow> signal_set \<Rightarrow> nat option" where
  "find_first_one msk s =
     (let ans = trailing_zeros (s AND NOT msk) in if ans = 64 then None else Some ans)"

text \<open>The set of positions a signal set stands for.\<close>

definition sigs :: "signal_set \<Rightarrow> nat set" where
  "sigs s = {k. bit s k}"

lemma finite_sigs: "finite (sigs s)" "k \<in> sigs s \<Longrightarrow> k < 64"
proof -
  show lt: "k \<in> sigs s \<Longrightarrow> k < 64" for k
    using bit_imp_le_length [of s k] by (simp add: sigs_def)
  show "finite (sigs s)" using lt by (meson finite_nat_set_iff_bounded)
qed

lemma contain_bit_sigs: "k < 64 \<Longrightarrow> contain_bit s k = Inr (k \<in> sigs s)"
proof -
  have "drop_bit k s AND 1 > 0 \<longleftrightarrow> bit s k"
    by (simp add: and_one_eq bit_iff_odd_drop_bit odd_iff_mod_2_eq_one word_gt_0)
  moreover assume "k < 64"
  ultimately show ?thesis by (simp add: contain_bit_def sigs_def)
qed

lemma add_bit_sigs: "k < 64 \<Longrightarrow> \<exists>t. add_bit k s = Inr t \<and> sigs t = insert k (sigs s)"
  by (auto simp: add_bit_def sigs_def bit_or_iff bit_single simp del: push_bit_of_1)

lemma remove_bit_sigs: "k < 64 \<Longrightarrow> \<exists>t. remove_bit k s = Inr t \<and> sigs t = sigs s - {k}"
proof -
  assume "k < 64"
  moreover have "sigs (s AND NOT (push_bit k 1)) = sigs s - {k}"
    using bit_imp_le_length [of s]
    by (auto simp: sigs_def bit_and_iff bit_not_iff bit_single simp del: push_bit_of_1)
  ultimately show ?thesis by (simp add: remove_bit_def)
qed

lemma sigs_diff: "sigs (s AND NOT m) = sigs s - sigs m"
  using bit_imp_le_length [of s] by (auto simp: sigs_def bit_and_iff bit_not_iff)

lemma sigs_union: "sigs (get_union t s) = sigs s \<union> sigs t"
  by (auto simp: sigs_def get_union_def bit_or_iff)

lemma sigs_difference: "sigs (get_difference t s) = sigs s - sigs t"
  by (simp add: get_difference_def sigs_diff)

lemma sigs_empty [simp]: "sigs 0 = {}"
  by (simp add: sigs_def)

lemma sigs_inject: "sigs s = sigs t \<longleftrightarrow> s = t"
  by (auto simp: sigs_def set_eq_iff intro: bit_word_eqI)

lemma find_first_one_None: "find_first_one m s = None \<longleftrightarrow> sigs s \<subseteq> sigs m"
proof -
  have "find_first_one m s = None \<longleftrightarrow> s AND NOT m = 0"
    using trailing_zeros_eq_len [of "s AND NOT m"] by (simp add: find_first_one_def Let_def)
  also have "\<dots> \<longleftrightarrow> sigs (s AND NOT m) = sigs 0" by (simp only: sigs_inject)
  finally show ?thesis by (auto simp: sigs_diff)
qed

lemma find_first_one_Some:
  assumes "find_first_one m s = Some k"
  shows "k \<in> sigs s - sigs m" "k < 64" "\<And>j. j \<in> sigs s - sigs m \<Longrightarrow> k \<le> j"
proof -
  let ?w = "s AND NOT m"
  from assms have k: "k = trailing_zeros ?w" "k \<noteq> 64"
    by (auto simp: find_first_one_def Let_def split: if_splits)
  then have "?w \<noteq> 0" using trailing_zeros_eq_len [of ?w] by simp
  note tz = trailing_zeros_bit [OF this, folded k(1)]
  have mem: "\<And>j. j \<in> sigs s - sigs m \<longleftrightarrow> bit ?w j" unfolding sigs_diff [symmetric] by (simp add: sigs_def)
  show "k \<in> sigs s - sigs m" "k < 64" using tz(1,3) mem by simp_all
  show "\<And>j. j \<in> sigs s - sigs m \<Longrightarrow> k \<le> j" using tz(2) mem by (meson not_less)
qed

section \<open>Default actions and results\<close>

datatype signal_result =
    NoSignal | IsHandlingSignal | Ignored | Handled
  | ProcessKilled int
  | ProcessSuspended

datatype default_action = Terminate int | Ignore

definition default_action_from :: "signal_no \<Rightarrow> default_action" where
  "default_action_from s =
     (case s of SIGCHLD \<Rightarrow> Ignore | SIGURG \<Rightarrow> Ignore | _ \<Rightarrow> Terminate (- int (signal_num s)))"

definition default_action_into :: "default_action \<Rightarrow> signal_result" where
  "default_action_into a =
     (case a of Terminate exit_code \<Rightarrow> ProcessKilled exit_code | Ignore \<Rightarrow> Ignored)"

section \<open>The signal module of a process\<close>

datatype handling_signal = Frozen | UserSignal local_context

record signal_impl =
  received :: signal_set
  sig_mask :: signal_set
  handling :: "handling_signal option"
  actions :: "signal_action option list"

definition signal_impl_new :: signal_impl where
  "signal_impl_new =
     \<lparr>received = 0, sig_mask = 0, handling = None, actions = replicate (MAX_SIG + 1) None\<rparr>"

definition fetch_signal :: "signal_impl \<Rightarrow> (signal_no option \<times> signal_impl) res" where
  "fetch_signal s =
     (case find_first_one (sig_mask s) (received s) of
        None \<Rightarrow> Inr (None, s)
      | Some num \<Rightarrow>
          rbind (remove_bit num (received s)) (\<lambda>r.
            Inr (Some (signal_from (of_nat num)), s\<lparr>received := r\<rparr>)))"

definition fetch_and_remove :: "signal_no \<Rightarrow> signal_impl \<Rightarrow> (bool \<times> signal_impl) res" where
  "fetch_and_remove signal_no s =
     rbind (contain_bit (received s) (signal_num signal_no)) (\<lambda>inr.
     rbind (if inr then contain_bit (sig_mask s) (signal_num signal_no) else Inr True) (\<lambda>inm.
       if inr \<and> \<not> inm then
         rbind (remove_bit (signal_num signal_no) (received s)) (\<lambda>r.
           Inr (True, s\<lparr>received := r\<rparr>))
       else Inr (False, s)))"

definition from_fork :: "signal_impl \<Rightarrow> signal_impl" where
  "from_fork s = \<lparr>received = 0, sig_mask = sig_mask s, handling = None, actions = actions s\<rparr>"

definition clear_actions :: "signal_impl \<Rightarrow> signal_impl" where
  "clear_actions s = s\<lparr>actions := map (\<lambda>_. None) (actions s)\<rparr>"

definition add_signal :: "signal_no \<Rightarrow> signal_impl \<Rightarrow> signal_impl res" where
  "add_signal signal s =
     rbind (add_bit (signal_num signal) (received s)) (\<lambda>r. Inr (s\<lparr>received := r\<rparr>))"

definition is_handling_signal :: "signal_impl \<Rightarrow> bool" where
  "is_handling_signal s = (handling s \<noteq> None)"

definition set_action :: "signal_no \<Rightarrow> signal_action \<Rightarrow> signal_impl \<Rightarrow> (bool \<times> signal_impl) res" where
  "set_action signum action s =
     (if signum = SIGKILL \<or> signum = SIGSTOP then Inr (False, s)
      else if signal_num signum < length (actions s)
      then Inr (True, s\<lparr>actions := (actions s)[signal_num signum := Some action]\<rparr>)
      else Inl Index_Out_Of_Bounds)"

definition get_action_ref :: "signal_no \<Rightarrow> signal_impl \<Rightarrow> signal_action option res" where
  "get_action_ref signum s =
     (if signum = SIGKILL \<or> signum = SIGSTOP then Inr None
      else rbind (vec_index (actions s) (signal_num signum)) (\<lambda>a.
        Inr (Some (case a of None \<Rightarrow> signal_action_default | Some act \<Rightarrow> act))))"

definition update_mask :: "usize \<Rightarrow> signal_impl \<Rightarrow> usize \<times> signal_impl" where
  "update_mask msk s = (let (m, old) = set_new msk (sig_mask s) in (old, s\<lparr>sig_mask := m\<rparr>))"

definition handle_signals ::
    "signal_impl \<Rightarrow> local_context \<Rightarrow> (signal_result \<times> signal_impl \<times> local_context) res" where
  "handle_signals s ctx =
     (if is_handling_signal s then
        (case handling s of
           Some Frozen \<Rightarrow>
             rbind (fetch_and_remove SIGCONT s) (\<lambda>(got, s1).
               if got then Inr (Handled, s1\<lparr>handling := None\<rparr>, ctx)
               else Inr (ProcessSuspended, s1, ctx))
         | _ \<Rightarrow> Inr (IsHandlingSignal, s, ctx))
      else
        rbind (fetch_signal s) (\<lambda>(fetched, s1).
          case fetched of
            None \<Rightarrow> Inr (NoSignal, s1, ctx)
          | Some signal \<Rightarrow>
              (if signal = SIGKILL then
                 Inr (ProcessKilled (- int (signal_num signal)), s1, ctx)
               else if signal = SIGSTOP then
                 Inr (ProcessSuspended, s1\<lparr>handling := Some Frozen\<rparr>, ctx)
               else
                 rbind (vec_index (actions s1) (signal_num signal)) (\<lambda>act.
                   case act of
                     Some action \<Rightarrow>
                       rbind (ctx_set_a 0 (of_nat (signal_num signal)) (ctx_set_pc (handler action) ctx))
                         (\<lambda>ctx1. Inr (Handled, s1\<lparr>handling := Some (UserSignal ctx)\<rparr>, ctx1))
                   | None \<Rightarrow> Inr (default_action_into (default_action_from signal), s1, ctx)))))"

definition sig_return :: "signal_impl \<Rightarrow> local_context \<Rightarrow> bool \<times> signal_impl \<times> local_context" where
  "sig_return s ctx =
     (case handling s of
        Some (UserSignal old_ctx) \<Rightarrow> (True, s\<lparr>handling := None\<rparr>, old_ctx)
      | _ \<Rightarrow> (False, s, ctx))"

section \<open>Invariant and behaviour\<close>

text \<open>
  The action table has one slot per signal up to \<^verbatim>\<open>MAX_SIG\<close>, no handler is ever recorded for
  \<^verbatim>\<open>SIGKILL\<close> or \<^verbatim>\<open>SIGSTOP\<close>, and a saved user context has a full register file.
\<close>

definition sig_wf :: "signal_impl \<Rightarrow> bool" where
  "sig_wf s \<longleftrightarrow> length (actions s) = MAX_SIG + 1
     \<and> actions s ! signal_num SIGKILL = None \<and> actions s ! signal_num SIGSTOP = None
     \<and> (\<forall>c. handling s = Some (UserSignal c) \<longrightarrow> ctx_wf c)"

text \<open>The signals that can be delivered now: pending and not masked.\<close>

definition deliverable :: "signal_impl \<Rightarrow> nat set" where
  "deliverable s = sigs (received s) - sigs (sig_mask s)"

lemma finite_deliverable [simp]: "finite (deliverable s)"
  by (simp add: deliverable_def finite_sigs)

lemma deliverable_lt: "k \<in> deliverable s \<Longrightarrow> k < 64"
  using finite_sigs(2) by (auto simp: deliverable_def)

lemma fetch_signal_none: "deliverable s = {} \<Longrightarrow> fetch_signal s = Inr (None, s)"
  using find_first_one_None [of "sig_mask s" "received s"]
  by (simp add: fetch_signal_def deliverable_def)

lemma fetch_signal_some:
  assumes "deliverable s \<noteq> {}"
  shows "\<exists>r. fetch_signal s = Inr (Some (all_signals ! Min (deliverable s)), s\<lparr>received := r\<rparr>)
              \<and> sigs r = sigs (received s) - {Min (deliverable s)}"
proof -
  obtain k where k: "find_first_one (sig_mask s) (received s) = Some k"
    using assms find_first_one_None [of "sig_mask s" "received s"] by (auto simp: deliverable_def)
  note F = find_first_one_Some [OF k, folded deliverable_def]
  have "Min (deliverable s) = k" using F(1,3) by (intro Min_eqI) auto
  moreover obtain r where "remove_bit k (received s) = Inr r" "sigs r = sigs (received s) - {k}"
    using remove_bit_sigs [OF F(2)] by blast
  ultimately show ?thesis
    using k F(2) by (intro exI [of _ r]) (simp add: fetch_signal_def signal_from_lt)
qed

lemma fetch_and_remove_eq:
  "\<exists>r. fetch_and_remove n s = Inr (signal_num n \<in> deliverable s, s\<lparr>received := r\<rparr>)
        \<and> sigs r = (if signal_num n \<in> deliverable s then sigs (received s) - {signal_num n}
                   else sigs (received s))"
proof (cases "signal_num n \<in> deliverable s")
  case True
  moreover obtain r where "remove_bit (signal_num n) (received s) = Inr r"
      "sigs r = sigs (received s) - {signal_num n}"
    using remove_bit_sigs [OF signal_num_lt] by blast
  ultimately show ?thesis
    by (intro exI [of _ r]) (simp add: fetch_and_remove_def contain_bit_sigs deliverable_def)
next
  case False
  then show ?thesis
    by (intro exI [of _ "received s"]) (auto simp: fetch_and_remove_def contain_bit_sigs deliverable_def)
qed

text \<open>What \<^verbatim>\<open>handle_signals\<close> does with the signal it has fetched.\<close>

definition dispatch :: "signal_no \<Rightarrow> signal_impl \<Rightarrow> local_context \<Rightarrow>
    signal_result \<times> signal_impl \<times> local_context" where
  "dispatch signal s ctx =
     (if signal = SIGKILL then (ProcessKilled (- 9), s, ctx)
      else if signal = SIGSTOP then (ProcessSuspended, s\<lparr>handling := Some Frozen\<rparr>, ctx)
      else case actions s ! signal_num signal of
        Some a \<Rightarrow> (Handled, s\<lparr>handling := Some (UserSignal ctx)\<rparr>,
                   ctx\<lparr>sepc := handler a, xregs := (xregs ctx)[9 := of_nat (signal_num signal)]\<rparr>)
      | None \<Rightarrow> (default_action_into (default_action_from signal), s, ctx))"

lemma handle_signals_dispatch:
  assumes "handling s = None" "deliverable s \<noteq> {}" "Min (deliverable s) \<le> MAX_SIG"
    and "length (actions s) = MAX_SIG + 1" "ctx_wf ctx"
  shows "\<exists>r. handle_signals s ctx =
           Inr (dispatch (all_signals ! Min (deliverable s)) (s\<lparr>received := r\<rparr>) ctx)
         \<and> sigs r = sigs (received s) - {Min (deliverable s)}"
proof -
  let ?k = "Min (deliverable s)"
  obtain r where r: "fetch_signal s = Inr (Some (all_signals ! ?k), s\<lparr>received := r\<rparr>)"
      "sigs r = sigs (received s) - {?k}"
    using fetch_signal_some [OF assms(2)] by blast
  have k: "?k < 64" "?k < length (actions s)" using assms(3,4) by (auto simp: MAX_SIG_def)
  have n: "signal_num (all_signals ! ?k) = ?k" using k(1) by simp
  have "handle_signals s ctx = Inr (dispatch (all_signals ! ?k) (s\<lparr>received := r\<rparr>) ctx)"
    using assms(1,5) r(1) k n
    by (auto simp: handle_signals_def is_handling_signal_def dispatch_def ctx_set_pc_def
          split: option.splits)
  with r(2) show ?thesis by blast
qed

lemma handle_signals_frozen:
  assumes "handling s = Some Frozen"
  shows "\<exists>r. handle_signals s ctx =
      (if signal_num SIGCONT \<in> deliverable s then Inr (Handled, s\<lparr>received := r, handling := None\<rparr>, ctx)
       else Inr (ProcessSuspended, s\<lparr>received := r\<rparr>, ctx))
    \<and> sigs r = (if signal_num SIGCONT \<in> deliverable s then sigs (received s) - {signal_num SIGCONT}
               else sigs (received s))"
proof -
  obtain r where "fetch_and_remove SIGCONT s =
        Inr (signal_num SIGCONT \<in> deliverable s, s\<lparr>received := r\<rparr>)"
      "sigs r = (if signal_num SIGCONT \<in> deliverable s then sigs (received s) - {signal_num SIGCONT}
                 else sigs (received s))"
    using fetch_and_remove_eq by blast
  then show ?thesis using assms
    by (intro exI [of _ r]) (auto simp: handle_signals_def is_handling_signal_def)
qed

lemma handle_signals_user:
  "handling s = Some (UserSignal c) \<Longrightarrow> handle_signals s ctx = Inr (IsHandlingSignal, s, ctx)"
  by (simp add: handle_signals_def is_handling_signal_def)

lemma handle_signals_idle:
  "handling s = None \<Longrightarrow> deliverable s = {} \<Longrightarrow> handle_signals s ctx = Inr (NoSignal, s, ctx)"
  by (simp add: handle_signals_def is_handling_signal_def fetch_signal_none)

section \<open>The signal module as a state machine\<close>

text \<open>
  The calls that the kernel makes on the signal module of one process, with the user context
  of its thread: \<^verbatim>\<open>kill\<close>, \<^verbatim>\<open>sigaction\<close>, \<^verbatim>\<open>sigprocmask\<close>, the delivery after a system call,
  \<^verbatim>\<open>sigreturn\<close>, the copy that a forked child starts with, the \<^verbatim>\<open>clear\<close> of the trait, and the steps of the thread itself,
  which change its registers.
\<close>

inductive sig_step :: "signal_impl \<times> local_context \<Rightarrow> signal_impl \<times> local_context \<Rightarrow> bool" where
  kill: "add_signal n s = Inr s' \<Longrightarrow> sig_step (s, c) (s', c)"
| sigaction: "set_action n a s = Inr (b, s') \<Longrightarrow> sig_step (s, c) (s', c)"
| procmask: "update_mask m s = (old, s') \<Longrightarrow> sig_step (s, c) (s', c)"
| deliver: "handle_signals s c = Inr (r, s', c') \<Longrightarrow> sig_step (s, c) (s', c')"
| sigreturn: "sig_return s c = (b, s', c') \<Longrightarrow> sig_step (s, c) (s', c')"
| fork: "sig_step (s, c) (from_fork s, c)"
| exec: "sig_step (s, c) (clear_actions s, c)"
| user: "ctx_wf c' \<Longrightarrow> sig_step (s, c) (s, c')"

inductive sig_reach :: "signal_impl \<times> local_context \<Rightarrow> bool" where
  start: "ctx_wf c \<Longrightarrow> sig_reach (signal_impl_new, c)"
| step: "sig_reach x \<Longrightarrow> sig_step x y \<Longrightarrow> sig_reach y"

lemma sig_wf_new: "sig_wf signal_impl_new"
  by (simp add: sig_wf_def signal_impl_new_def MAX_SIG_def)

lemma sig_wf_mask [simp]: "sig_wf (s\<lparr>sig_mask := m\<rparr>) = sig_wf s"
  by (simp add: sig_wf_def)

lemma sig_wf_from_fork: "sig_wf s \<Longrightarrow> sig_wf (from_fork s)"
  by (simp add: sig_wf_def from_fork_def)

lemma sig_wf_clear: "sig_wf s \<Longrightarrow> sig_wf (clear_actions s)"
  by (auto simp: sig_wf_def clear_actions_def MAX_SIG_def)

lemma sig_wf_received [simp]: "sig_wf (s\<lparr>received := r\<rparr>) = sig_wf s"
  by (simp add: sig_wf_def)

lemma sig_wf_set_action: "sig_wf s \<Longrightarrow> set_action n a s = Inr (b, s') \<Longrightarrow> sig_wf s'"
proof -
  assume wf: "sig_wf s" and eq: "set_action n a s = Inr (b, s')"
  have "signal_num n \<noteq> signal_num SIGKILL" "signal_num n \<noteq> signal_num SIGSTOP"
    if "n \<noteq> SIGKILL" "n \<noteq> SIGSTOP"
    using that signal_num_inject by blast+
  with wf eq show ?thesis
    by (auto simp: set_action_def sig_wf_def nth_list_update split: if_splits)
qed

lemma sig_wf_dispatch:
  "sig_wf s \<Longrightarrow> ctx_wf c \<Longrightarrow> dispatch n s c = (r, s', c') \<Longrightarrow> sig_wf s' \<and> ctx_wf c'"
  by (auto simp: dispatch_def sig_wf_def ctx_wf_def split: if_splits option.splits)

text \<open>\<^verbatim>\<open>handle_signals\<close> panics exactly when it fetches a signal that has no slot in the table.\<close>

lemma handle_signals_panic:
  assumes "handling s = None" "deliverable s \<noteq> {}" "Min (deliverable s) > MAX_SIG"
    and "length (actions s) = MAX_SIG + 1"
  shows "handle_signals s ctx = Inl Index_Out_Of_Bounds"
proof -
  let ?k = "Min (deliverable s)"
  have k: "?k < 64" using Min_in [OF finite_deliverable assms(2)] deliverable_lt by blast
  then have n: "signal_num (all_signals ! ?k) = ?k" by simp
  have "all_signals ! ?k \<noteq> SIGKILL" "all_signals ! ?k \<noteq> SIGSTOP"
    using n assms(3) by (auto simp: MAX_SIG_def)
  moreover obtain r where "fetch_signal s = Inr (Some (all_signals ! ?k), s\<lparr>received := r\<rparr>)"
    using fetch_signal_some [OF assms(2)] by blast
  moreover have "\<not> ?k < length (actions s)" using assms(3,4) by linarith
  ultimately show ?thesis
    using assms(1) n by (simp add: handle_signals_def is_handling_signal_def vec_index_def)
qed

lemma handle_signals_wf:
  assumes wf: "sig_wf s" and c: "ctx_wf c" and eq: "handle_signals s c = Inr (r, s', c')"
  shows "sig_wf s' \<and> ctx_wf c'"
proof (cases "handling s")
  case None
  show ?thesis
  proof (cases "deliverable s = {}")
    case True
    with None assms show ?thesis by (simp add: handle_signals_idle)
  next
    case False
    have l: "length (actions s) = MAX_SIG + 1" using wf by (simp add: sig_wf_def)
    have "Min (deliverable s) \<le> MAX_SIG"
      using handle_signals_panic [OF None False _ l] eq by (metis Inl_Inr_False not_le)
    then obtain q where q: "handle_signals s c =
        Inr (dispatch (all_signals ! Min (deliverable s)) (s\<lparr>received := q\<rparr>) c)"
      using handle_signals_dispatch [OF None False _ l c] by blast
    then have "dispatch (all_signals ! Min (deliverable s)) (s\<lparr>received := q\<rparr>) c = (r, s', c')"
      using eq by simp
    with wf c show ?thesis by (intro sig_wf_dispatch) simp_all
  qed
next
  case (Some h)
  show ?thesis
  proof (cases h)
    case Frozen
    obtain q where "handle_signals s c =
        (if signal_num SIGCONT \<in> deliverable s then Inr (Handled, s\<lparr>received := q, handling := None\<rparr>, c)
         else Inr (ProcessSuspended, s\<lparr>received := q\<rparr>, c))"
      using handle_signals_frozen [of s c] Some Frozen by blast
    with eq wf c show ?thesis by (auto simp: sig_wf_def split: if_splits)
  next
    case (UserSignal x)
    with Some assms show ?thesis by (simp add: handle_signals_user)
  qed
qed

lemma sig_step_wf: "sig_step x y \<Longrightarrow> sig_wf (fst x) \<and> ctx_wf (snd x) \<Longrightarrow> sig_wf (fst y) \<and> ctx_wf (snd y)"
proof (induction rule: sig_step.induct)
  case (kill n s s' c)
  then show ?case by (auto simp: add_signal_def rbind_eq_Inr)
next
  case (sigaction n a s b s' c)
  then show ?case by (auto intro: sig_wf_set_action)
next
  case (procmask m s old s' c)
  then show ?case by (auto simp: update_mask_def set_new_def sig_wf_def)
next
  case (deliver s c r s' c')
  then show ?case using handle_signals_wf [of s c r s' c'] by simp
next
  case (sigreturn s c b s' c')
  then show ?case
    by (cases "handling s"; cases "the (handling s)") (auto simp: sig_return_def sig_wf_def)
next
  case (fork s c)
  then show ?case by (simp add: sig_wf_from_fork)
next
  case (exec s c)
  then show ?case by (simp add: sig_wf_clear)
next
  case (user c' s c)
  then show ?case by simp
qed

section \<open>Properties\<close>

lemma sig_reach_wf: "sig_reach x \<Longrightarrow> sig_wf (fst x) \<and> ctx_wf (snd x)"
  by (induction rule: sig_reach.induct) (auto simp: sig_wf_new dest: sig_step_wf)

lemma sigs_push_bit: "k < 64 \<Longrightarrow> sigs (push_bit k 1) = {k}"
  by (auto simp: sigs_def bit_single simp del: push_bit_of_1)

lemma handle_signals_total:
  assumes "sig_wf s" "ctx_wf c" "handling s = None \<Longrightarrow> deliverable s \<noteq> {} \<Longrightarrow> Min (deliverable s) \<le> MAX_SIG"
  shows "\<exists>r. handle_signals s c = Inr r"
proof (cases "handling s")
  case None
  have l: "length (actions s) = MAX_SIG + 1" using assms(1) by (simp add: sig_wf_def)
  show ?thesis
  proof (cases "deliverable s = {}")
    case True
    with None show ?thesis by (simp add: handle_signals_idle)
  next
    case False
    then have "Min (deliverable s) \<le> MAX_SIG" using assms(3) None by blast
    with handle_signals_dispatch [OF None False _ l assms(2)] show ?thesis by blast
  qed
next
  case (Some h)
  then show ?thesis
    using handle_signals_frozen [of s c] by (cases h) (auto simp: handle_signals_user split: if_splits)
qed

text \<open>
  C20. The signal module of a process, in every state that it can reach through \<^verbatim>\<open>kill\<close>,
  \<^verbatim>\<open>sigaction\<close>, \<^verbatim>\<open>sigprocmask\<close>, delivery, \<^verbatim>\<open>sigreturn\<close>, \<^verbatim>\<open>fork\<close>, \<^verbatim>\<open>clear\<close> and arbitrary user execution. The action
  table is intact and no handler is installed for \<^verbatim>\<open>SIGKILL\<close> or \<^verbatim>\<open>SIGSTOP\<close>; adding a signal returns; setting
  or reading an action returns for the signals up to \<^verbatim>\<open>MAX_SIG\<close> and panics for those above it; and delivery
  returns, except that it panics when no handler runs and the lowest pending, unmasked signal lies above \<^verbatim>\<open>MAX_SIG\<close>.
\<close>

theorem signal_module_safe:
  assumes "sig_reach (s, c)"
  shows "sig_wf s
    \<and> (\<forall>n. \<exists>s'. add_signal n s = Inr s')
    \<and> (\<forall>n a. if signal_num n \<le> MAX_SIG
         then (\<exists>b s'. set_action n a s = Inr (b, s')) \<and> (\<exists>r. get_action_ref n s = Inr r)
         else set_action n a s = Inl Index_Out_Of_Bounds \<and> get_action_ref n s = Inl Index_Out_Of_Bounds)
    \<and> (if handling s = None \<and> deliverable s \<noteq> {} \<and> MAX_SIG < Min (deliverable s)
       then handle_signals s c = Inl Index_Out_Of_Bounds
       else \<exists>r. handle_signals s c = Inr r)"
proof (intro conjI allI)
  from sig_reach_wf [OF assms] have wf: "sig_wf s" "ctx_wf c" by simp_all
  then have l: "length (actions s) = MAX_SIG + 1" by (simp add: sig_wf_def)
  show "sig_wf s" by (rule wf(1))
  show "\<exists>s'. add_signal n s = Inr s'" for n
    using add_bit_sigs [OF signal_num_lt, of n "received s"] by (auto simp: add_signal_def)
  show "if signal_num n \<le> MAX_SIG
      then (\<exists>b s'. set_action n a s = Inr (b, s')) \<and> (\<exists>r. get_action_ref n s = Inr r)
      else set_action n a s = Inl Index_Out_Of_Bounds \<and> get_action_ref n s = Inl Index_Out_Of_Bounds" for n a
    using l by (auto simp: set_action_def get_action_ref_def vec_index_def MAX_SIG_def)
  show "if handling s = None \<and> deliverable s \<noteq> {} \<and> MAX_SIG < Min (deliverable s)
      then handle_signals s c = Inl Index_Out_Of_Bounds else \<exists>r. handle_signals s c = Inr r"
  proof (cases "handling s = None \<and> deliverable s \<noteq> {} \<and> MAX_SIG < Min (deliverable s)")
    case True
    then show ?thesis using handle_signals_panic [OF _ _ _ l, of c] by simp
  next
    case False
    have "\<exists>r. handle_signals s c = Inr r" by (rule handle_signals_total [OF wf]) (use False in linarith)
    with False show ?thesis by (simp only: if_False)
  qed
qed

theorem signal_module_safe_witness:
  "sig_wf (signal_impl_new\<lparr>received := push_bit 10 1\<rparr>)
   \<and> (\<exists>r. handle_signals (signal_impl_new\<lparr>received := push_bit 10 1\<rparr>) (ctx_user 64) = Inr r)
   \<and> set_action SIGRTMIN \<lparr>handler = 64, act_mask = 0\<rparr> (signal_impl_new\<lparr>received := push_bit 10 1\<rparr>) = Inl Index_Out_Of_Bounds"
proof -
  let ?s = "signal_impl_new\<lparr>received := push_bit 10 1\<rparr>"
  have "add_signal SIGUSR1 signal_impl_new = Inr ?s"
    by (simp add: add_signal_def add_bit_def signal_impl_new_def)
  then have "sig_step (signal_impl_new, ctx_user 64) (?s, ctx_user 64)"
    by (rule sig_step.kill)
  then have r: "sig_reach (?s, ctx_user 64)"
    by (rule sig_reach.step [OF sig_reach.start [OF ctx_wf_constructors(2)]])
  have d: "deliverable ?s = {10}"
    by (simp add: deliverable_def sigs_push_bit signal_impl_new_def del: push_bit_of_1)
  have n: "\<not> signal_num SIGRTMIN \<le> MAX_SIG" by (simp add: MAX_SIG_def)
  from signal_module_safe [OF r] d n show ?thesis
    by (auto simp: MAX_SIG_def simp del: push_bit_of_1)
qed



text \<open>
  C27. A delivered handler and \<^verbatim>\<open>sigreturn\<close> are inverse: once \<^verbatim>\<open>handle_signals\<close> has entered a user
  handler, then whatever registers the handler ends with, no further signal is delivered before
  \<^verbatim>\<open>sig_return\<close>, and \<^verbatim>\<open>sig_return\<close> puts back exactly the context that was interrupted and makes the
  module idle again; a second \<^verbatim>\<open>sig_return\<close> is refused.
\<close>

theorem deliver_sigreturn_roundtrip:
  assumes "sig_wf s" "ctx_wf c" "handling s = None" and "handle_signals s c = Inr (Handled, s1, c1)"
  shows "handle_signals s1 c2 = Inr (IsHandlingSignal, s1, c2)
    \<and> sig_return s1 c2 = (True, s1\<lparr>handling := None\<rparr>, c)
    \<and> sig_return (s1\<lparr>handling := None\<rparr>) c2 = (False, s1\<lparr>handling := None\<rparr>, c2)"
proof -
  have l: "length (actions s) = MAX_SIG + 1" using assms(1) by (simp add: sig_wf_def)
  have ne: "deliverable s \<noteq> {}" using assms(3,4) handle_signals_idle [of s c] by auto
  have le: "Min (deliverable s) \<le> MAX_SIG"
    using handle_signals_panic [OF assms(3) ne _ l] assms(4) by (metis Inl_Inr_False not_le)
  obtain q where "handle_signals s c =
      Inr (dispatch (all_signals ! Min (deliverable s)) (s\<lparr>received := q\<rparr>) c)"
    using handle_signals_dispatch [OF assms(3) ne le l assms(2)] by blast
  with assms(4) have d: "dispatch (all_signals ! Min (deliverable s)) (s\<lparr>received := q\<rparr>) c = (Handled, s1, c1)"
    by simp
  then have "handling s1 = Some (UserSignal c)"
    by (auto simp: dispatch_def default_action_into_def default_action_from_def
          split: if_splits option.splits default_action.splits)
  then show ?thesis by (simp add: handle_signals_user sig_return_def)
qed

theorem deliver_sigreturn_roundtrip_witness:
  "\<exists>s1 c1. sig_return s1 (ctx_user 0) = (True, s1\<lparr>handling := None\<rparr>, ctx_user 64)
     \<and> handle_signals (signal_impl_new\<lparr>received := push_bit 10 1,
          actions := (replicate 32 None)[10 := Some \<lparr>handler = 4096, act_mask = 0\<rparr>]\<rparr>) (ctx_user 64)
        = Inr (Handled, s1, c1)"
proof -
  let ?s = "signal_impl_new\<lparr>received := push_bit 10 1,
      actions := (replicate 32 None)[10 := Some \<lparr>handler = 4096, act_mask = 0\<rparr>]\<rparr>"
  have d: "deliverable ?s = {10}"
    by (simp add: deliverable_def sigs_push_bit signal_impl_new_def del: push_bit_of_1)
  have wf: "sig_wf ?s" "ctx_wf (ctx_user 64)" "handling ?s = None"
    by (simp_all add: sig_wf_def signal_impl_new_def MAX_SIG_def)
  then have len: "length (actions ?s) = MAX_SIG + 1" by (simp add: MAX_SIG_def)
  have n: "all_signals ! 10 = SIGUSR1" by (simp add: all_signals_def)
  obtain r where "handle_signals ?s (ctx_user 64) = Inr (dispatch SIGUSR1 (?s\<lparr>received := r\<rparr>) (ctx_user 64))"
    using handle_signals_dispatch [OF wf(3) _ _ len wf(2)] d n by (auto simp: MAX_SIG_def)
  then obtain s1 c1 where e: "handle_signals ?s (ctx_user 64) = Inr (Handled, s1, c1)"
    by (simp add: dispatch_def)
  from deliver_sigreturn_roundtrip [OF wf e, of "ctx_user 0"] e show ?thesis by blast
qed

text \<open>
  A frozen process stays frozen until an unmasked \<^verbatim>\<open>SIGCONT\<close> arrives: delivery consumes only
  \<^verbatim>\<open>SIGCONT\<close>, resumes the process exactly then, and reports \<^verbatim>\<open>ProcessSuspended\<close> otherwise, with every
  other pending signal (\<^verbatim>\<open>SIGKILL\<close> included) still pending.
\<close>

theorem frozen_until_sigcont:
  assumes "handling s = Some Frozen"
  shows "\<exists>r. sigs r = sigs (received s) - (if signal_num SIGCONT \<in> deliverable s then {18} else {})
    \<and> handle_signals s c =
        (if signal_num SIGCONT \<in> deliverable s
         then Inr (Handled, s\<lparr>received := r, handling := None\<rparr>, c)
         else Inr (ProcessSuspended, s\<lparr>received := r\<rparr>, c))"
  using handle_signals_frozen [OF assms, of c] by (auto split: if_splits)

theorem frozen_until_sigcont_witness:
  "\<exists>r. sigs r = {9} \<and>
     handle_signals (signal_impl_new\<lparr>received := push_bit 9 1, handling := Some Frozen\<rparr>) (ctx_user 64) =
       Inr (ProcessSuspended, signal_impl_new\<lparr>received := r, handling := Some Frozen\<rparr>, ctx_user 64)"
proof -
  let ?s = "signal_impl_new\<lparr>received := push_bit 9 1, handling := Some Frozen\<rparr>"
  have d: "deliverable ?s = {9}"
    by (simp add: deliverable_def sigs_push_bit signal_impl_new_def del: push_bit_of_1)
  from frozen_until_sigcont [of ?s "ctx_user 64"] d show ?thesis
    by (auto simp: sigs_push_bit signal_impl_new_def simp del: push_bit_of_1)
qed

text \<open>
  A real-time signal (number above \<^verbatim>\<open>MAX_SIG\<close>) is accepted by \<^verbatim>\<open>add_signal\<close>, but the next
  delivery to a process that holds it as its only deliverable signal indexes the 32-entry action
  table out of bounds: the kernel panics.
\<close>

theorem realtime_signal_panics:
  assumes "signal_num n > MAX_SIG" "sig_wf s" "handling s = None" "received s = 0"
    "signal_num n \<notin> sigs (sig_mask s)"
  shows "\<exists>s1. add_signal n s = Inr s1 \<and> handle_signals s1 c = Inl Index_Out_Of_Bounds"
proof -
  obtain t where t: "add_bit (signal_num n) (received s) = Inr t" "sigs t = insert (signal_num n) {}"
    using add_bit_sigs [OF signal_num_lt, of n "received s"] assms(4) by auto
  let ?s1 = "s\<lparr>received := t\<rparr>"
  have "deliverable ?s1 = {signal_num n}" using t(2) assms(5) by (auto simp: deliverable_def)
  then have "handle_signals ?s1 c = Inl Index_Out_Of_Bounds"
    using assms(1-3) by (intro handle_signals_panic) (simp_all add: sig_wf_def)
  with t(1) show ?thesis by (simp add: add_signal_def)
qed

theorem realtime_signal_panics_witness:
  "\<exists>s1. add_signal SIGRT8 signal_impl_new = Inr s1
     \<and> handle_signals s1 (ctx_user 64) = Inl Index_Out_Of_Bounds"
  using realtime_signal_panics [of SIGRT8 signal_impl_new "ctx_user 64"] sig_wf_new
  by (simp add: MAX_SIG_def signal_impl_new_def)

text \<open>
  \<^verbatim>\<open>SIGKILL\<close> can be masked: a process whose mask contains signal 9 and whose only pending
  signal is \<^verbatim>\<open>SIGKILL\<close> is told \<^verbatim>\<open>NoSignal\<close> and lives on.
\<close>

theorem sigkill_can_be_masked:
  assumes "sigs (received s) = {signal_num SIGKILL}" "handling s = None"
    and "update_mask m s = (old, s1)" "signal_num SIGKILL \<in> sigs m"
  shows "handle_signals s1 c = Inr (NoSignal, s1, c)"
proof -
  from assms(3) have "s1 = s\<lparr>sig_mask := m\<rparr>" by (simp add: update_mask_def set_new_def)
  with assms(1,2,4) show ?thesis by (intro handle_signals_idle) (auto simp: deliverable_def)
qed

theorem sigkill_can_be_masked_witness:
  "handle_signals (signal_impl_new\<lparr>received := push_bit 9 1, sig_mask := push_bit 9 1\<rparr>) (ctx_user 64)
   = Inr (NoSignal, signal_impl_new\<lparr>received := push_bit 9 1, sig_mask := push_bit 9 1\<rparr>, ctx_user 64)"
  by (rule sigkill_can_be_masked
        [of "signal_impl_new\<lparr>received := push_bit 9 1\<rparr>" "push_bit 9 1" 0])
     (simp_all add: sigs_push_bit update_mask_def set_new_def signal_impl_new_def del: push_bit_of_1)

end
