(* ===== verification/Sync_Prims.thy ===== *)
theory Sync_Prims
  imports Prelude
begin

text \<open>
  The blocking primitives of \<^verbatim>\<open>sync/src\<close>: the interrupt-masking cell (\<^verbatim>\<open>up.rs\<close>), the mutex, the
  semaphore and the condition variable. Each \<^verbatim>\<open>Inner\<close> structure is a record, and each method is a
  function on it: the methods open the cell with \<^verbatim>\<open>exclusive_access\<close>, change the inner structure
  and drop the guard, which is what \<^verbatim>\<open>exclusive_session\<close> below does. The trait \<^verbatim>\<open>Mutex\<close>, on which the
  condition variable relies, is the locale \<^verbatim>\<open>mutex_laws\<close>.
\<close>

section \<open>The interrupt-masking cell\<close>

text \<open>
  \<^verbatim>\<open>INTR_MASKING_INFO\<close> together with the \<^verbatim>\<open>SIE\<close> bit of \<^verbatim>\<open>sstatus\<close>, which \<^verbatim>\<open>enter\<close> clears and \<^verbatim>\<open>exit\<close>
  may set again.
\<close>

record intr_masking =
  nested_level :: nat
  sie_before_masking :: bool
  sie :: bool

definition intr_enter :: "intr_masking \<Rightarrow> intr_masking" where
  "intr_enter i =
     (let old = sie i; i1 = i\<lparr>sie := False\<rparr>;
          i2 = (if nested_level i1 = 0 then i1\<lparr>sie_before_masking := old\<rparr> else i1)
      in i2\<lparr>nested_level := nested_level i2 + 1\<rparr>)"

definition intr_exit :: "intr_masking \<Rightarrow> intr_masking res" where
  "intr_exit i =
     (if nested_level i = 0 then Inl Arith_Overflow
      else let i1 = i\<lparr>nested_level := nested_level i - 1\<rparr>
           in Inr (if nested_level i1 = 0 \<and> sie_before_masking i1 then i1\<lparr>sie := True\<rparr> else i1))"

text \<open>The \<^verbatim>\<open>RefCell\<close> inside \<^verbatim>\<open>UPIntrFreeCell\<close>: a value and whether it is mutably borrowed.\<close>

record 'a up_cell =
  cell_value :: 'a
  cell_borrowed :: bool

definition up_cell_new :: "'a \<Rightarrow> 'a up_cell" where
  "up_cell_new v = \<lparr>cell_value = v, cell_borrowed = False\<rparr>"

definition exclusive_access ::
    "'a up_cell \<times> intr_masking \<Rightarrow> ('a up_cell \<times> intr_masking) res" where
  "exclusive_access ci =
     (let (c, i) = ci; i1 = intr_enter i
      in if cell_borrowed c then Inl Explicit_Panic else Inr (c\<lparr>cell_borrowed := True\<rparr>, i1))"

definition drop_ref_mut ::
    "'a up_cell \<times> intr_masking \<Rightarrow> ('a up_cell \<times> intr_masking) res" where
  "drop_ref_mut ci =
     (let (c, i) = ci in rbind (intr_exit i) (\<lambda>i1. Inr (c\<lparr>cell_borrowed := False\<rparr>, i1)))"

definition exclusive_session ::
    "('a \<Rightarrow> 'v \<times> 'a) \<Rightarrow> 'a up_cell \<times> intr_masking \<Rightarrow> ('v \<times> 'a up_cell \<times> intr_masking) res" where
  "exclusive_session f ci =
     rbind (exclusive_access ci) (\<lambda>(c1, i1).
       let (v, a) = f (cell_value c1)
       in rbind (drop_ref_mut (c1\<lparr>cell_value := a\<rparr>, i1)) (\<lambda>ci2. Inr (v, ci2)))"

text \<open>
  Between sessions the masking state is at level 0; within one it is deeper, interrupts are off,
  and the value to restore is the one interrupts had at level 0.
\<close>

definition masking_inv :: "bool \<Rightarrow> intr_masking \<Rightarrow> bool" where
  "masking_inv b i \<longleftrightarrow>
     (if nested_level i = 0 then sie i = b else \<not> sie i \<and> sie_before_masking i = b)"

lemma intr_enter_inv: "masking_inv b i \<Longrightarrow> masking_inv b (intr_enter i)"
  by (auto simp: masking_inv_def intr_enter_def Let_def split: if_splits)

lemma intr_exit_inv: "masking_inv b i \<Longrightarrow> intr_exit i = Inr i' \<Longrightarrow> masking_inv b i'"
  by (auto simp: masking_inv_def intr_exit_def Let_def split: if_splits)

lemma nested_level_enter [simp]: "nested_level (intr_enter i) = nested_level i + 1"
  by (simp add: intr_enter_def Let_def)

datatype masking_op = Enter | Exit

fun masking_run :: "masking_op list \<Rightarrow> intr_masking \<Rightarrow> intr_masking res" where
  "masking_run [] i = Inr i"
| "masking_run (Enter # ops) i = masking_run ops (intr_enter i)"
| "masking_run (Exit # ops) i = rbind (intr_exit i) (masking_run ops)"

text \<open>Nesting depth after a sequence of guards taken and dropped, if no drop is unmatched.\<close>

fun depth_after :: "masking_op list \<Rightarrow> nat \<Rightarrow> nat option" where
  "depth_after [] d = Some d"
| "depth_after (Enter # ops) d = depth_after ops (Suc d)"
| "depth_after (Exit # ops) d = (case d of 0 \<Rightarrow> None | Suc e \<Rightarrow> depth_after ops e)"

lemma intr_exit_Suc:
  "nested_level i = Suc d \<Longrightarrow> \<exists>i'. intr_exit i = Inr i' \<and> nested_level i' = d"
  by (auto simp: intr_exit_def Let_def)

lemma masking_run_depth:
  "masking_inv b i \<Longrightarrow> depth_after ops (nested_level i) = Some d \<Longrightarrow>
     \<exists>i'. masking_run ops i = Inr i' \<and> nested_level i' = d \<and> masking_inv b i'"
proof (induction ops i rule: masking_run.induct)
  case (3 ops i)
  from "3.prems"(2) obtain e where e: "nested_level i = Suc e" "depth_after ops e = Some d"
    by (auto split: nat.splits)
  then obtain i1 where i1: "intr_exit i = Inr i1" "nested_level i1 = e"
    using intr_exit_Suc by blast
  with "3.IH" [OF i1(1)] "3.prems"(1) e intr_exit_inv show ?case by auto
qed (auto simp: intr_enter_inv)

section \<open>The mutex\<close>

text \<open>The trait \<^verbatim>\<open>Mutex\<close>, as the dictionary of its two methods.\<close>

record 'm mutex_ops =
  op_lock :: "thread_id \<Rightarrow> 'm \<Rightarrow> bool \<times> 'm"
  op_unlock :: "'m \<Rightarrow> (thread_id option \<times> 'm) res"

record mutex_blocking =
  locked :: bool
  mutex_wait_queue :: "thread_id list"

definition mutex_blocking_new :: mutex_blocking where
  "mutex_blocking_new = \<lparr>locked = False, mutex_wait_queue = []\<rparr>"

definition mutex_lock :: "thread_id \<Rightarrow> mutex_blocking \<Rightarrow> bool \<times> mutex_blocking" where
  "mutex_lock tid m =
     (if locked m then (False, m\<lparr>mutex_wait_queue := push_back tid (mutex_wait_queue m)\<rparr>)
      else (True, m\<lparr>locked := True\<rparr>))"

definition mutex_unlock :: "mutex_blocking \<Rightarrow> (thread_id option \<times> mutex_blocking) res" where
  "mutex_unlock m =
     rbind (rassert (locked m)) (\<lambda>_.
       case pop_front (mutex_wait_queue m) of
         (Some waking_task, q) \<Rightarrow> Inr (Some waking_task, m\<lparr>mutex_wait_queue := q\<rparr>)
       | (None, q) \<Rightarrow> Inr (None, m\<lparr>locked := False\<rparr>))"

definition mutex_blocking_ops :: "mutex_blocking mutex_ops" where
  "mutex_blocking_ops = \<lparr>op_lock = mutex_lock, op_unlock = mutex_unlock\<rparr>"

section \<open>The condition variable\<close>

record condvar =
  condvar_wait_queue :: "thread_id list"

definition condvar_new :: condvar where
  "condvar_new = \<lparr>condvar_wait_queue = []\<rparr>"

definition condvar_signal :: "condvar \<Rightarrow> thread_id option \<times> condvar" where
  "condvar_signal c =
     (let (t, q) = pop_front (condvar_wait_queue c) in (t, c\<lparr>condvar_wait_queue := q\<rparr>))"

definition condvar_wait_no_sched :: "thread_id \<Rightarrow> condvar \<Rightarrow> bool \<times> condvar" where
  "condvar_wait_no_sched tid c =
     (False, c\<lparr>condvar_wait_queue := push_back tid (condvar_wait_queue c)\<rparr>)"

text \<open>\<^verbatim>\<open>wait_with_mutex\<close> never touches the condition variable itself.\<close>

definition wait_with_mutex ::
    "'m mutex_ops \<Rightarrow> thread_id \<Rightarrow> 'm \<Rightarrow> ((bool \<times> thread_id option) \<times> 'm) res" where
  "wait_with_mutex M tid m =
     rbind (op_unlock M m) (\<lambda>(w, m1).
     rbind (unwrap w) (\<lambda>waking_tid.
       let (b, m2) = op_lock M tid m1 in Inr ((b, Some waking_tid), m2)))"

text \<open>The contract of the trait: a lock with a first-in first-out queue and direct hand-over.\<close>

locale mutex_laws =
  fixes M :: "'m mutex_ops" and held :: "'m \<Rightarrow> bool" and waiters :: "'m \<Rightarrow> thread_id list"
  assumes lock_free: "\<not> held m \<Longrightarrow>
      fst (op_lock M t m) \<and> held (snd (op_lock M t m)) \<and> waiters (snd (op_lock M t m)) = waiters m"
    and lock_held: "held m \<Longrightarrow>
      \<not> fst (op_lock M t m) \<and> held (snd (op_lock M t m))
      \<and> waiters (snd (op_lock M t m)) = waiters m @ [t]"
    and unlock_free: "\<not> held m \<Longrightarrow> op_unlock M m = Inl Assertion_Failed"
    and unlock_last: "held m \<Longrightarrow> waiters m = [] \<Longrightarrow>
      \<exists>m'. op_unlock M m = Inr (None, m') \<and> \<not> held m' \<and> waiters m' = []"
    and unlock_next: "held m \<Longrightarrow> waiters m = t # q \<Longrightarrow>
      \<exists>m'. op_unlock M m = Inr (Some t, m') \<and> held m' \<and> waiters m' = q"
begin

lemma wait_with_mutex_free: "\<not> held m \<Longrightarrow> wait_with_mutex M t m = Inl Assertion_Failed"
  by (simp add: wait_with_mutex_def unlock_free)

lemma wait_with_mutex_alone:
  "held m \<Longrightarrow> waiters m = [] \<Longrightarrow> wait_with_mutex M t m = Inl Unwrap_None"
  using unlock_last [of m] by (auto simp: wait_with_mutex_def)

lemma wait_with_mutex_handover:
  assumes "held m" "waiters m = w # q"
  shows "\<exists>m'. wait_with_mutex M t m = Inr ((False, Some w), m') \<and> held m' \<and> waiters m' = q @ [t]"
proof -
  obtain m1 where m1: "op_unlock M m = Inr (Some w, m1)" "held m1" "waiters m1 = q"
    using unlock_next [OF assms] by blast
  obtain b m2 where m2: "op_lock M t m1 = (b, m2)" by fastforce
  with lock_held [OF m1(2), of t] m1 show ?thesis by (simp add: wait_with_mutex_def)
qed

end

interpretation mb: mutex_laws mutex_blocking_ops locked mutex_wait_queue
  by unfold_locales
     (auto simp: mutex_blocking_ops_def mutex_lock_def mutex_unlock_def push_back_def)

section \<open>The semaphore\<close>

text \<open>\<^verbatim>\<open>count\<close> is an \<^verbatim>\<open>isize\<close>; its increments and decrements are overflow-checked.\<close>

record semaphore =
  count :: int
  sem_wait_queue :: "thread_id list"

definition checked_isize :: "int \<Rightarrow> int res" where
  "checked_isize n = (if - (2 ^ 63) \<le> n \<and> n < 2 ^ 63 then Inr n else Inl Arith_Overflow)"

definition semaphore_new :: "usize \<Rightarrow> semaphore" where
  "semaphore_new res_count = \<lparr>count = sint res_count, sem_wait_queue = []\<rparr>"

definition semaphore_up :: "semaphore \<Rightarrow> (thread_id option \<times> semaphore) res" where
  "semaphore_up s =
     rbind (checked_isize (count s + 1)) (\<lambda>c.
       let (t, q) = pop_front (sem_wait_queue s)
       in Inr (t, s\<lparr>count := c, sem_wait_queue := q\<rparr>))"

definition semaphore_down :: "thread_id \<Rightarrow> semaphore \<Rightarrow> (bool \<times> semaphore) res" where
  "semaphore_down tid s =
     rbind (checked_isize (count s - 1)) (\<lambda>c.
       if c < 0 then Inr (False, s\<lparr>count := c, sem_wait_queue := push_back tid (sem_wait_queue s)\<rparr>)
       else Inr (True, s\<lparr>count := c\<rparr>))"

section \<open>Threads competing for a mutex\<close>

text \<open>
  A mutex with the thread that is inside the critical section: the one whose \<^verbatim>\<open>lock\<close> returned
  \<^verbatim>\<open>true\<close>, or the one that \<^verbatim>\<open>unlock\<close> handed the lock to when it woke it up. Two auxiliary lists record the
  threads that called \<^verbatim>\<open>lock\<close> and the threads that got inside, each in order of time.
\<close>

record mutex_sys =
  mtx :: mutex_blocking
  owner :: "thread_id option"
  arrived :: "thread_id list"
  entered :: "thread_id list"

definition mutex_start :: mutex_sys where
  "mutex_start = \<lparr>mtx = mutex_blocking_new, owner = None, arrived = [], entered = []\<rparr>"

inductive mutex_step :: "mutex_sys \<Rightarrow> mutex_sys \<Rightarrow> bool" where
  acquire: "owner S \<noteq> Some t \<Longrightarrow> t \<notin> set (mutex_wait_queue (mtx S)) \<Longrightarrow> mutex_lock t (mtx S) = (True, m) \<Longrightarrow>
     mutex_step S (S\<lparr>mtx := m, owner := Some t, arrived := arrived S @ [t], entered := entered S @ [t]\<rparr>)"
| block: "owner S \<noteq> Some t \<Longrightarrow> t \<notin> set (mutex_wait_queue (mtx S)) \<Longrightarrow> mutex_lock t (mtx S) = (False, m) \<Longrightarrow>
     mutex_step S (S\<lparr>mtx := m, arrived := arrived S @ [t]\<rparr>)"
| release: "owner S = Some t \<Longrightarrow> mutex_unlock (mtx S) = Inr (w, m) \<Longrightarrow>
     mutex_step S (S\<lparr>mtx := m, owner := w, entered := entered S @ (case w of None \<Rightarrow> [] | Some u \<Rightarrow> [u])\<rparr>)"

inductive_cases mutex_stepE: "mutex_step S T"

inductive mutex_reach :: "mutex_sys \<Rightarrow> bool" where
  start: "mutex_reach mutex_start"
| step: "mutex_reach S \<Longrightarrow> mutex_step S T \<Longrightarrow> mutex_reach T"

definition mutex_inv :: "mutex_sys \<Rightarrow> bool" where
  "mutex_inv S \<longleftrightarrow> (locked (mtx S) \<longleftrightarrow> owner S \<noteq> None)
     \<and> (owner S = None \<longrightarrow> mutex_wait_queue (mtx S) = [])
     \<and> distinct (mutex_wait_queue (mtx S))
     \<and> (\<forall>t. owner S = Some t \<longrightarrow> t \<notin> set (mutex_wait_queue (mtx S)) \<and> entered S \<noteq> [] \<and> last (entered S) = t)
     \<and> arrived S = entered S @ mutex_wait_queue (mtx S)"

lemma mutex_step_inv: "mutex_step S T \<Longrightarrow> mutex_inv S \<Longrightarrow> mutex_inv T"
proof (induction rule: mutex_step.induct)
  case (acquire S t m)
  then show ?case by (auto simp: mutex_inv_def mutex_lock_def split: if_splits)
next
  case (block S t m)
  then show ?case by (auto simp: mutex_inv_def mutex_lock_def push_back_def split: if_splits)
next
  case (release S t w m)
  then show ?case
    by (cases "mutex_wait_queue (mtx S)") (auto simp: mutex_inv_def mutex_unlock_def)
qed

lemma mutex_reach_inv: "mutex_reach S \<Longrightarrow> mutex_inv S"
  by (induction rule: mutex_reach.induct)
     (auto simp: mutex_inv_def mutex_start_def mutex_blocking_new_def dest: mutex_step_inv)

section \<open>Runs of a semaphore\<close>

datatype sem_op = Up | Down thread_id

text \<open>
  A semaphore with the list of threads it has let through so far, in order: those whose \<^verbatim>\<open>down\<close>
  returned \<^verbatim>\<open>true\<close> and those that an \<^verbatim>\<open>up\<close> woke.
\<close>

fun sem_step :: "sem_op \<Rightarrow> thread_id list \<times> semaphore \<Rightarrow> (thread_id list \<times> semaphore) res" where
  "sem_step Up (gs, s) = rbind (semaphore_up s) (\<lambda>(w, s1).
     Inr (case w of None \<Rightarrow> gs | Some t \<Rightarrow> gs @ [t], s1))"
| "sem_step (Down t) (gs, s) = rbind (semaphore_down t s) (\<lambda>(b, s1).
     Inr (if b then gs @ [t] else gs, s1))"

definition downs :: "sem_op list \<Rightarrow> thread_id list" where
  "downs ops = concat (map (\<lambda>p. case p of Up \<Rightarrow> [] | Down t \<Rightarrow> [t]) ops)"

definition ups :: "sem_op list \<Rightarrow> nat" where
  "ups ops = length (filter (\<lambda>p. p = Up) ops)"

lemma downs_simps [simp]:
  "downs [] = []" "downs (ops @ [Up]) = downs ops" "downs (ops @ [Down t]) = downs ops @ [t]"
  by (simp_all add: downs_def)

lemma ups_simps [simp]:
  "ups [] = 0" "ups (ops @ [Up]) = Suc (ups ops)" "ups (ops @ [Down t]) = ups ops"
  by (simp_all add: ups_def)

lemma ups_downs_length: "ups ops + length (downs ops) = length ops"
proof (induction ops rule: rev_induct)
  case (snoc p ops)
  then show ?case by (cases p) simp_all
qed simp

text \<open>The invariant of a run: the first \<open>k\<close> of the arrivals are through, the others wait in order.\<close>

definition sem_inv :: "nat \<Rightarrow> sem_op list \<Rightarrow> thread_id list \<times> semaphore \<Rightarrow> bool" where
  "sem_inv n ops gs_s \<longleftrightarrow> (let (gs, s) = gs_s; k = n + ups ops in
     count s = int k - int (length (downs ops))
     \<and> sem_wait_queue s = drop k (downs ops) \<and> gs = take k (downs ops))"

lemma sem_step_inv:
  assumes "sem_inv n ops gs_s" "n + length ops + 1 < 2 ^ 63"
  shows "\<exists>gs_s'. sem_step p gs_s = Inr gs_s' \<and> sem_inv n (ops @ [p]) gs_s'"
proof -
  obtain gs s where gs: "gs_s = (gs, s)" by (cases gs_s)
  define k where "k = n + ups ops"
  have inv: "count s = int k - int (length (downs ops))"
      "sem_wait_queue s = drop k (downs ops)" "gs = take k (downs ops)"
    using assms(1) by (simp_all add: sem_inv_def gs k_def Let_def)
  have len: "k + length (downs ops) + 1 < 2 ^ 63"
    using ups_downs_length [of ops] assms(2) by (simp add: k_def)
  have rng: "checked_isize (count s + 1) = Inr (count s + 1)"
      "checked_isize (count s - 1) = Inr (count s - 1)"
    using inv(1) len by (auto simp: checked_isize_def)
  show ?thesis
  proof (cases p)
    case Up
    show ?thesis
    proof (cases "drop k (downs ops)")
      case Nil
      with Up inv rng show ?thesis
        by (simp add: gs semaphore_up_def sem_inv_def Let_def k_def)
    next
      case (Cons t q)
      then have "k < length (downs ops)" by (metis drop_all list.distinct(1) not_le)
      with Cons have "take (Suc k) (downs ops) = take k (downs ops) @ [t]"
        by (simp add: take_Suc_conv_app_nth nth_via_drop)
      moreover have "drop (Suc k) (downs ops) = q" using Cons by (metis drop_Suc list.sel(3) tl_drop)
      ultimately have "take (Suc k) (downs ops) = take k (downs ops) @ [t]"
          "drop (Suc k) (downs ops) = q" by simp_all
      with Up Cons inv rng show ?thesis
        by (simp add: gs semaphore_up_def sem_inv_def Let_def k_def)
    qed
  next
    case (Down t)
    show ?thesis
    proof (cases "count s - 1 < 0")
      case True
      then have "k \<le> length (downs ops)" using inv(1) by simp
      with True Down inv rng show ?thesis
        by (simp add: gs semaphore_down_def sem_inv_def Let_def k_def push_back_def)
    next
      case False
      then have "length (downs ops) < k" using inv(1) by simp
      with False Down inv rng show ?thesis
        by (simp add: gs semaphore_down_def sem_inv_def Let_def k_def)
    qed
  qed
qed

lemma sem_run_inv:
  assumes "0 \<le> sint n" "nat (sint n) + length ops < 2 ^ 63"
  shows "\<exists>gs_s. rfold sem_step ops ([], semaphore_new n) = Inr gs_s
     \<and> sem_inv (nat (sint n)) ops gs_s"
  using assms(2)
proof (induction ops rule: rev_induct)
  case Nil
  then show ?case using assms(1) by (simp add: sem_inv_def semaphore_new_def)
next
  case (snoc p ops)
  then obtain x where x: "rfold sem_step ops ([], semaphore_new n) = Inr x"
      "sem_inv (nat (sint n)) ops x" by auto
  with sem_step_inv [OF x(2), of p] snoc.prems show ?case by (auto simp: rfold_append)
qed

section \<open>Properties\<close>

text \<open>
  Interrupt masking nests: from level 0, any sequence of guards taken and dropped in which no
  drop is unmatched runs without underflow, leaves interrupts disabled while some guard is held,
  and once the last guard is dropped leaves \<^verbatim>\<open>SIE\<close> as it was before the first.
\<close>

theorem masking_nests:
  assumes "nested_level i = 0" and "depth_after ops 0 = Some d"
  shows "\<exists>i'. masking_run ops i = Inr i' \<and> nested_level i' = d \<and> sie i' = (d = 0 \<and> sie i)"
proof -
  have "masking_inv (sie i) i" using assms(1) by (simp add: masking_inv_def)
  from masking_run_depth [OF this, of ops d] assms show ?thesis
    by (auto simp: masking_inv_def split: if_splits)
qed

theorem masking_nests_witness:
  "\<exists>i'. masking_run [Enter, Enter, Exit, Exit]
      \<lparr>nested_level = 0, sie_before_masking = False, sie = True\<rparr> = Inr i'
     \<and> nested_level i' = 0 \<and> sie i' = (0 = (0::nat) \<and> True)"
  using masking_nests [of "\<lparr>nested_level = 0, sie_before_masking = False, sie = True\<rparr>"
      "[Enter, Enter, Exit, Exit]" 0] by simp

text \<open>
  C21. Mutual exclusion, hand-over and order: in every reachable state of threads competing for a
  \<^verbatim>\<open>MutexBlocking\<close>, the lock is taken exactly when some thread is inside, \<^verbatim>\<open>lock\<close> lets a thread in
  only when nobody is inside, and \<^verbatim>\<open>unlock\<close> by the thread inside does not fail. The threads have entered in the
  order in which they called \<^verbatim>\<open>lock\<close>, the one inside is the last of them, and the next \<^verbatim>\<open>unlock\<close> passes the lock to the
  first caller that has not entered yet, or frees it when every caller has.
\<close>

theorem mutex_mutual_exclusion:
  assumes "mutex_reach S"
  shows "(locked (mtx S) \<longleftrightarrow> owner S \<noteq> None)
    \<and> (fst (mutex_lock t (mtx S)) \<longleftrightarrow> owner S = None)
    \<and> (\<exists>waiting. arrived S = entered S @ waiting
        \<and> (owner S = None \<longrightarrow> waiting = [])
        \<and> (owner S \<noteq> None \<longrightarrow> owner S = Some (last (entered S))
             \<and> (\<exists>m. mutex_unlock (mtx S) = Inr (case waiting of [] \<Rightarrow> None | w # _ \<Rightarrow> Some w, m))))"
  using mutex_reach_inv [OF assms]
  by (auto simp: mutex_inv_def mutex_lock_def mutex_unlock_def split: list.splits)

theorem mutex_mutual_exclusion_witness:
  "\<exists>S m. mutex_reach S \<and> arrived S = [7, 3, 5] \<and> entered S = [7]
     \<and> \<not> fst (mutex_lock 9 (mtx S)) \<and> mutex_unlock (mtx S) = Inr (Some 3, m)"
proof -
  let ?m = "\<lambda>q. \<lparr>locked = True, mutex_wait_queue = q\<rparr>"
  have a: "mutex_step mutex_start \<lparr>mtx = ?m [], owner = Some 7, arrived = [7], entered = [7]\<rparr>"
    using mutex_step.acquire [of mutex_start 7 "?m []"] by (simp add: mutex_start_def mutex_lock_def mutex_blocking_new_def)
  have b: "mutex_step \<lparr>mtx = ?m q, owner = Some 7, arrived = a, entered = [7]\<rparr>
      \<lparr>mtx = ?m (q @ [t]), owner = Some 7, arrived = a @ [t], entered = [7]\<rparr>" if "t \<notin> set q" "t \<noteq> 7" for t q a
    using mutex_step.block [of "\<lparr>mtx = ?m q, owner = Some 7, arrived = a, entered = [7]\<rparr>" t "?m (q @ [t])"] that
    by (simp add: mutex_lock_def push_back_def)
  let ?S = "\<lparr>mtx = ?m [3, 5], owner = Some 7, arrived = [7, 3, 5], entered = [7]\<rparr>"
  have r: "mutex_reach ?S"
    using b [of 3 "[]" "[7]"] b [of 5 "[3]" "[7, 3]"] mutex_reach.step [OF mutex_reach.step [OF mutex_reach.step [OF mutex_reach.start a]]]
    by simp
  from mutex_mutual_exclusion [OF r, of 9] have "\<not> fst (mutex_lock 9 (mtx ?S)) \<and> (\<exists>m. mutex_unlock (mtx ?S) = Inr (Some 3, m))" by auto
  with r show ?thesis by (intro exI [of _ ?S]) auto
qed

text \<open>
  C32. A semaphore of \<open>n\<close> permits is fair and loses no wake-up: after any sequence of \<^verbatim>\<open>up\<close>s and
  \<^verbatim>\<open>down\<close>s, the threads let through are exactly the first \<open>n + ups\<close> arrivals, in arrival order, and
  the wait queue holds the remaining ones in order; in particular never more than \<open>n + ups\<close> threads
  get through. The run does not overflow while \<open>n\<close> plus the number of operations stays below 2^63.
\<close>

theorem semaphore_fair:
  assumes "0 \<le> sint n" and "nat (sint n) + length ops < 2 ^ 63"
  shows "\<exists>s. rfold sem_step ops ([], semaphore_new n) =
           Inr (take (nat (sint n) + ups ops) (downs ops), s)
         \<and> sem_wait_queue s = drop (nat (sint n) + ups ops) (downs ops)
         \<and> count s = sint n + int (ups ops) - int (length (downs ops))"
  using sem_run_inv [OF assms] assms(1) by (auto simp: sem_inv_def Let_def)

theorem semaphore_fair_witness:
  "\<exists>s. rfold sem_step [Down 1, Down 2, Down 3, Up] ([], semaphore_new 1) = Inr ([1, 2], s)
     \<and> sem_wait_queue s = [3] \<and> count s = - 1"
  using semaphore_fair [of 1 "[Down 1, Down 2, Down 3, Up]"]
  by (simp add: ups_def downs_def)

text \<open>
  \<^verbatim>\<open>Condvar::wait_with_mutex\<close> on a \<^verbatim>\<open>MutexBlocking\<close> never parks the caller on the condition
  variable: with waiters on the mutex it hands the mutex to the first of them and queues the caller
  behind the others; with no waiter it panics, and with the mutex free it fails the assertion.
\<close>

theorem condvar_wait_behaviour:
  "wait_with_mutex mutex_blocking_ops tid m =
     (if \<not> locked m then Inl Assertion_Failed
      else case mutex_wait_queue m of
        [] \<Rightarrow> Inl Unwrap_None
      | w # q \<Rightarrow> Inr ((False, Some w), m\<lparr>mutex_wait_queue := q @ [tid]\<rparr>))"
proof (cases "locked m")
  case False
  then show ?thesis by (simp add: mb.wait_with_mutex_free)
next
  case True
  show ?thesis
  proof (cases "mutex_wait_queue m")
    case Nil
    with True show ?thesis by (simp add: mb.wait_with_mutex_alone)
  next
    case (Cons w q)
    from mb.wait_with_mutex_handover [OF True Cons, of tid] obtain m' where
      m': "wait_with_mutex mutex_blocking_ops tid m = Inr ((False, Some w), m')" "locked m'"
        "mutex_wait_queue m' = q @ [tid]" by blast
    then have "m' = m\<lparr>mutex_wait_queue := q @ [tid]\<rparr>" using True by (intro mutex_blocking.equality) simp_all
    with m' True Cons show ?thesis by simp
  qed
qed

end
