(* ===== verification/Task_Proc.thy ===== *)
theory Task_Proc
  imports Prelude
begin

text \<open>
  Processes and their scheduling, from \<^verbatim>\<open>task-manage/src\<close> (\<^verbatim>\<open>id.rs\<close>, \<^verbatim>\<open>manager.rs\<close>, \<^verbatim>\<open>scheduler.rs\<close>,
  \<^verbatim>\<open>proc_rel.rs\<close>, \<^verbatim>\<open>proc_manage.rs\<close>) and the manager that chapters 5 to 7 plug into it
  (\<^verbatim>\<open>ch5/src/processor.rs\<close>). \<^verbatim>\<open>PManager\<close> is generic over a type that implements the traits \<^verbatim>\<open>Manage\<close>
  and \<^verbatim>\<open>Schedule\<close>: its operations take the two method dictionaries as arguments, the locales
  \<^verbatim>\<open>manage_laws\<close> and \<^verbatim>\<open>schedule_laws\<close> state what the traits promise, and the interpretation at the
  end discharges them for \<^verbatim>\<open>ProcManager\<close>.
\<close>

section \<open>Identifiers\<close>

text \<open>\<^verbatim>\<open>ProcId::new\<close> and \<^verbatim>\<open>ThreadId::new\<close>: \<^verbatim>\<open>fetch_add(1)\<close> on a global counter, which wraps.\<close>

definition proc_id_new :: "usize \<Rightarrow> proc_id \<times> usize" where
  "proc_id_new pid_counter = (pid_counter, pid_counter + 1)"

definition thread_id_new :: "usize \<Rightarrow> thread_id \<times> usize" where
  "thread_id_new tid_counter = (tid_counter, tid_counter + 1)"

definition usize_MAX :: usize where "usize_MAX = - 1"

section \<open>The traits Manage and Schedule\<close>

text \<open>
  \<^verbatim>\<open>get_mut\<close> returns a mutable reference; \<open>m_put\<close> is an assignment through it.
\<close>

record ('i, 't, 'm) manage_ops =
  m_insert :: "'i \<Rightarrow> 't \<Rightarrow> 'm \<Rightarrow> 'm"
  m_delete :: "'i \<Rightarrow> 'm \<Rightarrow> 'm"
  m_get_mut :: "'i \<Rightarrow> 'm \<Rightarrow> 't option"
  m_put :: "'i \<Rightarrow> 't \<Rightarrow> 'm \<Rightarrow> 'm"

record ('i, 'm) schedule_ops =
  s_add :: "'i \<Rightarrow> 'm \<Rightarrow> 'm"
  s_fetch :: "'m \<Rightarrow> 'i option \<times> 'm"

section \<open>Relations between processes\<close>

record proc_rel =
  rel_parent :: proc_id
  rel_children :: "proc_id list"
  rel_dead_children :: "(proc_id \<times> isize) list"

definition proc_rel_new :: "proc_id \<Rightarrow> proc_rel" where
  "proc_rel_new parent_pid = \<lparr>rel_parent = parent_pid, rel_children = [], rel_dead_children = []\<rparr>"

definition add_child :: "proc_id \<Rightarrow> proc_rel \<Rightarrow> proc_rel" where
  "add_child child_pid r = r\<lparr>rel_children := rel_children r @ [child_pid]\<rparr>"

definition del_child :: "proc_id \<Rightarrow> isize \<Rightarrow> proc_rel \<Rightarrow> proc_rel" where
  "del_child child_pid exit_code r =
     (case find_index (\<lambda>i. i = child_pid) (rel_children r) of
        Some idx \<Rightarrow>
          r\<lparr>rel_children := remove_at idx (rel_children r),
            rel_dead_children := rel_dead_children r @ [(rel_children r ! idx, exit_code)]\<rparr>
      | None \<Rightarrow> r)"

text \<open>The answer \<^verbatim>\<open>(ProcId::from_usize(-2 as _), -1)\<close>: the child is still running.\<close>

definition still_running :: "proc_id \<times> isize" where
  "still_running = (- 2, - 1)"

definition wait_any_child :: "proc_rel \<Rightarrow> (proc_id \<times> isize) option \<times> proc_rel" where
  "wait_any_child r =
     (if rel_dead_children r = [] then
        (if rel_children r = [] then (None, r) else (Some still_running, r))
      else let (d, ds) = pop_back (rel_dead_children r) in (d, r\<lparr>rel_dead_children := ds\<rparr>))"

definition wait_child :: "proc_id \<Rightarrow> proc_rel \<Rightarrow> (proc_id \<times> isize) option \<times> proc_rel" where
  "wait_child child_pid r =
     (case find_index (\<lambda>d. fst d = child_pid) (rel_dead_children r) of
        Some idx \<Rightarrow>
          (Some (rel_dead_children r ! idx),
           r\<lparr>rel_dead_children := remove_at idx (rel_dead_children r)\<rparr>)
      | None \<Rightarrow>
          (case find_index (\<lambda>i. i = child_pid) (rel_children r) of
             Some _ \<Rightarrow> (Some still_running, r)
           | None \<Rightarrow> (None, r)))"

section \<open>The process manager\<close>

record ('m) pmanager =
  rel_map :: "proc_id \<rightharpoonup> proc_rel"
  manager :: "'m option"
  current :: "proc_id option"

definition pm_new :: "'m pmanager" where
  "pm_new = \<lparr>rel_map = Map.empty, manager = None, current = None\<rparr>"

definition pm_find_next ::
    "(proc_id, 'p, 'm) manage_ops \<Rightarrow> (proc_id, 'm) schedule_ops \<Rightarrow>
     'm pmanager \<Rightarrow> ('p option \<times> 'm pmanager) res" where
  "pm_find_next M S pm =
     rbind (unwrap (manager pm)) (\<lambda>mg.
       case s_fetch S mg of
         (Some i, mg1) \<Rightarrow>
           (case m_get_mut M i mg1 of
              Some task \<Rightarrow> Inr (Some task, pm\<lparr>manager := Some mg1, current := Some i\<rparr>)
            | None \<Rightarrow> Inr (None, pm\<lparr>manager := Some mg1\<rparr>))
       | (None, mg1) \<Rightarrow> Inr (None, pm\<lparr>manager := Some mg1\<rparr>))"

definition pm_set_manager :: "'m \<Rightarrow> 'm pmanager \<Rightarrow> 'm pmanager" where
  "pm_set_manager mg pm = pm\<lparr>manager := Some mg\<rparr>"

definition pm_make_current_suspend ::
    "(proc_id, 'm) schedule_ops \<Rightarrow> 'm pmanager \<Rightarrow> 'm pmanager res" where
  "pm_make_current_suspend S pm =
     rbind (unwrap (current pm)) (\<lambda>i.
     rbind (unwrap (manager pm)) (\<lambda>mg.
       Inr (pm\<lparr>manager := Some (s_add S i mg), current := None\<rparr>)))"

text \<open>One iteration of the loop that hands the children of an exiting process to process 0.\<close>

definition adopt_child ::
    "proc_id \<Rightarrow> (proc_id \<rightharpoonup> proc_rel) \<Rightarrow> (proc_id \<rightharpoonup> proc_rel) res" where
  "adopt_child i rel =
     rbind (unwrap (rel i)) (\<lambda>ri.
       let rel1 = rel(i \<mapsto> ri\<lparr>rel_parent := 0\<rparr>)
       in rbind (unwrap (rel1 0)) (\<lambda>r0. Inr (rel1(0 \<mapsto> add_child i r0))))"

definition pm_make_current_exited ::
    "(proc_id, 'p, 'm) manage_ops \<Rightarrow> isize \<Rightarrow> 'm pmanager \<Rightarrow> 'm pmanager res" where
  "pm_make_current_exited M exit_code pm =
     rbind (unwrap (current pm)) (\<lambda>i.
     rbind (unwrap (manager pm)) (\<lambda>mg.
     let mg1 = m_delete M i mg in
     rbind (unwrap (rel_map pm i)) (\<lambda>current_rel.
     let rel1 = (rel_map pm)(i := None);
         parent_pid = rel_parent current_rel;
         children = rel_children current_rel;
         rel2 = (case rel1 parent_pid of
                   Some parent_rel \<Rightarrow> rel1(parent_pid \<mapsto> del_child i exit_code parent_rel)
                 | None \<Rightarrow> rel1)
     in rbind (rfold adopt_child children rel2) (\<lambda>rel3.
          Inr (pm\<lparr>rel_map := rel3, manager := Some mg1, current := None\<rparr>)))))"

definition pm_add ::
    "(proc_id, 'p, 'm) manage_ops \<Rightarrow> (proc_id, 'm) schedule_ops \<Rightarrow>
     proc_id \<Rightarrow> 'p \<Rightarrow> proc_id \<Rightarrow> 'm pmanager \<Rightarrow> 'm pmanager res" where
  "pm_add M S i task parent pm =
     rbind (unwrap (manager pm)) (\<lambda>mg.
       let mg1 = s_add S i (m_insert M i task mg);
           rel1 = (case rel_map pm parent of
                     Some parent_relation \<Rightarrow> (rel_map pm)(parent \<mapsto> add_child i parent_relation)
                   | None \<Rightarrow> rel_map pm)
       in Inr (pm\<lparr>manager := Some mg1, rel_map := rel1(i \<mapsto> proc_rel_new parent)\<rparr>))"

definition pm_current ::
    "(proc_id, 'p, 'm) manage_ops \<Rightarrow> 'm pmanager \<Rightarrow> 'p option res" where
  "pm_current M pm =
     rbind (unwrap (current pm)) (\<lambda>i. rbind (unwrap (manager pm)) (\<lambda>mg. Inr (m_get_mut M i mg)))"

definition pm_get_task ::
    "(proc_id, 'p, 'm) manage_ops \<Rightarrow> proc_id \<Rightarrow> 'm pmanager \<Rightarrow> 'p option res" where
  "pm_get_task M i pm = rbind (unwrap (manager pm)) (\<lambda>mg. Inr (m_get_mut M i mg))"

definition pm_wait ::
    "proc_id \<Rightarrow> 'm pmanager \<Rightarrow> ((proc_id \<times> isize) option \<times> 'm pmanager) res" where
  "pm_wait child_pid pm =
     rbind (unwrap (current pm)) (\<lambda>i.
     rbind (unwrap (rel_map pm i)) (\<lambda>current_rel.
       let (ans, r) = (if child_pid = usize_MAX then wait_any_child current_rel
                       else wait_child child_pid current_rel)
       in Inr (ans, pm\<lparr>rel_map := (rel_map pm)(i \<mapsto> r)\<rparr>)))"

section \<open>The manager of chapters 5 to 7\<close>

record 'p proc_manager =
  tasks :: "proc_id \<rightharpoonup> 'p"
  ready_queue :: "proc_id list"

definition proc_manager_new :: "'p proc_manager" where
  "proc_manager_new = \<lparr>tasks = Map.empty, ready_queue = []\<rparr>"

definition proc_manage :: "(proc_id, 'p, 'p proc_manager) manage_ops" where
  "proc_manage =
     \<lparr>m_insert = (\<lambda>i task m. m\<lparr>tasks := (tasks m)(i \<mapsto> task)\<rparr>),
      m_delete = (\<lambda>i m. m\<lparr>tasks := (tasks m)(i := None)\<rparr>),
      m_get_mut = (\<lambda>i m. tasks m i),
      m_put = (\<lambda>i task m. if tasks m i = None then m else m\<lparr>tasks := (tasks m)(i \<mapsto> task)\<rparr>)\<rparr>"

definition proc_schedule :: "(proc_id, 'p proc_manager) schedule_ops" where
  "proc_schedule =
     \<lparr>s_add = (\<lambda>i m. m\<lparr>ready_queue := push_back i (ready_queue m)\<rparr>),
      s_fetch = (\<lambda>m. let (i, q) = pop_front (ready_queue m) in (i, m\<lparr>ready_queue := q\<rparr>))\<rparr>"

section \<open>What the traits promise\<close>

locale manage_laws =
  fixes M :: "('i, 't, 'm) manage_ops" and items :: "'m \<Rightarrow> 'i \<rightharpoonup> 't"
  assumes get_mut: "m_get_mut M i m = items m i"
    and items_insert: "items (m_insert M i t m) = (items m)(i \<mapsto> t)"
    and items_delete: "items (m_delete M i m) = (items m)(i := None)"
    and items_put: "items m i \<noteq> None \<Longrightarrow> items (m_put M i t m) = (items m)(i \<mapsto> t)"

locale schedule_laws =
  fixes S :: "('i, 'm) schedule_ops" and queue :: "'m \<Rightarrow> 'i list"
  assumes queue_add: "queue (s_add S i m) = queue m @ [i]"
    and fetch_fst: "fst (s_fetch S m) = (if queue m = [] then None else Some (hd (queue m)))"
    and queue_fetch: "queue (snd (s_fetch S m)) = tl (queue m)"

text \<open>A type that implements both traits keeps the two views apart.\<close>

locale task_laws = manage_laws M items + schedule_laws S queue
  for M :: "('i, 't, 'm) manage_ops" and items and S :: "('i, 'm) schedule_ops" and queue +
  assumes items_add: "items (s_add S i m) = items m"
    and items_fetch: "items (snd (s_fetch S m)) = items m"
    and queue_insert: "queue (m_insert M i t m) = queue m"
    and queue_delete: "queue (m_delete M i m) = queue m"
begin

lemmas task_simps =
  get_mut items_insert items_delete queue_add fetch_fst queue_fetch items_add items_fetch
  queue_insert queue_delete

lemma fetch_cases:
  obtains "queue m = []" "s_fetch S m = (None, snd (s_fetch S m))"
  | i q where "queue m = i # q" "s_fetch S m = (Some i, snd (s_fetch S m))"
      "queue (snd (s_fetch S m)) = q"
proof (cases "queue m")
  case Nil
  with that(1) fetch_fst [of m] show ?thesis by (metis prod.collapse)
next
  case (Cons i q)
  with that(2) fetch_fst [of m] queue_fetch [of m] show ?thesis
    by (metis list.distinct(1) list.sel(1,3) prod.collapse)
qed

end

interpretation pmg: task_laws proc_manage tasks proc_schedule ready_queue
  by unfold_locales
     (auto simp: proc_manage_def proc_schedule_def push_back_def fst_pop_front snd_pop_front
        split_def Let_def)

section \<open>Invariant of the process manager\<close>

text \<open>
  The parent and child fields describe one forest over the processes in the map: the children of
  \<open>p\<close> are, without repetition, exactly the processes whose parent is \<open>p\<close>; a parent is alive or is
  the marker \<^verbatim>\<open>usize::MAX\<close>, which is never a process; nobody is its own parent and process 0 has
  no living parent.
\<close>

definition tree_inv :: "(proc_id \<rightharpoonup> proc_rel) \<Rightarrow> bool" where
  "tree_inv rel \<longleftrightarrow>
     (\<forall>p r. rel p = Some r \<longrightarrow> distinct (rel_children r)
        \<and> (\<forall>c. c \<in> set (rel_children r) \<longleftrightarrow> (\<exists>rc. rel c = Some rc \<and> rel_parent rc = p))
        \<and> (rel_parent r \<in> dom rel \<or> rel_parent r = usize_MAX) \<and> rel_parent r \<noteq> p)
     \<and> usize_MAX \<notin> dom rel
     \<and> (\<forall>r. rel 0 = Some r \<longrightarrow> rel_parent r = usize_MAX)"

text \<open>
  The manager holds the processes of the map; the ready queue holds living processes, each once,
  and not the running one.
\<close>

definition pm_inv :: "('m \<Rightarrow> proc_id \<rightharpoonup> 'p) \<Rightarrow> ('m \<Rightarrow> proc_id list) \<Rightarrow> 'm pmanager \<Rightarrow> bool" where
  "pm_inv items queue pm \<longleftrightarrow> tree_inv (rel_map pm) \<and>
     (\<exists>mg. manager pm = Some mg \<and> dom (items mg) = dom (rel_map pm)
        \<and> distinct (queue mg) \<and> set (queue mg) \<subseteq> dom (rel_map pm)
        \<and> (\<forall>i. current pm = Some i \<longrightarrow> i \<in> dom (rel_map pm) \<and> i \<notin> set (queue mg)))"

lemma tree_invD:
  assumes "tree_inv rel" "rel p = Some r"
  shows "distinct (rel_children r)"
    and "c \<in> set (rel_children r) \<longleftrightarrow> (\<exists>rc. rel c = Some rc \<and> rel_parent rc = p)"
    and "rel_parent r \<in> dom rel \<or> rel_parent r = usize_MAX" and "rel_parent r \<noteq> p"
  using assms by (simp_all add: tree_inv_def)

lemma usize_MAX_neq_0 [simp]: "usize_MAX \<noteq> 0" "0 \<noteq> usize_MAX"
  by (simp_all add: usize_MAX_def)

text \<open>Closed form of the adoption loop.\<close>

definition adopted :: "proc_id list \<Rightarrow> (proc_id \<rightharpoonup> proc_rel) \<Rightarrow> proc_id \<rightharpoonup> proc_rel" where
  "adopted cs rel = (\<lambda>p. map_option (\<lambda>r. r\<lparr>
       rel_parent := (if p \<in> set cs then 0 else rel_parent r),
       rel_children := (if p = 0 then rel_children r @ cs else rel_children r)\<rparr>) (rel p))"

lemma adopt_child_adopted:
  assumes "rel i = Some ri" "rel 0 = Some r0" "i \<noteq> 0"
  shows "adopt_child i rel = Inr (adopted [i] rel)"
  using assms
  by (auto simp: adopt_child_def adopted_def add_child_def fun_eq_iff Let_def option.map_ident)

lemma adopted_append: "adopted ds (adopted cs rel) = adopted (cs @ ds) rel"
  by (auto simp: adopted_def fun_eq_iff option.map_comp comp_def intro!: map_option_cong)

lemma adopt_all:
  assumes "set cs \<subseteq> dom rel" "0 \<in> dom rel" "0 \<notin> set cs"
  shows "rfold adopt_child cs rel = Inr (adopted cs rel)"
  using assms
proof (induction cs arbitrary: rel)
  case Nil
  have "adopted [] rel = rel" by (auto simp: adopted_def fun_eq_iff map_option_idI)
  then show ?case by simp
next
  case (Cons c cs)
  then obtain rc r0 where "rel c = Some rc" "rel 0 = Some r0" "c \<noteq> 0" by auto
  then have "adopt_child c rel = Inr (adopted [c] rel)" by (rule adopt_child_adopted)
  moreover have "dom (adopted [c] rel) = dom rel" by (auto simp: adopted_def)
  ultimately show ?case using Cons by (simp add: adopted_append)
qed

text \<open>The map after process \<open>i\<close> has exited with \<open>code\<close>.\<close>

definition rel_after_exit :: "proc_id \<Rightarrow> isize \<Rightarrow> (proc_id \<rightharpoonup> proc_rel) \<Rightarrow> proc_id \<rightharpoonup> proc_rel" where
  "rel_after_exit i code rel = (\<lambda>p. if p = i then None else
     map_option (\<lambda>r. let r1 = (if rel_parent (the (rel i)) = p then del_child i code r else r);
                         cs = rel_children (the (rel i))
        in r1\<lparr>rel_parent := (if p \<in> set cs then 0 else rel_parent r1),
              rel_children := (if p = 0 then rel_children r1 @ cs else rel_children r1)\<rparr>) (rel p))"

lemma del_child_eq:
  assumes "distinct (rel_children r)" "i \<in> set (rel_children r)"
  shows "del_child i code r = r\<lparr>rel_children := remove1 i (rel_children r),
           rel_dead_children := rel_dead_children r @ [(i, code)]\<rparr>"
proof -
  obtain k where k: "find_index (\<lambda>j. j = i) (rel_children r) = Some k"
    using find_index_mem [OF assms(2), of "\<lambda>j. j = i"] by auto
  then have "rel_children r ! k = i" by (auto dest: find_index_nth)
  with k remove_at_remove1 [OF k assms(1)] show ?thesis by (simp add: del_child_def)
qed

lemma del_child_fields [simp]:
  "rel_parent (del_child i code r) = rel_parent r"
  by (simp add: del_child_def split: option.split)

lemma exit_loop:
  assumes "tree_inv rel" "rel i = Some r" "i \<noteq> 0" "0 \<in> dom rel"
  shows "rfold adopt_child (rel_children r)
       (case (rel(i := None)) (rel_parent r) of
          Some pr \<Rightarrow> (rel(i := None))(rel_parent r \<mapsto> del_child i code pr)
        | None \<Rightarrow> rel(i := None)) = Inr (rel_after_exit i code rel)"
    (is "rfold _ _ ?rel2 = _")
proof -
  have sub: "set (rel_children r) \<subseteq> dom rel - {i}"
    using tree_invD [OF assms(1,2)] assms(2) by auto
  have nz: "0 \<notin> set (rel_children r)"
  proof
    assume "0 \<in> set (rel_children r)"
    then have "i = usize_MAX"
      using tree_invD(2) [OF assms(1,2)] assms(1) by (auto simp: tree_inv_def)
    with assms(1,2) show False by (auto simp: tree_inv_def)
  qed
  have "dom ?rel2 = dom rel - {i}" by (auto split: option.splits if_splits)
  with sub nz assms(3,4) have "rfold adopt_child (rel_children r) ?rel2 = Inr (adopted (rel_children r) ?rel2)"
    by (intro adopt_all) auto
  also have "adopted (rel_children r) ?rel2 = rel_after_exit i code rel"
  proof (rule ext)
    fix p
    show "adopted (rel_children r) ?rel2 p = rel_after_exit i code rel p"
      using assms(2) tree_invD(4) [OF assms(1,2)]
      by (cases "rel p"; cases "p = rel_parent r"; cases "rel (rel_parent r)")
         (auto simp: adopted_def rel_after_exit_def Let_def)
  qed
  finally show ?thesis .
qed

lemma rel_after_exit_Some:
  assumes "tree_inv rel" "rel i = Some ri" "rel_after_exit i code rel p = Some r'"
  shows "\<exists>r. rel p = Some r \<and> p \<noteq> i
    \<and> rel_parent r' = (if p \<in> set (rel_children ri) then 0 else rel_parent r)
    \<and> rel_children r' = remove1 i (rel_children r) @ (if p = 0 then rel_children ri else [])"
proof -
  from assms(3) obtain r where r: "rel p = Some r" "p \<noteq> i"
    by (auto simp: rel_after_exit_def split: if_splits)
  note tr = tree_invD [OF assms(1) r(1)]
  have "i \<in> set (rel_children r) \<longleftrightarrow> rel_parent ri = p" using tr(2) [of i] assms(2) by simp
  with r assms(2,3) del_child_eq [OF tr(1), of i code] show ?thesis
    by (cases "rel_parent ri = p") (auto simp: rel_after_exit_def Let_def remove1_idem)
qed

lemma dom_rel_after_exit: "dom (rel_after_exit i code rel) = dom rel - {i}"
  by (auto simp: rel_after_exit_def split: if_splits)

lemma tree_inv_after_exit:
  assumes inv: "tree_inv rel" and ri: "rel i = Some ri" and "i \<noteq> 0" "0 \<in> dom rel"
  shows "tree_inv (rel_after_exit i code rel)" (is "tree_inv ?rel'")
proof -
  let ?cs = "rel_children ri"
  note cs = tree_invD(2) [OF inv ri]
  have nz: "0 \<notin> set ?cs"
    using cs [of 0] inv ri by (auto simp: tree_inv_def)
  have main: "distinct (rel_children r')
      \<and> (\<forall>c. c \<in> set (rel_children r') \<longleftrightarrow> (\<exists>rc. ?rel' c = Some rc \<and> rel_parent rc = p))
      \<and> (rel_parent r' \<in> dom ?rel' \<or> rel_parent r' = usize_MAX) \<and> rel_parent r' \<noteq> p"
    if p: "?rel' p = Some r'" for p r'
  proof -
    from rel_after_exit_Some [OF inv ri p] obtain r where r: "rel p = Some r" "p \<noteq> i"
      "rel_parent r' = (if p \<in> set ?cs then 0 else rel_parent r)"
      "rel_children r' = remove1 i (rel_children r) @ (if p = 0 then ?cs else [])" by blast
    note tr = tree_invD [OF inv r(1)]
    have parent_c: "(\<exists>rc. ?rel' c = Some rc \<and> rel_parent rc = p) \<longleftrightarrow>
        c \<noteq> i \<and> (if c \<in> set ?cs then p = 0 else c \<in> set (rel_children r))" for c
    proof (cases "?rel' c")
      case None
      then have "c = i \<or> c \<notin> dom rel" using dom_rel_after_exit [of i code rel] by auto
      then show ?thesis using None cs [of c] tr(2) [of c] by auto
    next
      case (Some rc)
      from rel_after_exit_Some [OF inv ri Some] show ?thesis
        using Some tr(2) [of c] by auto
    qed
    have "distinct (rel_children r')"
      using r(4) tr(1) tree_invD(1) [OF inv ri] cs tr(2) \<open>i \<noteq> 0\<close>
      by (auto dest: notin_set_remove1 in_set_remove1 [THEN iffD1, rotated]
               simp: set_remove1_eq)
    moreover have "c \<in> set (rel_children r') \<longleftrightarrow> (\<exists>rc. ?rel' c = Some rc \<and> rel_parent rc = p)" for c
      unfolding parent_c using r(2,4) tr(1) tr(2) [of c] cs [of c] ri tree_invD(4) [OF inv ri]
      by (auto simp: set_remove1_eq)
    moreover have "rel_parent r' \<in> dom ?rel' \<or> rel_parent r' = usize_MAX"
      using r(3) tr(3) assms(3,4) cs [of p] r(1) by (auto simp: dom_rel_after_exit)
    moreover have "rel_parent r' \<noteq> p" using r(3) tr(4) nz by auto
    ultimately show ?thesis by blast
  qed
  moreover have "usize_MAX \<notin> dom ?rel'" using inv by (simp add: tree_inv_def dom_rel_after_exit)
  moreover have "rel_parent r' = usize_MAX" if "?rel' 0 = Some r'" for r'
    using rel_after_exit_Some [OF inv ri that] nz inv by (auto simp: tree_inv_def)
  ultimately show ?thesis unfolding tree_inv_def by blast
qed


text \<open>The map after process \<open>i\<close> has been added as a child of \<open>parent\<close>.\<close>

definition rel_after_add :: "proc_id \<Rightarrow> proc_id \<Rightarrow> (proc_id \<rightharpoonup> proc_rel) \<Rightarrow> proc_id \<rightharpoonup> proc_rel" where
  "rel_after_add i parent rel = (case rel parent of
      Some pr \<Rightarrow> rel(parent \<mapsto> add_child i pr) | None \<Rightarrow> rel)(i \<mapsto> proc_rel_new parent)"

lemma rel_after_add_apply: "rel_after_add i parent rel p =
    (if p = i then Some (proc_rel_new parent)
     else if p = parent then map_option (add_child i) (rel p) else rel p)"
  by (auto simp: rel_after_add_def split: option.split)

lemma dom_rel_after_add: "dom (rel_after_add i parent rel) = insert i (dom rel)"
  by (auto simp: rel_after_add_apply dom_def)

lemma tree_inv_add:
  assumes inv: "tree_inv rel" and fresh: "i \<notin> dom rel" and "i \<noteq> usize_MAX"
    and "parent \<in> dom rel \<or> parent = usize_MAX" "i = 0 \<longrightarrow> parent = usize_MAX"
  shows "tree_inv (rel_after_add i parent rel)" (is "tree_inv ?rel'")
  unfolding tree_inv_def
proof (intro conjI allI impI)
  fix p r c assume p: "?rel' p = Some r"
  have par: "parent \<noteq> i" using assms(2,3,4) by auto
  have childD: "c \<in> dom rel" "c \<noteq> i" if "rel p = Some r" "c \<in> set (rel_children r)" for p r c
    using tree_invD(2) [OF inv that(1), of c] that(2) fresh by auto
  have noi: "rel_parent r \<noteq> i" if "rel p = Some r" for p r
    using tree_invD(3) [OF inv that] assms(2,3) by auto
  note defs = rel_after_add_apply proc_rel_new_def add_child_def
  show "distinct (rel_children r)"
    using p childD tree_invD(1) [OF inv] by (fastforce simp: defs split: if_splits)
  show "rel_parent r \<in> dom ?rel' \<or> rel_parent r = usize_MAX"
    using p assms(4) tree_invD(3) [OF inv]
    by (fastforce simp: dom_rel_after_add defs simp del: domIff split: if_splits)
  show "rel_parent r \<noteq> p"
    using p par tree_invD(4) [OF inv] by (fastforce simp: defs split: if_splits)
  have "(\<exists>rc. ?rel' c = Some rc \<and> rel_parent rc = p) \<longleftrightarrow>
      (if c = i then parent = p else \<exists>rc. rel c = Some rc \<and> rel_parent rc = p)"
    by (auto simp: defs)
  then show "c \<in> set (rel_children r) \<longleftrightarrow> (\<exists>rc. ?rel' c = Some rc \<and> rel_parent rc = p)"
    using p par noi fresh tree_invD(2) [OF inv] by (fastforce simp: defs split: if_splits)
next
  show "usize_MAX \<notin> dom ?rel'" using inv assms(3) by (simp add: dom_rel_after_add tree_inv_def)
next
  fix r assume "?rel' 0 = Some r"
  then show "rel_parent r = usize_MAX"
    using assms(5) inv
    by (auto simp: rel_after_add_apply tree_inv_def proc_rel_new_def add_child_def split: if_splits)
qed

section \<open>Every operation keeps the invariant\<close>

locale proc_laws = task_laws M items S queue
  for M :: "(proc_id, 'p, 'm) manage_ops" and items and S :: "(proc_id, 'm) schedule_ops" and queue
begin

abbreviation inv :: "'m pmanager \<Rightarrow> bool" where
  "inv \<equiv> pm_inv items queue"

lemma inv_managerE:
  assumes "inv pm"
  obtains mg where "manager pm = Some mg" "dom (items mg) = dom (rel_map pm)" "distinct (queue mg)"
    "set (queue mg) \<subseteq> dom (rel_map pm)" "tree_inv (rel_map pm)"
    "\<forall>i. current pm = Some i \<longrightarrow> i \<in> dom (rel_map pm) \<and> i \<notin> set (queue mg)"
  using assms that unfolding pm_inv_def by blast

lemma add_ok:
  assumes "inv pm" "i \<notin> dom (rel_map pm)" "i \<noteq> usize_MAX"
    and "parent \<in> dom (rel_map pm) \<or> parent = usize_MAX" "i = 0 \<longrightarrow> parent = usize_MAX"
  obtains pm' where "pm_add M S i t parent pm = Inr pm'" "inv pm'" "current pm' = current pm"
    "dom (rel_map pm') = insert i (dom (rel_map pm))"
proof -
  from assms(1) obtain mg where mg: "manager pm = Some mg" "dom (items mg) = dom (rel_map pm)"
    "distinct (queue mg)" "set (queue mg) \<subseteq> dom (rel_map pm)" "tree_inv (rel_map pm)"
    "\<forall>i. current pm = Some i \<longrightarrow> i \<in> dom (rel_map pm) \<and> i \<notin> set (queue mg)"
    by (rule inv_managerE)
  let ?rel = "rel_after_add i parent (rel_map pm)"
  have add: "pm_add M S i t parent pm =
      Inr (pm\<lparr>manager := Some (s_add S i (m_insert M i t mg)), rel_map := ?rel\<rparr>)"
    by (simp add: pm_add_def mg(1) rel_after_add_def Let_def)
  have "inv (pm\<lparr>manager := Some (s_add S i (m_insert M i t mg)), rel_map := ?rel\<rparr>)"
    unfolding pm_inv_def using tree_inv_add [OF mg(5) assms(2-5)] mg(2-4,6) assms(2)
    by (simp add: task_simps dom_rel_after_add) blast
  then show ?thesis using that [OF add] by (simp add: dom_rel_after_add)
qed

lemma find_next_ok:
  assumes "inv pm" "current pm = None"
  obtains (idle) pm' where "pm_find_next M S pm = Inr (None, pm')" "inv pm'"
      "queue (the (manager pm)) = []" "rel_map pm' = rel_map pm" "current pm' = None"
  | (run) i q t pm' where "pm_find_next M S pm = Inr (Some t, pm')" "inv pm'"
      "queue (the (manager pm)) = i # q" "queue (the (manager pm')) = q"
      "current pm' = Some i" "items (the (manager pm)) i = Some t"
      "rel_map pm' = rel_map pm" "items (the (manager pm')) = items (the (manager pm))"
proof -
  from assms(1) obtain mg where mg: "manager pm = Some mg" "dom (items mg) = dom (rel_map pm)"
    "distinct (queue mg)" "set (queue mg) \<subseteq> dom (rel_map pm)" "tree_inv (rel_map pm)"
    by (rule inv_managerE)
  show ?thesis
  proof (cases rule: fetch_cases [of mg])
    case 1
    with mg assms that(1) show ?thesis
      by (auto simp: pm_find_next_def pm_inv_def task_simps split_def)
  next
    case (2 i q)
    with mg obtain t where t: "items mg i = Some t" by auto
    have "pm_find_next M S pm =
        Inr (Some t, pm\<lparr>manager := Some (snd (s_fetch S mg)), current := Some i\<rparr>)"
      using 2 t by (simp add: pm_find_next_def mg(1) task_simps split_def)
    then show ?thesis
      by (rule that(2)) (use 2 t mg in \<open>auto simp: pm_inv_def task_simps\<close>)
  qed
qed

lemma suspend_ok:
  assumes "inv pm" "current pm = Some i"
  obtains pm' where "pm_make_current_suspend S pm = Inr pm'" "inv pm'"
    "queue (the (manager pm')) = queue (the (manager pm)) @ [i]" "current pm' = None"
    "rel_map pm' = rel_map pm" "items (the (manager pm')) = items (the (manager pm))"
proof -
  from assms(1) obtain mg where "manager pm = Some mg" by (rule inv_managerE)
  with assms that show ?thesis
    by (auto simp: pm_make_current_suspend_def pm_inv_def task_simps)
qed

lemma exit_ok:
  assumes "inv pm" "current pm = Some i" "i \<noteq> 0" "0 \<in> dom (rel_map pm)"
  obtains pm' where "pm_make_current_exited M code pm = Inr pm'" "inv pm'"
    "rel_map pm' = rel_after_exit i code (rel_map pm)" "current pm' = None"
    "items (the (manager pm')) = (items (the (manager pm)))(i := None)"
    "queue (the (manager pm')) = queue (the (manager pm))"
proof -
  from assms(1) obtain mg where mg: "manager pm = Some mg" "tree_inv (rel_map pm)"
    "i \<in> dom (rel_map pm)" using assms(2) by (metis inv_managerE)
  then obtain r where r: "rel_map pm i = Some r" by auto
  have "pm_make_current_exited M code pm = Inr (pm\<lparr>rel_map := rel_after_exit i code (rel_map pm),
      manager := Some (m_delete M i mg), current := None\<rparr>)"
    using assms(2) mg(1) r exit_loop [OF mg(2) r assms(3,4), of code]
    by (simp add: pm_make_current_exited_def Let_def)
  moreover have "tree_inv (rel_after_exit i code (rel_map pm))"
    by (rule tree_inv_after_exit [OF mg(2) r assms(3,4)])
  ultimately show ?thesis
    using that assms(1,2) mg(1) by (fastforce simp: pm_inv_def task_simps dom_rel_after_exit)
qed

end

interpretation pml: proc_laws proc_manage tasks proc_schedule ready_queue
  by unfold_locales

section \<open>Runs of the process manager\<close>

text \<open>
  The order in which the main loops of chapters 5 to 7 call the manager: a process is picked when
  none is running; the running process forks (with a fresh identifier), waits, is put back or
  exits; process 0, the parent of all orphans, does not exit.
\<close>

inductive pm_step ::
    "(proc_id, 'p, 'm) manage_ops \<Rightarrow> (proc_id, 'm) schedule_ops \<Rightarrow> 'm pmanager \<Rightarrow> 'm pmanager \<Rightarrow> bool"
  for M S where
  step_next: "current pm = None \<Longrightarrow> pm_find_next M S pm = Inr (t, pm') \<Longrightarrow> pm_step M S pm pm'"
| step_fork: "current pm = Some p \<Longrightarrow> i \<notin> dom (rel_map pm) \<Longrightarrow> i \<noteq> usize_MAX \<Longrightarrow>
    pm_add M S i task p pm = Inr pm' \<Longrightarrow> pm_step M S pm pm'"
| step_suspend: "pm_make_current_suspend S pm = Inr pm' \<Longrightarrow> pm_step M S pm pm'"
| step_exit: "current pm \<noteq> Some 0 \<Longrightarrow> pm_make_current_exited M code pm = Inr pm' \<Longrightarrow>
    pm_step M S pm pm'"
| step_wait: "pm_wait child pm = Inr (ans, pm') \<Longrightarrow> pm_step M S pm pm'"

inductive pm_reach ::
    "(proc_id, 'p, 'm) manage_ops \<Rightarrow> (proc_id, 'm) schedule_ops \<Rightarrow> 'm \<Rightarrow> 'm pmanager \<Rightarrow> bool"
  for M S mg where
  reach_init: "pm_add M S 0 task usize_MAX (pm_set_manager mg pm_new) = Inr pm \<Longrightarrow>
    pm_reach M S mg pm"
| reach_step: "pm_reach M S mg pm \<Longrightarrow> pm_step M S pm pm' \<Longrightarrow> pm_reach M S mg pm'"

lemma wait_child_fields [simp]:
  "rel_parent (snd (wait_child c r)) = rel_parent r"
  "rel_children (snd (wait_child c r)) = rel_children r"
  "rel_parent (snd (wait_any_child r)) = rel_parent r"
  "rel_children (snd (wait_any_child r)) = rel_children r"
  by (simp_all add: wait_child_def wait_any_child_def split_def Let_def split: option.split)

lemma tree_inv_update:
  assumes "tree_inv rel" "rel i = Some r" "rel_parent r' = rel_parent r" "rel_children r' = rel_children r"
  shows "tree_inv (rel(i \<mapsto> r'))"
proof -
  have "(\<exists>rc. (rel(i \<mapsto> r')) c = Some rc \<and> rel_parent rc = p) \<longleftrightarrow>
      (\<exists>rc. rel c = Some rc \<and> rel_parent rc = p)" for c p
    using assms(2,3) by auto
  with assms show ?thesis unfolding tree_inv_def by (auto simp add: insert_absorb domI)
qed

context proc_laws
begin

lemma wait_ok:
  assumes "inv pm" "current pm = Some i"
  obtains ans pm' where "pm_wait c pm = Inr (ans, pm')" "inv pm'" "current pm' = Some i"
    "dom (rel_map pm') = dom (rel_map pm)"
proof -
  from assms obtain mg r where r: "tree_inv (rel_map pm)" "rel_map pm i = Some r"
    by (metis inv_managerE domD)
  let ?w = "if c = usize_MAX then wait_any_child r else wait_child c r"
  have "tree_inv ((rel_map pm)(i \<mapsto> snd ?w))" by (rule tree_inv_update [OF r]) simp_all
  moreover have "dom ((rel_map pm)(i \<mapsto> snd ?w)) = dom (rel_map pm)" using r(2) by auto
  moreover have "pm_wait c pm = Inr (fst ?w, pm\<lparr>rel_map := (rel_map pm)(i \<mapsto> snd ?w)\<rparr>)"
    using assms(2) r(2) by (simp add: pm_wait_def split_def Let_def)
  ultimately show ?thesis using that assms unfolding pm_inv_def by (simp del: dom_fun_upd)
qed

lemma step_inv:
  assumes "pm_step M S pm pm'" "inv pm" "0 \<in> dom (rel_map pm)"
  shows "inv pm' \<and> 0 \<in> dom (rel_map pm')"
  using assms(1)
proof (cases rule: pm_step.cases)
  case (step_next t)
  with assms(2,3) show ?thesis by (cases rule: find_next_ok [OF assms(2) step_next(1)]) auto
next
  case (step_fork p i task)
  from assms(2) step_fork(1) have "p \<in> dom (rel_map pm)" by (auto elim!: inv_managerE)
  with step_fork assms show ?thesis using add_ok [OF assms(2) step_fork(2,3), of p task] by (metis Inr_inject insertCI)
next
  case step_suspend
  then obtain i where "current pm = Some i" by (auto simp: pm_make_current_suspend_def res_eq_simps)
  with step_suspend suspend_ok [OF assms(2)] assms(3) show ?thesis by (metis Inr_inject)
next
  case (step_exit code)
  then obtain i where i: "current pm = Some i"
    by (auto simp: pm_make_current_exited_def res_eq_simps)
  with step_exit have "i \<noteq> 0" by simp
  obtain pm1 where "pm_make_current_exited M code pm = Inr pm1" "inv pm1"
    "rel_map pm1 = rel_after_exit i code (rel_map pm)"
    by (rule exit_ok [OF assms(2) i \<open>i \<noteq> 0\<close> assms(3), of code])
  with step_exit(2) \<open>i \<noteq> 0\<close> assms(3) show ?thesis by (simp add: dom_rel_after_exit del: domIff)
next
  case (step_wait c ans)
  then obtain i where "current pm = Some i" by (auto simp: pm_wait_def res_eq_simps)
  with step_wait wait_ok [OF assms(2), of i c] assms(3) show ?thesis by (metis Inr_inject prod.inject)
qed

lemma reach_inv:
  assumes "pm_reach M S mg pm" "items mg = Map.empty" "queue mg = []"
  shows "inv pm \<and> 0 \<in> dom (rel_map pm)"
  using assms(1)
proof (induction rule: pm_reach.induct)
  case (reach_init task pm)
  have "inv (pm_set_manager mg pm_new)"
    using assms(2,3) by (simp add: pm_inv_def pm_set_manager_def pm_new_def tree_inv_def)
  then obtain pm1 where "pm_add M S 0 task usize_MAX (pm_set_manager mg pm_new) = Inr pm1"
    "inv pm1" "dom (rel_map pm1) = insert 0 (dom (rel_map (pm_set_manager mg pm_new)))"
    by (rule add_ok [where i = 0 and parent = usize_MAX and t = task])
       (simp_all add: pm_set_manager_def pm_new_def)
  with reach_init show ?case by simp
next
  case (reach_step pm pm')
  then show ?case using step_inv by blast
qed

end

section \<open>Properties\<close>

lemma process_zero_exit:
  assumes "pm_inv tasks ready_queue pm" "current pm = Some 0" "rel_map pm 0 = Some r0"
  shows "if rel_children r0 = [] then \<exists>pm'. pm_make_current_exited proc_manage code pm = Inr pm'
    else pm_make_current_exited proc_manage code pm = Inl Unwrap_None"
proof -
  from assms(1) obtain mg where mg: "manager pm = Some mg" "tree_inv (rel_map pm)"
    by (auto elim: pml.inv_managerE)
  note tr = tree_invD [OF mg(2) assms(3)]
  have up: "rel_parent r0 = usize_MAX" "rel_map pm usize_MAX = None"
    using mg(2) assms(3) by (auto simp: tree_inv_def)
  show ?thesis
  proof (cases "rel_children r0")
    case Nil
    with up assms(2,3) mg(1) show ?thesis by (simp add: pm_make_current_exited_def Let_def split: option.split)
  next
    case (Cons c cs)
    with tr(2) [of c] obtain rc where rc: "rel_map pm c = Some rc" "rel_parent rc = 0" by auto
    then have "c \<noteq> 0" using tr(4) assms(3) by auto
    with up Cons rc assms(2,3) mg(1) show ?thesis by (simp add: pm_make_current_exited_def adopt_child_def Let_def)
  qed
qed

text \<open>
  C12. In every state that the main loops of chapters 5 to 7 can reach while process 0 has not exited, the parent and child lists
  form one consistent forest, the ready queue holds living processes without repetition and never
  the running one, picking the next process returns, and the running process can fork, wait, be put back and
  exit, with one exception: the exit of process 0 while it has children panics.
\<close>

theorem process_manager_safe:
  assumes "pm_reach proc_manage proc_schedule proc_manager_new pm"
  shows "pm_inv tasks ready_queue pm
    \<and> (current pm = None \<longrightarrow> (\<exists>t pm'. pm_find_next proc_manage proc_schedule pm = Inr (t, pm')))
    \<and> (\<forall>p. current pm = Some p \<longrightarrow>
          (\<exists>pm'. pm_make_current_suspend proc_schedule pm = Inr pm')
        \<and> (\<forall>c. \<exists>ans pm'. pm_wait c pm = Inr (ans, pm'))
        \<and> (\<forall>i task. \<exists>pm'. pm_add proc_manage proc_schedule i task p pm = Inr pm')
        \<and> (\<forall>code. if p = 0 \<and> rel_children (the (rel_map pm 0)) \<noteq> []
             then pm_make_current_exited proc_manage code pm = Inl Unwrap_None
             else \<exists>pm'. pm_make_current_exited proc_manage code pm = Inr pm'))"
proof -
  have inv: "pm_inv tasks ready_queue pm" and zero: "0 \<in> dom (rel_map pm)"
    using pml.reach_inv [OF assms] by (simp_all add: proc_manager_new_def)
  then obtain mg where mg: "manager pm = Some mg" by (auto elim: pml.inv_managerE)
  from zero obtain r0 where r0: "rel_map pm 0 = Some r0" by blast
  show ?thesis
  proof (intro conjI allI impI)
    assume "current pm = None"
    then show "\<exists>t pm'. pm_find_next proc_manage proc_schedule pm = Inr (t, pm')"
      by (rule pml.find_next_ok [OF inv]) blast+
  next
    fix p code assume p: "current pm = Some p"
    show "if p = 0 \<and> rel_children (the (rel_map pm 0)) \<noteq> []
       then pm_make_current_exited proc_manage code pm = Inl Unwrap_None
       else \<exists>pm'. pm_make_current_exited proc_manage code pm = Inr pm'"
    proof (cases "p = 0")
      case True
      with process_zero_exit [OF inv _ r0, of code] p r0 show ?thesis by (auto split: if_splits)
    next
      case False
      obtain pm' where "pm_make_current_exited proc_manage code pm = Inr pm'"
        by (rule pml.exit_ok [OF inv p False zero, where code = code])
      with False show ?thesis by simp
    qed
  next
    fix p c assume "current pm = Some p"
    then show "\<exists>ans pm'. pm_wait c pm = Inr (ans, pm')" by (rule pml.wait_ok [OF inv]) blast
  next
    fix p assume "current pm = Some p"
    then show "\<exists>pm'. pm_make_current_suspend proc_schedule pm = Inr pm'"
      by (rule pml.suspend_ok [OF inv]) blast
  qed (simp_all add: inv pm_add_def mg Let_def)
qed

text \<open>Process 0 has started process 1 and still runs.\<close>

theorem process_manager_safe_witness:
  "\<exists>pm pm'. pm_reach proc_manage proc_schedule proc_manager_new pm \<and> current pm = Some 0
     \<and> rel_children (the (rel_map pm 0)) = [1] \<and> tasks (the (manager pm)) 1 = Some (8 :: nat)
     \<and> pm_make_current_suspend proc_schedule pm = Inr pm'
     \<and> pm_make_current_exited proc_manage 0 pm = Inl Unwrap_None"
proof -
  let ?M = "proc_manage :: (proc_id, nat, nat proc_manager) manage_ops" and ?S = proc_schedule
  let ?r = "\<lambda>cs. \<lparr>rel_parent = usize_MAX, rel_children = cs, rel_dead_children = []\<rparr>"
  let ?pm = "\<lambda>rel tk q c. \<lparr>rel_map = rel, manager = Some \<lparr>tasks = tk, ready_queue = q\<rparr>, current = c\<rparr>"
  note defs = pm_add_def pm_find_next_def proc_manage_def proc_schedule_def proc_manager_new_def pm_set_manager_def pm_new_def
    proc_rel_new_def add_child_def push_back_def usize_MAX_def Let_def
  have "pm_reach ?M ?S proc_manager_new (?pm [0 \<mapsto> ?r []] [0 \<mapsto> 7] [0] None)"
    by (rule reach_init [where task = 7]) (simp add: defs)
  then have "pm_reach ?M ?S proc_manager_new (?pm [0 \<mapsto> ?r []] [0 \<mapsto> 7] [] (Some 0))"
    by (rule reach_step) (rule step_next [where t = "Some 7"], simp_all add: defs)
  then have "pm_reach ?M ?S proc_manager_new
      (?pm [0 \<mapsto> ?r [1], 1 \<mapsto> \<lparr>rel_parent = 0, rel_children = [], rel_dead_children = []\<rparr>] [0 \<mapsto> 7, 1 \<mapsto> 8] [1] (Some 0))"
    by (rule reach_step) (rule step_fork [where p = 0 and i = 1 and task = 8], simp_all add: defs)
  then obtain pm where r: "pm_reach ?M ?S proc_manager_new pm"
    and pm: "current pm = Some 0" "rel_children (the (rel_map pm 0)) = [1]" "tasks (the (manager pm)) 1 = Some 8" by fastforce
  from process_manager_safe [OF r] pm obtain pm' where
    "pm_make_current_suspend proc_schedule pm = Inr pm'" "pm_make_current_exited proc_manage 0 pm = Inl Unwrap_None" by auto
  with r pm show ?thesis by blast
qed

text \<open>
  C25. When a process \<open>i\<close> other than 0 exits, it leaves the table and the manager, \<open>(i, code)\<close> becomes
  the youngest entry of its parent's list of dead children, \<open>i\<close> is no longer a living child of the
  parent, and each of its children is handed to process 0, in order, with its parent field updated;
  nothing else of the relations changes.
\<close>

theorem exit_reparents_children:
  assumes "pm_inv tasks ready_queue pm" "current pm = Some i" "i \<noteq> 0" "0 \<in> dom (rel_map pm)"
    and ri: "rel_map pm i = Some ri" and rp: "rel_map pm (rel_parent ri) = Some rp"
  shows "\<exists>pm' rp'. pm_make_current_exited proc_manage code pm = Inr pm'
    \<and> current pm' = None \<and> pm_inv tasks ready_queue pm' \<and> rel_map pm' i = None
    \<and> pm_get_task proc_manage i pm' = Inr None
    \<and> rel_map pm' (rel_parent ri) = Some rp'
    \<and> rel_dead_children rp' = rel_dead_children rp @ [(i, code)]
    \<and> i \<notin> set (rel_children rp')
    \<and> (\<forall>c \<in> set (rel_children ri). \<exists>rc. rel_map pm' c = Some rc \<and> rel_parent rc = 0)
    \<and> (\<exists>r0 rest. rel_map pm' 0 = Some r0 \<and> rel_children r0 = rest @ rel_children ri)
    \<and> (\<forall>p r. p \<noteq> i \<longrightarrow> p \<noteq> rel_parent ri \<longrightarrow> p \<noteq> 0 \<longrightarrow> rel_parent r \<noteq> i \<longrightarrow> rel_map pm p = Some r
          \<longrightarrow> rel_map pm' p = Some r)"
proof -
  have inv: "tree_inv (rel_map pm)" using assms(1) by (simp add: pm_inv_def)
  note tr = tree_invD [OF inv ri] and tp = tree_invD [OF inv rp]
  obtain pm' where pm': "pm_make_current_exited proc_manage code pm = Inr pm'"
    "pm_inv tasks ready_queue pm'" "rel_map pm' = rel_after_exit i code (rel_map pm)"
    "current pm' = None" "tasks (the (manager pm')) = (tasks (the (manager pm)))(i := None)"
    by (rule pml.exit_ok [OF assms(1-4)])
  then obtain mg where mg: "manager pm' = Some mg" by (auto elim: pml.inv_managerE)
  have i_child: "i \<in> set (rel_children rp)" using tp(2) [of i] ri by simp
  then obtain rp' where rp': "rel_after_exit i code (rel_map pm) (rel_parent ri) = Some rp'"
    "rel_dead_children rp' = rel_dead_children rp @ [(i, code)]"
    using ri rp tr(4) del_child_eq [OF tp(1)] by (simp add: rel_after_exit_def Let_def)
  have "i \<notin> set (rel_children rp')"
    using rel_after_exit_Some [OF inv ri rp'(1)] tp(1) rp tr(2) [of i] tr(4) ri by auto
  moreover have "\<exists>rc. rel_map pm' c = Some rc \<and> rel_parent rc = 0" if "c \<in> set (rel_children ri)" for c
  proof -
    from that tr(2) [of c] tr(4) ri have "c \<in> dom (rel_after_exit i code (rel_map pm))"
      by (auto simp: dom_rel_after_exit)
    then obtain rc where "rel_after_exit i code (rel_map pm) c = Some rc" by blast
    with rel_after_exit_Some [OF inv ri this] that show ?thesis by (auto simp: pm'(3))
  qed
  moreover have "\<exists>r0 rest. rel_map pm' 0 = Some r0 \<and> rel_children r0 = rest @ rel_children ri"
  proof -
    from assms(3,4) have "0 \<in> dom (rel_after_exit i code (rel_map pm))"
      by (auto simp: dom_rel_after_exit)
    then obtain r0 where "rel_after_exit i code (rel_map pm) 0 = Some r0" by blast
    with rel_after_exit_Some [OF inv ri this] show ?thesis by (auto simp: pm'(3))
  qed
  moreover have "rel_map pm' p = Some r" if "p \<noteq> i" "p \<noteq> rel_parent ri" "p \<noteq> 0"
    "rel_parent r \<noteq> i" "rel_map pm p = Some r" for p r
    using that ri tr(2) [of p] by (simp add: pm'(3) rel_after_exit_def Let_def)
  moreover have "pm_get_task proc_manage i pm' = Inr None" and "rel_map pm' i = None"
    using pm'(3,5) mg by (simp_all add: pm_get_task_def pmg.get_mut rel_after_exit_def)
  moreover have "rel_map pm' (rel_parent ri) = Some rp'" using rp'(1) pm'(3) by simp
  ultimately show ?thesis
    using pm'(1,2,4) rp'(2)
    by - (rule exI [of _ pm'], rule exI [of _ rp'], (intro conjI; blast))
qed

text \<open>A small family tree: 0 is the parent of 1, which runs, and 1 the parent of 2.\<close>

definition demo_pm :: "nat proc_manager pmanager" where
  "demo_pm = \<lparr>
     rel_map = [0 \<mapsto> \<lparr>rel_parent = usize_MAX, rel_children = [1], rel_dead_children = []\<rparr>,
                1 \<mapsto> \<lparr>rel_parent = 0, rel_children = [2], rel_dead_children = []\<rparr>,
                2 \<mapsto> \<lparr>rel_parent = 1, rel_children = [], rel_dead_children = []\<rparr>],
     manager = Some \<lparr>tasks = [0 \<mapsto> 10, 1 \<mapsto> 11, 2 \<mapsto> 12], ready_queue = [0, 2]\<rparr>,
     current = Some 1\<rparr>"

lemma demo_pm_inv: "pm_inv tasks ready_queue demo_pm"
  by (auto simp: demo_pm_def pm_inv_def tree_inv_def usize_MAX_def split: if_splits)

theorem exit_reparents_children_witness:
  "\<exists>pm' r. pm_make_current_exited proc_manage 5 demo_pm = Inr pm' \<and> rel_map pm' 1 = None
     \<and> rel_map pm' 0 = Some r \<and> rel_dead_children r = [(1, 5)]"
  using exit_reparents_children
    [OF demo_pm_inv, where i = 1 and code = 5
       and ri = "\<lparr>rel_parent = 0, rel_children = [2], rel_dead_children = []\<rparr>"
       and rp = "\<lparr>rel_parent = usize_MAX, rel_children = [1], rel_dead_children = []\<rparr>"]
  by (auto simp: demo_pm_def)

text \<open>
  A child is reaped exactly once: after child \<open>i\<close> of the running parent has exited with \<open>code\<close>,
  the parent's \<^verbatim>\<open>wait\<close> for it returns \<open>(i, code)\<close>, and a second \<^verbatim>\<open>wait\<close> returns \<^verbatim>\<open>None\<close>; while it still
  lives, \<^verbatim>\<open>wait\<close> answers the pair (-2, -1) and changes nothing.
\<close>

theorem wait_reaps_once:
  assumes "pm_inv tasks ready_queue pm" "current pm = Some p" "rel_map pm p = Some rp"
    and "i \<in> set (rel_children rp)" "i \<notin> fst ` set (rel_dead_children rp)" "i \<noteq> usize_MAX"
  shows "pm_wait i pm = Inr (Some still_running, pm)
    \<and> (\<exists>pm1. pm_wait i (pm\<lparr>rel_map := (rel_map pm)(p \<mapsto> del_child i code rp)\<rparr>) = Inr (Some (i, code), pm1)
          \<and> pm_wait i pm1 = Inr (None, pm1))"
proof -
  have d: "distinct (rel_children rp)" using assms(1,3) by (auto simp: pm_inv_def tree_inv_def)
  have alive: "find_index (\<lambda>d. fst d = i) (rel_dead_children rp) = None"
    using assms(5) by (force simp: find_index_None)
  obtain k where "find_index (\<lambda>j. j = i) (rel_children rp) = Some k"
    using find_index_mem [OF assms(4), of "\<lambda>j. j = i"] by auto
  with alive assms(2,3,6) have "pm_wait i pm = Inr (Some still_running, pm)"
    by (simp add: pm_wait_def wait_child_def map_upd_triv)
  moreover have dead: "find_index (\<lambda>d. fst d = i) (rel_dead_children rp @ [(i, code)])
      = Some (length (rel_dead_children rp))"
    using find_index_append_None [OF alive, of "[(i, code)]"] by simp
  have gone: "find_index (\<lambda>j. j = i) (remove1 i (rel_children rp)) = None"
    using d by (auto simp: find_index_None)
  have "pm_wait i (pm\<lparr>rel_map := (rel_map pm)(p \<mapsto> del_child i code rp)\<rparr>) = Inr (Some (i, code),
      pm\<lparr>rel_map := (rel_map pm)(p \<mapsto> rp\<lparr>rel_children := remove1 i (rel_children rp)\<rparr>)\<rparr>)"
    using assms(2,6) dead
    by (simp add: pm_wait_def wait_child_def del_child_eq [OF d assms(4)] remove_at_def)
  ultimately show ?thesis
    using assms(2,6) gone alive by (auto simp: pm_wait_def wait_child_def map_upd_triv)
qed

theorem wait_reaps_once_witness:
  "pm_wait 2 demo_pm = Inr (Some still_running, demo_pm)"
  using wait_reaps_once [OF demo_pm_inv, of 1
      "\<lparr>rel_parent = 0, rel_children = [2], rel_dead_children = []\<rparr>" 2 0]
  by (simp add: demo_pm_def usize_MAX_def)

text \<open>
  Process 0 must not exit while it has children: its own entry is removed before its children
  are handed to process 0, so the lookup of the new parent panics.
\<close>

theorem exit_of_process_zero_panics:
  assumes "pm_inv tasks ready_queue pm" "current pm = Some 0" "rel_map pm 0 = Some r0"
    and "rel_children r0 \<noteq> []"
  shows "pm_make_current_exited proc_manage code pm = Inl Unwrap_None"
  using process_zero_exit [OF assms(1-3), of code] assms(4) by simp

theorem exit_of_process_zero_panics_witness:
  "pm_make_current_exited proc_manage 0 (demo_pm\<lparr>current := Some 0,
      manager := Some \<lparr>tasks = [0 \<mapsto> 10, 1 \<mapsto> 11, 2 \<mapsto> 12], ready_queue = [1, 2]\<rparr>\<rparr>) = Inl Unwrap_None"
  by (rule exit_of_process_zero_panics
        [where ?r0.0 = "\<lparr>rel_parent = usize_MAX, rel_children = [1], rel_dead_children = []\<rparr>"])
     (auto simp: demo_pm_def pm_inv_def tree_inv_def usize_MAX_def split: if_splits)

section \<open>Round robin\<close>

text \<open>\<open>n\<close> turns of the loop in which the picked process always yields; the tasks that ran, in order.\<close>

fun yield_rounds :: "nat \<Rightarrow> 'p proc_manager pmanager \<Rightarrow> ('p option list \<times> 'p proc_manager pmanager) res" where
  "yield_rounds 0 pm = Inr ([], pm)"
| "yield_rounds (Suc n) pm =
     rbind (pm_find_next proc_manage proc_schedule pm) (\<lambda>(t, pm1).
     rbind (pm_make_current_suspend proc_schedule pm1) (\<lambda>pm2.
     rbind (yield_rounds n pm2) (\<lambda>(ts, pm3). Inr (t # ts, pm3))))"

text \<open>
  The schedule is a round robin: if every picked process yields, the \<open>k\<close>-th turn runs the process
  at position \<open>k mod |q|\<close> of the ready queue \<open>q\<close>, and after \<open>n\<close> turns the queue is \<open>q\<close> rotated \<open>n\<close>
  times; so every ready process runs once in every \<open>|q|\<close> turns.
\<close>

theorem yield_is_round_robin:
  assumes "pm_inv tasks ready_queue pm" "current pm = None" "manager pm = Some mg"
    and "ready_queue mg \<noteq> []"
  shows "\<exists>pm' mg'. yield_rounds n pm =
      Inr (map (\<lambda>k. tasks mg (ready_queue mg ! (k mod length (ready_queue mg)))) [0..<n], pm')
    \<and> manager pm' = Some mg' \<and> ready_queue mg' = rotate n (ready_queue mg) \<and> tasks mg' = tasks mg"
  using assms
proof (induction n arbitrary: pm mg)
  case (Suc n)
  from Suc.prems(1,2) obtain i q t pm1 where
    n: "pm_find_next proc_manage proc_schedule pm = Inr (Some t, pm1)" "pm_inv tasks ready_queue pm1"
      "ready_queue mg = i # q" "ready_queue (the (manager pm1)) = q" "current pm1 = Some i"
      "tasks mg i = Some t" "tasks (the (manager pm1)) = tasks mg"
    by (rule pml.find_next_ok) (use Suc.prems in auto)
  from n(2,5) obtain pm2 where
    s: "pm_make_current_suspend proc_schedule pm1 = Inr pm2" "pm_inv tasks ready_queue pm2"
      "ready_queue (the (manager pm2)) = q @ [i]" "current pm2 = None"
      "tasks (the (manager pm2)) = tasks mg"
    by (rule pml.suspend_ok) (use n in auto)
  from s(2) obtain mg2 where mg2: "manager pm2 = Some mg2" by (auto elim: pml.inv_managerE)
  let ?L = "length (ready_queue mg)"
  have nth: "(q @ [i]) ! (k mod ?L) = (i # q) ! (Suc k mod ?L)" for k
  proof -
    have "k mod Suc (length q) < Suc (length q)" by simp
    then have "k mod Suc (length q) = length q \<or> k mod Suc (length q) < length q" by linarith
    then show ?thesis by (auto simp: n(3) nth_append mod_Suc)
  qed
  from Suc.IH [OF s(2,4) mg2] s(3,5) mg2 obtain pm3 mg3 where
    "yield_rounds n pm2 = Inr (map (\<lambda>k. tasks mg ((q @ [i]) ! (k mod ?L))) [0..<n], pm3)"
    "manager pm3 = Some mg3" "ready_queue mg3 = rotate n (q @ [i])" "tasks mg3 = tasks mg"
    by (auto simp: n(3))
  moreover have "map (\<lambda>k. tasks mg (ready_queue mg ! (k mod ?L))) [0..<Suc n]
      = Some t # map (\<lambda>k. tasks mg (ready_queue mg ! (Suc k mod ?L))) [0..<n]"
    using n(3,6) by (simp add: map_upt_Suc del: upt_Suc)
  moreover have "rotate n (q @ [i]) = rotate (Suc n) (ready_queue mg)"
    by (simp add: n(3) rotate_Suc rotate1_rotate_swap)
  ultimately show ?case using n(1,3) s(1) by (simp add: nth [unfolded n(3), simplified])
qed simp

theorem yield_is_round_robin_witness:
  "\<exists>pm'. yield_rounds 3 (demo_pm\<lparr>current := None\<rparr>) = Inr ([Some 10, Some 12, Some 10], pm')"
proof -
  have "pm_inv tasks ready_queue (demo_pm\<lparr>current := None\<rparr>)"
    using demo_pm_inv by (auto simp: pm_inv_def demo_pm_def)
  moreover let ?mg = "the (manager demo_pm)"
  have "current (demo_pm\<lparr>current := None\<rparr>) = None"
    "manager (demo_pm\<lparr>current := None\<rparr>) = Some ?mg" "ready_queue ?mg \<noteq> []"
    by (simp_all add: demo_pm_def)
  ultimately obtain pm' where "yield_rounds 3 (demo_pm\<lparr>current := None\<rparr>) =
      Inr (map (\<lambda>k. tasks ?mg (ready_queue ?mg ! (k mod length (ready_queue ?mg)))) [0..<3], pm')"
    using yield_is_round_robin by blast
  moreover have "map (\<lambda>k. tasks ?mg (ready_queue ?mg ! (k mod length (ready_queue ?mg)))) [0..<3]
      = [Some 10, Some 12, Some 10]"
    by (simp add: demo_pm_def upt_conv_Cons)
  ultimately show ?thesis by simp
qed

text \<open>
  Waiting for any child takes the child that died last: the list of dead children is used as a
  stack, so a child that died earlier is reaped after all that died after it.
\<close>

theorem wait_any_is_lifo:
  assumes "rel_dead_children r = ds @ [d]" "current pm = Some p" "rel_map pm p = Some r"
  shows "pm_wait usize_MAX pm =
    Inr (Some d, pm\<lparr>rel_map := (rel_map pm)(p \<mapsto> r\<lparr>rel_dead_children := ds\<rparr>)\<rparr>)"
  using assms by (simp add: pm_wait_def wait_any_child_def pop_back_def)

theorem wait_any_is_lifo_witness:
  "\<exists>pm'. pm_wait usize_MAX (demo_pm\<lparr>rel_map := (rel_map demo_pm)(1 \<mapsto>
       \<lparr>rel_parent = 0, rel_children = [2], rel_dead_children = [(3, 0), (4, 9)]\<rparr>)\<rparr>)
     = Inr (Some (4, 9), pm')"
  by (rule exI, rule wait_any_is_lifo [where ds = "[(3, 0)]" and p = 1]) (auto simp: demo_pm_def)

end
