(* ===== verification/Task_Thread.thy ===== *)
theory Task_Thread
  imports Task_Proc
begin

text \<open>
  Threads and processes of chapter 8: \<^verbatim>\<open>task-manage/src/proc_thread_rel.rs\<close>,
  \<^verbatim>\<open>task-manage/src/thread_manager.rs\<close> and the two managers of \<^verbatim>\<open>ch8/src/processor.rs\<close>. The process
  part of the relations is a second copy of \<^verbatim>\<open>ProcRel\<close>; the projection \<open>rel_of\<close> makes that a refinement
  and carries the forest invariant of the process manager over.
\<close>

section \<open>Relations between processes and threads\<close>

record proc_thread_rel =
  pt_parent :: proc_id
  pt_children :: "proc_id list"
  pt_dead_children :: "(proc_id \<times> isize) list"
  pt_threads :: "thread_id list"
  pt_dead_threads :: "(thread_id \<times> isize) list"

definition proc_thread_rel_new :: "proc_id \<Rightarrow> proc_thread_rel" where
  "proc_thread_rel_new parent_pid =
     \<lparr>pt_parent = parent_pid, pt_children = [], pt_dead_children = [], pt_threads = [],
      pt_dead_threads = []\<rparr>"

definition pt_add_child :: "proc_id \<Rightarrow> proc_thread_rel \<Rightarrow> proc_thread_rel" where
  "pt_add_child child_pid r = r\<lparr>pt_children := pt_children r @ [child_pid]\<rparr>"

definition pt_del_child :: "proc_id \<Rightarrow> isize \<Rightarrow> proc_thread_rel \<Rightarrow> proc_thread_rel" where
  "pt_del_child child_pid exit_code r =
     (case find_index (\<lambda>i. i = child_pid) (pt_children r) of
        Some idx \<Rightarrow>
          r\<lparr>pt_children := remove_at idx (pt_children r),
            pt_dead_children := pt_dead_children r @ [(pt_children r ! idx, exit_code)]\<rparr>
      | None \<Rightarrow> r)"

definition pt_wait_any_child :: "proc_thread_rel \<Rightarrow> (proc_id \<times> isize) option \<times> proc_thread_rel" where
  "pt_wait_any_child r =
     (if pt_dead_children r = [] then
        (if pt_children r = [] then (None, r) else (Some still_running, r))
      else let (d, ds) = pop_back (pt_dead_children r) in (d, r\<lparr>pt_dead_children := ds\<rparr>))"

definition pt_wait_child ::
    "proc_id \<Rightarrow> proc_thread_rel \<Rightarrow> (proc_id \<times> isize) option \<times> proc_thread_rel" where
  "pt_wait_child child_pid r =
     (case find_index (\<lambda>d. fst d = child_pid) (pt_dead_children r) of
        Some idx \<Rightarrow>
          (Some (pt_dead_children r ! idx),
           r\<lparr>pt_dead_children := remove_at idx (pt_dead_children r)\<rparr>)
      | None \<Rightarrow>
          (case find_index (\<lambda>i. i = child_pid) (pt_children r) of
             Some _ \<Rightarrow> (Some still_running, r)
           | None \<Rightarrow> (None, r)))"

definition add_thread :: "thread_id \<Rightarrow> proc_thread_rel \<Rightarrow> proc_thread_rel" where
  "add_thread tid r = r\<lparr>pt_threads := pt_threads r @ [tid]\<rparr>"

definition del_thread :: "thread_id \<Rightarrow> isize \<Rightarrow> proc_thread_rel \<Rightarrow> proc_thread_rel" where
  "del_thread tid exit_code r =
     (case find_index (\<lambda>i. i = tid) (pt_threads r) of
        Some idx \<Rightarrow>
          r\<lparr>pt_threads := remove_at idx (pt_threads r),
            pt_dead_threads := pt_dead_threads r @ [(pt_threads r ! idx, exit_code)]\<rparr>
      | None \<Rightarrow> r)"

definition wait_thread :: "thread_id \<Rightarrow> proc_thread_rel \<Rightarrow> isize option \<times> proc_thread_rel" where
  "wait_thread thread_tid r =
     (case find_index (\<lambda>d. fst d = thread_tid) (pt_dead_threads r) of
        Some idx \<Rightarrow>
          (Some (snd (pt_dead_threads r ! idx)),
           r\<lparr>pt_dead_threads := remove_at idx (pt_dead_threads r)\<rparr>)
      | None \<Rightarrow>
          (case find_index (\<lambda>i. i = thread_tid) (pt_threads r) of
             Some _ \<Rightarrow> (Some (- 2), r)
           | None \<Rightarrow> (None, r)))"

section \<open>The manager of processes and threads\<close>

record ('mt, 'mp) pthread_manager =
  pt_rel_map :: "proc_id \<rightharpoonup> proc_thread_rel"
  pt_proc_manager :: "'mp option"
  tid2pid :: "thread_id \<rightharpoonup> proc_id"
  pt_manager :: "'mt option"
  pt_current :: "thread_id option"

definition ptm_new :: "('mt, 'mp) pthread_manager" where
  "ptm_new = \<lparr>pt_rel_map = Map.empty, pt_proc_manager = None, tid2pid = Map.empty,
     pt_manager = None, pt_current = None\<rparr>"

definition ptm_find_next ::
    "(thread_id, 't, 'mt) manage_ops \<Rightarrow> (thread_id, 'mt) schedule_ops \<Rightarrow>
     ('mt, 'mp) pthread_manager \<Rightarrow> ('t option \<times> ('mt, 'mp) pthread_manager) res" where
  "ptm_find_next MT S pm =
     rbind (unwrap (pt_manager pm)) (\<lambda>mg.
       case s_fetch S mg of
         (Some i, mg1) \<Rightarrow>
           (case m_get_mut MT i mg1 of
              Some task \<Rightarrow> Inr (Some task, pm\<lparr>pt_manager := Some mg1, pt_current := Some i\<rparr>)
            | None \<Rightarrow> Inr (None, pm\<lparr>pt_manager := Some mg1\<rparr>))
       | (None, mg1) \<Rightarrow> Inr (None, pm\<lparr>pt_manager := Some mg1\<rparr>))"

definition ptm_set_manager :: "'mt \<Rightarrow> ('mt, 'mp) pthread_manager \<Rightarrow> ('mt, 'mp) pthread_manager" where
  "ptm_set_manager mg pm = pm\<lparr>pt_manager := Some mg\<rparr>"

definition ptm_set_proc_manager ::
    "'mp \<Rightarrow> ('mt, 'mp) pthread_manager \<Rightarrow> ('mt, 'mp) pthread_manager" where
  "ptm_set_proc_manager pg pm = pm\<lparr>pt_proc_manager := Some pg\<rparr>"

definition ptm_make_current_suspend ::
    "(thread_id, 'mt) schedule_ops \<Rightarrow> ('mt, 'mp) pthread_manager \<Rightarrow>
     ('mt, 'mp) pthread_manager res" where
  "ptm_make_current_suspend S pm =
     (case pt_current pm of
        Some i \<Rightarrow> rbind (unwrap (pt_manager pm)) (\<lambda>mg.
          Inr (pm\<lparr>pt_manager := Some (s_add S i mg), pt_current := None\<rparr>))
      | None \<Rightarrow> Inr pm)"

definition pt_adopt_child ::
    "proc_id \<Rightarrow> (proc_id \<rightharpoonup> proc_thread_rel) \<Rightarrow> (proc_id \<rightharpoonup> proc_thread_rel) res" where
  "pt_adopt_child i rel =
     rbind (unwrap (rel i)) (\<lambda>ri.
       let rel1 = rel(i \<mapsto> ri\<lparr>pt_parent := 0\<rparr>)
       in rbind (unwrap (rel1 0)) (\<lambda>r0. Inr (rel1(0 \<mapsto> pt_add_child i r0))))"

definition ptm_del_proc ::
    "(proc_id, 'p, 'mp) manage_ops \<Rightarrow> proc_id \<Rightarrow> isize \<Rightarrow> ('mt, 'mp) pthread_manager \<Rightarrow>
     ('mt, 'mp) pthread_manager res" where
  "ptm_del_proc MP i exit_code pm =
     rbind (unwrap (pt_proc_manager pm)) (\<lambda>pg.
     let pg1 = m_delete MP i pg in
     rbind (unwrap (pt_rel_map pm i)) (\<lambda>current_rel.
     let rel1 = (pt_rel_map pm)(i := None);
         parent_pid = pt_parent current_rel;
         children = pt_children current_rel;
         rel2 = (case rel1 parent_pid of
                   Some parent_rel \<Rightarrow> rel1(parent_pid \<mapsto> pt_del_child i exit_code parent_rel)
                 | None \<Rightarrow> rel1)
     in rbind (rfold pt_adopt_child children rel2) (\<lambda>rel3.
          Inr (pm\<lparr>pt_rel_map := rel3, pt_proc_manager := Some pg1\<rparr>))))"

definition ptm_make_current_exited ::
    "(thread_id, 't, 'mt) manage_ops \<Rightarrow> (proc_id, 'p, 'mp) manage_ops \<Rightarrow> isize \<Rightarrow>
     ('mt, 'mp) pthread_manager \<Rightarrow> ('mt, 'mp) pthread_manager res" where
  "ptm_make_current_exited MT MP exit_code pm =
     (case pt_current pm of
        Some i \<Rightarrow>
          rbind (unwrap (pt_manager pm)) (\<lambda>mg.
          rbind (unwrap (tid2pid pm i)) (\<lambda>pid.
          let pm1 = pm\<lparr>pt_manager := Some (m_delete MT i mg), tid2pid := (tid2pid pm)(i := None)\<rparr>;
              (pm2, flag) =
                (case pt_rel_map pm1 pid of
                   Some current_rel \<Rightarrow>
                     (let r1 = del_thread i exit_code current_rel
                      in (pm1\<lparr>pt_rel_map := (pt_rel_map pm1)(pid \<mapsto> r1)\<rparr>, pt_threads r1 = []))
                 | None \<Rightarrow> (pm1, False))
          in rbind (if flag then ptm_del_proc MP pid exit_code pm2 else Inr pm2) (\<lambda>pm3.
               Inr (pm3\<lparr>pt_current := None\<rparr>))))
      | None \<Rightarrow> Inr pm)"

definition ptm_make_current_blocked :: "('mt, 'mp) pthread_manager \<Rightarrow> ('mt, 'mp) pthread_manager" where
  "ptm_make_current_blocked pm =
     (case pt_current pm of Some _ \<Rightarrow> pm\<lparr>pt_current := None\<rparr> | None \<Rightarrow> pm)"

definition ptm_re_enque ::
    "(thread_id, 'mt) schedule_ops \<Rightarrow> thread_id \<Rightarrow> ('mt, 'mp) pthread_manager \<Rightarrow>
     ('mt, 'mp) pthread_manager res" where
  "ptm_re_enque S i pm =
     rbind (unwrap (pt_manager pm)) (\<lambda>mg. Inr (pm\<lparr>pt_manager := Some (s_add S i mg)\<rparr>))"

definition ptm_add ::
    "(thread_id, 't, 'mt) manage_ops \<Rightarrow> (thread_id, 'mt) schedule_ops \<Rightarrow> thread_id \<Rightarrow> 't \<Rightarrow> proc_id \<Rightarrow>
     ('mt, 'mp) pthread_manager \<Rightarrow> ('mt, 'mp) pthread_manager res" where
  "ptm_add MT S i task pid pm =
     rbind (unwrap (pt_manager pm)) (\<lambda>mg.
       let pm1 = pm\<lparr>pt_manager := Some (s_add S i (m_insert MT i task mg))\<rparr>
       in Inr (case pt_rel_map pm1 pid of
            Some parent_rel \<Rightarrow>
              pm1\<lparr>pt_rel_map := (pt_rel_map pm1)(pid \<mapsto> add_thread i parent_rel),
                  tid2pid := (tid2pid pm1)(i \<mapsto> pid)\<rparr>
          | None \<Rightarrow> pm1))"

definition ptm_current ::
    "(thread_id, 't, 'mt) manage_ops \<Rightarrow> ('mt, 'mp) pthread_manager \<Rightarrow> 't option res" where
  "ptm_current MT pm =
     rbind (unwrap (pt_current pm)) (\<lambda>i.
     rbind (unwrap (pt_manager pm)) (\<lambda>mg. Inr (m_get_mut MT i mg)))"

definition ptm_get_task ::
    "(thread_id, 't, 'mt) manage_ops \<Rightarrow> thread_id \<Rightarrow> ('mt, 'mp) pthread_manager \<Rightarrow> 't option res" where
  "ptm_get_task MT i pm = rbind (unwrap (pt_manager pm)) (\<lambda>mg. Inr (m_get_mut MT i mg))"

definition ptm_add_proc ::
    "(proc_id, 'p, 'mp) manage_ops \<Rightarrow> proc_id \<Rightarrow> 'p \<Rightarrow> proc_id \<Rightarrow>
     ('mt, 'mp) pthread_manager \<Rightarrow> ('mt, 'mp) pthread_manager res" where
  "ptm_add_proc MP i proc parent pm =
     rbind (unwrap (pt_proc_manager pm)) (\<lambda>pg.
       let rel1 = (case pt_rel_map pm parent of
                     Some parent_rel \<Rightarrow> (pt_rel_map pm)(parent \<mapsto> pt_add_child i parent_rel)
                   | None \<Rightarrow> pt_rel_map pm)
       in Inr (pm\<lparr>pt_proc_manager := Some (m_insert MP i proc pg),
                  pt_rel_map := rel1(i \<mapsto> proc_thread_rel_new parent)\<rparr>))"

definition ptm_get_proc ::
    "(proc_id, 'p, 'mp) manage_ops \<Rightarrow> proc_id \<Rightarrow> ('mt, 'mp) pthread_manager \<Rightarrow> 'p option res" where
  "ptm_get_proc MP i pm = rbind (unwrap (pt_proc_manager pm)) (\<lambda>pg. Inr (m_get_mut MP i pg))"

definition ptm_wait ::
    "proc_id \<Rightarrow> ('mt, 'mp) pthread_manager \<Rightarrow>
     ((proc_id \<times> isize) option \<times> ('mt, 'mp) pthread_manager) res" where
  "ptm_wait child_pid pm =
     rbind (unwrap (pt_current pm)) (\<lambda>i.
     rbind (unwrap (tid2pid pm i)) (\<lambda>pid.
     rbind (unwrap (pt_rel_map pm pid)) (\<lambda>current_rel.
       let (ans, r) = (if child_pid = usize_MAX then pt_wait_any_child current_rel
                       else pt_wait_child child_pid current_rel)
       in Inr (ans, pm\<lparr>pt_rel_map := (pt_rel_map pm)(pid \<mapsto> r)\<rparr>))))"

definition ptm_waittid ::
    "thread_id \<Rightarrow> ('mt, 'mp) pthread_manager \<Rightarrow> (isize option \<times> ('mt, 'mp) pthread_manager) res" where
  "ptm_waittid thread_tid pm =
     rbind (unwrap (pt_current pm)) (\<lambda>i.
     rbind (unwrap (tid2pid pm i)) (\<lambda>pid.
     rbind (unwrap (pt_rel_map pm pid)) (\<lambda>current_rel.
       let (ans, r) = wait_thread thread_tid current_rel
       in Inr (ans, pm\<lparr>pt_rel_map := (pt_rel_map pm)(pid \<mapsto> r)\<rparr>))))"

definition ptm_thread_count :: "proc_id \<Rightarrow> ('mt, 'mp) pthread_manager \<Rightarrow> nat res" where
  "ptm_thread_count i pm = rbind (unwrap (pt_rel_map pm i)) (\<lambda>r. Inr (length (pt_threads r)))"

definition ptm_get_thread :: "proc_id \<Rightarrow> ('mt, 'mp) pthread_manager \<Rightarrow> thread_id list option" where
  "ptm_get_thread i pm = map_option pt_threads (pt_rel_map pm i)"

definition ptm_get_current_proc ::
    "(proc_id, 'p, 'mp) manage_ops \<Rightarrow> ('mt, 'mp) pthread_manager \<Rightarrow> 'p option res" where
  "ptm_get_current_proc MP pm =
     (case pt_current pm of
        Some i \<Rightarrow>
          rbind (unwrap (tid2pid pm i)) (\<lambda>pid.
          rbind (unwrap (pt_proc_manager pm)) (\<lambda>pg. Inr (m_get_mut MP pid pg)))
      | None \<Rightarrow> Inr None)"

section \<open>The managers of chapter 8\<close>

record 't thread_manager =
  thr_tasks :: "thread_id \<rightharpoonup> 't"
  thr_ready_queue :: "thread_id list"

definition thread_manager_new :: "'t thread_manager" where
  "thread_manager_new = \<lparr>thr_tasks = Map.empty, thr_ready_queue = []\<rparr>"

definition thread_manage :: "(thread_id, 't, 't thread_manager) manage_ops" where
  "thread_manage =
     \<lparr>m_insert = (\<lambda>i task m. m\<lparr>thr_tasks := (thr_tasks m)(i \<mapsto> task)\<rparr>),
      m_delete = (\<lambda>i m. m\<lparr>thr_tasks := (thr_tasks m)(i := None)\<rparr>),
      m_get_mut = (\<lambda>i m. thr_tasks m i),
      m_put = (\<lambda>i task m. if thr_tasks m i = None then m
                          else m\<lparr>thr_tasks := (thr_tasks m)(i \<mapsto> task)\<rparr>)\<rparr>"

definition thread_schedule :: "(thread_id, 't thread_manager) schedule_ops" where
  "thread_schedule =
     \<lparr>s_add = (\<lambda>i m. m\<lparr>thr_ready_queue := push_back i (thr_ready_queue m)\<rparr>),
      s_fetch = (\<lambda>m. let (i, q) = pop_front (thr_ready_queue m) in (i, m\<lparr>thr_ready_queue := q\<rparr>))\<rparr>"

record 'p proc_table =
  procs :: "proc_id \<rightharpoonup> 'p"

definition proc_table_new :: "'p proc_table" where
  "proc_table_new = \<lparr>procs = Map.empty\<rparr>"

definition proc_table_manage :: "(proc_id, 'p, 'p proc_table) manage_ops" where
  "proc_table_manage =
     \<lparr>m_insert = (\<lambda>i item m. m\<lparr>procs := (procs m)(i \<mapsto> item)\<rparr>),
      m_delete = (\<lambda>i m. m\<lparr>procs := (procs m)(i := None)\<rparr>),
      m_get_mut = (\<lambda>i m. procs m i),
      m_put = (\<lambda>i item m. if procs m i = None then m else m\<lparr>procs := (procs m)(i \<mapsto> item)\<rparr>)\<rparr>"

interpretation tmg: task_laws thread_manage thr_tasks thread_schedule thr_ready_queue
  by unfold_locales
     (auto simp: thread_manage_def thread_schedule_def push_back_def fst_pop_front snd_pop_front
        split_def Let_def)

interpretation ptt: manage_laws proc_table_manage procs
  by unfold_locales (auto simp: proc_table_manage_def)

section \<open>The process part refines the process manager\<close>

definition rel_of :: "proc_thread_rel \<Rightarrow> proc_rel" where
  "rel_of r = \<lparr>rel_parent = pt_parent r, rel_children = pt_children r,
     rel_dead_children = pt_dead_children r\<rparr>"

definition rels :: "(proc_id \<rightharpoonup> proc_thread_rel) \<Rightarrow> proc_id \<rightharpoonup> proc_rel" where
  "rels rel = (\<lambda>p. map_option rel_of (rel p))"

definition threads_of :: "proc_thread_rel \<Rightarrow> thread_id list \<times> (thread_id \<times> isize) list" where
  "threads_of r = (pt_threads r, pt_dead_threads r)"

lemma rel_of_simps [simp]:
  "rel_parent (rel_of r) = pt_parent r" "rel_children (rel_of r) = pt_children r"
  "rel_dead_children (rel_of r) = pt_dead_children r"
  "rel_of (proc_thread_rel_new p) = proc_rel_new p"
  "rel_of (pt_add_child c r) = add_child c (rel_of r)"
  "rel_of (pt_del_child c code r) = del_child c code (rel_of r)"
  "rel_of (add_thread t r) = rel_of r" "rel_of (del_thread t code r) = rel_of r"
  "rel_of (r\<lparr>pt_parent := p\<rparr>) = (rel_of r)\<lparr>rel_parent := p\<rparr>"
  by (simp_all add: rel_of_def proc_thread_rel_new_def proc_rel_new_def pt_add_child_def add_child_def
      pt_del_child_def del_child_def add_thread_def del_thread_def split: option.split)

lemma rel_of_wait:
  "fst (pt_wait_child c r) = fst (wait_child c (rel_of r))"
  "rel_of (snd (pt_wait_child c r)) = snd (wait_child c (rel_of r))"
  "fst (pt_wait_any_child r) = fst (wait_any_child (rel_of r))"
  "rel_of (snd (pt_wait_any_child r)) = snd (wait_any_child (rel_of r))"
  by (simp_all add: rel_of_def pt_wait_child_def wait_child_def pt_wait_any_child_def
      wait_any_child_def split_def Let_def split: option.split)

lemma rel_of_wait_thread [simp]: "rel_of (snd (wait_thread t r)) = rel_of r"
  by (simp add: wait_thread_def rel_of_def split: option.split)

lemma threads_simps [simp]:
  "threads_of (pt_add_child c r) = threads_of r" "threads_of (pt_del_child c code r) = threads_of r"
  "threads_of (snd (pt_wait_child c r)) = threads_of r"
  "threads_of (snd (pt_wait_any_child r)) = threads_of r"
  "threads_of (r\<lparr>pt_parent := p\<rparr>) = threads_of r"
  "pt_threads (snd (wait_thread t r)) = pt_threads r"
  by (simp_all add: threads_of_def pt_add_child_def pt_del_child_def pt_wait_child_def
      pt_wait_any_child_def wait_thread_def split_def Let_def split: option.split)

lemma pt_wait_fields [simp]:
  "pt_parent (snd (pt_wait_child c r)) = pt_parent r"
  "pt_children (snd (pt_wait_child c r)) = pt_children r"
  "pt_parent (snd (pt_wait_any_child r)) = pt_parent r"
  "pt_children (snd (pt_wait_any_child r)) = pt_children r"
  "pt_parent (snd (wait_thread t r)) = pt_parent r"
  "pt_children (snd (wait_thread t r)) = pt_children r"
  by (simp_all add: pt_wait_child_def pt_wait_any_child_def wait_thread_def split_def Let_def
      split: option.split)

lemma pt_threads_of: "pt_threads r = fst (threads_of r)"
  by (simp add: threads_of_def)

lemma rels_simps [simp]:
  "rels (rel(p \<mapsto> r)) = (rels rel)(p \<mapsto> rel_of r)" "rels (rel(p := None)) = (rels rel)(p := None)"
  "rels Map.empty = Map.empty" "dom (rels rel) = dom rel"
  by (auto simp: rels_def fun_eq_iff)

lemma rels_Some: "rel p = Some r \<Longrightarrow> rels rel p = Some (rel_of r)"
  by (simp add: rels_def)

lemma pt_adopt_child_refines: "map_sum id rels (pt_adopt_child i rel) = adopt_child i (rels rel)"
  by (cases "rel i"; cases "rel 0")
     (auto simp: pt_adopt_child_def adopt_child_def Let_def rels_Some rels_def [of rel, THEN fun_cong])

lemma pt_adopt_child_threads:
  "pt_adopt_child i rel = Inr rel' \<Longrightarrow> map_option threads_of (rel' p) = map_option threads_of (rel p)"
  by (auto simp: pt_adopt_child_def res_eq_simps Let_def split: if_splits)

lemma pt_adopt_all_threads:
  "rfold pt_adopt_child cs rel = Inr rel' \<Longrightarrow>
     map_option threads_of (rel' p) = map_option threads_of (rel p)"
proof (induction cs arbitrary: rel)
  case (Cons c cs)
  then obtain rel1 where "pt_adopt_child c rel = Inr rel1" "rfold pt_adopt_child cs rel1 = Inr rel'"
    by (auto simp: res_eq_simps)
  with Cons.IH [of rel1] pt_adopt_child_threads [of c rel rel1 p] show ?case by simp
qed simp

lemma del_proc_loop:
  assumes "tree_inv (rels rel)" "rel i = Some r" "i \<noteq> 0" "0 \<in> dom rel"
  obtains rel3 where "rfold pt_adopt_child (pt_children r)
       (case (rel(i := None)) (pt_parent r) of
          Some pr \<Rightarrow> (rel(i := None))(pt_parent r \<mapsto> pt_del_child i code pr)
        | None \<Rightarrow> rel(i := None)) = Inr rel3"
    and "rels rel3 = rel_after_exit i code (rels rel)"
    and "\<And>q. map_option threads_of (rel3 q) = (if q = i then None else map_option threads_of (rel q))"
proof -
  let ?rel2 = "case (rel(i := None)) (pt_parent r) of
      Some pr \<Rightarrow> (rel(i := None))(pt_parent r \<mapsto> pt_del_child i code pr) | None \<Rightarrow> rel(i := None)"
  have "rels ?rel2 = (case ((rels rel)(i := None)) (pt_parent r) of
      Some pr \<Rightarrow> ((rels rel)(i := None))(pt_parent r \<mapsto> del_child i code pr)
    | None \<Rightarrow> (rels rel)(i := None))"
    by (cases "rel (pt_parent r)") (auto simp: rels_Some rels_def [of rel, THEN fun_cong])
  then have "rfold adopt_child (pt_children r) (rels ?rel2) = Inr (rel_after_exit i code (rels rel))"
    using exit_loop [OF assms(1) rels_Some [of rel, OF assms(2)] assms(3), of code,
        unfolded rel_of_simps(1,2)] assms(4) by (simp only: rels_simps(4))
  then have "map_sum id rels (rfold pt_adopt_child (pt_children r) ?rel2)
      = Inr (rel_after_exit i code (rels rel))"
    by (simp only: rfold_sim [of rels pt_adopt_child adopt_child, OF pt_adopt_child_refines])
  then obtain rel3 where rel3: "rfold pt_adopt_child (pt_children r) ?rel2 = Inr rel3"
    "rels rel3 = rel_after_exit i code (rels rel)"
    by (cases "rfold pt_adopt_child (pt_children r) ?rel2") auto
  moreover have "map_option threads_of (rel3 q) = (if q = i then None else map_option threads_of (rel q))"
    for q
  proof -
    have "pt_parent r \<noteq> i" using tree_invD(4) [OF assms(1) rels_Some [of rel, OF assms(2)]] by simp
    then have "map_option threads_of (?rel2 q) = (if q = i then None else map_option threads_of (rel q))"
      by (auto split: option.split)
    then show ?thesis using pt_adopt_all_threads [OF rel3(1), of q] by simp
  qed
  ultimately show ?thesis by (rule that)
qed

section \<open>Invariant\<close>

definition ptm_inv ::
    "('mt \<Rightarrow> thread_id \<rightharpoonup> 't) \<Rightarrow> ('mp \<Rightarrow> proc_id \<rightharpoonup> 'p) \<Rightarrow> ('mt, 'mp) pthread_manager \<Rightarrow> bool" where
  "ptm_inv titems pitems pm \<longleftrightarrow> tree_inv (rels (pt_rel_map pm)) \<and>
     (\<exists>mg pg. pt_manager pm = Some mg \<and> pt_proc_manager pm = Some pg
        \<and> dom (pitems pg) = dom (pt_rel_map pm) \<and> dom (titems mg) = dom (tid2pid pm))
     \<and> (\<forall>t p. tid2pid pm t = Some p \<longleftrightarrow> (\<exists>r. pt_rel_map pm p = Some r \<and> t \<in> set (pt_threads r)))
     \<and> (\<forall>p r. pt_rel_map pm p = Some r \<longrightarrow> distinct (pt_threads r))
     \<and> (\<forall>t. pt_current pm = Some t \<longrightarrow> t \<in> dom (tid2pid pm))"

lemma del_thread_eq:
  assumes "distinct (pt_threads r)" "i \<in> set (pt_threads r)"
  shows "del_thread i code r = r\<lparr>pt_threads := remove1 i (pt_threads r),
           pt_dead_threads := pt_dead_threads r @ [(i, code)]\<rparr>"
proof -
  obtain k where k: "find_index (\<lambda>j. j = i) (pt_threads r) = Some k"
    using find_index_mem [OF assms(2), of "\<lambda>j. j = i"] by auto
  then have "pt_threads r ! k = i" by (auto dest: find_index_nth)
  with k remove_at_remove1 [OF k assms(1)] show ?thesis by (simp add: del_thread_def)
qed

locale thread_laws = T: task_laws MT titems S queue + P: manage_laws MP pitems
  for MT :: "(thread_id, 't, 'mt) manage_ops" and titems
    and S :: "(thread_id, 'mt) schedule_ops" and queue
    and MP :: "(proc_id, 'p, 'mp) manage_ops" and pitems
begin

abbreviation inv :: "('mt, 'mp) pthread_manager \<Rightarrow> bool" where
  "inv \<equiv> ptm_inv titems pitems"

lemma invD:
  assumes "inv pm"
  shows "tree_inv (rels (pt_rel_map pm))"
    and "tid2pid pm t = Some p \<longleftrightarrow> (\<exists>r. pt_rel_map pm p = Some r \<and> t \<in> set (pt_threads r))"
    and "pt_rel_map pm p = Some r \<Longrightarrow> distinct (pt_threads r)"
    and "pt_current pm = Some t \<Longrightarrow> t \<in> dom (tid2pid pm)"
  using assms by (auto simp: ptm_inv_def)

lemma inv_managersE:
  assumes "inv pm"
  obtains mg pg where "pt_manager pm = Some mg" "pt_proc_manager pm = Some pg"
    "dom (pitems pg) = dom (pt_rel_map pm)" "dom (titems mg) = dom (tid2pid pm)"
  using assms unfolding ptm_inv_def by blast

lemma current_procE:
  assumes "inv pm" "pt_current pm = Some t"
  obtains p r where "tid2pid pm t = Some p" "pt_rel_map pm p = Some r" "t \<in> set (pt_threads r)"
    "distinct (pt_threads r)"
  using invD [OF assms(1)] assms(2) by (metis domD)

text \<open>An update of one process's relation that keeps its threads and its place in the forest.\<close>

lemma inv_update:
  assumes "inv pm" "pt_rel_map pm p = Some r" "pt_parent r' = pt_parent r"
    "pt_children r' = pt_children r" "pt_threads r' = pt_threads r"
  shows "inv (pm\<lparr>pt_rel_map := (pt_rel_map pm)(p \<mapsto> r')\<rparr>)"
proof -
  have "tree_inv (rels ((pt_rel_map pm)(p \<mapsto> r')))"
    using tree_inv_update [OF invD(1) [OF assms(1)] rels_Some [of "pt_rel_map pm", OF assms(2)], of "rel_of r'"] assms(3,4)
    by simp
  moreover have "dom ((pt_rel_map pm)(p \<mapsto> r')) = dom (pt_rel_map pm)" using assms(2) by auto
  moreover have "(\<exists>rr. ((pt_rel_map pm)(p \<mapsto> r')) q = Some rr \<and> t \<in> set (pt_threads rr)) \<longleftrightarrow>
      (\<exists>rr. pt_rel_map pm q = Some rr \<and> t \<in> set (pt_threads rr))" for q t
    using assms(2,5) by auto
  ultimately show ?thesis using assms unfolding ptm_inv_def by (simp del: dom_fun_upd)
qed

lemma find_next_inv:
  assumes "inv pm" "pt_current pm = None"
  obtains t pm' where "ptm_find_next MT S pm = Inr (t, pm')" "inv pm'" "pt_rel_map pm' = pt_rel_map pm"
proof -
  from assms(1) obtain mg pg where mg: "pt_manager pm = Some mg" "pt_proc_manager pm = Some pg"
    "dom (pitems pg) = dom (pt_rel_map pm)" "dom (titems mg) = dom (tid2pid pm)"
    by (rule inv_managersE)
  let ?mg1 = "snd (s_fetch S mg)"
  have q: "inv (pm\<lparr>pt_manager := Some ?mg1\<rparr>)"
    using assms mg by (simp add: ptm_inv_def T.items_fetch)
  show ?thesis
  proof (cases rule: T.fetch_cases [of mg])
    case 1
    with q mg that show ?thesis by (auto simp: ptm_find_next_def split_def T.fetch_fst)
  next
    case (2 i rest)
    show ?thesis
    proof (cases "titems mg i")
      case None
      with 2 q mg that show ?thesis
        by (auto simp: ptm_find_next_def split_def T.get_mut T.items_fetch T.fetch_fst)
    next
      case (Some t)
      then have "i \<in> dom (tid2pid pm)" using mg(4) by auto
      then have "inv (pm\<lparr>pt_manager := Some ?mg1, pt_current := Some i\<rparr>)"
        using q by (simp add: ptm_inv_def)
      moreover have "ptm_find_next MT S pm =
          Inr (Some t, pm\<lparr>pt_manager := Some ?mg1, pt_current := Some i\<rparr>)"
        using 2 Some mg(1)
        by (simp add: ptm_find_next_def split_def T.get_mut T.items_fetch T.fetch_fst)
      ultimately show ?thesis using that by simp
    qed
  qed
qed

lemma requeue_inv:
  assumes "inv pm" "pt_manager pm = Some mg"
  shows "inv (pm\<lparr>pt_manager := Some (s_add S i mg)\<rparr>)"
    and "inv (pm\<lparr>pt_manager := Some (s_add S i mg), pt_current := None\<rparr>)"
  using assms by (auto simp: ptm_inv_def T.items_add)

lemma add_thread_inv:
  assumes "inv pm" "pt_rel_map pm p = Some r" "i \<notin> dom (tid2pid pm)"
  obtains pm' where "ptm_add MT S i task p pm = Inr pm'" "inv pm'"
    "dom (pt_rel_map pm') = dom (pt_rel_map pm)"
proof -
  from assms(1) obtain mg pg where mg: "pt_manager pm = Some mg" "pt_proc_manager pm = Some pg"
    "dom (pitems pg) = dom (pt_rel_map pm)" "dom (titems mg) = dom (tid2pid pm)"
    by (rule inv_managersE)
  let ?rel = "(pt_rel_map pm)(p \<mapsto> add_thread i r)"
  have "tree_inv (rels ?rel)"
    using tree_inv_update [OF invD(1) [OF assms(1)] rels_Some [of "pt_rel_map pm", OF assms(2)]]
    by simp
  moreover have dom: "dom ?rel = dom (pt_rel_map pm)" using assms(2) by auto
  moreover have new: "i \<notin> set (pt_threads rr)" if "pt_rel_map pm q = Some rr" for q rr
    using invD(2) [OF assms(1), of i q] that assms(3) by auto
  moreover have "((tid2pid pm)(i \<mapsto> p)) t = Some q \<longleftrightarrow>
      (\<exists>rr. ?rel q = Some rr \<and> t \<in> set (pt_threads rr))" for t q
    using invD(2) [OF assms(1), of t q] assms(2) new by (auto simp: add_thread_def)
  moreover have "distinct (pt_threads rr)" if "?rel q = Some rr" for q rr
    using invD(3) [OF assms(1)] assms(2) new that by (auto simp: add_thread_def split: if_splits)
  ultimately have "inv (pm\<lparr>pt_manager := Some (s_add S i (m_insert MT i task mg)),
      pt_rel_map := ?rel, tid2pid := (tid2pid pm)(i \<mapsto> p)\<rparr>)"
    using mg assms(1) unfolding ptm_inv_def
    by (simp add: T.items_add T.items_insert del: dom_fun_upd fun_upd_apply) (simp add: dom_fun_upd)
  moreover have "ptm_add MT S i task p pm = Inr (pm\<lparr>pt_manager := Some (s_add S i (m_insert MT i task mg)),
      pt_rel_map := ?rel, tid2pid := (tid2pid pm)(i \<mapsto> p)\<rparr>)"
    using mg(1) assms(2) by (simp add: ptm_add_def Let_def)
  ultimately show ?thesis using that dom by simp
qed

lemma wait_inv:
  assumes "inv pm" "pt_current pm = Some t"
  obtains ans pm' where "ptm_wait c pm = Inr (ans, pm')" "inv pm'"
    "dom (pt_rel_map pm') = dom (pt_rel_map pm)"
proof -
  from assms obtain p r where p: "tid2pid pm t = Some p" "pt_rel_map pm p = Some r"
    by (rule current_procE)
  let ?w = "if c = usize_MAX then pt_wait_any_child r else pt_wait_child c r"
  have "pt_parent (snd ?w) = pt_parent r" "pt_children (snd ?w) = pt_children r"
    "pt_threads (snd ?w) = pt_threads r"
    by (simp_all add: pt_threads_of)
  from inv_update [OF assms(1) p(2) this] that assms(2) p show ?thesis
    by (auto simp: ptm_wait_def split_def Let_def insert_absorb)
qed

lemma waittid_inv:
  assumes "inv pm" "pt_current pm = Some t"
  obtains ans pm' where "ptm_waittid c pm = Inr (ans, pm')" "inv pm'"
    "dom (pt_rel_map pm') = dom (pt_rel_map pm)"
proof -
  from assms obtain p r where p: "tid2pid pm t = Some p" "pt_rel_map pm p = Some r"
    by (rule current_procE)
  from inv_update [OF assms(1) p(2), of "snd (wait_thread c r)"] that assms(2) p show ?thesis
    by (auto simp: ptm_waittid_def split_def Let_def insert_absorb)
qed

lemma add_proc_inv:
  assumes "inv pm" "i \<notin> dom (pt_rel_map pm)" "i \<noteq> usize_MAX"
    and "parent \<in> dom (pt_rel_map pm) \<or> parent = usize_MAX" "i = 0 \<longrightarrow> parent = usize_MAX"
  obtains pm' where "ptm_add_proc MP i proc parent pm = Inr pm'" "inv pm'"
    "dom (pt_rel_map pm') = insert i (dom (pt_rel_map pm))"
proof -
  from assms(1) obtain mg pg where mg: "pt_manager pm = Some mg" "pt_proc_manager pm = Some pg"
    "dom (pitems pg) = dom (pt_rel_map pm)" "dom (titems mg) = dom (tid2pid pm)"
    by (rule inv_managersE)
  define rel where "rel = (case pt_rel_map pm parent of
      Some pr \<Rightarrow> (pt_rel_map pm)(parent \<mapsto> pt_add_child i pr)
    | None \<Rightarrow> pt_rel_map pm)(i \<mapsto> proc_thread_rel_new parent)"
  have rel: "rel q = (if q = i then Some (proc_thread_rel_new parent) else
      if q = parent then map_option (pt_add_child i) (pt_rel_map pm q) else pt_rel_map pm q)" for q
    by (auto simp: rel_def split: option.split)
  have "rels rel = rel_after_add i parent (rels (pt_rel_map pm))"
    by (auto simp: fun_eq_iff rel_after_add_apply rels_def rel option.map_comp comp_def)
  then have "tree_inv (rels rel)"
    using tree_inv_add [OF invD(1) [OF assms(1)]] assms(2-5) by simp
  moreover have dom: "dom rel = insert i (dom (pt_rel_map pm))"
    by (auto simp: rel split: if_splits)
  moreover have thr: "(\<exists>r. rel q = Some r \<and> P (pt_threads r)) \<longleftrightarrow>
      (q = i \<and> P [] \<or> (\<exists>r. pt_rel_map pm q = Some r \<and> P (pt_threads r)))" for q P
    using assms(2) by (auto simp: rel proc_thread_rel_new_def pt_add_child_def)
  moreover have "distinct (pt_threads r)" if "rel q = Some r" for q r
    using that thr [of q "\<lambda>x. \<not> distinct x"] invD(3) [OF assms(1)] by auto
  ultimately have "inv (pm\<lparr>pt_proc_manager := Some (m_insert MP i proc pg), pt_rel_map := rel\<rparr>)"
    using mg assms(1) thr [of _ "\<lambda>x. _ \<in> set x"] unfolding ptm_inv_def
    by (simp add: P.items_insert dom)
  moreover have "ptm_add_proc MP i proc parent pm =
      Inr (pm\<lparr>pt_proc_manager := Some (m_insert MP i proc pg), pt_rel_map := rel\<rparr>)"
    using mg(2) by (simp add: ptm_add_proc_def rel_def Let_def)
  ultimately show ?thesis using that dom by simp
qed

text \<open>A thread exits: unless it is the last one, only its process's thread lists change.\<close>

lemma exit_one:
  assumes "inv pm" "pt_current pm = Some t" "tid2pid pm t = Some p" "pt_rel_map pm p = Some r"
    and "pt_threads r \<noteq> [t]" "pt_manager pm = Some mg"
  obtains pm' where "ptm_make_current_exited MT MP code pm = Inr pm'" "inv pm'"
    "pt_rel_map pm' = (pt_rel_map pm)(p \<mapsto> del_thread t code r)" "pt_current pm' = None"
    "tid2pid pm' = (tid2pid pm)(t := None)"
proof -
  let ?pm' = "pm\<lparr>pt_manager := Some (m_delete MT t mg), tid2pid := (tid2pid pm)(t := None),
      pt_rel_map := (pt_rel_map pm)(p \<mapsto> del_thread t code r), pt_current := None\<rparr>"
  have t: "t \<in> set (pt_threads r)" "distinct (pt_threads r)"
    using invD(2,3) [OF assms(1)] assms(3,4) by auto
  note del = del_thread_eq [OF t(2,1), of code]
  have "remove1 t (pt_threads r) \<noteq> []" using assms(5) t
    by (cases "pt_threads r") (auto split: if_splits)
  then have run: "ptm_make_current_exited MT MP code pm = Inr ?pm'"
    using assms(2-4,6) del by (simp add: ptm_make_current_exited_def Let_def)
  have "((tid2pid pm)(t := None)) u = Some q \<longleftrightarrow>
      (\<exists>rr. ((pt_rel_map pm)(p \<mapsto> del_thread t code r)) q = Some rr \<and> u \<in> set (pt_threads rr))" for u q
    using invD(2) [OF assms(1), of u q] invD(2) [OF assms(1), of t q] assms(3,4) t
    by (auto simp: del)
  moreover have "tree_inv (rels ((pt_rel_map pm)(p \<mapsto> del_thread t code r)))"
    using tree_inv_update [OF invD(1) [OF assms(1)] rels_Some [of "pt_rel_map pm", OF assms(4)]]
    by simp
  moreover have "distinct (pt_threads rr)"
    if "((pt_rel_map pm)(p \<mapsto> del_thread t code r)) q = Some rr" for q rr
    using that invD(3) [OF assms(1)] t by (auto simp: del split: if_splits)
  moreover have "dom ((pt_rel_map pm)(p \<mapsto> del_thread t code r)) = dom (pt_rel_map pm)"
    using assms(4) by auto
  ultimately have "inv ?pm'"
    using assms(1,6) unfolding ptm_inv_def
    by (simp add: T.items_delete del: fun_upd_apply dom_fun_upd) (auto simp: dom_fun_upd)
  with that [OF run] show ?thesis by simp
qed

text \<open>The last thread takes its process with it.\<close>

lemma exit_last:
  assumes "inv pm" "pt_current pm = Some t" "tid2pid pm t = Some p" "pt_rel_map pm p = Some r"
    and "pt_threads r = [t]" "p \<noteq> 0" "0 \<in> dom (pt_rel_map pm)"
  obtains pm' where "ptm_make_current_exited MT MP code pm = Inr pm'" "inv pm'"
    "rels (pt_rel_map pm') = rel_after_exit p code (rels (pt_rel_map pm))" "pt_current pm' = None"
    "tid2pid pm' = (tid2pid pm)(t := None)"
proof -
  from assms(1) obtain mg pg where mg: "pt_manager pm = Some mg" "pt_proc_manager pm = Some pg"
    "dom (pitems pg) = dom (pt_rel_map pm)" "dom (titems mg) = dom (tid2pid pm)"
    by (rule inv_managersE)
  let ?r1 = "del_thread t code r"
  let ?rel1 = "(pt_rel_map pm)(p \<mapsto> ?r1)"
  have r1: "pt_threads ?r1 = []" using del_thread_eq [of r t code] assms(5) by simp
  have eq: "rels ?rel1 = rels (pt_rel_map pm)" using assms(4) by (auto simp: rels_def)
  have "tree_inv (rels ?rel1)" using invD(1) [OF assms(1)] eq by simp
  then obtain rel3 where rel3: "rfold pt_adopt_child (pt_children ?r1)
       (case (?rel1(p := None)) (pt_parent ?r1) of
          Some pr \<Rightarrow> (?rel1(p := None))(pt_parent ?r1 \<mapsto> pt_del_child p code pr)
        | None \<Rightarrow> ?rel1(p := None)) = Inr rel3"
    "rels rel3 = rel_after_exit p code (rels ?rel1)"
    "\<And>q. map_option threads_of (rel3 q) = (if q = p then None else map_option threads_of (?rel1 q))"
    by (rule del_proc_loop [where i = p and r = ?r1 and code = code]) (use assms(6,7) in auto)
  let ?pm' = "pm\<lparr>pt_manager := Some (m_delete MT t mg), tid2pid := (tid2pid pm)(t := None),
      pt_rel_map := rel3, pt_proc_manager := Some (m_delete MP p pg), pt_current := None\<rparr>"
  have run: "ptm_make_current_exited MT MP code pm = Inr ?pm'"
    using assms(2-4) mg(1,2) r1 rel3(1)
    by (cases "pt_parent ?r1 = p"; cases "pt_rel_map pm (pt_parent ?r1)")
       (simp_all add: ptm_make_current_exited_def ptm_del_proc_def Let_def)
  have dom3: "dom rel3 = dom (pt_rel_map pm) - {p}"
    using rel3(2) eq dom_rel_after_exit [of p code "rels (pt_rel_map pm)"] rels_simps(4) by metis
  have thr: "map_option pt_threads (rel3 q) = (if q = p then None else map_option pt_threads (pt_rel_map pm q))"
    for q
    using arg_cong [OF rel3(3) [of q], of "map_option fst"]
    by (auto simp: option.map_comp comp_def threads_of_def)
  have own: "((tid2pid pm)(t := None)) u = Some q \<longleftrightarrow>
      (\<exists>rr. rel3 q = Some rr \<and> u \<in> set (pt_threads rr))" for u q
    using invD(2) [OF assms(1), of u q] assms(3-5) thr [of q]
    by (cases "rel3 q"; cases "pt_rel_map pm q") (auto split: if_splits)
  have "distinct (pt_threads rr)" if "rel3 q = Some rr" for q rr
    using that thr [of q] invD(3) [OF assms(1), of q]
    by (cases "pt_rel_map pm q") (auto split: if_splits)
  moreover have "tree_inv (rels rel3)"
    using rel3(2) eq tree_inv_after_exit [OF invD(1) [OF assms(1)] rels_Some [of "pt_rel_map pm", OF assms(4)]
        assms(6)] assms(7) by simp
  ultimately have "inv ?pm'"
    using own mg dom3 assms(1) unfolding ptm_inv_def
    by (simp add: T.items_delete P.items_delete del: fun_upd_apply)
  with that run rel3(2) eq show ?thesis by simp
qed

end

interpretation ptl: thread_laws thread_manage thr_tasks thread_schedule thr_ready_queue
    proc_table_manage procs
  by unfold_locales

section \<open>Runs of the thread manager\<close>

text \<open>
  What the kernel of chapter 8 does with the manager: it picks a thread when none runs; the running
  thread creates processes and threads with fresh identifiers, waits, is put back, is blocked or
  exits (but not as the last thread of process 0), and any thread identifier may be queued again by
  the synchronisation primitives.
\<close>

inductive ptm_step ::
    "(thread_id, 't, 'mt) manage_ops \<Rightarrow> (thread_id, 'mt) schedule_ops \<Rightarrow> (proc_id, 'p, 'mp) manage_ops \<Rightarrow>
     ('mt, 'mp) pthread_manager \<Rightarrow> ('mt, 'mp) pthread_manager \<Rightarrow> bool"
  for MT S MP where
  pt_next: "pt_current pm = None \<Longrightarrow> ptm_find_next MT S pm = Inr (t, pm') \<Longrightarrow> ptm_step MT S MP pm pm'"
| pt_new_proc: "i \<notin> dom (pt_rel_map pm) \<Longrightarrow> i \<noteq> usize_MAX \<Longrightarrow> i \<noteq> 0 \<Longrightarrow> parent \<in> dom (pt_rel_map pm) \<Longrightarrow>
    ptm_add_proc MP i proc parent pm = Inr pm' \<Longrightarrow> ptm_step MT S MP pm pm'"
| pt_new_thread: "i \<notin> dom (tid2pid pm) \<Longrightarrow> p \<in> dom (pt_rel_map pm) \<Longrightarrow>
    ptm_add MT S i task p pm = Inr pm' \<Longrightarrow> ptm_step MT S MP pm pm'"
| pt_suspend: "ptm_make_current_suspend S pm = Inr pm' \<Longrightarrow> ptm_step MT S MP pm pm'"
| pt_blocked: "pm' = ptm_make_current_blocked pm \<Longrightarrow> ptm_step MT S MP pm pm'"
| pt_requeue: "ptm_re_enque S i pm = Inr pm' \<Longrightarrow> ptm_step MT S MP pm pm'"
| pt_exit: "pt_current pm = Some t \<Longrightarrow> tid2pid pm t = Some p \<Longrightarrow> pt_rel_map pm p = Some r \<Longrightarrow>
    p \<noteq> 0 \<or> pt_threads r \<noteq> [t] \<Longrightarrow>
    ptm_make_current_exited MT MP code pm = Inr pm' \<Longrightarrow> ptm_step MT S MP pm pm'"
| pt_wait: "ptm_wait c pm = Inr (ans, pm') \<Longrightarrow> ptm_step MT S MP pm pm'"
| pt_waittid: "ptm_waittid u pm = Inr (code, pm') \<Longrightarrow> ptm_step MT S MP pm pm'"

inductive ptm_reach ::
    "(thread_id, 't, 'mt) manage_ops \<Rightarrow> (thread_id, 'mt) schedule_ops \<Rightarrow> (proc_id, 'p, 'mp) manage_ops \<Rightarrow>
     'mt \<Rightarrow> 'mp \<Rightarrow> ('mt, 'mp) pthread_manager \<Rightarrow> bool"
  for MT S MP mg pg where
  ptr_init: "ptm_add_proc MP 0 proc usize_MAX
      (ptm_set_proc_manager pg (ptm_set_manager mg ptm_new)) = Inr pm \<Longrightarrow> ptm_reach MT S MP mg pg pm"
| ptr_step: "ptm_reach MT S MP mg pg pm \<Longrightarrow> ptm_step MT S MP pm pm' \<Longrightarrow> ptm_reach MT S MP mg pg pm'"

context thread_laws
begin

lemma exit_inv:
  assumes "inv pm" "pt_current pm = Some t" "tid2pid pm t = Some p" "pt_rel_map pm p = Some r"
    and "p \<noteq> 0 \<or> pt_threads r \<noteq> [t]" "0 \<in> dom (pt_rel_map pm)"
  obtains pm' where "ptm_make_current_exited MT MP code pm = Inr pm'" "inv pm'"
    "0 \<in> dom (pt_rel_map pm')"
proof (cases "pt_threads r = [t]")
  case True
  with assms(5) have p: "p \<noteq> 0" by simp
  obtain pm' where pm': "ptm_make_current_exited MT MP code pm = Inr pm'" "inv pm'"
    "rels (pt_rel_map pm') = rel_after_exit p code (rels (pt_rel_map pm))"
    by (rule exit_last [OF assms(1-4) True p assms(6), of code])
  from arg_cong [OF pm'(3), of dom] have "dom (pt_rel_map pm') = dom (pt_rel_map pm) - {p}"
    by (simp add: dom_rel_after_exit)
  with pm' that assms(6) p show ?thesis by (simp del: domIff)
next
  case False
  from assms(1) obtain mg where "pt_manager pm = Some mg" by (rule inv_managersE)
  from exit_one [OF assms(1-4) False this, of code] obtain pm' where
    "ptm_make_current_exited MT MP code pm = Inr pm'" "inv pm'"
    "pt_rel_map pm' = (pt_rel_map pm)(p \<mapsto> del_thread t code r)" by blast
  with that assms(6) show ?thesis by simp
qed

lemma step_inv:
  assumes "ptm_step MT S MP pm pm'" "inv pm" "0 \<in> dom (pt_rel_map pm)"
  shows "inv pm' \<and> 0 \<in> dom (pt_rel_map pm')"
  using assms(1)
proof cases
  case (pt_next t)
  from find_next_inv [OF assms(2) pt_next(1)] pt_next(2) assms(3) show ?thesis
    by (metis Inr_inject prod.inject)
next
  case (pt_new_proc i parent proc)
  with assms(3) show ?thesis
    using add_proc_inv [OF assms(2), of i parent proc] by (metis Inr_inject insertCI)
next
  case (pt_new_thread i p task)
  then obtain r where "pt_rel_map pm p = Some r" by blast
  from add_thread_inv [OF assms(2) this pt_new_thread(1), of task] pt_new_thread(3) assms(3)
  show ?thesis by (metis Inr_inject)
next
  case pt_suspend
  with requeue_inv(2) [OF assms(2)] assms(2,3) show ?thesis
    by (auto simp: ptm_make_current_suspend_def res_eq_simps split: option.splits)
next
  case pt_blocked
  with assms(2,3) show ?thesis
    by (auto simp: ptm_make_current_blocked_def ptm_inv_def split: option.splits)
next
  case (pt_requeue i)
  with requeue_inv(1) [OF assms(2)] assms(3) show ?thesis
    by (auto simp: ptm_re_enque_def res_eq_simps)
next
  case (pt_exit t p r code)
  from exit_inv [OF assms(2) pt_exit(1-4) assms(3), of code] pt_exit(5) show ?thesis
    by (metis Inr_inject)
next
  case (pt_wait c ans)
  then obtain t where "pt_current pm = Some t" by (auto simp: ptm_wait_def res_eq_simps)
  from wait_inv [OF assms(2) this, of c] pt_wait assms(3) show ?thesis
    by (metis Inr_inject prod.inject)
next
  case (pt_waittid u code)
  then obtain t where "pt_current pm = Some t" by (auto simp: ptm_waittid_def res_eq_simps)
  from waittid_inv [OF assms(2) this, of u] pt_waittid assms(3) show ?thesis
    by (metis Inr_inject prod.inject)
qed

lemma reach_inv:
  assumes "ptm_reach MT S MP mg pg pm" "titems mg = Map.empty" "pitems pg = Map.empty"
  shows "inv pm \<and> 0 \<in> dom (pt_rel_map pm)"
  using assms(1)
proof (induction rule: ptm_reach.induct)
  case (ptr_init proc pm)
  have "inv (ptm_set_proc_manager pg (ptm_set_manager mg ptm_new))"
    using assms(2,3)
    by (simp add: ptm_inv_def ptm_set_manager_def ptm_set_proc_manager_def ptm_new_def tree_inv_def)
  then obtain pm1 where "ptm_add_proc MP 0 proc usize_MAX
      (ptm_set_proc_manager pg (ptm_set_manager mg ptm_new)) = Inr pm1" "inv pm1"
    "dom (pt_rel_map pm1) =
       insert 0 (dom (pt_rel_map (ptm_set_proc_manager pg (ptm_set_manager mg ptm_new))))"
    by (rule add_proc_inv [where i = 0 and parent = usize_MAX and proc = proc])
       (simp_all add: ptm_set_manager_def ptm_set_proc_manager_def ptm_new_def)
  with ptr_init show ?case by simp
next
  case (ptr_step pm pm')
  then show ?case using step_inv by blast
qed

end

section \<open>Properties\<close>

lemma last_thread_of_zero_exit:
  assumes "ptm_inv thr_tasks procs pm" "pt_current pm = Some t" "tid2pid pm t = Some 0" "pt_rel_map pm 0 = Some r" "pt_threads r = [t]"
  shows "if pt_children r = [] then \<exists>pm'. ptm_make_current_exited thread_manage proc_table_manage code pm = Inr pm'
    else ptm_make_current_exited thread_manage proc_table_manage code pm = Inl Unwrap_None"
proof -
  from assms(1) obtain mg pg where mg: "pt_manager pm = Some mg" "pt_proc_manager pm = Some pg" by (rule ptl.inv_managersE)
  have tree: "tree_inv (rels (pt_rel_map pm))" using assms(1) by (simp add: ptm_inv_def)
  note r = rels_Some [of "pt_rel_map pm", OF assms(4)]
  note tr = tree_invD [OF tree r]
  have "rel_parent (rel_of r) = usize_MAX" "usize_MAX \<notin> dom (pt_rel_map pm)"
    using tree r by (auto simp: tree_inv_def)
  then have up: "pt_parent r = usize_MAX" "pt_rel_map pm usize_MAX = None" by (auto simp: rel_of_def)
  have d: "pt_threads (del_thread t code r) = []" "pt_children (del_thread t code r) = pt_children r" "pt_parent (del_thread t code r) = pt_parent r"
    using del_thread_eq [of r t code] assms(5) by simp_all
  have zero_neq: "usize_MAX \<noteq> 0" by (simp add: usize_MAX_def)
  note run = ptm_make_current_exited_def ptm_del_proc_def assms(2-4) mg d up Let_def
  show ?thesis
  proof (cases "pt_children r")
    case Nil
    then show ?thesis by (simp add: run split: option.split)
  next
    case (Cons c cs)
    with tr(2) [of c] obtain rc where rc: "pt_rel_map pm c = Some rc" "pt_parent rc = 0" by (auto simp: rel_of_def rels_def)
    then have "c \<noteq> 0" using tr(4) assms(4) by (auto simp: rel_of_def)
    with Cons rc show ?thesis by (simp add: run pt_adopt_child_def zero_neq)
  qed
qed

text \<open>
  C13. In every state that the kernel of chapter 8 can reach through the thread manager while process 0 has not ended, processes form
  one consistent forest, the maps from threads to processes and from processes to threads are inverse
  to each other and the running thread is alive. Adding a process or a thread and picking a thread return,
  and the running thread can be put back, wait for processes and threads, and exit, with one exception: the exit of
  the last thread of process 0 while process 0 has children panics.
\<close>

theorem thread_manager_safe:
  assumes "ptm_reach thread_manage thread_schedule proc_table_manage thread_manager_new proc_table_new pm"
  shows "ptm_inv thr_tasks procs pm
    \<and> (\<forall>i proc parent. \<exists>pm'. ptm_add_proc proc_table_manage i proc parent pm = Inr pm')
    \<and> (\<forall>i task p. \<exists>pm'. ptm_add thread_manage thread_schedule i task p pm = Inr pm')
    \<and> (\<forall>i. \<exists>pm'. ptm_re_enque thread_schedule i pm = Inr pm')
    \<and> (pt_current pm = None \<longrightarrow> (\<exists>t pm'. ptm_find_next thread_manage thread_schedule pm = Inr (t, pm')))
    \<and> (\<forall>t. pt_current pm = Some t \<longrightarrow>
          (\<exists>th. ptm_current thread_manage pm = Inr (Some th))
        \<and> (\<exists>pr. ptm_get_current_proc proc_table_manage pm = Inr (Some pr))
        \<and> (\<exists>pm'. ptm_make_current_suspend thread_schedule pm = Inr pm')
        \<and> (\<forall>c. \<exists>ans pm'. ptm_wait c pm = Inr (ans, pm'))
        \<and> (\<forall>u. \<exists>ans pm'. ptm_waittid u pm = Inr (ans, pm'))
        \<and> (\<exists>p r. tid2pid pm t = Some p \<and> pt_rel_map pm p = Some r \<and>
            (\<forall>code. if p = 0 \<and> pt_threads r = [t] \<and> pt_children r \<noteq> []
               then ptm_make_current_exited thread_manage proc_table_manage code pm = Inl Unwrap_None
               else \<exists>pm'. ptm_make_current_exited thread_manage proc_table_manage code pm = Inr pm')))"
proof -
  have inv: "ptm_inv thr_tasks procs pm" and zero: "0 \<in> dom (pt_rel_map pm)"
    using ptl.reach_inv [OF assms] by (simp_all add: thread_manager_new_def proc_table_new_def)
  then obtain mg pg where mg: "pt_manager pm = Some mg" "pt_proc_manager pm = Some pg"
    "dom (procs pg) = dom (pt_rel_map pm)" "dom (thr_tasks mg) = dom (tid2pid pm)"
    by (auto elim: ptl.inv_managersE)
  show ?thesis
  proof (intro conjI allI impI)
    assume "pt_current pm = None"
    then show "\<exists>t pm'. ptm_find_next thread_manage thread_schedule pm = Inr (t, pm')"
      by (rule ptl.find_next_inv [OF inv]) blast
  next
    fix t c assume "pt_current pm = Some t"
    then show "\<exists>ans pm'. ptm_wait c pm = Inr (ans, pm')" by (rule ptl.wait_inv [OF inv]) blast
  next
    fix t u assume "pt_current pm = Some t"
    then show "\<exists>ans pm'. ptm_waittid u pm = Inr (ans, pm')" by (rule ptl.waittid_inv [OF inv]) blast
  next
    fix t assume t: "pt_current pm = Some t"
    obtain p r where p: "tid2pid pm t = Some p" "pt_rel_map pm p = Some r"
      using ptl.current_procE [OF inv t] by blast
    have "if p = 0 \<and> pt_threads r = [t] \<and> pt_children r \<noteq> []
       then ptm_make_current_exited thread_manage proc_table_manage code pm = Inl Unwrap_None
       else \<exists>pm'. ptm_make_current_exited thread_manage proc_table_manage code pm = Inr pm'" for code
    proof (cases "p = 0 \<and> pt_threads r = [t]")
      case True
      with last_thread_of_zero_exit [OF inv t, of r code] p show ?thesis by (auto split: if_splits)
    next
      case False
      then show ?thesis using ptl.exit_inv [OF inv t p _ zero, of code] by auto
    qed
    with p show "\<exists>p r. tid2pid pm t = Some p \<and> pt_rel_map pm p = Some r \<and>
        (\<forall>code. if p = 0 \<and> pt_threads r = [t] \<and> pt_children r \<noteq> []
           then ptm_make_current_exited thread_manage proc_table_manage code pm = Inl Unwrap_None
           else \<exists>pm'. ptm_make_current_exited thread_manage proc_table_manage code pm = Inr pm')" by blast
    have "t \<in> dom (thr_tasks mg)" "p \<in> dom (procs pg)" using p mg(3,4) by auto
    then show "\<exists>th. ptm_current thread_manage pm = Inr (Some th)"
      and "\<exists>pr. ptm_get_current_proc proc_table_manage pm = Inr (Some pr)"
      using t p mg(1,2)
      by (auto simp: ptm_current_def ptm_get_current_proc_def tmg.get_mut ptt.get_mut)
    show "\<exists>pm'. ptm_make_current_suspend thread_schedule pm = Inr pm'"
      using t mg(1) by (simp add: ptm_make_current_suspend_def)
  qed (simp_all add: inv mg ptm_add_proc_def ptm_add_def ptm_re_enque_def Let_def)
qed

text \<open>Process 0 has started process 1 and its only thread runs.\<close>

theorem thread_manager_safe_witness:
  "\<exists>pm pm'. ptm_reach thread_manage thread_schedule proc_table_manage (thread_manager_new :: nat thread_manager)
       (proc_table_new :: char proc_table) pm \<and> pt_current pm = Some 5 \<and> tid2pid pm 5 = Some 0
     \<and> ptm_make_current_suspend thread_schedule pm = Inr pm'
     \<and> ptm_make_current_exited thread_manage proc_table_manage 0 pm = Inl Unwrap_None"
proof -
  let ?R = "ptm_reach (thread_manage :: (thread_id, nat, nat thread_manager) manage_ops) thread_schedule
      (proc_table_manage :: (proc_id, char, char proc_table) manage_ops) thread_manager_new proc_table_new"
  let ?r = "\<lambda>p cs ts. \<lparr>pt_parent = p, pt_children = cs, pt_dead_children = [], pt_threads = ts, pt_dead_threads = []\<rparr>"
  let ?pm = "\<lambda>rel ps own tk q c. \<lparr>pt_rel_map = rel, pt_proc_manager = Some \<lparr>procs = ps\<rparr>, tid2pid = own,
      pt_manager = Some \<lparr>thr_tasks = tk, thr_ready_queue = q\<rparr>, pt_current = c\<rparr>"
  note defs = ptm_add_def ptm_add_proc_def ptm_find_next_def thread_manage_def thread_schedule_def proc_table_manage_def
    thread_manager_new_def proc_table_new_def ptm_set_manager_def ptm_set_proc_manager_def ptm_new_def proc_thread_rel_new_def
    pt_add_child_def add_thread_def push_back_def usize_MAX_def Let_def
  have "?R (?pm [0 \<mapsto> ?r usize_MAX [] []] [0 \<mapsto> CHR ''p''] Map.empty Map.empty [] None)"
    by (rule ptr_init [where proc = "CHR ''p''"]) (simp add: defs)
  then have "?R (?pm [0 \<mapsto> ?r usize_MAX [] [5]] [0 \<mapsto> CHR ''p''] [5 \<mapsto> 0] [5 \<mapsto> 8] [5] None)"
    by (rule ptr_step) (rule pt_new_thread [where i = 5 and p = 0 and task = 8], simp_all add: defs)
  then have "?R (?pm [0 \<mapsto> ?r usize_MAX [] [5]] [0 \<mapsto> CHR ''p''] [5 \<mapsto> 0] [5 \<mapsto> 8] [] (Some 5))"
    by (rule ptr_step) (rule pt_next [where t = "Some 8"], simp_all add: defs)
  then have "?R (?pm [0 \<mapsto> ?r usize_MAX [1] [5], 1 \<mapsto> ?r 0 [] []] [0 \<mapsto> CHR ''p'', 1 \<mapsto> CHR ''q''] [5 \<mapsto> 0] [5 \<mapsto> 8] [] (Some 5))"
    by (rule ptr_step) (rule pt_new_proc [where i = 1 and parent = 0 and proc = "CHR ''q''"], simp_all add: defs)
  then obtain pm where r: "?R pm" and pm: "pt_current pm = Some 5" "tid2pid pm 5 = Some 0"
    "pt_rel_map pm 0 = Some (?r usize_MAX [1] [5])" by fastforce
  from thread_manager_safe [OF r] pm obtain pm' where
    "ptm_make_current_suspend thread_schedule pm = Inr pm'" "ptm_make_current_exited thread_manage proc_table_manage 0 pm = Inl Unwrap_None" by auto
  with r pm show ?thesis by blast
qed

text \<open>
  C26. A process ends exactly with its last thread: when the running thread exits and other threads of
  its process remain, the process stays and the thread is recorded with its exit code; when it was the
  last one, the process disappears and its exit is the exit of the process manager, with the thread's
  code as the process's code: recorded dead at the parent, children handed to process 0.
\<close>

theorem last_thread_ends_process:
  assumes "ptm_inv thr_tasks procs pm" "pt_current pm = Some t" "tid2pid pm t = Some p"
    and "pt_rel_map pm p = Some r" "p \<noteq> 0" "0 \<in> dom (pt_rel_map pm)"
  shows "\<exists>pm'. ptm_make_current_exited thread_manage proc_table_manage code pm = Inr pm'
    \<and> ptm_inv thr_tasks procs pm' \<and> pt_current pm' = None \<and> tid2pid pm' = (tid2pid pm)(t := None)
    \<and> (if pt_threads r = [t]
       then rels (pt_rel_map pm') = rel_after_exit p code (rels (pt_rel_map pm))
         \<and> ptm_get_proc proc_table_manage p pm' = Inr None
       else pt_rel_map pm' = (pt_rel_map pm)(p \<mapsto> r\<lparr>pt_threads := remove1 t (pt_threads r),
              pt_dead_threads := pt_dead_threads r @ [(t, code)]\<rparr>))"
proof (cases "pt_threads r = [t]")
  case True
  obtain pm' where pm': "ptm_make_current_exited thread_manage proc_table_manage code pm = Inr pm'"
    "ptm_inv thr_tasks procs pm'"
    "rels (pt_rel_map pm') = rel_after_exit p code (rels (pt_rel_map pm))" "pt_current pm' = None"
    "tid2pid pm' = (tid2pid pm)(t := None)"
    by (rule ptl.exit_last [OF assms(1-4) True assms(5,6)])
  from arg_cong [OF pm'(3), of dom] have "p \<notin> dom (pt_rel_map pm')"
    by (simp add: dom_rel_after_exit del: domIff)
  moreover obtain pg where "pt_proc_manager pm' = Some pg" "dom (procs pg) = dom (pt_rel_map pm')"
    by (rule ptl.inv_managersE [OF pm'(2)])
  ultimately have "ptm_get_proc proc_table_manage p pm' = Inr None"
    by (auto simp: ptm_get_proc_def ptt.get_mut)
  with pm' True show ?thesis by simp
next
  case False
  obtain mg where "pt_manager pm = Some mg" by (rule ptl.inv_managersE [OF assms(1)])
  from ptl.exit_one [OF assms(1-4) False this, of code] obtain pm' where
    "ptm_make_current_exited thread_manage proc_table_manage code pm = Inr pm'"
    "ptm_inv thr_tasks procs pm'" "pt_rel_map pm' = (pt_rel_map pm)(p \<mapsto> del_thread t code r)"
    "pt_current pm' = None" "tid2pid pm' = (tid2pid pm)(t := None)" by blast
  moreover have "t \<in> set (pt_threads r)" "distinct (pt_threads r)"
    using ptl.invD(2,3) [OF assms(1)] assms(3,4) by auto
  ultimately show ?thesis using False del_thread_eq by auto
qed

text \<open>Process 0 with thread 0, and its child 1 with the threads 1 (running) and 2.\<close>

definition demo_ptm :: "(nat thread_manager, nat proc_table) pthread_manager" where
  "demo_ptm = \<lparr>
     pt_rel_map =
       [0 \<mapsto> \<lparr>pt_parent = usize_MAX, pt_children = [1], pt_dead_children = [], pt_threads = [0],
             pt_dead_threads = []\<rparr>,
        1 \<mapsto> \<lparr>pt_parent = 0, pt_children = [], pt_dead_children = [], pt_threads = [1, 2],
             pt_dead_threads = []\<rparr>],
     pt_proc_manager = Some \<lparr>procs = [0 \<mapsto> 10, 1 \<mapsto> 11]\<rparr>,
     tid2pid = [0 \<mapsto> 0, 1 \<mapsto> 1, 2 \<mapsto> 1],
     pt_manager = Some \<lparr>thr_tasks = [0 \<mapsto> 20, 1 \<mapsto> 21, 2 \<mapsto> 22], thr_ready_queue = [0, 2]\<rparr>,
     pt_current = Some 1\<rparr>"

lemma demo_ptm_inv: "ptm_inv thr_tasks procs demo_ptm"
  by (auto simp: demo_ptm_def ptm_inv_def tree_inv_def rels_def rel_of_def usize_MAX_def
      split: if_splits)

theorem last_thread_ends_process_witness:
  "\<exists>pm'. ptm_make_current_exited thread_manage proc_table_manage 5 demo_ptm = Inr pm'
     \<and> tid2pid pm' = (tid2pid demo_ptm)(1 := None)"
  using last_thread_ends_process [OF demo_ptm_inv, where t = 1 and p = 1 and code = 5
      and r = "\<lparr>pt_parent = 0, pt_children = [], pt_dead_children = [], pt_threads = [1, 2],
             pt_dead_threads = []\<rparr>"]
  by (auto simp: demo_ptm_def)

text \<open>
  A dead thread is collected exactly once by \<^verbatim>\<open>waittid\<close>: while thread \<open>u\<close> of the running process
  lives, \<^verbatim>\<open>waittid\<close> answers -2; after its exit with \<open>code\<close> it returns \<open>code\<close>, and then \<^verbatim>\<open>None\<close>.
\<close>

theorem waittid_reaps_once:
  fixes pm :: "('t thread_manager, 'p proc_table) pthread_manager"
  assumes "ptm_inv thr_tasks procs pm" "pt_current pm = Some t" "tid2pid pm t = Some p"
    and "pt_rel_map pm p = Some r" "u \<in> set (pt_threads r)" "u \<notin> fst ` set (pt_dead_threads r)"
  shows "ptm_waittid u pm = Inr (Some (- 2), pm)
    \<and> (\<exists>pm1. ptm_waittid u (pm\<lparr>pt_rel_map := (pt_rel_map pm)(p \<mapsto> del_thread u code r)\<rparr>) = Inr (Some code, pm1)
          \<and> ptm_waittid u pm1 = Inr (None, pm1))"
proof -
  have d: "distinct (pt_threads r)" using ptl.invD(3) [OF assms(1,4)] .
  have alive: "find_index (\<lambda>d. fst d = u) (pt_dead_threads r) = None"
    using assms(6) by (force simp: find_index_None)
  obtain k where "find_index (\<lambda>j. j = u) (pt_threads r) = Some k"
    using find_index_mem [OF assms(5), of "\<lambda>j. j = u"] by auto
  with alive assms(2-4) have "ptm_waittid u pm = Inr (Some (- 2), pm)"
    by (simp add: ptm_waittid_def wait_thread_def map_upd_triv)
  moreover have dead: "find_index (\<lambda>d. fst d = u) (pt_dead_threads r @ [(u, code)])
      = Some (length (pt_dead_threads r))"
    using find_index_append_None [OF alive, of "[(u, code)]"] by simp
  have gone: "find_index (\<lambda>j. j = u) (remove1 u (pt_threads r)) = None"
    using d by (auto simp: find_index_None)
  have "ptm_waittid u (pm\<lparr>pt_rel_map := (pt_rel_map pm)(p \<mapsto> del_thread u code r)\<rparr>) = Inr (Some code,
      pm\<lparr>pt_rel_map := (pt_rel_map pm)(p \<mapsto> r\<lparr>pt_threads := remove1 u (pt_threads r)\<rparr>)\<rparr>)"
    using assms(2,3) dead
    by (simp add: ptm_waittid_def wait_thread_def del_thread_eq [OF d assms(5)] remove_at_def)
  ultimately show ?thesis
    using assms(2,3) gone alive by (auto simp: ptm_waittid_def wait_thread_def map_upd_triv)
qed

theorem waittid_reaps_once_witness:
  "ptm_waittid 2 demo_ptm = Inr (Some (- 2), demo_ptm)"
  using waittid_reaps_once [OF demo_ptm_inv, where t = 1 and p = 1 and u = 2 and code = 0
      and r = "\<lparr>pt_parent = 0, pt_children = [], pt_dead_children = [], pt_threads = [1, 2],
             pt_dead_threads = []\<rparr>"]
  by (simp add: demo_ptm_def)

text \<open>
  A stale identifier at the head of the ready queue hides every ready thread behind it: if the
  thread was deleted while its identifier was still queued (or is queued again by a primitive that
  remembers it), \<^verbatim>\<open>find_next\<close> drops it and returns \<^verbatim>\<open>None\<close>, although living threads are ready.
\<close>

theorem stale_thread_hides_ready:
  assumes "pt_manager pm = Some mg" "thr_ready_queue mg = d # q" "d \<notin> dom (thr_tasks mg)"
  shows "ptm_find_next thread_manage thread_schedule pm =
    Inr (None, pm\<lparr>pt_manager := Some (mg\<lparr>thr_ready_queue := q\<rparr>)\<rparr>)"
  using assms by (simp add: ptm_find_next_def thread_manage_def thread_schedule_def domIff)

theorem stale_thread_hides_ready_witness:
  "\<exists>pm pm'. ptm_re_enque thread_schedule 9 (demo_ptm\<lparr>pt_manager :=
        Some \<lparr>thr_tasks = [0 \<mapsto> 20, 1 \<mapsto> 21], thr_ready_queue = []\<rparr>\<rparr>) = Inr pm
     \<and> ptm_find_next thread_manage thread_schedule pm = Inr (None, pm')"
proof -
  let ?mg = "\<lparr>thr_tasks = [0 \<mapsto> 20, 1 \<mapsto> 21], thr_ready_queue = []\<rparr> :: nat thread_manager"
  let ?pm = "demo_ptm\<lparr>pt_manager := Some (?mg\<lparr>thr_ready_queue := [9]\<rparr>)\<rparr>"
  have "ptm_re_enque thread_schedule 9 (demo_ptm\<lparr>pt_manager := Some ?mg\<rparr>) = Inr ?pm"
    by (simp add: ptm_re_enque_def thread_schedule_def push_back_def)
  with stale_thread_hides_ready [of ?pm "?mg\<lparr>thr_ready_queue := [9]\<rparr>" 9 "[]"] show ?thesis by auto
qed

end
