(* ===== verification/Block_Cache.thy ===== *)
theory Block_Cache
  imports Prelude
begin

text \<open>
  The block layer of \<^verbatim>\<open>easy-fs\<close>: the device trait (\<^verbatim>\<open>easy-fs/src/block_dev.rs\<close>), the write-back cache of
  16 blocks (\<^verbatim>\<open>easy-fs/src/block_cache.rs\<close>) and the device of the image packer
  (\<^verbatim>\<open>xtask/src/fs_pack.rs\<close>). Block numbers are natural numbers: the code only ever widens \<^verbatim>\<open>u32\<close> values
  to \<^verbatim>\<open>usize\<close> here. The locale \<^verbatim>\<open>block_device\<close> states what the file system relies on of a device; inside
  it the predicate \<open>rep\<close> relates a cache state to the logical disk \<open>B\<close> it stands for and to the set \<open>H\<close> of
  blocks whose locks are held.
\<close>

section \<open>Devices\<close>

definition BLOCK_SZ :: nat where "BLOCK_SZ = 512"

record 'd device_ops =
  dev_read :: "nat \<Rightarrow> 'd \<Rightarrow> u8 list res"
  dev_write :: "nat \<Rightarrow> u8 list \<Rightarrow> 'd \<Rightarrow> 'd res"

section \<open>A cached block\<close>

record block_cache =
  cache :: "u8 list"
  block_id :: nat
  modified :: bool

definition block_cache_new :: "'d device_ops \<Rightarrow> nat \<Rightarrow> 'd \<Rightarrow> block_cache res" where
  "block_cache_new D i dev =
     rbind (dev_read D i dev) (\<lambda>b. Inr \<lparr>cache = b, block_id = i, modified = False\<rparr>)"

definition addr_of_offset :: "nat \<Rightarrow> block_cache \<Rightarrow> unit res" where
  "addr_of_offset offset c = rbind (vec_index (cache c) offset) (\<lambda>_. Inr ())"

text \<open>
  \<^verbatim>\<open>get_ref::<T>\<close> and \<^verbatim>\<open>get_mut::<T>\<close> with \<open>n = size_of::<T>()\<close>: the reference is the \<open>n\<close> bytes at
  \<open>offset\<close>, which the caller decodes; a write through the mutable reference is \<open>put_bytes\<close>.
\<close>

definition get_ref :: "nat \<Rightarrow> nat \<Rightarrow> block_cache \<Rightarrow> u8 list res" where
  "get_ref n offset c =
     rbind (rassert (offset + n \<le> BLOCK_SZ)) (\<lambda>_.
     rbind (addr_of_offset offset c) (\<lambda>_. Inr (take n (drop offset (cache c)))))"

definition get_mut :: "nat \<Rightarrow> nat \<Rightarrow> block_cache \<Rightarrow> (u8 list \<times> block_cache) res" where
  "get_mut n offset c =
     rbind (rassert (offset + n \<le> BLOCK_SZ)) (\<lambda>_.
     let c1 = c\<lparr>modified := True\<rparr> in
     rbind (addr_of_offset offset c1) (\<lambda>_. Inr (take n (drop offset (cache c1)), c1)))"

definition put_bytes :: "nat \<Rightarrow> u8 list \<Rightarrow> u8 list \<Rightarrow> u8 list" where
  "put_bytes offset bs b = take offset b @ bs @ drop (offset + length bs) b"

text \<open>\<^verbatim>\<open>BlockCache::sync\<close>, which is also its \<^verbatim>\<open>Drop\<close>.\<close>

definition sync :: "'d device_ops \<Rightarrow> block_cache \<Rightarrow> 'd \<Rightarrow> (block_cache \<times> 'd) res" where
  "sync D c dev =
     (if modified c then
        let c1 = c\<lparr>modified := False\<rparr>
        in rbind (dev_write D (block_id c1) (cache c1) dev) (\<lambda>dev1. Inr (c1, dev1))
      else Inr (c, dev))"

section \<open>The cache manager\<close>

definition BLOCK_CACHE_SIZE :: nat where "BLOCK_CACHE_SIZE = 16"

text \<open>
  An entry of the queue is an \<^verbatim>\<open>Arc<Mutex<BlockCache>>\<close>. Every use in the file system is one statement
  \<^verbatim>\<open>get_block_cache(..).lock().read(..)\<close> or \<^verbatim>\<open>..modify(..)\<close>, so a second reference to the entry exists
  exactly while its lock is held: \<open>slot_locked\<close> stands for both.
\<close>

record cache_slot =
  slot_cache :: block_cache
  slot_locked :: bool

record 'd bstate =
  bqueue :: "(nat \<times> cache_slot) list"
  device :: 'd

text \<open>The entry of block \<open>i\<close>.\<close>

definition slot_at :: "(nat \<times> cache_slot) list \<Rightarrow> nat \<Rightarrow> cache_slot option" where
  "slot_at q i = map_of q i"

definition cache_manager_new :: "'d \<Rightarrow> 'd bstate" where
  "cache_manager_new dev = \<lparr>bqueue = [], device = dev\<rparr>"

definition get_block_cache :: "'d device_ops \<Rightarrow> nat \<Rightarrow> 'd bstate \<Rightarrow> 'd bstate res" where
  "get_block_cache D i st =
     (if find_index (\<lambda>pair. fst pair = i) (bqueue st) \<noteq> None then Inr st
      else
        rbind (if length (bqueue st) = BLOCK_CACHE_SIZE then
                 (case find_index (\<lambda>pair. \<not> slot_locked (snd pair)) (bqueue st) of
                    Some idx \<Rightarrow>
                      rbind (sync D (slot_cache (snd (bqueue st ! idx))) (device st)) (\<lambda>(_, dev1).
                        Inr (st\<lparr>bqueue := remove_at idx (bqueue st), device := dev1\<rparr>))
                  | None \<Rightarrow> Inl Explicit_Panic)
               else Inr st) (\<lambda>st1.
        rbind (block_cache_new D i (device st1)) (\<lambda>c.
          Inr (st1\<lparr>bqueue := push_back (i, \<lparr>slot_cache = c, slot_locked = False\<rparr>) (bqueue st1)\<rparr>))))"

text \<open>
  Locking an entry that the same control flow has locked spins for ever. \<open>unlock_block\<close> is the end of
  the statement: the guard is dropped and the entry holds what the closure left in it.
\<close>

definition lock_block :: "'d device_ops \<Rightarrow> nat \<Rightarrow> 'd bstate \<Rightarrow> (block_cache \<times> 'd bstate) res" where
  "lock_block D i st =
     rbind (get_block_cache D i st) (\<lambda>st1.
     rbind (unwrap (slot_at (bqueue st1) i)) (\<lambda>s.
       if slot_locked s then Inl Self_Deadlock
       else Inr (slot_cache s,
         st1\<lparr>bqueue := map (\<lambda>(j, s'). (j, if j = i then s'\<lparr>slot_locked := True\<rparr> else s')) (bqueue st1)\<rparr>)))"

definition unlock_block :: "nat \<Rightarrow> block_cache \<Rightarrow> 'd bstate \<Rightarrow> 'd bstate" where
  "unlock_block i c st = st\<lparr>bqueue :=
     map (\<lambda>(j, s'). (j, if j = i then \<lparr>slot_cache = c, slot_locked = False\<rparr> else s')) (bqueue st)\<rparr>"

text \<open>
  \<^verbatim>\<open>get_block_cache(i).lock().read(offset, f)\<close> and \<^verbatim>\<open>.modify(offset, f)\<close>. The closure sees the bytes of the
  \<open>n\<close>-byte value at \<open>offset\<close> and may itself use the cache; \<open>modify\<close>'s closure also returns the new bytes.
\<close>

definition block_read ::
    "'d device_ops \<Rightarrow> nat \<Rightarrow> nat \<Rightarrow> nat \<Rightarrow> (u8 list \<Rightarrow> 'd bstate \<Rightarrow> ('v \<times> 'd bstate) res) \<Rightarrow>
     'd bstate \<Rightarrow> ('v \<times> 'd bstate) res" where
  "block_read D i offset n f st =
     rbind (lock_block D i st) (\<lambda>(c, st1).
     rbind (get_ref n offset c) (\<lambda>bs.
     rbind (f bs st1) (\<lambda>(v, st2).
       Inr (v, unlock_block i c st2))))"

definition block_modify ::
    "'d device_ops \<Rightarrow> nat \<Rightarrow> nat \<Rightarrow> nat \<Rightarrow> (u8 list \<Rightarrow> 'd bstate \<Rightarrow> (('v \<times> u8 list) \<times> 'd bstate) res) \<Rightarrow>
     'd bstate \<Rightarrow> ('v \<times> 'd bstate) res" where
  "block_modify D i offset n f st =
     rbind (lock_block D i st) (\<lambda>(c, st1).
     rbind (get_mut n offset c) (\<lambda>(bs, c1).
     rbind (f bs st1) (\<lambda>((v, bs1), st2).
       Inr (v, unlock_block i (c1\<lparr>cache := put_bytes offset bs1 (cache c1)\<rparr>) st2))))"

fun sync_slots :: "'d device_ops \<Rightarrow> (nat \<times> cache_slot) list \<Rightarrow> 'd \<Rightarrow> ((nat \<times> cache_slot) list \<times> 'd) res" where
  "sync_slots D [] dev = Inr ([], dev)"
| "sync_slots D ((i, s) # q) dev =
     (if slot_locked s then Inl Self_Deadlock
      else rbind (sync D (slot_cache s) dev) (\<lambda>(c, dev1).
           rbind (sync_slots D q dev1) (\<lambda>(q1, dev2). Inr ((i, s\<lparr>slot_cache := c\<rparr>) # q1, dev2))))"

definition block_cache_sync_all :: "'d device_ops \<Rightarrow> 'd bstate \<Rightarrow> 'd bstate res" where
  "block_cache_sync_all D st =
     rbind (sync_slots D (bqueue st) (device st)) (\<lambda>(q, dev). Inr (st\<lparr>bqueue := q, device := dev\<rparr>))"

section \<open>The device of the image packer\<close>

text \<open>\<^verbatim>\<open>BlockFile\<close>: a host file, as its bytes; a write behind the end fills the gap with zeros.\<close>

type_synonym block_file = "u8 list"

definition block_file_read :: "nat \<Rightarrow> block_file \<Rightarrow> u8 list res" where
  "block_file_read i f =
     (let buf = take BLOCK_SZ (drop (i * BLOCK_SZ) f)
      in rbind (rassert (length buf = BLOCK_SZ)) (\<lambda>_. Inr buf))"

definition block_file_write :: "nat \<Rightarrow> u8 list \<Rightarrow> block_file \<Rightarrow> block_file res" where
  "block_file_write i buf f =
     rbind (rassert (length buf = BLOCK_SZ)) (\<lambda>_.
       Inr (put_bytes (i * BLOCK_SZ) buf (f @ replicate (i * BLOCK_SZ - length f) 0)))"

definition block_file_ops :: "block_file device_ops" where
  "block_file_ops = \<lparr>dev_read = block_file_read, dev_write = block_file_write\<rparr>"

section \<open>What a device promises\<close>

locale block_device =
  fixes D :: "'d device_ops" and contents :: "'d \<Rightarrow> nat \<Rightarrow> u8 list" and nblk :: nat
    and dev_ok :: "'d \<Rightarrow> bool"
  assumes dev_read: "dev_ok d \<Longrightarrow> i < nblk \<Longrightarrow> dev_read D i d = Inr (contents d i)"
    and length_contents: "dev_ok d \<Longrightarrow> i < nblk \<Longrightarrow> length (contents d i) = BLOCK_SZ"
    and dev_write: "dev_ok d \<Longrightarrow> i < nblk \<Longrightarrow> length b = BLOCK_SZ \<Longrightarrow>
      \<exists>d'. dev_write D i b d = Inr d' \<and> dev_ok d'
        \<and> (\<forall>j < nblk. contents d' j = (if j = i then b else contents d j))"

lemma length_put_bytes [simp]:
  "offset + length bs \<le> length b \<Longrightarrow> length (put_bytes offset bs b) = length b"
  by (simp add: put_bytes_def)

lemma put_bytes_same: "offset + n \<le> length b \<Longrightarrow> put_bytes offset (take n (drop offset b)) b = b"
  by (simp add: put_bytes_def) (metis append_take_drop_id drop_drop add.commute)

lemma get_put_bytes:
  "offset + length bs \<le> length b \<Longrightarrow> take (length bs) (drop offset (put_bytes offset bs b)) = bs"
  by (simp add: put_bytes_def)

lemma put_bytes_all: "length bs = length b \<Longrightarrow> put_bytes 0 bs b = bs"
  by (simp add: put_bytes_def)

definition file_block :: "block_file \<Rightarrow> nat \<Rightarrow> u8 list" where
  "file_block f i = take BLOCK_SZ (drop (i * BLOCK_SZ) f)"

lemma nth_put_bytes:
  assumes "offset + length bs \<le> length b" "k < length b"
  shows "put_bytes offset bs b ! k =
    (if offset \<le> k \<and> k < offset + length bs then bs ! (k - offset) else b ! k)"
  using assms by (auto simp: put_bytes_def nth_append min_def)

lemma file_block_put:
  assumes "length b = BLOCK_SZ" "i < n" "n * BLOCK_SZ \<le> length f" "j < n"
  shows "file_block (put_bytes (i * BLOCK_SZ) b f) j = (if j = i then b else file_block f j)"
proof -
  have le: "k * BLOCK_SZ + BLOCK_SZ \<le> length f" if "k < n" for k
    using mult_le_mono1 [of "Suc k" n BLOCK_SZ] that assms(3) by simp
  show ?thesis
  proof (rule nth_equalityI)
    show "length (file_block (put_bytes (i * BLOCK_SZ) b f) j) =
        length (if j = i then b else file_block f j)"
      using le [OF assms(2)] le [OF assms(4)] assms(1) by (simp add: file_block_def)
  next
    fix k assume "k < length (file_block (put_bytes (i * BLOCK_SZ) b f) j)"
    then have k: "k < BLOCK_SZ" by (simp add: file_block_def)
    have "i * BLOCK_SZ \<le> j * BLOCK_SZ + k \<and> j * BLOCK_SZ + k < i * BLOCK_SZ + BLOCK_SZ \<longleftrightarrow> j = i"
    proof
      assume "i * BLOCK_SZ \<le> j * BLOCK_SZ + k \<and> j * BLOCK_SZ + k < i * BLOCK_SZ + BLOCK_SZ"
      then have "(j * BLOCK_SZ + k) div BLOCK_SZ = i"
        using div_nat_eqI [of BLOCK_SZ i "j * BLOCK_SZ + k"] by (simp add: algebra_simps)
      then show "j = i" using k by simp
    qed (use k in simp)
    then show "file_block (put_bytes (i * BLOCK_SZ) b f) j ! k = (if j = i then b else file_block f j) ! k"
      using k le [OF assms(2)] le [OF assms(4)] assms(1) by (simp add: file_block_def nth_put_bytes)
  qed
qed

interpretation bf: block_device block_file_ops file_block n "\<lambda>f. n * BLOCK_SZ \<le> length f" for n
proof
  fix d :: block_file and i :: nat and b :: "u8 list"
  assume d: "n * BLOCK_SZ \<le> length d" "i < n"
  have le: "i * BLOCK_SZ + BLOCK_SZ \<le> length d"
    using mult_le_mono1 [of "Suc i" n BLOCK_SZ] d by simp
  then show "dev_read block_file_ops i d = Inr (file_block d i)" "length (file_block d i) = BLOCK_SZ"
    by (simp_all add: block_file_ops_def block_file_read_def file_block_def)
  assume b: "length b = BLOCK_SZ"
  have "dev_write block_file_ops i b d = Inr (put_bytes (i * BLOCK_SZ) b d)"
    using le b by (simp add: block_file_ops_def block_file_write_def)
  then show "\<exists>d'. dev_write block_file_ops i b d = Inr d' \<and> n * BLOCK_SZ \<le> length d'
      \<and> (\<forall>j<n. file_block d' j = (if j = i then b else file_block d j))"
    using le b d file_block_put [OF b d(2,1)] by auto
qed

section \<open>The logical disk behind the cache\<close>

definition bc_view :: "('d \<Rightarrow> nat \<Rightarrow> u8 list) \<Rightarrow> 'd bstate \<Rightarrow> nat \<Rightarrow> u8 list" where
  "bc_view contents st i =
     (case slot_at (bqueue st) i of Some s \<Rightarrow> cache (slot_cache s) | None \<Rightarrow> contents (device st) i)"

definition slot_ok :: "('d \<Rightarrow> nat \<Rightarrow> u8 list) \<Rightarrow> nat \<Rightarrow> 'd \<Rightarrow> nat \<Rightarrow> cache_slot \<Rightarrow> bool" where
  "slot_ok contents nblk dev i s \<longleftrightarrow> i < nblk \<and> length (cache (slot_cache s)) = BLOCK_SZ
     \<and> block_id (slot_cache s) = i
     \<and> (\<not> modified (slot_cache s) \<longrightarrow> cache (slot_cache s) = contents dev i)"

definition bc_held :: "(nat \<times> cache_slot) list \<Rightarrow> nat \<rightharpoonup> block_cache" where
  "bc_held q i = (case slot_at q i of
     Some s \<Rightarrow> if slot_locked s then Some (slot_cache s) else None | None \<Rightarrow> None)"

text \<open>
  The state \<open>st\<close> stands for the disk \<open>B\<close> while the locks in \<open>H\<close> are held: the queue is within its bound
  and has no block twice, clean entries agree with the device, and what the cache shows of every block
  of the device is \<open>B\<close>.
\<close>

definition bc_rep ::
    "('d \<Rightarrow> nat \<Rightarrow> u8 list) \<Rightarrow> nat \<Rightarrow> ('d \<Rightarrow> bool) \<Rightarrow> 'd bstate \<Rightarrow> (nat \<Rightarrow> u8 list) \<Rightarrow>
     (nat \<rightharpoonup> block_cache) \<Rightarrow> bool" where
  "bc_rep contents nblk dev_ok st B H \<longleftrightarrow> dev_ok (device st)
     \<and> length (bqueue st) \<le> BLOCK_CACHE_SIZE \<and> distinct (map fst (bqueue st))
     \<and> (\<forall>i s. slot_at (bqueue st) i = Some s \<longrightarrow> slot_ok contents nblk (device st) i s)
     \<and> (\<forall>i < nblk. bc_view contents st i = B i) \<and> H = bc_held (bqueue st)"

text \<open>A fallible computation returns \<open>v\<close> in a state that stands for \<open>B\<close> and \<open>H\<close>.\<close>

definition bc_ret ::
    "('d \<Rightarrow> nat \<Rightarrow> u8 list) \<Rightarrow> nat \<Rightarrow> ('d \<Rightarrow> bool) \<Rightarrow> ('v \<times> 'd bstate) res \<Rightarrow> 'v \<Rightarrow> (nat \<Rightarrow> u8 list) \<Rightarrow>
     (nat \<rightharpoonup> block_cache) \<Rightarrow> bool" where
  "bc_ret contents nblk dev_ok r v B H \<longleftrightarrow> (\<exists>st. r = Inr (v, st) \<and> bc_rep contents nblk dev_ok st B H)"

lemma slot_at_remove_at:
  assumes "distinct (map fst q)" "k < length q"
  shows "slot_at (remove_at k q) j = (if j = fst (q ! k) then None else slot_at q j)"
  using assms unfolding slot_at_def
proof (induction q arbitrary: k)
  case (Cons p q)
  obtain a b where p: "p = (a, b)" by force
  show ?case
  proof (cases k)
    case 0
    with Cons.prems p show ?thesis by (auto simp: map_of_eq_None_iff)
  next
    case (Suc k')
    with Cons.prems p have "fst (q ! k') \<noteq> a" by (auto simp: image_iff)
    with Suc Cons p show ?thesis by auto
  qed
qed simp

lemma distinct_map_remove_at: "distinct (map f q) \<Longrightarrow> distinct (map f (remove_at k q))"
  by (metis distinct_remove_at remove_at_def map_append take_map drop_map)

lemma slot_at_map_entry:
  "slot_at (map (\<lambda>(j, s). (j, if j = i then f s else s)) q) k =
     (if k = i then map_option f (slot_at q i) else slot_at q k)"
  unfolding slot_at_def by (induction q) auto

lemma map_fst_map_entry [simp]:
  "map (fst \<circ> (\<lambda>(j, s). (j, if j = i then f s else s))) q = map fst q"
  by (induction q) auto

lemma map_fst_map_snd: "map fst (map (\<lambda>(i, s). (i, f s)) q) = map fst q"
  by (induction q) auto

lemma slot_at_push_back:
  "slot_at q i = None \<Longrightarrow> slot_at (push_back (i, s) q) j = (if j = i then Some s else slot_at q j)"
  by (auto simp: slot_at_def push_back_def map_of_append map_add_def split: option.split)

lemma slot_at_None: "slot_at q i = None \<longleftrightarrow> i \<notin> fst ` set q"
  by (simp add: slot_at_def map_of_eq_None_iff)

lemma slot_at_mem: "distinct (map fst q) \<Longrightarrow> slot_at q i = Some s \<longleftrightarrow> (i, s) \<in> set q"
  by (simp add: slot_at_def)

lemma dom_bc_held: "dom (bc_held q) \<subseteq> fst ` set q"
proof
  fix i assume "i \<in> dom (bc_held q)"
  then have "slot_at q i \<noteq> None" by (auto simp: bc_held_def split: option.splits)
  then show "i \<in> fst ` set q" by (simp add: slot_at_None)
qed

lemma all_locked_card:
  assumes "distinct (map fst q)" "find_index (\<lambda>p. \<not> slot_locked (snd p)) q = None"
  shows "card (dom (bc_held q)) = length q"
proof -
  have "i \<in> dom (bc_held q)" if "i \<in> fst ` set q" for i
  proof -
    from that obtain s where s: "(i, s) \<in> set q" by force
    then have "slot_at q i = Some s" using assms(1) by (simp add: slot_at_mem)
    moreover have "slot_locked s" using assms(2) s by (auto simp: find_index_None)
    ultimately show ?thesis by (simp add: bc_held_def domIff)
  qed
  then have "dom (bc_held q) = fst ` set q" using dom_bc_held by blast
  then show ?thesis using assms(1) by (metis distinct_card length_map set_map)
qed

context block_device
begin

abbreviation rep :: "'d bstate \<Rightarrow> (nat \<Rightarrow> u8 list) \<Rightarrow> (nat \<rightharpoonup> block_cache) \<Rightarrow> bool" where
  "rep \<equiv> bc_rep contents nblk dev_ok"

abbreviation ret :: "('v \<times> 'd bstate) res \<Rightarrow> 'v \<Rightarrow> (nat \<Rightarrow> u8 list) \<Rightarrow> (nat \<rightharpoonup> block_cache) \<Rightarrow> bool" where
  "ret \<equiv> bc_ret contents nblk dev_ok"

lemma retI [intro]: "rep st B H \<Longrightarrow> ret (Inr (v, st)) v B H"
  by (simp add: bc_ret_def)

lemma retE:
  assumes "ret r v B H" obtains st where "r = Inr (v, st)" "rep st B H"
  using assms by (auto simp: bc_ret_def)

text \<open>Sequencing, the rule every upper layer uses.\<close>

lemma ret_bind:
  assumes "ret r v B H" "\<And>st. rep st B H \<Longrightarrow> ret (k (v, st)) w B' H'"
  shows "ret (rbind r k) w B' H'"
  using assms by (auto simp: bc_ret_def)

lemma rep_length:
  assumes "rep st B H" "i < nblk"
  shows "length (B i) = BLOCK_SZ"
proof (cases "slot_at (bqueue st) i")
  case None
  with assms have "B i = contents (device st) i" by (auto simp: bc_rep_def bc_view_def)
  with assms show ?thesis by (simp add: bc_rep_def length_contents)
next
  case (Some s)
  with assms have "B i = cache (slot_cache s)" "slot_ok contents nblk (device st) i s"
    by (auto simp: bc_rep_def bc_view_def)
  then show ?thesis by (simp add: slot_ok_def)
qed

lemma rep_cong: "rep st B H \<Longrightarrow> (\<And>i. i < nblk \<Longrightarrow> B i = B' i) \<Longrightarrow> rep st B' H"
  by (simp add: bc_rep_def)

lemma rep_finite: "rep st B H \<Longrightarrow> finite (dom H)"
  using finite_subset [OF dom_bc_held] by (auto simp: bc_rep_def)

lemma rep_held:
  assumes "rep st B H" "H i = Some c"
  shows "i < nblk" "cache c = B i" "block_id c = i" "slot_at (bqueue st) i = Some \<lparr>slot_cache = c, slot_locked = True\<rparr>"
proof -
  from assms obtain s where s: "slot_at (bqueue st) i = Some s" "slot_locked s" "slot_cache s = c"
    by (auto simp: bc_rep_def bc_held_def split: option.splits if_splits)
  then have "slot_ok contents nblk (device st) i s" using assms(1) by (simp add: bc_rep_def)
  with s show "i < nblk" "block_id c = i" by (auto simp: slot_ok_def)
  then show "cache c = B i" using assms(1) s by (auto simp: bc_rep_def bc_view_def)
  show "slot_at (bqueue st) i = Some \<lparr>slot_cache = c, slot_locked = True\<rparr>"
    using s by (cases s) simp
qed

text \<open>Writing one cached block back changes the device below, and nothing of what the cache shows.\<close>

lemma sync_ok:
  assumes "dev_ok d" "slot_ok contents nblk d i s"
  obtains d' where "sync D (slot_cache s) d = Inr ((slot_cache s)\<lparr>modified := False\<rparr>, d')" "dev_ok d'"
    "\<And>j. j < nblk \<Longrightarrow> contents d' j = (if j = i then cache (slot_cache s) else contents d j)"
proof (cases "modified (slot_cache s)")
  case True
  with assms dev_write [OF assms(1), of i "cache (slot_cache s)"] that show ?thesis
    by (auto simp: slot_ok_def sync_def Let_def)
next
  case False
  with assms that [of d] show ?thesis by (auto simp: slot_ok_def sync_def)
qed

lemma evict_ok:
  assumes "rep st B H" "k < length (bqueue st)" "\<not> slot_locked (snd (bqueue st ! k))"
  obtains c d' where "sync D (slot_cache (snd (bqueue st ! k))) (device st) = Inr (c, d')"
    "rep (st\<lparr>bqueue := remove_at k (bqueue st), device := d'\<rparr>) B H"
proof -
  obtain j s where js: "bqueue st ! k = (j, s)" by force
  then have s: "slot_at (bqueue st) j = Some s"
    using assms(1,2) by (metis bc_rep_def slot_at_mem nth_mem)
  then have ok: "slot_ok contents nblk (device st) j s" using assms(1) by (simp add: bc_rep_def)
  then obtain d' where d': "sync D (slot_cache s) (device st) = Inr ((slot_cache s)\<lparr>modified := False\<rparr>, d')"
    "dev_ok d'" "\<And>i. i < nblk \<Longrightarrow> contents d' i = (if i = j then cache (slot_cache s) else contents (device st) i)"
    using sync_ok [of "device st" j s] assms(1) by (auto simp: bc_rep_def)
  let ?q = "remove_at k (bqueue st)"
  let ?st = "st\<lparr>bqueue := ?q, device := d'\<rparr>"
  have m: "slot_at ?q i = (if i = j then None else slot_at (bqueue st) i)" for i
    using slot_at_remove_at [OF _ assms(2)] assms(1) js by (simp add: bc_rep_def)
  have "slot_ok contents nblk (d') i s'" if "slot_at ?q i = Some s'" for i s'
    using that assms(1) d'(3) [of i] unfolding m by (auto simp: bc_rep_def slot_ok_def split: if_splits)
  moreover have "bc_view contents ?st i = B i" if "i < nblk" for i
    using assms(1) that d'(3) [OF that] s by (auto simp: bc_rep_def bc_view_def m split: option.split)
  moreover have "bc_held ?q = H"
    using assms(1,3) s js by (auto simp: bc_rep_def bc_held_def m fun_eq_iff)
  ultimately have "rep ?st B H"
    using assms(1,2) d'(2) distinct_map_remove_at [of fst "bqueue st" k] length_remove_at [OF assms(2)]
    by (auto simp: bc_rep_def)
  with that d'(1) js show ?thesis by simp
qed

lemma load_ok:
  assumes "rep st B H" "i < nblk" "slot_at (bqueue st) i = None" "length (bqueue st) < BLOCK_CACHE_SIZE"
  obtains c where "block_cache_new D i (device st) = Inr c"
    "rep (st\<lparr>bqueue := push_back (i, \<lparr>slot_cache = c, slot_locked = False\<rparr>) (bqueue st)\<rparr>) B H"
proof -
  let ?c = "\<lparr>cache = contents (device st) i, block_id = i, modified = False\<rparr>"
  let ?q = "push_back (i, \<lparr>slot_cache = ?c, slot_locked = False\<rparr>) (bqueue st)"
  let ?st = "st\<lparr>bqueue := ?q\<rparr>"
  have d: "dev_ok (device st)" using assms(1) by (simp add: bc_rep_def)
  have m: "slot_at ?q j =
      (if j = i then Some \<lparr>slot_cache = ?c, slot_locked = False\<rparr> else slot_at (bqueue st) j)" for j
    using assms(3) by (simp add: slot_at_push_back)
  have "i \<notin> fst ` set (bqueue st)" using assms(3) by (simp add: slot_at_None)
  moreover have "slot_ok contents nblk (device st) j s'" if "slot_at ?q j = Some s'" for j s'
    using that assms(1,2) length_contents [OF d assms(2)] unfolding m
    by (auto simp: bc_rep_def slot_ok_def split: if_splits)
  moreover have "bc_view contents ?st j = B j" if "j < nblk" for j
    using assms(1,3) that by (auto simp: bc_rep_def bc_view_def m split: option.splits)
  moreover have "bc_held ?q = H"
    using assms(1,3) by (auto simp: bc_rep_def bc_held_def m fun_eq_iff)
  ultimately have "rep ?st B H"
    using assms(1,4) by (simp add: bc_rep_def push_back_def)
  with that dev_read [OF d assms(2)] show ?thesis by (simp add: block_cache_new_def)
qed

lemma get_block_cache_ok:
  assumes "rep st B H" "i < nblk" "card (dom H) < BLOCK_CACHE_SIZE"
  obtains st1 s where "get_block_cache D i st = Inr st1" "rep st1 B H" "slot_at (bqueue st1) i = Some s"
proof (cases "find_index (\<lambda>pair. fst pair = i) (bqueue st)")
  case None
  then have new: "slot_at (bqueue st) i = None"
    by (auto simp: find_index_None slot_at_None)
  have "\<exists>st1. (if length (bqueue st) = BLOCK_CACHE_SIZE then
                 (case find_index (\<lambda>pair. \<not> slot_locked (snd pair)) (bqueue st) of
                    Some idx \<Rightarrow>
                      rbind (sync D (slot_cache (snd (bqueue st ! idx))) (device st)) (\<lambda>(_, dev1).
                        Inr (st\<lparr>bqueue := remove_at idx (bqueue st), device := dev1\<rparr>))
                  | None \<Rightarrow> Inl Explicit_Panic)
               else Inr st) = Inr st1 \<and> rep st1 B H \<and> slot_at (bqueue st1) i = None
              \<and> length (bqueue st1) < BLOCK_CACHE_SIZE"
  proof (cases "length (bqueue st) = BLOCK_CACHE_SIZE")
    case True
    then obtain k where k: "find_index (\<lambda>pair. \<not> slot_locked (snd pair)) (bqueue st) = Some k"
      using all_locked_card [of "bqueue st"] assms(1,3)
      by (cases "find_index (\<lambda>pair. \<not> slot_locked (snd pair)) (bqueue st)") (auto simp: bc_rep_def)
    note lt = find_index_lt [OF k] and un = find_index_nth [OF k]
    from evict_ok [OF assms(1) lt un] obtain c d' where e:
      "sync D (slot_cache (snd (bqueue st ! k))) (device st) = Inr (c, d')"
      "rep (st\<lparr>bqueue := remove_at k (bqueue st), device := d'\<rparr>) B H" by blast
    moreover have "slot_at (remove_at k (bqueue st)) i = None"
      using new set_remove_at_subset [of k "bqueue st"] by (auto simp: slot_at_None)
    ultimately show ?thesis using k lt True by (simp add: length_remove_at)
  next
    case False
    with assms(1) new show ?thesis by (simp add: bc_rep_def)
  qed
  then obtain st1 where st1: "get_block_cache D i st = rbind (block_cache_new D i (device st1)) (\<lambda>c.
          Inr (st1\<lparr>bqueue := push_back (i, \<lparr>slot_cache = c, slot_locked = False\<rparr>) (bqueue st1)\<rparr>))"
    "rep st1 B H" "slot_at (bqueue st1) i = None" "length (bqueue st1) < BLOCK_CACHE_SIZE"
    using None by (auto simp: get_block_cache_def)
  from load_ok [OF st1(2) assms(2) st1(3,4)] obtain c where
    "block_cache_new D i (device st1) = Inr c"
    "rep (st1\<lparr>bqueue := push_back (i, \<lparr>slot_cache = c, slot_locked = False\<rparr>) (bqueue st1)\<rparr>) B H"
    by blast
  with st1(1) that show ?thesis by (simp add: slot_at_push_back [OF st1(3)])
next
  case (Some k)
  from find_index_nth [OF Some] nth_mem [OF find_index_lt [OF Some]]
  have "i \<in> fst ` set (bqueue st)" by auto
  then obtain s where "slot_at (bqueue st) i = Some s"
    by (metis slot_at_None not_Some_eq)
  with Some assms(1) that show ?thesis by (simp add: get_block_cache_def)
qed

lemma lock_block_ok:
  assumes "rep st B H" "i < nblk" "H i = None" "card (dom H) < BLOCK_CACHE_SIZE"
  obtains c st1 where "lock_block D i st = Inr (c, st1)" "rep st1 B (H(i \<mapsto> c))" "cache c = B i"
proof -
  from get_block_cache_ok [OF assms(1,2,4)] obtain st0 s where
    st0: "get_block_cache D i st = Inr st0" "rep st0 B H" "slot_at (bqueue st0) i = Some s" by blast
  have un: "\<not> slot_locked s"
    using st0(2,3) assms(3) by (auto simp: bc_rep_def bc_held_def split: if_splits)
  let ?q = "map (\<lambda>(j, s'). (j, if j = i then s'\<lparr>slot_locked := True\<rparr> else s')) (bqueue st0)"
  have m: "slot_at ?q j = (if j = i then Some (s\<lparr>slot_locked := True\<rparr>) else slot_at (bqueue st0) j)" for j
    using st0(3) by (simp add: slot_at_map_entry)
  have "slot_ok contents nblk (device st0) j s'" if "slot_at ?q j = Some s'" for j s'
    using that st0(2,3) unfolding m by (auto simp: bc_rep_def slot_ok_def split: if_splits)
  moreover have "bc_view contents (st0\<lparr>bqueue := ?q\<rparr>) j = B j" if "j < nblk" for j
    using that st0(2,3) by (auto simp: bc_rep_def bc_view_def m split: option.splits)
  moreover have "bc_held ?q = H(i \<mapsto> slot_cache s)"
    using st0(2) by (auto simp: bc_rep_def bc_held_def m fun_eq_iff)
  ultimately have "rep (st0\<lparr>bqueue := ?q\<rparr>) B (H(i \<mapsto> slot_cache s))"
    using st0(2) by (simp add: bc_rep_def)
  moreover have "cache (slot_cache s) = B i"
    using st0(2,3) assms(2) by (auto simp: bc_rep_def bc_view_def)
  moreover have "lock_block D i st = Inr (slot_cache s, st0\<lparr>bqueue := ?q\<rparr>)"
    using st0(1,3) un by (simp add: lock_block_def)
  ultimately show ?thesis using that by blast
qed

lemma unlock_block_ok:
  assumes "rep st B (H(i \<mapsto> c))" "H i = None" "length (cache c') = BLOCK_SZ" "block_id c' = i"
    and "modified c' \<or> c' = c"
  shows "rep (unlock_block i c' st) (B(i := cache c')) H"
proof -
  note held = rep_held [OF assms(1), of i c, simplified]
  have B: "B i = cache c" using held(2) by simp
  let ?q = "map (\<lambda>(j, s'). (j, if j = i then \<lparr>slot_cache = c', slot_locked = False\<rparr> else s')) (bqueue st)"
  have m: "slot_at ?q j =
      (if j = i then Some \<lparr>slot_cache = c', slot_locked = False\<rparr> else slot_at (bqueue st) j)" for j
    using held(4) by (simp add: slot_at_map_entry)
  have old: "slot_ok contents nblk (device st) i \<lparr>slot_cache = c, slot_locked = True\<rparr>"
    using assms(1) held(4) by (simp add: bc_rep_def)
  have "slot_ok contents nblk (device st) j s'" if "slot_at ?q j = Some s'" for j s'
    using that assms(1,3,4,5) old unfolding m by (auto simp: bc_rep_def slot_ok_def split: if_splits)
  moreover have "bc_view contents (st\<lparr>bqueue := ?q\<rparr>) j = (B(i := cache c')) j" if "j < nblk" for j
    using that assms(1) by (auto simp: bc_rep_def bc_view_def m split: option.splits)
  moreover have "bc_held ?q = H"
    using assms(1,2) by (auto simp: bc_rep_def bc_held_def m fun_eq_iff split: if_splits)
  ultimately show ?thesis
    using assms(1) by (simp add: bc_rep_def unlock_block_def)
qed

text \<open>The two ways in which the file system uses the cache, over the logical disk.\<close>

lemma block_read_ret:
  assumes "rep st B H" "i < nblk" "H i = None" "card (dom H) < BLOCK_CACHE_SIZE"
    and "offset < BLOCK_SZ" "offset + n \<le> BLOCK_SZ"
    and f: "\<And>c st1. rep st1 B (H(i \<mapsto> c)) \<Longrightarrow>
      ret (f (take n (drop offset (B i))) st1) v B' (H(i \<mapsto> c))"
  shows "ret (block_read D i offset n f st) v B' H"
proof -
  obtain c st1 where l: "lock_block D i st = Inr (c, st1)" "rep st1 B (H(i \<mapsto> c))" "cache c = B i"
    by (rule lock_block_ok [OF assms(1-4)])
  obtain st2 where st2: "f (take n (drop offset (B i))) st1 = Inr (v, st2)" "rep st2 B' (H(i \<mapsto> c))"
    by (rule retE [OF f [OF l(2)]])
  have len: "length (cache c) = BLOCK_SZ" using l(3) rep_length [OF assms(1,2)] by simp
  have "get_ref n offset c = Inr (take n (drop offset (B i)))"
    using assms(5,6) len l(3) by (simp add: get_ref_def addr_of_offset_def)
  then have "block_read D i offset n f st = Inr (v, unlock_block i c st2)"
    using l(1) st2(1) by (simp add: block_read_def)
  moreover have "rep (unlock_block i c st2) (B'(i := cache c)) H"
    using unlock_block_ok [OF st2(2) assms(3) len] rep_held(3) [OF st2(2), of i c] by simp
  moreover have "B'(i := cache c) = B'" using rep_held(2) [OF st2(2), of i c] by simp
  ultimately show ?thesis by (auto simp: bc_ret_def)
qed

lemma block_modify_locked:
  assumes "lock_block D i st = Inr (c, st1)" "cache c = B i" "length (B i) = BLOCK_SZ" "H i = None"
    and "offset < BLOCK_SZ" "offset + n \<le> BLOCK_SZ" "length bs = n"
    and "ret (f (take n (drop offset (B i))) st1) (v, bs) B' (H(i \<mapsto> c))"
  shows "ret (block_modify D i offset n f st) v (B'(i := put_bytes offset bs (B i))) H"
proof -
  obtain st2 where st2: "f (take n (drop offset (B i))) st1 = Inr ((v, bs), st2)"
    "rep st2 B' (H(i \<mapsto> c))"
    by (rule retE [OF assms(8)])
  let ?c' = "c\<lparr>modified := True, cache := put_bytes offset bs (B i)\<rparr>"
  have "get_mut n offset c = Inr (take n (drop offset (B i)), c\<lparr>modified := True\<rparr>)"
    using assms(2,3,5,6) by (simp add: get_mut_def addr_of_offset_def)
  then have "block_modify D i offset n f st = Inr (v, unlock_block i ?c' st2)"
    using assms(1,2) st2(1) by (simp add: block_modify_def)
  moreover have "rep (unlock_block i ?c' st2) (B'(i := cache ?c')) H"
    using unlock_block_ok [OF st2(2) assms(4), of ?c'] rep_held(3) [OF st2(2), of i c] assms(2,3,6,7)
    by simp
  ultimately show ?thesis by (auto simp: bc_ret_def)
qed

lemma block_modify_ret:
  assumes "rep st B H" "i < nblk" "H i = None" "card (dom H) < BLOCK_CACHE_SIZE"
    and "offset < BLOCK_SZ" "offset + n \<le> BLOCK_SZ" "length bs = n"
    and f: "\<And>c st1. rep st1 B (H(i \<mapsto> c)) \<Longrightarrow>
      ret (f (take n (drop offset (B i))) st1) (v, bs) B' (H(i \<mapsto> c))"
  shows "ret (block_modify D i offset n f st) v (B'(i := put_bytes offset bs (B i))) H"
proof -
  obtain c st1 where l: "lock_block D i st = Inr (c, st1)" "rep st1 B (H(i \<mapsto> c))" "cache c = B i"
    by (rule lock_block_ok [OF assms(1-4)])
  show ?thesis by (rule block_modify_locked [where B = B and H = H and f = f, OF l(1,3) rep_length [OF assms(1,2)] assms(3,5-7) f [OF l(2)]])
qed

text \<open>The same when the outcome of the closure depends on the state of the cache.\<close>

lemma block_modify_ex:
  assumes "rep st B H" "i < nblk" "H i = None" "card (dom H) < BLOCK_CACHE_SIZE"
    and "offset < BLOCK_SZ" "offset + n \<le> BLOCK_SZ"
    and f: "\<And>c st1. rep st1 B (H(i \<mapsto> c)) \<Longrightarrow> \<exists>v bs B'. length bs = n \<and>
      ret (f (take n (drop offset (B i))) st1) (v, bs) B' (H(i \<mapsto> c)) \<and> P v (B'(i := put_bytes offset bs (B i)))"
  shows "\<exists>v B'. ret (block_modify D i offset n f st) v B' H \<and> P v B'"
proof -
  obtain c st1 where l: "lock_block D i st = Inr (c, st1)" "rep st1 B (H(i \<mapsto> c))" "cache c = B i"
    by (rule lock_block_ok [OF assms(1-4)])
  from f [OF l(2)] obtain v bs B' where o: "length bs = n"
    "ret (f (take n (drop offset (B i))) st1) (v, bs) B' (H(i \<mapsto> c))" "P v (B'(i := put_bytes offset bs (B i)))" by blast
  from block_modify_locked [where B = B and H = H and f = f, OF l(1,3) rep_length [OF assms(1,2)] assms(3,5,6) o(1,2)] o(3) show ?thesis by blast
qed

text \<open>A panic in the closure is a panic of the statement.\<close>

lemma block_modify_fail:
  assumes "rep st B H" "i < nblk" "H i = None" "card (dom H) < BLOCK_CACHE_SIZE"
    and "offset < BLOCK_SZ" "offset + n \<le> BLOCK_SZ"
    and f: "\<And>st1. f (take n (drop offset (B i))) st1 = Inl e"
  shows "block_modify D i offset n f st = Inl e"
proof -
  obtain c st1 where l: "lock_block D i st = Inr (c, st1)" "rep st1 B (H(i \<mapsto> c))" "cache c = B i"
    by (rule lock_block_ok [OF assms(1-4)])
  have len: "length (cache c) = BLOCK_SZ" using l(3) rep_length [OF assms(1,2)] by simp
  then have "get_mut n offset c = Inr (take n (drop offset (B i)), c\<lparr>modified := True\<rparr>)"
    using assms(5,6) l(3) by (simp add: get_mut_def addr_of_offset_def)
  then show ?thesis using l(1) f by (simp add: block_modify_def)
qed

text \<open>Closures that do not use the cache themselves.\<close>

lemma block_read_pure:
  assumes "rep st B H" "i < nblk" "H i = None" "card (dom H) < BLOCK_CACHE_SIZE"
    and "offset < BLOCK_SZ" "offset + n \<le> BLOCK_SZ"
  shows "ret (block_read D i offset n (\<lambda>bs st. Inr (g bs, st)) st) (g (take n (drop offset (B i)))) B H"
  by (rule block_read_ret [OF assms]) (rule retI)

lemma block_modify_pure:
  assumes "rep st B H" "i < nblk" "H i = None" "card (dom H) < BLOCK_CACHE_SIZE"
    and "offset < BLOCK_SZ" "offset + n \<le> BLOCK_SZ"
    and "g (take n (drop offset (B i))) = (v, bs)" "length bs = n"
  shows "ret (block_modify D i offset n (\<lambda>bs st. Inr (g bs, st)) st) v (B(i := put_bytes offset bs (B i))) H"
  using block_modify_ret [OF assms(1-6,8), of "\<lambda>bs st. Inr (g bs, st)" v B] assms(7) by (simp add: retI)

lemma sync_slots_ok:
  assumes "dev_ok d" "\<And>i s. (i, s) \<in> set q \<Longrightarrow> slot_ok contents nblk d i s \<and> \<not> slot_locked s"
    and "distinct (map fst q)"
  obtains d' where "sync_slots D q d =
      Inr (map (\<lambda>(i, s). (i, s\<lparr>slot_cache := (slot_cache s)\<lparr>modified := False\<rparr>\<rparr>)) q, d')"
    "dev_ok d'"
    "\<And>j. j < nblk \<Longrightarrow> contents d' j =
       (case slot_at q j of Some s \<Rightarrow> cache (slot_cache s) | None \<Rightarrow> contents d j)"
proof -
  have "\<exists>d'. sync_slots D q d =
      Inr (map (\<lambda>(i, s). (i, s\<lparr>slot_cache := (slot_cache s)\<lparr>modified := False\<rparr>\<rparr>)) q, d')
    \<and> dev_ok d' \<and> (\<forall>j < nblk. contents d' j =
       (case slot_at q j of Some s \<Rightarrow> cache (slot_cache s) | None \<Rightarrow> contents d j))"
    using assms
  proof (induction q arbitrary: d)
    case Nil
    then show ?case by (simp add: slot_at_def)
  next
    case (Cons p q)
    obtain i s where p: "p = (i, s)" by force
    from Cons.prems(2) [of i s] p have s: "slot_ok contents nblk d i s" "\<not> slot_locked s" by auto
    obtain d1 where d1: "sync D (slot_cache s) d = Inr ((slot_cache s)\<lparr>modified := False\<rparr>, d1)" "dev_ok d1"
      "\<And>j. j < nblk \<Longrightarrow> contents d1 j = (if j = i then cache (slot_cache s) else contents d j)"
      by (rule sync_ok [OF Cons.prems(1) s(1)]) blast
    have i: "i \<notin> fst ` set q" using Cons.prems(3) p by simp
    have "slot_ok contents nblk d1 j t \<and> \<not> slot_locked t" if "(j, t) \<in> set q" for j t
      using that Cons.prems(2) [of j t] p d1(3) [of j] i by (force simp: slot_ok_def)
    from Cons.IH [OF d1(2) this] Cons.prems(3) p obtain d2 where d2:
      "sync_slots D q d1 = Inr (map (\<lambda>(i, s). (i, s\<lparr>slot_cache := (slot_cache s)\<lparr>modified := False\<rparr>\<rparr>)) q, d2)"
      "dev_ok d2" "\<forall>j < nblk. contents d2 j =
         (case slot_at q j of Some s \<Rightarrow> cache (slot_cache s) | None \<Rightarrow> contents d1 j)" by auto
    have "contents d2 j = (case slot_at (p # q) j of Some s \<Rightarrow> cache (slot_cache s) | None \<Rightarrow> contents d j)"
      if "j < nblk" for j
      using that d2(3) d1(3) [OF that] i p slot_at_None [of q j] by (auto simp: slot_at_def)
    then show ?case using p s(2) d1(1) d2(1,2) by simp
  qed
  with that show ?thesis by blast
qed

text \<open>After \<^verbatim>\<open>block_cache_sync_all\<close> with no lock held, the device is the logical disk.\<close>

lemma sync_all_ok:
  assumes "rep st B Map.empty"
  obtains st' where "block_cache_sync_all D st = Inr st'" "rep st' B Map.empty"
    "\<And>i. i < nblk \<Longrightarrow> contents (device st') i = B i"
proof -
  have dis: "distinct (map fst (bqueue st))" and d: "dev_ok (device st)"
    and empty: "bc_held (bqueue st) = Map.empty"
    using assms by (auto simp: bc_rep_def)
  have slots: "slot_ok contents nblk (device st) i s \<and> \<not> slot_locked s" if "(i, s) \<in> set (bqueue st)" for i s
  proof -
    from that have s: "slot_at (bqueue st) i = Some s" using dis by (simp add: slot_at_mem)
    with fun_cong [OF empty, of i] assms show ?thesis
      by (auto simp: bc_rep_def bc_held_def split: if_splits)
  qed
  let ?f = "\<lambda>s. s\<lparr>slot_cache := (slot_cache s)\<lparr>modified := False\<rparr>\<rparr>"
  obtain d' where d': "sync_slots D (bqueue st) (device st) = Inr (map (\<lambda>(i, s). (i, ?f s)) (bqueue st), d')"
    "dev_ok d'" "\<And>j. j < nblk \<Longrightarrow> contents d' j =
       (case slot_at (bqueue st) j of Some s \<Rightarrow> cache (slot_cache s) | None \<Rightarrow> contents (device st) j)"
    by (rule sync_slots_ok [OF d slots dis]) blast+
  let ?q = "map (\<lambda>(i, s). (i, ?f s)) (bqueue st)"
  have m: "slot_at ?q j = map_option ?f (slot_at (bqueue st) j)" for j
    by (simp add: slot_at_def map_of_map)
  have view: "contents d' j = B j" if "j < nblk" for j
    using d'(3) [OF that] assms that by (simp add: bc_rep_def bc_view_def)
  have "slot_ok contents nblk d' j s" if q: "slot_at ?q j = Some s" for j s
  proof -
    from q obtain t where t: "slot_at (bqueue st) j = Some t" "s = ?f t" unfolding m by auto
    then have "slot_ok contents nblk (device st) j t" using assms by (simp add: bc_rep_def)
    with t d'(3) [of j] show ?thesis by (simp add: slot_ok_def)
  qed
  moreover have "bc_view contents (st\<lparr>bqueue := ?q, device := d'\<rparr>) j = B j" if "j < nblk" for j
    using view [OF that] d'(3) [OF that] by (simp add: bc_view_def m split: option.splits)
  moreover have "bc_held ?q j = None" for j
    using fun_cong [OF empty, of j] by (auto simp: bc_held_def m split: option.splits if_splits)
  moreover have "map fst ?q = map fst (bqueue st)" by (rule map_fst_map_snd)
  ultimately have "rep (st\<lparr>bqueue := ?q, device := d'\<rparr>) B Map.empty"
    using assms d'(2) by (simp add: bc_rep_def fun_eq_iff del: map_map)
  with that d'(1) view show ?thesis by (simp add: block_cache_sync_all_def)
qed

end

section \<open>Properties\<close>

text \<open>
  Accesses of the file system to the cache, and what they do to a plain array of blocks.
\<close>

datatype cache_op = Read_Op nat nat nat | Write_Op nat nat "u8 list"

fun op_ok :: "nat \<Rightarrow> cache_op \<Rightarrow> bool" where
  "op_ok nblk (Read_Op i offset n) \<longleftrightarrow> i < nblk \<and> offset < BLOCK_SZ \<and> offset + n \<le> BLOCK_SZ"
| "op_ok nblk (Write_Op i offset bs) \<longleftrightarrow> i < nblk \<and> offset < BLOCK_SZ \<and> offset + length bs \<le> BLOCK_SZ"

fun run_cache :: "'d device_ops \<Rightarrow> cache_op list \<Rightarrow> 'd bstate \<Rightarrow> (u8 list list \<times> 'd bstate) res" where
  "run_cache D [] st = Inr ([], st)"
| "run_cache D (Read_Op i offset n # ops) st =
     rbind (block_read D i offset n (\<lambda>bs st. Inr (bs, st)) st) (\<lambda>(bs, st1).
     rbind (run_cache D ops st1) (\<lambda>(out, st2). Inr (bs # out, st2)))"
| "run_cache D (Write_Op i offset bs # ops) st =
     rbind (block_modify D i offset (length bs) (\<lambda>_ st. Inr (((), bs), st)) st) (\<lambda>(_, st1).
     run_cache D ops st1)"

fun run_disk :: "cache_op list \<Rightarrow> (nat \<Rightarrow> u8 list) \<Rightarrow> u8 list list \<times> (nat \<Rightarrow> u8 list)" where
  "run_disk [] B = ([], B)"
| "run_disk (Read_Op i offset n # ops) B =
     (let (out, B') = run_disk ops B in (take n (drop offset (B i)) # out, B'))"
| "run_disk (Write_Op i offset bs # ops) B = run_disk ops (B(i := put_bytes offset bs (B i)))"

text \<open>
  C4. The write-back cache of 16 blocks is invisible: on every device that behaves as an array of
  blocks, any sequence of reads and writes through the cache runs without a panic, returns what the
  same sequence returns on a plain array of blocks, and after \<^verbatim>\<open>block_cache_sync_all\<close> the device holds
  exactly that array: no eviction, in any order, loses or reorders a write.
\<close>

theorem block_cache_refines_disk:
  assumes "block_device D contents nblk dev_ok" "bc_rep contents nblk dev_ok st B Map.empty"
    and "list_all (op_ok nblk) ops"
  shows "\<exists>st1 st2. run_cache D ops st = Inr (fst (run_disk ops B), st1)
    \<and> block_cache_sync_all D st1 = Inr st2
    \<and> (\<forall>i < nblk. contents (device st2) i = snd (run_disk ops B) i)
    \<and> length (bqueue st2) \<le> BLOCK_CACHE_SIZE"
proof -
  note dev = assms(1)
  have "bc_ret contents nblk dev_ok (run_cache D ops st) (fst (run_disk ops B)) (snd (run_disk ops B)) Map.empty"
    using assms(2,3)
  proof (induction ops arbitrary: st B)
    case Nil
    then show ?case by (simp add: bc_ret_def)
  next
    case (Cons a ops)
    show ?case
    proof (cases a)
      case (Read_Op i offset n)
      have "bc_ret contents nblk dev_ok (block_read D i offset n (\<lambda>bs st. Inr (bs, st)) st)
          (take n (drop offset (B i))) B Map.empty"
        using block_device.block_read_pure [OF dev Cons.prems(1), where g = "\<lambda>x. x"] Cons.prems(2) Read_Op
        by (simp add: BLOCK_CACHE_SIZE_def)
      with Cons.IH Cons.prems(2) Read_Op show ?thesis
        by (fastforce simp: bc_ret_def split_def Let_def)
    next
      case (Write_Op i offset bs)
      have "bc_ret contents nblk dev_ok (block_modify D i offset (length bs) (\<lambda>_ st. Inr (((), bs), st)) st)
          () (B(i := put_bytes offset bs (B i))) Map.empty"
        using block_device.block_modify_pure [OF dev Cons.prems(1), where g = "\<lambda>_. ((), bs)"]
          Cons.prems(2) Write_Op
        by (simp add: BLOCK_CACHE_SIZE_def)
      with Cons.IH Cons.prems(2) Write_Op show ?thesis
        by (fastforce simp: bc_ret_def)
    qed
  qed
  then obtain st1 where st1: "run_cache D ops st = Inr (fst (run_disk ops B), st1)"
    "bc_rep contents nblk dev_ok st1 (snd (run_disk ops B)) Map.empty"
    by (auto simp: bc_ret_def)
  obtain st2 where "block_cache_sync_all D st1 = Inr st2"
    "bc_rep contents nblk dev_ok st2 (snd (run_disk ops B)) Map.empty"
    "\<And>i. i < nblk \<Longrightarrow> contents (device st2) i = snd (run_disk ops B) i"
    by (rule block_device.sync_all_ok [OF dev st1(2)]) blast
  with st1(1) show ?thesis by (auto simp: bc_rep_def)
qed

lemma bc_rep_new:
  "dev_ok d \<Longrightarrow> bc_rep contents nblk dev_ok (cache_manager_new d) (contents d) Map.empty"
  by (simp add: bc_rep_def cache_manager_new_def bc_view_def slot_at_def bc_held_def fun_eq_iff)

theorem block_cache_refines_disk_witness:
  "\<exists>st1 st2. run_cache block_file_ops [Write_Op 0 1 [7, 8], Read_Op 0 0 4, Read_Op 1 0 1]
       (cache_manager_new (replicate 1024 0)) = Inr ([[0, 7, 8, 0], [0]], st1)
     \<and> block_cache_sync_all block_file_ops st1 = Inr st2"
  using block_cache_refines_disk
    [OF bf.block_device_axioms bc_rep_new [of _ "replicate 1024 0" file_block 2],
     of "[Write_Op 0 1 [7, 8], Read_Op 0 0 4, Read_Op 1 0 1]"]
  by (auto simp: BLOCK_SZ_def file_block_def put_bytes_def)

text \<open>
  A closure must not use the block it holds: reading or modifying a block whose lock is held by
  the same control flow spins for ever, and with all 16 entries in use a new block cannot be cached.
\<close>

theorem cache_misuse:
  assumes "block_device D contents nblk dev_ok" "bc_rep contents nblk dev_ok st B H" "H i = Some c"
  shows "block_read D i offset n f st = Inl Self_Deadlock
    \<and> block_modify D i offset n g st = Inl Self_Deadlock
    \<and> (card (dom H) = BLOCK_CACHE_SIZE \<longrightarrow> j < nblk \<longrightarrow> H j = None \<longrightarrow>
         get_block_cache D j st = Inl Explicit_Panic)"
proof -
  have slot: "slot_at (bqueue st) i = Some \<lparr>slot_cache = c, slot_locked = True\<rparr>"
    by (rule block_device.rep_held(4) [OF assms])
  then have "i \<in> fst ` set (bqueue st)" using slot_at_None [of "bqueue st" i] by auto
  then obtain k where "find_index (\<lambda>pair. fst pair = i) (bqueue st) = Some k"
    by (cases "find_index (\<lambda>pair. fst pair = i) (bqueue st)") (auto simp: find_index_None)
  with slot have "lock_block D i st = Inl Self_Deadlock"
    by (simp add: lock_block_def get_block_cache_def)
  moreover have "get_block_cache D j st = Inl Explicit_Panic"
    if full: "card (dom H) = BLOCK_CACHE_SIZE" and j: "H j = None"
  proof -
    have H: "H = bc_held (bqueue st)" and len: "length (bqueue st) \<le> BLOCK_CACHE_SIZE"
      and dis: "distinct (map fst (bqueue st))" using assms(2) by (auto simp: bc_rep_def)
    have ids: "card (fst ` set (bqueue st)) = length (bqueue st)"
      using dis by (metis distinct_card length_map set_map)
    have sub: "dom H \<subseteq> fst ` set (bqueue st)" using dom_bc_held H by simp
    then have eq: "dom H = fst ` set (bqueue st)" and l: "length (bqueue st) = BLOCK_CACHE_SIZE"
      using card_mono [OF _ sub] card_subset_eq [OF _ sub] full len ids by auto
    have "slot_locked (snd p)" if "p \<in> set (bqueue st)" for p
    proof -
      obtain a s where p: "p = (a, s)" by force
      then have "slot_at (bqueue st) a = Some s" using that dis by (simp add: slot_at_mem)
      moreover have "H a \<noteq> None" using eq that p by force
      ultimately show ?thesis using H p by (auto simp: bc_held_def split: if_splits)
    qed
    then have "find_index (\<lambda>pair. \<not> slot_locked (snd pair)) (bqueue st) = None"
      by (simp add: find_index_None)
    moreover have "find_index (\<lambda>pair. fst pair = j) (bqueue st) = None"
      using j eq by (force simp: find_index_None)
    ultimately show ?thesis using l by (simp add: get_block_cache_def)
  qed
  ultimately show ?thesis by (simp add: block_read_def block_modify_def)
qed

theorem cache_misuse_witness:
  "block_read block_file_ops 0 0 4 (\<lambda>bs st. Inr (bs, st))
     \<lparr>bqueue = [(0, \<lparr>slot_cache = \<lparr>cache = replicate 512 0, block_id = 0, modified = False\<rparr>,
                    slot_locked = True\<rparr>)],
      device = replicate 512 0\<rparr> = Inl Self_Deadlock"
proof -
  let ?c = "\<lparr>cache = replicate 512 0, block_id = 0, modified = False\<rparr> :: block_cache"
  let ?st = "\<lparr>bqueue = [(0, \<lparr>slot_cache = ?c, slot_locked = True\<rparr>)], device = replicate 512 0\<rparr>"
  have "bc_rep file_block 1 (\<lambda>f. 1 * BLOCK_SZ \<le> length f) ?st (file_block (replicate 512 0)) [0 \<mapsto> ?c]"
    by (auto simp: bc_rep_def BLOCK_SZ_def BLOCK_CACHE_SIZE_def slot_at_def slot_ok_def file_block_def
        bc_view_def bc_held_def fun_eq_iff)
  from cache_misuse [OF bf.block_device_axioms this, of 0 ?c, THEN conjunct1] show ?thesis by simp
qed

end
