(* ===== verification/Codec.thy ===== *)
theory Codec
  imports Prelude
begin

text \<open>
  Arrays of little-endian words inside a block: what the \<^verbatim>\<open>repr(C)\<close> reinterpretation of cached bytes as
  \<^verbatim>\<open>[u64; 64]\<close> or \<^verbatim>\<open>[u32; 128]\<close> means on the RISC-V target, with its round trips and the effect of
  updating one element.
\<close>

definition of_le_array :: "nat \<Rightarrow> nat \<Rightarrow> u8 list \<Rightarrow> 'a::len word list" where
  "of_le_array k n bs = map (\<lambda>i. of_le (take k (drop (k * i) bs))) [0..<n]"

definition to_le_array :: "nat \<Rightarrow> 'a::len word list \<Rightarrow> u8 list" where
  "to_le_array k ws = concat (map (to_le k) ws)"

lemma length_of_le_array [simp]: "length (of_le_array k n bs) = n"
  by (simp add: of_le_array_def)

lemma length_to_le_array [simp]: "length (to_le_array k ws) = k * length ws"
  by (induction ws) (simp_all add: to_le_array_def)

lemma to_le_array_simps [simp]:
  "to_le_array k [] = []" "to_le_array k (w # ws) = to_le k w @ to_le_array k ws"
  by (simp_all add: to_le_array_def)

lemma chunk_to_le_array:
  "i < length ws \<Longrightarrow> take k (drop (k * i) (to_le_array k ws)) = to_le k (ws ! i)"
proof (induction ws arbitrary: i)
  case (Cons w ws)
  then show ?case by (cases i) simp_all
qed simp

lemma of_le_to_le_array:
  fixes ws :: "'a::len word list"
  assumes "LENGTH('a) \<le> 8 * k" "length ws = n"
  shows "of_le_array k n (to_le_array k ws) = ws"
  using assms by (auto simp: of_le_array_def chunk_to_le_array of_le_to_le intro!: nth_equalityI)

lemma to_le_of_le_array:
  assumes "LENGTH('a::len) = 8 * k" "length bs = k * n"
  shows "to_le_array k (of_le_array k n bs :: 'a word list) = bs"
  using assms(2)
proof (induction n arbitrary: bs)
  case (Suc n)
  have "of_le_array k (Suc n) bs = (of_le (take k bs) :: 'a word) # of_le_array k n (drop k bs)"
    unfolding of_le_array_def by (simp add: map_upt_Suc algebra_simps del: upt_Suc)
  moreover have "to_le k (of_le (take k bs) :: 'a word) = take k bs"
    using to_le_of_le [of "take k bs", where 'a = 'a] assms(1) Suc.prems by simp
  moreover have "to_le_array k (of_le_array k n (drop k bs) :: 'a word list) = drop k bs"
    using Suc.prems by (intro Suc.IH) simp
  ultimately show ?case by simp
qed (simp add: of_le_array_def)

lemma nth_of_le_array: "i < n \<Longrightarrow> of_le_array k n bs ! i = of_le (take k (drop (k * i) bs))"
  by (simp add: of_le_array_def)

end
