(* ===== verification/Bitmap.thy ===== *)
theory Bitmap
  imports Block_Cache Codec
begin

text \<open>
  The allocation bitmaps of \<^verbatim>\<open>easy-fs/src/bitmap.rs\<close>: a run of blocks, each read as 64 words of 64 bits;
  \<open>bitmap_bit\<close> is the abstract state, a predicate over bit numbers.
\<close>

definition BLOCK_BITS :: nat where "BLOCK_BITS = BLOCK_SZ * 8"

record bitmap =
  start_block_id :: nat
  blocks :: nat

definition decomposition :: "nat \<Rightarrow> nat \<times> nat \<times> nat" where
  "decomposition b = (let block_pos = b div BLOCK_BITS; b1 = b mod BLOCK_BITS
     in (block_pos, b1 div 64, b1 mod 64))"

definition bitmap_new :: "nat \<Rightarrow> nat \<Rightarrow> bitmap" where
  "bitmap_new start n = \<lparr>start_block_id = start, blocks = n\<rparr>"

text \<open>The closure of \<^verbatim>\<open>alloc\<close>: the first word that is not full, its first clear bit.\<close>

definition alloc_in_block :: "nat \<Rightarrow> u64 list \<Rightarrow> nat option \<times> u64 list" where
  "alloc_in_block blk bitmap_block =
     (case map_option (\<lambda>p. (p, trailing_ones (bitmap_block ! p)))
             (find_index (\<lambda>bits64. bits64 \<noteq> - 1) bitmap_block) of
        Some (bits64_pos, inner_pos) \<Rightarrow>
          (Some (blk * BLOCK_BITS + bits64_pos * 64 + inner_pos),
           bitmap_block[bits64_pos := bitmap_block ! bits64_pos OR push_bit inner_pos 1])
      | None \<Rightarrow> (None, bitmap_block))"

fun bitmap_alloc_from ::
    "'d device_ops \<Rightarrow> bitmap \<Rightarrow> nat list \<Rightarrow> 'd bstate \<Rightarrow> (nat option \<times> 'd bstate) res" where
  "bitmap_alloc_from D bm [] st = Inr (None, st)"
| "bitmap_alloc_from D bm (blk # rest) st =
     rbind (block_modify D (blk + start_block_id bm) 0 BLOCK_SZ
              (\<lambda>bs st. Inr (let (pos, ws) = alloc_in_block blk (of_le_array 8 64 bs)
                            in ((pos, to_le_array 8 ws), st))) st) (\<lambda>(pos, st1).
       if pos \<noteq> None then Inr (pos, st1) else bitmap_alloc_from D bm rest st1)"

definition bitmap_alloc ::
    "'d device_ops \<Rightarrow> bitmap \<Rightarrow> 'd bstate \<Rightarrow> (nat option \<times> 'd bstate) res" where
  "bitmap_alloc D bm st = bitmap_alloc_from D bm [0..<blocks bm] st"

definition bitmap_dealloc ::
    "'d device_ops \<Rightarrow> bitmap \<Rightarrow> nat \<Rightarrow> 'd bstate \<Rightarrow> (unit \<times> 'd bstate) res" where
  "bitmap_dealloc D bm b st =
     (let (block_pos, bits64_pos, inner_pos) = decomposition b
      in block_modify D (block_pos + start_block_id bm) 0 BLOCK_SZ
           (\<lambda>bs st. let ws = of_le_array 8 64 bs :: u64 list in
              rbind (vec_index ws bits64_pos) (\<lambda>w.
              rbind (rassert (w AND push_bit inner_pos 1 > 0)) (\<lambda>_.
                Inr (((), to_le_array 8 (ws[bits64_pos := w - push_bit inner_pos 1])), st)))) st)"

definition bitmap_maximum :: "bitmap \<Rightarrow> nat" where
  "bitmap_maximum bm = blocks bm * BLOCK_BITS"

section \<open>Bits of a block\<close>

text \<open>Bit \<open>k\<close> of a block, and bit \<open>b\<close> of the whole bitmap on a disk \<open>B\<close>.\<close>

definition word_bit :: "u64 list \<Rightarrow> nat \<Rightarrow> bool" where
  "word_bit ws k = bit (ws ! (k div 64)) (k mod 64)"

definition bitmap_bit :: "bitmap \<Rightarrow> (nat \<Rightarrow> u8 list) \<Rightarrow> nat \<Rightarrow> bool" where
  "bitmap_bit bm B b =
     word_bit (of_le_array 8 64 (B (b div BLOCK_BITS + start_block_id bm))) (b mod BLOCK_BITS)"

lemma BLOCK_BITS_eq: "BLOCK_BITS = 4096"
  by (simp add: BLOCK_BITS_def BLOCK_SZ_def)

lemma word_bit_update:
  assumes "p < length ws" "k < 64 * length ws"
  shows "word_bit (ws[p := w]) k = (if k div 64 = p then bit w (k mod 64) else word_bit ws k)"
  using assms by (simp add: word_bit_def nth_list_update)

lemma div_mod_64: "p * 64 + i = k \<Longrightarrow> i < 64 \<Longrightarrow> k div 64 = p \<and> k mod 64 = (i::nat)"
  by auto

lemma alloc_in_block_None:
  assumes "alloc_in_block blk ws = (None, ws')" "k < 64 * length ws"
  shows "word_bit ws k" "ws' = ws"
proof -
  from assms(1) have all: "find_index (\<lambda>bits64. bits64 \<noteq> - 1) ws = None" and "ws' = ws"
    by (auto simp: alloc_in_block_def split: option.splits)
  show "ws' = ws" by fact
  have "k div 64 < length ws" using assms(2) by (simp add: less_mult_imp_div_less mult.commute)
  with all have "ws ! (k div 64) = - 1" by (simp add: find_index_None)
  then show "word_bit ws k" by (simp add: word_bit_def)
qed

lemma alloc_in_block_Some:
  assumes "alloc_in_block blk ws = (Some b, ws')"
  obtains k where "b = blk * BLOCK_BITS + k" "k < 64 * length ws" "\<not> word_bit ws k"
    "\<And>j. j < k \<Longrightarrow> word_bit ws j" "length ws' = length ws"
    "\<And>j. j < 64 * length ws \<Longrightarrow> word_bit ws' j \<longleftrightarrow> j = k \<or> word_bit ws j"
proof -
  from assms obtain p where p: "find_index (\<lambda>bits64. bits64 \<noteq> - 1) ws = Some p"
    and b: "b = blk * BLOCK_BITS + (p * 64 + trailing_ones (ws ! p))"
    and ws': "ws' = ws[p := ws ! p OR push_bit (trailing_ones (ws ! p)) 1]"
    by (auto simp: alloc_in_block_def split: option.splits)
  let ?i = "trailing_ones (ws ! p)"
  note lt = find_index_lt [OF p]
  have ne: "ws ! p \<noteq> - 1" using find_index_nth [OF p] by simp
  note t = trailing_ones_bit [OF ne]
  have i: "?i < 64" using t(3) by simp
  have k: "(p * 64 + ?i) div 64 = p" "(p * 64 + ?i) mod 64 = ?i" using i by simp_all
  have full: "word_bit ws j" if "j < p * 64 + ?i" for j
  proof (cases "j div 64 = p")
    case True
    then have "j mod 64 < ?i" using that by (metis add_less_cancel_left div_mod_decomp mult.commute)
    then show ?thesis using t(2) True by (simp add: word_bit_def)
  next
    case False
    have "j div 64 \<le> p" using that i by (simp add: div_le_mono [of j "p * 64 + ?i" 64, unfolded k] less_imp_le)
    with False have "j div 64 < p" by simp
    then have "ws ! (j div 64) = - 1" using p by (simp add: find_index_Some)
    then show ?thesis by (simp add: word_bit_def)
  qed
  have "word_bit ws' j \<longleftrightarrow> j = p * 64 + ?i \<or> word_bit ws j" if "j < 64 * length ws" for j
  proof -
    have "j mod 64 = ?i \<and> j div 64 = p \<longleftrightarrow> j = p * 64 + ?i"
      using k by (metis div_mult_mod_eq)
    then show ?thesis
      unfolding ws' word_bit_update [OF lt that] using i
      by (auto simp: bit_or_iff bit_single word_bit_def simp del: push_bit_of_1)
  qed
  moreover have "\<not> word_bit ws (p * 64 + ?i)" using t(1) k by (simp add: word_bit_def)
  moreover have "p * 64 + ?i < 64 * length ws"
    using mult_le_mono1 [of "Suc p" "length ws" 64] lt i by (simp add: mult.commute)
  ultimately show ?thesis using that [OF b] full ws' by simp
qed

section \<open>The bitmap on the disk\<close>

text \<open>Block \<open>q\<close> of a bitmap of a disk on which all blocks have their size.\<close>

definition bitmap_words :: "bitmap \<Rightarrow> (nat \<Rightarrow> u8 list) \<Rightarrow> nat \<Rightarrow> u64 list" where
  "bitmap_words bm B q = of_le_array 8 64 (B (q + start_block_id bm))"

lemma length_bitmap_words [simp]: "length (bitmap_words bm B q) = 64"
  by (simp add: bitmap_words_def)

lemma bitmap_bit_words: "k < BLOCK_BITS \<Longrightarrow> bitmap_bit bm B (q * BLOCK_BITS + k) = word_bit (bitmap_words bm B q) k"
  by (simp add: bitmap_bit_def bitmap_words_def BLOCK_BITS_eq)

text \<open>The blocks of the bitmap are blocks of the device and not locked.\<close>

definition bitmap_free :: "nat \<Rightarrow> bitmap \<Rightarrow> (nat \<rightharpoonup> block_cache) \<Rightarrow> bool" where
  "bitmap_free nblk bm H \<longleftrightarrow> card (dom H) < BLOCK_CACHE_SIZE
     \<and> (\<forall>q < blocks bm. q + start_block_id bm < nblk \<and> H (q + start_block_id bm) = None)"

definition disk_set_words :: "bitmap \<Rightarrow> nat \<Rightarrow> u64 list \<Rightarrow> (nat \<Rightarrow> u8 list) \<Rightarrow> nat \<Rightarrow> u8 list" where
  "disk_set_words bm q ws B = B(q + start_block_id bm := to_le_array 8 ws)"

lemma bitmap_words_set:
  "length ws = 64 \<Longrightarrow> bitmap_words bm (disk_set_words bm q ws B) r = (if r = q then ws else bitmap_words bm B r)"
  by (simp add: bitmap_words_def disk_set_words_def of_le_to_le_array)

lemma disk_set_words_same:
  "length (B (q + start_block_id bm)) = BLOCK_SZ \<Longrightarrow> disk_set_words bm q (bitmap_words bm B q) B = B"
  by (simp add: disk_set_words_def bitmap_words_def to_le_of_le_array [where 'a = 64] BLOCK_SZ_def)

lemma bitmap_bit_set:
  assumes "length ws = 64"
    "\<And>j. j < BLOCK_BITS \<Longrightarrow> word_bit ws j \<longleftrightarrow> (if j = k then v else word_bit (bitmap_words bm B q) j)"
    "k < BLOCK_BITS"
  shows "bitmap_bit bm (disk_set_words bm q ws B) b =
    (if b = q * BLOCK_BITS + k then v else bitmap_bit bm B b)"
proof -
  let ?q = "b div BLOCK_BITS" and ?j = "b mod BLOCK_BITS"
  have b: "b = ?q * BLOCK_BITS + ?j" and j: "?j < BLOCK_BITS" by (simp_all add: BLOCK_BITS_eq)
  have "b = q * BLOCK_BITS + k \<longleftrightarrow> ?q = q \<and> ?j = k"
    using b assms(3) by (metis add.commute div_mult_self3 div_less mod_mult_self3 mod_less
        BLOCK_BITS_eq add_0 zero_neq_numeral)
  moreover have "bitmap_bit bm C b = word_bit (bitmap_words bm C ?q) ?j" for C
    using bitmap_bit_words [OF j] b by metis
  ultimately show ?thesis using assms(2) [OF j] bitmap_words_set [OF assms(1)] by auto
qed

context block_device
begin

lemma bitmap_alloc_block:
  assumes "rep st B H" "bitmap_free nblk bm H" "q < blocks bm"
    and "alloc_in_block q (bitmap_words bm B q) = (pos, ws)"
  shows "ret (block_modify D (q + start_block_id bm) 0 BLOCK_SZ
              (\<lambda>bs st. Inr (let (pos, ws) = alloc_in_block q (of_le_array 8 64 bs)
                            in ((pos, to_le_array 8 ws), st))) st) pos (disk_set_words bm q ws B) H"
proof -
  have q: "q + start_block_id bm < nblk" "H (q + start_block_id bm) = None"
    "card (dom H) < BLOCK_CACHE_SIZE" using assms(2,3) by (auto simp: bitmap_free_def)
  have len: "length (B (q + start_block_id bm)) = BLOCK_SZ" by (rule rep_length [OF assms(1) q(1)])
  have "length ws = 64"
  proof (cases pos)
    case None
    then show ?thesis using assms(4) alloc_in_block_None(2) [of q "bitmap_words bm B q" ws 0] by simp
  next
    case (Some b)
    then show ?thesis using assms(4) alloc_in_block_Some [of q "bitmap_words bm B q" b ws] by auto
  qed
  then have l: "length (to_le_array 8 ws) = BLOCK_SZ" by (simp add: BLOCK_SZ_def)
  have "ret (block_modify D (q + start_block_id bm) 0 BLOCK_SZ
      (\<lambda>bs st. Inr ((\<lambda>bs. let (pos, ws) = alloc_in_block q (of_le_array 8 64 bs)
                          in (pos, to_le_array 8 ws)) bs, st)) st) pos
      (B(q + start_block_id bm := put_bytes 0 (to_le_array 8 ws) (B (q + start_block_id bm)))) H"
    using assms(4) len l
    by (intro block_modify_pure [OF assms(1) q]) (simp_all add: bitmap_words_def BLOCK_SZ_def)
  then show ?thesis using l len by (simp add: put_bytes_all disk_set_words_def split_def Let_def)
qed

lemma bitmap_alloc_from_ok:
  assumes "rep st B H" "bitmap_free nblk bm H" "q \<le> blocks bm"
    and "\<And>c. c < q * BLOCK_BITS \<Longrightarrow> bitmap_bit bm B c"
  shows "(\<exists>b B'. ret (bitmap_alloc_from D bm [q..<blocks bm] st) (Some b) B' H
      \<and> b < bitmap_maximum bm \<and> \<not> bitmap_bit bm B b \<and> (\<forall>c < b. bitmap_bit bm B c)
      \<and> (\<forall>c. bitmap_bit bm B' c \<longleftrightarrow> c = b \<or> bitmap_bit bm B c)
      \<and> (\<forall>i. i \<noteq> b div BLOCK_BITS + start_block_id bm \<longrightarrow> B' i = B i))
    \<or> ret (bitmap_alloc_from D bm [q..<blocks bm] st) None B H
      \<and> (\<forall>c < bitmap_maximum bm. bitmap_bit bm B c)"
  using assms
proof (induction "blocks bm - q" arbitrary: q st)
  case 0
  then have "q = blocks bm" by simp
  with 0 show ?case by (simp add: bitmap_maximum_def retI)
next
  case (Suc n)
  then have q: "q < blocks bm" by simp
  then have upt: "[q..<blocks bm] = q # [Suc q..<blocks bm]" by (simp add: upt_conv_Cons)
  obtain pos ws where a: "alloc_in_block q (bitmap_words bm B q) = (pos, ws)" by force
  note step = bitmap_alloc_block [OF Suc.prems(1,2) q a]
  show ?case
  proof (cases pos)
    case None
    note full = alloc_in_block_None [OF a [unfolded None]]
    have "length (B (q + start_block_id bm)) = BLOCK_SZ"
      using Suc.prems(2) q by (intro rep_length [OF Suc.prems(1)]) (simp add: bitmap_free_def)
    then have same: "disk_set_words bm q ws B = B"
      using full(2) [of 0] by (simp add: disk_set_words_same)
    have bits: "bitmap_bit bm B c" if "c < Suc q * BLOCK_BITS" for c
    proof (cases "c < q * BLOCK_BITS")
      case True
      then show ?thesis by (rule Suc.prems(4))
    next
      case False
      then have "c = q * BLOCK_BITS + (c - q * BLOCK_BITS)" "c - q * BLOCK_BITS < BLOCK_BITS"
        using that by auto
      then show ?thesis using full(1) bitmap_bit_words [of "c - q * BLOCK_BITS" bm B q]
        by (metis BLOCK_BITS_eq length_bitmap_words mult_numeral_1 numeral_times_numeral
            semiring_norm(13) semiring_norm(12) semiring_norm(11))
    qed
    from step same None obtain st1 where st1: "block_modify D (q + start_block_id bm) 0 BLOCK_SZ
              (\<lambda>bs st. Inr (let (pos, ws) = alloc_in_block q (of_le_array 8 64 bs)
                            in ((pos, to_le_array 8 ws), st))) st = Inr (None, st1)" "rep st1 B H"
      by (auto elim: retE)
    have "bitmap_alloc_from D bm [q..<blocks bm] st = bitmap_alloc_from D bm [Suc q..<blocks bm] st1"
      using st1(1) by (simp add: upt)
    with Suc.hyps(1) [of "Suc q" st1] Suc.hyps(2) st1(2) Suc.prems(2) q bits show ?thesis by simp
  next
    case (Some b)
    from alloc_in_block_Some [OF a [unfolded Some]] obtain k where k: "b = q * BLOCK_BITS + k"
      "k < BLOCK_BITS" "\<not> word_bit (bitmap_words bm B q) k"
      "\<And>j. j < k \<Longrightarrow> word_bit (bitmap_words bm B q) j" "length ws = 64"
      "\<And>j. j < BLOCK_BITS \<Longrightarrow> word_bit ws j \<longleftrightarrow> j = k \<or> word_bit (bitmap_words bm B q) j"
      by (auto simp: BLOCK_BITS_eq)
    have "ret (bitmap_alloc_from D bm [q..<blocks bm] st) (Some b) (disk_set_words bm q ws B) H"
      using step Some by (auto simp: upt elim!: retE)
    moreover have "b < bitmap_maximum bm"
      using mult_le_mono1 [of "Suc q" "blocks bm" BLOCK_BITS] q k(1,2) by (simp add: bitmap_maximum_def)
    moreover have "\<not> bitmap_bit bm B b" using k(1-3) by (simp add: bitmap_bit_words)
    moreover have "bitmap_bit bm B c" if "c < b" for c
    proof (cases "c < q * BLOCK_BITS")
      case False
      then have "c = q * BLOCK_BITS + (c - q * BLOCK_BITS)" "c - q * BLOCK_BITS < k"
        using that k(1) by auto
      then show ?thesis using k(2,4) bitmap_bit_words [of "c - q * BLOCK_BITS" bm B q] by auto
    qed (rule Suc.prems(4))
    moreover have "bitmap_bit bm (disk_set_words bm q ws B) c \<longleftrightarrow> c = b \<or> bitmap_bit bm B c" for c
      using bitmap_bit_set [OF k(5) _ k(2), where v = True] k(1,6) by auto
    moreover have "disk_set_words bm q ws B i = B i" if "i \<noteq> b div BLOCK_BITS + start_block_id bm" for i
      using that k(1,2) by (simp add: BLOCK_BITS_eq disk_set_words_def)
    ultimately show ?thesis by blast
  qed
qed

lemma bitmap_alloc_ok:
  assumes "rep st B H" "bitmap_free nblk bm H"
  shows "(\<exists>b B'. ret (bitmap_alloc D bm st) (Some b) B' H
      \<and> b < bitmap_maximum bm \<and> \<not> bitmap_bit bm B b \<and> (\<forall>c < b. bitmap_bit bm B c)
      \<and> (\<forall>c. bitmap_bit bm B' c \<longleftrightarrow> c = b \<or> bitmap_bit bm B c)
      \<and> (\<forall>i. i \<noteq> b div BLOCK_BITS + start_block_id bm \<longrightarrow> B' i = B i))
    \<or> ret (bitmap_alloc D bm st) None B H \<and> (\<forall>c < bitmap_maximum bm. bitmap_bit bm B c)"
  using bitmap_alloc_from_ok [OF assms, of 0] by (simp add: bitmap_alloc_def)

lemma bitmap_alloc_some:
  assumes "rep st B H" "bitmap_free nblk bm H" "f < bitmap_maximum bm" "\<not> bitmap_bit bm B f"
  obtains b B' where "ret (bitmap_alloc D bm st) (Some b) B' H" "b < bitmap_maximum bm"
    "\<not> bitmap_bit bm B b" "\<And>c. c < b \<Longrightarrow> bitmap_bit bm B c"
    "\<And>c. bitmap_bit bm B' c \<longleftrightarrow> c = b \<or> bitmap_bit bm B c"
    "\<And>i. i \<noteq> b div BLOCK_BITS + start_block_id bm \<Longrightarrow> B' i = B i"
proof -
  from bitmap_alloc_ok [OF assms(1,2)] show ?thesis
  proof (elim disjE exE conjE)
    fix b B'
    assume *: "ret (bitmap_alloc D bm st) (Some b) B' H" "b < bitmap_maximum bm"
      "\<not> bitmap_bit bm B b" "\<forall>c < b. bitmap_bit bm B c"
      "\<forall>c. bitmap_bit bm B' c \<longleftrightarrow> c = b \<or> bitmap_bit bm B c"
      "\<forall>i. i \<noteq> b div BLOCK_BITS + start_block_id bm \<longrightarrow> B' i = B i"
    then show ?thesis by (intro that [OF *(1-3)]) auto
  next
    assume "\<forall>c < bitmap_maximum bm. bitmap_bit bm B c"
    with assms(3,4) show ?thesis by simp
  qed
qed

lemma bitmap_dealloc_ok:
  assumes "rep st B H" "bitmap_free nblk bm H" "b < bitmap_maximum bm" "bitmap_bit bm B b"
  obtains B' where "ret (bitmap_dealloc D bm b st) () B' H"
    "\<And>c. bitmap_bit bm B' c \<longleftrightarrow> c \<noteq> b \<and> bitmap_bit bm B c"
    "\<And>i. i \<noteq> b div BLOCK_BITS + start_block_id bm \<Longrightarrow> B' i = B i"
proof -
  let ?q = "b div BLOCK_BITS" and ?k = "b mod BLOCK_BITS"
  let ?ws = "bitmap_words bm B ?q" and ?p = "?k div 64" and ?i = "?k mod 64"
  let ?w = "?ws ! ?p"
  let ?ws' = "?ws[?p := ?w - push_bit ?i 1]"
  have q: "?q < blocks bm" using assms(3) by (simp add: bitmap_maximum_def less_mult_imp_div_less)
  then have dev: "?q + start_block_id bm < nblk" "H (?q + start_block_id bm) = None"
    "card (dom H) < BLOCK_CACHE_SIZE" using assms(2) by (auto simp: bitmap_free_def)
  have len: "length (B (?q + start_block_id bm)) = BLOCK_SZ" by (rule rep_length [OF assms(1) dev(1)])
  have k: "?k < BLOCK_BITS" by (simp add: BLOCK_BITS_eq)
  then have p: "?p < length ?ws" by (simp add: BLOCK_BITS_eq)
  have b: "b = ?q * BLOCK_BITS + ?k" by simp
  have set: "bit ?w ?i" using assms(4) by (simp add: bitmap_bit_def bitmap_words_def word_bit_def)
  have mask: "?w AND push_bit ?i 1 = push_bit ?i 1"
    by (rule bit_word_eqI) (use set in \<open>auto simp: bit_and_iff bit_single simp del: push_bit_of_1\<close>)
  then have gt: "?w AND push_bit ?i 1 > 0" by (simp add: word_gt_0)
  have clear: "bit (?w - push_bit ?i 1) j \<longleftrightarrow> j \<noteq> ?i \<and> bit ?w j" if "j < 64" for j
  proof -
    have "?w - push_bit ?i 1 = ?w AND NOT (push_bit ?i 1)"
    proof (rule disjunctive_diff_eq_and_not)
      show "NOT ?w AND push_bit ?i 1 = 0"
        by (rule bit_word_eqI)
           (use set in \<open>auto simp: bit_and_iff bit_not_iff bit_single simp del: push_bit_of_1\<close>)
    qed
    then show ?thesis using that by (auto simp: bit_and_iff bit_not_iff bit_single simp del: push_bit_of_1)
  qed
  let ?bs = "to_le_array 8 ?ws'"
  have l: "length ?bs = BLOCK_SZ" by (simp add: BLOCK_SZ_def)
  have "ret (bitmap_dealloc D bm b st) () (B(?q + start_block_id bm := put_bytes 0 ?bs (B (?q + start_block_id bm)))) H"
    unfolding bitmap_dealloc_def decomposition_def Let_def prod.case
    by (rule block_modify_ret [OF assms(1) dev])
       (use len l p gt in \<open>auto simp: BLOCK_SZ_def bitmap_words_def [symmetric] intro: retI\<close>)
  then have "ret (bitmap_dealloc D bm b st) () (disk_set_words bm ?q ?ws' B) H"
    using l len by (simp add: put_bytes_all disk_set_words_def)
  moreover have "bitmap_bit bm (disk_set_words bm ?q ?ws' B) c \<longleftrightarrow> c \<noteq> b \<and> bitmap_bit bm B c" for c
  proof -
    have "word_bit ?ws' j = (if j = ?k then False else word_bit ?ws j)" if "j < BLOCK_BITS" for j
    proof -
      have "j div 64 = ?p \<Longrightarrow> j mod 64 = ?i \<longleftrightarrow> j = ?k" by (metis div_mult_mod_eq)
      moreover have "word_bit ?ws' j = (if j div 64 = ?p then bit (?w - push_bit ?i 1) (j mod 64)
          else word_bit ?ws j)"
        using that by (intro word_bit_update [OF p]) (simp add: BLOCK_BITS_eq)
      ultimately show ?thesis using clear [of "j mod 64"] by (auto simp: word_bit_def)
    qed
    then show ?thesis using bitmap_bit_set [OF _ _ k, of ?ws' False] b by auto
  qed
  ultimately show ?thesis using that by (simp add: disk_set_words_def)
qed

lemma bitmap_dealloc_fail:
  assumes "rep st B H" "bitmap_free nblk bm H" "b < bitmap_maximum bm" "\<not> bitmap_bit bm B b"
  shows "bitmap_dealloc D bm b st = Inl Assertion_Failed"
proof -
  let ?q = "b div BLOCK_BITS" and ?k = "b mod BLOCK_BITS"
  let ?w = "bitmap_words bm B ?q ! (?k div 64)"
  have q: "?q < blocks bm" using assms(3) by (simp add: bitmap_maximum_def less_mult_imp_div_less)
  then have dev: "?q + start_block_id bm < nblk" "H (?q + start_block_id bm) = None"
    "card (dom H) < BLOCK_CACHE_SIZE" using assms(2) by (auto simp: bitmap_free_def)
  have len: "length (B (?q + start_block_id bm)) = BLOCK_SZ" by (rule rep_length [OF assms(1) dev(1)])
  have "\<not> bit ?w (?k mod 64)" using assms(4) by (simp add: bitmap_bit_def bitmap_words_def word_bit_def)
  then have "?w AND push_bit (?k mod 64) 1 = 0"
    by (intro bit_word_eqI) (auto simp: bit_and_iff bit_single simp del: push_bit_of_1)
  moreover have "?k div 64 < 64" using less_mult_imp_div_less [of ?k 64 64] by (simp add: BLOCK_BITS_eq)
  ultimately show ?thesis
    unfolding bitmap_dealloc_def decomposition_def Let_def prod.case
    by (intro block_modify_fail [OF assms(1) dev])
       (use len in \<open>auto simp: BLOCK_SZ_def bitmap_words_def [symmetric]\<close>)
qed

end

section \<open>Properties\<close>

text \<open>
  C23. Allocation takes the lowest free bit: if the bitmap has a clear bit, \<^verbatim>\<open>alloc\<close> returns the lowest one
  and sets it and no other bit, touching only the bitmap block that holds it; if all bits are set it
  returns \<^verbatim>\<open>None\<close> and the disk is unchanged. It never panics.
\<close>

theorem bitmap_alloc_lowest:
  assumes "block_device D contents nblk dev_ok" "bc_rep contents nblk dev_ok st B H"
    and "bitmap_free nblk bm H"
  shows "if \<exists>f < bitmap_maximum bm. \<not> bitmap_bit bm B f
    then \<exists>b st' B'. bitmap_alloc D bm st = Inr (Some b, st') \<and> bc_rep contents nblk dev_ok st' B' H
       \<and> b < bitmap_maximum bm \<and> \<not> bitmap_bit bm B b \<and> (\<forall>c < b. bitmap_bit bm B c)
       \<and> (\<forall>c. bitmap_bit bm B' c \<longleftrightarrow> c = b \<or> bitmap_bit bm B c)
       \<and> (\<forall>i. i \<noteq> b div BLOCK_BITS + start_block_id bm \<longrightarrow> B' i = B i)
    else \<exists>st'. bitmap_alloc D bm st = Inr (None, st') \<and> bc_rep contents nblk dev_ok st' B H"
proof (cases "\<exists>f < bitmap_maximum bm. \<not> bitmap_bit bm B f")
  case True
  then have "\<not> (\<forall>c < bitmap_maximum bm. bitmap_bit bm B c)" by blast
  with block_device.bitmap_alloc_ok [OF assms] True show ?thesis
    unfolding bc_ret_def by (simp only: simp_thms if_True) blast
next
  case False
  with block_device.bitmap_alloc_ok [OF assms] show ?thesis by (auto simp: bc_ret_def)
qed

text \<open>
  \<^verbatim>\<open>dealloc\<close> undoes \<^verbatim>\<open>alloc\<close> and detects a double free: freeing an allocated bit clears that bit only,
  and freeing it again panics instead of corrupting the bitmap.
\<close>

theorem bitmap_dealloc_once:
  assumes "block_device D contents nblk dev_ok" "bc_rep contents nblk dev_ok st B H"
    and "bitmap_free nblk bm H" "b < bitmap_maximum bm" "bitmap_bit bm B b"
  shows "\<exists>st' B'. bitmap_dealloc D bm b st = Inr ((), st') \<and> bc_rep contents nblk dev_ok st' B' H
    \<and> (\<forall>c. bitmap_bit bm B' c \<longleftrightarrow> c \<noteq> b \<and> bitmap_bit bm B c)
    \<and> (\<forall>i. i \<noteq> b div BLOCK_BITS + start_block_id bm \<longrightarrow> B' i = B i)
    \<and> bitmap_dealloc D bm b st' = Inl Assertion_Failed"
proof -
  obtain B' where B': "bc_ret contents nblk dev_ok (bitmap_dealloc D bm b st) () B' H"
    "\<And>c. bitmap_bit bm B' c \<longleftrightarrow> c \<noteq> b \<and> bitmap_bit bm B c"
    "\<And>i. i \<noteq> b div BLOCK_BITS + start_block_id bm \<Longrightarrow> B' i = B i"
    by (rule block_device.bitmap_dealloc_ok [OF assms]) blast
  then obtain st' where st': "bitmap_dealloc D bm b st = Inr ((), st')" "bc_rep contents nblk dev_ok st' B' H"
    by (auto simp: bc_ret_def)
  moreover have "bitmap_dealloc D bm b st' = Inl Assertion_Failed"
    using block_device.bitmap_dealloc_fail [OF assms(1) st'(2) assms(3,4)] B'(2) by simp
  ultimately show ?thesis using B'(2,3) by blast
qed

text \<open>An image of two blocks, the second one a bitmap with the given first byte.\<close>

definition demo_image :: "u8 \<Rightarrow> block_file" where
  "demo_image b = replicate 512 0 @ b # replicate 511 0"

lemma demo_image_rep:
  "bc_rep file_block 2 (\<lambda>f. 2 * BLOCK_SZ \<le> length f) (cache_manager_new (demo_image b))
     (file_block (demo_image b)) Map.empty"
  by (rule bc_rep_new) (simp add: demo_image_def BLOCK_SZ_def)

lemma demo_image_bit:
  "k < 8 \<Longrightarrow> bitmap_bit (bitmap_new 1 1) (file_block (demo_image b)) k = bit b k"
  by (simp add: bitmap_bit_def bitmap_new_def file_block_def demo_image_def BLOCK_SZ_def BLOCK_BITS_eq
      word_bit_def nth_of_le_array bit_or_iff bit_push_bit_iff bit_ucast_iff)

lemma demo_bitmap_free: "bitmap_free 2 (bitmap_new 1 1) Map.empty"
  by (simp add: bitmap_free_def bitmap_new_def BLOCK_CACHE_SIZE_def)

theorem bitmap_alloc_lowest_witness:
  "\<exists>b st'. bitmap_alloc block_file_ops (bitmap_new 1 1) (cache_manager_new (demo_image 1)) = Inr (Some b, st')"
proof -
  have "\<not> bitmap_bit (bitmap_new 1 1) (file_block (demo_image 1)) 1"
    using demo_image_bit [of 1 1] by (simp add: bit_1_iff)
  moreover have "1 < bitmap_maximum (bitmap_new 1 1)"
    by (simp add: bitmap_maximum_def bitmap_new_def BLOCK_BITS_eq)
  ultimately have "\<exists>f < bitmap_maximum (bitmap_new 1 1).
      \<not> bitmap_bit (bitmap_new 1 1) (file_block (demo_image 1)) f" by blast
  then show ?thesis
    using bitmap_alloc_lowest [OF bf.block_device_axioms demo_image_rep [of 1] demo_bitmap_free]
    by (simp only: if_True) blast
qed

theorem bitmap_dealloc_once_witness:
  "\<exists>st'. bitmap_dealloc block_file_ops (bitmap_new 1 1) 0 (cache_manager_new (demo_image 1)) = Inr ((), st')
     \<and> bitmap_dealloc block_file_ops (bitmap_new 1 1) 0 st' = Inl Assertion_Failed"
proof -
  have "bitmap_bit (bitmap_new 1 1) (file_block (demo_image 1)) 0"
    using demo_image_bit [of 0 1] by simp
  moreover have "0 < bitmap_maximum (bitmap_new 1 1)"
    by (simp add: bitmap_maximum_def bitmap_new_def BLOCK_BITS_eq)
  ultimately show ?thesis
    using bitmap_dealloc_once [OF bf.block_device_axioms demo_image_rep [of 1] demo_bitmap_free] by blast
qed

end
