(* ===== verification/Layout.thy ===== *)
theory Layout
  imports Bitmap
begin

text \<open>
  The on-disk structures of \<^verbatim>\<open>easy-fs/src/layout.rs\<close>: super block, inode with direct, indirect and
  doubly indirect block numbers, and directory entry. A reference of such a type into a cached block
  is its bytes, decoded and encoded here (little endian, \<^verbatim>\<open>repr(C)\<close>). On-disk numbers are 32-bit words,
  computed with as natural numbers; the additions that a debug build checks are checked.
\<close>

section \<open>Super block\<close>

definition EFS_MAGIC :: u32 where "EFS_MAGIC = 0x3b800001"
definition INODE_DIRECT_COUNT :: nat where "INODE_DIRECT_COUNT = 28"
definition NAME_LENGTH_LIMIT :: nat where "NAME_LENGTH_LIMIT = 27"
definition INODE_INDIRECT1_COUNT :: nat where "INODE_INDIRECT1_COUNT = BLOCK_SZ div 4"
definition INODE_INDIRECT2_COUNT :: nat where
  "INODE_INDIRECT2_COUNT = INODE_INDIRECT1_COUNT * INODE_INDIRECT1_COUNT"
definition DIRECT_BOUND :: nat where "DIRECT_BOUND = INODE_DIRECT_COUNT"
definition INDIRECT1_BOUND :: nat where "INDIRECT1_BOUND = DIRECT_BOUND + INODE_INDIRECT1_COUNT"
definition INDIRECT2_BOUND :: nat where "INDIRECT2_BOUND = INDIRECT1_BOUND + INODE_INDIRECT2_COUNT"

lemmas layout_consts = INODE_DIRECT_COUNT_def NAME_LENGTH_LIMIT_def INODE_INDIRECT1_COUNT_def
  INODE_INDIRECT2_COUNT_def DIRECT_BOUND_def INDIRECT1_BOUND_def INDIRECT2_BOUND_def BLOCK_SZ_def

record super_block =
  magic :: u32
  sb_total_blocks :: u32
  inode_bitmap_blocks :: u32
  inode_area_blocks :: u32
  data_bitmap_blocks :: u32
  data_area_blocks :: u32

definition sizeof_super_block :: nat where "sizeof_super_block = 24"

definition super_block_bytes :: "super_block \<Rightarrow> u8 list" where
  "super_block_bytes sb = to_le_array 4 [magic sb, sb_total_blocks sb, inode_bitmap_blocks sb,
     inode_area_blocks sb, data_bitmap_blocks sb, data_area_blocks sb]"

definition super_block_of :: "u8 list \<Rightarrow> super_block" where
  "super_block_of bs = (let w = of_le_array 4 6 bs in
     \<lparr>magic = w ! 0, sb_total_blocks = w ! 1, inode_bitmap_blocks = w ! 2, inode_area_blocks = w ! 3,
      data_bitmap_blocks = w ! 4, data_area_blocks = w ! 5\<rparr>)"

definition super_block_initialize :: "u32 \<Rightarrow> u32 \<Rightarrow> u32 \<Rightarrow> u32 \<Rightarrow> u32 \<Rightarrow> super_block" where
  "super_block_initialize total_blocks ib ia db da =
     \<lparr>magic = EFS_MAGIC, sb_total_blocks = total_blocks, inode_bitmap_blocks = ib, inode_area_blocks = ia,
      data_bitmap_blocks = db, data_area_blocks = da\<rparr>"

definition super_block_is_valid :: "super_block \<Rightarrow> bool" where
  "super_block_is_valid sb \<longleftrightarrow> magic sb = EFS_MAGIC"

section \<open>Disk inode\<close>

datatype disk_inode_type = File | Directory

record disk_inode =
  inode_size :: u32
  direct :: "u32 list"
  indirect1 :: u32
  indirect2 :: u32
  inode_type :: disk_inode_type

text \<open>31 words, the type in one byte, and three bytes of padding that keep their value.\<close>

definition sizeof_disk_inode :: nat where "sizeof_disk_inode = 128"

fun inode_type_byte :: "disk_inode_type \<Rightarrow> u8" where
  "inode_type_byte File = 0"
| "inode_type_byte Directory = 1"

definition inode_type_of :: "u8 \<Rightarrow> disk_inode_type res" where
  "inode_type_of b = (if b = 0 then Inr File else if b = 1 then Inr Directory else Inl Invalid_Value)"

definition disk_inode_bytes :: "disk_inode \<Rightarrow> u8 list \<Rightarrow> u8 list" where
  "disk_inode_bytes ino old =
     to_le_array 4 (inode_size ino # direct ino @ [indirect1 ino, indirect2 ino])
       @ inode_type_byte (inode_type ino) # drop 125 old"

definition disk_inode_of :: "u8 list \<Rightarrow> disk_inode res" where
  "disk_inode_of bs =
     rbind (vec_index bs 124) (\<lambda>b. rbind (inode_type_of b) (\<lambda>ty.
       let w = of_le_array 4 31 bs in
       Inr \<lparr>inode_size = w ! 0, direct = take INODE_DIRECT_COUNT (drop 1 w), indirect1 = w ! 29,
            indirect2 = w ! 30, inode_type = ty\<rparr>))"

definition disk_inode_initialize :: "disk_inode_type \<Rightarrow> disk_inode" where
  "disk_inode_initialize ty =
     \<lparr>inode_size = 0, direct = replicate INODE_DIRECT_COUNT 0, indirect1 = 0, indirect2 = 0, inode_type = ty\<rparr>"

definition is_dir :: "disk_inode \<Rightarrow> bool" where "is_dir ino \<longleftrightarrow> inode_type ino = Directory"
definition is_file :: "disk_inode \<Rightarrow> bool" where "is_file ino \<longleftrightarrow> inode_type ino = File"

definition checked_u32 :: "nat \<Rightarrow> nat res" where
  "checked_u32 n = (if n < 2 ^ 32 then Inr n else Inl Arith_Overflow)"

definition data_blocks_of :: "nat \<Rightarrow> nat res" where
  "data_blocks_of sz = rbind (checked_u32 (sz + BLOCK_SZ - 1)) (\<lambda>n. Inr (n div BLOCK_SZ))"

definition data_blocks :: "disk_inode \<Rightarrow> nat res" where
  "data_blocks ino = data_blocks_of (unat (inode_size ino))"

definition inode_total_blocks :: "nat \<Rightarrow> nat res" where
  "inode_total_blocks sz =
     rbind (data_blocks_of sz) (\<lambda>n.
       let total1 = n;
           total2 = (if n > INODE_DIRECT_COUNT then total1 + 1 else total1);
           total3 = (if n > INDIRECT1_BOUND then
               total2 + 1 + (n - INDIRECT1_BOUND + INODE_INDIRECT1_COUNT - 1) div INODE_INDIRECT1_COUNT
             else total2)
       in Inr total3)"

definition blocks_num_needed :: "nat \<Rightarrow> disk_inode \<Rightarrow> nat res" where
  "blocks_num_needed new_size ino =
     rbind (rassert (new_size \<ge> unat (inode_size ino))) (\<lambda>_.
     rbind (inode_total_blocks new_size) (\<lambda>a.
     rbind (inode_total_blocks (unat (inode_size ino))) (\<lambda>b. Inr (a - b))))"

text \<open>One entry of an index block \<^verbatim>\<open>[u32; 128]\<close>.\<close>

definition read_index :: "'d device_ops \<Rightarrow> u32 \<Rightarrow> nat \<Rightarrow> 'd bstate \<Rightarrow> (u32 \<times> 'd bstate) res" where
  "read_index D blk k st = block_read D (unat blk) 0 BLOCK_SZ (\<lambda>bs st.
     rbind (vec_index (of_le_array 4 INODE_INDIRECT1_COUNT bs) k) (\<lambda>v. Inr (v, st))) st"

definition get_block_id ::
    "'d device_ops \<Rightarrow> nat \<Rightarrow> disk_inode \<Rightarrow> 'd bstate \<Rightarrow> (u32 \<times> 'd bstate) res" where
  "get_block_id D inner_id ino st =
     (if inner_id < INODE_DIRECT_COUNT then
        rbind (vec_index (direct ino) inner_id) (\<lambda>v. Inr (v, st))
      else if inner_id < INDIRECT1_BOUND then
        read_index D (indirect1 ino) (inner_id - INODE_DIRECT_COUNT) st
      else
        let last = inner_id - INDIRECT1_BOUND
        in rbind (read_index D (indirect2 ino) (last div INODE_INDIRECT1_COUNT) st) (\<lambda>(ind1, st1).
             read_index D ind1 (last mod INODE_INDIRECT1_COUNT) st1))"

section \<open>Growing and clearing an inode\<close>

text \<open>\<^verbatim>\<open>new_blocks.next().unwrap()\<close> on the iterator of new block numbers.\<close>

definition next_block :: "u32 list \<Rightarrow> (u32 \<times> u32 list) res" where
  "next_block bl = (case bl of [] \<Rightarrow> Inl Unwrap_None | b # rest \<Rightarrow> Inr (b, rest))"

text \<open>The loops that fill the entries \<open>cur, cur + 1, ..., bound - 1\<close> of an array.\<close>

function fill_entries :: "nat \<Rightarrow> nat \<Rightarrow> u32 list \<Rightarrow> u32 list \<Rightarrow> (nat \<times> u32 list \<times> u32 list) res" where
  "fill_entries cur bound arr bl =
     (if cur < bound then
        rbind (next_block bl) (\<lambda>(b, rest).
          if cur < length arr then fill_entries (cur + 1) bound (arr[cur := b]) rest
          else Inl Index_Out_Of_Bounds)
      else Inr (cur, arr, bl))"
  by pat_completeness auto
termination by (relation "measure (\<lambda>(cur, bound, _, _). bound - cur)") auto

text \<open>The loop over the second-level entries, from \<open>(a0, b0)\<close> to \<open>(a1, b1)\<close>.\<close>

function fill_indirect2 ::
    "'d device_ops \<Rightarrow> nat \<Rightarrow> nat \<Rightarrow> nat \<Rightarrow> nat \<Rightarrow> u32 list \<Rightarrow> u32 list \<Rightarrow> 'd bstate \<Rightarrow>
     ((u32 list \<times> u32 list) \<times> 'd bstate) res" where
  "fill_indirect2 D a0 b0 a1 b1 ind2 bl st =
     (if a0 < a1 \<or> a0 = a1 \<and> b0 < b1 then
        if a0 < length ind2 \<and> b0 < INODE_INDIRECT1_COUNT then
          rbind (if b0 = 0 then rbind (next_block bl) (\<lambda>(b, rest). Inr (ind2[a0 := b], rest))
                 else Inr (ind2, bl)) (\<lambda>(ind2', bl').
          rbind (block_modify D (unat (ind2' ! a0)) 0 BLOCK_SZ (\<lambda>bs st.
                   rbind (next_block bl') (\<lambda>(b, rest).
                     Inr ((rest, to_le_array 4
                            ((of_le_array 4 INODE_INDIRECT1_COUNT bs)[b0 := b])), st))) st)
            (\<lambda>(rest, st1).
               if b0 + 1 = INODE_INDIRECT1_COUNT then fill_indirect2 D (a0 + 1) 0 a1 b1 ind2' rest st1
               else fill_indirect2 D a0 (b0 + 1) a1 b1 ind2' rest st1))
        else Inl Index_Out_Of_Bounds
      else Inr ((ind2, bl), st))"
  by pat_completeness auto
termination
  by (relation "measure (\<lambda>(_, a0, b0, a1, _). (Suc a1 - a0) * 256 + (256 - b0))")
     (auto simp: layout_consts)

definition increase_size ::
    "'d device_ops \<Rightarrow> nat \<Rightarrow> u32 list \<Rightarrow> disk_inode \<Rightarrow> 'd bstate \<Rightarrow> (disk_inode \<times> 'd bstate) res" where
  "increase_size D new_size new_blocks ino st =
     rbind (data_blocks ino) (\<lambda>current0.
     let ino1 = ino\<lparr>inode_size := of_nat new_size\<rparr> in
     rbind (data_blocks ino1) (\<lambda>total0.
     rbind (fill_entries current0 (min total0 INODE_DIRECT_COUNT) (direct ino1) new_blocks) (\<lambda>(current1, dir, bl1).
     let ino2 = ino1\<lparr>direct := dir\<rparr> in
     if total0 > INODE_DIRECT_COUNT then
       rbind (if current1 = INODE_DIRECT_COUNT
              then rbind (next_block bl1) (\<lambda>(b, rest). Inr (ino2\<lparr>indirect1 := b\<rparr>, rest))
              else Inr (ino2, bl1)) (\<lambda>(ino3, bl2).
       let current2 = current1 - INODE_DIRECT_COUNT; total1 = total0 - INODE_DIRECT_COUNT in
       rbind (block_modify D (unat (indirect1 ino3)) 0 BLOCK_SZ (\<lambda>bs st.
                rbind (fill_entries current2 (min total1 INODE_INDIRECT1_COUNT)
                         (of_le_array 4 INODE_INDIRECT1_COUNT bs) bl2) (\<lambda>(cur, arr, rest).
                  Inr (((cur, rest), to_le_array 4 arr), st))) st) (\<lambda>((current3, bl3), st1).
       if total1 > INODE_INDIRECT1_COUNT then
         rbind (if current3 = INODE_INDIRECT1_COUNT
                then rbind (next_block bl3) (\<lambda>(b, rest). Inr (ino3\<lparr>indirect2 := b\<rparr>, rest))
                else Inr (ino3, bl3)) (\<lambda>(ino4, bl4).
         let current4 = current3 - INODE_INDIRECT1_COUNT; total2 = total1 - INODE_INDIRECT1_COUNT;
             a0 = current4 div INODE_INDIRECT1_COUNT; b0 = current4 mod INODE_INDIRECT1_COUNT;
             a1 = total2 div INODE_INDIRECT1_COUNT; b1 = total2 mod INODE_INDIRECT1_COUNT in
         rbind (block_modify D (unat (indirect2 ino4)) 0 BLOCK_SZ (\<lambda>bs st.
                  rbind (fill_indirect2 D a0 b0 a1 b1 (of_le_array 4 INODE_INDIRECT1_COUNT bs) bl4 st)
                    (\<lambda>((ind2, _), st'). Inr (((), to_le_array 4 ind2), st'))) st1) (\<lambda>(_, st2).
           Inr (ino4, st2)))
       else Inr (ino3, st1)))
     else Inr (ino2, st))))"

text \<open>The entries \<open>0, ..., n - 1\<close> of the index block \<open>blk\<close>, collected by \<^verbatim>\<open>clear_size\<close>.\<close>

definition collect_index :: "'d device_ops \<Rightarrow> u32 \<Rightarrow> nat \<Rightarrow> 'd bstate \<Rightarrow> (u32 list \<times> 'd bstate) res" where
  "collect_index D blk n st = block_modify D (unat blk) 0 BLOCK_SZ (\<lambda>bs st.
     Inr ((take n (of_le_array 4 INODE_INDIRECT1_COUNT bs), bs), st)) st"

fun collect_full :: "'d device_ops \<Rightarrow> u32 list \<Rightarrow> 'd bstate \<Rightarrow> (u32 list \<times> 'd bstate) res" where
  "collect_full D [] st = Inr ([], st)"
| "collect_full D (e # es) st =
     rbind (collect_index D e INODE_INDIRECT1_COUNT st) (\<lambda>(v, st1).
     rbind (collect_full D es st1) (\<lambda>(v', st2). Inr (e # v @ v', st2)))"

definition clear_size ::
    "'d device_ops \<Rightarrow> disk_inode \<Rightarrow> 'd bstate \<Rightarrow> ((u32 list \<times> disk_inode) \<times> 'd bstate) res" where
  "clear_size D ino st =
     rbind (data_blocks ino) (\<lambda>n0.
     let k = min n0 INODE_DIRECT_COUNT;
         v0 = take k (direct ino);
         ino1 = ino\<lparr>inode_size := 0, direct := replicate k 0 @ drop k (direct ino)\<rparr> in
     if n0 > INODE_DIRECT_COUNT then
       let n1 = n0 - INODE_DIRECT_COUNT in
       rbind (collect_index D (indirect1 ino1) (min n1 INODE_INDIRECT1_COUNT) st) (\<lambda>(v1, st1).
       let v01 = v0 @ indirect1 ino1 # v1; ino2 = ino1\<lparr>indirect1 := 0\<rparr> in
       if n1 > INODE_INDIRECT1_COUNT then
         let n2 = n1 - INODE_INDIRECT1_COUNT in
         rbind (rassert (n2 \<le> INODE_INDIRECT2_COUNT)) (\<lambda>_.
         let a1 = n2 div INODE_INDIRECT1_COUNT; b1 = n2 mod INODE_INDIRECT1_COUNT in
         rbind (block_modify D (unat (indirect2 ino2)) 0 BLOCK_SZ (\<lambda>bs st.
                  let ind2 = of_le_array 4 INODE_INDIRECT1_COUNT bs in
                  rbind (collect_full D (take a1 ind2) st) (\<lambda>(v2, st').
                  if b1 > 0 then
                    rbind (vec_index ind2 a1) (\<lambda>e.
                    rbind (collect_index D e b1 st') (\<lambda>(v3, st''). Inr ((v2 @ e # v3, bs), st'')))
                  else Inr ((v2, bs), st'))) st1) (\<lambda>(v2, st2).
           Inr ((v01 @ indirect2 ino2 # v2, ino2\<lparr>indirect2 := 0\<rparr>), st2)))
       else Inr ((v01, ino2), st1))
     else Inr ((v0, ino1), st))"

section \<open>Reading and writing a file's bytes\<close>

text \<open>
  The loops of \<^verbatim>\<open>read_at\<close> and \<^verbatim>\<open>write_at\<close>. The bytes read are returned; they fill the buffer from its start.
\<close>

function read_loop ::
    "'d device_ops \<Rightarrow> disk_inode \<Rightarrow> nat \<Rightarrow> nat \<Rightarrow> nat \<Rightarrow> 'd bstate \<Rightarrow> (u8 list \<times> 'd bstate) res" where
  "read_loop D ino start start_block end1 st =
     (let end_current_block = min ((start div BLOCK_SZ + 1) * BLOCK_SZ) end1;
          block_read_size = end_current_block - start in
      rbind (get_block_id D start_block ino st) (\<lambda>(blk, st1).
      rbind (block_read D (unat blk) 0 BLOCK_SZ (\<lambda>data_block st.
               Inr (take block_read_size (drop (start mod BLOCK_SZ) data_block), st)) st1) (\<lambda>(dst, st2).
        if end_current_block = end1 then Inr (dst, st2)
        else rbind (read_loop D ino end_current_block (start_block + 1) end1 st2) (\<lambda>(rest, st3).
               Inr (dst @ rest, st3)))))"
  by pat_completeness auto
termination
proof (relation "measure (\<lambda>(_, _, start, _, end1, _). end1 - start)")
  fix start end1 e :: nat
  assume e: "e = min ((start div BLOCK_SZ + 1) * BLOCK_SZ) end1" "e \<noteq> end1"
  have "start < (start div BLOCK_SZ + 1) * BLOCK_SZ"
    using dividend_less_div_times [of BLOCK_SZ start] by (simp add: BLOCK_SZ_def)
  with e have "end1 - e < end1 - start" by auto
  then show "((D, ino, e, sb, end1, st2), (D, ino, start, sb', end1, st)) \<in>
      measure (\<lambda>(_, _, start, _, end1, _). end1 - start)"
    for D :: "'d device_ops" and ino :: disk_inode and sb sb' :: nat and st2 st :: "'d bstate" by simp
qed simp

definition inode_read_at ::
    "'d device_ops \<Rightarrow> nat \<Rightarrow> nat \<Rightarrow> disk_inode \<Rightarrow> 'd bstate \<Rightarrow> (u8 list \<times> 'd bstate) res" where
  "inode_read_at D offset buf_len ino st =
     (let end1 = min (offset + buf_len) (unat (inode_size ino)) in
      if offset \<ge> end1 then Inr ([], st) else read_loop D ino offset (offset div BLOCK_SZ) end1 st)"

function write_loop ::
    "'d device_ops \<Rightarrow> disk_inode \<Rightarrow> nat \<Rightarrow> nat \<Rightarrow> nat \<Rightarrow> u8 list \<Rightarrow> nat \<Rightarrow> 'd bstate \<Rightarrow>
     (nat \<times> 'd bstate) res" where
  "write_loop D ino start start_block end1 buf write_size st =
     (let end_current_block = min ((start div BLOCK_SZ + 1) * BLOCK_SZ) end1;
          block_write_size = end_current_block - start in
      rbind (get_block_id D start_block ino st) (\<lambda>(blk, st1).
      rbind (block_modify D (unat blk) 0 BLOCK_SZ (\<lambda>data_block st.
               let src = take block_write_size (drop write_size buf)
               in Inr (((), put_bytes (start mod BLOCK_SZ) src data_block), st)) st1) (\<lambda>(_, st2).
        if end_current_block = end1 then Inr (write_size + block_write_size, st2)
        else write_loop D ino end_current_block (start_block + 1) end1 buf
               (write_size + block_write_size) st2)))"
  by pat_completeness auto
termination
proof (relation "measure (\<lambda>(_, _, start, _, end1, _, _, _). end1 - start)")
  fix start end1 e :: nat
  assume e: "e = min ((start div BLOCK_SZ + 1) * BLOCK_SZ) end1" "e \<noteq> end1"
  have "start < (start div BLOCK_SZ + 1) * BLOCK_SZ"
    using dividend_less_div_times [of BLOCK_SZ start] by (simp add: BLOCK_SZ_def)
  with e have "end1 - e < end1 - start" by auto
  then show "((D, ino, e, sb, end1, buf, n, st2), (D, ino, start, sb', end1, buf, n', st)) \<in>
      measure (\<lambda>(_, _, start, _, end1, _, _, _). end1 - start)"
    for D :: "'d device_ops" and ino :: disk_inode and sb sb' n n' :: nat and buf :: "u8 list"
      and st2 st :: "'d bstate" by simp
qed simp

declare read_loop.simps [simp del] write_loop.simps [simp del] fill_entries.simps [simp del]
  fill_indirect2.simps [simp del]

definition inode_write_at ::
    "'d device_ops \<Rightarrow> nat \<Rightarrow> u8 list \<Rightarrow> disk_inode \<Rightarrow> 'd bstate \<Rightarrow> (nat \<times> 'd bstate) res" where
  "inode_write_at D offset buf ino st =
     (let end1 = min (offset + length buf) (unat (inode_size ino)) in
      rbind (rassert (offset \<le> end1)) (\<lambda>_.
        write_loop D ino offset (offset div BLOCK_SZ) end1 buf 0 st))"

section \<open>Directory entries\<close>

text \<open>\<^verbatim>\<open>core::str::from_utf8\<close> accepts the well-formed byte sequences of the Unicode standard.\<close>

definition utf8_tail :: "u8 \<Rightarrow> u8 \<Rightarrow> u8 \<Rightarrow> bool" where
  "utf8_tail lo hi b \<longleftrightarrow> lo \<le> b \<and> b \<le> hi"

fun utf8_valid :: "u8 list \<Rightarrow> bool" where
  "utf8_valid [] = True"
| "utf8_valid (a # bs) =
     (if a < 0x80 then utf8_valid bs
      else case bs of [] \<Rightarrow> False | b # cs \<Rightarrow>
        if 0xC2 \<le> a \<and> a \<le> 0xDF then utf8_tail 0x80 0xBF b \<and> utf8_valid cs
        else case cs of [] \<Rightarrow> False | c # ds \<Rightarrow>
          if a = 0xE0 then utf8_tail 0xA0 0xBF b \<and> utf8_tail 0x80 0xBF c \<and> utf8_valid ds
          else if a = 0xED then utf8_tail 0x80 0x9F b \<and> utf8_tail 0x80 0xBF c \<and> utf8_valid ds
          else if 0xE1 \<le> a \<and> a \<le> 0xEF then utf8_tail 0x80 0xBF b \<and> utf8_tail 0x80 0xBF c \<and> utf8_valid ds
          else case ds of [] \<Rightarrow> False | d # es \<Rightarrow>
            utf8_tail 0x80 0xBF c \<and> utf8_tail 0x80 0xBF d \<and> utf8_valid es \<and>
            (a = 0xF0 \<and> utf8_tail 0x90 0xBF b \<or> 0xF1 \<le> a \<and> a \<le> 0xF3 \<and> utf8_tail 0x80 0xBF b
             \<or> a = 0xF4 \<and> utf8_tail 0x80 0x8F b))"

record dir_entry =
  de_name :: "u8 list"
  de_inode_number :: u32

definition DIRENT_SZ :: nat where "DIRENT_SZ = 32"

definition dir_entry_empty :: dir_entry where
  "dir_entry_empty = \<lparr>de_name = replicate (NAME_LENGTH_LIMIT + 1) 0, de_inode_number = 0\<rparr>"

definition dir_entry_new :: "u8 list \<Rightarrow> u32 \<Rightarrow> dir_entry res" where
  "dir_entry_new name inode_number =
     (let bytes = replicate (NAME_LENGTH_LIMIT + 1) 0 in
      if length name \<le> length bytes then
        Inr \<lparr>de_name = put_bytes 0 name bytes, de_inode_number = inode_number\<rparr>
      else Inl Index_Out_Of_Bounds)"

definition dir_entry_bytes :: "dir_entry \<Rightarrow> u8 list" where
  "dir_entry_bytes e = de_name e @ to_le 4 (de_inode_number e)"

text \<open>What filling \<^verbatim>\<open>as_bytes_mut\<close> with 32 bytes makes of the entry.\<close>

definition dir_entry_of :: "u8 list \<Rightarrow> dir_entry" where
  "dir_entry_of bs = \<lparr>de_name = take 28 bs, de_inode_number = of_le (drop 28 bs)\<rparr>"

definition dir_entry_name :: "dir_entry \<Rightarrow> u8 list res" where
  "dir_entry_name e =
     (case find_index (\<lambda>b. b = 0) (de_name e) of
        Some len \<Rightarrow>
          if utf8_valid (take len (de_name e)) then Inr (take len (de_name e)) else Inl Unwrap_None
      | None \<Rightarrow> Inl Index_Out_Of_Bounds)"

section \<open>Encodings\<close>

lemma super_block_roundtrip: "super_block_of (super_block_bytes sb) = sb"
proof -
  have "of_le_array 4 6 (super_block_bytes sb) = [magic sb, sb_total_blocks sb, inode_bitmap_blocks sb,
     inode_area_blocks sb, data_bitmap_blocks sb, data_area_blocks sb]"
    unfolding super_block_bytes_def by (rule of_le_to_le_array) simp_all
  then show ?thesis by (simp add: super_block_of_def Let_def)
qed

lemma length_disk_inode_bytes:
  "length (direct ino) = 28 \<Longrightarrow> length old = 128 \<Longrightarrow> length (disk_inode_bytes ino old) = 128"
  by (simp add: disk_inode_bytes_def)

lemma disk_inode_roundtrip:
  assumes "length (direct ino) = 28" "length old = 128"
  shows "disk_inode_of (disk_inode_bytes ino old) = Inr ino"
proof -
  let ?ws = "inode_size ino # direct ino @ [indirect1 ino, indirect2 ino]"
  have l: "length (to_le_array 4 ?ws) = 124" using assms by simp
  have "of_le_array 4 31 (disk_inode_bytes ino old) = of_le_array 4 31 (to_le_array 4 ?ws)"
    using l by (intro nth_equalityI) (auto simp: nth_of_le_array disk_inode_bytes_def simp del: length_to_le_array
        intro!: arg_cong [where f = of_le])
  also have "\<dots> = ?ws" using assms by (intro of_le_to_le_array) simp_all
  finally have w: "of_le_array 4 31 (disk_inode_bytes ino old) = ?ws" .
  have t: "disk_inode_bytes ino old ! 124 = inode_type_byte (inode_type ino)"
    using l by (simp add: disk_inode_bytes_def nth_append)
  have "inode_type_of (inode_type_byte (inode_type ino)) = Inr (inode_type ino)"
    by (cases "inode_type ino") (simp_all add: inode_type_of_def)
  then show ?thesis
    using assms w t length_disk_inode_bytes [OF assms]
    by (simp add: disk_inode_of_def Let_def INODE_DIRECT_COUNT_def nth_append)
qed

lemma dir_entry_roundtrip:
  "length (de_name e) = 28 \<Longrightarrow> dir_entry_of (dir_entry_bytes e) = e"
  by (simp add: dir_entry_of_def dir_entry_bytes_def of_le_to_le)

end
