(* ===== verification/Inode_Data.thy ===== *)
theory Inode_Data
  imports Layout
begin

text \<open>
  What an inode means: the block numbers of its data blocks and of the index blocks that hold them, the
  bytes of the file, and the correctness of the block lookup and of the read and write loops of
  \<^verbatim>\<open>easy-fs/src/layout.rs\<close> over all three levels of indirection.
\<close>

section \<open>Block numbers\<close>

definition index_entry :: "(nat \<Rightarrow> u8 list) \<Rightarrow> u32 \<Rightarrow> nat \<Rightarrow> u32" where
  "index_entry B blk k = of_le_array 4 INODE_INDIRECT1_COUNT (B (unat blk)) ! k"

definition blk_id :: "(nat \<Rightarrow> u8 list) \<Rightarrow> disk_inode \<Rightarrow> nat \<Rightarrow> u32" where
  "blk_id B ino k =
     (if k < INODE_DIRECT_COUNT then direct ino ! k
      else if k < INDIRECT1_BOUND then index_entry B (indirect1 ino) (k - INODE_DIRECT_COUNT)
      else index_entry B (index_entry B (indirect2 ino) ((k - INDIRECT1_BOUND) div INODE_INDIRECT1_COUNT))
             ((k - INDIRECT1_BOUND) mod INODE_INDIRECT1_COUNT))"

text \<open>The data blocks of an inode with \<open>n\<close> of them, and the index blocks it needs for that.\<close>

definition data_list :: "(nat \<Rightarrow> u8 list) \<Rightarrow> disk_inode \<Rightarrow> nat \<Rightarrow> nat list" where
  "data_list B ino n = map (\<lambda>k. unat (blk_id B ino k)) [0..<n]"

definition idx_list :: "(nat \<Rightarrow> u8 list) \<Rightarrow> disk_inode \<Rightarrow> nat \<Rightarrow> nat list" where
  "idx_list B ino n =
     (if n > INODE_DIRECT_COUNT then [unat (indirect1 ino)] else [])
     @ (if n > INDIRECT1_BOUND then unat (indirect2 ino) #
          map (\<lambda>a. unat (index_entry B (indirect2 ino) a))
            [0..<(n - INDIRECT1_BOUND + INODE_INDIRECT1_COUNT - 1) div INODE_INDIRECT1_COUNT]
        else [])"

text \<open>
  The blocks of the inode are distinct blocks of the device and none of them is locked.
\<close>

definition inode_ok :: "nat \<Rightarrow> (nat \<Rightarrow> u8 list) \<Rightarrow> (nat \<rightharpoonup> block_cache) \<Rightarrow> disk_inode \<Rightarrow> nat \<Rightarrow> bool" where
  "inode_ok nblk B H ino n \<longleftrightarrow> length (direct ino) = INODE_DIRECT_COUNT \<and> n \<le> INDIRECT2_BOUND
     \<and> distinct (data_list B ino n @ idx_list B ino n)
     \<and> (\<forall>b \<in> set (data_list B ino n @ idx_list B ino n). b < nblk \<and> H b = None)
     \<and> card (dom H) < BLOCK_CACHE_SIZE"

definition blocks_data :: "(nat \<Rightarrow> u8 list) \<Rightarrow> disk_inode \<Rightarrow> nat \<Rightarrow> u8 list" where
  "blocks_data B ino n = concat (map B (data_list B ino n))"

text \<open>The bytes of the file.\<close>

definition file_data :: "(nat \<Rightarrow> u8 list) \<Rightarrow> disk_inode \<Rightarrow> u8 list" where
  "file_data B ino = take (unat (inode_size ino))
     (blocks_data B ino ((unat (inode_size ino) + BLOCK_SZ - 1) div BLOCK_SZ))"

lemma idx_list_mem:
  assumes "k < n" "n \<le> INDIRECT2_BOUND"
  shows "k \<ge> INODE_DIRECT_COUNT \<Longrightarrow> k < INDIRECT1_BOUND \<Longrightarrow> unat (indirect1 ino) \<in> set (idx_list B ino n)"
    and "k \<ge> INDIRECT1_BOUND \<Longrightarrow> unat (indirect2 ino) \<in> set (idx_list B ino n)"
    and "k \<ge> INDIRECT1_BOUND \<Longrightarrow>
      unat (index_entry B (indirect2 ino) ((k - INDIRECT1_BOUND) div INODE_INDIRECT1_COUNT))
        \<in> set (idx_list B ino n)"
    and "k \<ge> INDIRECT1_BOUND \<Longrightarrow> (k - INDIRECT1_BOUND) div INODE_INDIRECT1_COUNT < INODE_INDIRECT1_COUNT"
proof -
  show "k \<ge> INODE_DIRECT_COUNT \<Longrightarrow> k < INDIRECT1_BOUND \<Longrightarrow> unat (indirect1 ino) \<in> set (idx_list B ino n)"
    and "k \<ge> INDIRECT1_BOUND \<Longrightarrow> unat (indirect2 ino) \<in> set (idx_list B ino n)"
    using assms by (auto simp: idx_list_def)
  assume k: "k \<ge> INDIRECT1_BOUND"
  have "(k - INDIRECT1_BOUND) div INODE_INDIRECT1_COUNT <
      (n - INDIRECT1_BOUND + INODE_INDIRECT1_COUNT - 1) div INODE_INDIRECT1_COUNT"
    using assms(1) k by (simp add: layout_consts)
  then show "unat (index_entry B (indirect2 ino) ((k - INDIRECT1_BOUND) div INODE_INDIRECT1_COUNT))
      \<in> set (idx_list B ino n)"
    using assms(1) k by (simp add: idx_list_def)
  show "(k - INDIRECT1_BOUND) div INODE_INDIRECT1_COUNT < INODE_INDIRECT1_COUNT"
    using assms k by (simp add: layout_consts)
qed

text \<open>The numbers do not depend on the contents of anything but the index blocks.\<close>

lemma blk_id_cong:
  assumes "\<And>b. b \<in> set (idx_list B ino n) \<Longrightarrow> B' b = B b" "k < n" "n \<le> INDIRECT2_BOUND"
  shows "blk_id B' ino k = blk_id B ino k"
proof (cases "k < INDIRECT1_BOUND")
  case True
  with assms(1) idx_list_mem(1) [OF assms(2,3)] show ?thesis
    by (auto simp: blk_id_def index_entry_def)
next
  case False
  then have "B' (unat (indirect2 ino)) = B (unat (indirect2 ino))"
    using assms(1) idx_list_mem(2) [OF assms(2,3)] by simp
  then have e: "index_entry B' (indirect2 ino) a = index_entry B (indirect2 ino) a" for a
    by (simp add: index_entry_def)
  have "B' (unat (index_entry B (indirect2 ino) ((k - INDIRECT1_BOUND) div INODE_INDIRECT1_COUNT)))
      = B (unat (index_entry B (indirect2 ino) ((k - INDIRECT1_BOUND) div INODE_INDIRECT1_COUNT)))"
    using assms(1) idx_list_mem(3) [OF assms(2,3)] False by simp
  then show ?thesis using False e by (simp add: blk_id_def index_entry_def layout_consts)
qed

lemma data_list_cong:
  assumes "\<And>b. b \<in> set (idx_list B ino n) \<Longrightarrow> B' b = B b" "n \<le> INDIRECT2_BOUND"
  shows "data_list B' ino n = data_list B ino n"
  using blk_id_cong [OF assms(1) _ assms(2)] by (simp add: data_list_def)

lemma idx_list_cong:
  assumes "\<And>b. b \<in> set (idx_list B ino n) \<Longrightarrow> B' b = B b"
  shows "idx_list B' ino n = idx_list B ino n"
  using assms by (auto simp: idx_list_def index_entry_def)

section \<open>Chunks of equal size\<close>

lemma concat_chunks:
  assumes "\<And>k. k < n \<Longrightarrow> length (f k) = s" "k < n"
  shows "concat (map f [0..<n]) = concat (map f [0..<k]) @ f k @ concat (map f [Suc k..<n])"
    and "length (concat (map f [0..<k])) = k * s"
proof -
  have "[0..<n] = [0..<k] @ k # [Suc k..<n]"
    using assms(2) by (metis less_imp_le_nat le_add_diff_inverse upt_add_eq_append upt_conv_Cons zero_le)
  then show "concat (map f [0..<n]) = concat (map f [0..<k]) @ f k @ concat (map f [Suc k..<n])" by simp
  have "length (concat (map f [0..<j])) = j * s" if "j \<le> k" for j
    using that assms by (induction j) auto
  then show "length (concat (map f [0..<k])) = k * s" by simp
qed

lemma take_drop_chunk:
  assumes "\<And>k. k < n \<Longrightarrow> length (f k) = s" "k < n" "off + m \<le> s"
  shows "take m (drop (k * s + off) (concat (map f [0..<n]))) = take m (drop off (f k))"
proof -
  have "length (concat (map f [0..<k])) = k * s"
    by (rule concat_chunks(2) [where f = f and n = n and k = k, OF assms(1,2)])
  then show ?thesis
    using assms(1) [OF assms(2)] assms(3)
    by (subst concat_chunks(1) [where f = f and n = n and k = k, OF assms(1,2)]) simp_all
qed

lemma put_bytes_chunk:
  assumes "\<And>k. k < n \<Longrightarrow> length (f k) = s" "k < n" "off + length bs \<le> s"
  shows "concat (map (f(k := put_bytes off bs (f k))) [0..<n]) =
    put_bytes (k * s + off) bs (concat (map f [0..<n]))"
proof -
  let ?g = "f(k := put_bytes off bs (f k))"
  have g: "length (?g j) = s" if "j < n" for j
    using assms that by auto
  have "map ?g [0..<k] = map f [0..<k]" "map ?g [Suc k..<n] = map f [Suc k..<n]" by auto
  then have "concat (map ?g [0..<n]) =
      concat (map f [0..<k]) @ put_bytes off bs (f k) @ concat (map f [Suc k..<n])"
    using concat_chunks(1) [where f = ?g and n = n and k = k, OF g assms(2)] by simp
  also have "\<dots> = put_bytes (k * s + off) bs (concat (map f [0..<k]) @ f k @ concat (map f [Suc k..<n]))"
    using concat_chunks(2) [where f = f and n = n and k = k, OF assms(1,2)] assms(1) [OF assms(2)] assms(3)
    by (simp add: put_bytes_def)
  finally show ?thesis
    using concat_chunks(1) [where f = f and n = n and k = k, OF assms(1,2)] by simp
qed

lemma length_chunks:
  assumes "\<And>k. k < n \<Longrightarrow> length (f k) = s"
  shows "length (concat (map f [0..<n])) = n * s"
  using assms by (induction n) auto

lemma put_bytes_append:
  assumes "off + length (bs @ cs) \<le> length b"
  shows "put_bytes (off + length bs) cs (put_bytes off bs b) = put_bytes off (bs @ cs) b"
  using assms by (simp add: put_bytes_def algebra_simps)

lemma take_drop_split:
  assumes "s \<le> e" "e \<le> t"
  shows "take (e - s) (drop s xs) @ take (t - e) (drop e xs) = take (t - s) (drop s xs)"
proof -
  have "t - s = (e - s) + (t - e)" "drop e xs = drop (e - s) (drop s xs)" using assms by simp_all
  then show ?thesis by (simp only: take_add)
qed

lemma blocks_data_chunks: "blocks_data B ino n = concat (map (\<lambda>k. B (unat (blk_id B ino k))) [0..<n])"
  by (simp add: blocks_data_def data_list_def comp_def)

section \<open>Lookup, read and write\<close>

text \<open>Overwriting a part of data block \<open>k\<close>.\<close>

lemma write_data_block:
  assumes ok: "inode_ok nblk B H ino n" and k: "k < n"
    and len: "\<And>j. j < n \<Longrightarrow> length (B (unat (blk_id B ino j))) = BLOCK_SZ"
    and bs: "off + length bs \<le> BLOCK_SZ"
  defines "b \<equiv> unat (blk_id B ino k)"
  defines "B1 \<equiv> B(b := put_bytes off bs (B b))"
  shows "data_list B1 ino n = data_list B ino n" "inode_ok nblk B1 H ino n"
    "blocks_data B1 ino n = put_bytes (k * BLOCK_SZ + off) bs (blocks_data B ino n)"
    "b \<in> set (data_list B ino n)"
proof -
  have n: "n \<le> INDIRECT2_BOUND" and dis: "distinct (data_list B ino n @ idx_list B ino n)"
    using ok by (auto simp: inode_ok_def)
  show mem: "b \<in> set (data_list B ino n)" using k by (simp add: b_def data_list_def)
  have idx: "B1 c = B c" if "c \<in> set (idx_list B ino n)" for c
    using dis mem that by (auto simp: B1_def)
  show dl: "data_list B1 ino n = data_list B ino n" by (rule data_list_cong [OF idx n])
  show "inode_ok nblk B1 H ino n"
    using ok dl idx_list_cong [OF idx] by (simp add: inode_ok_def)
  have inj: "unat (blk_id B ino j) = b \<longleftrightarrow> j = k" if "j < n" for j
    using dis k that by (auto simp: b_def data_list_def distinct_map inj_on_def)
  have "blocks_data B1 ino n = concat (map B1 (data_list B ino n))" by (simp add: blocks_data_def dl)
  also have "map B1 (data_list B ino n) =
      map ((\<lambda>j. B (unat (blk_id B ino j)))(k := put_bytes off bs (B b))) [0..<n]"
    using inj by (auto simp: data_list_def B1_def)
  also have "concat \<dots> = put_bytes (k * BLOCK_SZ + off) bs (concat (map (\<lambda>j. B (unat (blk_id B ino j))) [0..<n]))"
    unfolding b_def
    by (rule put_bytes_chunk [where f = "\<lambda>j. B (unat (blk_id B ino j))" and k = k, OF len k bs])
  finally show "blocks_data B1 ino n = put_bytes (k * BLOCK_SZ + off) bs (blocks_data B ino n)"
    by (simp add: blocks_data_chunks)
qed

context block_device
begin

lemma read_index_ret:
  assumes "rep st B H" "unat blk < nblk" "H (unat blk) = None" "card (dom H) < BLOCK_CACHE_SIZE"
    and "k < INODE_INDIRECT1_COUNT"
  shows "ret (read_index D blk k st) (index_entry B blk k) B H"
  unfolding read_index_def
  by (rule block_read_ret [OF assms(1-4)])
     (use assms(5) rep_length [OF assms(1,2)] in \<open>auto simp: index_entry_def BLOCK_SZ_def intro: retI\<close>)

lemma get_block_id_ret:
  assumes "rep st B H" "inode_ok nblk B H ino n" "k < n"
  shows "ret (get_block_id D k ino st) (blk_id B ino k) B H"
proof -
  have ok: "length (direct ino) = INODE_DIRECT_COUNT" "n \<le> INDIRECT2_BOUND" "card (dom H) < BLOCK_CACHE_SIZE"
    "\<And>b. b \<in> set (idx_list B ino n) \<Longrightarrow> b < nblk \<and> H b = None"
    using assms(2) by (auto simp: inode_ok_def)
  note mem = idx_list_mem [OF assms(3) ok(2)]
  consider "k < INODE_DIRECT_COUNT" | "INODE_DIRECT_COUNT \<le> k" "k < INDIRECT1_BOUND" | "INDIRECT1_BOUND \<le> k"
    by linarith
  then show ?thesis
  proof cases
    case 1
    then show ?thesis using ok(1) assms(1) by (simp add: get_block_id_def blk_id_def retI)
  next
    case 2
    then show ?thesis
      using read_index_ret [OF assms(1) _ _ ok(3)] ok(4) [OF mem(1)]
      by (simp add: get_block_id_def blk_id_def layout_consts)
  next
    case 3
    let ?a = "(k - INDIRECT1_BOUND) div INODE_INDIRECT1_COUNT"
    have *: "\<not> k < INODE_DIRECT_COUNT" "\<not> k < INDIRECT1_BOUND" using 3 by (auto simp: layout_consts)
    have "ret (read_index D (indirect2 ino) ?a st) (index_entry B (indirect2 ino) ?a) B H"
      using ok(4) [OF mem(2) [OF 3]] mem(4) [OF 3] by (intro read_index_ret [OF assms(1) _ _ ok(3)]) auto
    then have "ret (rbind (read_index D (indirect2 ino) ?a st) (\<lambda>(ind1, st1).
        read_index D ind1 ((k - INDIRECT1_BOUND) mod INODE_INDIRECT1_COUNT) st1)) (blk_id B ino k) B H"
    proof (rule ret_bind)
      fix st1 assume "rep st1 B H"
      then have "ret (read_index D (index_entry B (indirect2 ino) ?a)
          ((k - INDIRECT1_BOUND) mod INODE_INDIRECT1_COUNT) st1) (blk_id B ino k) B H"
        using read_index_ret [of st1 B H "index_entry B (indirect2 ino) ?a"
            "(k - INDIRECT1_BOUND) mod INODE_INDIRECT1_COUNT"] ok(3) ok(4) [OF mem(3) [OF 3]] *
        by (simp add: blk_id_def layout_consts)
      then show "ret ((\<lambda>(ind1, st1). read_index D ind1 ((k - INDIRECT1_BOUND) mod INODE_INDIRECT1_COUNT) st1)
          (index_entry B (indirect2 ino) ?a, st1)) (blk_id B ino k) B H" by simp
    qed
    then show ?thesis using * by (simp add: get_block_id_def Let_def)
  qed
qed

lemma inode_block:
  assumes "rep st B H" "inode_ok nblk B H ino n" "k < n"
  shows "unat (blk_id B ino k) < nblk" "H (unat (blk_id B ino k)) = None"
    "length (B (unat (blk_id B ino k))) = BLOCK_SZ" "card (dom H) < BLOCK_CACHE_SIZE"
proof -
  have "unat (blk_id B ino k) \<in> set (data_list B ino n)" using assms(3) by (simp add: data_list_def)
  then show "unat (blk_id B ino k) < nblk" "H (unat (blk_id B ino k)) = None" "card (dom H) < BLOCK_CACHE_SIZE"
    using assms(2) by (auto simp: inode_ok_def)
  then show "length (B (unat (blk_id B ino k))) = BLOCK_SZ" using rep_length [OF assms(1)] by simp
qed

lemma blocks_data_take:
  assumes "rep st B H" "inode_ok nblk B H ino n" "start div BLOCK_SZ < n" "start mod BLOCK_SZ + m \<le> BLOCK_SZ"
  shows "take m (drop start (blocks_data B ino n)) =
    take m (drop (start mod BLOCK_SZ) (B (unat (blk_id B ino (start div BLOCK_SZ)))))"
  using take_drop_chunk [where f = "\<lambda>k. B (unat (blk_id B ino k))" and n = n and s = BLOCK_SZ
      and k = "start div BLOCK_SZ" and off = "start mod BLOCK_SZ" and m = m]
    inode_block(3) [OF assms(1,2)] assms(3,4)
  by (simp add: blocks_data_chunks)

text \<open>How far one turn of the loops gets.\<close>

lemma block_step:
  fixes start end1 :: nat
  assumes "start < end1" "end1 \<le> n * BLOCK_SZ"
  defines "e \<equiv> min ((start div BLOCK_SZ + 1) * BLOCK_SZ) end1"
  shows "start < e" "e \<le> end1" "start mod BLOCK_SZ + (e - start) \<le> BLOCK_SZ" "start div BLOCK_SZ < n"
    "e \<noteq> end1 \<Longrightarrow> e div BLOCK_SZ = start div BLOCK_SZ + 1"
proof -
  have lt: "start < (start div BLOCK_SZ + 1) * BLOCK_SZ"
    using dividend_less_div_times [of BLOCK_SZ start] by (simp add: BLOCK_SZ_def)
  then show "start < e" "e \<le> end1" using assms(1) by (auto simp: e_def)
  have "start mod BLOCK_SZ = start - start div BLOCK_SZ * BLOCK_SZ" "start div BLOCK_SZ * BLOCK_SZ \<le> start"
    by (simp_all add: minus_div_mult_eq_mod)
  moreover have "e \<le> start div BLOCK_SZ * BLOCK_SZ + BLOCK_SZ" by (simp add: e_def)
  ultimately show "start mod BLOCK_SZ + (e - start) \<le> BLOCK_SZ" using \<open>start < e\<close> by linarith
  show "start div BLOCK_SZ < n"
    using assms(1,2) by (simp add: less_mult_imp_div_less)
  show "e div BLOCK_SZ = start div BLOCK_SZ + 1" if "e \<noteq> end1"
  proof -
    have "e = (start div BLOCK_SZ + 1) * BLOCK_SZ" using that by (simp add: e_def min_def split: if_splits)
    then show ?thesis by (simp add: BLOCK_SZ_def)
  qed
qed

lemma read_loop_ret:
  assumes "rep st B H" "inode_ok nblk B H ino n" "start < end1" "end1 \<le> n * BLOCK_SZ"
  shows "ret (read_loop D ino start (start div BLOCK_SZ) end1 st)
    (take (end1 - start) (drop start (blocks_data B ino n))) B H"
  using assms
proof (induction "end1 - start" arbitrary: start st rule: less_induct)
  case less
  let ?e = "min ((start div BLOCK_SZ + 1) * BLOCK_SZ) end1"
  let ?k = "start div BLOCK_SZ"
  let ?dst = "take (?e - start) (drop (start mod BLOCK_SZ) (B (unat (blk_id B ino ?k))))"
  note step = block_step [OF less.prems(3,4)]
  note blk = inode_block [OF less.prems(1,2) step(4)]
  have dst: "?dst = take (?e - start) (drop start (blocks_data B ino n))"
    using blocks_data_take [OF less.prems(1,2) step(4,3)] by simp
  show ?case
    unfolding read_loop.simps [of D ino start] Let_def
  proof (rule ret_bind [OF get_block_id_ret [OF less.prems(1,2) step(4)]], unfold prod.case)
    fix st1 assume st1: "rep st1 B H"
    have read: "ret (block_read D (unat (blk_id B ino ?k)) 0 BLOCK_SZ (\<lambda>data_block st.
          Inr (take (?e - start) (drop (start mod BLOCK_SZ) data_block), st)) st1) ?dst B H"
      using block_read_pure [OF st1 blk(1,2,4), of 0 BLOCK_SZ
          "\<lambda>bs. take (?e - start) (drop (start mod BLOCK_SZ) bs)"] blk(3)
      by (simp add: BLOCK_SZ_def)
    show "ret (rbind (block_read D (unat (blk_id B ino ?k)) 0 BLOCK_SZ (\<lambda>data_block st.
          Inr (take (?e - start) (drop (start mod BLOCK_SZ) data_block), st)) st1)
        (\<lambda>(dst, st2). if ?e = end1 then Inr (dst, st2)
          else rbind (read_loop D ino ?e (?k + 1) end1 st2) (\<lambda>(rest, st3). Inr (dst @ rest, st3))))
        (take (end1 - start) (drop start (blocks_data B ino n))) B H"
    proof (rule ret_bind [OF read], unfold prod.case)
      fix st2 assume st2: "rep st2 B H"
      show "ret (if ?e = end1 then Inr (?dst, st2)
          else rbind (read_loop D ino ?e (?k + 1) end1 st2) (\<lambda>(rest, st3). Inr (?dst @ rest, st3)))
          (take (end1 - start) (drop start (blocks_data B ino n))) B H"
      proof (cases "?e = end1")
        case True
        then show ?thesis using dst st2 by (simp add: retI)
      next
        case False
        then have "?e < end1" using step(2) by simp
        then have "ret (read_loop D ino ?e (?e div BLOCK_SZ) end1 st2)
            (take (end1 - ?e) (drop ?e (blocks_data B ino n))) B H"
          using step(1) less.prems(3) by (intro less.hyps [OF _ st2 less.prems(2) _ less.prems(4)]) auto
        then have "ret (rbind (read_loop D ino ?e (?k + 1) end1 st2) (\<lambda>(rest, st3). Inr (?dst @ rest, st3)))
            (?dst @ take (end1 - ?e) (drop ?e (blocks_data B ino n))) B H"
          unfolding step(5) [OF False] by (rule ret_bind) (simp add: retI)
        moreover have "?dst @ take (end1 - ?e) (drop ?e (blocks_data B ino n)) =
            take (end1 - start) (drop start (blocks_data B ino n))"
          unfolding dst using step(1,2) by (intro take_drop_split) auto
        ultimately show ?thesis by (simp only: False if_False)
      qed
    qed
  qed
qed

lemma length_blocks_data:
  assumes "rep st B H" "inode_ok nblk B H ino n"
  shows "length (blocks_data B ino n) = n * BLOCK_SZ"
  unfolding blocks_data_chunks by (rule length_chunks) (rule inode_block(3) [OF assms])

lemma write_loop_ret:
  assumes "rep st B H" "inode_ok nblk B H ino n" "start < end1" "end1 \<le> n * BLOCK_SZ"
    and "ws + (end1 - start) \<le> length buf"
  shows "\<exists>B'. ret (write_loop D ino start (start div BLOCK_SZ) end1 buf ws st) (ws + (end1 - start)) B' H
    \<and> inode_ok nblk B' H ino n \<and> data_list B' ino n = data_list B ino n
    \<and> (\<forall>b. b \<notin> set (data_list B ino n) \<longrightarrow> B' b = B b)
    \<and> blocks_data B' ino n = put_bytes start (take (end1 - start) (drop ws buf)) (blocks_data B ino n)"
  using assms
proof (induction "end1 - start" arbitrary: start ws st B rule: less_induct)
  case less
  define e where "e = min ((start div BLOCK_SZ + 1) * BLOCK_SZ) end1"
  let ?k = "start div BLOCK_SZ"
  let ?b = "unat (blk_id B ino ?k)"
  let ?src = "take (e - start) (drop ws buf)"
  let ?B1 = "B(?b := put_bytes (start mod BLOCK_SZ) ?src (B ?b))"
  note step = block_step [OF less.prems(3,4), folded e_def]
  note blk = inode_block [OF less.prems(1,2) step(4)]
  have src: "length ?src = e - start" using less.prems(5) step(1,2) by simp
  have fit: "start mod BLOCK_SZ + length ?src \<le> BLOCK_SZ" using src step(3) by simp
  note w = write_data_block [OF less.prems(2) step(4) inode_block(3) [OF less.prems(1,2)] fit]
  have B1: "blocks_data ?B1 ino n = put_bytes start ?src (blocks_data B ino n)"
    using w(3) by simp
  obtain st1 where st1: "get_block_id D ?k ino st = Inr (blk_id B ino ?k, st1)" "rep st1 B H"
    by (rule retE [OF get_block_id_ret [OF less.prems(1,2) step(4)]])
  have "ret (block_modify D ?b 0 BLOCK_SZ (\<lambda>data_block st.
        Inr (((), put_bytes (start mod BLOCK_SZ) ?src data_block), st)) st1) ()
        (B(?b := put_bytes 0 (put_bytes (start mod BLOCK_SZ) ?src (B ?b)) (B ?b))) H"
    using block_modify_pure [OF st1(2) blk(1,2,4), of 0 BLOCK_SZ
        "\<lambda>bs. ((), put_bytes (start mod BLOCK_SZ) ?src bs)"] blk(3) fit
    by (simp add: BLOCK_SZ_def)
  then obtain st2 where st2: "block_modify D ?b 0 BLOCK_SZ (\<lambda>data_block st.
        Inr (((), put_bytes (start mod BLOCK_SZ) ?src data_block), st)) st1 = Inr ((), st2)" "rep st2 ?B1 H"
    using blk(3) fit by (auto simp: put_bytes_all elim!: retE)
  have loop: "write_loop D ino start ?k end1 buf ws st =
      (if e = end1 then Inr (ws + (e - start), st2)
       else write_loop D ino e (?k + 1) end1 buf (ws + (e - start)) st2)"
    by (subst write_loop.simps) (simp only: st1(1) st2(1) [unfolded e_def] rbind_simps prod.case Let_def e_def)
  show ?case
  proof (cases "e = end1")
    case True
    with w(1,2,4) B1 st2(2) show ?thesis
      by (intro exI [of _ ?B1]) (simp add: loop retI)
  next
    case False
    then have lt: "e < end1" using step(2) by simp
    have "\<exists>B'. ret (write_loop D ino e (e div BLOCK_SZ) end1 buf (ws + (e - start)) st2)
          (ws + (e - start) + (end1 - e)) B' H
        \<and> inode_ok nblk B' H ino n \<and> data_list B' ino n = data_list ?B1 ino n
        \<and> (\<forall>b. b \<notin> set (data_list ?B1 ino n) \<longrightarrow> B' b = ?B1 b)
        \<and> blocks_data B' ino n = put_bytes e (take (end1 - e) (drop (ws + (e - start)) buf)) (blocks_data ?B1 ino n)"
      by (rule less.hyps [OF _ st2(2) w(2) lt less.prems(4)]) (use step(1) lt less.prems(3,5) in auto)
    then obtain B' where B': "ret (write_loop D ino e (?k + 1) end1 buf (ws + (e - start)) st2)
          (ws + (e - start) + (end1 - e)) B' H"
      "inode_ok nblk B' H ino n" "data_list B' ino n = data_list ?B1 ino n"
      "\<forall>b. b \<notin> set (data_list ?B1 ino n) \<longrightarrow> B' b = ?B1 b"
      "blocks_data B' ino n = put_bytes e (take (end1 - e) (drop (ws + (e - start)) buf)) (blocks_data ?B1 ino n)"
      unfolding step(5) [OF False] by blast
    have total: "ws + (e - start) + (end1 - e) = ws + (end1 - start)" using step(1,2) by linarith
    let ?cs = "take (end1 - e) (drop (ws + (e - start)) buf)"
    have split_eq: "take (end1 - start) (drop ws buf) = ?src @ ?cs"
    proof -
      have "end1 - start = (e - start) + (end1 - e)" using step(1,2) by linarith
      then show ?thesis by (simp only: take_add drop_drop add.commute [of "e - start" ws])
    qed
    have "length (?src @ ?cs) = end1 - start"
      unfolding split_eq [symmetric] using less.prems(5) by simp
    then have fits: "start + length (?src @ ?cs) \<le> length (blocks_data B ino n)"
      unfolding length_blocks_data [OF less.prems(1,2)] using less.prems(3,4) by linarith
    have e1: "start + length ?src = e" unfolding src using step(1) by linarith
    have "blocks_data B' ino n = put_bytes start (take (end1 - start) (drop ws buf)) (blocks_data B ino n)"
      unfolding B'(5) B1 split_eq using put_bytes_append [OF fits] unfolding e1 .
    moreover have "ret (write_loop D ino start ?k end1 buf ws st) (ws + (end1 - start)) B' H"
      using B'(1) unfolding total loop by (simp only: False if_False)
    moreover have "B' b = B b" if "b \<notin> set (data_list B ino n)" for b
      using B'(4) w(1,4) that by (metis fun_upd_other)
    moreover have "data_list B' ino n = data_list B ino n" using B'(3) w(1) by (rule trans)
    ultimately show ?thesis using B'(2) by blast
  qed
qed

lemma inode_read_at_ret:
  assumes "rep st B H" "inode_ok nblk B H ino ((unat (inode_size ino) + BLOCK_SZ - 1) div BLOCK_SZ)"
  shows "ret (inode_read_at D offset len ino st) (take len (drop offset (file_data B ino))) B H"
proof -
  let ?sz = "unat (inode_size ino)"
  let ?n = "(?sz + BLOCK_SZ - 1) div BLOCK_SZ"
  let ?fin = "min (offset + len) ?sz"
  have le: "?sz \<le> ?n * BLOCK_SZ" by (simp add: BLOCK_SZ_def)
  have eq: "take len (drop offset (file_data B ino)) = take (?fin - offset) (drop offset (blocks_data B ino ?n))"
  proof -
    have "?fin - offset = min len (?sz - offset)" by (simp add: min_def) arith
    then show ?thesis by (simp only: file_data_def drop_take take_take)
  qed
  show ?thesis
  proof (cases "offset \<ge> ?fin")
    case True
    then show ?thesis using assms(1) unfolding eq by (simp add: inode_read_at_def Let_def retI)
  next
    case False
    then have "ret (read_loop D ino offset (offset div BLOCK_SZ) ?fin st)
        (take (?fin - offset) (drop offset (blocks_data B ino ?n))) B H"
      using le by (intro read_loop_ret [OF assms]) auto
    with False show ?thesis unfolding eq inode_read_at_def Let_def by simp
  qed
qed

lemma inode_write_at_ret:
  assumes "rep st B H" "inode_ok nblk B H ino ((unat (inode_size ino) + BLOCK_SZ - 1) div BLOCK_SZ)"
    and "offset + length buf \<le> unat (inode_size ino)" "buf \<noteq> []"
  obtains B' where "ret (inode_write_at D offset buf ino st) (length buf) B' H"
    "inode_ok nblk B' H ino ((unat (inode_size ino) + BLOCK_SZ - 1) div BLOCK_SZ)"
    "file_data B' ino = put_bytes offset buf (file_data B ino)"
    "\<And>b. b \<notin> set (data_list B ino ((unat (inode_size ino) + BLOCK_SZ - 1) div BLOCK_SZ)) \<Longrightarrow> B' b = B b"
proof -
  let ?sz = "unat (inode_size ino)"
  let ?n = "(?sz + BLOCK_SZ - 1) div BLOCK_SZ"
  have le: "?sz \<le> ?n * BLOCK_SZ" by (simp add: BLOCK_SZ_def)
  have e: "min (offset + length buf) ?sz = offset + length buf" using assms(3) by simp
  obtain B' where B': "ret (write_loop D ino offset (offset div BLOCK_SZ) (offset + length buf) buf 0 st)
        (0 + (offset + length buf - offset)) B' H"
    "inode_ok nblk B' H ino ?n" "\<forall>b. b \<notin> set (data_list B ino ?n) \<longrightarrow> B' b = B b"
    "blocks_data B' ino ?n = put_bytes offset (take (offset + length buf - offset) (drop 0 buf)) (blocks_data B ino ?n)"
    using write_loop_ret [OF assms(1,2), of offset "offset + length buf" 0 buf] assms(3,4) le by auto
  have len: "length (blocks_data B ino ?n) = ?n * BLOCK_SZ" by (rule length_blocks_data [OF assms(1,2)])
  have "file_data B' ino = take ?sz (put_bytes offset buf (blocks_data B ino ?n))"
    using B'(4) by (simp add: file_data_def)
  also have "\<dots> = put_bytes offset buf (file_data B ino)"
    using assms(3) le len by (simp add: file_data_def put_bytes_def drop_take)
  finally have fd: "file_data B' ino = put_bytes offset buf (file_data B ino)" .
  have "ret (inode_write_at D offset buf ino st) (length buf) B' H"
    using B'(1) by (simp add: inode_write_at_def e Let_def)
  with that B'(2,3) fd show ?thesis by blast
qed

end

section \<open>Properties\<close>

text \<open>
  C14. The file of an inode is an array of bytes: for an inode whose data and index blocks are distinct
  blocks of the device, a write inside the file returns the number of bytes of the buffer, changes
  exactly those bytes of the file and no block outside the file's data blocks, and every later read at
  any offset and length returns the bytes of the changed file, cut at its end; through direct, indirect
  and doubly indirect blocks alike, and without a panic.
\<close>

theorem inode_write_then_read:
  assumes "block_device D contents nblk dev_ok" "bc_rep contents nblk dev_ok st B H"
    and "inode_ok nblk B H ino ((unat (inode_size ino) + BLOCK_SZ - 1) div BLOCK_SZ)"
    and "offset + length buf \<le> unat (inode_size ino)" "buf \<noteq> []"
  shows "\<exists>st1 B'. inode_write_at D offset buf ino st = Inr (length buf, st1)
    \<and> bc_rep contents nblk dev_ok st1 B' H
    \<and> (\<forall>b. b \<notin> set (data_list B ino ((unat (inode_size ino) + BLOCK_SZ - 1) div BLOCK_SZ)) \<longrightarrow> B' b = B b)
    \<and> (\<forall>off len. \<exists>st2. inode_read_at D off len ino st1 =
          Inr (take len (drop off (put_bytes offset buf (file_data B ino))), st2)
        \<and> bc_rep contents nblk dev_ok st2 B' H)"
proof -
  obtain B' where B': "bc_ret contents nblk dev_ok (inode_write_at D offset buf ino st) (length buf) B' H"
    "inode_ok nblk B' H ino ((unat (inode_size ino) + BLOCK_SZ - 1) div BLOCK_SZ)"
    "file_data B' ino = put_bytes offset buf (file_data B ino)"
    "\<And>b. b \<notin> set (data_list B ino ((unat (inode_size ino) + BLOCK_SZ - 1) div BLOCK_SZ)) \<Longrightarrow> B' b = B b"
    by (rule block_device.inode_write_at_ret [OF assms]) blast
  then obtain st1 where st1: "inode_write_at D offset buf ino st = Inr (length buf, st1)"
    "bc_rep contents nblk dev_ok st1 B' H" by (auto simp: bc_ret_def)
  have "\<exists>st2. inode_read_at D off len ino st1 =
          Inr (take len (drop off (put_bytes offset buf (file_data B ino))), st2)
        \<and> bc_rep contents nblk dev_ok st2 B' H" for off len
    using block_device.inode_read_at_ret [OF assms(1) st1(2) B'(2), of off len] B'(3)
    by (auto simp: bc_ret_def)
  with st1 B'(4) show ?thesis by blast
qed

text \<open>A file of 600 bytes in the blocks 2 and 3 of an image of four blocks.\<close>

definition demo_inode :: disk_inode where
  "demo_inode = \<lparr>inode_size = 600, direct = 2 # 3 # replicate 26 0, indirect1 = 0, indirect2 = 0,
     inode_type = File\<rparr>"

lemma demo_inode_ok: "inode_ok 4 B Map.empty demo_inode 2"
  by (simp add: inode_ok_def demo_inode_def data_list_def idx_list_def blk_id_def layout_consts
      BLOCK_CACHE_SIZE_def upt_conv_Cons)

theorem inode_write_then_read_witness:
  "\<exists>st1 st2. inode_write_at block_file_ops 510 [1, 2, 3, 4] demo_inode (cache_manager_new (replicate 2048 0))
       = Inr (4, st1)
     \<and> inode_read_at block_file_ops 0 0 demo_inode st1 = Inr ([], st2)"
proof -
  have rep: "bc_rep file_block 4 (\<lambda>f. 4 * BLOCK_SZ \<le> length f) (cache_manager_new (replicate 2048 0))
      (file_block (replicate 2048 0)) Map.empty"
    by (rule bc_rep_new) (simp add: BLOCK_SZ_def)
  have n: "(unat (inode_size demo_inode) + BLOCK_SZ - 1) div BLOCK_SZ = 2"
    by (simp add: demo_inode_def BLOCK_SZ_def)
  have le: "510 + length [1, 2, 3, 4 :: u8] \<le> unat (inode_size demo_inode)" "[1, 2, 3, 4 :: u8] \<noteq> []"
    by (simp_all add: demo_inode_def)
  from inode_write_then_read [OF bf.block_device_axioms rep demo_inode_ok [folded n] le]
  obtain st1 where "inode_write_at block_file_ops 510 [1, 2, 3, 4] demo_inode (cache_manager_new (replicate 2048 0))
       = Inr (length [1, 2, 3, 4 :: u8], st1)"
    "\<forall>off len. \<exists>st2. inode_read_at block_file_ops off len demo_inode st1 =
          Inr (take len (drop off (put_bytes 510 [1, 2, 3, 4] (file_data (file_block (replicate 2048 0)) demo_inode))), st2)"
    by blast
  moreover have "length [1, 2, 3, 4 :: u8] = 4" by simp
  ultimately show ?thesis by (metis take0)
qed

lemma find_zero:
  "find_index (\<lambda>b. b = 0) xs = (if 0 \<in> set xs then Some (length (takeWhile (\<lambda>b. b \<noteq> 0) xs)) else None)"
  by (induction xs) auto

lemma take_zero: "take (length (takeWhile P xs)) (xs @ ys) = takeWhile P xs"
  by (metis append.assoc append_eq_conv_conj takeWhile_dropWhile_id)

lemma utf8_tail_nonzero [simp]: "0 < lo \<Longrightarrow> \<not> utf8_tail lo hi 0"
  by (simp add: utf8_tail_def word_less_nat_alt word_le_nat_alt)

lemma utf8_valid_prefix: "utf8_valid name \<Longrightarrow> utf8_valid (takeWhile (\<lambda>b. b \<noteq> 0) name)"
proof (induction name rule: utf8_valid.induct)
  case (2 a bs)
  show ?case
  proof (cases "a < 0x80")
    case True
    with 2 show ?thesis by simp
  next
    case a: False
    then have a0: "a \<noteq> 0" by auto
    obtain b cs where bs: "bs = b # cs" using 2(7) a by (cases bs) auto
    show ?thesis
    proof (cases "0xC2 \<le> a \<and> a \<le> 0xDF")
      case True
      with 2(2) [OF a bs True] 2(7) a a0 bs show ?thesis by auto
    next
      case b: False
      obtain c ds where cs: "cs = c # ds" using 2(7) a b bs by (cases cs) auto
      show ?thesis
      proof (cases "a = 0xE0 \<or> a = 0xED \<or> 0xE1 \<le> a \<and> a \<le> 0xEF")
        case True
        have ds: "utf8_valid ds" "b \<noteq> 0" "c \<noteq> 0"
          using 2(7) a b bs cs True by (auto split: if_splits)
        have "utf8_valid (takeWhile (\<lambda>b. b \<noteq> 0) ds)"
          using 2(3) [OF a bs b cs] 2(4) [OF a bs b cs] 2(5) [OF a bs b cs] ds(1) True by blast
        with 2(7) a a0 b bs cs ds True show ?thesis by (auto split: if_splits)
      next
        case c: False
        obtain d es where ds: "ds = d # es" using 2(7) a b c bs cs by (cases ds) auto
        have es: "utf8_valid es" "b \<noteq> 0" "c \<noteq> 0" "d \<noteq> 0"
          using 2(7) a b c bs cs ds by auto
        have "utf8_valid (takeWhile (\<lambda>b. b \<noteq> 0) es)"
          using 2(6) [OF a bs b cs _ _ _ ds] es(1) c by blast
        moreover have "takeWhile (\<lambda>b. b \<noteq> 0) (a # bs) = a # b # c # d # takeWhile (\<lambda>b. b \<noteq> 0) es"
          using a0 es bs cs ds by simp
        ultimately show ?thesis using 2(7) a b c es(1) bs cs ds by (simp only: utf8_valid.simps list.case if_False de_Morgan_disj simp_thms)
      qed
    qed
  qed
qed simp

lemma utf8_valid_ascii: "\<forall>b \<in> set name. b < 0x80 \<Longrightarrow> utf8_valid name"
  by (induction name) auto

lemma takeWhile_zeros: "takeWhile (\<lambda>b. b \<noteq> 0) (name @ replicate n (0 :: u8)) = takeWhile (\<lambda>b. b \<noteq> 0) name"
  by (induction name) (cases n; simp)+

text \<open>
  C34. What becomes of a file name in a directory entry, for every string. \<^verbatim>\<open>DirEntry::new\<close> of a name of at
  most 28 bytes makes an entry with the inode number, from which \<^verbatim>\<open>DirEntry::name\<close> reads back the bytes before
  the first zero byte: a name of at most 27 bytes without a zero byte comes back whole, and a name with a
  zero byte in it is cut there. A name of 28 bytes without a zero byte is accepted too, but reading it
  panics, since the search for the end leaves the array. A name of more than 28 bytes panics when
  the entry is made.
\<close>

theorem directory_names:
  assumes "utf8_valid name"
  shows "case dir_entry_new name i of
     Inl e \<Rightarrow> 28 < length name \<and> e = Index_Out_Of_Bounds
   | Inr d \<Rightarrow> length name \<le> 28 \<and> de_inode_number d = i \<and>
       dir_entry_name d =
         (if length name = 28 \<and> 0 \<notin> set name then Inl Index_Out_Of_Bounds
          else Inr (takeWhile (\<lambda>b. b \<noteq> 0) name))"
proof (cases "length name \<le> 28")
  case True
  let ?z = "replicate (28 - length name) (0 :: u8)"
  have new: "dir_entry_new name i = Inr \<lparr>de_name = name @ ?z, de_inode_number = i\<rparr>"
    using True by (simp add: dir_entry_new_def put_bytes_def NAME_LENGTH_LIMIT_def)
  have "takeWhile (\<lambda>b. b \<noteq> 0) (name @ ?z) = takeWhile (\<lambda>b. b \<noteq> 0) name"
    by (rule takeWhile_zeros)
  moreover have "0 \<in> set (name @ ?z) \<longleftrightarrow> \<not> (length name = 28 \<and> 0 \<notin> set name)" using True by auto
  moreover have "take (length (takeWhile (\<lambda>b. b \<noteq> 0) name)) (name @ ?z) = takeWhile (\<lambda>b. b \<noteq> 0) name"
    by (rule take_zero)
  ultimately show ?thesis
    using True utf8_valid_prefix [OF assms] unfolding new
    by (simp add: dir_entry_name_def find_zero del: take_append set_append)
next
  case False
  then show ?thesis by (simp add: dir_entry_new_def NAME_LENGTH_LIMIT_def)
qed

theorem directory_names_witness:
  "(\<exists>d. dir_entry_new [0x61, 0x62] 5 = Inr d \<and> de_inode_number d = 5 \<and> dir_entry_name d = Inr [0x61, 0x62])
   \<and> (\<exists>d. dir_entry_new (replicate 28 0x61) 5 = Inr d \<and> dir_entry_name d = Inl Index_Out_Of_Bounds)
   \<and> dir_entry_new (replicate 29 0x61) 5 = Inl Index_Out_Of_Bounds"
proof -
  have u: "utf8_valid [0x61, 0x62]" "utf8_valid (replicate 28 0x61)" "utf8_valid (replicate 29 0x61)"
    by (rule utf8_valid_ascii; simp)+
  show ?thesis
    using directory_names [OF u(1), of 5] directory_names [OF u(2), of 5] directory_names [OF u(3), of 5]
    by (auto split: sum.splits)
qed

text \<open>
  A name of 28 bytes is accepted when the entry is created but makes every later look at the entry
  panic: the search for the terminating zero runs past the array. A longer name panics at once.
\<close>

theorem long_name_panics:
  assumes "0 \<notin> set name"
  shows "(length name = 28 \<longrightarrow> (\<exists>e. dir_entry_new name i = Inr e \<and> dir_entry_name e = Inl Index_Out_Of_Bounds))
    \<and> (length name > 28 \<longrightarrow> dir_entry_new name i = Inl Index_Out_Of_Bounds)"
proof -
  have "find_index (\<lambda>b. b = 0) name = None" using assms by (auto simp: find_index_None)
  then show ?thesis
    by (simp add: dir_entry_new_def dir_entry_name_def put_bytes_def NAME_LENGTH_LIMIT_def)
qed

theorem long_name_panics_witness:
  "\<exists>e. dir_entry_new (replicate 28 0x61) 5 = Inr e \<and> dir_entry_name e = Inl Index_Out_Of_Bounds"
  using long_name_panics [of "replicate 28 0x61" 5] by simp

end
