(* ===== verification/Efs.thy ===== *)
theory Efs
  imports Inode_Data
begin

text \<open>
  The file system as a whole, \<^verbatim>\<open>easy-fs/src/efs.rs\<close>: the partition of the device into super block, inode
  bitmap, inode area, data bitmap and data area, and the allocation of inodes and data blocks. The
  structure is immutable once created; everything that changes is on the disk. 32-bit numbers are
  natural numbers with the checks of a debug build.
\<close>

record efs =
  inode_bitmap :: bitmap
  data_bitmap :: bitmap
  inode_area_start_block :: nat
  data_area_start_block :: nat

definition checked_sub :: "nat \<Rightarrow> nat \<Rightarrow> nat res" where
  "checked_sub a b = (if b \<le> a then Inr (a - b) else Inl Arith_Overflow)"

text \<open>The sizes of the areas, computed by \<^verbatim>\<open>create\<close>: inode area, data bitmap, data area.\<close>

definition efs_areas :: "nat \<Rightarrow> nat \<Rightarrow> (nat \<times> nat \<times> nat) res" where
  "efs_areas total_blocks ib =
     (let inode_num = bitmap_maximum (bitmap_new 1 ib);
          ia = (inode_num * sizeof_disk_inode + BLOCK_SZ - 1) div BLOCK_SZ mod 2 ^ 32 in
      rbind (checked_u32 (ib + ia)) (\<lambda>inode_total_blocks.
      rbind (checked_sub total_blocks 1) (\<lambda>t1.
      rbind (checked_sub t1 inode_total_blocks) (\<lambda>data_total_blocks.
      rbind (checked_u32 (data_total_blocks + 4096)) (\<lambda>s.
      let db = s div 4097 in
      rbind (checked_sub data_total_blocks db) (\<lambda>da. Inr (ia, db, da)))))))"

definition efs_layout :: "nat \<Rightarrow> nat \<Rightarrow> nat \<Rightarrow> efs" where
  "efs_layout ib ia db =
     \<lparr>inode_bitmap = bitmap_new 1 ib, data_bitmap = bitmap_new (1 + ib + ia) db,
      inode_area_start_block = 1 + ib, data_area_start_block = 1 + ib + ia + db\<rparr>"

definition get_disk_inode_pos :: "efs \<Rightarrow> nat \<Rightarrow> (nat \<times> nat) res" where
  "get_disk_inode_pos fs inode_id =
     (let inodes_per_block = BLOCK_SZ div sizeof_disk_inode in
      rbind (checked_u32 (inode_area_start_block fs + inode_id div inodes_per_block)) (\<lambda>blk.
        Inr (blk, inode_id mod inodes_per_block * sizeof_disk_inode)))"

definition get_data_block_id :: "efs \<Rightarrow> nat \<Rightarrow> nat res" where
  "get_data_block_id fs data_block_id = checked_u32 (data_area_start_block fs + data_block_id)"

definition alloc_inode :: "'d device_ops \<Rightarrow> efs \<Rightarrow> 'd bstate \<Rightarrow> (nat \<times> 'd bstate) res" where
  "alloc_inode D fs st =
     rbind (bitmap_alloc D (inode_bitmap fs) st) (\<lambda>(r, st1).
     rbind (unwrap r) (\<lambda>i. Inr (i mod 2 ^ 32, st1)))"

definition alloc_data :: "'d device_ops \<Rightarrow> efs \<Rightarrow> 'd bstate \<Rightarrow> (u32 \<times> 'd bstate) res" where
  "alloc_data D fs st =
     rbind (bitmap_alloc D (data_bitmap fs) st) (\<lambda>(r, st1).
     rbind (unwrap r) (\<lambda>i.
     rbind (checked_u32 (i mod 2 ^ 32 + data_area_start_block fs)) (\<lambda>b. Inr (of_nat b, st1))))"

definition dealloc_data :: "'d device_ops \<Rightarrow> efs \<Rightarrow> u32 \<Rightarrow> 'd bstate \<Rightarrow> (unit \<times> 'd bstate) res" where
  "dealloc_data D fs blk st =
     rbind (block_modify D (unat blk) 0 BLOCK_SZ (\<lambda>bs st. Inr (((), map (\<lambda>_. 0) bs), st)) st) (\<lambda>(_, st1).
     rbind (checked_sub (unat blk) (data_area_start_block fs)) (\<lambda>b.
       bitmap_dealloc D (data_bitmap fs) b st1))"

fun clear_blocks :: "'d device_ops \<Rightarrow> nat list \<Rightarrow> 'd bstate \<Rightarrow> (unit \<times> 'd bstate) res" where
  "clear_blocks D [] st = Inr ((), st)"
| "clear_blocks D (i # is) st =
     rbind (block_modify D i 0 BLOCK_SZ (\<lambda>bs st. Inr (((), map (\<lambda>_. 0) bs), st)) st) (\<lambda>(_, st1).
       clear_blocks D is st1)"

text \<open>\<^verbatim>\<open>disk_inode.initialize(type)\<close> on the inode at an offset of a block.\<close>

definition initialize_inode ::
    "'d device_ops \<Rightarrow> nat \<Rightarrow> nat \<Rightarrow> disk_inode_type \<Rightarrow> 'd bstate \<Rightarrow> (unit \<times> 'd bstate) res" where
  "initialize_inode D blk offset ty st =
     block_modify D blk offset sizeof_disk_inode (\<lambda>bs st.
       Inr (((), disk_inode_bytes (disk_inode_initialize ty) bs), st)) st"

definition efs_create ::
    "'d device_ops \<Rightarrow> nat \<Rightarrow> nat \<Rightarrow> 'd bstate \<Rightarrow> (efs \<times> 'd bstate) res" where
  "efs_create D total_blocks ib st =
     rbind (efs_areas total_blocks ib) (\<lambda>(ia, db, da).
     let fs = efs_layout ib ia db in
     rbind (clear_blocks D [0..<total_blocks] st) (\<lambda>(_, st1).
     rbind (block_modify D 0 0 sizeof_super_block (\<lambda>_ st.
              Inr (((), super_block_bytes (super_block_initialize (of_nat total_blocks) (of_nat ib)
                (of_nat ia) (of_nat db) (of_nat da))), st)) st1) (\<lambda>(_, st2).
     rbind (alloc_inode D fs st2) (\<lambda>(i, st3).
     rbind (rassert (i = 0)) (\<lambda>_.
     rbind (get_disk_inode_pos fs 0) (\<lambda>(blk, offset).
     rbind (initialize_inode D blk offset Directory st3) (\<lambda>(_, st4).
     rbind (block_cache_sync_all D st4) (\<lambda>st5. Inr (fs, st5)))))))))"

definition efs_open :: "'d device_ops \<Rightarrow> 'd bstate \<Rightarrow> (efs \<times> 'd bstate) res" where
  "efs_open D st =
     block_read D 0 0 sizeof_super_block (\<lambda>bs st.
       let sb = super_block_of bs in
       rbind (rassert (super_block_is_valid sb)) (\<lambda>_.
       rbind (checked_u32 (unat (inode_bitmap_blocks sb) + unat (inode_area_blocks sb))) (\<lambda>inode_total_blocks.
       rbind (checked_u32 (1 + inode_total_blocks + unat (data_bitmap_blocks sb))) (\<lambda>data_start.
         Inr (\<lparr>inode_bitmap = bitmap_new 1 (unat (inode_bitmap_blocks sb)),
               data_bitmap = bitmap_new (1 + inode_total_blocks) (unat (data_bitmap_blocks sb)),
               inode_area_start_block = 1 + unat (inode_bitmap_blocks sb),
               data_area_start_block = data_start\<rparr>, st))))) st"

section \<open>The partition of the device\<close>

lemma efs_areas_Inr:
  assumes "efs_areas total_blocks ib = Inr (ia, db, da)" "ib < 2 ^ 21"
  shows "ia = ib * 1024" "1 + ib + ia + db + da = total_blocks" "da \<le> db * 4096" "ib + ia < 2 ^ 32"
proof -
  note areas = efs_areas_def Let_def bitmap_maximum_def bitmap_new_def BLOCK_BITS_eq
    sizeof_disk_inode_def BLOCK_SZ_def res_eq_simps
  show ia: "ia = ib * 1024" using assms by (auto simp: areas)
  define t where "t = total_blocks - 1 - (ib + ia)"
  have t: "db = (t + 4096) div 4097" "da = t - db" "db \<le> t" "1 + ib + ia + t = total_blocks" "ib + ia < 2 ^ 32"
    using assms unfolding t_def ia
    by (auto simp: areas checked_u32_def checked_sub_def split: if_splits)
  then show "1 + ib + ia + db + da = total_blocks" "ib + ia < 2 ^ 32" by simp_all
  have "t \<le> db * 4097" unfolding t(1) by auto
  with t(2,3) show "da \<le> db * 4096" by auto
qed

lemma get_disk_inode_pos_eq:
  "inode_area_start_block fs + i div 4 < 2 ^ 32 \<Longrightarrow>
     get_disk_inode_pos fs i = Inr (inode_area_start_block fs + i div 4, i mod 4 * 128)"
  by (simp add: get_disk_inode_pos_def BLOCK_SZ_def sizeof_disk_inode_def checked_u32_def)

section \<open>Creating and opening\<close>

lemma zero_block_bit:
  assumes "B (b div BLOCK_BITS + start_block_id bm) = replicate BLOCK_SZ 0"
  shows "\<not> bitmap_bit bm B b"
proof -
  have "b mod BLOCK_BITS div 64 < 64" using less_mult_imp_div_less [of "b mod BLOCK_BITS" 64 64] by (simp add: BLOCK_BITS_eq)
  moreover have "\<not> bit (of_le bs :: u64) k" if "set bs \<subseteq> {0}" for bs k
    using that by (induction bs arbitrary: k) (auto simp: bit_push_bit_iff)
  then have "\<not> bit (of_le (replicate n 0) :: u64) k" for n k by (metis set_replicate_conv_if order_refl empty_subsetI)
  ultimately show ?thesis using assms by (simp add: bitmap_bit_def word_bit_def nth_of_le_array)
qed

context block_device
begin

lemma clear_block_ret:
  assumes "rep st B H" "i < nblk" "H i = None" "card (dom H) < BLOCK_CACHE_SIZE"
  shows "ret (block_modify D i 0 BLOCK_SZ (\<lambda>bs st. Inr (((), map (\<lambda>_. 0) bs), st)) st) ()
    (B(i := replicate BLOCK_SZ 0)) H"
proof -
  have len: "length (B i) = BLOCK_SZ" by (rule rep_length [OF assms(1,2)])
  have "map (\<lambda>_. 0 :: u8) (take BLOCK_SZ (drop 0 (B i))) = replicate BLOCK_SZ 0"
    using len by (simp add: map_replicate_const)
  then have "ret (block_modify D i 0 BLOCK_SZ (\<lambda>bs st. Inr ((\<lambda>bs. ((), map (\<lambda>_. 0) bs)) bs, st)) st) ()
      (B(i := put_bytes 0 (replicate BLOCK_SZ 0) (B i))) H"
    by (intro block_modify_pure [OF assms]) (simp_all add: BLOCK_SZ_def)
  then show ?thesis using len by (simp add: put_bytes_all)
qed

lemma clear_blocks_ret:
  assumes "rep st B H" "\<And>i. i \<in> set is \<Longrightarrow> i < nblk \<and> H i = None" "card (dom H) < BLOCK_CACHE_SIZE"
  shows "ret (clear_blocks D is st) () (\<lambda>i. if i \<in> set is then replicate BLOCK_SZ 0 else B i) H"
  using assms(1,2)
proof (induction "is" arbitrary: st B)
  case Nil
  then show ?case by (simp add: retI)
next
  case (Cons i js)
  have r: "ret (block_modify D i 0 BLOCK_SZ (\<lambda>bs st. Inr (((), map (\<lambda>_. 0) bs), st)) st) ()
      (B(i := replicate BLOCK_SZ 0)) H"
    using Cons.prems by (intro clear_block_ret assms(3)) auto
  have eq: "(\<lambda>k. if k \<in> set js then replicate BLOCK_SZ 0 else (B(i := replicate BLOCK_SZ 0)) k)
      = (\<lambda>k. if k \<in> set (i # js) then replicate BLOCK_SZ 0 else B k)" by auto
  show ?case
    unfolding clear_blocks.simps
  proof (rule ret_bind [OF r], unfold prod.case)
    fix st1 assume r1: "rep st1 (B(i := replicate BLOCK_SZ 0)) H"
    have "ret (clear_blocks D js st1) ()
        (\<lambda>k. if k \<in> set js then replicate BLOCK_SZ 0 else (B(i := replicate BLOCK_SZ 0)) k) H"
      by (rule Cons.IH [OF r1]) (use Cons.prems(2) in auto)
    then show "ret (clear_blocks D js st1) ()
        (\<lambda>k. if k \<in> set (i # js) then replicate BLOCK_SZ 0 else B k) H"
      unfolding eq .
  qed
qed

lemma initialize_inode_ret:
  assumes "rep st B H" "blk < nblk" "H blk = None" "card (dom H) < BLOCK_CACHE_SIZE" "k < 4"
  shows "ret (initialize_inode D blk (k * 128) ty st) ()
    (B(blk := put_bytes (k * 128)
        (disk_inode_bytes (disk_inode_initialize ty) (take 128 (drop (k * 128) (B blk)))) (B blk))) H"
proof -
  have len: "length (B blk) = BLOCK_SZ" by (rule rep_length [OF assms(1,2)])
  have "k * 128 + 128 \<le> 512" using assms(5) by simp
  then show ?thesis
    unfolding initialize_inode_def sizeof_disk_inode_def using len assms(5)
    by (intro block_modify_pure [OF assms(1-4), where g = "\<lambda>bs. ((), disk_inode_bytes (disk_inode_initialize ty) bs)"])
       (auto simp: BLOCK_SZ_def disk_inode_initialize_def INODE_DIRECT_COUNT_def intro!: length_disk_inode_bytes)
qed

lemma alloc_inode_first:
  assumes "rep st B Map.empty" "1 \<le> ib" "ib < nblk" "B 1 = replicate BLOCK_SZ 0"
    and "inode_bitmap fs = bitmap_new 1 ib"
  obtains B' where "ret (alloc_inode D fs st) 0 B' Map.empty" "\<And>i. i \<noteq> 1 \<Longrightarrow> B' i = B i"
    "\<And>c. bitmap_bit (inode_bitmap fs) B' c \<longleftrightarrow> c = 0 \<or> bitmap_bit (inode_bitmap fs) B c"
proof -
  let ?bm = "bitmap_new 1 ib"
  have free: "bitmap_free nblk ?bm Map.empty"
    using assms(2,3) by (simp add: bitmap_free_def bitmap_new_def BLOCK_CACHE_SIZE_def)
  have z: "\<not> bitmap_bit ?bm B 0" using assms(4) by (intro zero_block_bit) (simp add: bitmap_new_def)
  have max: "0 < bitmap_maximum ?bm" using assms(2) by (simp add: bitmap_maximum_def bitmap_new_def BLOCK_BITS_eq)
  obtain b B' where B': "ret (bitmap_alloc D ?bm st) (Some b) B' Map.empty"
    "\<And>c. c < b \<Longrightarrow> bitmap_bit ?bm B c"
    "\<And>i. i \<noteq> b div BLOCK_BITS + start_block_id ?bm \<Longrightarrow> B' i = B i"
    "\<And>c. bitmap_bit ?bm B' c \<longleftrightarrow> c = b \<or> bitmap_bit ?bm B c"
    by (rule bitmap_alloc_some [OF assms(1) free max z]) blast
  have b: "b = 0" using B'(2) z by (metis gr0I)
  have "ret (alloc_inode D fs st) 0 B' Map.empty"
    using B'(1) b assms(5) by (auto simp: alloc_inode_def elim!: retE intro: retI)
  moreover have "B' i = B i" if "i \<noteq> 1" for i using B'(3) that b by (simp add: bitmap_new_def)
  ultimately show ?thesis using that B'(4) assms(5) b by simp
qed

lemma efs_create_ret:
  assumes "rep st B Map.empty" "total_blocks \<le> nblk" "total_blocks < 2 ^ 32" "1 \<le> ib" "ib < 2 ^ 21"
    and areas: "efs_areas total_blocks ib = Inr (ia, db, da)"
  obtains st' B' where "efs_create D total_blocks ib st = Inr (efs_layout ib ia db, st')" "rep st' B' Map.empty"
    "\<And>i. i < nblk \<Longrightarrow> contents (device st') i = B' i"
    "super_block_of (take 24 (B' 0)) = super_block_initialize (of_nat total_blocks) (of_nat ib)
       (of_nat ia) (of_nat db) (of_nat da)"
    "disk_inode_of (take 128 (B' (1 + ib))) = Inr (disk_inode_initialize Directory)"
    "\<And>i. 1 < i \<Longrightarrow> i < total_blocks \<Longrightarrow> i \<noteq> 1 + ib \<Longrightarrow> B' i = replicate BLOCK_SZ 0"
    "\<And>c. c < bitmap_maximum (bitmap_new 1 ib) \<Longrightarrow> bitmap_bit (bitmap_new 1 ib) B' c \<longleftrightarrow> c = 0"
proof -
  let ?fs = "efs_layout ib ia db"
  let ?zero = "replicate BLOCK_SZ (0 :: u8)"
  let ?B0 = "\<lambda>i. if i \<in> set [0..<total_blocks] then ?zero else B i"
  let ?sb = "super_block_bytes (super_block_initialize (of_nat total_blocks) (of_nat ib) (of_nat ia) (of_nat db) (of_nat da))"
  note part = efs_areas_Inr [OF areas assms(5)]
  have tot: "1 + ib < total_blocks" using part(1,2) assms(4) by simp
  have c16: "card (dom (Map.empty :: nat \<rightharpoonup> block_cache)) < BLOCK_CACHE_SIZE" by (simp add: BLOCK_CACHE_SIZE_def)
  obtain st1 where st1: "clear_blocks D [0..<total_blocks] st = Inr ((), st1)" "rep st1 ?B0 Map.empty"
    using clear_blocks_ret [OF assms(1), of "[0..<total_blocks]"] assms(2) c16 by (auto elim!: retE)
  have sb24: "length ?sb = 24" by (simp add: super_block_bytes_def)
  let ?B1 = "?B0(0 := put_bytes 0 ?sb ?zero)"
  obtain st2 where st2: "block_modify D 0 0 sizeof_super_block (\<lambda>_ st. Inr (((), ?sb), st)) st1 = Inr ((), st2)"
    "rep st2 ?B1 Map.empty"
    using block_modify_pure [OF st1(2), of 0 0 sizeof_super_block "\<lambda>_. ((), ?sb)" "()" ?sb] c16 tot assms(2) sb24
    by (auto simp: sizeof_super_block_def BLOCK_SZ_def elim!: retE)
  have "?B1 1 = ?zero" using tot by simp
  then obtain B2 where B2: "ret (alloc_inode D ?fs st2) 0 B2 Map.empty" "\<And>i. i \<noteq> 1 \<Longrightarrow> B2 i = ?B1 i"
    "\<And>c. bitmap_bit (bitmap_new 1 ib) B2 c \<longleftrightarrow> c = 0 \<or> bitmap_bit (bitmap_new 1 ib) ?B1 c"
    using alloc_inode_first [OF st2(2) assms(4), of ?fs] tot assms(2)
    by (auto simp: efs_layout_def)
  obtain st3 where st3: "alloc_inode D ?fs st2 = Inr (0, st3)" "rep st3 B2 Map.empty"
    by (rule retE [OF B2(1)])
  have pos: "get_disk_inode_pos ?fs 0 = Inr (1 + ib, 0)"
    using part(4) assms(5) by (subst get_disk_inode_pos_eq) (auto simp: efs_layout_def)
  let ?old = "take 128 (B2 (1 + ib))"
  let ?ino = "disk_inode_bytes (disk_inode_initialize Directory) ?old"
  let ?B3 = "B2(1 + ib := put_bytes 0 ?ino (B2 (1 + ib)))"
  obtain st4 where st4: "initialize_inode D (1 + ib) 0 Directory st3 = Inr ((), st4)" "rep st4 ?B3 Map.empty"
    using initialize_inode_ret [OF st3(2), of "1 + ib" 0 Directory] tot assms(2) c16 by (auto elim!: retE)
  obtain st5 where st5: "block_cache_sync_all D st4 = Inr st5" "rep st5 ?B3 Map.empty"
    "\<And>i. i < nblk \<Longrightarrow> contents (device st5) i = ?B3 i"
    by (rule sync_all_ok [OF st4(2)]) blast
  have run: "efs_create D total_blocks ib st = Inr (?fs, st5)"
    unfolding efs_create_def Let_def
    by (simp only: areas st1(1) st2(1) st3(1) st4(1) st5(1) pos rbind_simps rassert_simps prod.case simp_thms)
  have zero: "B2 (1 + ib) = ?zero" using B2(2) tot assms(4) by simp
  have "super_block_of (take 24 (?B3 0)) = super_block_initialize (of_nat total_blocks) (of_nat ib)
       (of_nat ia) (of_nat db) (of_nat da)"
    using B2(2) [of 0] sb24 super_block_roundtrip by (simp add: put_bytes_def)
  moreover have l: "length ?ino = 128"
    using zero by (intro length_disk_inode_bytes) (simp_all add: disk_inode_initialize_def INODE_DIRECT_COUNT_def BLOCK_SZ_def)
  have "disk_inode_of ?ino = Inr (disk_inode_initialize Directory)"
    using zero by (intro disk_inode_roundtrip) (simp_all add: disk_inode_initialize_def INODE_DIRECT_COUNT_def BLOCK_SZ_def)
  then have "disk_inode_of (take 128 (?B3 (1 + ib))) = Inr (disk_inode_initialize Directory)"
    using l by (simp add: put_bytes_def)
  moreover have "?B3 i = ?zero" if "1 < i" "i < total_blocks" "i \<noteq> 1 + ib" for i
    using that B2(2) [of i] by simp
  moreover have "bitmap_bit (bitmap_new 1 ib) ?B3 c \<longleftrightarrow> c = 0" if "c < bitmap_maximum (bitmap_new 1 ib)" for c
  proof -
    have c: "c div BLOCK_BITS < ib" using that by (simp add: bitmap_maximum_def bitmap_new_def less_mult_imp_div_less)
    then have "\<not> bitmap_bit (bitmap_new 1 ib) ?B1 c"
      using tot by (intro zero_block_bit) (simp add: bitmap_new_def)
    moreover have "bitmap_bit (bitmap_new 1 ib) ?B3 c = bitmap_bit (bitmap_new 1 ib) B2 c"
      using c by (simp add: bitmap_bit_def bitmap_new_def)
    ultimately show ?thesis using B2(3) by blast
  qed
  ultimately show ?thesis using that [OF run st5(2,3)] by blast
qed

lemma efs_open_ret:
  assumes "rep st B Map.empty" "0 < nblk"
    and sb: "super_block_of (take 24 (B 0)) = super_block_initialize (of_nat total_blocks) (of_nat ib)
       (of_nat ia) (of_nat db) (of_nat da)"
    and "1 + ib + ia + db < 2 ^ 32"
  shows "ret (efs_open D st) (efs_layout ib ia db) B Map.empty"
proof -
  have u: "unat (of_nat x :: u32) = x" if "x < 2 ^ 32" for x
    using that by (simp add: unat_of_nat take_bit_nat_eq_self)
  show ?thesis
    unfolding efs_open_def
    by (rule block_read_ret [OF assms(1,2)])
       (use assms(4) u in \<open>auto simp: BLOCK_CACHE_SIZE_def BLOCK_SZ_def sizeof_super_block_def sb Let_def
          super_block_initialize_def super_block_is_valid_def checked_u32_def efs_layout_def intro: retI\<close>)
qed

end

section \<open>Properties\<close>

text \<open>
  A created file system can be opened: if the areas fit, \<^verbatim>\<open>create\<close> succeeds on any device of at least
  \<^verbatim>\<open>total_blocks\<close> blocks whatever they held, all its writes reach the device, \<^verbatim>\<open>open\<close> finds the same layout
  again, the root inode is an empty directory and the data area is zero.
\<close>

theorem efs_create_then_open:
  assumes "block_device D contents nblk dev_ok" "bc_rep contents nblk dev_ok st B Map.empty"
    and "total_blocks \<le> nblk" "total_blocks < 2 ^ 32" "1 \<le> ib" "ib < 2 ^ 21"
    and "efs_areas total_blocks ib = Inr (ia, db, da)"
  shows "\<exists>st1 st2 B'. efs_create D total_blocks ib st = Inr (efs_layout ib ia db, st1)
    \<and> bc_rep contents nblk dev_ok st1 B' Map.empty
    \<and> (\<forall>i < nblk. contents (device st1) i = B' i)
    \<and> efs_open D st1 = Inr (efs_layout ib ia db, st2)
    \<and> disk_inode_of (take 128 (B' (inode_area_start_block (efs_layout ib ia db))))
        = Inr (disk_inode_initialize Directory)
    \<and> (\<forall>i < da. B' (data_area_start_block (efs_layout ib ia db) + i) = replicate BLOCK_SZ 0)"
proof -
  obtain st1 B' where c: "efs_create D total_blocks ib st = Inr (efs_layout ib ia db, st1)"
    "bc_rep contents nblk dev_ok st1 B' Map.empty" "\<And>i. i < nblk \<Longrightarrow> contents (device st1) i = B' i"
    "super_block_of (take 24 (B' 0)) = super_block_initialize (of_nat total_blocks) (of_nat ib)
       (of_nat ia) (of_nat db) (of_nat da)"
    "disk_inode_of (take 128 (B' (1 + ib))) = Inr (disk_inode_initialize Directory)"
    "\<And>i. 1 < i \<Longrightarrow> i < total_blocks \<Longrightarrow> i \<noteq> 1 + ib \<Longrightarrow> B' i = replicate BLOCK_SZ 0"
    by (rule block_device.efs_create_ret [OF assms(1-6,7)]) blast
  note part = efs_areas_Inr [OF assms(7,6)]
  have le: "1 + ib + ia + db \<le> total_blocks" and ia: "1 \<le> ia" using part(1,2) assms(5) by auto
  have "bc_ret contents nblk dev_ok (efs_open D st1) (efs_layout ib ia db) B' Map.empty"
    using le ia assms(3,4) by (intro block_device.efs_open_ret [OF assms(1) c(2) _ c(4)]) auto
  moreover have "B' (data_area_start_block (efs_layout ib ia db) + i) = replicate BLOCK_SZ 0" if "i < da" for i
    using c(6) [of "1 + ib + ia + db + i"] that part(2) ia assms(5) by (simp add: efs_layout_def)
  moreover have "inode_area_start_block (efs_layout ib ia db) = 1 + ib" by (simp add: efs_layout_def)
  ultimately show ?thesis using c(1,2,3,5) unfolding bc_ret_def by metis
qed

theorem efs_create_then_open_witness:
  "\<exists>st1 st2. efs_create block_file_ops 1030 1 (cache_manager_new (replicate (1030 * BLOCK_SZ) 255)) =
       Inr (efs_layout 1 1024 1, st1) \<and> efs_open block_file_ops st1 = Inr (efs_layout 1 1024 1, st2)"
proof -
  have rep: "bc_rep file_block 1030 (\<lambda>f. 1030 * BLOCK_SZ \<le> length f)
      (cache_manager_new (replicate (1030 * BLOCK_SZ) 255)) (file_block (replicate (1030 * BLOCK_SZ) 255)) Map.empty"
    by (rule bc_rep_new) simp
  have areas: "efs_areas 1030 1 = Inr (1024, 1, 3)"
    by (simp add: efs_areas_def bitmap_maximum_def bitmap_new_def BLOCK_BITS_eq sizeof_disk_inode_def
        BLOCK_SZ_def checked_u32_def checked_sub_def)
  from efs_create_then_open [OF bf.block_device_axioms rep _ _ _ _ areas] show ?thesis
    by (force simp: BLOCK_SZ_def)
qed

text \<open>
  The areas of a file system do not overlap and fill the device; every inode number below the
  capacity of the inode bitmap has its own 128 bytes inside the inode area, and every block of the data
  area has its bit in the data bitmap.
\<close>

theorem efs_partition:
  assumes "efs_areas total_blocks ib = Inr (ia, db, da)" "ib < 2 ^ 21"
  defines "fs \<equiv> efs_layout ib ia db"
  shows "start_block_id (inode_bitmap fs) = 1
    \<and> inode_area_start_block fs = 1 + blocks (inode_bitmap fs)
    \<and> start_block_id (data_bitmap fs) = inode_area_start_block fs + ia
    \<and> data_area_start_block fs = start_block_id (data_bitmap fs) + blocks (data_bitmap fs)
    \<and> data_area_start_block fs + da = total_blocks
    \<and> da \<le> bitmap_maximum (data_bitmap fs)
    \<and> (\<forall>i < bitmap_maximum (inode_bitmap fs). \<exists>blk off. get_disk_inode_pos fs i = Inr (blk, off)
         \<and> inode_area_start_block fs \<le> blk \<and> blk < start_block_id (data_bitmap fs) \<and> off + 128 \<le> BLOCK_SZ)
    \<and> (\<forall>i < bitmap_maximum (inode_bitmap fs). \<forall>j < bitmap_maximum (inode_bitmap fs). i \<noteq> j \<longrightarrow>
         get_disk_inode_pos fs i \<noteq> get_disk_inode_pos fs j)"
proof -
  note part = efs_areas_Inr [OF assms(1,2)]
  have pos: "get_disk_inode_pos fs i = Inr (1 + ib + i div 4, i mod 4 * 128)"
    and lt: "i div 4 < ia" if "i < bitmap_maximum (inode_bitmap fs)" for i
  proof -
    have "i < ib * 4096" using that by (simp add: fs_def efs_layout_def bitmap_maximum_def bitmap_new_def BLOCK_BITS_eq)
    then show l: "i div 4 < ia" unfolding part(1) by auto
    with part(4) assms(2) show "get_disk_inode_pos fs i = Inr (1 + ib + i div 4, i mod 4 * 128)"
      by (subst get_disk_inode_pos_eq) (auto simp: fs_def efs_layout_def part(1))
  qed
  have range: "\<exists>blk off. get_disk_inode_pos fs i = Inr (blk, off) \<and> inode_area_start_block fs \<le> blk
      \<and> blk < start_block_id (data_bitmap fs) \<and> off + 128 \<le> BLOCK_SZ"
    if "i < bitmap_maximum (inode_bitmap fs)" for i
    using pos [OF that] lt [OF that] by (auto simp: fs_def efs_layout_def bitmap_new_def BLOCK_SZ_def)
  have inj: "get_disk_inode_pos fs i \<noteq> get_disk_inode_pos fs j"
    if "i < bitmap_maximum (inode_bitmap fs)" "j < bitmap_maximum (inode_bitmap fs)" "i \<noteq> j" for i j
  proof
    assume "get_disk_inode_pos fs i = get_disk_inode_pos fs j"
    then have "i div 4 = j div 4" "i mod 4 = j mod 4" using pos [OF that(1)] pos [OF that(2)] by simp_all
    then have "i = j" by (metis div_mult_mod_eq)
    with that(3) show False ..
  qed
  have "start_block_id (inode_bitmap fs) = 1"
    "inode_area_start_block fs = 1 + blocks (inode_bitmap fs)"
    "start_block_id (data_bitmap fs) = inode_area_start_block fs + ia"
    "data_area_start_block fs = start_block_id (data_bitmap fs) + blocks (data_bitmap fs)"
    "data_area_start_block fs + da = total_blocks" "da \<le> bitmap_maximum (data_bitmap fs)"
    using part(2,3) by (simp_all add: fs_def efs_layout_def bitmap_new_def bitmap_maximum_def BLOCK_BITS_eq)
  then show ?thesis by (intro conjI allI impI) (assumption | rule range inj, assumption+)+
qed

theorem efs_partition_witness:
  "\<exists>blk off. get_disk_inode_pos (efs_layout 1 1024 32) 7 = Inr (blk, off) \<and> off + 128 \<le> BLOCK_SZ"
proof -
  let ?fs = "efs_layout 1 1024 32"
  have areas: "efs_areas 131072 1 = Inr (1024, 32, 130014)"
    by (simp add: efs_areas_def bitmap_maximum_def bitmap_new_def BLOCK_BITS_eq sizeof_disk_inode_def
        BLOCK_SZ_def checked_u32_def checked_sub_def)
  have "(1 :: nat) < 2 ^ 21" by simp
  from efs_partition [OF areas this]
  have "\<forall>i < bitmap_maximum (inode_bitmap ?fs). \<exists>blk off. get_disk_inode_pos ?fs i = Inr (blk, off)
      \<and> inode_area_start_block ?fs \<le> blk \<and> blk < start_block_id (data_bitmap ?fs) \<and> off + 128 \<le> BLOCK_SZ"
    by (elim conjE)
  moreover have "7 < bitmap_maximum (inode_bitmap ?fs)"
    by (simp add: efs_layout_def bitmap_maximum_def bitmap_new_def BLOCK_BITS_eq)
  ultimately show ?thesis by blast
qed

text \<open>
  The data bitmap promises more blocks than the device has: for the image that the packer builds
  (131072 blocks, one inode bitmap block) the data bitmap has 131072 bits for 130014 data blocks, so
  its last 1058 bits name blocks behind the end of the device, which \<^verbatim>\<open>alloc_data\<close> hands out like others.
\<close>

theorem data_bitmap_overcommits:
  "\<exists>ia db da b. efs_areas (64 * 2048) 1 = Inr (ia, db, da)
     \<and> b < bitmap_maximum (data_bitmap (efs_layout 1 ia db))
     \<and> data_area_start_block (efs_layout 1 ia db) + b \<ge> 64 * 2048"
proof -
  have "efs_areas (64 * 2048) 1 = Inr (1024, 32, 130014)"
    by (simp add: efs_areas_def bitmap_maximum_def bitmap_new_def BLOCK_BITS_eq sizeof_disk_inode_def
        BLOCK_SZ_def checked_u32_def checked_sub_def)
  moreover have "130014 < bitmap_maximum (data_bitmap (efs_layout 1 1024 32))"
    "data_area_start_block (efs_layout 1 1024 32) + 130014 \<ge> 64 * 2048"
    by (simp_all add: efs_layout_def bitmap_maximum_def bitmap_new_def BLOCK_BITS_eq)
  ultimately show ?thesis by blast
qed

end
