(* ===== verification/Vfs.thy ===== *)
theory Vfs
  imports Efs
begin

text \<open>
  The inode layer of \<^verbatim>\<open>easy-fs/src/vfs.rs\<close>: lookup, creation and listing in a directory, and reading,
  writing and clearing a file. The lock of the file system is taken at the start of each operation and
  never twice; the locks of cached blocks are those of the block layer, held while a closure runs.
\<close>

record vfs_inode =
  vi_block_id :: nat
  vi_block_offset :: nat

definition vfs_inode_new :: "nat \<Rightarrow> nat \<Rightarrow> vfs_inode" where
  "vfs_inode_new blk offset = \<lparr>vi_block_id = blk, vi_block_offset = offset\<rparr>"

definition read_disk_inode ::
    "'d device_ops \<Rightarrow> vfs_inode \<Rightarrow> (disk_inode \<Rightarrow> 'd bstate \<Rightarrow> ('v \<times> 'd bstate) res) \<Rightarrow>
     'd bstate \<Rightarrow> ('v \<times> 'd bstate) res" where
  "read_disk_inode D vi f st =
     block_read D (vi_block_id vi) (vi_block_offset vi) sizeof_disk_inode (\<lambda>bs st.
       rbind (disk_inode_of bs) (\<lambda>ino. f ino st)) st"

definition modify_disk_inode ::
    "'d device_ops \<Rightarrow> vfs_inode \<Rightarrow> (disk_inode \<Rightarrow> 'd bstate \<Rightarrow> (('v \<times> disk_inode) \<times> 'd bstate) res) \<Rightarrow>
     'd bstate \<Rightarrow> ('v \<times> 'd bstate) res" where
  "modify_disk_inode D vi f st =
     block_modify D (vi_block_id vi) (vi_block_offset vi) sizeof_disk_inode (\<lambda>bs st.
       rbind (disk_inode_of bs) (\<lambda>ino.
       rbind (f ino st) (\<lambda>((v, ino'), st'). Inr ((v, disk_inode_bytes ino' bs), st')))) st"

text \<open>Entry \<open>i\<close> of a directory.\<close>

definition read_dirent :: "'d device_ops \<Rightarrow> disk_inode \<Rightarrow> nat \<Rightarrow> 'd bstate \<Rightarrow> (dir_entry \<times> 'd bstate) res" where
  "read_dirent D ino i st =
     rbind (inode_read_at D (DIRENT_SZ * i) DIRENT_SZ ino st) (\<lambda>(bs, st1).
     rbind (rassert (length bs = DIRENT_SZ)) (\<lambda>_. Inr (dir_entry_of bs, st1)))"

fun find_entry ::
    "'d device_ops \<Rightarrow> u8 list \<Rightarrow> disk_inode \<Rightarrow> nat list \<Rightarrow> 'd bstate \<Rightarrow> (u32 option \<times> 'd bstate) res" where
  "find_entry D name ino [] st = Inr (None, st)"
| "find_entry D name ino (i # is) st =
     rbind (read_dirent D ino i st) (\<lambda>(e, st1).
     rbind (dir_entry_name e) (\<lambda>n.
       if n = name then Inr (Some (de_inode_number e), st1) else find_entry D name ino is st1))"

definition find_inode_id ::
    "'d device_ops \<Rightarrow> u8 list \<Rightarrow> disk_inode \<Rightarrow> 'd bstate \<Rightarrow> (u32 option \<times> 'd bstate) res" where
  "find_inode_id D name ino st =
     rbind (rassert (is_dir ino)) (\<lambda>_.
       let file_count = unat (inode_size ino) div DIRENT_SZ
       in find_entry D name ino [0..<file_count] st)"

definition vfs_find ::
    "'d device_ops \<Rightarrow> efs \<Rightarrow> vfs_inode \<Rightarrow> u8 list \<Rightarrow> 'd bstate \<Rightarrow> (vfs_inode option \<times> 'd bstate) res" where
  "vfs_find D fs vi name st =
     read_disk_inode D vi (\<lambda>ino st.
       rbind (find_inode_id D name ino st) (\<lambda>(r, st1).
       case r of
         Some inode_id \<Rightarrow> rbind (get_disk_inode_pos fs (unat inode_id)) (\<lambda>(blk, offset).
           Inr (Some (vfs_inode_new blk offset), st1))
       | None \<Rightarrow> Inr (None, st1))) st"

fun alloc_data_n :: "'d device_ops \<Rightarrow> efs \<Rightarrow> nat \<Rightarrow> 'd bstate \<Rightarrow> (u32 list \<times> 'd bstate) res" where
  "alloc_data_n D fs 0 st = Inr ([], st)"
| "alloc_data_n D fs (Suc n) st =
     rbind (alloc_data D fs st) (\<lambda>(b, st1).
     rbind (alloc_data_n D fs n st1) (\<lambda>(bs, st2). Inr (b # bs, st2)))"

definition vfs_increase_size ::
    "'d device_ops \<Rightarrow> efs \<Rightarrow> nat \<Rightarrow> disk_inode \<Rightarrow> 'd bstate \<Rightarrow> (disk_inode \<times> 'd bstate) res" where
  "vfs_increase_size D fs new_size ino st =
     (if new_size < unat (inode_size ino) then Inr (ino, st)
      else
        rbind (blocks_num_needed new_size ino) (\<lambda>blocks_needed.
        rbind (alloc_data_n D fs blocks_needed st) (\<lambda>(v, st1).
          increase_size D new_size v ino st1)))"

definition vfs_create ::
    "'d device_ops \<Rightarrow> efs \<Rightarrow> vfs_inode \<Rightarrow> u8 list \<Rightarrow> 'd bstate \<Rightarrow> (vfs_inode option \<times> 'd bstate) res" where
  "vfs_create D fs vi name st =
     rbind (alloc_inode D fs st) (\<lambda>(new_inode_id, st1).
     rbind (get_disk_inode_pos fs new_inode_id) (\<lambda>(blk, offset).
     rbind (initialize_inode D blk offset File st1) (\<lambda>(_, st2).
     rbind (modify_disk_inode D vi (\<lambda>root_inode st.
              let file_count = unat (inode_size root_inode) div DIRENT_SZ;
                  new_size = (file_count + 1) * DIRENT_SZ in
              rbind (vfs_increase_size D fs (new_size mod 2 ^ 32) root_inode st) (\<lambda>(root1, st').
              rbind (dir_entry_new name (of_nat new_inode_id)) (\<lambda>dirent.
              rbind (inode_write_at D (file_count * DIRENT_SZ) (dir_entry_bytes dirent) root1 st') (\<lambda>(_, st'').
                Inr (((), root1), st''))))) st2) (\<lambda>(_, st3).
     rbind (block_cache_sync_all D st3) (\<lambda>st4.
       Inr (Some (vfs_inode_new blk offset), st4))))))"

fun read_names :: "'d device_ops \<Rightarrow> disk_inode \<Rightarrow> nat list \<Rightarrow> 'd bstate \<Rightarrow> (u8 list list \<times> 'd bstate) res" where
  "read_names D ino [] st = Inr ([], st)"
| "read_names D ino (i # is) st =
     rbind (read_dirent D ino i st) (\<lambda>(e, st1).
     rbind (dir_entry_name e) (\<lambda>n.
     rbind (read_names D ino is st1) (\<lambda>(v, st2). Inr (n # v, st2))))"

definition vfs_readdir :: "'d device_ops \<Rightarrow> vfs_inode \<Rightarrow> 'd bstate \<Rightarrow> (u8 list list \<times> 'd bstate) res" where
  "vfs_readdir D vi st =
     read_disk_inode D vi (\<lambda>ino st.
       let file_count = unat (inode_size ino) div DIRENT_SZ in read_names D ino [0..<file_count] st) st"

definition vfs_read_at ::
    "'d device_ops \<Rightarrow> vfs_inode \<Rightarrow> nat \<Rightarrow> nat \<Rightarrow> 'd bstate \<Rightarrow> (u8 list \<times> 'd bstate) res" where
  "vfs_read_at D vi offset buf_len st =
     read_disk_inode D vi (\<lambda>ino st. inode_read_at D offset buf_len ino st) st"

definition vfs_write_at ::
    "'d device_ops \<Rightarrow> efs \<Rightarrow> vfs_inode \<Rightarrow> nat \<Rightarrow> u8 list \<Rightarrow> 'd bstate \<Rightarrow> (nat \<times> 'd bstate) res" where
  "vfs_write_at D fs vi offset buf st =
     rbind (modify_disk_inode D vi (\<lambda>ino st.
              rbind (vfs_increase_size D fs ((offset + length buf) mod 2 ^ 32) ino st) (\<lambda>(ino1, st').
              rbind (inode_write_at D offset buf ino1 st') (\<lambda>(n, st''). Inr ((n, ino1), st'')))) st)
       (\<lambda>(n, st1).
     rbind (block_cache_sync_all D st1) (\<lambda>st2. Inr (n, st2)))"

fun dealloc_all :: "'d device_ops \<Rightarrow> efs \<Rightarrow> u32 list \<Rightarrow> 'd bstate \<Rightarrow> (unit \<times> 'd bstate) res" where
  "dealloc_all D fs [] st = Inr ((), st)"
| "dealloc_all D fs (b # bs) st =
     rbind (dealloc_data D fs b st) (\<lambda>(_, st1). dealloc_all D fs bs st1)"

definition vfs_clear :: "'d device_ops \<Rightarrow> efs \<Rightarrow> vfs_inode \<Rightarrow> 'd bstate \<Rightarrow> (unit \<times> 'd bstate) res" where
  "vfs_clear D fs vi st =
     rbind (modify_disk_inode D vi (\<lambda>ino st.
              let sz = unat (inode_size ino) in
              rbind (clear_size D ino st) (\<lambda>((v, ino1), st').
              rbind (inode_total_blocks sz) (\<lambda>n.
              rbind (rassert (length v = n)) (\<lambda>_.
              rbind (dealloc_all D fs v st') (\<lambda>(_, st''). Inr (((), ino1), st''))))) ) st) (\<lambda>(_, st1).
     rbind (block_cache_sync_all D st1) (\<lambda>st2. Inr ((), st2)))"

definition efs_root_inode :: "efs \<Rightarrow> vfs_inode res" where
  "efs_root_inode fs =
     rbind (get_disk_inode_pos fs 0) (\<lambda>(blk, offset). Inr (vfs_inode_new blk offset))"

end
