(* ===== verification/File_Ops.thy ===== *)
theory File_Ops
  imports Vfs
begin

text \<open>
  Open files: \<^verbatim>\<open>easy-fs/src/file.rs\<close> and the \<^verbatim>\<open>FileSystem\<close> of the kernels of chapters 6 to 8
  (\<^verbatim>\<open>ch6/src/fs.rs\<close>, the same file in each). A user buffer is the list of its slices' bytes.
\<close>

section \<open>Open flags and file handles\<close>

definition user_buffer_len :: "u8 list list \<Rightarrow> nat" where
  "user_buffer_len buffers = foldl (\<lambda>total b. total + length b) 0 buffers"

type_synonym open_flags = u32

definition RDONLY :: open_flags where "RDONLY = 0"
definition WRONLY :: open_flags where "WRONLY = push_bit 0 1"
definition RDWR :: open_flags where "RDWR = push_bit 1 1"
definition CREATE :: open_flags where "CREATE = push_bit 9 1"
definition TRUNC :: open_flags where "TRUNC = push_bit 10 1"

definition flags_contains :: "open_flags \<Rightarrow> open_flags \<Rightarrow> bool" where
  "flags_contains f g \<longleftrightarrow> f AND g = g"

definition read_write :: "open_flags \<Rightarrow> bool \<times> bool" where
  "read_write f =
     (if f = 0 then (True, False)
      else if flags_contains f WRONLY then (False, True)
      else (True, True))"

record file_handle =
  fh_inode :: "vfs_inode option"
  fh_read :: bool
  fh_write :: bool
  fh_offset :: nat

definition file_handle_new :: "bool \<Rightarrow> bool \<Rightarrow> vfs_inode \<Rightarrow> file_handle" where
  "file_handle_new r w inode = \<lparr>fh_inode = Some inode, fh_read = r, fh_write = w, fh_offset = 0\<rparr>"

definition file_handle_empty :: "bool \<Rightarrow> bool \<Rightarrow> file_handle" where
  "file_handle_empty r w = \<lparr>fh_inode = None, fh_read = r, fh_write = w, fh_offset = 0\<rparr>"

definition readable :: "file_handle \<Rightarrow> bool" where "readable fh = fh_read fh"
definition writable :: "file_handle \<Rightarrow> bool" where "writable fh = fh_write fh"

text \<open>The loop of \<^verbatim>\<open>FileHandle::read\<close>: the slices after the call, and how much was read in total.\<close>

fun read_slices ::
    "'d device_ops \<Rightarrow> vfs_inode \<Rightarrow> u8 list list \<Rightarrow> nat \<Rightarrow> nat \<Rightarrow> 'd bstate \<Rightarrow>
     ((nat \<times> nat \<times> u8 list list) \<times> 'd bstate) res" where
  "read_slices D inode [] offset tot st = Inr ((offset, tot, []), st)"
| "read_slices D inode (sl # rest) offset tot st =
     rbind (vfs_read_at D inode offset (length sl) st) (\<lambda>(bs, st1).
       if length bs = 0 then Inr ((offset, tot, sl # rest), st1)
       else rbind (read_slices D inode rest (offset + length bs) (tot + length bs) st1)
              (\<lambda>((offset', tot', rest'), st2).
                Inr ((offset', tot', put_bytes 0 bs sl # rest'), st2)))"

definition file_read ::
    "'d device_ops \<Rightarrow> u8 list list \<Rightarrow> file_handle \<Rightarrow> 'd bstate \<Rightarrow>
     ((isize \<times> u8 list list \<times> file_handle) \<times> 'd bstate) res" where
  "file_read D buffers fh st =
     (case fh_inode fh of
        Some inode \<Rightarrow>
          rbind (read_slices D inode buffers (fh_offset fh) 0 st) (\<lambda>((offset', tot, buffers'), st1).
            Inr ((of_nat tot, buffers', fh\<lparr>fh_offset := offset'\<rparr>), st1))
      | None \<Rightarrow> Inr ((- 1, buffers, fh), st))"

fun write_slices ::
    "'d device_ops \<Rightarrow> efs \<Rightarrow> vfs_inode \<Rightarrow> u8 list list \<Rightarrow> nat \<Rightarrow> nat \<Rightarrow> 'd bstate \<Rightarrow>
     ((nat \<times> nat) \<times> 'd bstate) res" where
  "write_slices D fs inode [] offset tot st = Inr ((offset, tot), st)"
| "write_slices D fs inode (sl # rest) offset tot st =
     rbind (vfs_write_at D fs inode offset sl st) (\<lambda>(n, st1).
     rbind (rassert (n = length sl)) (\<lambda>_.
       write_slices D fs inode rest (offset + n) (tot + n) st1))"

definition file_write ::
    "'d device_ops \<Rightarrow> efs \<Rightarrow> u8 list list \<Rightarrow> file_handle \<Rightarrow> 'd bstate \<Rightarrow>
     ((isize \<times> file_handle) \<times> 'd bstate) res" where
  "file_write D fs buffers fh st =
     (case fh_inode fh of
        Some inode \<Rightarrow>
          rbind (write_slices D fs inode buffers (fh_offset fh) 0 st) (\<lambda>((offset', tot), st1).
            Inr ((of_nat tot, fh\<lparr>fh_offset := offset'\<rparr>), st1))
      | None \<Rightarrow> Inr ((- 1, fh), st))"

section \<open>The file system of the kernels\<close>

definition fs_find ::
    "'d device_ops \<Rightarrow> efs \<Rightarrow> vfs_inode \<Rightarrow> u8 list \<Rightarrow> 'd bstate \<Rightarrow> (vfs_inode option \<times> 'd bstate) res" where
  "fs_find D fs root path st = vfs_find D fs root path st"

definition fs_open ::
    "'d device_ops \<Rightarrow> efs \<Rightarrow> vfs_inode \<Rightarrow> u8 list \<Rightarrow> open_flags \<Rightarrow> 'd bstate \<Rightarrow>
     (file_handle option \<times> 'd bstate) res" where
  "fs_open D fs root path flags st =
     (let (r, w) = read_write flags in
      if flags_contains flags CREATE then
        rbind (fs_find D fs root path st) (\<lambda>(found, st1).
          case found of
            Some inode \<Rightarrow> rbind (vfs_clear D fs inode st1) (\<lambda>(_, st2).
              Inr (Some (file_handle_new r w inode), st2))
          | None \<Rightarrow> rbind (vfs_create D fs root path st1) (\<lambda>(new_inode, st2).
              Inr (map_option (file_handle_new r w) new_inode, st2)))
      else
        rbind (fs_find D fs root path st) (\<lambda>(found, st1).
          case found of
            Some inode \<Rightarrow>
              rbind (if flags_contains flags TRUNC then vfs_clear D fs inode st1 else Inr ((), st1)) (\<lambda>(_, st2).
                Inr (Some (file_handle_new r w inode), st2))
          | None \<Rightarrow> Inr (None, st1)))"

definition fs_readdir ::
    "'d device_ops \<Rightarrow> vfs_inode \<Rightarrow> u8 list \<Rightarrow> 'd bstate \<Rightarrow> (u8 list list option \<times> 'd bstate) res" where
  "fs_readdir D root path st = rbind (vfs_readdir D root st) (\<lambda>(v, st1). Inr (Some v, st1))"

definition fs_link :: "u8 list \<Rightarrow> u8 list \<Rightarrow> isize res" where "fs_link src dst = Inl Todo"
definition fs_unlink :: "u8 list \<Rightarrow> isize res" where "fs_unlink path = Inl Todo"

text \<open>\<^verbatim>\<open>read_all\<close> with a bound on the number of turns of its loop; \<open>None\<close> when the bound is reached.\<close>

fun read_all_loop ::
    "nat \<Rightarrow> 'd device_ops \<Rightarrow> vfs_inode \<Rightarrow> nat \<Rightarrow> 'd bstate \<Rightarrow> (u8 list \<times> 'd bstate) res option" where
  "read_all_loop 0 D inode offset st = None"
| "read_all_loop (Suc fuel) D inode offset st =
     (case vfs_read_at D inode offset 512 st of
        Inl e \<Rightarrow> Some (Inl e)
      | Inr (bs, st1) \<Rightarrow>
          if length bs = 0 then Some (Inr ([], st1))
          else map_option (\<lambda>r. rbind r (\<lambda>(v, st2). Inr (bs @ v, st2)))
                 (read_all_loop fuel D inode (offset + length bs) st1))"

definition read_all ::
    "nat \<Rightarrow> 'd device_ops \<Rightarrow> file_handle \<Rightarrow> 'd bstate \<Rightarrow> (u8 list \<times> 'd bstate) res option" where
  "read_all fuel D fh st =
     (case fh_inode fh of
        Some inode \<Rightarrow> read_all_loop fuel D inode 0 st
      | None \<Rightarrow> Some (Inr ([], st)))"

section \<open>Files on the disk\<close>

text \<open>
  The inode \<open>vi\<close> of the file system is stored at its place on the disk \<open>B\<close>, is the disk inode \<open>ino\<close>, and
  the block that holds it is not one of its own blocks.
\<close>

definition inode_blocks :: "disk_inode \<Rightarrow> nat" where
  "inode_blocks ino = (unat (inode_size ino) + BLOCK_SZ - 1) div BLOCK_SZ"

definition vfs_ok :: "nat \<Rightarrow> (nat \<Rightarrow> u8 list) \<Rightarrow> vfs_inode \<Rightarrow> disk_inode \<Rightarrow> bool" where
  "vfs_ok nblk B vi ino \<longleftrightarrow> vi_block_id vi < nblk \<and> vi_block_offset vi + sizeof_disk_inode \<le> BLOCK_SZ
     \<and> disk_inode_of (take sizeof_disk_inode (drop (vi_block_offset vi) (B (vi_block_id vi)))) = Inr ino
     \<and> inode_ok nblk B Map.empty ino (inode_blocks ino)
     \<and> vi_block_id vi \<notin> set (data_list B ino (inode_blocks ino) @ idx_list B ino (inode_blocks ino))"

lemma vfs_ok_locked:
  assumes "vfs_ok nblk B vi ino"
  shows "inode_ok nblk B [vi_block_id vi \<mapsto> c] ino (inode_blocks ino)"
  using assms by (auto simp: vfs_ok_def inode_ok_def BLOCK_CACHE_SIZE_def)

text \<open>The entries of a directory.\<close>

definition dirents :: "(nat \<Rightarrow> u8 list) \<Rightarrow> disk_inode \<Rightarrow> dir_entry list" where
  "dirents B ino = map (\<lambda>i. dir_entry_of (take DIRENT_SZ (drop (DIRENT_SZ * i) (file_data B ino))))
     [0..<unat (inode_size ino) div DIRENT_SZ]"

fun lookup_name :: "u8 list \<Rightarrow> dir_entry list \<Rightarrow> u32 option res" where
  "lookup_name name [] = Inr None"
| "lookup_name name (e # es) =
     rbind (dir_entry_name e) (\<lambda>n.
       if n = name then Inr (Some (de_inode_number e)) else lookup_name name es)"

context block_device
begin

lemma read_disk_inode_ret:
  assumes "rep st B Map.empty" "vfs_ok nblk B vi ino"
    and "\<And>c st1. rep st1 B [vi_block_id vi \<mapsto> c] \<Longrightarrow> ret (f ino st1) v B [vi_block_id vi \<mapsto> c]"
  shows "ret (read_disk_inode D vi f st) v B Map.empty"
  unfolding read_disk_inode_def
  by (rule block_read_ret [OF assms(1)])
     (use assms(2,3) in \<open>auto simp: vfs_ok_def BLOCK_CACHE_SIZE_def sizeof_disk_inode_def BLOCK_SZ_def\<close>)

lemma vfs_read_at_ret:
  assumes "rep st B Map.empty" "vfs_ok nblk B vi ino"
  shows "ret (vfs_read_at D vi offset len st) (take len (drop offset (file_data B ino))) B Map.empty"
  unfolding vfs_read_at_def
proof (rule read_disk_inode_ret [OF assms])
  fix c st1 assume "rep st1 B [vi_block_id vi \<mapsto> c]"
  then show "ret (inode_read_at D offset len ino st1) (take len (drop offset (file_data B ino))) B [vi_block_id vi \<mapsto> c]"
    using vfs_ok_locked [OF assms(2)] by (intro inode_read_at_ret) (simp_all add: inode_blocks_def)
qed

lemma length_file_data:
  assumes "rep st B H" "inode_ok nblk B H ino (inode_blocks ino)"
  shows "length (file_data B ino) = unat (inode_size ino)"
proof -
  have "unat (inode_size ino) \<le> inode_blocks ino * BLOCK_SZ" by (simp add: inode_blocks_def BLOCK_SZ_def)
  then show ?thesis
    using length_blocks_data [OF assms] by (simp add: file_data_def inode_blocks_def)
qed

lemma read_dirent_ret:
  assumes "rep st B H" "inode_ok nblk B H ino (inode_blocks ino)" "i < unat (inode_size ino) div DIRENT_SZ"
  shows "ret (read_dirent D ino i st) (dirents B ino ! i) B H"
proof -
  let ?bs = "take DIRENT_SZ (drop (DIRENT_SZ * i) (file_data B ino))"
  have "DIRENT_SZ * i + DIRENT_SZ \<le> length (file_data B ino)"
    using assms(3) length_file_data [OF assms(1,2)] by (simp add: DIRENT_SZ_def)
  then have len: "length ?bs = DIRENT_SZ" by simp
  have "ret (inode_read_at D (DIRENT_SZ * i) DIRENT_SZ ino st) ?bs B H"
    using inode_read_at_ret [OF assms(1)] assms(2) by (simp add: inode_blocks_def)
  then show ?thesis
    unfolding read_dirent_def using len assms(3) by (auto elim!: retE simp: dirents_def intro: retI)
qed

lemma find_entry_ret:
  assumes "rep st B H" "inode_ok nblk B H ino (inode_blocks ino)" "i \<le> unat (inode_size ino) div DIRENT_SZ"
    and "lookup_name name (drop i (dirents B ino)) = Inr r"
  shows "ret (find_entry D name ino [i..<unat (inode_size ino) div DIRENT_SZ] st) r B H"
  using assms(1,3,4)
proof (induction "unat (inode_size ino) div DIRENT_SZ - i" arbitrary: i st)
  case 0
  then show ?case by (auto simp: dirents_def intro: retI)
next
  case (Suc n)
  then have i: "i < unat (inode_size ino) div DIRENT_SZ" by simp
  have d: "drop i (dirents B ino) = dirents B ino ! i # drop (Suc i) (dirents B ino)"
    using i by (intro Cons_nth_drop_Suc [symmetric]) (simp add: dirents_def)
  obtain st1 where st1: "read_dirent D ino i st = Inr (dirents B ino ! i, st1)" "rep st1 B H"
    by (rule retE [OF read_dirent_ret [OF Suc.prems(1) assms(2) i]])
  obtain n where n: "dir_entry_name (dirents B ino ! i) = Inr n"
    using Suc.prems(3) d by (auto simp: res_eq_simps)
  have "find_entry D name ino [i..<unat (inode_size ino) div DIRENT_SZ] st =
      (if n = name then Inr (Some (de_inode_number (dirents B ino ! i)), st1)
       else find_entry D name ino [Suc i..<unat (inode_size ino) div DIRENT_SZ] st1)"
    using i st1(1) n by (simp add: upt_conv_Cons)
  moreover have "ret (find_entry D name ino [Suc i..<unat (inode_size ino) div DIRENT_SZ] st1) r B H"
    if "n \<noteq> name"
    using that Suc.hyps(2) Suc.prems(3) n d i st1(2) by (intro Suc.hyps(1)) auto
  ultimately show ?case using Suc.prems(3) n d st1(2) by (auto intro: retI)
qed

lemma vfs_find_ret:
  assumes "rep st B Map.empty" "vfs_ok nblk B vi ino" "is_dir ino" "lookup_name name (dirents B ino) = Inr r"
    and "\<And>k. r = Some k \<Longrightarrow> inode_area_start_block fs + unat k div 4 < 2 ^ 32"
  shows "ret (vfs_find D fs vi name st)
    (map_option (\<lambda>k. vfs_inode_new (inode_area_start_block fs + unat k div 4) (unat k mod 4 * 128)) r) B Map.empty"
  unfolding vfs_find_def
proof (rule read_disk_inode_ret [OF assms(1,2)])
  fix c st1 assume st1: "rep st1 B [vi_block_id vi \<mapsto> c]"
  have "ret (find_inode_id D name ino st1) r B [vi_block_id vi \<mapsto> c]"
    unfolding find_inode_id_def
    using find_entry_ret [OF st1 vfs_ok_locked [OF assms(2)], of 0 name r] assms(3,4) by simp
  then obtain st2 where "find_inode_id D name ino st1 = Inr (r, st2)" "rep st2 B [vi_block_id vi \<mapsto> c]"
    by (rule retE)
  then show "ret (rbind (find_inode_id D name ino st1) (\<lambda>(r, st1).
       case r of
         Some inode_id \<Rightarrow> rbind (get_disk_inode_pos fs (unat inode_id)) (\<lambda>(blk, offset).
           Inr (Some (vfs_inode_new blk offset), st1))
       | None \<Rightarrow> Inr (None, st1)))
      (map_option (\<lambda>k. vfs_inode_new (inode_area_start_block fs + unat k div 4) (unat k mod 4 * 128)) r)
      B [vi_block_id vi \<mapsto> c]"
    using assms(5) by (cases r) (auto simp: get_disk_inode_pos_eq intro: retI)
qed

lemma read_all_loop_ret:
  assumes "rep st B Map.empty" "vfs_ok nblk B vi ino" "offset \<le> length (file_data B ino)"
    and "fuel > (length (file_data B ino) - offset + 511) div 512"
  shows "\<exists>r. read_all_loop fuel D vi offset st = Some r \<and> ret r (drop offset (file_data B ino)) B Map.empty"
  using assms(1,3,4)
proof (induction fuel arbitrary: offset st)
  case (Suc fuel)
  let ?bs = "take 512 (drop offset (file_data B ino))"
  obtain st1 where st1: "vfs_read_at D vi offset 512 st = Inr (?bs, st1)" "rep st1 B Map.empty"
    by (rule retE [OF vfs_read_at_ret [OF Suc.prems(1) assms(2)]])
  show ?case
  proof (cases "offset = length (file_data B ino)")
    case True
    then show ?thesis using st1 by (auto intro: retI)
  next
    case False
    let ?o = "offset + length ?bs"
    have lt: "offset < length (file_data B ino)" using False Suc.prems(2) by simp
    have o: "?o \<le> length (file_data B ino)" using lt by simp
    have "(length (file_data B ino) - ?o + 511) div 512 < (length (file_data B ino) - offset + 511) div 512"
      using lt by (simp add: min_def) linarith
    with Suc.prems(3) have "fuel > (length (file_data B ino) - ?o + 511) div 512" by linarith
    from Suc.IH [OF st1(2) o this] obtain r where r: "read_all_loop fuel D vi ?o st1 = Some r"
      "ret r (drop ?o (file_data B ino)) B Map.empty" by blast
    have "?bs @ drop ?o (file_data B ino) = drop offset (file_data B ino)"
      by (simp add: min_def) (metis append_take_drop_id drop_drop add.commute append_Nil2 drop_all nat_le_linear take_all)
    moreover have "length ?bs \<noteq> 0" using lt by simp
    ultimately show ?thesis
      using st1(1) r by (auto elim!: retE intro!: retI)
  qed
qed simp

end

section \<open>Properties\<close>

text \<open>
  C29. \<^verbatim>\<open>read_all\<close> terminates and returns the whole file: for an open file whose inode is stored on the disk,
  any bound above the number of blocks of the file plus one is enough, the loop does not panic, and the
  bytes it returns are the bytes of the file.
\<close>

theorem read_all_returns_file:
  assumes "block_device D contents nblk dev_ok" "bc_rep contents nblk dev_ok st B Map.empty"
    and "vfs_ok nblk B vi ino" "fh_inode fh = Some vi" "fuel > inode_blocks ino"
  shows "\<exists>st'. read_all fuel D fh st = Some (Inr (file_data B ino, st'))
    \<and> bc_rep contents nblk dev_ok st' B Map.empty"
proof -
  have "length (file_data B ino) = unat (inode_size ino)"
    using block_device.length_file_data [OF assms(1,2)] assms(3) by (simp add: vfs_ok_def)
  then have "fuel > (length (file_data B ino) - 0 + 511) div 512"
    using assms(5) by (simp add: inode_blocks_def BLOCK_SZ_def)
  from block_device.read_all_loop_ret [OF assms(1-3) _ this] show ?thesis
    using assms(4) by (auto simp: read_all_def bc_ret_def)
qed

text \<open>
  Looking a name up in a directory finds the first entry with that name: the answer of \<^verbatim>\<open>find\<close> is the
  place of the inode that this entry names, or \<^verbatim>\<open>None\<close> when no entry has the name; nothing on the disk
  changes. It panics exactly where an entry before it has a malformed name.
\<close>

theorem find_returns_first_match:
  assumes "block_device D contents nblk dev_ok" "bc_rep contents nblk dev_ok st B Map.empty"
    and "vfs_ok nblk B vi ino" "is_dir ino" "lookup_name name (dirents B ino) = Inr r"
    and "\<forall>k. r = Some k \<longrightarrow> inode_area_start_block fs + unat k div 4 < 2 ^ 32"
  shows "\<exists>st'. vfs_find D fs vi name st = Inr (map_option (\<lambda>k. vfs_inode_new
      (inode_area_start_block fs + unat k div 4) (unat k mod 4 * 128)) r, st')
    \<and> bc_rep contents nblk dev_ok st' B Map.empty"
  using block_device.vfs_find_ret [OF assms(1-5)] assms(6) by (simp add: bc_ret_def)

text \<open>An image of four blocks with the empty root directory in block 1.\<close>

definition demo_disk :: "disk_inode_type \<Rightarrow> block_file" where
  "demo_disk ty = replicate 512 0 @
     disk_inode_bytes (disk_inode_initialize ty) (replicate 128 0) @ replicate (3 * 512 - 128) 0"

lemma length_demo_inode_bytes: "length (disk_inode_bytes (disk_inode_initialize ty) (replicate 128 0)) = 128"
  by (rule length_disk_inode_bytes) (simp_all add: disk_inode_initialize_def INODE_DIRECT_COUNT_def)

lemma demo_disk_rep:
  "bc_rep file_block 4 (\<lambda>f. 4 * BLOCK_SZ \<le> length f) (cache_manager_new (demo_disk ty))
     (file_block (demo_disk ty)) Map.empty"
  by (rule bc_rep_new) (simp add: demo_disk_def BLOCK_SZ_def length_demo_inode_bytes)

lemma demo_disk_ok: "vfs_ok 4 (file_block (demo_disk ty)) (vfs_inode_new 1 0) (disk_inode_initialize ty)"
proof -
  let ?b = "disk_inode_bytes (disk_inode_initialize ty) (replicate 128 0)"
  have "take 128 (file_block (demo_disk ty) 1) = ?b"
    by (simp add: file_block_def demo_disk_def BLOCK_SZ_def length_demo_inode_bytes)
  moreover have "disk_inode_of ?b = Inr (disk_inode_initialize ty)"
    by (rule disk_inode_roundtrip) (simp_all add: disk_inode_initialize_def INODE_DIRECT_COUNT_def)
  ultimately show ?thesis
    by (simp add: vfs_ok_def vfs_inode_new_def sizeof_disk_inode_def BLOCK_SZ_def inode_blocks_def
        inode_ok_def data_list_def idx_list_def disk_inode_initialize_def BLOCK_CACHE_SIZE_def)
qed

theorem read_all_returns_file_witness:
  "\<exists>st'. read_all 1 block_file_ops (file_handle_new True False (vfs_inode_new 1 0))
      (cache_manager_new (demo_disk File)) = Some (Inr ([], st'))"
  using read_all_returns_file [OF bf.block_device_axioms demo_disk_rep [of File] demo_disk_ok,
      of "file_handle_new True False (vfs_inode_new 1 0)" 1]
  by (auto simp: file_handle_new_def inode_blocks_def disk_inode_initialize_def BLOCK_SZ_def file_data_def)

theorem find_returns_first_match_witness:
  "\<exists>st'. vfs_find block_file_ops (efs_layout 1 1 1) (vfs_inode_new 1 0) [0x61]
      (cache_manager_new (demo_disk Directory)) = Inr (None, st')"
  using find_returns_first_match [OF bf.block_device_axioms demo_disk_rep [of Directory] demo_disk_ok,
      of "[0x61]" None "efs_layout 1 1 1"]
  by (auto simp: is_dir_def disk_inode_initialize_def dirents_def)

text \<open>
  The access rights of an open file: the empty flag set opens for reading only, \<^verbatim>\<open>WRONLY\<close> for writing
  only, and any other set for both; \<^verbatim>\<open>CREATE\<close> or \<^verbatim>\<open>TRUNC\<close> alone therefore also grants both.
\<close>

theorem open_flags_rights:
  "read_write RDONLY = (True, False) \<and> read_write WRONLY = (False, True) \<and> read_write RDWR = (True, True)
   \<and> read_write (CREATE OR WRONLY) = (False, True) \<and> read_write CREATE = (True, True)
   \<and> read_write TRUNC = (True, True)"
  by (simp add: read_write_def RDONLY_def WRONLY_def RDWR_def CREATE_def TRUNC_def flags_contains_def
      push_bit_eq_mult)

end
