(* ===== verification/Page_Table.thy ===== *)
theory Page_Table
  imports Prelude
begin

unbundle bit_operations_syntax

text \<open>
  Page numbers, virtual addresses, page-table entries and their flags, from \<^verbatim>\<open>patches/page-table/src\<close>
  (\<^verbatim>\<open>lib.rs\<close>, \<^verbatim>\<open>addr.rs\<close>, \<^verbatim>\<open>flags.rs\<close>, \<^verbatim>\<open>pte.rs\<close>, \<^verbatim>\<open>arch/riscv.rs\<close>, \<^verbatim>\<open>table/pos.rs\<close>). The metadata of a
  paging scheme, the trait \<^verbatim>\<open>MmuMeta\<close>, is a record; \<^verbatim>\<open>Sv<N>\<close> is a value of it for every number of
  levels, and the kernels use \<^verbatim>\<open>Sv39 = Sv<3>\<close>. A page number, an address, an entry and a set of flags
  each wrap a \<^verbatim>\<open>usize\<close>.
\<close>

section \<open>Metadata of a paging scheme\<close>

record mmu_meta =
  P_ADDR_BITS :: nat
  PAGE_BITS :: nat
  LEVEL_BITS :: "nat list"
  PPN_POS :: nat
  meta_is_leaf :: "usize \<Rightarrow> bool"

definition VALID_FLAG :: usize where "VALID_FLAG = 1"

definition meta_is_valid :: "usize \<Rightarrow> bool" where
  "meta_is_valid flags \<longleftrightarrow> flags AND VALID_FLAG = VALID_FLAG"

definition vm_mask :: "nat \<Rightarrow> usize" where
  "vm_mask bits = (if bits \<ge> 64 then - 1 else push_bit bits 1 - 1)"

fun const_sum :: "nat \<Rightarrow> nat list \<Rightarrow> nat" where
  "const_sum val [] = val"
| "const_sum val (n # tail) = const_sum (val + n) tail"

definition V_ADDR_BITS :: "mmu_meta \<Rightarrow> nat" where
  "V_ADDR_BITS m = PAGE_BITS m + const_sum 0 (LEVEL_BITS m)"

definition MAX_LEVEL :: "mmu_meta \<Rightarrow> nat" where
  "MAX_LEVEL m = length (LEVEL_BITS m) - 1"

definition ppn_mask :: "mmu_meta \<Rightarrow> usize" where
  "ppn_mask m = NOT (vm_mask (PPN_POS m)) AND vm_mask (PPN_POS m + P_ADDR_BITS m - PAGE_BITS m)"

text \<open>The slice \<^verbatim>\<open>LEVEL_BITS[..n]\<close> and the checked shift \<^verbatim>\<open>1 << n\<close>.\<close>

definition level_sum :: "mmu_meta \<Rightarrow> nat \<Rightarrow> nat res" where
  "level_sum m n =
     (if n \<le> length (LEVEL_BITS m) then Inr (sum_list (take n (LEVEL_BITS m)))
      else Inl Index_Out_Of_Bounds)"

definition shl_one :: "nat \<Rightarrow> usize res" where
  "shl_one n = (if n < 64 then Inr (push_bit n 1) else Inl Arith_Overflow)"

definition pages_in_table :: "mmu_meta \<Rightarrow> nat \<Rightarrow> usize res" where
  "pages_in_table m level = rbind (level_sum m (level + 1)) shl_one"

definition bytes_in_table :: "mmu_meta \<Rightarrow> nat \<Rightarrow> usize res" where
  "bytes_in_table m level = rbind (level_sum m (level + 1)) (\<lambda>b. shl_one (b + PAGE_BITS m))"

definition bytes_in_page :: "mmu_meta \<Rightarrow> nat \<Rightarrow> usize res" where
  "bytes_in_page m level = rbind (level_sum m level) (\<lambda>b. shl_one (b + PAGE_BITS m))"

definition meta_is_huge :: "mmu_meta \<Rightarrow> usize \<Rightarrow> nat \<Rightarrow> bool" where
  "meta_is_huge m value level \<longleftrightarrow> level \<noteq> 0 \<and> meta_is_leaf m value"

definition meta_ppn :: "mmu_meta \<Rightarrow> usize \<Rightarrow> usize" where
  "meta_ppn m value = drop_bit (PPN_POS m) (value AND ppn_mask m)"

definition meta_set_ppn :: "mmu_meta \<Rightarrow> usize \<Rightarrow> usize \<Rightarrow> usize" where
  "meta_set_ppn m ppn value = value OR (push_bit (PPN_POS m) ppn AND ppn_mask m)"

definition meta_clear_ppn :: "mmu_meta \<Rightarrow> usize \<Rightarrow> usize" where
  "meta_clear_ppn m value = value AND NOT (ppn_mask m)"

section \<open>Page numbers\<close>

type_synonym vpn = usize
type_synonym ppn = usize

definition page_add :: "usize \<Rightarrow> usize \<Rightarrow> usize" where
  "page_add n rhs = n + rhs"

definition ppn_INVALID :: "mmu_meta \<Rightarrow> ppn" where
  "ppn_INVALID m = push_bit (P_ADDR_BITS m - PAGE_BITS m) 1"

definition ppn_MAX :: "mmu_meta \<Rightarrow> ppn" where
  "ppn_MAX m = ppn_INVALID m - 1"

text \<open>\<^verbatim>\<open>MaybeInvalidPPN::get\<close>\<close>

definition maybe_ppn_get :: "mmu_meta \<Rightarrow> ppn \<Rightarrow> ppn option" where
  "maybe_ppn_get m n = (if n > ppn_MAX m then None else Some n)"

definition vpn_MAX :: "mmu_meta \<Rightarrow> vpn" where
  "vpn_MAX m = vm_mask (V_ADDR_BITS m - PAGE_BITS m)"

definition bits_until :: "mmu_meta \<Rightarrow> nat \<Rightarrow> nat res" where
  "bits_until m level = level_sum m level"

definition index_in :: "mmu_meta \<Rightarrow> vpn \<Rightarrow> nat \<Rightarrow> nat res" where
  "index_in m n level =
     rbind (bits_until m level) (\<lambda>b.
     rbind (vec_index (LEVEL_BITS m) level) (\<lambda>w.
       if b < 64 then Inr (unat (drop_bit b n AND vm_mask w)) else Inl Arith_Overflow))"

definition vpn_floor :: "mmu_meta \<Rightarrow> vpn \<Rightarrow> nat \<Rightarrow> vpn res" where
  "vpn_floor m n level = rbind (bits_until m level) (\<lambda>bits. Inr (n AND NOT (vm_mask bits)))"

definition vpn_ceil :: "mmu_meta \<Rightarrow> vpn \<Rightarrow> nat \<Rightarrow> usize res" where
  "vpn_ceil m n level =
     rbind (bits_until m level) (\<lambda>bits.
       if unat n + unat (vm_mask bits) < 2 ^ 64 \<and> bits < 64
       then Inr (drop_bit bits (n + vm_mask bits)) else Inl Arith_Overflow)"

text \<open>The loop of \<^verbatim>\<open>align_level\<close> over the levels below the root, from the widest slice down.\<close>

fun align_loop :: "nat list \<Rightarrow> nat \<Rightarrow> usize \<Rightarrow> nat \<Rightarrow> nat" where
  "align_loop [] i n lim = lim"
| "align_loop (bits # rest) i n lim =
     (if n AND vm_mask bits \<noteq> 0 then i else align_loop rest (i + 1) (drop_bit bits n) lim)"

definition align_level :: "mmu_meta \<Rightarrow> vpn \<Rightarrow> nat" where
  "align_level m n = align_loop (rev (take (MAX_LEVEL m) (LEVEL_BITS m))) 0 n (MAX_LEVEL m)"

section \<open>Virtual addresses\<close>

type_synonym vaddr = usize

definition vaddr_new :: "mmu_meta \<Rightarrow> usize \<Rightarrow> vaddr" where
  "vaddr_new m value = value AND vm_mask (V_ADDR_BITS m)"

definition IGNORED_MASK :: "mmu_meta \<Rightarrow> usize" where
  "IGNORED_MASK m = vm_mask (V_ADDR_BITS m - 1)"

definition vaddr_val :: "mmu_meta \<Rightarrow> vaddr \<Rightarrow> usize" where
  "vaddr_val m a = (if a \<le> IGNORED_MASK m then a else a OR NOT (IGNORED_MASK m))"

definition vaddr_add :: "mmu_meta \<Rightarrow> vaddr \<Rightarrow> usize \<Rightarrow> vaddr" where
  "vaddr_add m a rhs = vaddr_new m (a + rhs)"

definition vaddr_floor :: "mmu_meta \<Rightarrow> vaddr \<Rightarrow> vpn" where
  "vaddr_floor m a = drop_bit (PAGE_BITS m) a"

definition vaddr_ceil :: "mmu_meta \<Rightarrow> vaddr \<Rightarrow> vpn res" where
  "vaddr_ceil m a =
     (if unat a + unat (vm_mask (PAGE_BITS m)) < 2 ^ 64
      then Inr (drop_bit (PAGE_BITS m) (a + vm_mask (PAGE_BITS m))) else Inl Arith_Overflow)"

definition vaddr_offset :: "mmu_meta \<Rightarrow> vaddr \<Rightarrow> usize" where
  "vaddr_offset m a = a AND vm_mask (PAGE_BITS m)"

definition vpn_base :: "mmu_meta \<Rightarrow> vpn \<Rightarrow> vaddr" where
  "vpn_base m n = vaddr_new m (push_bit (PAGE_BITS m) n)"

definition vaddr_range :: "mmu_meta \<Rightarrow> vpn \<Rightarrow> nat \<Rightarrow> (vaddr \<times> vaddr) res" where
  "vaddr_range m n level =
     (let base = vpn_base m n in rbind (bytes_in_page m level) (\<lambda>b. Inr (base, vaddr_add m base b)))"

section \<open>Flags and page-table entries\<close>

type_synonym vm_flags = usize
type_synonym pte = usize

definition vm_flags_contains :: "vm_flags \<Rightarrow> vm_flags \<Rightarrow> bool" where
  "vm_flags_contains self flags \<longleftrightarrow> self AND flags = flags"

definition build_pte :: "mmu_meta \<Rightarrow> vm_flags \<Rightarrow> ppn \<Rightarrow> pte" where
  "build_pte m flags n = meta_set_ppn m n flags"

definition pte_ppn :: "mmu_meta \<Rightarrow> pte \<Rightarrow> ppn" where
  "pte_ppn m p = meta_ppn m p"

definition pte_is_leaf :: "mmu_meta \<Rightarrow> pte \<Rightarrow> bool" where
  "pte_is_leaf m p = meta_is_leaf m p"

definition pte_is_huge :: "mmu_meta \<Rightarrow> pte \<Rightarrow> nat \<Rightarrow> bool" where
  "pte_is_huge m p level = meta_is_huge m p level"

definition pte_is_valid :: "pte \<Rightarrow> bool" where
  "pte_is_valid p = meta_is_valid p"

definition pte_flags :: "mmu_meta \<Rightarrow> pte \<Rightarrow> vm_flags" where
  "pte_flags m p = meta_clear_ppn m p"

section \<open>The RISC-V schemes\<close>

text \<open>\<^verbatim>\<open>size_of::<usize>().trailing_zeros()\<close> is 3 on the 64-bit target.\<close>

definition pt_level_bits :: "nat \<Rightarrow> nat" where
  "pt_level_bits page_bits = page_bits - trailing_zeros (8 :: usize)"

definition sv_is_leaf :: "usize \<Rightarrow> bool" where
  "sv_is_leaf value \<longleftrightarrow> value AND 0b1110 \<noteq> 0"

definition sv :: "nat \<Rightarrow> mmu_meta" where
  "sv N = \<lparr>P_ADDR_BITS = 56, PAGE_BITS = 12, LEVEL_BITS = replicate N (pt_level_bits 12),
     PPN_POS = 10, meta_is_leaf = sv_is_leaf\<rparr>"

abbreviation sv39 :: mmu_meta where "sv39 \<equiv> sv 3"

text \<open>Strings are lists of bytes.\<close>

definition is_ascii_alphabetic :: "u8 \<Rightarrow> bool" where
  "is_ascii_alphabetic c \<longleftrightarrow> (0x41 \<le> c \<and> c \<le> 0x5A) \<or> (0x61 \<le> c \<and> c \<le> 0x7A)"

definition to_ascii_uppercase :: "u8 \<Rightarrow> u8" where
  "to_ascii_uppercase c = (if 0x61 \<le> c \<and> c \<le> 0x7A then c - 0x20 else c)"

definition FLAGS :: "u8 list" where
  "FLAGS = [0x56, 0x52, 0x57, 0x58, 0x55, 0x47, 0x41, 0x44]"

definition flag_of_letter :: "u8 \<Rightarrow> usize" where
  "flag_of_letter c =
     (if c = 0x56 \<or> c = 0x76 then push_bit 0 1
      else if c = 0x52 \<or> c = 0x72 then push_bit 1 1
      else if c = 0x57 \<or> c = 0x77 then push_bit 2 1
      else if c = 0x58 \<or> c = 0x78 then push_bit 3 1
      else if c = 0x55 \<or> c = 0x75 then push_bit 4 1
      else if c = 0x47 \<or> c = 0x67 then push_bit 5 1
      else if c = 0x41 \<or> c = 0x61 then push_bit 6 1
      else if c = 0x44 \<or> c = 0x64 then push_bit 7 1
      else 0)"

fun build_from_str_internal :: "usize \<Rightarrow> u8 list \<Rightarrow> usize" where
  "build_from_str_internal base [] = base"
| "build_from_str_internal base (c # tail) =
     build_from_str_internal (if is_ascii_alphabetic c then base OR flag_of_letter c else base) tail"

definition build_from_str :: "u8 list \<Rightarrow> vm_flags" where
  "build_from_str s = build_from_str_internal 0 s"

definition flags_from_str :: "u8 list \<Rightarrow> vm_flags" where
  "flags_from_str s =
     fold (\<lambda>i c. c OR push_bit i 1)
       (List.map_filter (\<lambda>c. find_index (\<lambda>x. x = c) FLAGS)
         (map to_ascii_uppercase (filter is_ascii_alphabetic s))) 0"

section \<open>Positions\<close>

record pos =
  pos_vpn :: vpn
  pos_level :: nat

definition pos_stop :: "mmu_meta \<Rightarrow> pos" where
  "pos_stop m = \<lparr>pos_vpn = 0, pos_level = MAX_LEVEL m + 1\<rparr>"

definition pos_delta :: "mmu_meta \<Rightarrow> nat \<Rightarrow> usize res" where
  "pos_delta m level = (case level of 0 \<Rightarrow> Inr 1 | Suc n \<Rightarrow> pages_in_table m n)"

definition pos_prev :: "mmu_meta \<Rightarrow> pos \<Rightarrow> pos res" where
  "pos_prev m p =
     rbind (pos_delta m (pos_level p)) (\<lambda>delta.
       if delta \<le> pos_vpn p then Inr (p\<lparr>pos_vpn := pos_vpn p - delta\<rparr>) else Inl Explicit_Panic)"

definition pos_next :: "mmu_meta \<Rightarrow> pos \<Rightarrow> pos res" where
  "pos_next m p =
     rbind (pos_delta m (pos_level p)) (\<lambda>delta.
       if unat (pos_vpn p) + unat delta < 2 ^ 64 then Inr (p\<lparr>pos_vpn := pos_vpn p + delta\<rparr>)
       else Inl Explicit_Panic)"

definition pos_up :: "pos \<Rightarrow> pos" where
  "pos_up p = p\<lparr>pos_level := pos_level p + 1\<rparr>"

definition pos_down :: "pos \<Rightarrow> pos res" where
  "pos_down p = (if pos_level p = 0 then Inl Explicit_Panic else Inr (p\<lparr>pos_level := pos_level p - 1\<rparr>))"

section \<open>Lemmas\<close>

lemma pt_level_bits_12 [simp]: "pt_level_bits 12 = 9"
proof -
  have "trailing_zeros (8 :: usize) = 3"
    by (rule trailing_zeros_eqI) (auto simp: bit_simps less_Suc_eq numeral_3_eq_3)
  then show ?thesis by (simp add: pt_level_bits_def)
qed

lemma sv_simps [simp]:
  "P_ADDR_BITS (sv N) = 56" "PAGE_BITS (sv N) = 12" "LEVEL_BITS (sv N) = replicate N 9"
  "PPN_POS (sv N) = 10" "meta_is_leaf (sv N) = sv_is_leaf"
  by (simp_all add: sv_def)

lemma const_sum_replicate [simp]: "const_sum v (replicate N n) = v + N * n"
  by (induction N arbitrary: v) simp_all

lemma sv39_bits [simp]: "V_ADDR_BITS sv39 = 39" "MAX_LEVEL sv39 = 2"
  by (simp_all add: V_ADDR_BITS_def MAX_LEVEL_def)

lemma level_sum_sv39 [simp]: "n \<le> 3 \<Longrightarrow> level_sum sv39 n = Inr (9 * n)"
  by (simp add: level_sum_def sum_list_replicate)

lemma vm_mask_eq: "vm_mask n = Bit_Operations.mask n"
  by (auto simp: vm_mask_def mask_eq_exp_minus_1 push_bit_eq_mult)

lemma and_vm_mask [simp]: "w AND vm_mask n = take_bit n w"
  by (simp add: vm_mask_eq take_bit_eq_mask)

lemma bit_vm_mask: "bit (vm_mask n) i \<longleftrightarrow> i < n \<and> i < 64"
  by (auto simp: vm_mask_eq bit_mask_iff)

lemma bit_ppn_mask_sv: "bit (ppn_mask (sv N)) i \<longleftrightarrow> 10 \<le> i \<and> i < 54"
  by (auto simp: ppn_mask_def bit_simps bit_vm_mask)

lemma index_in_sv39:
  "level < 3 \<Longrightarrow> index_in sv39 n level = Inr (unat (take_bit 9 (drop_bit (9 * level) n)))"
  by (simp add: index_in_def bits_until_def vec_index_def)

lemma pages_in_table_sv39: "level < 3 \<Longrightarrow> pages_in_table sv39 level = Inr (push_bit (9 * (level + 1)) 1)"
  by (simp add: pages_in_table_def shl_one_def)

lemma bit_flags_fold:
  "bit (fold (\<lambda>i c. c OR push_bit i 1) xs w) k \<longleftrightarrow> bit w k \<or> (k \<in> set xs \<and> k < 64)" for w :: usize
  by (induction xs arbitrary: w) (auto simp: bit_simps)

lemma set_map_filter: "set (List.map_filter f xs) = {y. \<exists>x \<in> set xs. f x = Some y}"
  by (induction xs) (auto simp: List.map_filter_simps split: option.splits)

lemma bit_build_from_str_internal:
  "bit (build_from_str_internal b s) k \<longleftrightarrow>
     bit b k \<or> (\<exists>c \<in> set s. is_ascii_alphabetic c \<and> bit (flag_of_letter c) k)"
  by (induction s arbitrary: b) (auto simp: bit_simps)

lemma uppercase_eq:
  assumes "is_ascii_alphabetic c" "0x41 \<le> u" "u \<le> 0x5A"
  shows "to_ascii_uppercase c = u \<longleftrightarrow> c = u \<or> c = u + 0x20"
proof (cases "0x61 \<le> c \<and> c \<le> 0x7A")
  case True
  then have "c \<noteq> u" using assms(3) by (auto simp: word_le_nat_alt)
  with True show ?thesis by (auto simp: to_ascii_uppercase_def)
next
  case False
  have "0x61 \<le> u + 0x20" "u + 0x20 \<le> 0x7A"
    using assms(2,3) by (auto simp: word_le_nat_alt unat_word_ariths)
  with False have "c \<noteq> u + 0x20" by auto
  with False show ?thesis by (auto simp: to_ascii_uppercase_def)
qed

lemma flag_of_letter_index:
  assumes "is_ascii_alphabetic c"
  shows "bit (flag_of_letter c) k \<longleftrightarrow> find_index (\<lambda>x. x = to_ascii_uppercase c) FLAGS = Some k"
proof -
  have eq: "(u = to_ascii_uppercase c) = (c = u \<or> c = u + 0x20)" if "0x41 \<le> u" "u \<le> 0x5A" for u
    using uppercase_eq [OF assms that] by metis
  show ?thesis
    by (auto simp: flag_of_letter_def FLAGS_def eq bit_single bit_1_iff bit_numeral_rec simp del: push_bit_of_1
        split: nat.splits)
qed

text \<open>
  C35. The two ways of writing page flags agree: the \<^verbatim>\<open>const\<close> parser \<^verbatim>\<open>build_from_str\<close>, with which the
  kernels write flags such as \<^verbatim>\<open>"U_WRV"\<close>, and the run-time parser \<^verbatim>\<open>from_str\<close>, with which a loader turns
  the permissions of a segment into flags, give the same flags for every string.
\<close>

theorem flag_parsers_agree: "build_from_str s = flags_from_str s"
proof (rule bit_word_eqI)
  fix k
  assume k: "k < LENGTH(64)"
  have "bit (build_from_str s) k \<longleftrightarrow> (\<exists>c \<in> set s. is_ascii_alphabetic c \<and> bit (flag_of_letter c) k)"
    by (simp add: build_from_str_def bit_build_from_str_internal)
  also have "\<dots> \<longleftrightarrow>
      (\<exists>c \<in> set s. is_ascii_alphabetic c \<and> find_index (\<lambda>x. x = to_ascii_uppercase c) FLAGS = Some k)"
    using flag_of_letter_index by blast
  also have "\<dots> \<longleftrightarrow> bit (flags_from_str s) k"
    using k by (auto simp: flags_from_str_def bit_flags_fold set_map_filter simp del: push_bit_of_1)
  finally show "bit (build_from_str s) k \<longleftrightarrow> bit (flags_from_str s) k" .
qed

lemma pte_parts:
  assumes "unat n < 2 ^ 44" "flags AND ppn_mask (sv N) = 0"
  shows "pte_ppn (sv N) (build_pte (sv N) flags n) = n"
    "pte_flags (sv N) (build_pte (sv N) flags n) = flags"
    "pte_is_valid (build_pte (sv N) flags n) = meta_is_valid flags"
    "pte_is_leaf (sv N) (build_pte (sv N) flags n) = sv_is_leaf flags"
proof -
  have n: "i < 44" if "bit n i" for i
  proof -
    have "take_bit 44 (unat n) = unat n" using assms(1) by (rule take_bit_nat_eq_self)
    then have "take_bit 44 n = n" by (metis unsigned_take_bit_eq unsigned_word_eqI)
    then show ?thesis using that by (metis bit_take_bit_iff)
  qed
  have f: "\<not> bit flags i" if "10 \<le> i" "i < 54" for i
    using assms(2) that bit_ppn_mask_sv [of N i] by (metis bit_0_eq bit_and_iff bot_apply bot_bool_def)
  show "pte_ppn (sv N) (build_pte (sv N) flags n) = n"
    by (rule bit_word_eqI)
       (use f in \<open>auto dest: n simp: pte_ppn_def build_pte_def meta_ppn_def meta_set_ppn_def bit_simps bit_ppn_mask_sv\<close>)
  show "pte_flags (sv N) (build_pte (sv N) flags n) = flags"
    by (rule bit_word_eqI)
       (use f in \<open>auto simp: pte_flags_def build_pte_def meta_clear_ppn_def meta_set_ppn_def bit_simps bit_ppn_mask_sv\<close>)
  have low: "build_pte (sv N) flags n AND w = flags AND w" if "\<And>i. bit w i \<Longrightarrow> i < 10" for w
    by (rule bit_word_eqI)
       (use that in \<open>force simp: build_pte_def meta_set_ppn_def bit_simps bit_ppn_mask_sv\<close>)
  have "i < 10" if "bit (0b1110 :: usize) i" for i
    using that by (auto simp: bit_simps bit_numeral_rec split: nat.splits if_splits)
  moreover have "i < 10" if "bit (1 :: usize) i" for i using that by (simp add: bit_1_iff)
  ultimately show "pte_is_valid (build_pte (sv N) flags n) = meta_is_valid flags"
    "pte_is_leaf (sv N) (build_pte (sv N) flags n) = sv_is_leaf flags"
    using low [of 1] low [of "0b1110"]
    by (simp_all add: pte_is_valid_def meta_is_valid_def VALID_FLAG_def pte_is_leaf_def sv_is_leaf_def)
qed

text \<open>
  Building and taking apart a page-table entry. For a physical page number that fits into the 44
  bits of the scheme and flags outside them, the entry gives back exactly that page number and those
  flags, and it is valid, a leaf or a table exactly when the flags say so.
\<close>

theorem pte_roundtrip:
  assumes "unat n < 2 ^ 44" "flags AND ppn_mask (sv N) = 0"
  shows "pte_ppn (sv N) (build_pte (sv N) flags n) = n \<and>
     pte_flags (sv N) (build_pte (sv N) flags n) = flags \<and>
     pte_is_valid (build_pte (sv N) flags n) = meta_is_valid flags \<and>
     pte_is_leaf (sv N) (build_pte (sv N) flags n) = sv_is_leaf flags"
  using pte_parts [OF assms] by blast

theorem pte_roundtrip_witness:
  "pte_ppn (sv 3) (build_pte (sv 3) (build_from_str [0x55, 0x5F, 0x57, 0x52, 0x56]) 0x80200) = 0x80200 \<and>
   pte_flags (sv 3) (build_pte (sv 3) (build_from_str [0x55, 0x5F, 0x57, 0x52, 0x56]) 0x80200) = 0x17"
proof -
  have f: "build_from_str [0x55, 0x5F, 0x57, 0x52, 0x56] = 0x17"
    by (simp add: build_from_str_def is_ascii_alphabetic_def flag_of_letter_def)
  have z: "(0x17 :: usize) AND ppn_mask (sv 3) = 0"
    by (simp add: ppn_mask_def vm_mask_def push_bit_eq_mult)
  show ?thesis
    unfolding f using pte_roundtrip [of "0x80200" "0x17" 3] z by simp
qed

lemma bit_vaddr_new: "bit (vaddr_new sv39 v) i \<longleftrightarrow> i < 39 \<and> bit v i"
  by (auto simp: vaddr_new_def bit_simps)

lemma bit_IGNORED_MASK: "bit (IGNORED_MASK sv39) i \<longleftrightarrow> i < 38"
  by (auto simp: IGNORED_MASK_def bit_vm_mask)

lemma take_bit_eq_selfI: "(\<And>i. bit w i \<Longrightarrow> i < n) \<Longrightarrow> take_bit n w = w" for w :: usize
  by (rule bit_word_eqI) (auto simp: bit_simps)

lemma vaddr_le_IGNORED:
  assumes "\<And>i. bit a i \<Longrightarrow> i < 39"
  shows "a \<le> IGNORED_MASK sv39 \<longleftrightarrow> \<not> bit a 38"
proof -
  have M: "unat (IGNORED_MASK sv39) = 2 ^ 38 - 1" by (simp add: IGNORED_MASK_def vm_mask_def)
  have "a \<le> IGNORED_MASK sv39 \<longleftrightarrow> unat a < 2 ^ 38"
    unfolding word_le_nat_alt M by simp linarith
  also have "\<dots> \<longleftrightarrow> take_bit 38 a = a"
    by (metis take_bit_nat_eq_self_iff unsigned_take_bit_eq unsigned_word_eqI)
  also have "\<dots> \<longleftrightarrow> \<not> bit a 38"
  proof
    assume "take_bit 38 a = a"
    then show "\<not> bit a 38" by (metis bit_take_bit_iff less_irrefl)
  next
    assume top: "\<not> bit a 38"
    have "i < 38" if "bit a i" for i
      using assms [OF that] top that by (cases "i = 38") auto
    then show "take_bit 38 a = a" by (rule take_bit_eq_selfI)
  qed
  finally show ?thesis .
qed

lemma unat_drop_bit: "unat (drop_bit k w) = unat w div 2 ^ k" for w :: usize
  using unsigned_less [of w, where 'a = nat] by (simp only: unsigned_drop_bit_eq) (simp add: drop_bit_eq_div take_bit_eq_mod)

lemma unat_take_bit: "unat (take_bit k w) = unat w mod 2 ^ k" for w :: usize
  by (simp only: unsigned_take_bit_eq) (simp add: take_bit_eq_mod)

text \<open>The three table indices of a page number put it together again.\<close>

lemma vpn_indices:
  fixes n :: usize
  assumes "unat n < 2 ^ 27"
  shows "unat n = unat (take_bit 9 (drop_bit 18 n)) * 2 ^ 18 + unat (take_bit 9 (drop_bit 9 n)) * 2 ^ 9
      + unat (take_bit 9 n)"
proof -
  have d: "unat (take_bit 9 (drop_bit k n)) = unat n div 2 ^ k mod 2 ^ 9" for k
    by (simp only: unat_take_bit unat_drop_bit)
  have "unat n div 2 ^ 18 < 2 ^ 9" using assms by (simp add: less_mult_imp_div_less)
  then have "unat n div 2 ^ 18 mod 2 ^ 9 = unat n div 2 ^ 9 div 2 ^ 9" by (simp flip: div_mult2_eq)
  then have "unat n = unat n div 2 ^ 18 mod 2 ^ 9 * 2 ^ 18 + unat n div 2 ^ 9 mod 2 ^ 9 * 2 ^ 9 + unat n mod 2 ^ 9"
  proof -
    define q t where "q = unat n div 512" and "t = q div 512"
    have "unat n = q * 512 + unat n mod 512" "q = t * 512 + q mod 512" by (simp_all add: q_def t_def)
    then have "unat n = t * 262144 + q mod 512 * 512 + unat n mod 512" by linarith
    with \<open>unat n div 2 ^ 18 mod 2 ^ 9 = _\<close> show ?thesis by (simp add: q_def t_def)
  qed
  then show ?thesis using d [of 0] by (simp only: d drop_bit_0 power_0 div_by_1 id_apply)
qed

lemma vaddr_floor_bound: "unat (vaddr_floor sv39 (vaddr_new sv39 v)) < 2 ^ 27"
proof -
  have "unat (vaddr_new sv39 v) < 2 ^ 39"
    unfolding vaddr_new_def sv39_bits and_vm_mask unat_take_bit by simp
  then show ?thesis
    by (simp only: vaddr_floor_def unat_drop_bit sv_simps) (simp add: less_mult_imp_div_less)
qed

lemma vaddr_parts:
  assumes a_def: "a = vaddr_new sv39 v"
  shows "vaddr_val sv39 a = signed_take_bit 38 v"
    "vaddr_new sv39 (vaddr_val sv39 a) = a"
    "vaddr_add sv39 (vpn_base sv39 (vaddr_floor sv39 a)) (vaddr_offset sv39 a) = a"
    "\<exists>i2 i1 i0. index_in sv39 (vaddr_floor sv39 a) 2 = Inr i2 \<and> index_in sv39 (vaddr_floor sv39 a) 1 = Inr i1 \<and>
       index_in sv39 (vaddr_floor sv39 a) 0 = Inr i0 \<and> i2 < 512 \<and> i1 < 512 \<and> i0 < 512 \<and>
       unat (vaddr_floor sv39 a) = i2 * 2 ^ 18 + i1 * 2 ^ 9 + i0"
proof -
  have ba: "bit a i \<longleftrightarrow> i < 39 \<and> bit v i" for i by (simp add: a_def bit_vaddr_new)
  have le: "a \<le> IGNORED_MASK sv39 \<longleftrightarrow> \<not> bit v 38"
    using vaddr_le_IGNORED [of a] ba by simp
  have t: "i < 38" if "bit v i" "i < 39" "\<not> bit v 38" for i
    using that by (cases "i = 38") auto
  have t2: "i = 38" if "38 \<le> i" "i < 39" for i :: nat using that by simp
  show val: "vaddr_val sv39 a = signed_take_bit 38 v"
    by (rule bit_word_eqI)
       (auto dest: t simp: vaddr_val_def le ba bit_simps bit_IGNORED_MASK bit_signed_take_bit_iff min_def less_Suc_eq)
  show "vaddr_new sv39 (vaddr_val sv39 a) = a"
    unfolding val by (rule bit_word_eqI) (auto dest: t2 simp: bit_vaddr_new ba bit_signed_take_bit_iff min_def)
  have "vpn_base sv39 (vaddr_floor sv39 a) + vaddr_offset sv39 a = vpn_base sv39 (vaddr_floor sv39 a) OR vaddr_offset sv39 a"
    by (rule disjunctive_add) (auto simp: vpn_base_def bit_vaddr_new vaddr_offset_def bit_simps)
  also have "\<dots> = a"
    by (rule bit_word_eqI) (auto simp: vpn_base_def bit_vaddr_new vaddr_offset_def vaddr_floor_def bit_simps ba)
  finally show "vaddr_add sv39 (vpn_base sv39 (vaddr_floor sv39 a)) (vaddr_offset sv39 a) = a"
    unfolding vaddr_add_def
    by (simp only:) (rule bit_word_eqI, auto simp: bit_vaddr_new ba)
  have "unat (vaddr_floor sv39 a) < 2 ^ 27" unfolding a_def by (rule vaddr_floor_bound)
  from vpn_indices [OF this] show "\<exists>i2 i1 i0. index_in sv39 (vaddr_floor sv39 a) 2 = Inr i2 \<and> index_in sv39 (vaddr_floor sv39 a) 1 = Inr i1 \<and>
       index_in sv39 (vaddr_floor sv39 a) 0 = Inr i0 \<and> i2 < 512 \<and> i1 < 512 \<and> i0 < 512 \<and>
       unat (vaddr_floor sv39 a) = i2 * 2 ^ 18 + i1 * 2 ^ 9 + i0"
    by (simp add: index_in_sv39 unat_take_bit)
qed

text \<open>
  Virtual addresses of the 39-bit scheme. \<^verbatim>\<open>VAddr::new\<close> followed by \<^verbatim>\<open>val\<close> makes any integer
  canonical, that is, sign-extends bit 38; doing it again changes nothing; an address is the base of its
  page plus its offset in the page; and the indices under which \<^verbatim>\<open>index_in\<close> looks the page up in the
  tables of the three levels are its three 9-bit digits, all in range, and determine it.
\<close>

theorem vaddr_canonical:
  "vaddr_val sv39 (vaddr_new sv39 v) = signed_take_bit 38 v \<and>
   vaddr_new sv39 (vaddr_val sv39 (vaddr_new sv39 v)) = (vaddr_new sv39 v) \<and>
   vaddr_add sv39 (vpn_base sv39 (vaddr_floor sv39 (vaddr_new sv39 v))) (vaddr_offset sv39 (vaddr_new sv39 v)) = (vaddr_new sv39 v) \<and>
   (\<exists>i2 i1 i0. index_in sv39 (vaddr_floor sv39 (vaddr_new sv39 v)) 2 = Inr i2 \<and> index_in sv39 (vaddr_floor sv39 (vaddr_new sv39 v)) 1 = Inr i1 \<and>
       index_in sv39 (vaddr_floor sv39 (vaddr_new sv39 v)) 0 = Inr i0 \<and> i2 < 512 \<and> i1 < 512 \<and> i0 < 512 \<and>
       unat (vaddr_floor sv39 (vaddr_new sv39 v)) = i2 * 2 ^ 18 + i1 * 2 ^ 9 + i0)"
  using vaddr_parts [OF refl, of v] by blast

end
