(* ===== verification/Address_Space.thy ===== *)
theory Address_Space
  imports Page_Table Codec
begin

unbundle bit_operations_syntax

text \<open>
  Page tables in memory and address spaces, from \<^verbatim>\<open>patches/page-table/src/table\<close> (the walks of \<^verbatim>\<open>mod.rs\<close>
  and \<^verbatim>\<open>visit.rs\<close>), \<^verbatim>\<open>kernel-vm/src\<close> (the trait \<^verbatim>\<open>PageManager\<close>, \<^verbatim>\<open>AddressSpace\<close>, its \<^verbatim>\<open>Mapper\<close> and \<^verbatim>\<open>Visitor\<close>)
  and the \<^verbatim>\<open>Sv39Manager\<close> of the kernels (here \<^verbatim>\<open>ch8/src/main.rs\<close>). Physical memory is a function from page
  numbers to pages of 512 words; the kernel runs identity-mapped, so a pointer to a page is the page's
  address. The buddy allocator behind \<^verbatim>\<open>kernel-alloc\<close> is a parameter.
\<close>

section \<open>Physical memory and the allocator\<close>

record 'h phys =
  frames :: "usize \<Rightarrow> u64 list"
  heap :: 'h

text \<open>\<^verbatim>\<open>allocate_layout\<close> of the buddy allocator: size and alignment in bytes, no result when it is out of memory.\<close>

type_synonym 'h buddy = "usize \<Rightarrow> usize \<Rightarrow> 'h \<Rightarrow> (usize \<times> 'h) option"

definition global_alloc :: "'h buddy \<Rightarrow> usize \<Rightarrow> usize \<Rightarrow> 'h phys \<Rightarrow> (usize \<times> 'h phys) res" where
  "global_alloc bd sz align ph =
     (case bd sz align (heap ph) of Some (ptr, h) \<Rightarrow> Inr (ptr, ph\<lparr>heap := h\<rparr>) | None \<Rightarrow> Inl Explicit_Panic)"

definition page_of :: "usize \<Rightarrow> usize" where
  "page_of ptr = drop_bit 12 ptr"

text \<open>The \<^verbatim>\<open>i\<close>-th of \<^verbatim>\<open>n\<close> pages that start at page \<^verbatim>\<open>p\<close>.\<close>

definition in_pages :: "usize \<Rightarrow> usize \<Rightarrow> usize \<Rightarrow> bool" where
  "in_pages p n k \<longleftrightarrow> unat (k - p) < unat n"

definition zero_page :: "u64 list" where
  "zero_page = replicate 512 0"

definition zero_pages :: "usize \<Rightarrow> usize \<Rightarrow> 'h phys \<Rightarrow> 'h phys" where
  "zero_pages p n ph = ph\<lparr>frames := (\<lambda>k. if in_pages p n k then zero_page else frames ph k)\<rparr>"

definition page_bytes :: "u8 list \<Rightarrow> nat \<Rightarrow> u64 list" where
  "page_bytes bs k = of_le_array 8 512 (drop (4096 * k) bs)"

definition store_pages :: "usize \<Rightarrow> usize \<Rightarrow> u8 list \<Rightarrow> 'h phys \<Rightarrow> 'h phys" where
  "store_pages p n bs ph =
     ph\<lparr>frames := (\<lambda>k. if in_pages p n k then page_bytes bs (unat (k - p)) else frames ph k)\<rparr>"

definition copy_pages :: "usize \<Rightarrow> usize \<Rightarrow> usize \<Rightarrow> 'h phys \<Rightarrow> 'h phys" where
  "copy_pages src dst n ph =
     ph\<lparr>frames := (\<lambda>k. if in_pages dst n k then frames ph (src + (k - dst)) else frames ph k)\<rparr>"

section \<open>The page manager\<close>

record ('m, 'h) page_manager_ops =
  pm_new_root :: "'h phys \<Rightarrow> ('m \<times> 'h phys) res"
  pm_root_ptr :: "'m \<Rightarrow> usize"
  pm_root_ppn :: "'m \<Rightarrow> ppn"
  pm_p_to_v :: "'m \<Rightarrow> ppn \<Rightarrow> usize"
  pm_v_to_p :: "'m \<Rightarrow> usize \<Rightarrow> ppn"
  pm_check_owned :: "'m \<Rightarrow> pte \<Rightarrow> bool"
  pm_allocate :: "'m \<Rightarrow> usize \<Rightarrow> vm_flags \<Rightarrow> 'h phys \<Rightarrow> (usize \<times> vm_flags \<times> 'h phys) res"
  pm_deallocate :: "'m \<Rightarrow> pte \<Rightarrow> usize \<Rightarrow> 'h phys \<Rightarrow> (usize \<times> 'h phys) res"
  pm_drop_root :: "'m \<Rightarrow> 'h phys \<Rightarrow> 'h phys res"

text \<open>\<^verbatim>\<open>Sv39Manager\<close> wraps the pointer to the root table.\<close>

type_synonym sv39_manager = usize

definition OWNED :: vm_flags where
  "OWNED = push_bit 8 1"

text \<open>\<^verbatim>\<open>alloc_zeroed\<close> for \<^verbatim>\<open>count << PAGE_BITS\<close> bytes aligned to a page.\<close>

definition page_alloc :: "'h buddy \<Rightarrow> usize \<Rightarrow> 'h phys \<Rightarrow> (usize \<times> 'h phys) res" where
  "page_alloc bd count ph =
     rbind (global_alloc bd (push_bit 12 count) (push_bit 12 1) ph) (\<lambda>(ptr, ph1).
       Inr (ptr, zero_pages (page_of ptr) count ph1))"

definition nonnull :: "usize \<Rightarrow> usize res" where
  "nonnull ptr = (if ptr = 0 then Inl Unwrap_None else Inr ptr)"

definition sv39_new_root :: "'h buddy \<Rightarrow> 'h phys \<Rightarrow> (sv39_manager \<times> 'h phys) res" where
  "sv39_new_root bd ph =
     rbind (page_alloc bd 1 ph) (\<lambda>(ptr, ph1). rbind (nonnull ptr) (\<lambda>ptr. Inr (ptr, ph1)))"

definition sv39_root_ppn :: "sv39_manager \<Rightarrow> ppn" where
  "sv39_root_ppn mgr = drop_bit (PAGE_BITS sv39) mgr"

definition sv39_p_to_v :: "sv39_manager \<Rightarrow> ppn \<Rightarrow> usize" where
  "sv39_p_to_v mgr n = vaddr_val sv39 (vpn_base sv39 n)"

definition sv39_v_to_p :: "sv39_manager \<Rightarrow> usize \<Rightarrow> ppn" where
  "sv39_v_to_p mgr ptr = vaddr_floor sv39 (vaddr_new sv39 ptr)"

definition sv39_check_owned :: "sv39_manager \<Rightarrow> pte \<Rightarrow> bool" where
  "sv39_check_owned mgr p \<longleftrightarrow> vm_flags_contains (pte_flags sv39 p) OWNED"

definition sv39_allocate ::
    "'h buddy \<Rightarrow> sv39_manager \<Rightarrow> usize \<Rightarrow> vm_flags \<Rightarrow> 'h phys \<Rightarrow> (usize \<times> vm_flags \<times> 'h phys) res" where
  "sv39_allocate bd mgr len flags ph =
     rbind (page_alloc bd len ph) (\<lambda>(ptr, ph1).
     rbind (nonnull ptr) (\<lambda>ptr. Inr (ptr, flags OR OWNED, ph1)))"

definition sv39_manage :: "'h buddy \<Rightarrow> (sv39_manager, 'h) page_manager_ops" where
  "sv39_manage bd =
     \<lparr>pm_new_root = sv39_new_root bd, pm_root_ptr = (\<lambda>mgr. mgr), pm_root_ppn = sv39_root_ppn,
      pm_p_to_v = sv39_p_to_v, pm_v_to_p = sv39_v_to_p, pm_check_owned = sv39_check_owned,
      pm_allocate = sv39_allocate bd, pm_deallocate = (\<lambda>_ _ _ _. Inl Todo),
      pm_drop_root = (\<lambda>_ _. Inl Todo)\<rparr>"

section \<open>Page tables and walks\<close>

text \<open>A \<^verbatim>\<open>PageTable\<close> borrows the page of entries its pointer designates.\<close>

record page_table =
  pt_ptr :: usize
  pt_base :: vpn
  pt_level :: nat

definition from_raw_parts :: "mmu_meta \<Rightarrow> usize \<Rightarrow> vpn \<Rightarrow> nat \<Rightarrow> page_table res" where
  "from_raw_parts m ptr base level =
     rbind (vec_index (LEVEL_BITS m) level) (\<lambda>_.
     rbind (vpn_floor m base level) (\<lambda>b. Inr \<lparr>pt_ptr = ptr, pt_base = b, pt_level = level\<rparr>))"

definition from_root :: "mmu_meta \<Rightarrow> usize \<Rightarrow> page_table res" where
  "from_root m root = from_raw_parts m root 0 (MAX_LEVEL m)"

definition pt_range :: "mmu_meta \<Rightarrow> page_table \<Rightarrow> (vpn \<times> vpn) res" where
  "pt_range m t =
     rbind (pages_in_table m (pt_level t)) (\<lambda>n. Inr (pt_base t, page_add (pt_base t) n))"

definition pt_index :: "(usize \<Rightarrow> u64 list) \<Rightarrow> page_table \<Rightarrow> nat \<Rightarrow> pte res" where
  "pt_index fr t i = vec_index (fr (page_of (pt_ptr t))) i"

definition pt_index_mut :: "page_table \<Rightarrow> nat \<Rightarrow> pte \<Rightarrow> 'h phys \<Rightarrow> 'h phys res" where
  "pt_index_mut t i p ph =
     (let page = page_of (pt_ptr t) in
      if i < length (frames ph page)
      then Inr (ph\<lparr>frames := (frames ph)(page := (frames ph page)[i := p])\<rparr>)
      else Inl Index_Out_Of_Bounds)"

text \<open>The table below entry \<^verbatim>\<open>i\<close>, as both walks construct it.\<close>

definition sub_table :: "mmu_meta \<Rightarrow> page_table \<Rightarrow> vpn \<Rightarrow> nat \<Rightarrow> usize \<Rightarrow> page_table res" where
  "sub_table m t start i ptr =
     rbind (pages_in_table m (pt_level t - 1)) (\<lambda>n.
       from_raw_parts m ptr (page_add start (of_nat i * n)) (pt_level t - 1))"

text \<open>
  A computation that may run forever (no value) or panic. Both walks loop until the target leaves
  the table, and a visitor may keep moving the target.
\<close>

definition obind :: "'a res option \<Rightarrow> ('a \<Rightarrow> 'b res option) \<Rightarrow> 'b res option" where
  "obind r f = Option.bind r (\<lambda>x. case x of Inl e \<Rightarrow> Some (Inl e) | Inr y \<Rightarrow> f y)"

lemma obind_simps [simp]:
  "obind None f = None" "obind (Some (Inl e)) f = Some (Inl e)" "obind (Some (Inr x)) f = f x"
  by (simp_all add: obind_def)

lemma obind_assoc: "obind (obind r f) g = obind r (\<lambda>x. obind (f x) g)"
  by (cases r) (simp_all add: obind_def split: sum.splits)

lemma obind_mono [partial_function_mono]:
  assumes "mono_option B" "\<And>y. mono_option (\<lambda>f. C y f)"
  shows "mono_option (\<lambda>f. obind (B f) (\<lambda>y. C y f))"
  unfolding obind_def
proof (rule bind_mono [OF assms(1)])
  show "mono_option (\<lambda>f. case x of Inl e \<Rightarrow> Some (Inl e) | Inr y \<Rightarrow> C y f)" for x
    by (cases x) (simp_all add: assms(2) option.const_mono)
qed

record 'v visitor_ops =
  v_arrive :: "pte \<Rightarrow> pos \<Rightarrow> 'v \<Rightarrow> (pos \<times> 'v) res"
  v_meet :: "nat \<Rightarrow> pte \<Rightarrow> pos \<Rightarrow> 'v \<Rightarrow> (usize option \<times> 'v) res"
  v_block :: "nat \<Rightarrow> pte \<Rightarrow> pos \<Rightarrow> 'v \<Rightarrow> (pos \<times> 'v) res"

partial_function (option) walk_inner ::
    "mmu_meta \<Rightarrow> 'v visitor_ops \<Rightarrow> (usize \<Rightarrow> u64 list) \<Rightarrow> page_table \<Rightarrow> pos \<Rightarrow> 'v \<Rightarrow> (pos \<times> 'v) res option" where
  "walk_inner m V fr t target v =
     obind (Some (pt_range m t)) (\<lambda>(start, fin).
       if pt_level t \<ge> pos_level target \<and> start \<le> pos_vpn target \<and> pos_vpn target < fin then
         obind (Some (index_in m (pos_vpn target) (pt_level t))) (\<lambda>index.
         obind (Some (pt_index fr t index)) (\<lambda>p.
           if pt_level t > pos_level target then
             if pte_is_valid p \<and> \<not> pte_is_leaf m p then
               obind (Some (v_meet V (pt_level t) p target v)) (\<lambda>(r, v1).
                 case r of
                   Some ptr \<Rightarrow>
                     obind (Some (sub_table m t start index ptr)) (\<lambda>t1.
                     obind (walk_inner m V fr t1 target v1) (\<lambda>(target2, v2).
                       walk_inner m V fr t target2 v2))
                 | None \<Rightarrow> walk_inner m V fr t (pos_stop m) v1)
             else
               obind (Some (v_block V (pt_level t) p target v)) (\<lambda>(target1, v1).
                 walk_inner m V fr t target1 v1)
           else
             obind (Some (v_arrive V p target v)) (\<lambda>(target1, v1).
               walk_inner m V fr t target1 v1)))
       else Some (Inr (target, v)))"

datatype update = Target pos | New_Table pte usize

record ('v, 'h) decorator_ops =
  d_arrive :: "pte \<Rightarrow> pos \<Rightarrow> 'v \<times> 'h phys \<Rightarrow> (pte \<times> pos \<times> 'v \<times> 'h phys) res"
  d_meet :: "nat \<Rightarrow> pte \<Rightarrow> pos \<Rightarrow> 'v \<times> 'h phys \<Rightarrow> (usize option \<times> 'v \<times> 'h phys) res"
  d_block :: "nat \<Rightarrow> pte \<Rightarrow> pos \<Rightarrow> 'v \<times> 'h phys \<Rightarrow> (update \<times> 'v \<times> 'h phys) res"

partial_function (option) walk_inner_mut ::
    "mmu_meta \<Rightarrow> ('v, 'h) decorator_ops \<Rightarrow> page_table \<Rightarrow> pos \<Rightarrow> 'v \<times> 'h phys \<Rightarrow>
     (pos \<times> 'v \<times> 'h phys) res option" where
  "walk_inner_mut m V t target st =
     obind (Some (pt_range m t)) (\<lambda>(start, fin).
       if pt_level t \<ge> pos_level target \<and> start \<le> pos_vpn target \<and> pos_vpn target < fin then
         obind (Some (index_in m (pos_vpn target) (pt_level t))) (\<lambda>index.
         obind (Some (pt_index (frames (snd st)) t index)) (\<lambda>p.
           if pt_level t > pos_level target then
             if pte_is_valid p \<and> \<not> pte_is_leaf m p then
               obind (Some (d_meet V (pt_level t) p target st)) (\<lambda>(r, st1).
                 case r of
                   Some ptr \<Rightarrow>
                     obind (Some (sub_table m t start index ptr)) (\<lambda>t1.
                     obind (walk_inner_mut m V t1 target st1) (\<lambda>(target2, st2).
                       walk_inner_mut m V t target2 st2))
                 | None \<Rightarrow> walk_inner_mut m V t (pos_stop m) st1)
             else
               obind (Some (d_block V (pt_level t) p target st)) (\<lambda>(u, v1, ph1).
                 case u of
                   Target new \<Rightarrow> walk_inner_mut m V t new (v1, ph1)
                 | New_Table new ptr \<Rightarrow>
                     obind (Some (pt_index_mut t index new ph1)) (\<lambda>ph2.
                     obind (Some (sub_table m t start index ptr)) (\<lambda>t1.
                     obind (walk_inner_mut m V t1 target (v1, ph2)) (\<lambda>(target2, st2).
                       walk_inner_mut m V t target2 st2))))
           else
             obind (Some (d_arrive V p target st)) (\<lambda>(new, target1, v1, ph1).
             obind (Some (pt_index_mut t index new ph1)) (\<lambda>ph2.
               walk_inner_mut m V t target1 (v1, ph2)))))
       else Some (Inr (target, st)))"

section \<open>Address spaces\<close>

record 'm address_space =
  areas :: "(vpn \<times> vpn) list"
  page_manager :: 'm

definition space_new :: "('m, 'h) page_manager_ops \<Rightarrow> 'h phys \<Rightarrow> ('m address_space \<times> 'h phys) res" where
  "space_new M ph =
     rbind (pm_new_root M ph) (\<lambda>(mgr, ph1). Inr (\<lparr>areas = [], page_manager = mgr\<rparr>, ph1))"

definition space_root_ppn :: "('m, 'h) page_manager_ops \<Rightarrow> 'm address_space \<Rightarrow> ppn" where
  "space_root_ppn M sp = pm_root_ppn M (page_manager sp)"

definition space_root :: "mmu_meta \<Rightarrow> ('m, 'h) page_manager_ops \<Rightarrow> 'm address_space \<Rightarrow> page_table res" where
  "space_root m M sp = from_root m (pm_root_ptr M (page_manager sp))"

text \<open>The read-only visitor: it stops at its target and remembers the entry there when it is valid.\<close>

definition space_visitor ::
    "mmu_meta \<Rightarrow> ('m, 'h) page_manager_ops \<Rightarrow> 'm address_space \<Rightarrow> pte option visitor_ops" where
  "space_visitor m M sp =
     \<lparr>v_arrive = (\<lambda>p _ ans. Inr (pos_stop m, if pte_is_valid p then Some p else ans)),
      v_meet = (\<lambda>_ p _ ans. Inr (Some (pm_p_to_v M (page_manager sp) (pte_ppn m p)), ans)),
      v_block = (\<lambda>_ _ _ ans. Inr (pos_stop m, ans))\<rparr>"

definition space_visit ::
    "mmu_meta \<Rightarrow> ('m, 'h) page_manager_ops \<Rightarrow> 'm address_space \<Rightarrow> vpn \<Rightarrow> 'h phys \<Rightarrow> pte option res option" where
  "space_visit m M sp n ph =
     obind (Some (space_root m M sp)) (\<lambda>root.
     obind (walk_inner m (space_visitor m M sp) (frames ph) root \<lparr>pos_vpn = n, pos_level = 0\<rparr> None)
       (\<lambda>(_, ans). Some (Inr ans)))"

definition translate ::
    "mmu_meta \<Rightarrow> ('m, 'h) page_manager_ops \<Rightarrow> 'm address_space \<Rightarrow> vaddr \<Rightarrow> vm_flags \<Rightarrow> 'h phys \<Rightarrow>
     usize option res option" where
  "translate m M sp a flags ph =
     obind (space_visit m M sp (vaddr_floor m a) ph) (\<lambda>ans.
       Some (Inr (case ans of
           Some p \<Rightarrow>
             if vm_flags_contains (pte_flags m p) flags
             then Some (pm_p_to_v M (page_manager sp) (pte_ppn m p) + vaddr_offset m a) else None
         | None \<Rightarrow> None)))"

text \<open>The mapper: the pages still to map, the flags and whether it is done.\<close>

record mapper =
  mp_start :: ppn
  mp_end :: ppn
  mp_flags :: vm_flags
  mp_done :: bool

definition mapper_arrive ::
    "mmu_meta \<Rightarrow> pte \<Rightarrow> pos \<Rightarrow> mapper \<times> 'h phys \<Rightarrow> (pte \<times> pos \<times> mapper \<times> 'h phys) res" where
  "mapper_arrive m p target st =
     (let (mp, ph) = st in
      rbind (rassert (\<not> pte_is_valid p)) (\<lambda>_.
        let new = build_pte m (mp_flags mp) (mp_start mp);
            mp1 = mp\<lparr>mp_start := page_add (mp_start mp) 1\<rparr>
        in if mp_start mp1 = mp_end mp1 then Inr (new, pos_stop m, mp1\<lparr>mp_done := True\<rparr>, ph)
           else rbind (pos_next m target) (\<lambda>target1. Inr (new, target1, mp1, ph))))"

definition mapper_meet ::
    "mmu_meta \<Rightarrow> ('m, 'h) page_manager_ops \<Rightarrow> 'm \<Rightarrow> nat \<Rightarrow> pte \<Rightarrow> pos \<Rightarrow> mapper \<times> 'h phys \<Rightarrow>
     (usize option \<times> mapper \<times> 'h phys) res" where
  "mapper_meet m M mgr level p target st =
     Inr (if pm_check_owned M mgr p then Some (pm_p_to_v M mgr (pte_ppn m p)) else None, st)"

definition mapper_block ::
    "mmu_meta \<Rightarrow> ('m, 'h) page_manager_ops \<Rightarrow> 'm \<Rightarrow> nat \<Rightarrow> pte \<Rightarrow> pos \<Rightarrow> mapper \<times> 'h phys \<Rightarrow>
     (update \<times> mapper \<times> 'h phys) res" where
  "mapper_block m M mgr level p target st =
     (let (mp, ph) = st in
      rbind (rassert (\<not> pte_is_valid p)) (\<lambda>_.
      rbind (pm_allocate M mgr 1 VALID_FLAG ph) (\<lambda>(page, flags, ph1).
        Inr (New_Table (build_pte m flags (pm_v_to_p M mgr page)) page, mp, ph1))))"

definition mapper_ops :: "mmu_meta \<Rightarrow> ('m, 'h) page_manager_ops \<Rightarrow> 'm \<Rightarrow> (mapper, 'h) decorator_ops" where
  "mapper_ops m M mgr =
     \<lparr>d_arrive = mapper_arrive m, d_meet = mapper_meet m M mgr, d_block = mapper_block m M mgr\<rparr>"

definition map_extern ::
    "mmu_meta \<Rightarrow> ('m, 'h) page_manager_ops \<Rightarrow> vpn \<Rightarrow> vpn \<Rightarrow> ppn \<Rightarrow> vm_flags \<Rightarrow>
     'm address_space \<Rightarrow> 'h phys \<Rightarrow> ('m address_space \<times> 'h phys) res option" where
  "map_extern m M start fin pbase flags sp ph =
     (let sp1 = sp\<lparr>areas := areas sp @ [(start, fin)]\<rparr> in
      if fin < start then Some (Inl Arith_Overflow)
      else let count = fin - start in
        obind (Some (space_root m M sp1)) (\<lambda>root.
        obind (walk_inner_mut m (mapper_ops m M (page_manager sp1)) root \<lparr>pos_vpn = start, pos_level = 0\<rparr>
                 (\<lparr>mp_start = pbase, mp_end = page_add pbase count, mp_flags = flags, mp_done = False\<rparr>, ph))
          (\<lambda>(_, mp, ph1). if mp_done mp then Some (Inr (sp1, ph1)) else Some (Inl Todo))))"

text \<open>\<^verbatim>\<open>map\<close>: new pages, zeroes, the data at \<^verbatim>\<open>offset\<close>, zeroes, and then the mapping.\<close>

definition space_map ::
    "mmu_meta \<Rightarrow> ('m, 'h) page_manager_ops \<Rightarrow> vpn \<Rightarrow> vpn \<Rightarrow> u8 list \<Rightarrow> nat \<Rightarrow> vm_flags \<Rightarrow>
     'm address_space \<Rightarrow> 'h phys \<Rightarrow> ('m address_space \<times> 'h phys) res option" where
  "space_map m M start fin data off flags sp ph =
     (if fin < start then Some (Inl Arith_Overflow)
      else let count = fin - start; sz = push_bit (PAGE_BITS m) count in
        obind (Some (rassert (length data + off \<le> unat sz))) (\<lambda>_.
        obind (Some (pm_allocate M (page_manager sp) count flags ph)) (\<lambda>(page, flags1, ph1).
          let bytes = replicate off 0 @ data @ replicate (unat sz - off - length data) 0;
              ph2 = store_pages (page_of page) count bytes ph1
          in map_extern m M start fin (pm_v_to_p M (page_manager sp) page) flags1 sp ph2)))"

text \<open>
  \<^verbatim>\<open>cloneself\<close>: every area of the address space is copied into new pages, with the flags of its first
  page, and mapped at the same place of the new address space.
\<close>

definition clone_area ::
    "mmu_meta \<Rightarrow> ('m, 'h) page_manager_ops \<Rightarrow> 'm address_space \<Rightarrow> vpn \<times> vpn \<Rightarrow>
     'm address_space \<times> 'h phys \<Rightarrow> ('m address_space \<times> 'h phys) res option" where
  "clone_area m M sp area st =
     (let (start, fin) = area; (new, ph) = st in
      obind (space_visit m M sp start ph) (\<lambda>ans.
      obind (Some (unwrap (case ans of Some p \<Rightarrow> if pte_is_valid p then Some p else None | None \<Rightarrow> None))) (\<lambda>p.
        if fin < start then Some (Inl Arith_Overflow)
        else let count = fin - start; src = pm_p_to_v M (page_manager sp) (pte_ppn m p) in
          obind (Some (pm_allocate M (page_manager new) count (pte_flags m p) ph)) (\<lambda>(paddr, flags1, ph1).
            map_extern m M start fin (pm_v_to_p M (page_manager new) paddr) flags1 new
              (copy_pages (page_of src) (page_of paddr) count ph1)))))"

fun clone_areas ::
    "mmu_meta \<Rightarrow> ('m, 'h) page_manager_ops \<Rightarrow> 'm address_space \<Rightarrow> (vpn \<times> vpn) list \<Rightarrow>
     'm address_space \<times> 'h phys \<Rightarrow> ('m address_space \<times> 'h phys) res option" where
  "clone_areas m M sp [] st = Some (Inr st)"
| "clone_areas m M sp (area # rest) st = obind (clone_area m M sp area st) (clone_areas m M sp rest)"

definition cloneself ::
    "mmu_meta \<Rightarrow> ('m, 'h) page_manager_ops \<Rightarrow> 'm address_space \<Rightarrow> 'm address_space \<Rightarrow> 'h phys \<Rightarrow>
     ('m address_space \<times> 'h phys) res option" where
  "cloneself m M sp new ph = clone_areas m M sp (areas sp) (new, ph)"

end
