(* ===== verification/Ch8_Process.thy ===== *)
theory Ch8_Process
  imports Syscall Signals Sync_Prims Task_Thread File_Ops Address_Space
begin

unbundle bit_operations_syntax

text \<open>
  Processes and threads of the chapter 8 kernel, from \<^verbatim>\<open>ch8/src/process.rs\<close>, with the state of that kernel:
  the processor (theory \<^verbatim>\<open>Task_Thread\<close>), physical memory and the kernel's address space (theory
  \<^verbatim>\<open>Address_Space\<close>), the disk behind the file system (theory \<^verbatim>\<open>File_Ops\<close>), the identifier counters and
  the console. An executable is given by what the \<^verbatim>\<open>xmas_elf\<close> parser returns for it; the parser and the
  allocator are parameters.
\<close>

section \<open>Threads, processes and the kernel state\<close>

record thread =
  thr_tid :: thread_id
  thr_context :: foreign_context

text \<open>
  The locks of a process are reached through its own lists only, so an \<^verbatim>\<open>Arc\<close> is its contents; a file
  handle sits behind a spin lock that is never held across a system call.
\<close>

record process =
  proc_pid :: proc_id
  address_space :: "sv39_manager address_space"
  fd_table :: "file_handle option list"
  proc_signal :: signal_impl
  semaphore_list :: "semaphore option list"
  mutex_list :: "mutex_blocking option list"
  condvar_list :: "condvar option list"

record program_header =
  seg_load :: bool
  seg_offset :: usize
  seg_file_size :: usize
  seg_virtual_addr :: usize
  seg_mem_size :: usize
  seg_execute :: bool
  seg_write :: bool
  seg_read :: bool

record elf_file =
  elf_header64 :: bool
  elf_executable :: bool
  elf_riscv :: bool
  elf_entry :: usize
  elf_programs :: "program_header list"
  elf_input :: "u8 list"

text \<open>What the kernel is linked against: the allocator, the block device with its file system, the ELF parser.\<close>

record ('d, 'h) kenv =
  ke_buddy :: "'h buddy"
  ke_dev :: "'d device_ops"
  ke_efs :: efs
  ke_root :: vfs_inode
  ke_elf :: "u8 list \<Rightarrow> elf_file option"

record ('d, 'h) kernel =
  k_processor :: "(thread thread_manager, process proc_table) pthread_manager"
  k_phys :: "'h phys"
  k_kspace :: "sv39_manager address_space"
  k_disk :: "'d bstate"
  k_pid :: usize
  k_tid :: usize
  k_stdout :: "u8 list"
  k_stdin :: "usize list"
  k_time :: usize

abbreviation kmgr :: "('d, 'h) kenv \<Rightarrow> (sv39_manager, 'h) page_manager_ops" where
  "kmgr E \<equiv> sv39_manage (ke_buddy E)"

section \<open>Building a process\<close>

definition thread_new :: "usize \<Rightarrow> local_context \<Rightarrow> ('d, 'h) kernel \<Rightarrow> thread \<times> ('d, 'h) kernel" where
  "thread_new satp ctx k =
     (let (i, next) = thread_id_new (k_tid k) in
      (\<lparr>thr_tid = i, thr_context = \<lparr>fcontext = ctx, fsatp = satp\<rparr>\<rparr>, k\<lparr>k_tid := next\<rparr>))"

definition satp_of :: "sv39_manager address_space \<Rightarrow> usize" where
  "satp_of sp = push_bit 60 8 OR sv39_root_ppn (page_manager sp)"

text \<open>\<^verbatim>\<open>map_portal\<close>: the entry of the root table that covers the portal page is shared with the kernel.\<close>

definition PROTAL_TRANSIT :: vpn where
  "PROTAL_TRANSIT = vpn_MAX sv39"

definition map_portal :: "sv39_manager address_space \<Rightarrow> ('d, 'h) kernel \<Rightarrow> ('d, 'h) kernel res" where
  "map_portal sp k =
     rbind (index_in sv39 PROTAL_TRANSIT (MAX_LEVEL sv39)) (\<lambda>i.
     rbind (from_root sv39 (page_manager (k_kspace k))) (\<lambda>kroot.
     rbind (pt_index (frames (k_phys k)) kroot i) (\<lambda>p.
     rbind (from_root sv39 (page_manager sp)) (\<lambda>root.
     rbind (pt_index_mut root i p (k_phys k)) (\<lambda>ph. Inr (k\<lparr>k_phys := ph\<rparr>))))))"

definition PAGE_MASK :: usize where
  "PAGE_MASK = push_bit 12 1 - 1"

definition segment_flags :: "program_header \<Rightarrow> vm_flags" where
  "segment_flags seg = flags_from_str
     [0x55, if seg_execute seg then 0x58 else 0x5F, if seg_write seg then 0x57 else 0x5F,
      if seg_read seg then 0x52 else 0x5F, 0x56]"

definition slice_bytes :: "u8 list \<Rightarrow> usize \<Rightarrow> usize \<Rightarrow> u8 list res" where
  "slice_bytes bs off len =
     (if unat off \<le> length bs \<and> unat len \<le> length bs - unat off
      then Inr (take (unat len) (drop (unat off) bs)) else Inl Index_Out_Of_Bounds)"

text \<open>One turn of the loop over the program headers.\<close>

definition load_segment ::
    "('d, 'h) kenv \<Rightarrow> u8 list \<Rightarrow> program_header \<Rightarrow> sv39_manager address_space \<times> 'h phys \<Rightarrow>
     (sv39_manager address_space \<times> 'h phys) res" where
  "load_segment E input seg st =
     (if \<not> seg_load seg then Inr st
      else let (sp, ph) = st; off_file = seg_offset seg; off_mem = seg_virtual_addr seg in
        rbind (checked_usize_add off_mem (seg_mem_size seg)) (\<lambda>end_mem.
        rbind (rassert (off_file AND PAGE_MASK = off_mem AND PAGE_MASK)) (\<lambda>_.
        rbind (vaddr_ceil sv39 (vaddr_new sv39 end_mem)) (\<lambda>fin.
        rbind (slice_bytes input off_file (seg_file_size seg)) (\<lambda>data.
          finished (space_map sv39 (kmgr E) (vaddr_floor sv39 (vaddr_new sv39 off_mem)) fin data
            (unat (off_mem AND PAGE_MASK)) (segment_flags seg) sp ph))))))"

definition USER_STACK_FLAGS :: vm_flags where
  "USER_STACK_FLAGS = build_from_str [0x55, 0x5F, 0x57, 0x52, 0x56]"

definition from_elf ::
    "('d, 'h) kenv \<Rightarrow> elf_file \<Rightarrow> ('d, 'h) kernel \<Rightarrow> ((process \<times> thread) option \<times> ('d, 'h) kernel) res" where
  "from_elf E elf k =
     (if \<not> (elf_header64 elf \<and> elf_executable elf \<and> elf_riscv elf) then Inr (None, k)
      else
        rbind (space_new (kmgr E) (k_phys k)) (\<lambda>st0.
        rbind (rfold (load_segment E (elf_input elf)) (elf_programs elf) st0) (\<lambda>(sp1, ph1).
        rbind (page_alloc (ke_buddy E) 2 ph1) (\<lambda>(stack, ph2).
        rbind (finished (map_extern sv39 (kmgr E) (push_bit 26 1 - 2) (push_bit 26 1) (drop_bit 12 stack)
                 USER_STACK_FLAGS sp1 ph2)) (\<lambda>(sp2, ph3).
        rbind (map_portal sp2 (k\<lparr>k_phys := ph3\<rparr>)) (\<lambda>k1.
        rbind (ctx_set_sp (push_bit 38 1) (ctx_user (elf_entry elf))) (\<lambda>ctx.
          let (thr, k2) = thread_new (satp_of sp2) ctx k1; (i, next) = proc_id_new (k_pid k2)
          in Inr (Some (\<lparr>proc_pid = i, address_space = sp2,
                 fd_table = [Some (file_handle_empty True False), Some (file_handle_empty False True)],
                 proc_signal = signal_impl_new, semaphore_list = [], mutex_list = [], condvar_list = []\<rparr>, thr),
               k2\<lparr>k_pid := next\<rparr>))))))))"

section \<open>fork and exec\<close>

definition get_task :: "thread_id \<Rightarrow> ('d, 'h) kernel \<Rightarrow> thread res" where
  "get_task i k = rbind (ptm_get_task thread_manage i (k_processor k)) unwrap"

text \<open>Assignment through the reference to a task.\<close>

definition put_task :: "thread_id \<Rightarrow> thread \<Rightarrow> ('d, 'h) kernel \<Rightarrow> ('d, 'h) kernel" where
  "put_task i t k =
     (let pm = k_processor k in
      k\<lparr>k_processor := pm\<lparr>pt_manager := map_option (m_put thread_manage i t) (pt_manager pm)\<rparr>\<rparr>)"

definition put_proc :: "proc_id \<Rightarrow> process \<Rightarrow> ('d, 'h) kernel \<Rightarrow> ('d, 'h) kernel" where
  "put_proc i p k =
     (let pm = k_processor k in
      k\<lparr>k_processor := pm\<lparr>pt_proc_manager := map_option (m_put proc_table_manage i p) (pt_proc_manager pm)\<rparr>\<rparr>)"

text \<open>The first thread of a process, as \<^verbatim>\<open>fork\<close> and \<^verbatim>\<open>exec\<close> take it.\<close>

definition first_thread :: "process \<Rightarrow> ('d, 'h) kernel \<Rightarrow> thread_id res" where
  "first_thread p k = rbind (unwrap (ptm_get_thread (proc_pid p) (k_processor k))) (\<lambda>ts. vec_index ts 0)"

definition process_fork :: "('d, 'h) kenv \<Rightarrow> process \<Rightarrow> ('d, 'h) kernel \<Rightarrow> ((process \<times> thread) \<times> ('d, 'h) kernel) res" where
  "process_fork E p k =
     (let (i, next) = proc_id_new (k_pid k); k1 = k\<lparr>k_pid := next\<rparr> in
      rbind (space_new (kmgr E) (k_phys k1)) (\<lambda>(sp0, ph0).
      rbind (finished (cloneself sv39 (kmgr E) (address_space p) sp0 ph0)) (\<lambda>(sp, ph1).
      rbind (map_portal sp (k1\<lparr>k_phys := ph1\<rparr>)) (\<lambda>k2.
      rbind (first_thread p k2) (\<lambda>t0.
      rbind (get_task t0 k2) (\<lambda>task.
        let (thr, k3) = thread_new (satp_of sp) (fcontext (thr_context task)) k2
        in Inr ((\<lparr>proc_pid = i, address_space = sp, fd_table = fd_table p, proc_signal = from_fork (proc_signal p),
                  semaphore_list = [], mutex_list = [], condvar_list = []\<rparr>, thr), k3)))))))"

definition process_exec :: "('d, 'h) kenv \<Rightarrow> proc_id \<Rightarrow> process \<Rightarrow> elf_file \<Rightarrow> ('d, 'h) kernel \<Rightarrow> ('d, 'h) kernel res" where
  "process_exec E i p elf k =
     rbind (from_elf E elf k) (\<lambda>(r, k1).
     rbind (unwrap r) (\<lambda>(proc, thr).
       let p1 = p\<lparr>address_space := address_space proc\<rparr>; k2 = put_proc i p1 k1 in
       rbind (first_thread p1 k2) (\<lambda>t0.
       rbind (get_task t0 k2) (\<lambda>task.
         Inr (put_task t0 (task\<lparr>thr_context := thr_context thr\<rparr>) k2)))))"

end
