(* ===== verification/Kernel_Ch8.thy ===== *)
theory Kernel_Ch8
  imports Ch8_Process
begin

unbundle bit_operations_syntax

text \<open>
  The system calls and the main loop of the chapter 8 kernel, from \<^verbatim>\<open>ch8/src/main.rs\<close>: the
  implementations of the eight traits of theory \<^verbatim>\<open>Syscall\<close> that this kernel registers, and one turn of
  the loop that runs a thread, serves its trap, delivers signals and schedules. What a thread does in
  user mode is a parameter. Log lines are not modelled; \<^verbatim>\<open>k_stdout\<close> is what \<^verbatim>\<open>print!\<close> writes.
\<close>

section \<open>Kernel access to user memory\<close>

definition load_byte :: "'h phys \<Rightarrow> usize \<Rightarrow> u8" where
  "load_byte ph a = to_le 8 (frames ph (page_of a) ! unat (drop_bit 3 (a AND PAGE_MASK))) ! unat (a AND 7)"

definition store_byte :: "usize \<Rightarrow> u8 \<Rightarrow> 'h phys \<Rightarrow> 'h phys" where
  "store_byte a b ph =
     (let page = page_of a; i = unat (drop_bit 3 (a AND PAGE_MASK)); w = frames ph page ! i
      in ph\<lparr>frames := (frames ph)(page := (frames ph page)[i := of_le ((to_le 8 w)[unat (a AND 7) := b])])\<rparr>)"

definition load_bytes :: "'h phys \<Rightarrow> usize \<Rightarrow> nat \<Rightarrow> u8 list" where
  "load_bytes ph a n = map (\<lambda>i. load_byte ph (a + of_nat i)) [0..<n]"

fun store_bytes :: "usize \<Rightarrow> u8 list \<Rightarrow> 'h phys \<Rightarrow> 'h phys" where
  "store_bytes a [] ph = ph"
| "store_bytes a (b # bs) ph = store_bytes (a + 1) bs (store_byte a b ph)"

definition READABLE :: vm_flags where "READABLE = build_from_str [0x52, 0x56]"
definition WRITEABLE :: vm_flags where "WRITEABLE = build_from_str [0x57, 0x5F, 0x56]"

text \<open>The process of the running thread, with its key in the process table.\<close>

definition cur_proc :: "('d, 'h) kernel \<Rightarrow> (proc_id \<times> process) res" where
  "cur_proc k =
     rbind (ptm_get_current_proc proc_table_manage (k_processor k)) (\<lambda>r.
     rbind (unwrap r) (\<lambda>p.
     rbind (unwrap (pt_current (k_processor k))) (\<lambda>t.
     rbind (unwrap (tid2pid (k_processor k) t)) (\<lambda>i. Inr (i, p)))))"

definition cur_thread :: "('d, 'h) kernel \<Rightarrow> thread res" where
  "cur_thread k = rbind (ptm_current thread_manage (k_processor k)) unwrap"

definition user_ptr :: "('d, 'h) kenv \<Rightarrow> process \<Rightarrow> usize \<Rightarrow> vm_flags \<Rightarrow> ('d, 'h) kernel \<Rightarrow> usize option res" where
  "user_ptr E p a flags k =
     finished (translate sv39 (kmgr E) (address_space p) (vaddr_new sv39 a) flags (k_phys k))"

definition processor_op ::
    "((thread thread_manager, process proc_table) pthread_manager \<Rightarrow>
      (thread thread_manager, process proc_table) pthread_manager res) \<Rightarrow> ('d, 'h) kernel \<Rightarrow> ('d, 'h) kernel res" where
  "processor_op f k = rbind (f (k_processor k)) (\<lambda>pm. Inr (k\<lparr>k_processor := pm\<rparr>))"

section \<open>Input and output\<close>

definition ch8_write :: "('d, 'h) kenv \<Rightarrow> caller \<Rightarrow> usize \<Rightarrow> usize \<Rightarrow> usize \<Rightarrow> ('d, 'h) kernel sys" where
  "ch8_write E clr fd buf cnt k =
     rbind (cur_proc k) (\<lambda>(i, p).
     rbind (user_ptr E p buf READABLE k) (\<lambda>r.
       case r of
         Some ptr \<Rightarrow>
           if fd = STDOUT \<or> fd = STDDEBUG then
             Inr (cnt, k\<lparr>k_stdout := k_stdout k @ load_bytes (k_phys k) ptr (unat cnt)\<rparr>)
           else
             rbind (vec_index (fd_table p) (unat fd)) (\<lambda>f.
               case f of
                 Some file \<Rightarrow>
                   if writable file then
                     rbind (file_write (ke_dev E) (ke_efs E) [load_bytes (k_phys k) ptr (unat cnt)] file (k_disk k))
                       (\<lambda>((n, file1), d). Inr (n, put_proc i (p\<lparr>fd_table := (fd_table p)[unat fd := Some file1]\<rparr>)
                          (k\<lparr>k_disk := d\<rparr>)))
                   else Inr (- 1, k)
               | None \<Rightarrow> Inr (- 1, k))
       | None \<Rightarrow> Inr (- 1, k)))"

text \<open>The firmware returns -1 when there is no character.\<close>

definition console_getchar :: "('d, 'h) kernel \<Rightarrow> usize \<times> ('d, 'h) kernel" where
  "console_getchar k =
     (case k_stdin k of [] \<Rightarrow> (- 1, k) | c # rest \<Rightarrow> (c, k\<lparr>k_stdin := rest\<rparr>))"

fun read_console :: "nat \<Rightarrow> usize \<Rightarrow> ('d, 'h) kernel \<Rightarrow> ('d, 'h) kernel" where
  "read_console 0 ptr k = k"
| "read_console (Suc n) ptr k =
     (let (c, k1) = console_getchar k
      in read_console n (ptr + 1) (k1\<lparr>k_phys := store_byte ptr (ucast c) (k_phys k1)\<rparr>))"

definition ch8_read :: "('d, 'h) kenv \<Rightarrow> caller \<Rightarrow> usize \<Rightarrow> usize \<Rightarrow> usize \<Rightarrow> ('d, 'h) kernel sys" where
  "ch8_read E clr fd buf cnt k =
     rbind (cur_proc k) (\<lambda>(i, p).
     rbind (user_ptr E p buf WRITEABLE k) (\<lambda>r.
       case r of
         Some ptr \<Rightarrow>
           if fd = STDIN then Inr (cnt, read_console (unat cnt) ptr k)
           else
             rbind (vec_index (fd_table p) (unat fd)) (\<lambda>f.
               case f of
                 Some file \<Rightarrow>
                   if readable file then
                     rbind (file_read (ke_dev E) [load_bytes (k_phys k) ptr (unat cnt)] file (k_disk k))
                       (\<lambda>((n, slices, file1), d).
                          Inr (n, put_proc i (p\<lparr>fd_table := (fd_table p)[unat fd := Some file1]\<rparr>)
                            (k\<lparr>k_disk := d, k_phys := store_bytes ptr (concat slices) (k_phys k)\<rparr>)))
                   else Inr (- 1, k)
               | None \<Rightarrow> Inr (- 1, k))
       | None \<Rightarrow> Inr (- 1, k)))"

text \<open>The loop that reads a path up to the byte 0; the pointer arithmetic is overflow-checked.\<close>

function read_cstr :: "'h phys \<Rightarrow> usize \<Rightarrow> u8 list res" where
  "read_cstr ph a =
     (if load_byte ph a = 0 then Inr []
      else if a = - 1 then Inl Arith_Overflow
      else rbind (read_cstr ph (a + 1)) (\<lambda>s. Inr (load_byte ph a # s)))"
  by auto
termination
proof (relation "measure (\<lambda>(ph, a). 2 ^ 64 - unat a)")
  fix ph :: "'h phys" and a :: usize
  assume "a \<noteq> - 1"
  then have "unat (a + 1) = Suc (unat a)"
    using word_not_simps(1) by (metis add.commute add_eq_0_iff unatSuc)
  moreover have "unat a < 2 ^ 64" using unsigned_less [of a, where 'a = nat] by simp
  ultimately show "((ph, a + 1), (ph, a)) \<in> measure (\<lambda>(ph, a). 2 ^ 64 - unat a)" by simp
qed simp

declare read_cstr.simps [simp del]

text \<open>\<^verbatim>\<open>string.push(ch as char)\<close>: a byte is a character of Latin-1, kept in UTF-8.\<close>

definition char_utf8 :: "u8 \<Rightarrow> u8 list" where
  "char_utf8 c = (if c < 0x80 then [c] else [0xC0 OR drop_bit 6 c, 0x80 OR (c AND 0x3F)])"

definition open_flags_from_bits :: "u32 \<Rightarrow> open_flags option" where
  "open_flags_from_bits bits =
     (if bits AND NOT (WRONLY OR RDWR OR CREATE OR TRUNC) = 0 then Some bits else None)"

definition ch8_open :: "('d, 'h) kenv \<Rightarrow> caller \<Rightarrow> usize \<Rightarrow> usize \<Rightarrow> ('d, 'h) kernel sys" where
  "ch8_open E clr path flags k =
     rbind (cur_proc k) (\<lambda>(i, p).
     rbind (user_ptr E p path READABLE k) (\<lambda>r.
       case r of
         Some ptr \<Rightarrow>
           rbind (read_cstr (k_phys k) ptr) (\<lambda>s.
           rbind (unwrap (open_flags_from_bits (ucast flags))) (\<lambda>fl.
           rbind (fs_open (ke_dev E) (ke_efs E) (ke_root E) (concat (map char_utf8 s)) fl (k_disk k)) (\<lambda>(f, d).
             case f of
               Some file \<Rightarrow>
                 Inr (of_nat (length (fd_table p)),
                   put_proc i (p\<lparr>fd_table := fd_table p @ [Some file]\<rparr>) (k\<lparr>k_disk := d\<rparr>))
             | None \<Rightarrow> Inr (- 1, k\<lparr>k_disk := d\<rparr>))))
       | None \<Rightarrow> Inr (- 1, k)))"

definition ch8_close :: "caller \<Rightarrow> usize \<Rightarrow> ('d, 'h) kernel sys" where
  "ch8_close clr fd k =
     rbind (cur_proc k) (\<lambda>(i, p).
       if unat fd \<ge> length (fd_table p) \<or> fd_table p ! unat fd = None then Inr (- 1, k)
       else Inr (0, put_proc i (p\<lparr>fd_table := (fd_table p)[unat fd := None]\<rparr>) k))"

definition ch8_io :: "('d, 'h) kenv \<Rightarrow> ('d, 'h) kernel io_sys" where
  "ch8_io E = io_sys_default\<lparr>sys_read := ch8_read E, sys_write := ch8_write E,
     sys_open := ch8_open E, sys_close := ch8_close\<rparr>"

section \<open>Processes\<close>

definition ch8_exit :: "caller \<Rightarrow> usize \<Rightarrow> ('d, 'h) kernel sys" where
  "ch8_exit clr exit_code k = Inr (exit_code, k)"

definition ch8_fork :: "('d, 'h) kenv \<Rightarrow> caller \<Rightarrow> ('d, 'h) kernel sys" where
  "ch8_fork E clr k =
     rbind (cur_proc k) (\<lambda>(i, p).
     rbind (process_fork E p k) (\<lambda>((proc, thr), k1).
       let pid = proc_pid proc in
       rbind (ctx_set_a 0 0 (fcontext (thr_context thr))) (\<lambda>ctx.
         let thr1 = thr\<lparr>thr_context := (thr_context thr)\<lparr>fcontext := ctx\<rparr>\<rparr> in
         rbind (processor_op (ptm_add_proc proc_table_manage pid proc (proc_pid p)) k1) (\<lambda>k2.
         rbind (processor_op (ptm_add thread_manage thread_schedule (thr_tid thr1) thr1 pid) k2) (\<lambda>k3.
           Inr (pid, k3))))))"

text \<open>The bound for \<^verbatim>\<open>read_all\<close>: a file has less than 2 ^ 32 bytes and a turn reads up to 512 of them.\<close>

definition READ_ALL_FUEL :: nat where
  "READ_ALL_FUEL = 2 ^ 24"

definition ch8_exec :: "('d, 'h) kenv \<Rightarrow> caller \<Rightarrow> usize \<Rightarrow> usize \<Rightarrow> ('d, 'h) kernel sys" where
  "ch8_exec E clr path cnt k =
     rbind (cur_proc k) (\<lambda>(i, p).
     rbind (user_ptr E p path READABLE k) (\<lambda>r.
     rbind (case r of
              Some ptr \<Rightarrow> fs_open (ke_dev E) (ke_efs E) (ke_root E) (load_bytes (k_phys k) ptr (unat cnt)) RDONLY (k_disk k)
            | None \<Rightarrow> Inr (None, k_disk k)) (\<lambda>(f, d).
       let k1 = k\<lparr>k_disk := d\<rparr> in
       case f of
         None \<Rightarrow>
           rbind (fs_readdir (ke_dev E) (ke_root E) [] (k_disk k1)) (\<lambda>(names, d2).
           rbind (unwrap names) (\<lambda>apps.
             Inr (- 1, k1\<lparr>k_disk := d2, k_stdout := k_stdout k1 @ concat (map (\<lambda>app. app @ [0x0A]) apps) @ [0x0A]\<rparr>)))
       | Some file \<Rightarrow>
           rbind (finished (read_all READ_ALL_FUEL (ke_dev E) file (k_disk k1))) (\<lambda>(bytes, d2).
           rbind (unwrap (ke_elf E bytes)) (\<lambda>elf.
           rbind (process_exec E i p elf (k1\<lparr>k_disk := d2\<rparr>)) (\<lambda>k2. Inr (0, k2)))))))"

definition ch8_wait :: "('d, 'h) kenv \<Rightarrow> caller \<Rightarrow> isize \<Rightarrow> usize \<Rightarrow> ('d, 'h) kernel sys" where
  "ch8_wait E clr pid exit_code_ptr k =
     rbind (cur_proc k) (\<lambda>(i, p).
     rbind (ptm_wait pid (k_processor k)) (\<lambda>(r, pm).
       let k1 = k\<lparr>k_processor := pm\<rparr> in
       case r of
         Some (dead_pid, exit_code) \<Rightarrow>
           rbind (user_ptr E p exit_code_ptr WRITEABLE k1) (\<lambda>q.
             Inr (dead_pid, case q of
                 Some ptr \<Rightarrow> k1\<lparr>k_phys := store_bytes ptr (to_le 8 exit_code) (k_phys k1)\<rparr>
               | None \<Rightarrow> k1))
       | None \<Rightarrow> Inr (- 1, k1)))"

definition ch8_getpid :: "caller \<Rightarrow> ('d, 'h) kernel sys" where
  "ch8_getpid clr k = rbind (cur_proc k) (\<lambda>(i, p). Inr (proc_pid p, k))"

definition ch8_process :: "('d, 'h) kenv \<Rightarrow> ('d, 'h) kernel process_sys" where
  "ch8_process E = process_sys_default\<lparr>sys_exit := ch8_exit, sys_fork := ch8_fork E, sys_exec := ch8_exec E,
     sys_wait := ch8_wait E, sys_getpid := ch8_getpid\<rparr>"

section \<open>Scheduling and time\<close>

definition ch8_sched_yield :: "caller \<Rightarrow> ('d, 'h) kernel sys" where
  "ch8_sched_yield clr k = Inr (0, k)"

definition ch8_scheduling :: "('d, 'h) kernel scheduling_sys" where
  "ch8_scheduling = scheduling_sys_default\<lparr>sys_sched_yield := ch8_sched_yield\<rparr>"

definition time_spec_bytes :: "time_spec \<Rightarrow> u8 list" where
  "time_spec_bytes t = to_le 8 (tv_sec t) @ to_le 8 (tv_nsec t)"

definition ch8_clock_gettime :: "('d, 'h) kenv \<Rightarrow> caller \<Rightarrow> usize \<Rightarrow> usize \<Rightarrow> ('d, 'h) kernel sys" where
  "ch8_clock_gettime E clr clock_id tp k =
     (if clock_id = CLOCK_MONOTONIC then
        rbind (cur_proc k) (\<lambda>(i, p).
        rbind (user_ptr E p tp WRITEABLE k) (\<lambda>r.
          case r of
            Some ptr \<Rightarrow>
              if unat (k_time k) * 10000 < 2 ^ 64 then
                let time = k_time k * 10000 div 125;
                    t = \<lparr>tv_sec = time div 1000000000, tv_nsec = time mod 1000000000\<rparr>
                in Inr (0, k\<lparr>k_phys := store_bytes ptr (time_spec_bytes t) (k_phys k)\<rparr>)
              else Inl Arith_Overflow
          | None \<Rightarrow> Inr (- 1, k)))
      else Inr (- 1, k))"

definition ch8_clock :: "('d, 'h) kenv \<Rightarrow> ('d, 'h) kernel clock_sys" where
  "ch8_clock E = clock_sys_default\<lparr>sys_clock_gettime := ch8_clock_gettime E\<rparr>"

end
