(* ===== verification/Kernel_Sync.thy ===== *)
theory Kernel_Sync
  imports Kernel_Ch8
begin

unbundle bit_operations_syntax

text \<open>
  The system calls of the chapter 8 kernel on signals, threads and the blocking primitives, the second
  half of the implementations in \<^verbatim>\<open>ch8/src/main.rs\<close>. A reference into the thread table or the process
  table is the key of the entry; assignment through it is \<^const>\<open>put_task\<close> or \<^const>\<open>put_proc\<close>.
\<close>

section \<open>Signals\<close>

definition ch8_kill :: "caller \<Rightarrow> isize \<Rightarrow> u8 \<Rightarrow> ('d, 'h) kernel sys" where
  "ch8_kill clr pid signum k =
     rbind (ptm_get_proc proc_table_manage pid (k_processor k)) (\<lambda>target.
       case target of
         Some target_task \<Rightarrow>
           (case signal_try_from signum of
              Some signal_no \<Rightarrow>
                if signal_no \<noteq> ERR then
                  rbind (add_signal signal_no (proc_signal target_task)) (\<lambda>s.
                    Inr (0, put_proc pid (target_task\<lparr>proc_signal := s\<rparr>) k))
                else Inr (- 1, k)
            | None \<Rightarrow> Inr (- 1, k))
       | None \<Rightarrow> Inr (- 1, k))"

text \<open>\<^verbatim>\<open>SignalAction\<close> is \<^verbatim>\<open>repr(C)\<close>: the handler, then the mask.\<close>

definition signal_action_bytes :: "signal_action \<Rightarrow> u8 list" where
  "signal_action_bytes a = to_le 8 (handler a) @ to_le 8 (act_mask a)"

definition load_signal_action :: "'h phys \<Rightarrow> usize \<Rightarrow> signal_action" where
  "load_signal_action ph a =
     \<lparr>handler = of_le (load_bytes ph a 8), act_mask = of_le (load_bytes ph (a + 8) 8)\<rparr>"

text \<open>
  The two halves of \<^verbatim>\<open>sigaction\<close>: the action in force is written to the user's \<^verbatim>\<open>old_action\<close>, then the
  user's \<^verbatim>\<open>action\<close> is installed. The boolean is false where the source returns -1.
\<close>

definition sigaction_old ::
    "('d, 'h) kenv \<Rightarrow> process \<Rightarrow> signal_no \<Rightarrow> usize \<Rightarrow> ('d, 'h) kernel \<Rightarrow> (bool \<times> ('d, 'h) kernel) res" where
  "sigaction_old E p signal_no old_action k =
     (if old_action = 0 then Inr (True, k)
      else
        rbind (user_ptr E p old_action WRITEABLE k) (\<lambda>r.
          case r of
            Some ptr \<Rightarrow>
              rbind (get_action_ref signal_no (proc_signal p)) (\<lambda>a.
                case a of
                  Some signal_action \<Rightarrow>
                    Inr (True, k\<lparr>k_phys := store_bytes ptr (signal_action_bytes signal_action) (k_phys k)\<rparr>)
                | None \<Rightarrow> Inr (False, k))
          | None \<Rightarrow> Inr (False, k)))"

definition sigaction_new ::
    "('d, 'h) kenv \<Rightarrow> proc_id \<Rightarrow> process \<Rightarrow> signal_no \<Rightarrow> usize \<Rightarrow> ('d, 'h) kernel \<Rightarrow> (bool \<times> ('d, 'h) kernel) res" where
  "sigaction_new E i p signal_no action k =
     (if action = 0 then Inr (True, k)
      else
        rbind (user_ptr E p action READABLE k) (\<lambda>r.
          case r of
            Some ptr \<Rightarrow>
              rbind (set_action signal_no (load_signal_action (k_phys k) ptr) (proc_signal p)) (\<lambda>(done, s).
                Inr (done, put_proc i (p\<lparr>proc_signal := s\<rparr>) k))
          | None \<Rightarrow> Inr (False, k)))"

definition ch8_sigaction :: "('d, 'h) kenv \<Rightarrow> caller \<Rightarrow> u8 \<Rightarrow> usize \<Rightarrow> usize \<Rightarrow> ('d, 'h) kernel sys" where
  "ch8_sigaction E clr signum action old_action k =
     (if unat signum > MAX_SIG then Inr (- 1, k)
      else
        rbind (cur_proc k) (\<lambda>(i, p).
          case signal_try_from signum of
            Some signal_no \<Rightarrow>
              if signal_no = ERR then Inr (- 1, k)
              else
                rbind (sigaction_old E p signal_no old_action k) (\<lambda>(ok1, k1).
                  if \<not> ok1 then Inr (- 1, k1)
                  else
                    rbind (sigaction_new E i p signal_no action k1) (\<lambda>(ok2, k2).
                      Inr (if ok2 then 0 else - 1, k2)))
          | None \<Rightarrow> Inr (- 1, k)))"

definition ch8_sigprocmask :: "caller \<Rightarrow> usize \<Rightarrow> ('d, 'h) kernel sys" where
  "ch8_sigprocmask clr msk k =
     rbind (cur_proc k) (\<lambda>(i, p).
       let (old, s) = update_mask msk (proc_signal p)
       in Inr (old, put_proc i (p\<lparr>proc_signal := s\<rparr>) k))"

text \<open>Assignment to the context of a thread, keeping its address space.\<close>

definition set_fcontext :: "local_context \<Rightarrow> thread \<Rightarrow> thread" where
  "set_fcontext c t = t\<lparr>thr_context := (thr_context t)\<lparr>fcontext := c\<rparr>\<rparr>"

definition ch8_sigreturn :: "caller \<Rightarrow> ('d, 'h) kernel sys" where
  "ch8_sigreturn clr k =
     rbind (cur_proc k) (\<lambda>(i, p).
     rbind (cur_thread k) (\<lambda>t.
     rbind (unwrap (pt_current (k_processor k))) (\<lambda>ti.
       let (ok, s, ctx) = sig_return (proc_signal p) (fcontext (thr_context t));
           k1 = put_task ti (set_fcontext ctx t) (put_proc i (p\<lparr>proc_signal := s\<rparr>) k)
       in Inr (if ok then 0 else - 1, k1))))"

definition ch8_signal :: "('d, 'h) kenv \<Rightarrow> ('d, 'h) kernel signal_sys" where
  "ch8_signal E = signal_sys_default\<lparr>sys_kill := ch8_kill, sys_sigaction := ch8_sigaction E,
     sys_sigprocmask := ch8_sigprocmask, sys_sigreturn := ch8_sigreturn\<rparr>"

section \<open>Threads\<close>

text \<open>
  The search of \<^verbatim>\<open>thread_create\<close> for a free stack: three pages down as long as the entry of the root
  table that covers the candidate is valid.
\<close>

function stack_search :: "(usize \<Rightarrow> u64 list) \<Rightarrow> page_table \<Rightarrow> vpn \<Rightarrow> vpn res" where
  "stack_search fr root n =
     (case rbind (index_in sv39 n (MAX_LEVEL sv39)) (pt_index fr root) of
        Inl e \<Rightarrow> Inl e
      | Inr p \<Rightarrow>
          if \<not> pte_is_valid p then Inr n
          else if n < 3 then Inl Arith_Overflow
          else stack_search fr root (n - 3))"
  by auto
termination
  by (relation "measure (\<lambda>(_, _, n). unat n)")
     (auto simp: word_le_nat_alt word_less_nat_alt unat_sub)

declare stack_search.simps [simp del]

definition STACK_BOTTOM :: vpn where
  "STACK_BOTTOM = push_bit 26 1 - 2"

definition ch8_thread_create :: "('d, 'h) kenv \<Rightarrow> caller \<Rightarrow> usize \<Rightarrow> usize \<Rightarrow> ('d, 'h) kernel sys" where
  "ch8_thread_create E clr entry arg k =
     rbind (cur_proc k) (\<lambda>(i, p).
     rbind (space_root sv39 (kmgr E) (address_space p)) (\<lambda>root.
     rbind (stack_search (frames (k_phys k)) root STACK_BOTTOM) (\<lambda>n.
     rbind (page_alloc (ke_buddy E) 2 (k_phys k)) (\<lambda>(stack, ph1).
     rbind (finished (map_extern sv39 (kmgr E) n (page_add n 2) (drop_bit 12 stack) USER_STACK_FLAGS
              (address_space p) ph1)) (\<lambda>(sp, ph2).
       let k1 = put_proc i (p\<lparr>address_space := sp\<rparr>) (k\<lparr>k_phys := ph2\<rparr>) in
       rbind (ctx_set_sp (vaddr_val sv39 (vpn_base sv39 (page_add n 2))) (ctx_user entry)) (\<lambda>ctx1.
       rbind (ctx_set_a 0 arg ctx1) (\<lambda>ctx2.
         let (thr, k2) = thread_new (satp_of sp) ctx2 k1 in
         rbind (processor_op (ptm_add thread_manage thread_schedule (thr_tid thr) thr (proc_pid p)) k2) (\<lambda>k3.
           Inr (thr_tid thr, k3)))))))))"

definition ch8_gettid :: "caller \<Rightarrow> ('d, 'h) kernel sys" where
  "ch8_gettid clr k = rbind (cur_thread k) (\<lambda>t. Inr (thr_tid t, k))"

definition ch8_waittid :: "caller \<Rightarrow> usize \<Rightarrow> ('d, 'h) kernel sys" where
  "ch8_waittid clr tid k =
     rbind (cur_thread k) (\<lambda>t.
       if tid = thr_tid t then Inr (- 1, k)
       else rbind (ptm_waittid tid (k_processor k)) (\<lambda>(r, pm).
         Inr (case r of Some exit_code \<Rightarrow> exit_code | None \<Rightarrow> - 1, k\<lparr>k_processor := pm\<rparr>)))"

definition ch8_thread :: "('d, 'h) kenv \<Rightarrow> ('d, 'h) kernel thread_sys" where
  "ch8_thread E = thread_sys_default\<lparr>sys_thread_create := ch8_thread_create E, sys_waittid := ch8_waittid,
     sys_gettid := ch8_gettid\<rparr>"

section \<open>Blocking primitives\<close>

text \<open>Each \<^verbatim>\<open>*_create\<close> takes the first free slot of its list, or grows the list.\<close>

definition put_slot :: "'a option \<Rightarrow> 'a option list \<Rightarrow> nat \<times> 'a option list" where
  "put_slot x xs =
     (case find_index (\<lambda>item. item = None) xs of
        Some i \<Rightarrow> (i, xs[i := x])
      | None \<Rightarrow> (length xs, xs @ [x]))"

text \<open>\<^verbatim>\<open>list[id].as_ref().unwrap()\<close>.\<close>

definition get_slot :: "'a option list \<Rightarrow> usize \<Rightarrow> 'a res" where
  "get_slot xs sid = rbind (vec_index xs (unat sid)) unwrap"

definition wake :: "thread_id option \<Rightarrow> ('d, 'h) kernel \<Rightarrow> ('d, 'h) kernel res" where
  "wake t k =
     (case t of Some tid \<Rightarrow> processor_op (ptm_re_enque thread_schedule tid) k | None \<Rightarrow> Inr k)"

definition ch8_semaphore_create :: "caller \<Rightarrow> usize \<Rightarrow> ('d, 'h) kernel sys" where
  "ch8_semaphore_create clr res_count k =
     rbind (cur_proc k) (\<lambda>(i, p).
       let (sid, l) = put_slot (Some (semaphore_new res_count)) (semaphore_list p)
       in Inr (of_nat sid, put_proc i (p\<lparr>semaphore_list := l\<rparr>) k))"

definition ch8_semaphore_up :: "caller \<Rightarrow> usize \<Rightarrow> ('d, 'h) kernel sys" where
  "ch8_semaphore_up clr sem_id k =
     rbind (cur_proc k) (\<lambda>(i, p).
     rbind (get_slot (semaphore_list p) sem_id) (\<lambda>sem.
     rbind (semaphore_up sem) (\<lambda>(t, sem1).
     rbind (wake t (put_proc i (p\<lparr>semaphore_list := (semaphore_list p)[unat sem_id := Some sem1]\<rparr>) k)) (\<lambda>k1.
       Inr (0, k1)))))"

definition ch8_semaphore_down :: "caller \<Rightarrow> usize \<Rightarrow> ('d, 'h) kernel sys" where
  "ch8_semaphore_down clr sem_id k =
     rbind (cur_thread k) (\<lambda>current.
     rbind (cur_proc k) (\<lambda>(i, p).
     rbind (get_slot (semaphore_list p) sem_id) (\<lambda>sem.
     rbind (semaphore_down (thr_tid current) sem) (\<lambda>(ok, sem1).
       Inr (if \<not> ok then - 1 else 0,
         put_proc i (p\<lparr>semaphore_list := (semaphore_list p)[unat sem_id := Some sem1]\<rparr>) k)))))"

definition ch8_mutex_create :: "caller \<Rightarrow> bool \<Rightarrow> ('d, 'h) kernel sys" where
  "ch8_mutex_create clr blocking k =
     (let new_mutex = if blocking then Some mutex_blocking_new else None in
      rbind (cur_proc k) (\<lambda>(i, p).
        let (mid, l) = put_slot new_mutex (mutex_list p)
        in Inr (of_nat mid, put_proc i (p\<lparr>mutex_list := l\<rparr>) k)))"

definition ch8_mutex_unlock :: "caller \<Rightarrow> usize \<Rightarrow> ('d, 'h) kernel sys" where
  "ch8_mutex_unlock clr mutex_id k =
     rbind (cur_proc k) (\<lambda>(i, p).
     rbind (get_slot (mutex_list p) mutex_id) (\<lambda>mutex.
     rbind (mutex_unlock mutex) (\<lambda>(t, mutex1).
     rbind (wake t (put_proc i (p\<lparr>mutex_list := (mutex_list p)[unat mutex_id := Some mutex1]\<rparr>) k)) (\<lambda>k1.
       Inr (0, k1)))))"

definition ch8_mutex_lock :: "caller \<Rightarrow> usize \<Rightarrow> ('d, 'h) kernel sys" where
  "ch8_mutex_lock clr mutex_id k =
     rbind (cur_thread k) (\<lambda>current.
     rbind (cur_proc k) (\<lambda>(i, p).
     rbind (get_slot (mutex_list p) mutex_id) (\<lambda>mutex.
       let (ok, mutex1) = mutex_lock (thr_tid current) mutex
       in Inr (if \<not> ok then - 1 else 0,
         put_proc i (p\<lparr>mutex_list := (mutex_list p)[unat mutex_id := Some mutex1]\<rparr>) k))))"

definition ch8_condvar_create :: "caller \<Rightarrow> usize \<Rightarrow> ('d, 'h) kernel sys" where
  "ch8_condvar_create clr arg k =
     rbind (cur_proc k) (\<lambda>(i, p).
       let (cid, l) = put_slot (Some condvar_new) (condvar_list p)
       in Inr (of_nat cid, put_proc i (p\<lparr>condvar_list := l\<rparr>) k))"

definition ch8_condvar_signal :: "caller \<Rightarrow> usize \<Rightarrow> ('d, 'h) kernel sys" where
  "ch8_condvar_signal clr condvar_id k =
     rbind (cur_proc k) (\<lambda>(i, p).
     rbind (get_slot (condvar_list p) condvar_id) (\<lambda>condvar.
       let (t, condvar1) = condvar_signal condvar in
       rbind (wake t (put_proc i (p\<lparr>condvar_list := (condvar_list p)[unat condvar_id := Some condvar1]\<rparr>) k)) (\<lambda>k1.
         Inr (0, k1))))"

definition ch8_condvar_wait :: "caller \<Rightarrow> usize \<Rightarrow> usize \<Rightarrow> ('d, 'h) kernel sys" where
  "ch8_condvar_wait clr condvar_id mutex_id k =
     rbind (cur_thread k) (\<lambda>current.
     rbind (cur_proc k) (\<lambda>(i, p).
     rbind (get_slot (condvar_list p) condvar_id) (\<lambda>condvar.
     rbind (get_slot (mutex_list p) mutex_id) (\<lambda>mutex.
     rbind (wait_with_mutex mutex_blocking_ops (thr_tid current) mutex) (\<lambda>((flag, waking_tid), mutex1).
     rbind (wake waking_tid (put_proc i (p\<lparr>mutex_list := (mutex_list p)[unat mutex_id := Some mutex1]\<rparr>) k)) (\<lambda>k1.
       Inr (if \<not> flag then - 1 else 0, k1)))))))"

definition ch8_sync_mutex :: "('d, 'h) kernel sync_mutex_sys" where
  "ch8_sync_mutex = sync_mutex_sys_default\<lparr>
     sys_semaphore_create := ch8_semaphore_create, sys_semaphore_up := ch8_semaphore_up,
     sys_semaphore_down := ch8_semaphore_down, sys_mutex_create := ch8_mutex_create,
     sys_mutex_lock := ch8_mutex_lock, sys_mutex_unlock := ch8_mutex_unlock,
     sys_condvar_create := ch8_condvar_create, sys_condvar_signal := ch8_condvar_signal,
     sys_condvar_wait := ch8_condvar_wait\<rparr>"

end
