(* ===== verification/Kernel_Loop.thy ===== *)
theory Kernel_Loop
  imports Kernel_Sync
begin

unbundle bit_operations_syntax

text \<open>
  The start of the chapter 8 kernel and its main loop, \<^verbatim>\<open>rust_main\<close> and \<^verbatim>\<open>kernel_space\<close> of
  \<^verbatim>\<open>ch8/src/main.rs\<close>, with the memory layout of \<^verbatim>\<open>linker/src/lib.rs\<close>. What a thread does between two
  traps is the parameter \<open>run\<close>: the outcome of \<^verbatim>\<open>ForeignContext::execute\<close> (theory \<^verbatim>\<open>Context\<close>), with the
  memory it leaves, the clock at the trap and the characters that have arrived at the console.
\<close>

section \<open>The layout of the kernel image\<close>

record kernel_layout =
  lay_text :: usize
  lay_rodata :: usize
  lay_data :: usize
  lay_sbss :: usize
  lay_ebss :: usize
  lay_boot :: usize
  lay_end :: usize

definition layout_INIT :: kernel_layout where
  "layout_INIT = \<lparr>lay_text = - 1, lay_rodata = - 1, lay_data = - 1, lay_sbss = - 1, lay_ebss = - 1,
     lay_boot = - 1, lay_end = - 1\<rparr>"

definition layout_start :: "kernel_layout \<Rightarrow> usize" where
  "layout_start l = lay_text l"

definition layout_len :: "kernel_layout \<Rightarrow> usize res" where
  "layout_len l = (if lay_text l \<le> lay_end l then Inr (lay_end l - lay_text l) else Inl Arith_Overflow)"

datatype region_title = Text | Rodata | Data | Boot

record kernel_region =
  region_title :: region_title
  region_start :: usize
  region_end :: usize

text \<open>One call of \<^verbatim>\<open>KernelRegionIterator::next\<close>: the region, and the title the iterator holds afterwards.\<close>

fun region_next :: "kernel_layout \<Rightarrow> region_title option \<Rightarrow> (kernel_region \<times> region_title option) option" where
  "region_next l None = None"
| "region_next l (Some Text) =
     Some (\<lparr>region_title = Text, region_start = lay_text l, region_end = lay_rodata l\<rparr>, Some Rodata)"
| "region_next l (Some Rodata) =
     Some (\<lparr>region_title = Rodata, region_start = lay_rodata l, region_end = lay_data l\<rparr>, Some Data)"
| "region_next l (Some Data) =
     Some (\<lparr>region_title = Data, region_start = lay_data l, region_end = lay_ebss l\<rparr>, Some Boot)"
| "region_next l (Some Boot) =
     Some (\<lparr>region_title = Boot, region_start = lay_boot l, region_end = lay_end l\<rparr>, None)"

fun titles_left :: "region_title option \<Rightarrow> nat" where
  "titles_left None = 0"
| "titles_left (Some Text) = 4"
| "titles_left (Some Rodata) = 3"
| "titles_left (Some Data) = 2"
| "titles_left (Some Boot) = 1"

lemma region_next_fewer: "region_next l t = Some (r, t') \<Longrightarrow> titles_left t' < titles_left t"
  by (cases "(l, t)" rule: region_next.cases) auto

function regions_from :: "kernel_layout \<Rightarrow> region_title option \<Rightarrow> kernel_region list" where
  "regions_from l t =
     (case region_next l t of None \<Rightarrow> [] | Some (r, t1) \<Rightarrow> r # regions_from l t1)"
  by auto
termination
  by (relation "measure (\<lambda>(_, t). titles_left t)") (auto dest: region_next_fewer)

declare regions_from.simps [simp del]

definition layout_iter :: "kernel_layout \<Rightarrow> kernel_region list" where
  "layout_iter l = regions_from l (Some Text)"

section \<open>The kernel's address space\<close>

definition MEMORY :: usize where
  "MEMORY = push_bit 20 48"

definition MMIO :: "(usize \<times> usize) list" where
  "MMIO = [(0x10001000, 0x001000)]"

text \<open>\<^verbatim>\<open>"X_RV"\<close>, \<^verbatim>\<open>"__RV"\<close>, \<^verbatim>\<open>"_WRV"\<close> and \<^verbatim>\<open>"__G_XWRV"\<close>.\<close>

definition region_flags :: "region_title \<Rightarrow> vm_flags" where
  "region_flags t = build_from_str
     (case t of Text \<Rightarrow> [0x58, 0x5F, 0x52, 0x56] | Rodata \<Rightarrow> [0x5F, 0x5F, 0x52, 0x56]
      | Data \<Rightarrow> [0x5F, 0x57, 0x52, 0x56] | Boot \<Rightarrow> [0x5F, 0x57, 0x52, 0x56])"

definition PORTAL_FLAGS :: vm_flags where
  "PORTAL_FLAGS = build_from_str [0x5F, 0x5F, 0x47, 0x5F, 0x58, 0x57, 0x52, 0x56]"

text \<open>A range of addresses mapped to itself.\<close>

definition map_identity ::
    "('d, 'h) kenv \<Rightarrow> usize \<Rightarrow> usize \<Rightarrow> vm_flags \<Rightarrow> sv39_manager address_space \<times> 'h phys \<Rightarrow>
     (sv39_manager address_space \<times> 'h phys) res" where
  "map_identity E a b flags st =
     (let (sp, ph) = st; s = vaddr_floor sv39 (vaddr_new sv39 a) in
      rbind (vaddr_ceil sv39 (vaddr_new sv39 b)) (\<lambda>e. finished (map_extern sv39 (kmgr E) s e s flags sp ph)))"

definition kernel_space ::
    "('d, 'h) kenv \<Rightarrow> kernel_layout \<Rightarrow> usize \<Rightarrow> usize \<Rightarrow> 'h phys \<Rightarrow> (sv39_manager address_space \<times> 'h phys) res" where
  "kernel_space E lay memory portal ph =
     rbind (space_new (kmgr E) ph) (\<lambda>st0.
     rbind (rfold (\<lambda>r. map_identity E (region_start r) (region_end r) (region_flags (region_title r)))
              (layout_iter lay) st0) (\<lambda>st1.
     rbind (checked_usize_add (layout_start lay) memory) (\<lambda>mem_end.
     rbind (map_identity E (lay_end lay) mem_end (region_flags Data) st1) (\<lambda>(sp2, ph2).
     rbind (finished (map_extern sv39 (kmgr E) PROTAL_TRANSIT (page_add PROTAL_TRANSIT 1) (drop_bit 12 portal)
              PORTAL_FLAGS sp2 ph2)) (\<lambda>st3.
       rfold (\<lambda>(base, len) st.
           rbind (checked_usize_add base len) (\<lambda>e. map_identity E base e (region_flags Data) st)) MMIO st3)))))"

section \<open>Registration and start\<close>

definition ch8_containers :: "('d, 'h) kenv \<Rightarrow> ('d, 'h) kernel containers" where
  "ch8_containers E =
     init_sync_mutex ch8_sync_mutex (init_thread (ch8_thread E) (init_signal (ch8_signal E)
       (init_clock (ch8_clock E) (init_scheduling ch8_scheduling (init_process (ch8_process E)
         (init_io (ch8_io E) containers_new))))))"

text \<open>\<^verbatim>\<open>"initproc"\<close>.\<close>

definition INITPROC :: "u8 list" where
  "INITPROC = [0x69, 0x6E, 0x69, 0x74, 0x70, 0x72, 0x6F, 0x63]"

text \<open>
  \<^verbatim>\<open>rust_main\<close> up to its loop. \<open>text\<close> is the size of the portal's code; \<open>ph\<close> is the memory with the heap
  that \<^verbatim>\<open>kernel_alloc\<close> was given and \<open>d\<close> the disk, \<open>input\<close> and \<open>now\<close> the console and the clock.
\<close>

definition rust_main_start ::
    "('d, 'h) kenv \<Rightarrow> kernel_layout \<Rightarrow> nat \<Rightarrow> 'h phys \<Rightarrow> 'd bstate \<Rightarrow> usize list \<Rightarrow> usize \<Rightarrow> ('d, 'h) kernel res" where
  "rust_main_start E lay text ph d input now =
     (let portal_size = calculate_size text 1 in
      rbind (global_alloc (ke_buddy E) (of_nat portal_size) (push_bit 12 1) ph) (\<lambda>(portal_ptr, ph1).
      rbind (rassert (portal_size < 4096)) (\<lambda>_.
      rbind (kernel_space E lay MEMORY portal_ptr ph1) (\<lambda>(ks, ph2).
      rbind (fs_open (ke_dev E) (ke_efs E) (ke_root E) INITPROC RDONLY d) (\<lambda>(f, d1).
      rbind (unwrap f) (\<lambda>file.
      rbind (finished (read_all READ_ALL_FUEL (ke_dev E) file d1)) (\<lambda>(bytes, d2).
      rbind (unwrap (ke_elf E bytes)) (\<lambda>elf.
        let k = \<lparr>k_processor = ptm_new, k_phys = ph2, k_kspace = ks, k_disk = d2, k_pid = 0, k_tid = 0,
                 k_stdout = [0x0A], k_stdin = input, k_time = now\<rparr> in
        rbind (from_elf E elf k) (\<lambda>(r, k1).
          case r of
            Some (proc, thr) \<Rightarrow>
              let k2 = k1\<lparr>k_processor := ptm_set_manager thread_manager_new
                                            (ptm_set_proc_manager proc_table_new (k_processor k1))\<rparr> in
              rbind (processor_op (ptm_add_proc proc_table_manage (proc_pid proc) proc usize_MAX) k2) (\<lambda>k3.
                processor_op (ptm_add thread_manage thread_schedule (thr_tid thr) thr (proc_pid proc)) k3)
          | None \<Rightarrow> Inr k1)))))))))"

section \<open>The main loop\<close>

datatype trap = UserEnvCall | OtherTrap

record 'h user_turn =
  ut_context :: local_context
  ut_phys :: "'h phys"
  ut_trap :: trap
  ut_time :: usize
  ut_input :: "usize list"

type_synonym 'h user_code = "foreign_context \<Rightarrow> 'h phys \<Rightarrow> 'h user_turn"

definition run_task :: "'h user_code \<Rightarrow> thread_id \<Rightarrow> thread \<Rightarrow> ('d, 'h) kernel \<Rightarrow> trap \<times> ('d, 'h) kernel" where
  "run_task run tid task k =
     (let u = run (thr_context task) (k_phys k)
      in (ut_trap u, put_task tid (set_fcontext (ut_context u) task)
            (k\<lparr>k_phys := ut_phys u, k_time := ut_time u, k_stdin := k_stdin k @ ut_input u\<rparr>)))"

definition exit_current :: "isize \<Rightarrow> ('d, 'h) kernel \<Rightarrow> ('d, 'h) kernel res" where
  "exit_current exit_code = processor_op (ptm_make_current_exited thread_manage proc_table_manage exit_code)"

definition suspend_current :: "('d, 'h) kernel \<Rightarrow> ('d, 'h) kernel res" where
  "suspend_current = processor_op (ptm_make_current_suspend thread_schedule)"

definition block_current :: "('d, 'h) kernel \<Rightarrow> ('d, 'h) kernel res" where
  "block_current = processor_op (\<lambda>pm. Inr (ptm_make_current_blocked pm))"

text \<open>The inner \<^verbatim>\<open>match syscall_ret\<close>.\<close>

definition finish_call :: "syscall_id \<Rightarrow> syscall_result \<Rightarrow> thread_id \<Rightarrow> ('d, 'h) kernel \<Rightarrow> ('d, 'h) kernel res" where
  "finish_call sid syscall_ret tid k =
     (case syscall_ret of
        Done ret \<Rightarrow>
          if sid = SYS_EXIT then exit_current ret k
          else if sid = SYS_SEMAPHORE_DOWN \<or> sid = SYS_MUTEX_LOCK \<or> sid = SYS_CONDVAR_WAIT then
            (if ret = - 1 then block_current k else suspend_current k)
          else
            rbind (get_task tid k) (\<lambda>t.
            rbind (ctx_set_a 0 ret (fcontext (thr_context t))) (\<lambda>ctx.
              suspend_current (put_task tid (set_fcontext ctx t) k)))
      | Unsupported _ \<Rightarrow> exit_current (- 2) k)"

text \<open>The branch of \<^verbatim>\<open>UserEnvCall\<close>; \<open>tid\<close> is the thread that \<^verbatim>\<open>task\<close> refers to.\<close>

definition serve_call :: "('d, 'h) kernel containers \<Rightarrow> thread_id \<Rightarrow> ('d, 'h) kernel \<Rightarrow> ('d, 'h) kernel res" where
  "serve_call C tid k =
     rbind (get_task tid k) (\<lambda>t.
       let ctx = ctx_move_next (fcontext (thr_context t)); k1 = put_task tid (set_fcontext ctx t) k in
       rbind (read_frame ctx) (\<lambda>(sid, args).
       rbind (handle C \<lparr>entity = 0, flow = 0\<rparr> sid args k1) (\<lambda>(syscall_ret, k2).
       rbind (cur_proc k2) (\<lambda>(i, p).
       rbind (get_task tid k2) (\<lambda>t2.
       rbind (handle_signals (proc_signal p) (fcontext (thr_context t2))) (\<lambda>(sr, s, ctx2).
         let k3 = put_task tid (set_fcontext ctx2 t2) (put_proc i (p\<lparr>proc_signal := s\<rparr>) k2) in
         case sr of
           ProcessKilled exit_code \<Rightarrow> exit_current (word_of_int exit_code) k3
         | _ \<Rightarrow> finish_call sid syscall_ret tid k3))))))"

text \<open>One turn of the loop; the boolean is false when there was no task and the loop is left.\<close>

definition main_turn ::
    "('d, 'h) kernel containers \<Rightarrow> 'h user_code \<Rightarrow> ('d, 'h) kernel \<Rightarrow> (bool \<times> ('d, 'h) kernel) res" where
  "main_turn C run k =
     rbind (ptm_find_next thread_manage thread_schedule (k_processor k)) (\<lambda>(r, pm).
       let k0 = k\<lparr>k_processor := pm\<rparr> in
       case r of
         Some task \<Rightarrow>
           rbind (unwrap (pt_current pm)) (\<lambda>tid.
             let (trap, k1) = run_task run tid task k0 in
             rbind (case trap of UserEnvCall \<Rightarrow> serve_call C tid k1 | OtherTrap \<Rightarrow> exit_current (- 3) k1) (\<lambda>k2.
               Inr (True, k2)))
       | None \<Rightarrow> Inr (False, k0\<lparr>k_stdout := k_stdout k0 @ [0x6E, 0x6F, 0x20, 0x74, 0x61, 0x73, 0x6B, 0x0A]\<rparr>))"

partial_function (option) main_loop ::
    "('d, 'h) kernel containers \<Rightarrow> 'h user_code \<Rightarrow> ('d, 'h) kernel \<Rightarrow> ('d, 'h) kernel res option" where
  "main_loop C run k =
     (case main_turn C run k of
        Inl e \<Rightarrow> Some (Inl e)
      | Inr (go, k1) \<Rightarrow> if go then main_loop C run k1 else Some (Inr k1))"

end
