(* ===== verification/Kernel_Inv.thy ===== *)
theory Kernel_Inv
  imports Kernel_Loop
begin

text \<open>
  The invariant of the chapter 8 kernel and its proof: every system call and every turn of the main loop
  keeps the process and thread tables, their identifiers and counters, the register files and the
  signal modules consistent. The proof is one rule per primitive change of the state
  (collection \<open>kernel_keeps\<close>), and one short lemma per system call over them.
\<close>

section \<open>Views of the kernel state\<close>

definition k_tasks :: "('d, 'h) kernel \<Rightarrow> thread_id \<rightharpoonup> thread" where
  "k_tasks k = (case pt_manager (k_processor k) of None \<Rightarrow> Map.empty | Some mg \<Rightarrow> thr_tasks mg)"

definition k_ready :: "('d, 'h) kernel \<Rightarrow> thread_id list" where
  "k_ready k = (case pt_manager (k_processor k) of None \<Rightarrow> [] | Some mg \<Rightarrow> thr_ready_queue mg)"

definition k_procs :: "('d, 'h) kernel \<Rightarrow> proc_id \<rightharpoonup> process" where
  "k_procs k = (case pt_proc_manager (k_processor k) of None \<Rightarrow> Map.empty | Some pg \<Rightarrow> procs pg)"

abbreviation k_current :: "('d, 'h) kernel \<Rightarrow> thread_id option" where
  "k_current k \<equiv> pt_current (k_processor k)"

abbreviation k_owner :: "('d, 'h) kernel \<Rightarrow> thread_id \<rightharpoonup> proc_id" where
  "k_owner k \<equiv> tid2pid (k_processor k)"

abbreviation k_rels :: "('d, 'h) kernel \<Rightarrow> proc_id \<rightharpoonup> proc_thread_rel" where
  "k_rels k \<equiv> pt_rel_map (k_processor k)"

definition thread_ok :: "('d, 'h) kernel \<Rightarrow> thread_id \<Rightarrow> thread \<Rightarrow> bool" where
  "thread_ok k i t \<longleftrightarrow> thr_tid t = i \<and> i < k_tid k \<and> ctx_wf (fcontext (thr_context t))"

definition process_ok :: "('d, 'h) kernel \<Rightarrow> proc_id \<Rightarrow> process \<Rightarrow> bool" where
  "process_ok k i p \<longleftrightarrow> proc_pid p = i \<and> i < k_pid k \<and> sig_wf (proc_signal p)"

text \<open>
  The invariant: the manager's own one, process 0 is there, and every entry of the two tables carries
  its key as its identifier, an identifier that the counter has passed, a full register file and a
  well-formed signal module.
\<close>

definition kernel_inv :: "('d, 'h) kernel \<Rightarrow> bool" where
  "kernel_inv k \<longleftrightarrow> ptm_inv thr_tasks procs (k_processor k) \<and> 0 \<in> dom (k_rels k)
     \<and> (\<forall>i t. k_tasks k i = Some t \<longrightarrow> thread_ok k i t)
     \<and> (\<forall>i p. k_procs k i = Some p \<longrightarrow> process_ok k i p)"

definition running :: "thread_id \<Rightarrow> ('d, 'h) kernel \<Rightarrow> bool" where
  "running t k \<longleftrightarrow> kernel_inv k \<and> k_current k = Some t"

text \<open>Neither identifier counter is about to wrap around.\<close>

definition room :: "('d, 'h) kernel \<Rightarrow> bool" where
  "room k \<longleftrightarrow> k_pid k \<noteq> - 1 \<and> k_tid k \<noteq> - 1"

named_theorems kernel_keeps \<open>changes of the kernel state that keep the invariant\<close>

lemma running_fields [simp]:
  "running t (k\<lparr>k_phys := ph\<rparr>) = running t k" "running t (k\<lparr>k_disk := d\<rparr>) = running t k"
  "running t (k\<lparr>k_stdout := out\<rparr>) = running t k" "running t (k\<lparr>k_stdin := inp\<rparr>) = running t k"
  "running t (k\<lparr>k_time := now\<rparr>) = running t k"
  by (simp_all add: running_def kernel_inv_def k_tasks_def k_procs_def thread_ok_def process_ok_def)

lemma room_fields [simp]:
  "room (k\<lparr>k_phys := ph\<rparr>) = room k" "room (k\<lparr>k_disk := d\<rparr>) = room k"
  "room (put_proc i p k) = room k" "room (put_task j t k) = room k"
  by (simp_all add: room_def put_proc_def put_task_def Let_def)

lemma running_managers:
  assumes "running t k"
  obtains mg pg where "pt_manager (k_processor k) = Some mg" "pt_proc_manager (k_processor k) = Some pg"
    "thr_tasks mg = k_tasks k" "procs pg = k_procs k" "dom (k_procs k) = dom (k_rels k)"
    "dom (k_tasks k) = dom (k_owner k)"
proof -
  have "ptm_inv thr_tasks procs (k_processor k)" using assms by (simp add: running_def kernel_inv_def)
  then show ?thesis
    by (rule ptl.inv_managersE) (rule that, auto simp: k_tasks_def k_procs_def)
qed

lemma cur_proc_Inr:
  assumes "running t k"
  shows "cur_proc k = Inr (i, p) \<longleftrightarrow> k_owner k t = Some i \<and> k_procs k i = Some p"
proof -
  from assms obtain mg pg where "pt_manager (k_processor k) = Some mg"
    "pt_proc_manager (k_processor k) = Some pg" "thr_tasks mg = k_tasks k" "procs pg = k_procs k"
    "dom (k_procs k) = dom (k_rels k)" "dom (k_tasks k) = dom (k_owner k)"
    by (rule running_managers)
  with assms show ?thesis
    by (auto simp: cur_proc_def ptm_get_current_proc_def running_def res_eq_simps proc_table_manage_def)
qed

lemma get_task_Inr: "running t k \<Longrightarrow> get_task i k = Inr th \<longleftrightarrow> k_tasks k i = Some th"
  by (erule running_managers)
     (simp add: get_task_def ptm_get_task_def thread_manage_def unwrap_eq_Inr)

lemma cur_thread_Inr: "running t k \<Longrightarrow> cur_thread k = Inr th \<longleftrightarrow> k_tasks k t = Some th"
  by (frule running_managers)
     (auto simp: cur_thread_def ptm_current_def thread_manage_def res_eq_simps running_def k_tasks_def)

text \<open>The running thread and its process are in their tables.\<close>

lemma running_cur:
  assumes "running t k"
  obtains i p th where "k_owner k t = Some i" "cur_proc k = Inr (i, p)" "process_ok k i p"
    "cur_thread k = Inr th" "k_tasks k t = Some th" "thread_ok k t th" "k_procs k i = Some p" "i \<in> dom (k_rels k)"
proof -
  have inv: "ptm_inv thr_tasks procs (k_processor k)" and cur: "k_current k = Some t"
    using assms by (simp_all add: running_def kernel_inv_def)
  from assms obtain mg pg where m: "pt_manager (k_processor k) = Some mg"
    "pt_proc_manager (k_processor k) = Some pg" "thr_tasks mg = k_tasks k" "procs pg = k_procs k"
    "dom (k_procs k) = dom (k_rels k)" "dom (k_tasks k) = dom (k_owner k)"
    by (rule running_managers)
  from inv cur obtain i r where ir: "k_owner k t = Some i" "k_rels k i = Some r"
    by (rule ptl.current_procE)
  from ir(2) m(5) obtain p where p: "k_procs k i = Some p" by (metis domD domI)
  from ir(1) m(6) obtain th where th: "k_tasks k t = Some th" by (metis domD domI)
  have "process_ok k i p" "thread_ok k t th"
    using assms p th by (simp_all add: running_def kernel_inv_def)
  with that ir p th cur_proc_Inr [OF assms] cur_thread_Inr [OF assms] show ?thesis by blast
qed

section \<open>Primitive changes\<close>

lemma k_views_put_proc [simp]:
  "k_tasks (put_proc i p k) = k_tasks k" "k_ready (put_proc i p k) = k_ready k"
  "k_procs (put_proc i p k) = (if k_procs k i = None then k_procs k else (k_procs k)(i \<mapsto> p))"
  "k_current (put_proc i p k) = k_current k" "k_owner (put_proc i p k) = k_owner k"
  "k_rels (put_proc i p k) = k_rels k" "k_pid (put_proc i p k) = k_pid k" "k_tid (put_proc i p k) = k_tid k"
  by (auto simp: put_proc_def k_tasks_def k_ready_def k_procs_def proc_table_manage_def Let_def split: option.splits)

lemma k_views_put_task [simp]:
  "k_procs (put_task i t k) = k_procs k" "k_ready (put_task i t k) = k_ready k"
  "k_tasks (put_task i t k) = (if k_tasks k i = None then k_tasks k else (k_tasks k)(i \<mapsto> t))"
  "k_current (put_task i t k) = k_current k" "k_owner (put_task i t k) = k_owner k"
  "k_rels (put_task i t k) = k_rels k" "k_pid (put_task i t k) = k_pid k" "k_tid (put_task i t k) = k_tid k"
  by (auto simp: put_task_def k_tasks_def k_ready_def k_procs_def thread_manage_def Let_def split: option.splits)

lemma ptm_inv_views:
  "ptm_inv thr_tasks procs (k_processor k) \<longleftrightarrow>
     tree_inv (rels (k_rels k)) \<and> pt_manager (k_processor k) \<noteq> None \<and> pt_proc_manager (k_processor k) \<noteq> None
     \<and> dom (k_procs k) = dom (k_rels k) \<and> dom (k_tasks k) = dom (k_owner k)
     \<and> (\<forall>t p. k_owner k t = Some p \<longleftrightarrow> (\<exists>r. k_rels k p = Some r \<and> t \<in> set (pt_threads r)))
     \<and> (\<forall>p r. k_rels k p = Some r \<longrightarrow> distinct (pt_threads r))
     \<and> (\<forall>t. k_current k = Some t \<longrightarrow> t \<in> dom (k_owner k))"
  by (cases "pt_manager (k_processor k)"; cases "pt_proc_manager (k_processor k)")
     (simp_all add: ptm_inv_def k_procs_def k_tasks_def conj_ac)

lemma managers_put [simp]:
  "pt_manager (k_processor (put_proc i p k)) = pt_manager (k_processor k)"
  "pt_proc_manager (k_processor (put_task j t k)) = pt_proc_manager (k_processor k)"
  "pt_proc_manager (k_processor (put_proc i p k)) = None \<longleftrightarrow> pt_proc_manager (k_processor k) = None"
  "pt_manager (k_processor (put_task j t k)) = None \<longleftrightarrow> pt_manager (k_processor k) = None"
  by (simp_all add: put_proc_def put_task_def Let_def)

lemma ptm_inv_put [simp]:
  "ptm_inv thr_tasks procs (k_processor (put_proc i p k)) = ptm_inv thr_tasks procs (k_processor k)"
  "ptm_inv thr_tasks procs (k_processor (put_task j t k)) = ptm_inv thr_tasks procs (k_processor k)"
  by (auto simp: ptm_inv_views insert_absorb domI)

lemma running_put_proc [kernel_keeps]:
  "running t k \<Longrightarrow> proc_pid p = i \<Longrightarrow> sig_wf (proc_signal p) \<Longrightarrow> running t (put_proc i p k)"
  by (auto simp: running_def kernel_inv_def  process_ok_def thread_ok_def split: if_splits)

lemma running_put_task [kernel_keeps]:
  "running t k \<Longrightarrow> thr_tid th = i \<Longrightarrow> ctx_wf (fcontext (thr_context th)) \<Longrightarrow> running t (put_task i th k)"
  by (auto simp: running_def kernel_inv_def  process_ok_def thread_ok_def split: if_splits)

lemma set_fcontext_simps [simp]:
  "thr_tid (set_fcontext c t) = thr_tid t" "fcontext (thr_context (set_fcontext c t)) = c"
  "fsatp (thr_context (set_fcontext c t)) = fsatp (thr_context t)"
  by (simp_all add: set_fcontext_def)

section \<open>Operations of the processor\<close>

lemma running_processor:
  assumes "running t k" "ptm_inv thr_tasks procs pm" "pt_current pm = Some t" "0 \<in> dom (pt_rel_map pm)"
    and "k_tasks (k\<lparr>k_processor := pm\<rparr>) = k_tasks k" "k_procs (k\<lparr>k_processor := pm\<rparr>) = k_procs k"
  shows "running t (k\<lparr>k_processor := pm\<rparr>)"
  using assms by (simp add: running_def kernel_inv_def thread_ok_def process_ok_def)

lemma running_wake [kernel_keeps]:
  assumes "running t k" "wake x k = Inr k'"
  shows "running t k'"
proof (cases x)
  case None
  with assms show ?thesis by (simp add: wake_def)
next
  case (Some u)
  have inv: "ptm_inv thr_tasks procs (k_processor k)" and cur: "k_current k = Some t" "0 \<in> dom (k_rels k)"
    using assms(1) by (simp_all add: running_def kernel_inv_def)
  from inv obtain mg where mg: "pt_manager (k_processor k) = Some mg" by (rule ptl.inv_managersE)
  let ?pm = "(k_processor k)\<lparr>pt_manager := Some (s_add thread_schedule u mg)\<rparr>"
  have "k' = k\<lparr>k_processor := ?pm\<rparr>"
    using assms(2) Some mg by (simp add: wake_def processor_op_def ptm_re_enque_def)
  moreover have "running t (k\<lparr>k_processor := ?pm\<rparr>)"
    using ptl.requeue_inv(1) [OF inv mg] cur mg
    by (intro running_processor [OF assms(1)])
       (simp_all add: k_tasks_def k_procs_def tmg.items_add)
  ultimately show ?thesis by simp
qed

lemma running_wait [kernel_keeps]:
  assumes "running t k" "ptm_wait c (k_processor k) = Inr (r, pm)"
  shows "running t (k\<lparr>k_processor := pm\<rparr>)"
proof -
  have inv: "ptm_inv thr_tasks procs (k_processor k)" and cur: "k_current k = Some t" "0 \<in> dom (k_rels k)"
    using assms(1) by (simp_all add: running_def kernel_inv_def)
  have pm: "ptm_inv thr_tasks procs pm \<and> dom (pt_rel_map pm) = dom (k_rels k)"
    by (rule ptl.wait_inv [OF inv cur(1), of c]) (use assms(2) in simp)
  have "pt_current pm = Some t" "pt_manager pm = pt_manager (k_processor k)"
    "pt_proc_manager pm = pt_proc_manager (k_processor k)"
    using assms(2) cur(1) by (auto simp: ptm_wait_def res_eq_simps Let_def split_def)
  with pm cur(2) show ?thesis
    by (intro running_processor [OF assms(1)]) (simp_all add: k_tasks_def k_procs_def)
qed

lemma running_waittid [kernel_keeps]:
  assumes "running t k" "ptm_waittid c (k_processor k) = Inr (r, pm)"
  shows "running t (k\<lparr>k_processor := pm\<rparr>)"
proof -
  have inv: "ptm_inv thr_tasks procs (k_processor k)" and cur: "k_current k = Some t" "0 \<in> dom (k_rels k)"
    using assms(1) by (simp_all add: running_def kernel_inv_def)
  have pm: "ptm_inv thr_tasks procs pm \<and> dom (pt_rel_map pm) = dom (k_rels k)"
    by (rule ptl.waittid_inv [OF inv cur(1), of c]) (use assms(2) in simp)
  have "pt_current pm = Some t" "pt_manager pm = pt_manager (k_processor k)"
    "pt_proc_manager pm = pt_proc_manager (k_processor k)"
    using assms(2) cur(1) by (auto simp: ptm_waittid_def res_eq_simps Let_def split_def)
  with pm cur(2) show ?thesis
    by (intro running_processor [OF assms(1)]) (simp_all add: k_tasks_def k_procs_def)
qed

lemma running_add_proc [kernel_keeps]:
  assumes "running t k" "i \<notin> dom (k_rels k)" "i \<noteq> usize_MAX" "i \<noteq> 0" "parent \<in> dom (k_rels k)"
    and "process_ok k i proc" "processor_op (ptm_add_proc proc_table_manage i proc parent) k = Inr k'"
  shows "running t k' \<and> i \<in> dom (k_rels k') \<and> k_owner k' = k_owner k \<and> k_tid k' = k_tid k"
proof -
  have inv: "ptm_inv thr_tasks procs (k_processor k)" and cur: "k_current k = Some t" "0 \<in> dom (k_rels k)"
    using assms(1) by (simp_all add: running_def kernel_inv_def)
  from assms(7) obtain pm where pm: "ptm_add_proc proc_table_manage i proc parent (k_processor k) = Inr pm"
    and k': "k' = k\<lparr>k_processor := pm\<rparr>"
    by (auto simp: processor_op_def rbind_eq_Inr)
  have inv': "ptm_inv thr_tasks procs pm \<and> dom (pt_rel_map pm) = insert i (dom (k_rels k))"
    by (rule ptl.add_proc_inv [OF inv assms(2,3) disjI1 [OF assms(5)], of proc]) (use assms(4) pm in simp_all)
  have rest: "pt_current pm = Some t" "tid2pid pm = k_owner k" "k_tasks k' = k_tasks k"
    "k_procs k' = (k_procs k)(i \<mapsto> proc)"
    using pm cur(1)
    by (auto simp: k' ptm_add_proc_def res_eq_simps Let_def k_tasks_def k_procs_def proc_table_manage_def)
  with assms(1,6) inv' show ?thesis
    by (auto simp: running_def kernel_inv_def k' thread_ok_def process_ok_def)
qed

lemma running_add_thread [kernel_keeps]:
  assumes "running t k" "i \<notin> dom (k_owner k)" "p \<in> dom (k_rels k)" "thread_ok k i task"
    and "processor_op (ptm_add thread_manage thread_schedule i task p) k = Inr k'"
  shows "running t k'"
proof -
  have inv: "ptm_inv thr_tasks procs (k_processor k)" and cur: "k_current k = Some t" "0 \<in> dom (k_rels k)"
    using assms(1) by (simp_all add: running_def kernel_inv_def)
  from assms(5) obtain pm where pm: "ptm_add thread_manage thread_schedule i task p (k_processor k) = Inr pm"
    and k': "k' = k\<lparr>k_processor := pm\<rparr>"
    by (auto simp: processor_op_def rbind_eq_Inr)
  from assms(3) obtain r where r: "k_rels k p = Some r" by blast
  have inv': "ptm_inv thr_tasks procs pm \<and> dom (pt_rel_map pm) = dom (k_rels k)"
    by (rule ptl.add_thread_inv [OF inv r assms(2), of task]) (use pm in simp)
  have rest: "pt_current pm = Some t" "k_procs k' = k_procs k" "k_tasks k' = (k_tasks k)(i \<mapsto> task)"
    using pm cur(1) r
    by (auto simp: k' ptm_add_def res_eq_simps Let_def k_tasks_def k_procs_def thread_manage_def thread_schedule_def)
  with assms(1,4) inv' show ?thesis
    by (auto simp: running_def kernel_inv_def k' thread_ok_def process_ok_def)
qed

text \<open>Taking an identifier; identifiers below the counter are the only ones in use.\<close>

lemma running_next_pid [kernel_keeps]:
  "running t k \<Longrightarrow> k_pid k \<noteq> - 1 \<Longrightarrow> running t (k\<lparr>k_pid := k_pid k + 1\<rparr>)"
  by (auto simp: running_def kernel_inv_def k_tasks_def k_procs_def thread_ok_def process_ok_def less_inc)

lemma running_next_tid [kernel_keeps]:
  "running t k \<Longrightarrow> k_tid k \<noteq> - 1 \<Longrightarrow> running t (k\<lparr>k_tid := k_tid k + 1\<rparr>)"
  by (auto simp: running_def kernel_inv_def k_tasks_def k_procs_def thread_ok_def process_ok_def less_inc)

lemma running_fresh:
  assumes "running t k"
  shows "k_pid k \<notin> dom (k_rels k)" "k_pid k \<noteq> 0" "k_tid k \<notin> dom (k_owner k)"
proof -
  from assms have ok: "\<And>i p. k_procs k i = Some p \<Longrightarrow> i < k_pid k" "\<And>i p. k_tasks k i = Some p \<Longrightarrow> i < k_tid k"
    and z: "0 \<in> dom (k_rels k)"
    by (simp_all add: running_def kernel_inv_def process_ok_def thread_ok_def)
  from assms have d: "dom (k_procs k) = dom (k_rels k)" "dom (k_tasks k) = dom (k_owner k)"
    by (rule running_managers, simp)+
  from ok(1) d(1) z have "0 < k_pid k" by (metis domD)
  with ok d show "k_pid k \<notin> dom (k_rels k)" "k_pid k \<noteq> 0" "k_tid k \<notin> dom (k_owner k)"
    by (metis domD order_less_irrefl)+
qed

section \<open>System calls\<close>

definition call_ok :: "('d, 'h) kernel sys \<Rightarrow> bool" where
  "call_ok f \<longleftrightarrow> (\<forall>t k r k'. running t k \<longrightarrow> room k \<longrightarrow> f k = Inr (r, k') \<longrightarrow> running t k')"

lemma call_okI:
  "(\<And>t k r k'. running t k \<Longrightarrow> room k \<Longrightarrow> f k = Inr (r, k') \<Longrightarrow> running t k') \<Longrightarrow> call_ok f"
  by (simp add: call_ok_def)

text \<open>Most calls start from the process of the running thread.\<close>

lemma cur_proc_ok:
  assumes "running t k" "cur_proc k = Inr (i, p)"
  shows "proc_pid p = i" "sig_wf (proc_signal p)" "i \<in> dom (k_rels k)"
proof -
  from assms(1) obtain j q where "cur_proc k = Inr (j, q)" "process_ok k j q" "j \<in> dom (k_rels k)"
    by (rule running_cur)
  with assms(2) show "proc_pid p = i" "sig_wf (proc_signal p)" "i \<in> dom (k_rels k)"
    by (simp_all add: process_ok_def)
qed

lemma get_task_ok: "running t k \<Longrightarrow> get_task i k = Inr th \<Longrightarrow> thr_tid th = i \<and> ctx_wf (fcontext (thr_context th))"
  by (simp add: get_task_Inr) (simp add: running_def kernel_inv_def thread_ok_def)

lemma cur_thread_ok: "running t k \<Longrightarrow> cur_thread k = Inr th \<Longrightarrow> thr_tid th = t \<and> ctx_wf (fcontext (thr_context th))"
  by (simp add: cur_thread_Inr) (simp add: running_def kernel_inv_def thread_ok_def)

lemmas call_facts = cur_proc_ok running_put_proc

lemma running_read_console [simp]: "running t (read_console n ptr k) = running t k"
  by (induction n arbitrary: ptr k) (auto simp: console_getchar_def split: list.split)

lemma ch8_io_ok:
  "call_ok (ch8_write E clr fd buf cnt)" "call_ok (ch8_read E clr fd buf cnt)"
  "call_ok (ch8_open E clr path flags)" "call_ok (ch8_close clr fd)"
proof -
  show "call_ok (ch8_write E clr fd buf cnt)"
    by (rule call_okI) (auto simp: ch8_write_def call_facts elim!: rbindE split: option.splits if_splits)
  show "call_ok (ch8_read E clr fd buf cnt)"
    by (rule call_okI) (auto simp: ch8_read_def call_facts elim!: rbindE split: option.splits if_splits)
  show "call_ok (ch8_open E clr path flags)"
    by (rule call_okI) (auto simp: ch8_open_def call_facts elim!: rbindE split: option.splits)
  show "call_ok (ch8_close clr fd)"
    by (rule call_okI) (auto simp: ch8_close_def call_facts elim!: rbindE split: if_splits)
qed

lemma map_portal_Inr: "map_portal sp k = Inr k' \<Longrightarrow> \<exists>ph. k' = k\<lparr>k_phys := ph\<rparr>"
  by (auto simp: map_portal_def rbind_eq_Inr)

text \<open>A process built from an executable takes the next two identifiers and writes to memory only.\<close>

lemma from_elf_cases:
  assumes "from_elf E elf k = Inr (r, k1)"
  obtains "r = None" "k1 = k"
  | p0 thr ph where "r = Some (p0, thr)" "proc_pid p0 = k_pid k" "proc_signal p0 = signal_impl_new"
      "thr_tid thr = k_tid k" "ctx_wf (fcontext (thr_context thr))"
      "k1 = k\<lparr>k_phys := ph, k_tid := k_tid k + 1, k_pid := k_pid k + 1\<rparr>"
proof (cases "elf_header64 elf \<and> elf_executable elf \<and> elf_riscv elf")
  case False
  with assms have "r = None" "k1 = k" by (auto simp: from_elf_def)
  then show thesis by (rule that(1))
next
  case True
  with assms obtain sp ph k2 p0 ctx where
    k2: "map_portal sp (k\<lparr>k_phys := ph\<rparr>) = Inr k2" and ctx: "ctx_set_sp (push_bit 38 1) (ctx_user (elf_entry elf)) = Inr ctx"
    and r: "r = Some (p0, \<lparr>thr_tid = k_tid k2, thr_context = \<lparr>fcontext = ctx, fsatp = satp_of sp\<rparr>\<rparr>)"
    and p0: "proc_pid p0 = k_pid k2" "proc_signal p0 = signal_impl_new"
    and k1: "k1 = k2\<lparr>k_tid := k_tid k2 + 1, k_pid := k_pid k2 + 1\<rparr>"
    by (auto simp: from_elf_def rbind_eq_Inr Let_def proc_id_new_def thread_new_def thread_id_new_def)
  from map_portal_Inr [OF k2] obtain ph1 where k2': "k2 = k\<lparr>k_phys := ph1\<rparr>" by auto
  have "ctx_wf ctx" using ctx by (auto simp: ctx_set_sp_def ctx_set_x_def ctx_wf_def ctx_user_def split: if_splits)
  with r p0 k1 show thesis by (intro that(2) [OF r, of ph1]) (simp_all add: k2')
qed

lemma from_elf_ok:
  assumes "running t k" "room k" "from_elf E elf k = Inr (r, k1)"
  shows "running t k1 \<and> (\<forall>proc thr. r = Some (proc, thr) \<longrightarrow> ctx_wf (fcontext (thr_context thr)))"
  using assms(3)
proof (cases rule: from_elf_cases)
  case 1
  with assms(1) show ?thesis by simp
next
  case (2 p0 thr ph)
  have "running t (k\<lparr>k_phys := ph\<rparr>)" "k_tid (k\<lparr>k_phys := ph\<rparr>) \<noteq> - 1" "k_pid k \<noteq> - 1"
    using assms(1,2) by (simp_all add: room_def)
  from running_next_pid [OF running_next_tid [OF this(1,2)]] this(3) 2 show ?thesis by simp
qed

lemma process_exec_ok:
  assumes "running t k" "room k" "cur_proc k0 = Inr (i, p)" "running t k0" "process_exec E i p elf k = Inr k'"
  shows "running t k'"
proof -
  from assms(5) obtain proc thr k1 t0 task where
    k1: "from_elf E elf k = Inr (Some (proc, thr), k1)"
    and task: "get_task t0 (put_proc i (p\<lparr>address_space := address_space proc\<rparr>) k1) = Inr task"
    and k': "k' = put_task t0 (task\<lparr>thr_context := thr_context thr\<rparr>)
               (put_proc i (p\<lparr>address_space := address_space proc\<rparr>) k1)"
    by (auto simp: process_exec_def rbind_eq_Inr unwrap_eq_Inr Let_def)
  from from_elf_ok [OF assms(1,2) k1] have ok: "running t k1" "ctx_wf (fcontext (thr_context thr))" by auto
  have "running t (put_proc i (p\<lparr>address_space := address_space proc\<rparr>) k1)"
    using cur_proc_ok [OF assms(4,3)] ok(1) by (intro running_put_proc) simp_all
  with get_task_ok [OF this task] ok(2) show ?thesis unfolding k' by (intro running_put_task) simp_all
qed

lemma process_fork_ok:
  assumes "running t k" "room k" "process_fork E p k = Inr ((proc, thr), k1)" "sig_wf (proc_signal p)"
  shows "running t k1" "k_rels k1 = k_rels k" "k_owner k1 = k_owner k"
    "process_ok k1 (k_pid k) proc" "thread_ok k1 (k_tid k) thr"
    "proc_pid proc = k_pid k" "thr_tid thr = k_tid k"
proof -
  let ?k0 = "k\<lparr>k_pid := k_pid k + 1\<rparr>"
  from assms(3) obtain sp ph k2 t0 task where
    k2: "map_portal sp (?k0\<lparr>k_phys := ph\<rparr>) = Inr k2" and task: "get_task t0 k2 = Inr task"
    and new: "thr = \<lparr>thr_tid = k_tid k2, thr_context = \<lparr>fcontext = fcontext (thr_context task), fsatp = satp_of sp\<rparr>\<rparr>"
    and k1: "k1 = k2\<lparr>k_tid := k_tid k2 + 1\<rparr>"
    and proc: "proc_pid proc = k_pid k" "proc_signal proc = from_fork (proc_signal p)"
    by (auto simp: process_fork_def rbind_eq_Inr Let_def proc_id_new_def thread_new_def thread_id_new_def)
  from map_portal_Inr [OF k2] obtain ph1 where k2': "k2 = ?k0\<lparr>k_phys := ph1\<rparr>" by auto
  have "running t ?k0" using assms(1,2) by (intro running_next_pid) (simp_all add: room_def)
  then have r2: "running t k2" "k_tid k2 \<noteq> - 1" using assms(2) by (simp_all add: k2' room_def)
  note n = running_next_tid [OF r2]
  have pid: "k_pid k < k_pid k + 1" "k_tid k < k_tid k + 1"
    using assms(2) by (simp_all add: room_def inc_less)
  show "running t k1" "k_rels k1 = k_rels k" "k_owner k1 = k_owner k" "proc_pid proc = k_pid k" "thr_tid thr = k_tid k"
    using n proc by (simp_all add: k1 k2' new)
  show "process_ok k1 (k_pid k) proc"
    using proc pid sig_wf_from_fork [OF assms(4)] by (simp add: process_ok_def k1 k2')
  show "thread_ok k1 (k_tid k) thr"
    using pid get_task_ok [OF r2(1) task] by (simp add: thread_ok_def new k1 k2')
qed

lemma ch8_fork_ok: "call_ok (ch8_fork E clr)"
proof (rule call_okI)
  fix t k r k'
  assume k: "running t k" "room k" "ch8_fork E clr k = Inr (r, k')"
  then obtain i p proc thr k1 ctx k2 where
    p: "cur_proc k = Inr (i, p)" and f: "process_fork E p k = Inr ((proc, thr), k1)"
    and ctx: "ctx_set_a 0 0 (fcontext (thr_context thr)) = Inr ctx"
    and k2: "processor_op (ptm_add_proc proc_table_manage (proc_pid proc) proc (proc_pid p)) k1 = Inr k2"
    and k3: "processor_op (ptm_add thread_manage thread_schedule (thr_tid thr)
               (thr\<lparr>thr_context := (thr_context thr)\<lparr>fcontext := ctx\<rparr>\<rparr>) (proc_pid proc)) k2 = Inr k'"
    by (auto simp: ch8_fork_def Let_def elim!: rbindE)
  note p_ok = cur_proc_ok [OF k(1) p]
  note f_ok = process_fork_ok [OF k(1,2) f p_ok(2)]
  note fresh = running_fresh [OF k(1)]
  have "running t k2 \<and> proc_pid proc \<in> dom (k_rels k2) \<and> k_owner k2 = k_owner k1 \<and> k_tid k2 = k_tid k1"
    using f_ok fresh p_ok k(2)
    by (intro running_add_proc [OF f_ok(1) _ _ _ _ _ k2]) (simp_all add: usize_MAX_def room_def)
  with f_ok fresh show "running t k'"
    by (intro running_add_thread [OF _ _ _ _ k3])
       (auto simp: thread_ok_def intro: ctx_set_a_keeps_wf [OF _ ctx])
qed

lemma ch8_process_ok:
  "call_ok (ch8_exit clr code)" "call_ok (ch8_exec E clr path cnt)" "call_ok (ch8_wait E clr pid ptr)"
  "call_ok (ch8_getpid clr)"
proof -
  show "call_ok (ch8_exit clr code)" by (rule call_okI) (simp add: ch8_exit_def)
  show "call_ok (ch8_exec E clr path cnt)"
  proof (rule call_okI)
    fix t k r k'
    assume k: "running t k" "room k" "ch8_exec E clr path cnt k = Inr (r, k')"
    have exec: "running t k'" if "cur_proc k = Inr (i, p)" "process_exec E i p elf (k\<lparr>k_disk := d\<rparr>) = Inr k'"
      for i p elf d
      using process_exec_ok [OF _ _ that(1) k(1) that(2)] k(1,2) by simp
    from k show "running t k'"
      by (auto simp: ch8_exec_def Let_def intro: exec elim!: rbindE split: option.splits)
  qed
  show "call_ok (ch8_wait E clr pid ptr)"
    by (rule call_okI) (auto simp: ch8_wait_def Let_def running_wait elim!: rbindE split: option.splits)
  show "call_ok (ch8_getpid clr)" by (rule call_okI) (auto simp: ch8_getpid_def elim!: rbindE)
qed

lemma ch8_clock_ok: "call_ok (ch8_clock_gettime E clr cid tp)"
  by (rule call_okI) (auto simp: ch8_clock_gettime_def Let_def elim!: rbindE split: option.splits if_splits)

text \<open>\<^verbatim>\<open>kill\<close> acts on any process of the table.\<close>

lemma get_proc_ok:
  assumes "running t k" "ptm_get_proc proc_table_manage i (k_processor k) = Inr (Some p)"
  shows "proc_pid p = i" "sig_wf (proc_signal p)"
proof -
  have "k_procs k i = Some p"
    using assms(2) by (auto simp: ptm_get_proc_def k_procs_def proc_table_manage_def rbind_eq_Inr unwrap_eq_Inr)
  with assms(1) show "proc_pid p = i" "sig_wf (proc_signal p)"
    by (simp_all add: running_def kernel_inv_def process_ok_def)
qed

lemma sigaction_old_ok: "running t k \<Longrightarrow> sigaction_old E p n old k = Inr (b, k') \<Longrightarrow> running t k'"
  by (auto simp: sigaction_old_def elim!: rbindE split: if_splits option.splits)

lemma sigaction_new_ok:
  "running t k \<Longrightarrow> proc_pid p = i \<Longrightarrow> sig_wf (proc_signal p) \<Longrightarrow> sigaction_new E i p n a k = Inr (b, k') \<Longrightarrow>
     running t k'"
  by (auto simp: sigaction_new_def elim!: rbindE split: if_splits option.splits
      intro!: running_put_proc) (erule (1) sig_wf_set_action)

lemma ch8_signal_ok:
  "call_ok (ch8_kill clr pid n)" "call_ok (ch8_sigaction E clr n act old)" "call_ok (ch8_sigprocmask clr msk)"
  "call_ok (ch8_sigreturn clr)"
proof -
  show "call_ok (ch8_kill clr pid n)"
    by (rule call_okI)
       (auto simp: ch8_kill_def add_signal_def get_proc_ok elim!: rbindE split: option.splits if_splits
         intro!: running_put_proc)
  show "call_ok (ch8_sigaction E clr n act old)"
  proof (rule call_okI)
    fix t k r k'
    assume k: "running t k" "room k" "ch8_sigaction E clr n act old k = Inr (r, k')"
    have new: "running t k'"
      if "cur_proc k = Inr (i, p)" "sigaction_old E p sn old k = Inr (b, k1)" "sigaction_new E i p sn act k1 = Inr (c, k')"
      for i p sn b k1 c
      using cur_proc_ok [OF k(1) that(1)] sigaction_new_ok [OF sigaction_old_ok [OF k(1) that(2)] _ _ that(3)] by simp
    from k show "running t k'"
      by (auto simp: ch8_sigaction_def elim!: rbindE split: option.splits if_splits)
         (erule sigaction_old_ok [OF k(1)], (erule (2) new)+)
  qed
  show "call_ok (ch8_sigprocmask clr msk)"
    by (rule call_okI)
       (auto simp: ch8_sigprocmask_def update_mask_def set_new_def call_facts elim!: rbindE)
  show "call_ok (ch8_sigreturn clr)"
  proof (rule call_okI)
    fix t k r k'
    assume k: "running t k" "room k" "ch8_sigreturn clr k = Inr (r, k')"
    then obtain i p th where p: "cur_proc k = Inr (i, p)" and th: "cur_thread k = Inr th"
      by (auto simp: ch8_sigreturn_def elim!: rbindE)
    obtain ok s ctx where s: "sig_return (proc_signal p) (fcontext (thr_context th)) = (ok, s, ctx)"
      by (cases "sig_return (proc_signal p) (fcontext (thr_context th))")
    have k': "k' = put_task t (set_fcontext ctx th) (put_proc i (p\<lparr>proc_signal := s\<rparr>) k)"
      using k by (simp add: ch8_sigreturn_def p th s running_def)
    have "sig_wf s \<and> ctx_wf ctx"
      using cur_proc_ok(2) [OF k(1) p] cur_thread_ok [OF k(1) th] s
      by (auto simp: sig_return_def sig_wf_def split: option.splits handling_signal.splits)
    with cur_proc_ok [OF k(1) p] cur_thread_ok [OF k(1) th] k(1) show "running t k'"
      unfolding k' by (intro running_put_task running_put_proc) simp_all
  qed
qed

lemma ch8_sync_ok:
  "call_ok (ch8_semaphore_create clr n)" "call_ok (ch8_semaphore_up clr sid)" "call_ok (ch8_semaphore_down clr sid)"
  "call_ok (ch8_mutex_create clr b)" "call_ok (ch8_mutex_unlock clr sid)" "call_ok (ch8_mutex_lock clr sid)"
  "call_ok (ch8_condvar_create clr n)" "call_ok (ch8_condvar_signal clr sid)" "call_ok (ch8_condvar_wait clr sid mid)"
proof -
  show "call_ok (ch8_semaphore_create clr n)" "call_ok (ch8_mutex_create clr b)" "call_ok (ch8_condvar_create clr n)"
    by (rule call_okI; auto simp: ch8_semaphore_create_def ch8_mutex_create_def ch8_condvar_create_def Let_def split_def
        call_facts elim!: rbindE)+
  show "call_ok (ch8_semaphore_up clr sid)" "call_ok (ch8_mutex_unlock clr sid)" "call_ok (ch8_condvar_signal clr sid)"
    by (rule call_okI; auto simp: ch8_semaphore_up_def ch8_mutex_unlock_def ch8_condvar_signal_def Let_def split_def
        elim!: rbindE; erule running_wake [rotated]; simp add: call_facts)+
  show "call_ok (ch8_semaphore_down clr sid)" "call_ok (ch8_mutex_lock clr sid)"
    by (rule call_okI; auto simp: ch8_semaphore_down_def ch8_mutex_lock_def Let_def split_def call_facts elim!: rbindE)+
  show "call_ok (ch8_condvar_wait clr sid mid)"
    by (rule call_okI)
       (auto simp: ch8_condvar_wait_def elim!: rbindE; erule running_wake [rotated]; simp add: call_facts)
qed

lemma ch8_thread_ok:
  "call_ok (ch8_thread_create E clr entry arg)" "call_ok (ch8_gettid clr)" "call_ok (ch8_waittid clr tid)"
proof -
  show "call_ok (ch8_gettid clr)" by (rule call_okI) (auto simp: ch8_gettid_def elim!: rbindE)
  show "call_ok (ch8_waittid clr tid)"
    by (rule call_okI) (auto simp: ch8_waittid_def running_waittid elim!: rbindE split: if_splits)
  show "call_ok (ch8_thread_create E clr entry arg)"
  proof (rule call_okI)
    fix t k r k'
    assume k: "running t k" "room k" "ch8_thread_create E clr entry arg k = Inr (r, k')"
    then obtain i p sp ph ctx1 ctx2 sv k2 where p: "cur_proc k = Inr (i, p)"
      and c1: "ctx_set_sp sv (ctx_user entry) = Inr ctx1" and c2: "ctx_set_a 0 arg ctx1 = Inr ctx2"
      and k2: "k2 = put_proc i (p\<lparr>address_space := sp\<rparr>) (k\<lparr>k_phys := ph\<rparr>)"
      and k3: "processor_op (ptm_add thread_manage thread_schedule (k_tid k2)
          \<lparr>thr_tid = k_tid k2, thr_context = \<lparr>fcontext = ctx2, fsatp = satp_of sp\<rparr>\<rparr> (proc_pid p))
          (k2\<lparr>k_tid := k_tid k2 + 1\<rparr>) = Inr k'"
      by (auto simp: ch8_thread_create_def Let_def thread_new_def thread_id_new_def elim!: rbindE)
    note p_ok = cur_proc_ok [OF k(1) p]
    have r2: "running t k2" using p_ok k(1) unfolding k2 by (intro running_put_proc) simp_all
    have tid: "k_tid k2 \<noteq> - 1" using k(2) by (simp add: k2 room_def)
    have "ctx_wf ctx1" using c1 by (auto simp: ctx_set_sp_def ctx_set_x_def ctx_wf_def ctx_user_def split: if_splits)
    from ctx_set_a_keeps_wf [OF this c2] have "thread_ok (k2\<lparr>k_tid := k_tid k2 + 1\<rparr>) (k_tid k2)
        \<lparr>thr_tid = k_tid k2, thr_context = \<lparr>fcontext = ctx2, fsatp = satp_of sp\<rparr>\<rparr>"
      using inc_less [OF tid] by (simp add: thread_ok_def)
    with running_next_tid [OF r2 tid] running_fresh(3) [OF r2] p_ok(1,3) show "running t k'"
      by (intro running_add_thread [OF _ _ _ _ k3]) (simp_all add: k2)
  qed
qed

section \<open>Dispatch\<close>

lemmas ch8_calls_ok =
  ch8_io_ok ch8_fork_ok ch8_process_ok ch8_clock_ok ch8_signal_ok ch8_sync_ok ch8_thread_ok

text \<open>The outcome of a dispatched call: a panic, or a state in which the same thread runs.\<close>

definition served :: "thread_id \<Rightarrow> (syscall_result \<times> ('d, 'h) kernel) res \<Rightarrow> bool" where
  "served t r = (case r of Inl e \<Rightarrow> True | Inr (ret, k) \<Rightarrow> running t k)"

lemma served_simps [simp]: "served t (Inl e)" "served t (Inr (ret, k)) = running t k"
  by (simp_all add: served_def)

lemma served_call:
  "running t k \<Longrightarrow> room k \<Longrightarrow> call_ok (f x) \<Longrightarrow> served t (container_call (Some x) sid f k)"
  by (cases "f x k") (auto simp: container_call_def call_ok_def)

lemma served_unregistered: "running t k \<Longrightarrow> served t (container_call None sid f k)"
  by (simp add: container_call_def)

lemma ch8_containers_simps [simp]:
  "c_io (ch8_containers E) = Some (ch8_io E)" "c_process (ch8_containers E) = Some (ch8_process E)"
  "c_memory (ch8_containers E) = None" "c_scheduling (ch8_containers E) = Some ch8_scheduling"
  "c_clock (ch8_containers E) = Some (ch8_clock E)" "c_signal (ch8_containers E) = Some (ch8_signal E)"
  "c_thread (ch8_containers E) = Some (ch8_thread E)" "c_sync_mutex (ch8_containers E) = Some ch8_sync_mutex"
  by (simp_all add: ch8_containers_def init_io_def init_process_def init_scheduling_def init_clock_def
      init_signal_def init_thread_def init_sync_mutex_def container_init_def containers_new_def container_new_def)

lemma sched_yield_ok: "call_ok (ch8_sched_yield clr)"
  by (rule call_okI) (simp add: ch8_sched_yield_def)

lemma trait_calls_ok:
  "call_ok (sys_write (ch8_io E) clr a b c)" "call_ok (sys_read (ch8_io E) clr a b c)"
  "call_ok (sys_open (ch8_io E) clr a b)" "call_ok (sys_close (ch8_io E) clr a)"
  "call_ok (sys_exit (ch8_process E) clr a)" "call_ok (sys_fork (ch8_process E) clr)"
  "call_ok (sys_exec (ch8_process E) clr a b)" "call_ok (sys_wait (ch8_process E) clr a b)"
  "call_ok (sys_getpid (ch8_process E) clr)" "call_ok (sys_clock_gettime (ch8_clock E) clr a b)"
  "call_ok (sys_sched_yield ch8_scheduling clr)" "call_ok (sys_kill (ch8_signal E) clr a n)"
  "call_ok (sys_sigaction (ch8_signal E) clr n a b)" "call_ok (sys_sigprocmask (ch8_signal E) clr a)"
  "call_ok (sys_sigreturn (ch8_signal E) clr)" "call_ok (sys_waittid (ch8_thread E) clr a)"
  "call_ok (sys_gettid (ch8_thread E) clr)" "call_ok (sys_thread_create (ch8_thread E) clr a b)"
  by (simp_all add: ch8_io_def ch8_process_def ch8_clock_def ch8_scheduling_def ch8_signal_def ch8_thread_def
      ch8_calls_ok sched_yield_ok)

lemma trait_sync_ok:
  "call_ok (sys_semaphore_create ch8_sync_mutex clr a)" "call_ok (sys_semaphore_up ch8_sync_mutex clr a)"
  "call_ok (sys_semaphore_down ch8_sync_mutex clr a)" "call_ok (sys_mutex_create ch8_sync_mutex clr x)"
  "call_ok (sys_mutex_lock ch8_sync_mutex clr a)" "call_ok (sys_mutex_unlock ch8_sync_mutex clr a)"
  "call_ok (sys_condvar_create ch8_sync_mutex clr a)" "call_ok (sys_condvar_signal ch8_sync_mutex clr a)"
  "call_ok (sys_condvar_wait ch8_sync_mutex clr a b)"
  by (simp_all add: ch8_sync_mutex_def ch8_calls_ok)

lemma handle_served:
  assumes "running t k" "room k"
  shows "served t (handle (ch8_containers E) clr sid args k)"
proof -
  obtain a0 a1 a2 a3 a4 a5 where args: "args = (a0, a1, a2, a3, a4, a5)" by (cases args)
  show ?thesis
    unfolding handle_def args Let_def prod.case ch8_containers_simps
    by (split if_split, intro conjI impI)+
       (simp_all add: served_call [OF assms] served_unregistered [OF assms(1)] trait_calls_ok trait_sync_ok assms(1))
qed

section \<open>A turn of the main loop\<close>

text \<open>Between two turns no thread runs.\<close>

definition idle :: "('d, 'h) kernel \<Rightarrow> bool" where
  "idle k \<longleftrightarrow> kernel_inv k \<and> k_current k = None"

lemma idle_find_next:
  assumes "idle k" "ptm_find_next thread_manage thread_schedule (k_processor k) = Inr (Some task, pm)"
  obtains t where "pt_current pm = Some t" "running t (k\<lparr>k_processor := pm\<rparr>)" "thr_tid task = t"
    "k_tasks (k\<lparr>k_processor := pm\<rparr>) t = Some task"
proof -
  have inv: "ptm_inv thr_tasks procs (k_processor k)" and cur: "k_current k = None"
    using assms(1) by (simp_all add: idle_def kernel_inv_def)
  have pm: "ptm_inv thr_tasks procs pm \<and> pt_rel_map pm = k_rels k"
    by (rule ptl.find_next_inv [OF inv cur]) (use assms(2) in simp)
  from inv obtain mg where mg: "pt_manager (k_processor k) = Some mg" by (rule ptl.inv_managersE)
  from assms(2) mg obtain t q where t: "pt_current pm = Some t" "thr_tasks mg t = Some task"
    "pt_manager pm = Some (mg\<lparr>thr_ready_queue := q\<rparr>)" "pt_proc_manager pm = pt_proc_manager (k_processor k)"
    by (cases "thr_ready_queue mg")
       (auto simp: ptm_find_next_def thread_manage_def thread_schedule_def split: option.splits)
  then have v: "k_tasks (k\<lparr>k_processor := pm\<rparr>) = k_tasks k" "k_procs (k\<lparr>k_processor := pm\<rparr>) = k_procs k"
    "k_tasks k t = Some task"
    using mg by (simp_all add: k_tasks_def k_procs_def)
  have "running t (k\<lparr>k_processor := pm\<rparr>)" "thr_tid task = t"
    using assms(1) pm v t(1) by (simp_all add: running_def idle_def kernel_inv_def thread_ok_def process_ok_def)
  with that t(1) v show ?thesis by simp
qed

lemma idle_find_none:
  assumes "idle k" "ptm_find_next thread_manage thread_schedule (k_processor k) = Inr (None, pm)"
  shows "idle (k\<lparr>k_processor := pm\<rparr>)"
proof -
  have inv: "ptm_inv thr_tasks procs (k_processor k)" and cur: "k_current k = None"
    using assms(1) by (simp_all add: idle_def kernel_inv_def)
  have pm: "ptm_inv thr_tasks procs pm \<and> pt_rel_map pm = k_rels k"
    by (rule ptl.find_next_inv [OF inv cur]) (use assms(2) in simp)
  from inv obtain mg where mg: "pt_manager (k_processor k) = Some mg" by (rule ptl.inv_managersE)
  from assms(2) mg have "\<exists>q. pm = (k_processor k)\<lparr>pt_manager := Some (mg\<lparr>thr_ready_queue := q\<rparr>)\<rparr>"
    by (cases "thr_ready_queue mg")
       (auto simp: ptm_find_next_def thread_manage_def thread_schedule_def split: option.splits)
  then have "k_tasks (k\<lparr>k_processor := pm\<rparr>) = k_tasks k" "k_procs (k\<lparr>k_processor := pm\<rparr>) = k_procs k"
    "pt_current pm = None"
    using mg cur by (auto simp: k_tasks_def k_procs_def)
  with assms(1) pm show ?thesis by (simp add: idle_def kernel_inv_def thread_ok_def process_ok_def)
qed

lemma idle_suspend:
  assumes "running t k" "suspend_current k = Inr k'"
  shows "idle k'"
proof -
  have inv: "ptm_inv thr_tasks procs (k_processor k)" and cur: "k_current k = Some t"
    using assms(1) by (simp_all add: running_def kernel_inv_def)
  from inv obtain mg where mg: "pt_manager (k_processor k) = Some mg" by (rule ptl.inv_managersE)
  let ?pm = "(k_processor k)\<lparr>pt_manager := Some (s_add thread_schedule t mg), pt_current := None\<rparr>"
  have "k' = k\<lparr>k_processor := ?pm\<rparr>"
    using assms(2) cur mg by (simp add: suspend_current_def processor_op_def ptm_make_current_suspend_def)
  with ptl.requeue_inv(2) [OF inv mg, of t] assms(1) mg show ?thesis
    by (simp add: running_def idle_def kernel_inv_def thread_ok_def process_ok_def k_tasks_def k_procs_def tmg.items_add)
qed

lemma idle_block: "running t k \<Longrightarrow> block_current k = Inr k' \<Longrightarrow> idle k'"
  by (auto simp: block_current_def processor_op_def ptm_make_current_blocked_def running_def idle_def kernel_inv_def
      ptm_inv_def k_tasks_def k_procs_def thread_ok_def process_ok_def)

text \<open>After the exit of the last thread of process 0 there is no process 0.\<close>

lemma adopt_without_init: "rel 0 = None \<Longrightarrow> rfold pt_adopt_child cs rel = Inr rel' \<Longrightarrow> cs = []"
proof (cases cs)
  case (Cons c ds)
  assume "rel 0 = None" "rfold pt_adopt_child cs rel = Inr rel'"
  with Cons show ?thesis by (cases "c = 0") (auto simp: pt_adopt_child_def Let_def elim!: rbindE)
qed simp

lemma exit_of_init:
  assumes "pt_current pm = Some t" "tid2pid pm t = Some 0" "pt_rel_map pm 0 = Some r" "pt_threads r = [t]"
    and "ptm_make_current_exited thread_manage proc_table_manage code pm = Inr pm'"
  shows "0 \<notin> dom (pt_rel_map pm')"
proof -
  let ?r = "del_thread t code r"
  have d: "pt_threads ?r = []" "pt_children ?r = pt_children r" "pt_parent ?r = pt_parent r"
    using assms(4) by (simp_all add: del_thread_def remove_at_def)
  let ?rel = "(pt_rel_map pm)(0 := None)"
  let ?rel2 = "case ?rel (pt_parent r) of Some pr \<Rightarrow> ?rel(pt_parent r \<mapsto> pt_del_child 0 code pr) | None \<Rightarrow> ?rel"
  have z: "?rel2 0 = None" by (auto split: option.split)
  from assms d obtain rel3 where fold: "rfold pt_adopt_child (pt_children r) ?rel2 = Inr rel3"
    and pm': "pt_rel_map pm' = rel3"
    by (auto simp: ptm_make_current_exited_def ptm_del_proc_def Let_def elim!: rbindE cong: option.case_cong if_cong)
  have "pt_children r = []" by (rule adopt_without_init [OF z fold])
  with fold pm' z show ?thesis by auto
qed

lemma exited_tables:
  assumes "pt_current pm = Some t" "pt_manager pm = Some mg" "pt_proc_manager pm = Some pg"
    and "ptm_make_current_exited thread_manage proc_table_manage code pm = Inr pm'"
  shows "\<exists>mg' pg'. pt_manager pm' = Some mg' \<and> pt_proc_manager pm' = Some pg' \<and> pt_current pm' = None \<and>
     thr_tasks mg' = (thr_tasks mg)(t := None) \<and> procs pg' \<subseteq>\<^sub>m procs pg"
  using assms
  by (auto simp: ptm_make_current_exited_def ptm_del_proc_def thread_manage_def proc_table_manage_def Let_def
      map_le_def elim!: rbindE split: option.splits if_splits)

lemma idle_exit:
  assumes "running t k" "exit_current code k = Inr k'" "0 \<in> dom (k_rels k')"
  shows "idle k'"
proof -
  have inv: "ptm_inv thr_tasks procs (k_processor k)" and cur: "k_current k = Some t" "0 \<in> dom (k_rels k)"
    using assms(1) by (simp_all add: running_def kernel_inv_def)
  from assms(2) obtain pm where pm: "ptm_make_current_exited thread_manage proc_table_manage code (k_processor k) = Inr pm"
    and k': "k' = k\<lparr>k_processor := pm\<rparr>"
    by (auto simp: exit_current_def processor_op_def elim!: rbindE)
  from inv cur(1) obtain i r where ir: "k_owner k t = Some i" "k_rels k i = Some r" by (rule ptl.current_procE)
  have "i \<noteq> 0 \<or> pt_threads r \<noteq> [t]"
    using exit_of_init [OF cur(1) _ _ _ pm] ir assms(3) by (auto simp: k')
  note exit = ptl.exit_inv [OF inv cur(1) ir this cur(2), of code]
  have pm_inv: "ptm_inv thr_tasks procs pm \<and> 0 \<in> dom (pt_rel_map pm)"
    by (rule exit) (use pm in simp)
  from assms(1) obtain mg pg where m: "pt_manager (k_processor k) = Some mg" "pt_proc_manager (k_processor k) = Some pg"
    "thr_tasks mg = k_tasks k" "procs pg = k_procs k"
    by (rule running_managers)
  from exited_tables [OF cur(1) m(1,2) pm] obtain mg' pg' where "pt_manager pm = Some mg'"
    "pt_proc_manager pm = Some pg'" and none: "pt_current pm = None"
    and "thr_tasks mg' = (thr_tasks mg)(t := None)" "procs pg' \<subseteq>\<^sub>m procs pg" by auto
  then have "k_tasks k' = (thr_tasks mg)(t := None)" "k_procs k' \<subseteq>\<^sub>m procs pg"
    by (simp_all add: k' k_tasks_def k_procs_def)
  then have le: "k_tasks k' \<subseteq>\<^sub>m k_tasks k" "k_procs k' \<subseteq>\<^sub>m k_procs k"
    unfolding m(3,4) by (simp_all add: map_le_def)
  have "k_tasks k i = Some th" if "k_tasks k' i = Some th" for i th
    using le(1) that by (metis domI map_le_def)
  moreover have "k_procs k i = Some p" if "k_procs k' i = Some p" for i p
    using le(2) that by (metis domI map_le_def)
  ultimately show ?thesis
    using pm_inv none assms(1) by (simp add: idle_def running_def kernel_inv_def thread_ok_def process_ok_def k') blast
qed

lemma finish_call_idle:
  assumes "running t k" "finish_call sid ret tid k = Inr k'" "0 \<in> dom (k_rels k')"
  shows "idle k'"
proof -
  have put: "idle k'" if "get_task tid k = Inr th" "ctx_set_a 0 v (fcontext (thr_context th)) = Inr ctx"
      "suspend_current (put_task tid (set_fcontext ctx th) k) = Inr k'" for th v ctx
  proof -
    have "running t (put_task tid (set_fcontext ctx th) k)"
      using get_task_ok [OF assms(1) that(1)] ctx_set_a_keeps_wf [OF _ that(2)] assms(1)
      by (intro running_put_task) simp_all
    then show ?thesis using that(3) by (rule idle_suspend)
  qed
  show ?thesis
  proof (cases ret)
    case (Done v)
    with assms(2) have "exit_current v k = Inr k' \<or> block_current k = Inr k' \<or> suspend_current k = Inr k'
      \<or> (\<exists>th ctx. get_task tid k = Inr th \<and> ctx_set_a 0 v (fcontext (thr_context th)) = Inr ctx
           \<and> suspend_current (put_task tid (set_fcontext ctx th) k) = Inr k')"
      by (auto simp: finish_call_def elim!: rbindE split: if_splits)
    with assms put show ?thesis by (metis idle_exit idle_block idle_suspend)
  next
    case (Unsupported i)
    with assms show ?thesis by (auto simp: finish_call_def intro: idle_exit)
  qed
qed

lemma serve_call_idle:
  assumes "running t k" "room k" "serve_call (ch8_containers E) t k = Inr k'" "0 \<in> dom (k_rels k')"
  shows "idle k'"
proof -
  from assms(3) obtain th sid args ret k2 i p t2 sr s ctx2 where
    th: "get_task t k = Inr th"
    and call: "handle (ch8_containers E) \<lparr>entity = 0, flow = 0\<rparr> sid args
          (put_task t (set_fcontext (ctx_move_next (fcontext (thr_context th))) th) k) = Inr (ret, k2)"
    and p: "cur_proc k2 = Inr (i, p)" and t2: "get_task t k2 = Inr t2"
    and sig: "handle_signals (proc_signal p) (fcontext (thr_context t2)) = Inr (sr, s, ctx2)"
    and fin: "(case sr of ProcessKilled c \<Rightarrow> exit_current (word_of_int c) | _ \<Rightarrow> finish_call sid ret t)
       (put_task t (set_fcontext ctx2 t2) (put_proc i (p\<lparr>proc_signal := s\<rparr>) k2)) = Inr k'"
    by (auto simp: serve_call_def Let_def elim!: rbindE split: signal_result.splits)
  let ?k1 = "put_task t (set_fcontext (ctx_move_next (fcontext (thr_context th))) th) k"
  let ?k3 = "put_task t (set_fcontext ctx2 t2) (put_proc i (p\<lparr>proc_signal := s\<rparr>) k2)"
  have "running t ?k1" "room ?k1"
    using get_task_ok [OF assms(1) th] assms(1,2) by (auto intro!: running_put_task)
  from handle_served [OF this, of E _ sid args] call have r2: "running t k2" by (metis served_simps(2))
  have wf: "sig_wf s \<and> ctx_wf ctx2"
    using handle_signals_wf [OF cur_proc_ok(2) [OF r2 p] _ sig] get_task_ok [OF r2 t2] by simp
  have "running t ?k3"
    using wf cur_proc_ok(1) [OF r2 p] get_task_ok [OF r2 t2] r2
    by (intro running_put_task running_put_proc) simp_all
  with fin assms(4) show ?thesis
    by (auto split: signal_result.splits intro: idle_exit finish_call_idle)
qed

lemma main_turn_idle:
  assumes "idle k" "room k" "main_turn (ch8_containers E) run k = Inr (go, k')" "0 \<in> dom (k_rels k')"
    and "\<And>f ph. ctx_wf (fcontext f) \<Longrightarrow> ctx_wf (ut_context (run f ph))"
  shows "idle k'"
proof -
  from assms(3) obtain r pm where f: "ptm_find_next thread_manage thread_schedule (k_processor k) = Inr (r, pm)"
    by (auto simp: main_turn_def elim!: rbindE)
  show ?thesis
  proof (cases r)
    case None
    have "idle (k\<lparr>k_processor := pm\<rparr>)" using idle_find_none [OF assms(1) f [unfolded None]] .
    with assms(3) None show ?thesis
      by (simp add: main_turn_def f) (auto simp: idle_def kernel_inv_def k_tasks_def k_procs_def thread_ok_def process_ok_def)
  next
    case (Some task)
    let ?k0 = "k\<lparr>k_processor := pm\<rparr>"
    from idle_find_next [OF assms(1) f [unfolded Some]] obtain t where t: "pt_current pm = Some t"
      "running t ?k0" "thr_tid task = t" "k_tasks ?k0 t = Some task" by blast
    obtain trap k1 where run: "run_task run t task ?k0 = (trap, k1)" by fastforce
    have "ctx_wf (fcontext (thr_context task))"
      using t(2,4) by (simp add: running_def kernel_inv_def thread_ok_def)
    from assms(5) [OF this] have k1: "running t k1" "room k1"
      using run t(2,3) assms(2) by (auto simp: run_task_def Let_def room_def intro!: running_put_task)
    from assms(3) have "(case trap of UserEnvCall \<Rightarrow> serve_call (ch8_containers E) t | OtherTrap \<Rightarrow> exit_current (- 3)) k1 = Inr k'"
      by (cases trap) (auto simp: main_turn_def f Some t(1) run elim!: rbindE)
    with k1 assms(4) show ?thesis by (cases trap) (auto intro: serve_call_idle idle_exit)
  qed
qed

end
