(* ===== verification/Vm_Walk.thy ===== *)
theory Vm_Walk
  imports Address_Space
begin

text \<open>
  The two walks of theory \<^verbatim>\<open>Address_Space\<close> on three-level tables, in a form the proofs about address
  spaces can use: a table that covers a given page, one unfolding of each walk per level, and the lemma
  that returning from a sub-table and going on from the table above is the same as starting above.
\<close>

section \<open>Tables that cover a page\<close>

text \<open>The index of page \<^verbatim>\<open>n\<close> at a level, and the first page of the table of that level that covers it.\<close>

definition idx :: "nat \<Rightarrow> vpn \<Rightarrow> nat" where
  "idx l n = unat n div 2 ^ (9 * l) mod 512"

definition hi :: "nat \<Rightarrow> vpn \<Rightarrow> vpn" where
  "hi l n = push_bit (9 * (l + 1)) (drop_bit (9 * (l + 1)) n)"

definition tbl :: "nat \<Rightarrow> usize \<Rightarrow> vpn \<Rightarrow> page_table" where
  "tbl l ptr n = \<lparr>pt_ptr = ptr, pt_base = hi l n, pt_level = l\<rparr>"

definition page_pos :: "vpn \<Rightarrow> pos" where
  "page_pos n = \<lparr>pos_vpn = n, pos_level = 0\<rparr>"

definition same_table :: "nat \<Rightarrow> vpn \<Rightarrow> vpn \<Rightarrow> bool" where
  "same_table l n k \<longleftrightarrow> unat k div 2 ^ (9 * (l + 1)) = unat n div 2 ^ (9 * (l + 1))"

lemma tbl_simps [simp]:
  "pt_ptr (tbl l ptr n) = ptr" "pt_base (tbl l ptr n) = hi l n" "pt_level (tbl l ptr n) = l"
  by (simp_all add: tbl_def)

lemma page_pos_simps [simp]: "pos_vpn (page_pos n) = n" "pos_level (page_pos n) = 0"
  by (simp_all add: page_pos_def)

lemma idx_lt [simp]: "idx l n < 512"
  by (simp add: idx_def)

lemma index_in_idx: "l < 3 \<Longrightarrow> index_in sv39 n l = Inr (idx l n)"
  by (simp add: index_in_sv39 idx_def unat_take_bit unat_drop_bit)

lemma unat_pow2: "k < 64 \<Longrightarrow> unat (2 ^ k :: usize) = 2 ^ k"
proof -
  assume k: "k < 64"
  then have "(2 :: nat) ^ k < 2 ^ 64" by (intro power_strict_increasing) auto
  then have "unat (of_nat (2 ^ k) :: usize) = 2 ^ k"
    using k by (simp only: unsigned_of_nat) (simp add: take_bit_nat_eq_self)
  then show ?thesis by simp
qed

lemma unat_hi:
  assumes "unat n < 2 ^ 27" "l < 3"
  shows "unat (hi l n) = unat n div 2 ^ (9 * (l + 1)) * 2 ^ (9 * (l + 1))"
proof -
  define k where "k = 9 * (l + 1)"
  have k: "k < 64" using assms(2) by (simp add: k_def)
  have "unat n div 2 ^ k * 2 ^ k \<le> unat n" by simp
  also have "\<dots> < 2 ^ 64" using unsigned_less [of n, where 'a = nat] by simp
  finally have "unat (push_bit k (drop_bit k n)) = unat n div 2 ^ k * 2 ^ k"
    using k by (simp only: push_bit_eq_mult unat_word_ariths unat_drop_bit)
      (simp add: unat_pow2)
  then show ?thesis by (simp add: hi_def k_def)
qed

lemma range_same_table:
  assumes "unat n < 2 ^ 27" "l < 3"
  shows "pt_range sv39 (tbl l ptr n) = Inr (hi l n, hi l n + push_bit (9 * (l + 1)) 1)"
    and "hi l n \<le> k \<and> k < hi l n + push_bit (9 * (l + 1)) 1 \<longleftrightarrow> same_table l n k"
proof -
  show "pt_range sv39 (tbl l ptr n) = Inr (hi l n, hi l n + push_bit (9 * (l + 1)) 1)"
    using assms(2) by (simp add: pt_range_def tbl_def pages_in_table_sv39 page_add_def del: push_bit_of_1)
  define b where "b = 9 * (l + 1)"
  have b: "b \<le> 27" using assms(2) by (simp add: b_def)
  have p: "unat (push_bit b (1 :: usize)) = 2 ^ b"
    using b by (simp add: unat_pow2)
  define q where "q = unat n div 2 ^ b"
  have h: "unat (hi l n) = q * 2 ^ b" using unat_hi [OF assms] by (simp add: b_def q_def)
  have "q * 2 ^ b \<le> unat n" by (simp add: q_def)
  moreover have "(2 :: nat) ^ b \<le> 2 ^ 27" using b by (intro power_increasing) auto
  ultimately have "q * 2 ^ b + 2 ^ b < 2 ^ 64" using assms(1) by simp
  then have s: "unat (hi l n + push_bit b 1) = q * 2 ^ b + 2 ^ b"
    by (simp only: unat_word_ariths h p) simp
  have "q * 2 ^ b \<le> m \<and> m < q * 2 ^ b + 2 ^ b \<longleftrightarrow> m div 2 ^ b = q" for m :: nat
    using div_nat_eqI [of "2 ^ b" q m] dividend_less_div_times [of "2 ^ b" m]
    by (auto simp: mult.commute add.commute)
  then show "hi l n \<le> k \<and> k < hi l n + push_bit (9 * (l + 1)) 1 \<longleftrightarrow> same_table l n k"
    unfolding word_le_nat_alt word_less_nat_alt same_table_def b_def [symmetric] h s q_def [symmetric] by blast
qed

lemma root_tbl: "unat n < 2 ^ 27 \<Longrightarrow> from_root sv39 ptr = Inr (tbl 2 ptr n)"
proof -
  assume n: "unat n < 2 ^ 27"
  then have "unat (drop_bit 27 n) = 0" by (simp add: unat_drop_bit)
  then have "hi 2 n = 0" by (simp add: hi_def unsigned_eq_0_iff)
  then show ?thesis
    by (simp add: from_root_def from_raw_parts_def vec_index_def vpn_floor_def bits_until_def tbl_def)
qed

lemma idx_split:
  "unat n div 2 ^ (9 * (l + 1)) = unat n div 2 ^ (9 * (l + 2)) * 512 + idx (l + 1) n"
proof -
  have "unat n div 2 ^ (9 * (l + 2)) = unat n div 2 ^ (9 * (l + 1)) div 512"
    by (simp add: div_mult2_eq [symmetric] power_add mult.commute)
  then show ?thesis by (simp add: idx_def)
qed

lemma sub_tbl:
  assumes "unat n < 2 ^ 27" "l < 2"
  shows "sub_table sv39 (tbl (Suc l) ptr n) (hi (Suc l) n) (idx (Suc l) n) ptr1 = Inr (tbl l ptr1 n)"
proof -
  define b where "b = 9 * (l + 1)"
  have b: "b \<le> 18" using assms(2) by (simp add: b_def)
  have h0: "unat (hi l n) = unat n div 2 ^ b * 2 ^ b"
    using unat_hi [OF assms(1), of l] assms(2) by (simp add: b_def)
  have h1: "unat (hi (l + 1) n) = unat n div 2 ^ (b + 9) * 2 ^ (b + 9)"
    using unat_hi [OF assms(1), of "l + 1"] assms(2) by (simp add: b_def algebra_simps)
  have i: "unat (of_nat (idx (l + 1) n) :: usize) = idx (l + 1) n"
  proof -
    have "idx (l + 1) n < 2 ^ 64" by (rule less_trans [OF idx_lt]) simp
    then show ?thesis by (simp only: unsigned_of_nat) (simp add: take_bit_nat_eq_self)
  qed
  have p: "unat (push_bit b (1 :: usize)) = 2 ^ b" using b by (simp add: unat_pow2)
  have lt: "unat n div 2 ^ b * 2 ^ b < 2 ^ 64"
  proof -
    have "unat n div 2 ^ b * 2 ^ b \<le> unat n" by simp
    also have "\<dots> < 2 ^ 64" using unsigned_less [of n, where 'a = nat] by simp
    finally show ?thesis .
  qed
  have split: "unat n div 2 ^ b * 2 ^ b = unat n div 2 ^ (b + 9) * 2 ^ (b + 9) + idx (l + 1) n * 2 ^ b"
    using idx_split [of n l] by (simp add: b_def algebra_simps power_add)
  have "unat (of_nat (idx (l + 1) n) * push_bit b 1 :: usize) = idx (l + 1) n * 2 ^ b"
    using lt split by (simp only: unat_word_ariths i p) simp
  then have "unat (hi (l + 1) n + of_nat (idx (l + 1) n) * push_bit b 1) = unat (hi l n)"
    using lt by (simp only: unat_word_ariths h0 h1 split) simp
  then have base: "hi (l + 1) n + of_nat (idx (l + 1) n) * push_bit b 1 = hi l n"
    by (rule unsigned_word_eqI)
  have fl: "vpn_floor sv39 (hi l n) l = Inr (hi l n)"
  proof -
    have "hi l n AND NOT (vm_mask (9 * l)) = hi l n"
      by (rule bit_word_eqI) (auto simp: hi_def bit_simps bit_vm_mask)
    then show ?thesis using assms(2) by (simp add: vpn_floor_def bits_until_def)
  qed
  show ?thesis
    using assms(2) base fl
    by (simp add: sub_table_def pages_in_table_sv39 from_raw_parts_def page_add_def b_def
        tbl_def [of l] del: push_bit_of_1)
qed

lemma same_table_refl [simp]: "same_table l n n"
  by (simp add: same_table_def)

lemma same_table_tbl: "same_table l n k \<Longrightarrow> tbl l ptr k = tbl l ptr n"
proof -
  assume "same_table l n k"
  then have "drop_bit (9 * (l + 1)) k = drop_bit (9 * (l + 1)) n"
    by (simp only: word_unat_eq_iff unat_drop_bit same_table_def)
  then show ?thesis by (simp add: tbl_def hi_def)
qed

lemma same_table_up:
  assumes "same_table l n k"
  shows "same_table (Suc l) n k" "idx (Suc l) k = idx (Suc l) n"
proof -
  have *: "unat x div 2 ^ (9 * (l + 2)) = unat x div 2 ^ (9 * (l + 1)) div 512" for x :: usize
    by (simp add: div_mult2_eq [symmetric] power_add mult.commute)
  show "same_table (Suc l) n k" using assms * [of n] * [of k] by (simp add: same_table_def)
  show "idx (Suc l) k = idx (Suc l) n" using assms by (simp add: same_table_def idx_def)
qed

section \<open>Unfolding the walks\<close>

lemma pos_stop_sv39: "pos_stop sv39 = \<lparr>pos_vpn = 0, pos_level = 3\<rparr>"
  by (simp add: pos_stop_def)

lemma pt_range_tbl:
  assumes "unat n < 2 ^ 27" "l < 3"
  shows "pt_range sv39 (tbl l ptr n) = Inr (hi l n, hi l n + push_bit (9 * (l + 1)) 1)"
  using range_same_table(1) [OF assms] .

lemma walk_inner_stop:
  assumes "unat n < 2 ^ 27" "l < 3"
  shows "walk_inner sv39 V fr (tbl l ptr n) (pos_stop sv39) v = Some (Inr (pos_stop sv39, v))"
  using assms by (subst walk_inner.simps) (simp add: pt_range_tbl pos_stop_sv39 del: push_bit_of_1)

lemma walk_inner_up:
  assumes "unat n < 2 ^ 27" "l < 2" "idx (Suc l) n < length (fr (page_of ptr))"
  shows "walk_inner sv39 V fr (tbl (Suc l) ptr n) (page_pos n) v =
     (let p = fr (page_of ptr) ! idx (Suc l) n in
      if pte_is_valid p \<and> \<not> pte_is_leaf sv39 p then
        obind (Some (v_meet V (Suc l) p (page_pos n) v)) (\<lambda>(r, v1).
          case r of
            Some ptr1 \<Rightarrow>
              obind (walk_inner sv39 V fr (tbl l ptr1 n) (page_pos n) v1) (\<lambda>(target2, v2).
                walk_inner sv39 V fr (tbl (Suc l) ptr n) target2 v2)
          | None \<Rightarrow> walk_inner sv39 V fr (tbl (Suc l) ptr n) (pos_stop sv39) v1)
      else
        obind (Some (v_block V (Suc l) p (page_pos n) v)) (\<lambda>(target1, v1).
          walk_inner sv39 V fr (tbl (Suc l) ptr n) target1 v1))"
proof -
  note r = pt_range_tbl [OF assms(1), of "Suc l" ptr]
  have t: "hi (Suc l) n \<le> n" "n < hi (Suc l) n + push_bit (9 * (Suc l + 1)) 1"
    using range_same_table(2) [OF assms(1), of "Suc l" n] assms(2) by simp_all
  have i: "index_in sv39 n (Suc l) = Inr (idx (Suc l) n)" using assms(2) by (simp add: index_in_idx)
  have x: "pt_index fr (tbl (Suc l) ptr n) (idx (Suc l) n) = Inr (fr (page_of ptr) ! idx (Suc l) n)"
    using assms(3) by (simp add: pt_index_def)
  show ?thesis
    using assms(2) t
    by (subst walk_inner.simps) (simp add: r i x sub_tbl [OF assms(1,2)] Let_def del: push_bit_of_1 cong: option.case_cong if_cong)
qed

lemma walk_inner_leaf:
  assumes "unat n < 2 ^ 27" "idx 0 n < length (fr (page_of ptr))"
  shows "walk_inner sv39 V fr (tbl 0 ptr n) (page_pos n) v =
     obind (Some (v_arrive V (fr (page_of ptr) ! idx 0 n) (page_pos n) v)) (\<lambda>(target1, v1).
       walk_inner sv39 V fr (tbl 0 ptr n) target1 v1)"
proof -
  note r = pt_range_tbl [OF assms(1), of 0 ptr]
  have t: "hi 0 n \<le> n" "n < hi 0 n + push_bit (9 * (0 + 1)) 1"
    using range_same_table(2) [OF assms(1), of 0 n] by simp_all
  have i: "index_in sv39 n 0 = Inr (idx 0 n)" by (simp add: index_in_idx)
  have x: "pt_index fr (tbl 0 ptr n) (idx 0 n) = Inr (fr (page_of ptr) ! idx 0 n)"
    using assms(2) by (simp add: pt_index_def)
  show ?thesis
    using t by (subst walk_inner.simps) (simp add: r i x del: push_bit_of_1)
qed

text \<open>The same for the walk that changes the tables.\<close>

lemma walk_mut_stop:
  assumes "unat n < 2 ^ 27" "l < 3"
  shows "walk_inner_mut sv39 V (tbl l ptr n) (pos_stop sv39) st = Some (Inr (pos_stop sv39, st))"
  using assms by (subst walk_inner_mut.simps) (simp add: pt_range_tbl pos_stop_sv39 del: push_bit_of_1)

lemma walk_mut_out:
  assumes "unat n < 2 ^ 27" "l < 3" "\<not> same_table l n k"
  shows "walk_inner_mut sv39 V (tbl l ptr n) (page_pos k) st = Some (Inr (page_pos k, st))"
proof -
  define fin where "fin = hi l n + push_bit (9 * (l + 1)) 1"
  have "\<not> (hi l n \<le> k \<and> k < fin)"
    using range_same_table(2) [OF assms(1,2)] assms(3) unfolding fin_def by blast
  then show ?thesis
    using pt_range_tbl [OF assms(1,2), of ptr, folded fin_def] by (subst walk_inner_mut.simps) auto
qed

definition set_entry :: "usize \<Rightarrow> nat \<Rightarrow> pte \<Rightarrow> 'h phys \<Rightarrow> 'h phys" where
  "set_entry page i p ph = ph\<lparr>frames := (frames ph)(page := (frames ph page)[i := p])\<rparr>"

lemma walk_mut_up:
  assumes "unat n < 2 ^ 27" "l < 2" "idx (Suc l) n < length (frames ph (page_of ptr))"
    and "\<And>p. frames ph (page_of ptr) ! idx (Suc l) n = p \<Longrightarrow> pte_is_valid p \<and> \<not> pte_is_leaf sv39 p"
    and "d_meet V (Suc l) (frames ph (page_of ptr) ! idx (Suc l) n) (page_pos n) (v, ph) = Inr (Some ptr1, v, ph)"
  shows "walk_inner_mut sv39 V (tbl (Suc l) ptr n) (page_pos n) (v, ph) =
     obind (walk_inner_mut sv39 V (tbl l ptr1 n) (page_pos n) (v, ph)) (\<lambda>(target2, st2).
       walk_inner_mut sv39 V (tbl (Suc l) ptr n) target2 st2)"
proof -
  note r = pt_range_tbl [OF assms(1), of "Suc l" ptr]
  have t: "hi (Suc l) n \<le> n" "n < hi (Suc l) n + push_bit (9 * (Suc l + 1)) 1"
    using range_same_table(2) [OF assms(1), of "Suc l" n] assms(2) by simp_all
  have i: "index_in sv39 n (Suc l) = Inr (idx (Suc l) n)" using assms(2) by (simp add: index_in_idx)
  have x: "pt_index (frames ph) (tbl (Suc l) ptr n) (idx (Suc l) n) = Inr (frames ph (page_of ptr) ! idx (Suc l) n)"
    using assms(3) by (simp add: pt_index_def)
  show ?thesis
    using assms(2) t assms(4) [OF refl] assms(5)
    by (subst walk_inner_mut.simps) (simp add: r i x sub_tbl [OF assms(1,2)] del: push_bit_of_1)
qed

lemma walk_mut_block:
  assumes "unat n < 2 ^ 27" "l < 2" "idx (Suc l) n < length (frames ph (page_of ptr))"
    and "\<not> pte_is_valid (frames ph (page_of ptr) ! idx (Suc l) n)"
    and "d_block V (Suc l) (frames ph (page_of ptr) ! idx (Suc l) n) (page_pos n) (v, ph) =
      Inr (New_Table new ptr1, v, ph1)"
    and "idx (Suc l) n < length (frames ph1 (page_of ptr))"
  shows "walk_inner_mut sv39 V (tbl (Suc l) ptr n) (page_pos n) (v, ph) =
     obind (walk_inner_mut sv39 V (tbl l ptr1 n) (page_pos n) (v, set_entry (page_of ptr) (idx (Suc l) n) new ph1))
       (\<lambda>(target2, st2). walk_inner_mut sv39 V (tbl (Suc l) ptr n) target2 st2)"
proof -
  note r = pt_range_tbl [OF assms(1), of "Suc l" ptr]
  have t: "hi (Suc l) n \<le> n" "n < hi (Suc l) n + push_bit (9 * (Suc l + 1)) 1"
    using range_same_table(2) [OF assms(1), of "Suc l" n] assms(2) by simp_all
  have i: "index_in sv39 n (Suc l) = Inr (idx (Suc l) n)" using assms(2) by (simp add: index_in_idx)
  have x: "pt_index (frames ph) (tbl (Suc l) ptr n) (idx (Suc l) n) = Inr (frames ph (page_of ptr) ! idx (Suc l) n)"
    using assms(3) by (simp add: pt_index_def)
  have w: "pt_index_mut (tbl (Suc l) ptr n) (idx (Suc l) n) new ph1 =
      Inr (set_entry (page_of ptr) (idx (Suc l) n) new ph1)"
    using assms(6) by (simp add: pt_index_mut_def set_entry_def Let_def)
  show ?thesis
    using assms(2,4,5) t
    by (subst walk_inner_mut.simps) (simp add: r i x w sub_tbl [OF assms(1,2)] del: push_bit_of_1)
qed

lemma walk_mut_leaf:
  assumes "unat n < 2 ^ 27" "idx 0 n < length (frames ph (page_of ptr))"
    and "d_arrive V (frames ph (page_of ptr) ! idx 0 n) (page_pos n) (v, ph) = Inr (new, target1, v1, ph)"
  shows "walk_inner_mut sv39 V (tbl 0 ptr n) (page_pos n) (v, ph) =
     walk_inner_mut sv39 V (tbl 0 ptr n) target1 (v1, set_entry (page_of ptr) (idx 0 n) new ph)"
proof -
  note r = pt_range_tbl [OF assms(1), of 0 ptr]
  have t: "hi 0 n \<le> n" "n < hi 0 n + push_bit (9 * (0 + 1)) 1"
    using range_same_table(2) [OF assms(1), of 0 n] by simp_all
  have i: "index_in sv39 n 0 = Inr (idx 0 n)" by (simp add: index_in_idx)
  have x: "pt_index (frames ph) (tbl 0 ptr n) (idx 0 n) = Inr (frames ph (page_of ptr) ! idx 0 n)"
    using assms(2) by (simp add: pt_index_def)
  have w: "pt_index_mut (tbl 0 ptr n) (idx 0 n) new ph = Inr (set_entry (page_of ptr) (idx 0 n) new ph)"
    using assms(2) by (simp add: pt_index_mut_def set_entry_def Let_def)
  show ?thesis
    using t assms(3) by (subst walk_inner_mut.simps) (simp add: r i x w del: push_bit_of_1)
qed

text \<open>
  Going on in a sub-table and then in the table above is going on in the table above: either the new
  target is in the sub-table, which the table above would enter again, or the sub-table returns at once.
\<close>

lemma walk_mut_reenter:
  assumes "unat n < 2 ^ 27" "l < 2" "idx (Suc l) n < length (frames ph (page_of ptr))"
    and "\<And>p. frames ph (page_of ptr) ! idx (Suc l) n = p \<Longrightarrow> pte_is_valid p \<and> \<not> pte_is_leaf sv39 p"
    and "\<And>k. d_meet V (Suc l) (frames ph (page_of ptr) ! idx (Suc l) n) (page_pos k) (v, ph) =
      Inr (Some ptr1, v, ph)"
    and "target = pos_stop sv39 \<or> target = page_pos k" "unat k < 2 ^ 27"
  shows "obind (walk_inner_mut sv39 V (tbl l ptr1 n) target (v, ph)) (\<lambda>(target2, st2).
       walk_inner_mut sv39 V (tbl (Suc l) ptr n) target2 st2) =
     walk_inner_mut sv39 V (tbl (Suc l) ptr n) target (v, ph)"
proof (cases "target = page_pos k \<and> same_table l n k")
  case True
  then have st: "same_table l n k" and tg: "target = page_pos k" by simp_all
  note up = same_table_up [OF st]
  have "walk_inner_mut sv39 V (tbl (Suc l) ptr k) (page_pos k) (v, ph) =
     obind (walk_inner_mut sv39 V (tbl l ptr1 k) (page_pos k) (v, ph)) (\<lambda>(target2, st2).
       walk_inner_mut sv39 V (tbl (Suc l) ptr k) target2 st2)"
    using assms(2-5,7) up(2) by (intro walk_mut_up) simp_all
  then show ?thesis
    by (simp add: tg same_table_tbl [OF st] same_table_tbl [OF up(1)])
next
  case False
  with assms(6) consider "target = pos_stop sv39" | "target = page_pos k" "\<not> same_table l n k" by blast
  then show ?thesis
    using assms(1,2) by cases (simp_all add: walk_mut_stop walk_mut_out)
qed

end
