(* ===== verification/Vm_Space.thy ===== *)
theory Vm_Space
  imports Vm_Walk
begin

text \<open>
  What the operations of an address space do, over the mapping that its tables represent. The trait
  \<^verbatim>\<open>PageManager\<close> is the locale \<^verbatim>\<open>page_manager_laws\<close>; inside it, the walk behind \<^verbatim>\<open>translate\<close> is shown to be a
  three-level lookup, and \<^verbatim>\<open>map_extern\<close> to add exactly its pages to the mapping. The \<^verbatim>\<open>Sv39Manager\<close> of the
  kernels is an instance for every allocator that hands out free pages.
\<close>

section \<open>The mapping a table tree represents\<close>

text \<open>The page of the table that is reached from page \<^verbatim>\<open>r\<close> along a path of indices.\<close>

fun walk_path :: "(usize \<Rightarrow> u64 list) \<Rightarrow> usize \<Rightarrow> nat list \<Rightarrow> usize option" where
  "walk_path fr r [] = Some r"
| "walk_path fr r (i # p) =
     (if pte_is_valid (fr r ! i) \<and> \<not> pte_is_leaf sv39 (fr r ! i)
      then walk_path fr (pte_ppn sv39 (fr r ! i)) p else None)"

definition pt_lookup :: "(usize \<Rightarrow> u64 list) \<Rightarrow> usize \<Rightarrow> vpn \<Rightarrow> pte option" where
  "pt_lookup fr r n =
     (case walk_path fr r [idx 2 n, idx 1 n] of
        Some x \<Rightarrow> if pte_is_valid (fr x ! idx 0 n) then Some (fr x ! idx 0 n) else None
      | None \<Rightarrow> None)"

text \<open>Paths to the tables of the three levels.\<close>

definition table_path :: "nat list \<Rightarrow> bool" where
  "table_path p \<longleftrightarrow> length p \<le> 2 \<and> (\<forall>i \<in> set p. i < 512)"

text \<open>
  A tree of tables without huge pages: no table is reached along two paths, every table is a page of
  512 entries within the identity-mapped memory and not free, and every valid entry above the last
  level is an owned table.
\<close>

definition tables_ok :: "vm_flags \<Rightarrow> usize set \<Rightarrow> (usize \<Rightarrow> u64 list) \<Rightarrow> usize \<Rightarrow> bool" where
  "tables_ok own F fr r \<longleftrightarrow>
     (\<forall>p x. table_path p \<longrightarrow> walk_path fr r p = Some x \<longrightarrow>
        length (fr x) = 512 \<and> unat x < 2 ^ 26 \<and> x \<notin> F) \<and>
     (\<forall>p q x. table_path p \<longrightarrow> table_path q \<longrightarrow> walk_path fr r p = Some x \<longrightarrow>
        walk_path fr r q = Some x \<longrightarrow> p = q) \<and>
     (\<forall>p x i. table_path p \<longrightarrow> length p \<le> 1 \<longrightarrow> walk_path fr r p = Some x \<longrightarrow> i < 512 \<longrightarrow>
        pte_is_valid (fr x ! i) \<longrightarrow>
        \<not> pte_is_leaf sv39 (fr x ! i) \<and> vm_flags_contains (fr x ! i) own)"

lemma table_path_simps [simp]:
  "table_path []" "table_path [i] \<longleftrightarrow> i < 512" "table_path [i, j] \<longleftrightarrow> i < 512 \<and> j < 512"
  by (auto simp: table_path_def)

lemma table_path_cases:
  assumes "table_path p"
  obtains "p = []" | i where "p = [i]" "i < 512" | i j where "p = [i, j]" "i < 512" "j < 512"
  using assms by (auto simp: table_path_def numeral_2_eq_2 le_Suc_eq length_Suc_conv)

lemma tables_okD:
  assumes "tables_ok own F fr r" "table_path p" "walk_path fr r p = Some x"
  shows "length (fr x) = 512" "unat x < 2 ^ 26" "x \<notin> F"
  using assms unfolding tables_ok_def by blast+

lemma tables_ok_unique:
  assumes "tables_ok own F fr r" "table_path p" "table_path q"
    "walk_path fr r p = Some x" "walk_path fr r q = Some x"
  shows "p = q"
  using assms unfolding tables_ok_def by blast

lemma tables_ok_entry:
  assumes "tables_ok own F fr r" "table_path p" "length p \<le> 1" "walk_path fr r p = Some x" "i < 512"
    "pte_is_valid (fr x ! i)"
  shows "\<not> pte_is_leaf sv39 (fr x ! i)" "vm_flags_contains (fr x ! i) own"
  using assms unfolding tables_ok_def by blast+

lemma walk_path_snoc:
  "walk_path fr r (p @ [i]) =
     (case walk_path fr r p of
        Some x \<Rightarrow> if pte_is_valid (fr x ! i) \<and> \<not> pte_is_leaf sv39 (fr x ! i)
          then Some (pte_ppn sv39 (fr x ! i)) else None
      | None \<Rightarrow> None)"
  by (induction p arbitrary: r) auto

lemma walk_path_cong:
  assumes "\<And>p1 j p2 y. p = p1 @ j # p2 \<Longrightarrow> walk_path fr r p1 = Some y \<Longrightarrow> fr' y ! j = fr y ! j"
  shows "walk_path fr' r p = walk_path fr r p"
  using assms
proof (induction p rule: rev_induct)
  case (snoc i p)
  have "walk_path fr' r p = walk_path fr r p"
    using snoc.prems by (intro snoc.IH) (metis append.assoc append_Cons)
  then show ?case
    using snoc.prems [of p i "[]"] by (auto simp: walk_path_snoc split: option.splits)
qed simp

text \<open>Writing an entry of a last-level table changes the mapping of one page and no path.\<close>

lemma leaf_write:
  assumes ok: "tables_ok own F fr r" and x: "walk_path fr r [a, b] = Some x" "a < 512" "b < 512"
    and fr': "fr' = fr(x := (fr x)[i := e])" and i: "i < 512"
  shows "tables_ok own F fr' r"
    and "table_path p \<Longrightarrow> walk_path fr' r p = walk_path fr r p"
    and "pt_lookup fr' r n =
      (if idx 2 n = a \<and> idx 1 n = b \<and> idx 0 n = i then (if pte_is_valid e then Some e else None)
       else pt_lookup fr r n)"
proof -
  have len: "length (fr x) = 512" using tables_okD [OF ok _ x(1)] x by simp
  have wp: "walk_path fr' r p = walk_path fr r p" if "table_path p" for p
  proof (rule walk_path_cong)
    fix p1 j p2 y
    assume p: "p = p1 @ j # p2" and y: "walk_path fr r p1 = Some y"
    with that have "table_path p1" "length p1 \<le> 1" by (auto simp: table_path_def)
    with tables_ok_unique [OF ok, of p1 "[a, b]" x] x y have "y \<noteq> x" by auto
    then show "fr' y ! j = fr y ! j" by (simp add: fr')
  qed
  show "table_path p \<Longrightarrow> walk_path fr' r p = walk_path fr r p" by (rule wp)
  have up: "fr' y = fr y" if "table_path p" "length p \<le> 1" "walk_path fr r p = Some y" for p y
    using tables_ok_unique [OF ok that(1), of "[a, b]" x] x that by (auto simp: fr')
  have sz: "length (fr' y) = length (fr y)" for y by (simp add: fr')
  show "tables_ok own F fr' r"
    using ok up unfolding tables_ok_def by (simp add: wp sz cong: conj_cong imp_cong)
  show "pt_lookup fr' r n =
      (if idx 2 n = a \<and> idx 1 n = b \<and> idx 0 n = i then (if pte_is_valid e then Some e else None)
       else pt_lookup fr r n)"
  proof (cases "walk_path fr r [idx 2 n, idx 1 n]")
    case (Some y)
    have "y = x \<longleftrightarrow> idx 2 n = a \<and> idx 1 n = b"
      using tables_ok_unique [OF ok, of "[idx 2 n, idx 1 n]" "[a, b]" x] Some x by auto
    moreover have "fr' y ! idx 0 n = (if y = x \<and> idx 0 n = i then e else fr y ! idx 0 n)"
      using len i by (auto simp: fr')
    ultimately show ?thesis
      using Some by (auto simp: pt_lookup_def wp simp del: walk_path.simps One_nat_def)
  next
    case None
    with x(1) have "\<not> (idx 2 n = a \<and> idx 1 n = b)" by auto
    with None show ?thesis by (auto simp: pt_lookup_def wp simp del: walk_path.simps One_nat_def)
  qed
qed

text \<open>Hanging a fresh page of zeroes into the tree adds one path and changes no mapping.\<close>

lemma zero_entry [simp]: "i < 512 \<Longrightarrow> \<not> pte_is_valid (zero_page ! i)"
  by (simp add: zero_page_def pte_is_valid_def meta_is_valid_def VALID_FLAG_def)

lemma table_write:
  assumes ok: "tables_ok own F fr r" and x: "walk_path fr r q = Some x" "table_path q" "length q \<le> 1"
    and i: "i < 512" "\<not> pte_is_valid (fr x ! i)"
    and z: "z \<in> F" "unat z < 2 ^ 26"
    and fr': "fr' = (fr(z := zero_page))(x := (fr x)[i := e])"
    and e: "pte_is_valid e" "\<not> pte_is_leaf sv39 e" "pte_ppn sv39 e = z" "vm_flags_contains e own"
  shows "tables_ok own (F - {z}) fr' r"
    and "table_path p \<Longrightarrow> walk_path fr' r p = (if p = q @ [i] then Some z else walk_path fr r p)"
    and "pt_lookup fr' r n = pt_lookup fr r n"
proof -
  have len: "length (fr x) = 512" "x \<notin> F" using tables_okD [OF ok x(2,1)] by simp_all
  have xz: "x \<noteq> z" using len z by blast
  have "fr' x ! i = e" using len i by (simp add: fr')
  have at: "fr' y = (if y = x then (fr x)[i := e] else if y = z then zero_page else fr y)" for y
    by (simp add: fr')
  have same: "walk_path fr' r p = walk_path fr r p" if "table_path p" "\<nexists>p2. p = q @ i # p2" for p
  proof (rule walk_path_cong)
    fix p1 j p2 y
    assume p: "p = p1 @ j # p2" and y: "walk_path fr r p1 = Some y"
    with that have p1: "table_path p1" by (auto simp: table_path_def)
    have "y \<noteq> z" using tables_okD(3) [OF ok p1 y] z by blast
    moreover have "y \<noteq> x \<or> j \<noteq> i"
      using tables_ok_unique [OF ok p1 x(2) _ x(1)] y p that(2) by auto
    ultimately show "fr' y ! j = fr y ! j" by (auto simp: fr')
  qed
  have q: "walk_path fr' r q = Some x" using same [OF x(2)] x(1) by simp
  have qi: "walk_path fr' r (q @ [i]) = Some z"
    using q e \<open>fr' x ! i = e\<close> by (simp add: walk_path_snoc)
  have zz: "fr' z = zero_page" using xz by (simp add: fr')
  have wp: "walk_path fr' r p = (if p = q @ [i] then Some z else walk_path fr r p)" if tp: "table_path p" for p
  proof (cases "\<exists>p2. p = q @ i # p2")
    case True
    then obtain p2 where p2: "p = q @ i # p2" by blast
    with tp x(3) have "length p2 \<le> 1" by (auto simp: table_path_def)
    then consider "p2 = []" | k where "p2 = [k]" by (cases p2) auto
    then show ?thesis
    proof cases
      case 1
      then show ?thesis using qi p2 by simp
    next
      case 2
      with p2 tp have k: "k < 512" by (auto simp: table_path_def)
      have "p = (q @ [i]) @ [k]" using p2 2 by simp
      moreover have "walk_path fr' r ((q @ [i]) @ [k]) = None"
        unfolding walk_path_snoc [of _ _ "q @ [i]"] qi using zz k by simp
      moreover have "walk_path fr r (q @ [i]) = None" using x(1) i(2) by (simp add: walk_path_snoc)
      then have "walk_path fr r ((q @ [i]) @ [k]) = None" unfolding walk_path_snoc [of _ _ "q @ [i]"] by simp
      ultimately show ?thesis using p2 2 by simp
    qed
  next
    case False
    then show ?thesis using same [OF tp] by auto
  qed
  show "table_path p \<Longrightarrow> walk_path fr' r p = (if p = q @ [i] then Some z else walk_path fr r p)" by (rule wp)
  have old: "y \<noteq> z" if "table_path p" "walk_path fr r p = Some y" for p y
    using tables_okD(3) [OF ok that] z by blast
  have tqi: "table_path (q @ [i])" using x(2,3) i(1) by (auto simp: table_path_def)
  show "tables_ok own (F - {z}) fr' r"
    unfolding tables_ok_def
  proof (intro conjI allI impI)
    fix p y
    assume p: "table_path p" "walk_path fr' r p = Some y"
    show "length (fr' y) = 512"
      using p tables_okD(1) [OF ok p(1)] len old [OF p(1)] zz by (auto simp: wp at zero_page_def split: if_splits)
    show "unat y < 2 ^ 26" using p tables_okD(2) [OF ok p(1)] z by (auto simp: wp split: if_splits)
    show "y \<notin> F - {z}" using p tables_okD(3) [OF ok p(1)] by (auto simp: wp split: if_splits)
  next
    fix p p' y
    assume "table_path p" "table_path p'" "walk_path fr' r p = Some y" "walk_path fr' r p' = Some y"
    then show "p = p'"
      using tables_ok_unique [OF ok] old by (simp add: wp split: if_splits) blast+
  next
    fix p y j
    assume p: "table_path p" "length p \<le> 1" "walk_path fr' r p = Some y" "j < 512" "pte_is_valid (fr' y ! j)"
    have "p \<noteq> q @ [i]" using p(1,3,4,5) zz by (auto simp: wp)
    with p have w: "walk_path fr r p = Some y" by (simp add: wp)
    have "y \<noteq> z" using old [OF p(1) w] .
    then have "fr' y ! j = (if y = x \<and> j = i then e else fr y ! j)" using len i by (auto simp: at)
    then show "\<not> pte_is_leaf sv39 (fr' y ! j)" "vm_flags_contains (fr' y ! j) own"
      using e p(5) tables_ok_entry [OF ok p(1,2) w p(4)] by (auto split: if_splits)
  qed
  show "pt_lookup fr' r n = pt_lookup fr r n"
  proof (cases "[idx 2 n, idx 1 n] = q @ [i]")
    case True
    then have "walk_path fr r [idx 2 n, idx 1 n] = None" using x(1) i(2) by (simp only: walk_path_snoc) simp
    moreover have "walk_path fr' r [idx 2 n, idx 1 n] = Some z" using qi unfolding True .
    ultimately show ?thesis using zz by (simp add: pt_lookup_def del: walk_path.simps One_nat_def)
  next
    case False
    then have w: "walk_path fr' r [idx 2 n, idx 1 n] = walk_path fr r [idx 2 n, idx 1 n]"
      using wp [of "[idx 2 n, idx 1 n]"] by (simp only: table_path_simps idx_lt simp_thms if_False)
    show ?thesis
    proof (cases "walk_path fr r [idx 2 n, idx 1 n]")
      case (Some y)
      have "y \<noteq> x" using tables_ok_unique [OF ok _ x(2) Some] x by auto
      moreover have "y \<noteq> z" using old [OF _ Some] by simp
      ultimately show ?thesis using w Some by (simp add: pt_lookup_def at del: walk_path.simps One_nat_def)
    qed (simp add: pt_lookup_def w del: walk_path.simps One_nat_def)
  qed
qed

text \<open>A root table of zeroes is a tree that maps nothing.\<close>

lemma walk_path_empty:
  assumes "fr r = zero_page" "table_path p"
  shows "walk_path fr r p = (if p = [] then Some r else None)"
  using assms by (cases p) (auto simp: table_path_def)

lemma tables_ok_empty:
  assumes "fr r = zero_page" "r \<notin> F" "unat r < 2 ^ 26"
  shows "tables_ok own F fr r" "pt_lookup fr r n = None"
proof -
  note w = walk_path_empty [of fr, OF assms(1)]
  show "tables_ok own F fr r"
    unfolding tables_ok_def using assms by (auto simp: w split: if_splits) (simp add: zero_page_def)
  show "pt_lookup fr r n = None" using w [of "[idx 2 n, idx 1 n]"] by (simp add: pt_lookup_def)
qed

text \<open>The pages of the tree, and what an operation on the tree may touch: its pages and free ones.\<close>

definition tree_pages :: "(usize \<Rightarrow> u64 list) \<Rightarrow> usize \<Rightarrow> usize set" where
  "tree_pages fr r = {x. \<exists>p. table_path p \<and> walk_path fr r p = Some x}"

definition grows :: "('h \<Rightarrow> usize set) \<Rightarrow> usize \<Rightarrow> 'h phys \<Rightarrow> 'h phys \<Rightarrow> bool" where
  "grows free r ph ph1 \<longleftrightarrow>
     tree_pages (frames ph1) r \<subseteq> tree_pages (frames ph) r \<union> free (heap ph) \<and>
     free (heap ph1) \<subseteq> free (heap ph) \<and>
     (\<forall>x. x \<notin> tree_pages (frames ph) r \<union> free (heap ph) \<longrightarrow> frames ph1 x = frames ph x)"

lemma tree_pagesI: "table_path p \<Longrightarrow> walk_path fr r p = Some x \<Longrightarrow> x \<in> tree_pages fr r"
  by (auto simp: tree_pages_def)

lemma grows_refl [simp]: "grows free r ph ph"
  by (simp add: grows_def)

lemma grows_trans: "grows free r ph ph1 \<Longrightarrow> grows free r ph1 ph2 \<Longrightarrow> grows free r ph ph2"
  unfolding grows_def by (intro conjI allI impI) (blast, blast, metis (no_types, lifting) Un_iff subset_iff)

lemma set_entry_simps [simp]:
  "heap (set_entry x i e ph) = heap ph"
  "frames (set_entry x i e ph) = (frames ph)(x := (frames ph x)[i := e])"
  by (simp_all add: set_entry_def)

text \<open>A mapping with \<^verbatim>\<open>k\<close> pages more: page \<^verbatim>\<open>n + i\<close> at the physical page \<^verbatim>\<open>b + i\<close>.\<close>

definition mapped :: "vpn \<Rightarrow> nat \<Rightarrow> ppn \<Rightarrow> vm_flags \<Rightarrow> (vpn \<Rightarrow> pte option) \<Rightarrow> vpn \<Rightarrow> pte option" where
  "mapped n k b flags L v =
     (if unat n \<le> unat v \<and> unat v < unat n + k then Some (build_pte sv39 flags (b + (v - n))) else L v)"

text \<open>
  The tables that a walk to page \<^verbatim>\<open>n\<close> does not find, those that the page after one that has its tables can lack, and
  a bound for those that \<^verbatim>\<open>k\<close> pages from page \<^verbatim>\<open>n\<close> on can need: two, and one more for each table that the range enters.
\<close>

definition missing_tables :: "(usize \<Rightarrow> u64 list) \<Rightarrow> usize \<Rightarrow> vpn \<Rightarrow> nat" where
  "missing_tables fr r n =
     (if walk_path fr r [idx 2 n] = None then 2 else if walk_path fr r [idx 2 n, idx 1 n] = None then 1 else 0)"

definition next_tables :: "nat \<Rightarrow> nat" where
  "next_tables n = of_bool (2 ^ 9 dvd n) + of_bool (2 ^ 18 dvd n)"

definition crossed_tables :: "nat \<Rightarrow> nat \<Rightarrow> nat" where
  "crossed_tables n k = ((n + k - 1) div 2 ^ 9 - n div 2 ^ 9) + ((n + k - 1) div 2 ^ 18 - n div 2 ^ 18)"

definition tables_for :: "nat \<Rightarrow> nat \<Rightarrow> nat" where
  "tables_for n k = 2 + crossed_tables n k"

lemma crossed_Suc:
  assumes "0 < k"
  shows "crossed_tables n (Suc k) = next_tables (Suc n) + crossed_tables (Suc n) k"
proof -
  have d: "Suc n div m = n div m + of_bool (m dvd Suc n)" for m by (simp add: div_Suc dvd_eq_mod_eq_0)
  have "Suc n div 2 ^ 9 \<le> (n + k) div 2 ^ 9" "Suc n div 2 ^ 18 \<le> (n + k) div 2 ^ 18"
    using assms by (intro div_le_mono; simp)+
  with assms show ?thesis by (simp add: crossed_tables_def next_tables_def d)
qed

lemma crossed_le: "0 < k \<Longrightarrow> crossed_tables n k \<le> 2 * (k - 1)"
proof (induction k arbitrary: n)
  case (Suc k)
  show ?case
  proof (cases "k = 0")
    case False
    moreover have "next_tables (Suc n) \<le> 2" by (simp add: next_tables_def)
    ultimately show ?thesis using Suc.IH [of "Suc n"] crossed_Suc [of k n] by simp
  qed (simp add: crossed_tables_def)
qed simp

lemma tables_for_le: "0 < k \<Longrightarrow> tables_for n k \<le> 2 * k"
  using crossed_le [of k n] by (simp add: tables_for_def)

lemma missing_next:
  assumes "walk_path fr r [idx 2 n, idx 1 n] \<noteq> None" "unat n + 1 < 2 ^ 27"
  shows "missing_tables fr r (n + 1) \<le> next_tables (unat n + 1)"
proof -
  have n1: "unat (n + 1) = Suc (unat n)" using assms(2) by (simp add: unat_word_ariths)
  have same: "idx l (n + 1) = idx l n" if "\<not> 2 ^ (9 * l) dvd Suc (unat n)" for l
    using that by (simp add: idx_def n1 div_Suc dvd_eq_mod_eq_0)
  have up: "walk_path fr r [idx 2 n] \<noteq> None" using assms(1) by (auto split: if_splits)
  have "(2 :: nat) ^ 18 dvd Suc (unat n) \<Longrightarrow> 2 ^ 9 dvd Suc (unat n)" by (rule dvd_trans [of _ "2 ^ 18"]) (simp_all add: le_imp_power_dvd)
  then show ?thesis
    using same [of 1] same [of 2] up assms(1)
    by (auto simp: missing_tables_def next_tables_def simp del: walk_path.simps)
qed

section \<open>What an address space asks of a page manager\<close>

text \<open>
  \<^verbatim>\<open>free\<close> are the pages the allocator may hand out, \<^verbatim>\<open>avail\<close> is a number of single pages it is certain to
  be able to hand out, and \<^verbatim>\<open>own\<close> the flag that marks owned entries.
\<close>

locale page_manager_laws =
  fixes M :: "('m, 'h) page_manager_ops"
    and own :: vm_flags
    and free :: "'h \<Rightarrow> usize set"
    and avail :: "'h \<Rightarrow> nat"
  assumes p_to_v: "unat n < 2 ^ 26 \<Longrightarrow> page_of (pm_p_to_v M mgr n) = n"
    and check_owned: "pm_check_owned M mgr p \<longleftrightarrow> vm_flags_contains p own"
    and own_flag: "own AND ppn_mask sv39 = 0" "own AND 0b1111 = 0"
    and free_bound: "n \<in> free h \<Longrightarrow> unat n < 2 ^ 26"
    and allocate_one: "avail (heap ph) > 0 \<Longrightarrow>
      \<exists>z h. pm_allocate M mgr 1 flags ph =
          Inr (pm_p_to_v M mgr z, flags OR own, ph\<lparr>frames := (frames ph)(z := zero_page), heap := h\<rparr>) \<and>
        pm_v_to_p M mgr (pm_p_to_v M mgr z) = z \<and>
        z \<in> free (heap ph) \<and> free h = free (heap ph) - {z} \<and> avail (heap ph) \<le> Suc (avail h)"
begin

lemma table_entry:
  assumes "unat z < 2 ^ 26"
  shows "pte_is_valid (build_pte sv39 (VALID_FLAG OR own) z)"
    "\<not> pte_is_leaf sv39 (build_pte sv39 (VALID_FLAG OR own) z)"
    "pte_ppn sv39 (build_pte sv39 (VALID_FLAG OR own) z) = z"
    "vm_flags_contains (build_pte sv39 (VALID_FLAG OR own) z) own"
proof -
  have z: "unat z < 2 ^ 44" using assms by simp
  have f: "(VALID_FLAG OR own) AND ppn_mask sv39 = 0"
    using own_flag(1) by (simp add: VALID_FLAG_def bit.conj_disj_distrib2 ppn_mask_def vm_mask_def)
  note rt = pte_parts [OF z f]
  show "pte_ppn sv39 (build_pte sv39 (VALID_FLAG OR own) z) = z" by (rule rt(1))
  show "pte_is_valid (build_pte sv39 (VALID_FLAG OR own) z)"
    unfolding rt(3) meta_is_valid_def by (rule bit_word_eqI) (auto simp: bit_simps)
  have "(VALID_FLAG OR own) AND 0b1110 = 0"
  proof -
    have "own AND 0b1110 = (own AND 0b1111) AND 0b1110" by (simp add: and.assoc)
    then show ?thesis using own_flag(2) by (simp add: VALID_FLAG_def bit.conj_disj_distrib2)
  qed
  then show "\<not> pte_is_leaf sv39 (build_pte sv39 (VALID_FLAG OR own) z)"
    unfolding rt(4) sv_is_leaf_def by simp
  show "vm_flags_contains (build_pte sv39 (VALID_FLAG OR own) z) own"
    unfolding vm_flags_contains_def build_pte_def meta_set_ppn_def
    by (rule bit_word_eqI) (auto simp: bit_simps)
qed

text \<open>The walk behind \<^verbatim>\<open>translate\<close> ends and is the lookup in the tree.\<close>

lemma space_visitor_sel:
  "v_arrive (space_visitor sv39 M sp) = (\<lambda>p _ ans. Inr (pos_stop sv39, if pte_is_valid p then Some p else ans))"
  "v_meet (space_visitor sv39 M sp) =
     (\<lambda>_ p _ ans. Inr (Some (pm_p_to_v M (page_manager sp) (pte_ppn sv39 p)), ans))"
  "v_block (space_visitor sv39 M sp) = (\<lambda>_ _ _ ans. Inr (pos_stop sv39, ans))"
  by (simp_all add: space_visitor_def)

lemma visit_level:
  fixes sp :: "'m address_space"
  defines "V \<equiv> space_visitor sv39 M sp"
  assumes "unat n < 2 ^ 27" "l < 2" "length (fr (page_of ptr)) = 512"
    and "e = fr (page_of ptr) ! idx (Suc l) n"
    and "pte_is_valid e \<Longrightarrow> \<not> pte_is_leaf sv39 e \<Longrightarrow>
      walk_inner sv39 V fr (tbl l (pm_p_to_v M (page_manager sp) (pte_ppn sv39 e)) n) (page_pos n) None =
      Some (Inr (pos_stop sv39, a))"
  shows "walk_inner sv39 V fr (tbl (Suc l) ptr n) (page_pos n) None =
    Some (Inr (pos_stop sv39, if pte_is_valid e \<and> \<not> pte_is_leaf sv39 e then a else None))"
proof -
  have st: "walk_inner sv39 V fr (tbl (Suc l) ptr n) (pos_stop sv39) v = Some (Inr (pos_stop sv39, v))" for v
    using assms(2,3) by (intro walk_inner_stop) simp_all
  show ?thesis
    using walk_inner_up [of n l fr ptr V None] assms(2-6) st
    by (simp add: V_def space_visitor_sel Let_def)
qed

lemma space_visit_lookup:
  assumes "tables_ok own F (frames ph) r" "page_of (pm_root_ptr M (page_manager sp)) = r" "unat n < 2 ^ 27"
  shows "space_visit sv39 M sp n ph = Some (Inr (pt_lookup (frames ph) r n))"
proof -
  let ?fr = "frames ph" and ?V = "space_visitor sv39 M sp"
  let ?pv = "pm_p_to_v M (page_manager sp)"
  note n = assms(3)
  have sz: "length (?fr (page_of (?pv x))) = 512" "page_of (?pv x) = x"
    if "walk_path ?fr r p = Some x" "table_path p" for p x
    using tables_okD [OF assms(1) that(2,1)] p_to_v [of x] by simp_all
  have leaf: "walk_inner sv39 ?V ?fr (tbl 0 (?pv x) n) (page_pos n) None = Some (Inr (pos_stop sv39, pt_lookup ?fr r n))"
    if w: "walk_path ?fr r [idx 2 n, idx 1 n] = Some x" for x
    using sz [OF w] n w walk_inner_leaf [of n ?fr "?pv x" ?V None]
    by (simp add: walk_inner_stop space_visitor_sel pt_lookup_def del: walk_path.simps One_nat_def)
  have mid: "walk_inner sv39 ?V ?fr (tbl (Suc 0) (?pv x) n) (page_pos n) None = Some (Inr (pos_stop sv39, pt_lookup ?fr r n))"
    if w: "walk_path ?fr r [idx 2 n] = Some x" for x
  proof -
    have "walk_path ?fr r [idx 2 n, idx 1 n] =
        (if pte_is_valid (?fr x ! idx 1 n) \<and> \<not> pte_is_leaf sv39 (?fr x ! idx 1 n)
         then Some (pte_ppn sv39 (?fr x ! idx 1 n)) else None)"
      using walk_path_snoc [of ?fr r "[idx 2 n]" "idx 1 n"] w by simp
    then show ?thesis
      using visit_level [of n 0 ?fr "?pv x" _ sp "pt_lookup ?fr r n", OF n _ _ refl] sz [OF w] leaf
      by (simp add: pt_lookup_def split: if_splits)
  qed
  show ?thesis
    using visit_level [of n 1 ?fr "pm_root_ptr M (page_manager sp)" _ sp "pt_lookup ?fr r n", OF n _ _ refl]
      tables_okD [OF assms(1), of "[]" r] assms(2) mid
    by (simp add: space_visit_def space_root_def root_tbl [OF n] pt_lookup_def numeral_2_eq_2
        flip: page_pos_def split: if_splits)
qed

text \<open>The mapper on a tree.\<close>

lemma mapper_sel:
  "d_arrive (mapper_ops sv39 M mgr) = mapper_arrive sv39"
  "d_meet (mapper_ops sv39 M mgr) = mapper_meet sv39 M mgr"
  "d_block (mapper_ops sv39 M mgr) = mapper_block sv39 M mgr"
  by (simp_all add: mapper_ops_def)

lemma mapper_meets:
  assumes "tables_ok own F (frames ph) r" "walk_path (frames ph) r q = Some x" "table_path q" "length q \<le> 1" "i < 512"
    and "walk_path (frames ph) r (q @ [i]) = Some y"
  shows "pte_is_valid (frames ph x ! i) \<and> \<not> pte_is_leaf sv39 (frames ph x ! i)"
    "mapper_meet sv39 M mgr l (frames ph x ! i) t (mp, ph) = Inr (Some (pm_p_to_v M mgr y), mp, ph)"
proof -
  have w: "pte_is_valid (frames ph x ! i) \<and> \<not> pte_is_leaf sv39 (frames ph x ! i) \<and> y = pte_ppn sv39 (frames ph x ! i)"
    using assms(2,6) by (auto simp: walk_path_snoc split: if_splits)
  then show "pte_is_valid (frames ph x ! i) \<and> \<not> pte_is_leaf sv39 (frames ph x ! i)" by blast
  have "vm_flags_contains (frames ph x ! i) own"
    using tables_ok_entry [OF assms(1,3,4,2,5)] w by blast
  with w show "mapper_meet sv39 M mgr l (frames ph x ! i) t (mp, ph) = Inr (Some (pm_p_to_v M mgr y), mp, ph)"
    by (simp add: mapper_meet_def check_owned)
qed

lemma mapper_reenter:
  assumes "tables_ok own F (frames ph) r" "walk_path (frames ph) r q = Some (page_of ptr)" "table_path q"
    and "length q \<le> 1" "walk_path (frames ph) r (q @ [idx (Suc l) n]) = Some y"
    and "unat n < 2 ^ 27" "l < 2" "target = pos_stop sv39 \<or> target = page_pos k" "unat k < 2 ^ 27"
  shows "obind (walk_inner_mut sv39 (mapper_ops sv39 M mgr) (tbl l (pm_p_to_v M mgr y) n) target (mp, ph))
      (\<lambda>(target2, st2). walk_inner_mut sv39 (mapper_ops sv39 M mgr) (tbl (Suc l) ptr n) target2 st2) =
    walk_inner_mut sv39 (mapper_ops sv39 M mgr) (tbl (Suc l) ptr n) target (mp, ph)"
  using tables_okD [OF assms(1,3,2)] mapper_meets [OF assms(1,2,3,4) idx_lt assms(5)] assms(6-9)
  by (intro walk_mut_reenter [where k = k]) (simp_all add: mapper_sel)

text \<open>Entering the table below: it is there, or a new one is allocated and hung into the tree.\<close>

lemma mapper_descend:
  assumes ok: "tables_ok own (free (heap ph)) (frames ph) r"
    and q: "walk_path (frames ph) r q = Some (page_of ptr)" "table_path q" "length q \<le> 1"
    and n: "unat n < 2 ^ 27" "l < 2"
    and av: "walk_path (frames ph) r (q @ [idx (Suc l) n]) = None \<Longrightarrow> avail (heap ph) > 0"
  shows "\<exists>ph1 y. tables_ok own (free (heap ph1)) (frames ph1) r \<and> grows free r ph ph1 \<and>
     (\<forall>p x. table_path p \<longrightarrow> walk_path (frames ph) r p = Some x \<longrightarrow> walk_path (frames ph1) r p = Some x) \<and>
     walk_path (frames ph1) r (q @ [idx (Suc l) n]) = Some y \<and>
     pt_lookup (frames ph1) r = pt_lookup (frames ph) r \<and>
     avail (heap ph) \<le> avail (heap ph1) + of_bool (walk_path (frames ph) r (q @ [idx (Suc l) n]) = None) \<and>
     (\<forall>mp. walk_inner_mut sv39 (mapper_ops sv39 M mgr) (tbl (Suc l) ptr n) (page_pos n) (mp, ph) =
        obind (walk_inner_mut sv39 (mapper_ops sv39 M mgr) (tbl l (pm_p_to_v M mgr y) n) (page_pos n) (mp, ph1))
          (\<lambda>(t, st). walk_inner_mut sv39 (mapper_ops sv39 M mgr) (tbl (Suc l) ptr n) t st))"
proof -
  let ?x = "page_of ptr" and ?i = "idx (Suc l) n"
  have len: "length (frames ph ?x) = 512" using tables_okD [OF ok q(2,1)] by simp
  show ?thesis
  proof (cases "pte_is_valid (frames ph ?x ! ?i)")
    case True
    then have "\<not> pte_is_leaf sv39 (frames ph ?x ! ?i)" using tables_ok_entry [OF ok q(2,3,1) idx_lt] by blast
    with True q(1) have w: "walk_path (frames ph) r (q @ [?i]) = Some (pte_ppn sv39 (frames ph ?x ! ?i))"
      by (simp add: walk_path_snoc)
    note m = mapper_meets [OF ok q idx_lt w]
    have "walk_inner_mut sv39 (mapper_ops sv39 M mgr) (tbl (Suc l) ptr n) (page_pos n) (mp, ph) =
        obind (walk_inner_mut sv39 (mapper_ops sv39 M mgr) (tbl l (pm_p_to_v M mgr (pte_ppn sv39 (frames ph ?x ! ?i))) n) (page_pos n) (mp, ph))
          (\<lambda>(t, st). walk_inner_mut sv39 (mapper_ops sv39 M mgr) (tbl (Suc l) ptr n) t st)" for mp
      using m n len by (intro walk_mut_up) (simp_all add: mapper_sel)
    with w ok show ?thesis by (intro exI [of _ ph] exI) auto
  next
    case False
    with q(1) have nw: "walk_path (frames ph) r (q @ [?i]) = None" by (simp add: walk_path_snoc)
    from allocate_one [OF av [OF nw], of mgr VALID_FLAG] obtain z h where
      al: "pm_allocate M mgr 1 VALID_FLAG ph =
          Inr (pm_p_to_v M mgr z, VALID_FLAG OR own, ph\<lparr>frames := (frames ph)(z := zero_page), heap := h\<rparr>)"
      and vp: "pm_v_to_p M mgr (pm_p_to_v M mgr z) = z"
      and z: "z \<in> free (heap ph)" "free h = free (heap ph) - {z}" "avail (heap ph) \<le> Suc (avail h)"
      by blast
    let ?e = "build_pte sv39 (VALID_FLAG OR own) z"
    let ?ph0 = "ph\<lparr>frames := (frames ph)(z := zero_page), heap := h\<rparr>"
    let ?ph1 = "set_entry ?x ?i ?e ?ph0"
    have zb: "unat z < 2 ^ 26" using free_bound [OF z(1)] .
    have xz: "?x \<noteq> z" using tables_okD(3) [OF ok q(2,1)] z(1) by blast
    then have fr1: "frames ?ph1 = ((frames ph)(z := zero_page))(?x := (frames ph ?x)[?i := ?e])" by simp
    note tw = table_write [OF ok q idx_lt False z(1) zb fr1 table_entry [OF zb]]
    have "mapper_block sv39 M mgr (Suc l) (frames ph ?x ! ?i) (page_pos n) (mp, ph) =
        Inr (New_Table ?e (pm_p_to_v M mgr z), mp, ?ph0)" for mp
      using False al vp by (simp add: mapper_block_def)
    then have "walk_inner_mut sv39 (mapper_ops sv39 M mgr) (tbl (Suc l) ptr n) (page_pos n) (mp, ph) =
        obind (walk_inner_mut sv39 (mapper_ops sv39 M mgr) (tbl l (pm_p_to_v M mgr z) n) (page_pos n) (mp, ?ph1))
          (\<lambda>(t, st). walk_inner_mut sv39 (mapper_ops sv39 M mgr) (tbl (Suc l) ptr n) t st)" for mp
      using False n len xz by (intro walk_mut_block) (simp_all add: mapper_sel)
    moreover have "table_path (q @ [?i])" using q(2,3) by (auto simp: table_path_def)
    then have "walk_path (frames ?ph1) r (q @ [?i]) = Some z" using tw(2) by simp
    moreover from nw have "\<forall>p x. table_path p \<longrightarrow> walk_path (frames ph) r p = Some x \<longrightarrow> walk_path (frames ?ph1) r p = Some x"
      using tw(2) by auto
    moreover have "grows free r ph ?ph1"
      unfolding grows_def tree_pages_def using tw(2) z q fr1
      by (auto split: if_splits)
    moreover have "tables_ok own (free (heap ?ph1)) (frames ?ph1) r" using tw(1) z(2) by simp
    moreover have "pt_lookup (frames ?ph1) r = pt_lookup (frames ph) r" using tw(3) by (intro ext)
    ultimately show ?thesis using z(3) nw by (intro exI [of _ ?ph1] exI [of _ z]) simp
  qed
qed

text \<open>Mapping one page: the target moves on and the mapping has one page more.\<close>

lemma idx_inject:
  assumes "unat n < 2 ^ 27" "unat k < 2 ^ 27" "idx 2 k = idx 2 n" "idx 1 k = idx 1 n" "idx 0 k = idx 0 n"
  shows "k = n"
proof -
  have d: "unat x = idx 2 x * 2 ^ 18 + idx 1 x * 2 ^ 9 + idx 0 x" if "unat x < 2 ^ 27" for x :: usize
  proof -
    have "idx 2 x = unat (take_bit 9 (drop_bit 18 x))" "idx 1 x = unat (take_bit 9 (drop_bit 9 x))"
      "idx 0 x = unat (take_bit 9 x)"
      by (simp_all add: idx_def unat_take_bit unat_drop_bit)
    with vpn_indices [OF that] show ?thesis by (simp only:)
  qed
  show ?thesis using d [OF assms(1)] d [OF assms(2)] assms(3-5) by (simp add: word_unat_eq_iff)
qed

lemma two_steps:
  assumes "x \<le> y + of_bool u" "y \<le> z + of_bool w" "w \<Longrightarrow> v" "u \<Longrightarrow> v"
  shows "(x :: nat) \<le> z + (if u then 2 else if v then 1 else 0)"
  using assms by (cases u; cases v; cases w) auto

lemma map_one:
  assumes ok: "tables_ok own (free (heap ph)) (frames ph) r" and r: "page_of ptr = r"
    and n: "unat n < 2 ^ 27" and fresh: "pt_lookup (frames ph) r n = None"
    and av: "avail (heap ph) \<ge> missing_tables (frames ph) r n"
    and tg: "target = pos_stop sv39 \<or> target = page_pos k" "unat k < 2 ^ 27"
    and arr: "\<And>p (ph :: 'h phys). \<not> pte_is_valid p \<Longrightarrow>
      mapper_arrive sv39 p (page_pos n) (mp, ph) = Inr (e, target, mp1, ph)"
  shows "\<exists>ph1. tables_ok own (free (heap ph1)) (frames ph1) r \<and> grows free r ph ph1 \<and>
     (\<forall>k. unat k < 2 ^ 27 \<longrightarrow> pt_lookup (frames ph1) r k =
        (if k = n then (if pte_is_valid e then Some e else None) else pt_lookup (frames ph) r k)) \<and>
     avail (heap ph) \<le> avail (heap ph1) + missing_tables (frames ph) r n \<and>
     walk_path (frames ph1) r [idx 2 n, idx 1 n] \<noteq> None \<and>
     walk_inner_mut sv39 (mapper_ops sv39 M mgr) (tbl 2 ptr n) (page_pos n) (mp, ph) =
     walk_inner_mut sv39 (mapper_ops sv39 M mgr) (tbl 2 ptr n) target (mp1, ph1)"
proof -
  let ?W = "\<lambda>l ptr. walk_inner_mut sv39 (mapper_ops sv39 M mgr) (tbl l ptr n)" and ?pv = "pm_p_to_v M mgr"
  let ?u = "walk_path (frames ph) r [idx 2 n] = None" and ?v = "walk_path (frames ph) r [idx 2 n, idx 1 n] = None"
  have uv: "?u \<Longrightarrow> ?v" by (simp split: if_splits)
  have av1: "?u \<Longrightarrow> avail (heap ph) > 0" using av by (simp add: missing_tables_def)
  from mapper_descend [OF ok, of "[]" ptr n 1 mgr] r n av1 obtain pha y where
    a: "tables_ok own (free (heap pha)) (frames pha) r" "grows free r ph pha"
      "walk_path (frames pha) r [idx 2 n] = Some y" "pt_lookup (frames pha) r = pt_lookup (frames ph) r"
      "avail (heap ph) \<le> avail (heap pha) + of_bool ?u"
      "?W 2 ptr (page_pos n) (mp, ph) = obind (?W 1 (?pv y) (page_pos n) (mp, pha)) (\<lambda>(t, st). ?W 2 ptr t st)"
      "\<And>p x. table_path p \<Longrightarrow> walk_path (frames ph) r p = Some x \<Longrightarrow> walk_path (frames pha) r p = Some x"
    by (auto simp: numeral_2_eq_2 simp del: walk_path.simps(2))
  let ?w = "walk_path (frames pha) r [idx 2 n, idx 1 n] = None"
  have wv: "?w \<Longrightarrow> ?v" using a(7) [of "[idx 2 n, idx 1 n]"] by (cases "walk_path (frames ph) r [idx 2 n, idx 1 n]") (simp_all del: walk_path.simps)
  have av2: "?w \<Longrightarrow> avail (heap pha) > 0"
    using av a(5) wv by (cases ?u) (simp_all add: missing_tables_def del: walk_path.simps)
  have y: "page_of (?pv y) = y" using tables_okD [OF a(1) _ a(3)] p_to_v by simp
  from mapper_descend [OF a(1), of "[idx 2 n]" "?pv y" n 0 mgr] y a(3) n av2 obtain phb x where
    b: "tables_ok own (free (heap phb)) (frames phb) r" "grows free r pha phb"
      "walk_path (frames phb) r [idx 2 n, idx 1 n] = Some x" "pt_lookup (frames phb) r = pt_lookup (frames pha) r"
      "avail (heap pha) \<le> avail (heap phb) + of_bool ?w" "walk_path (frames phb) r [idx 2 n] = Some y"
      "?W 1 (?pv y) (page_pos n) (mp, pha) = obind (?W 0 (?pv x) (page_pos n) (mp, phb)) (\<lambda>(t, st). ?W 1 (?pv y) t st)"
    by (auto simp del: walk_path.simps)
  have x: "page_of (?pv x) = x" "length (frames phb x) = 512" using tables_okD [OF b(1) _ b(3)] p_to_v by simp_all
  let ?ph1 = "set_entry x (idx 0 n) e phb"
  note lw = leaf_write [OF b(1) b(3) idx_lt idx_lt set_entry_simps(2) [of x "idx 0 n" e phb] idx_lt]
  have inv: "\<not> pte_is_valid (frames phb x ! idx 0 n)"
  proof -
    have "pt_lookup (frames phb) r n = None" using fresh a(4) b(4) by simp
    with b(3) show ?thesis by (simp add: pt_lookup_def del: walk_path.simps One_nat_def split: if_splits)
  qed
  have "?W 0 (?pv x) (page_pos n) (mp, phb) = ?W 0 (?pv x) target (mp1, ?ph1)"
    using walk_mut_leaf [of n phb "?pv x" "mapper_ops sv39 M mgr" mp e target mp1] n x arr [OF inv]
    by (simp add: mapper_sel)
  then have "?W 2 ptr (page_pos n) (mp, ph) =
      obind (obind (?W 0 (?pv x) target (mp1, ?ph1)) (\<lambda>(t, st). ?W 1 (?pv y) t st)) (\<lambda>(t, st). ?W 2 ptr t st)"
    using a(6) b(7) by simp
  also have "obind (?W 0 (?pv x) target (mp1, ?ph1)) (\<lambda>(t, st). ?W 1 (?pv y) t st) = ?W 1 (?pv y) target (mp1, ?ph1)"
    using mapper_reenter [of _ ?ph1 r "[idx 2 n]" "?pv y" 0 n x target k mgr mp1] lw(1,2) b(3,6) y n tg
    by (simp del: walk_path.simps)
  also have "obind (?W 1 (?pv y) target (mp1, ?ph1)) (\<lambda>(t, st). ?W 2 ptr t st) = ?W 2 ptr target (mp1, ?ph1)"
    using mapper_reenter [of _ ?ph1 r "[]" ptr 1 n y target k mgr mp1] lw(1,2) b(6) r n tg
    by (simp add: numeral_2_eq_2 del: walk_path.simps(2))
  finally have run: "?W 2 ptr (page_pos n) (mp, ph) = ?W 2 ptr target (mp1, ?ph1)" .
  have "x \<in> tree_pages (frames phb) r" using tree_pagesI [OF _ b(3)] by simp
  then have "grows free r phb ?ph1"
    unfolding grows_def tree_pages_def using lw(2) by (auto simp del: walk_path.simps)
  with a(2) b(2) have g: "grows free r ph ?ph1" by (blast intro: grows_trans)
  have "pt_lookup (frames ?ph1) r k =
      (if k = n then (if pte_is_valid e then Some e else None) else pt_lookup (frames ph) r k)" if "unat k < 2 ^ 27" for k
    using lw(3) [of k] idx_inject [OF n that] a(4) b(4) by auto
  moreover have "avail (heap ph) \<le> avail (heap ?ph1) + missing_tables (frames ph) r n"
    unfolding missing_tables_def set_entry_simps(1) by (rule two_steps [OF a(5) b(5) wv uv])
  moreover have "walk_path (frames ?ph1) r [idx 2 n, idx 1 n] \<noteq> None" using lw(2) b(3) by (simp del: walk_path.simps)
  ultimately show ?thesis using lw(1) g run by (intro exI [of _ ?ph1]) (simp del: walk_path.simps)
qed

text \<open>Mapping \<^verbatim>\<open>k\<close> more pages from page \<^verbatim>\<open>n\<close> on.\<close>

lemma mapper_arrive_eq:
  assumes "\<not> pte_is_valid p" "unat n < 2 ^ 27"
  shows "mapper_arrive sv39 p (page_pos n) (mp, ph) =
    Inr (build_pte sv39 (mp_flags mp) (mp_start mp),
      if mp_start mp + 1 = mp_end mp then pos_stop sv39 else page_pos (n + 1),
      mp\<lparr>mp_start := mp_start mp + 1, mp_done := mp_done mp \<or> mp_start mp + 1 = mp_end mp\<rparr>, ph)"
proof -
  have "pos_next sv39 (page_pos n) = Inr (page_pos (n + 1))"
    using assms(2) by (simp add: pos_next_def pos_delta_def page_pos_def)
  then show ?thesis using assms(1) by (simp add: mapper_arrive_def page_add_def Let_def)
qed

lemma map_many:
  assumes "tables_ok own (free (heap ph)) (frames ph) r" "page_of ptr = r" "k > 0"
    and "unat n + k \<le> 2 ^ 27" "avail (heap ph) \<ge> t + crossed_tables (unat n) k" "meta_is_valid (mp_flags mp)"
    and "mp_end mp = mp_start mp + of_nat k" "mp_flags mp AND ppn_mask sv39 = 0" "\<not> mp_done mp"
    and "\<And>v. unat n \<le> unat v \<Longrightarrow> unat v < unat n + k \<Longrightarrow> pt_lookup (frames ph) r v = None"
    and "missing_tables (frames ph) r n \<le> t"
  shows "\<exists>ph1 mp1. walk_inner_mut sv39 (mapper_ops sv39 M mgr) (tbl 2 ptr n) (page_pos n) (mp, ph) =
      Some (Inr (pos_stop sv39, mp1, ph1)) \<and> mp_done mp1 \<and>
    tables_ok own (free (heap ph1)) (frames ph1) r \<and> grows free r ph ph1 \<and>
    avail (heap ph) \<le> avail (heap ph1) + t + crossed_tables (unat n) k \<and>
    (\<forall>v. unat v < 2 ^ 27 \<longrightarrow> pt_lookup (frames ph1) r v =
       mapped n k (mp_start mp) (mp_flags mp) (pt_lookup (frames ph) r) v)"
  using assms
proof (induction k arbitrary: n mp ph t)
  case (Suc k)
  let ?W = "walk_inner_mut sv39 (mapper_ops sv39 M mgr)"
  let ?e = "build_pte sv39 (mp_flags mp) (mp_start mp)"
  let ?mp1 = "mp\<lparr>mp_start := mp_start mp + 1, mp_done := mp_start mp + 1 = mp_end mp\<rparr>"
  have n: "unat n < 2 ^ 27" using Suc.prems(4) by simp
  have k64: "k < 2 ^ 64" using Suc.prems(4) by simp
  have last: "mp_start mp + 1 = mp_end mp \<longleftrightarrow> k = 0"
  proof -
    have "mp_start mp + 1 = mp_end mp \<longleftrightarrow> (of_nat k :: usize) = 0" using Suc.prems(7) by simp
    also have "\<dots> \<longleftrightarrow> k = 0"
      using k64 by (simp add: word_unat_eq_iff unsigned_of_nat take_bit_nat_eq_self)
    finally show ?thesis .
  qed
  have n1: "unat (n + 1) = unat n + 1" using n by (simp add: unat_word_ariths)
  have ev: "pte_is_valid ?e"
  proof -
    have "build_pte sv39 (mp_flags mp) (mp_start mp) AND 1 = mp_flags mp AND 1"
      by (rule bit_word_eqI) (auto simp: build_pte_def meta_set_ppn_def bit_simps bit_ppn_mask_sv)
    then show ?thesis using Suc.prems(6) by (simp add: pte_is_valid_def meta_is_valid_def VALID_FLAG_def)
  qed
  have tg: "(if k = 0 then pos_stop sv39 else page_pos (n + 1)) = pos_stop sv39 \<or>
      (if k = 0 then pos_stop sv39 else page_pos (n + 1)) = page_pos (if k = 0 then n else n + 1)"
    by simp
  have kb: "unat (if k = 0 then n else n + 1) < 2 ^ 27" using n n1 Suc.prems(4) by simp
  have fresh: "pt_lookup (frames ph) r n = None" using Suc.prems(10) [of n] by simp
  have arr: "mapper_arrive sv39 p (page_pos n) (mp, pha) =
      Inr (?e, if k = 0 then pos_stop sv39 else page_pos (n + 1), ?mp1, pha)"
    if "\<not> pte_is_valid p" for p and pha :: "'h phys"
    using mapper_arrive_eq [OF that n, of mp pha] last Suc.prems(9) by simp
  from map_one [OF Suc.prems(1,2) n fresh _ tg kb arr, of mgr] Suc.prems(5,11) ev obtain ph1 where
    s: "tables_ok own (free (heap ph1)) (frames ph1) r" "grows free r ph ph1"
      "\<And>v. unat v < 2 ^ 27 \<Longrightarrow> pt_lookup (frames ph1) r v = (if v = n then Some ?e else pt_lookup (frames ph) r v)"
      "avail (heap ph) \<le> avail (heap ph1) + missing_tables (frames ph) r n"
      "walk_path (frames ph1) r [idx 2 n, idx 1 n] \<noteq> None"
      "?W (tbl 2 ptr n) (page_pos n) (mp, ph) =
         ?W (tbl 2 ptr n) (if k = 0 then pos_stop sv39 else page_pos (n + 1)) (?mp1, ph1)"
    by auto
  show ?case
  proof (cases "k = 0")
    case True
    have m: "mapped n (Suc 0) (mp_start mp) (mp_flags mp) L v = (if v = n then Some ?e else L v)" for L v
    proof -
      have "unat n \<le> unat v \<and> unat v < unat n + Suc 0 \<longleftrightarrow> v = n" by (auto simp: word_unat_eq_iff)
      then show ?thesis by (auto simp: mapped_def)
    qed
    show ?thesis
      using s(1-4,6) True last Suc.prems(11) by (intro exI [of _ ph1] exI [of _ ?mp1]) (simp add: m walk_mut_stop [OF n])
  next
    case False
    have tb: "tbl 2 ptr (n + 1) = tbl 2 ptr n"
      using root_tbl [of n ptr] root_tbl [of "n + 1" ptr] n n1 Suc.prems(4) False by simp
    have fr: "pt_lookup (frames ph1) r v = None" if "unat (n + 1) \<le> unat v" "unat v < unat (n + 1) + k" for v
      using s(3) [of v] Suc.prems(4) Suc.prems(10) [of v] that n1 by auto
    let ?t = "next_tables (unat n + 1)"
    have cr: "crossed_tables (unat n) (Suc k) = ?t + crossed_tables (unat (n + 1)) k"
      using crossed_Suc [of k "unat n"] False n1 by simp
    have mi: "missing_tables (frames ph1) r (n + 1) \<le> ?t" using missing_next [OF s(5)] Suc.prems(4) False by simp
    have "\<exists>ph2 mp2. ?W (tbl 2 ptr (n + 1)) (page_pos (n + 1)) (?mp1, ph1) = Some (Inr (pos_stop sv39, mp2, ph2)) \<and>
        mp_done mp2 \<and> tables_ok own (free (heap ph2)) (frames ph2) r \<and> grows free r ph1 ph2 \<and>
        avail (heap ph1) \<le> avail (heap ph2) + ?t + crossed_tables (unat (n + 1)) k \<and>
        (\<forall>v. unat v < 2 ^ 27 \<longrightarrow> pt_lookup (frames ph2) r v =
          mapped (n + 1) k (mp_start ?mp1) (mp_flags ?mp1) (pt_lookup (frames ph1) r) v)"
      using s(1,4) Suc.prems(2,4,5,6,7,8,11) n1 False last fr mi cr by (intro Suc.IH) (simp_all add: algebra_simps)
    then obtain ph2 mp2 where
      t: "?W (tbl 2 ptr (n + 1)) (page_pos (n + 1)) (?mp1, ph1) = Some (Inr (pos_stop sv39, mp2, ph2))"
        "mp_done mp2" "tables_ok own (free (heap ph2)) (frames ph2) r" "grows free r ph1 ph2"
        "avail (heap ph1) \<le> avail (heap ph2) + ?t + crossed_tables (unat (n + 1)) k"
        "\<And>v. unat v < 2 ^ 27 \<Longrightarrow> pt_lookup (frames ph2) r v =
          mapped (n + 1) k (mp_start ?mp1) (mp_flags ?mp1) (pt_lookup (frames ph1) r) v"
      by blast
    have "pt_lookup (frames ph2) r v = mapped n (Suc k) (mp_start mp) (mp_flags mp) (pt_lookup (frames ph) r) v"
      if "unat v < 2 ^ 27" for v
    proof -
      have "unat n \<le> unat v \<and> unat v < unat n + Suc k \<longleftrightarrow>
          v = n \<or> (unat (n + 1) \<le> unat v \<and> unat v < unat (n + 1) + k)"
        using n1 by (auto simp: word_unat_eq_iff)
      moreover have "\<not> unat (n + 1) \<le> unat n" using n1 by simp
      ultimately show ?thesis
        using t(6) [OF that] s(3) [OF that] by (auto simp: mapped_def algebra_simps)
    qed
    moreover have "avail (heap ph) \<le> avail (heap ph2) + t + crossed_tables (unat n) (Suc k)"
      using s(4) t(5) cr Suc.prems(11) by simp
    ultimately show ?thesis
      using s(2,6) t(1-4) tb False by (intro exI [of _ ph2] exI [of _ mp2]) (auto intro: grows_trans)
  qed
qed simp

lemma map_extern_maps:
  assumes "tables_ok own (free (heap ph)) (frames ph) r" "page_of (pm_root_ptr M (page_manager sp)) = r"
    and "unat n + k \<le> 2 ^ 27" "k > 0" "avail (heap ph) \<ge> tables_for (unat n) k"
    and "meta_is_valid flags" "flags AND ppn_mask sv39 = 0"
    and "\<And>v. unat n \<le> unat v \<Longrightarrow> unat v < unat n + k \<Longrightarrow> pt_lookup (frames ph) r v = None"
  shows "\<exists>ph1. map_extern sv39 M n (n + of_nat k) b flags sp ph =
      Some (Inr (sp\<lparr>areas := areas sp @ [(n, n + of_nat k)]\<rparr>, ph1)) \<and>
    tables_ok own (free (heap ph1)) (frames ph1) r \<and> grows free r ph ph1 \<and>
    avail (heap ph) \<le> avail (heap ph1) + tables_for (unat n) k \<and>
    (\<forall>v. unat v < 2 ^ 27 \<longrightarrow> pt_lookup (frames ph1) r v = mapped n k b flags (pt_lookup (frames ph) r) v)"
proof -
  have n: "unat n < 2 ^ 27" using assms(3,4) by simp
  have nk: "\<not> n + of_nat k < n"
  proof -
    have "unat (of_nat k :: usize) = k"
      using assms(3) by (simp add: unsigned_of_nat take_bit_nat_eq_self)
    then have "unat (n + of_nat k) = unat n + k" using assms(3) by (simp add: unat_word_ariths)
    then show ?thesis by (simp add: word_less_nat_alt)
  qed
  let ?mp = "\<lparr>mp_start = b, mp_end = b + of_nat k, mp_flags = flags, mp_done = False\<rparr>"
  have "missing_tables (frames ph) r n \<le> 2" by (simp add: missing_tables_def)
  with map_many [OF assms(1,2,4,3), of 2 ?mp "page_manager sp"] assms(5-8) obtain ph1 mp1 where
    "walk_inner_mut sv39 (mapper_ops sv39 M (page_manager sp)) (tbl 2 (pm_root_ptr M (page_manager sp)) n) (page_pos n)
       (?mp, ph) = Some (Inr (pos_stop sv39, mp1, ph1))" "mp_done mp1"
    "tables_ok own (free (heap ph1)) (frames ph1) r" "grows free r ph ph1"
    "avail (heap ph) \<le> avail (heap ph1) + tables_for (unat n) k"
    "\<forall>v. unat v < 2 ^ 27 \<longrightarrow> pt_lookup (frames ph1) r v = mapped n k b flags (pt_lookup (frames ph) r) v"
    by (auto simp: tables_for_def)
  then show ?thesis
    using nk by (intro exI [of _ ph1])
      (simp add: map_extern_def space_root_def root_tbl [OF n] page_add_def flip: page_pos_def)
qed

lemma translate_lookup:
  assumes "tables_ok own F (frames ph) r" "page_of (pm_root_ptr M (page_manager sp)) = r" "a = vaddr_new sv39 v"
  shows "translate sv39 M sp a flags ph =
    Some (Inr (case pt_lookup (frames ph) r (vaddr_floor sv39 a) of
        Some p \<Rightarrow> if vm_flags_contains (pte_flags sv39 p) flags
          then Some (pm_p_to_v M (page_manager sp) (pte_ppn sv39 p) + vaddr_offset sv39 a) else None
      | None \<Rightarrow> None))"
proof -
  have "unat (vaddr_floor sv39 a) < 2 ^ 27" unfolding assms(3) by (rule vaddr_floor_bound)
  from space_visit_lookup [OF assms(1,2) this] show ?thesis by (simp add: translate_def)
qed

end

end
