(* ===== verification/Vm_Sv39.thy ===== *)
theory Vm_Sv39
  imports Vm_Space
begin

text \<open>
  The page manager of the kernels satisfies the laws of theory \<^verbatim>\<open>Vm_Space\<close>, for every allocator that
  hands out free, page-aligned pages of the identity-mapped memory; a bump allocator is one. The
  properties of address spaces are stated here.
\<close>

section \<open>What the kernels rely on of the allocator\<close>

definition buddy_laws :: "'h buddy \<Rightarrow> ('h \<Rightarrow> usize set) \<Rightarrow> ('h \<Rightarrow> nat) \<Rightarrow> bool" where
  "buddy_laws bd free avail \<longleftrightarrow>
     (\<forall>h. \<forall>n \<in> free h. n \<noteq> 0 \<and> unat n < 2 ^ 26) \<and>
     (\<forall>h. avail h > 0 \<longrightarrow>
        (\<exists>n h1. bd 4096 4096 h = Some (push_bit 12 n, h1) \<and> n \<in> free h \<and> free h1 = free h - {n} \<and>
           avail h \<le> Suc (avail h1)))"

lemma sv39_p_to_v_eq:
  assumes "unat n < 2 ^ 26"
  shows "sv39_p_to_v mgr n = push_bit 12 n" "page_of (push_bit 12 n) = n" "sv39_v_to_p mgr (push_bit 12 n) = n"
proof -
  have b: "i < 26" if "bit n i" for i
  proof -
    have "take_bit 26 (unat n) = unat n" using assms by (rule take_bit_nat_eq_self)
    then have "take_bit 26 n = n" by (metis unsigned_take_bit_eq unsigned_word_eqI)
    then show ?thesis using that by (metis bit_take_bit_iff)
  qed
  have t: "vaddr_new sv39 (push_bit 12 n) = push_bit 12 n"
    by (rule bit_word_eqI) (auto dest: b simp: bit_vaddr_new bit_simps)
  have "i < 39" if "bit (push_bit 12 n) i" for i using b [of "i - 12"] that by (auto simp: bit_simps)
  moreover have "\<not> bit (push_bit 12 n) 38" using b [of 26] by (auto simp: bit_simps)
  ultimately have "push_bit 12 n \<le> IGNORED_MASK sv39" using vaddr_le_IGNORED by blast
  then show "sv39_p_to_v mgr n = push_bit 12 n"
    by (simp add: sv39_p_to_v_def vpn_base_def vaddr_val_def t)
  show "page_of (push_bit 12 n) = n"
    unfolding page_of_def by (rule bit_word_eqI) (auto dest: b simp: bit_simps)
  then show "sv39_v_to_p mgr (push_bit 12 n) = n"
    by (simp add: sv39_v_to_p_def t vaddr_floor_def page_of_def)
qed

lemma sv39_check_owned_eq: "sv39_check_owned mgr p \<longleftrightarrow> vm_flags_contains p OWNED"
proof -
  have "pte_flags sv39 p AND OWNED = p AND OWNED"
    by (rule bit_word_eqI)
       (auto simp: pte_flags_def meta_clear_ppn_def OWNED_def bit_and_iff bit_not_iff bit_single bit_ppn_mask_sv
         simp del: push_bit_of_1)
  then show ?thesis by (simp add: sv39_check_owned_def vm_flags_contains_def)
qed

lemma in_pages_one: "in_pages p 1 k \<longleftrightarrow> k = p"
  by (auto simp: in_pages_def unat_eq_0 less_Suc_eq)

lemma page_alloc_one:
  assumes "buddy_laws bd free avail" "avail (heap ph) > 0"
  shows "\<exists>n h. page_alloc bd 1 ph = Inr (push_bit 12 n, ph\<lparr>frames := (frames ph)(n := zero_page), heap := h\<rparr>) \<and>
     n \<noteq> 0 \<and> unat n < 2 ^ 26 \<and> n \<in> free (heap ph) \<and> free h = free (heap ph) - {n} \<and> avail (heap ph) \<le> Suc (avail h)"
proof -
  from assms obtain n h where
    b: "bd 4096 4096 (heap ph) = Some (push_bit 12 n, h)" "n \<in> free (heap ph)" "free h = free (heap ph) - {n}"
      "avail (heap ph) \<le> Suc (avail h)"
    unfolding buddy_laws_def by blast
  with assms(1) have n: "n \<noteq> 0" "unat n < 2 ^ 26" unfolding buddy_laws_def by blast+
  have "(\<lambda>k. if k = n then zero_page else frames ph k) = (frames ph)(n := zero_page)" by auto
  then have "page_alloc bd 1 ph = Inr (push_bit 12 n, ph\<lparr>frames := (frames ph)(n := zero_page), heap := h\<rparr>)"
    using b(1) sv39_p_to_v_eq(2) [OF n(2)]
    by (simp add: page_alloc_def global_alloc_def zero_pages_def in_pages_one cong: if_cong)
  with b n show ?thesis by blast
qed

locale sv39_space =
  fixes bd :: "'h buddy" and free :: "'h \<Rightarrow> usize set" and avail :: "'h \<Rightarrow> nat"
  assumes laws: "buddy_laws bd free avail"

lemma sv39_manage_sel [simp]:
  "pm_new_root (sv39_manage bd) = sv39_new_root bd" "pm_root_ptr (sv39_manage bd) mgr = mgr"
  "pm_root_ppn (sv39_manage bd) = sv39_root_ppn" "pm_p_to_v (sv39_manage bd) = sv39_p_to_v"
  "pm_v_to_p (sv39_manage bd) = sv39_v_to_p" "pm_check_owned (sv39_manage bd) = sv39_check_owned"
  "pm_allocate (sv39_manage bd) = sv39_allocate bd"
  by (simp_all add: sv39_manage_def)

sublocale sv39_space \<subseteq> pm: page_manager_laws "sv39_manage bd" OWNED free avail
proof
  show "unat n < 2 ^ 26 \<Longrightarrow> page_of (pm_p_to_v (sv39_manage bd) mgr n) = n" for n mgr
    by (simp add: sv39_p_to_v_eq)
  show "pm_check_owned (sv39_manage bd) mgr p \<longleftrightarrow> vm_flags_contains p OWNED" for mgr p
    by (simp add: sv39_check_owned_eq)
  show "OWNED AND ppn_mask sv39 = 0" "OWNED AND 0b1111 = 0"
    by (simp_all add: OWNED_def ppn_mask_def vm_mask_def push_bit_eq_mult)
  show "n \<in> free h \<Longrightarrow> unat n < 2 ^ 26" for n h
    using laws unfolding buddy_laws_def by blast
next
  fix ph :: "'h phys" and mgr flags
  assume "avail (heap ph) > 0"
  from page_alloc_one [OF laws this] obtain n h where
    a: "page_alloc bd 1 ph = Inr (push_bit 12 n, ph\<lparr>frames := (frames ph)(n := zero_page), heap := h\<rparr>)"
      "n \<noteq> 0" "unat n < 2 ^ 26" "n \<in> free (heap ph)" "free h = free (heap ph) - {n}"
      "avail (heap ph) \<le> Suc (avail h)"
    by blast
  have "push_bit 12 n \<noteq> 0" using a(2) sv39_p_to_v_eq(2) [OF a(3)] by (auto simp: page_of_def)
  with a show "\<exists>z h. pm_allocate (sv39_manage bd) mgr 1 flags ph =
          Inr (pm_p_to_v (sv39_manage bd) mgr z, flags OR OWNED, ph\<lparr>frames := (frames ph)(z := zero_page), heap := h\<rparr>) \<and>
        pm_v_to_p (sv39_manage bd) mgr (pm_p_to_v (sv39_manage bd) mgr z) = z \<and>
        z \<in> free (heap ph) \<and> free h = free (heap ph) - {z} \<and> avail (heap ph) \<le> Suc (avail h)"
    by (intro exI [of _ n] exI [of _ h])
       (simp add: sv39_allocate_def nonnull_def sv39_p_to_v_eq [OF a(3)])
qed

section \<open>A bump allocator\<close>

text \<open>The state is the next page and the limit.\<close>

definition bump :: "(nat \<times> nat) buddy" where
  "bump sz align h =
     (let (next_page, lim) = h; k = unat (drop_bit 12 sz) in
      if 0 < next_page \<and> next_page + k \<le> lim \<and> lim \<le> 2 ^ 26
      then Some (push_bit 12 (of_nat next_page), (next_page + k, lim)) else None)"

definition bump_free :: "nat \<times> nat \<Rightarrow> usize set" where
  "bump_free h = {n. 0 < n \<and> fst h \<le> unat n \<and> unat n < snd h \<and> unat n < 2 ^ 26}"

definition bump_avail :: "nat \<times> nat \<Rightarrow> nat" where
  "bump_avail h = (if 0 < fst h \<and> snd h \<le> 2 ^ 26 then snd h - fst h else 0)"

lemma bump_laws: "buddy_laws bump bump_free bump_avail"
  unfolding buddy_laws_def
proof (intro conjI allI ballI impI)
  fix h n
  assume n: "n \<in> bump_free h"
  then show "n \<noteq> 0" "unat n < 2 ^ 26" by (auto simp: bump_free_def)
next
  fix h
  assume av: "bump_avail h > 0"
  obtain a l where h: "h = (a, l)" by force
  with av have a: "0 < a" "a < l" "l \<le> 2 ^ 26" by (auto simp: bump_avail_def split: if_splits)
  have u: "unat (of_nat a :: usize) = a" using a by (simp add: unsigned_of_nat take_bit_nat_eq_self)
  have b: "bump 4096 4096 h = Some (push_bit 12 (of_nat a), (a + 1, l))"
    using a by (simp add: bump_def h)
  have "bump_free (a + 1, l) = bump_free h - {of_nat a}"
    using u by (auto simp: bump_free_def h word_unat_eq_iff)
  moreover have "of_nat a \<in> bump_free h" using a u by (auto simp: bump_free_def h word_less_nat_alt)
  moreover have "bump_avail h \<le> Suc (bump_avail (a + 1, l))" using a by (simp add: bump_avail_def h)
  ultimately show "\<exists>n h1. bump 4096 4096 h = Some (push_bit 12 n, h1) \<and> n \<in> bump_free h \<and>
      bump_free h1 = bump_free h - {n} \<and> bump_avail h \<le> Suc (bump_avail h1)"
    using b by blast
qed

interpretation bump: sv39_space bump bump_free bump_avail
  by unfold_locales (rule bump_laws)

section \<open>Mapping, then translating\<close>

context sv39_space
begin

lemma sv39_translate:
  assumes "tables_ok OWNED F (frames ph) r" "page_of (page_manager sp) = r" "a = vaddr_new sv39 v"
  shows "translate sv39 (sv39_manage bd) sp a want ph =
    Some (Inr (case pt_lookup (frames ph) r (vaddr_floor sv39 a) of
        Some p \<Rightarrow> if vm_flags_contains (pte_flags sv39 p) want
          then Some (sv39_p_to_v (page_manager sp) (pte_ppn sv39 p) + vaddr_offset sv39 a) else None
      | None \<Rightarrow> None))"
  using pm.translate_lookup [OF assms(1) _ assms(3), of sp want] assms(2) by (simp cong: option.case_cong if_cong)

lemma mapped_translate:
  assumes "tables_ok OWNED F (frames ph) r" "page_of (page_manager sp) = r"
    and "tables_ok OWNED F1 (frames ph1) r" "page_manager sp1 = page_manager sp"
    and "\<forall>v. unat v < 2 ^ 27 \<longrightarrow> pt_lookup (frames ph1) r v = mapped n k b flags (pt_lookup (frames ph) r) v"
    and "unat b + k \<le> 2 ^ 26" "flags AND ppn_mask sv39 = 0"
  shows "let a = vaddr_new sv39 v; i = vaddr_floor sv39 a - n in
    translate sv39 (sv39_manage bd) sp1 a want ph1 =
    (if unat n \<le> unat (vaddr_floor sv39 a) \<and> unat (vaddr_floor sv39 a) < unat n + k
     then Some (Inr (if vm_flags_contains flags want then Some (push_bit 12 (b + i) + vaddr_offset sv39 a) else None))
     else translate sv39 (sv39_manage bd) sp a want ph)"
proof -
  define a where "a = vaddr_new sv39 v"
  define x where "x = vaddr_floor sv39 a"
  have "unat x < 2 ^ 27" unfolding x_def a_def by (rule vaddr_floor_bound)
  with assms(5) have lk: "pt_lookup (frames ph1) r x = mapped n k b flags (pt_lookup (frames ph) r) x" by blast
  note t1 = sv39_translate [OF assms(3) _ a_def, of sp1 want, folded x_def]
  note t0 = sv39_translate [OF assms(1,2) a_def, of want, folded x_def]
  show ?thesis
  proof (cases "unat n \<le> unat x \<and> unat x < unat n + k")
    case True
    then have "unat (x - n) = unat x - unat n" by (simp add: unat_sub word_le_nat_alt)
    moreover from True assms(6) have lt: "unat b + (unat x - unat n) < 2 ^ 26" by linarith
    ultimately have p: "unat (b + (x - n)) < 2 ^ 26" by (simp only: unat_word_ariths) simp
    then have "unat (b + (x - n)) < 2 ^ 44" by simp
    note parts = pte_parts [OF this assms(7)]
    show ?thesis
      using True t1 lk parts assms(2,4) sv39_p_to_v_eq(1) [OF p]
      by (simp add: Let_def mapped_def flip: a_def x_def)
  next
    case False
    then show ?thesis using t0 t1 lk assms(2,4) by (auto simp: Let_def mapped_def simp flip: a_def x_def cong: option.case_cong if_cong)
  qed
qed

lemma map_translate:
  fixes sp :: "sv39_manager address_space"
  assumes "tables_ok OWNED (free (heap ph)) (frames ph) r" "page_of (page_manager sp) = r"
    and "unat n + k \<le> 2 ^ 27" "k > 0" "avail (heap ph) \<ge> tables_for (unat n) k"
    and "unat b + k \<le> 2 ^ 26" "meta_is_valid flags" "flags AND ppn_mask sv39 = 0"
    and "\<forall>v. unat n \<le> unat v \<and> unat v < unat n + k \<longrightarrow> pt_lookup (frames ph) r v = None"
  shows "\<exists>sp1 ph1. map_extern sv39 (sv39_manage bd) n (n + of_nat k) b flags sp ph = Some (Inr (sp1, ph1)) \<and>
     areas sp1 = areas sp @ [(n, n + of_nat k)] \<and> page_manager sp1 = page_manager sp \<and>
     tables_ok OWNED (free (heap ph1)) (frames ph1) r \<and>
     (\<forall>x. x \<notin> tree_pages (frames ph) r \<union> free (heap ph) \<longrightarrow> frames ph1 x = frames ph x) \<and>
     (\<forall>v want. let a = vaddr_new sv39 v; i = vaddr_floor sv39 a - n in
        translate sv39 (sv39_manage bd) sp1 a want ph1 =
        (if unat n \<le> unat (vaddr_floor sv39 a) \<and> unat (vaddr_floor sv39 a) < unat n + k
         then Some (Inr (if vm_flags_contains flags want
           then Some (push_bit 12 (b + i) + vaddr_offset sv39 a) else None))
         else translate sv39 (sv39_manage bd) sp a want ph))"
proof -
  from pm.map_extern_maps [OF assms(1) _ assms(3-5,7,8), of sp b] assms(2,9) obtain ph1 where
    m: "map_extern sv39 (sv39_manage bd) n (n + of_nat k) b flags sp ph =
        Some (Inr (sp\<lparr>areas := areas sp @ [(n, n + of_nat k)]\<rparr>, ph1))"
      "tables_ok OWNED (free (heap ph1)) (frames ph1) r" "grows free r ph ph1"
      "\<forall>v. unat v < 2 ^ 27 \<longrightarrow> pt_lookup (frames ph1) r v = mapped n k b flags (pt_lookup (frames ph) r) v"
    by auto
  note t = mapped_translate [OF assms(1,2) m(2) _ m(4) assms(6,8), of "sp\<lparr>areas := areas sp @ [(n, n + of_nat k)]\<rparr>"]
  show ?thesis
    using m t unfolding grows_def
    by (intro exI [of _ "sp\<lparr>areas := areas sp @ [(n, n + of_nat k)]\<rparr>"] exI [of _ ph1]) simp
qed

end

section \<open>Properties\<close>

text \<open>
  C7. Mapping and translating. In an address space whose tables are a tree of owned tables, with an
  allocator that can still hand out the tables that the range can need (two, and one for each table that the range enters), \<^verbatim>\<open>map_extern\<close> of \<^verbatim>\<open>k\<close> unmapped pages returns
  (the walk with the mapper ends, nothing panics), records the area, and from then on \<^verbatim>\<open>translate\<close>
  sends an address in the range to the same offset of the corresponding physical page exactly when the
  flags cover the requested ones, and every other address to where it was sent before. The tables are a
  tree again, and no memory outside the tables and the free pages has changed.
\<close>

theorem map_then_translate:
  fixes sp :: "sv39_manager address_space" and ph :: "'h phys"
  assumes "buddy_laws bd free avail"
    and "tables_ok OWNED (free (heap ph)) (frames ph) r" "page_of (page_manager sp) = r"
    and "unat n + k \<le> 2 ^ 27" "k > 0" "avail (heap ph) \<ge> tables_for (unat n) k"
    and "unat b + k \<le> 2 ^ 26" "meta_is_valid flags" "flags AND ppn_mask sv39 = 0"
    and "\<forall>v. unat n \<le> unat v \<and> unat v < unat n + k \<longrightarrow> pt_lookup (frames ph) r v = None"
  shows "\<exists>sp1 ph1. map_extern sv39 (sv39_manage bd) n (n + of_nat k) b flags sp ph = Some (Inr (sp1, ph1)) \<and>
     areas sp1 = areas sp @ [(n, n + of_nat k)] \<and> page_manager sp1 = page_manager sp \<and>
     tables_ok OWNED (free (heap ph1)) (frames ph1) r \<and>
     (\<forall>x. x \<notin> tree_pages (frames ph) r \<union> free (heap ph) \<longrightarrow> frames ph1 x = frames ph x) \<and>
     (\<forall>v want. let a = vaddr_new sv39 v; i = vaddr_floor sv39 a - n in
        translate sv39 (sv39_manage bd) sp1 a want ph1 =
        (if unat n \<le> unat (vaddr_floor sv39 a) \<and> unat (vaddr_floor sv39 a) < unat n + k
         then Some (Inr (if vm_flags_contains flags want
           then Some (push_bit 12 (b + i) + vaddr_offset sv39 a) else None))
         else translate sv39 (sv39_manage bd) sp a want ph))"
  by (rule sv39_space.map_translate [OF sv39_space.intro [OF assms(1)] assms(2-)])

text \<open>An empty address space with its root table in page 999, and an allocator with a thousand pages.\<close>

definition demo_phys :: "(nat \<times> nat) phys" where
  "demo_phys = \<lparr>frames = (\<lambda>_. zero_page), heap = (1000, 2000)\<rparr>"

definition demo_space :: "sv39_manager address_space" where
  "demo_space = \<lparr>areas = [], page_manager = push_bit 12 999\<rparr>"

lemma demo_space_ok:
  "tables_ok OWNED (bump_free (heap demo_phys)) (frames demo_phys) 999"
  "pt_lookup (frames demo_phys) 999 v = None"
  "page_of (page_manager demo_space) = 999" "bump_avail (heap demo_phys) = 1000"
proof -
  have e: "frames demo_phys 999 = zero_page" "999 \<notin> bump_free (heap demo_phys)" "unat (999 :: usize) < 2 ^ 26"
    by (simp_all add: demo_phys_def bump_free_def)
  show "tables_ok OWNED (bump_free (heap demo_phys)) (frames demo_phys) 999"
    "pt_lookup (frames demo_phys) 999 v = None"
    using tables_ok_empty [of "frames demo_phys" 999, OF e] by simp_all
  show "page_of (page_manager demo_space) = 999" "bump_avail (heap demo_phys) = 1000"
    by (simp_all add: demo_space_def page_of_def demo_phys_def bump_avail_def)
qed

theorem map_then_translate_witness:
  "\<exists>sp1 ph1. map_extern sv39 (sv39_manage bump) 16 (16 + of_nat 2) 5000 0x17 demo_space demo_phys = Some (Inr (sp1, ph1)) \<and>
     translate sv39 (sv39_manage bump) sp1 (vaddr_new sv39 0x11008) 0b11 ph1 = Some (Inr (Some 0x1389008))"
proof -
  have f: "(0x17 :: usize) AND ppn_mask sv39 = 0" by (simp add: ppn_mask_def vm_mask_def push_bit_eq_mult)
  have h: "unat (16 :: usize) + 2 \<le> 2 ^ 27" "(2 :: nat) > 0" "bump_avail (heap demo_phys) \<ge> tables_for (unat (16 :: usize)) 2"
    "unat (5000 :: usize) + 2 \<le> 2 ^ 26" "meta_is_valid 0x17"
    "\<forall>v :: vpn. unat (16 :: usize) \<le> unat v \<and> unat v < unat (16 :: usize) + 2 \<longrightarrow> pt_lookup (frames demo_phys) 999 v = None"
    by (simp_all add: demo_space_ok meta_is_valid_def VALID_FLAG_def tables_for_def crossed_tables_def)
  note map_then_translate [OF bump_laws demo_space_ok(1,3) h(1-5) f h(6)]
  then obtain sp1 ph1 where
    m: "map_extern sv39 (sv39_manage bump) 16 (16 + of_nat 2) 5000 0x17 demo_space demo_phys = Some (Inr (sp1, ph1))"
    and t: "\<And>v want. let a = vaddr_new sv39 v; i = vaddr_floor sv39 a - 16 in
        translate sv39 (sv39_manage bump) sp1 a want ph1 =
        (if unat (16 :: usize) \<le> unat (vaddr_floor sv39 a) \<and> unat (vaddr_floor sv39 a) < unat (16 :: usize) + 2
         then Some (Inr (if vm_flags_contains 0x17 want
           then Some (push_bit 12 (5000 + i) + vaddr_offset sv39 a) else None))
         else translate sv39 (sv39_manage bump) demo_space a want demo_phys)"
    by (elim exE conjE) blast
  have v: "vaddr_new sv39 0x11008 = 0x11008" "vaddr_floor sv39 0x11008 = 0x11" "vaddr_offset sv39 0x11008 = 8"
    by (simp_all add: vaddr_new_def vaddr_floor_def vaddr_offset_def)
  have "translate sv39 (sv39_manage bump) sp1 (vaddr_new sv39 0x11008) 0b11 ph1 = Some (Inr (Some 0x1389008))"
    using t [of "0x11008" "0b11"] by (simp add: v vm_flags_contains_def Let_def)
  with m show ?thesis by blast
qed

end
