(* ===== verification/Kernel_Props.thy ===== *)
theory Kernel_Props
  imports Kernel_Inv Vm_Sv39
begin

text \<open>
  Properties of the whole chapter 8 kernel: the invariant in every reachable state, what a system call
  does to the thread that makes it and to the threads it blocks or wakes, the two ends of \<^verbatim>\<open>fork\<close>, the
  delivery of a signal around a system call, and the calls by which a program stops the kernel.
\<close>

section \<open>Scheduling of the running thread\<close>

lemma suspend_current_eq:
  assumes "running t k"
  obtains k' where "suspend_current k = Inr k'" "k_tasks k' = k_tasks k" "k_procs k' = k_procs k"
    "k_ready k' = k_ready k @ [t]" "k_current k' = None" "k_rels k' = k_rels k" "k_owner k' = k_owner k"
proof -
  from assms obtain mg where mg: "pt_manager (k_processor k) = Some mg" by (rule running_managers)
  have "k_current k = Some t" using assms by (simp add: running_def)
  with mg that show ?thesis
    by (auto simp: suspend_current_def processor_op_def ptm_make_current_suspend_def k_tasks_def k_procs_def
        k_ready_def tmg.items_add tmg.queue_add)
qed

lemma block_current_eq:
  assumes "running t k"
  shows "block_current k = Inr (k\<lparr>k_processor := (k_processor k)\<lparr>pt_current := None\<rparr>\<rparr>)"
  using assms by (simp add: block_current_def processor_op_def ptm_make_current_blocked_def running_def)

lemma k_views_current [simp]:
  "k_tasks (k\<lparr>k_processor := (k_processor k)\<lparr>pt_current := c\<rparr>\<rparr>) = k_tasks k"
  "k_procs (k\<lparr>k_processor := (k_processor k)\<lparr>pt_current := c\<rparr>\<rparr>) = k_procs k"
  "k_ready (k\<lparr>k_processor := (k_processor k)\<lparr>pt_current := c\<rparr>\<rparr>) = k_ready k"
  by (simp_all add: k_tasks_def k_procs_def k_ready_def)

lemma wake_eq:
  assumes "running t k"
  obtains k' where "wake (Some w) k = Inr k'" "k_tasks k' = k_tasks k" "k_procs k' = k_procs k"
    "k_ready k' = k_ready k @ [w]" "k_current k' = k_current k" "k_rels k' = k_rels k" "k_owner k' = k_owner k"
proof -
  from assms obtain mg where mg: "pt_manager (k_processor k) = Some mg" by (rule running_managers)
  with that show ?thesis
    by (auto simp: wake_def processor_op_def ptm_re_enque_def k_tasks_def k_procs_def k_ready_def tmg.items_add
        tmg.queue_add)
qed

lemma running_entries:
  assumes "running t k" "k_tasks k t = Some th" "k_owner k t = Some i" "k_procs k i = Some p"
  shows "get_task t k = Inr th" "cur_thread k = Inr th" "cur_proc k = Inr (i, p)" "thr_tid th = t"
    "ctx_wf (fcontext (thr_context th))" "proc_pid p = i" "sig_wf (proc_signal p)" "k_current k = Some t"
  using assms get_task_Inr [OF assms(1)] cur_thread_Inr [OF assms(1)] cur_proc_Inr [OF assms(1)]
  by (auto simp: running_def kernel_inv_def thread_ok_def process_ok_def)

text \<open>A thread calls; the call returns \<open>ret\<close> and neither its process nor its thread is changed by it.\<close>

definition after_trap :: "thread_id \<Rightarrow> thread \<Rightarrow> ('d, 'h) kernel \<Rightarrow> ('d, 'h) kernel" where
  "after_trap t th k = put_task t (set_fcontext (ctx_move_next (fcontext (thr_context th))) th) k"

lemma after_trap_running:
  assumes "running t k" "k_tasks k t = Some th" "k_owner k t = Some i" "k_procs k i = Some p"
  shows "running t (after_trap t th k)"
    "k_tasks (after_trap t th k) t = Some (set_fcontext (ctx_move_next (fcontext (thr_context th))) th)"
    "k_owner (after_trap t th k) t = Some i" "k_procs (after_trap t th k) i = Some p"
    "k_ready (after_trap t th k) = k_ready k"
  using assms running_entries [OF assms] by (auto simp: after_trap_def intro!: running_put_task)

section \<open>A small kernel state\<close>

text \<open>
  Process 0 with the threads 0 (running) and 1 (ready); thread 0 has just trapped with the number
  \<open>sid\<close> in \<^verbatim>\<open>a7\<close> and \<open>x\<close> in \<^verbatim>\<open>a0\<close>. The root table of the process is the page 1, that of the kernel the page 2.
\<close>

definition demo_context :: "usize \<Rightarrow> usize \<Rightarrow> local_context" where
  "demo_context sid x = (ctx_user 4096)\<lparr>xregs := (replicate 31 0)[16 := sid, 9 := x]\<rparr>"

definition demo_process :: process where
  "demo_process = \<lparr>proc_pid = 0, address_space = \<lparr>areas = [], page_manager = 4096\<rparr>, fd_table = [],
     proc_signal = signal_impl_new, semaphore_list = [Some (semaphore_new 0)],
     mutex_list = [Some \<lparr>locked = True, mutex_wait_queue = [1]\<rparr>], condvar_list = []\<rparr>"

definition demo_kernel :: "usize \<Rightarrow> usize \<Rightarrow> process \<Rightarrow> (unit, nat \<times> nat) kernel" where
  "demo_kernel sid x p =
     \<lparr>k_processor = \<lparr>
        pt_rel_map = [0 \<mapsto> \<lparr>pt_parent = usize_MAX, pt_children = [], pt_dead_children = [], pt_threads = [0, 1],
                           pt_dead_threads = []\<rparr>],
        pt_proc_manager = Some \<lparr>procs = [0 \<mapsto> p]\<rparr>,
        tid2pid = [0 \<mapsto> 0, 1 \<mapsto> 0],
        pt_manager = Some \<lparr>thr_tasks =
            [0 \<mapsto> \<lparr>thr_tid = 0, thr_context = \<lparr>fcontext = demo_context sid x, fsatp = 1\<rparr>\<rparr>,
             1 \<mapsto> \<lparr>thr_tid = 1, thr_context = \<lparr>fcontext = ctx_user 8192, fsatp = 1\<rparr>\<rparr>],
          thr_ready_queue = [1]\<rparr>,
        pt_current = Some 0\<rparr>,
      k_phys = \<lparr>frames = (\<lambda>_. replicate 512 0), heap = (16, 64)\<rparr>,
      k_kspace = \<lparr>areas = [], page_manager = 8192\<rparr>, k_disk = \<lparr>bqueue = [], device = ()\<rparr>,
      k_pid = 1, k_tid = 2, k_stdout = [], k_stdin = [], k_time = 0\<rparr>"

lemma ctx_wf_demo [simp]: "ctx_wf (demo_context sid x)"
  by (simp add: demo_context_def ctx_wf_def)

lemma demo_context_args [simp]:
  "ctx_a (demo_context sid x) 7 = Inr sid" "ctx_a (demo_context sid x) 0 = Inr x"
  by (simp_all add: demo_context_def ctx_a_def ctx_x_def vec_index_def)

lemma demo_views:
  "k_tasks (demo_kernel sid x p) 0 = Some \<lparr>thr_tid = 0, thr_context = \<lparr>fcontext = demo_context sid x, fsatp = 1\<rparr>\<rparr>"
  "k_owner (demo_kernel sid x p) 0 = Some 0" "k_procs (demo_kernel sid x p) 0 = Some p"
  "k_ready (demo_kernel sid x p) = [1]"
  by (simp_all add: demo_kernel_def k_tasks_def k_procs_def k_ready_def)

lemma demo_running:
  assumes "proc_pid p = 0" "sig_wf (proc_signal p)"
  shows "running 0 (demo_kernel sid x p)" "room (demo_kernel sid x p)"
  using assms
  by (auto simp: running_def kernel_inv_def ptm_inv_def tree_inv_def rels_def rel_of_def demo_kernel_def room_def
      k_tasks_def k_procs_def thread_ok_def process_ok_def usize_MAX_def split: if_splits)

section \<open>Signals around a system call\<close>

lemma handle_getpid:
  "handle (ch8_containers E) clr SYS_GETPID args k =
     rbind (cur_proc k) (\<lambda>(i, p). Inr (Done (proc_pid p), k))"
  by (cases args; cases "cur_proc k")
     (auto simp: handle_def syscall_ids container_call_def ch8_process_def ch8_getpid_def)

lemma handle_sigreturn:
  "handle (ch8_containers E) clr SYS_RT_SIGRETURN args k =
     rbind (ch8_sigreturn clr k) (\<lambda>(r, k1). Inr (Done r, k1))"
  by (cases args) (simp add: handle_def syscall_ids container_call_def ch8_signal_def)

text \<open>The last step of an ordinary call: the value goes into \<^verbatim>\<open>a0\<close> and the thread to the end of the queue.\<close>

lemma finish_call_ordinary:
  assumes "running t k" "k_tasks k t = Some th"
    and "sid \<notin> {SYS_EXIT, SYS_SEMAPHORE_DOWN, SYS_MUTEX_LOCK, SYS_CONDVAR_WAIT}"
  obtains k' where "finish_call sid (Done ret) t k = Inr k'" "k_procs k' = k_procs k"
    "k_tasks k' = (k_tasks k)(t \<mapsto> set_fcontext ((fcontext (thr_context th))
        \<lparr>xregs := (xregs (fcontext (thr_context th)))[9 := ret]\<rparr>) th)"
    "k_ready k' = k_ready k @ [t]" "k_current k' = None" "k_rels k' = k_rels k" "k_owner k' = k_owner k"
proof -
  let ?th = "set_fcontext ((fcontext (thr_context th))\<lparr>xregs := (xregs (fcontext (thr_context th)))[9 := ret]\<rparr>) th"
  have g: "get_task t k = Inr th" "thr_tid th = t" "ctx_wf (fcontext (thr_context th))"
    using assms(1,2) get_task_Inr [OF assms(1)] by (auto simp: running_def kernel_inv_def thread_ok_def)
  have "running t (put_task t ?th k)"
    using assms(1) g by (intro running_put_task) (simp_all add: ctx_wf_def)
  from suspend_current_eq [OF this] obtain k' where "suspend_current (put_task t ?th k) = Inr k'"
    "k_tasks k' = k_tasks (put_task t ?th k)" "k_procs k' = k_procs (put_task t ?th k)"
    "k_ready k' = k_ready (put_task t ?th k) @ [t]" "k_current k' = None"
    "k_rels k' = k_rels (put_task t ?th k)" "k_owner k' = k_owner (put_task t ?th k)" .
  with that g assms(2,3) show ?thesis by (simp add: finish_call_def)
qed

text \<open>
  C36. A signal that is delivered with a system call loses its own argument and the call's result. Take any
  system call that returns a value and whose value goes into \<^verbatim>\<open>a0\<close>: all but \<^verbatim>\<open>exit\<close>, \<^verbatim>\<open>semaphore_down\<close>,
  \<^verbatim>\<open>mutex_lock\<close> and \<^verbatim>\<open>condvar_wait\<close>. If after it the lowest deliverable signal of the process has a registered handler,
  the thread is put back at the entry of the handler, but \<^verbatim>\<open>a0\<close> holds the result of the call where
  \<^verbatim>\<open>handle_signals\<close> had just placed the number of the signal, and the context saved for \<^verbatim>\<open>sigreturn\<close> is the one
  before the result was stored.
\<close>

theorem signal_argument_overwritten:
  assumes "running t k" "room k" "k_tasks k t = Some th"
    and "read_frame (ctx_move_next (fcontext (thr_context th))) = Inr (sid, args)"
    and "sid \<notin> {SYS_EXIT, SYS_SEMAPHORE_DOWN, SYS_MUTEX_LOCK, SYS_CONDVAR_WAIT}"
    and "handle (ch8_containers E) \<lparr>entity = 0, flow = 0\<rparr> sid args (after_trap t th k) = Inr (Done ret, k2)"
    and "k_tasks k2 t = Some th2" "k_owner k2 t = Some i" "k_procs k2 i = Some p"
    and "handling (proc_signal p) = None" "deliverable (proc_signal p) \<noteq> {}"
    and "n = Min (deliverable (proc_signal p))" "n \<le> MAX_SIG" "all_signals ! n \<notin> {SIGKILL, SIGSTOP}"
    and "actions (proc_signal p) ! n = Some a"
  shows "\<exists>k' th' p'. serve_call (ch8_containers E) t k = Inr k'
     \<and> k_tasks k' t = Some th' \<and> ctx_pc (fcontext (thr_context th')) = handler a
     \<and> ctx_a (fcontext (thr_context th')) 0 = Inr ret
     \<and> k_procs k' i = Some p' \<and> handling (proc_signal p') = Some (UserSignal (fcontext (thr_context th2)))
     \<and> k_ready k' = k_ready k2 @ [t] \<and> k_current k' = None"
proof -
  let ?c = "fcontext (thr_context th2)"
  have g: "get_task t k = Inr th" "thr_tid th = t" "ctx_wf (fcontext (thr_context th))"
    using assms(1,3) get_task_Inr [OF assms(1)] by (auto simp: running_def kernel_inv_def thread_ok_def)
  have "running t (after_trap t th k)" "room (after_trap t th k)"
    using assms(1,2) g by (auto simp: after_trap_def intro!: running_put_task)
  from handle_served [OF this, of E "\<lparr>entity = 0, flow = 0\<rparr>" sid args] assms(6) have r2: "running t k2" by simp
  note e = running_entries [OF r2 assms(7-9)]
  have wf: "length (actions (proc_signal p)) = MAX_SIG + 1" using e(7) by (simp add: sig_wf_def)
  obtain r where "handle_signals (proc_signal p) ?c =
      Inr (dispatch (all_signals ! n) ((proc_signal p)\<lparr>received := r\<rparr>) ?c)"
    using handle_signals_dispatch [OF assms(10,11) _ wf e(5)] assms(12,13) by blast
  then have sig: "handle_signals (proc_signal p) ?c = Inr (Handled, (proc_signal p)\<lparr>received := r, handling := Some (UserSignal ?c)\<rparr>,
       ?c\<lparr>sepc := handler a, xregs := (xregs ?c)[9 := of_nat n]\<rparr>)" (is "_ = Inr (Handled, ?s, ?c2)")
    using assms(13-15) by (simp add: dispatch_def MAX_SIG_def)
  let ?k3 = "put_task t (set_fcontext ?c2 th2) (put_proc i (p\<lparr>proc_signal := ?s\<rparr>) k2)"
  have "sig_wf ?s" using e(5,7) by (simp add: sig_wf_def)
  then have r3: "running t ?k3" "k_tasks ?k3 t = Some (set_fcontext ?c2 th2)"
    using r2 e assms(7) by (auto simp: ctx_wf_def intro!: running_put_task running_put_proc)
  have serve: "serve_call (ch8_containers E) t k = finish_call sid (Done ret) t ?k3"
    using g(1) assms(4,6) e(1,3) sig by (simp add: serve_call_def Let_def after_trap_def [symmetric])
  from finish_call_ordinary [OF r3 assms(5), of ret] obtain k' where "finish_call sid (Done ret) t ?k3 = Inr k'"
    "k_procs k' = k_procs ?k3" "k_tasks k' = (k_tasks ?k3)(t \<mapsto> set_fcontext ((fcontext (thr_context (set_fcontext ?c2 th2)))
        \<lparr>xregs := (xregs (fcontext (thr_context (set_fcontext ?c2 th2))))[9 := ret]\<rparr>) (set_fcontext ?c2 th2))"
    "k_ready k' = k_ready ?k3 @ [t]" "k_current k' = None" .
  with serve assms(9) e(5) show ?thesis by (auto simp: ctx_pc_def ctx_wf_def)
qed

theorem signal_argument_overwritten_witness:
  "\<forall>E. \<exists>k' th'. serve_call (ch8_containers E) 0 (demo_kernel SYS_GETPID 5 (demo_process\<lparr>proc_signal :=
        signal_impl_new\<lparr>received := push_bit 10 1,
          actions := (replicate 32 None)[10 := Some \<lparr>handler = 512, act_mask = 0\<rparr>]\<rparr>\<rparr>)) = Inr k'
     \<and> k_tasks k' 0 = Some th' \<and> ctx_pc (fcontext (thr_context th')) = 512
     \<and> ctx_a (fcontext (thr_context th')) 0 = Inr 0 \<and> k_ready k' = [1, 0]"
proof
  fix E
  let ?s = "signal_impl_new\<lparr>received := push_bit 10 1,
      actions := (replicate 32 None)[10 := Some \<lparr>handler = 512, act_mask = 0\<rparr>]\<rparr>"
  let ?p = "demo_process\<lparr>proc_signal := ?s\<rparr>" and ?th = "\<lparr>thr_tid = 0, thr_context = \<lparr>fcontext = demo_context SYS_GETPID 5, fsatp = 1\<rparr>\<rparr>"
  have d: "deliverable ?s = {10}"
    by (simp add: deliverable_def sigs_push_bit signal_impl_new_def del: push_bit_of_1)
  have wf: "proc_pid ?p = 0" "sig_wf (proc_signal ?p)"
    by (simp_all add: demo_process_def sig_wf_def signal_impl_new_def MAX_SIG_def)
  have sig: "handling (proc_signal ?p) = None" "deliverable (proc_signal ?p) \<noteq> {}" "10 = Min (deliverable (proc_signal ?p))"
    "10 \<le> MAX_SIG" "all_signals ! 10 \<notin> {SIGKILL, SIGSTOP}"
    "actions (proc_signal ?p) ! 10 = Some \<lparr>handler = 512, act_mask = 0\<rparr>"
    using d by (simp_all add: MAX_SIG_def all_signals_def del: push_bit_of_1) (simp_all add: signal_impl_new_def)
  let ?k = "demo_kernel SYS_GETPID 5 ?p" and ?k1 = "after_trap 0 ?th (demo_kernel SYS_GETPID 5 ?p)"
  note r = demo_running [OF wf]
  note r1 = after_trap_running [OF r(1) demo_views(1-3)]
  obtain args where args: "read_frame (ctx_move_next (fcontext (thr_context ?th))) = Inr (SYS_GETPID, args)"
    by (simp add: read_frame_wf ctx_move_next_def ctx_wf_def demo_context_def)
  have h: "handle (ch8_containers E) \<lparr>entity = 0, flow = 0\<rparr> SYS_GETPID args ?k1 = Inr (Done 0, ?k1)"
    using running_entries(3,6) [OF r1(1-4)] by (simp add: handle_getpid)
  have "SYS_GETPID \<notin> {SYS_EXIT, SYS_SEMAPHORE_DOWN, SYS_MUTEX_LOCK, SYS_CONDVAR_WAIT}" by (simp add: syscall_ids)
  from signal_argument_overwritten [OF r demo_views(1) args this h r1(2-4) sig]
  show "\<exists>k' th'. serve_call (ch8_containers E) 0 (demo_kernel SYS_GETPID 5 ?p) = Inr k'
     \<and> k_tasks k' 0 = Some th' \<and> ctx_pc (fcontext (thr_context th')) = 512
     \<and> ctx_a (fcontext (thr_context th')) 0 = Inr 0 \<and> k_ready k' = [1, 0]"
    unfolding r1(5) demo_views(4) by fastforce
qed

text \<open>
  \<^verbatim>\<open>sigreturn\<close> resumes the interrupted thread with \<^verbatim>\<open>a0\<close> = 0: the saved context comes back with its
  program counter and registers, and then the result of \<^verbatim>\<open>sigreturn\<close> itself is stored in \<^verbatim>\<open>a0\<close>, so the
  interrupted system call always appears to have returned 0.
\<close>

theorem sigreturn_clears_a0:
  assumes "running t k" "k_tasks k t = Some th" "k_owner k t = Some i" "k_procs k i = Some p"
    and "ctx_a (fcontext (thr_context th)) 7 = Inr SYS_RT_SIGRETURN"
    and "handling (proc_signal p) = Some (UserSignal c)" "deliverable (proc_signal p) = {}"
  shows "\<exists>k' th' p'. serve_call (ch8_containers E) t k = Inr k'
     \<and> k_tasks k' t = Some th' \<and> fcontext (thr_context th') = c\<lparr>xregs := (xregs c)[9 := 0]\<rparr>
     \<and> k_procs k' i = Some p' \<and> handling (proc_signal p') = None \<and> k_ready k' = k_ready k @ [t]"
proof -
  let ?c = "ctx_move_next (fcontext (thr_context th))" and ?k1 = "after_trap t th k"
  let ?t1 = "set_fcontext ?c th" and ?s = "(proc_signal p)\<lparr>handling := None\<rparr>"
  note e = running_entries [OF assms(1-4)]
  note r1 = after_trap_running [OF assms(1-4)]
  note e1 = running_entries [OF r1(1-4)]
  have wf: "ctx_wf ?c" "ctx_wf c" "sig_wf ?s" using e assms(6) by (simp_all add: sig_wf_def)
  obtain args where frame: "read_frame ?c = Inr (SYS_RT_SIGRETURN, args)"
    using assms(5) e(5) wf(1) by (simp add: read_frame_wf ctx_move_next_def)
  let ?t2 = "set_fcontext c ?t1"
  let ?k2 = "put_task t ?t2 (put_proc i (p\<lparr>proc_signal := ?s\<rparr>) ?k1)"
  have call: "handle (ch8_containers E) \<lparr>entity = 0, flow = 0\<rparr> SYS_RT_SIGRETURN args ?k1 = Inr (Done 0, ?k2)"
    using e1 assms(6) by (simp add: handle_sigreturn ch8_sigreturn_def sig_return_def)
  have r2: "running t ?k2" "k_tasks ?k2 t = Some ?t2" "k_owner ?k2 t = Some i" "k_procs ?k2 i = Some (p\<lparr>proc_signal := ?s\<rparr>)"
    using r1 e wf by (auto intro!: running_put_task running_put_proc)
  note e2 = running_entries [OF r2]
  have sig: "handle_signals ?s c = Inr (NoSignal, ?s, c)"
    using assms(7) by (intro handle_signals_idle) (simp_all add: deliverable_def)
  let ?k3 = "put_task t (set_fcontext c ?t2) (put_proc i (p\<lparr>proc_signal := ?s\<rparr>) ?k2)"
  have r3: "running t ?k3" "k_tasks ?k3 t = Some (set_fcontext c ?t2)"
    using r2 e wf by (auto intro!: running_put_task running_put_proc)
  have serve: "serve_call (ch8_containers E) t k = finish_call SYS_RT_SIGRETURN (Done 0) t ?k3"
    using e2(1,3) frame sig call by (simp add: serve_call_def e(1) Let_def after_trap_def [symmetric])
  have "SYS_RT_SIGRETURN \<notin> {SYS_EXIT, SYS_SEMAPHORE_DOWN, SYS_MUTEX_LOCK, SYS_CONDVAR_WAIT}" by (simp add: syscall_ids)
  from finish_call_ordinary [OF r3 this, of 0] obtain k' where "finish_call SYS_RT_SIGRETURN (Done 0) t ?k3 = Inr k'"
    "k_procs k' = k_procs ?k3" "k_tasks k' = (k_tasks ?k3)(t \<mapsto> set_fcontext ((fcontext (thr_context (set_fcontext c ?t2)))
        \<lparr>xregs := (xregs (fcontext (thr_context (set_fcontext c ?t2))))[9 := 0]\<rparr>) (set_fcontext c ?t2))"
    "k_ready k' = k_ready ?k3 @ [t]" .
  with serve r1 r2(4) show ?thesis by auto
qed

theorem sigreturn_clears_a0_witness:
  "\<forall>E. \<exists>k' th'. serve_call (ch8_containers E) 0 (demo_kernel SYS_RT_SIGRETURN 5 (demo_process\<lparr>proc_signal :=
        signal_impl_new\<lparr>handling := Some (UserSignal (demo_context SYS_GETPID 7))\<rparr>\<rparr>)) = Inr k'
     \<and> k_tasks k' 0 = Some th' \<and> ctx_a (fcontext (thr_context th')) 0 = Inr 0"
proof
  fix E
  let ?s = "signal_impl_new\<lparr>handling := Some (UserSignal (demo_context SYS_GETPID 7))\<rparr>"
  let ?p = "demo_process\<lparr>proc_signal := ?s\<rparr>" and ?th = "\<lparr>thr_tid = 0, thr_context = \<lparr>fcontext = demo_context SYS_RT_SIGRETURN 5, fsatp = 1\<rparr>\<rparr>"
  have wf: "proc_pid ?p = 0" "sig_wf (proc_signal ?p)"
    by (simp_all add: demo_process_def sig_wf_def signal_impl_new_def MAX_SIG_def)
  have a7: "ctx_a (fcontext (thr_context ?th)) 7 = Inr SYS_RT_SIGRETURN" by simp
  have sig: "handling (proc_signal ?p) = Some (UserSignal (demo_context SYS_GETPID 7))" "deliverable (proc_signal ?p) = {}"
    by (simp_all add: deliverable_def signal_impl_new_def sigs_def)
  from sigreturn_clears_a0 [OF demo_running(1) [OF wf] demo_views(1-3) a7 sig, of E]
  show "\<exists>k' th'. serve_call (ch8_containers E) 0 (demo_kernel SYS_RT_SIGRETURN 5 ?p) = Inr k'
     \<and> k_tasks k' 0 = Some th' \<and> ctx_a (fcontext (thr_context th')) 0 = Inr 0"
    by (fastforce simp: demo_context_def ctx_a_def ctx_x_def)
qed

section \<open>The invariant in every reachable state\<close>

text \<open>
  The states at the head of the loop: a turn starts while no identifier counter is about to wrap, the
  thread keeps a register file of 31 registers, and process 0 survives.
\<close>

inductive kernel_reach :: "('d, 'h) kenv \<Rightarrow> ('d, 'h) kernel \<Rightarrow> ('d, 'h) kernel \<Rightarrow> bool" for E k0 where
  kr_start: "kernel_reach E k0 k0"
| kr_turn: "kernel_reach E k0 k \<Longrightarrow> room k \<Longrightarrow> (\<And>f ph. ctx_wf (fcontext f) \<Longrightarrow> ctx_wf (ut_context (run f ph))) \<Longrightarrow>
    main_turn (ch8_containers E) run k = Inr (True, k') \<Longrightarrow> 0 \<in> dom (k_rels k') \<Longrightarrow> kernel_reach E k0 k'"

text \<open>
  The state in which \<^verbatim>\<open>rust_main\<close> enters its loop, when the executable was accepted: process 0 with the
  ready thread 0.
\<close>

lemma start_idle:
  assumes "rust_main_start E lay text ph d input now = Inr k" "pt_manager (k_processor k) \<noteq> None"
  shows "idle k \<and> k_ready k = [0] \<and> k_pid k = 1 \<and> k_tid k = 1"
proof -
  from assms obtain ph2 ks d2 elf r k1 where
    elf: "from_elf E elf \<lparr>k_processor = ptm_new, k_phys = ph2, k_kspace = ks, k_disk = d2, k_pid = 0, k_tid = 0,
            k_stdout = [0x0A], k_stdin = input, k_time = now\<rparr> = Inr (r, k1)" (is "from_elf E elf ?k = _")
    and rest: "(case r of
        Some (proc, thr) \<Rightarrow>
          let k2 = k1\<lparr>k_processor := ptm_set_manager thread_manager_new
                       (ptm_set_proc_manager proc_table_new (k_processor k1))\<rparr> in
          rbind (processor_op (ptm_add_proc proc_table_manage (proc_pid proc) proc usize_MAX) k2) (\<lambda>k3.
            processor_op (ptm_add thread_manage thread_schedule (thr_tid thr) thr (proc_pid proc)) k3)
      | None \<Rightarrow> Inr k1) = Inr k"
    by (auto simp: rust_main_start_def Let_def elim!: rbindE)
  from elf show ?thesis
  proof (cases rule: from_elf_cases)
    case 1
    with rest assms(2) show ?thesis by (auto simp: ptm_new_def)
  next
    case (2 p0 thr ph4)
    with rest show ?thesis
      by (auto simp: idle_def kernel_inv_def ptm_inv_def tree_inv_def rels_def rel_of_def k_tasks_def k_procs_def
          k_ready_def thread_ok_def process_ok_def processor_op_def ptm_add_proc_def ptm_add_def ptm_set_manager_def
          ptm_set_proc_manager_def ptm_new_def thread_manager_new_def proc_table_new_def thread_manage_def
          proc_table_manage_def thread_schedule_def push_back_def proc_thread_rel_new_def add_thread_def usize_MAX_def
          sig_wf_new split: if_splits)
  qed
qed

text \<open>
  C1. Whatever the threads do and whatever system calls they make, between two turns of the main loop no
  thread is current and the tables agree: every thread in the thread table carries its key as its
  identifier, belongs to a process of the process table and is listed by that process, every process
  carries its key, the forest of processes is consistent, and the scheduler's next pick does not panic.
\<close>

theorem kernel_invariant:
  assumes "idle k0" "kernel_reach E k0 k"
  shows "idle k
     \<and> (\<exists>r pm. ptm_find_next thread_manage thread_schedule (k_processor k) = Inr (r, pm))
     \<and> (\<forall>t th. k_tasks k t = Some th \<longrightarrow> thr_tid th = t \<and> (\<exists>i p r. k_owner k t = Some i \<and> k_procs k i = Some p
          \<and> proc_pid p = i \<and> k_rels k i = Some r \<and> t \<in> set (pt_threads r)))"
proof -
  from assms(2) have idle: "idle k"
  proof induction
    case kr_start
    show ?case by (rule assms(1))
  next
    case (kr_turn k run k')
    then show ?case using main_turn_idle [of k E run True k'] by blast
  qed
  then have inv: "ptm_inv thr_tasks procs (k_processor k)" and cur: "k_current k = None"
    by (simp_all add: idle_def kernel_inv_def)
  have pick: "\<exists>r pm. ptm_find_next thread_manage thread_schedule (k_processor k) = Inr (r, pm)"
    by (rule ptl.find_next_inv [OF inv cur]) blast
  have "\<exists>i p r. k_owner k t = Some i \<and> k_procs k i = Some p \<and> proc_pid p = i \<and> k_rels k i = Some r
      \<and> t \<in> set (pt_threads r)" if "k_tasks k t = Some th" for t th
  proof -
    have "dom (k_tasks k) = dom (k_owner k)" "dom (k_procs k) = dom (k_rels k)"
      using inv by (auto simp: ptm_inv_views)
    with that obtain i where i: "k_owner k t = Some i" by (metis domD domI)
    then obtain r where r: "k_rels k i = Some r" "t \<in> set (pt_threads r)" using ptl.invD(2) [OF inv] by blast
    with \<open>dom (k_procs k) = dom (k_rels k)\<close> obtain p where "k_procs k i = Some p" by (metis domD domI)
    with i r idle show ?thesis by (auto simp: idle_def kernel_inv_def process_ok_def)
  qed
  moreover have "thr_tid th = t" if "k_tasks k t = Some th" for t th
    using idle that by (simp add: idle_def kernel_inv_def thread_ok_def)
  ultimately show ?thesis using idle pick by blast
qed

definition demo_run :: "(nat \<times> nat) user_code" where
  "demo_run f ph = \<lparr>ut_context = fcontext f, ut_phys = ph, ut_trap = OtherTrap, ut_time = 0, ut_input = []\<rparr>"

definition demo_idle :: "(unit, nat \<times> nat) kernel" where
  "demo_idle = (demo_kernel 0 0 demo_process)\<lparr>k_processor :=
     (k_processor (demo_kernel 0 0 demo_process))\<lparr>pt_current := None\<rparr>\<rparr>"

lemma demo_idle_idle: "idle demo_idle" "room demo_idle"
proof -
  have "proc_pid demo_process = 0" "sig_wf (proc_signal demo_process)"
    by (simp_all add: demo_process_def sig_wf_new)
  note d = demo_running [OF this, of 0 0]
  from d(1) show "idle demo_idle"
    by (auto simp: demo_idle_def idle_def running_def kernel_inv_def ptm_inv_def thread_ok_def process_ok_def)
  from d(2) show "room demo_idle" by (simp add: demo_idle_def room_def)
qed

lemma demo_turn:
  "\<exists>k'. main_turn (ch8_containers E) demo_run demo_idle = Inr (True, k') \<and> 0 \<in> dom (k_rels k')
     \<and> k_tasks k' 1 = None \<and> k_current k' = None"
  by (simp add: main_turn_def ptm_find_next_def thread_schedule_def thread_manage_def demo_idle_def demo_kernel_def
      run_task_def demo_run_def exit_current_def processor_op_def ptm_make_current_exited_def put_task_def
      del_thread_def remove_at_def k_tasks_def Let_def)

theorem kernel_invariant_witness:
  "\<forall>E. \<exists>k'. main_turn (ch8_containers E) demo_run demo_idle = Inr (True, k') \<and> idle k' \<and> k_tasks k' 1 = None"
proof
  fix E
  obtain k' where k': "main_turn (ch8_containers E) demo_run demo_idle = Inr (True, k')" "0 \<in> dom (k_rels k')"
    "k_tasks k' 1 = None"
    using demo_turn [of E] by blast
  have "kernel_reach E demo_idle k'"
    by (rule kr_turn [OF kr_start demo_idle_idle(2) _ k'(1,2)]) (simp add: demo_run_def)
  from kernel_invariant [OF demo_idle_idle(1) this] k'
  show "\<exists>k'. main_turn (ch8_containers E) demo_run demo_idle = Inr (True, k') \<and> idle k' \<and> k_tasks k' 1 = None" by blast
qed

section \<open>Fork\<close>

lemma process_fork_eq:
  assumes "process_fork E p k = Inr ((proc, thr), k1)" "running t k"
    and "k_rels k (proc_pid p) = Some rel" "pt_threads rel = t0 # ts" "k_tasks k t0 = Some th"
  shows "fcontext (thr_context thr) = fcontext (thr_context th)"
    "proc_pid proc = k_pid k \<and> fd_table proc = fd_table p \<and> proc_signal proc = from_fork (proc_signal p)
       \<and> semaphore_list proc = [] \<and> mutex_list proc = [] \<and> condvar_list proc = []"
    "thr_tid thr = k_tid k" "\<exists>ph. k1 = k\<lparr>k_pid := k_pid k + 1, k_phys := ph, k_tid := k_tid k + 1\<rparr>"
proof -
  let ?k0 = "k\<lparr>k_pid := k_pid k + 1\<rparr>"
  from assms(1) obtain sp ph k2 u task where
    k2: "map_portal sp (?k0\<lparr>k_phys := ph\<rparr>) = Inr k2" and u: "first_thread p k2 = Inr u"
    and task: "get_task u k2 = Inr task"
    and new: "thr = \<lparr>thr_tid = k_tid k2, thr_context = \<lparr>fcontext = fcontext (thr_context task), fsatp = satp_of sp\<rparr>\<rparr>"
    and k1: "k1 = k2\<lparr>k_tid := k_tid k2 + 1\<rparr>"
    and proc: "proc = \<lparr>proc_pid = k_pid k, address_space = sp, fd_table = fd_table p,
       proc_signal = from_fork (proc_signal p), semaphore_list = [], mutex_list = [], condvar_list = []\<rparr>"
    by (auto simp: process_fork_def rbind_eq_Inr Let_def proc_id_new_def thread_new_def thread_id_new_def)
  from map_portal_Inr [OF k2] obtain ph1 where k2': "k2 = ?k0\<lparr>k_phys := ph1\<rparr>" by auto
  have "u = t0"
    using u assms(3,4) by (simp add: first_thread_def ptm_get_thread_def k2' vec_index_def)
  with task assms(2,5) have "task = th"
    by (auto simp: get_task_def ptm_get_task_def thread_manage_def k2' k_tasks_def res_eq_simps)
  with new k1 proc k2' show "fcontext (thr_context thr) = fcontext (thr_context th)"
    "proc_pid proc = k_pid k \<and> fd_table proc = fd_table p \<and> proc_signal proc = from_fork (proc_signal p)
       \<and> semaphore_list proc = [] \<and> mutex_list proc = [] \<and> condvar_list proc = []"
    "thr_tid thr = k_tid k" "\<exists>ph. k1 = k\<lparr>k_pid := k_pid k + 1, k_phys := ph, k_tid := k_tid k + 1\<rparr>"
    by auto
qed

lemma processor_add_proc:
  assumes "processor_op (ptm_add_proc proc_table_manage i proc parent) k = Inr k'"
    and "k_rels k parent = Some rel" "i \<noteq> parent"
  shows "k_procs k' = (k_procs k)(i \<mapsto> proc)" "k_tasks k' = k_tasks k" "k_ready k' = k_ready k"
    "k_rels k' = (k_rels k)(parent \<mapsto> pt_add_child i rel, i \<mapsto> proc_thread_rel_new parent)"
    "k_owner k' = k_owner k"
  using assms
  by (auto simp: processor_op_def ptm_add_proc_def Let_def k_procs_def k_tasks_def k_ready_def proc_table_manage_def
      elim!: rbindE split: option.splits)

lemma processor_add_thread:
  assumes "processor_op (ptm_add thread_manage thread_schedule i task p) k = Inr k'" "k_rels k p = Some rel"
  shows "k_tasks k' = (k_tasks k)(i \<mapsto> task)" "k_procs k' = k_procs k" "k_ready k' = k_ready k @ [i]"
    "k_rels k' = (k_rels k)(p \<mapsto> add_thread i rel)" "k_owner k' = (k_owner k)(i \<mapsto> p)"
  using assms
  by (auto simp: processor_op_def ptm_add_def Let_def k_procs_def k_tasks_def k_ready_def thread_manage_def
      thread_schedule_def push_back_def elim!: rbindE split: option.splits)

text \<open>
  C22. A \<^verbatim>\<open>fork\<close> that returns has made a child: a new process under the caller's, with the caller's file
  table and signal actions, no pending signal and no lock, and one new thread that is ready to run with
  the registers of the first thread of the caller's process except that \<^verbatim>\<open>a0\<close> is 0; the call's value,
  which the caller gets, is the identifier of the child.
\<close>

theorem fork_twins:
  assumes "running t k" "room k" "k_owner k t = Some i" "k_procs k i = Some p"
    and "k_rels k i = Some rel" "pt_threads rel = t0 # ts" "k_tasks k t0 = Some th"
    and "ch8_fork E clr k = Inr (r, k')"
  shows "r = k_pid k \<and> r \<notin> dom (k_procs k)
    \<and> (\<exists>q. k_procs k' = (k_procs k)(r \<mapsto> q) \<and> proc_pid q = r \<and> fd_table q = fd_table p
         \<and> actions (proc_signal q) = actions (proc_signal p) \<and> received (proc_signal q) = 0
         \<and> semaphore_list q = [] \<and> mutex_list q = [] \<and> condvar_list q = [])
    \<and> (\<exists>th'. k_tasks k' = (k_tasks k)(k_tid k \<mapsto> th') \<and> fcontext (thr_context th') =
           (fcontext (thr_context th))\<lparr>xregs := (xregs (fcontext (thr_context th)))[9 := 0]\<rparr>)
    \<and> k_owner k' = (k_owner k)(k_tid k \<mapsto> r) \<and> k_ready k' = k_ready k @ [k_tid k]
    \<and> map_option pt_children (k_rels k' i) = Some (pt_children rel @ [r])"
proof -
  note e = running_entries [OF assms(1) _ assms(3,4)]
  have p: "cur_proc k = Inr (i, p)" "proc_pid p = i" "sig_wf (proc_signal p)"
    using cur_proc_Inr [OF assms(1)] assms(1,3,4) by (auto simp: running_def kernel_inv_def process_ok_def)
  from assms(8) p obtain proc thr k1 ctx k2 where
    f: "process_fork E p k = Inr ((proc, thr), k1)"
    and ctx: "ctx_set_a 0 0 (fcontext (thr_context thr)) = Inr ctx"
    and k2: "processor_op (ptm_add_proc proc_table_manage (proc_pid proc) proc i) k1 = Inr k2"
    and k3: "processor_op (ptm_add thread_manage thread_schedule (thr_tid thr)
               (thr\<lparr>thr_context := (thr_context thr)\<lparr>fcontext := ctx\<rparr>\<rparr>) (proc_pid proc)) k2 = Inr k'"
    and r: "r = proc_pid proc"
    by (auto simp: ch8_fork_def Let_def elim!: rbindE)
  note F = process_fork_eq [OF f assms(1) _ assms(6,7), unfolded p(2), OF assms(5)]
  from F(4) obtain ph where k1: "k1 = k\<lparr>k_pid := k_pid k + 1, k_phys := ph, k_tid := k_tid k + 1\<rparr>" ..
  have v1: "k_rels k1 = k_rels k" "k_procs k1 = k_procs k" "k_tasks k1 = k_tasks k" "k_ready k1 = k_ready k"
    "k_owner k1 = k_owner k"
    by (simp_all add: k1 k_procs_def k_tasks_def k_ready_def)
  have pid: "proc_pid proc = k_pid k" using F(2) by simp
  have fresh: "k_pid k \<notin> dom (k_rels k)" using running_fresh(1) [OF assms(1)] .
  then have ne: "proc_pid proc \<noteq> i" using assms(5) pid by auto
  have "ctx_wf (fcontext (thr_context th))"
    using assms(1,7) by (simp add: running_def kernel_inv_def thread_ok_def)
  with ctx F(1) have c: "ctx = (fcontext (thr_context th))\<lparr>xregs := (xregs (fcontext (thr_context th)))[9 := 0]\<rparr>" by simp
  note A = processor_add_proc [OF k2 _ ne, unfolded v1, OF assms(5)]
  have "k_rels k2 (proc_pid proc) = Some (proc_thread_rel_new i)" using A(4) by simp
  note B = processor_add_thread [OF k3 this]
  have "dom (k_procs k) = dom (k_rels k)" using assms(1) by (rule running_managers)
  with fresh have "k_pid k \<notin> dom (k_procs k)" by simp
  moreover have "\<exists>q. k_procs k' = (k_procs k)(r \<mapsto> q) \<and> proc_pid q = r \<and> fd_table q = fd_table p
         \<and> actions (proc_signal q) = actions (proc_signal p) \<and> received (proc_signal q) = 0
         \<and> semaphore_list q = [] \<and> mutex_list q = [] \<and> condvar_list q = []"
    using A(1) B(2) r F(2) by (intro exI [of _ proc]) (simp add: from_fork_def)
  ultimately show ?thesis
    using A B pid r ne c F(3) by (auto simp: pt_add_child_def)
qed

text \<open>Installing the portal succeeds where every page holds 512 entries.\<close>

lemma map_portal_total:
  assumes "\<And>n. length (frames (k_phys k) n) = 512"
  shows "\<exists>ph. map_portal sp k = Inr (k\<lparr>k_phys := ph\<rparr>)"
proof -
  have i: "index_in sv39 PROTAL_TRANSIT 2 = Inr 511"
    by (simp add: index_in_sv39 PROTAL_TRANSIT_def vpn_MAX_def vm_mask_def)
  have root: "\<exists>t. from_root sv39 r = Inr t" for r
    by (simp add: from_root_def from_raw_parts_def vpn_floor_def bits_until_def)
  from root obtain t1 t2 where "from_root sv39 (page_manager (k_kspace k)) = Inr t1"
    "from_root sv39 (page_manager sp) = Inr t2" by blast
  then show ?thesis
    using assms by (auto simp: map_portal_def i pt_index_def pt_index_mut_def vec_index_def Let_def)
qed

text \<open>A kernel environment with the bump allocator and an empty disk.\<close>

definition demo_env :: "(unit, nat \<times> nat) kenv" where
  "demo_env = \<lparr>ke_buddy = bump,
     ke_dev = \<lparr>dev_read = (\<lambda>_ _. Inr (replicate 512 0)), dev_write = (\<lambda>_ _ d. Inr d)\<rparr>,
     ke_efs = \<lparr>inode_bitmap = bitmap_new 1 1, data_bitmap = bitmap_new 3 1, inode_area_start_block = 2,
       data_area_start_block = 4\<rparr>,
     ke_root = vfs_inode_new 2 0, ke_elf = (\<lambda>_. None)\<rparr>"

lemma demo_counters: "k_pid (demo_kernel sid x p) = 1" "k_tid (demo_kernel sid x p) = 2"
  by (simp_all add: demo_kernel_def)

lemma demo_fork:
  "\<exists>k'. ch8_fork demo_env \<lparr>entity = 0, flow = 0\<rparr> (demo_kernel SYS_CLONE 0 demo_process) = Inr (1, k')"
proof -
  let ?k = "demo_kernel SYS_CLONE 0 demo_process"
  have p: "cur_proc ?k = Inr (0, demo_process)"
    by (simp add: cur_proc_def ptm_get_current_proc_def demo_kernel_def proc_table_manage_def)
  obtain ph where new: "space_new (kmgr demo_env) (k_phys ?k) = Inr (\<lparr>areas = [], page_manager = 0x10000\<rparr>, ph)"
    and ph: "\<And>n. length (frames ph n) = 512"
    by (simp add: space_new_def sv39_manage_def sv39_new_root_def page_alloc_def global_alloc_def bump_def demo_env_def
        demo_kernel_def nonnull_def zero_pages_def zero_page_def Let_def)
  have clone: "cloneself sv39 (kmgr demo_env) (address_space demo_process) sp ph = Some (Inr (sp, ph))" for sp ph
    by (simp add: cloneself_def demo_process_def)
  let ?kb = "?k\<lparr>k_pid := 2, k_phys := ph\<rparr>"
  obtain ph1 where portal: "map_portal \<lparr>areas = [], page_manager = 0x10000\<rparr> ?kb = Inr (?kb\<lparr>k_phys := ph1\<rparr>)"
    using map_portal_total [of ?kb] ph by auto
  have first: "first_thread demo_process (?kb\<lparr>k_phys := ph1\<rparr>) = Inr 0"
    by (simp add: first_thread_def ptm_get_thread_def demo_kernel_def demo_process_def)
  have task: "get_task 0 (?kb\<lparr>k_phys := ph1\<rparr>) = Inr \<lparr>thr_tid = 0, thr_context = \<lparr>fcontext = demo_context SYS_CLONE 0, fsatp = 1\<rparr>\<rparr>"
    by (simp add: get_task_def ptm_get_task_def thread_manage_def demo_kernel_def)
  obtain proc thr k1 where fork: "process_fork demo_env demo_process ?k = Inr ((proc, thr), k1)"
    "proc_pid proc = 1" "thr_tid thr = 2" "fcontext (thr_context thr) = demo_context SYS_CLONE 0"
    "k_processor k1 = k_processor ?k"
    using new clone portal first task
    by (simp add: process_fork_def proc_id_new_def thread_new_def thread_id_new_def demo_counters Let_def)
  show ?thesis
    using p fork
    by (simp add: ch8_fork_def Let_def processor_op_def ptm_add_proc_def ptm_add_def demo_kernel_def demo_process_def
        split: option.split)
qed

theorem fork_twins_witness:
  "\<exists>k' q th'. ch8_fork demo_env \<lparr>entity = 0, flow = 0\<rparr> (demo_kernel SYS_CLONE 0 demo_process) = Inr (1, k')
     \<and> k_procs k' 1 = Some q \<and> proc_pid q = 1 \<and> k_tasks k' 2 = Some th'
     \<and> ctx_a (fcontext (thr_context th')) 0 = Inr 0 \<and> k_ready k' = [1, 2]"
proof -
  let ?k = "demo_kernel SYS_CLONE 0 demo_process"
  obtain k' where f: "ch8_fork demo_env \<lparr>entity = 0, flow = 0\<rparr> ?k = Inr (1, k')" using demo_fork ..
  have wf: "proc_pid demo_process = 0" "sig_wf (proc_signal demo_process)"
    by (simp_all add: demo_process_def sig_wf_new)
  have rel: "k_rels ?k 0 = Some \<lparr>pt_parent = usize_MAX, pt_children = [], pt_dead_children = [], pt_threads = [0, 1],
      pt_dead_threads = []\<rparr>"
    by (simp add: demo_kernel_def)
  have a0: "ctx_a ((demo_context SYS_CLONE 0)\<lparr>xregs := (xregs (demo_context SYS_CLONE 0))[9 := 0]\<rparr>) 0 = Inr 0"
    by (simp add: demo_context_def ctx_a_def ctx_x_def vec_index_def)
  from fork_twins [OF demo_running [OF wf] demo_views(2,3) rel _ demo_views(1) f, of "[1]"] a0 f
  show ?thesis by (auto simp: demo_counters demo_views(4))
qed

section \<open>Blocking and waking\<close>

lemma get_slot_Inr: "get_slot xs n = Inr x \<longleftrightarrow> unat n < length xs \<and> xs ! unat n = Some x"
  by (auto simp: get_slot_def res_eq_simps)

text \<open>
  C30. \<^verbatim>\<open>semaphore_down\<close> on a semaphore without free resources blocks its caller: the thread goes to the
  end of the semaphore's queue, the call answers -1, and the main loop then takes the thread off the
  processor without putting it into the ready queue.
\<close>

theorem semaphore_down_blocks:
  assumes "running t k" "k_owner k t = Some i" "k_procs k i = Some p"
    and "get_slot (semaphore_list p) sid = Inr sem" "count sem \<le> 0" "count sem > - (2 ^ 63)"
  shows "\<exists>k1 k2 q. ch8_semaphore_down clr sid k = Inr (- 1, k1) \<and> k_procs k1 = (k_procs k)(i \<mapsto> q)
     \<and> get_slot (semaphore_list q) sid =
         Inr (sem\<lparr>count := count sem - 1, sem_wait_queue := sem_wait_queue sem @ [t]\<rparr>)
     \<and> finish_call SYS_SEMAPHORE_DOWN (Done (- 1)) t k1 = Inr k2
     \<and> k_current k2 = None \<and> k_ready k2 = k_ready k \<and> k_tasks k2 = k_tasks k"
proof -
  from assms(1) obtain th where th: "k_tasks k t = Some th" by (rule running_cur)
  note e = running_entries [OF assms(1) th assms(2,3)]
  let ?sem = "sem\<lparr>count := count sem - 1, sem_wait_queue := sem_wait_queue sem @ [t]\<rparr>"
  let ?q = "p\<lparr>semaphore_list := (semaphore_list p)[unat sid := Some ?sem]\<rparr>"
  have down: "ch8_semaphore_down clr sid k = Inr (- 1, put_proc i ?q k)"
    using assms(4-6)
    by (simp add: ch8_semaphore_down_def e(2-4) semaphore_down_def checked_isize_def push_back_def)
  have "running t (put_proc i ?q k)" using assms(1) e by (intro running_put_proc) simp_all
  note block = block_current_eq [OF this]
  from assms(4) have "get_slot (semaphore_list ?q) sid = Inr ?sem" by (simp add: get_slot_Inr)
  moreover have "k_procs (put_proc i ?q k) = (k_procs k)(i \<mapsto> ?q)" using assms(3) by simp
  moreover have "finish_call SYS_SEMAPHORE_DOWN (Done (- 1)) t (put_proc i ?q k) = block_current (put_proc i ?q k)"
    by (simp add: finish_call_def syscall_ids)
  moreover obtain k2 where "block_current (put_proc i ?q k) = Inr k2" "k_current k2 = None"
    "k_ready k2 = k_ready (put_proc i ?q k)" "k_tasks k2 = k_tasks (put_proc i ?q k)"
    using block by simp
  ultimately have "ch8_semaphore_down clr sid k = Inr (- 1, put_proc i ?q k) \<and> k_procs (put_proc i ?q k) = (k_procs k)(i \<mapsto> ?q)
     \<and> get_slot (semaphore_list ?q) sid = Inr ?sem
     \<and> finish_call SYS_SEMAPHORE_DOWN (Done (- 1)) t (put_proc i ?q k) = Inr k2
     \<and> k_current k2 = None \<and> k_ready k2 = k_ready k \<and> k_tasks k2 = k_tasks k"
    using down by simp
  then show ?thesis by blast
qed

theorem semaphore_down_blocks_witness:
  "\<exists>k1 k2. ch8_semaphore_down \<lparr>entity = 0, flow = 0\<rparr> 0 (demo_kernel SYS_SEMAPHORE_DOWN 0 demo_process) = Inr (- 1, k1)
     \<and> finish_call SYS_SEMAPHORE_DOWN (Done (- 1)) 0 k1 = Inr k2 \<and> k_current k2 = None \<and> k_ready k2 = [1]"
proof -
  have wf: "proc_pid demo_process = 0" "sig_wf (proc_signal demo_process)"
    by (simp_all add: demo_process_def sig_wf_new)
  have slot: "get_slot (semaphore_list demo_process) 0 = Inr (semaphore_new 0)"
    by (simp add: demo_process_def get_slot_def vec_index_def)
  have c: "count (semaphore_new 0) \<le> 0" "count (semaphore_new 0) > - (2 ^ 63)" by (simp_all add: semaphore_new_def)
  from semaphore_down_blocks [OF demo_running(1) [OF wf] demo_views(2,3) slot c,
      of "\<lparr>entity = 0, flow = 0\<rparr>" SYS_SEMAPHORE_DOWN 0]
  show ?thesis unfolding demo_views(4) by blast
qed

text \<open>
  C31. \<^verbatim>\<open>mutex_unlock\<close> passes a contended lock on: when threads wait, the first of them is put at the end
  of the ready queue, the lock stays held for it, and the others keep waiting in their order; the caller
  goes on running.
\<close>

theorem mutex_unlock_hands_over:
  assumes "running t k" "k_owner k t = Some i" "k_procs k i = Some p"
    and "get_slot (mutex_list p) mid = Inr m" "locked m" "mutex_wait_queue m = w # ws"
  shows "\<exists>k1 q. ch8_mutex_unlock clr mid k = Inr (0, k1) \<and> k_procs k1 = (k_procs k)(i \<mapsto> q)
     \<and> get_slot (mutex_list q) mid = Inr \<lparr>locked = True, mutex_wait_queue = ws\<rparr>
     \<and> k_ready k1 = k_ready k @ [w] \<and> k_current k1 = Some t \<and> k_tasks k1 = k_tasks k"
proof -
  from assms(1) obtain th where th: "k_tasks k t = Some th" by (rule running_cur)
  note e = running_entries [OF assms(1) th assms(2,3)]
  let ?m = "m\<lparr>mutex_wait_queue := ws\<rparr>"
  let ?q = "p\<lparr>mutex_list := (mutex_list p)[unat mid := Some ?m]\<rparr>"
  have m: "?m = \<lparr>locked = True, mutex_wait_queue = ws\<rparr>" using assms(5) by (cases m) simp
  have "running t (put_proc i ?q k)" using assms(1) e by (intro running_put_proc) simp_all
  from wake_eq [OF this, of w] obtain k1 where k1: "wake (Some w) (put_proc i ?q k) = Inr k1"
    "k_tasks k1 = k_tasks (put_proc i ?q k)" "k_procs k1 = k_procs (put_proc i ?q k)"
    "k_ready k1 = k_ready (put_proc i ?q k) @ [w]" "k_current k1 = k_current (put_proc i ?q k)" .
  have "ch8_mutex_unlock clr mid k = Inr (0, k1)"
    using assms(4-6) k1(1) by (simp add: ch8_mutex_unlock_def e(3) mutex_unlock_def)
  with k1 e(8) assms(3,4) m show ?thesis
    by (intro exI [of _ k1] exI [of _ ?q]) (simp add: get_slot_Inr)
qed

theorem mutex_unlock_hands_over_witness:
  "\<exists>k1. ch8_mutex_unlock \<lparr>entity = 0, flow = 0\<rparr> 0 (demo_kernel SYS_MUTEX_UNLOCK 0 demo_process) = Inr (0, k1)
     \<and> k_ready k1 = [1, 1] \<and> k_current k1 = Some 0"
proof -
  have wf: "proc_pid demo_process = 0" "sig_wf (proc_signal demo_process)"
    by (simp_all add: demo_process_def sig_wf_new)
  have slot: "get_slot (mutex_list demo_process) 0 = Inr \<lparr>locked = True, mutex_wait_queue = [1]\<rparr>"
    by (simp add: demo_process_def get_slot_def vec_index_def)
  from mutex_unlock_hands_over [OF demo_running(1) [OF wf] demo_views(2,3) slot, of 1 "[]"
      "\<lparr>entity = 0, flow = 0\<rparr>" SYS_MUTEX_UNLOCK 0]
  show ?thesis unfolding demo_views(4) by auto
qed

section \<open>Calls that end a thread or the kernel\<close>

lemma serve_call_panic:
  assumes "running t k" "k_tasks k t = Some th" "k_owner k t = Some i" "k_procs k i = Some p"
    and "ctx_a (fcontext (thr_context th)) 7 = Inr sid"
    and "\<And>args. fst args = xregs (fcontext (thr_context th)) ! 9 \<Longrightarrow>
       handle C \<lparr>entity = 0, flow = 0\<rparr> sid args (after_trap t th k) = Inl e"
  shows "serve_call C t k = Inl e"
proof -
  note en = running_entries [OF assms(1-4)]
  have "ctx_wf (ctx_move_next (fcontext (thr_context th)))" using en by simp
  from read_frame_wf [OF this] assms(5) en(5) have "\<exists>args. fst args = xregs (fcontext (thr_context th)) ! 9 \<and>
      read_frame (ctx_move_next (fcontext (thr_context th))) = Inr (sid, args)"
    by (simp add: ctx_move_next_def)
  with assms(6) show ?thesis by (auto simp: serve_call_def en(1) Let_def after_trap_def [symmetric])
qed

text \<open>
  C40. A program can stop the kernel: \<^verbatim>\<open>semaphore_up\<close>, \<^verbatim>\<open>semaphore_down\<close>, \<^verbatim>\<open>mutex_lock\<close> and \<^verbatim>\<open>mutex_unlock\<close> with
  an identifier past the end of the process's list make the turn panic on the vector index instead of
  answering the thread.
\<close>

theorem bad_lock_id_panics:
  assumes "running t k" "k_tasks k t = Some th" "k_owner k t = Some i" "k_procs k i = Some p"
    and "ctx_a (fcontext (thr_context th)) 0 = Inr x"
    and "ctx_a (fcontext (thr_context th)) 7 = Inr sid"
    and "sid \<in> {SYS_SEMAPHORE_UP, SYS_SEMAPHORE_DOWN} \<and> unat x \<ge> length (semaphore_list p)
       \<or> sid \<in> {SYS_MUTEX_LOCK, SYS_MUTEX_UNLOCK} \<and> unat x \<ge> length (mutex_list p)"
  shows "serve_call (ch8_containers E) t k = Inl Index_Out_Of_Bounds"
proof (rule serve_call_panic [OF assms(1-4,6)])
  fix args :: sys_args
  assume "fst args = xregs (fcontext (thr_context th)) ! 9"
  then obtain rest where args: "args = (x, rest)"
    using assms(5) running_entries(5) [OF assms(1-4)] by (cases args) simp
  note r1 = after_trap_running [OF assms(1-4)]
  note e1 = running_entries [OF r1(1-4)]
  show "handle (ch8_containers E) \<lparr>entity = 0, flow = 0\<rparr> sid args (after_trap t th k) = Inl Index_Out_Of_Bounds"
    using assms(7) e1(2,3)
    by (cases rest)
       (auto simp: args handle_def syscall_ids container_call_def ch8_sync_mutex_def ch8_semaphore_up_def
         ch8_semaphore_down_def ch8_mutex_lock_def ch8_mutex_unlock_def get_slot_def vec_index_def)
qed

theorem bad_lock_id_panics_witness:
  "\<forall>E. serve_call (ch8_containers E) 0 (demo_kernel SYS_MUTEX_LOCK 1 demo_process) = Inl Index_Out_Of_Bounds"
proof
  fix E
  have wf: "proc_pid demo_process = 0" "sig_wf (proc_signal demo_process)"
    by (simp_all add: demo_process_def sig_wf_new)
  show "serve_call (ch8_containers E) 0 (demo_kernel SYS_MUTEX_LOCK 1 demo_process) = Inl Index_Out_Of_Bounds"
    by (rule bad_lock_id_panics [OF demo_running(1) [OF wf] demo_views(1-3), where x = 1 and sid = SYS_MUTEX_LOCK])
       (simp_all add: demo_process_def)
qed

text \<open>The three calls that may block never store a result in the caller's registers.\<close>

lemma sync_call_keeps_registers:
  assumes "running t k" "sid \<in> {SYS_SEMAPHORE_DOWN, SYS_MUTEX_LOCK, SYS_CONDVAR_WAIT}"
  shows "\<exists>k'. finish_call sid (Done ret) t k = Inr k' \<and> k_tasks k' = k_tasks k"
proof -
  have "sid \<noteq> SYS_EXIT" using assms(2) by (auto simp: syscall_ids)
  moreover obtain k' where "suspend_current k = Inr k'" "k_tasks k' = k_tasks k"
    using suspend_current_eq [OF assms(1)] by blast
  ultimately show ?thesis
    using assms(2) block_current_eq [OF assms(1)] by (auto simp: finish_call_def)
qed

lemma handle_unregistered:
  "sid = SYS_MMAP \<or> sid = SYS_MUNMAP \<Longrightarrow> handle (ch8_containers E) clr sid args k = Inr (Unsupported sid, k)"
  by (cases args) (auto simp: handle_def syscall_ids container_call_def)

text \<open>
  A thread that makes a system call this kernel has not registered (\<^verbatim>\<open>mmap\<close> and \<^verbatim>\<open>munmap\<close>: no
  \<^verbatim>\<open>init_memory\<close>) is ended with exit code -2: it leaves the thread table, its process records the code,
  and nothing else runs for it. Here its process has further threads and no deliverable signal.
\<close>

theorem unregistered_call_exits:
  assumes "running t k" "k_tasks k t = Some th" "k_owner k t = Some i" "k_procs k i = Some p"
    and "ctx_a (fcontext (thr_context th)) 7 = Inr sid" "sid = SYS_MMAP \<or> sid = SYS_MUNMAP"
    and "handling (proc_signal p) = None" "deliverable (proc_signal p) = {}"
    and "k_rels k i = Some rel" "pt_threads rel \<noteq> [t]"
  shows "\<exists>k' rel'. serve_call (ch8_containers E) t k = Inr k' \<and> k_tasks k' t = None \<and> k_current k' = None
     \<and> k_rels k' i = Some rel' \<and> pt_dead_threads rel' = pt_dead_threads rel @ [(t, - 2)]
     \<and> pt_threads rel' = remove1 t (pt_threads rel)"
proof -
  let ?c = "ctx_move_next (fcontext (thr_context th))" and ?k1 = "after_trap t th k"
  note e = running_entries [OF assms(1-4)]
  note r1 = after_trap_running [OF assms(1-4)]
  note e1 = running_entries [OF r1(1-4)]
  have wf: "ctx_wf ?c" using e by simp
  obtain args where frame: "read_frame ?c = Inr (sid, args)"
    using assms(5) e(5) wf by (simp add: read_frame_wf ctx_move_next_def)
  let ?t1 = "set_fcontext ?c (set_fcontext ?c th)"
  let ?k3 = "put_task t ?t1 (put_proc i (p\<lparr>proc_signal := proc_signal p\<rparr>) ?k1)"
  have serve: "serve_call (ch8_containers E) t k = exit_current (- 2) ?k3"
    using e1(1,3) frame handle_signals_idle [OF assms(7,8)]
    by (simp add: serve_call_def e(1) Let_def after_trap_def [symmetric] handle_unregistered [OF assms(6)] finish_call_def)
  have r3: "running t ?k3" using r1 e wf by (intro running_put_task running_put_proc) simp_all
  have rel: "k_rels ?k3 i = Some rel" "k_owner ?k3 t = Some i" "k_current ?k3 = Some t"
    using assms(3,9) e(8) by (simp_all add: after_trap_def)
  have inv: "ptm_inv thr_tasks procs (k_processor ?k3)" using r3 by (simp add: running_def kernel_inv_def)
  from r3 obtain mg pg where mg: "pt_manager (k_processor ?k3) = Some mg" "pt_proc_manager (k_processor ?k3) = Some pg"
    by (rule running_managers)
  from ptl.exit_one [OF inv rel(3,2,1) assms(10) mg(1), of "- 2"] obtain pm where
    pm: "ptm_make_current_exited thread_manage proc_table_manage (- 2) (k_processor ?k3) = Inr pm"
    "pt_rel_map pm = (k_rels ?k3)(i \<mapsto> del_thread t (- 2) rel)" "pt_current pm = None" .
  have "t \<in> set (pt_threads rel)" "distinct (pt_threads rel)"
    using ptl.invD(2) [OF inv, of t i] ptl.invD(3) [OF inv rel(1)] rel(1,2) by auto
  note del = del_thread_eq [OF this(2,1), of "- 2"]
  have "k_tasks (?k3\<lparr>k_processor := pm\<rparr>) t = None"
    using exited_tables [OF rel(3) mg pm(1)] by (auto simp: k_tasks_def)
  then show ?thesis using serve pm del by (simp add: exit_current_def processor_op_def)
qed

theorem unregistered_call_exits_witness:
  "\<forall>E. \<exists>k'. serve_call (ch8_containers E) 0 (demo_kernel SYS_MMAP 0 demo_process) = Inr k' \<and> k_tasks k' 0 = None"
proof
  fix E
  let ?th = "\<lparr>thr_tid = 0, thr_context = \<lparr>fcontext = demo_context SYS_MMAP 0, fsatp = 1\<rparr>\<rparr>"
  have wf: "proc_pid demo_process = 0" "sig_wf (proc_signal demo_process)"
    by (simp_all add: demo_process_def sig_wf_new)
  have a7: "ctx_a (fcontext (thr_context ?th)) 7 = Inr SYS_MMAP" by simp
  have sig: "handling (proc_signal demo_process) = None" "deliverable (proc_signal demo_process) = {}"
    by (simp_all add: demo_process_def deliverable_def signal_impl_new_def sigs_def)
  have rel: "k_rels (demo_kernel SYS_MMAP 0 demo_process) 0 = Some \<lparr>pt_parent = usize_MAX, pt_children = [],
      pt_dead_children = [], pt_threads = [0, 1], pt_dead_threads = []\<rparr>"
    by (simp add: demo_kernel_def)
  from unregistered_call_exits [OF demo_running(1) [OF wf] demo_views(1-3) a7 _ sig rel, of E]
  show "\<exists>k'. serve_call (ch8_containers E) 0 (demo_kernel SYS_MMAP 0 demo_process) = Inr k' \<and> k_tasks k' 0 = None"
    by auto
qed

end
