(* ===== verification/Inode_Size.thy ===== *)
theory Inode_Size
  imports Inode_Data "HOL-Library.Multiset"
begin

text \<open>
  Growing and clearing an inode: \<^verbatim>\<open>increase_size\<close> appends the given blocks to the file, through all levels
  of indirection, and \<^verbatim>\<open>clear_size\<close> hands back exactly the blocks of the file.
\<close>

section \<open>Growth of the block lists\<close>

text \<open>The number of index blocks of a file with \<open>n\<close> data blocks.\<close>

definition index_count :: "nat \<Rightarrow> nat" where
  "index_count n = (if n > INODE_DIRECT_COUNT then 1 else 0)
     + (if n > INDIRECT1_BOUND then 1 + (n - INDIRECT1_BOUND + INODE_INDIRECT1_COUNT - 1) div INODE_INDIRECT1_COUNT else 0)"

lemma length_idx_list: "length (idx_list B ino n) = index_count n"
  by (simp add: idx_list_def index_count_def)

lemma length_data_list [simp]: "length (data_list B ino n) = n"
  by (simp add: data_list_def)

text \<open>
  The file with \<open>n\<close> blocks has become one with \<open>n'\<close> blocks: the old blocks are still there in their order,
  the blocks \<open>us\<close> have been added as data or as index blocks, and only index blocks have been written.
\<close>

definition file_grows ::
    "(nat \<Rightarrow> u8 list) \<Rightarrow> disk_inode \<Rightarrow> nat \<Rightarrow> u32 list \<Rightarrow> (nat \<Rightarrow> u8 list) \<Rightarrow> disk_inode \<Rightarrow> nat \<Rightarrow> bool" where
  "file_grows B ino n us B' ino' n' \<longleftrightarrow> n \<le> n' \<and> length (direct ino') = length (direct ino)
     \<and> (\<exists>nd ni. data_list B' ino' n' = data_list B ino n @ nd \<and> idx_list B' ino' n' = idx_list B ino n @ ni
          \<and> mset (nd @ ni) = mset (map unat us))
     \<and> (\<forall>b. b \<notin> set (idx_list B' ino' n') \<longrightarrow> B' b = B b)"

lemma file_growsI:
  assumes "n \<le> n'" "length (direct ino') = length (direct ino)"
    and "data_list B' ino' n' = data_list B ino n @ nd" "idx_list B' ino' n' = idx_list B ino n @ ni"
    and "mset (nd @ ni) = mset (map unat us)" "\<And>b. b \<notin> set (idx_list B' ino' n') \<Longrightarrow> B' b = B b"
  shows "file_grows B ino n us B' ino' n'"
  using assms unfolding file_grows_def by blast

lemma file_grows_refl: "file_grows B ino n [] B ino n"
  by (simp add: file_grows_def)

lemma file_grows_trans:
  assumes "file_grows B ino n us B1 ino1 n1" "file_grows B1 ino1 n1 vs B2 ino2 n2"
  shows "file_grows B ino n (us @ vs) B2 ino2 n2"
proof -
  obtain nd ni where 1: "data_list B1 ino1 n1 = data_list B ino n @ nd" "idx_list B1 ino1 n1 = idx_list B ino n @ ni"
    "mset (nd @ ni) = mset (map unat us)" "\<forall>b. b \<notin> set (idx_list B1 ino1 n1) \<longrightarrow> B1 b = B b"
    using assms(1) unfolding file_grows_def by blast
  obtain nd' ni' where 2: "data_list B2 ino2 n2 = data_list B1 ino1 n1 @ nd'" "idx_list B2 ino2 n2 = idx_list B1 ino1 n1 @ ni'"
    "mset (nd' @ ni') = mset (map unat vs)" "\<forall>b. b \<notin> set (idx_list B2 ino2 n2) \<longrightarrow> B2 b = B1 b"
    using assms(2) unfolding file_grows_def by blast
  show ?thesis
  proof (rule file_growsI [where nd = "nd @ nd'" and ni = "ni @ ni'"])
    show "n \<le> n2" "length (direct ino2) = length (direct ino)" using assms by (auto simp: file_grows_def)
    show "data_list B2 ino2 n2 = data_list B ino n @ nd @ nd'" "idx_list B2 ino2 n2 = idx_list B ino n @ ni @ ni'"
      using 1 2 by simp_all
    show "mset ((nd @ nd') @ ni @ ni') = mset (map unat (us @ vs))"
      using 1(3) 2(3) by (metis (no_types, lifting) map_append mset_append union_assoc union_commute)
    show "B2 b = B b" if "b \<notin> set (idx_list B2 ino2 n2)" for b using that 1(4) 2(2,4) by auto
  qed
qed

lemma file_grows_blocks:
  assumes "file_grows B ino n us B' ino' n'"
  shows "mset (data_list B' ino' n' @ idx_list B' ino' n') =
      mset (data_list B ino n @ idx_list B ino n) + mset (map unat us)"
    and "n' + index_count n' = n + index_count n + length us"
proof -
  show *: "mset (data_list B' ino' n' @ idx_list B' ino' n') =
      mset (data_list B ino n @ idx_list B ino n) + mset (map unat us)"
    using assms unfolding file_grows_def by (auto simp: ac_simps)
  show "n' + index_count n' = n + index_count n + length us"
    using arg_cong [OF *, of size] by (simp add: length_idx_list)
qed

lemma file_grows_distinct:
  assumes "file_grows B ino n us B' ino' n'" "distinct (data_list B ino n @ idx_list B ino n @ map unat (us @ rest))"
  shows "distinct (data_list B' ino' n' @ idx_list B' ino' n' @ map unat rest)"
proof -
  have "mset (data_list B' ino' n' @ idx_list B' ino' n' @ map unat rest) =
      mset (data_list B ino n @ idx_list B ino n @ map unat (us @ rest))"
    using file_grows_blocks(1) [OF assms(1)] by simp
  then show ?thesis using assms(2) mset_eq_imp_distinct_iff by blast
qed

text \<open>Growth keeps the inode well-formed when the new blocks are unused blocks of the device.\<close>

lemma file_grows_inode_ok:
  assumes "file_grows B ino n us B' ino' n'" "inode_ok nblk B H ino n" "n' \<le> INDIRECT2_BOUND"
    and "distinct (data_list B ino n @ idx_list B ino n @ map unat us)" "\<forall>b \<in> set us. unat b < nblk \<and> H (unat b) = None"
  shows "inode_ok nblk B' H ino' n'"
proof -
  have "set (data_list B' ino' n' @ idx_list B' ino' n') = set (data_list B ino n @ idx_list B ino n) \<union> unat ` set us"
    using arg_cong [OF file_grows_blocks(1) [OF assms(1)], of set_mset] by auto
  moreover have "distinct (data_list B' ino' n' @ idx_list B' ino' n')"
    using file_grows_distinct [OF assms(1), of "[]"] assms(4) by simp
  moreover have "length (direct ino') = length (direct ino)" using assms(1) by (simp add: file_grows_def)
  ultimately show ?thesis using assms(2,3,5) unfolding inode_ok_def by auto
qed

text \<open>The bytes of the file: those of the old blocks, and then what the new data blocks hold.\<close>

lemma file_grows_data:
  assumes "file_grows B ino n us B' ino' n'" "distinct (data_list B ino n @ idx_list B ino n @ map unat us)"
  shows "\<exists>nd. set nd \<subseteq> unat ` set us \<and> length nd = n' - n \<and>
    blocks_data B' ino' n' = blocks_data B ino n @ concat (map B nd)"
proof -
  obtain nd ni where g: "data_list B' ino' n' = data_list B ino n @ nd"
    "mset (nd @ ni) = mset (map unat us)" "\<forall>b. b \<notin> set (idx_list B' ino' n') \<longrightarrow> B' b = B b"
    using assms(1) unfolding file_grows_def by blast
  have "distinct (data_list B' ino' n' @ idx_list B' ino' n')"
    using file_grows_distinct [OF assms(1), of "[]"] assms(2) by simp
  then have "map B' (data_list B' ino' n') = map B (data_list B' ino' n')" using g(3) by auto
  then have "blocks_data B' ino' n' = blocks_data B ino n @ concat (map B nd)" by (simp only: blocks_data_def g(1) map_append concat_append)
  moreover have "set nd \<subseteq> unat ` set us" using mset_eq_setD [OF g(2)] by auto
  moreover have "length nd = n' - n" using arg_cong [OF g(1), of length] by simp
  ultimately show ?thesis by blast
qed

lemma data_list_append:
  assumes "\<And>k. k < n \<Longrightarrow> blk_id B' ino' k = blk_id B ino k"
    and "\<And>j. j < length us \<Longrightarrow> blk_id B' ino' (n + j) = us ! j"
  shows "data_list B' ino' (n + length us) = data_list B ino n @ map unat us"
proof (rule nth_equalityI)
  fix i assume i: "i < length (data_list B' ino' (n + length us))"
  show "data_list B' ino' (n + length us) ! i = (data_list B ino n @ map unat us) ! i"
  proof (cases "i < n")
    case False
    with i assms(2) [of "i - n"] show ?thesis by (simp add: data_list_def nth_append)
  qed (use i assms(1) in \<open>simp add: data_list_def nth_append\<close>)
qed simp

lemma index_entry_enc:
  assumes "B (unat blk) = to_le_array 4 arr" "length arr = INODE_INDIRECT1_COUNT" "k < INODE_INDIRECT1_COUNT"
  shows "index_entry B blk k = arr ! k"
  using assms of_le_to_le_array [of 4 arr INODE_INDIRECT1_COUNT] by (simp add: index_entry_def)

section \<open>The three levels\<close>

lemma idx_list_one: "INODE_DIRECT_COUNT < n \<Longrightarrow> n \<le> INDIRECT1_BOUND \<Longrightarrow> idx_list B ino n = [unat (indirect1 ino)]"
  by (simp add: idx_list_def)

lemma file_grows_direct:
  assumes "n + length us \<le> INODE_DIRECT_COUNT" "length (direct ino) = INODE_DIRECT_COUNT"
  shows "file_grows B ino n us B (ino\<lparr>direct := take n (direct ino) @ us @ drop (n + length us) (direct ino)\<rparr>) (n + length us)"
proof (rule file_growsI)
  show "data_list B (ino\<lparr>direct := take n (direct ino) @ us @ drop (n + length us) (direct ino)\<rparr>) (n + length us) =
      data_list B ino n @ map unat us"
    using assms by (intro data_list_append) (auto simp: blk_id_def nth_append)
  show "idx_list B (ino\<lparr>direct := take n (direct ino) @ us @ drop (n + length us) (direct ino)\<rparr>) (n + length us) =
      idx_list B ino n @ []"
    using assms by (simp add: idx_list_def layout_consts)
qed (use assms in auto)

lemma file_grows_indirect1:
  fixes B i1 n us
  defines "arr \<equiv> of_le_array 4 INODE_INDIRECT1_COUNT (B (unat i1))"
  defines "B' \<equiv> B(unat i1 := to_le_array 4
    (take (n - INODE_DIRECT_COUNT) arr @ us @ drop (n - INODE_DIRECT_COUNT + length us) arr))"
  assumes "INODE_DIRECT_COUNT \<le> n" "n + length us \<le> INDIRECT1_BOUND" "us \<noteq> []"
    and "n \<noteq> INODE_DIRECT_COUNT \<Longrightarrow> i1 = indirect1 ino"
  shows "file_grows B ino n ((if n = INODE_DIRECT_COUNT then [i1] else []) @ us) B' (ino\<lparr>indirect1 := i1\<rparr>) (n + length us)"
proof (rule file_growsI)
  let ?arr = "take (n - INODE_DIRECT_COUNT) arr @ us @ drop (n - INODE_DIRECT_COUNT + length us) arr"
  have len: "length ?arr = INODE_INDIRECT1_COUNT" using assms(3,4) by (simp add: arr_def layout_consts)
  have e: "index_entry B' i1 k = ?arr ! k" if "k < INODE_INDIRECT1_COUNT" for k
    by (rule index_entry_enc [OF _ len that]) (simp add: B'_def)
  show "data_list B' (ino\<lparr>indirect1 := i1\<rparr>) (n + length us) = data_list B ino n @ map unat us"
  proof (rule data_list_append)
    fix k assume k: "k < n"
    show "blk_id B' (ino\<lparr>indirect1 := i1\<rparr>) k = blk_id B ino k"
    proof (cases "k < INODE_DIRECT_COUNT")
      case False
      then have "k < INDIRECT1_BOUND" "i1 = indirect1 ino" "k - INODE_DIRECT_COUNT < n - INODE_DIRECT_COUNT"
        "k - INODE_DIRECT_COUNT < INODE_INDIRECT1_COUNT" using k assms(4,6) by (auto simp: layout_consts)
      with False show ?thesis using e by (simp add: blk_id_def nth_append arr_def) (simp add: index_entry_def)
    qed (simp add: blk_id_def)
  next
    fix j assume j: "j < length us"
    have le: "n - INODE_DIRECT_COUNT + j < INODE_INDIRECT1_COUNT" "n + j < INDIRECT1_BOUND" "\<not> n + j < INODE_DIRECT_COUNT"
      "n + j - INODE_DIRECT_COUNT = n - INODE_DIRECT_COUNT + j" "n - INODE_DIRECT_COUNT \<le> INODE_INDIRECT1_COUNT"
      using j assms(3,4) by (auto simp: layout_consts)
    have "blk_id B' (ino\<lparr>indirect1 := i1\<rparr>) (n + j) = index_entry B' i1 (n + j - INODE_DIRECT_COUNT)"
      using le(2,3) by (simp add: blk_id_def)
    also have "\<dots> = ?arr ! (n + j - INODE_DIRECT_COUNT)" by (rule e) (simp only: le(1,4))
    also have "\<dots> = us ! j" unfolding le(4) using le(5) j by (simp add: nth_append arr_def)
    finally show "blk_id B' (ino\<lparr>indirect1 := i1\<rparr>) (n + j) = us ! j" .
  qed
  have n: "INODE_DIRECT_COUNT < n + length us" using assms(3,5) by (cases us) simp_all
  have new: "idx_list B' (ino\<lparr>indirect1 := i1\<rparr>) (n + length us) = [unat i1]"
    using idx_list_one [OF n assms(4)] by simp
  show "idx_list B' (ino\<lparr>indirect1 := i1\<rparr>) (n + length us) =
      idx_list B ino n @ (if n = INODE_DIRECT_COUNT then [unat i1] else [])"
    unfolding new using assms(3,4,6) idx_list_one [of n B ino] by (cases "n = INODE_DIRECT_COUNT") (simp_all add: idx_list_def layout_consts)
  show "B' b = B b" if "b \<notin> set (idx_list B' (ino\<lparr>indirect1 := i1\<rparr>) (n + length us))" for b
    using that unfolding new by (simp add: B'_def)
qed (use assms in auto)

lemma div_ceiling:
  fixes d :: nat
  shows "(d + INODE_INDIRECT1_COUNT - 1) div INODE_INDIRECT1_COUNT =
    (if d mod INODE_INDIRECT1_COUNT = 0 then d div INODE_INDIRECT1_COUNT else Suc (d div INODE_INDIRECT1_COUNT))"
proof -
  obtain q r where qr: "d = q * 128 + r" "r < 128" by (rule that [of "d div 128" "d mod 128"]) simp_all
  have "(127 + (q * 128 + r)) div 128 = (if r = 0 then q else Suc q)"
  proof (cases r)
    case (Suc r')
    then have "127 + (q * 128 + r) = r' + Suc q * 128" "r' < 128" using qr(2) by simp_all
    then show ?thesis using Suc by (simp only: div_mult_self1) simp
  qed simp
  with qr show ?thesis by (simp add: layout_consts)
qed

text \<open>One more data block in the range of the second level, with its index block if that is new.\<close>

lemma idx_list_two:
  assumes "INDIRECT1_BOUND < n"
  shows "idx_list B ino n = unat (indirect1 ino) # unat (indirect2 ino) #
    map (\<lambda>j. unat (index_entry B (indirect2 ino) j))
      [0..<if (n - INDIRECT1_BOUND) mod INODE_INDIRECT1_COUNT = 0 then (n - INDIRECT1_BOUND) div INODE_INDIRECT1_COUNT
           else Suc ((n - INDIRECT1_BOUND) div INODE_INDIRECT1_COUNT)]"
proof -
  have "INODE_DIRECT_COUNT < n" using assms by (simp add: layout_consts)
  then show ?thesis unfolding idx_list_def div_ceiling using assms by simp
qed

text \<open>The index block of block \<open>n\<close>, which exists already or is new, is not the second-level block.\<close>

lemma second_level_entry:
  assumes "INDIRECT1_BOUND \<le> n" "b = (n - INDIRECT1_BOUND) mod INODE_INDIRECT1_COUNT"
    and "b \<noteq> 0 \<Longrightarrow> e = index_entry B (indirect2 ino) ((n - INDIRECT1_BOUND) div INODE_INDIRECT1_COUNT)"
    and "distinct (idx_list B ino n @ map unat
      ((if n = INDIRECT1_BOUND then [indirect2 ino] else []) @ (if b = 0 then [e] else [])))"
  shows "unat e \<noteq> unat (indirect2 ino)" "b \<noteq> 0 \<Longrightarrow> unat e \<in> set (idx_list B ino n)"
proof -
  have "INDIRECT1_BOUND < n" if "b \<noteq> 0" using that assms(1,2) by (cases "n = INDIRECT1_BOUND") auto
  note idx = idx_list_two [OF this, of B ino]
  show "unat e \<in> set (idx_list B ino n)" if "b \<noteq> 0" using assms(2,3) idx [OF that] that by simp
  show "unat e \<noteq> unat (indirect2 ino)"
  proof (cases "b = 0")
    case True
    then show ?thesis using assms(1,4) idx_list_two [of n B ino] by (cases "n = INDIRECT1_BOUND") auto
  next
    case False
    then show ?thesis using assms(2-4) idx [OF False] by auto
  qed
qed

lemma blk_id_two:
  "INDIRECT1_BOUND \<le> k \<Longrightarrow> blk_id B ino k =
     index_entry B (index_entry B (indirect2 ino) ((k - INDIRECT1_BOUND) div INODE_INDIRECT1_COUNT))
       ((k - INDIRECT1_BOUND) mod INODE_INDIRECT1_COUNT)"
  by (simp add: blk_id_def layout_consts)

lemma file_grows_indirect2:
  fixes B ino n x e
  defines "a \<equiv> (n - INDIRECT1_BOUND) div INODE_INDIRECT1_COUNT" and "b \<equiv> (n - INDIRECT1_BOUND) mod INODE_INDIRECT1_COUNT"
  defines "ind2 \<equiv> of_le_array 4 INODE_INDIRECT1_COUNT (B (unat (indirect2 ino)))"
  defines "news \<equiv> (if n = INDIRECT1_BOUND then [indirect2 ino] else []) @ (if b = 0 then [e] else [])"
  defines "B' \<equiv> B(unat (indirect2 ino) := to_le_array 4 (ind2[a := e]),
     unat e := to_le_array 4 ((of_le_array 4 INODE_INDIRECT1_COUNT (B (unat e)))[b := x]))"
  assumes n: "INDIRECT1_BOUND \<le> n" "n < INDIRECT2_BOUND" and e: "b \<noteq> 0 \<Longrightarrow> e = ind2 ! a"
    and dis: "distinct (idx_list B ino n @ map unat news)"
  shows "file_grows B ino n (news @ [x]) B' ino (Suc n)"
proof -
  have ab: "a < INODE_INDIRECT1_COUNT" "b < INODE_INDIRECT1_COUNT" "n = INDIRECT1_BOUND + a * INODE_INDIRECT1_COUNT + b"
    using n by (auto simp: a_def b_def layout_consts)
  let ?i2 = "unat (indirect2 ino)"
  have idx: "idx_list B ino n = unat (indirect1 ino) # ?i2 #
      map (\<lambda>j. unat (index_entry B (indirect2 ino) j)) [0..<if b = 0 then a else Suc a]" if "INDIRECT1_BOUND < n"
    unfolding a_def b_def by (rule idx_list_two [OF that])
  have old: "ind2 ! j = index_entry B (indirect2 ino) j" for j by (simp add: ind2_def index_entry_def)
  have ie: "unat e \<noteq> ?i2"
    using second_level_entry(1) [OF n(1) b_def [THEN meta_eq_to_obj_eq]] e dis unfolding news_def old a_def by blast
  have i1: "unat (indirect1 ino) \<noteq> ?i2" "unat (indirect1 ino) \<noteq> unat e"
  proof -
    have "unat (indirect1 ino) \<noteq> ?i2 \<and> unat (indirect1 ino) \<noteq> unat e"
    proof (cases "n = INDIRECT1_BOUND")
      case True
      then have "idx_list B ino n = [unat (indirect1 ino)]" "b = 0"
        by (simp_all add: idx_list_def b_def layout_consts)
      with True dis show ?thesis by (auto simp: news_def)
    next
      case False
      then have "INDIRECT1_BOUND < n" using n by simp
      then show ?thesis using dis e by (cases "b = 0") (auto simp: idx news_def ind2_def index_entry_def)
    qed
    then show "unat (indirect1 ino) \<noteq> ?i2" "unat (indirect1 ino) \<noteq> unat e" by simp_all
  qed
  have e2: "index_entry B' (indirect2 ino) j = (ind2[a := e]) ! j" if "j < INODE_INDIRECT1_COUNT" for j
    using ie that by (intro index_entry_enc) (simp_all add: B'_def ind2_def)
  have ee: "index_entry B' e j = ((of_le_array 4 INODE_INDIRECT1_COUNT (B (unat e)))[b := x]) ! j" if "j < INODE_INDIRECT1_COUNT" for j
    using that by (intro index_entry_enc) (simp_all add: B'_def)
  have new: "idx_list B' ino (Suc n) = unat (indirect1 ino) # ?i2 # map (\<lambda>j. unat (index_entry B (indirect2 ino) j)) [0..<a] @ [unat e]"
  proof -
    have "idx_list B' ino (Suc n) = unat (indirect1 ino) # ?i2 # map (\<lambda>j. unat (index_entry B' (indirect2 ino) j)) [0..<Suc a]"
    proof -
      have "(if (Suc n - INDIRECT1_BOUND) mod INODE_INDIRECT1_COUNT = 0 then (Suc n - INDIRECT1_BOUND) div INODE_INDIRECT1_COUNT
           else Suc ((Suc n - INDIRECT1_BOUND) div INODE_INDIRECT1_COUNT)) = Suc a"
        unfolding div_ceiling [symmetric] using n(1) by (simp add: a_def layout_consts)
      then show ?thesis using idx_list_two [of "Suc n" B' ino] n(1) by simp
    qed
    also have "map (\<lambda>j. unat (index_entry B' (indirect2 ino) j)) [0..<Suc a] =
        map (\<lambda>j. unat (index_entry B (indirect2 ino) j)) [0..<a] @ [unat e]"
      using ab(1) e2 old by (simp add: ind2_def)
    finally show ?thesis .
  qed
  show ?thesis
  proof (rule file_growsI)
    have "data_list B' ino (n + length [x]) = data_list B ino n @ map unat [x]"
    proof (rule data_list_append)
      fix k assume k: "k < n"
      consider "k < INODE_DIRECT_COUNT" | "INODE_DIRECT_COUNT \<le> k" "k < INDIRECT1_BOUND" | "INDIRECT1_BOUND \<le> k" by linarith
      then show "blk_id B' ino k = blk_id B ino k"
      proof cases
        case 3
        let ?a = "(k - INDIRECT1_BOUND) div INODE_INDIRECT1_COUNT" and ?b = "(k - INDIRECT1_BOUND) mod INODE_INDIRECT1_COUNT"
        have big: "INDIRECT1_BOUND < n" using 3 k by simp
        have le: "?a \<le> a" "?a = a \<Longrightarrow> ?b < b" "?b < INODE_INDIRECT1_COUNT"
          using k 3 by (simp_all add: a_def b_def layout_consts div_le_mono) (metis add_less_cancel_left diff_less_mono mult_div_mod_eq)
        show ?thesis
        proof (cases "?a = a")
          case True
          then have "b \<noteq> 0" using le(2) by simp
          then have "index_entry B' (indirect2 ino) a = e" "index_entry B (indirect2 ino) a = e"
            using e2 [OF ab(1)] e old [of a] ab(1) by (simp_all add: ind2_def)
          moreover have "index_entry B' e ?b = index_entry B e ?b"
            unfolding ee [OF le(3)] using le(2) [OF True] by (simp add: index_entry_def)
          ultimately show ?thesis unfolding blk_id_two [OF 3] True by simp
        next
          case False
          then have lt: "?a < a" using le(1) by simp
          let ?e = "index_entry B (indirect2 ino) ?a"
          let ?f = "\<lambda>j. unat (index_entry B (indirect2 ino) j)"
          have mem: "unat ?e \<in> set (map ?f [0..<if b = 0 then a else Suc a])" using lt by auto
          have dl: "distinct (?i2 # map ?f [0..<if b = 0 then a else Suc a])" using dis by (simp add: idx [OF big])
          then have "unat ?e \<noteq> ?i2" using mem by auto
          moreover have "unat ?e \<noteq> unat e"
          proof (cases "b = 0")
            case True
            then have "unat e \<notin> set (idx_list B ino n)" using dis by (auto simp: news_def)
            then show ?thesis using mem by (auto simp: idx [OF big])
          next
            case False
            then have "?f a \<notin> ?f ` {0..<a}" using dl by simp
            moreover have "?f ?a \<in> ?f ` {0..<a}" using lt by (intro imageI) simp
            ultimately show ?thesis using e [OF False] old [of a] by metis
          qed
          ultimately have "B' (unat ?e) = B (unat ?e)" by (simp add: B'_def)
          moreover have "index_entry B' (indirect2 ino) ?a = ?e" using e2 [of ?a] lt ab(1) old by simp
          ultimately show ?thesis using 3 by (simp add: blk_id_two) (simp add: index_entry_def)
        qed
      qed (use i1 in \<open>simp_all add: blk_id_def index_entry_def B'_def\<close>)
    next
      fix j assume "j < length [x]"
      then show "blk_id B' ino (n + j) = [x] ! j"
        using n ab(1,2) e2 ee by (simp add: blk_id_two ind2_def flip: a_def b_def)
    qed
    then show "data_list B' ino (Suc n) = data_list B ino n @ [unat x]" by simp
    show "idx_list B' ino (Suc n) = idx_list B ino n @ map unat news"
    proof (cases "n = INDIRECT1_BOUND")
      case True
      then have "a = 0" "b = 0" by (simp_all add: a_def b_def)
      then show ?thesis unfolding new using True idx_list_one [of n B ino] by (simp add: news_def layout_consts)
    next
      case False
      then show ?thesis unfolding new using n e old by (simp add: idx news_def)
    qed
    show "B' c = B c" if "c \<notin> set (idx_list B' ino (Suc n))" for c
      using that unfolding new by (simp add: B'_def)
  qed (simp_all)
qed

lemma file_grows_idx_set:
  assumes "file_grows B ino n us B' ino' n'"
  shows "set (idx_list B' ino' n') \<subseteq> set (idx_list B ino n) \<union> unat ` set us"
proof -
  obtain nd ni where "idx_list B' ino' n' = idx_list B ino n @ ni" "mset (nd @ ni) = mset (map unat us)"
    using assms unfolding file_grows_def by blast
  then show ?thesis using mset_eq_setD by fastforce
qed

lemma index_count_Suc:
  assumes "INDIRECT1_BOUND \<le> n"
  shows "index_count (Suc n) = index_count n + (if n = INDIRECT1_BOUND then 1 else 0)
    + (if (n - INDIRECT1_BOUND) mod INODE_INDIRECT1_COUNT = 0 then 1 else 0)"
proof -
  have c: "(Suc n - INDIRECT1_BOUND + INODE_INDIRECT1_COUNT - 1) div INODE_INDIRECT1_COUNT = Suc ((n - INDIRECT1_BOUND) div INODE_INDIRECT1_COUNT)"
    using assms by (simp add: layout_consts)
  have big: "INODE_DIRECT_COUNT < n" using assms by (simp add: layout_consts)
  have new: "index_count (Suc n) = 2 + Suc ((n - INDIRECT1_BOUND) div INODE_INDIRECT1_COUNT)"
    unfolding index_count_def c using assms big by simp
  have old: "index_count n = 1 + (if INDIRECT1_BOUND < n then 1 +
      (if (n - INDIRECT1_BOUND) mod INODE_INDIRECT1_COUNT = 0 then (n - INDIRECT1_BOUND) div INODE_INDIRECT1_COUNT
       else Suc ((n - INDIRECT1_BOUND) div INODE_INDIRECT1_COUNT)) else 0)"
    unfolding index_count_def div_ceiling using big by simp
  show ?thesis unfolding new old using assms by simp
qed

lemma index_count_mono: "n \<le> t \<Longrightarrow> index_count n \<le> index_count t"
  by (auto simp: index_count_def layout_consts intro: div_le_mono)

text \<open>The blocks that growth may touch: the index blocks of the file and the blocks to add are unlocked blocks of the device.\<close>

definition room :: "nat \<Rightarrow> (nat \<rightharpoonup> block_cache) \<Rightarrow> (nat \<Rightarrow> u8 list) \<Rightarrow> disk_inode \<Rightarrow> nat \<Rightarrow> u32 list \<Rightarrow> bool" where
  "room nblk H B ino n bl \<longleftrightarrow> distinct (data_list B ino n @ idx_list B ino n @ map unat bl)
     \<and> (\<forall>b \<in> set (idx_list B ino n) \<union> unat ` set bl. b < nblk \<and> H b = None)"

lemma room_grows:
  assumes "file_grows B ino n us B' ino' n'" "room nblk H B ino n (us @ rest)"
  shows "room nblk H B' ino' n' rest"
proof -
  have "distinct (data_list B' ino' n' @ idx_list B' ino' n' @ map unat rest)"
    using file_grows_distinct [OF assms(1)] assms(2) unfolding room_def by blast
  moreover have "b < nblk \<and> H b = None" if "b \<in> set (idx_list B' ino' n') \<union> unat ` set rest" for b
    using that file_grows_idx_set [OF assms(1)] assms(2) unfolding room_def by auto
  ultimately show ?thesis by (simp add: room_def)
qed

text \<open>The lists do not depend on the size field.\<close>

lemma lists_set_size [simp]:
  "blk_id B (ino\<lparr>inode_size := s\<rparr>) k = blk_id B ino k" "data_list B (ino\<lparr>inode_size := s\<rparr>) n = data_list B ino n"
  "idx_list B (ino\<lparr>inode_size := s\<rparr>) n = idx_list B ino n"
  by (simp_all add: blk_id_def data_list_def idx_list_def)

lemma lists_set_indirect2:
  "n \<le> INDIRECT1_BOUND \<Longrightarrow> data_list B (ino\<lparr>indirect2 := i\<rparr>) n = data_list B ino n"
  "n \<le> INDIRECT1_BOUND \<Longrightarrow> idx_list B (ino\<lparr>indirect2 := i\<rparr>) n = idx_list B ino n"
  by (simp_all add: blk_id_def data_list_def idx_list_def)

lemma file_grows_set_size [simp]:
  "file_grows B (ino\<lparr>inode_size := s\<rparr>) n us B' ino' n' \<longleftrightarrow> file_grows B ino n us B' ino' n'"
  by (simp add: file_grows_def)

text \<open>What the first two parts of \<^verbatim>\<open>increase_size\<close> do, whatever part of the file they reach.\<close>

lemma direct_phase:
  fixes n t bl
  defines "us \<equiv> take (min t INODE_DIRECT_COUNT - n) bl"
  assumes "n \<le> t" "min t INODE_DIRECT_COUNT - n \<le> length bl" "length (direct ino) = INODE_DIRECT_COUNT"
  shows "file_grows B ino n us B
    (ino\<lparr>direct := take n (direct ino) @ us @ drop (max n (min t INODE_DIRECT_COUNT)) (direct ino)\<rparr>)
    (max n (min t INODE_DIRECT_COUNT))"
proof (cases "n < min t INODE_DIRECT_COUNT")
  case True
  then have "length us = min t INODE_DIRECT_COUNT - n" "n + length us = min t INODE_DIRECT_COUNT"
    using assms(3) by (auto simp: us_def)
  with True file_grows_direct [of n us ino B] assms(4) show ?thesis by (simp add: max_def)
next
  case False
  then have "us = []" "max n (min t INODE_DIRECT_COUNT) = n" by (auto simp: us_def)
  then show ?thesis using file_grows_refl [of B ino n] by simp
qed

lemma indirect1_phase:
  fixes n t bl i1 B
  defines "us \<equiv> take (min (t - INODE_DIRECT_COUNT) INODE_INDIRECT1_COUNT - (n - INODE_DIRECT_COUNT)) bl"
    and "m \<equiv> max (n - INODE_DIRECT_COUNT) (min (t - INODE_DIRECT_COUNT) INODE_INDIRECT1_COUNT)"
    and "arr \<equiv> of_le_array 4 INODE_INDIRECT1_COUNT (B (unat i1))"
  assumes "INODE_DIRECT_COUNT \<le> n" "n \<le> t" "INODE_DIRECT_COUNT < t"
    and "min (t - INODE_DIRECT_COUNT) INODE_INDIRECT1_COUNT - (n - INODE_DIRECT_COUNT) \<le> length bl"
    and "n \<noteq> INODE_DIRECT_COUNT \<Longrightarrow> i1 = indirect1 ino" "to_le_array 4 arr = B (unat i1)"
  shows "file_grows B ino n ((if n = INODE_DIRECT_COUNT then [i1] else []) @ us)
    (B(unat i1 := to_le_array 4 (take (n - INODE_DIRECT_COUNT) arr @ us @ drop m arr)))
    (ino\<lparr>indirect1 := i1\<rparr>) (INODE_DIRECT_COUNT + m)"
proof (cases "n - INODE_DIRECT_COUNT < min (t - INODE_DIRECT_COUNT) INODE_INDIRECT1_COUNT")
  case True
  then have "length us = m - (n - INODE_DIRECT_COUNT)" "us \<noteq> []" using assms(7) by (auto simp: us_def m_def)
  moreover have "n - INODE_DIRECT_COUNT + length us = m" "n + length us = INODE_DIRECT_COUNT + m" "n + length us \<le> INDIRECT1_BOUND"
    using True calculation(1) assms(4) by (auto simp: m_def INDIRECT1_BOUND_def DIRECT_BOUND_def)
  ultimately show ?thesis
    using file_grows_indirect1 [of n us i1 ino B] assms(4,8) by (simp add: arr_def)
next
  case False
  then have "us = []" "m = n - INODE_DIRECT_COUNT" "n \<noteq> INODE_DIRECT_COUNT"
    using assms(4,6) by (auto simp: us_def m_def layout_consts)
  then show ?thesis using file_grows_refl [of B ino n] assms(4,8,9) by simp
qed

section \<open>The loops\<close>

lemma fill_entries_eq:
  assumes "bound \<le> length arr" "bound - cur \<le> length bl"
  shows "fill_entries cur bound arr bl =
    Inr (max cur bound, take cur arr @ take (bound - cur) bl @ drop (max cur bound) arr, drop (bound - cur) bl)"
  using assms
proof (induction cur bound arr bl rule: fill_entries.induct)
  case (1 cur bound arr bl)
  show ?case
  proof (cases "cur < bound")
    case True
    then obtain b rest where bl: "bl = b # rest" using "1.prems"(2) by (cases bl) auto
    have "fill_entries (cur + 1) bound (arr[cur := b]) rest =
      Inr (max (cur + 1) bound, take (cur + 1) (arr[cur := b]) @ take (bound - (cur + 1)) rest @ drop (max (cur + 1) bound) (arr[cur := b]),
        drop (bound - (cur + 1)) rest)"
      using "1.IH" [OF True, of "(b, rest)" b rest] "1.prems" True bl by (auto simp: next_block_def)
    moreover have "take (cur + 1) (arr[cur := b]) = take cur arr @ [b]"
      using "1.prems"(1) True by (simp add: take_Suc_conv_app_nth)
    moreover have "bound - cur = Suc (bound - Suc cur)" using True by simp
    ultimately show ?thesis using True "1.prems"(1) bl by (simp add: fill_entries.simps [of cur] next_block_def max_def)
  qed (simp add: fill_entries.simps)
qed

lemma distinct_mid: "distinct (as @ bs @ map f ((cs @ ds) @ es)) \<Longrightarrow> distinct (bs @ map f cs)"
  by auto

text \<open>The loop condition compares positions.\<close>

lemma lex_index:
  assumes "b0 < INODE_INDIRECT1_COUNT" "b1 < INODE_INDIRECT1_COUNT"
  shows "a0 < a1 \<or> a0 = a1 \<and> b0 < b1 \<longleftrightarrow> a0 * INODE_INDIRECT1_COUNT + b0 < a1 * INODE_INDIRECT1_COUNT + b1"
proof (cases a0 a1 rule: linorder_cases)
  case less
  then have "Suc a0 * INODE_INDIRECT1_COUNT \<le> a1 * INODE_INDIRECT1_COUNT" by (intro mult_le_mono1) simp
  with less assms show ?thesis by simp
next
  case greater
  then have "Suc a1 * INODE_INDIRECT1_COUNT \<le> a0 * INODE_INDIRECT1_COUNT" by (intro mult_le_mono1) simp
  with greater assms show ?thesis by simp
qed simp

text \<open>The block numbers level by level.\<close>

lemma map_chunks:
  "map f [0..<a * c + b] = concat (map (\<lambda>i. map (\<lambda>j. f (i * c + j)) [0..<c]) [0..<a]) @ map (\<lambda>j. f (a * c + j)) [0..<b]"
proof (induction a arbitrary: b)
  case (Suc a)
  have "map f [0..<Suc a * c + b] = map f [0..<a * c + (c + b)]" by (simp add: algebra_simps)
  moreover have "map (\<lambda>j. f (a * c + j)) [0..<c + b] = map (\<lambda>j. f (a * c + j)) [0..<c] @ map (\<lambda>j. f (Suc a * c + j)) [0..<b]"
    by (rule nth_equalityI) (auto simp: nth_append algebra_simps)
  ultimately show ?case using Suc.IH [of "c + b"] by simp
qed simp

definition index_array :: "(nat \<Rightarrow> u8 list) \<Rightarrow> u32 \<Rightarrow> u32 list" where
  "index_array B blk = of_le_array 4 INODE_INDIRECT1_COUNT (B (unat blk))"

lemma length_index_array [simp]: "length (index_array B blk) = INODE_INDIRECT1_COUNT"
  by (simp add: index_array_def)

lemma nth_index_array: "index_array B blk ! k = index_entry B blk k"
  by (simp add: index_array_def index_entry_def)

lemma data_list_zero:
  "n \<le> INODE_DIRECT_COUNT \<Longrightarrow> length (direct ino) = INODE_DIRECT_COUNT \<Longrightarrow> data_list B ino n = map unat (take n (direct ino))"
  by (rule nth_equalityI) (auto simp: data_list_def blk_id_def)

lemma data_list_one:
  assumes "INODE_DIRECT_COUNT \<le> n" "n \<le> INDIRECT1_BOUND" "length (direct ino) = INODE_DIRECT_COUNT"
  shows "data_list B ino n = map unat (direct ino @ take (n - INODE_DIRECT_COUNT) (index_array B (indirect1 ino)))"
  using assms by (intro nth_equalityI) (auto simp: data_list_def blk_id_def nth_append nth_index_array layout_consts)

lemma data_list_two:
  assumes "INDIRECT1_BOUND \<le> n" "length (direct ino) = INODE_DIRECT_COUNT"
    and "n = INDIRECT1_BOUND + a * INODE_INDIRECT1_COUNT + b" "b < INODE_INDIRECT1_COUNT"
  shows "data_list B ino n = map unat (direct ino @ index_array B (indirect1 ino)
    @ concat (map (\<lambda>i. index_array B (index_entry B (indirect2 ino) i)) [0..<a])
    @ take b (index_array B (index_entry B (indirect2 ino) a)))"
proof -
  let ?f = "\<lambda>k. unat (blk_id B ino (INDIRECT1_BOUND + k))" and ?I = INODE_INDIRECT1_COUNT
  have "data_list B ino n = data_list B ino INDIRECT1_BOUND @ map ?f [0..<a * ?I + b]"
    using assms(3) by (intro nth_equalityI) (auto simp: data_list_def nth_append)
  moreover have "data_list B ino INDIRECT1_BOUND = map unat (direct ino @ index_array B (indirect1 ino))"
    using data_list_one [OF _ order_refl assms(2), of B] by (simp add: layout_consts index_array_def)
  moreover have "?f (i * ?I + j) = unat (index_array B (index_entry B (indirect2 ino) i) ! j)" if "j < ?I" for i j
    using that by (simp add: blk_id_two nth_index_array)
  then have "map (\<lambda>j. ?f (i * ?I + j)) [0..<?I] = map unat (index_array B (index_entry B (indirect2 ino) i))"
    "map (\<lambda>j. ?f (i * ?I + j)) [0..<b] = map unat (take b (index_array B (index_entry B (indirect2 ino) i)))" for i
    using assms(4) by (auto intro!: nth_equalityI)
  ultimately show ?thesis unfolding map_chunks by (simp add: map_concat comp_def)
qed

lemma mset_concat_heads: "mset (concat (map (\<lambda>x. f x # g x) xs)) = mset (map f xs) + mset (concat (map g xs))"
  by (induction xs) simp_all

lemma two_level_blocks:
  fixes n :: nat and ino :: disk_inode and B :: "nat \<Rightarrow> u8 list"
  defines "a \<equiv> (n - INDIRECT1_BOUND) div INODE_INDIRECT1_COUNT" and "b \<equiv> (n - INDIRECT1_BOUND) mod INODE_INDIRECT1_COUNT"
    and "e \<equiv> index_entry B (indirect2 ino)"
  assumes "INDIRECT1_BOUND < n" "length (direct ino) = INODE_DIRECT_COUNT"
  shows "mset (map unat (direct ino @ (indirect1 ino # index_array B (indirect1 ino)) @ indirect2 ino #
      concat (map (\<lambda>i. e i # index_array B (e i)) [0..<a]) @ (if b > 0 then e a # take b (index_array B (e a)) else [])))
    = mset (data_list B ino n @ idx_list B ino n)"
proof -
  have n: "INDIRECT1_BOUND \<le> n" "n = INDIRECT1_BOUND + a * INODE_INDIRECT1_COUNT + b" "b < INODE_INDIRECT1_COUNT"
    using assms(4) by (simp_all add: a_def b_def layout_consts)
  note d = data_list_two [OF n(1) assms(5) n(2,3), of B, folded e_def]
  note i = idx_list_two [OF assms(4), of B ino, folded a_def b_def e_def]
  show ?thesis unfolding d i by (cases "b = 0") (simp_all add: mset_concat_heads ac_simps comp_def multiset.map_comp)
qed

context block_device
begin

lemma index_block_eq:
  assumes "rep st B H" "unat blk < nblk"
  shows "to_le_array 4 (of_le_array 4 INODE_INDIRECT1_COUNT (B (unat blk)) :: u32 list) = B (unat blk)"
  using rep_length [OF assms] by (intro to_le_of_le_array) (simp_all add: BLOCK_SZ_def layout_consts)

text \<open>A closure that changes an index block as an array.\<close>

lemma modify_index_ret:
  assumes "rep st B H" "unat blk < nblk" "H (unat blk) = None" "card (dom H) < BLOCK_CACHE_SIZE"
    and "length arr = INODE_INDIRECT1_COUNT"
    and "\<And>c st1. rep st1 B (H(unat blk \<mapsto> c)) \<Longrightarrow> ret (f (B (unat blk)) st1) (v, to_le_array 4 (arr :: u32 list)) B' (H(unat blk \<mapsto> c))"
  shows "ret (block_modify D (unat blk) 0 BLOCK_SZ f st) v (B'(unat blk := to_le_array 4 arr)) H"
proof -
  have len: "length (B (unat blk)) = BLOCK_SZ" by (rule rep_length [OF assms(1,2)])
  have l2: "length (to_le_array 4 arr) = BLOCK_SZ" using assms(5) by (simp add: BLOCK_SZ_def layout_consts)
  have "ret (block_modify D (unat blk) 0 BLOCK_SZ f st) v (B'(unat blk := put_bytes 0 (to_le_array 4 arr) (B (unat blk)))) H"
    by (rule block_modify_ret [OF assms(1-4)]) (use assms(6) len l2 in \<open>auto simp: BLOCK_SZ_def\<close>)
  then show ?thesis using put_bytes_all [of "to_le_array 4 arr" "B (unat blk)"] len l2 by simp
qed

lemma fill_index_ret:
  fixes blk :: u32
  defines "i \<equiv> unat blk"
  assumes "rep st B H" "i < nblk" "H i = None" "card (dom H) < BLOCK_CACHE_SIZE"
    and "bound \<le> INODE_INDIRECT1_COUNT" "bound - cur \<le> length bl"
  defines "arr \<equiv> of_le_array 4 INODE_INDIRECT1_COUNT (B i)"
  shows "ret (block_modify D i 0 BLOCK_SZ (\<lambda>bs st.
       rbind (fill_entries cur bound (of_le_array 4 INODE_INDIRECT1_COUNT bs) bl) (\<lambda>(cur, arr, rest).
         Inr (((cur, rest), to_le_array 4 arr), st))) st)
     (max cur bound, drop (bound - cur) bl)
     (B(i := to_le_array 4 (take cur arr @ take (bound - cur) bl @ drop (max cur bound) arr))) H"
  unfolding i_def
proof (rule modify_index_ret [OF assms(2-5) [unfolded i_def]])
  show "length (take cur arr @ take (bound - cur) bl @ drop (max cur bound) arr) = INODE_INDIRECT1_COUNT"
    using assms(6,7) by (auto simp: arr_def)
  show "ret (rbind (fill_entries cur bound (of_le_array 4 INODE_INDIRECT1_COUNT (B (unat blk))) bl) (\<lambda>(cur, arr, rest).
         Inr (((cur, rest), to_le_array 4 arr), st1)))
      ((max cur bound, drop (bound - cur) bl), to_le_array 4 (take cur arr @ take (bound - cur) bl @ drop (max cur bound) arr))
      B (H(unat blk \<mapsto> c))" if "rep st1 B (H(unat blk \<mapsto> c))" for c st1
    using fill_entries_eq [of bound arr cur bl] assms(6,7) that by (simp add: arr_def i_def retI)
qed

text \<open>One turn of the loop over the second level, on the disk with the current second-level array.\<close>

lemma fill_block_ret:
  assumes "rep st B H" "unat e < nblk" "H (unat e) = None" "card (dom H) < BLOCK_CACHE_SIZE"
    and "b0 < INODE_INDIRECT1_COUNT"
  shows "ret (block_modify D (unat e) 0 BLOCK_SZ (\<lambda>bs st.
       rbind (next_block (x # rest)) (\<lambda>(b, rest).
         Inr ((rest, to_le_array 4 ((of_le_array 4 INODE_INDIRECT1_COUNT bs)[b0 := b])), st))) st)
     rest (B(unat e := to_le_array 4 ((of_le_array 4 INODE_INDIRECT1_COUNT (B (unat e)))[b0 := x]))) H"
  by (rule modify_index_ret [OF assms(1-4)]) (simp_all add: next_block_def retI)

lemma fill_indirect2_ret:
  fixes ino :: disk_inode
  defines "i2 \<equiv> unat (indirect2 ino)"
  assumes "rep st B H" "H i2 \<noteq> None" "card (dom H) < BLOCK_CACHE_SIZE" "length ind2 = INODE_INDIRECT1_COUNT"
    and "n = INDIRECT1_BOUND + a0 * INODE_INDIRECT1_COUNT + b0" "b0 < INODE_INDIRECT1_COUNT"
    and "t = INDIRECT1_BOUND + a1 * INODE_INDIRECT1_COUNT + b1" "b1 < INODE_INDIRECT1_COUNT" "n \<le> t" "t \<le> INDIRECT2_BOUND"
    and "us = (if n = INDIRECT1_BOUND then [indirect2 ino] else []) @ bl"
    and "t + index_count t = n + index_count n + length us"
    and "distinct (data_list (B(i2 := to_le_array 4 ind2)) ino n @ idx_list (B(i2 := to_le_array 4 ind2)) ino n @ map unat us)"
    and "\<And>b. b \<in> set (idx_list (B(i2 := to_le_array 4 ind2)) ino n) \<union> unat ` set bl \<Longrightarrow> b \<noteq> i2 \<Longrightarrow> b < nblk \<and> H b = None"
  shows "\<exists>B' ind2'. ret (fill_indirect2 D a0 b0 a1 b1 ind2 bl st) (ind2', []) B' H
    \<and> length ind2' = INODE_INDIRECT1_COUNT \<and> B' i2 = B i2
    \<and> file_grows (B(i2 := to_le_array 4 ind2)) ino n us (B'(i2 := to_le_array 4 ind2')) ino t"
  using assms(2-)
proof (induction "t - n" arbitrary: n a0 b0 ind2 bl us st B)
  case 0
  then have nt: "n = t" by simp
  then have us: "us = []" using "0.prems"(12) by simp
  then have bl: "bl = []" using "0.prems"(11) by simp
  have "\<not> (a0 < a1 \<or> a0 = a1 \<and> b0 < b1)" using lex_index [OF "0.prems"(6,8), of a0 a1] nt "0.prems"(5,7) by simp
  then have "fill_indirect2 D a0 b0 a1 b1 ind2 bl st = Inr ((ind2, []), st)"
    using bl by (subst fill_indirect2.simps) (simp only: if_False)
  with "0.prems"(1,4) nt us file_grows_refl show ?case by (intro exI [of _ B] exI [of _ ind2]) (simp add: retI)
next
  case (Suc m)
  let ?Bv = "B(i2 := to_le_array 4 ind2)"
  have lt: "n < t" using Suc.hyps(2) by simp
  have ab: "a0 < INODE_INDIRECT1_COUNT" "a0 < a1 \<or> a0 = a1 \<and> b0 < b1" "INDIRECT1_BOUND \<le> n"
    "(n - INDIRECT1_BOUND) div INODE_INDIRECT1_COUNT = a0" "(n - INDIRECT1_BOUND) mod INODE_INDIRECT1_COUNT = b0"
    "n < INDIRECT2_BOUND"
    using lex_index [OF Suc.prems(6,8), of a0 a1] lt Suc.prems(5-7,10) by (simp_all add: layout_consts)
  have "index_count (Suc n) \<le> index_count t" using lt by (intro index_count_mono) simp
  then have "(if b0 = 0 then 1 else 0) < length bl"
    using Suc.prems(11,12) lt unfolding index_count_Suc [OF ab(3)] ab(5) by (auto split: if_splits)
  then obtain e x rest where bl: "bl = (if b0 = 0 then [e] else []) @ x # rest" and e: "b0 \<noteq> 0 \<Longrightarrow> e = ind2 ! a0"
    by (cases "b0 = 0"; cases bl; cases "tl bl"; simp)
  let ?news = "(if n = INDIRECT1_BOUND then [indirect2 ino] else []) @ (if b0 = 0 then [e] else [])"
  have us: "us = (?news @ [x]) @ rest" using Suc.prems(11) bl by simp
  have len: "of_le_array 4 INODE_INDIRECT1_COUNT (?Bv i2) = ind2" using Suc.prems(4) of_le_to_le_array [of 4 ind2] by simp
  have dis: "distinct (idx_list ?Bv ino n @ map unat ?news)" using Suc.prems(13) unfolding us by (rule distinct_mid)
  have e': "b0 \<noteq> 0 \<Longrightarrow> e = index_entry ?Bv (indirect2 ino) a0" using e len by (simp add: index_entry_def i2_def)
  note entry = second_level_entry [OF ab(3) ab(5) [symmetric], unfolded ab(4), OF e' dis, folded i2_def]
  have ok: "unat e < nblk \<and> H (unat e) = None"
    using Suc.prems(14) [of "unat e"] entry bl by (cases "b0 = 0") auto
  let ?B1 = "B(unat e := to_le_array 4 ((of_le_array 4 INODE_INDIRECT1_COUNT (B (unat e)))[b0 := x]))"
  let ?B1v = "?B1(i2 := to_le_array 4 (ind2[a0 := e]))"
  have g: "file_grows ?Bv ino n (?news @ [x]) ?B1v ino (Suc n)"
  proof -
    have "file_grows ?Bv ino n (?news @ [x]) (?Bv(i2 := to_le_array 4 (ind2[a0 := e]),
        unat e := to_le_array 4 ((of_le_array 4 INODE_INDIRECT1_COUNT (?Bv (unat e)))[b0 := x]))) ino (Suc n)"
      by (rule file_grows_indirect2 [OF ab(3,6), where e = e and B = ?Bv and ino = ino and x = x, unfolded ab(4,5), folded i2_def, unfolded len])
         (erule e, rule dis)
    moreover have "?Bv(i2 := to_le_array 4 (ind2[a0 := e]),
        unat e := to_le_array 4 ((of_le_array 4 INODE_INDIRECT1_COUNT (?Bv (unat e)))[b0 := x])) = ?B1v"
      using entry(1) by (auto simp: fun_eq_iff)
    ultimately show ?thesis by simp
  qed
  obtain st1 where st1: "block_modify D (unat e) 0 BLOCK_SZ (\<lambda>bs st.
       rbind (next_block (x # rest)) (\<lambda>(b, rest).
         Inr ((rest, to_le_array 4 ((of_le_array 4 INODE_INDIRECT1_COUNT bs)[b0 := b])), st))) st = Inr (rest, st1)"
    "rep st1 ?B1 H"
    using fill_block_ret [OF Suc.prems(1) _ _ Suc.prems(3,6), of e x rest] ok by (auto elim: retE)
  define a' b' where "a' = (if b0 + 1 = INODE_INDIRECT1_COUNT then a0 + 1 else a0)"
    and "b' = (if b0 + 1 = INODE_INDIRECT1_COUNT then 0 else b0 + 1)"
  have eq: "fill_indirect2 D a0 b0 a1 b1 ind2 bl st = fill_indirect2 D a' b' a1 b1 (ind2[a0 := e]) rest st1"
    using ab(1,2) Suc.prems(4,6) e st1(1)
    by (subst fill_indirect2.simps) (cases "b0 = 0"; simp add: bl next_block_def a'_def b'_def)
  have "\<exists>B' ind2'. ret (fill_indirect2 D a' b' a1 b1 (ind2[a0 := e]) rest st1) (ind2', []) B' H
    \<and> length ind2' = INODE_INDIRECT1_COUNT \<and> B' i2 = ?B1 i2
    \<and> file_grows ?B1v ino (Suc n) rest (B'(i2 := to_le_array 4 ind2')) ino t"
  proof (rule Suc.hyps(1) [OF _ st1(2) Suc.prems(2,3)])
    show "m = t - Suc n" using Suc.hyps(2) by simp
    show "Suc n = INDIRECT1_BOUND + a' * INODE_INDIRECT1_COUNT + b'" "b' < INODE_INDIRECT1_COUNT"
      using Suc.prems(5,6) by (auto simp: a'_def b'_def layout_consts)
    show "rest = (if Suc n = INDIRECT1_BOUND then [indirect2 ino] else []) @ rest" using ab(3) by simp
    show "t + index_count t = Suc n + index_count (Suc n) + length rest"
      using file_grows_blocks(2) [OF g] Suc.prems(12) unfolding us by simp
    show "distinct (data_list ?B1v ino (Suc n) @ idx_list ?B1v ino (Suc n) @ map unat rest)"
      by (rule file_grows_distinct [OF g Suc.prems(13) [unfolded us]])
    show "b < nblk \<and> H b = None" if "b \<in> set (idx_list ?B1v ino (Suc n)) \<union> unat ` set rest" "b \<noteq> i2" for b
      using that file_grows_idx_set [OF g] Suc.prems(14) [of b] bl unfolding i2_def by (auto split: if_splits)
  qed (use Suc.prems(4,7-10) lt in simp_all)
  then obtain B' ind2' where B': "ret (fill_indirect2 D a' b' a1 b1 (ind2[a0 := e]) rest st1) (ind2', []) B' H"
    "length ind2' = INODE_INDIRECT1_COUNT" "B' i2 = ?B1 i2"
    "file_grows ?B1v ino (Suc n) rest (B'(i2 := to_le_array 4 ind2')) ino t" by blast
  have "file_grows ?Bv ino n us (B'(i2 := to_le_array 4 ind2')) ino t"
    unfolding us by (rule file_grows_trans [OF g B'(4)])
  with B'(1-3) entry(1) show ?case unfolding eq by (intro exI [of _ B'] exI [of _ ind2']) simp
qed

text \<open>The last part of \<^verbatim>\<open>increase_size\<close>.\<close>

lemma indirect2_phase_ret:
  fixes ino :: disk_inode and n t :: nat and bl :: "u32 list"
  defines "i2 \<equiv> unat (indirect2 ino)" and "us \<equiv> (if n = INDIRECT1_BOUND then [indirect2 ino] else []) @ bl"
  assumes "rep st B H" "card (dom H) + 1 < BLOCK_CACHE_SIZE" "i2 < nblk" "H i2 = None"
    and "INDIRECT1_BOUND \<le> n" "n \<le> t" "t \<le> INDIRECT2_BOUND"
    and "t + index_count t = n + index_count n + length us"
    and "distinct (data_list B ino n @ idx_list B ino n @ map unat us)"
    and "\<And>b. b \<in> set (idx_list B ino n) \<union> unat ` set bl \<Longrightarrow> b < nblk \<and> H b = None"
  shows "\<exists>B'. ret (block_modify D i2 0 BLOCK_SZ (\<lambda>bs st.
       rbind (fill_indirect2 D ((n - INDIRECT1_BOUND) div INODE_INDIRECT1_COUNT) ((n - INDIRECT1_BOUND) mod INODE_INDIRECT1_COUNT)
                ((t - INDIRECT1_BOUND) div INODE_INDIRECT1_COUNT) ((t - INDIRECT1_BOUND) mod INODE_INDIRECT1_COUNT)
                (of_le_array 4 INODE_INDIRECT1_COUNT bs) bl st)
         (\<lambda>((ind2, _), st'). Inr (((), to_le_array 4 ind2), st'))) st) () B' H
    \<and> file_grows B ino n us B' ino t"
proof -
  let ?a = "\<lambda>n. (n - INDIRECT1_BOUND) div INODE_INDIRECT1_COUNT" and ?b = "\<lambda>n. (n - INDIRECT1_BOUND) mod INODE_INDIRECT1_COUNT"
  let ?ind2 = "of_le_array 4 INODE_INDIRECT1_COUNT (B i2) :: u32 list"
  have len: "length (B i2) = BLOCK_SZ" by (rule rep_length [OF assms(3,5)])
  have enc: "to_le_array 4 ?ind2 = B i2" by (rule index_block_eq [OF assms(3) assms(5) [unfolded i2_def], folded i2_def])
  have "\<exists>v B'. ret (block_modify D i2 0 BLOCK_SZ (\<lambda>bs st.
       rbind (fill_indirect2 D (?a n) (?b n) (?a t) (?b t) (of_le_array 4 INODE_INDIRECT1_COUNT bs) bl st)
         (\<lambda>((ind2, _), st'). Inr (((), to_le_array 4 ind2), st'))) st) v B' H \<and> file_grows B ino n us B' ino t"
  proof (rule block_modify_ex [OF assms(3,5,6)])
    fix c st1 assume r: "rep st1 B (H(i2 \<mapsto> c))"
    have "\<exists>B' ind2'. ret (fill_indirect2 D (?a n) (?b n) (?a t) (?b t) ?ind2 bl st1) (ind2', []) B' (H(i2 \<mapsto> c))
        \<and> length ind2' = INODE_INDIRECT1_COUNT \<and> B' (unat (indirect2 ino)) = B (unat (indirect2 ino))
        \<and> file_grows (B(unat (indirect2 ino) := to_le_array 4 ?ind2)) ino n us (B'(unat (indirect2 ino) := to_le_array 4 ind2')) ino t"
    proof (rule fill_indirect2_ret [OF r])
      show "card (dom (H(i2 \<mapsto> c))) < BLOCK_CACHE_SIZE" using assms(4) rep_finite [OF assms(3)] by (simp add: card_insert_if)
      show "n = INDIRECT1_BOUND + ?a n * INODE_INDIRECT1_COUNT + ?b n" "t = INDIRECT1_BOUND + ?a t * INODE_INDIRECT1_COUNT + ?b t"
        using assms(7,8) by simp_all
      show "?b n < INODE_INDIRECT1_COUNT" "?b t < INODE_INDIRECT1_COUNT" by (simp_all add: layout_consts)
      show "us = (if n = INDIRECT1_BOUND then [indirect2 ino] else []) @ bl" by (simp add: us_def)
    qed (use assms(8-12) enc in \<open>simp_all add: i2_def\<close>)
    then obtain B' ind2' where B': "ret (fill_indirect2 D (?a n) (?b n) (?a t) (?b t) ?ind2 bl st1) (ind2', []) B' (H(i2 \<mapsto> c))"
      "length ind2' = INODE_INDIRECT1_COUNT" "file_grows B ino n us (B'(i2 := to_le_array 4 ind2')) ino t"
      using enc by (auto simp: i2_def)
    have "length (to_le_array 4 ind2') = BLOCK_SZ" using B'(2) by (simp add: BLOCK_SZ_def layout_consts)
    moreover have "ret (rbind (fill_indirect2 D (?a n) (?b n) (?a t) (?b t) ?ind2 bl st1)
        (\<lambda>((ind2, _), st'). Inr (((), to_le_array 4 ind2), st'))) ((), to_le_array 4 ind2') B' (H(i2 \<mapsto> c))"
      by (rule ret_bind [OF B'(1)]) (simp add: retI)
    ultimately show "\<exists>v bs B'. length bs = BLOCK_SZ \<and>
        ret (rbind (fill_indirect2 D (?a n) (?b n) (?a t) (?b t) (of_le_array 4 INODE_INDIRECT1_COUNT (take BLOCK_SZ (drop 0 (B i2)))) bl st1)
         (\<lambda>((ind2, _), st'). Inr (((), to_le_array 4 ind2), st'))) (v, bs) B' (H(i2 \<mapsto> c))
        \<and> file_grows B ino n us (B'(i2 := put_bytes 0 bs (B i2))) ino t"
      using B'(3) len put_bytes_all [of "to_le_array 4 ind2'" "B i2"]
      by (intro exI [of _ "()"] exI [of _ "to_le_array 4 ind2'"] exI [of _ B']) simp
  qed (use assms(4) in \<open>simp_all add: BLOCK_SZ_def\<close>)
  then show ?thesis by simp
qed

lemma data_blocks_eq:
  assumes "unat (inode_size ino) + BLOCK_SZ - 1 < 2 ^ 32"
  shows "data_blocks ino = Inr ((unat (inode_size ino) + BLOCK_SZ - 1) div BLOCK_SZ)"
  using assms by (simp add: data_blocks_def data_blocks_of_def checked_u32_def)

text \<open>The second part of \<^verbatim>\<open>increase_size\<close>, from a file whose direct entries are full.\<close>

lemma indirect1_phase_ret:
  fixes n t :: nat and bl :: "u32 list" and i1 :: u32
  defines "c \<equiv> min (t - INODE_DIRECT_COUNT) INODE_INDIRECT1_COUNT - (n - INODE_DIRECT_COUNT)"
    and "m \<equiv> max (n - INODE_DIRECT_COUNT) (min (t - INODE_DIRECT_COUNT) INODE_INDIRECT1_COUNT)"
  assumes "rep st B H" "card (dom H) < BLOCK_CACHE_SIZE" "INODE_DIRECT_COUNT \<le> n" "n \<le> t" "INODE_DIRECT_COUNT < t"
    and "room nblk H B ino n ((if n = INODE_DIRECT_COUNT then [i1] else []) @ bl)"
    and "n \<noteq> INODE_DIRECT_COUNT \<Longrightarrow> i1 = indirect1 ino" "c \<le> length bl"
  shows "\<exists>B'. ret (block_modify D (unat i1) 0 BLOCK_SZ (\<lambda>bs st.
       rbind (fill_entries (n - INODE_DIRECT_COUNT) (min (t - INODE_DIRECT_COUNT) INODE_INDIRECT1_COUNT)
                (of_le_array 4 INODE_INDIRECT1_COUNT bs) bl) (\<lambda>(cur, arr, rest).
         Inr (((cur, rest), to_le_array 4 arr), st))) st) (m, drop c bl) B' H
    \<and> file_grows B ino n ((if n = INODE_DIRECT_COUNT then [i1] else []) @ take c bl) B' (ino\<lparr>indirect1 := i1\<rparr>) (INODE_DIRECT_COUNT + m)"
proof -
  have ok: "unat i1 < nblk" "H (unat i1) = None"
    using assms(5,8,9) by (auto simp: room_def idx_list_def split: if_splits)
  note f = fill_index_ret [OF assms(3) ok assms(4), of "min (t - INODE_DIRECT_COUNT) INODE_INDIRECT1_COUNT" "n - INODE_DIRECT_COUNT" bl]
  have "file_grows B ino n ((if n = INODE_DIRECT_COUNT then [i1] else []) @ take c bl)
    (B(unat i1 := to_le_array 4 (take (n - INODE_DIRECT_COUNT) (of_le_array 4 INODE_INDIRECT1_COUNT (B (unat i1))) @ take c bl @
       drop m (of_le_array 4 INODE_INDIRECT1_COUNT (B (unat i1)))))) (ino\<lparr>indirect1 := i1\<rparr>) (INODE_DIRECT_COUNT + m)"
    unfolding c_def m_def
    by (rule indirect1_phase [OF assms(5-7) assms(10) [unfolded c_def]]) (use assms(9) index_block_eq [OF assms(3) ok(1)] in auto)
  with f assms(10) show ?thesis by (auto simp: c_def m_def)
qed

lemma indirect2_tail_ret:
  assumes "rep st B H" "card (dom H) + 1 < BLOCK_CACHE_SIZE" "room nblk H B ino n bl"
    and "INDIRECT1_BOUND \<le> n" "n \<le> t" "INDIRECT1_BOUND < t" "t \<le> INDIRECT2_BOUND"
    and "t + index_count t = n + index_count n + length bl" "cur + INODE_DIRECT_COUNT = n" "tot + INODE_DIRECT_COUNT = t"
  shows "\<exists>B' ino'. ret
    (rbind (if cur = INODE_INDIRECT1_COUNT then rbind (next_block bl) (\<lambda>(b, rest). Inr (ino\<lparr>indirect2 := b\<rparr>, rest)) else Inr (ino, bl))
      (\<lambda>(ino4, bl4). rbind (block_modify D (unat (indirect2 ino4)) 0 BLOCK_SZ (\<lambda>bs st.
         rbind (fill_indirect2 D ((cur - INODE_INDIRECT1_COUNT) div INODE_INDIRECT1_COUNT) ((cur - INODE_INDIRECT1_COUNT) mod INODE_INDIRECT1_COUNT)
             ((tot - INODE_INDIRECT1_COUNT) div INODE_INDIRECT1_COUNT) ((tot - INODE_INDIRECT1_COUNT) mod INODE_INDIRECT1_COUNT)
             (of_le_array 4 INODE_INDIRECT1_COUNT bs) bl4 st)
           (\<lambda>((ind2, _), st'). Inr (((), to_le_array 4 ind2), st'))) st) (\<lambda>(_, st2). Inr (ino4, st2)))) ino' B' H
    \<and> file_grows B ino n bl B' ino' t \<and> ino' = ino\<lparr>indirect2 := indirect2 ino'\<rparr>"
proof -
  have eqs: "cur - INODE_INDIRECT1_COUNT = n - INDIRECT1_BOUND" "tot - INODE_INDIRECT1_COUNT = t - INDIRECT1_BOUND"
    "cur = INODE_INDIRECT1_COUNT \<longleftrightarrow> n = INDIRECT1_BOUND"
    using assms(9,10) by (auto simp: layout_consts)
  have "bl \<noteq> []" if "n = INDIRECT1_BOUND"
    using that assms(6,8) index_count_mono [OF assms(5)] by auto
  then obtain i2 bl4 where bl: "bl = (if n = INDIRECT1_BOUND then [i2] else []) @ bl4" and i2: "n \<noteq> INDIRECT1_BOUND \<Longrightarrow> i2 = indirect2 ino"
    by (cases "n = INDIRECT1_BOUND"; cases bl; simp)
  define ino4 where "ino4 = ino\<lparr>indirect2 := i2\<rparr>"
  have lists: "data_list B ino4 n = data_list B ino n" "idx_list B ino4 n = idx_list B ino n"
    using lists_set_indirect2 [of n B i2 ino] i2 by (cases "n = INDIRECT1_BOUND"; simp add: ino4_def)+
  have i2_ok: "unat (indirect2 ino4) < nblk" "H (unat (indirect2 ino4)) = None"
    using assms(3,4) i2 idx_list_two [of n B ino] bl unfolding room_def ino4_def by (cases "n = INDIRECT1_BOUND"; simp)+
  have blu: "(if n = INDIRECT1_BOUND then [indirect2 ino4] else []) @ bl4 = bl" by (simp add: bl ino4_def)
  let ?modify = "block_modify D (unat (indirect2 ino4)) 0 BLOCK_SZ (\<lambda>bs st.
         rbind (fill_indirect2 D ((n - INDIRECT1_BOUND) div INODE_INDIRECT1_COUNT) ((n - INDIRECT1_BOUND) mod INODE_INDIRECT1_COUNT)
             ((t - INDIRECT1_BOUND) div INODE_INDIRECT1_COUNT) ((t - INDIRECT1_BOUND) mod INODE_INDIRECT1_COUNT)
             (of_le_array 4 INODE_INDIRECT1_COUNT bs) bl4 st)
           (\<lambda>((ind2, _), st'). Inr (((), to_le_array 4 ind2), st'))) st"
  have "\<exists>B'. ret ?modify () B' H \<and> file_grows B ino4 n bl B' ino4 t"
  proof (rule indirect2_phase_ret [OF assms(1,2) i2_ok assms(4,5,7), of bl4, unfolded blu lists])
    show "t + index_count t = n + index_count n + length bl" by (rule assms(8))
    show "distinct (data_list B ino n @ idx_list B ino n @ map unat bl)" using assms(3) by (simp add: room_def)
    show "b < nblk \<and> H b = None" if "b \<in> set (idx_list B ino n) \<union> unat ` set bl4" for b
      using that assms(3) bl by (auto simp: room_def)
  qed
  then obtain B' where B': "ret ?modify () B' H" "file_grows B ino4 n bl B' ino4 t" by blast
  have "file_grows B ino n bl B' ino4 t" using B'(2) lists by (simp add: file_grows_def ino4_def)
  moreover have "(if cur = INODE_INDIRECT1_COUNT then rbind (next_block bl) (\<lambda>(b, rest). Inr (ino\<lparr>indirect2 := b\<rparr>, rest)) else Inr (ino, bl)) = Inr (ino4, bl4)"
    unfolding eqs using bl i2 by (auto simp: next_block_def ino4_def)
  moreover have "ret (rbind ?modify (\<lambda>(_, st2). Inr (ino4, st2))) ino4 B' H" by (rule ret_bind [OF B'(1)]) (simp add: retI)
  moreover have "ino4 = ino\<lparr>indirect2 := indirect2 ino4\<rparr>" by (simp add: ino4_def)
  ultimately show ?thesis unfolding eqs(1,2) by (intro exI [of _ B'] exI [of _ ino4]) simp
qed

text \<open>Everything after the direct entries.\<close>

lemma increase_indirect_ret:
  assumes "rep st B H" "card (dom H) + 1 < BLOCK_CACHE_SIZE" "room nblk H B ino n bl"
    and "INODE_DIRECT_COUNT \<le> n" "n \<le> t" "INODE_DIRECT_COUNT < t" "t \<le> INDIRECT2_BOUND"
    and "t + index_count t = n + index_count n + length bl"
  shows "\<exists>B' ino'. ret
    (rbind (if n = INODE_DIRECT_COUNT then rbind (next_block bl) (\<lambda>(b, rest). Inr (ino\<lparr>indirect1 := b\<rparr>, rest)) else Inr (ino, bl)) (\<lambda>(ino3, bl2).
       let current2 = n - INODE_DIRECT_COUNT; total1 = t - INODE_DIRECT_COUNT in
       rbind (block_modify D (unat (indirect1 ino3)) 0 BLOCK_SZ (\<lambda>bs st.
                rbind (fill_entries current2 (min total1 INODE_INDIRECT1_COUNT)
                         (of_le_array 4 INODE_INDIRECT1_COUNT bs) bl2) (\<lambda>(cur, arr, rest).
                  Inr (((cur, rest), to_le_array 4 arr), st))) st) (\<lambda>((current3, bl3), st1).
       if total1 > INODE_INDIRECT1_COUNT then
         rbind (if current3 = INODE_INDIRECT1_COUNT
                then rbind (next_block bl3) (\<lambda>(b, rest). Inr (ino3\<lparr>indirect2 := b\<rparr>, rest))
                else Inr (ino3, bl3)) (\<lambda>(ino4, bl4).
         let current4 = current3 - INODE_INDIRECT1_COUNT; total2 = total1 - INODE_INDIRECT1_COUNT;
             a0 = current4 div INODE_INDIRECT1_COUNT; b0 = current4 mod INODE_INDIRECT1_COUNT;
             a1 = total2 div INODE_INDIRECT1_COUNT; b1 = total2 mod INODE_INDIRECT1_COUNT in
         rbind (block_modify D (unat (indirect2 ino4)) 0 BLOCK_SZ (\<lambda>bs st.
                  rbind (fill_indirect2 D a0 b0 a1 b1 (of_le_array 4 INODE_INDIRECT1_COUNT bs) bl4 st)
                    (\<lambda>((ind2, _), st'). Inr (((), to_le_array 4 ind2), st'))) st1) (\<lambda>(_, st2).
           Inr (ino4, st2)))
       else Inr (ino3, st1)))) ino' B' H
    \<and> file_grows B ino n bl B' ino' t \<and> inode_size ino' = inode_size ino \<and> inode_type ino' = inode_type ino"
proof -
  let ?D = INODE_DIRECT_COUNT and ?I = INODE_INDIRECT1_COUNT
  have "bl \<noteq> []" if "n = ?D" using that assms(6,8) index_count_mono [OF assms(5)] by auto
  then obtain i1 bl2 where bl: "bl = (if n = ?D then [i1] else []) @ bl2" and i1: "n \<noteq> ?D \<Longrightarrow> i1 = indirect1 ino"
    by (cases "n = ?D"; cases bl; simp)
  define ino3 where "ino3 = ino\<lparr>indirect1 := i1\<rparr>"
  define c where "c = min (t - ?D) ?I - (n - ?D)"
  define m where "m = max (n - ?D) (min (t - ?D) ?I)"
  have head: "(if n = ?D then rbind (next_block bl) (\<lambda>(b, rest). Inr (ino\<lparr>indirect1 := b\<rparr>, rest)) else Inr (ino, bl)) = Inr (ino3, bl2)"
    using bl i1 by (auto simp: next_block_def ino3_def)
  have "1 \<le> index_count t" "index_count ?D = 0" using assms(6) by (simp_all add: index_count_def layout_consts)
  then have c: "c \<le> length bl2"
    using assms(4,5,8) index_count_mono [OF assms(5)] bl by (cases "n = ?D") (simp_all add: c_def)
  have card: "card (dom H) < BLOCK_CACHE_SIZE" using assms(2) by simp
  have i3: "indirect1 ino3 = i1" by (simp add: ino3_def)
  obtain B2 where B2: "ret (block_modify D (unat i1) 0 BLOCK_SZ (\<lambda>bs st.
       rbind (fill_entries (n - ?D) (min (t - ?D) ?I) (of_le_array 4 ?I bs) bl2) (\<lambda>(cur, arr, rest).
         Inr (((cur, rest), to_le_array 4 arr), st))) st) (m, drop c bl2) B2 H"
    and g: "file_grows B ino n ((if n = ?D then [i1] else []) @ take c bl2) B2 ino3 (?D + m)"
    using indirect1_phase_ret [OF assms(1) card assms(4-6) assms(3) [unfolded bl] i1 c [unfolded c_def]]
    unfolding c_def m_def ino3_def by blast
  obtain st1 where st1: "block_modify D (unat (indirect1 ino3)) 0 BLOCK_SZ (\<lambda>bs st.
       rbind (fill_entries (n - ?D) (min (t - ?D) ?I) (of_le_array 4 ?I bs) bl2) (\<lambda>(cur, arr, rest).
         Inr (((cur, rest), to_le_array 4 arr), st))) st = Inr ((m, drop c bl2), st1)" "rep st1 B2 H"
    unfolding i3 by (rule retE [OF B2])
  have split: "bl = ((if n = ?D then [i1] else []) @ take c bl2) @ drop c bl2" using bl by simp
  have room: "room nblk H B2 ino3 (?D + m) (drop c bl2)" using room_grows [OF g] assms(3) split by simp
  have cnt: "t + index_count t = ?D + m + index_count (?D + m) + length (drop c bl2)"
    using file_grows_blocks(2) [OF g] assms(8) arg_cong [OF split, of length] by simp
  have same: "inode_size ino3 = inode_size ino" "inode_type ino3 = inode_type ino" by (simp_all add: ino3_def)
  show ?thesis
  proof (cases "t - ?D > ?I")
    case False
    then have "?D + m = t" using assms(4,5) by (auto simp: m_def)
    then have "drop c bl2 = []" using cnt by simp
    then have "file_grows B ino n bl B2 ino3 t" using g split \<open>?D + m = t\<close> by simp
    then show ?thesis using head False same st1(1) retI [OF st1(2)]
      by (intro exI [of _ B2] exI [of _ ino3]) simp
  next
    case True
    have le: "INDIRECT1_BOUND \<le> ?D + m" "?D + m \<le> t" "INDIRECT1_BOUND < t"
      using True assms(4,5) by (auto simp: m_def INDIRECT1_BOUND_def DIRECT_BOUND_def)
    have tot: "m + ?D = ?D + m" "t - ?D + ?D = t" using assms(6) by simp_all
    obtain B' ino' where t: "ret
      (rbind (if m = ?I then rbind (next_block (drop c bl2)) (\<lambda>(b, rest). Inr (ino3\<lparr>indirect2 := b\<rparr>, rest)) else Inr (ino3, drop c bl2))
      (\<lambda>(ino4, bl4). rbind (block_modify D (unat (indirect2 ino4)) 0 BLOCK_SZ (\<lambda>bs st.
         rbind (fill_indirect2 D ((m - ?I) div ?I) ((m - ?I) mod ?I) ((t - ?D - ?I) div ?I) ((t - ?D - ?I) mod ?I)
             (of_le_array 4 ?I bs) bl4 st)
           (\<lambda>((ind2, _), st'). Inr (((), to_le_array 4 ind2), st'))) st1) (\<lambda>(_, st2). Inr (ino4, st2)))) ino' B' H"
      "file_grows B2 ino3 (?D + m) (drop c bl2) B' ino' t" "ino' = ino3\<lparr>indirect2 := indirect2 ino'\<rparr>"
      using indirect2_tail_ret [OF st1(2) assms(2) room le assms(7) cnt tot] by blast
    have "file_grows B ino n bl B' ino' t" using file_grows_trans [OF g t(2)] split by simp
    moreover have "inode_size ino' = inode_size ino" "inode_type ino' = inode_type ino"
      using same by (subst t(3), simp)+
    ultimately show ?thesis using head True t(1) st1(1)
      by (intro exI [of _ B'] exI [of _ ino']) (simp add: Let_def)
  qed
qed

lemma increase_size_ret:
  fixes n t :: nat
  assumes "rep st B H" "inode_ok nblk B H ino n" "card (dom H) + 1 < BLOCK_CACHE_SIZE"
    and "data_blocks ino = Inr n" "data_blocks (ino\<lparr>inode_size := of_nat new_size\<rparr>) = Inr t" "n \<le> t" "t \<le> INDIRECT2_BOUND"
    and "t + index_count t = n + index_count n + length bl"
    and "distinct (data_list B ino n @ idx_list B ino n @ map unat bl)"
    and "\<forall>b \<in> set bl. unat b < nblk \<and> H (unat b) = None"
  shows "\<exists>B' ino'. ret (increase_size D new_size bl ino st) ino' B' H \<and> file_grows B ino n bl B' ino' t
    \<and> inode_size ino' = of_nat new_size \<and> inode_type ino' = inode_type ino"
proof -
  let ?D = INODE_DIRECT_COUNT and ?I = INODE_INDIRECT1_COUNT
  define us1 where "us1 = take (min t ?D - n) bl"
  define bl1 where "bl1 = drop (min t ?D - n) bl"
  define m1 where "m1 = max n (min t ?D)"
  define ino2 where "ino2 = ino\<lparr>inode_size := of_nat new_size, direct := take n (direct ino) @ us1 @ drop m1 (direct ino)\<rparr>"
  have dir: "length (direct ino) = ?D" using assms(2) by (simp add: inode_ok_def)
  have "index_count n \<le> index_count t" by (rule index_count_mono [OF assms(6)])
  then have l1: "min t ?D - n \<le> length bl" using assms(8) by simp
  have f1: "fill_entries n (min t ?D) (direct ino) bl = Inr (m1, take n (direct ino) @ us1 @ drop m1 (direct ino), bl1)"
    using fill_entries_eq [of "min t ?D" "direct ino" n bl] dir l1 by (simp add: us1_def bl1_def m1_def)
  have g1: "file_grows B ino n us1 B ino2 m1"
    using direct_phase [OF assms(6) l1, of "ino\<lparr>inode_size := of_nat new_size\<rparr>" B] dir by (simp add: us1_def m1_def ino2_def)
  have bl: "bl = us1 @ bl1" by (simp add: us1_def bl1_def)
  have dsel: "direct (ino\<lparr>inode_size := of_nat new_size\<rparr>) = direct ino" by simp
  show ?thesis
  proof (cases "t > ?D")
    case False
    then have "m1 = t" using assms(6) by (auto simp: m1_def)
    then have "bl1 = []" using file_grows_blocks(2) [OF g1] assms(8) bl by simp
    moreover have "increase_size D new_size bl ino st = Inr (ino2, st)"
      using assms(4,5) f1 False by (simp add: increase_size_def ino2_def)
    ultimately show ?thesis using g1 assms(1) \<open>m1 = t\<close> bl
      by (intro exI [of _ B] exI [of _ ino2]) (simp add: ino2_def retI)
  next
    case True
    have m1: "?D \<le> m1" "m1 \<le> t" using True assms(6) by (auto simp: m1_def)
    have "room nblk H B ino n bl" using assms(2,9,10) by (auto simp: room_def inode_ok_def)
    then have room1: "room nblk H B ino2 m1 bl1" using room_grows [OF g1] bl by simp
    have cnt1: "t + index_count t = m1 + index_count m1 + length bl1" using file_grows_blocks(2) [OF g1] assms(8) bl by simp
    have "\<exists>B' ino'. ret (increase_size D new_size bl ino st) ino' B' H \<and> file_grows B ino2 m1 bl1 B' ino' t
        \<and> inode_size ino' = inode_size ino2 \<and> inode_type ino' = inode_type ino2"
      using increase_indirect_ret [OF assms(1,3) room1 m1 True assms(7) cnt1]
      by (simp only: increase_size_def Let_def assms(4,5) rbind_simps dsel f1 prod.case True if_True ino2_def [symmetric])
    then obtain B' ino' where r: "ret (increase_size D new_size bl ino st) ino' B' H" "file_grows B ino2 m1 bl1 B' ino' t"
      "inode_size ino' = inode_size ino2" "inode_type ino' = inode_type ino2" by blast
    then have "file_grows B ino n bl B' ino' t" using file_grows_trans [OF g1 r(2)] bl by simp
    with r show ?thesis by (auto simp: ino2_def)
  qed
qed

section \<open>Clearing\<close>

lemma collect_index_ret:
  assumes "rep st B H" "unat blk < nblk" "H (unat blk) = None" "card (dom H) < BLOCK_CACHE_SIZE"
  shows "ret (collect_index D blk k st) (take k (of_le_array 4 INODE_INDIRECT1_COUNT (B (unat blk)))) B H"
proof -
  have len: "length (B (unat blk)) = BLOCK_SZ" by (rule rep_length [OF assms(1,2)])
  have "ret (collect_index D blk k st) (take k (of_le_array 4 INODE_INDIRECT1_COUNT (B (unat blk))))
      (B(unat blk := put_bytes 0 (B (unat blk)) (B (unat blk)))) H"
    unfolding collect_index_def
    by (rule block_modify_pure [OF assms, of 0 BLOCK_SZ]) (use len in \<open>simp_all add: BLOCK_SZ_def\<close>)
  then show ?thesis using put_bytes_all [of "B (unat blk)" "B (unat blk)"] by simp
qed

lemma collect_full_ret:
  assumes "rep st B H" "\<And>e. e \<in> set es \<Longrightarrow> unat e < nblk \<and> H (unat e) = None" "card (dom H) < BLOCK_CACHE_SIZE"
  shows "ret (collect_full D es st) (concat (map (\<lambda>e. e # of_le_array 4 INODE_INDIRECT1_COUNT (B (unat e))) es)) B H"
  using assms
proof (induction es arbitrary: st)
  case (Cons e es)
  have "ret (collect_index D e INODE_INDIRECT1_COUNT st) (of_le_array 4 INODE_INDIRECT1_COUNT (B (unat e))) B H"
    using collect_index_ret [OF Cons.prems(1) _ _ Cons.prems(3), of e INODE_INDIRECT1_COUNT] Cons.prems(2) by simp
  then show ?case
    unfolding collect_full.simps
  proof (rule ret_bind)
    fix st1 assume "rep st1 B H"
    then have "ret (collect_full D es st1) (concat (map (\<lambda>e. e # of_le_array 4 INODE_INDIRECT1_COUNT (B (unat e))) es)) B H"
      using Cons.prems(2,3) by (intro Cons.IH) simp_all
    then show "ret ((\<lambda>(v, st1). rbind (collect_full D es st1) (\<lambda>(v', st2). Inr (e # v @ v', st2)))
        (of_le_array 4 INODE_INDIRECT1_COUNT (B (unat e)), st1))
      (concat (map (\<lambda>e. e # of_le_array 4 INODE_INDIRECT1_COUNT (B (unat e))) (e # es))) B H"
      by simp (erule ret_bind, simp add: retI)
  qed
qed (simp add: retI)

text \<open>The second level of \<^verbatim>\<open>clear_size\<close>.\<close>

lemma collect_indirect2_ret:
  assumes "rep st B H" "card (dom H) + 1 < BLOCK_CACHE_SIZE" "unat i2 < nblk" "H (unat i2) = None"
    and "a \<le> INODE_INDIRECT1_COUNT" "b > 0 \<Longrightarrow> a < INODE_INDIRECT1_COUNT"
    and "\<And>j. j < (if b = 0 then a else Suc a) \<Longrightarrow>
      unat (index_entry B i2 j) < nblk \<and> H (unat (index_entry B i2 j)) = None \<and> unat (index_entry B i2 j) \<noteq> unat i2"
  shows "ret (block_modify D (unat i2) 0 BLOCK_SZ (\<lambda>bs st.
        let ind2 = of_le_array 4 INODE_INDIRECT1_COUNT bs in
        rbind (collect_full D (take a ind2) st) (\<lambda>(v2, st').
        if b > 0 then
          rbind (vec_index ind2 a) (\<lambda>e.
          rbind (collect_index D e b st') (\<lambda>(v3, st''). Inr ((v2 @ e # v3, bs), st'')))
        else Inr ((v2, bs), st'))) st)
     (concat (map (\<lambda>i. index_entry B i2 i # index_array B (index_entry B i2 i)) [0..<a])
        @ (if b > 0 then index_entry B i2 a # take b (index_array B (index_entry B i2 a)) else [])) B H"
proof -
  let ?I = INODE_INDIRECT1_COUNT
  let ?full = "concat (map (\<lambda>i. index_entry B i2 i # index_array B (index_entry B i2 i)) [0..<a])"
  let ?v = "?full @ (if b > 0 then index_entry B i2 a # take b (index_array B (index_entry B i2 a)) else [])"
  have len: "length (B (unat i2)) = BLOCK_SZ" by (rule rep_length [OF assms(1,3)])
  have card: "card (dom H) < BLOCK_CACHE_SIZE" using assms(2) by simp
  have tk: "take a (index_array B i2) = map (index_entry B i2) [0..<a]"
    using assms(5) by (intro nth_equalityI) (auto simp: nth_index_array)
  let ?f = "\<lambda>bs st. let ind2 = of_le_array 4 ?I bs in
        rbind (collect_full D (take a ind2) st) (\<lambda>(v2, st').
        if b > 0 then
          rbind (vec_index ind2 a) (\<lambda>e.
          rbind (collect_index D e b st') (\<lambda>(v3, st''). Inr ((v2 @ e # v3, bs), st'')))
        else Inr ((v2, bs), st'))"
  have "ret (block_modify D (unat i2) 0 BLOCK_SZ ?f st) ?v (B(unat i2 := put_bytes 0 (B (unat i2)) (B (unat i2)))) H"
  proof (rule block_modify_ret [OF assms(1,3,4) card])
    fix c st1 assume r: "rep st1 B (H(unat i2 \<mapsto> c))"
    have card1: "card (dom (H(unat i2 \<mapsto> c))) < BLOCK_CACHE_SIZE" using assms(2) rep_finite [OF assms(1)] by (simp add: card_insert_if)
    have "ret (collect_full D (take a (index_array B i2)) st1) (concat (map (\<lambda>e. e # index_array B e) (take a (index_array B i2)))) B (H(unat i2 \<mapsto> c))"
      unfolding index_array_def
      by (rule collect_full_ret [OF r _ card1]) (use assms(7) tk in \<open>auto simp: index_array_def\<close>)
    then have full: "ret (collect_full D (take a (index_array B i2)) st1) ?full B (H(unat i2 \<mapsto> c))" by (simp add: tk comp_def)
    obtain st2 where st2: "collect_full D (take a (index_array B i2)) st1 = Inr (?full, st2)" "rep st2 B (H(unat i2 \<mapsto> c))"
      by (rule retE [OF full])
    have arr: "take BLOCK_SZ (drop 0 (B (unat i2))) = B (unat i2)" "of_le_array 4 ?I (B (unat i2)) = index_array B i2"
      using len by (simp_all add: index_array_def)
    show "ret (?f (take BLOCK_SZ (drop 0 (B (unat i2)))) st1) (?v, B (unat i2)) B (H(unat i2 \<mapsto> c))"
    proof (cases "b = 0")
      case True
      then show ?thesis unfolding Let_def arr using st2 by (simp add: retI)
    next
      case False
      let ?e = "index_entry B i2 a"
      have "ret (collect_index D ?e b st2) (take b (index_array B ?e)) B (H(unat i2 \<mapsto> c))"
        unfolding index_array_def by (rule collect_index_ret [OF st2(2) _ _ card1]) (use assms(7) [of a] False in auto)
      then obtain st3 where st3: "collect_index D ?e b st2 = Inr (take b (index_array B ?e), st3)" "rep st3 B (H(unat i2 \<mapsto> c))"
        by (rule retE)
      have "vec_index (index_array B i2) a = Inr ?e" using assms(6) False by (simp add: nth_index_array)
      then show ?thesis unfolding Let_def arr using st2(1) st3 False by (simp add: retI)
    qed
  qed (use len in \<open>simp_all add: BLOCK_SZ_def\<close>)
  then show ?thesis using put_bytes_all [of "B (unat i2)" "B (unat i2)"] by simp
qed

lemma clear_size_ret:
  assumes "rep st B H" "inode_ok nblk B H ino n" "card (dom H) + 1 < BLOCK_CACHE_SIZE" "data_blocks ino = Inr n"
  shows "\<exists>v ino'. ret (clear_size D ino st) (v, ino') B H \<and> inode_size ino' = 0 \<and> inode_type ino' = inode_type ino
    \<and> length (direct ino') = INODE_DIRECT_COUNT
    \<and> mset (map unat v) = mset (data_list B ino n @ idx_list B ino n)"
proof -
  let ?D = INODE_DIRECT_COUNT and ?I = INODE_INDIRECT1_COUNT
  have dir: "length (direct ino) = ?D" and n: "n \<le> INDIRECT2_BOUND" and card: "card (dom H) < BLOCK_CACHE_SIZE"
    and dis: "distinct (idx_list B ino n)" and ok: "\<And>b. b \<in> set (idx_list B ino n) \<Longrightarrow> b < nblk \<and> H b = None"
    using assms(2) by (auto simp: inode_ok_def)
  show ?thesis
  proof (cases "n > ?D")
    case False
    then show ?thesis using assms(1,4) dir
      by (intro exI [of _ "take n (direct ino)"] exI [of _ "ino\<lparr>inode_size := 0, direct := replicate n 0 @ drop n (direct ino)\<rparr>"])
         (auto simp: clear_size_def Let_def data_list_zero idx_list_def layout_consts min_def intro!: retI)
  next
    case True
    have i1: "unat (indirect1 ino) < nblk" "H (unat (indirect1 ino)) = None" using ok True by (auto simp: idx_list_def)
    define ino2 where "ino2 = ino\<lparr>inode_size := 0, direct := replicate ?D 0 @ drop ?D (direct ino), indirect1 := 0\<rparr>"
    have ino2: "inode_size ino2 = 0" "inode_type ino2 = inode_type ino" "length (direct ino2) = ?D" "indirect2 ino2 = indirect2 ino"
      using dir by (simp_all add: ino2_def)
    let ?v1 = "direct ino @ indirect1 ino # take (min (n - ?D) ?I) (index_array B (indirect1 ino))"
    obtain st1 where st1: "collect_index D (indirect1 ino) (min (n - ?D) ?I) st = Inr (take (min (n - ?D) ?I) (index_array B (indirect1 ino)), st1)"
      "rep st1 B H"
      using collect_index_ret [OF assms(1) i1 card] unfolding index_array_def by (auto elim: retE)
    show ?thesis
    proof (cases "n - ?D > ?I")
      case False
      then have le: "n \<le> INDIRECT1_BOUND" by (simp add: layout_consts)
      have "clear_size D ino st = Inr ((?v1, ino2), st1)"
        using assms(4) True False st1(1) dir by (simp add: clear_size_def Let_def ino2_def min_def)
      then show ?thesis using st1(2) ino2 True le False dir
        by (intro exI [of _ ?v1] exI [of _ ino2]) (simp add: data_list_one idx_list_one retI min_def)
    next
      case big: True
      let ?n2 = "n - INDIRECT1_BOUND"
      let ?v2 = "concat (map (\<lambda>i. index_entry B (indirect2 ino) i # index_array B (index_entry B (indirect2 ino) i)) [0..<?n2 div ?I])
        @ (if ?n2 mod ?I > 0 then index_entry B (indirect2 ino) (?n2 div ?I) # take (?n2 mod ?I) (index_array B (index_entry B (indirect2 ino) (?n2 div ?I))) else [])"
      have le: "INDIRECT1_BOUND < n" "n - ?D - ?I = ?n2" "?n2 \<le> INODE_INDIRECT2_COUNT"
        using big n by (simp_all add: layout_consts)
      have lt: "?n2 div ?I < ?I" if "?n2 mod ?I > 0"
      proof -
        have "?n2 \<noteq> ?I * ?I" using that by (metis mod_mult_self2_is_0 less_irrefl)
        then have "?n2 < ?I * ?I" using le(3) by (simp add: layout_consts)
        then show ?thesis by (rule less_mult_imp_div_less)
      qed
      have "?n2 div ?I \<le> ?I" using le(3) by (simp add: layout_consts)
      note idx = idx_list_two [OF le(1), of B ino]
      have i2: "unat (indirect2 ino) < nblk" "H (unat (indirect2 ino)) = None" using ok idx by auto
      obtain st2 where st2: "block_modify D (unat (indirect2 ino)) 0 BLOCK_SZ (\<lambda>bs st.
          let ind2 = of_le_array 4 ?I bs in
          rbind (collect_full D (take (?n2 div ?I) ind2) st) (\<lambda>(v2, st').
          if ?n2 mod ?I > 0 then
            rbind (vec_index ind2 (?n2 div ?I)) (\<lambda>e.
            rbind (collect_index D e (?n2 mod ?I) st') (\<lambda>(v3, st''). Inr ((v2 @ e # v3, bs), st'')))
          else Inr ((v2, bs), st'))) st1 = Inr (?v2, st2)" "rep st2 B H"
      proof (rule retE [OF collect_indirect2_ret [OF st1(2) assms(3) i2, of "?n2 div ?I" "?n2 mod ?I"]])
        fix j assume "j < (if ?n2 mod ?I = 0 then ?n2 div ?I else Suc (?n2 div ?I))"
        then have mem: "unat (index_entry B (indirect2 ino) j) \<in>
            set (map (\<lambda>j. unat (index_entry B (indirect2 ino) j)) [0..<if ?n2 mod ?I = 0 then ?n2 div ?I else Suc (?n2 div ?I)])"
          unfolding set_map by (intro imageI) simp
        then have "unat (index_entry B (indirect2 ino) j) \<in> set (idx_list B ino n)" unfolding idx by simp
        moreover have "unat (indirect2 ino) \<notin>
            set (map (\<lambda>j. unat (index_entry B (indirect2 ino) j)) [0..<if ?n2 mod ?I = 0 then ?n2 div ?I else Suc (?n2 div ?I)])"
          using dis unfolding idx by simp
        ultimately show "unat (index_entry B (indirect2 ino) j) < nblk \<and> H (unat (index_entry B (indirect2 ino) j)) = None
            \<and> unat (index_entry B (indirect2 ino) j) \<noteq> unat (indirect2 ino)"
          using ok mem by metis
      qed (use \<open>?n2 div ?I \<le> ?I\<close> lt in auto)
      let ?v = "?v1 @ indirect2 ino # ?v2" and ?ino = "ino2\<lparr>indirect2 := 0\<rparr>"
      have "clear_size D ino st = Inr ((?v, ?ino), st2)"
        using assms(4) True big st1(1) st2(1) dir le(2,3) by (simp add: clear_size_def ino2_def min_def rassert_def) (simp add: Let_def)
      moreover have "mset (map unat ?v) = mset (data_list B ino n @ idx_list B ino n)"
        using two_level_blocks [OF le(1) dir, of B] big by simp
      ultimately show ?thesis using st2(2) ino2 by (intro exI [of _ ?v] exI [of _ ?ino]) (simp add: retI)
    qed
  qed
qed

end

section \<open>Properties\<close>

lemma total_blocks_eq:
  assumes "inode_total_blocks sz = Inr m"
  shows "data_blocks_of sz = Inr ((sz + BLOCK_SZ - 1) div BLOCK_SZ)"
    "m = (sz + BLOCK_SZ - 1) div BLOCK_SZ + index_count ((sz + BLOCK_SZ - 1) div BLOCK_SZ)"
proof -
  show *: "data_blocks_of sz = Inr ((sz + BLOCK_SZ - 1) div BLOCK_SZ)"
    using assms by (auto simp: inode_total_blocks_def data_blocks_of_def checked_u32_def split: if_splits)
  show "m = (sz + BLOCK_SZ - 1) div BLOCK_SZ + index_count ((sz + BLOCK_SZ - 1) div BLOCK_SZ)"
    using assms by (auto simp: inode_total_blocks_def * index_count_def Let_def split: if_splits)
qed

lemma blocks_num_needed_eq:
  fixes ino :: disk_inode and new_size :: nat
  defines "n \<equiv> (unat (inode_size ino) + BLOCK_SZ - 1) div BLOCK_SZ" and "t \<equiv> (new_size + BLOCK_SZ - 1) div BLOCK_SZ"
  assumes "blocks_num_needed new_size ino = Inr k" "new_size < 2 ^ 32"
  shows "data_blocks ino = Inr n" "data_blocks (ino\<lparr>inode_size := of_nat new_size\<rparr>) = Inr t" "n \<le> t"
    "t + index_count t = n + index_count n + k" "unat (inode_size ino) \<le> new_size"
proof -
  obtain x y where xy: "inode_total_blocks new_size = Inr x" "inode_total_blocks (unat (inode_size ino)) = Inr y" "k = x - y"
    "unat (inode_size ino) \<le> new_size"
    using assms(3) by (auto simp: blocks_num_needed_def rassert_def elim!: rbindE split: if_splits)
  note x = total_blocks_eq [OF xy(1), folded t_def] and y = total_blocks_eq [OF xy(2), folded n_def]
  show "data_blocks ino = Inr n" "data_blocks (ino\<lparr>inode_size := of_nat new_size\<rparr>) = Inr t" "unat (inode_size ino) \<le> new_size"
    using x(1) y(1) xy(4) assms(4) by (simp_all add: data_blocks_def unat_of_nat)
  show "n \<le> t" unfolding n_def t_def using xy(4) by (intro div_le_mono) simp
  from index_count_mono [OF this] show "t + index_count t = n + index_count n + k" using x(2) y(2) xy(3) \<open>n \<le> t\<close> by simp
qed

text \<open>
  C15. A file grows by exactly the blocks it is given and gives exactly its blocks back. If the number of new
  blocks is what \<^verbatim>\<open>blocks_num_needed\<close> computes for the new size and the blocks are unused blocks of the
  device, \<^verbatim>\<open>increase_size\<close> succeeds at every level of indirection: the file has the new size, starts with the
  bytes it had, its data and index blocks are again distinct blocks of the device, and only index blocks of the
  file have been written. A following \<^verbatim>\<open>clear_size\<close> writes nothing and returns every old and every new block
  once, data blocks and index blocks alike, and nothing else.
\<close>

theorem grow_then_clear:
  fixes ino :: disk_inode and new_size :: nat
  defines "n \<equiv> (unat (inode_size ino) + BLOCK_SZ - 1) div BLOCK_SZ" and "t \<equiv> (new_size + BLOCK_SZ - 1) div BLOCK_SZ"
  assumes "block_device D contents nblk dev_ok" "bc_rep contents nblk dev_ok st B H" "card (dom H) + 1 < BLOCK_CACHE_SIZE"
    and "inode_ok nblk B H ino n" "blocks_num_needed new_size ino = Inr (length bl)" "new_size \<le> INDIRECT2_BOUND * BLOCK_SZ"
    and "distinct (data_list B ino n @ idx_list B ino n @ map unat bl)" "\<forall>b \<in> set bl. unat b < nblk \<and> H (unat b) = None"
  shows "\<exists>ino' st1 B'. increase_size D new_size bl ino st = Inr (ino', st1) \<and> bc_rep contents nblk dev_ok st1 B' H
    \<and> inode_ok nblk B' H ino' t \<and> unat (inode_size ino') = new_size \<and> inode_type ino' = inode_type ino
    \<and> take (unat (inode_size ino)) (file_data B' ino') = file_data B ino
    \<and> (\<forall>b. b \<notin> set (idx_list B' ino' t) \<longrightarrow> B' b = B b)
    \<and> (\<exists>v ino0 st2. clear_size D ino' st1 = Inr ((v, ino0), st2) \<and> bc_rep contents nblk dev_ok st2 B' H \<and> inode_size ino0 = 0
        \<and> mset (map unat v) = mset (data_list B ino n @ idx_list B ino n) + mset (map unat bl))"
proof -
  have small: "new_size < 2 ^ 32" "t \<le> INDIRECT2_BOUND" using assms(8) by (auto simp: t_def layout_consts BLOCK_SZ_def)
  note needed = blocks_num_needed_eq [OF assms(7) small(1), folded n_def t_def]
  from block_device.increase_size_ret [OF assms(3,4,6,5) needed(1-3) small(2) needed(4) assms(9,10)] obtain B' ino' st1 where
    inc: "increase_size D new_size bl ino st = Inr (ino', st1)" "bc_rep contents nblk dev_ok st1 B' H"
      "file_grows B ino n bl B' ino' t" "inode_size ino' = of_nat new_size" "inode_type ino' = inode_type ino"
    by (auto simp: bc_ret_def)
  have ok: "inode_ok nblk B' H ino' t" by (rule file_grows_inode_ok [OF inc(3) assms(6) small(2) assms(9,10)])
  have sz: "unat (inode_size ino') = new_size" using inc(4) small(1) by (simp add: unat_of_nat)
  have "data_blocks ino' = Inr t" using needed(2) inc(4) by (simp add: data_blocks_def)
  from block_device.clear_size_ret [OF assms(3) inc(2) ok assms(5) this] obtain v ino0 st2 where
    clr: "clear_size D ino' st1 = Inr ((v, ino0), st2)" "bc_rep contents nblk dev_ok st2 B' H" "inode_size ino0 = 0"
      "mset (map unat v) = mset (data_list B' ino' t @ idx_list B' ino' t)"
    by (auto simp: bc_ret_def)
  obtain nd where nd: "blocks_data B' ino' t = blocks_data B ino n @ concat (map B nd)" using file_grows_data [OF inc(3) assms(9)] by blast
  have "unat (inode_size ino) \<le> length (blocks_data B ino n)"
    unfolding block_device.length_blocks_data [OF assms(3,4,6)] by (simp add: n_def BLOCK_SZ_def)
  then have "take (unat (inode_size ino)) (file_data B' ino') = file_data B ino"
    using needed(5) unfolding file_data_def sz t_def [symmetric] n_def [symmetric] nd by (simp add: min_def)
  moreover have "\<forall>b. b \<notin> set (idx_list B' ino' t) \<longrightarrow> B' b = B b" using inc(3) by (simp add: file_grows_def)
  ultimately show ?thesis using inc(1,2,5) ok sz clr file_grows_blocks(1) [OF inc(3)] by auto
qed

theorem grow_then_clear_witness:
  "\<exists>ino' st1 v ino0 st2. increase_size block_file_ops 1100 [4] demo_inode (cache_manager_new (replicate 2560 0)) = Inr (ino', st1)
     \<and> clear_size block_file_ops ino' st1 = Inr ((v, ino0), st2) \<and> mset (map unat v) = {#2, 3, 4#}"
proof -
  have dev: "block_device block_file_ops file_block 5 (\<lambda>f. 5 * BLOCK_SZ \<le> length f)" by (rule bf.block_device_axioms)
  have rep: "bc_rep file_block 5 (\<lambda>f. 5 * BLOCK_SZ \<le> length f) (cache_manager_new (replicate 2560 0))
      (file_block (replicate 2560 0)) Map.empty"
    by (rule bc_rep_new) (simp add: BLOCK_SZ_def)
  have n: "(unat (inode_size demo_inode) + BLOCK_SZ - 1) div BLOCK_SZ = 2" by (simp add: demo_inode_def BLOCK_SZ_def)
  have lists: "data_list B demo_inode 2 = [2, 3]" "idx_list B demo_inode 2 = []" for B
    by (simp_all add: demo_inode_def data_list_def idx_list_def blk_id_def layout_consts upt_conv_Cons)
  have ok: "inode_ok 5 (file_block (replicate 2560 0)) Map.empty demo_inode ((unat (inode_size demo_inode) + BLOCK_SZ - 1) div BLOCK_SZ)"
    unfolding n by (simp add: inode_ok_def lists) (simp add: demo_inode_def layout_consts BLOCK_CACHE_SIZE_def)
  have needed: "blocks_num_needed 1100 demo_inode = Inr (length [4 :: u32])"
    by (simp add: blocks_num_needed_def rassert_def inode_total_blocks_def data_blocks_of_def checked_u32_def demo_inode_def
        layout_consts BLOCK_SZ_def)
  have dis: "distinct (data_list (file_block (replicate 2560 0)) demo_inode ((unat (inode_size demo_inode) + BLOCK_SZ - 1) div BLOCK_SZ)
      @ idx_list (file_block (replicate 2560 0)) demo_inode ((unat (inode_size demo_inode) + BLOCK_SZ - 1) div BLOCK_SZ) @ map unat [4 :: u32])"
    unfolding n lists by simp
  from grow_then_clear [OF dev rep _ ok needed _ dis] show ?thesis
    unfolding n lists by (auto simp: BLOCK_CACHE_SIZE_def layout_consts BLOCK_SZ_def)
qed

end
