(* ===== verification/Efs_Inv.thy ===== *)
theory Efs_Inv
  imports File_Ops Inode_Size
begin

text \<open>
  The file system as a whole: the invariant that ties the two bitmaps to the inodes and the blocks of the
  files, the files it stands for, and the allocation of data blocks under it.
\<close>

section \<open>Files on the disk\<close>

text \<open>The place of inode \<open>i\<close>, and the inode that is stored there.\<close>

definition inode_place :: "efs \<Rightarrow> nat \<Rightarrow> vfs_inode" where
  "inode_place fs i = vfs_inode_new (inode_area_start_block fs + i div 4) (i mod 4 * sizeof_disk_inode)"

definition stored_inode :: "efs \<Rightarrow> (nat \<Rightarrow> u8 list) \<Rightarrow> nat \<Rightarrow> disk_inode res" where
  "stored_inode fs B i = disk_inode_of (take sizeof_disk_inode
     (drop (vi_block_offset (inode_place fs i)) (B (vi_block_id (inode_place fs i)))))"

definition own_blocks :: "(nat \<Rightarrow> u8 list) \<Rightarrow> disk_inode \<Rightarrow> nat list" where
  "own_blocks B ino = data_list B ino (inode_blocks ino) @ idx_list B ino (inode_blocks ino)"

text \<open>The areas follow one another on the device, and the data bitmap covers the \<open>da\<close> blocks of the data area.\<close>

definition efs_fits :: "nat \<Rightarrow> efs \<Rightarrow> nat \<Rightarrow> bool" where
  "efs_fits nblk fs da \<longleftrightarrow> 0 < start_block_id (inode_bitmap fs)
     \<and> inode_area_start_block fs = start_block_id (inode_bitmap fs) + blocks (inode_bitmap fs)
     \<and> start_block_id (data_bitmap fs) = inode_area_start_block fs + blocks (inode_bitmap fs) * 1024
     \<and> data_area_start_block fs = start_block_id (data_bitmap fs) + blocks (data_bitmap fs)
     \<and> data_area_start_block fs + da \<le> nblk \<and> data_area_start_block fs + da < 2 ^ 32
     \<and> da \<le> bitmap_maximum (data_bitmap fs) \<and> bitmap_maximum (inode_bitmap fs) \<le> 2 ^ 32"

text \<open>
  Inode \<open>i\<close> is stored at its place; its blocks are distinct blocks of the data area, and the last block is zero
  behind the end of the file.
\<close>

definition stored_file :: "efs \<Rightarrow> nat \<Rightarrow> (nat \<Rightarrow> u8 list) \<Rightarrow> nat \<Rightarrow> disk_inode \<Rightarrow> bool" where
  "stored_file fs da B i ino \<longleftrightarrow> i < bitmap_maximum (inode_bitmap fs) \<and> stored_inode fs B i = Inr ino
     \<and> length (direct ino) = INODE_DIRECT_COUNT \<and> inode_blocks ino \<le> INDIRECT2_BOUND
     \<and> distinct (own_blocks B ino)
     \<and> set (own_blocks B ino) \<subseteq> {data_area_start_block fs..<data_area_start_block fs + da}
     \<and> (\<exists>z. blocks_data B ino (inode_blocks ino) = file_data B ino @ replicate z 0)"

text \<open>
  The inode bitmap marks the inodes in use, the data bitmap exactly the blocks of their files; no two files share
  a block, and a block of no file is zero.
\<close>

definition efs_inv :: "nat \<Rightarrow> efs \<Rightarrow> nat \<Rightarrow> (nat \<Rightarrow> u8 list) \<Rightarrow> (nat \<rightharpoonup> disk_inode) \<Rightarrow> bool" where
  "efs_inv nblk fs da B inos \<longleftrightarrow> efs_fits nblk fs da
     \<and> (\<forall>i ino. inos i = Some ino \<longrightarrow> stored_file fs da B i ino)
     \<and> (\<forall>i < bitmap_maximum (inode_bitmap fs). bitmap_bit (inode_bitmap fs) B i \<longleftrightarrow> i \<in> dom inos)
     \<and> (\<forall>i j x y. inos i = Some x \<longrightarrow> inos j = Some y \<longrightarrow> i \<noteq> j \<longrightarrow> set (own_blocks B x) \<inter> set (own_blocks B y) = {})
     \<and> (\<forall>b < bitmap_maximum (data_bitmap fs). bitmap_bit (data_bitmap fs) B b \<longleftrightarrow>
          (\<exists>i ino. inos i = Some ino \<and> data_area_start_block fs + b \<in> set (own_blocks B ino)))
     \<and> (\<forall>b < da. \<not> bitmap_bit (data_bitmap fs) B b \<longrightarrow> B (data_area_start_block fs + b) = replicate BLOCK_SZ 0)"

text \<open>The files that the disk stands for: the type and the bytes of every inode in use.\<close>

type_synonym files = "nat \<rightharpoonup> disk_inode_type \<times> u8 list"

definition efs_files :: "(nat \<Rightarrow> u8 list) \<Rightarrow> (nat \<rightharpoonup> disk_inode) \<Rightarrow> files" where
  "efs_files B inos i = map_option (\<lambda>ino. (inode_type ino, file_data B ino)) (inos i)"

text \<open>The blocks a file of a given length needs, and those that all files use.\<close>

definition blocks_of_length :: "nat \<Rightarrow> nat" where
  "blocks_of_length l = (l + BLOCK_SZ - 1) div BLOCK_SZ + index_count ((l + BLOCK_SZ - 1) div BLOCK_SZ)"

definition used_blocks :: "files \<Rightarrow> nat" where
  "used_blocks F = (\<Sum>i \<in> dom F. blocks_of_length (length (snd (the (F i)))))"

section \<open>What a change of the disk leaves alone\<close>

lemma own_blocks_cong:
  assumes "\<And>b. b \<in> set (own_blocks B ino) \<Longrightarrow> B' b = B b" "inode_blocks ino \<le> INDIRECT2_BOUND"
  shows "own_blocks B' ino = own_blocks B ino" "file_data B' ino = file_data B ino"
    "blocks_data B' ino (inode_blocks ino) = blocks_data B ino (inode_blocks ino)"
proof -
  have idx: "B' b = B b" if "b \<in> set (idx_list B ino (inode_blocks ino))" for b using that assms(1) by (simp add: own_blocks_def)
  have dl: "data_list B' ino (inode_blocks ino) = data_list B ino (inode_blocks ino)" by (rule data_list_cong [OF idx assms(2)])
  show "own_blocks B' ino = own_blocks B ino" by (simp add: own_blocks_def dl idx_list_cong [OF idx])
  show bd: "blocks_data B' ino (inode_blocks ino) = blocks_data B ino (inode_blocks ino)"
    unfolding blocks_data_def dl using assms(1) by (intro arg_cong [where f = concat] map_cong) (auto simp: own_blocks_def)
  then show "file_data B' ino = file_data B ino" by (simp add: file_data_def inode_blocks_def)
qed

lemma bitmap_bit_cong: "B' (b div BLOCK_BITS + start_block_id bm) = B (b div BLOCK_BITS + start_block_id bm) \<Longrightarrow>
    bitmap_bit bm B' b = bitmap_bit bm B b"
  by (simp add: bitmap_bit_def)

lemma bitmap_block_lt: "b < bitmap_maximum bm \<Longrightarrow> b div BLOCK_BITS < blocks bm"
  by (simp add: bitmap_maximum_def less_mult_imp_div_less)

lemma inode_place_sel [simp]:
  "vi_block_id (inode_place fs i) = inode_area_start_block fs + i div 4"
  "vi_block_offset (inode_place fs i) = i mod 4 * 128"
  by (simp_all add: inode_place_def vfs_inode_new_def sizeof_disk_inode_def)

text \<open>An inode that is written leaves the other inodes of its block as they were.\<close>

lemma stored_inode_put:
  assumes "length (B (inode_area_start_block fs + i div 4)) = BLOCK_SZ" "length (direct ino) = INODE_DIRECT_COUNT"
    and "length old = 128"
    and "B' (inode_area_start_block fs + i div 4) =
      put_bytes (i mod 4 * 128) (disk_inode_bytes ino old) (B (inode_area_start_block fs + i div 4))"
  shows "stored_inode fs B' i = Inr ino"
    and "j \<noteq> i \<Longrightarrow> j div 4 = i div 4 \<Longrightarrow> stored_inode fs B' j = stored_inode fs B j"
proof -
  let ?bs = "disk_inode_bytes ino old" and ?b = "B (inode_area_start_block fs + i div 4)"
  have l: "length ?bs = 128" using assms(2,3) by (intro length_disk_inode_bytes) (simp_all add: INODE_DIRECT_COUNT_def)
  have i: "i mod 4 * 128 + 128 \<le> length ?b" using assms(1) mod_less_divisor [of 4 i] by (simp add: BLOCK_SZ_def)
  then have "take 128 (drop (i mod 4 * 128) (put_bytes (i mod 4 * 128) ?bs ?b)) = ?bs"
    using l by (simp add: put_bytes_def)
  then show "stored_inode fs B' i = Inr ino"
    using assms(2-4) disk_inode_roundtrip [of ino old] by (simp add: stored_inode_def sizeof_disk_inode_def INODE_DIRECT_COUNT_def)
  assume j: "j \<noteq> i" "j div 4 = i div 4"
  then have ne: "j mod 4 \<noteq> i mod 4" by (metis div_mult_mod_eq)
  have "take 128 (drop (j mod 4 * 128) (put_bytes (i mod 4 * 128) ?bs ?b)) = take 128 (drop (j mod 4 * 128) ?b)"
  proof (rule nth_equalityI)
    fix k assume "k < length (take 128 (drop (j mod 4 * 128) (put_bytes (i mod 4 * 128) ?bs ?b)))"
    then have k: "k < 128" "j mod 4 * 128 + k < length ?b" using i l by auto
    then show "take 128 (drop (j mod 4 * 128) (put_bytes (i mod 4 * 128) ?bs ?b)) ! k = take 128 (drop (j mod 4 * 128) ?b) ! k"
      using ne i l by (simp add: nth_put_bytes) (linarith)
  qed (use i l in simp)
  then show "stored_inode fs B' j = stored_inode fs B j"
    using assms(4) j(2) by (simp add: stored_inode_def sizeof_disk_inode_def)
qed

lemma stored_inode_cong:
  "B' (inode_area_start_block fs + i div 4) = B (inode_area_start_block fs + i div 4) \<Longrightarrow> stored_inode fs B' i = stored_inode fs B i"
  by (simp add: stored_inode_def)

lemma efs_invD:
  assumes "efs_inv nblk fs da B inos"
  shows "efs_fits nblk fs da" "inos i = Some ino \<Longrightarrow> stored_file fs da B i ino"
    "i < bitmap_maximum (inode_bitmap fs) \<Longrightarrow> bitmap_bit (inode_bitmap fs) B i \<longleftrightarrow> i \<in> dom inos"
    "inos i = Some x \<Longrightarrow> inos j = Some y \<Longrightarrow> i \<noteq> j \<Longrightarrow> set (own_blocks B x) \<inter> set (own_blocks B y) = {}"
    "b < bitmap_maximum (data_bitmap fs) \<Longrightarrow> bitmap_bit (data_bitmap fs) B b \<longleftrightarrow>
       (\<exists>i ino. inos i = Some ino \<and> data_area_start_block fs + b \<in> set (own_blocks B ino))"
    "b < da \<Longrightarrow> \<not> bitmap_bit (data_bitmap fs) B b \<Longrightarrow> B (data_area_start_block fs + b) = replicate BLOCK_SZ 0"
  using assms unfolding efs_inv_def by blast+

lemma own_block_marked:
  assumes "efs_inv nblk fs da B inos" "inos i = Some ino" "b \<in> set (own_blocks B ino)"
  shows "data_area_start_block fs \<le> b" "b < data_area_start_block fs + da"
    "bitmap_bit (data_bitmap fs) B (b - data_area_start_block fs)"
proof -
  show b: "data_area_start_block fs \<le> b" "b < data_area_start_block fs + da"
    using efs_invD(2) [OF assms(1,2)] assms(3) by (auto simp: stored_file_def)
  have "da \<le> bitmap_maximum (data_bitmap fs)" using efs_invD(1) [OF assms(1)] by (simp add: efs_fits_def)
  then have "b - data_area_start_block fs < bitmap_maximum (data_bitmap fs)" using b by simp
  from efs_invD(5) [OF assms(1) this] assms(2,3) b(1) show "bitmap_bit (data_bitmap fs) B (b - data_area_start_block fs)"
    by (metis le_add_diff_inverse)
qed

text \<open>The order of the areas.\<close>

lemma efs_fits_order:
  assumes "efs_fits nblk fs da"
  shows "b < bitmap_maximum (inode_bitmap fs) \<Longrightarrow> b div BLOCK_BITS + start_block_id (inode_bitmap fs) < inode_area_start_block fs"
    "i < bitmap_maximum (inode_bitmap fs) \<Longrightarrow> inode_area_start_block fs + i div 4 < start_block_id (data_bitmap fs)"
    "b < bitmap_maximum (data_bitmap fs) \<Longrightarrow> b div BLOCK_BITS + start_block_id (data_bitmap fs) < data_area_start_block fs"
    "inode_area_start_block fs \<le> start_block_id (data_bitmap fs)" "start_block_id (data_bitmap fs) \<le> data_area_start_block fs"
    "data_area_start_block fs \<le> nblk" "start_block_id (inode_bitmap fs) \<le> inode_area_start_block fs"
    "start_block_id (data_bitmap fs) < 2 ^ 32" "0 < start_block_id (inode_bitmap fs)"
proof -
  assume "i < bitmap_maximum (inode_bitmap fs)"
  then have "i div 4 < blocks (inode_bitmap fs) * 1024" by (simp add: bitmap_maximum_def BLOCK_BITS_eq)
  then show "inode_area_start_block fs + i div 4 < start_block_id (data_bitmap fs)" using assms by (simp add: efs_fits_def)
qed (use assms bitmap_block_lt in \<open>auto simp: efs_fits_def\<close>)

text \<open>
  A change of one file keeps the invariant: inode \<open>i\<close> becomes \<open>ino\<close>, the blocks and the inodes of the other
  files stay as they are, and the bitmaps follow.
\<close>

lemma efs_inv_update:
  assumes inv: "efs_inv nblk fs da B inos" and new: "stored_file fs da B' i ino"
    and other: "\<And>j y b. j \<noteq> i \<Longrightarrow> inos j = Some y \<Longrightarrow> b \<in> set (own_blocks B y) \<Longrightarrow> B' b = B b \<and> b \<notin> set (own_blocks B' ino)"
    and stored: "\<And>j y. j \<noteq> i \<Longrightarrow> inos j = Some y \<Longrightarrow> stored_inode fs B' j = stored_inode fs B j"
    and ibits: "\<And>j. j < bitmap_maximum (inode_bitmap fs) \<Longrightarrow> bitmap_bit (inode_bitmap fs) B' j \<longleftrightarrow> j = i \<or> bitmap_bit (inode_bitmap fs) B j"
    and dbits: "\<And>b. b < bitmap_maximum (data_bitmap fs) \<Longrightarrow> bitmap_bit (data_bitmap fs) B' b \<longleftrightarrow>
      data_area_start_block fs + b \<in> set (own_blocks B' ino)
      \<or> (\<exists>j y. j \<noteq> i \<and> inos j = Some y \<and> data_area_start_block fs + b \<in> set (own_blocks B y))"
    and zero: "\<And>b. b < da \<Longrightarrow> \<not> bitmap_bit (data_bitmap fs) B' b \<Longrightarrow> B' (data_area_start_block fs + b) = replicate BLOCK_SZ 0"
  shows "efs_inv nblk fs da B' (inos(i \<mapsto> ino))"
    and "efs_files B' (inos(i \<mapsto> ino)) = (efs_files B inos)(i \<mapsto> (inode_type ino, file_data B' ino))"
proof -
  have same: "own_blocks B' y = own_blocks B y" "file_data B' y = file_data B y"
    "blocks_data B' y (inode_blocks y) = blocks_data B y (inode_blocks y)" if "j \<noteq> i" "inos j = Some y" for j y
    using own_blocks_cong [of B y B'] other [OF that] efs_invD(2) [OF inv that(2)] by (auto simp: stored_file_def)
  have files: "stored_file fs da B' j y" if "(inos(i \<mapsto> ino)) j = Some y" for j y
  proof (cases "j = i")
    case False
    then have j: "inos j = Some y" using that by simp
    from efs_invD(2) [OF inv j] show ?thesis unfolding stored_file_def same [OF False j] stored [OF False j] by blast
  qed (use that new in simp)
  have disj: "set (own_blocks B' x) \<inter> set (own_blocks B' y) = {}"
    if "(inos(i \<mapsto> ino)) j = Some x" "(inos(i \<mapsto> ino)) k = Some y" "j \<noteq> k" for j k x y
    using that same(1) [of j x] same(1) [of k y] other [of j x] other [of k y] efs_invD(4) [OF inv, of j x k y]
    by (auto split: if_splits)
  have bits: "bitmap_bit (data_bitmap fs) B' b \<longleftrightarrow>
      (\<exists>j y. (inos(i \<mapsto> ino)) j = Some y \<and> data_area_start_block fs + b \<in> set (own_blocks B' y))"
    if "b < bitmap_maximum (data_bitmap fs)" for b
    unfolding dbits [OF that] using same(1) by (auto split: if_splits)
  show "efs_inv nblk fs da B' (inos(i \<mapsto> ino))"
    unfolding efs_inv_def
  proof (intro conjI allI impI)
    show "efs_fits nblk fs da" by (rule efs_invD(1) [OF inv])
    show "bitmap_bit (inode_bitmap fs) B' j \<longleftrightarrow> j \<in> dom (inos(i \<mapsto> ino))" if "j < bitmap_maximum (inode_bitmap fs)" for j
      using ibits [OF that] efs_invD(3) [OF inv that] by auto
  qed (use files disj bits zero in blast)+
  show "efs_files B' (inos(i \<mapsto> ino)) = (efs_files B inos)(i \<mapsto> (inode_type ino, file_data B' ino))"
  proof
    show "efs_files B' (inos(i \<mapsto> ino)) j = ((efs_files B inos)(i \<mapsto> (inode_type ino, file_data B' ino))) j" for j
      using same(2) [of j] by (cases "inos j") (auto simp: efs_files_def)
  qed
qed

section \<open>Counting blocks\<close>

lemma length_own_blocks: "length (own_blocks B ino) = blocks_of_length (unat (inode_size ino))"
  by (simp add: own_blocks_def length_idx_list blocks_of_length_def inode_blocks_def)

lemma blocks_of_length_mono: "l \<le> k \<Longrightarrow> blocks_of_length l \<le> blocks_of_length k"
  unfolding blocks_of_length_def by (intro add_mono index_count_mono div_le_mono) auto

lemma dom_efs_files [simp]: "dom (efs_files B inos) = dom inos"
  by (auto simp: efs_files_def)

lemma efs_inv_finite: "efs_inv nblk fs da B inos \<Longrightarrow> finite (dom inos)"
  by (rule finite_subset [of _ "{..<bitmap_maximum (inode_bitmap fs)}"]) (auto simp: efs_inv_def stored_file_def)

lemma used_blocks_upd:
  assumes "finite (dom F)"
  shows "used_blocks (F(i \<mapsto> x)) + (case F i of Some y \<Rightarrow> blocks_of_length (length (snd y)) | None \<Rightarrow> 0)
    = used_blocks F + blocks_of_length (length (snd x))"
proof -
  have "used_blocks (F(i \<mapsto> x)) = blocks_of_length (length (snd x))
      + (\<Sum>j \<in> dom F - {i}. blocks_of_length (length (snd (the (F j)))))"
    using assms by (auto simp: used_blocks_def sum.insert_remove intro!: sum.cong)
  moreover have "used_blocks F = (case F i of Some y \<Rightarrow> blocks_of_length (length (snd y)) | None \<Rightarrow> 0)
      + (\<Sum>j \<in> dom F - {i}. blocks_of_length (length (snd (the (F j)))))"
  proof (cases "F i")
    case None
    then have "dom F - {i} = dom F" by auto
    with None show ?thesis by (simp add: used_blocks_def)
  next
    case (Some y)
    then show ?thesis using sum.remove [OF assms, of i "\<lambda>j. blocks_of_length (length (snd (the (F j))))"]
      by (simp add: used_blocks_def domI)
  qed
  ultimately show ?thesis by simp
qed

context block_device
begin

lemma stored_file_ok:
  assumes "efs_fits nblk fs da" "stored_file fs da B i ino" "\<And>b. data_area_start_block fs \<le> b \<Longrightarrow> H b = None"
    and "card (dom H) < BLOCK_CACHE_SIZE"
  shows "inode_ok nblk B H ino (inode_blocks ino)"
  using assms by (auto simp: inode_ok_def stored_file_def own_blocks_def efs_fits_def)

lemma stored_file_length:
  assumes "rep st B H" "efs_fits nblk fs da" "stored_file fs da B i ino"
  shows "length (file_data B ino) = unat (inode_size ino)"
proof -
  have "inode_ok nblk B Map.empty ino (inode_blocks ino)"
    by (rule stored_file_ok [OF assms(2,3)]) (simp_all add: BLOCK_CACHE_SIZE_def)
  then have "length (B (unat (blk_id B ino k))) = BLOCK_SZ" if "k < inode_blocks ino" for k
    using rep_length [OF assms(1)] that by (auto simp: inode_ok_def data_list_def)
  then have "length (blocks_data B ino (inode_blocks ino)) = inode_blocks ino * BLOCK_SZ"
    unfolding blocks_data_chunks by (rule length_chunks)
  then show ?thesis by (simp add: file_data_def inode_blocks_def BLOCK_SZ_def)
qed

text \<open>The bits that are set count the blocks of the files: no block is lost.\<close>

lemma used_blocks_count:
  assumes "rep st B H" "efs_inv nblk fs da B inos"
  shows "card {b. b < da \<and> bitmap_bit (data_bitmap fs) B b} = used_blocks (efs_files B inos)"
proof -
  let ?ds = "data_area_start_block fs" and ?own = "\<lambda>i. set (own_blocks B (the (inos i)))"
  note inv = efs_invD [OF assms(2)]
  have da: "da \<le> bitmap_maximum (data_bitmap fs)" using inv(1) by (simp add: efs_fits_def)
  have area: "x \<in> {?ds..<?ds + da}" if "i \<in> dom inos" "x \<in> ?own i" for i x
  proof -
    from \<open>i \<in> dom inos\<close> obtain y where "inos i = Some y" by blast
    with inv(2) [of i y] that(2) show ?thesis unfolding stored_file_def by (metis option.sel subsetD)
  qed
  have "{b. b < da \<and> bitmap_bit (data_bitmap fs) B b} = (\<lambda>x. x - ?ds) ` (\<Union>i \<in> dom inos. ?own i)"
  proof (intro set_eqI iffI)
    fix b assume b: "b \<in> {b. b < da \<and> bitmap_bit (data_bitmap fs) B b}"
    with da inv(5) [of b] obtain i ino where "inos i = Some ino" "?ds + b \<in> set (own_blocks B ino)" by auto
    then show "b \<in> (\<lambda>x. x - ?ds) ` (\<Union>i \<in> dom inos. ?own i)" by (intro image_eqI [of _ _ "?ds + b"] UN_I [of i]) auto
  next
    fix b assume "b \<in> (\<lambda>x. x - ?ds) ` (\<Union>i \<in> dom inos. ?own i)"
    then obtain i x where x: "i \<in> dom inos" "x \<in> ?own i" "b = x - ?ds" by blast
    then have "\<exists>i ino. inos i = Some ino \<and> x \<in> set (own_blocks B ino)" by (metis domD option.sel)
    with x area [OF x(1,2)] da inv(5) [of b] show "b \<in> {b. b < da \<and> bitmap_bit (data_bitmap fs) B b}" by auto
  qed
  moreover have "inj_on (\<lambda>x. x - ?ds) (\<Union>i \<in> dom inos. ?own i)"
  proof (rule inj_onI)
    fix x y assume xy: "x \<in> (\<Union>i \<in> dom inos. ?own i)" "y \<in> (\<Union>i \<in> dom inos. ?own i)" "x - ?ds = y - ?ds"
    then have "?ds \<le> x" "?ds \<le> y" using area by (meson UN_E atLeastLessThan_iff)+
    with xy(3) show "x = y" by simp
  qed
  ultimately have "card {b. b < da \<and> bitmap_bit (data_bitmap fs) B b} = card (\<Union>i \<in> dom inos. ?own i)"
    by (simp add: card_image)
  also have "\<dots> = (\<Sum>i \<in> dom inos. card (?own i))"
  proof (rule card_UN_disjoint [OF efs_inv_finite [OF assms(2)]])
    show "\<forall>i \<in> dom inos. \<forall>j \<in> dom inos. i \<noteq> j \<longrightarrow> ?own i \<inter> ?own j = {}"
      using inv(4) by (metis domD option.sel)
  qed simp
  also have "\<dots> = used_blocks (efs_files B inos)"
    unfolding used_blocks_def dom_efs_files
  proof (rule sum.cong [OF refl])
    fix i assume "i \<in> dom inos"
    then obtain ino where i: "inos i = Some ino" by blast
    from inv(2) [OF i] have "distinct (own_blocks B ino)" by (simp add: stored_file_def)
    with i show "card (?own i) = blocks_of_length (length (snd (the (efs_files B inos i))))"
      using stored_file_length [OF assms(1) inv(1) inv(2) [OF i]]
      by (simp add: efs_files_def distinct_card length_own_blocks)
  qed
  finally show ?thesis .
qed

section \<open>Allocating and freeing data blocks\<close>

text \<open>Allocation hands out distinct free blocks of the data area and writes to the data bitmap only.\<close>

lemma alloc_data_ret:
  assumes "rep st B H" "efs_fits nblk fs da" "bitmap_free nblk (data_bitmap fs) H"
    and "f < da" "\<not> bitmap_bit (data_bitmap fs) B f"
  shows "\<exists>b B'. ret (alloc_data D fs st) (of_nat (data_area_start_block fs + b)) B' H \<and> b < da
    \<and> \<not> bitmap_bit (data_bitmap fs) B b
    \<and> (\<forall>c. bitmap_bit (data_bitmap fs) B' c \<longleftrightarrow> c = b \<or> bitmap_bit (data_bitmap fs) B c)
    \<and> (\<forall>i. i < start_block_id (data_bitmap fs) \<or> data_area_start_block fs \<le> i \<longrightarrow> B' i = B i)"
proof -
  have da: "da \<le> bitmap_maximum (data_bitmap fs)" "data_area_start_block fs + da < 2 ^ 32" using assms(2) by (auto simp: efs_fits_def)
  have f: "f < bitmap_maximum (data_bitmap fs)" using assms(4) da by simp
  obtain b B' where B': "ret (bitmap_alloc D (data_bitmap fs) st) (Some b) B' H" "b < bitmap_maximum (data_bitmap fs)"
    "\<not> bitmap_bit (data_bitmap fs) B b" "\<And>c. c < b \<Longrightarrow> bitmap_bit (data_bitmap fs) B c"
    "\<And>c. bitmap_bit (data_bitmap fs) B' c \<longleftrightarrow> c = b \<or> bitmap_bit (data_bitmap fs) B c"
    "\<And>i. i \<noteq> b div BLOCK_BITS + start_block_id (data_bitmap fs) \<Longrightarrow> B' i = B i"
    by (rule bitmap_alloc_some [OF assms(1,3) f assms(5)]) blast
  have b: "b < da" using B'(4) [of f] assms(4,5) by (meson linorder_not_less order_le_less_trans)
  have "ret (alloc_data D fs st) (of_nat (data_area_start_block fs + b)) B' H"
    using B'(1) b da by (auto simp: alloc_data_def checked_u32_def add.commute elim!: retE intro: retI)
  moreover have "B' i = B i" if "i < start_block_id (data_bitmap fs) \<or> data_area_start_block fs \<le> i" for i
    using that efs_fits_order(3) [OF assms(2) B'(2)] by (intro B'(6)) auto
  ultimately show ?thesis using b B'(3,5) by blast
qed

lemma alloc_data_n_ret:
  assumes "rep st B H" "efs_fits nblk fs da" "bitmap_free nblk (data_bitmap fs) H"
    and "n \<le> card {b. b < da \<and> \<not> bitmap_bit (data_bitmap fs) B b}"
  shows "\<exists>bs B'. ret (alloc_data_n D fs n st) (map (\<lambda>b. of_nat (data_area_start_block fs + b)) bs) B' H
    \<and> length bs = n \<and> distinct bs \<and> (\<forall>b \<in> set bs. b < da \<and> \<not> bitmap_bit (data_bitmap fs) B b)
    \<and> (\<forall>c. bitmap_bit (data_bitmap fs) B' c \<longleftrightarrow> c \<in> set bs \<or> bitmap_bit (data_bitmap fs) B c)
    \<and> (\<forall>i. i < start_block_id (data_bitmap fs) \<or> data_area_start_block fs \<le> i \<longrightarrow> B' i = B i)"
  using assms(1,4)
proof (induction n arbitrary: st B)
  case 0
  then show ?case by (intro exI [of _ "[]"] exI [of _ B]) (simp add: retI)
next
  case (Suc n)
  let ?bit = "bitmap_bit (data_bitmap fs)" and ?blk = "\<lambda>b. of_nat (data_area_start_block fs + b) :: u32"
  from Suc.prems(2) have "{b. b < da \<and> \<not> ?bit B b} \<noteq> {}" by force
  then obtain f where "f < da" "\<not> ?bit B f" by blast
  from alloc_data_ret [OF Suc.prems(1) assms(2,3) this] obtain b B1 where 1: "ret (alloc_data D fs st) (?blk b) B1 H" "b < da" "\<not> ?bit B b"
    "\<forall>c. ?bit B1 c \<longleftrightarrow> c = b \<or> ?bit B c" "\<forall>i. i < start_block_id (data_bitmap fs) \<or> data_area_start_block fs \<le> i \<longrightarrow> B1 i = B i"
    by blast
  obtain st1 where st1: "alloc_data D fs st = Inr (?blk b, st1)" "rep st1 B1 H" by (rule retE [OF 1(1)])
  have "{c. c < da \<and> \<not> ?bit B1 c} = {c. c < da \<and> \<not> ?bit B c} - {b}" using 1(4) by auto
  with Suc.prems(2) 1(2,3) have "n \<le> card {c. c < da \<and> \<not> ?bit B1 c}" by (simp add: card_Diff_singleton)
  from Suc.IH [OF st1(2) this] obtain bs B2 where 2: "ret (alloc_data_n D fs n st1) (map ?blk bs) B2 H"
    "length bs = n" "distinct bs" "\<forall>c \<in> set bs. c < da \<and> \<not> ?bit B1 c" "\<forall>c. ?bit B2 c \<longleftrightarrow> c \<in> set bs \<or> ?bit B1 c"
    "\<forall>i. i < start_block_id (data_bitmap fs) \<or> data_area_start_block fs \<le> i \<longrightarrow> B2 i = B1 i" by blast
  show ?case
  proof (intro exI conjI)
    show "ret (alloc_data_n D fs (Suc n) st) (map ?blk (b # bs)) B2 H"
      using st1(1) 2(1) by (auto elim!: retE intro: retI)
    show "length (b # bs) = Suc n" "distinct (b # bs)" using 1(4) 2(2-4) by auto
    show "\<forall>c \<in> set (b # bs). c < da \<and> \<not> ?bit B c" using 1(2-4) 2(4) by auto
    show "\<forall>c. ?bit B2 c \<longleftrightarrow> c \<in> set (b # bs) \<or> ?bit B c" using 1(4) 2(5) by auto
    show "\<forall>i. i < start_block_id (data_bitmap fs) \<or> data_area_start_block fs \<le> i \<longrightarrow> B2 i = B i" using 1(5) 2(6) by simp
  qed
qed

text \<open>Freeing a list of distinct used blocks clears their bits and their contents.\<close>

lemma dealloc_data_ret:
  assumes "rep st B H" "efs_fits nblk fs da" "bitmap_free nblk (data_bitmap fs) H"
    and "data_area_start_block fs \<le> unat x" "unat x < data_area_start_block fs + da" "H (unat x) = None"
    and "bitmap_bit (data_bitmap fs) B (unat x - data_area_start_block fs)"
  shows "\<exists>B'. ret (dealloc_data D fs x st) () B' H \<and> B' (unat x) = replicate BLOCK_SZ 0
    \<and> (\<forall>c < bitmap_maximum (data_bitmap fs). bitmap_bit (data_bitmap fs) B' c \<longleftrightarrow>
          data_area_start_block fs + c \<noteq> unat x \<and> bitmap_bit (data_bitmap fs) B c)
    \<and> (\<forall>i. i < start_block_id (data_bitmap fs) \<or> data_area_start_block fs \<le> i \<and> i \<noteq> unat x \<longrightarrow> B' i = B i)"
proof -
  let ?bm = "data_bitmap fs" and ?ds = "data_area_start_block fs" and ?B1 = "B(unat x := replicate BLOCK_SZ 0)"
  let ?b = "unat x - data_area_start_block fs"
  have da: "da \<le> bitmap_maximum ?bm" "?ds + da \<le> nblk" using assms(2) by (auto simp: efs_fits_def)
  have b: "?b < bitmap_maximum ?bm" using assms(4,5) da by simp
  have card: "card (dom H) < BLOCK_CACHE_SIZE" using assms(3) by (simp add: bitmap_free_def)
  have nb: "unat x < nblk" using assms(5) da by simp
  obtain st1 where st1: "block_modify D (unat x) 0 BLOCK_SZ (\<lambda>bs st. Inr (((), map (\<lambda>_. 0) bs), st)) st = Inr ((), st1)" "rep st1 ?B1 H"
    by (rule retE [OF clear_block_ret [OF assms(1) nb assms(6) card]])
  have same: "bitmap_bit ?bm ?B1 c = bitmap_bit ?bm B c" if "c < bitmap_maximum ?bm" for c
    using efs_fits_order(3) [OF assms(2) that] assms(4) by (intro bitmap_bit_cong) auto
  obtain B2 where B2: "ret (bitmap_dealloc D ?bm ?b st1) () B2 H" "\<And>c. bitmap_bit ?bm B2 c \<longleftrightarrow> c \<noteq> ?b \<and> bitmap_bit ?bm ?B1 c"
    "\<And>i. i \<noteq> ?b div BLOCK_BITS + start_block_id ?bm \<Longrightarrow> B2 i = ?B1 i"
    by (rule bitmap_dealloc_ok [OF st1(2) assms(3) b]) (use same [OF b] assms(7) in blast)+
  have off: "i \<noteq> ?b div BLOCK_BITS + start_block_id ?bm" if "i < start_block_id ?bm \<or> ?ds \<le> i" for i
    using that efs_fits_order(3) [OF assms(2) b] by auto
  show ?thesis
  proof (intro exI conjI allI impI)
    show "ret (dealloc_data D fs x st) () B2 H"
      using st1(1) B2(1) assms(4) by (simp add: dealloc_data_def checked_sub_def)
    show "B2 (unat x) = replicate BLOCK_SZ 0" using B2(3) [OF off] assms(4) by simp
    show "bitmap_bit ?bm B2 c \<longleftrightarrow> ?ds + c \<noteq> unat x \<and> bitmap_bit ?bm B c" if "c < bitmap_maximum ?bm" for c
      unfolding B2(2) same [OF that] using assms(4) by auto
    show "B2 i = B i" if "i < start_block_id ?bm \<or> ?ds \<le> i \<and> i \<noteq> unat x" for i
      using B2(3) [OF off, of i] that assms(4) efs_fits_order(5) [OF assms(2)] by auto
  qed
qed

lemma dealloc_all_ret:
  assumes "rep st B H" "efs_fits nblk fs da" "bitmap_free nblk (data_bitmap fs) H" "distinct v"
    and "\<forall>x \<in> set v. data_area_start_block fs \<le> unat x \<and> unat x < data_area_start_block fs + da \<and> H (unat x) = None
      \<and> bitmap_bit (data_bitmap fs) B (unat x - data_area_start_block fs)"
  shows "\<exists>B'. ret (dealloc_all D fs v st) () B' H \<and> (\<forall>x \<in> set v. B' (unat x) = replicate BLOCK_SZ 0)
    \<and> (\<forall>c < bitmap_maximum (data_bitmap fs). bitmap_bit (data_bitmap fs) B' c \<longleftrightarrow>
          data_area_start_block fs + c \<notin> unat ` set v \<and> bitmap_bit (data_bitmap fs) B c)
    \<and> (\<forall>i. i < start_block_id (data_bitmap fs) \<or> data_area_start_block fs \<le> i \<and> i \<notin> unat ` set v \<longrightarrow> B' i = B i)"
  using assms(1,4,5)
proof (induction v arbitrary: st B)
  case Nil
  then show ?case by (auto intro!: exI [of _ B] retI)
next
  case (Cons x v)
  let ?bm = "data_bitmap fs" and ?ds = "data_area_start_block fs"
  from Cons.prems(3) have x: "?ds \<le> unat x" "unat x < ?ds + da" "H (unat x) = None" "bitmap_bit ?bm B (unat x - ?ds)" by auto
  from dealloc_data_ret [OF Cons.prems(1) assms(2,3) this] obtain B1 where 1: "ret (dealloc_data D fs x st) () B1 H"
    "B1 (unat x) = replicate BLOCK_SZ 0"
    "\<forall>c < bitmap_maximum ?bm. bitmap_bit ?bm B1 c \<longleftrightarrow> ?ds + c \<noteq> unat x \<and> bitmap_bit ?bm B c"
    "\<forall>i. i < start_block_id ?bm \<or> ?ds \<le> i \<and> i \<noteq> unat x \<longrightarrow> B1 i = B i" by blast
  obtain st1 where st1: "dealloc_data D fs x st = Inr ((), st1)" "rep st1 B1 H" by (rule retE [OF 1(1)])
  have da: "da \<le> bitmap_maximum ?bm" using assms(2) by (simp add: efs_fits_def)
  have ne: "unat y \<noteq> unat x" if "y \<in> set v" for y using that Cons.prems(2) by (metis distinct.simps(2) word_unat_eq_iff)
  have "\<forall>y \<in> set v. ?ds \<le> unat y \<and> unat y < ?ds + da \<and> H (unat y) = None \<and> bitmap_bit ?bm B1 (unat y - ?ds)"
  proof
    fix y assume y: "y \<in> set v"
    with Cons.prems(3) have *: "?ds \<le> unat y" "unat y < ?ds + da" "H (unat y) = None" "bitmap_bit ?bm B (unat y - ?ds)" by auto
    then have "unat y - ?ds < bitmap_maximum ?bm" using da by simp
    with 1(3) * ne [OF y] show "?ds \<le> unat y \<and> unat y < ?ds + da \<and> H (unat y) = None \<and> bitmap_bit ?bm B1 (unat y - ?ds)" by simp
  qed
  with Cons.IH [OF st1(2)] Cons.prems(2) obtain B2 where 2: "ret (dealloc_all D fs v st1) () B2 H"
    "\<forall>y \<in> set v. B2 (unat y) = replicate BLOCK_SZ 0"
    "\<forall>c < bitmap_maximum ?bm. bitmap_bit ?bm B2 c \<longleftrightarrow> ?ds + c \<notin> unat ` set v \<and> bitmap_bit ?bm B1 c"
    "\<forall>i. i < start_block_id ?bm \<or> ?ds \<le> i \<and> i \<notin> unat ` set v \<longrightarrow> B2 i = B1 i" by auto
  show ?case
  proof (intro exI conjI)
    show "ret (dealloc_all D fs (x # v) st) () B2 H" using st1(1) 2(1) by simp
    show "\<forall>y \<in> set (x # v). B2 (unat y) = replicate BLOCK_SZ 0" using 1(2) 2(2,4) x(1) ne by force
    show "\<forall>c < bitmap_maximum ?bm. bitmap_bit ?bm B2 c \<longleftrightarrow> ?ds + c \<notin> unat ` set (x # v) \<and> bitmap_bit ?bm B c"
      using 1(3) 2(3) by auto
    show "\<forall>i. i < start_block_id ?bm \<or> ?ds \<le> i \<and> i \<notin> unat ` set (x # v) \<longrightarrow> B2 i = B i" using 1(4) 2(4) by auto
  qed
qed

end

end
