(* ===== verification/Efs_Refine.thy ===== *)
theory Efs_Refine
  imports Efs_Inv
begin

text \<open>
  The file system implements files: creating, writing, clearing and reading inodes of \<^verbatim>\<open>easy-fs/src/vfs.rs\<close> on the
  device refines the same operations on a table of byte sequences.
\<close>

section \<open>Growing a file inside the file system\<close>

text \<open>Writing behind the end of a file fills the gap with zeros.\<close>

definition write_bytes :: "nat \<Rightarrow> u8 list \<Rightarrow> u8 list \<Rightarrow> u8 list" where
  "write_bytes offset buf d = take offset (d @ replicate (offset - length d) 0) @ buf @ drop (offset + length buf) d"

definition MAX_FILE :: nat where "MAX_FILE = INDIRECT2_BOUND * BLOCK_SZ"

text \<open>
  The file of an inode has taken free blocks and its bytes have been written: only the data bitmap and the
  blocks of the file have changed.
\<close>

definition file_extended ::
    "efs \<Rightarrow> nat \<Rightarrow> (nat \<Rightarrow> u8 list) \<Rightarrow> disk_inode \<Rightarrow> (nat \<Rightarrow> u8 list) \<Rightarrow> disk_inode \<Rightarrow> bool" where
  "file_extended fs da B ino B' ino' \<longleftrightarrow> length (direct ino') = INODE_DIRECT_COUNT \<and> inode_blocks ino' \<le> INDIRECT2_BOUND
     \<and> inode_type ino' = inode_type ino \<and> distinct (own_blocks B' ino')
     \<and> set (own_blocks B' ino') \<subseteq> set (own_blocks B ino) \<union> {x. data_area_start_block fs \<le> x \<and>
          x < data_area_start_block fs + da \<and> \<not> bitmap_bit (data_bitmap fs) B (x - data_area_start_block fs)}
     \<and> set (own_blocks B ino) \<subseteq> set (own_blocks B' ino')
     \<and> (\<forall>c < bitmap_maximum (data_bitmap fs). bitmap_bit (data_bitmap fs) B' c \<longleftrightarrow>
          bitmap_bit (data_bitmap fs) B c \<or> data_area_start_block fs + c \<in> set (own_blocks B' ino'))
     \<and> (\<forall>b. (b < start_block_id (data_bitmap fs) \<or> data_area_start_block fs \<le> b) \<and> b \<notin> set (own_blocks B' ino') \<longrightarrow> B' b = B b)
     \<and> (\<exists>z. blocks_data B' ino' (inode_blocks ino') = file_data B' ino' @ replicate z 0)"

lemma length_write_bytes: "length (write_bytes offset buf d) = max (length d) (offset + length buf)"
  by (auto simp: write_bytes_def max_def min_def)

lemma write_bytes_padded:
  assumes "length d + k = max (length d) (offset + length buf)"
  shows "put_bytes offset buf (d @ replicate k 0) = write_bytes offset buf d"
proof -
  have "take offset (d @ replicate k 0) = take offset (d @ replicate (offset - length d) 0)"
    using assms by (auto simp: max_def split: if_splits)
  moreover have "drop (offset + length buf) (d @ replicate k 0) = drop (offset + length buf) d"
    using assms by (auto simp: max_def split: if_splits)
  ultimately show ?thesis by (simp add: put_bytes_def write_bytes_def)
qed

lemma total_blocks_small:
  assumes "sz \<le> MAX_FILE"
  shows "inode_total_blocks sz = Inr (blocks_of_length sz)"
proof -
  have "data_blocks_of sz = Inr ((sz + BLOCK_SZ - 1) div BLOCK_SZ)"
    using assms by (simp add: data_blocks_of_def checked_u32_def MAX_FILE_def layout_consts BLOCK_SZ_def)
  then show ?thesis by (simp add: inode_total_blocks_def blocks_of_length_def index_count_def Let_def)
qed

lemma blocks_num_needed_small:
  assumes "unat (inode_size ino) \<le> new_size" "new_size \<le> MAX_FILE"
  shows "blocks_num_needed new_size ino = Inr (blocks_of_length new_size - blocks_of_length (unat (inode_size ino)))"
  using assms by (simp add: blocks_num_needed_def rassert_def total_blocks_small)

lemma inode_blocks_small: "sz \<le> MAX_FILE \<longleftrightarrow> (sz + BLOCK_SZ - 1) div BLOCK_SZ \<le> INDIRECT2_BOUND"
  by (auto simp: MAX_FILE_def BLOCK_SZ_def layout_consts)

lemma file_extended_refl:
  assumes "efs_inv nblk fs da B inos" "inos i = Some ino"
  shows "file_extended fs da B ino B ino"
proof -
  have "bitmap_bit (data_bitmap fs) B c" if "c < bitmap_maximum (data_bitmap fs)" "data_area_start_block fs + c \<in> set (own_blocks B ino)" for c
    using efs_invD(5) [OF assms(1) that(1)] that(2) assms(2) by blast
  with efs_invD(2) [OF assms] show ?thesis unfolding file_extended_def stored_file_def by blast
qed

text \<open>The blocks \<open>bs\<close> of the data area have been allocated: their bits are set in \<open>B1\<close>.\<close>

definition blocks_taken :: "efs \<Rightarrow> nat \<Rightarrow> (nat \<Rightarrow> u8 list) \<Rightarrow> nat list \<Rightarrow> (nat \<Rightarrow> u8 list) \<Rightarrow> bool" where
  "blocks_taken fs da B bs B1 \<longleftrightarrow> distinct bs \<and> (\<forall>b \<in> set bs. b < da \<and> \<not> bitmap_bit (data_bitmap fs) B b)
     \<and> (\<forall>c. bitmap_bit (data_bitmap fs) B1 c \<longleftrightarrow> c \<in> set bs \<or> bitmap_bit (data_bitmap fs) B c)
     \<and> (\<forall>i. i < start_block_id (data_bitmap fs) \<or> data_area_start_block fs \<le> i \<longrightarrow> B1 i = B i)"

lemma taken_own_blocks:
  assumes "efs_inv nblk fs da B inos" "inos i = Some ino" "blocks_taken fs da B bs B1"
  shows "own_blocks B1 ino = own_blocks B ino" "blocks_data B1 ino (inode_blocks ino) = blocks_data B ino (inode_blocks ino)"
    "distinct (own_blocks B1 ino @ map (\<lambda>b. data_area_start_block fs + b) bs)"
proof -
  note sf = efs_invD(2) [OF assms(1,2)] and own = own_block_marked [OF assms(1,2)]
  have "B1 b = B b" if "b \<in> set (own_blocks B ino)" for b using assms(3) own(1) [OF that] by (simp add: blocks_taken_def)
  note same = own_blocks_cong [OF this]
  show *: "own_blocks B1 ino = own_blocks B ino" "blocks_data B1 ino (inode_blocks ino) = blocks_data B ino (inode_blocks ino)"
    using same sf by (auto simp: stored_file_def)
  have "data_area_start_block fs + b \<notin> set (own_blocks B ino)" if "b \<in> set bs" for b
    using own(3) [of "data_area_start_block fs + b"] that assms(3) by (auto simp: blocks_taken_def)
  then show "distinct (own_blocks B1 ino @ map (\<lambda>b. data_area_start_block fs + b) bs)"
    using sf assms(3) by (auto simp: *(1) stored_file_def blocks_taken_def distinct_map inj_on_def)
qed

text \<open>What a grown file holds: its bytes, and then zeros.\<close>

lemma taken_data:
  assumes "efs_inv nblk fs da B inos" "inos i = Some ino" "blocks_taken fs da B bs B1"
    and "file_grows B1 ino (inode_blocks ino) bl B2 ino' t" "map unat bl = map (\<lambda>b. data_area_start_block fs + b) bs"
  shows "\<exists>z. blocks_data B2 ino' t = file_data B ino @ replicate z 0"
proof -
  note own = taken_own_blocks [OF assms(1-3)]
  have dis: "distinct (data_list B1 ino (inode_blocks ino) @ idx_list B1 ino (inode_blocks ino) @ map unat bl)"
    using own(3) unfolding own_blocks_def assms(5) by simp
  obtain nd where nd: "set nd \<subseteq> unat ` set bl" "blocks_data B2 ino' t = blocks_data B1 ino (inode_blocks ino) @ concat (map B1 nd)"
    using file_grows_data [OF assms(4) dis] by blast
  have "B1 x = replicate BLOCK_SZ 0" if x: "x \<in> set nd" for x
  proof -
    from x nd(1) have "x \<in> set (map unat bl)" by auto
    then obtain b where b: "b \<in> set bs" "x = data_area_start_block fs + b" unfolding assms(5) by auto
    then show ?thesis using assms(3) efs_invD(6) [OF assms(1), of b] by (simp add: blocks_taken_def)
  qed
  then have "concat (map B1 nd) = replicate (length nd * BLOCK_SZ) 0"
    by (induction nd) (auto simp: replicate_add)
  moreover obtain z where "blocks_data B ino (inode_blocks ino) = file_data B ino @ replicate z 0"
    using efs_invD(2) [OF assms(1,2)] by (auto simp: stored_file_def)
  ultimately have "blocks_data B2 ino' t = file_data B ino @ replicate (z + length nd * BLOCK_SZ) 0"
    unfolding nd(2) own(2) by (simp add: replicate_add)
  then show ?thesis ..
qed

lemma taken_extended:
  assumes inv: "efs_inv nblk fs da B inos" "inos i = Some ino" and taken: "blocks_taken fs da B bs B1"
    and grow: "file_grows B1 ino (inode_blocks ino) bl B2 ino' t" "map unat bl = map (\<lambda>b. data_area_start_block fs + b) bs"
    and ino': "inode_blocks ino' = t" "inode_ok nblk B2 H ino' t" "inode_type ino' = inode_type ino"
    and slack: "\<exists>z. blocks_data B2 ino' t = file_data B2 ino' @ replicate z 0"
  shows "file_extended fs da B ino B2 ino'"
proof -
  let ?ds = "data_area_start_block fs" and ?bm = "data_bitmap fs"
  have bs: "\<forall>b \<in> set bs. b < da \<and> \<not> bitmap_bit ?bm B b" and bit1: "\<And>c. bitmap_bit ?bm B1 c \<longleftrightarrow> c \<in> set bs \<or> bitmap_bit ?bm B c"
    and frame1: "\<And>b. b < start_block_id ?bm \<or> ?ds \<le> b \<Longrightarrow> B1 b = B b" using taken by (auto simp: blocks_taken_def)
  have own2: "set (own_blocks B2 ino') = set (own_blocks B ino) \<union> (\<lambda>b. ?ds + b) ` set bs"
  proof -
    have "set (data_list B2 ino' t @ idx_list B2 ino' t) = set (own_blocks B1 ino) \<union> set (map unat bl)"
      using arg_cong [OF file_grows_blocks(1) [OF grow(1)], of set_mset] by (auto simp: own_blocks_def)
    then show ?thesis unfolding own_blocks_def [of B2] ino'(1) taken_own_blocks(1) [OF inv taken] grow(2) by simp
  qed
  have frame: "B2 b = B1 b" if "b \<notin> set (own_blocks B2 ino')" for b
    using grow(1) that by (auto simp: file_grows_def own_blocks_def ino'(1))
  have bits: "bitmap_bit ?bm B2 c \<longleftrightarrow> bitmap_bit ?bm B c \<or> ?ds + c \<in> set (own_blocks B2 ino')" if c: "c < bitmap_maximum ?bm" for c
  proof -
    have "c div BLOCK_BITS + start_block_id ?bm \<notin> set (own_blocks B2 ino')"
      using efs_fits_order(3) [OF efs_invD(1) [OF inv(1)] c] own_block_marked(1) [OF inv] unfolding own2 by fastforce
    then have "bitmap_bit ?bm B2 c = bitmap_bit ?bm B1 c" by (intro bitmap_bit_cong frame)
    then show ?thesis using bit1 own2 own_block_marked(3) [OF inv, of "?ds + c"] by auto
  qed
  show ?thesis
    unfolding file_extended_def
  proof (intro conjI allI impI)
    show "length (direct ino') = INODE_DIRECT_COUNT" "inode_blocks ino' \<le> INDIRECT2_BOUND" "distinct (own_blocks B2 ino')"
      using ino'(1,2) by (auto simp: inode_ok_def own_blocks_def)
    show "set (own_blocks B ino) \<subseteq> set (own_blocks B2 ino')" "set (own_blocks B2 ino') \<subseteq> set (own_blocks B ino) \<union>
        {x. ?ds \<le> x \<and> x < ?ds + da \<and> \<not> bitmap_bit ?bm B (x - ?ds)}" using bs unfolding own2 by auto
    show "B2 b = B b" if "(b < start_block_id ?bm \<or> ?ds \<le> b) \<and> b \<notin> set (own_blocks B2 ino')" for b
      using that frame frame1 by simp
  qed (use bits ino' slack in blast)+
qed

context block_device
begin

lemma alloc_taken:
  assumes "rep st B H" "efs_inv nblk fs da B inos" "bitmap_free nblk (data_bitmap fs) H" "used_blocks (efs_files B inos) + k \<le> da"
  shows "\<exists>bs bl B1. ret (alloc_data_n D fs k st) bl B1 H \<and> length bl = k \<and> blocks_taken fs da B bs B1
    \<and> map unat bl = map (\<lambda>b. data_area_start_block fs + b) bs"
proof -
  let ?bit = "bitmap_bit (data_bitmap fs) B"
  note fits = efs_invD(1) [OF assms(2)]
  have "{b. b < da \<and> \<not> ?bit b} = {..<da} - {b. b < da \<and> ?bit b}" by auto
  then have "card {b. b < da \<and> \<not> ?bit b} = da - card {b. b < da \<and> ?bit b}" by (simp add: card_Diff_subset subset_eq)
  then have "k \<le> card {b. b < da \<and> \<not> ?bit b}" using assms(4) used_blocks_count [OF assms(1,2)] by simp
  from alloc_data_n_ret [OF assms(1) fits assms(3) this] obtain bs B1 where al:
    "ret (alloc_data_n D fs k st) (map (\<lambda>b. of_nat (data_area_start_block fs + b)) bs) B1 H" "length bs = k" "blocks_taken fs da B bs B1"
    unfolding blocks_taken_def by blast
  have "map unat (map (\<lambda>b. of_nat (data_area_start_block fs + b) :: u32) bs) = map (\<lambda>b. data_area_start_block fs + b) bs"
    using al(3) fits by (auto simp: blocks_taken_def efs_fits_def unat_of_nat take_bit_nat_eq_self simp del: of_nat_add)
  with al show ?thesis by (metis length_map)
qed

text \<open>Under the lock of the inode's block, \<^verbatim>\<open>increase_size\<close> allocates what the new size needs.\<close>

lemma vfs_increase_size_grows:
  assumes rep: "rep st B H" and H: "\<And>b. start_block_id (data_bitmap fs) \<le> b \<Longrightarrow> H b = None" "card (dom H) + 1 < BLOCK_CACHE_SIZE"
    and inv: "efs_inv nblk fs da B inos" "inos i = Some ino"
    and new: "unat (inode_size ino) \<le> new_size" "new_size \<le> MAX_FILE"
      "used_blocks (efs_files B inos) + (blocks_of_length new_size - blocks_of_length (unat (inode_size ino))) \<le> da"
  shows "\<exists>bs bl B1 B2 ino'. ret (vfs_increase_size D fs new_size ino st) ino' B2 H \<and> blocks_taken fs da B bs B1
    \<and> file_grows B1 ino (inode_blocks ino) bl B2 ino' (inode_blocks ino') \<and> map unat bl = map (\<lambda>b. data_area_start_block fs + b) bs
    \<and> inode_ok nblk B2 H ino' (inode_blocks ino') \<and> unat (inode_size ino') = new_size \<and> inode_type ino' = inode_type ino"
proof -
  let ?ds = "data_area_start_block fs" and ?bm = "data_bitmap fs" and ?n = "inode_blocks ino"
  let ?k = "blocks_of_length new_size - blocks_of_length (unat (inode_size ino))"
  define t where "t = (new_size + BLOCK_SZ - 1) div BLOCK_SZ"
  note fits = efs_invD(1) [OF inv(1)] and sf = efs_invD(2) [OF inv]
  have free: "bitmap_free nblk ?bm H" using H fits by (auto simp: bitmap_free_def efs_fits_def)
  have Hd: "H b = None" if "?ds \<le> b" for b using that efs_fits_order(5) [OF fits] by (intro H(1)) simp
  have needed: "blocks_num_needed new_size ino = Inr ?k" by (rule blocks_num_needed_small [OF new(1,2)])
  have small: "new_size < 2 ^ 32" using new(2) by (simp add: MAX_FILE_def layout_consts BLOCK_SZ_def)
  note need = blocks_num_needed_eq [OF needed small, folded t_def inode_blocks_def]
  from alloc_taken [OF rep inv(1) free new(3)] obtain bs bl B1 where al: "ret (alloc_data_n D fs ?k st) bl B1 H" "length bl = ?k"
    "blocks_taken fs da B bs B1" "map unat bl = map (\<lambda>b. ?ds + b) bs" by blast
  obtain st1 where st1: "alloc_data_n D fs ?k st = Inr (bl, st1)" "rep st1 B1 H" by (rule retE [OF al(1)])
  note own = taken_own_blocks [OF inv al(3)]
  have dis: "distinct (data_list B1 ino ?n @ idx_list B1 ino ?n @ map unat bl)"
    using own(3) unfolding own_blocks_def al(4) by simp
  have "inode_ok nblk B H ino ?n" using H(2) by (intro stored_file_ok [OF fits sf Hd]) simp_all
  then have ok1: "inode_ok nblk B1 H ino ?n" using own(1) unfolding inode_ok_def own_blocks_def by simp
  have "unat b < nblk \<and> H (unat b) = None" if "b \<in> set bl" for b
  proof -
    have "unat b \<in> set (map (\<lambda>b. ?ds + b) bs)" using that unfolding al(4) [symmetric] by simp
    then show ?thesis using al(3) fits Hd by (auto simp: blocks_taken_def efs_fits_def)
  qed
  then have bl: "\<forall>b \<in> set bl. unat b < nblk \<and> H (unat b) = None" by blast
  have t: "t \<le> INDIRECT2_BOUND" using new(2) inode_blocks_small t_def by simp
  from increase_size_ret [OF st1(2) ok1 H(2) need(1-3) t need(4) [folded al(2)] dis bl]
  obtain B2 ino' where inc: "ret (increase_size D new_size bl ino st1) ino' B2 H" "file_grows B1 ino ?n bl B2 ino' t"
    "inode_size ino' = of_nat new_size" "inode_type ino' = inode_type ino" by blast
  have sz: "unat (inode_size ino') = new_size" using inc(3) small by (simp add: unat_of_nat)
  then have ib: "inode_blocks ino' = t" by (simp add: inode_blocks_def t_def)
  have ok2: "inode_ok nblk B2 H ino' t" by (rule file_grows_inode_ok [OF inc(2) ok1 t dis bl])
  have "ret (vfs_increase_size D fs new_size ino st) ino' B2 H"
    using new(1) inc(1) by (simp add: vfs_increase_size_def needed st1(1))
  with al(3,4) inc(2,4) ok2 sz ib show ?thesis by blast
qed

lemma vfs_increase_size_ret:
  assumes rep: "rep st B H" and H: "\<And>b. start_block_id (data_bitmap fs) \<le> b \<Longrightarrow> H b = None" "card (dom H) + 1 < BLOCK_CACHE_SIZE"
    and inv: "efs_inv nblk fs da B inos" "inos i = Some ino"
    and new: "new_size \<le> MAX_FILE" "used_blocks (efs_files B inos) + (blocks_of_length new_size - blocks_of_length (unat (inode_size ino))) \<le> da"
  shows "\<exists>B' ino'. ret (vfs_increase_size D fs new_size ino st) ino' B' H \<and> file_extended fs da B ino B' ino'
    \<and> inode_ok nblk B' H ino' (inode_blocks ino') \<and> unat (inode_size ino') = max (unat (inode_size ino)) new_size
    \<and> file_data B' ino' = file_data B ino @ replicate (new_size - unat (inode_size ino)) 0"
proof (cases "new_size < unat (inode_size ino)")
  case True
  have "inode_ok nblk B H ino (inode_blocks ino)"
    using H efs_fits_order(5) [OF efs_invD(1) [OF inv(1)]] by (intro stored_file_ok [OF efs_invD(1) [OF inv(1)] efs_invD(2) [OF inv]]) auto
  then show ?thesis using True rep file_extended_refl [OF inv]
    by (intro exI [of _ B] exI [of _ ino]) (simp add: vfs_increase_size_def retI)
next
  case False
  then have le: "unat (inode_size ino) \<le> new_size" by simp
  from vfs_increase_size_grows [OF rep H inv le new] obtain bs bl B1 B2 ino' where g:
    "ret (vfs_increase_size D fs new_size ino st) ino' B2 H" "blocks_taken fs da B bs B1"
    "file_grows B1 ino (inode_blocks ino) bl B2 ino' (inode_blocks ino')" "map unat bl = map (\<lambda>b. data_area_start_block fs + b) bs"
    "inode_ok nblk B2 H ino' (inode_blocks ino')" "unat (inode_size ino') = new_size" "inode_type ino' = inode_type ino" by blast
  obtain z where z: "blocks_data B2 ino' (inode_blocks ino') = file_data B ino @ replicate z 0"
    using taken_data [OF inv g(2-4)] by blast
  have l: "length (file_data B ino) = unat (inode_size ino)" by (rule stored_file_length [OF rep efs_invD(1,2) [OF inv(1)]]) fact
  obtain st2 where "rep st2 B2 H" by (rule retE [OF g(1)])
  from length_blocks_data [OF this g(5)] have "new_size \<le> unat (inode_size ino) + z"
    unfolding z using l by (simp add: inode_blocks_def g(6) BLOCK_SZ_def)
  then obtain w where w: "z = (new_size - unat (inode_size ino)) + w" using le by (metis le_add_diff_inverse le_diff_conv2 add.commute le_diff_conv)
  have fd: "file_data B2 ino' = file_data B ino @ replicate (new_size - unat (inode_size ino)) 0"
    using l le z unfolding file_data_def g(6) inode_blocks_def w by (simp add: replicate_add)
  then have "blocks_data B2 ino' (inode_blocks ino') = file_data B2 ino' @ replicate w 0" unfolding z w by (simp add: replicate_add)
  then have "\<exists>z. blocks_data B2 ino' (inode_blocks ino') = file_data B2 ino' @ replicate z 0" ..
  from taken_extended [OF inv g(2-4) refl g(5,7) this] g(1,5,6) fd le show ?thesis
    by (intro exI [of _ B2] exI [of _ ino']) simp
qed

text \<open>Writing inside the grown file.\<close>

lemma extended_write_ret:
  assumes "rep st B1 H" "file_extended fs da B ino B1 ino1" "inode_ok nblk B1 H ino1 (inode_blocks ino1)"
    and "efs_inv nblk fs da B inos" "inos i = Some ino"
    and "offset + length buf \<le> unat (inode_size ino1)" "buf \<noteq> []"
  shows "\<exists>B2. ret (inode_write_at D offset buf ino1 st) (length buf) B2 H \<and> file_extended fs da B ino B2 ino1
    \<and> file_data B2 ino1 = put_bytes offset buf (file_data B1 ino1)"
proof -
  let ?n = "inode_blocks ino1" and ?sz = "unat (inode_size ino1)" and ?e = "offset + length buf"
  have le: "?sz \<le> ?n * BLOCK_SZ" by (simp add: inode_blocks_def BLOCK_SZ_def)
  obtain B2 where w: "ret (write_loop D ino1 offset (offset div BLOCK_SZ) ?e buf 0 st) (length buf) B2 H"
    "inode_ok nblk B2 H ino1 ?n" "data_list B2 ino1 ?n = data_list B1 ino1 ?n" "\<forall>b. b \<notin> set (data_list B1 ino1 ?n) \<longrightarrow> B2 b = B1 b"
    "blocks_data B2 ino1 ?n = put_bytes offset buf (blocks_data B1 ino1 ?n)"
    using write_loop_ret [OF assms(1,3), of offset ?e 0 buf] assms(6,7) le by auto
  have len: "length (blocks_data B1 ino1 ?n) = ?n * BLOCK_SZ" by (rule length_blocks_data [OF assms(1,3)])
  have fd: "file_data B2 ino1 = put_bytes offset buf (file_data B1 ino1)"
    using assms(6) le len w(5) by (simp add: file_data_def inode_blocks_def put_bytes_def drop_take)
  have "distinct (data_list B1 ino1 ?n @ idx_list B1 ino1 ?n)" using assms(3) by (simp add: inode_ok_def)
  then have "B2 b = B1 b" if "b \<in> set (idx_list B1 ino1 ?n)" for b using that w(4) by auto
  from idx_list_cong [OF this] have own: "own_blocks B2 ino1 = own_blocks B1 ino1" by (simp add: own_blocks_def w(3))
  have frame: "B2 b = B1 b" if "b \<notin> set (own_blocks B1 ino1)" for b using that w(4) by (simp add: own_blocks_def)
  have bits: "bitmap_bit (data_bitmap fs) B2 c = bitmap_bit (data_bitmap fs) B1 c" if "c < bitmap_maximum (data_bitmap fs)" for c
  proof (intro bitmap_bit_cong frame)
    show "c div BLOCK_BITS + start_block_id (data_bitmap fs) \<notin> set (own_blocks B1 ino1)"
      using efs_fits_order(3) [OF efs_invD(1) [OF assms(4)] that] own_block_marked(1) [OF assms(4,5)] assms(2)
      unfolding file_extended_def by fastforce
  qed
  obtain z where z: "blocks_data B1 ino1 ?n = file_data B1 ino1 @ replicate z 0" using assms(2) by (auto simp: file_extended_def)
  have "length (file_data B1 ino1) = ?sz" using le len by (simp add: file_data_def inode_blocks_def)
  then have "blocks_data B2 ino1 ?n = file_data B2 ino1 @ replicate z 0"
    unfolding w(5) fd z using assms(6) by (simp add: put_bytes_def)
  then have "\<exists>z. blocks_data B2 ino1 ?n = file_data B2 ino1 @ replicate z 0" ..
  then have "file_extended fs da B ino B2 ino1"
    using assms(2) unfolding file_extended_def own by (elim conjE, intro conjI; (assumption | use frame bits in simp))
  moreover have "ret (inode_write_at D offset buf ino1 st) (length buf) B2 H"
    using w(1) assms(6) by (simp add: inode_write_at_def min_def Let_def)
  ultimately show ?thesis using fd by blast
qed

end

section \<open>Storing the changed inode\<close>

lemma extended_inv:
  assumes inv: "efs_inv nblk fs da B inos" "inos i = Some ino" and ext: "file_extended fs da B ino B1 ino1"
    and len: "length (B (inode_area_start_block fs + i div 4)) = BLOCK_SZ" "length old = 128"
  defines "B' \<equiv> B1(inode_area_start_block fs + i div 4 :=
    put_bytes (i mod 4 * 128) (disk_inode_bytes ino1 old) (B (inode_area_start_block fs + i div 4)))"
  shows "efs_inv nblk fs da B' (inos(i \<mapsto> ino1))"
    "efs_files B' (inos(i \<mapsto> ino1)) = (efs_files B inos)(i \<mapsto> (inode_type ino, file_data B1 ino1))" "B' 0 = B 0"
proof -
  let ?ds = "data_area_start_block fs" and ?bm = "data_bitmap fs" and ?blk = "inode_area_start_block fs + i div 4"
  note fits = efs_invD(1) [OF inv(1)] and sf = efs_invD(2) [OF inv]
  note order = efs_fits_order [OF fits]
  have i: "i < bitmap_maximum (inode_bitmap fs)" using sf by (simp add: stored_file_def)
  have e: "set (own_blocks B1 ino1) \<subseteq> set (own_blocks B ino) \<union> {x. ?ds \<le> x \<and> x < ?ds + da \<and> \<not> bitmap_bit ?bm B (x - ?ds)}"
    "\<And>c. c < bitmap_maximum ?bm \<Longrightarrow> bitmap_bit ?bm B1 c \<longleftrightarrow> bitmap_bit ?bm B c \<or> ?ds + c \<in> set (own_blocks B1 ino1)"
    "\<And>b. b < start_block_id ?bm \<or> ?ds \<le> b \<Longrightarrow> b \<notin> set (own_blocks B1 ino1) \<Longrightarrow> B1 b = B b"
    "inode_blocks ino1 \<le> INDIRECT2_BOUND" "length (direct ino1) = INODE_DIRECT_COUNT" "inode_type ino1 = inode_type ino"
    "set (own_blocks B ino) \<subseteq> set (own_blocks B1 ino1)"
    using ext by (auto simp: file_extended_def)
  have area: "?ds \<le> b \<and> b < ?ds + da" if "b \<in> set (own_blocks B1 ino1)" for b
    using e(1) that own_block_marked(1,2) [OF inv] by blast
  have blk: "?blk < ?ds" using order(2) [OF i] order(5) by simp
  have same: "B' b = B1 b" if "b \<in> set (own_blocks B1 ino1)" for b using area [OF that] blk by (auto simp: B'_def)
  have own: "own_blocks B' ino1 = own_blocks B1 ino1" "file_data B' ino1 = file_data B1 ino1"
    "blocks_data B' ino1 (inode_blocks ino1) = blocks_data B1 ino1 (inode_blocks ino1)"
    by (rule own_blocks_cong [where B = B1 and B' = B']; use same e(4) in blast)+
  have low: "B' b = B b" if "b < start_block_id ?bm" "b \<noteq> ?blk" for b
    using that e(3) [of b] area [of b] order(5) unfolding B'_def by auto
  have new: "stored_inode fs B' i = Inr ino1" "\<And>j. j \<noteq> i \<Longrightarrow> j div 4 = i div 4 \<Longrightarrow> stored_inode fs B' j = stored_inode fs B j"
    by (rule stored_inode_put [where B = B and fs = fs and i = i, OF len(1) e(5) len(2)], simp_all add: B'_def)+
  have bit': "bitmap_bit ?bm B' c = bitmap_bit ?bm B1 c" if "c < bitmap_maximum ?bm" for c
    using order(2) [OF i] by (intro bitmap_bit_cong) (auto simp: B'_def)
  have others: "B' b = B b \<and> b \<notin> set (own_blocks B' ino1)" if j: "j \<noteq> i" "inos j = Some y" "b \<in> set (own_blocks B y)" for j y b
  proof -
    note m = own_block_marked [OF inv(1) j(2,3)]
    have "b \<notin> set (own_blocks B1 ino1)" using e(1) m efs_invD(4) [OF inv(1) j(2) inv(2) j(1)] j(3) by blast
    moreover have "B' b = B1 b" using m(1) blk by (simp add: B'_def)
    ultimately show ?thesis using e(3) [of b] m(1) own(1) by simp
  qed
  have stored: "stored_file fs da B' i ino1"
    using i new(1) e(4,5) area ext unfolding stored_file_def own file_extended_def by auto
  have inodes: "stored_inode fs B' j = stored_inode fs B j" if "j \<noteq> i" "inos j = Some y" for j y
  proof (cases "j div 4 = i div 4")
    case False
    then show ?thesis using order(2) [of j] efs_invD(2) [OF inv(1) that(2)] low
      by (intro stored_inode_cong) (auto simp: stored_file_def)
  qed (use that new(2) in simp)
  have ibits: "bitmap_bit (inode_bitmap fs) B' j \<longleftrightarrow> j = i \<or> bitmap_bit (inode_bitmap fs) B j" if "j < bitmap_maximum (inode_bitmap fs)" for j
  proof -
    have "bitmap_bit (inode_bitmap fs) B' j = bitmap_bit (inode_bitmap fs) B j"
      using order(1) [OF that] order(4) by (intro bitmap_bit_cong low) auto
    moreover have "bitmap_bit (inode_bitmap fs) B i" using efs_invD(3) [OF inv(1) i] inv(2) by blast
    ultimately show ?thesis by auto
  qed
  have dbits: "bitmap_bit ?bm B' b \<longleftrightarrow> ?ds + b \<in> set (own_blocks B' ino1) \<or> (\<exists>j y. j \<noteq> i \<and> inos j = Some y \<and> ?ds + b \<in> set (own_blocks B y))"
    if "b < bitmap_maximum ?bm" for b
  proof -
    have "j \<noteq> i \<or> y = ino" if "inos j = Some y" for j y using that inv(2) by auto
    then show ?thesis unfolding bit' [OF that] e(2) [OF that] own(1) efs_invD(5) [OF inv(1) that] using e(7) by blast
  qed
  have zero: "B' (?ds + b) = replicate BLOCK_SZ 0" if "b < da" "\<not> bitmap_bit ?bm B' b" for b
  proof -
    have b: "b < bitmap_maximum ?bm" using that(1) fits by (simp add: efs_fits_def)
    with that(2) bit' e(2) have "\<not> bitmap_bit ?bm B b" "?ds + b \<notin> set (own_blocks B1 ino1)" by auto
    with efs_invD(6) [OF inv(1) that(1)] e(3) [of "?ds + b"] blk show ?thesis by (simp add: B'_def)
  qed
  show "efs_inv nblk fs da B' (inos(i \<mapsto> ino1))"
    by (rule efs_inv_update(1) [OF inv(1) stored]) ((rule others inodes ibits dbits zero; assumption)+)
  have "efs_files B' (inos(i \<mapsto> ino1)) = (efs_files B inos)(i \<mapsto> (inode_type ino1, file_data B' ino1))"
    by (rule efs_inv_update(2) [OF inv(1) stored]) ((rule others inodes ibits dbits zero; assumption)+)
  then show "efs_files B' (inos(i \<mapsto> ino1)) = (efs_files B inos)(i \<mapsto> (inode_type ino, file_data B1 ino1))"
    by (simp only: own(2) e(6))
  show "B' 0 = B 0" using low [of 0] order(4,7,9) by simp
qed

section \<open>The operations of an inode\<close>

context block_device
begin

lemma modify_disk_inode_ex:
  assumes rep: "rep st B Map.empty" and fits: "efs_fits nblk fs da" and i: "i < bitmap_maximum (inode_bitmap fs)"
    and ino: "stored_inode fs B i = Inr ino"
    and f: "\<And>c st1. rep st1 B [inode_area_start_block fs + i div 4 \<mapsto> c] \<Longrightarrow> \<exists>v ino1 B1.
      ret (f ino st1) (v, ino1) B1 [inode_area_start_block fs + i div 4 \<mapsto> c] \<and> length (direct ino1) = INODE_DIRECT_COUNT
      \<and> P v (B1(inode_area_start_block fs + i div 4 := put_bytes (i mod 4 * 128)
          (disk_inode_bytes ino1 (take 128 (drop (i mod 4 * 128) (B (inode_area_start_block fs + i div 4)))))
          (B (inode_area_start_block fs + i div 4))))"
  shows "\<exists>v B'. ret (modify_disk_inode D (inode_place fs i) f st) v B' Map.empty \<and> P v B'"
proof -
  let ?blk = "inode_area_start_block fs + i div 4" and ?off = "i mod 4 * 128"
  note order = efs_fits_order [OF fits]
  have blk: "?blk < nblk" using order(2) [OF i] order(5,6) by simp
  have off: "?off < BLOCK_SZ" "?off + 128 \<le> BLOCK_SZ" using mod_less_divisor [of 4 i] by (auto simp: BLOCK_SZ_def)
  have len: "length (take 128 (drop ?off (B ?blk))) = 128" using rep_length [OF rep blk] off(2) by simp
  have "\<exists>v B'. ret (block_modify D ?blk ?off 128 (\<lambda>bs st. rbind (disk_inode_of bs) (\<lambda>ino.
       rbind (f ino st) (\<lambda>((v, ino'), st'). Inr ((v, disk_inode_bytes ino' bs), st')))) st) v B' Map.empty \<and> P v B'"
  proof (rule block_modify_ex [OF rep blk _ _ off])
    fix c st1 assume "rep st1 B [?blk \<mapsto> c]"
    from f [OF this] obtain v ino1 B1 where r: "ret (f ino st1) (v, ino1) B1 [?blk \<mapsto> c]" "length (direct ino1) = INODE_DIRECT_COUNT"
      "P v (B1(?blk := put_bytes ?off (disk_inode_bytes ino1 (take 128 (drop ?off (B ?blk)))) (B ?blk)))" by blast
    let ?bs = "disk_inode_bytes ino1 (take 128 (drop ?off (B ?blk)))"
    have "length ?bs = 128" using len r(2) by (intro length_disk_inode_bytes) (simp_all add: INODE_DIRECT_COUNT_def)
    moreover have "disk_inode_of (take 128 (drop ?off (B ?blk))) = Inr ino" using ino by (simp add: stored_inode_def sizeof_disk_inode_def)
    then have "ret (rbind (disk_inode_of (take 128 (drop ?off (B ?blk)))) (\<lambda>ino. rbind (f ino st1) (\<lambda>((v, ino'), st').
        Inr ((v, disk_inode_bytes ino' (take 128 (drop ?off (B ?blk)))), st')))) (v, ?bs) B1 [?blk \<mapsto> c]"
      using r(1) by (auto elim!: retE intro: retI)
    ultimately show "\<exists>v bs B'. length bs = 128 \<and> ret (rbind (disk_inode_of (take 128 (drop ?off (B ?blk)))) (\<lambda>ino.
        rbind (f ino st1) (\<lambda>((v, ino'), st'). Inr ((v, disk_inode_bytes ino' (take 128 (drop ?off (B ?blk)))), st'))))
        (v, bs) B' [?blk \<mapsto> c] \<and> P v (B'(?blk := put_bytes ?off bs (B ?blk)))" using r(3) by blast
  qed (simp_all add: BLOCK_CACHE_SIZE_def)
  then show ?thesis by (simp add: modify_disk_inode_def sizeof_disk_inode_def)
qed

text \<open>A closure that extends the file of the inode.\<close>

lemma modify_extended_ret:
  assumes rep: "rep st B Map.empty" and inv: "efs_inv nblk fs da B inos" "inos i = Some ino"
    and f: "\<And>c st1. rep st1 B [inode_area_start_block fs + i div 4 \<mapsto> c] \<Longrightarrow> \<exists>ino1 B1.
      ret (f ino st1) (v, ino1) B1 [inode_area_start_block fs + i div 4 \<mapsto> c] \<and> file_extended fs da B ino B1 ino1
      \<and> file_data B1 ino1 = d"
  shows "\<exists>B' inos'. ret (modify_disk_inode D (inode_place fs i) f st) v B' Map.empty \<and> efs_inv nblk fs da B' inos'
    \<and> efs_files B' inos' = (efs_files B inos)(i \<mapsto> (inode_type ino, d)) \<and> B' 0 = B 0"
proof -
  let ?blk = "inode_area_start_block fs + i div 4"
  note fits = efs_invD(1) [OF inv(1)] and sf = efs_invD(2) [OF inv]
  have i: "i < bitmap_maximum (inode_bitmap fs)" "stored_inode fs B i = Inr ino" using sf by (auto simp: stored_file_def)
  have len: "length (B ?blk) = BLOCK_SZ" using efs_fits_order(2) [OF fits i(1)] efs_fits_order(5,6) [OF fits] by (intro rep_length [OF rep]) simp
  then have old: "length (take 128 (drop (i mod 4 * 128) (B ?blk))) = 128" using mod_less_divisor [of 4 i] by (simp add: BLOCK_SZ_def)
  have "\<exists>w B'. ret (modify_disk_inode D (inode_place fs i) f st) w B' Map.empty \<and> (w = v \<and> (\<exists>inos'. efs_inv nblk fs da B' inos'
      \<and> efs_files B' inos' = (efs_files B inos)(i \<mapsto> (inode_type ino, d)) \<and> B' 0 = B 0))"
  proof (rule modify_disk_inode_ex [OF rep fits i])
    fix c st1 assume "rep st1 B [?blk \<mapsto> c]"
    from f [OF this] obtain ino1 B1 where r: "ret (f ino st1) (v, ino1) B1 [?blk \<mapsto> c]" "file_extended fs da B ino B1 ino1"
      "file_data B1 ino1 = d" by blast
    have "length (direct ino1) = INODE_DIRECT_COUNT" using r(2) by (simp add: file_extended_def)
    with r(1) extended_inv [OF inv r(2) len old] r(3) show "\<exists>w ino1 B1. ret (f ino st1) (w, ino1) B1 [?blk \<mapsto> c]
      \<and> length (direct ino1) = INODE_DIRECT_COUNT \<and> w = v \<and> (\<exists>inos'. efs_inv nblk fs da (B1(?blk := put_bytes (i mod 4 * 128)
          (disk_inode_bytes ino1 (take 128 (drop (i mod 4 * 128) (B ?blk)))) (B ?blk))) inos'
      \<and> efs_files (B1(?blk := put_bytes (i mod 4 * 128) (disk_inode_bytes ino1 (take 128 (drop (i mod 4 * 128) (B ?blk)))) (B ?blk))) inos'
          = (efs_files B inos)(i \<mapsto> (inode_type ino, d))
      \<and> (B1(?blk := put_bytes (i mod 4 * 128) (disk_inode_bytes ino1 (take 128 (drop (i mod 4 * 128) (B ?blk)))) (B ?blk))) 0 = B 0)"
      by metis
  qed
  then show ?thesis by blast
qed

text \<open>Growing and writing under the lock, as \<^verbatim>\<open>write_at\<close> and \<^verbatim>\<open>create\<close> do it.\<close>

lemma grow_and_write:
  assumes rep: "rep st1 B [inode_area_start_block fs + i div 4 \<mapsto> c]" and inv: "efs_inv nblk fs da B inos" "inos i = Some ino"
    and new: "buf \<noteq> []" "offset + length buf \<le> MAX_FILE"
      "used_blocks ((efs_files B inos)(i \<mapsto> (ty, write_bytes offset buf (file_data B ino)))) \<le> da"
  obtains ino1 st2 B1 B2 where "vfs_increase_size D fs (offset + length buf) ino st1 = Inr (ino1, st2)"
    "rep st2 B1 [inode_area_start_block fs + i div 4 \<mapsto> c]"
    "ret (inode_write_at D offset buf ino1 st2) (length buf) B2 [inode_area_start_block fs + i div 4 \<mapsto> c]"
    "file_extended fs da B ino B2 ino1" "file_data B2 ino1 = write_bytes offset buf (file_data B ino)"
proof -
  let ?H = "[inode_area_start_block fs + i div 4 \<mapsto> c]" and ?new = "offset + length buf" and ?d = "file_data B ino"
  note fits = efs_invD(1) [OF inv(1)] and sf = efs_invD(2) [OF inv]
  have l: "length ?d = unat (inode_size ino)" by (rule stored_file_length [OF rep fits sf])
  have i: "i < bitmap_maximum (inode_bitmap fs)" using sf by (simp add: stored_file_def)
  have H: "\<And>b. start_block_id (data_bitmap fs) \<le> b \<Longrightarrow> ?H b = None" using efs_fits_order(2) [OF fits i] by auto
  have "used_blocks ((efs_files B inos)(i \<mapsto> (ty, write_bytes offset buf ?d))) + blocks_of_length (length ?d) =
      used_blocks (efs_files B inos) + blocks_of_length (max (length ?d) ?new)"
    using used_blocks_upd [of "efs_files B inos" i "(ty, write_bytes offset buf ?d)"] efs_inv_finite [OF inv(1)] inv(2)
    by (simp add: efs_files_def length_write_bytes)
  then have "used_blocks (efs_files B inos) + (blocks_of_length ?new - blocks_of_length (unat (inode_size ino))) \<le> da"
    using new(3) blocks_of_length_mono [of ?new "max (length ?d) ?new"] blocks_of_length_mono [of "length ?d" "max (length ?d) ?new"] l
    by simp
  moreover have "card (dom ?H) + 1 < BLOCK_CACHE_SIZE" by (simp add: BLOCK_CACHE_SIZE_def)
  ultimately have "\<exists>B' ino'. ret (vfs_increase_size D fs ?new ino st1) ino' B' ?H \<and> file_extended fs da B ino B' ino'
    \<and> inode_ok nblk B' ?H ino' (inode_blocks ino') \<and> unat (inode_size ino') = max (unat (inode_size ino)) ?new
    \<and> file_data B' ino' = ?d @ replicate (?new - unat (inode_size ino)) 0"
    using H by (intro vfs_increase_size_ret [OF rep _ _ inv new(2)])
  then obtain B1 ino1 where g: "ret (vfs_increase_size D fs ?new ino st1) ino1 B1 ?H"
    "file_extended fs da B ino B1 ino1" "inode_ok nblk B1 ?H ino1 (inode_blocks ino1)"
    "unat (inode_size ino1) = max (unat (inode_size ino)) ?new" "file_data B1 ino1 = ?d @ replicate (?new - unat (inode_size ino)) 0"
    by blast
  obtain st2 where st2: "vfs_increase_size D fs ?new ino st1 = Inr (ino1, st2)" "rep st2 B1 ?H" by (rule retE [OF g(1)])
  have "?new \<le> unat (inode_size ino1)" using g(4) by simp
  from extended_write_ret [OF st2(2) g(2,3) inv this new(1)] obtain B2 where w: "ret (inode_write_at D offset buf ino1 st2) (length buf) B2 ?H"
    "file_extended fs da B ino B2 ino1" "file_data B2 ino1 = put_bytes offset buf (file_data B1 ino1)" by blast
  have "file_data B2 ino1 = write_bytes offset buf ?d"
    unfolding w(3) g(5) using l by (intro write_bytes_padded) simp
  with that [OF st2 w(1,2)] show ?thesis by blast
qed

lemma vfs_write_at_ret:
  assumes rep: "rep st B Map.empty" and inv: "efs_inv nblk fs da B inos" "inos i = Some ino"
    and new: "buf \<noteq> []" "offset + length buf \<le> MAX_FILE"
      "used_blocks ((efs_files B inos)(i \<mapsto> (inode_type ino, write_bytes offset buf (file_data B ino)))) \<le> da"
  shows "\<exists>st' B' inos'. vfs_write_at D fs (inode_place fs i) offset buf st = Inr (length buf, st') \<and> rep st' B' Map.empty
    \<and> efs_inv nblk fs da B' inos' \<and> efs_files B' inos' = (efs_files B inos)(i \<mapsto> (inode_type ino, write_bytes offset buf (file_data B ino)))
    \<and> B' 0 = B 0 \<and> (\<forall>k < nblk. contents (device st') k = B' k)"
proof -
  let ?f = "\<lambda>ino st. rbind (vfs_increase_size D fs ((offset + length buf) mod 2 ^ 32) ino st) (\<lambda>(ino1, st').
      rbind (inode_write_at D offset buf ino1 st') (\<lambda>(n, st''). Inr ((n, ino1), st'')))"
  have small: "(offset + length buf) mod 2 ^ 32 = offset + length buf"
    using new(2) by (simp add: MAX_FILE_def layout_consts BLOCK_SZ_def)
  have "\<exists>B' inos'. ret (modify_disk_inode D (inode_place fs i) ?f st) (length buf) B' Map.empty \<and> efs_inv nblk fs da B' inos'
    \<and> efs_files B' inos' = (efs_files B inos)(i \<mapsto> (inode_type ino, write_bytes offset buf (file_data B ino))) \<and> B' 0 = B 0"
  proof (rule modify_extended_ret [OF rep inv])
    fix c st1 assume "rep st1 B [inode_area_start_block fs + i div 4 \<mapsto> c]"
    from grow_and_write [OF this inv new] obtain ino1 st2 B1 B2 where
      w: "vfs_increase_size D fs (offset + length buf) ino st1 = Inr (ino1, st2)"
        "ret (inode_write_at D offset buf ino1 st2) (length buf) B2 [inode_area_start_block fs + i div 4 \<mapsto> c]"
        "file_extended fs da B ino B2 ino1" "file_data B2 ino1 = write_bytes offset buf (file_data B ino)" by metis
    then have "ret (?f ino st1) (length buf, ino1) B2 [inode_area_start_block fs + i div 4 \<mapsto> c]"
      unfolding small by (auto elim!: retE intro: retI)
    with w(3,4) show "\<exists>ino1 B1. ret (?f ino st1) (length buf, ino1) B1 [inode_area_start_block fs + i div 4 \<mapsto> c]
      \<and> file_extended fs da B ino B1 ino1 \<and> file_data B1 ino1 = write_bytes offset buf (file_data B ino)" by blast
  qed
  then obtain B' inos' st2 where m: "modify_disk_inode D (inode_place fs i) ?f st = Inr (length buf, st2)" "rep st2 B' Map.empty"
    "efs_inv nblk fs da B' inos'" "efs_files B' inos' = (efs_files B inos)(i \<mapsto> (inode_type ino, write_bytes offset buf (file_data B ino)))"
    "B' 0 = B 0" by (auto elim!: retE)
  obtain st3 where st3: "block_cache_sync_all D st2 = Inr st3" "rep st3 B' Map.empty" "\<And>k. k < nblk \<Longrightarrow> contents (device st3) k = B' k"
    by (rule sync_all_ok [OF m(2)]) blast
  have "vfs_write_at D fs (inode_place fs i) offset buf st = Inr (length buf, st3)"
    unfolding vfs_write_at_def by (simp only: m(1) st3(1) rbind_simps prod.case)
  with m(3-5) st3(2,3) show ?thesis by blast
qed

end

text \<open>A file of no bytes has no blocks.\<close>

lemma empty_file:
  assumes "inode_size ino = 0"
  shows "inode_blocks ino = 0" "own_blocks B ino = []" "file_data B ino = []" "blocks_data B ino 0 = []"
proof -
  show *: "inode_blocks ino = 0" using assms by (simp add: inode_blocks_def BLOCK_SZ_def)
  show "own_blocks B ino = []" unfolding own_blocks_def * by (simp add: idx_list_def data_list_def)
  show "file_data B ino = []" "blocks_data B ino 0 = []" using assms by (simp_all add: file_data_def blocks_data_def data_list_def)
qed

text \<open>
  An inode that becomes or is made an empty file: the blocks it had are free and zero, and the inode bitmap marks it.
\<close>

lemma emptied_inv:
  assumes inv: "efs_inv nblk fs da B inos" and i: "i < bitmap_maximum (inode_bitmap fs)"
    and ino: "inode_size ino1 = 0" "length (direct ino1) = INODE_DIRECT_COUNT"
    and len: "length (B (inode_area_start_block fs + i div 4)) = BLOCK_SZ" "length old = 128"
    and old_blocks: "own = (case inos i of Some ino \<Rightarrow> set (own_blocks B ino) | None \<Rightarrow> {})"
    and area: "\<And>b. inode_area_start_block fs \<le> b \<Longrightarrow> b < start_block_id (data_bitmap fs) \<Longrightarrow> B1 b = B b"
    and ibits: "\<And>j. j < bitmap_maximum (inode_bitmap fs) \<Longrightarrow> bitmap_bit (inode_bitmap fs) B1 j \<longleftrightarrow> j = i \<or> bitmap_bit (inode_bitmap fs) B j"
    and dbits: "\<And>c. c < bitmap_maximum (data_bitmap fs) \<Longrightarrow> bitmap_bit (data_bitmap fs) B1 c \<longleftrightarrow>
      data_area_start_block fs + c \<notin> own \<and> bitmap_bit (data_bitmap fs) B c"
    and data: "\<And>b. data_area_start_block fs \<le> b \<Longrightarrow> B1 b = (if b \<in> own then replicate BLOCK_SZ 0 else B b)"
  defines "B' \<equiv> B1(inode_area_start_block fs + i div 4 :=
    put_bytes (i mod 4 * 128) (disk_inode_bytes ino1 old) (B (inode_area_start_block fs + i div 4)))"
  shows "efs_inv nblk fs da B' (inos(i \<mapsto> ino1))"
    "efs_files B' (inos(i \<mapsto> ino1)) = (efs_files B inos)(i \<mapsto> (inode_type ino1, []))"
proof -
  let ?ds = "data_area_start_block fs" and ?bm = "data_bitmap fs" and ?blk = "inode_area_start_block fs + i div 4"
  note order = efs_fits_order [OF efs_invD(1) [OF inv]] and empty = empty_file [OF ino(1)]
  have blk: "?blk < ?ds" using order(2) [OF i] order(5) by simp
  have new: "stored_inode fs B' i = Inr ino1" "\<And>j. j \<noteq> i \<Longrightarrow> j div 4 = i div 4 \<Longrightarrow> stored_inode fs B' j = stored_inode fs B j"
    by (rule stored_inode_put [where B = B and fs = fs and i = i, OF len(1) ino(2) len(2)], simp_all add: B'_def)+
  have dbit': "bitmap_bit ?bm B' c = bitmap_bit ?bm B1 c" if "c < bitmap_maximum ?bm" for c
    using order(2) [OF i] by (intro bitmap_bit_cong) (auto simp: B'_def)
  have others: "B' b = B b \<and> b \<notin> set (own_blocks B' ino1)" if j: "j \<noteq> i" "inos j = Some y" "b \<in> set (own_blocks B y)" for j y b
  proof -
    have "b \<notin> own" using efs_invD(4) [OF inv j(2), of i] j(1,3) by (auto simp: old_blocks split: option.splits)
    then show ?thesis using data own_block_marked(1) [OF inv j(2,3)] blk by (simp add: B'_def empty)
  qed
  have stored: "stored_file fs da B' i ino1" using i new(1) ino(2) by (simp add: stored_file_def empty)
  have inodes: "stored_inode fs B' j = stored_inode fs B j" if "j \<noteq> i" "inos j = Some y" for j y
  proof (cases "j div 4 = i div 4")
    case False
    then show ?thesis using order(2) [of j] efs_invD(2) [OF inv that(2)] area
      by (intro stored_inode_cong) (auto simp: stored_file_def B'_def)
  qed (use that new(2) in simp)
  have ibits': "bitmap_bit (inode_bitmap fs) B' j \<longleftrightarrow> j = i \<or> bitmap_bit (inode_bitmap fs) B j" if "j < bitmap_maximum (inode_bitmap fs)" for j
    using order(1) [OF that] ibits [OF that] by (subst bitmap_bit_cong [of B' _ _ B1]) (auto simp: B'_def)
  have dbits': "bitmap_bit ?bm B' b \<longleftrightarrow> ?ds + b \<in> set (own_blocks B' ino1) \<or> (\<exists>j y. j \<noteq> i \<and> inos j = Some y \<and> ?ds + b \<in> set (own_blocks B y))"
    if "b < bitmap_maximum ?bm" for b
  proof -
    have "?ds + b \<notin> own" if "j \<noteq> i" "inos j = Some y" "?ds + b \<in> set (own_blocks B y)" for j y
      using efs_invD(4) [OF inv that(2), of i] that(1,3) by (auto simp: old_blocks split: option.splits)
    moreover have "j \<noteq> i" if "inos j = Some y" "?ds + b \<in> set (own_blocks B y)" "?ds + b \<notin> own" for j y
      using that by (auto simp: old_blocks)
    ultimately show ?thesis unfolding dbit' [OF that] dbits [OF that] efs_invD(5) [OF inv that]
      by (simp add: empty) blast
  qed
  have zero: "B' (?ds + b) = replicate BLOCK_SZ 0" if b: "b < da" "\<not> bitmap_bit ?bm B' b" for b
  proof -
    have "b < bitmap_maximum ?bm" using b(1) efs_invD(1) [OF inv] by (simp add: efs_fits_def)
    with b(2) have "?ds + b \<in> own \<or> \<not> bitmap_bit ?bm B b" using dbit' dbits by simp
    then show ?thesis using data [of "?ds + b"] efs_invD(6) [OF inv b(1)] blk by (auto simp: B'_def)
  qed
  show "efs_inv nblk fs da B' (inos(i \<mapsto> ino1))"
    by (rule efs_inv_update(1) [OF inv stored]) ((rule others inodes ibits' dbits' zero; assumption)+)
  have "efs_files B' (inos(i \<mapsto> ino1)) = (efs_files B inos)(i \<mapsto> (inode_type ino1, file_data B' ino1))"
    by (rule efs_inv_update(2) [OF inv stored]) ((rule others inodes ibits' dbits' zero; assumption)+)
  then show "efs_files B' (inos(i \<mapsto> ino1)) = (efs_files B inos)(i \<mapsto> (inode_type ino1, []))" by (simp only: empty)
qed

context block_device
begin

lemma place_block:
  assumes "rep st B H" "efs_inv nblk fs da B' inos" "i < bitmap_maximum (inode_bitmap fs)"
  shows "inode_area_start_block fs + i div 4 < nblk" "length (B (inode_area_start_block fs + i div 4)) = BLOCK_SZ"
    "length (take 128 (drop (i mod 4 * 128) (B (inode_area_start_block fs + i div 4)))) = 128"
proof -
  note order = efs_fits_order [OF efs_invD(1) [OF assms(2)]]
  show "inode_area_start_block fs + i div 4 < nblk" using order(2) [OF assms(3)] order(5,6) by simp
  then show len: "length (B (inode_area_start_block fs + i div 4)) = BLOCK_SZ" by (rule rep_length [OF assms(1)])
  then show "length (take 128 (drop (i mod 4 * 128) (B (inode_area_start_block fs + i div 4)))) = 128"
    using mod_less_divisor [of 4 i] by (simp add: BLOCK_SZ_def)
qed

text \<open>\<^verbatim>\<open>clear\<close>: the closure takes the blocks from the inode and frees them.\<close>

lemma clear_closure_ret:
  assumes rep: "rep st B H" and H: "\<And>b. start_block_id (data_bitmap fs) \<le> b \<Longrightarrow> H b = None" "card (dom H) + 1 < BLOCK_CACHE_SIZE"
    and inv: "efs_inv nblk fs da B inos" "inos i = Some ino"
  shows "\<exists>v ino1 st1 B1. clear_size D ino st = Inr ((v, ino1), st1) \<and> inode_total_blocks (unat (inode_size ino)) = Inr (length v)
    \<and> ret (dealloc_all D fs v st1) () B1 H \<and> inode_size ino1 = 0 \<and> inode_type ino1 = inode_type ino \<and> length (direct ino1) = INODE_DIRECT_COUNT
    \<and> (\<forall>c < bitmap_maximum (data_bitmap fs). bitmap_bit (data_bitmap fs) B1 c \<longleftrightarrow>
         data_area_start_block fs + c \<notin> set (own_blocks B ino) \<and> bitmap_bit (data_bitmap fs) B c)
    \<and> (\<forall>b. data_area_start_block fs \<le> b \<longrightarrow> B1 b = (if b \<in> set (own_blocks B ino) then replicate BLOCK_SZ 0 else B b))
    \<and> (\<forall>b < start_block_id (data_bitmap fs). B1 b = B b)"
proof -
  let ?ds = "data_area_start_block fs" and ?bm = "data_bitmap fs"
  note fits = efs_invD(1) [OF inv(1)] and sf = efs_invD(2) [OF inv]
  have Hd: "H b = None" if "?ds \<le> b" for b using that efs_fits_order(5) [OF fits] by (intro H(1)) simp
  have ok: "inode_ok nblk B H ino (inode_blocks ino)" using H(2) by (intro stored_file_ok [OF fits sf Hd]) simp_all
  have small: "unat (inode_size ino) \<le> MAX_FILE" using sf by (simp add: inode_blocks_small stored_file_def inode_blocks_def)
  note total = total_blocks_small [OF small]
  have "data_blocks ino = Inr (inode_blocks ino)"
    using total_blocks_eq(1) [OF total] by (simp add: data_blocks_def inode_blocks_def)
  from clear_size_ret [OF rep ok H(2) this] obtain v ino1 where c: "ret (clear_size D ino st) (v, ino1) B H"
    "inode_size ino1 = 0" "inode_type ino1 = inode_type ino" "length (direct ino1) = INODE_DIRECT_COUNT"
    "mset (map unat v) = mset (own_blocks B ino)" unfolding own_blocks_def by blast
  obtain st1 where st1: "clear_size D ino st = Inr ((v, ino1), st1)" "rep st1 B H" by (rule retE [OF c(1)])
  have own: "unat ` set v = set (own_blocks B ino)" using mset_eq_setD [OF c(5)] by simp
  have "distinct (map unat v)" using mset_eq_imp_distinct_iff [OF c(5)] sf by (simp add: stored_file_def)
  then have dis: "distinct v" by (rule distinct_map [THEN iffD1, THEN conjunct1])
  have len: "length v = blocks_of_length (unat (inode_size ino))"
    using mset_eq_length [OF c(5)] length_own_blocks [of B ino] by simp
  have "\<forall>x \<in> set v. ?ds \<le> unat x \<and> unat x < ?ds + da \<and> H (unat x) = None \<and> bitmap_bit ?bm B (unat x - ?ds)"
    using own_block_marked [OF inv] Hd own by blast
  moreover have "bitmap_free nblk ?bm H" using H fits by (auto simp: bitmap_free_def efs_fits_def)
  ultimately obtain B1 where d: "ret (dealloc_all D fs v st1) () B1 H" "\<forall>x \<in> set v. B1 (unat x) = replicate BLOCK_SZ 0"
    "\<forall>c < bitmap_maximum ?bm. bitmap_bit ?bm B1 c \<longleftrightarrow> ?ds + c \<notin> unat ` set v \<and> bitmap_bit ?bm B c"
    "\<forall>i. i < start_block_id ?bm \<or> ?ds \<le> i \<and> i \<notin> unat ` set v \<longrightarrow> B1 i = B i"
    using dealloc_all_ret [OF st1(2) fits _ dis] by blast
  have "B1 b = (if b \<in> set (own_blocks B ino) then replicate BLOCK_SZ 0 else B b)" if "?ds \<le> b" for b
  proof (cases "b \<in> unat ` set v")
    case True
    then have "B1 b = replicate BLOCK_SZ 0" using d(2) by auto
    with True own show ?thesis by simp
  qed (use d(4) that own in simp)
  with st1(1) total len d(1,3,4) c(2-4) own show ?thesis by (intro exI conjI) auto
qed

lemma vfs_clear_ret:
  assumes rep: "rep st B Map.empty" and inv: "efs_inv nblk fs da B inos" "inos i = Some ino"
  shows "\<exists>st' B' inos'. vfs_clear D fs (inode_place fs i) st = Inr ((), st') \<and> rep st' B' Map.empty \<and> efs_inv nblk fs da B' inos'
    \<and> efs_files B' inos' = (efs_files B inos)(i \<mapsto> (inode_type ino, [])) \<and> B' 0 = B 0 \<and> (\<forall>k < nblk. contents (device st') k = B' k)"
proof -
  let ?blk = "inode_area_start_block fs + i div 4"
  let ?f = "\<lambda>ino st. let sz = unat (inode_size ino) in rbind (clear_size D ino st) (\<lambda>((v, ino1), st').
      rbind (inode_total_blocks sz) (\<lambda>n. rbind (rassert (length v = n)) (\<lambda>_.
      rbind (dealloc_all D fs v st') (\<lambda>(_, st''). Inr (((), ino1), st'')))))"
  let ?P = "\<lambda>B'. \<exists>inos'. efs_inv nblk fs da B' inos' \<and> efs_files B' inos' = (efs_files B inos)(i \<mapsto> (inode_type ino, [])) \<and> B' 0 = B 0"
  note fits = efs_invD(1) [OF inv(1)] and sf = efs_invD(2) [OF inv]
  note order = efs_fits_order [OF fits]
  have i: "i < bitmap_maximum (inode_bitmap fs)" "stored_inode fs B i = Inr ino" using sf by (auto simp: stored_file_def)
  have "\<exists>w B'. ret (modify_disk_inode D (inode_place fs i) ?f st) w B' Map.empty \<and> ?P B'"
  proof (rule modify_disk_inode_ex [OF rep fits i])
    fix c st1 assume st1: "rep st1 B [?blk \<mapsto> c]"
    have H: "\<And>b. start_block_id (data_bitmap fs) \<le> b \<Longrightarrow> [?blk \<mapsto> c] b = None" "card (dom [?blk \<mapsto> c]) + 1 < BLOCK_CACHE_SIZE"
      using order(2) [OF i(1)] by (auto simp: BLOCK_CACHE_SIZE_def)
    from clear_closure_ret [OF st1 H inv] obtain v ino1 st2 B1 where r: "clear_size D ino st1 = Inr ((v, ino1), st2)"
      "inode_total_blocks (unat (inode_size ino)) = Inr (length v)" "ret (dealloc_all D fs v st2) () B1 [?blk \<mapsto> c]"
      "inode_size ino1 = 0" "inode_type ino1 = inode_type ino" "length (direct ino1) = INODE_DIRECT_COUNT"
      "\<forall>c < bitmap_maximum (data_bitmap fs). bitmap_bit (data_bitmap fs) B1 c \<longleftrightarrow>
         data_area_start_block fs + c \<notin> set (own_blocks B ino) \<and> bitmap_bit (data_bitmap fs) B c"
      "\<forall>b. data_area_start_block fs \<le> b \<longrightarrow> B1 b = (if b \<in> set (own_blocks B ino) then replicate BLOCK_SZ 0 else B b)"
      "\<forall>b < start_block_id (data_bitmap fs). B1 b = B b" by blast
    let ?B' = "B1(?blk := put_bytes (i mod 4 * 128) (disk_inode_bytes ino1 (take 128 (drop (i mod 4 * 128) (B ?blk)))) (B ?blk))"
    have ibits: "bitmap_bit (inode_bitmap fs) B1 j \<longleftrightarrow> j = i \<or> bitmap_bit (inode_bitmap fs) B j" if "j < bitmap_maximum (inode_bitmap fs)" for j
      using bitmap_bit_cong [of B1 j "inode_bitmap fs" B] r(9) order(1) [OF that] order(4) efs_invD(3) [OF inv(1) i(1)] inv(2) by auto
    have e: "efs_inv nblk fs da ?B' (inos(i \<mapsto> ino1))" "efs_files ?B' (inos(i \<mapsto> ino1)) = (efs_files B inos)(i \<mapsto> (inode_type ino1, []))"
      by (rule emptied_inv [OF inv(1) i(1) r(4,6) place_block(2,3) [OF rep inv(1) i(1)], of "set (own_blocks B ino)"];
          use inv(2) r(7-9) ibits order(4) in simp)+
    have "?B' 0 = B 0" using r(9) order(4,7,9) by simp
    with e r(5) have "?P ?B'" by metis
    moreover have "ret (?f ino st1) ((), ino1) B1 [?blk \<mapsto> c]" using r(1-3) by (auto elim!: retE intro: retI)
    ultimately show "\<exists>v ino1 B1. ret (?f ino st1) (v, ino1) B1 [?blk \<mapsto> c] \<and> length (direct ino1) = INODE_DIRECT_COUNT
      \<and> ?P (B1(?blk := put_bytes (i mod 4 * 128) (disk_inode_bytes ino1 (take 128 (drop (i mod 4 * 128) (B ?blk)))) (B ?blk)))"
      using r(6) by blast
  qed
  then obtain B' inos' st2 where m: "modify_disk_inode D (inode_place fs i) ?f st = Inr ((), st2)" "rep st2 B' Map.empty"
    "efs_inv nblk fs da B' inos'" "efs_files B' inos' = (efs_files B inos)(i \<mapsto> (inode_type ino, []))" "B' 0 = B 0" by (auto elim!: retE)
  obtain st3 where st3: "block_cache_sync_all D st2 = Inr st3" "rep st3 B' Map.empty" "\<And>k. k < nblk \<Longrightarrow> contents (device st3) k = B' k"
    by (rule sync_all_ok [OF m(2)]) blast
  have "vfs_clear D fs (inode_place fs i) st = Inr ((), st3)"
    unfolding vfs_clear_def by (simp only: m(1) st3(1) rbind_simps prod.case)
  with m(3-5) st3(2,3) show ?thesis by blast
qed

end

end
