(* ===== verification/Read_Only.thy ===== *)
theory Read_Only
  imports File_Ops
begin

text \<open>
  Reading does not write: while no cached block is modified, the operations that only read leave the device as it
  is, and \<^verbatim>\<open>block_cache_sync_all\<close> establishes such a state.
\<close>

definition clean_on :: "'d \<Rightarrow> 'd bstate \<Rightarrow> bool" where
  "clean_on d st \<longleftrightarrow> device st = d \<and> (\<forall>(i, s) \<in> set (bqueue st). \<not> modified (slot_cache s))"

definition read_only :: "('d bstate \<Rightarrow> ('v \<times> 'd bstate) res) \<Rightarrow> bool" where
  "read_only f \<longleftrightarrow> (\<forall>d st v st'. clean_on d st \<longrightarrow> f st = Inr (v, st') \<longrightarrow> clean_on d st')"

lemma read_onlyI:
  "(\<And>d st v st'. clean_on d st \<Longrightarrow> f st = Inr (v, st') \<Longrightarrow> clean_on d st') \<Longrightarrow> read_only f"
  unfolding read_only_def by blast

lemma read_onlyD: "read_only f \<Longrightarrow> clean_on d st \<Longrightarrow> f st = Inr (v, st') \<Longrightarrow> clean_on d st'"
  unfolding read_only_def by blast

text \<open>Sequencing, and steps that do not touch the cache.\<close>

lemma read_only_return: "read_only (\<lambda>st. Inr (v, st))"
  by (simp add: read_only_def)

lemma read_only_bind:
  assumes "read_only f" "\<And>v. read_only (g v)"
  shows "read_only (\<lambda>st. rbind (f st) (\<lambda>(v, st1). g v st1))"
proof (rule read_onlyI)
  fix d st v st' assume "clean_on d st" "rbind (f st) (\<lambda>(v, st1). g v st1) = Inr (v, st')"
  then show "clean_on d st'" using assms(1) assms(2) by (auto elim!: rbindE dest: read_onlyD)
qed

lemma read_only_pure:
  assumes "\<And>v. read_only (g v)"
  shows "read_only (\<lambda>st. rbind r (\<lambda>v. g v st))"
proof (rule read_onlyI)
  fix d st v st' assume "clean_on d st" "rbind r (\<lambda>v. g v st) = Inr (v, st')"
  then show "clean_on d st'" using assms by (auto elim!: rbindE dest: read_onlyD)
qed

section \<open>The cache\<close>

lemma get_block_cache_clean:
  assumes "clean_on d st" "get_block_cache D i st = Inr st'"
  shows "clean_on d st'"
proof -
  have ev: "clean_on d (st\<lparr>bqueue := remove_at idx (bqueue st), device := dev1\<rparr>)"
    if "find_index p (bqueue st) = Some idx" "sync D (slot_cache (snd (bqueue st ! idx))) (device st) = Inr (c, dev1)" for p idx c dev1
  proof -
    have "bqueue st ! idx \<in> set (bqueue st)" using that(1) by (simp add: find_index_lt)
    then have "\<not> modified (slot_cache (snd (bqueue st ! idx)))" using assms(1) by (auto simp: clean_on_def)
    with that(2) have "dev1 = device st" by (simp add: sync_def)
    then show ?thesis using assms(1) set_remove_at_subset [of idx "bqueue st"] by (auto simp: clean_on_def)
  qed
  have "clean_on d (st1\<lparr>bqueue := push_back (i, \<lparr>slot_cache = c, slot_locked = False\<rparr>) (bqueue st1)\<rparr>)"
    if "clean_on d st1" "block_cache_new D i dev = Inr c" for st1 c dev
    using that by (auto simp: clean_on_def push_back_def block_cache_new_def elim!: rbindE)
  then have push: "clean_on d st'" if "clean_on d st1" "rbind (block_cache_new D i (device st1)) (\<lambda>c.
      Inr (st1\<lparr>bqueue := push_back (i, \<lparr>slot_cache = c, slot_locked = False\<rparr>) (bqueue st1)\<rparr>)) = Inr st'" for st1
    using that by (auto elim!: rbindE)
  show ?thesis
  proof (cases "find_index (\<lambda>pair. fst pair = i) (bqueue st) = None")
    case True
    let ?evict = "if length (bqueue st) = BLOCK_CACHE_SIZE then (case find_index (\<lambda>pair. \<not> slot_locked (snd pair)) (bqueue st) of
        Some idx \<Rightarrow> rbind (sync D (slot_cache (snd (bqueue st ! idx))) (device st)) (\<lambda>(_, dev1).
          Inr (st\<lparr>bqueue := remove_at idx (bqueue st), device := dev1\<rparr>)) | None \<Rightarrow> Inl Explicit_Panic) else Inr st"
    have "rbind ?evict (\<lambda>st1. rbind (block_cache_new D i (device st1)) (\<lambda>c.
        Inr (st1\<lparr>bqueue := push_back (i, \<lparr>slot_cache = c, slot_locked = False\<rparr>) (bqueue st1)\<rparr>))) = Inr st'"
      using assms(2) True by (simp only: get_block_cache_def simp_thms if_False)
    then obtain st1 where "?evict = Inr st1" "rbind (block_cache_new D i (device st1)) (\<lambda>c.
        Inr (st1\<lparr>bqueue := push_back (i, \<lparr>slot_cache = c, slot_locked = False\<rparr>) (bqueue st1)\<rparr>)) = Inr st'" by (rule rbindE)
    moreover from this(1) have "clean_on d st1" using assms(1) ev by (auto elim!: rbindE split: if_splits option.splits)
    ultimately show ?thesis using push by blast
  qed (use assms in \<open>simp add: get_block_cache_def\<close>)
qed

lemma lock_block_clean:
  assumes "clean_on d st" "lock_block D i st = Inr (c, st')"
  shows "clean_on d st' \<and> \<not> modified c"
proof -
  from assms(2) obtain st1 s where g: "get_block_cache D i st = Inr st1" "slot_at (bqueue st1) i = Some s" "c = slot_cache s"
    "st' = st1\<lparr>bqueue := map (\<lambda>(j, s'). (j, if j = i then s'\<lparr>slot_locked := True\<rparr> else s')) (bqueue st1)\<rparr>"
    unfolding lock_block_def by (auto elim!: rbindE simp: unwrap_eq_Inr split: if_splits)
  note st1 = get_block_cache_clean [OF assms(1) g(1)]
  have "(i, s) \<in> set (bqueue st1)" using g(2) by (simp add: slot_at_def map_of_SomeD)
  with st1 g(3,4) show ?thesis by (auto simp: clean_on_def split: if_splits)
qed

lemma unlock_block_clean: "clean_on d st \<Longrightarrow> \<not> modified c \<Longrightarrow> clean_on d (unlock_block i c st)"
  by (auto simp: clean_on_def unlock_block_def split: if_splits)

lemma read_only_block_read:
  assumes "\<And>bs. read_only (f bs)"
  shows "read_only (block_read D i offset n f)"
proof (rule read_onlyI)
  fix d st v st' assume clean: "clean_on d st" and "block_read D i offset n f st = Inr (v, st')"
  then obtain c st1 bs st2 where r: "lock_block D i st = Inr (c, st1)" "f bs st1 = Inr (v, st2)" "st' = unlock_block i c st2"
    unfolding block_read_def by (auto elim!: rbindE)
  from lock_block_clean [OF clean r(1)] have l: "clean_on d st1" "\<not> modified c" by auto
  from read_onlyD [OF assms l(1) r(2)] l(2) r(3) show "clean_on d st'" by (simp add: unlock_block_clean)
qed

lemma sync_slots_clean:
  "sync_slots D q dev = Inr (q1, dev1) \<Longrightarrow> \<forall>(i, s) \<in> set q1. \<not> modified (slot_cache s)"
proof (induction q arbitrary: dev q1 dev1)
  case (Cons p q)
  obtain i s where p: "p = (i, s)" by force
  from Cons.prems obtain c dev2 q2 where r: "sync D (slot_cache s) dev = Inr (c, dev2)" "sync_slots D q dev2 = Inr (q2, dev1)"
    "q1 = (i, s\<lparr>slot_cache := c\<rparr>) # q2" unfolding p by (auto elim!: rbindE split: if_splits)
  have "\<not> modified c" using r(1) by (auto simp: sync_def Let_def elim!: rbindE split: if_splits)
  with Cons.IH [OF r(2)] r(3) show ?case by simp
qed simp

lemma sync_all_clean: "block_cache_sync_all D st = Inr st' \<Longrightarrow> clean_on (device st') st'"
  unfolding block_cache_sync_all_def clean_on_def by (auto elim!: rbindE dest!: sync_slots_clean)

text \<open>A clean cache shows the device.\<close>

lemma clean_device:
  assumes "bc_rep contents nblk dev_ok st B H" "clean_on d st" "k < nblk"
  shows "contents d k = B k"
proof (cases "slot_at (bqueue st) k")
  case None
  then show ?thesis using assms by (auto simp: bc_rep_def bc_view_def clean_on_def)
next
  case (Some s)
  then have "\<not> modified (slot_cache s)" using assms(2) by (auto simp: slot_at_def clean_on_def dest!: map_of_SomeD)
  moreover have "slot_ok contents nblk (device st) k s" using assms(1) Some by (simp add: bc_rep_def)
  moreover have "cache (slot_cache s) = B k" using assms(1,3) Some by (force simp: bc_rep_def bc_view_def)
  ultimately show ?thesis using assms(2) by (simp add: slot_ok_def clean_on_def)
qed

section \<open>The operations that only read\<close>

lemma read_only_index: "read_only (read_index D blk k)"
  unfolding read_index_def by (rule read_only_block_read) (rule read_only_pure, rule read_only_return)

lemma read_only_get_block_id: "read_only (get_block_id D k ino)"
proof -
  have "read_only (\<lambda>st. rbind (read_index D blk j st) (\<lambda>(ind1, st1). read_index D ind1 m st1))" for blk j m
    by (rule read_only_bind [OF read_only_index read_only_index])
  moreover have "read_only (\<lambda>st. rbind r (\<lambda>v. Inr (v, st)))" for r :: "u32 res"
    by (intro read_only_pure read_only_return)
  ultimately show ?thesis
    unfolding get_block_id_def Let_def using read_only_index
    by (cases "k < INODE_DIRECT_COUNT"; cases "k < INDIRECT1_BOUND") simp_all
qed

lemma read_only_read_loop:
  "clean_on d st \<Longrightarrow> read_loop D ino start sb end1 st = Inr (v, st') \<Longrightarrow> clean_on d st'"
proof (induction D ino start sb end1 st arbitrary: v st' rule: read_loop.induct)
  case (1 D ino start sb end1 st)
  let ?e = "min ((start div BLOCK_SZ + 1) * BLOCK_SZ) end1"
  from 1(3) obtain blk st1 dst st2 where r: "get_block_id D sb ino st = Inr (blk, st1)"
    "block_read D (unat blk) 0 BLOCK_SZ (\<lambda>data_block st. Inr (take (?e - start) (drop (start mod BLOCK_SZ) data_block), st)) st1 = Inr (dst, st2)"
    "(if ?e = end1 then Inr (dst, st2) else rbind (read_loop D ino ?e (sb + 1) end1 st2) (\<lambda>(rest, st3). Inr (dst @ rest, st3))) = Inr (v, st')"
    unfolding read_loop.simps [of D ino start] Let_def by (auto elim!: rbindE)
  have "clean_on d st1" by (rule read_onlyD [OF read_only_get_block_id 1(2) r(1)])
  then have st2: "clean_on d st2" by (rule read_onlyD [OF read_only_block_read [OF read_only_return] _ r(2)])
  show ?case
  proof (cases "?e = end1")
    case False
    with r(3) have "rbind (read_loop D ino ?e (sb + 1) end1 st2) (\<lambda>(rest, st3). Inr (dst @ rest, st3)) = Inr (v, st')"
      by (simp only: if_False)
    then obtain rest where "read_loop D ino ?e (sb + 1) end1 st2 = Inr (rest, st')" by (auto elim!: rbindE)
    from 1(1) [OF refl refl r(1) _ r(2) _ False st2 this] show ?thesis by simp
  qed (use r(3) st2 in simp)
qed

lemma read_only_inode_read_at: "read_only (inode_read_at D offset len ino)"
  unfolding inode_read_at_def Let_def by (rule read_onlyI) (auto intro: read_only_read_loop split: if_splits)

lemma read_only_dirent: "read_only (read_dirent D ino i)"
  unfolding read_dirent_def by (intro read_only_bind read_only_inode_read_at read_only_pure read_only_return)

lemma read_only_find_entry: "read_only (find_entry D name ino is)"
proof (induction "is")
  case (Cons i js)
  have "read_only (\<lambda>st. if n = name then Inr (Some k, st) else find_entry D name ino js st)" for n k
    using Cons by (cases "n = name") (simp_all add: read_only_return)
  then have "read_only (\<lambda>st. rbind (read_dirent D ino i st) (\<lambda>(e, st1). rbind (dir_entry_name e) (\<lambda>n.
       if n = name then Inr (Some (de_inode_number e), st1) else find_entry D name ino js st1)))"
    by (intro read_only_bind read_only_dirent read_only_pure)
  then show ?case by simp
qed (simp add: read_only_return)

lemma read_only_names: "read_only (read_names D ino is)"
proof (induction "is")
  case (Cons i js)
  then have "read_only (\<lambda>st. rbind (read_dirent D ino i st) (\<lambda>(e, st1). rbind (dir_entry_name e) (\<lambda>n.
     rbind (read_names D ino js st1) (\<lambda>(v, st2). Inr (n # v, st2)))))"
    by (intro read_only_bind read_only_dirent read_only_pure read_only_return)
  then show ?case by simp
qed (simp add: read_only_return)

lemma read_only_disk_inode:
  assumes "\<And>ino. read_only (f ino)"
  shows "read_only (read_disk_inode D vi f)"
  unfolding read_disk_inode_def by (intro read_only_block_read read_only_pure assms)

lemma read_only_vfs:
  "read_only (vfs_find D fs vi name)" "read_only (vfs_readdir D vi)" "read_only (vfs_read_at D vi offset len)"
proof -
  have find: "read_only (find_inode_id D name ino)" for ino
    unfolding find_inode_id_def Let_def by (intro read_only_pure read_only_find_entry)
  have "read_only (\<lambda>st1. case r of Some inode_id \<Rightarrow> rbind (get_disk_inode_pos fs (unat inode_id)) (\<lambda>(blk, offset).
           Inr (Some (vfs_inode_new blk offset), st1)) | None \<Rightarrow> Inr (None, st1))" for r
    by (rule read_onlyI) (auto split: option.splits elim!: rbindE)
  with find show "read_only (vfs_find D fs vi name)"
    unfolding vfs_find_def by (intro read_only_disk_inode read_only_bind)
  show "read_only (vfs_readdir D vi)" "read_only (vfs_read_at D vi offset len)"
    unfolding vfs_readdir_def vfs_read_at_def Let_def
    by (intro read_only_disk_inode read_only_names read_only_inode_read_at)+
qed

end
