(* ===== verification/Efs_Files.thy ===== *)
theory Efs_Files
  imports Efs_Refine Read_Only
begin

text \<open>
  The file system against its specification: a table of files. Every operation of \<^verbatim>\<open>easy-fs/src/vfs.rs\<close> does on the
  disk what the specification does on the table, from \<^verbatim>\<open>create\<close> on an arbitrary device, through any sequence of
  operations, and across a restart.
\<close>

section \<open>The specification\<close>

datatype fs_op = Op_Create nat "u8 list" | Op_Find nat "u8 list" | Op_Readdir nat
  | Op_Read nat nat nat | Op_Write nat nat "u8 list" | Op_Clear nat

datatype fs_out = Out_Found "vfs_inode option" | Out_Names "u8 list list" | Out_Bytes "u8 list" | Out_Count nat | Out_Done

definition entries :: "u8 list \<Rightarrow> dir_entry list" where
  "entries d = map (\<lambda>i. dir_entry_of (take DIRENT_SZ (drop (DIRENT_SZ * i) d))) [0..<length d div DIRENT_SZ]"

fun names_of :: "dir_entry list \<Rightarrow> u8 list list res" where
  "names_of [] = Inr []"
| "names_of (e # es) = rbind (dir_entry_name e) (\<lambda>n. rbind (names_of es) (\<lambda>ns. Inr (n # ns)))"

text \<open>
  The operations on the table, with \<open>da\<close> data blocks to hold the files. \<open>None\<close> is outside the contract: no such inode,
  an empty buffer, a name that is too long or not well-formed, a file that is too large, or no room.
\<close>

fun files_exec :: "efs \<Rightarrow> nat \<Rightarrow> fs_op \<Rightarrow> files \<Rightarrow> (fs_out \<times> files) option" where
  "files_exec fs da (Op_Create r name) F =
     (case (F r, find (\<lambda>j. F j = None) [0..<bitmap_maximum (inode_bitmap fs)]) of
        (Some (ty, d), Some new) \<Rightarrow>
          (case dir_entry_new name (of_nat new) of
             Inr e \<Rightarrow>
               let offset = length d div DIRENT_SZ * DIRENT_SZ;
                   F' = F(new \<mapsto> (File, []), r \<mapsto> (ty, write_bytes offset (dir_entry_bytes e) d))
               in if offset + DIRENT_SZ \<le> MAX_FILE \<and> used_blocks F' \<le> da
                  then Some (Out_Found (Some (inode_place fs new)), F') else None
           | Inl _ \<Rightarrow> None)
      | _ \<Rightarrow> None)"
| "files_exec fs da (Op_Find r name) F =
     (case F r of
        Some (Directory, d) \<Rightarrow>
          (case lookup_name name (entries d) of
             Inr (Some k) \<Rightarrow> if unat k < bitmap_maximum (inode_bitmap fs)
                             then Some (Out_Found (Some (inode_place fs (unat k))), F) else None
           | Inr None \<Rightarrow> Some (Out_Found None, F)
           | Inl _ \<Rightarrow> None)
      | _ \<Rightarrow> None)"
| "files_exec fs da (Op_Readdir r) F =
     (case F r of
        Some (_, d) \<Rightarrow> (case names_of (entries d) of Inr ns \<Rightarrow> Some (Out_Names ns, F) | Inl _ \<Rightarrow> None)
      | None \<Rightarrow> None)"
| "files_exec fs da (Op_Read i offset len) F =
     (case F i of Some (_, d) \<Rightarrow> Some (Out_Bytes (take len (drop offset d)), F) | None \<Rightarrow> None)"
| "files_exec fs da (Op_Write i offset buf) F =
     (case F i of
        Some (ty, d) \<Rightarrow>
          let F' = F(i \<mapsto> (ty, write_bytes offset buf d))
          in if buf \<noteq> [] \<and> offset + length buf \<le> MAX_FILE \<and> used_blocks F' \<le> da
             then Some (Out_Count (length buf), F') else None
      | None \<Rightarrow> None)"
| "files_exec fs da (Op_Clear i) F =
     (case F i of Some (ty, _) \<Rightarrow> Some (Out_Done, F(i \<mapsto> (ty, []))) | None \<Rightarrow> None)"

fun files_run :: "efs \<Rightarrow> nat \<Rightarrow> fs_op list \<Rightarrow> files \<Rightarrow> (fs_out list \<times> files) option" where
  "files_run fs da [] F = Some ([], F)"
| "files_run fs da (op # ops) F =
     (case files_exec fs da op F of
        None \<Rightarrow> None
      | Some (out, F1) \<Rightarrow> map_option (\<lambda>(outs, F2). (out # outs, F2)) (files_run fs da ops F1))"

text \<open>The same operations of the code, on the inodes at their places.\<close>

fun efs_exec :: "'d device_ops \<Rightarrow> efs \<Rightarrow> fs_op \<Rightarrow> 'd bstate \<Rightarrow> (fs_out \<times> 'd bstate) res" where
  "efs_exec D fs (Op_Create r name) st =
     rbind (vfs_create D fs (inode_place fs r) name st) (\<lambda>(x, st1). Inr (Out_Found x, st1))"
| "efs_exec D fs (Op_Find r name) st =
     rbind (vfs_find D fs (inode_place fs r) name st) (\<lambda>(x, st1). Inr (Out_Found x, st1))"
| "efs_exec D fs (Op_Readdir r) st =
     rbind (vfs_readdir D (inode_place fs r) st) (\<lambda>(x, st1). Inr (Out_Names x, st1))"
| "efs_exec D fs (Op_Read i offset len) st =
     rbind (vfs_read_at D (inode_place fs i) offset len st) (\<lambda>(x, st1). Inr (Out_Bytes x, st1))"
| "efs_exec D fs (Op_Write i offset buf) st =
     rbind (vfs_write_at D fs (inode_place fs i) offset buf st) (\<lambda>(n, st1). Inr (Out_Count n, st1))"
| "efs_exec D fs (Op_Clear i) st =
     rbind (vfs_clear D fs (inode_place fs i) st) (\<lambda>(_, st1). Inr (Out_Done, st1))"

fun efs_run :: "'d device_ops \<Rightarrow> efs \<Rightarrow> fs_op list \<Rightarrow> 'd bstate \<Rightarrow> (fs_out list \<times> 'd bstate) res" where
  "efs_run D fs [] st = Inr ([], st)"
| "efs_run D fs (op # ops) st =
     rbind (efs_exec D fs op st) (\<lambda>(out, st1). rbind (efs_run D fs ops st1) (\<lambda>(outs, st2). Inr (out # outs, st2)))"

section \<open>The device is up to date after every operation\<close>

lemma sync_last_clean:
  "rbind (block_cache_sync_all D st) (\<lambda>st2. Inr (v, st2)) = Inr (w, st') \<Longrightarrow> clean_on (device st') st'"
  by (auto elim!: rbindE dest: sync_all_clean)

lemma vfs_changes_clean:
  "vfs_create D fs vi name st = Inr (x, st') \<Longrightarrow> clean_on (device st') st'"
  "vfs_write_at D fs vi offset buf st = Inr (n, st') \<Longrightarrow> clean_on (device st') st'"
  "vfs_clear D fs vi st = Inr (u, st') \<Longrightarrow> clean_on (device st') st'"
  unfolding vfs_create_def vfs_write_at_def vfs_clear_def split_def
  by ((erule sync_last_clean | erule rbindE)+)

lemma efs_exec_clean:
  assumes "clean_on (device st) st" "efs_exec D fs op st = Inr (out, st')"
  shows "clean_on (device st') st'"
proof -
  have same: "clean_on (device st') st'" if "clean_on d st'" for d using that by (simp add: clean_on_def)
  note reads = read_only_vfs [THEN read_onlyD, OF assms(1)]
  show ?thesis using assms(2) by (cases op) (auto elim!: rbindE intro: same dest: vfs_changes_clean reads)
qed

lemma efs_run_clean:
  "clean_on (device st) st \<Longrightarrow> efs_run D fs ops st = Inr (outs, st') \<Longrightarrow> clean_on (device st') st'"
proof (induction ops arbitrary: st outs)
  case (Cons op ops)
  from Cons.prems(2) obtain out st1 outs' where "efs_exec D fs op st = Inr (out, st1)" "efs_run D fs ops st1 = Inr (outs', st')"
    by (auto elim!: rbindE)
  with Cons.IH efs_exec_clean [OF Cons.prems(1)] show ?case by blast
qed simp

lemma efs_create_clean: "efs_create D total_blocks ib st = Inr (fs, st') \<Longrightarrow> clean_on (device st') st'"
  unfolding efs_create_def Let_def split_def by ((erule sync_last_clean | erule rbindE)+)

section \<open>Every operation refines the specification\<close>

lemma stored_vfs_ok:
  assumes "efs_inv nblk fs da B inos" "inos i = Some ino"
  shows "vfs_ok nblk B (inode_place fs i) ino"
proof -
  note fits = efs_invD(1) [OF assms(1)] and sf = efs_invD(2) [OF assms]
  have i: "i < bitmap_maximum (inode_bitmap fs)" using sf by (simp add: stored_file_def)
  note order = efs_fits_order [OF fits] order_trans
  have blk: "inode_area_start_block fs + i div 4 < data_area_start_block fs" using order(2) [OF i] order(5) by simp
  have "inode_ok nblk B Map.empty ino (inode_blocks ino)"
    using sf fits by (auto simp: inode_ok_def stored_file_def own_blocks_def efs_fits_def BLOCK_CACHE_SIZE_def)
  moreover have "inode_area_start_block fs + i div 4 \<notin> set (own_blocks B ino)" using own_block_marked(1) [OF assms] blk by fastforce
  moreover have "i mod 4 * 128 + 128 \<le> BLOCK_SZ" using mod_less_divisor [of 4 i] by (simp add: BLOCK_SZ_def)
  ultimately show ?thesis
    using sf blk order(6) by (simp add: vfs_ok_def stored_file_def stored_inode_def own_blocks_def sizeof_disk_inode_def)
qed

lemma efs_files_Some: "efs_files B inos i = Some (ty, d) \<longleftrightarrow> (\<exists>ino. inos i = Some ino \<and> ty = inode_type ino \<and> d = file_data B ino)"
  by (auto simp: efs_files_def)

context block_device
begin

lemma dirents_entries:
  assumes "rep st B H" "efs_inv nblk fs da B inos" "inos i = Some ino"
  shows "dirents B ino = entries (file_data B ino)"
  using stored_file_length [OF assms(1) efs_invD(1) [OF assms(2)] efs_invD(2) [OF assms(2,3)]] by (simp add: dirents_def entries_def)

lemma read_names_ret:
  assumes "rep st B H" "inode_ok nblk B H ino (inode_blocks ino)" "i \<le> unat (inode_size ino) div DIRENT_SZ"
    and "names_of (drop i (dirents B ino)) = Inr ns"
  shows "ret (read_names D ino [i..<unat (inode_size ino) div DIRENT_SZ] st) ns B H"
  using assms(1,3,4)
proof (induction "unat (inode_size ino) div DIRENT_SZ - i" arbitrary: i st ns)
  case 0
  then show ?case by (auto simp: dirents_def intro: retI)
next
  case (Suc n)
  then have i: "i < unat (inode_size ino) div DIRENT_SZ" by simp
  have d: "drop i (dirents B ino) = dirents B ino ! i # drop (Suc i) (dirents B ino)"
    using i by (intro Cons_nth_drop_Suc [symmetric]) (simp add: dirents_def)
  obtain st1 where st1: "read_dirent D ino i st = Inr (dirents B ino ! i, st1)" "rep st1 B H"
    by (rule retE [OF read_dirent_ret [OF Suc.prems(1) assms(2) i]])
  obtain m ms where m: "dir_entry_name (dirents B ino ! i) = Inr m" "names_of (drop (Suc i) (dirents B ino)) = Inr ms" "ns = m # ms"
    using Suc.prems(3) unfolding d by (auto simp: res_eq_simps)
  have "ret (read_names D ino [Suc i..<unat (inode_size ino) div DIRENT_SZ] st1) ms B H"
    using Suc.hyps(2) i by (intro Suc.hyps(1) [OF _ st1(2) _ m(2)]) auto
  then show ?case using st1(1) m(1,3) i by (auto simp: upt_conv_Cons elim!: retE intro: retI)
qed

lemma vfs_readdir_ret:
  assumes "rep st B Map.empty" "efs_inv nblk fs da B inos" "inos i = Some ino" "names_of (entries (file_data B ino)) = Inr ns"
  shows "ret (vfs_readdir D (inode_place fs i) st) ns B Map.empty"
  unfolding vfs_readdir_def
proof (rule read_disk_inode_ret [OF assms(1) stored_vfs_ok [OF assms(2,3)]])
  fix c st1 assume "rep st1 B [vi_block_id (inode_place fs i) \<mapsto> c]"
  from read_names_ret [OF this vfs_ok_locked [OF stored_vfs_ok [OF assms(2,3)]], of 0 ns] assms(4)
  show "ret (let file_count = unat (inode_size ino) div DIRENT_SZ in read_names D ino [0..<file_count] st1) ns B
      [vi_block_id (inode_place fs i) \<mapsto> c]"
    unfolding Let_def dirents_entries [OF assms(1-3)] by simp
qed

text \<open>\<^verbatim>\<open>create\<close>: the lowest free inode becomes an empty file, and the directory gets an entry for it.\<close>

lemma new_inode_ret:
  assumes rep: "rep st B Map.empty" and inv: "efs_inv nblk fs da B inos"
    and new: "find (\<lambda>j. efs_files B inos j = None) [0..<bitmap_maximum (inode_bitmap fs)] = Some new"
  shows "\<exists>st1 st2 B2. alloc_inode D fs st = Inr (new, st1) \<and> get_disk_inode_pos fs new =
      Inr (inode_area_start_block fs + new div 4, new mod 4 * 128)
    \<and> initialize_inode D (inode_area_start_block fs + new div 4) (new mod 4 * 128) File st1 = Inr ((), st2) \<and> rep st2 B2 Map.empty
    \<and> efs_inv nblk fs da B2 (inos(new \<mapsto> disk_inode_initialize File))
    \<and> efs_files B2 (inos(new \<mapsto> disk_inode_initialize File)) = (efs_files B inos)(new \<mapsto> (File, [])) \<and> B2 0 = B 0"
proof -
  let ?bm = "inode_bitmap fs" and ?blk = "inode_area_start_block fs + new div 4" and ?ino = "disk_inode_initialize File"
  note fits = efs_invD(1) [OF inv]
  note order = efs_fits_order [OF fits]
  have n: "new < bitmap_maximum ?bm" "inos new = None" "\<And>j. j < new \<Longrightarrow> inos j \<noteq> None"
    using new by (auto simp: find_Some_iff efs_files_def)
  have card: "card (dom (Map.empty :: nat \<rightharpoonup> block_cache)) < BLOCK_CACHE_SIZE" by (simp add: BLOCK_CACHE_SIZE_def)
  have free: "bitmap_free nblk ?bm Map.empty" using fits card by (auto simp: bitmap_free_def efs_fits_def)
  have unset: "\<not> bitmap_bit ?bm B new" using efs_invD(3) [OF inv n(1)] n(2) by blast
  obtain b B1 where a: "ret (bitmap_alloc D ?bm st) (Some b) B1 Map.empty" "b < bitmap_maximum ?bm" "\<not> bitmap_bit ?bm B b"
    "\<And>c. c < b \<Longrightarrow> bitmap_bit ?bm B c" "\<And>c. bitmap_bit ?bm B1 c \<longleftrightarrow> c = b \<or> bitmap_bit ?bm B c"
    "\<And>i. i \<noteq> b div BLOCK_BITS + start_block_id ?bm \<Longrightarrow> B1 i = B i"
    by (rule bitmap_alloc_some [OF rep free n(1) unset]) blast
  have "inos b = None" using efs_invD(3) [OF inv a(2)] a(3) by blast
  then have b: "b = new" using n(3) [of b] a(4) [of new] unset by (meson linorder_cases)
  have "new < 2 ^ 32" using n(1) fits by (simp add: efs_fits_def)
  then obtain st1 where st1: "alloc_inode D fs st = Inr (new, st1)" "rep st1 B1 Map.empty"
    using a(1) b by (auto simp: alloc_inode_def elim!: retE)
  have same: "B1 i = B i" if "inode_area_start_block fs \<le> i" for i using a(6) that order(1) [OF a(2)] by fastforce
  have pos: "get_disk_inode_pos fs new = Inr (?blk, new mod 4 * 128)"
    using order(2) [OF n(1)] order(8) by (intro get_disk_inode_pos_eq) linarith
  note place = place_block [OF rep inv n(1)]
  let ?B2 = "B1(?blk := put_bytes (new mod 4 * 128) (disk_inode_bytes ?ino (take 128 (drop (new mod 4 * 128) (B ?blk)))) (B ?blk))"
  have "ret (initialize_inode D ?blk (new mod 4 * 128) File st1) () ?B2 Map.empty"
    using initialize_inode_ret [OF st1(2) place(1) _ card, of "new mod 4" File] same [of ?blk] by simp
  then obtain st2 where st2: "initialize_inode D ?blk (new mod 4 * 128) File st1 = Inr ((), st2)" "rep st2 ?B2 Map.empty" by (rule retE)
  have dbits: "bitmap_bit (data_bitmap fs) B1 c = bitmap_bit (data_bitmap fs) B c" for c
    using order(4) by (intro bitmap_bit_cong same) simp
  have "?B2 0 = B 0" using a(6) [of 0] order(4,7,9) by simp
  moreover have "efs_inv nblk fs da ?B2 (inos(new \<mapsto> ?ino))" "efs_files ?B2 (inos(new \<mapsto> ?ino)) = (efs_files B inos)(new \<mapsto> (inode_type ?ino, []))"
    by (rule emptied_inv [OF inv n(1) _ _ place(2,3), of ?ino "{}"];
        use n(2) same dbits a(5) b order(4,5) in \<open>simp add: disk_inode_initialize_def\<close>)+
  ultimately show ?thesis using st1(1) pos st2 by (auto simp: disk_inode_initialize_def)
qed

lemma vfs_create_ret:
  assumes rep: "rep st B Map.empty" and inv: "efs_inv nblk fs da B inos" "inos r = Some ino"
    and new: "find (\<lambda>j. efs_files B inos j = None) [0..<bitmap_maximum (inode_bitmap fs)] = Some new"
      "dir_entry_new name (of_nat new) = Inr e"
  defines "offset \<equiv> length (file_data B ino) div DIRENT_SZ * DIRENT_SZ"
  defines "F \<equiv> (efs_files B inos)(new \<mapsto> (File, []), r \<mapsto> (inode_type ino, write_bytes offset (dir_entry_bytes e) (file_data B ino)))"
  assumes room: "offset + DIRENT_SZ \<le> MAX_FILE" "used_blocks F \<le> da"
  shows "\<exists>st' B' inos'. vfs_create D fs (inode_place fs r) name st = Inr (Some (inode_place fs new), st') \<and> rep st' B' Map.empty
    \<and> efs_inv nblk fs da B' inos' \<and> efs_files B' inos' = F \<and> B' 0 = B 0 \<and> (\<forall>k < nblk. contents (device st') k = B' k)"
proof -
  let ?inos = "inos(new \<mapsto> disk_inode_initialize File)"
  let ?f = "\<lambda>root_inode st. let file_count = unat (inode_size root_inode) div DIRENT_SZ; new_size = (file_count + 1) * DIRENT_SZ in
      rbind (vfs_increase_size D fs (new_size mod 2 ^ 32) root_inode st) (\<lambda>(root1, st').
      rbind (dir_entry_new name (of_nat new)) (\<lambda>dirent.
      rbind (inode_write_at D (file_count * DIRENT_SZ) (dir_entry_bytes dirent) root1 st') (\<lambda>(_, st''). Inr (((), root1), st''))))"
  from new_inode_ret [OF rep inv(1) new(1)] obtain st1 st2 B2 where a: "alloc_inode D fs st = Inr (new, st1)"
    "get_disk_inode_pos fs new = Inr (inode_area_start_block fs + new div 4, new mod 4 * 128)"
    "initialize_inode D (inode_area_start_block fs + new div 4) (new mod 4 * 128) File st1 = Inr ((), st2)" "rep st2 B2 Map.empty"
    "efs_inv nblk fs da B2 ?inos" "efs_files B2 ?inos = (efs_files B inos)(new \<mapsto> (File, []))" "B2 0 = B 0" by blast
  have "inos new = None" using new(1) by (auto simp: find_Some_iff efs_files_def)
  then have r: "?inos r = Some ino" "r \<noteq> new" using inv(2) by auto
  have fd: "file_data B2 ino = file_data B ino"
    using fun_cong [OF a(6), of r] r inv(2) by (simp add: efs_files_def)
  have len: "length (file_data B ino) = unat (inode_size ino)" by (rule stored_file_length [OF rep efs_invD(1) [OF inv(1)] efs_invD(2) [OF inv]])
  have e: "length (dir_entry_bytes e) = DIRENT_SZ"
    using new(2) by (auto simp: dir_entry_new_def dir_entry_bytes_def DIRENT_SZ_def NAME_LENGTH_LIMIT_def Let_def split: if_splits)
  then have nonempty: "dir_entry_bytes e \<noteq> []" by (auto simp: DIRENT_SZ_def)
  have small: "(unat (inode_size ino) div DIRENT_SZ + 1) * DIRENT_SZ mod 2 ^ 32 = offset + length (dir_entry_bytes e)"
    using room(1) e len by (simp add: offset_def MAX_FILE_def layout_consts BLOCK_SZ_def)
  have fits: "offset + length (dir_entry_bytes e) \<le> MAX_FILE" "used_blocks ((efs_files B2 ?inos)(r \<mapsto>
      (inode_type ino, write_bytes offset (dir_entry_bytes e) (file_data B2 ino)))) \<le> da"
    using room e by (simp_all add: F_def a(6) fd)
  have "\<exists>B' inos'. ret (modify_disk_inode D (inode_place fs r) ?f st2) () B' Map.empty \<and> efs_inv nblk fs da B' inos'
    \<and> efs_files B' inos' = (efs_files B2 ?inos)(r \<mapsto> (inode_type ino, write_bytes offset (dir_entry_bytes e) (file_data B2 ino))) \<and> B' 0 = B2 0"
  proof (rule modify_extended_ret [OF a(4,5) r(1)])
    fix c st1 assume "rep st1 B2 [inode_area_start_block fs + r div 4 \<mapsto> c]"
    from grow_and_write [OF this a(5) r(1) nonempty fits] obtain ino1 st3 B1 B3 where
      w: "vfs_increase_size D fs (offset + length (dir_entry_bytes e)) ino st1 = Inr (ino1, st3)"
        "ret (inode_write_at D offset (dir_entry_bytes e) ino1 st3) (length (dir_entry_bytes e)) B3 [inode_area_start_block fs + r div 4 \<mapsto> c]"
        "file_extended fs da B2 ino B3 ino1" "file_data B3 ino1 = write_bytes offset (dir_entry_bytes e) (file_data B2 ino)" by metis
    have off: "unat (inode_size ino) div DIRENT_SZ * DIRENT_SZ = offset" by (simp add: offset_def len)
    have "ret (?f ino st1) ((), ino1) B3 [inode_area_start_block fs + r div 4 \<mapsto> c]"
      using w(1,2) unfolding Let_def small off by (auto simp: new(2) elim!: retE intro: retI)
    with w(3,4) show "\<exists>ino1 B1. ret (?f ino st1) ((), ino1) B1 [inode_area_start_block fs + r div 4 \<mapsto> c]
      \<and> file_extended fs da B2 ino B1 ino1 \<and> file_data B1 ino1 = write_bytes offset (dir_entry_bytes e) (file_data B2 ino)" by blast
  qed
  then obtain B' inos' st3 where m: "modify_disk_inode D (inode_place fs r) ?f st2 = Inr ((), st3)" "rep st3 B' Map.empty"
    "efs_inv nblk fs da B' inos'" "efs_files B' inos' = F" "B' 0 = B 0"
    unfolding F_def a(6,7) fd by (auto elim!: retE)
  obtain st4 where st4: "block_cache_sync_all D st3 = Inr st4" "rep st4 B' Map.empty" "\<And>k. k < nblk \<Longrightarrow> contents (device st4) k = B' k"
    by (rule sync_all_ok [OF m(2)]) blast
  have place: "vfs_inode_new (inode_area_start_block fs + new div 4) (new mod 4 * 128) = inode_place fs new"
    by (simp add: inode_place_def sizeof_disk_inode_def)
  have "vfs_create D fs (inode_place fs r) name st = Inr (Some (inode_place fs new), st4)"
    unfolding vfs_create_def by (simp only: a(1-3) m(1) st4(1) rbind_simps prod.case place)
  with m(3-5) st4(2,3) show ?thesis by blast
qed

lemma efs_exec_refines:
  assumes rep: "rep st B Map.empty" and inv: "efs_inv nblk fs da B inos"
    and spec: "files_exec fs da op (efs_files B inos) = Some (out, F)"
  shows "\<exists>st' B' inos'. efs_exec D fs op st = Inr (out, st') \<and> rep st' B' Map.empty \<and> efs_inv nblk fs da B' inos'
    \<and> efs_files B' inos' = F \<and> B' 0 = B 0"
proof (cases op)
  case (Op_Create r name)
  obtain ty d new e where c: "efs_files B inos r = Some (ty, d)" "find (\<lambda>j. efs_files B inos j = None) [0..<bitmap_maximum (inode_bitmap fs)] = Some new"
    "dir_entry_new name (of_nat new) = Inr e" "length d div DIRENT_SZ * DIRENT_SZ + DIRENT_SZ \<le> MAX_FILE" "used_blocks F \<le> da"
    "F = (efs_files B inos)(new \<mapsto> (File, []), r \<mapsto> (ty, write_bytes (length d div DIRENT_SZ * DIRENT_SZ) (dir_entry_bytes e) d))"
    "out = Out_Found (Some (inode_place fs new))"
    using spec unfolding Op_Create by (auto simp: Let_def split: option.splits prod.splits sum.splits if_splits)
  then obtain ino where ino: "inos r = Some ino" "ty = inode_type ino" "d = file_data B ino" by (auto simp: efs_files_Some)
  from vfs_create_ret [OF rep inv ino(1) c(2,3)] c(4,5) obtain st' B' inos' where
    "vfs_create D fs (inode_place fs r) name st = Inr (Some (inode_place fs new), st')" "rep st' B' Map.empty" "efs_inv nblk fs da B' inos'"
    "efs_files B' inos' = F" "B' 0 = B 0" "\<forall>k < nblk. contents (device st') k = B' k"
    unfolding ino(2,3) c(6) by blast
  then show ?thesis unfolding Op_Create c(7) by (intro exI [of _ st'] exI [of _ B'] exI [of _ inos']) simp
next
  case (Op_Find r name)
  obtain d k where c: "efs_files B inos r = Some (Directory, d)" "lookup_name name (entries d) = Inr k" "F = efs_files B inos"
    "out = Out_Found (map_option (\<lambda>k. inode_place fs (unat k)) k)" "\<And>n. k = Some n \<Longrightarrow> unat n < bitmap_maximum (inode_bitmap fs)"
    using spec unfolding Op_Find by (auto split: option.splits prod.splits sum.splits if_splits disk_inode_type.splits)
  then obtain ino where ino: "inos r = Some ino" "is_dir ino" "d = file_data B ino" by (auto simp: efs_files_Some is_dir_def)
  have "inode_area_start_block fs + unat n div 4 < 2 ^ 32" if "k = Some n" for n
    using efs_fits_order(2) [OF efs_invD(1) [OF inv] c(5) [OF that]] efs_fits_order(8) [OF efs_invD(1) [OF inv]] by linarith
  with vfs_find_ret [OF rep stored_vfs_ok [OF inv ino(1)] ino(2), of name k fs] c(2)
  have "ret (vfs_find D fs (inode_place fs r) name st) (map_option (\<lambda>k. inode_place fs (unat k)) k) B Map.empty"
    unfolding dirents_entries [OF rep inv ino(1)] ino(3) by (simp add: inode_place_def sizeof_disk_inode_def)
  then obtain st' where "vfs_find D fs (inode_place fs r) name st = Inr (map_option (\<lambda>k. inode_place fs (unat k)) k, st')" "rep st' B Map.empty"
    by (rule retE)
  with inv show ?thesis unfolding Op_Find c(3,4) by (intro exI [of _ st'] exI [of _ B] exI [of _ inos]) simp
next
  case (Op_Readdir r)
  obtain ty d ns where c: "efs_files B inos r = Some (ty, d)" "names_of (entries d) = Inr ns" "F = efs_files B inos" "out = Out_Names ns"
    using spec unfolding Op_Readdir by (auto split: option.splits prod.splits sum.splits)
  then obtain ino where ino: "inos r = Some ino" "d = file_data B ino" by (auto simp: efs_files_Some)
  from vfs_readdir_ret [OF rep inv ino(1) c(2) [unfolded ino(2)]] obtain st' where
    "vfs_readdir D (inode_place fs r) st = Inr (ns, st')" "rep st' B Map.empty" by (rule retE)
  with inv show ?thesis unfolding Op_Readdir c(3,4) by (intro exI [of _ st'] exI [of _ B] exI [of _ inos]) simp
next
  case (Op_Read i offset len)
  obtain ty d where c: "efs_files B inos i = Some (ty, d)" "F = efs_files B inos" "out = Out_Bytes (take len (drop offset d))"
    using spec unfolding Op_Read by (auto split: option.splits prod.splits)
  then obtain ino where ino: "inos i = Some ino" "d = file_data B ino" by (auto simp: efs_files_Some)
  from vfs_read_at_ret [OF rep stored_vfs_ok [OF inv ino(1)], of offset len] obtain st' where
    "vfs_read_at D (inode_place fs i) offset len st = Inr (take len (drop offset d), st')" "rep st' B Map.empty"
    unfolding ino(2) by (rule retE)
  with inv show ?thesis unfolding Op_Read c(2,3) by (intro exI [of _ st'] exI [of _ B] exI [of _ inos]) simp
next
  case (Op_Write i offset buf)
  obtain ty d where c: "efs_files B inos i = Some (ty, d)" "buf \<noteq> []" "offset + length buf \<le> MAX_FILE" "used_blocks F \<le> da"
    "F = (efs_files B inos)(i \<mapsto> (ty, write_bytes offset buf d))" "out = Out_Count (length buf)"
    using spec unfolding Op_Write by (auto simp: Let_def split: option.splits prod.splits if_splits)
  then obtain ino where ino: "inos i = Some ino" "ty = inode_type ino" "d = file_data B ino" by (auto simp: efs_files_Some)
  from vfs_write_at_ret [OF rep inv ino(1) c(2,3)] c(4) obtain st' B' inos' where
    "vfs_write_at D fs (inode_place fs i) offset buf st = Inr (length buf, st')" "rep st' B' Map.empty" "efs_inv nblk fs da B' inos'"
    "efs_files B' inos' = F" "B' 0 = B 0" "\<forall>k < nblk. contents (device st') k = B' k"
    unfolding ino(2,3) c(5) by blast
  then show ?thesis unfolding Op_Write c(6) by (intro exI [of _ st'] exI [of _ B'] exI [of _ inos']) simp
next
  case (Op_Clear i)
  obtain ty d where c: "efs_files B inos i = Some (ty, d)" "F = (efs_files B inos)(i \<mapsto> (ty, []))" "out = Out_Done"
    using spec unfolding Op_Clear by (auto split: option.splits prod.splits)
  then obtain ino where ino: "inos i = Some ino" "ty = inode_type ino" by (auto simp: efs_files_Some)
  from vfs_clear_ret [OF rep inv ino(1)] obtain st' B' inos' where
    "vfs_clear D fs (inode_place fs i) st = Inr ((), st')" "rep st' B' Map.empty" "efs_inv nblk fs da B' inos'"
    "efs_files B' inos' = F" "B' 0 = B 0" "\<forall>k < nblk. contents (device st') k = B' k"
    unfolding ino(2) c(2) by blast
  then show ?thesis unfolding Op_Clear c(3) by (intro exI [of _ st'] exI [of _ B'] exI [of _ inos']) simp
qed

lemma efs_run_refines:
  assumes "rep st B Map.empty" "efs_inv nblk fs da B inos" "files_run fs da ops (efs_files B inos) = Some (outs, F)"
  shows "\<exists>st' B' inos'. efs_run D fs ops st = Inr (outs, st') \<and> rep st' B' Map.empty \<and> efs_inv nblk fs da B' inos'
    \<and> efs_files B' inos' = F \<and> B' 0 = B 0"
  using assms
proof (induction ops arbitrary: st B inos outs)
  case Nil
  then show ?case by (auto intro!: exI [of _ B] exI [of _ inos])
next
  case (Cons op ops)
  from Cons.prems(3) obtain out F1 outs' where f: "files_exec fs da op (efs_files B inos) = Some (out, F1)"
    "files_run fs da ops F1 = Some (outs', F)" "outs = out # outs'" by (auto split: option.splits)
  from efs_exec_refines [OF Cons.prems(1,2) f(1)] obtain st1 B1 inos1 where 1: "efs_exec D fs op st = Inr (out, st1)"
    "rep st1 B1 Map.empty" "efs_inv nblk fs da B1 inos1" "efs_files B1 inos1 = F1" "B1 0 = B 0" by blast
  from Cons.IH [OF 1(2,3) f(2) [folded 1(4)]] obtain st2 B2 inos2 where "efs_run D fs ops st1 = Inr (outs', st2)" "rep st2 B2 Map.empty"
    "efs_inv nblk fs da B2 inos2" "efs_files B2 inos2 = F" "B2 0 = B1 0" by blast
  with 1(1,5) f(3) show ?case by (intro exI [of _ st2] exI [of _ B2] exI [of _ inos2]) simp
qed

text \<open>A new file system holds one file, the empty root directory.\<close>

lemma efs_create_inv:
  assumes "rep st B Map.empty" "total_blocks \<le> nblk" "total_blocks < 2 ^ 32" "1 \<le> ib" "ib \<le> 2 ^ 20"
    and areas: "efs_areas total_blocks ib = Inr (ia, db, da)"
  shows "\<exists>st' B' inos. efs_create D total_blocks ib st = Inr (efs_layout ib ia db, st') \<and> rep st' B' Map.empty
    \<and> efs_inv nblk (efs_layout ib ia db) da B' inos \<and> efs_files B' inos = [0 \<mapsto> (Directory, [])]
    \<and> super_block_of (take 24 (B' 0)) = super_block_initialize (of_nat total_blocks) (of_nat ib) (of_nat ia) (of_nat db) (of_nat da)
    \<and> (\<forall>k < nblk. contents (device st') k = B' k)"
proof -
  let ?fs = "efs_layout ib ia db" and ?root = "disk_inode_initialize Directory" and ?inos = "[0 \<mapsto> disk_inode_initialize Directory]"
  have ib: "ib < 2 ^ 21" using assms(5) by simp
  note part = efs_areas_Inr [OF areas ib]
  have ia: "1 \<le> ia" using part(1) assms(4) by simp
  obtain st' B' where c: "efs_create D total_blocks ib st = Inr (?fs, st')" "rep st' B' Map.empty" "\<And>i. i < nblk \<Longrightarrow> contents (device st') i = B' i"
    "super_block_of (take 24 (B' 0)) = super_block_initialize (of_nat total_blocks) (of_nat ib) (of_nat ia) (of_nat db) (of_nat da)"
    "disk_inode_of (take 128 (B' (1 + ib))) = Inr ?root"
    "\<And>i. 1 < i \<Longrightarrow> i < total_blocks \<Longrightarrow> i \<noteq> 1 + ib \<Longrightarrow> B' i = replicate BLOCK_SZ 0"
    "\<And>c. c < bitmap_maximum (bitmap_new 1 ib) \<Longrightarrow> bitmap_bit (bitmap_new 1 ib) B' c \<longleftrightarrow> c = 0"
    by (rule efs_create_ret [OF assms(1-4) ib areas]) blast
  note layout = efs_layout_def bitmap_new_def bitmap_maximum_def BLOCK_BITS_eq
  have fits: "efs_fits nblk ?fs da" using part assms(2-5) by (simp add: efs_fits_def layout)
  note empty = empty_file [of ?root, simplified disk_inode_initialize_def disk_inode.simps, folded disk_inode_initialize_def]
  have root: "stored_file ?fs da B' 0 ?root"
    using c(5) assms(4) by (simp add: stored_file_def stored_inode_def sizeof_disk_inode_def empty layout)
      (simp add: disk_inode_initialize_def)
  have dbit: "\<not> bitmap_bit (data_bitmap ?fs) B' b" if "b < bitmap_maximum (data_bitmap ?fs)" for b
  proof (rule zero_block_bit)
    have "b div BLOCK_BITS < db" using that bitmap_block_lt [of b "data_bitmap ?fs"] by (simp add: layout)
    then show "B' (b div BLOCK_BITS + start_block_id (data_bitmap ?fs)) = replicate BLOCK_SZ 0"
      using part(2) ia assms(4) by (intro c(6)) (simp_all add: layout)
  qed
  have "efs_inv nblk ?fs da B' ?inos"
    unfolding efs_inv_def
  proof (intro conjI allI impI)
    show "bitmap_bit (inode_bitmap ?fs) B' i \<longleftrightarrow> i \<in> dom ?inos" if "i < bitmap_maximum (inode_bitmap ?fs)" for i
      using c(7) that by (simp add: efs_layout_def)
    show "B' (data_area_start_block ?fs + b) = replicate BLOCK_SZ 0" if "b < da" for b
      using that part(2) ia assms(4) by (intro c(6)) (simp_all add: layout)
  qed (use fits root dbit empty in \<open>auto split: if_splits\<close>)
  moreover have "efs_files B' ?inos = [0 \<mapsto> (Directory, [])]"
    by (rule ext) (simp add: efs_files_def empty, simp add: disk_inode_initialize_def)
  ultimately show ?thesis using c(1-4) by blast
qed

end

section \<open>Properties\<close>

text \<open>A device of 1030 blocks, with a file that is created and written with a gap.\<close>

definition demo_ops :: "fs_op list" where
  "demo_ops = [Op_Create 0 [0x61], Op_Write 1 2 [7]]"

definition demo_dirent :: "u8 list" where
  "demo_dirent = dir_entry_bytes \<lparr>de_name = 0x61 # replicate 27 0, de_inode_number = 1\<rparr>"

lemma demo_areas: "efs_areas 1030 1 = Inr (1024, 1, 3)"
  by (simp add: efs_areas_def bitmap_maximum_def bitmap_new_def BLOCK_BITS_eq sizeof_disk_inode_def
      BLOCK_SZ_def checked_u32_def checked_sub_def)

lemma demo_device_rep:
  "bc_rep file_block 1030 (\<lambda>f. 1030 * BLOCK_SZ \<le> length f) (cache_manager_new (replicate (1030 * BLOCK_SZ) 255))
     (file_block (replicate (1030 * BLOCK_SZ) 255)) Map.empty"
  by (rule bc_rep_new) simp

lemma used_blocks_two:
  assumes "i \<noteq> j"
  shows "used_blocks [i \<mapsto> (t, d), j \<mapsto> (t', d')] = blocks_of_length (length d) + blocks_of_length (length d')"
  using assms by (simp add: used_blocks_def)

lemma blocks_of_length_small: "0 < l \<Longrightarrow> l \<le> 512 \<Longrightarrow> blocks_of_length l = 1" "blocks_of_length 0 = 0"
proof -
  assume "0 < l" "l \<le> 512"
  then have "(511 + l) div 512 = 1" by linarith
  then show "blocks_of_length l = 1" by (simp add: blocks_of_length_def index_count_def BLOCK_SZ_def layout_consts)
qed (simp add: blocks_of_length_def index_count_def BLOCK_SZ_def layout_consts)

lemma length_demo_dirent: "length demo_dirent = 32"
  by (simp add: demo_dirent_def dir_entry_bytes_def)

lemma demo_files_run:
  "files_run (efs_layout 1 1024 1) 3 demo_ops [0 \<mapsto> (Directory, [])] =
     Some ([Out_Found (Some (inode_place (efs_layout 1 1024 1) 1)), Out_Count 1], [0 \<mapsto> (Directory, demo_dirent), 1 \<mapsto> (File, [0, 0, 7])])"
proof -
  define fs where "fs = efs_layout 1 1024 1"
  have max: "bitmap_maximum (inode_bitmap fs) = 4096" by (simp add: fs_def efs_layout_def bitmap_maximum_def bitmap_new_def BLOCK_BITS_eq)
  have "[0..<4096] = 0 # Suc 0 # [Suc (Suc 0)..<4096]" by (subst upt_conv_Cons, simp, subst upt_conv_Cons, simp, rule refl)
  then obtain zs where upt: "[0..<bitmap_maximum (inode_bitmap fs)] = 0 # 1 # zs" unfolding max by simp
  have e: "dir_entry_new [0x61] 1 = Inr \<lparr>de_name = 0x61 # replicate 27 0, de_inode_number = 1\<rparr>"
    by (simp add: dir_entry_new_def NAME_LENGTH_LIMIT_def put_bytes_def)
  have w: "write_bytes 0 demo_dirent [] = demo_dirent" "write_bytes 2 [7] [] = [0, 0, 7]"
    by (simp_all add: write_bytes_def numeral_2_eq_2)
  have twist: "([Suc 0 \<mapsto> (File, []), 0 \<mapsto> (Directory, demo_dirent)] :: files) = [0 \<mapsto> (Directory, demo_dirent), Suc 0 \<mapsto> (File, [])]"
    by (rule fun_upd_twist) simp
  have create: "files_exec fs 3 (Op_Create 0 [0x61]) [0 \<mapsto> (Directory, [])] =
      Some (Out_Found (Some (inode_place fs 1)), [0 \<mapsto> (Directory, demo_dirent), 1 \<mapsto> (File, [])])"
    using w(1) e by (simp add: upt DIRENT_SZ_def MAX_FILE_def layout_consts BLOCK_SZ_def demo_dirent_def [symmetric] twist
        used_blocks_two length_demo_dirent blocks_of_length_small)
  have "files_exec fs 3 (Op_Write 1 2 [7]) [0 \<mapsto> (Directory, demo_dirent), 1 \<mapsto> (File, [])] =
      Some (Out_Count 1, [0 \<mapsto> (Directory, demo_dirent), 1 \<mapsto> (File, [0, 0, 7])])"
    using w(2) by (simp add: MAX_FILE_def layout_consts BLOCK_SZ_def used_blocks_two length_demo_dirent blocks_of_length_small)
  with create show ?thesis by (simp only: fs_def [symmetric] demo_ops_def files_run.simps option.case prod.case option.map)
qed

text \<open>
  C3. The file system implements files. On any device, whatever it held, \<^verbatim>\<open>create\<close> makes a file system with an empty root
  directory; then every sequence of creating, finding, listing, reading, writing and clearing that fits into the data
  area returns exactly what the same sequence returns on a table of byte sequences: writes change the file they name
  and no other, grow it when they go past its end, and fill a gap with zeros. In the end the disk stands for the table,
  the data bitmap marks exactly the blocks of the files, and no block is lost or shared.
\<close>

theorem efs_implements_files:
  assumes "block_device D contents nblk dev_ok" "bc_rep contents nblk dev_ok st B Map.empty"
    and "total_blocks \<le> nblk" "total_blocks < 2 ^ 32" "1 \<le> ib" "ib \<le> 2 ^ 20" "efs_areas total_blocks ib = Inr (ia, db, da)"
    and "files_run (efs_layout ib ia db) da ops [0 \<mapsto> (Directory, [])] = Some (outs, F)"
  shows "\<exists>st1 st2 B' inos. efs_create D total_blocks ib st = Inr (efs_layout ib ia db, st1)
    \<and> efs_run D (efs_layout ib ia db) ops st1 = Inr (outs, st2) \<and> bc_rep contents nblk dev_ok st2 B' Map.empty
    \<and> efs_inv nblk (efs_layout ib ia db) da B' inos \<and> efs_files B' inos = F
    \<and> card {b. b < da \<and> bitmap_bit (data_bitmap (efs_layout ib ia db)) B' b} = used_blocks F"
proof -
  from block_device.efs_create_inv [OF assms(1-7)] obtain st1 B1 inos1 where c: "efs_create D total_blocks ib st = Inr (efs_layout ib ia db, st1)"
    "bc_rep contents nblk dev_ok st1 B1 Map.empty" "efs_inv nblk (efs_layout ib ia db) da B1 inos1" "efs_files B1 inos1 = [0 \<mapsto> (Directory, [])]"
    by blast
  from block_device.efs_run_refines [OF assms(1) c(2,3) assms(8) [folded c(4)]] obtain st2 B2 inos2 where
    r: "efs_run D (efs_layout ib ia db) ops st1 = Inr (outs, st2)" "bc_rep contents nblk dev_ok st2 B2 Map.empty"
      "efs_inv nblk (efs_layout ib ia db) da B2 inos2" "efs_files B2 inos2 = F" by blast
  from block_device.used_blocks_count [OF assms(1) r(2,3)] r c(1) show ?thesis by blast
qed

theorem efs_implements_files_witness:
  "\<exists>st1 st2. efs_create block_file_ops 1030 1 (cache_manager_new (replicate (1030 * BLOCK_SZ) 255)) = Inr (efs_layout 1 1024 1, st1)
     \<and> efs_run block_file_ops (efs_layout 1 1024 1) demo_ops st1 = Inr ([Out_Found (Some (inode_place (efs_layout 1 1024 1) 1)), Out_Count 1], st2)"
  using efs_implements_files [OF bf.block_device_axioms demo_device_rep _ _ _ _ demo_areas demo_files_run] by auto

text \<open>
  C16. Files survive a restart. After every sequence of operations everything is on the device: a new kernel with an empty
  block cache opens the file system, finds the same layout, and every further sequence of operations sees the files
  as they were left.
\<close>

theorem files_survive_restart:
  assumes "block_device D contents nblk dev_ok" "bc_rep contents nblk dev_ok st B Map.empty"
    and "total_blocks \<le> nblk" "total_blocks < 2 ^ 32" "1 \<le> ib" "ib \<le> 2 ^ 20" "efs_areas total_blocks ib = Inr (ia, db, da)"
    and "files_run (efs_layout ib ia db) da ops [0 \<mapsto> (Directory, [])] = Some (outs, F)"
    and "files_run (efs_layout ib ia db) da later F = Some (outs', F')"
  shows "\<exists>st1 st2 st3 st4. efs_create D total_blocks ib st = Inr (efs_layout ib ia db, st1)
    \<and> efs_run D (efs_layout ib ia db) ops st1 = Inr (outs, st2)
    \<and> efs_open D (cache_manager_new (device st2)) = Inr (efs_layout ib ia db, st3)
    \<and> efs_run D (efs_layout ib ia db) later st3 = Inr (outs', st4)"
proof -
  from block_device.efs_create_inv [OF assms(1-7)] obtain st1 B1 inos1 where c: "efs_create D total_blocks ib st = Inr (efs_layout ib ia db, st1)"
    "bc_rep contents nblk dev_ok st1 B1 Map.empty" "efs_inv nblk (efs_layout ib ia db) da B1 inos1" "efs_files B1 inos1 = [0 \<mapsto> (Directory, [])]"
    "super_block_of (take 24 (B1 0)) = super_block_initialize (of_nat total_blocks) (of_nat ib) (of_nat ia) (of_nat db) (of_nat da)"
    by blast
  from block_device.efs_run_refines [OF assms(1) c(2,3) assms(8) [folded c(4)]] obtain st2 B2 inos2 where
    r: "efs_run D (efs_layout ib ia db) ops st1 = Inr (outs, st2)" "bc_rep contents nblk dev_ok st2 B2 Map.empty"
      "efs_inv nblk (efs_layout ib ia db) da B2 inos2" "efs_files B2 inos2 = F" "B2 0 = B1 0" by blast
  have "clean_on (device st2) st2" by (rule efs_run_clean [OF efs_create_clean [OF c(1)] r(1)])
  then have disk: "contents (device st2) k = B2 k" if "k < nblk" for k using clean_device [OF r(2) _ that] by blast
  have "dev_ok (device st2)" using r(2) by (simp add: bc_rep_def)
  then have "bc_rep contents nblk dev_ok (cache_manager_new (device st2)) (contents (device st2)) Map.empty" by (rule bc_rep_new)
  then have new: "bc_rep contents nblk dev_ok (cache_manager_new (device st2)) B2 Map.empty"
    by (rule block_device.rep_cong [OF assms(1)]) (rule disk)
  note part = efs_areas_Inr [OF assms(7)]
  have size: "1 + ib + ia + db \<le> total_blocks" "0 < nblk" using part assms(3,5,6) by auto
  from c(5) r(5) size assms(4)
  have "bc_ret contents nblk dev_ok (efs_open D (cache_manager_new (device st2))) (efs_layout ib ia db) B2 Map.empty"
    by (intro block_device.efs_open_ret [OF assms(1) new]) auto
  then obtain st3 where st3: "efs_open D (cache_manager_new (device st2)) = Inr (efs_layout ib ia db, st3)" "bc_rep contents nblk dev_ok st3 B2 Map.empty"
    by (auto simp: bc_ret_def)
  from block_device.efs_run_refines [OF assms(1) st3(2) r(3)] assms(9) r(4) obtain st4 where "efs_run D (efs_layout ib ia db) later st3 = Inr (outs', st4)"
    by blast
  with c(1) r(1) st3(1) show ?thesis by blast
qed

theorem files_survive_restart_witness:
  "\<exists>st1 st2 st3 st4. efs_create block_file_ops 1030 1 (cache_manager_new (replicate (1030 * BLOCK_SZ) 255)) = Inr (efs_layout 1 1024 1, st1)
     \<and> efs_run block_file_ops (efs_layout 1 1024 1) demo_ops st1 = Inr ([Out_Found (Some (inode_place (efs_layout 1 1024 1) 1)), Out_Count 1], st2)
     \<and> efs_open block_file_ops (cache_manager_new (device st2)) = Inr (efs_layout 1 1024 1, st3)
     \<and> efs_run block_file_ops (efs_layout 1 1024 1) [Op_Read 1 0 10] st3 = Inr ([Out_Bytes [0, 0, 7]], st4)"
proof -
  have later: "files_run (efs_layout 1 1024 1) 3 [Op_Read 1 0 10] [0 \<mapsto> (Directory, demo_dirent), 1 \<mapsto> (File, [0, 0, 7])] =
      Some ([Out_Bytes [0, 0, 7]], [0 \<mapsto> (Directory, demo_dirent), 1 \<mapsto> (File, [0, 0, 7])])" by simp
  from files_survive_restart [OF bf.block_device_axioms demo_device_rep _ _ _ _ demo_areas demo_files_run later]
  show ?thesis by auto
qed

end
