(* ===== verification/Packer.thy ===== *)
theory Packer
  imports Efs_Files
begin

text \<open>
  The image packer \<^verbatim>\<open>easy_fs_pack\<close> of \<^verbatim>\<open>xtask/src/fs_pack.rs\<close>, and its composition with the kernels that boot from the
  image: every program that was packed is found under its name, with its bytes. The files of the host are a
  parameter; what the packer prints at the end is part of its result.
\<close>

section \<open>The packer\<close>

text \<open>\<^verbatim>\<open>File::set_len\<close> cuts a host file or extends it with zeros.\<close>

definition set_len :: "nat \<Rightarrow> block_file \<Rightarrow> block_file" where
  "set_len n f = take n f @ replicate (n - length f) 0"

text \<open>The loop over the test cases: \<open>host\<close> is what \<^verbatim>\<open>File::open\<close> and \<^verbatim>\<open>read_to_end\<close> give for the program in the target directory.\<close>

fun pack_cases ::
    "'d device_ops \<Rightarrow> efs \<Rightarrow> vfs_inode \<Rightarrow> (u8 list \<Rightarrow> u8 list option) \<Rightarrow> u8 list list \<Rightarrow> 'd bstate \<Rightarrow> (unit \<times> 'd bstate) res" where
  "pack_cases D fs root_inode host [] st = Inr ((), st)"
| "pack_cases D fs root_inode host (name # cases) st =
     rbind (unwrap (host name)) (\<lambda>all_data.
     rbind (vfs_create D fs root_inode name st) (\<lambda>(created, st1).
     rbind (unwrap created) (\<lambda>inode.
     rbind (vfs_write_at D fs inode 0 all_data st1) (\<lambda>(_, st2).
       pack_cases D fs root_inode host cases st2))))"

text \<open>
  \<^verbatim>\<open>fs_img\<close> is the host file that \<^verbatim>\<open>open\<close> returns, empty when it was created, or \<open>None\<close> when it fails; the
  result is the list of names the packer prints and the image it leaves.
\<close>

definition easy_fs_pack ::
    "(u8 list \<Rightarrow> u8 list option) \<Rightarrow> block_file option \<Rightarrow> u8 list list \<Rightarrow> (u8 list list \<times> block_file) option res" where
  "easy_fs_pack host fs_img cases =
     (case fs_img of
        None \<Rightarrow> Inr None
      | Some f \<Rightarrow>
          let block_file = set_len (64 * 2048 * 512) f in
          rbind (efs_create block_file_ops (64 * 2048) 1 (cache_manager_new block_file)) (\<lambda>(fs, st1).
          rbind (efs_root_inode fs) (\<lambda>root_inode.
          rbind (pack_cases block_file_ops fs root_inode host cases st1) (\<lambda>(_, st2).
          rbind (vfs_readdir block_file_ops root_inode st2) (\<lambda>(names, st3).
            Inr (Some (names, device st3)))))))"

section \<open>The directory of the image\<close>

text \<open>A name that fits into a directory entry with its terminator.\<close>

definition good_name :: "u8 list \<Rightarrow> bool" where
  "good_name n \<longleftrightarrow> length n \<le> NAME_LENGTH_LIMIT \<and> 0 \<notin> set n \<and> utf8_valid n"

definition dirent_of :: "nat \<Rightarrow> u8 list \<Rightarrow> dir_entry" where
  "dirent_of i n = \<lparr>de_name = put_bytes 0 n (replicate 28 0), de_inode_number = of_nat i\<rparr>"

definition pack_dir :: "u8 list list \<Rightarrow> u8 list" where
  "pack_dir ns = concat (map (\<lambda>i. dir_entry_bytes (dirent_of (Suc i) (ns ! i))) [0..<length ns])"

text \<open>The files of the image after the programs \<open>cs\<close> have been packed: the root directory and one file for each.\<close>

definition packed :: "(u8 list \<times> u8 list) list \<Rightarrow> files" where
  "packed cs = (\<lambda>i. if i = 0 then Some (Directory, pack_dir (map fst cs))
     else if i \<le> length cs then Some (File, snd (cs ! (i - 1))) else None)"

lemma dirent_of_good:
  assumes "good_name n"
  shows "dir_entry_new n (of_nat i) = Inr (dirent_of i n)" "length (dir_entry_bytes (dirent_of i n)) = DIRENT_SZ"
    "dir_entry_name (dirent_of i n) = Inr n" "dir_entry_of (dir_entry_bytes (dirent_of i n)) = dirent_of i n"
proof -
  have l: "length n \<le> 27" using assms by (simp add: good_name_def NAME_LENGTH_LIMIT_def)
  then show "dir_entry_new n (of_nat i) = Inr (dirent_of i n)"
    by (simp add: dir_entry_new_def dirent_of_def NAME_LENGTH_LIMIT_def Let_def)
  have "length (de_name (dirent_of i n)) = 28" using l by (simp add: dirent_of_def)
  then show "length (dir_entry_bytes (dirent_of i n)) = DIRENT_SZ" "dir_entry_of (dir_entry_bytes (dirent_of i n)) = dirent_of i n"
    by (simp_all add: dir_entry_bytes_def DIRENT_SZ_def dir_entry_roundtrip [unfolded dir_entry_bytes_def])
  have "28 - length n = Suc (27 - length n)" using l by simp
  then have name: "de_name (dirent_of i n) = n @ 0 # replicate (27 - length n) 0" by (simp add: dirent_of_def put_bytes_def)
  have "find_index (\<lambda>b. b = 0) (n @ 0 # replicate (27 - length n) 0) = Some (length n)"
    using assms by (subst find_index_append_None) (auto simp: find_index_None good_name_def)
  then show "dir_entry_name (dirent_of i n) = Inr n"
    using assms unfolding dir_entry_name_def name by (simp add: good_name_def)
qed

lemma length_pack_dir:
  assumes "\<forall>n \<in> set ns. good_name n"
  shows "length (pack_dir ns) = length ns * DIRENT_SZ"
  unfolding pack_dir_def by (rule length_chunks) (use assms dirent_of_good(2) in auto)

lemma pack_dir_snoc: "pack_dir (ns @ [n]) = pack_dir ns @ dir_entry_bytes (dirent_of (Suc (length ns)) n)"
proof -
  have "map (\<lambda>i. dir_entry_bytes (dirent_of (Suc i) ((ns @ [n]) ! i))) [0..<length ns] =
      map (\<lambda>i. dir_entry_bytes (dirent_of (Suc i) (ns ! i))) [0..<length ns]" by (simp add: nth_append)
  then show ?thesis unfolding pack_dir_def by (simp del: map_eq_conv)
qed

lemma entries_pack_dir:
  assumes "\<forall>n \<in> set ns. good_name n"
  shows "entries (pack_dir ns) = map (\<lambda>i. dirent_of (Suc i) (ns ! i)) [0..<length ns]"
proof -
  have "take DIRENT_SZ (drop (DIRENT_SZ * i) (pack_dir ns)) = dir_entry_bytes (dirent_of (Suc i) (ns ! i))" if "i < length ns" for i
  proof -
    let ?f = "\<lambda>i. dir_entry_bytes (dirent_of (Suc i) (ns ! i))"
    have len: "length (?f k) = DIRENT_SZ" if "k < length ns" for k using assms that by (simp add: dirent_of_good(2))
    have "take DIRENT_SZ (drop (i * DIRENT_SZ + 0) (concat (map ?f [0..<length ns]))) = take DIRENT_SZ (drop 0 (?f i))"
      using len that by (intro take_drop_chunk [where f = ?f]) auto
    then show ?thesis using len [OF that] by (simp add: pack_dir_def mult.commute)
  qed
  moreover have "length (pack_dir ns) div DIRENT_SZ = length ns" unfolding length_pack_dir [OF assms] by (simp add: DIRENT_SZ_def)
  ultimately show ?thesis using assms dirent_of_good(4) by (auto simp: entries_def)
qed

lemma names_of_map: "(\<And>i. i \<in> set is \<Longrightarrow> dir_entry_name (f i) = Inr (g i)) \<Longrightarrow> names_of (map f is) = Inr (map g is)"
  by (induction "is") auto

lemma names_pack_dir:
  assumes "\<forall>n \<in> set ns. good_name n"
  shows "names_of (entries (pack_dir ns)) = Inr ns"
proof -
  have "names_of (entries (pack_dir ns)) = Inr (map (\<lambda>i. ns ! i) [0..<length ns])"
    unfolding entries_pack_dir [OF assms] using assms dirent_of_good(3) by (intro names_of_map) simp
  then show ?thesis by (simp add: map_nth)
qed

lemma lookup_map:
  assumes "\<And>i. i < k \<Longrightarrow> dir_entry_name (f i) = Inr (g i) \<and> g i \<noteq> name" "dir_entry_name (f k) = Inr name" "j \<le> k" "k < n"
  shows "lookup_name name (map f [j..<n]) = Inr (Some (de_inode_number (f k)))"
  using assms(3,4)
proof (induction "k - j" arbitrary: j)
  case 0
  then have "[j..<n] = k # [Suc k..<n]" by (simp add: upt_conv_Cons)
  with assms(2) show ?case by simp
next
  case (Suc m)
  then have j: "j < k" "[j..<n] = j # [Suc j..<n]" by (simp_all add: upt_conv_Cons)
  with Suc assms(1) [OF j(1)] show ?case by simp
qed

lemma lookup_pack_dir:
  assumes "\<forall>n \<in> set ns. good_name n" "distinct ns" "k < length ns"
  shows "lookup_name (ns ! k) (entries (pack_dir ns)) = Inr (Some (of_nat (Suc k)))"
proof -
  have "lookup_name (ns ! k) (map (\<lambda>i. dirent_of (Suc i) (ns ! i)) [0..<length ns]) =
      Inr (Some (de_inode_number (dirent_of (Suc k) (ns ! k))))"
  proof (rule lookup_map [where g = "\<lambda>i. ns ! i"])
    show "dir_entry_name (dirent_of (Suc i) (ns ! i)) = Inr (ns ! i) \<and> ns ! i \<noteq> ns ! k" if "i < k" for i
      using that assms by (simp add: dirent_of_good(3) nth_eq_iff_index_eq)
  qed (use assms dirent_of_good(3) in auto)
  then show ?thesis unfolding entries_pack_dir [OF assms(1)] by (simp add: dirent_of_def)
qed

section \<open>Packing one program after the other\<close>

lemma used_blocks_packed:
  "used_blocks (packed cs) = blocks_of_length (length (pack_dir (map fst cs))) + (\<Sum>c \<leftarrow> cs. blocks_of_length (length (snd c)))"
proof -
  let ?g = "\<lambda>i. blocks_of_length (length (snd (the (packed cs i))))"
  have dom: "dom (packed cs) = insert 0 (Suc ` {0..<length cs})"
    unfolding packed_def dom_def image_Suc_atLeastLessThan by (auto split: if_splits)
  have "sum ?g (Suc ` {0..<length cs}) = (\<Sum>i = 0..<length cs. blocks_of_length (length (snd (cs ! i))))"
    by (subst sum.reindex) (auto simp: packed_def intro!: sum.cong)
  also have "\<dots> = (\<Sum>c \<leftarrow> cs. blocks_of_length (length (snd c)))"
    by (simp add: sum_list_sum_nth)
  finally show ?thesis unfolding used_blocks_def dom by (subst sum.insert) (auto simp: packed_def)
qed

lemma packed_snoc:
  "packed (cs @ [(n, d)]) = (packed cs)(Suc (length cs) \<mapsto> (File, []),
     0 \<mapsto> (Directory, pack_dir (map fst cs) @ dir_entry_bytes (dirent_of (Suc (length cs)) n)), Suc (length cs) \<mapsto> (File, d))"
  using pack_dir_snoc [of "map fst cs" n] by (auto simp: packed_def nth_append fun_eq_iff)

text \<open>What the packer needs of the programs: distinct good names, a file in the host with bytes, and room in the image.\<close>

definition packable :: "nat \<Rightarrow> nat \<Rightarrow> (u8 list \<times> u8 list) list \<Rightarrow> bool" where
  "packable inodes da cs \<longleftrightarrow> (\<forall>(n, d) \<in> set cs. good_name n \<and> d \<noteq> [] \<and> length d \<le> MAX_FILE)
     \<and> length cs < inodes \<and> length cs * DIRENT_SZ \<le> MAX_FILE
     \<and> blocks_of_length (length cs * DIRENT_SZ) + (\<Sum>c \<leftarrow> cs. blocks_of_length (length (snd c))) \<le> da"

lemma packable_prefix:
  assumes "packable inodes da (cs @ ds)"
  shows "packable inodes da cs"
proof -
  have "blocks_of_length (length cs * DIRENT_SZ) \<le> blocks_of_length (length (cs @ ds) * DIRENT_SZ)"
    by (rule blocks_of_length_mono) simp
  with assms show ?thesis by (auto simp: packable_def add_mult_distrib)
qed

lemma packable_used: "packable inodes da cs \<Longrightarrow> used_blocks (packed cs) \<le> da"
  unfolding used_blocks_packed by (subst length_pack_dir) (auto simp: packable_def)

lemma pack_step:
  assumes "packable (bitmap_maximum (inode_bitmap fs)) da (cs @ [(n, d)])"
  shows "\<exists>F. files_exec fs da (Op_Create 0 n) (packed cs) = Some (Out_Found (Some (inode_place fs (Suc (length cs)))), F)
    \<and> files_exec fs da (Op_Write (Suc (length cs)) 0 d) F = Some (Out_Count (length d), packed (cs @ [(n, d)]))"
proof -
  let ?k = "Suc (length cs)" and ?d = "pack_dir (map fst cs)"
  let ?F = "(packed cs)(?k \<mapsto> (File, []), 0 \<mapsto> (Directory, ?d @ dir_entry_bytes (dirent_of ?k n)))"
  have g: "good_name n" "d \<noteq> []" "length d \<le> MAX_FILE" "?k < bitmap_maximum (inode_bitmap fs)"
    "length cs * DIRENT_SZ + DIRENT_SZ \<le> MAX_FILE" and names: "\<forall>m \<in> set (map fst cs). good_name m"
    using assms by (auto simp: packable_def)
  note e = dirent_of_good [OF g(1)]
  have find: "find (\<lambda>j. packed cs j = None) [0..<bitmap_maximum (inode_bitmap fs)] = Some ?k"
    using g(4) by (auto simp: find_Some_iff packed_def intro!: exI [of _ ?k])
  have len: "length ?d = length cs * DIRENT_SZ" using length_pack_dir [OF names] by simp
  then have off: "length ?d div DIRENT_SZ * DIRENT_SZ = length ?d" and room: "length ?d + DIRENT_SZ \<le> MAX_FILE"
    using g(5) by (simp_all add: DIRENT_SZ_def)
  have w: "write_bytes (length ?d) (dir_entry_bytes (dirent_of ?k n)) ?d = ?d @ dir_entry_bytes (dirent_of ?k n)" "write_bytes 0 d [] = d"
    by (simp_all add: write_bytes_def)
  have F': "?F(?k \<mapsto> (File, d)) = packed (cs @ [(n, d)])" by (simp add: packed_snoc)
  have used: "used_blocks (packed (cs @ [(n, d)])) \<le> da" by (rule packable_used [OF assms])
  have "finite (dom (packed cs))" by (rule finite_subset [of _ "{..length cs}"]) (auto simp: packed_def split: if_splits)
  then have "finite (dom ?F)" by simp
  from used_blocks_upd [OF this, of ?k "(File, d)"] have "used_blocks ?F \<le> da" using used unfolding F' by (simp add: blocks_of_length_small(2))
  then have "files_exec fs da (Op_Create 0 n) (packed cs) = Some (Out_Found (Some (inode_place fs ?k)), ?F)"
    using find e(1) [of ?k] room w(1) by (simp add: packed_def [of cs, THEN fun_cong, of 0] off del: of_nat_Suc)
  moreover have "files_exec fs da (Op_Write ?k 0 d) ?F = Some (Out_Count (length d), packed (cs @ [(n, d)]))"
    using g(2,3) used w(2) F' by simp
  ultimately show ?thesis by blast
qed

context block_device
begin

lemma pack_cases_ret:
  assumes "rep st B Map.empty" "efs_inv nblk fs da B inos" "efs_files B inos = packed done" "clean_on (device st) st"
    and "packable (bitmap_maximum (inode_bitmap fs)) da (done @ cs)" "\<forall>(n, d) \<in> set cs. host n = Some d"
  shows "\<exists>st' B' inos'. pack_cases D fs (inode_place fs 0) host (map fst cs) st = Inr ((), st') \<and> rep st' B' Map.empty
    \<and> efs_inv nblk fs da B' inos' \<and> efs_files B' inos' = packed (done @ cs) \<and> B' 0 = B 0 \<and> clean_on (device st') st'"
  using assms
proof (induction cs arbitrary: st B inos "done")
  case Nil
  then show ?case by auto
next
  case (Cons c cs)
  obtain n d where c: "c = (n, d)" by force
  have p: "packable (bitmap_maximum (inode_bitmap fs)) da (done @ [(n, d)])"
    using packable_prefix [of _ _ "done @ [(n, d)]" cs] Cons.prems(5) c by simp
  from pack_step [OF p] obtain F where F: "files_exec fs da (Op_Create 0 n) (packed done) = Some (Out_Found (Some (inode_place fs (Suc (length done)))), F)"
    "files_exec fs da (Op_Write (Suc (length done)) 0 d) F = Some (Out_Count (length d), packed (done @ [(n, d)]))" by blast
  from efs_exec_refines [OF Cons.prems(1,2) F(1) [folded Cons.prems(3)]] obtain st1 B1 inos1 where
    1: "efs_exec D fs (Op_Create 0 n) st = Inr (Out_Found (Some (inode_place fs (Suc (length done)))), st1)" "rep st1 B1 Map.empty"
      "efs_inv nblk fs da B1 inos1" "efs_files B1 inos1 = F" "B1 0 = B 0" by blast
  from efs_exec_refines [OF 1(2,3) F(2) [folded 1(4)]] obtain st2 B2 inos2 where
    2: "efs_exec D fs (Op_Write (Suc (length done)) 0 d) st1 = Inr (Out_Count (length d), st2)" "rep st2 B2 Map.empty"
      "efs_inv nblk fs da B2 inos2" "efs_files B2 inos2 = packed (done @ [(n, d)])" "B2 0 = B1 0" by blast
  have clean: "clean_on (device st2) st2" by (rule efs_exec_clean [OF efs_exec_clean [OF Cons.prems(4) 1(1)] 2(1)])
  have "vfs_create D fs (inode_place fs 0) n st = Inr (Some (inode_place fs (Suc (length done))), st1)"
    "vfs_write_at D fs (inode_place fs (Suc (length done))) 0 d st1 = Inr (length d, st2)"
    using 1(1) 2(1) by (auto elim!: rbindE)
  then have step: "pack_cases D fs (inode_place fs 0) host (map fst (c # cs)) st = pack_cases D fs (inode_place fs 0) host (map fst cs) st2"
    using Cons.prems(6) c by simp
  have "packable (bitmap_maximum (inode_bitmap fs)) da ((done @ [(n, d)]) @ cs)" "\<forall>(n, d) \<in> set cs. host n = Some d"
    using Cons.prems(5,6) c by simp_all
  from Cons.IH [OF 2(2-4) clean this] show ?case unfolding step using 1(5) 2(5) c by auto
qed

text \<open>Opening a name of the root directory for reading and reading the file to its end, whatever the files are.\<close>

lemma open_read_file:
  assumes "rep st B Map.empty" "efs_inv nblk fs da B inos" "INDIRECT2_BOUND < fuel"
    and "efs_files B inos 0 = Some (Directory, dir)" "lookup_name n (entries dir) = Inr (Some j)" "efs_files B inos (unat j) = Some (t, d)"
  shows "\<exists>fh st1 st2 B2 inos2. fs_open D fs (inode_place fs 0) n RDONLY st = Inr (Some fh, st1)
    \<and> read_all fuel D fh st1 = Some (Inr (d, st2)) \<and> rep st2 B2 Map.empty \<and> efs_inv nblk fs da B2 inos2 \<and> efs_files B2 inos2 = efs_files B inos"
proof -
  have j: "unat j < bitmap_maximum (inode_bitmap fs)"
    using assms(6) efs_invD(2) [OF assms(2)] by (auto simp: efs_files_Some stored_file_def)
  have "files_exec fs da (Op_Find 0 n) (efs_files B inos) = Some (Out_Found (Some (inode_place fs (unat j))), efs_files B inos)"
    using j by (simp add: assms(4,5))
  from efs_exec_refines [OF assms(1,2) this] obtain st1 B1 inos1 where
    f: "efs_exec D fs (Op_Find 0 n) st = Inr (Out_Found (Some (inode_place fs (unat j))), st1)" "rep st1 B1 Map.empty"
      "efs_inv nblk fs da B1 inos1" "efs_files B1 inos1 = efs_files B inos" by blast
  then have "vfs_find D fs (inode_place fs 0) n st = Inr (Some (inode_place fs (unat j)), st1)" by (auto elim!: rbindE)
  then have o: "fs_open D fs (inode_place fs 0) n RDONLY st = Inr (Some (file_handle_new True False (inode_place fs (unat j))), st1)"
    by (simp add: fs_open_def fs_find_def read_write_def RDONLY_def flags_contains_def CREATE_def TRUNC_def)
  have "efs_files B1 inos1 (unat j) = Some (t, d)" using assms(6) f(4) by simp
  then obtain ino where ino: "inos1 (unat j) = Some ino" "file_data B1 ino = d" by (auto simp: efs_files_Some)
  note ok = stored_vfs_ok [OF f(3) ino(1)]
  have "inode_blocks ino \<le> INDIRECT2_BOUND" using efs_invD(2) [OF f(3)] ino(1) by (auto simp: stored_file_def)
  moreover have "length d = unat (inode_size ino)" using length_file_data [OF f(2), of ino] ok unfolding ino(2) by (simp add: vfs_ok_def)
  ultimately have "(length d - 0 + 511) div 512 < fuel" using assms(3) by (simp add: inode_blocks_def BLOCK_SZ_def)
  with read_all_loop_ret [OF f(2) ok, of 0 fuel] ino(2)
  have "\<exists>st2. read_all_loop fuel D (inode_place fs (unat j)) 0 st1 = Some (Inr (d, st2)) \<and> rep st2 B1 Map.empty" by (auto elim!: retE)
  with o f(3,4) show ?thesis by (auto simp: read_all_def file_handle_new_def)
qed

text \<open>A kernel that starts from a disk with these files reads every program.\<close>

lemma packed_lookup:
  assumes "packable inodes da cs" "inodes \<le> 2 ^ 32" "distinct (map fst cs)" "(n, d) \<in> set cs"
  shows "\<exists>j. lookup_name n (entries (pack_dir (map fst cs))) = Inr (Some j) \<and> packed cs (unat j) = Some (File, d)"
proof -
  obtain k where k: "k < length cs" "cs ! k = (n, d)" using assms(4) by (auto simp: in_set_conv_nth)
  then have n: "map fst cs ! k = n" by simp
  have "unat (of_nat (Suc k) :: u32) = Suc k"
    using k(1) assms(1,2) by (simp add: packable_def unat_of_nat take_bit_nat_eq_self del: of_nat_Suc)
  then have "packed cs (unat (of_nat (Suc k) :: u32)) = Some (File, d)" using k by (simp add: packed_def)
  moreover have "\<forall>m \<in> set (map fst cs). good_name m" using assms(1) by (auto simp: packable_def)
  from lookup_pack_dir [OF this assms(3), of k] have "lookup_name n (entries (pack_dir (map fst cs))) = Inr (Some (of_nat (Suc k)))"
    unfolding n using k(1) by simp
  ultimately show ?thesis by blast
qed

lemma packed_program_read:
  assumes rep: "rep st B Map.empty" and inv: "efs_inv nblk fs da B inos" "efs_files B inos = packed cs"
    and cs: "packable (bitmap_maximum (inode_bitmap fs)) da cs" "distinct (map fst cs)" "(n, d) \<in> set cs"
  shows "\<exists>fh st1 st2. fs_open D fs (inode_place fs 0) n RDONLY st = Inr (Some fh, st1)
    \<and> read_all (INDIRECT2_BOUND + 1) D fh st1 = Some (Inr (d, st2))"
proof -
  have "bitmap_maximum (inode_bitmap fs) \<le> 2 ^ 32" using efs_invD(1) [OF inv(1)] by (simp add: efs_fits_def)
  from packed_lookup [OF cs(1) this cs(2,3)] obtain j where
    j: "lookup_name n (entries (pack_dir (map fst cs))) = Inr (Some j)" "packed cs (unat j) = Some (File, d)" by blast
  have "efs_files B inos 0 = Some (Directory, pack_dir (map fst cs))" by (simp add: inv(2) packed_def)
  from open_read_file [OF rep inv(1) _ this j(1) j(2) [folded inv(2)], of "INDIRECT2_BOUND + 1"] show ?thesis by auto
qed

end

section \<open>The image and the kernel that boots from it\<close>

lemma image_areas: "efs_areas (64 * 2048) 1 = Inr (1024, 32, 130014)"
  by (simp add: efs_areas_def bitmap_maximum_def bitmap_new_def BLOCK_BITS_eq sizeof_disk_inode_def
      BLOCK_SZ_def checked_u32_def checked_sub_def)

lemma image_root: "efs_root_inode (efs_layout 1 1024 32) = Inr (inode_place (efs_layout 1 1024 32) 0)"
  by (simp add: efs_root_inode_def get_disk_inode_pos_def efs_layout_def checked_u32_def inode_place_def)

lemma image_inodes: "bitmap_maximum (inode_bitmap (efs_layout 1 1024 32)) = 4096"
  by (simp add: efs_layout_def bitmap_maximum_def bitmap_new_def BLOCK_BITS_eq)

lemma easy_fs_pack_ret:
  assumes "packable 4096 130014 cs" "\<forall>(n, d) \<in> set cs. host n = Some d"
  shows "\<exists>image B inos. easy_fs_pack host (Some img) (map fst cs) = Inr (Some (map fst cs, image))
    \<and> (\<forall>k < 64 * 2048. file_block image k = B k) \<and> efs_inv (64 * 2048) (efs_layout 1 1024 32) 130014 B inos \<and> efs_files B inos = packed cs
    \<and> super_block_of (take 24 (B 0)) = super_block_initialize (of_nat (64 * 2048)) (of_nat 1) (of_nat 1024) (of_nat 32) (of_nat 130014)"
proof -
  let ?fs = "efs_layout 1 1024 32" and ?N = "64 * 2048 :: nat" and ?rep = "bc_rep file_block (64 * 2048) (\<lambda>f. 64 * 2048 * BLOCK_SZ \<le> length f)"
  let ?f = "set_len (64 * 2048 * 512) img"
  have dev: "block_device block_file_ops file_block ?N (\<lambda>f. ?N * BLOCK_SZ \<le> length f)" by (rule bf.block_device_axioms)
  have len: "length ?f = ?N * BLOCK_SZ" by (simp add: set_len_def BLOCK_SZ_def)
  have rep: "?rep (cache_manager_new ?f) (file_block ?f) Map.empty" by (rule bc_rep_new) (simp only: len order_refl)
  from block_device.efs_create_inv [OF dev rep _ _ _ _ image_areas] obtain st1 B1 inos1 where
    c: "efs_create block_file_ops ?N 1 (cache_manager_new ?f) = Inr (?fs, st1)" "?rep st1 B1 Map.empty" "efs_inv ?N ?fs 130014 B1 inos1"
      "efs_files B1 inos1 = [0 \<mapsto> (Directory, [])]"
      "super_block_of (take 24 (B1 0)) = super_block_initialize (of_nat ?N) (of_nat 1) (of_nat 1024) (of_nat 32) (of_nat 130014)" by auto
  have empty: "efs_files B1 inos1 = packed []" unfolding c(4) by (auto simp: packed_def pack_dir_def)
  have "packable (bitmap_maximum (inode_bitmap ?fs)) 130014 ([] @ cs)" unfolding image_inodes append_Nil by (rule assms(1))
  from block_device.pack_cases_ret [OF dev c(2,3) empty efs_create_clean [OF c(1)] this assms(2)] obtain st2 B2 inos2 where
    p: "pack_cases block_file_ops ?fs (inode_place ?fs 0) host (map fst cs) st1 = Inr ((), st2)" "?rep st2 B2 Map.empty"
      "efs_inv ?N ?fs 130014 B2 inos2" "efs_files B2 inos2 = packed cs" "B2 0 = B1 0" "clean_on (device st2) st2"
    unfolding append_Nil by blast
  have "\<forall>m \<in> set (map fst cs). good_name m" using assms(1) by (auto simp: packable_def)
  from names_pack_dir [OF this] have "files_exec ?fs 130014 (Op_Readdir 0) (efs_files B2 inos2) = Some (Out_Names (map fst cs), efs_files B2 inos2)"
    by (simp add: p(4) packed_def)
  from block_device.efs_exec_refines [OF dev p(2,3) this] obtain st3 B3 inos3 where
    r: "efs_exec block_file_ops ?fs (Op_Readdir 0) st2 = Inr (Out_Names (map fst cs), st3)" "?rep st3 B3 Map.empty"
      "efs_inv ?N ?fs 130014 B3 inos3" "efs_files B3 inos3 = packed cs" "B3 0 = B2 0" unfolding p(4) by blast
  have list: "vfs_readdir block_file_ops (inode_place ?fs 0) st2 = Inr (map fst cs, st3)" using r(1) by (auto elim!: rbindE)
  have "easy_fs_pack host (Some img) (map fst cs) = Inr (Some (map fst cs, device st3))"
    unfolding easy_fs_pack_def option.case Let_def by (simp only: c(1) image_root p(1) list rbind_simps prod.case)
  moreover have "\<forall>k < ?N. file_block (device st3) k = B3 k"
    using clean_device [OF r(2) efs_exec_clean [OF p(6) r(1)]] by blast
  ultimately show ?thesis using r(3-5) p(5) c(5) by metis
qed

text \<open>
  C17. From the packer to the kernel. If the programs have distinct names of at most 27 bytes and fit into the image,
  \<^verbatim>\<open>easy_fs_pack\<close> succeeds whatever the image file held before and lists exactly the programs. On every device with the
  contents of that image, a kernel opens the file system, and opening the name of any program and reading it to the end
  gives its bytes.
\<close>

theorem packed_programs_are_found:
  assumes "packable 4096 130014 cs" "distinct (map fst cs)" "\<forall>(n, d) \<in> set cs. host n = Some d"
    and "block_device D contents (64 * 2048) dev_ok"
  shows "\<exists>image. easy_fs_pack host (Some img) (map fst cs) = Inr (Some (map fst cs, image))
    \<and> (\<forall>dev. dev_ok dev \<and> (\<forall>k < 64 * 2048. contents dev k = file_block image k) \<longrightarrow>
        (\<exists>fs st root. efs_open D (cache_manager_new dev) = Inr (fs, st) \<and> efs_root_inode fs = Inr root
         \<and> (\<forall>(n, d) \<in> set cs. \<exists>fh st1 st2. fs_open D fs root n RDONLY st = Inr (Some fh, st1)
              \<and> read_all (INDIRECT2_BOUND + 1) D fh st1 = Some (Inr (d, st2)))))"
proof -
  let ?fs = "efs_layout 1 1024 32" and ?N = "64 * 2048 :: nat"
  from easy_fs_pack_ret [OF assms(1,3)] obtain image B inos where p:
    "easy_fs_pack host (Some img) (map fst cs) = Inr (Some (map fst cs, image))" "\<forall>k < ?N. file_block image k = B k"
    "efs_inv ?N ?fs 130014 B inos" "efs_files B inos = packed cs"
    "super_block_of (take 24 (B 0)) = super_block_initialize (of_nat ?N) (of_nat 1) (of_nat 1024) (of_nat 32) (of_nat 130014)" by blast
  have "\<exists>fs st root. efs_open D (cache_manager_new dev) = Inr (fs, st) \<and> efs_root_inode fs = Inr root
      \<and> (\<forall>(n, d) \<in> set cs. \<exists>fh st1 st2. fs_open D fs root n RDONLY st = Inr (Some fh, st1)
          \<and> read_all (INDIRECT2_BOUND + 1) D fh st1 = Some (Inr (d, st2)))"
    if dev: "dev_ok dev" "\<forall>k < ?N. contents dev k = file_block image k" for dev
  proof -
    have "bc_rep contents ?N dev_ok (cache_manager_new dev) (contents dev) Map.empty" by (rule bc_rep_new) (rule dev(1))
    then have rep: "bc_rep contents ?N dev_ok (cache_manager_new dev) B Map.empty"
      by (rule block_device.rep_cong [OF assms(4)]) (use dev(2) p(2) in simp)
    have "bc_ret contents ?N dev_ok (efs_open D (cache_manager_new dev)) ?fs B Map.empty"
      by (rule block_device.efs_open_ret [OF assms(4) rep _ p(5)]) simp_all
    then obtain st where st: "efs_open D (cache_manager_new dev) = Inr (?fs, st)" "bc_rep contents ?N dev_ok st B Map.empty"
      by (auto simp: bc_ret_def)
    have pk: "packable (bitmap_maximum (inode_bitmap ?fs)) 130014 cs" unfolding image_inodes by (rule assms(1))
    have "\<exists>fh st1 st2. fs_open D ?fs (inode_place ?fs 0) n RDONLY st = Inr (Some fh, st1)
          \<and> read_all (INDIRECT2_BOUND + 1) D fh st1 = Some (Inr (d, st2))" if "(n, d) \<in> set cs" for n d
      by (rule block_device.packed_program_read [OF assms(4) st(2) p(3,4) pk assms(2) that])
    with st(1) image_root show ?thesis by blast
  qed
  with p(1) show ?thesis by blast
qed

theorem packed_programs_are_found_witness:
  "\<exists>image. easy_fs_pack (\<lambda>_. Some [7]) (Some []) [[0x61]] = Inr (Some ([[0x61]], image))"
proof -
  have "good_name [0x61]" by (simp add: good_name_def NAME_LENGTH_LIMIT_def utf8_valid.simps)
  then have "packable 4096 130014 [([0x61], [7])]"
    by (simp add: packable_def MAX_FILE_def layout_consts BLOCK_SZ_def DIRENT_SZ_def blocks_of_length_small)
  from packed_programs_are_found [OF this _ _ bf.block_device_axioms [of "64 * 2048"], of "\<lambda>_. Some [7]" "[]"] show ?thesis by auto
qed

end
