(* ===== verification/Kernel_Ch5.thy ===== *)
theory Kernel_Ch5
  imports Kernel_Loop Apps
begin

unbundle bit_operations_syntax

text \<open>
  The kernel of chapter 5, from \<^verbatim>\<open>ch5/src/main.rs\<close> and \<^verbatim>\<open>ch5/src/process.rs\<close>: processes with an address
  space each, \<^verbatim>\<open>fork\<close>, \<^verbatim>\<open>exec\<close> and \<^verbatim>\<open>wait\<close>, over the process manager of theory \<^verbatim>\<open>Task_Proc\<close>. The kernels of
  chapters 6 and 7 extend its process structure and its state and repeat much of its text, so what does
  not change is defined here for every extension of the two records. The executables are linked into the
  image; the environment is that of theory \<^verbatim>\<open>Ch8_Process\<close>, of which chapter 5 uses the allocator and the ELF
  parser.
\<close>

section \<open>Processes and the kernel state\<close>

record proc5 =
  p_pid :: proc_id
  p_context :: foreign_context
  p_space :: "sv39_manager address_space"

record ('p, 'h) pkernel =
  pk_processor :: "'p proc_manager pmanager"
  pk_phys :: "'h phys"
  pk_kspace :: "sv39_manager address_space"
  pk_pid :: usize
  pk_stdout :: "u8 list"
  pk_stdin :: "usize list"
  pk_time :: usize

text \<open>\<^verbatim>\<open>PROCESSOR.current().unwrap()\<close>, with the key of the process, and assignment through the reference.\<close>

definition pk_current :: "('p, 'h, 'z) pkernel_scheme \<Rightarrow> (proc_id \<times> 'p) res" where
  "pk_current k =
     rbind (pm_current proc_manage (pk_processor k)) (\<lambda>r.
     rbind (unwrap r) (\<lambda>p.
     rbind (unwrap (current (pk_processor k))) (\<lambda>i. Inr (i, p))))"

definition pk_task :: "proc_id \<Rightarrow> ('p, 'h, 'z) pkernel_scheme \<Rightarrow> 'p res" where
  "pk_task i k = rbind (pm_get_task proc_manage i (pk_processor k)) unwrap"

definition pk_put :: "proc_id \<Rightarrow> 'p \<Rightarrow> ('p, 'h, 'z) pkernel_scheme \<Rightarrow> ('p, 'h, 'z) pkernel_scheme" where
  "pk_put i p k =
     (let pm = pk_processor k in
      k\<lparr>pk_processor := pm\<lparr>manager := map_option (m_put proc_manage i p) (manager pm)\<rparr>\<rparr>)"

definition pk_op ::
    "('p proc_manager pmanager \<Rightarrow> 'p proc_manager pmanager res) \<Rightarrow>
     ('p, 'h, 'z) pkernel_scheme \<Rightarrow> ('p, 'h, 'z) pkernel_scheme res" where
  "pk_op f k = rbind (f (pk_processor k)) (\<lambda>pm. Inr (k\<lparr>pk_processor := pm\<rparr>))"

definition set_context :: "local_context \<Rightarrow> 'p proc5_scheme \<Rightarrow> 'p proc5_scheme" where
  "set_context c p = p\<lparr>p_context := (p_context p)\<lparr>fcontext := c\<rparr>\<rparr>"

definition pk_ptr ::
    "('d, 'h) kenv \<Rightarrow> 'p proc5_scheme \<Rightarrow> usize \<Rightarrow> vm_flags \<Rightarrow> ('q, 'h, 'z) pkernel_scheme \<Rightarrow> usize option res" where
  "pk_ptr E p a flags k =
     finished (translate sv39 (kmgr E) (p_space p) (vaddr_new sv39 a) flags (pk_phys k))"

section \<open>Building a process\<close>

definition pk_map_portal ::
    "sv39_manager address_space \<Rightarrow> ('p, 'h, 'z) pkernel_scheme \<Rightarrow> ('p, 'h, 'z) pkernel_scheme res" where
  "pk_map_portal sp k =
     rbind (index_in sv39 PROTAL_TRANSIT (MAX_LEVEL sv39)) (\<lambda>i.
     rbind (from_root sv39 (page_manager (pk_kspace k))) (\<lambda>kroot.
     rbind (pt_index (frames (pk_phys k)) kroot i) (\<lambda>p.
     rbind (from_root sv39 (page_manager sp)) (\<lambda>root.
     rbind (pt_index_mut root i p (pk_phys k)) (\<lambda>ph. Inr (k\<lparr>pk_phys := ph\<rparr>))))))"

text \<open>The segments of an executable and the user stack, in a new address space.\<close>

definition elf_image ::
    "('d, 'h) kenv \<Rightarrow> elf_file \<Rightarrow> 'h phys \<Rightarrow> (sv39_manager address_space \<times> 'h phys) res" where
  "elf_image E elf ph =
     rbind (space_new (kmgr E) ph) (\<lambda>st0.
     rbind (rfold (load_segment E (elf_input elf)) (elf_programs elf) st0) (\<lambda>(sp1, ph1).
     rbind (page_alloc (ke_buddy E) 2 ph1) (\<lambda>(stack, ph2).
       finished (map_extern sv39 (kmgr E) (push_bit 26 1 - 2) (push_bit 26 1) (drop_bit 12 stack)
         USER_STACK_FLAGS sp1 ph2))))"

definition elf_context :: "elf_file \<Rightarrow> sv39_manager address_space \<Rightarrow> foreign_context res" where
  "elf_context elf sp =
     rbind (ctx_set_sp (push_bit 38 1) (ctx_user (elf_entry elf))) (\<lambda>ctx.
       Inr \<lparr>fcontext = ctx, fsatp = satp_of sp\<rparr>)"

definition elf_accepted :: "elf_file \<Rightarrow> bool" where
  "elf_accepted elf \<longleftrightarrow> elf_header64 elf \<and> elf_executable elf \<and> elf_riscv elf"

definition ch5_from_elf ::
    "('d, 'h) kenv \<Rightarrow> elf_file \<Rightarrow> ('p, 'h, 'z) pkernel_scheme \<Rightarrow> (proc5 option \<times> ('p, 'h, 'z) pkernel_scheme) res" where
  "ch5_from_elf E elf k =
     (if \<not> elf_accepted elf then Inr (None, k)
      else
        rbind (elf_image E elf (pk_phys k)) (\<lambda>(sp, ph).
        rbind (pk_map_portal sp (k\<lparr>pk_phys := ph\<rparr>)) (\<lambda>k1.
        rbind (elf_context elf sp) (\<lambda>ctx.
          let (i, nxt) = proc_id_new (pk_pid k1)
          in Inr (Some \<lparr>p_pid = i, p_context = ctx, p_space = sp\<rparr>, k1\<lparr>pk_pid := nxt\<rparr>)))))"

definition ch5_process_exec ::
    "('d, 'h) kenv \<Rightarrow> proc_id \<Rightarrow> elf_file \<Rightarrow> ('p proc5_scheme, 'h, 'z) pkernel_scheme \<Rightarrow>
     ('p proc5_scheme, 'h, 'z) pkernel_scheme res" where
  "ch5_process_exec E i elf k =
     rbind (ch5_from_elf E elf k) (\<lambda>(r, k1).
     rbind (unwrap r) (\<lambda>proc.
     rbind (pk_task i k1) (\<lambda>p.
       Inr (pk_put i (p\<lparr>p_space := p_space proc, p_context := p_context proc\<rparr>) k1))))"

definition ch5_process_fork ::
    "('d, 'h) kenv \<Rightarrow> 'p proc5_scheme \<Rightarrow> ('q, 'h, 'z) pkernel_scheme \<Rightarrow> (proc5 \<times> ('q, 'h, 'z) pkernel_scheme) res" where
  "ch5_process_fork E p k =
     (let (i, nxt) = proc_id_new (pk_pid k); k1 = k\<lparr>pk_pid := nxt\<rparr> in
      rbind (space_new (kmgr E) (pk_phys k1)) (\<lambda>(sp0, ph0).
      rbind (finished (cloneself sv39 (kmgr E) (p_space p) sp0 ph0)) (\<lambda>(sp, ph1).
      rbind (pk_map_portal sp (k1\<lparr>pk_phys := ph1\<rparr>)) (\<lambda>k2.
        Inr (\<lparr>p_pid = i, p_context = \<lparr>fcontext = fcontext (p_context p), fsatp = satp_of sp\<rparr>, p_space = sp\<rparr>, k2)))))"

section \<open>The applications of the image\<close>

text \<open>
  Kernel memory is mapped to itself, so the bytes of the image are the bytes of physical memory. An
  iterator with a base address would also write there.
\<close>

definition set_flat :: "flat \<Rightarrow> 'h phys \<Rightarrow> 'h phys" where
  "set_flat mem ph = ph\<lparr>frames := (\<lambda>page. map (\<lambda>i.
     of_le (map (\<lambda>j. mem (push_bit 12 page + of_nat (8 * i + j))) [0..<8])) [0..<length (frames ph page)])\<rparr>"

text \<open>A \<^verbatim>\<open>BTreeMap\<close> with strings as keys: a list in the order of the keys, which is the order of their bytes.\<close>

fun bytes_less :: "u8 list \<Rightarrow> u8 list \<Rightarrow> bool" where
  "bytes_less xs [] = False"
| "bytes_less [] (y # ys) = True"
| "bytes_less (x # xs) (y # ys) = (x < y \<or> x = y \<and> bytes_less xs ys)"

fun btree_insert :: "u8 list \<Rightarrow> 'v \<Rightarrow> (u8 list \<times> 'v) list \<Rightarrow> (u8 list \<times> 'v) list" where
  "btree_insert x v [] = [(x, v)]"
| "btree_insert x v ((y, w) # rest) =
     (if x = y then (x, v) # rest
      else if bytes_less x y then (x, v) # (y, w) # rest
      else (y, w) # btree_insert x v rest)"

type_synonym apps = "(u8 list \<times> usize \<times> usize) list"

text \<open>\<^verbatim>\<open>APPS\<close>: the names follow each other from \<^verbatim>\<open>app_names\<close> on, each with a byte 0 at its end.\<close>

definition app_entry :: "nat \<Rightarrow> usize \<times> usize \<Rightarrow> 'h phys \<times> usize \<times> apps \<Rightarrow> ('h phys \<times> usize \<times> apps) res" where
  "app_entry i data st =
     (let (ph, addr, tbl) = st in
      rbind (read_cstr ph addr) (\<lambda>name.
      rbind (if utf8_valid name then Inr () else Inl Unwrap_None) (\<lambda>_.
      rbind (checked_usize_add addr (of_nat (length name + 1))) (\<lambda>addr1.
        Inr (ph, addr1, btree_insert name data tbl)))))"

definition APPS :: "app_meta \<Rightarrow> usize \<Rightarrow> 'h phys \<Rightarrow> (apps \<times> 'h phys) res" where
  "APPS meta app_names ph =
     rbind (apps_loop app_entry (\<lambda>(ph, _, _). load_byte ph) (\<lambda>mem (ph, addr, tbl). (set_flat mem ph, addr, tbl))
              meta 0 (ph, app_names, [])) (\<lambda>(ph1, _, tbl). Inr (tbl, ph1))"

section \<open>System calls\<close>

definition ch5_write ::
    "('d, 'h) kenv \<Rightarrow> caller \<Rightarrow> usize \<Rightarrow> usize \<Rightarrow> usize \<Rightarrow> ('p proc5_scheme, 'h, 'z) pkernel_scheme sys" where
  "ch5_write E clr fd buf cnt k =
     (if fd = STDOUT \<or> fd = STDDEBUG then
        rbind (pk_current k) (\<lambda>(i, p).
        rbind (pk_ptr E p buf READABLE k) (\<lambda>r.
          case r of
            Some ptr \<Rightarrow> Inr (cnt, k\<lparr>pk_stdout := pk_stdout k @ load_bytes (pk_phys k) ptr (unat cnt)\<rparr>)
          | None \<Rightarrow> Inr (- 1, k)))
      else Inr (- 1, k))"

definition pk_getchar :: "('p, 'h, 'z) pkernel_scheme \<Rightarrow> usize \<times> ('p, 'h, 'z) pkernel_scheme" where
  "pk_getchar k = (case pk_stdin k of [] \<Rightarrow> (- 1, k) | c # rest \<Rightarrow> (c, k\<lparr>pk_stdin := rest\<rparr>))"

fun pk_read_console :: "nat \<Rightarrow> usize \<Rightarrow> ('p, 'h, 'z) pkernel_scheme \<Rightarrow> ('p, 'h, 'z) pkernel_scheme" where
  "pk_read_console 0 ptr k = k"
| "pk_read_console (Suc n) ptr k =
     (let (c, k1) = pk_getchar k
      in pk_read_console n (ptr + 1) (k1\<lparr>pk_phys := store_byte ptr (ucast c) (pk_phys k1)\<rparr>))"

definition ch5_read ::
    "('d, 'h) kenv \<Rightarrow> caller \<Rightarrow> usize \<Rightarrow> usize \<Rightarrow> usize \<Rightarrow> ('p proc5_scheme, 'h, 'z) pkernel_scheme sys" where
  "ch5_read E clr fd buf cnt k =
     (if fd = STDIN then
        rbind (pk_current k) (\<lambda>(i, p).
        rbind (pk_ptr E p buf WRITEABLE k) (\<lambda>r.
          case r of Some ptr \<Rightarrow> Inr (cnt, pk_read_console (unat cnt) ptr k) | None \<Rightarrow> Inr (- 1, k)))
      else Inr (- 1, k))"

definition ch5_exit :: "caller \<Rightarrow> usize \<Rightarrow> ('p, 'h, 'z) pkernel_scheme sys" where
  "ch5_exit clr exit_code k = Inr (exit_code, k)"

text \<open>\<^verbatim>\<open>fork\<close> of the trait, over \<^verbatim>\<open>Process::fork\<close> of the chapter.\<close>

definition pk_fork ::
    "('p proc5_scheme \<Rightarrow> ('p proc5_scheme, 'h, 'z) pkernel_scheme \<Rightarrow>
       ('p proc5_scheme \<times> ('p proc5_scheme, 'h, 'z) pkernel_scheme) res) \<Rightarrow>
     caller \<Rightarrow> ('p proc5_scheme, 'h, 'z) pkernel_scheme sys" where
  "pk_fork fork clr k =
     rbind (pk_current k) (\<lambda>(i, p).
     rbind (fork p k) (\<lambda>(child_proc, k1).
       let pid = p_pid child_proc in
       rbind (ctx_set_a 0 0 (fcontext (p_context child_proc))) (\<lambda>ctx.
       rbind (pk_op (pm_add proc_manage proc_schedule pid (set_context ctx child_proc) (p_pid p)) k1) (\<lambda>k2.
         Inr (pid, k2)))))"

definition ch5_exec ::
    "('d, 'h) kenv \<Rightarrow> apps \<Rightarrow> caller \<Rightarrow> usize \<Rightarrow> usize \<Rightarrow> ('p proc5_scheme, 'h, 'z) pkernel_scheme sys" where
  "ch5_exec E apps clr path cnt k =
     rbind (pk_current k) (\<lambda>(i, p).
     rbind (pk_ptr E p path READABLE k) (\<lambda>r.
       case Option.bind r (\<lambda>ptr. Option.bind (map_of apps (load_bytes (pk_phys k) ptr (unat cnt))) (\<lambda>(pos, len).
              ke_elf E (load_bytes (pk_phys k) pos (unat len)))) of
         None \<Rightarrow> Inr (- 1, k\<lparr>pk_stdout := pk_stdout k @ concat (map (\<lambda>(app, _). app @ [0x0A]) apps) @ [0x0A]\<rparr>)
       | Some data \<Rightarrow> rbind (ch5_process_exec E i data k) (\<lambda>k1. Inr (0, k1))))"

definition ch5_wait ::
    "('d, 'h) kenv \<Rightarrow> caller \<Rightarrow> isize \<Rightarrow> usize \<Rightarrow> ('p proc5_scheme, 'h, 'z) pkernel_scheme sys" where
  "ch5_wait E clr pid exit_code_ptr k =
     rbind (pk_current k) (\<lambda>(i, p).
     rbind (pm_wait pid (pk_processor k)) (\<lambda>(r, pm).
       let k1 = k\<lparr>pk_processor := pm\<rparr> in
       case r of
         Some (dead_pid, exit_code) \<Rightarrow>
           rbind (pk_ptr E p exit_code_ptr WRITEABLE k1) (\<lambda>q.
             Inr (dead_pid, case q of
                 Some ptr \<Rightarrow> k1\<lparr>pk_phys := store_bytes ptr (to_le 8 exit_code) (pk_phys k1)\<rparr>
               | None \<Rightarrow> k1))
       | None \<Rightarrow> Inr (- 1, k1)))"

definition ch5_getpid :: "caller \<Rightarrow> ('p proc5_scheme, 'h, 'z) pkernel_scheme sys" where
  "ch5_getpid clr k = rbind (pk_current k) (\<lambda>(i, p). Inr (p_pid p, k))"

definition ch5_sched_yield :: "caller \<Rightarrow> ('p, 'h, 'z) pkernel_scheme sys" where
  "ch5_sched_yield clr k = Inr (0, k)"

definition ch5_clock_gettime ::
    "('d, 'h) kenv \<Rightarrow> caller \<Rightarrow> usize \<Rightarrow> usize \<Rightarrow> ('p proc5_scheme, 'h, 'z) pkernel_scheme sys" where
  "ch5_clock_gettime E clr clock_id tp k =
     (if clock_id = CLOCK_MONOTONIC then
        rbind (pk_current k) (\<lambda>(i, p).
        rbind (pk_ptr E p tp WRITEABLE k) (\<lambda>r.
          case r of
            Some ptr \<Rightarrow>
              rbind (checked_usize_mul (pk_time k) 10000) (\<lambda>n.
                let time = n div 125;
                    t = \<lparr>tv_sec = time div 1000000000, tv_nsec = time mod 1000000000\<rparr>
                in Inr (0, k\<lparr>pk_phys := store_bytes ptr (time_spec_bytes t) (pk_phys k)\<rparr>))
          | None \<Rightarrow> Inr (- 1, k)))
      else Inr (- 1, k))"

text \<open>The implementations of the four traits.\<close>

definition ch5_io :: "('d, 'h) kenv \<Rightarrow> ('p proc5_scheme, 'h, 'z) pkernel_scheme io_sys" where
  "ch5_io E = io_sys_default\<lparr>sys_read := ch5_read E, sys_write := ch5_write E\<rparr>"

definition ch5_process :: "('d, 'h) kenv \<Rightarrow> apps \<Rightarrow> (proc5, 'h) pkernel process_sys" where
  "ch5_process E apps = process_sys_default\<lparr>sys_exit := ch5_exit, sys_fork := pk_fork (ch5_process_fork E),
     sys_exec := ch5_exec E apps, sys_wait := ch5_wait E, sys_getpid := ch5_getpid\<rparr>"

definition ch5_scheduling :: "('p, 'h, 'z) pkernel_scheme scheduling_sys" where
  "ch5_scheduling = scheduling_sys_default\<lparr>sys_sched_yield := ch5_sched_yield\<rparr>"

definition ch5_clock :: "('d, 'h) kenv \<Rightarrow> ('p proc5_scheme, 'h, 'z) pkernel_scheme clock_sys" where
  "ch5_clock E = clock_sys_default\<lparr>sys_clock_gettime := ch5_clock_gettime E\<rparr>"

definition ch5_containers :: "('d, 'h) kenv \<Rightarrow> apps \<Rightarrow> (proc5, 'h) pkernel containers" where
  "ch5_containers E apps =
     init_clock (ch5_clock E) (init_scheduling ch5_scheduling (init_process (ch5_process E apps)
       (init_io (ch5_io E) containers_new)))"

section \<open>The main loop\<close>

text \<open>The process runs, and its context, memory, the clock and the input are what it leaves.\<close>

definition pk_run ::
    "'h user_code \<Rightarrow> proc_id \<Rightarrow> 'p proc5_scheme \<Rightarrow> ('p proc5_scheme, 'h, 'z) pkernel_scheme \<Rightarrow>
     trap \<times> ('p proc5_scheme, 'h, 'z) pkernel_scheme" where
  "pk_run run i p k =
     (let u = run (p_context p) (pk_phys k)
      in (ut_trap u, pk_put i (set_context (ut_context u) p)
            (k\<lparr>pk_phys := ut_phys u, pk_time := ut_time u, pk_stdin := pk_stdin k @ ut_input u\<rparr>)))"

definition pk_exit_current :: "isize \<Rightarrow> ('p, 'h, 'z) pkernel_scheme \<Rightarrow> ('p, 'h, 'z) pkernel_scheme res" where
  "pk_exit_current exit_code = pk_op (pm_make_current_exited proc_manage exit_code)"

definition pk_suspend_current :: "('p, 'h, 'z) pkernel_scheme \<Rightarrow> ('p, 'h, 'z) pkernel_scheme res" where
  "pk_suspend_current = pk_op (pm_make_current_suspend proc_schedule)"

definition pk_finish ::
    "syscall_id \<Rightarrow> syscall_result \<Rightarrow> proc_id \<Rightarrow> ('p proc5_scheme, 'h, 'z) pkernel_scheme \<Rightarrow>
     ('p proc5_scheme, 'h, 'z) pkernel_scheme res" where
  "pk_finish sid syscall_ret i k =
     (case syscall_ret of
        Done ret \<Rightarrow>
          if sid = SYS_EXIT then pk_exit_current ret k
          else
            rbind (pk_task i k) (\<lambda>p.
            rbind (ctx_set_a 0 ret (fcontext (p_context p))) (\<lambda>ctx.
              pk_suspend_current (pk_put i (set_context ctx p) k)))
      | Unsupported _ \<Rightarrow> pk_exit_current (- 2) k)"

text \<open>The call of process \<open>i\<close>: its number and result; the program counter moves past the call first.\<close>

definition pk_call ::
    "('p proc5_scheme, 'h, 'z) pkernel_scheme containers \<Rightarrow> proc_id \<Rightarrow> ('p proc5_scheme, 'h, 'z) pkernel_scheme \<Rightarrow>
     (syscall_id \<times> syscall_result \<times> ('p proc5_scheme, 'h, 'z) pkernel_scheme) res" where
  "pk_call C i k =
     rbind (pk_task i k) (\<lambda>p.
       let ctx = ctx_move_next (fcontext (p_context p)); k1 = pk_put i (set_context ctx p) k in
       rbind (read_frame ctx) (\<lambda>(sid, args).
       rbind (handle C \<lparr>entity = 0, flow = 0\<rparr> sid args k1) (\<lambda>(r, k2). Inr (sid, r, k2))))"

definition ch5_serve ::
    "('p proc5_scheme, 'h, 'z) pkernel_scheme containers \<Rightarrow> proc_id \<Rightarrow> ('p proc5_scheme, 'h, 'z) pkernel_scheme \<Rightarrow>
     ('p proc5_scheme, 'h, 'z) pkernel_scheme res" where
  "ch5_serve C i k = rbind (pk_call C i k) (\<lambda>(sid, r, k1). pk_finish sid r i k1)"

text \<open>One turn; the boolean is false when there was no task and the loop is left. \<open>serve\<close> is the branch of \<^verbatim>\<open>UserEnvCall\<close>.\<close>

definition pk_turn ::
    "(proc_id \<Rightarrow> ('p proc5_scheme, 'h, 'z) pkernel_scheme \<Rightarrow> ('p proc5_scheme, 'h, 'z) pkernel_scheme res) \<Rightarrow>
     'h user_code \<Rightarrow> ('p proc5_scheme, 'h, 'z) pkernel_scheme \<Rightarrow> (bool \<times> ('p proc5_scheme, 'h, 'z) pkernel_scheme) res" where
  "pk_turn serve run k =
     rbind (pm_find_next proc_manage proc_schedule (pk_processor k)) (\<lambda>(r, pm).
       let k0 = k\<lparr>pk_processor := pm\<rparr> in
       case r of
         Some task \<Rightarrow>
           rbind (unwrap (current pm)) (\<lambda>i.
             let (trap, k1) = pk_run run i task k0 in
             rbind (case trap of UserEnvCall \<Rightarrow> serve i k1 | OtherTrap \<Rightarrow> pk_exit_current (- 3) k1) (\<lambda>k2.
               Inr (True, k2)))
       | None \<Rightarrow> Inr (False, k0\<lparr>pk_stdout := pk_stdout k0 @ [0x6E, 0x6F, 0x20, 0x74, 0x61, 0x73, 0x6B, 0x0A]\<rparr>))"

partial_function (option) pk_loop ::
    "(proc_id \<Rightarrow> ('p proc5_scheme, 'h, 'z) pkernel_scheme \<Rightarrow> ('p proc5_scheme, 'h, 'z) pkernel_scheme res) \<Rightarrow>
     'h user_code \<Rightarrow> ('p proc5_scheme, 'h, 'z) pkernel_scheme \<Rightarrow> ('p proc5_scheme, 'h, 'z) pkernel_scheme res option" where
  "pk_loop serve run k =
     (case pk_turn serve run k of
        Inl e \<Rightarrow> Some (Inl e)
      | Inr (go, k1) \<Rightarrow> if go then pk_loop serve run k1 else Some (Inr k1))"

section \<open>Start\<close>

text \<open>\<^verbatim>\<open>kernel_space\<close> of chapters 4 and 5: as in chapter 8, but without device memory.\<close>

definition ch5_kernel_space ::
    "('d, 'h) kenv \<Rightarrow> kernel_layout \<Rightarrow> usize \<Rightarrow> usize \<Rightarrow> 'h phys \<Rightarrow> (sv39_manager address_space \<times> 'h phys) res" where
  "ch5_kernel_space E lay memory portal ph =
     rbind (space_new (kmgr E) ph) (\<lambda>st0.
     rbind (rfold (\<lambda>r. map_identity E (region_start r) (region_end r) (region_flags (region_title r)))
              (layout_iter lay) st0) (\<lambda>st1.
     rbind (checked_usize_add (layout_start lay) memory) (\<lambda>mem_end.
     rbind (map_identity E (lay_end lay) mem_end (region_flags Data) st1) (\<lambda>(sp2, ph2).
       finished (map_extern sv39 (kmgr E) PROTAL_TRANSIT (page_add PROTAL_TRANSIT 1) (drop_bit 12 portal)
         PORTAL_FLAGS sp2 ph2)))))"

text \<open>The memory for the portal.\<close>

definition portal_alloc :: "('d, 'h) kenv \<Rightarrow> nat \<Rightarrow> 'h phys \<Rightarrow> (usize \<times> 'h phys) res" where
  "portal_alloc E text ph =
     (let portal_size = calculate_size text 1 in
      rbind (global_alloc (ke_buddy E) (of_nat portal_size) (push_bit 12 1) ph) (\<lambda>(portal_ptr, ph1).
      rbind (rassert (portal_size < 4096)) (\<lambda>_. Inr (portal_ptr, ph1))))"

text \<open>The first process and its manager.\<close>

definition pk_first ::
    "'p proc5_scheme option \<Rightarrow> ('p proc5_scheme, 'h, 'z) pkernel_scheme \<Rightarrow> ('p proc5_scheme, 'h, 'z) pkernel_scheme res" where
  "pk_first r k =
     (case r of
        Some process \<Rightarrow>
          pk_op (pm_add proc_manage proc_schedule (p_pid process) process usize_MAX)
            (k\<lparr>pk_processor := pm_set_manager proc_manager_new (pk_processor k)\<rparr>)
      | None \<Rightarrow> Inr k)"

definition ch5_start ::
    "('d, 'h) kenv \<Rightarrow> kernel_layout \<Rightarrow> nat \<Rightarrow> app_meta \<Rightarrow> usize \<Rightarrow> 'h phys \<Rightarrow> usize list \<Rightarrow> usize \<Rightarrow>
     (apps \<times> (proc5, 'h) pkernel) res" where
  "ch5_start E lay text meta app_names ph input now =
     rbind (portal_alloc E text ph) (\<lambda>(portal_ptr, ph1).
     rbind (ch5_kernel_space E lay MEMORY portal_ptr ph1) (\<lambda>(ks, ph2).
     rbind (APPS meta app_names ph2) (\<lambda>(apps, ph3).
     rbind (unwrap (map_of apps INITPROC)) (\<lambda>(pos, len).
     rbind (unwrap (ke_elf E (load_bytes ph3 pos (unat len)))) (\<lambda>elf.
       let k = \<lparr>pk_processor = pm_new, pk_phys = ph3, pk_kspace = ks, pk_pid = 0, pk_stdout = [0x0A],
                pk_stdin = input, pk_time = now\<rparr> in
       rbind (ch5_from_elf E elf k) (\<lambda>(r, k1).
       rbind (pk_first r k1) (\<lambda>k2. Inr (apps, k2))))))))"

definition ch5_main ::
    "('d, 'h) kenv \<Rightarrow> 'h user_code \<Rightarrow> kernel_layout \<Rightarrow> nat \<Rightarrow> app_meta \<Rightarrow> usize \<Rightarrow> 'h phys \<Rightarrow> usize list \<Rightarrow> usize \<Rightarrow>
     (proc5, 'h) pkernel res option" where
  "ch5_main E run lay text meta app_names ph input now =
     (case ch5_start E lay text meta app_names ph input now of
        Inl e \<Rightarrow> Some (Inl e)
      | Inr (apps, k) \<Rightarrow> pk_loop (ch5_serve (ch5_containers E apps)) run k)"

end
