(* ===== verification/Kernel_Ch6.thy ===== *)
theory Kernel_Ch6
  imports Kernel_Ch5
begin

unbundle bit_operations_syntax

text \<open>
  The kernels of chapters 6 and 7, from \<^verbatim>\<open>main.rs\<close> and \<^verbatim>\<open>process.rs\<close> of \<^verbatim>\<open>ch6/src\<close> and \<^verbatim>\<open>ch7/src\<close>. Chapter 6
  gives every process a table of open files and loads executables from the file system; chapter 7 gives
  every process a signal module and delivers signals after every system call. Both extend the records of
  theory \<^verbatim>\<open>Kernel_Ch5\<close>; chapter 7 repeats the calls of chapter 6.
\<close>

section \<open>Chapter 6: processes and state\<close>

record proc6 = proc5 +
  p_fd_table :: "file_handle option list"

record ('p, 'h, 'd) fkernel = "('p, 'h) pkernel" +
  fk_disk :: "'d bstate"

text \<open>Standard input and standard output.\<close>

definition STD_FILES :: "file_handle option list" where
  "STD_FILES = [Some (file_handle_empty True False), Some (file_handle_empty False True)]"

definition ch6_from_elf ::
    "('d, 'h) kenv \<Rightarrow> elf_file \<Rightarrow> ('p, 'h, 'z) pkernel_scheme \<Rightarrow> (proc6 option \<times> ('p, 'h, 'z) pkernel_scheme) res" where
  "ch6_from_elf E elf k =
     rbind (ch5_from_elf E elf k) (\<lambda>(r, k1).
       Inr (map_option (\<lambda>p. proc5.extend p (proc6.fields STD_FILES)) r, k1))"

text \<open>\<^verbatim>\<open>Process::fork\<close>; the loop copies every open file.\<close>

definition ch6_process_fork ::
    "('d, 'h) kenv \<Rightarrow> proc6 \<Rightarrow> ('q, 'h, 'z) pkernel_scheme \<Rightarrow> (proc6 \<times> ('q, 'h, 'z) pkernel_scheme) res" where
  "ch6_process_fork E p k =
     rbind (ch5_process_fork E p k) (\<lambda>(child, k1).
       Inr (proc5.extend child (proc6.fields (p_fd_table p)), k1))"

section \<open>Chapter 6: files\<close>

definition set_file :: "usize \<Rightarrow> file_handle option \<Rightarrow> 'p proc6_scheme \<Rightarrow> 'p proc6_scheme" where
  "set_file fd f p = p\<lparr>p_fd_table := (p_fd_table p)[unat fd := f]\<rparr>"

definition ch6_write ::
    "('d, 'h) kenv \<Rightarrow> caller \<Rightarrow> usize \<Rightarrow> usize \<Rightarrow> usize \<Rightarrow> ('p proc6_scheme, 'h, 'd) fkernel sys" where
  "ch6_write E clr fd buf cnt k =
     rbind (pk_current k) (\<lambda>(i, p).
     rbind (pk_ptr E p buf READABLE k) (\<lambda>r.
       case r of
         Some ptr \<Rightarrow>
           if fd = STDOUT \<or> fd = STDDEBUG then
             Inr (cnt, k\<lparr>pk_stdout := pk_stdout k @ load_bytes (pk_phys k) ptr (unat cnt)\<rparr>)
           else
             rbind (vec_index (p_fd_table p) (unat fd)) (\<lambda>f.
               case f of
                 Some file \<Rightarrow>
                   if writable file then
                     rbind (file_write (ke_dev E) (ke_efs E) [load_bytes (pk_phys k) ptr (unat cnt)] file (fk_disk k))
                       (\<lambda>((n, file1), d). Inr (n, pk_put i (set_file fd (Some file1) p) (k\<lparr>fk_disk := d\<rparr>)))
                   else Inr (- 1, k)
               | None \<Rightarrow> Inr (- 1, k))
       | None \<Rightarrow> Inr (- 1, k)))"

definition ch6_read ::
    "('d, 'h) kenv \<Rightarrow> caller \<Rightarrow> usize \<Rightarrow> usize \<Rightarrow> usize \<Rightarrow> ('p proc6_scheme, 'h, 'd) fkernel sys" where
  "ch6_read E clr fd buf cnt k =
     rbind (pk_current k) (\<lambda>(i, p).
     rbind (pk_ptr E p buf WRITEABLE k) (\<lambda>r.
       case r of
         Some ptr \<Rightarrow>
           if fd = STDIN then Inr (cnt, pk_read_console (unat cnt) ptr k)
           else
             rbind (vec_index (p_fd_table p) (unat fd)) (\<lambda>f.
               case f of
                 Some file \<Rightarrow>
                   if readable file then
                     rbind (file_read (ke_dev E) [load_bytes (pk_phys k) ptr (unat cnt)] file (fk_disk k))
                       (\<lambda>((n, slices, file1), d). Inr (n, pk_put i (set_file fd (Some file1) p)
                          (k\<lparr>fk_disk := d, pk_phys := store_bytes ptr (concat slices) (pk_phys k)\<rparr>)))
                   else Inr (- 1, k)
               | None \<Rightarrow> Inr (- 1, k))
       | None \<Rightarrow> Inr (- 1, k)))"

definition ch6_open ::
    "('d, 'h) kenv \<Rightarrow> caller \<Rightarrow> usize \<Rightarrow> usize \<Rightarrow> ('p proc6_scheme, 'h, 'd) fkernel sys" where
  "ch6_open E clr path flags k =
     rbind (pk_current k) (\<lambda>(i, p).
     rbind (pk_ptr E p path READABLE k) (\<lambda>r.
       case r of
         Some ptr \<Rightarrow>
           rbind (read_cstr (pk_phys k) ptr) (\<lambda>s.
           rbind (unwrap (open_flags_from_bits (ucast flags))) (\<lambda>fl.
           rbind (fs_open (ke_dev E) (ke_efs E) (ke_root E) (concat (map char_utf8 s)) fl (fk_disk k)) (\<lambda>(f, d).
             case f of
               Some file \<Rightarrow>
                 Inr (of_nat (length (p_fd_table p)),
                   pk_put i (p\<lparr>p_fd_table := p_fd_table p @ [Some file]\<rparr>) (k\<lparr>fk_disk := d\<rparr>))
             | None \<Rightarrow> Inr (- 1, k\<lparr>fk_disk := d\<rparr>))))
       | None \<Rightarrow> Inr (- 1, k)))"

definition ch6_close :: "caller \<Rightarrow> usize \<Rightarrow> ('p proc6_scheme, 'h, 'd) fkernel sys" where
  "ch6_close clr fd k =
     rbind (pk_current k) (\<lambda>(i, p).
       if unat fd \<ge> length (p_fd_table p) \<or> p_fd_table p ! unat fd = None then Inr (- 1, k)
       else Inr (0, pk_put i (set_file fd None p) k))"

definition ch6_exec ::
    "('d, 'h) kenv \<Rightarrow> caller \<Rightarrow> usize \<Rightarrow> usize \<Rightarrow> ('p proc5_scheme, 'h, 'd) fkernel sys" where
  "ch6_exec E clr path cnt k =
     rbind (pk_current k) (\<lambda>(i, p).
     rbind (pk_ptr E p path READABLE k) (\<lambda>r.
     rbind (case r of
              Some ptr \<Rightarrow> fs_open (ke_dev E) (ke_efs E) (ke_root E) (load_bytes (pk_phys k) ptr (unat cnt)) RDONLY (fk_disk k)
            | None \<Rightarrow> Inr (None, fk_disk k)) (\<lambda>(f, d).
       let k1 = k\<lparr>fk_disk := d\<rparr> in
       case f of
         None \<Rightarrow>
           rbind (fs_readdir (ke_dev E) (ke_root E) [] (fk_disk k1)) (\<lambda>(names, d2).
           rbind (unwrap names) (\<lambda>apps.
             Inr (- 1, k1\<lparr>fk_disk := d2, pk_stdout := pk_stdout k1 @ concat (map (\<lambda>app. app @ [0x0A]) apps) @ [0x0A]\<rparr>)))
       | Some file \<Rightarrow>
           rbind (finished (read_all READ_ALL_FUEL (ke_dev E) file (fk_disk k1))) (\<lambda>(bytes, d2).
           rbind (unwrap (ke_elf E bytes)) (\<lambda>elf.
           rbind (ch5_process_exec E i elf (k1\<lparr>fk_disk := d2\<rparr>)) (\<lambda>k2. Inr (0, k2)))))))"

definition ch6_io :: "('d, 'h) kenv \<Rightarrow> ('p proc6_scheme, 'h, 'd) fkernel io_sys" where
  "ch6_io E = io_sys_default\<lparr>sys_read := ch6_read E, sys_write := ch6_write E,
     sys_open := ch6_open E, sys_close := ch6_close\<rparr>"

definition ch6_process :: "('d, 'h) kenv \<Rightarrow> (proc6, 'h, 'd) fkernel process_sys" where
  "ch6_process E = process_sys_default\<lparr>sys_exit := ch5_exit, sys_fork := pk_fork (ch6_process_fork E),
     sys_exec := ch6_exec E, sys_wait := ch5_wait E, sys_getpid := ch5_getpid\<rparr>"

definition ch6_containers :: "('d, 'h) kenv \<Rightarrow> (proc6, 'h, 'd) fkernel containers" where
  "ch6_containers E =
     init_clock (ch5_clock E) (init_scheduling ch5_scheduling (init_process (ch6_process E)
       (init_io (ch6_io E) containers_new)))"

section \<open>Chapter 6: start\<close>

text \<open>
  \<^verbatim>\<open>rust_main\<close> up to the creation of the first process, which chapters 6 and 7 share: the executable of
  \<^verbatim>\<open>initproc\<close> and the state it is built in.
\<close>

definition fk_boot ::
    "('d, 'h) kenv \<Rightarrow> kernel_layout \<Rightarrow> nat \<Rightarrow> 'h phys \<Rightarrow> 'd bstate \<Rightarrow> usize list \<Rightarrow> usize \<Rightarrow>
     (elf_file \<times> ('p, 'h, 'd) fkernel) res" where
  "fk_boot E lay text ph d input now =
     rbind (portal_alloc E text ph) (\<lambda>(portal_ptr, ph1).
     rbind (kernel_space E lay MEMORY portal_ptr ph1) (\<lambda>(ks, ph2).
     rbind (fs_open (ke_dev E) (ke_efs E) (ke_root E) INITPROC RDONLY d) (\<lambda>(f, d1).
     rbind (unwrap f) (\<lambda>file.
     rbind (finished (read_all READ_ALL_FUEL (ke_dev E) file d1)) (\<lambda>(bytes, d2).
     rbind (unwrap (ke_elf E bytes)) (\<lambda>elf.
       Inr (elf, \<lparr>pk_processor = pm_new, pk_phys = ph2, pk_kspace = ks, pk_pid = 0, pk_stdout = [0x0A],
         pk_stdin = input, pk_time = now, fk_disk = d2\<rparr>)))))))"

definition ch6_start ::
    "('d, 'h) kenv \<Rightarrow> kernel_layout \<Rightarrow> nat \<Rightarrow> 'h phys \<Rightarrow> 'd bstate \<Rightarrow> usize list \<Rightarrow> usize \<Rightarrow>
     (proc6, 'h, 'd) fkernel res" where
  "ch6_start E lay text ph d input now =
     rbind (fk_boot E lay text ph d input now) (\<lambda>(elf, k).
     rbind (ch6_from_elf E elf k) (\<lambda>(r, k1). pk_first r k1))"

definition ch6_main ::
    "('d, 'h) kenv \<Rightarrow> 'h user_code \<Rightarrow> kernel_layout \<Rightarrow> nat \<Rightarrow> 'h phys \<Rightarrow> 'd bstate \<Rightarrow> usize list \<Rightarrow> usize \<Rightarrow>
     (proc6, 'h, 'd) fkernel res option" where
  "ch6_main E run lay text ph d input now =
     (case ch6_start E lay text ph d input now of
        Inl e \<Rightarrow> Some (Inl e)
      | Inr k \<Rightarrow> pk_loop (ch5_serve (ch6_containers E)) run k)"

section \<open>Chapter 7: processes\<close>

record proc7 = proc6 +
  p_signal :: signal_impl

definition ch7_from_elf ::
    "('d, 'h) kenv \<Rightarrow> elf_file \<Rightarrow> ('p, 'h, 'z) pkernel_scheme \<Rightarrow> (proc7 option \<times> ('p, 'h, 'z) pkernel_scheme) res" where
  "ch7_from_elf E elf k =
     rbind (ch6_from_elf E elf k) (\<lambda>(r, k1).
       Inr (map_option (\<lambda>p. proc6.extend p (proc7.fields signal_impl_new)) r, k1))"

definition ch7_process_fork ::
    "('d, 'h) kenv \<Rightarrow> proc7 \<Rightarrow> ('q, 'h, 'z) pkernel_scheme \<Rightarrow> (proc7 \<times> ('q, 'h, 'z) pkernel_scheme) res" where
  "ch7_process_fork E p k =
     rbind (ch5_process_fork E p k) (\<lambda>(child, k1).
       Inr (proc6.extend (proc5.extend child (proc6.fields (p_fd_table p)))
              (proc7.fields (from_fork (p_signal p))), k1))"

section \<open>Chapter 7: signals\<close>

definition set_signal :: "signal_impl \<Rightarrow> 'p proc7_scheme \<Rightarrow> 'p proc7_scheme" where
  "set_signal s p = p\<lparr>p_signal := s\<rparr>"

definition ch7_kill :: "caller \<Rightarrow> isize \<Rightarrow> u8 \<Rightarrow> ('p proc7_scheme, 'h, 'd) fkernel sys" where
  "ch7_kill clr pid signum k =
     rbind (pm_get_task proc_manage pid (pk_processor k)) (\<lambda>target.
       case target of
         Some target_task \<Rightarrow>
           (case signal_try_from signum of
              Some signal_no \<Rightarrow>
                if signal_no \<noteq> ERR then
                  rbind (add_signal signal_no (p_signal target_task)) (\<lambda>s.
                    Inr (0, pk_put pid (set_signal s target_task) k))
                else Inr (- 1, k)
            | None \<Rightarrow> Inr (- 1, k))
       | None \<Rightarrow> Inr (- 1, k))"

text \<open>The two halves of \<^verbatim>\<open>sigaction\<close>; the boolean is false where the source returns -1.\<close>

definition ch7_old_action ::
    "('d, 'h) kenv \<Rightarrow> 'p proc7_scheme \<Rightarrow> signal_no \<Rightarrow> usize \<Rightarrow> ('p proc7_scheme, 'h, 'd) fkernel \<Rightarrow>
     (bool \<times> ('p proc7_scheme, 'h, 'd) fkernel) res" where
  "ch7_old_action E p signal_no old_action k =
     (if old_action = 0 then Inr (True, k)
      else
        rbind (pk_ptr E p old_action WRITEABLE k) (\<lambda>r.
          case r of
            Some ptr \<Rightarrow>
              rbind (get_action_ref signal_no (p_signal p)) (\<lambda>a.
                case a of
                  Some signal_action \<Rightarrow>
                    Inr (True, k\<lparr>pk_phys := store_bytes ptr (signal_action_bytes signal_action) (pk_phys k)\<rparr>)
                | None \<Rightarrow> Inr (False, k))
          | None \<Rightarrow> Inr (False, k)))"

definition ch7_new_action ::
    "('d, 'h) kenv \<Rightarrow> proc_id \<Rightarrow> 'p proc7_scheme \<Rightarrow> signal_no \<Rightarrow> usize \<Rightarrow> ('p proc7_scheme, 'h, 'd) fkernel \<Rightarrow>
     (bool \<times> ('p proc7_scheme, 'h, 'd) fkernel) res" where
  "ch7_new_action E i p signal_no action k =
     (if action = 0 then Inr (True, k)
      else
        rbind (pk_ptr E p action READABLE k) (\<lambda>r.
          case r of
            Some ptr \<Rightarrow>
              rbind (set_action signal_no (load_signal_action (pk_phys k) ptr) (p_signal p)) (\<lambda>(done, s).
                Inr (done, pk_put i (set_signal s p) k))
          | None \<Rightarrow> Inr (False, k)))"

definition ch7_sigaction ::
    "('d, 'h) kenv \<Rightarrow> caller \<Rightarrow> u8 \<Rightarrow> usize \<Rightarrow> usize \<Rightarrow> ('p proc7_scheme, 'h, 'd) fkernel sys" where
  "ch7_sigaction E clr signum action old_action k =
     (if unat signum > MAX_SIG then Inr (- 1, k)
      else
        rbind (pk_current k) (\<lambda>(i, p).
          case signal_try_from signum of
            Some signal_no \<Rightarrow>
              if signal_no = ERR then Inr (- 1, k)
              else
                rbind (ch7_old_action E p signal_no old_action k) (\<lambda>(ok1, k1).
                  if \<not> ok1 then Inr (- 1, k1)
                  else
                    rbind (ch7_new_action E i p signal_no action k1) (\<lambda>(ok2, k2).
                      Inr (if ok2 then 0 else - 1, k2)))
          | None \<Rightarrow> Inr (- 1, k)))"

definition ch7_sigprocmask :: "caller \<Rightarrow> usize \<Rightarrow> ('p proc7_scheme, 'h, 'd) fkernel sys" where
  "ch7_sigprocmask clr msk k =
     rbind (pk_current k) (\<lambda>(i, p).
       let (old, s) = update_mask msk (p_signal p) in Inr (old, pk_put i (set_signal s p) k))"

definition ch7_sigreturn :: "caller \<Rightarrow> ('p proc7_scheme, 'h, 'd) fkernel sys" where
  "ch7_sigreturn clr k =
     rbind (pk_current k) (\<lambda>(i, p).
       let (ok, s, ctx) = sig_return (p_signal p) (fcontext (p_context p))
       in Inr (if ok then 0 else - 1, pk_put i (set_context ctx (set_signal s p)) k))"

definition ch7_signal :: "('d, 'h) kenv \<Rightarrow> ('p proc7_scheme, 'h, 'd) fkernel signal_sys" where
  "ch7_signal E = signal_sys_default\<lparr>sys_kill := ch7_kill, sys_sigaction := ch7_sigaction E,
     sys_sigprocmask := ch7_sigprocmask, sys_sigreturn := ch7_sigreturn\<rparr>"

definition ch7_process :: "('d, 'h) kenv \<Rightarrow> (proc7, 'h, 'd) fkernel process_sys" where
  "ch7_process E = process_sys_default\<lparr>sys_exit := ch5_exit, sys_fork := pk_fork (ch7_process_fork E),
     sys_exec := ch6_exec E, sys_wait := ch5_wait E, sys_getpid := ch5_getpid\<rparr>"

definition ch7_containers :: "('d, 'h) kenv \<Rightarrow> (proc7, 'h, 'd) fkernel containers" where
  "ch7_containers E =
     init_signal (ch7_signal E) (init_clock (ch5_clock E) (init_scheduling ch5_scheduling
       (init_process (ch7_process E) (init_io (ch6_io E) containers_new))))"

section \<open>Chapter 7: the main loop and start\<close>

text \<open>The branch of \<^verbatim>\<open>UserEnvCall\<close>: signals are handled between the call and its result.\<close>

definition ch7_serve ::
    "(proc7, 'h, 'd) fkernel containers \<Rightarrow> proc_id \<Rightarrow> (proc7, 'h, 'd) fkernel \<Rightarrow> (proc7, 'h, 'd) fkernel res" where
  "ch7_serve C i k =
     rbind (pk_call C i k) (\<lambda>(sid, syscall_ret, k1).
     rbind (pk_task i k1) (\<lambda>p.
     rbind (handle_signals (p_signal p) (fcontext (p_context p))) (\<lambda>(sr, s, ctx).
       let k2 = pk_put i (set_context ctx (set_signal s p)) k1 in
       case sr of
         ProcessKilled exit_code \<Rightarrow> pk_exit_current (word_of_int exit_code) k2
       | _ \<Rightarrow> pk_finish sid syscall_ret i k2)))"

definition ch7_start ::
    "('d, 'h) kenv \<Rightarrow> kernel_layout \<Rightarrow> nat \<Rightarrow> 'h phys \<Rightarrow> 'd bstate \<Rightarrow> usize list \<Rightarrow> usize \<Rightarrow>
     (proc7, 'h, 'd) fkernel res" where
  "ch7_start E lay text ph d input now =
     rbind (fk_boot E lay text ph d input now) (\<lambda>(elf, k).
     rbind (ch7_from_elf E elf k) (\<lambda>(r, k1). pk_first r k1))"

definition ch7_main ::
    "('d, 'h) kenv \<Rightarrow> 'h user_code \<Rightarrow> kernel_layout \<Rightarrow> nat \<Rightarrow> 'h phys \<Rightarrow> 'd bstate \<Rightarrow> usize list \<Rightarrow> usize \<Rightarrow>
     (proc7, 'h, 'd) fkernel res option" where
  "ch7_main E run lay text ph d input now =
     (case ch7_start E lay text ph d input now of
        Inl e \<Rightarrow> Some (Inl e)
      | Inr k \<Rightarrow> pk_loop (ch7_serve (ch7_containers E)) run k)"

end
