(* ===== verification/Proc_Inv.thy ===== *)
theory Proc_Inv
  imports Kernel_Ch6
begin

text \<open>
  The invariant of the kernels of chapters 5 to 7. It is stated on the process manager and the identifier
  counter, with a parameter \<open>good\<close> for what a chapter demands of the fields it adds to a process. The locale
  \<open>process_fields\<close> says that \<open>good\<close> does not depend on the fields of chapter 5, and holds the lemmas on the calls
  that all chapters share; \<open>file_fields\<close> does the same for chapter 6. The locale \<open>process_kernel\<close> is the
  interface of the main loop: the branch that serves a system call keeps the invariant, and then every
  turn does.
\<close>

section \<open>The invariant\<close>

definition tasks_of :: "'p proc_manager pmanager \<Rightarrow> proc_id \<rightharpoonup> 'p" where
  "tasks_of pm = (case manager pm of None \<Rightarrow> Map.empty | Some mg \<Rightarrow> tasks mg)"

definition ready_of :: "'p proc_manager pmanager \<Rightarrow> proc_id list" where
  "ready_of pm = (case manager pm of None \<Rightarrow> [] | Some mg \<Rightarrow> ready_queue mg)"

definition process_fine :: "('p proc5_scheme \<Rightarrow> bool) \<Rightarrow> usize \<Rightarrow> proc_id \<Rightarrow> 'p proc5_scheme \<Rightarrow> bool" where
  "process_fine good nxt i p \<longleftrightarrow> p_pid p = i \<and> i < nxt \<and> ctx_wf (fcontext (p_context p)) \<and> good p"

text \<open>The dead children that a process has not waited for: each is listed once, and no living process has its identifier.\<close>

definition dead_fine :: "(proc_id \<rightharpoonup> proc_rel) \<Rightarrow> usize \<Rightarrow> bool" where
  "dead_fine rel nxt \<longleftrightarrow> (\<forall>j r. rel j = Some r \<longrightarrow> distinct (map fst (rel_dead_children r)) \<and>
     (\<forall>d \<in> set (rel_dead_children r). fst d < nxt \<and> fst d \<notin> dom rel))"

text \<open>
  The manager's own invariant; process 0 lives; every process carries its key as its identifier, an
  identifier that the counter has passed and a full register file; every process is ready or running;
  and the lists of dead children are in order.
\<close>

definition proc_inv :: "('p proc5_scheme \<Rightarrow> bool) \<Rightarrow> 'p proc5_scheme proc_manager pmanager \<Rightarrow> usize \<Rightarrow> bool" where
  "proc_inv good pm nxt \<longleftrightarrow> pm_inv tasks ready_queue pm \<and> 0 \<in> dom (rel_map pm) \<and>
     dom (rel_map pm) = set (ready_of pm) \<union> set_option (current pm) \<and>
     (\<forall>i p. tasks_of pm i = Some p \<longrightarrow> process_fine good nxt i p) \<and> dead_fine (rel_map pm) nxt"

abbreviation pk_running :: "('p proc5_scheme \<Rightarrow> bool) \<Rightarrow> proc_id \<Rightarrow> ('p proc5_scheme, 'h, 'z) pkernel_scheme \<Rightarrow> bool" where
  "pk_running good i k \<equiv> proc_inv good (pk_processor k) (pk_pid k) \<and> current (pk_processor k) = Some i"

abbreviation pk_idle :: "('p proc5_scheme \<Rightarrow> bool) \<Rightarrow> ('p proc5_scheme, 'h, 'z) pkernel_scheme \<Rightarrow> bool" where
  "pk_idle good k \<equiv> proc_inv good (pk_processor k) (pk_pid k) \<and> current (pk_processor k) = None"

abbreviation pk_ready :: "('p, 'h, 'z) pkernel_scheme \<Rightarrow> proc_id list" where
  "pk_ready k \<equiv> ready_of (pk_processor k)"

abbreviation pk_tasks :: "('p, 'h, 'z) pkernel_scheme \<Rightarrow> proc_id \<rightharpoonup> 'p" where
  "pk_tasks k \<equiv> tasks_of (pk_processor k)"

abbreviation pk_rels :: "('p, 'h, 'z) pkernel_scheme \<Rightarrow> proc_id \<rightharpoonup> proc_rel" where
  "pk_rels k \<equiv> rel_map (pk_processor k)"

lemma pm_inv_views:
  "pm_inv tasks ready_queue pm \<longleftrightarrow> tree_inv (rel_map pm) \<and> manager pm \<noteq> None \<and>
     dom (tasks_of pm) = dom (rel_map pm) \<and> distinct (ready_of pm) \<and> set (ready_of pm) \<subseteq> dom (rel_map pm) \<and>
     (\<forall>i. current pm = Some i \<longrightarrow> i \<in> dom (rel_map pm) \<and> i \<notin> set (ready_of pm))"
  by (cases "manager pm") (auto simp: pm_inv_def tasks_of_def ready_of_def)

lemma proc_invD:
  assumes "proc_inv good pm nxt"
  shows "pm_inv tasks ready_queue pm" "0 \<in> dom (rel_map pm)" "dom (tasks_of pm) = dom (rel_map pm)"
    "tasks_of pm i = Some p \<Longrightarrow> process_fine good nxt i p" "\<exists>mg. manager pm = Some mg"
  using assms by (auto simp: proc_inv_def pm_inv_views)

text \<open>The running process is in the table.\<close>

lemma pk_current_Inr:
  "pk_running good i k \<Longrightarrow> pk_current k = Inr (j, p) \<longleftrightarrow> j = i \<and> pk_tasks k i = Some p"
  by (auto simp: pk_current_def pm_current_def proc_manage_def tasks_of_def res_eq_simps dest: proc_invD(5))

lemma pk_task_Inr: "proc_inv good (pk_processor k) n \<Longrightarrow> pk_task i k = Inr p \<longleftrightarrow> pk_tasks k i = Some p"
  by (auto simp: pk_task_def pm_get_task_def proc_manage_def tasks_of_def res_eq_simps dest: proc_invD(5))

lemma pk_running_task:
  assumes "pk_running good i k"
  obtains p where "pk_tasks k i = Some p" "process_fine good (pk_pid k) i p" "pk_current k = Inr (i, p)"
    "pk_task i k = Inr p"
proof -
  have "i \<in> dom (pk_tasks k)" using assms unfolding proc_inv_def pm_inv_views by auto
  then obtain p where p: "pk_tasks k i = Some p" by auto
  with assms pk_current_Inr [OF assms] pk_task_Inr [of good k "pk_pid k"] that show ?thesis
    by (auto dest: proc_invD(4))
qed

section \<open>Changes of the state\<close>

text \<open>What a call does to the kernel: the process goes on running, and processes may be added to the ready queue.\<close>

definition pk_keeps ::
    "('p proc5_scheme \<Rightarrow> bool) \<Rightarrow> proc_id \<Rightarrow> ('p proc5_scheme, 'h, 'z) pkernel_scheme \<Rightarrow>
     ('p proc5_scheme, 'h, 'z) pkernel_scheme \<Rightarrow> bool" where
  "pk_keeps good i k k' \<longleftrightarrow> pk_running good i k' \<and> (\<exists>new. pk_ready k' = pk_ready k @ new)"

lemma pk_keeps_refl [simp]: "pk_keeps good i k k \<longleftrightarrow> pk_running good i k"
  by (simp add: pk_keeps_def)

lemma pk_keeps_trans: "pk_keeps good i k k1 \<Longrightarrow> pk_keeps good i k1 k2 \<Longrightarrow> pk_keeps good i k k2"
  by (auto simp: pk_keeps_def)

lemma pk_keeps_fields [simp]:
  "pk_keeps good i k (k'\<lparr>pk_phys := ph\<rparr>) = pk_keeps good i k k'"
  "pk_keeps good i k (k'\<lparr>pk_stdout := out\<rparr>) = pk_keeps good i k k'"
  "pk_keeps good i k (k'\<lparr>pk_stdin := inp\<rparr>) = pk_keeps good i k k'"
  "pk_keeps good i k (k'\<lparr>pk_time := now\<rparr>) = pk_keeps good i k k'"
  by (simp_all add: pk_keeps_def)

lemma pk_put_views [simp]:
  "pk_pid (pk_put i p k) = pk_pid k" "current (pk_processor (pk_put i p k)) = current (pk_processor k)"
  "pk_rels (pk_put i p k) = pk_rels k" "pk_ready (pk_put i p k) = pk_ready k"
  "pk_tasks (pk_put i p k) = (if pk_tasks k i = None then pk_tasks k else (pk_tasks k)(i \<mapsto> p))"
  "manager (pk_processor (pk_put i p k)) = None \<longleftrightarrow> manager (pk_processor k) = None"
  by (auto simp: pk_put_def proc_manage_def tasks_of_def ready_of_def Let_def split: option.split)

lemma proc_inv_put:
  assumes "proc_inv good (pk_processor k) n" "p_pid p = i" "ctx_wf (fcontext (p_context p))" "good p"
  shows "proc_inv good (pk_processor (pk_put i p k)) n"
proof -
  have "dom (pk_tasks (pk_put i p k)) = dom (pk_tasks k)" by (auto split: if_splits)
  moreover have "process_fine good n j q" if "pk_tasks (pk_put i p k) j = Some q" for j q
    using that assms proc_invD(4) [OF assms(1)] by (auto simp: process_fine_def split: if_splits)
  ultimately show ?thesis
    using assms(1) unfolding proc_inv_def pm_inv_views by (simp only: pk_put_views(2-4,6)) blast
qed

lemma pk_keeps_put:
  "pk_keeps good j k k' \<Longrightarrow> p_pid p = i \<Longrightarrow> ctx_wf (fcontext (p_context p)) \<Longrightarrow> good p \<Longrightarrow>
     pk_keeps good j k (pk_put i p k')"
  by (simp add: pk_keeps_def proc_inv_put)

lemma wait_dead:
  "set (rel_dead_children (snd (wait_child c r))) \<subseteq> set (rel_dead_children r)"
  "set (rel_dead_children (snd (wait_any_child r))) \<subseteq> set (rel_dead_children r)"
  "distinct (map fst (rel_dead_children r)) \<Longrightarrow> distinct (map fst (rel_dead_children (snd (wait_child c r))))"
  "distinct (map fst (rel_dead_children r)) \<Longrightarrow> distinct (map fst (rel_dead_children (snd (wait_any_child r))))"
  by (auto simp: wait_child_def wait_any_child_def split_def Let_def remove_at_def pop_back_def map_butlast distinct_butlast
      take_map [symmetric] drop_map [symmetric] set_take_disj_set_drop_if_distinct
      dest: in_set_takeD in_set_dropD in_set_butlastD split: option.split)

lemma dead_fine_update:
  assumes "dead_fine rel n" "rel i = Some r" "set (rel_dead_children r') \<subseteq> set (rel_dead_children r)"
    and "distinct (map fst (rel_dead_children r'))"
  shows "dead_fine (rel(i \<mapsto> r')) n"
  using assms by (auto simp: dead_fine_def)

lemma pk_keeps_wait:
  assumes "pk_running good i k" "pm_wait c (pk_processor k) = Inr (r, pm)"
  shows "pk_keeps good i k (k\<lparr>pk_processor := pm\<rparr>)"
proof -
  have "pm_inv tasks ready_queue pm \<and> dom (rel_map pm) = dom (pk_rels k)"
    by (rule pml.wait_ok [OF proc_invD(1), of good "pk_processor k" "pk_pid k" i c]) (use assms in auto)
  moreover from assms obtain r0 r1 where w: "pk_rels k i = Some r0" "rel_map pm = (pk_rels k)(i \<mapsto> r1)"
      "r1 = snd (if c = usize_MAX then wait_any_child r0 else wait_child c r0)"
      "manager pm = manager (pk_processor k)" "current pm = Some i"
    by (auto simp: pm_wait_def res_eq_simps Let_def split_def)
  moreover have "dead_fine (rel_map pm) (pk_pid k)"
  proof -
    have f: "dead_fine (pk_rels k) (pk_pid k)" using assms(1) by (simp add: proc_inv_def)
    with w(1) have "distinct (map fst (rel_dead_children r0))" by (simp add: dead_fine_def)
    then show ?thesis unfolding w(2) by (intro dead_fine_update [OF f w(1)]) (simp_all add: w(3) wait_dead)
  qed
  ultimately show ?thesis
    using assms(1) by (auto simp: pk_keeps_def proc_inv_def tasks_of_def ready_of_def simp del: dom_fun_upd)
qed

lemma dead_fine_mono: "dead_fine rel n \<Longrightarrow> n \<noteq> - 1 \<Longrightarrow> dead_fine rel (n + 1)"
  unfolding dead_fine_def by (blast intro: less_inc)

lemma proc_inv_mono: "proc_inv good pm n \<Longrightarrow> n \<noteq> - 1 \<Longrightarrow> proc_inv good pm (n + 1)"
  by (auto simp: proc_inv_def process_fine_def less_inc dead_fine_mono)

text \<open>A new process takes the next identifier, which no process has.\<close>

lemma proc_inv_fresh: "proc_inv good pm n \<Longrightarrow> n \<notin> dom (rel_map pm) \<and> n \<noteq> 0"
proof -
  assume inv: "proc_inv good pm n"
  have lt: "i < n" if "i \<in> dom (rel_map pm)" for i
    using that proc_invD(3,4) [OF inv] by (auto simp: process_fine_def)
  with proc_invD(2) [OF inv] show ?thesis by (metis less_irrefl word_not_simps(1))
qed

lemma pk_keeps_add:
  assumes "pk_keeps good i k k1" "proc_inv good (pk_processor k1) n" "n \<noteq> - 1" "pk_pid k1 = n + 1"
    and "p_pid p = n" "ctx_wf (fcontext (p_context p))" "good p" "parent \<in> dom (pk_rels k1)"
    and "pk_op (pm_add proc_manage proc_schedule n p parent) k1 = Inr k2"
  shows "pk_keeps good i k k2"
proof -
  note fresh = proc_inv_fresh [OF assms(2)]
  from proc_invD(5) [OF assms(2)] obtain mg where mg: "manager (pk_processor k1) = Some mg" by blast
  have "pm_inv tasks ready_queue (pk_processor k1)" by (rule proc_invD(1) [OF assms(2)])
  then obtain pm where pm: "pm_add proc_manage proc_schedule n p parent (pk_processor k1) = Inr pm"
      "pm_inv tasks ready_queue pm" "current pm = current (pk_processor k1)"
      "dom (rel_map pm) = insert n (dom (pk_rels k1))"
    by (rule pml.add_ok [where i = n and parent = parent and t = p]) (use assms(3,8) fresh in \<open>auto simp: usize_MAX_def\<close>)
  have k2: "k2 = k1\<lparr>pk_processor := pm\<rparr>" using assms(9) pm(1) by (simp add: pk_op_def)
  have v: "tasks_of pm = (pk_tasks k1)(n \<mapsto> p)" "ready_of pm = pk_ready k1 @ [n]"
    using pm(1) mg by (auto simp: pm_add_def Let_def tasks_of_def ready_of_def proc_manage_def proc_schedule_def push_back_def)
  have "proc_inv good (pk_processor k1) (n + 1)" by (rule proc_inv_mono [OF assms(2,3)])
  moreover have "process_fine good (n + 1) n p" using assms(3,5-7) by (simp add: process_fine_def inc_less)
  moreover have "dead_fine (rel_map pm) (n + 1)"
  proof -
    have "rel_map pm = rel_after_add n parent (pk_rels k1)"
      using pm(1) mg by (auto simp: pm_add_def Let_def rel_after_add_def)
    moreover have "dead_fine (pk_rels k1) n" using assms(2) by (simp add: proc_inv_def)
    ultimately show ?thesis
      using less_inc [OF _ assms(3)] unfolding dead_fine_def dom_rel_after_add
      by (fastforce simp: rel_after_add_apply proc_rel_new_def add_child_def split: if_splits)
  qed
  ultimately have "proc_inv good pm (n + 1)"
    using pm(2-4) v unfolding proc_inv_def by auto
  with assms(1,4) v k2 pm(3) show ?thesis by (auto simp: pk_keeps_def)
qed

section \<open>The calls that chapters 5 to 7 share\<close>

definition call_keeps :: "('p proc5_scheme \<Rightarrow> bool) \<Rightarrow> ('p proc5_scheme, 'h, 'z) pkernel_scheme sys \<Rightarrow> bool" where
  "call_keeps good f \<longleftrightarrow> (\<forall>i k r k'. pk_running good i k \<longrightarrow> pk_pid k \<noteq> - 1 \<longrightarrow> f k = Inr (r, k') \<longrightarrow> pk_keeps good i k k')"

lemma call_keepsI:
  "(\<And>i k r k'. pk_running good i k \<Longrightarrow> pk_pid k \<noteq> - 1 \<Longrightarrow> f k = Inr (r, k') \<Longrightarrow> pk_keeps good i k k') \<Longrightarrow> call_keeps good f"
  by (simp add: call_keeps_def)

lemma pk_current_fine:
  "pk_running good i k \<Longrightarrow> pk_current k = Inr (j, p) \<Longrightarrow> j = i \<and> process_fine good (pk_pid k) i p \<and> i \<in> dom (pk_rels k)"
proof -
  assume k: "pk_running good i k" and c: "pk_current k = Inr (j, p)"
  from k obtain q where "pk_tasks k i = Some q" "process_fine good (pk_pid k) i q" "pk_current k = Inr (i, q)"
    by (rule pk_running_task)
  moreover from this have "i \<in> dom (pk_rels k)" using k proc_invD(3) [of good "pk_processor k"] by (metis domI)
  ultimately show ?thesis using c by simp
qed

lemma pk_task_fine:
  "pk_running good i k \<Longrightarrow> pk_task i k = Inr p \<Longrightarrow> process_fine good (pk_pid k) i p"
  using pk_task_Inr [of good k "pk_pid k"] by (auto dest: proc_invD(4))

lemma pk_read_console_fields [simp]:
  "pk_processor (pk_read_console n ptr k) = pk_processor k" "pk_pid (pk_read_console n ptr k) = pk_pid k"
  by (induction n arbitrary: ptr k) (auto simp: pk_getchar_def split: list.split)

lemma pk_keeps_read_console [simp]: "pk_keeps good i k (pk_read_console n ptr k') = pk_keeps good i k k'"
  by (simp add: pk_keeps_def)

lemma pk_map_portal_Inr: "pk_map_portal sp k = Inr k' \<Longrightarrow> \<exists>ph. k' = k\<lparr>pk_phys := ph\<rparr>"
  by (auto simp: pk_map_portal_def rbind_eq_Inr)

lemma elf_context_wf: "elf_context elf sp = Inr c \<Longrightarrow> ctx_wf (fcontext c)"
  by (auto simp: elf_context_def ctx_set_sp_def ctx_set_x_def ctx_wf_def ctx_user_def elim!: rbindE split: if_splits)

lemma ch5_from_elf_cases:
  assumes "ch5_from_elf E elf k = Inr (r, k1)"
  obtains "r = None" "k1 = k"
  | p ph where "r = Some p" "p_pid p = pk_pid k" "ctx_wf (fcontext (p_context p))"
      "k1 = k\<lparr>pk_phys := ph, pk_pid := pk_pid k + 1\<rparr>"
proof (cases "elf_accepted elf")
  case False
  with assms have "r = None" "k1 = k" by (auto simp: ch5_from_elf_def)
  then show thesis by (rule that(1))
next
  case True
  with assms obtain sp ph k2 c where k2: "pk_map_portal sp (k\<lparr>pk_phys := ph\<rparr>) = Inr k2" and c: "elf_context elf sp = Inr c"
    and r: "r = Some \<lparr>p_pid = pk_pid k2, p_context = c, p_space = sp\<rparr>" "k1 = k2\<lparr>pk_pid := pk_pid k2 + 1\<rparr>"
    by (auto simp: ch5_from_elf_def proc_id_new_def elim!: rbindE)
  from pk_map_portal_Inr [OF k2] obtain ph1 where "k2 = k\<lparr>pk_phys := ph1\<rparr>" by auto
  with r elf_context_wf [OF c] show thesis by (intro that(2) [OF r(1), of ph1]) simp_all
qed

lemma ch5_process_fork_Inr:
  assumes "ch5_process_fork E p k = Inr (child, k1)"
  shows "p_pid child = pk_pid k" "fcontext (p_context child) = fcontext (p_context p)"
    "\<exists>ph. k1 = k\<lparr>pk_pid := pk_pid k + 1, pk_phys := ph\<rparr>"
  using assms by (auto simp: ch5_process_fork_def Let_def proc_id_new_def elim!: rbindE dest!: pk_map_portal_Inr)

text \<open>A fork that gives a process with the next identifier and the caller's registers.\<close>

lemma pk_fork_keeps:
  assumes "\<And>p k child k1. good p \<Longrightarrow> fork p k = Inr (child, k1) \<Longrightarrow>
      p_pid child = pk_pid k \<and> fcontext (p_context child) = fcontext (p_context p) \<and> good child \<and>
      (\<exists>ph. k1 = k\<lparr>pk_pid := pk_pid k + 1, pk_phys := ph\<rparr>)"
    and "\<And>p c. good (set_context c p) = good p"
  shows "call_keeps good (pk_fork fork clr)"
proof (rule call_keepsI)
  fix i k r k'
  assume k: "pk_running good i k" "pk_pid k \<noteq> - 1" "pk_fork fork clr k = Inr (r, k')"
  then obtain j p child k1 ctx where p: "pk_current k = Inr (j, p)" and f: "fork p k = Inr (child, k1)"
    and ctx: "ctx_set_a 0 0 (fcontext (p_context child)) = Inr ctx"
    and add: "pk_op (pm_add proc_manage proc_schedule (p_pid child) (set_context ctx child) (p_pid p)) k1 = Inr k'"
    by (auto simp: pk_fork_def Let_def elim!: rbindE)
  note p_ok = pk_current_fine [OF k(1) p, unfolded process_fine_def]
  have c: "p_pid child = pk_pid k" "fcontext (p_context child) = fcontext (p_context p)" "good child"
    "\<exists>ph. k1 = k\<lparr>pk_pid := pk_pid k + 1, pk_phys := ph\<rparr>"
    using assms(1) [OF _ f] p_ok by blast+
  have wf: "ctx_wf ctx" using ctx_set_a_keeps_wf [OF _ ctx] p_ok c(2) by simp
  from c(4) obtain ph where k1: "k1 = k\<lparr>pk_pid := pk_pid k + 1, pk_phys := ph\<rparr>" by blast
  have "pk_keeps good i k k1" using k(1,2) proc_inv_mono [of good] by (auto simp: pk_keeps_def k1)
  then show "pk_keeps good i k k'"
    by (rule pk_keeps_add [OF _ _ k(2) _ _ _ _ _ add [unfolded c(1)]])
       (use k(1) p_ok c(1,3) wf assms(2) in \<open>auto simp: k1 set_context_def\<close>)
qed

locale process_fields =
  fixes good :: "'p proc5_scheme \<Rightarrow> bool"
  assumes good_space: "good (p\<lparr>p_space := sp\<rparr>) = good p" and good_context: "good (p\<lparr>p_context := c\<rparr>) = good p"
begin

lemma set_context_fields [simp]:
  "good (set_context c p) = good p" "p_pid (set_context c p) = p_pid p" "fcontext (p_context (set_context c p)) = c"
  by (simp_all add: set_context_def good_context)

lemma exec_keeps:
  assumes "pk_running good i k" "pk_pid k \<noteq> - 1" "ch5_process_exec E i elf k = Inr k'"
  shows "pk_keeps good i k k'"
proof -
  from assms(3) obtain q k1 p where e: "ch5_from_elf E elf k = Inr (Some q, k1)" and p: "pk_task i k1 = Inr p"
    and k': "k' = pk_put i (p\<lparr>p_space := p_space q, p_context := p_context q\<rparr>) k1"
    by (auto simp: ch5_process_exec_def unwrap_eq_Inr elim!: rbindE)
  from e obtain ph where q: "ctx_wf (fcontext (p_context q))" and k1: "k1 = k\<lparr>pk_phys := ph, pk_pid := pk_pid k + 1\<rparr>"
    by (cases rule: ch5_from_elf_cases) auto
  have r1: "pk_keeps good i k k1" using assms(1,2) proc_inv_mono [of good] by (auto simp: pk_keeps_def k1)
  then have "process_fine good (pk_pid k1) i p" using pk_task_fine [OF _ p] by (auto simp: pk_keeps_def)
  then show ?thesis
    unfolding k' using q by (intro pk_keeps_put [OF r1]) (simp_all add: process_fine_def good_space good_context)
qed

lemma shared_calls_keep:
  "call_keeps good (ch5_exit clr code)" "call_keeps good (ch5_sched_yield clr)" "call_keeps good (ch5_getpid clr)"
  "call_keeps good (ch5_wait E clr pid ptr)" "call_keeps good (ch5_clock_gettime E clr cid tp)"
proof -
  show "call_keeps good (ch5_exit clr code)" "call_keeps good (ch5_sched_yield clr)"
    by (rule call_keepsI; simp add: ch5_exit_def ch5_sched_yield_def)+
  show "call_keeps good (ch5_getpid clr)"
    by (rule call_keepsI) (auto simp: ch5_getpid_def elim!: rbindE)
  show "call_keeps good (ch5_wait E clr pid ptr)"
    by (rule call_keepsI) (auto simp: ch5_wait_def Let_def pk_keeps_wait elim!: rbindE split: option.splits)
  show "call_keeps good (ch5_clock_gettime E clr cid tp)"
    by (rule call_keepsI) (auto simp: ch5_clock_gettime_def Let_def elim!: rbindE split: option.splits if_splits)
qed

lemma image_calls_keep:
  "call_keeps good (ch5_write E clr fd buf cnt)" "call_keeps good (ch5_read E clr fd buf cnt)"
  "call_keeps good (ch5_exec E apps clr path cnt)"
proof -
  show "call_keeps good (ch5_write E clr fd buf cnt)" "call_keeps good (ch5_read E clr fd buf cnt)"
    by (rule call_keepsI; auto simp: ch5_write_def ch5_read_def elim!: rbindE split: option.splits if_splits)+
  show "call_keeps good (ch5_exec E apps clr path cnt)"
    by (rule call_keepsI)
       (auto simp: ch5_exec_def pk_current_Inr elim!: rbindE split: option.splits intro: exec_keeps)
qed

end

section \<open>The calls of chapters 6 and 7\<close>

lemma pk_keeps_disk [simp]: "pk_keeps good i k (k'\<lparr>fk_disk := d\<rparr>) = pk_keeps good i k k'"
  by (simp add: pk_keeps_def)

lemma pk_put_fields [simp]:
  "pk_put i p (k\<lparr>fk_disk := d\<rparr>) = (pk_put i p k)\<lparr>fk_disk := d\<rparr>"
  "pk_put i p (k\<lparr>fk_disk := d, pk_phys := ph\<rparr>) = (pk_put i p k)\<lparr>fk_disk := d, pk_phys := ph\<rparr>"
  by (simp_all add: pk_put_def Let_def)

locale file_fields = process_fields good
  for good :: "'p proc6_scheme \<Rightarrow> bool" +
  assumes good_files: "good (p\<lparr>p_fd_table := t\<rparr>) = good p"
begin

lemma set_file_fields [simp]:
  "good (set_file fd f p) = good p" "p_pid (set_file fd f p) = p_pid p" "p_context (set_file fd f p) = p_context p"
  by (simp_all add: set_file_def good_files)

text \<open>A change of the table of files of the running process.\<close>

lemma put_files_keeps:
  assumes "pk_running good i k" "pk_current k = Inr (j, p)"
  shows "pk_keeps good i k (pk_put j (set_file fd f p) k)" "pk_keeps good i k (pk_put j (p\<lparr>p_fd_table := t\<rparr>) k)"
  using pk_current_fine [OF assms] assms(1)
  by (auto intro!: pk_keeps_put simp: process_fine_def good_files)

lemma file_calls_keep:
  "call_keeps good (ch6_write E clr fd buf cnt)" "call_keeps good (ch6_read E clr fd buf cnt)"
  "call_keeps good (ch6_open E clr path flags)" "call_keeps good (ch6_close clr fd)"
  "call_keeps good (ch6_exec E clr path cnt)"
proof -
  show "call_keeps good (ch6_write E clr fd buf cnt)" "call_keeps good (ch6_read E clr fd buf cnt)"
    by (rule call_keepsI; auto simp: ch6_write_def ch6_read_def put_files_keeps
        elim!: rbindE split: option.splits if_splits)+
  show "call_keeps good (ch6_open E clr path flags)" "call_keeps good (ch6_close clr fd)"
    by (rule call_keepsI; auto simp: ch6_open_def ch6_close_def put_files_keeps
        elim!: rbindE split: option.splits if_splits)+
  show "call_keeps good (ch6_exec E clr path cnt)"
  proof (rule call_keepsI)
    fix i k r k'
    assume k: "pk_running good i k" "pk_pid k \<noteq> - 1" "ch6_exec E clr path cnt k = Inr (r, k')"
    have exec: "pk_keeps good i k k'" if "ch5_process_exec E i elf (k\<lparr>fk_disk := d\<rparr>) = Inr k'" for elf d
      using exec_keeps [OF _ _ that] k(1,2) by (simp add: pk_keeps_def)
    from k show "pk_keeps good i k k'"
      by (auto simp: ch6_exec_def Let_def pk_current_Inr intro: exec elim!: rbindE split: option.splits)
  qed
qed

end

abbreviation signals_fine :: "'p proc7_scheme \<Rightarrow> bool" where
  "signals_fine p \<equiv> sig_wf (p_signal p)"

text \<open>Chapters 5 and 6 demand nothing more.\<close>

definition any_process :: "'p proc5_scheme \<Rightarrow> bool" where
  "any_process p \<longleftrightarrow> True"

interpretation plain5: process_fields "any_process :: proc5 \<Rightarrow> bool" by unfold_locales (simp_all add: any_process_def)
interpretation plain6: file_fields "any_process :: proc6 \<Rightarrow> bool" by unfold_locales (simp_all add: any_process_def)
interpretation fine7: file_fields "signals_fine :: proc7 \<Rightarrow> bool" by unfold_locales simp_all

lemma set_signal_fields [simp]:
  "p_pid (set_signal s p) = p_pid p" "p_context (set_signal s p) = p_context p" "p_signal (set_signal s p) = s"
  by (simp_all add: set_signal_def)

lemma put_signal_keeps:
  assumes "pk_keeps signals_fine i k k'" "process_fine signals_fine n j p" "sig_wf s"
  shows "pk_keeps signals_fine i k (pk_put j (set_signal s p) k')"
  using assms by (auto intro!: pk_keeps_put simp: process_fine_def)

lemma put_current_signal:
  assumes "pk_running signals_fine i k" "pk_current k = Inr (j, p)" "sig_wf (p_signal p) \<Longrightarrow> sig_wf s"
  shows "pk_keeps signals_fine i k (pk_put j (set_signal s p) k)"
  using pk_current_fine [OF assms(1,2)] assms(1,3)
  by (auto intro!: put_signal_keeps [where n = "pk_pid k"] simp: process_fine_def)

lemma ch7_old_action_keeps:
  "ch7_old_action E p sn old k = Inr (b, k') \<Longrightarrow> pk_running good i k \<Longrightarrow> pk_keeps good i k k'"
  by (auto simp: ch7_old_action_def elim!: rbindE split: if_splits option.splits)

lemma ch7_new_action_keeps:
  "ch7_new_action E j p sn act k' = Inr (b, k'') \<Longrightarrow> pk_keeps signals_fine i k k' \<Longrightarrow> process_fine signals_fine n j p \<Longrightarrow>
     pk_keeps signals_fine i k k''"
  by (auto simp: ch7_new_action_def elim!: rbindE split: if_splits option.splits
      intro!: put_signal_keeps dest: sig_wf_set_action [rotated] simp: process_fine_def)

lemma signal_calls_keep:
  "call_keeps signals_fine (ch7_kill clr pid n)" "call_keeps signals_fine (ch7_sigaction E clr n act old)"
  "call_keeps signals_fine (ch7_sigprocmask clr msk)" "call_keeps signals_fine (ch7_sigreturn clr)"
proof -
  show "call_keeps signals_fine (ch7_kill clr pid n)"
  proof (rule call_keepsI)
    fix i k r k'
    assume k: "pk_running signals_fine i k" "ch7_kill clr pid n k = Inr (r, k')"
    have fine: "process_fine signals_fine (pk_pid k) pid p"
      if "pm_get_task proc_manage pid (pk_processor k) = Inr (Some p)" for p
      using that pk_task_Inr [of signals_fine k "pk_pid k" pid p] k(1)
      by (auto simp: pk_task_def dest: proc_invD(4))
    from k show "pk_keeps signals_fine i k k'"
      by (auto simp: ch7_kill_def add_signal_def elim!: rbindE split: option.splits if_splits)
         (rule put_signal_keeps; use fine k(1) in \<open>auto simp: process_fine_def\<close>)
  qed
  show "call_keeps signals_fine (ch7_sigaction E clr n act old)"
  proof (rule call_keepsI)
    fix i k r k'
    assume k: "pk_running signals_fine i k" "ch7_sigaction E clr n act old k = Inr (r, k')"
    have old: "pk_keeps signals_fine i k k1" if "ch7_old_action E p sn old k = Inr (b, k1)" for p sn b k1
      using ch7_old_action_keeps [OF that k(1)] .
    have new: "pk_keeps signals_fine i k k2"
      if "pk_current k = Inr (j, p)" "ch7_old_action E p sn old k = Inr (b, k1)" "ch7_new_action E j p sn act k1 = Inr (c, k2)"
      for j p sn b k1 c k2
      using ch7_new_action_keeps [OF that(3) old [OF that(2)]] pk_current_fine [OF k(1) that(1)] by blast
    from k show "pk_keeps signals_fine i k k'"
      by (auto simp: ch7_sigaction_def elim!: rbindE split: option.splits if_splits) (erule old, (erule (2) new)+)
  qed
  show "call_keeps signals_fine (ch7_sigprocmask clr msk)"
    by (rule call_keepsI)
       (auto simp: ch7_sigprocmask_def update_mask_def set_new_def put_current_signal elim!: rbindE)
  show "call_keeps signals_fine (ch7_sigreturn clr)"
  proof (rule call_keepsI)
    fix i k r k'
    assume k: "pk_running signals_fine i k" "ch7_sigreturn clr k = Inr (r, k')"
    then obtain j p where p: "pk_current k = Inr (j, p)" by (auto simp: ch7_sigreturn_def elim!: rbindE)
    note f = pk_current_fine [OF k(1) p, unfolded process_fine_def]
    obtain ok s ctx where s: "sig_return (p_signal p) (fcontext (p_context p)) = (ok, s, ctx)"
      by (cases "sig_return (p_signal p) (fcontext (p_context p))")
    have "sig_wf s \<and> ctx_wf ctx"
      using f s by (auto simp: sig_return_def sig_wf_def split: option.splits handling_signal.splits)
    moreover have "k' = pk_put j (set_context ctx (set_signal s p)) k"
      using k(2) by (simp add: ch7_sigreturn_def p s)
    ultimately show "pk_keeps signals_fine i k k'"
      using f k(1) by (auto intro!: pk_keeps_put simp: set_context_def)
  qed
qed

section \<open>Dispatch\<close>

definition io_keeps :: "('p proc5_scheme \<Rightarrow> bool) \<Rightarrow> ('p proc5_scheme, 'h, 'z) pkernel_scheme io_sys \<Rightarrow> bool" where
  "io_keeps good x \<longleftrightarrow> (\<forall>clr a b c. call_keeps good (sys_write x clr a b c) \<and> call_keeps good (sys_read x clr a b c) \<and>
     call_keeps good (sys_open x clr a b) \<and> call_keeps good (sys_close x clr a))"

definition process_keeps :: "('p proc5_scheme \<Rightarrow> bool) \<Rightarrow> ('p proc5_scheme, 'h, 'z) pkernel_scheme process_sys \<Rightarrow> bool" where
  "process_keeps good x \<longleftrightarrow> (\<forall>clr a b. call_keeps good (sys_exit x clr a) \<and> call_keeps good (sys_fork x clr) \<and>
     call_keeps good (sys_exec x clr a b) \<and> call_keeps good (sys_wait x clr a b) \<and> call_keeps good (sys_getpid x clr))"

definition signal_keeps :: "('p proc5_scheme \<Rightarrow> bool) \<Rightarrow> ('p proc5_scheme, 'h, 'z) pkernel_scheme signal_sys \<Rightarrow> bool" where
  "signal_keeps good x \<longleftrightarrow> (\<forall>clr a b n. call_keeps good (sys_kill x clr a n) \<and> call_keeps good (sys_sigaction x clr n a b) \<and>
     call_keeps good (sys_sigprocmask x clr a) \<and> call_keeps good (sys_sigreturn x clr))"

text \<open>Every registered trait keeps the invariant, and only the traits of chapter 7 are registered.\<close>

definition containers_keep :: "('p proc5_scheme \<Rightarrow> bool) \<Rightarrow> ('p proc5_scheme, 'h, 'z) pkernel_scheme containers \<Rightarrow> bool" where
  "containers_keep good C \<longleftrightarrow> pred_option (io_keeps good) (c_io C) \<and> pred_option (process_keeps good) (c_process C) \<and>
     pred_option (signal_keeps good) (c_signal C) \<and>
     pred_option (\<lambda>x. \<forall>clr a b. call_keeps good (sys_clock_gettime x clr a b)) (c_clock C) \<and>
     pred_option (\<lambda>x. \<forall>clr. call_keeps good (sys_sched_yield x clr)) (c_scheduling C) \<and>
     c_memory C = None \<and> c_thread C = None \<and> c_sync_mutex C = None"

text \<open>The outcome of a dispatched call: a panic, or a state in which the same process runs.\<close>

definition outcome_keeps ::
    "('p proc5_scheme \<Rightarrow> bool) \<Rightarrow> proc_id \<Rightarrow> ('p proc5_scheme, 'h, 'z) pkernel_scheme \<Rightarrow>
     (syscall_result \<times> ('p proc5_scheme, 'h, 'z) pkernel_scheme) res \<Rightarrow> bool" where
  "outcome_keeps good i k r = (case r of Inl e \<Rightarrow> True | Inr (ret, k') \<Rightarrow> pk_keeps good i k k')"

lemma outcome_call:
  assumes "pk_running good i k" "pk_pid k \<noteq> - 1" "pred_option (\<lambda>x. call_keeps good (f x)) c"
  shows "outcome_keeps good i k (container_call c sid f k)"
proof (cases c)
  case (Some x)
  with assms show ?thesis by (cases "f x k") (auto simp: container_call_def call_keeps_def outcome_keeps_def)
qed (use assms(1) in \<open>simp add: container_call_def outcome_keeps_def\<close>)

lemma handle_keeps:
  assumes "containers_keep good C" "pk_running good i k" "pk_pid k \<noteq> - 1" "handle C clr sid args k = Inr (r, k')"
  shows "pk_keeps good i k k'"
proof -
  obtain a0 a1 a2 a3 a4 a5 where args: "args = (a0, a1, a2, a3, a4, a5)" by (cases args)
  note C = assms(1) [unfolded containers_keep_def]
  have io: "pred_option (\<lambda>x. call_keeps good (sys_write x clr a b c)) (c_io C)"
      "pred_option (\<lambda>x. call_keeps good (sys_read x clr a b c)) (c_io C)"
      "pred_option (\<lambda>x. call_keeps good (sys_open x clr a b)) (c_io C)"
      "pred_option (\<lambda>x. call_keeps good (sys_close x clr a)) (c_io C)" for a b c
    using C by (auto simp: io_keeps_def option.pred_set)
  have pr: "pred_option (\<lambda>x. call_keeps good (sys_exit x clr a)) (c_process C)"
      "pred_option (\<lambda>x. call_keeps good (sys_fork x clr)) (c_process C)"
      "pred_option (\<lambda>x. call_keeps good (sys_exec x clr a b)) (c_process C)"
      "pred_option (\<lambda>x. call_keeps good (sys_wait x clr a b)) (c_process C)"
      "pred_option (\<lambda>x. call_keeps good (sys_getpid x clr)) (c_process C)" for a b
    using C by (auto simp: process_keeps_def option.pred_set)
  have sg: "pred_option (\<lambda>x. call_keeps good (sys_kill x clr a n)) (c_signal C)"
      "pred_option (\<lambda>x. call_keeps good (sys_sigaction x clr n a b)) (c_signal C)"
      "pred_option (\<lambda>x. call_keeps good (sys_sigprocmask x clr a)) (c_signal C)"
      "pred_option (\<lambda>x. call_keeps good (sys_sigreturn x clr)) (c_signal C)"
      "pred_option (\<lambda>x. call_keeps good (sys_clock_gettime x clr a b)) (c_clock C)"
      "pred_option (\<lambda>x. call_keeps good (sys_sched_yield x clr)) (c_scheduling C)" for a b n
    using C by (auto simp: signal_keeps_def option.pred_set)
  have none: "c_memory C = None" "c_thread C = None" "c_sync_mutex C = None" using C by auto
  have "outcome_keeps good i k (handle C clr sid args k)"
    unfolding handle_def args Let_def prod.case none
    by (split if_split, intro conjI impI)+
       (simp_all add: outcome_call [OF assms(2,3)] io pr sg, simp add: outcome_keeps_def assms(2))
  with assms(4) show ?thesis by (simp add: outcome_keeps_def)
qed

lemmas trait_records =
  io_sys_default_def process_sys_default_def signal_sys_default_def clock_sys_default_def scheduling_sys_default_def

lemmas register_defs =
  init_io_def init_process_def init_scheduling_def init_clock_def init_signal_def container_init_def
  containers_new_def container_new_def

lemma todo_keeps: "call_keeps good sys_todo"
  by (simp add: call_keeps_def sys_todo_def)

lemma fork_calls_keep:
  "call_keeps any_process (pk_fork (ch5_process_fork E) clr :: (proc5, 'h, 'z) pkernel_scheme sys)"
  "call_keeps any_process (pk_fork (ch6_process_fork E) clr :: (proc6, 'h, 'z) pkernel_scheme sys)"
  "call_keeps signals_fine (pk_fork (ch7_process_fork E) clr :: (proc7, 'h, 'z) pkernel_scheme sys)"
proof -
  show "call_keeps any_process (pk_fork (ch5_process_fork E) clr :: (proc5, 'h, 'z) pkernel_scheme sys)"
    by (rule pk_fork_keeps) (auto simp: any_process_def dest: ch5_process_fork_Inr)
  show "call_keeps any_process (pk_fork (ch6_process_fork E) clr :: (proc6, 'h, 'z) pkernel_scheme sys)"
    by (rule pk_fork_keeps)
       (auto simp: any_process_def ch6_process_fork_def proc5.defs elim!: rbindE dest: ch5_process_fork_Inr)
  show "call_keeps signals_fine (pk_fork (ch7_process_fork E) clr :: (proc7, 'h, 'z) pkernel_scheme sys)"
    by (rule pk_fork_keeps)
       (auto simp: ch7_process_fork_def proc5.defs proc6.defs proc7.defs sig_wf_from_fork
         elim!: rbindE dest: ch5_process_fork_Inr)
qed

lemma ch5_containers_keep: "containers_keep any_process (ch5_containers E apps)"
  by (simp add: containers_keep_def ch5_containers_def register_defs io_keeps_def process_keeps_def ch5_io_def ch5_process_def
      ch5_clock_def ch5_scheduling_def trait_records todo_keeps fork_calls_keep plain5.shared_calls_keep plain5.image_calls_keep)

lemma ch6_containers_keep: "containers_keep any_process (ch6_containers E)"
  by (simp add: containers_keep_def ch6_containers_def register_defs io_keeps_def process_keeps_def ch6_io_def ch6_process_def
      ch5_clock_def ch5_scheduling_def trait_records fork_calls_keep plain6.shared_calls_keep plain6.file_calls_keep)

lemma ch7_containers_keep: "containers_keep signals_fine (ch7_containers E)"
  by (simp add: containers_keep_def ch7_containers_def register_defs io_keeps_def process_keeps_def signal_keeps_def ch6_io_def
      ch7_process_def ch7_signal_def ch5_clock_def ch5_scheduling_def trait_records fork_calls_keep fine7.shared_calls_keep
      fine7.file_calls_keep signal_calls_keep)

section \<open>A turn of the main loop\<close>

lemma suspend_idle:
  assumes "pk_running good i k" "pk_suspend_current k = Inr k'"
  shows "pk_idle good k' \<and> pk_ready k' = pk_ready k @ [i] \<and> pk_tasks k' = pk_tasks k \<and> pk_pid k' = pk_pid k"
proof -
  have inv: "pm_inv tasks ready_queue (pk_processor k)" using assms(1) proc_invD(1) by blast
  obtain pm where pm: "pm_make_current_suspend proc_schedule (pk_processor k) = Inr pm" "pm_inv tasks ready_queue pm"
    "current pm = None" "rel_map pm = pk_rels k"
    by (rule pml.suspend_ok [OF inv conjunct2 [OF assms(1)]]) blast
  from assms(1) proc_invD(5) obtain mg where mg: "manager (pk_processor k) = Some mg" by blast
  have v: "tasks_of pm = pk_tasks k" "ready_of pm = pk_ready k @ [i]"
    using pm(1) mg assms(1)
    by (auto simp: pm_make_current_suspend_def tasks_of_def ready_of_def proc_schedule_def push_back_def)
  have "k' = k\<lparr>pk_processor := pm\<rparr>" using assms(2) pm(1) by (simp add: pk_suspend_current_def pk_op_def)
  with assms(1) pm(2-4) v show ?thesis by (auto simp: proc_inv_def)
qed

text \<open>When process 0 exits there is no process 0.\<close>

lemma adopt_child_zero: "rel 0 = None \<Longrightarrow> rfold adopt_child cs rel = Inr rel' \<Longrightarrow> rel' 0 = None"
proof (cases cs)
  case (Cons c ds)
  assume "rel 0 = None" "rfold adopt_child cs rel = Inr rel'"
  with Cons show ?thesis by (cases "c = 0") (auto simp: adopt_child_def Let_def elim!: rbindE)
qed simp

lemma exit_of_zero:
  assumes "current pm = Some 0" "pm_make_current_exited M code pm = Inr pm'"
  shows "0 \<notin> dom (rel_map pm')"
proof -
  from assms obtain r mg where r: "rel_map pm 0 = Some r" "manager pm = Some mg"
    by (auto simp: pm_make_current_exited_def unwrap_eq_Inr elim!: rbindE)
  let ?rel = "(rel_map pm)(0 := None)"
  let ?rel2 = "case ?rel (rel_parent r) of Some pr \<Rightarrow> ?rel(rel_parent r \<mapsto> del_child 0 code pr) | None \<Rightarrow> ?rel"
  have "rfold adopt_child (rel_children r) ?rel2 = Inr (rel_map pm')"
    using assms r by (auto simp: pm_make_current_exited_def Let_def simp del: fun_upd_apply elim!: rbindE)
  then have "rel_map pm' 0 = None" by (rule adopt_child_zero [rotated]) (auto split: option.split)
  then show ?thesis by auto
qed

lemma del_child_dead:
  "rel_dead_children (del_child i code r) = rel_dead_children r \<or>
   rel_dead_children (del_child i code r) = rel_dead_children r @ [(i, code)]"
  by (auto simp: del_child_def dest: find_index_nth split: option.split)

lemma dead_fine_exit:
  assumes "dead_fine rel n" "i \<in> dom rel" "i < n"
  shows "dead_fine (rel_after_exit i code rel) n"
proof -
  have "distinct (map fst (rel_dead_children r')) \<and> (\<forall>d \<in> set (rel_dead_children r'). fst d < n \<and> fst d \<notin> dom rel - {i})"
    if r': "rel_after_exit i code rel j = Some r'" for j r'
  proof -
    from r' obtain r where r: "rel j = Some r" "rel_dead_children r' = rel_dead_children r \<or>
        rel_dead_children r' = rel_dead_children r @ [(i, code)]"
      using del_child_dead [of i code] by (auto simp: rel_after_exit_def Let_def split: if_splits)
    from assms(1) r(1) have "distinct (map fst (rel_dead_children r))"
      "\<forall>d \<in> set (rel_dead_children r). fst d < n \<and> fst d \<notin> dom rel" unfolding dead_fine_def by blast+
    with r(2) assms(2,3) show ?thesis by fastforce
  qed
  then show ?thesis unfolding dead_fine_def dom_rel_after_exit by blast
qed

lemma exit_idle:
  assumes "pk_running good i k" "pk_exit_current code k = Inr k'" "0 \<in> dom (pk_rels k')"
  shows "pk_idle good k' \<and> pk_ready k' = pk_ready k \<and> pk_tasks k' = (pk_tasks k)(i := None) \<and>
    pk_rels k' = rel_after_exit i code (pk_rels k)"
proof -
  have inv: "pm_inv tasks ready_queue (pk_processor k)" using assms(1) proc_invD(1) by blast
  have "i \<noteq> 0"
    using assms exit_of_zero [of "pk_processor k" proc_manage code] by (auto simp: pk_exit_current_def pk_op_def elim!: rbindE)
  obtain pm where pm: "pm_make_current_exited proc_manage code (pk_processor k) = Inr pm"
    "pm_inv tasks ready_queue pm" "rel_map pm = rel_after_exit i code (pk_rels k)" "current pm = None"
    by (rule pml.exit_ok [OF inv conjunct2 [OF assms(1)] \<open>i \<noteq> 0\<close> proc_invD(2) [OF conjunct1 [OF assms(1)]], of code]) blast
  from assms(1) proc_invD(5) obtain mg where mg: "manager (pk_processor k) = Some mg" by blast
  have v: "tasks_of pm = (pk_tasks k)(i := None)" "ready_of pm = pk_ready k"
    using pm(1) mg assms(1)
    by (auto simp: pm_make_current_exited_def tasks_of_def ready_of_def proc_manage_def Let_def elim!: rbindE)
  have k': "k' = k\<lparr>pk_processor := pm\<rparr>" using assms(2) pm(1) by (simp add: pk_exit_current_def pk_op_def)
  have "i \<notin> set (pk_ready k)" "i \<in> dom (pk_rels k)" using inv assms(1) by (auto simp: pm_inv_views)
  moreover from this(2) have "dead_fine (rel_after_exit i code (pk_rels k)) (pk_pid k)"
    using assms(1) proc_invD(3,4) [OF conjunct1 [OF assms(1)]]
    by (intro dead_fine_exit) (auto simp: proc_inv_def process_fine_def)
  ultimately show ?thesis using assms(1,3) pm(2-4) v k' by (auto simp: proc_inv_def dom_rel_after_exit)
qed

lemma find_next_runs:
  assumes "pk_idle good k" "pm_find_next proc_manage proc_schedule (pk_processor k) = Inr (r, pm)"
  obtains i p where "r = Some p" "current pm = Some i" "pk_running good i (k\<lparr>pk_processor := pm\<rparr>)"
    "pk_ready k = i # ready_of pm" "tasks_of pm = pk_tasks k" "pk_tasks k i = Some p" "rel_map pm = pk_rels k"
proof -
  have inv: "pm_inv tasks ready_queue (pk_processor k)" using assms(1) proc_invD(1) by blast
  from assms(1) proc_invD(5) obtain mg where mg: "manager (pk_processor k) = Some mg" by blast
  have "0 \<in> set (pk_ready k)" using assms(1) by (auto simp: proc_inv_def)
  then obtain i q where q: "ready_queue mg = i # q" by (cases "ready_queue mg") (auto simp: ready_of_def mg)
  from inv mg q have "i \<in> dom (tasks mg)" by (auto simp: pm_inv_def)
  then obtain p where p: "tasks mg i = Some p" by auto
  have pm: "r = Some p" "pm = (pk_processor k)\<lparr>manager := Some (mg\<lparr>ready_queue := q\<rparr>), current := Some i\<rparr>"
    using assms(2) mg q p by (auto simp: pm_find_next_def proc_schedule_def proc_manage_def)
  have v: "pk_ready k = i # ready_of pm" "tasks_of pm = pk_tasks k" "pk_tasks k i = Some p"
    "ready_of pm = q" "rel_map pm = pk_rels k" "current pm = Some i"
    using pm(2) mg q p by (auto simp: ready_of_def tasks_of_def)
  have "pm_inv tasks ready_queue pm" using inv v pm(2) by (auto simp: pm_inv_views)
  with assms(1) v have "pk_running good i (k\<lparr>pk_processor := pm\<rparr>)" by (auto simp: proc_inv_def)
  with that pm(1) v show ?thesis by blast
qed

text \<open>What the main loop relies on: serving a call ends the turn of the process and keeps the order of the ready queue.\<close>

definition pk_ends ::
    "('p proc5_scheme \<Rightarrow> bool) \<Rightarrow> ('p proc5_scheme, 'h, 'z) pkernel_scheme \<Rightarrow>
     ('p proc5_scheme, 'h, 'z) pkernel_scheme \<Rightarrow> bool" where
  "pk_ends good k k' \<longleftrightarrow> pk_idle good k' \<and> (\<exists>new. pk_ready k' = pk_ready k @ new)"

lemma pk_keeps_ends: "pk_keeps good i k k1 \<Longrightarrow> pk_ends good k1 k2 \<Longrightarrow> pk_ends good k k2"
  by (auto simp: pk_keeps_def pk_ends_def)

inductive pk_reach ::
    "(proc_id \<Rightarrow> ('p proc5_scheme, 'h, 'z) pkernel_scheme \<Rightarrow> ('p proc5_scheme, 'h, 'z) pkernel_scheme res) \<Rightarrow>
     ('p proc5_scheme, 'h, 'z) pkernel_scheme \<Rightarrow> nat \<Rightarrow> ('p proc5_scheme, 'h, 'z) pkernel_scheme \<Rightarrow> bool"
  for serve k0 where
  pr_start: "pk_reach serve k0 0 k0"
| pr_turn: "pk_reach serve k0 n k \<Longrightarrow> pk_pid k \<noteq> - 1 \<Longrightarrow>
    (\<And>f ph. ctx_wf (fcontext f) \<Longrightarrow> ctx_wf (ut_context (run f ph))) \<Longrightarrow>
    pk_turn serve run k = Inr (go, k') \<Longrightarrow> 0 \<in> dom (pk_rels k') \<Longrightarrow> pk_reach serve k0 (Suc n) k'"

locale process_kernel = process_fields good
  for good :: "'p proc5_scheme \<Rightarrow> bool" +
  fixes serve :: "proc_id \<Rightarrow> ('p proc5_scheme, 'h, 'z) pkernel_scheme \<Rightarrow> ('p proc5_scheme, 'h, 'z) pkernel_scheme res"
  assumes serve_ends: "pk_running good i k \<Longrightarrow> pk_pid k \<noteq> - 1 \<Longrightarrow> serve i k = Inr k' \<Longrightarrow> 0 \<in> dom (pk_rels k') \<Longrightarrow>
    pk_ends good k k'"
begin

lemma turn_ends:
  assumes "pk_idle good k" "pk_pid k \<noteq> - 1" "\<And>f ph. ctx_wf (fcontext f) \<Longrightarrow> ctx_wf (ut_context (run f ph))"
    and "pk_turn serve run k = Inr (go, k')" "0 \<in> dom (pk_rels k')"
  shows "go \<and> pk_idle good k' \<and> (\<exists>new. pk_ready k' = tl (pk_ready k) @ new)"
proof -
  from assms(4) obtain r pm where f: "pm_find_next proc_manage proc_schedule (pk_processor k) = Inr (r, pm)"
    by (auto simp: pk_turn_def elim!: rbindE)
  let ?k0 = "k\<lparr>pk_processor := pm\<rparr>"
  from assms(1) f obtain i p where ip: "r = Some p" "current pm = Some i" "pk_running good i ?k0"
    "pk_ready k = i # ready_of pm" "pk_tasks ?k0 i = Some p"
    by (rule find_next_runs) auto
  obtain trap k1 where run: "pk_run run i p ?k0 = (trap, k1)" by fastforce
  have "process_fine good (pk_pid k) i p" using ip(3,5) proc_invD(4) [of good pm "pk_pid k" i p] by simp
  then have "pk_running good i k1 \<and> pk_pid k1 = pk_pid k \<and> pk_ready k1 = ready_of pm"
    using run ip(3) assms(3) by (auto simp: pk_run_def Let_def process_fine_def intro!: proc_inv_put)
  then have k1: "pk_running good i k1" "pk_pid k1 = pk_pid k" "pk_ready k1 = ready_of pm" by blast+
  from assms(4) have go: "go" "(case trap of UserEnvCall \<Rightarrow> serve i | OtherTrap \<Rightarrow> pk_exit_current (- 3)) k1 = Inr k'"
    by (cases trap; auto simp: pk_turn_def f ip(1,2) run elim!: rbindE)+
  have "pk_ends good k1 k'"
  proof (cases trap)
    case UserEnvCall
    with go(2) show ?thesis using serve_ends [OF k1(1) _ _ assms(5)] k1(2) assms(2) by simp
  next
    case OtherTrap
    with go(2) exit_idle [OF k1(1) _ assms(5), of "- 3"] show ?thesis by (simp add: pk_ends_def)
  qed
  with go(1) k1(3) ip(4) show ?thesis by (simp add: pk_ends_def)
qed

lemma reach_idle:
  assumes "pk_reach serve k0 n k" "pk_idle good k0"
  shows "pk_idle good k \<and> (n \<le> length (pk_ready k0) \<longrightarrow> (\<exists>new. pk_ready k = drop n (pk_ready k0) @ new))"
  using assms(1)
proof induction
  case pr_start
  show ?case using assms(2) by simp
next
  case (pr_turn n k run go k')
  note t = turn_ends [OF conjunct1 [OF pr_turn.IH] pr_turn.hyps(2-5)]
  have "\<exists>new. pk_ready k' = drop (Suc n) (pk_ready k0) @ new" if "Suc n \<le> length (pk_ready k0)"
  proof -
    from pr_turn.IH that obtain new where "pk_ready k = drop n (pk_ready k0) @ new" by auto
    moreover from that have "drop n (pk_ready k0) \<noteq> []" by simp
    ultimately have "tl (pk_ready k) = drop (Suc n) (pk_ready k0) @ new" by (simp add: tl_drop drop_Suc)
    with t show ?thesis by auto
  qed
  with t show ?case by blast
qed

end

section \<open>The kernels of chapters 5 to 7\<close>

lemma pk_call_keeps:
  assumes "containers_keep good C" "pk_running good i k" "pk_pid k \<noteq> - 1" "pk_call C i k = Inr (sid, r, k')"
    and "\<And>p c. good (set_context c p) = good p"
  shows "pk_keeps good i k k'"
proof -
  from assms(4) obtain p args where p: "pk_task i k = Inr p"
    and h: "handle C \<lparr>entity = 0, flow = 0\<rparr> sid args
      (pk_put i (set_context (ctx_move_next (fcontext (p_context p))) p) k) = Inr (r, k')"
    by (auto simp: pk_call_def Let_def elim!: rbindE)
  let ?k1 = "pk_put i (set_context (ctx_move_next (fcontext (p_context p))) p) k"
  have k1: "pk_keeps good i k ?k1"
    using pk_task_fine [OF assms(2) p] assms(2,5)
    by (intro pk_keeps_put) (auto simp: process_fine_def set_context_def)
  then have "pk_keeps good i ?k1 k'"
    using assms(3) by (intro handle_keeps [OF assms(1) _ _ h]) (auto simp: pk_keeps_def)
  with k1 show ?thesis by (rule pk_keeps_trans)
qed

context process_fields
begin

lemma finish_ends:
  assumes "pk_running good i k" "pk_finish sid r i k = Inr k'" "0 \<in> dom (pk_rels k')"
  shows "pk_ends good k k'"
proof -
  have exit: "pk_ends good k k'" if "pk_exit_current code k = Inr k'" for code
    using exit_idle [OF assms(1) that assms(3)] by (simp add: pk_ends_def)
  have put: "pk_ends good k k'"
    if "pk_task i k = Inr p" "ctx_set_a 0 v (fcontext (p_context p)) = Inr ctx"
      "pk_suspend_current (pk_put i (set_context ctx p) k) = Inr k'" for p v ctx
  proof -
    have "pk_running good i (pk_put i (set_context ctx p) k)"
      using pk_task_fine [OF assms(1) that(1)] ctx_set_a_keeps_wf [OF _ that(2)] assms(1)
      by (auto simp: process_fine_def intro!: proc_inv_put)
    from suspend_idle [OF this that(3)] show ?thesis by (auto simp: pk_ends_def)
  qed
  show ?thesis
  proof (cases r)
    case (Done v)
    with assms(2) have "pk_exit_current v k = Inr k' \<or> (\<exists>p ctx. pk_task i k = Inr p \<and>
        ctx_set_a 0 v (fcontext (p_context p)) = Inr ctx \<and> pk_suspend_current (pk_put i (set_context ctx p) k) = Inr k')"
      by (auto simp: pk_finish_def elim!: rbindE split: if_splits)
    with exit put show ?thesis by metis
  next
    case (Unsupported j)
    with assms(2) exit show ?thesis by (simp add: pk_finish_def)
  qed
qed

lemma ch5_serve_ends:
  assumes "containers_keep good C" "pk_running good i k" "pk_pid k \<noteq> - 1" "ch5_serve C i k = Inr k'" "0 \<in> dom (pk_rels k')"
  shows "pk_ends good k k'"
proof -
  from assms(4) obtain sid r k1 where c: "pk_call C i k = Inr (sid, r, k1)" and f: "pk_finish sid r i k1 = Inr k'"
    by (auto simp: ch5_serve_def elim!: rbindE)
  have k1: "pk_keeps good i k k1" by (rule pk_call_keeps [OF assms(1-3) c]) simp
  then have "pk_ends good k1 k'" by (intro finish_ends [OF _ f assms(5)]) (simp add: pk_keeps_def)
  with k1 show ?thesis by (rule pk_keeps_ends)
qed

end

lemma ch7_serve_ends:
  assumes "pk_running signals_fine i k" "pk_pid k \<noteq> - 1" "ch7_serve (ch7_containers E) i k = Inr k'" "0 \<in> dom (pk_rels k')"
  shows "pk_ends signals_fine k k'"
proof -
  from assms(3) obtain sid r k1 p sr s ctx where c: "pk_call (ch7_containers E) i k = Inr (sid, r, k1)"
    and p: "pk_task i k1 = Inr p" and h: "handle_signals (p_signal p) (fcontext (p_context p)) = Inr (sr, s, ctx)"
    and f: "(case sr of ProcessKilled code \<Rightarrow> pk_exit_current (word_of_int code) | _ \<Rightarrow> pk_finish sid r i)
      (pk_put i (set_context ctx (set_signal s p)) k1) = Inr k'"
    by (auto simp: ch7_serve_def Let_def elim!: rbindE split: signal_result.splits)
  let ?k2 = "pk_put i (set_context ctx (set_signal s p)) k1"
  have k1: "pk_keeps signals_fine i k k1" by (rule pk_call_keeps [OF ch7_containers_keep assms(1,2) c]) simp
  then have r1: "pk_running signals_fine i k1" by (simp add: pk_keeps_def)
  have "sig_wf s \<and> ctx_wf ctx" using handle_signals_wf [OF _ _ h] pk_task_fine [OF r1 p] by (simp add: process_fine_def)
  then have "pk_keeps signals_fine i k ?k2"
    using k1 pk_task_fine [OF r1 p] by (intro pk_keeps_put) (auto simp: process_fine_def)
  moreover from this have r2: "pk_running signals_fine i ?k2" by (simp add: pk_keeps_def)
  have "pk_ends signals_fine ?k2 k'"
  proof (cases "\<exists>code. sr = ProcessKilled code")
    case True
    then obtain code where "pk_exit_current (word_of_int code) ?k2 = Inr k'" using f by auto
    from exit_idle [OF r2 this assms(4)] show ?thesis by (simp add: pk_ends_def)
  next
    case False
    then have "pk_finish sid r i ?k2 = Inr k'" using f by (cases sr) auto
    then show ?thesis by (rule fine7.finish_ends [OF r2 _ assms(4)])
  qed
  ultimately show ?thesis by (rule pk_keeps_ends)
qed

interpretation kernel5: process_kernel any_process "ch5_serve (ch5_containers E apps)" for E apps
  by unfold_locales (rule plain5.ch5_serve_ends [OF ch5_containers_keep])

interpretation kernel6: process_kernel any_process "ch5_serve (ch6_containers E)" for E
  by unfold_locales (rule plain6.ch5_serve_ends [OF ch6_containers_keep])

interpretation kernel7: process_kernel signals_fine "ch7_serve (ch7_containers E)" for E
  by unfold_locales (rule ch7_serve_ends)

end
