(* ===== verification/Proc_Props.thy ===== *)
theory Proc_Props
  imports Proc_Inv
begin

unbundle bit_operations_syntax

text \<open>
  Properties of the kernels of chapters 5 to 7: no process is lost and none starves, a parent learns the
  exit code of a child exactly once, and a kill ends its target.
\<close>

section \<open>The start\<close>

lemma first_idle:
  assumes "pk_processor k = pm_new" "pk_pid k = 1" "p_pid p = 0" "ctx_wf (fcontext (p_context p))" "good p"
    and "pk_first (Some p) k = Inr k'"
  shows "pk_idle good k' \<and> pk_ready k' = [0] \<and> pk_pid k' = 1"
  using assms
  by (auto simp: pk_first_def pk_op_def pm_add_def pm_set_manager_def pm_new_def proc_manager_new_def proc_manage_def
      proc_schedule_def push_back_def proc_inv_def pm_inv_views tree_inv_def proc_rel_new_def usize_MAX_def tasks_of_def
      ready_of_def process_fine_def dead_fine_def Let_def split: if_splits)

text \<open>The state in which \<^verbatim>\<open>rust_main\<close> of chapters 5 and 7 enters its loop, when the executable was accepted.\<close>

lemma ch5_start_idle:
  assumes "ch5_start E lay text meta names ph input now = Inr (apps, k)" "manager (pk_processor k) \<noteq> None"
  shows "pk_idle any_process k \<and> pk_ready k = [0] \<and> pk_pid k = 1"
proof -
  from assms(1) obtain ph3 ks elf r k1 where
    e: "ch5_from_elf E elf \<lparr>pk_processor = pm_new, pk_phys = ph3, pk_kspace = ks, pk_pid = 0, pk_stdout = [0x0A],
          pk_stdin = input, pk_time = now\<rparr> = Inr (r, k1)" and f: "pk_first r k1 = Inr k"
    by (auto simp: ch5_start_def Let_def elim!: rbindE)
  from e show ?thesis
  proof (cases rule: ch5_from_elf_cases)
    case 1
    with f assms(2) show ?thesis by (auto simp: pk_first_def pm_new_def)
  next
    case (2 p ph4)
    with f show ?thesis by (intro first_idle [of k1 p]) (simp_all add: any_process_def)
  qed
qed

lemma ch7_start_idle:
  assumes "ch7_start E lay text ph d input now = Inr k" "manager (pk_processor k) \<noteq> None"
  shows "pk_idle signals_fine k \<and> pk_ready k = [0] \<and> pk_pid k = 1"
proof -
  from assms(1) obtain ph3 ks d2 elf r k1 where
    e: "ch5_from_elf E elf \<lparr>pk_processor = pm_new, pk_phys = ph3, pk_kspace = ks, pk_pid = 0, pk_stdout = [0x0A],
          pk_stdin = input, pk_time = now, fk_disk = d2\<rparr> = Inr (r, k1)"
    and f: "pk_first (map_option (\<lambda>p. proc6.extend p (proc7.fields signal_impl_new))
        (map_option (\<lambda>p. proc5.extend p (proc6.fields STD_FILES)) r)) k1 = Inr k"
    by (auto simp: ch7_start_def fk_boot_def ch7_from_elf_def ch6_from_elf_def Let_def elim!: rbindE)
  from e show ?thesis
  proof (cases rule: ch5_from_elf_cases)
    case 1
    with f assms(2) show ?thesis by (auto simp: pk_first_def pm_new_def)
  next
    case (2 p ph4)
    with f show ?thesis
      by (intro first_idle [of k1 "proc6.extend (proc5.extend p (proc6.fields STD_FILES)) (proc7.fields signal_impl_new)"])
         (simp_all add: proc5.defs proc6.defs proc7.defs sig_wf_new)
  qed
qed

section \<open>No process is lost\<close>

text \<open>A register file with a call, and a manager with processes 0 and 1, of which 1 is next in line.\<close>

definition demo_regs :: "syscall_id \<Rightarrow> usize \<Rightarrow> foreign_context" where
  "demo_regs a7 a0 = \<lparr>fcontext = (ctx_user 64)\<lparr>xregs := (replicate 31 0)[16 := a7, 9 := a0]\<rparr>, fsatp = 0\<rparr>"

definition pair_pm :: "'p \<Rightarrow> 'p \<Rightarrow> 'p proc_manager pmanager" where
  "pair_pm p0 p1 =
     \<lparr>rel_map = [0 \<mapsto> \<lparr>rel_parent = usize_MAX, rel_children = [1], rel_dead_children = []\<rparr>,
                 1 \<mapsto> \<lparr>rel_parent = 0, rel_children = [], rel_dead_children = []\<rparr>],
      manager = Some \<lparr>tasks = [0 \<mapsto> p0, 1 \<mapsto> p1], ready_queue = [1, 0]\<rparr>, current = None\<rparr>"

lemma pair_pm_inv:
  assumes "p_pid p0 = 0" "p_pid p1 = 1" "ctx_wf (fcontext (p_context p0))" "ctx_wf (fcontext (p_context p1))" "good p0" "good p1"
  shows "proc_inv good (pair_pm p0 p1) 2"
  using assms
  by (auto simp: pair_pm_def proc_inv_def pm_inv_views tree_inv_def usize_MAX_def tasks_of_def ready_of_def
      process_fine_def dead_fine_def split: if_splits)

text \<open>The same with process \<open>i\<close> running.\<close>

definition pair_run :: "proc_id \<Rightarrow> 'p \<Rightarrow> 'p \<Rightarrow> 'p proc_manager pmanager" where
  "pair_run i p0 p1 = (pair_pm p0 p1)\<lparr>manager := Some \<lparr>tasks = [0 \<mapsto> p0, 1 \<mapsto> p1], ready_queue = [1 - i]\<rparr>, current := Some i\<rparr>"

lemma pair_run_inv:
  assumes "p_pid p0 = 0" "p_pid p1 = 1" "ctx_wf (fcontext (p_context p0))" "ctx_wf (fcontext (p_context p1))" "good p0" "good p1"
    and "i = 0 \<or> i = 1"
  shows "proc_inv good (pair_run i p0 p1) 2"
  using assms(7) pair_pm_inv [OF assms(1-6)]
  by (auto simp: pair_run_def pair_pm_def proc_inv_def pm_inv_views tasks_of_def ready_of_def split: if_splits)

lemma demo_regs_wf [simp]: "ctx_wf (fcontext (demo_regs a7 a0))"
  by (simp add: demo_regs_def ctx_wf_def)

definition demo5 :: "proc_id \<Rightarrow> syscall_id \<Rightarrow> usize \<Rightarrow> proc5" where
  "demo5 i a7 a0 = \<lparr>p_pid = i, p_context = demo_regs a7 a0, p_space = \<lparr>areas = [], page_manager = 4096\<rparr>\<rparr>"

definition demo7 :: "proc_id \<Rightarrow> syscall_id \<Rightarrow> usize \<Rightarrow> proc7" where
  "demo7 i a7 a0 = \<lparr>p_pid = i, p_context = demo_regs a7 a0, p_space = \<lparr>areas = [], page_manager = 4096\<rparr>,
     p_fd_table = [], p_signal = signal_impl_new\<rparr>"

text \<open>Tables in pages 1, 2 and 3 that map the first virtual page to page 4, readable and writable.\<close>

definition demo_tables :: "unit phys" where
  "demo_tables = \<lparr>frames = (\<lambda>p. (replicate 512 0)[0 := if p = 1 then 0x801 else if p = 2 then 0xC01 else if p = 3 then 0x1017 else 0]),
     heap = ()\<rparr>"

definition demo_kernel5 :: "proc5 \<Rightarrow> proc5 \<Rightarrow> (proc5, unit) pkernel" where
  "demo_kernel5 p0 p1 = \<lparr>pk_processor = pair_pm p0 p1, pk_phys = demo_tables,
     pk_kspace = \<lparr>areas = [], page_manager = 8192\<rparr>, pk_pid = 2, pk_stdout = [], pk_stdin = [], pk_time = 0\<rparr>"

definition demo_kernel7 :: "proc7 \<Rightarrow> proc7 \<Rightarrow> (proc7, unit, unit) fkernel" where
  "demo_kernel7 p0 p1 = \<lparr>pk_processor = pair_pm p0 p1, pk_phys = \<lparr>frames = (\<lambda>_. replicate 512 0), heap = ()\<rparr>,
     pk_kspace = \<lparr>areas = [], page_manager = 8192\<rparr>, pk_pid = 2, pk_stdout = [], pk_stdin = [], pk_time = 0,
     fk_disk = \<lparr>bqueue = [], device = ()\<rparr>\<rparr>"

definition demo_trap :: "trap \<Rightarrow> unit user_code" where
  "demo_trap t f ph = \<lparr>ut_context = fcontext f, ut_phys = ph, ut_trap = t, ut_time = 0, ut_input = []\<rparr>"

text \<open>
  C2. In every state that the kernel of chapter 7 reaches at the head of its loop, whatever the processes do
  and whatever calls they make, as long as process 0 lives and identifiers have not run out, the ready queue holds every living process exactly once: none is lost
  and none is queued twice. Every process carries its key as its identifier, a full register file and a
  well-formed signal module, the forest of processes is consistent, and the scheduler finds a process to run.
\<close>

theorem no_process_lost:
  assumes "pk_idle signals_fine k0" "pk_reach (ch7_serve (ch7_containers E)) k0 n k"
  shows "pk_idle signals_fine k \<and> distinct (pk_ready k) \<and> set (pk_ready k) = dom (pk_tasks k) \<and> tree_inv (pk_rels k)
    \<and> (\<forall>i p. pk_tasks k i = Some p \<longrightarrow> p_pid p = i \<and> ctx_wf (fcontext (p_context p)) \<and> sig_wf (p_signal p))
    \<and> (\<exists>i p pm. pm_find_next proc_manage proc_schedule (pk_processor k) = Inr (Some p, pm)
        \<and> current pm = Some i \<and> pk_tasks k i = Some p)"
proof -
  from kernel7.reach_idle [OF assms(2,1)] have idle: "pk_idle signals_fine k" by blast
  then have inv: "pm_inv tasks ready_queue (pk_processor k)" "current (pk_processor k) = None" using proc_invD(1) by blast+
  obtain r pm where f: "pm_find_next proc_manage proc_schedule (pk_processor k) = Inr (r, pm)"
    by (rule pml.find_next_ok [OF inv]) blast+
  from idle f obtain i p where "r = Some p" "current pm = Some i" "pk_tasks k i = Some p" by (rule find_next_runs)
  moreover have "dom (pk_tasks k) = dom (pk_rels k)" "distinct (pk_ready k)" "tree_inv (pk_rels k)"
    using inv(1) by (auto simp: pm_inv_views)
  moreover have "dom (pk_rels k) = set (pk_ready k)" using idle by (simp add: proc_inv_def)
  ultimately show ?thesis
    using idle f proc_invD(4) [OF conjunct1 [OF idle]] by (auto simp: process_fine_def)
qed

lemma demo7_turn:
  "\<exists>k'. pk_turn (ch7_serve (ch7_containers E)) (demo_trap OtherTrap) (demo_kernel7 (demo7 0 0 0) (demo7 1 0 0)) = Inr (True, k')
     \<and> 0 \<in> dom (pk_rels k') \<and> pk_ready k' = [0]"
  by (simp add: pk_turn_def pm_find_next_def demo_kernel7_def pair_pm_def proc_schedule_def proc_manage_def pk_run_def demo_trap_def
      pk_exit_current_def pk_op_def pm_make_current_exited_def pk_put_def ready_of_def del_child_def remove_at_def Let_def)

lemma demo_kernel7_idle: "pk_idle signals_fine (demo_kernel7 (demo7 0 a b) (demo7 1 c d))"
  using pair_pm_inv [of "demo7 0 a b" "demo7 1 c d" signals_fine]
  by (simp add: demo_kernel7_def demo7_def sig_wf_new) (simp add: pair_pm_def)

theorem no_process_lost_witness:
  "\<forall>E. \<exists>k'. pk_turn (ch7_serve (ch7_containers E)) (demo_trap OtherTrap) (demo_kernel7 (demo7 0 0 0) (demo7 1 0 0)) = Inr (True, k')
     \<and> dom (pk_tasks k') = {0}"
proof
  fix E
  from demo7_turn [of E] obtain k' where k': "pk_turn (ch7_serve (ch7_containers E)) (demo_trap OtherTrap)
      (demo_kernel7 (demo7 0 0 0) (demo7 1 0 0)) = Inr (True, k')" "0 \<in> dom (pk_rels k')" "pk_ready k' = [0]" by blast
  have "pk_reach (ch7_serve (ch7_containers E)) (demo_kernel7 (demo7 0 0 0) (demo7 1 0 0)) (Suc 0) k'"
    by (rule pr_turn [OF pr_start _ _ k'(1,2)]) (simp_all add: demo_kernel7_def demo_trap_def)
  from no_process_lost [OF demo_kernel7_idle this] k' show "\<exists>k'. pk_turn (ch7_serve (ch7_containers E)) (demo_trap OtherTrap)
      (demo_kernel7 (demo7 0 0 0) (demo7 1 0 0)) = Inr (True, k') \<and> dom (pk_tasks k') = {0}" by auto
qed

section \<open>No process starves\<close>

text \<open>
  C11. Scheduling in the kernel of chapter 5 is fair: the process that is \<open>n\<close>-th in the ready queue is the one
  that runs after \<open>n\<close> more turns, whatever the processes before it do in their turns, also if they create
  processes or end, as long as process 0 lives and identifiers have not run out.
\<close>

theorem no_starvation:
  assumes "pk_idle any_process k0" "n < length (pk_ready k0)"
    and "pk_reach (ch5_serve (ch5_containers E apps)) k0 n k"
  shows "\<exists>p pm. pm_find_next proc_manage proc_schedule (pk_processor k) = Inr (Some p, pm)
    \<and> current pm = Some (pk_ready k0 ! n) \<and> p_pid p = pk_ready k0 ! n"
proof -
  from kernel5.reach_idle [OF assms(3,1)] assms(2) obtain new where
    idle: "pk_idle any_process k" and q: "pk_ready k = drop n (pk_ready k0) @ new" by auto
  then have inv: "pm_inv tasks ready_queue (pk_processor k)" "current (pk_processor k) = None" using proc_invD(1) by blast+
  obtain r pm where f: "pm_find_next proc_manage proc_schedule (pk_processor k) = Inr (r, pm)"
    by (rule pml.find_next_ok [OF inv]) blast+
  from idle f obtain i p where ip: "r = Some p" "current pm = Some i" "pk_ready k = i # ready_of pm" "pk_tasks k i = Some p"
    by (rule find_next_runs)
  have "i = pk_ready k0 ! n" using q ip(3) assms(2) by (metis append_Cons Cons_nth_drop_Suc list.inject)
  moreover have "p_pid p = i" using proc_invD(4) [OF conjunct1 [OF idle] ip(4)] by (simp add: process_fine_def)
  ultimately show ?thesis using f ip(1,2) by blast
qed

lemma demo_kernel5_idle: "pk_idle any_process (demo_kernel5 (demo5 0 a b) (demo5 1 c d))"
  using pair_pm_inv [of "demo5 0 a b" "demo5 1 c d" any_process]
  by (simp add: demo_kernel5_def demo5_def any_process_def) (simp add: pair_pm_def)

lemma demo5_turn:
  "\<exists>k'. pk_turn (ch5_serve (ch5_containers E apps)) (demo_trap OtherTrap) (demo_kernel5 (demo5 0 0 0) (demo5 1 0 0)) = Inr (True, k')
     \<and> 0 \<in> dom (pk_rels k')"
  by (simp add: pk_turn_def pm_find_next_def demo_kernel5_def pair_pm_def proc_schedule_def proc_manage_def pk_run_def demo_trap_def
      pk_exit_current_def pk_op_def pm_make_current_exited_def pk_put_def Let_def)

theorem no_starvation_witness:
  "\<forall>E apps. \<exists>k' p pm. pk_turn (ch5_serve (ch5_containers E apps)) (demo_trap OtherTrap)
       (demo_kernel5 (demo5 0 0 0) (demo5 1 0 0)) = Inr (True, k')
     \<and> pm_find_next proc_manage proc_schedule (pk_processor k') = Inr (Some p, pm) \<and> current pm = Some 0"
proof (intro allI)
  fix E apps
  from demo5_turn [of E apps] obtain k' where k': "pk_turn (ch5_serve (ch5_containers E apps)) (demo_trap OtherTrap)
      (demo_kernel5 (demo5 0 0 0) (demo5 1 0 0)) = Inr (True, k')" "0 \<in> dom (pk_rels k')" by blast
  have "pk_reach (ch5_serve (ch5_containers E apps)) (demo_kernel5 (demo5 0 0 0) (demo5 1 0 0)) (Suc 0) k'"
    by (rule pr_turn [OF pr_start _ _ k'(1,2)]) (simp_all add: demo_kernel5_def demo_trap_def)
  from no_starvation [OF demo_kernel5_idle _ this] k' show "\<exists>k' p pm. pk_turn (ch5_serve (ch5_containers E apps)) (demo_trap OtherTrap)
      (demo_kernel5 (demo5 0 0 0) (demo5 1 0 0)) = Inr (True, k')
     \<and> pm_find_next proc_manage proc_schedule (pk_processor k') = Inr (Some p, pm) \<and> current pm = Some 0"
    by (auto simp: demo_kernel5_def pair_pm_def ready_of_def)
qed

section \<open>Exit and wait\<close>

text \<open>The running process, if it is not process 0, can be ended.\<close>

lemma exit_total:
  assumes "pk_running good i k" "i \<noteq> 0"
  obtains pm where "pk_exit_current code k = Inr (k\<lparr>pk_processor := pm\<rparr>)" "pk_idle good (k\<lparr>pk_processor := pm\<rparr>)"
    "tasks_of pm = (pk_tasks k)(i := None)" "rel_map pm = rel_after_exit i code (pk_rels k)"
proof -
  have "pm_inv tasks ready_queue (pk_processor k)" and z: "0 \<in> dom (pk_rels k)"
    using assms(1) proc_invD(1,2) [of good "pk_processor k" "pk_pid k"] by blast+
  then obtain pm where pm: "pm_make_current_exited proc_manage code (pk_processor k) = Inr pm"
    "rel_map pm = rel_after_exit i code (pk_rels k)"
    by (rule pml.exit_ok [OF _ conjunct2 [OF assms(1)] assms(2), where code = code]) blast+
  then have e: "pk_exit_current code k = Inr (k\<lparr>pk_processor := pm\<rparr>)" by (simp add: pk_exit_current_def pk_op_def)
  have "0 \<in> dom (rel_map pm)" unfolding pm(2) dom_rel_after_exit using z assms(2) by blast
  with exit_idle [OF assms(1) e] that [OF e] pm(2) show ?thesis by simp
qed

lemma ch5_handle_exit: "handle (ch5_containers E apps) clr SYS_EXIT (a, args) k = Inr (Done a, k)"
  by (cases args) (simp add: handle_def container_call_def ch5_containers_def register_defs ch5_process_def ch5_exit_def syscall_ids)

text \<open>A process that calls \<^verbatim>\<open>exit\<close> ends with the code in its first argument.\<close>

lemma ch5_serve_exit:
  assumes "pk_running any_process i k" "i \<noteq> 0" "pk_tasks k i = Some p" "xregs (fcontext (p_context p)) ! 16 = SYS_EXIT"
  shows "\<exists>k'. ch5_serve (ch5_containers E apps) i k = Inr k' \<and> pk_idle any_process k' \<and> pk_tasks k' = (pk_tasks k)(i := None) \<and>
    pk_rels k' = rel_after_exit i (xregs (fcontext (p_context p)) ! 9) (pk_rels k) \<and> pk_phys k' = pk_phys k"
proof -
  let ?c = "fcontext (p_context p)" and ?code = "xregs (fcontext (p_context p)) ! 9"
  have t: "pk_task i k = Inr p" using pk_task_Inr [of any_process k "pk_pid k"] assms(1,3) by blast
  have fine: "process_fine any_process (pk_pid k) i p" using proc_invD(4) [OF conjunct1 [OF assms(1)] assms(3)] .
  let ?k1 = "pk_put i (set_context (ctx_move_next ?c) p) k"
  have wf: "ctx_wf (ctx_move_next ?c)" using fine by (simp add: process_fine_def)
  have k1: "pk_running any_process i ?k1"
    using fine wf assms(1) by (auto simp: process_fine_def intro!: proc_inv_put)
  have "pk_call (ch5_containers E apps) i k = Inr (SYS_EXIT, Done ?code, ?k1)"
    using assms(4) read_frame_wf [OF wf] by (simp add: pk_call_def t ch5_handle_exit ctx_move_next_def Let_def)
  then have serve: "ch5_serve (ch5_containers E apps) i k = pk_exit_current ?code ?k1"
    by (simp add: ch5_serve_def pk_finish_def)
  obtain pm where "pk_exit_current ?code ?k1 = Inr (?k1\<lparr>pk_processor := pm\<rparr>)" "pk_idle any_process (?k1\<lparr>pk_processor := pm\<rparr>)"
    "tasks_of pm = (pk_tasks ?k1)(i := None)" "rel_map pm = rel_after_exit i ?code (pk_rels ?k1)"
    by (rule exit_total [OF k1 assms(2)])
  moreover have "pk_phys ?k1 = pk_phys k" by (simp add: pk_put_def Let_def)
  ultimately show ?thesis using serve assms(3) by simp
qed

text \<open>The parent's entry afterwards: the child is its youngest dead child.\<close>

lemma parent_after_exit:
  assumes "proc_inv good pm n" "rel_map pm i = Some r" "rel_map pm (rel_parent r) = Some rj"
  shows "\<exists>rj'. rel_after_exit i code (rel_map pm) (rel_parent r) = Some rj' \<and>
    rel_dead_children rj' = rel_dead_children rj @ [(i, code)] \<and> i \<notin> set (rel_children rj') \<and>
    i \<notin> fst ` set (rel_dead_children rj)"
proof -
  have tree: "tree_inv (rel_map pm)" and dead: "dead_fine (rel_map pm) n"
    using assms(1) by (auto simp: proc_inv_def pm_inv_views)
  note t = tree_invD [OF tree assms(3)]
  have mem: "i \<in> set (rel_children rj)" using t(2) [of i] assms(2) by blast
  have "i \<notin> set (rel_children r)" using tree_invD(2,4) [OF tree assms(2)] assms(2) by fastforce
  then obtain rj' where r': "rel_after_exit i code (rel_map pm) (rel_parent r) = Some rj'"
    "rel_dead_children rj' = rel_dead_children rj @ [(i, code)]" "i \<notin> set (rel_children rj')"
    using assms(2,3) tree_invD(4) [OF tree assms(2)] t(1) del_child_eq [OF t(1) mem, of code]
    by (auto simp: rel_after_exit_def Let_def)
  moreover have "i \<notin> fst ` set (rel_dead_children rj)" using dead assms(2,3) by (fastforce simp: dead_fine_def)
  ultimately show ?thesis by blast
qed

lemma wait_child_dead:
  assumes "rel_dead_children r = ds @ [(i, code)]" "i \<notin> fst ` set ds" "i \<notin> set (rel_children r)"
  shows "wait_child i r = (Some (i, code), r\<lparr>rel_dead_children := ds\<rparr>)"
    "wait_child i (r\<lparr>rel_dead_children := ds\<rparr>) = (None, r\<lparr>rel_dead_children := ds\<rparr>)"
proof -
  have n: "find_index (\<lambda>d. fst d = i) ds = None" "find_index (\<lambda>j. j = i) (rel_children r) = None"
    using assms(2,3) by (force simp: find_index_None)+
  then show "wait_child i (r\<lparr>rel_dead_children := ds\<rparr>) = (None, r\<lparr>rel_dead_children := ds\<rparr>)"
    by (simp add: wait_child_def)
  show "wait_child i r = (Some (i, code), r\<lparr>rel_dead_children := ds\<rparr>)"
    using find_index_append_None [OF n(1), of "[(i, code)]"] by (simp add: wait_child_def assms(1) remove_at_def)
qed


text \<open>Process 1 exits with code 7, and process 0, its parent, runs next.\<close>

definition demo_exiting :: "(proc5, unit) pkernel" where
  "demo_exiting = (demo_kernel5 (demo5 0 0 0) (demo5 1 SYS_EXIT 7))\<lparr>pk_processor := pair_run 1 (demo5 0 0 0) (demo5 1 SYS_EXIT 7)\<rparr>"

lemma demo_exiting_running: "pk_running any_process 1 demo_exiting"
  using pair_run_inv [of "demo5 0 0 0" "demo5 1 SYS_EXIT 7" any_process 1]
  by (simp add: demo_exiting_def demo_kernel5_def demo5_def any_process_def) (simp add: pair_run_def)

declare walk_inner.simps [code]

lemma demo_translate:
  "translate sv39 (sv39_manage bd) \<lparr>areas = [], page_manager = 4096\<rparr> (vaddr_new sv39 8) WRITEABLE demo_tables = Some (Inr (Some 0x4008))"
  by code_simp


section \<open>Killing a process\<close>

lemma sigkill_pending:
  assumes "sig_wf s0" "handling s0 = None" "9 \<notin> sigs (sig_mask s0)" "\<forall>n \<in> deliverable s0. 9 < n"
  shows "\<exists>s. add_signal SIGKILL s0 = Inr s \<and> sig_wf s \<and>
    (\<forall>c. ctx_wf c \<longrightarrow> (\<exists>s1. sig_wf s1 \<and> handle_signals s c = Inr (ProcessKilled (- 9), s1, c)))"
proof -
  obtain t where t: "add_bit 9 (received s0) = Inr t" "sigs t = insert 9 (sigs (received s0))"
    using add_bit_sigs [of 9 "received s0"] by auto
  let ?s = "s0\<lparr>received := t\<rparr>"
  have wf: "sig_wf (s0\<lparr>received := x\<rparr>)" for x using assms(1) by (simp add: sig_wf_def)
  have d: "deliverable ?s = insert 9 (deliverable s0)" using t(2) assms(3) by (auto simp: deliverable_def)
  have "Min (deliverable ?s) = 9" unfolding d using assms(4) by (intro Min_eqI) auto
  then have m: "deliverable ?s \<noteq> {}" "Min (deliverable ?s) \<le> MAX_SIG" "all_signals ! Min (deliverable ?s) = SIGKILL"
    by (auto simp: d MAX_SIG_def all_signals_def)
  have "\<exists>s1. sig_wf s1 \<and> handle_signals ?s c = Inr (ProcessKilled (- 9), s1, c)" if "ctx_wf c" for c
  proof -
    have "\<exists>r. handle_signals ?s c = Inr (dispatch (all_signals ! Min (deliverable ?s)) (?s\<lparr>received := r\<rparr>) c)
         \<and> sigs r = sigs (received ?s) - {Min (deliverable ?s)}"
      using assms(1,2) m that by (intro handle_signals_dispatch) (auto simp: sig_wf_def)
    then show ?thesis using m(3) wf by (auto simp: dispatch_def)
  qed
  moreover have "add_signal SIGKILL s0 = Inr ?s" using t(1) by (simp add: add_signal_def)
  ultimately show ?thesis using wf by blast
qed

text \<open>
  The calls other than \<^verbatim>\<open>kill\<close>, \<^verbatim>\<open>sigaction\<close>, \<^verbatim>\<open>sigprocmask\<close> and \<^verbatim>\<open>sigreturn\<close> leave the signals of the caller alone: process
  \<^verbatim>\<open>j\<close> having the signals \<^verbatim>\<open>s\<close> is kept by every such call, and a child that \<^verbatim>\<open>fork\<close> adds is another process.
\<close>

definition signals_of :: "proc_id \<Rightarrow> signal_impl \<Rightarrow> proc7 \<Rightarrow> bool" where
  "signals_of j s p \<longleftrightarrow> p_pid p = j \<longrightarrow> p_signal p = s"

interpretation kept7: file_fields "signals_of j s" for j s by unfold_locales (simp_all add: signals_of_def)

definition signal_calls :: "syscall_id set" where
  "signal_calls = {SYS_KILL, SYS_RT_SIGACTION, SYS_RT_SIGPROCMASK, SYS_RT_SIGRETURN}"

lemma fork_keeps_signals:
  fixes k :: "(proc7, 'h, 'd) fkernel"
  assumes "proc_inv good (pk_processor k) (pk_pid k)" "pk_tasks k j = Some p" "pk_fork (ch7_process_fork E) clr k = Inr (r, k')"
  shows "pk_tasks k' j = Some p"
proof -
  from assms(3) obtain i q child k1 t where f: "ch7_process_fork E q k = Inr (child, k1)"
    and a: "pk_op (pm_add proc_manage proc_schedule (p_pid child) t (p_pid q)) k1 = Inr k'"
    by (auto simp: pk_fork_def Let_def elim!: rbindE)
  from f obtain c5 where f5: "ch5_process_fork E q k = Inr (c5, k1)" and child: "p_pid child = p_pid c5"
    by (auto simp: ch7_process_fork_def proc6.defs proc7.defs proc5.defs elim!: rbindE)
  have c: "p_pid child = pk_pid k" "pk_processor k1 = pk_processor k"
    using ch5_process_fork_Inr(1,3) [OF f5] child by auto
  have "j \<noteq> pk_pid k" using proc_invD(4) [OF assms(1,2)] by (auto simp: process_fine_def)
  with a c assms(2) show ?thesis
    by (auto simp: pk_op_def pm_add_def tasks_of_def proc_manage_def proc_schedule_def Let_def unwrap_eq_Inr elim!: rbindE split: option.splits)
qed

lemma other_calls_keep_signals:
  fixes k :: "(proc7, 'h, 'd) fkernel"
  assumes k: "pk_running signals_fine j k" "pk_pid k \<noteq> - 1" and p: "pk_tasks k j = Some p"
    and call: "pk_call (ch7_containers E) j k = Inr (sid, r, k3)" "sid \<notin> signal_calls" and q: "pk_tasks k3 j = Some q"
  shows "p_signal q = p_signal p"
proof -
  let ?C = "(ch7_containers E)\<lparr>c_signal := None, c_process := Some ((ch7_process E)\<lparr>sys_fork := \<lambda>_. sys_todo\<rparr>)\<rparr>"
  have C: "containers_keep (signals_of j (p_signal p)) ?C"
    by (simp add: containers_keep_def ch7_containers_def register_defs io_keeps_def process_keeps_def ch6_io_def ch7_process_def
        ch5_clock_def ch5_scheduling_def trait_records todo_keeps kept7.shared_calls_keep kept7.file_calls_keep)
  from call(1) obtain p' args where p': "pk_task j k = Inr p'"
    and h: "handle (ch7_containers E) \<lparr>entity = 0, flow = 0\<rparr> sid args
      (pk_put j (set_context (ctx_move_next (fcontext (p_context p'))) p') k) = Inr (r, k3)"
    and fr: "read_frame (ctx_move_next (fcontext (p_context p'))) = Inr (sid, args)"
    by (auto simp: pk_call_def Let_def elim!: rbindE)
  have pp: "p' = p" using p' p by (auto simp: pk_task_def pm_get_task_def proc_manage_def tasks_of_def unwrap_eq_Inr elim!: rbindE)
  obtain a0 a1 a2 a3 a4 a5 where args: "args = (a0, a1, a2, a3, a4, a5)" by (cases args)
  show ?thesis
  proof (cases "sid = SYS_CLONE")
    case True
    let ?k1 = "pk_put j (set_context (ctx_move_next (fcontext (p_context p))) p) k"
    from h have "pk_fork (ch7_process_fork E) \<lparr>entity = 0, flow = 0\<rparr> ?k1 = Inr (case r of Done v \<Rightarrow> v, k3)"
      unfolding True pp args
      by (auto simp: handle_def container_call_def ch7_containers_def register_defs ch7_process_def syscall_ids elim!: rbindE)
    moreover have "proc_inv signals_fine (pk_processor ?k1) (pk_pid ?k1)"
      using k(1) proc_invD(4) [OF conjunct1 [OF k(1)] p] by (auto intro!: proc_inv_put simp: process_fine_def set_context_def)
    moreover have "pk_tasks ?k1 j = Some (set_context (ctx_move_next (fcontext (p_context p))) p)" using p by simp
    ultimately have "pk_tasks k3 j = Some (set_context (ctx_move_next (fcontext (p_context p))) p)"
      using fork_keeps_signals by blast
    with q show ?thesis by (auto simp: set_context_def)
  next
    case False
    have "handle (ch7_containers E) clr sid args k0 = handle ?C clr sid args k0" for clr and k0 :: "(proc7, 'h, 'd) fkernel"
      using call(2) False unfolding args signal_calls_def
      by (simp add: handle_def ch7_containers_def register_defs ch7_process_def container_call_def)
    with h fr p' have c: "pk_call ?C j k = Inr (sid, r, k3)" by (simp add: pk_call_def Let_def)
    have "pk_running (signals_of j (p_signal p)) j k"
      using k(1) p by (auto simp: proc_inv_def process_fine_def signals_of_def)
    from pk_call_keeps [OF C this k(2) c] have "pk_running (signals_of j (p_signal p)) j k3" by (simp add: pk_keeps_def)
    from proc_invD(4) [OF conjunct1 [OF this] q] show ?thesis by (simp add: process_fine_def signals_of_def)
  qed
qed


text \<open>Process 0 kills process 1, which then makes a call.\<close>

lemma demo7_running:
  assumes "sig_wf s" "i = 0 \<or> i = 1"
  shows "pk_running signals_fine i ((demo_kernel7 p0 p1)\<lparr>pk_processor := pair_run i (demo7 0 a b) ((demo7 1 c d)\<lparr>p_signal := s\<rparr>)\<rparr>)"
  using pair_run_inv [of "demo7 0 a b" "(demo7 1 c d)\<lparr>p_signal := s\<rparr>" signals_fine i] assms
  by (simp add: demo_kernel7_def demo7_def sig_wf_new) (simp add: pair_run_def)

lemma demo7_getpid:
  "\<exists>k3 q. pk_call (ch7_containers E) 1 ((demo_kernel7 p0 p1)\<lparr>pk_processor := pair_run 1 (demo7 0 a b)
       ((demo7 1 SYS_GETPID d)\<lparr>p_signal := s\<rparr>)\<rparr>) = Inr (SYS_GETPID, Done 1, k3) \<and> pk_tasks k3 1 = Some q \<and> p_signal q = s"
  by (simp add: pk_call_def pk_task_def pm_get_task_def proc_manage_def pair_run_def pair_pm_def demo7_def demo_regs_def pk_put_def
      set_context_def read_frame_def ctx_a_def ctx_x_def ctx_move_next_def handle_def container_call_def ch7_containers_def
      register_defs ch7_process_def ch5_getpid_def pk_current_def pm_current_def tasks_of_def syscall_ids Let_def)


end
