(* ===== verification/File_Calls.thy ===== *)
theory File_Calls
  imports Packer Proc_Props Vm_Sv39
begin

text \<open>
  The system calls on files of chapters 6 and 7 together with the file system below them: what \<^verbatim>\<open>read\<close>, \<^verbatim>\<open>write\<close> and \<^verbatim>\<open>exec\<close> do
  is stated on the table of files that the disk stands for.
\<close>

section \<open>The disk of a kernel\<close>

definition disk_holds ::
    "('d, 'h) kenv \<Rightarrow> ('d \<Rightarrow> nat \<Rightarrow> u8 list) \<Rightarrow> nat \<Rightarrow> ('d \<Rightarrow> bool) \<Rightarrow> nat \<Rightarrow> 'd bstate \<Rightarrow> files \<Rightarrow> bool" where
  "disk_holds E contents nblk dev_ok da st F \<longleftrightarrow>
     (\<exists>B inos. bc_rep contents nblk dev_ok st B Map.empty \<and> efs_inv nblk (ke_efs E) da B inos \<and> efs_files B inos = F)"

lemma disk_exec:
  assumes "block_device (ke_dev E) contents nblk dev_ok" "disk_holds E contents nblk dev_ok da st F"
    and "files_exec (ke_efs E) da op F = Some (out, F')"
  shows "\<exists>st'. efs_exec (ke_dev E) (ke_efs E) op st = Inr (out, st') \<and> disk_holds E contents nblk dev_ok da st' F'"
proof -
  from assms(2) obtain B inos where d: "bc_rep contents nblk dev_ok st B Map.empty" "efs_inv nblk (ke_efs E) da B inos" "efs_files B inos = F"
    by (auto simp: disk_holds_def)
  from block_device.efs_exec_refines [OF assms(1) d(1,2) assms(3) [folded d(3)]] show ?thesis by (auto simp: disk_holds_def)
qed

lemma disk_open_read:
  assumes "block_device (ke_dev E) contents nblk dev_ok" "disk_holds E contents nblk dev_ok da st F" "ke_root E = inode_place (ke_efs E) 0"
    and "F 0 = Some (Directory, dir)" "lookup_name n (entries dir) = Inr (Some j)" "F (unat j) = Some (t, d)"
  shows "\<exists>fh st1 st2. fs_open (ke_dev E) (ke_efs E) (ke_root E) n RDONLY st = Inr (Some fh, st1)
    \<and> read_all READ_ALL_FUEL (ke_dev E) fh st1 = Some (Inr (d, st2)) \<and> disk_holds E contents nblk dev_ok da st2 F"
proof -
  from assms(2) obtain B inos where k: "bc_rep contents nblk dev_ok st B Map.empty" "efs_inv nblk (ke_efs E) da B inos" "efs_files B inos = F"
    by (auto simp: disk_holds_def)
  have "INDIRECT2_BOUND < READ_ALL_FUEL" by (simp add: READ_ALL_FUEL_def layout_consts)
  from block_device.open_read_file [OF assms(1) k(1,2) this, unfolded k(3), OF assms(4-6)] show ?thesis
    unfolding assms(3) by (auto simp: disk_holds_def)
qed

section \<open>Reading and writing\<close>

lemma file_write_one:
  assumes "fh_inode fh = Some (inode_place fs j)" "efs_exec D fs (Op_Write j (fh_offset fh) bs) st = Inr (Out_Count (length bs), st')"
  shows "file_write D fs [bs] fh st = Inr ((of_nat (length bs), fh\<lparr>fh_offset := fh_offset fh + length bs\<rparr>), st')"
  using assms by (auto simp: file_write_def rassert_def elim!: rbindE)

lemma file_read_one:
  assumes "fh_inode fh = Some (inode_place fs j)" "efs_exec D fs (Op_Read j (fh_offset fh) (length buf)) st = Inr (Out_Bytes bs, st')"
  shows "file_read D [buf] fh st = Inr ((of_nat (length bs), [put_bytes 0 bs buf], fh\<lparr>fh_offset := fh_offset fh + length bs\<rparr>), st')"
  using assms by (auto simp: file_read_def put_bytes_def elim!: rbindE)

text \<open>
  C18. The calls \<^verbatim>\<open>write\<close> and \<^verbatim>\<open>read\<close> of a process act on the table of files. A write to an open, writable file replaces the
  bytes at the position of the handle in exactly that file and moves the position behind them; a read copies the bytes
  from the position on, at most as many as asked for and as there are, into the memory of the process, moves the position
  by their number and changes no file. Both return the number of bytes.
\<close>

theorem file_calls_refine_files:
  fixes k :: "('p proc6_scheme, 'h, 'd) fkernel"
  assumes dev: "block_device (ke_dev E) contents nblk dev_ok" and disk: "disk_holds E contents nblk dev_ok da (fk_disk k) F"
    and cur: "pk_current k = Inr (i, p)"
    and fd: "fd \<notin> {STDIN, STDOUT, STDDEBUG}" "unat fd < length (p_fd_table p)" "p_fd_table p ! unat fd = Some fh"
    and fh: "fh_inode fh = Some (inode_place (ke_efs E) j)" "F j = Some (ty, d)"
    and ptr: "pk_ptr E p buf READABLE k = Inr (Some a)" "pk_ptr E p buf WRITEABLE k = Inr (Some a)"
    and bytes_def: "bytes = load_bytes (pk_phys k) a (unat cnt)" and F'_def: "F' = F(j \<mapsto> (ty, write_bytes (fh_offset fh) bytes d))"
  shows "(writable fh \<and> 0 < cnt \<and> fh_offset fh + unat cnt \<le> MAX_FILE \<and> used_blocks F' \<le> da \<longrightarrow>
      (\<exists>dk. ch6_write E clr fd buf cnt k =
         Inr (cnt, pk_put i (set_file fd (Some (fh\<lparr>fh_offset := fh_offset fh + unat cnt\<rparr>)) p) (k\<lparr>fk_disk := dk\<rparr>))
       \<and> disk_holds E contents nblk dev_ok da dk F'))
    \<and> (readable fh \<longrightarrow>
      (\<exists>dk bs. bs = take (unat cnt) (drop (fh_offset fh) d) \<and> ch6_read E clr fd buf cnt k =
         Inr (of_nat (length bs), pk_put i (set_file fd (Some (fh\<lparr>fh_offset := fh_offset fh + length bs\<rparr>)) p)
           (k\<lparr>fk_disk := dk, pk_phys := store_bytes a (put_bytes 0 bs bytes) (pk_phys k)\<rparr>))
       \<and> disk_holds E contents nblk dev_ok da dk F))"
proof (intro conjI impI)
  have len: "length bytes = unat cnt" by (simp add: bytes_def load_bytes_def)
  have tab: "vec_index (p_fd_table p) (unat fd) = Inr (Some fh)" using fd(2,3) by (simp add: vec_index_def)
  {
    assume w: "writable fh \<and> 0 < cnt \<and> fh_offset fh + unat cnt \<le> MAX_FILE \<and> used_blocks F' \<le> da"
    then have "0 < unat cnt" by (simp add: word_less_nat_alt)
    with w have "files_exec (ke_efs E) da (Op_Write j (fh_offset fh) bytes) F = Some (Out_Count (length bytes), F')"
      using fh(2) len by (auto simp: Let_def F'_def)
    from disk_exec [OF dev disk this] obtain dk where
      "efs_exec (ke_dev E) (ke_efs E) (Op_Write j (fh_offset fh) bytes) (fk_disk k) = Inr (Out_Count (length bytes), dk)"
      "disk_holds E contents nblk dev_ok da dk F'" by blast
    with file_write_one [OF fh(1) this(1)] w fd(1) tab len show "\<exists>dk. ch6_write E clr fd buf cnt k =
         Inr (cnt, pk_put i (set_file fd (Some (fh\<lparr>fh_offset := fh_offset fh + unat cnt\<rparr>)) p) (k\<lparr>fk_disk := dk\<rparr>))
       \<and> disk_holds E contents nblk dev_ok da dk F'"
      by (auto simp: ch6_write_def cur ptr(1) bytes_def)
  }
  {
    assume r: "readable fh"
    let ?bs = "take (unat cnt) (drop (fh_offset fh) d)"
    have "files_exec (ke_efs E) da (Op_Read j (fh_offset fh) (length bytes)) F = Some (Out_Bytes ?bs, F)" by (simp add: fh(2) len)
    from disk_exec [OF dev disk this] obtain dk where
      "efs_exec (ke_dev E) (ke_efs E) (Op_Read j (fh_offset fh) (length bytes)) (fk_disk k) = Inr (Out_Bytes ?bs, dk)"
      "disk_holds E contents nblk dev_ok da dk F" by blast
    with file_read_one [OF fh(1) this(1)] r fd(1) tab show "\<exists>dk bs. bs = ?bs \<and> ch6_read E clr fd buf cnt k =
         Inr (of_nat (length bs), pk_put i (set_file fd (Some (fh\<lparr>fh_offset := fh_offset fh + length bs\<rparr>)) p)
           (k\<lparr>fk_disk := dk, pk_phys := store_bytes a (put_bytes 0 bs bytes) (pk_phys k)\<rparr>))
       \<and> disk_holds E contents nblk dev_ok da dk F"
      by (auto simp: ch6_read_def cur ptr(2) bytes_def)
  }
qed

section \<open>Running a program from the disk\<close>

lemma map_sum_rbind: "map_sum id f (rbind m g) = rbind m (\<lambda>x. map_sum id f (g x))"
  by (cases m) simp_all

lemma disk_phys_commute: "k\<lparr>fk_disk := d, pk_phys := ph\<rparr> = k\<lparr>pk_phys := ph, fk_disk := d\<rparr>"
  by (cases k) simp

lemma disk_pid_commute: "k\<lparr>fk_disk := d, pk_pid := n\<rparr> = k\<lparr>pk_pid := n, fk_disk := d\<rparr>"
  by (cases k) simp

lemma pk_map_portal_disk:
  "pk_map_portal sp (k\<lparr>fk_disk := d\<rparr>) = map_sum id (\<lambda>k1. k1\<lparr>fk_disk := d\<rparr>) (pk_map_portal sp k)"
  by (simp add: pk_map_portal_def map_sum_rbind disk_phys_commute)

text \<open>The registers of a new program: its entry point, the top of the user stack in \<^verbatim>\<open>sp\<close>, all others zero.\<close>

definition program_context :: "elf_file \<Rightarrow> sv39_manager address_space \<Rightarrow> foreign_context" where
  "program_context elf sp =
     \<lparr>fcontext = (ctx_user (elf_entry elf))\<lparr>xregs := (replicate 31 0)[1 := 0x4000000000]\<rparr>, fsatp = satp_of sp\<rparr>"

lemma elf_context_eq: "elf_context elf sp = Inr (program_context elf sp)"
  by (simp add: elf_context_def program_context_def ctx_set_sp_def ctx_set_x_def ctx_user_def push_bit_eq_mult)

text \<open>
  C19. \<^verbatim>\<open>exec\<close> runs exactly the file that is named. When the name that a process passes is in the root directory, the
  kernel reads all bytes of that file and parses them. If they are a 64-bit RISC-V executable for which an address
  space can be built from its segments, the call returns 0 and the new state is the old one but for this: the calling process has
  that address space and starts at the entry point of the file, with the top of the new user stack in \<^verbatim>\<open>sp\<close>, zero in
  the other registers and the page table of the new space, and keeps its identifier and everything else
  it has (open files among it); memory is as building the space and sharing the portal left it; one process
  identifier is used up; and the files of the disk are the same. Any other file panics, as does a
  failure to build the space.
\<close>

theorem exec_runs_file:
  fixes k :: "('p proc5_scheme, 'h, 'd) fkernel"
  assumes "block_device (ke_dev E) contents nblk dev_ok" "disk_holds E contents nblk dev_ok da (fk_disk k) F" "ke_root E = inode_place (ke_efs E) 0"
    and "F 0 = Some (Directory, dir)" "lookup_name name (entries dir) = Inr (Some j)" "F (unat j) = Some (ty, bytes)"
    and "pk_current k = Inr (i, p)" "pk_ptr E p path READABLE k = Inr (Some a)" "load_bytes (pk_phys k) a (unat cnt) = name"
  shows "\<exists>dk. disk_holds E contents nblk dev_ok da dk F \<and>
    (case ke_elf E bytes of
       None \<Rightarrow> ch6_exec E clr path cnt k = Inl Unwrap_None
     | Some elf \<Rightarrow>
         if \<not> (elf_header64 elf \<and> elf_executable elf \<and> elf_riscv elf) then ch6_exec E clr path cnt k = Inl Unwrap_None
         else case elf_image E elf (pk_phys k) of
           Inl e \<Rightarrow> ch6_exec E clr path cnt k = Inl e
         | Inr (sp, ph) \<Rightarrow>
             (case pk_map_portal sp (k\<lparr>pk_phys := ph\<rparr>) of
                Inl e \<Rightarrow> ch6_exec E clr path cnt k = Inl e
              | Inr k1 \<Rightarrow> ch6_exec E clr path cnt k =
                  Inr (0, pk_put i (p\<lparr>p_space := sp, p_context := program_context elf sp\<rparr>)
                    (k\<lparr>pk_phys := pk_phys k1, pk_pid := pk_pid k + 1, fk_disk := dk\<rparr>))))"
proof -
  from disk_open_read [OF assms(1-6)] obtain fh st1 st2 where
    "fs_open (ke_dev E) (ke_efs E) (ke_root E) name RDONLY (fk_disk k) = Inr (Some fh, st1)"
    "read_all READ_ALL_FUEL (ke_dev E) fh st1 = Some (Inr (bytes, st2))" and st2: "disk_holds E contents nblk dev_ok da st2 F" by blast
  then have run: "ch6_exec E clr path cnt k =
      rbind (unwrap (ke_elf E bytes)) (\<lambda>elf. rbind (ch5_process_exec E i elf (k\<lparr>fk_disk := st2\<rparr>)) (\<lambda>k'. Inr (0, k')))"
    by (simp add: ch6_exec_def assms(7-9) finished_def Let_def)
  have task: "pk_task i (k\<lparr>pk_phys := ph, pk_pid := n, fk_disk := st2\<rparr>) = Inr p" for ph n
    using assms(7) by (auto simp: pk_task_def pk_current_def pm_current_def pm_get_task_def elim!: rbindE)
  note exec = run ch5_process_exec_def ch5_from_elf_def elf_accepted_def unwrap_def
  show ?thesis
  proof (intro exI [of _ st2] conjI st2)
    show "case ke_elf E bytes of
       None \<Rightarrow> ch6_exec E clr path cnt k = Inl Unwrap_None
     | Some elf \<Rightarrow>
         if \<not> (elf_header64 elf \<and> elf_executable elf \<and> elf_riscv elf) then ch6_exec E clr path cnt k = Inl Unwrap_None
         else case elf_image E elf (pk_phys k) of
           Inl e \<Rightarrow> ch6_exec E clr path cnt k = Inl e
         | Inr (sp, ph) \<Rightarrow>
             (case pk_map_portal sp (k\<lparr>pk_phys := ph\<rparr>) of
                Inl e \<Rightarrow> ch6_exec E clr path cnt k = Inl e
              | Inr k1 \<Rightarrow> ch6_exec E clr path cnt k =
                  Inr (0, pk_put i (p\<lparr>p_space := sp, p_context := program_context elf sp\<rparr>)
                    (k\<lparr>pk_phys := pk_phys k1, pk_pid := pk_pid k + 1, fk_disk := st2\<rparr>)))"
    proof (cases "ke_elf E bytes")
      case None
      then show ?thesis by (simp add: exec)
    next
      case (Some elf)
      show ?thesis
      proof (cases "elf_image E elf (pk_phys k)")
        case (Inl e)
        then show ?thesis using Some by (simp add: exec)
      next
        case (Inr st)
        obtain sp ph where st: "elf_image E elf (pk_phys k) = Inr (sp, ph)" using Inr by (cases st) auto
        have portal: "pk_map_portal sp (k\<lparr>fk_disk := st2, pk_phys := ph\<rparr>) =
            map_sum id (\<lambda>k1. k1\<lparr>fk_disk := st2\<rparr>) (pk_map_portal sp (k\<lparr>pk_phys := ph\<rparr>))"
          by (simp add: disk_phys_commute pk_map_portal_disk)
        show ?thesis
        proof (cases "pk_map_portal sp (k\<lparr>pk_phys := ph\<rparr>)")
          case (Inl e)
          then show ?thesis using Some st portal by (simp add: exec)
        next
          case (Inr k1)
          obtain ph1 where "k1 = k\<lparr>pk_phys := ph1\<rparr>" using pk_map_portal_Inr [OF Inr] by auto
          then show ?thesis
            using Inr Some st portal task by (simp add: exec elf_context_eq proc_id_new_def disk_pid_commute)
        qed
      qed
    qed
  qed
qed

section \<open>Witnesses\<close>

text \<open>A disk with one file, named by the byte \<open>0x61\<close>, and a process that has it open as number 3 and whose memory holds that byte.\<close>

definition demo_env :: "unit buddy \<Rightarrow> (block_file, unit) kenv" where
  "demo_env bd = \<lparr>ke_buddy = bd, ke_dev = block_file_ops, ke_efs = efs_layout 1 1024 1, ke_root = inode_place (efs_layout 1 1024 1) 0, ke_elf = \<lambda>_. None\<rparr>"

definition demo_table :: files where
  "demo_table = [0 \<mapsto> (Directory, demo_dirent), 1 \<mapsto> (File, [0, 0, 7])]"

definition demo6 :: "proc_id \<Rightarrow> proc6" where
  "demo6 i = \<lparr>p_pid = i, p_context = demo_regs 0 0, p_space = \<lparr>areas = [], page_manager = 4096\<rparr>,
     p_fd_table = [None, None, None, Some (file_handle_new True True (inode_place (efs_layout 1 1024 1) 1))]\<rparr>"

definition demo_phys6 :: "unit phys" where
  "demo_phys6 = demo_tables\<lparr>frames := (frames demo_tables)(4 := (replicate 512 0)[1 := 0x61])\<rparr>"

definition demo_kernel6 :: "block_file bstate \<Rightarrow> (proc6, unit, block_file) fkernel" where
  "demo_kernel6 st = \<lparr>pk_processor = pair_run 0 (demo6 0) (demo6 1), pk_phys = demo_phys6,
     pk_kspace = \<lparr>areas = [], page_manager = 8192\<rparr>, pk_pid = 2, pk_stdout = [], pk_stdin = [], pk_time = 0, fk_disk = st\<rparr>"

lemma demo_disk6:
  "\<exists>st. disk_holds (demo_env bd) file_block 1030 (\<lambda>f. 1030 * BLOCK_SZ \<le> length f) 3 st demo_table"
proof -
  from bf.efs_create_inv [OF demo_device_rep _ _ _ _ demo_areas] obtain st1 B1 inos1 where
    c: "bc_rep file_block 1030 (\<lambda>f. 1030 * BLOCK_SZ \<le> length f) st1 B1 Map.empty" "efs_inv 1030 (efs_layout 1 1024 1) 3 B1 inos1"
      "efs_files B1 inos1 = [0 \<mapsto> (Directory, [])]" by auto
  from bf.efs_run_refines [OF c(1,2) demo_files_run [folded c(3)]] show ?thesis
    by (auto simp: disk_holds_def demo_env_def demo_table_def)
qed

lemma demo_translate6:
  "translate sv39 (sv39_manage bd) \<lparr>areas = [], page_manager = 4096\<rparr> (vaddr_new sv39 8) WRITEABLE demo_phys6 = Some (Inr (Some 0x4008))"
  "translate sv39 (sv39_manage bd) \<lparr>areas = [], page_manager = 4096\<rparr> (vaddr_new sv39 8) READABLE demo_phys6 = Some (Inr (Some 0x4008))"
  by code_simp+

lemma demo_load6: "load_bytes demo_phys6 0x4008 1 = [0x61]"
  by code_simp

lemma demo_kernel6_facts:
  "pk_current (demo_kernel6 st) = Inr (0, demo6 0)" "fk_disk (demo_kernel6 st) = st"
  "pk_ptr (demo_env bd) (demo6 0) 8 WRITEABLE (demo_kernel6 st) = Inr (Some 0x4008)"
  "pk_ptr (demo_env bd) (demo6 0) 8 READABLE (demo_kernel6 st) = Inr (Some 0x4008)"
  "load_bytes (pk_phys (demo_kernel6 st)) 0x4008 1 = [0x61]"
  using demo_translate6 [of bd] demo_load6
  by (simp_all add: pk_current_def pm_current_def proc_manage_def demo_kernel6_def pair_run_def pair_pm_def pk_ptr_def demo6_def demo_env_def
      finished_def unwrap_def)

lemma demo_lookup6: "lookup_name [0x61] (entries demo_dirent) = Inr (Some 1)"
proof -
  have "good_name [0x61]" by (simp add: good_name_def NAME_LENGTH_LIMIT_def utf8_valid.simps)
  moreover have "demo_dirent = pack_dir [[0x61]]" by (simp add: demo_dirent_def pack_dir_def dirent_of_def put_bytes_def)
  ultimately show ?thesis using lookup_pack_dir [of "[[0x61]]" 0] by simp
qed

text \<open>
  For \<^verbatim>\<open>exec\<close>: a parser that takes the three bytes of the file for an executable with entry point
  \<open>0x10000\<close> and no segment to load, and the same memory with pages 16 to 63 free.
\<close>

definition exec_elf :: elf_file where
  "exec_elf = \<lparr>elf_header64 = True, elf_executable = True, elf_riscv = True, elf_entry = 0x10000, elf_programs = [], elf_input = [0, 0, 7]\<rparr>"

definition exec_env :: "(block_file, nat \<times> nat) kenv" where
  "exec_env = \<lparr>ke_buddy = bump, ke_dev = block_file_ops, ke_efs = efs_layout 1 1024 1, ke_root = inode_place (efs_layout 1 1024 1) 0,
     ke_elf = (\<lambda>bs. if bs = [0, 0, 7] then Some exec_elf else None)\<rparr>"

definition exec_phys :: "(nat \<times> nat) phys" where
  "exec_phys = \<lparr>frames = frames demo_phys6, heap = (16, 64)\<rparr>"

definition exec_kernel :: "block_file bstate \<Rightarrow> (proc6, nat \<times> nat, block_file) fkernel" where
  "exec_kernel st = \<lparr>pk_processor = pair_run 0 (demo6 0) (demo6 1), pk_phys = exec_phys,
     pk_kspace = \<lparr>areas = [], page_manager = 8192\<rparr>, pk_pid = 2, pk_stdout = [], pk_stdin = [], pk_time = 0, fk_disk = st\<rparr>"

lemma exec_image:
  "\<exists>sp ph. elf_image exec_env exec_elf exec_phys = Inr (sp, ph) \<and> page_manager sp = 0x10000 \<and>
     length (frames ph 16) = 512 \<and> length (frames ph 2) = 512"
proof -
  let ?ph = "zero_pages 17 2 ((zero_pages 16 1 (exec_phys\<lparr>heap := (17, 64)\<rparr>))\<lparr>heap := (19, 64)\<rparr>)"
  let ?sp = "\<lparr>areas = [], page_manager = 0x10000\<rparr> :: sv39_manager address_space"
  have flags: "USER_STACK_FLAGS = 0x17" by code_simp
  have e: "frames ?ph 16 = zero_page" "16 \<notin> bump_free (heap ?ph)" "unat (16 :: usize) < 2 ^ 26"
    by (simp_all add: zero_pages_def in_pages_def bump_free_def)
  note t = tables_ok_empty [of "frames ?ph" 16, OF e]
  have f: "(0x17 :: usize) AND ppn_mask sv39 = 0" by (simp add: ppn_mask_def vm_mask_def push_bit_eq_mult)
  have h: "page_of (page_manager ?sp) = 16" "unat (0x3FFFFFE :: usize) + 2 \<le> 2 ^ 27" "(2 :: nat) > 0"
    "bump_avail (heap ?ph) \<ge> tables_for (unat (0x3FFFFFE :: usize)) 2" "unat (17 :: usize) + 2 \<le> 2 ^ 26" "meta_is_valid 0x17"
    "\<forall>v :: vpn. unat (0x3FFFFFE :: usize) \<le> unat v \<and> unat v < unat (0x3FFFFFE :: usize) + 2 \<longrightarrow> pt_lookup (frames ?ph) 16 v = None"
    using t by (simp_all add: page_of_def zero_pages_def bump_avail_def meta_is_valid_def VALID_FLAG_def tables_for_def crossed_tables_def)
  from sv39_space.map_translate [OF sv39_space.intro [OF bump_laws] t(1) h(1-6) f h(7)] obtain sp1 ph1 where
    m: "map_extern sv39 (sv39_manage bump) 0x3FFFFFE (0x3FFFFFE + of_nat 2) 17 0x17 ?sp ?ph = Some (Inr (sp1, ph1))"
      "page_manager sp1 = page_manager ?sp" "tables_ok OWNED (bump_free (heap ph1)) (frames ph1) 16"
      "\<forall>x. x \<notin> tree_pages (frames ?ph) 16 \<union> bump_free (heap ?ph) \<longrightarrow> frames ph1 x = frames ?ph x"
    by (elim exE conjE) blast
  have "walk_path (frames ph1) 16 [] = Some 16" by simp
  then have "length (frames ph1 16) = 512" using m(3) unfolding tables_ok_def by (metis table_path_simps(1))
  moreover have "2 \<notin> tree_pages (frames ?ph) 16 \<union> bump_free (heap ?ph)"
    using walk_path_empty [of "frames ?ph", OF e(1)] by (auto simp: tree_pages_def bump_free_def zero_pages_def split: if_splits)
  then have "frames ph1 2 = frames ?ph 2" using m(4) by blast
  then have "length (frames ph1 2) = 512"
    by (simp add: zero_pages_def in_pages_def exec_phys_def demo_phys6_def demo_tables_def)
  moreover have "heap (zero_pages n c q) = heap q" for n c and q :: "(nat \<times> nat) phys" by (simp add: zero_pages_def)
  then have "elf_image exec_env exec_elf exec_phys = Inr (sp1, ph1)"
    using m(1) by (simp add: elf_image_def space_new_def exec_env_def sv39_manage_def sv39_new_root_def page_alloc_def global_alloc_def
        bump_def exec_elf_def exec_phys_def nonnull_def flags push_bit_eq_mult page_of_def finished_def)
  ultimately show ?thesis using m(2) by auto
qed

lemma exec_portal:
  fixes k :: "('p, 'h, 'z) pkernel_scheme"
  assumes "page_manager sp = 0x10000" "page_manager (pk_kspace k) = 8192"
    and "length (frames (pk_phys k) 16) = 512" "length (frames (pk_phys k) 2) = 512"
  shows "\<exists>k1. pk_map_portal sp k = Inr k1"
proof -
  have i: "index_in sv39 PROTAL_TRANSIT 2 = Inr 511" by code_simp
  have r: "\<exists>t. from_root sv39 r = Inr t \<and> pt_ptr t = r" for r
    by (simp add: from_root_def from_raw_parts_def vpn_floor_def bits_until_def)
  obtain t1 t2 where "from_root sv39 8192 = Inr t1" "pt_ptr t1 = 8192" "from_root sv39 0x10000 = Inr t2" "pt_ptr t2 = 0x10000"
    using r by blast
  then show ?thesis
    using assms by (simp add: pk_map_portal_def i pt_index_def pt_index_mut_def vec_index_def page_of_def Let_def)
qed

lemma exec_translate:
  "translate sv39 (sv39_manage bump) \<lparr>areas = [], page_manager = 4096\<rparr> (vaddr_new sv39 8) READABLE exec_phys = Some (Inr (Some 0x4008))"
  "load_bytes exec_phys 0x4008 1 = [0x61]"
  by code_simp+

lemma exec_kernel_facts:
  "pk_current (exec_kernel st) = Inr (0, demo6 0)" "fk_disk (exec_kernel st) = st"
  "pk_ptr exec_env (demo6 0) 8 READABLE (exec_kernel st) = Inr (Some 0x4008)"
  "load_bytes (pk_phys (exec_kernel st)) 0x4008 (unat (1 :: usize)) = [0x61]"
  using exec_translate
  by (simp_all add: pk_current_def pm_current_def proc_manage_def exec_kernel_def pair_run_def pair_pm_def pk_ptr_def demo6_def exec_env_def
      finished_def unwrap_def)

theorem exec_runs_file_witness:
  "\<forall>clr. \<exists>st k' q. disk_holds exec_env file_block 1030 (\<lambda>f. 1030 * BLOCK_SZ \<le> length f) 3 st demo_table
     \<and> ch6_exec exec_env clr 8 1 (exec_kernel st) = Inr (0, k') \<and> pk_tasks k' 0 = Some q
     \<and> sepc (fcontext (p_context q)) = 0x10000 \<and> page_manager (p_space q) = 0x10000 \<and> p_fd_table q = p_fd_table (demo6 0)
     \<and> disk_holds exec_env file_block 1030 (\<lambda>f. 1030 * BLOCK_SZ \<le> length f) 3 (fk_disk k') demo_table"
proof
  fix clr
  have "\<exists>st. disk_holds exec_env file_block 1030 (\<lambda>f. 1030 * BLOCK_SZ \<le> length f) 3 st demo_table"
    using demo_disk6 by (simp add: disk_holds_def demo_env_def exec_env_def)
  then obtain st where st: "disk_holds exec_env file_block 1030 (\<lambda>f. 1030 * BLOCK_SZ \<le> length f) 3 st demo_table" ..
  obtain sp ph where im: "elf_image exec_env exec_elf exec_phys = Inr (sp, ph)" "page_manager sp = 0x10000"
    "length (frames ph 16) = 512" "length (frames ph 2) = 512" using exec_image by blast
  have ke: "ke_elf exec_env [0, 0, 7] = Some exec_elf" "elf_header64 exec_elf \<and> elf_executable exec_elf \<and> elf_riscv exec_elf"
    by (simp_all add: exec_env_def exec_elf_def)
  have phys: "pk_phys (exec_kernel st) = exec_phys" by (simp add: exec_kernel_def)
  have "page_manager (pk_kspace (exec_kernel st\<lparr>pk_phys := ph\<rparr>)) = 8192" by (simp add: exec_kernel_def)
  with exec_portal [of sp "exec_kernel st\<lparr>pk_phys := ph\<rparr>"] im(2-4) obtain k1 where
    k1: "pk_map_portal sp (exec_kernel st\<lparr>pk_phys := ph\<rparr>) = Inr k1" by auto
  have asm: "block_device (ke_dev exec_env) file_block 1030 (\<lambda>f. 1030 * BLOCK_SZ \<le> length f)"
    "disk_holds exec_env file_block 1030 (\<lambda>f. 1030 * BLOCK_SZ \<le> length f) 3 (fk_disk (exec_kernel st)) demo_table"
    "ke_root exec_env = inode_place (ke_efs exec_env) 0" "demo_table 0 = Some (Directory, demo_dirent)"
    "demo_table (unat (1 :: u32)) = Some (File, [0, 0, 7])"
    using st bf.block_device_axioms exec_kernel_facts(2) by (simp_all add: exec_env_def demo_table_def)
  from exec_runs_file [OF asm(1-4) demo_lookup6 asm(5) exec_kernel_facts(1,3,4), of clr] obtain dk where
    dk: "disk_holds exec_env file_block 1030 (\<lambda>f. 1030 * BLOCK_SZ \<le> length f) 3 dk demo_table"
    and ex: "ch6_exec exec_env clr 8 1 (exec_kernel st) =
      Inr (0, pk_put 0 ((demo6 0)\<lparr>p_space := sp, p_context := program_context exec_elf sp\<rparr>)
        (exec_kernel st\<lparr>pk_phys := pk_phys k1, pk_pid := pk_pid (exec_kernel st) + 1, fk_disk := dk\<rparr>))"
    using ke im(1) k1 by (auto simp: phys)
  let ?q = "(demo6 0)\<lparr>p_space := sp, p_context := program_context exec_elf sp\<rparr>"
  let ?k' = "pk_put 0 ?q (exec_kernel st\<lparr>pk_phys := pk_phys k1, pk_pid := pk_pid (exec_kernel st) + 1, fk_disk := dk\<rparr>)"
  have "pk_tasks ?k' 0 = Some ?q" "fk_disk ?k' = dk"
    by (simp_all add: pk_put_def exec_kernel_def pair_run_def pair_pm_def proc_manage_def tasks_of_def Let_def)
  moreover have "sepc (fcontext (p_context ?q)) = 0x10000" "page_manager (p_space ?q) = 0x10000" "p_fd_table ?q = p_fd_table (demo6 0)"
    using im(2) by (simp_all add: program_context_def exec_elf_def ctx_user_def)
  ultimately show "\<exists>st k' q. disk_holds exec_env file_block 1030 (\<lambda>f. 1030 * BLOCK_SZ \<le> length f) 3 st demo_table
     \<and> ch6_exec exec_env clr 8 1 (exec_kernel st) = Inr (0, k') \<and> pk_tasks k' 0 = Some q
     \<and> sepc (fcontext (p_context q)) = 0x10000 \<and> page_manager (p_space q) = 0x10000 \<and> p_fd_table q = p_fd_table (demo6 0)
     \<and> disk_holds exec_env file_block 1030 (\<lambda>f. 1030 * BLOCK_SZ \<le> length f) 3 (fk_disk k') demo_table"
    using st dk ex by metis
qed

theorem file_calls_refine_files_witness:
  "\<forall>bd clr. \<exists>st k'. ch6_write (demo_env bd) clr 3 8 1 (demo_kernel6 st) = Inr (1, k')
     \<and> disk_holds (demo_env bd) file_block 1030 (\<lambda>f. 1030 * BLOCK_SZ \<le> length f) 3 (fk_disk k') (demo_table(1 \<mapsto> (File, [0x61, 0, 7])))"
proof (intro allI)
  fix bd :: "unit buddy" and clr
  let ?fh = "file_handle_new True True (inode_place (efs_layout 1 1024 1) 1)"
  obtain st where st: "disk_holds (demo_env bd) file_block 1030 (\<lambda>f. 1030 * BLOCK_SZ \<le> length f) 3 st demo_table" using demo_disk6 by blast
  have dev: "block_device (ke_dev (demo_env bd)) file_block 1030 (\<lambda>f. 1030 * BLOCK_SZ \<le> length f)"
    using bf.block_device_axioms by (simp add: demo_env_def)
  have fd: "3 \<notin> {STDIN, STDOUT, STDDEBUG}" "unat (3 :: usize) < length (p_fd_table (demo6 0))" "p_fd_table (demo6 0) ! unat (3 :: usize) = Some ?fh"
    by (simp_all add: STDIN_def STDOUT_def STDDEBUG_def demo6_def)
  have fh: "fh_inode ?fh = Some (inode_place (ke_efs (demo_env bd)) 1)" "demo_table 1 = Some (File, [0, 0, 7])"
    by (simp_all add: file_handle_new_def demo_env_def demo_table_def)
  have w: "write_bytes 0 [0x61] [0, 0, 7 :: u8] = [0x61, 0, 7]" by (simp add: write_bytes_def)
  have F: "used_blocks (demo_table(1 \<mapsto> (File, [0x61, 0, 7]))) \<le> 3"
    by (simp add: demo_table_def used_blocks_two length_demo_dirent blocks_of_length_small)
  have b: "[0x61] = load_bytes (pk_phys (demo_kernel6 st)) 0x4008 (unat (1 :: usize))" using demo_kernel6_facts(5) by simp
  have d: "disk_holds (demo_env bd) file_block 1030 (\<lambda>f. 1030 * BLOCK_SZ \<le> length f) 3 (fk_disk (demo_kernel6 st)) demo_table"
    using st by (simp add: demo_kernel6_facts)
  from file_calls_refine_files [OF dev d demo_kernel6_facts(1) fd fh demo_kernel6_facts(4,3) b refl, of clr] w F
  obtain dk where "ch6_write (demo_env bd) clr 3 8 1 (demo_kernel6 st) =
      Inr (1, pk_put 0 (set_file 3 (Some (?fh\<lparr>fh_offset := 1\<rparr>)) (demo6 0)) (demo_kernel6 st\<lparr>fk_disk := dk\<rparr>))"
    "disk_holds (demo_env bd) file_block 1030 (\<lambda>f. 1030 * BLOCK_SZ \<le> length f) 3 dk (demo_table(1 \<mapsto> (File, [0x61, 0, 7])))"
    by (auto simp: file_handle_new_def writable_def MAX_FILE_def layout_consts BLOCK_SZ_def)
  then show "\<exists>st k'. ch6_write (demo_env bd) clr 3 8 1 (demo_kernel6 st) = Inr (1, k')
     \<and> disk_holds (demo_env bd) file_block 1030 (\<lambda>f. 1030 * BLOCK_SZ \<le> length f) 3 (fk_disk k') (demo_table(1 \<mapsto> (File, [0x61, 0, 7])))"
    by (intro exI conjI) (assumption, simp add: pk_put_def Let_def)
qed

end
