(* ===== verification/Kernel_Space.thy ===== *)
theory Kernel_Space
  imports Kernel_Ch5 Vm_Sv39
begin

unbundle bit_operations_syntax

text \<open>
  The image of a kernel and its address space: the linker script \<^verbatim>\<open>SCRIPT\<close> and \<^verbatim>\<open>zero_bss\<close> of \<^verbatim>\<open>linker/src/lib.rs\<close>, and what
  \<^verbatim>\<open>kernel_space\<close> of the kernels makes of the layout that the script gives.
\<close>

section \<open>The linker script\<close>

text \<open>
  The sizes of the parts that the linker collects for each section; the addresses of the symbols follow from
  them as the script says. The section \<^verbatim>\<open>.boot\<close> holds the stack of \<^verbatim>\<open>boot0\<close> and nothing else.
\<close>

record image_sizes =
  sz_text :: nat
  sz_rodata :: nat
  sz_data :: nat
  sz_bss :: nat
  sz_boot :: nat

definition align_up :: "nat \<Rightarrow> nat \<Rightarrow> nat" where
  "align_up a n = (n + a - 1) div a * a"

definition at_text :: nat where
  "at_text = 0x80200000"

definition at_rodata :: "image_sizes \<Rightarrow> nat" where
  "at_rodata sz = align_up 4096 (at_text + sz_text sz)"

definition at_data :: "image_sizes \<Rightarrow> nat" where
  "at_data sz = align_up 4096 (at_rodata sz + sz_rodata sz)"

definition at_sbss :: "image_sizes \<Rightarrow> nat" where
  "at_sbss sz = align_up 8 (at_data sz + sz_data sz)"

definition at_ebss :: "image_sizes \<Rightarrow> nat" where
  "at_ebss sz = at_sbss sz + sz_bss sz"

definition at_boot :: "image_sizes \<Rightarrow> nat" where
  "at_boot sz = align_up 4096 (at_ebss sz)"

definition at_end :: "image_sizes \<Rightarrow> nat" where
  "at_end sz = at_boot sz + sz_boot sz"

text \<open>\<^verbatim>\<open>KernelLayout::locate\<close>: the addresses of the symbols.\<close>

definition locate :: "image_sizes \<Rightarrow> kernel_layout" where
  "locate sz = \<lparr>lay_text = of_nat at_text, lay_rodata = of_nat (at_rodata sz), lay_data = of_nat (at_data sz),
     lay_sbss = of_nat (at_sbss sz), lay_ebss = of_nat (at_ebss sz), lay_boot = of_nat (at_boot sz), lay_end = of_nat (at_end sz)\<rparr>"

text \<open>\<^verbatim>\<open>zero_bss\<close>: a loop over the addresses.\<close>

function zero_from :: "usize \<Rightarrow> usize \<Rightarrow> flat \<Rightarrow> flat" where
  "zero_from ptr fin mem = (if ptr < fin then zero_from (ptr + 1) fin (mem(ptr := 0)) else mem)"
  by pat_completeness auto
termination
proof (relation "measure (\<lambda>(ptr, fin, _). unat fin - unat ptr)")
  fix ptr fin :: usize and mem :: flat
  assume "ptr < fin"
  then have "unat ptr < unat fin" by (simp add: word_less_nat_alt)
  moreover from this have "unat (ptr + 1) = unat ptr + 1"
    using unsigned_less [of fin, where 'a = nat] by (simp add: unat_word_ariths)
  ultimately show "((ptr + 1, fin, mem(ptr := 0)), (ptr, fin, mem)) \<in> measure (\<lambda>(ptr, fin, _). unat fin - unat ptr)" by simp
qed simp

declare zero_from.simps [simp del]

definition zero_bss :: "kernel_layout \<Rightarrow> flat \<Rightarrow> flat" where
  "zero_bss lay mem = zero_from (lay_sbss lay) (lay_ebss lay) mem"

section \<open>The layout is in order\<close>

text \<open>
  An image without empty regions, whose stack is a number of pages as in every \<^verbatim>\<open>boot0!\<close> of the kernels, and that leaves a
  part of the memory for the heap.
\<close>

definition image_ok :: "image_sizes \<Rightarrow> usize \<Rightarrow> bool" where
  "image_ok sz memory \<longleftrightarrow>
     0 < sz_text sz \<and> 0 < sz_rodata sz \<and> 0 < sz_data sz + sz_bss sz \<and> 0 < sz_boot sz \<and> 4096 dvd sz_boot sz \<and>
     at_end sz < at_text + unat memory \<and> memory \<le> MEMORY"

lemma align_up_facts:
  assumes "0 < a"
  shows "n \<le> align_up a n" "a dvd align_up a n" "align_up a n div a = (n + a - 1) div a"
proof -
  have "n + a - 1 = (n + a - 1) div a * a + (n + a - 1) mod a" by simp
  moreover have "(n + a - 1) mod a \<le> a - 1" using assms mod_less_divisor [OF assms, of "n + a - 1"] by linarith
  ultimately show "n \<le> align_up a n" unfolding align_up_def using assms by linarith
qed (use assms in \<open>simp_all add: align_up_def\<close>)

lemma MEMORY_unat: "unat MEMORY = 0x3000000"
  by (simp add: MEMORY_def push_bit_eq_mult)

lemma image_order:
  assumes "image_ok sz memory"
  shows "at_text < at_rodata sz" "at_rodata sz < at_data sz" "at_data sz \<le> at_sbss sz" "at_sbss sz \<le> at_ebss sz" "at_data sz < at_ebss sz"
    "at_ebss sz \<le> at_boot sz" "at_boot sz < at_end sz" "at_end sz < at_text + 0x3000000"
proof -
  note u = align_up_facts(1) [of 4096] align_up_facts(1) [of 8]
  have m: "unat memory \<le> 0x3000000" using assms by (simp add: image_ok_def word_le_nat_alt MEMORY_unat)
  show "at_text < at_rodata sz" "at_rodata sz < at_data sz" "at_data sz \<le> at_sbss sz" "at_ebss sz \<le> at_boot sz"
    using assms u(1) [of "at_text + sz_text sz"] u(1) [of "at_rodata sz + sz_rodata sz"] u(2) [of "at_data sz + sz_data sz"] u(1) [of "at_ebss sz"]
    by (simp_all add: image_ok_def at_rodata_def at_data_def at_sbss_def at_boot_def)
  show "at_data sz < at_ebss sz"
    using assms u(2) [of "at_data sz + sz_data sz"] by (auto simp: image_ok_def at_ebss_def at_sbss_def)
  show "at_sbss sz \<le> at_ebss sz" by (simp add: at_ebss_def)
  show "at_boot sz < at_end sz" using assms by (simp add: image_ok_def at_end_def)
  show "at_end sz < at_text + 0x3000000" using assms m by (simp add: image_ok_def)
qed

lemma image_aligned:
  assumes "image_ok sz memory"
  shows "4096 dvd at_text" "4096 dvd at_rodata sz" "4096 dvd at_data sz" "4096 dvd at_boot sz" "4096 dvd at_end sz"
  using assms align_up_facts(2) [of 4096] by (auto simp: at_text_def at_rodata_def at_data_def at_boot_def at_end_def image_ok_def)

text \<open>\<^verbatim>\<open>zero_bss\<close> clears the addresses of the section and no others.\<close>

lemma zero_from_result:
  "zero_from ptr fin mem a = (if ptr \<le> a \<and> a < fin then 0 else mem a)"
proof (induction ptr fin mem rule: zero_from.induct)
  case (1 ptr fin mem)
  show ?case
  proof (cases "ptr < fin")
    case True
    then have n: "unat (ptr + 1) = unat ptr + 1"
      using unsigned_less [of fin, where 'a = nat] by (simp add: unat_word_ariths word_less_nat_alt)
    have "ptr + 1 \<le> a \<longleftrightarrow> ptr \<le> a \<and> a \<noteq> ptr" by (auto simp: word_le_nat_alt n word_unat_eq_iff)
    then show ?thesis using True by (subst zero_from.simps) (auto simp only: 1 [OF True] if_True fun_upd_apply split: if_splits)
  next
    case False
    then show ?thesis by (subst zero_from.simps) auto
  qed
qed

lemma zero_bss_result: "zero_bss lay mem a = (if lay_sbss lay \<le> a \<and> a < lay_ebss lay then 0 else mem a)"
  by (simp add: zero_bss_def zero_from_result)

section \<open>Mapping a list of ranges\<close>

text \<open>A range of \<open>k\<close> pages from page \<open>n\<close> on, mapped to the pages from \<open>b\<close> on.\<close>

type_synonym seg = "vpn \<times> nat \<times> ppn \<times> vm_flags"

definition in_seg :: "seg \<Rightarrow> vpn \<Rightarrow> bool" where
  "in_seg s v = (case s of (n, k, _, _) \<Rightarrow> unat n \<le> unat v \<and> unat v < unat n + k)"

definition seg_entry :: "seg \<Rightarrow> vpn \<Rightarrow> ppn \<times> vm_flags" where
  "seg_entry s v = (case s of (n, k, b, flags) \<Rightarrow> (b + (v - n), flags))"

definition seg_find :: "seg list \<Rightarrow> vpn \<Rightarrow> (ppn \<times> vm_flags) option" where
  "seg_find segs v = map_option (\<lambda>s. seg_entry s v) (find (\<lambda>s. in_seg s v) segs)"

definition map_seg :: "'h buddy \<Rightarrow> seg \<Rightarrow> sv39_manager address_space \<times> 'h phys \<Rightarrow> (sv39_manager address_space \<times> 'h phys) res" where
  "map_seg bd s st = (case s of (n, k, b, flags) \<Rightarrow> finished (map_extern sv39 (sv39_manage bd) n (n + of_nat k) b flags (fst st) (snd st)))"

definition seg_ok :: "seg \<Rightarrow> bool" where
  "seg_ok s = (case s of (n, k, b, flags) \<Rightarrow>
     0 < k \<and> unat n + k \<le> 2 ^ 27 \<and> unat b + k \<le> 2 ^ 26 \<and> meta_is_valid flags \<and> flags AND ppn_mask sv39 = 0)"

definition seg_tables :: "seg list \<Rightarrow> nat" where
  "seg_tables segs = sum_list (map (\<lambda>(n, k, _). tables_for (unat n) k) segs)"

definition seg_disjoint :: "seg \<Rightarrow> seg \<Rightarrow> bool" where
  "seg_disjoint s t \<longleftrightarrow> (\<forall>v. \<not> (in_seg s v \<and> in_seg t v))"

lemma mapped_seg: "mapped n k b flags L v =
    (if in_seg (n, k, b, flags) v then Some (build_pte sv39 flags (fst (seg_entry (n, k, b, flags) v))) else L v)"
  by (simp add: mapped_def in_seg_def seg_entry_def)

context sv39_space
begin

lemma map_segs:
  assumes "tables_ok OWNED (free (heap ph)) (frames ph) r" "page_of (page_manager sp) = r"
    and "\<forall>s \<in> set segs. seg_ok s" "sorted_wrt seg_disjoint segs" "avail (heap ph) \<ge> seg_tables segs"
    and "\<And>s v. s \<in> set segs \<Longrightarrow> in_seg s v \<Longrightarrow> pt_lookup (frames ph) r v = None"
  shows "\<exists>sp1 ph1. rfold (map_seg bd) segs (sp, ph) = Inr (sp1, ph1) \<and> page_manager sp1 = page_manager sp \<and>
    tables_ok OWNED (free (heap ph1)) (frames ph1) r \<and> grows free r ph ph1 \<and>
    (\<forall>v. unat v < 2 ^ 27 \<longrightarrow> pt_lookup (frames ph1) r v =
       (case seg_find segs v of Some (b, flags) \<Rightarrow> Some (build_pte sv39 flags b) | None \<Rightarrow> pt_lookup (frames ph) r v))"
  using assms
proof (induction segs arbitrary: sp ph)
  case (Cons s segs)
  obtain n k b flags where s: "s = (n, k, b, flags)" using prod_cases4 by blast
  have ok: "0 < k" "unat n + k \<le> 2 ^ 27" "meta_is_valid flags" "flags AND ppn_mask sv39 = 0"
    using Cons.prems(3) by (auto simp: s seg_ok_def)
  have av: "avail (heap ph) \<ge> tables_for (unat n) k + seg_tables segs" using Cons.prems(5) by (simp add: s seg_tables_def)
  have none: "pt_lookup (frames ph) r v = None" if "unat n \<le> unat v" "unat v < unat n + k" for v
    using Cons.prems(6) [of s v] that by (simp add: s in_seg_def)
  from pm.map_extern_maps [OF Cons.prems(1) _ ok(2,1) _ ok(3,4) none, of sp b] Cons.prems(2) av obtain ph1 where
    m: "map_extern sv39 (sv39_manage bd) n (n + of_nat k) b flags sp ph = Some (Inr (sp\<lparr>areas := areas sp @ [(n, n + of_nat k)]\<rparr>, ph1))"
      "tables_ok OWNED (free (heap ph1)) (frames ph1) r" "grows free r ph ph1"
      "avail (heap ph) \<le> avail (heap ph1) + tables_for (unat n) k"
      "\<And>v. unat v < 2 ^ 27 \<Longrightarrow> pt_lookup (frames ph1) r v = mapped n k b flags (pt_lookup (frames ph) r) v"
    by auto
  let ?sp = "sp\<lparr>areas := areas sp @ [(n, n + of_nat k)]\<rparr>"
  have apart: "\<not> in_seg s v" if "t \<in> set segs" "in_seg t v" for t v
    using Cons.prems(4) that by (auto simp: seg_disjoint_def)
  have small: "unat v < 2 ^ 27" if "t \<in> set segs" "in_seg t v" for t v
    using Cons.prems(3) that by (fastforce simp: seg_ok_def in_seg_def split: prod.splits)
  have fresh: "pt_lookup (frames ph1) r v = None" if "t \<in> set segs" "in_seg t v" for t v
    using m(5) [OF small [OF that]] apart [OF that] Cons.prems(6) [of t v] that by (simp add: mapped_seg s)
  from Cons.IH [OF m(2), of ?sp] Cons.prems(2-4) m(4) av fresh obtain sp2 ph2 where
    i: "rfold (map_seg bd) segs (?sp, ph1) = Inr (sp2, ph2)" "page_manager sp2 = page_manager sp"
      "tables_ok OWNED (free (heap ph2)) (frames ph2) r" "grows free r ph1 ph2"
      "\<And>v. unat v < 2 ^ 27 \<Longrightarrow> pt_lookup (frames ph2) r v =
         (case seg_find segs v of Some (b, flags) \<Rightarrow> Some (build_pte sv39 flags b) | None \<Rightarrow> pt_lookup (frames ph1) r v)"
    by auto
  have "pt_lookup (frames ph2) r v =
      (case seg_find (s # segs) v of Some (b, flags) \<Rightarrow> Some (build_pte sv39 flags b) | None \<Rightarrow> pt_lookup (frames ph) r v)"
    if "unat v < 2 ^ 27" for v
  proof (cases "in_seg s v")
    case True
    then have "find (\<lambda>t. in_seg t v) segs = None" using apart by (auto simp: find_None_iff)
    with True i(5) [OF that] m(5) [OF that] show ?thesis by (simp add: seg_find_def mapped_seg s seg_entry_def)
  next
    case False
    with i(5) [OF that] m(5) [OF that] show ?thesis by (simp add: seg_find_def mapped_seg s cong: option.case_cong)
  qed
  moreover have "rfold (map_seg bd) (s # segs) (sp, ph) = Inr (sp2, ph2)" using m(1) i(1) by (simp add: map_seg_def s)
  ultimately show ?case using i m(3) by (auto intro: grows_trans)
qed (simp_all add: seg_find_def)

end

section \<open>The ranges of a kernel\<close>

definition identity_seg :: "nat \<Rightarrow> nat \<Rightarrow> vm_flags \<Rightarrow> seg" where
  "identity_seg a b flags = (of_nat (a div 4096), (b + 4095) div 4096 - a div 4096, of_nat (a div 4096), flags)"

definition kernel_segs :: "(usize \<times> usize) list \<Rightarrow> image_sizes \<Rightarrow> usize \<Rightarrow> usize \<Rightarrow> seg list" where
  "kernel_segs mmio sz memory portal =
     [identity_seg at_text (at_rodata sz) (region_flags Text), identity_seg (at_rodata sz) (at_data sz) (region_flags Rodata),
      identity_seg (at_data sz) (at_ebss sz) (region_flags Data), identity_seg (at_boot sz) (at_end sz) (region_flags Boot),
      identity_seg (at_end sz) (at_text + unat memory) (region_flags Data), (PROTAL_TRANSIT, 1, drop_bit 12 portal, PORTAL_FLAGS)]
     @ map (\<lambda>(base, len). identity_seg (unat base) (unat base + unat len) (region_flags Data)) mmio"

lemma page_word:
  assumes "x < 2 ^ 38"
  shows "vaddr_new sv39 (of_nat x) = of_nat x" "drop_bit 12 (of_nat x :: usize) = of_nat (x div 4096)"
    "unat (of_nat x :: usize) = x" "unat (of_nat (x div 4096) :: usize) = x div 4096"
proof -
  show u: "unat (of_nat x :: usize) = x" using assms by (simp add: unsigned_of_nat take_bit_nat_eq_self)
  have "x div 4096 < 2 ^ 64" using assms by simp
  then show v: "unat (of_nat (x div 4096) :: usize) = x div 4096" by (simp add: unsigned_of_nat take_bit_nat_eq_self)
  show "drop_bit 12 (of_nat x :: usize) = of_nat (x div 4096)" unfolding word_unat_eq_iff unat_drop_bit u v by simp
  have "x mod 2 ^ 39 = x" using assms by simp
  then show "vaddr_new sv39 (of_nat x) = of_nat x"
    unfolding vaddr_new_def sv39_bits and_vm_mask word_unat_eq_iff unat_take_bit u by simp
qed

lemma map_identity_seg:
  assumes "a \<le> b" "b + 4095 < 2 ^ 38"
  shows "map_identity E (of_nat a) (of_nat b) flags st = map_seg (ke_buddy E) (identity_seg a b flags) st"
proof -
  have a: "a < 2 ^ 38" "b < 2 ^ 38" using assms by simp_all
  note w = page_word [OF a(1)] page_word [OF a(2)] page_word [OF assms(2)]
  have m: "vm_mask 12 = (4095 :: usize)" by (simp add: vm_mask_def push_bit_eq_mult)
  have "vaddr_ceil sv39 (of_nat b) = Inr (of_nat ((b + 4095) div 4096))"
    using assms(2) w(7,10) by (simp add: vaddr_ceil_def m)
  moreover have "a div 4096 \<le> (b + 4095) div 4096" using assms(1) by (intro div_le_mono) simp
  then have "of_nat (a div 4096) + of_nat ((b + 4095) div 4096 - a div 4096) = (of_nat ((b + 4095) div 4096) :: usize)"
    by (simp flip: of_nat_add)
  ultimately show ?thesis
    by (simp add: map_identity_def map_seg_def identity_seg_def w vaddr_floor_def split_def Let_def)
qed

lemma in_identity_seg:
  assumes "4096 dvd a" "a \<le> b" "b + 4095 < 2 ^ 38"
  shows "in_seg (identity_seg a b flags) v \<longleftrightarrow> a \<le> unat v * 4096 \<and> unat v * 4096 < b"
    "seg_entry (identity_seg a b flags) v = (v, flags)"
proof -
  obtain m where a: "a = 4096 * m" using assms(1) by blast
  have le: "a div 4096 \<le> (b + 4095) div 4096" using assms(2) by (intro div_le_mono) simp
  have "unat (of_nat (a div 4096) :: usize) = a div 4096" using assms by (intro page_word) simp
  with le have "in_seg (identity_seg a b flags) v \<longleftrightarrow> a div 4096 \<le> unat v \<and> unat v < (b + 4095) div 4096"
    by (simp add: in_seg_def identity_seg_def)
  also have "\<dots> \<longleftrightarrow> a \<le> unat v * 4096 \<and> unat v * 4096 < b" by (auto simp: a)
  finally show "in_seg (identity_seg a b flags) v \<longleftrightarrow> a \<le> unat v * 4096 \<and> unat v * 4096 < b" .
  show "seg_entry (identity_seg a b flags) v = (v, flags)" by (simp add: seg_entry_def identity_seg_def)
qed

lemma kernel_flags:
  "meta_is_valid (region_flags t)" "region_flags t AND ppn_mask sv39 = 0" "\<not> vm_flags_contains (region_flags t) 0b1100"
  "meta_is_valid PORTAL_FLAGS" "PORTAL_FLAGS AND ppn_mask sv39 = 0"
proof -
  have v: "region_flags t = (case t of Text \<Rightarrow> 0b1011 | Rodata \<Rightarrow> 0b11 | Data \<Rightarrow> 0b111 | Boot \<Rightarrow> 0b111)" "PORTAL_FLAGS = 0b101111"
    by (cases t; simp add: region_flags_def PORTAL_FLAGS_def build_from_str_def is_ascii_alphabetic_def flag_of_letter_def)+
  show "meta_is_valid (region_flags t)" "region_flags t AND ppn_mask sv39 = 0" "\<not> vm_flags_contains (region_flags t) 0b1100"
    "meta_is_valid PORTAL_FLAGS" "PORTAL_FLAGS AND ppn_mask sv39 = 0"
    unfolding v by (cases t; simp add: meta_is_valid_def VALID_FLAG_def ppn_mask_def vm_mask_def push_bit_eq_mult vm_flags_contains_def)+
qed

text \<open>What the kernel sees at a page: the page itself with the flags of its region, the page of the portal, a device, or nothing.\<close>

definition kernel_view :: "(usize \<times> usize) list \<Rightarrow> image_sizes \<Rightarrow> usize \<Rightarrow> usize \<Rightarrow> vpn \<Rightarrow> (ppn \<times> vm_flags) option" where
  "kernel_view mmio sz memory portal p =
     (let q = unat p * 4096 in
      if at_text \<le> q \<and> q < at_rodata sz then Some (p, region_flags Text)
      else if at_rodata sz \<le> q \<and> q < at_data sz then Some (p, region_flags Rodata)
      else if at_data sz \<le> q \<and> q < at_ebss sz then Some (p, region_flags Data)
      else if at_boot sz \<le> q \<and> q < at_end sz then Some (p, region_flags Boot)
      else if at_end sz \<le> q \<and> q < at_text + unat memory then Some (p, region_flags Data)
      else if p = PROTAL_TRANSIT then Some (drop_bit 12 portal, PORTAL_FLAGS)
      else if list_ex (\<lambda>(base, len). unat base \<le> q \<and> q < unat base + unat len) mmio then Some (p, region_flags Data)
      else None)"

lemma transit_unat: "unat PROTAL_TRANSIT = 2 ^ 27 - 1"
  by (simp add: PROTAL_TRANSIT_def vpn_MAX_def vm_mask_def push_bit_eq_mult)

lemma memory_bounds:
  assumes "image_ok sz memory"
  shows "at_text + unat memory \<le> 0x83200000" "at_end sz < at_text + unat memory"
  using assms by (auto simp: image_ok_def word_le_nat_alt MEMORY_unat at_text_def)

lemmas seg_facts = image_order image_aligned memory_bounds

text \<open>Membership in the ranges, as comparisons of addresses.\<close>

lemma in_kernel_segs:
  assumes "image_ok sz memory"
  shows "in_seg (identity_seg at_text (at_rodata sz) flags) v \<longleftrightarrow> at_text \<le> unat v * 4096 \<and> unat v * 4096 < at_rodata sz"
    "in_seg (identity_seg (at_rodata sz) (at_data sz) flags) v \<longleftrightarrow> at_rodata sz \<le> unat v * 4096 \<and> unat v * 4096 < at_data sz"
    "in_seg (identity_seg (at_data sz) (at_ebss sz) flags) v \<longleftrightarrow> at_data sz \<le> unat v * 4096 \<and> unat v * 4096 < at_ebss sz"
    "in_seg (identity_seg (at_boot sz) (at_end sz) flags) v \<longleftrightarrow> at_boot sz \<le> unat v * 4096 \<and> unat v * 4096 < at_end sz"
    "in_seg (identity_seg (at_end sz) (at_text + unat memory) flags) v \<longleftrightarrow>
       at_end sz \<le> unat v * 4096 \<and> unat v * 4096 < at_text + unat memory"
    "in_seg (PROTAL_TRANSIT, Suc 0, b, flags) v \<longleftrightarrow> v = PROTAL_TRANSIT"
    "in_seg (identity_seg 0x10001000 0x10002000 flags) v \<longleftrightarrow> 0x10001000 \<le> unat v * 4096 \<and> unat v * 4096 < 0x10002000"
proof -
  note f = seg_facts [OF assms]
  have top: "0x83200000 + 4095 < (2 :: nat) ^ 38" by simp
  show "in_seg (identity_seg at_text (at_rodata sz) flags) v \<longleftrightarrow> at_text \<le> unat v * 4096 \<and> unat v * 4096 < at_rodata sz"
    using f top by (intro in_identity_seg) linarith+
  show "in_seg (identity_seg (at_rodata sz) (at_data sz) flags) v \<longleftrightarrow> at_rodata sz \<le> unat v * 4096 \<and> unat v * 4096 < at_data sz"
    using f top by (intro in_identity_seg) linarith+
  show "in_seg (identity_seg (at_data sz) (at_ebss sz) flags) v \<longleftrightarrow> at_data sz \<le> unat v * 4096 \<and> unat v * 4096 < at_ebss sz"
    using f top by (intro in_identity_seg) linarith+
  show "in_seg (identity_seg (at_boot sz) (at_end sz) flags) v \<longleftrightarrow> at_boot sz \<le> unat v * 4096 \<and> unat v * 4096 < at_end sz"
    using f top by (intro in_identity_seg) linarith+
  show "in_seg (identity_seg (at_end sz) (at_text + unat memory) flags) v \<longleftrightarrow>
       at_end sz \<le> unat v * 4096 \<and> unat v * 4096 < at_text + unat memory"
    using f top by (intro in_identity_seg) linarith+
  show "in_seg (PROTAL_TRANSIT, Suc 0, b, flags) v \<longleftrightarrow> v = PROTAL_TRANSIT" by (auto simp: in_seg_def word_unat_eq_iff)
  show "in_seg (identity_seg 0x10001000 0x10002000 flags) v \<longleftrightarrow> 0x10001000 \<le> unat v * 4096 \<and> unat v * 4096 < 0x10002000"
    by (intro in_identity_seg) (simp_all add: dvd_def exI [of _ 65537])
qed

lemma identity_seg_ok:
  assumes "a < b" "4096 dvd a" "b \<le> 0x83200000" "meta_is_valid flags" "flags AND ppn_mask sv39 = 0"
  shows "seg_ok (identity_seg a b flags)"
proof -
  have "a div 4096 < (b + 4095) div 4096" using assms(1,2) by auto
  moreover have "(b + 4095) div 4096 \<le> 0x83200" using assms(3) by simp
  moreover have "unat (of_nat (a div 4096) :: usize) = a div 4096" using assms(1,3) by (intro page_word) simp
  ultimately show ?thesis using assms(4,5) by (simp add: seg_ok_def identity_seg_def)
qed

lemma mmio_seg:
  assumes "mmio = [] \<or> mmio = MMIO"
  shows "map (\<lambda>(base, len). identity_seg (unat base) (unat base + unat len) (region_flags Data)) mmio =
    (if mmio = [] then [] else [identity_seg 0x10001000 0x10002000 (region_flags Data)])"
  using assms by (auto simp: MMIO_def)

lemma kernel_segs_ok:
  assumes "mmio = [] \<or> mmio = MMIO" "image_ok sz memory" "unat portal < 2 ^ 38"
  shows "\<forall>s \<in> set (kernel_segs mmio sz memory portal). seg_ok s"
proof -
  note f = seg_facts [OF assms(2)]
  have "unat (drop_bit 12 portal) < 2 ^ 26" using assms(3) by (simp add: unat_drop_bit less_mult_imp_div_less)
  then have p: "seg_ok (PROTAL_TRANSIT, 1, drop_bit 12 portal, PORTAL_FLAGS)" by (simp add: seg_ok_def transit_unat kernel_flags)
  have "seg_ok (identity_seg at_text (at_rodata sz) (region_flags Text))" "seg_ok (identity_seg (at_rodata sz) (at_data sz) (region_flags Rodata))"
    "seg_ok (identity_seg (at_data sz) (at_ebss sz) (region_flags Data))" "seg_ok (identity_seg (at_boot sz) (at_end sz) (region_flags Boot))"
    "seg_ok (identity_seg (at_end sz) (at_text + unat memory) (region_flags Data))"
    using f by (intro identity_seg_ok kernel_flags; linarith)+
  moreover have "seg_ok (identity_seg 0x10001000 0x10002000 (region_flags Data))"
    by (intro identity_seg_ok kernel_flags) (simp_all add: dvd_def exI [of _ 65537])
  ultimately show ?thesis using p unfolding kernel_segs_def mmio_seg [OF assms(1)] by (simp split: if_splits)
qed

lemma kernel_segs_disjoint:
  assumes "mmio = [] \<or> mmio = MMIO" "image_ok sz memory"
  shows "sorted_wrt seg_disjoint (kernel_segs mmio sz memory portal)"
proof -
  note f = seg_facts [OF assms(2)]
  have "at_text = 0x80200000" by (simp add: at_text_def)
  then show ?thesis
    unfolding kernel_segs_def mmio_seg [OF assms(1)] using f
    by (auto simp: seg_disjoint_def in_kernel_segs [OF assms(2)] transit_unat split: if_splits)
qed

lemma seg_find_simps:
  "seg_find [] v = None" "seg_find (s # segs) v = (if in_seg s v then Some (seg_entry s v) else seg_find segs v)"
  by (simp_all add: seg_find_def)

lemma kernel_segs_view:
  assumes "mmio = [] \<or> mmio = MMIO" "image_ok sz memory"
  shows "seg_find (kernel_segs mmio sz memory portal) v = kernel_view mmio sz memory portal v"
proof -
  have e: "seg_entry (identity_seg a b flags) v = (v, flags)" for a b flags by (simp add: seg_entry_def identity_seg_def)
  have p: "(if v = PROTAL_TRANSIT then Some (seg_entry (PROTAL_TRANSIT, Suc 0, b, flags) v) else x) =
      (if v = PROTAL_TRANSIT then Some (b, flags) else x)" for b flags x by (simp add: seg_entry_def)
  have d: "seg_find (if mmio = [] then [] else [identity_seg 0x10001000 0x10002000 flags]) v =
      (if list_ex (\<lambda>(base, len). unat base \<le> unat v * 4096 \<and> unat v * 4096 < unat base + unat len) mmio then Some (v, flags) else None)" for flags
    using assms(1) by (auto simp: MMIO_def seg_find_simps e in_kernel_segs [OF assms(2)])
  show ?thesis
    unfolding kernel_segs_def mmio_seg [OF assms(1)] kernel_view_def Let_def
    by (simp only: append.simps seg_find_simps in_kernel_segs [OF assms(2)] One_nat_def e p d)
qed

text \<open>The tables that the ranges need: two for each, and one for each of the 24 blocks of 2 MiB that the memory spans but the first.\<close>

lemma identity_tables:
  assumes "0x80200000 \<le> a" "a < b" "b \<le> 0x83200000"
  shows "seg_tables (identity_seg a b flags # segs) = 2 + ((b - 1) div 0x200000 - a div 0x200000) + seg_tables segs"
proof -
  have p: "(b + 4095) div 4096 = Suc ((b - 1) div 4096)" using assms(1,2) by (simp add: div_if [of "b + 4095"])
  have "a div 4096 \<le> (b + 4095) div 4096" using assms(2) by (intro div_le_mono) simp
  then have k: "a div 4096 + ((b + 4095) div 4096 - a div 4096) - 1 = (b - 1) div 4096" using p by simp
  have d: "x div 4096 div 2 ^ 9 = x div 0x200000" "x div 4096 div 2 ^ 18 = x div 0x40000000" for x :: nat
    by (simp_all flip: div_mult2_eq)
  have "b - 1 < 3 * 0x40000000" "2 * 0x40000000 \<le> b - 1" "a < 3 * 0x40000000" "2 * 0x40000000 \<le> a" using assms by simp_all
  then have "(b - 1) div 0x40000000 = 2" "a div 0x40000000 = 2" by (intro div_nat_eqI; simp)+
  then have c: "(b - 1) div 0x40000000 - a div 0x40000000 = 0" by simp
  have "unat (of_nat (a div 4096) :: usize) = a div 4096" using assms(2,3) by (intro page_word) simp
  then show ?thesis
    unfolding seg_tables_def identity_seg_def tables_for_def crossed_tables_def
    by (simp only: list.map sum_list.Cons prod.case k d c)
qed

lemma telescope:
  fixes a1 a2 a3 a4 a5 b1 b2 b3 b4 b5 c :: nat
  assumes "b1 \<le> a2" "b2 \<le> a3" "b3 \<le> a4" "b4 \<le> a5" "a1 \<le> b1" "a2 \<le> b2" "a3 \<le> b3" "a4 \<le> b4" "a5 \<le> b5"
    and "a1 = 1025" "b5 \<le> 1048" "c \<le> 2"
  shows "2 + (b1 - a1) + (2 + (b2 - a2) + (2 + (b3 - a3) + (2 + (b4 - a4) + (2 + (b5 - a5) + (2 + c))))) \<le> 37"
  using assms by linarith

lemma kernel_segs_tables:
  assumes "mmio = [] \<or> mmio = MMIO" "image_ok sz memory"
  shows "seg_tables (kernel_segs mmio sz memory portal) \<le> 37"
proof -
  note f = seg_facts [OF assms(2)]
  define d :: "nat \<Rightarrow> nat" where "d x = x div 0x200000" for x
  have mono: "x \<le> y \<Longrightarrow> d x \<le> d y" for x y unfolding d_def by (rule div_le_mono)
  have at: "at_text = 0x80200000" by (simp add: at_text_def)
  have t: "seg_tables (identity_seg a b flags # segs) = 2 + (d (b - 1) - d a) + seg_tables segs"
    if "at_text \<le> a" "a < b" "b \<le> at_text + unat memory" for a b flags segs
    using identity_tables [of a b flags segs] that f(14) at by (simp add: d_def)
  have ends: "d at_text = 1025" "d (at_text + unat memory - 1) \<le> 1048"
    using f(14) mono [of "at_text + unat memory - 1" "0x83200000 - 1"] by (simp_all add: d_def at)
  have chain: "d (at_rodata sz - 1) \<le> d (at_rodata sz)" "d (at_data sz - 1) \<le> d (at_data sz)" "d (at_ebss sz - 1) \<le> d (at_boot sz)"
    "d (at_end sz - 1) \<le> d (at_end sz)" "d at_text \<le> d (at_rodata sz - 1)" "d (at_rodata sz) \<le> d (at_data sz - 1)"
    "d (at_data sz) \<le> d (at_ebss sz - 1)" "d (at_boot sz) \<le> d (at_end sz - 1)" "d (at_end sz) \<le> d (at_text + unat memory - 1)"
    using f by (intro mono; linarith)+
  have dev: "seg_tables (if mmio = [] then [] else [identity_seg 0x10001000 0x10002000 flags]) \<le> 2" for flags
    by (simp add: seg_tables_def identity_seg_def tables_for_def crossed_tables_def)
  have por: "seg_tables ((PROTAL_TRANSIT, 1, b, flags) # segs) = 2 + seg_tables segs" for b flags segs
    by (simp add: seg_tables_def tables_for_def crossed_tables_def)
  have ranges: "seg_tables (identity_seg at_text (at_rodata sz) f1 # segs) = 2 + (d (at_rodata sz - 1) - d at_text) + seg_tables segs"
    "seg_tables (identity_seg (at_rodata sz) (at_data sz) f1 # segs) = 2 + (d (at_data sz - 1) - d (at_rodata sz)) + seg_tables segs"
    "seg_tables (identity_seg (at_data sz) (at_ebss sz) f1 # segs) = 2 + (d (at_ebss sz - 1) - d (at_data sz)) + seg_tables segs"
    "seg_tables (identity_seg (at_boot sz) (at_end sz) f1 # segs) = 2 + (d (at_end sz - 1) - d (at_boot sz)) + seg_tables segs"
    "seg_tables (identity_seg (at_end sz) (at_text + unat memory) f1 # segs) =
       2 + (d (at_text + unat memory - 1) - d (at_end sz)) + seg_tables segs" for f1 segs
    using f by (intro t; linarith)+
  show ?thesis
    unfolding kernel_segs_def mmio_seg [OF assms(1)] append.simps ranges por by (rule telescope [OF chain ends dev])
qed

lemma kernel_identities:
  assumes "image_ok sz memory"
  shows "map_identity E (of_nat at_text) (of_nat (at_rodata sz)) flags = map_seg (ke_buddy E) (identity_seg at_text (at_rodata sz) flags)"
    "map_identity E (of_nat (at_rodata sz)) (of_nat (at_data sz)) flags = map_seg (ke_buddy E) (identity_seg (at_rodata sz) (at_data sz) flags)"
    "map_identity E (of_nat (at_data sz)) (of_nat (at_ebss sz)) flags = map_seg (ke_buddy E) (identity_seg (at_data sz) (at_ebss sz) flags)"
    "map_identity E (of_nat (at_boot sz)) (of_nat (at_end sz)) flags = map_seg (ke_buddy E) (identity_seg (at_boot sz) (at_end sz) flags)"
    "map_identity E (of_nat (at_end sz)) (of_nat at_text + memory) flags = map_seg (ke_buddy E) (identity_seg (at_end sz) (at_text + unat memory) flags)"
    "map_identity E 0x10001000 0x10002000 flags = map_seg (ke_buddy E) (identity_seg 0x10001000 0x10002000 flags)"
proof -
  note f = seg_facts [OF assms]
  have m: "map_identity E (of_nat a) (of_nat b) flags = map_seg (ke_buddy E) (identity_seg a b flags)" if "a \<le> b" "b \<le> 0x83200000" for a b
    using map_identity_seg [of a b E flags] that by (intro ext) simp
  show "map_identity E (of_nat at_text) (of_nat (at_rodata sz)) flags = map_seg (ke_buddy E) (identity_seg at_text (at_rodata sz) flags)"
    "map_identity E (of_nat (at_rodata sz)) (of_nat (at_data sz)) flags = map_seg (ke_buddy E) (identity_seg (at_rodata sz) (at_data sz) flags)"
    "map_identity E (of_nat (at_data sz)) (of_nat (at_ebss sz)) flags = map_seg (ke_buddy E) (identity_seg (at_data sz) (at_ebss sz) flags)"
    "map_identity E (of_nat (at_boot sz)) (of_nat (at_end sz)) flags = map_seg (ke_buddy E) (identity_seg (at_boot sz) (at_end sz) flags)"
    using f by (intro m; linarith)+
  show "map_identity E (of_nat (at_end sz)) (of_nat at_text + memory) flags = map_seg (ke_buddy E) (identity_seg (at_end sz) (at_text + unat memory) flags)"
    using m [of "at_end sz" "at_text + unat memory"] f by simp
  show "map_identity E 0x10001000 0x10002000 flags = map_seg (ke_buddy E) (identity_seg 0x10001000 0x10002000 flags)"
    using m [of "0x10001000" "0x10002000"] by simp
qed

lemma rfold_fun: "rfold f (x # xs) = (\<lambda>s. rbind (f x s) (rfold f xs))" "rfold f [] = Inr" "rbind r Inr = r"
  by (simp_all add: fun_eq_iff) (cases r; simp)

lemma kernel_space_segs:
  assumes "image_ok sz memory"
  shows "kernel_space E (locate sz) memory portal ph =
      rbind (space_new (kmgr E) ph) (rfold (map_seg (ke_buddy E)) (kernel_segs MMIO sz memory portal))"
    "ch5_kernel_space E (locate sz) memory portal ph =
      rbind (space_new (kmgr E) ph) (rfold (map_seg (ke_buddy E)) (kernel_segs [] sz memory portal))"
proof -
  have add: "checked_usize_add (of_nat at_text) memory = Inr (of_nat at_text + memory)" "checked_usize_add 0x10001000 0x1000 = Inr 0x10002000"
    using memory_bounds [OF assms] by (simp_all add: checked_usize_add_def at_text_def)
  have portal: "finished (map_extern sv39 (kmgr E) PROTAL_TRANSIT (page_add PROTAL_TRANSIT 1) (drop_bit 12 portal) PORTAL_FLAGS (fst st) (snd st)) =
      map_seg (ke_buddy E) (PROTAL_TRANSIT, Suc 0, drop_bit 12 portal, PORTAL_FLAGS) st" for st
    by (simp add: map_seg_def page_add_def)
  have it: "layout_iter (locate sz) =
     [\<lparr>region_title = Text, region_start = of_nat at_text, region_end = of_nat (at_rodata sz)\<rparr>,
      \<lparr>region_title = Rodata, region_start = of_nat (at_rodata sz), region_end = of_nat (at_data sz)\<rparr>,
      \<lparr>region_title = Data, region_start = of_nat (at_data sz), region_end = of_nat (at_ebss sz)\<rparr>,
      \<lparr>region_title = Boot, region_start = of_nat (at_boot sz), region_end = of_nat (at_end sz)\<rparr>]"
    "layout_start (locate sz) = of_nat at_text" "lay_end (locate sz) = of_nat (at_end sz)"
    by (simp_all add: layout_iter_def regions_from.simps locate_def layout_start_def)
  show "kernel_space E (locate sz) memory portal ph =
      rbind (space_new (kmgr E) ph) (rfold (map_seg (ke_buddy E)) (kernel_segs MMIO sz memory portal))"
    "ch5_kernel_space E (locate sz) memory portal ph =
      rbind (space_new (kmgr E) ph) (rfold (map_seg (ke_buddy E)) (kernel_segs [] sz memory portal))"
    by (simp_all add: kernel_space_def ch5_kernel_space_def it add portal kernel_segs_def MMIO_def kernel_identities [OF assms]
        rbind_assoc split_def rfold_fun)
qed

section \<open>A new address space with these ranges\<close>

lemma seg_find_ok:
  assumes "seg_find segs v = Some (b, flags)" "\<forall>s \<in> set segs. seg_ok s"
  shows "unat b < 2 ^ 26" "flags AND ppn_mask sv39 = 0"
proof -
  from assms(1) obtain s where f: "find (\<lambda>s. in_seg s v) segs = Some s" "seg_entry s v = (b, flags)" by (auto simp: seg_find_def)
  then have s: "s \<in> set segs" "in_seg s v" by (auto simp: find_Some_iff)
  obtain n k b0 where sn: "s = (n, k, b0, flags)" "b = b0 + (v - n)" using f(2) by (cases s) (auto simp: seg_entry_def)
  have ok: "unat b0 + k \<le> 2 ^ 26" "flags AND ppn_mask sv39 = 0" using assms(2) s(1) by (auto simp: sn seg_ok_def)
  then show "flags AND ppn_mask sv39 = 0" by simp
  have v: "unat n \<le> unat v" "unat v < unat n + k" using s(2) by (auto simp: sn in_seg_def)
  then have "unat (v - n) = unat v - unat n" by (simp add: unat_sub word_le_nat_alt)
  moreover from v ok(1) have "unat b0 + (unat v - unat n) < 2 ^ 26" by linarith
  ultimately show "unat b < 2 ^ 26" unfolding sn(2) by (simp only: unat_word_ariths) simp
qed

context sv39_space
begin

lemma new_space:
  assumes "avail (heap ph) > 0"
  shows "\<exists>z h. let ph1 = ph\<lparr>frames := (frames ph)(z := zero_page), heap := h\<rparr> in
     space_new (sv39_manage bd) ph = Inr (\<lparr>areas = [], page_manager = push_bit 12 z\<rparr>, ph1) \<and>
     page_of (push_bit 12 z) = z \<and> z \<in> free (heap ph) \<and> free h \<subseteq> free (heap ph) \<and> avail (heap ph) \<le> Suc (avail h) \<and>
     tables_ok OWNED (free h) (frames ph1) z \<and> (\<forall>v. pt_lookup (frames ph1) z v = None) \<and> tree_pages (frames ph1) z = {z}"
proof -
  from page_alloc_one [OF laws assms] obtain z h where
    a: "page_alloc bd 1 ph = Inr (push_bit 12 z, ph\<lparr>frames := (frames ph)(z := zero_page), heap := h\<rparr>)"
      "z \<noteq> 0" "unat z < 2 ^ 26" "z \<in> free (heap ph)" "free h = free (heap ph) - {z}" "avail (heap ph) \<le> Suc (avail h)"
    by blast
  have pz: "page_of (push_bit 12 z) = z" by (rule sv39_p_to_v_eq(2) [OF a(3)])
  then have nz: "push_bit 12 z \<noteq> 0" using a(2) by (auto simp: page_of_def)
  let ?fr = "(frames ph)(z := zero_page)"
  have "tables_ok OWNED (free h) ?fr z" "\<And>v. pt_lookup ?fr z v = None"
    using tables_ok_empty [of ?fr z "free h"] a(3,5) by simp_all
  moreover have "tree_pages ?fr z = {z}"
    using walk_path_empty [of ?fr z] tree_pagesI [of "[]" ?fr z z] by (auto simp: tree_pages_def split: if_splits)
  ultimately show ?thesis
    using a pz nz by (intro exI [of _ z] exI [of _ h]) (auto simp: Let_def space_new_def sv39_new_root_def nonnull_def)
qed

lemma new_space_segs:
  assumes "\<forall>s \<in> set segs. seg_ok s" "sorted_wrt seg_disjoint segs" "avail (heap ph) > seg_tables segs"
  shows "\<exists>sp ph1. rbind (space_new (sv39_manage bd) ph) (rfold (map_seg bd) segs) = Inr (sp, ph1) \<and>
     (\<forall>x. x \<notin> free (heap ph) \<longrightarrow> frames ph1 x = frames ph x) \<and>
     (\<forall>v want. let a = vaddr_new sv39 v in translate sv39 (sv39_manage bd) sp a want ph1 =
        Some (Inr (case seg_find segs (vaddr_floor sv39 a) of
            Some (b, flags) \<Rightarrow> if vm_flags_contains flags want then Some (push_bit 12 b + vaddr_offset sv39 a) else None
          | None \<Rightarrow> None)))"
proof -
  from new_space [of ph] assms(3) obtain z h ph0 where
    n: "ph0 = ph\<lparr>frames := (frames ph)(z := zero_page), heap := h\<rparr>"
      "space_new (sv39_manage bd) ph = Inr (\<lparr>areas = [], page_manager = push_bit 12 z\<rparr>, ph0)" "page_of (push_bit 12 z) = z" "z \<in> free (heap ph)"
      "free h \<subseteq> free (heap ph)" "avail (heap ph) \<le> Suc (avail h)" "tables_ok OWNED (free h) (frames ph0) z"
      "\<And>v. pt_lookup (frames ph0) z v = None" "tree_pages (frames ph0) z = {z}"
    by (auto simp: Let_def)
  have "heap ph0 = h" by (simp add: n(1))
  with map_segs [of ph0 z "\<lparr>areas = [], page_manager = push_bit 12 z\<rparr>" segs] n(2-) assms obtain sp ph1 where
    m: "rfold (map_seg bd) segs (\<lparr>areas = [], page_manager = push_bit 12 z\<rparr>, ph0) = Inr (sp, ph1)" "page_manager sp = push_bit 12 z"
      "tables_ok OWNED (free (heap ph1)) (frames ph1) z" "grows free z ph0 ph1"
      "\<And>v. unat v < 2 ^ 27 \<Longrightarrow> pt_lookup (frames ph1) z v =
         (case seg_find segs v of Some (b, flags) \<Rightarrow> Some (build_pte sv39 flags b) | None \<Rightarrow> None)"
    by (auto cong: option.case_cong)
  have "translate sv39 (sv39_manage bd) sp a want ph1 =
      Some (Inr (case seg_find segs (vaddr_floor sv39 a) of
          Some (b, flags) \<Rightarrow> if vm_flags_contains flags want then Some (push_bit 12 b + vaddr_offset sv39 a) else None
        | None \<Rightarrow> None))" if a: "a = vaddr_new sv39 v" for a v want
  proof -
    have f: "unat (vaddr_floor sv39 a) < 2 ^ 27" unfolding a by (rule vaddr_floor_bound)
    note t = sv39_translate [OF m(3) _ a, of sp want]
    show ?thesis
    proof (cases "seg_find segs (vaddr_floor sv39 a)")
      case None
      with t n(3) m(2) m(5) [OF f] show ?thesis by simp
    next
      case (Some x)
      then obtain b flags where s: "seg_find segs (vaddr_floor sv39 a) = Some (b, flags)" by (cases x) simp
      note ok = seg_find_ok [OF s assms(1)]
      have "unat b < 2 ^ 44" using ok(1) by simp
      note parts = pte_parts [OF this ok(2)]
      show ?thesis using t n(3) m(2) m(5) [OF f] s parts sv39_p_to_v_eq(1) [OF ok(1)] by simp
    qed
  qed
  moreover have "frames ph1 x = frames ph x" if "x \<notin> free (heap ph)" for x
    using m(4) n(1,4,5,9) that unfolding grows_def by (auto simp: n(1))
  ultimately show ?thesis using n(2) m(1) by (intro exI [of _ sp] exI [of _ ph1]) (auto simp: Let_def)
qed

end

section \<open>Properties\<close>

lemma kernel_view_flags:
  assumes "kernel_view mmio sz memory portal p = Some (b, flags)" "p \<noteq> PROTAL_TRANSIT"
  shows "\<not> vm_flags_contains flags 0b1100" "b = p"
  using assms kernel_flags(3) by (auto simp: kernel_view_def Let_def split: if_splits)

text \<open>
  C8. The address space of a kernel, from the linker script to the page tables. For an image that the script \<^verbatim>\<open>SCRIPT\<close> lays out,
  without empty regions, with a stack of whole pages and within the memory that the kernel is given, and an allocator that can
  hand out 38 pages for tables, \<^verbatim>\<open>kernel_space\<close> of the kernels returns, and from then on an address of the code, of the read-only data, of the
  data with \<^verbatim>\<open>.bss\<close>, of the boot stack, of the heap or of the device is translated to itself exactly for the
  accesses that the flags of its region permit; the page of the portal leads to the portal; no other address is translated. No
  page but the portal is both writable and executable, and only free pages have been written.
\<close>

theorem kernel_space_maps:
  fixes E :: "('d, 'h) kenv"
  assumes "(mk_space, mmio) \<in> {(kernel_space, MMIO), (ch5_kernel_space, [])}"
    and "buddy_laws (ke_buddy E) free avail" "avail (heap ph) \<ge> 38"
    and "image_ok sz memory" "unat portal < 2 ^ 38"
  shows "\<exists>sp ph1. mk_space E (locate sz) memory portal ph = Inr (sp, ph1) \<and>
     (\<forall>x. x \<notin> free (heap ph) \<longrightarrow> frames ph1 x = frames ph x) \<and>
     (\<forall>v want. let a = vaddr_new sv39 v in translate sv39 (kmgr E) sp a want ph1 =
        Some (Inr (case kernel_view mmio sz memory portal (vaddr_floor sv39 a) of
            Some (b, flags) \<Rightarrow> if vm_flags_contains flags want then Some (push_bit 12 b + vaddr_offset sv39 a) else None
          | None \<Rightarrow> None))) \<and>
     (\<forall>v. let a = vaddr_new sv39 v in
        vaddr_floor sv39 a \<noteq> PROTAL_TRANSIT \<longrightarrow> translate sv39 (kmgr E) sp a 0b1100 ph1 = Some (Inr None))"
proof -
  have mmio: "mmio = [] \<or> mmio = MMIO" using assms(1) by auto
  have run: "mk_space E (locate sz) memory portal ph =
      rbind (space_new (kmgr E) ph) (rfold (map_seg (ke_buddy E)) (kernel_segs mmio sz memory portal))"
    using assms(1) kernel_space_segs [OF assms(4)] by auto
  have "seg_tables (kernel_segs mmio sz memory portal) < avail (heap ph)"
    using kernel_segs_tables [OF mmio assms(4), of portal] assms(3) by simp
  from sv39_space.new_space_segs [OF sv39_space.intro [OF assms(2)] kernel_segs_ok [OF mmio assms(4,5)] kernel_segs_disjoint [OF mmio assms(4)] this]
  obtain sp ph1 where r: "mk_space E (locate sz) memory portal ph = Inr (sp, ph1)" "\<forall>x. x \<notin> free (heap ph) \<longrightarrow> frames ph1 x = frames ph x"
    and t: "\<forall>v want. let a = vaddr_new sv39 v in translate sv39 (kmgr E) sp a want ph1 =
        Some (Inr (case kernel_view mmio sz memory portal (vaddr_floor sv39 a) of
            Some (b, flags) \<Rightarrow> if vm_flags_contains flags want then Some (push_bit 12 b + vaddr_offset sv39 a) else None
          | None \<Rightarrow> None))"
    unfolding run kernel_segs_view [OF mmio assms(4)] by blast
  have "translate sv39 (kmgr E) sp (vaddr_new sv39 v) 0b1100 ph1 = Some (Inr None)"
    if "vaddr_floor sv39 (vaddr_new sv39 v) \<noteq> PROTAL_TRANSIT" for v
    using t [rule_format, of v "0b1100"] kernel_view_flags(1) [OF _ that, of mmio sz memory portal] by (auto simp: Let_def split: option.splits)
  with r t show ?thesis by (intro exI [of _ sp] exI [of _ ph1]) (simp add: Let_def)
qed

text \<open>An image of a few pages, and a memory whose upper part is free.\<close>

definition demo_image :: image_sizes where
  "demo_image = \<lparr>sz_text = 0x9234, sz_rodata = 0x1801, sz_data = 0x23, sz_bss = 0x1009, sz_boot = 0x20000\<rparr>"

definition demo_boot :: "(nat \<times> nat) phys" where
  "demo_boot = \<lparr>frames = (\<lambda>_. zero_page), heap = (0x81000, 0x83200)\<rparr>"

theorem kernel_space_maps_witness:
  "\<forall>E :: ('d, nat \<times> nat) kenv. let E = E\<lparr>ke_buddy := bump\<rparr> in
     \<exists>sp ph1. kernel_space E (locate demo_image) MEMORY 0x82000000 demo_boot = Inr (sp, ph1) \<and>
       translate sv39 (kmgr E) sp (vaddr_new sv39 0x80200008) 0b1010 ph1 = Some (Inr (Some 0x80200008)) \<and>
       translate sv39 (kmgr E) sp (vaddr_new sv39 0x80200008) 0b100 ph1 = Some (Inr None) \<and>
       translate sv39 (kmgr E) sp (vaddr_new sv39 0x8020C004) 0b110 ph1 = Some (Inr (Some 0x8020C004))"
proof (intro allI)
  fix E0 :: "('d, nat \<times> nat) kenv"
  define E where "E = E0\<lparr>ke_buddy := bump\<rparr>"
  have b: "buddy_laws (ke_buddy E) bump_free bump_avail" by (simp add: E_def bump_laws)
  have av: "bump_avail (heap demo_boot) \<ge> 38" by (simp add: bump_avail_def demo_boot_def)
  note image = at_end_def at_boot_def at_ebss_def at_sbss_def at_data_def at_rodata_def at_text_def align_up_def demo_image_def
  have ok: "image_ok demo_image MEMORY" by (simp add: image_ok_def image MEMORY_unat)
  have f: "region_flags Text = 0b1011" "region_flags Data = 0b111"
    by (simp_all add: region_flags_def build_from_str_def is_ascii_alphabetic_def flag_of_letter_def)
  have v: "kernel_view MMIO demo_image MEMORY 0x82000000 0x80200 = Some (0x80200, 0b1011)"
    "kernel_view MMIO demo_image MEMORY 0x82000000 0x8020C = Some (0x8020C, 0b111)"
    by (simp_all add: kernel_view_def f image MEMORY_unat)
  have a: "vaddr_new sv39 0x80200008 = 0x80200008" "vaddr_floor sv39 0x80200008 = 0x80200" "vaddr_offset sv39 0x80200008 = 8"
    "vaddr_new sv39 0x8020C004 = 0x8020C004" "vaddr_floor sv39 0x8020C004 = 0x8020C" "vaddr_offset sv39 0x8020C004 = 4"
    by (simp_all add: vaddr_new_def vaddr_floor_def vaddr_offset_def)
  have "(kernel_space, MMIO) \<in> {(kernel_space, MMIO), (ch5_kernel_space, [])}" by simp
  from kernel_space_maps [OF this b av ok, of "0x82000000"] obtain sp ph1 where
    "kernel_space E (locate demo_image) MEMORY 0x82000000 demo_boot = Inr (sp, ph1)"
    and t: "\<And>v want. let a = vaddr_new sv39 v in translate sv39 (kmgr E) sp a want ph1 =
        Some (Inr (case kernel_view MMIO demo_image MEMORY 0x82000000 (vaddr_floor sv39 a) of
            Some (b, flags) \<Rightarrow> if vm_flags_contains flags want then Some (push_bit 12 b + vaddr_offset sv39 a) else None
          | None \<Rightarrow> None))"
    by auto
  then show "let E = E0\<lparr>ke_buddy := bump\<rparr> in
     \<exists>sp ph1. kernel_space E (locate demo_image) MEMORY 0x82000000 demo_boot = Inr (sp, ph1) \<and>
       translate sv39 (kmgr E) sp (vaddr_new sv39 0x80200008) 0b1010 ph1 = Some (Inr (Some 0x80200008)) \<and>
       translate sv39 (kmgr E) sp (vaddr_new sv39 0x80200008) 0b100 ph1 = Some (Inr None) \<and>
       translate sv39 (kmgr E) sp (vaddr_new sv39 0x8020C004) 0b110 ph1 = Some (Inr (Some 0x8020C004))"
    using t [of "0x80200008" "0b1010"] t [of "0x80200008" "0b100"] t [of "0x8020C004" "0b110"]
    unfolding E_def [symmetric] Let_def a v by (simp add: vm_flags_contains_def)
qed

end
