(* ===== verification/Vm_Clone.thy ===== *)
theory Vm_Clone
  imports Vm_Sv39
begin

unbundle bit_operations_syntax

text \<open>
  What \<^verbatim>\<open>cloneself\<close>, the copy of an address space behind \<^verbatim>\<open>fork\<close>, does to memory: the child sees what the
  parent sees, in pages that the parent does not map, and nothing of the parent changes. The allocator
  hands out blocks of pages here, which it may refuse; then the kernel panics.
\<close>

section \<open>Trees that an operation does not touch\<close>

lemma tree_unchanged:
  assumes ok: "tables_ok own F fr r" and eq: "\<And>x. x \<in> tree_pages fr r \<Longrightarrow> fr' x = fr x" and F: "F' \<subseteq> F"
  shows "tables_ok own F' fr' r" "table_path p \<Longrightarrow> walk_path fr' r p = walk_path fr r p"
    "pt_lookup fr' r = pt_lookup fr r" "tree_pages fr' r = tree_pages fr r"
proof -
  have wp: "walk_path fr' r p = walk_path fr r p" if "table_path p" for p
  proof (rule walk_path_cong)
    fix p1 j p2 y
    assume "p = p1 @ j # p2" "walk_path fr r p1 = Some y"
    with that have "table_path p1" by (auto simp: table_path_def)
    with \<open>walk_path fr r p1 = Some y\<close> show "fr' y ! j = fr y ! j" by (simp add: eq [OF tree_pagesI])
  qed
  then show "table_path p \<Longrightarrow> walk_path fr' r p = walk_path fr r p" .
  have at: "fr' x = fr x" if "table_path p" "walk_path fr r p = Some x" for p x
    using eq [OF tree_pagesI [OF that]] .
  show "tables_ok own F' fr' r"
    unfolding tables_ok_def
  proof (intro conjI allI impI)
    fix p x
    assume "table_path p" "walk_path fr' r p = Some x"
    then show "length (fr' x) = 512" "unat x < 2 ^ 26" "x \<notin> F'"
      using tables_okD [OF ok, of p x] at [of p x] F by (auto simp: wp)
  next
    fix p q x
    assume "table_path p" "table_path q" "walk_path fr' r p = Some x" "walk_path fr' r q = Some x"
    then show "p = q" using tables_ok_unique [OF ok, of p q x] by (simp add: wp)
  next
    fix p x i
    assume "table_path p" "length p \<le> 1" "walk_path fr' r p = Some x" "i < 512" "pte_is_valid (fr' x ! i)"
    then show "\<not> pte_is_leaf sv39 (fr' x ! i)" "vm_flags_contains (fr' x ! i) own"
      using tables_ok_entry [OF ok, of p x i] at [of p x] by (simp_all add: wp)
  qed
  show "pt_lookup fr' r = pt_lookup fr r"
  proof
    fix n
    show "pt_lookup fr' r n = pt_lookup fr r n"
      using wp [of "[idx 2 n, idx 1 n]"] at [of "[idx 2 n, idx 1 n]"]
      by (auto simp: pt_lookup_def simp del: walk_path.simps One_nat_def split: option.splits)
  qed
  show "tree_pages fr' r = tree_pages fr r" by (auto simp: tree_pages_def wp)
qed

lemma tree_not_free: "tables_ok own F fr r \<Longrightarrow> tree_pages fr r \<inter> F = {}"
  by (auto simp: tree_pages_def dest: tables_okD(3))

section \<open>Well-formed address spaces\<close>

text \<open>The pages an address space maps, and the page numbers of an area.\<close>

definition mapped_pages :: "(usize \<Rightarrow> u64 list) \<Rightarrow> usize \<Rightarrow> usize set" where
  "mapped_pages fr r = {pte_ppn sv39 p | v p. unat v < 2 ^ 27 \<and> pt_lookup fr r v = Some p}"

definition area_pages :: "vpn \<times> vpn \<Rightarrow> vpn set" where
  "area_pages a = {v. fst a \<le> v \<and> v < snd a}"

text \<open>Page \<^verbatim>\<open>n + i\<close> is mapped to \<^verbatim>\<open>b + i\<close> with the same flags for all \<^verbatim>\<open>k\<close> pages, as \<^verbatim>\<open>map_extern\<close> does it.\<close>

definition backed :: "(vpn \<Rightarrow> pte option) \<Rightarrow> vpn \<Rightarrow> nat \<Rightarrow> ppn \<Rightarrow> vm_flags \<Rightarrow> bool" where
  "backed L n k b flags \<longleftrightarrow>
     k > 0 \<and> unat n + k \<le> 2 ^ 27 \<and> unat b + k \<le> 2 ^ 26 \<and>
     meta_is_valid flags \<and> flags AND ppn_mask sv39 = 0 \<and>
     (\<forall>v. unat n \<le> unat v \<longrightarrow> unat v < unat n + k \<longrightarrow> L v = Some (build_pte sv39 flags (b + (v - n))))"

definition space_ok :: "('h \<Rightarrow> usize set) \<Rightarrow> 'h phys \<Rightarrow> sv39_manager address_space \<Rightarrow> bool" where
  "space_ok free ph sp \<longleftrightarrow>
     tables_ok OWNED (free (heap ph)) (frames ph) (page_of (page_manager sp)) \<and>
     mapped_pages (frames ph) (page_of (page_manager sp)) \<inter> free (heap ph) = {} \<and>
     (\<forall>a \<in> set (areas sp). \<exists>k b flags. snd a = fst a + of_nat k \<and>
        backed (pt_lookup (frames ph) (page_of (page_manager sp))) (fst a) k b flags) \<and>
     sorted_wrt (\<lambda>a c. area_pages a \<inter> area_pages c = {}) (areas sp)"

definition pages_of_areas :: "(vpn \<times> vpn) list \<Rightarrow> nat" where
  "pages_of_areas as = sum_list (map (\<lambda>a. unat (snd a - fst a)) as)"

lemma area_pages_iff:
  assumes "unat n + k \<le> 2 ^ 27"
  shows "v \<in> area_pages (n, n + of_nat k) \<longleftrightarrow> unat n \<le> unat v \<and> unat v < unat n + k"
proof -
  have "unat (of_nat k :: usize) = k" using assms by (simp add: unsigned_of_nat take_bit_nat_eq_self)
  then have "unat (n + of_nat k) = unat n + k" using assms by (simp add: unat_word_ariths)
  then show ?thesis by (simp add: area_pages_def word_le_nat_alt word_less_nat_alt)
qed

section \<open>Blocks of pages\<close>

text \<open>
  What the kernel relies on when it asks the buddy allocator for several pages: if it gets a block, the
  block is aligned, inside the identity-mapped memory and free before, it is not free after, and at most
  twice as many pages are gone (the allocator rounds up to a power of two).
\<close>

definition block_pages :: "usize \<Rightarrow> nat \<Rightarrow> usize set" where
  "block_pages n k = {x. unat n \<le> unat x \<and> unat x < unat n + k}"

definition block_laws :: "'h buddy \<Rightarrow> ('h \<Rightarrow> usize set) \<Rightarrow> ('h \<Rightarrow> nat) \<Rightarrow> bool" where
  "block_laws bd free avail \<longleftrightarrow>
     (\<forall>h k p h1. 0 < k \<longrightarrow> k \<le> 2 ^ 27 \<longrightarrow> bd (push_bit 12 (of_nat k)) 4096 h = Some (p, h1) \<longrightarrow>
        (\<exists>n. p = push_bit 12 n \<and> 0 < n \<and> unat n + k \<le> 2 ^ 26 \<and> block_pages n k \<subseteq> free h \<and>
           free h1 \<subseteq> free h - block_pages n k \<and> avail h \<le> avail h1 + 2 * k))"

text \<open>
  The allocator refuses the block for one of the areas in a state in which at most \<^verbatim>\<open>n\<close> pages are gone.
\<close>

definition refuses :: "'h buddy \<Rightarrow> ('h \<Rightarrow> nat) \<Rightarrow> 'h \<Rightarrow> nat \<Rightarrow> (vpn \<times> vpn) list \<Rightarrow> bool" where
  "refuses bd avail h n as \<longleftrightarrow>
     (\<exists>h1. \<exists>a \<in> set as. avail h \<le> avail h1 + n \<and> bd (push_bit 12 (snd a - fst a)) 4096 h1 = None)"

lemma refuses_mono:
  assumes "refuses bd avail h n as" "avail h' \<le> avail h + m" "set as \<subseteq> set as'"
  shows "refuses bd avail h' (n + m) as'"
proof -
  from assms(1) obtain h1 a where "a \<in> set as" "avail h \<le> avail h1 + n" "bd (push_bit 12 (snd a - fst a)) 4096 h1 = None"
    unfolding refuses_def by blast
  with assms(2,3) show ?thesis unfolding refuses_def by (intro exI [of _ h1] bexI [of _ a]) auto
qed

lemma in_pages_block:
  assumes "unat n + k \<le> 2 ^ 26"
  shows "in_pages n (of_nat k) x \<longleftrightarrow> x \<in> block_pages n k"
proof -
  have k: "unat (of_nat k :: usize) = k" using assms by (simp add: unsigned_of_nat take_bit_nat_eq_self)
  show ?thesis
  proof (cases "unat n \<le> unat x")
    case True
    then have "unat (x - n) = unat x - unat n" by (simp add: unat_sub word_le_nat_alt)
    with True show ?thesis by (auto simp: in_pages_def block_pages_def k)
  next
    case False
    then have "unat (x - n) = 2 ^ 64 + unat x - unat n"
      using unsigned_less [of n, where 'a = nat] by (simp add: unat_sub_if_size word_size word_le_nat_alt)
    with False assms show ?thesis by (simp add: in_pages_def block_pages_def k)
  qed
qed

lemma bump_blocks: "block_laws bump bump_free bump_avail"
  unfolding block_laws_def
proof (intro allI impI)
  fix h k p and h1 :: "nat \<times> nat"
  assume k: "0 < k" "k \<le> 2 ^ 27" and b: "bump (push_bit 12 (of_nat k)) 4096 h = Some (p, h1)"
  obtain a l where h: "h = (a, l)" by force
  have u: "unat (of_nat k :: usize) = k" using k by (simp add: unsigned_of_nat take_bit_nat_eq_self)
  have "unat (push_bit 12 (of_nat k :: usize)) = k * 4096"
    using k by (simp add: push_bit_eq_mult unat_word_ariths u mult.commute)
  then have "unat (drop_bit 12 (push_bit 12 (of_nat k :: usize))) = k" by (simp add: unat_drop_bit)
  then have *: "0 < a" "a + k \<le> l" "l \<le> 2 ^ 26" "p = push_bit 12 (of_nat a)" "h1 = (a + k, l)"
    using b by (simp_all add: bump_def h Let_def split: if_splits)
  have u: "unat (of_nat a :: usize) = a" using * by (simp add: unsigned_of_nat take_bit_nat_eq_self)
  have "block_pages (of_nat a) k \<subseteq> bump_free h" "bump_free h1 \<subseteq> bump_free h - block_pages (of_nat a) k"
    using * u by (auto simp: block_pages_def bump_free_def h word_less_nat_alt)
  moreover have "bump_avail h \<le> bump_avail h1 + 2 * k" using * by (simp add: bump_avail_def h)
  ultimately show "\<exists>n. p = push_bit 12 n \<and> 0 < n \<and> unat n + k \<le> 2 ^ 26 \<and> block_pages n k \<subseteq> bump_free h \<and>
      bump_free h1 \<subseteq> bump_free h - block_pages n k \<and> bump_avail h \<le> bump_avail h1 + 2 * k"
    using * u by (intro exI [of _ "of_nat a"]) (simp add: word_less_nat_alt)
qed

section \<open>Copying one area\<close>

text \<open>
  The copy of an area: the child has the area mapped to a block \<^verbatim>\<open>z\<close> of pages that were free, with the
  contents of the parent's pages; only the child's tables and free pages have changed.
\<close>

definition area_copied ::
    "('h \<Rightarrow> usize set) \<Rightarrow> ('h \<Rightarrow> nat) \<Rightarrow> usize \<Rightarrow> 'h phys \<Rightarrow> 'h phys \<Rightarrow> vpn \<Rightarrow> nat \<Rightarrow> ppn \<Rightarrow> vm_flags \<Rightarrow> ppn \<Rightarrow> bool"
    where
  "area_copied free avail r ph ph1 n k b flags z \<longleftrightarrow>
     tables_ok OWNED (free (heap ph1)) (frames ph1) r \<and> grows free r ph ph1 \<and>
     avail (heap ph) \<le> avail (heap ph1) + 4 * k \<and> unat z + k \<le> 2 ^ 26 \<and>
     block_pages z k \<subseteq> free (heap ph) - free (heap ph1) - tree_pages (frames ph1) r \<and>
     (\<forall>x \<in> block_pages z k. frames ph1 x = frames ph (b + (x - z))) \<and>
     (\<forall>v. unat v < 2 ^ 27 \<longrightarrow> pt_lookup (frames ph1) r v = mapped n k z (flags OR OWNED) (pt_lookup (frames ph) r) v)"

lemma owned_flags:
  assumes "meta_is_valid flags" "flags AND ppn_mask sv39 = 0"
  shows "meta_is_valid (flags OR OWNED)" "(flags OR OWNED) AND ppn_mask sv39 = 0"
proof -
  have "bit flags 0" using assms(1) by (metis VALID_FLAG_def bit_1_0 bit_and_iff meta_is_valid_def)
  then have "(flags OR OWNED) AND 1 = 1" by (intro bit_word_eqI) (auto simp: bit_simps)
  then show "meta_is_valid (flags OR OWNED)" by (simp add: meta_is_valid_def VALID_FLAG_def)
  have "OWNED AND ppn_mask sv39 = 0" by (simp add: OWNED_def ppn_mask_def vm_mask_def push_bit_eq_mult)
  with assms(2) show "(flags OR OWNED) AND ppn_mask sv39 = 0" by (simp add: bit.conj_disj_distrib2)
qed

lemma block_member:
  assumes "x \<in> block_pages z k"
  shows "unat (x - z) < k" "unat (x - z) = unat x - unat z"
proof -
  show "unat (x - z) = unat x - unat z"
    using assms by (simp add: block_pages_def unat_sub word_le_nat_alt)
  then show "unat (x - z) < k" using assms by (auto simp: block_pages_def)
qed

lemma block_shift:
  assumes "x \<in> block_pages z k" "unat b + k \<le> 2 ^ 27"
  shows "b + (x - z) \<in> block_pages b k"
proof -
  have "unat (b + (x - z)) = unat b + unat (x - z)"
    using block_member(1) [OF assms(1)] assms(2) by (simp add: unat_word_ariths)
  then show ?thesis using block_member(1) [OF assms(1)] by (simp add: block_pages_def)
qed

lemma backed_mapped:
  assumes "backed (pt_lookup fr r) n k b flags"
  shows "block_pages b k \<subseteq> mapped_pages fr r"
proof
  fix x
  assume x: "x \<in> block_pages b k"
  have k: "unat n + k \<le> 2 ^ 27" "unat b + k \<le> 2 ^ 26" "flags AND ppn_mask sv39 = 0"
    using assms unfolding backed_def by blast+
  have v: "n + (x - b) \<in> block_pages n k" using block_shift [OF x k(1)] .
  then have "unat (n + (x - b)) < 2 ^ 27" using k(1) by (auto simp: block_pages_def)
  moreover have "pt_lookup fr r (n + (x - b)) = Some (build_pte sv39 flags x)"
    using assms v unfolding backed_def block_pages_def by (auto simp: algebra_simps)
  moreover have "unat x < 2 ^ 44" using x k(2) by (auto simp: block_pages_def)
  then have "pte_ppn sv39 (build_pte sv39 flags x) = x" by (rule pte_parts(1) [OF _ k(3)])
  ultimately show "x \<in> mapped_pages fr r" unfolding mapped_pages_def by (metis (mono_tags, lifting) mem_Collect_eq)
qed

section \<open>Between two areas\<close>

text \<open>
  Page \<^verbatim>\<open>v\<close> of the child is a copy of page \<^verbatim>\<open>v\<close> of the parent: the same flags, now owned, and the same
  contents, in a page of the set \<^verbatim>\<open>F\<close>.
\<close>

definition page_copied ::
    "usize set \<Rightarrow> (usize \<Rightarrow> u64 list) \<Rightarrow> usize \<Rightarrow> (usize \<Rightarrow> u64 list) \<Rightarrow> usize \<Rightarrow> vpn \<Rightarrow> bool" where
  "page_copied F fr rp fr1 r v \<longleftrightarrow>
     (\<exists>p q. pt_lookup fr rp v = Some p \<and> pt_lookup fr1 r v = Some q \<and>
        pte_flags sv39 q = pte_flags sv39 p OR OWNED \<and>
        fr1 (pte_ppn sv39 q) = fr (pte_ppn sv39 p) \<and> pte_ppn sv39 q \<in> F)"

text \<open>What holds before each of the areas \<^verbatim>\<open>as\<close> that are still to be copied.\<close>

definition clonable ::
    "('h \<Rightarrow> usize set) \<Rightarrow> 'h phys \<Rightarrow> sv39_manager address_space \<Rightarrow> sv39_manager address_space \<Rightarrow>
     (vpn \<times> vpn) list \<Rightarrow> bool" where
  "clonable free ph sp new as \<longleftrightarrow>
     (let rp = page_of (page_manager sp); r = page_of (page_manager new) in
      tables_ok OWNED (free (heap ph)) (frames ph) rp \<and>
      (tree_pages (frames ph) rp \<union> mapped_pages (frames ph) rp) \<inter> (free (heap ph) \<union> tree_pages (frames ph) r) = {} \<and>
      space_ok free ph new \<and>
      (\<forall>a \<in> set as. (\<exists>k b flags. snd a = fst a + of_nat k \<and> backed (pt_lookup (frames ph) rp) (fst a) k b flags) \<and>
         (\<forall>v \<in> area_pages a. pt_lookup (frames ph) r v = None)) \<and>
      sorted_wrt (\<lambda>a c. area_pages a \<inter> area_pages c = {}) (areas new @ as))"

lemma area_page_copied:
  assumes cp: "area_copied free avail r ph ph1 n k b flags z" and bk: "backed (pt_lookup (frames ph) rp) n k b flags"
    and v: "v \<in> area_pages (n, n + of_nat k)"
  shows "\<exists>p q. pt_lookup (frames ph) rp v = Some p \<and> pt_lookup (frames ph1) r v = Some q \<and>
     pte_flags sv39 q = pte_flags sv39 p OR OWNED \<and> frames ph1 (pte_ppn sv39 q) = frames ph (pte_ppn sv39 p) \<and>
     pte_ppn sv39 q \<in> block_pages z k"
proof -
  have k: "k > 0" "unat n + k \<le> 2 ^ 27" "unat b + k \<le> 2 ^ 26" "meta_is_valid flags" "flags AND ppn_mask sv39 = 0"
    "unat z + k \<le> 2 ^ 26"
    using bk cp unfolding backed_def area_copied_def by blast+
  have vr: "v \<in> block_pages n k" using v area_pages_iff [OF k(2)] by (simp add: block_pages_def)
  have zs: "z + (v - n) \<in> block_pages z k" and bs: "b + (v - n) \<in> block_pages b k"
    using block_shift [OF vr] k(3,6) by auto
  have bd: "unat (z + (v - n)) < 2 ^ 44" "unat (b + (v - n)) < 2 ^ 44"
    using zs bs k(3,6) by (auto simp: block_pages_def)
  note pz = pte_parts [OF bd(1) owned_flags(2) [OF k(4,5)]] and pb = pte_parts [OF bd(2) k(5)]
  have "pt_lookup (frames ph1) r v = Some (build_pte sv39 (flags OR OWNED) (z + (v - n)))"
    using cp vr k(2) unfolding area_copied_def by (auto simp: mapped_def block_pages_def)
  moreover have "pt_lookup (frames ph) rp v = Some (build_pte sv39 flags (b + (v - n)))"
    using bk vr unfolding backed_def by (auto simp: block_pages_def)
  moreover have "frames ph1 (z + (v - n)) = frames ph (b + (v - n))"
    using cp zs unfolding area_copied_def by simp
  ultimately show ?thesis using pz pb zs by simp
qed

text \<open>What has been copied stays as it is while later areas are copied.\<close>

lemma page_copied_later:
  assumes "pt_lookup fr rp v = Some p" "pt_lookup fr1 r v = Some q" "pte_flags sv39 q = pte_flags sv39 p OR OWNED"
    and "fr1 (pte_ppn sv39 q) = fr (pte_ppn sv39 p)" "pte_ppn sv39 q \<in> F"
    and "pt_lookup fr2 r v = pt_lookup fr1 r v" "fr2 (pte_ppn sv39 q) = fr1 (pte_ppn sv39 q)"
  shows "page_copied F fr rp fr2 r v"
  using assms unfolding page_copied_def by auto

lemma page_copied_from:
  assumes "page_copied F0 fr0 rp fr1 r v" "pt_lookup fr0 rp = pt_lookup fr rp" "F0 \<subseteq> F" "unat v < 2 ^ 27"
    and "\<And>x. x \<in> mapped_pages fr rp \<Longrightarrow> fr0 x = fr x"
  shows "page_copied F fr rp fr1 r v"
proof -
  from assms(1,2) obtain p q where
    pq: "pt_lookup fr rp v = Some p" "pt_lookup fr1 r v = Some q" "pte_flags sv39 q = pte_flags sv39 p OR OWNED"
      "fr1 (pte_ppn sv39 q) = fr0 (pte_ppn sv39 p)" "pte_ppn sv39 q \<in> F0"
    unfolding page_copied_def by auto
  have "pte_ppn sv39 p \<in> mapped_pages fr rp" using pq(1) assms(4) unfolding mapped_pages_def by blast
  with pq assms(3,5) show ?thesis unfolding page_copied_def by auto
qed

lemma mapped_pages_lookup: "pt_lookup fr r = pt_lookup fr' r' \<Longrightarrow> mapped_pages fr r = mapped_pages fr' r'"
  by (simp add: mapped_pages_def)

text \<open>The parent while the child's tables grow.\<close>

lemma parent_kept:
  assumes ok: "tables_ok own (free (heap ph)) (frames ph) rp"
    and out: "(tree_pages (frames ph) rp \<union> mapped_pages (frames ph) rp) \<inter> (free (heap ph) \<union> tree_pages (frames ph) r) = {}"
    and g: "grows free r ph ph1"
  shows "tables_ok own (free (heap ph1)) (frames ph1) rp" "pt_lookup (frames ph1) rp = pt_lookup (frames ph) rp"
    "(tree_pages (frames ph1) rp \<union> mapped_pages (frames ph1) rp) \<inter> (free (heap ph1) \<union> tree_pages (frames ph1) r) = {}"
    "mapped_pages (frames ph1) rp = mapped_pages (frames ph) rp"
    "x \<in> mapped_pages (frames ph) rp \<Longrightarrow> frames ph1 x = frames ph x"
proof -
  have same: "frames ph1 x = frames ph x" if "x \<in> tree_pages (frames ph) rp \<union> mapped_pages (frames ph) rp" for x
    using g out that unfolding grows_def by blast
  have sub: "free (heap ph1) \<subseteq> free (heap ph)" using g unfolding grows_def by blast
  note t = tree_unchanged [OF ok same sub, simplified]
  show "tables_ok own (free (heap ph1)) (frames ph1) rp" "pt_lookup (frames ph1) rp = pt_lookup (frames ph) rp"
    by (rule t)+
  then show mp: "mapped_pages (frames ph1) rp = mapped_pages (frames ph) rp" by (intro mapped_pages_lookup)
  show "(tree_pages (frames ph1) rp \<union> mapped_pages (frames ph1) rp) \<inter> (free (heap ph1) \<union> tree_pages (frames ph1) r) = {}"
    using out g unfolding mp t(4) grows_def by blast
  show "x \<in> mapped_pages (frames ph) rp \<Longrightarrow> frames ph1 x = frames ph x" using same by blast
qed

text \<open>The child with one area more.\<close>

lemma mapped_block:
  assumes "unat n + k \<le> 2 ^ 27" "unat z + k \<le> 2 ^ 26" "flags AND ppn_mask sv39 = 0"
    and "\<And>v. unat v < 2 ^ 27 \<Longrightarrow> pt_lookup fr1 r v = mapped n k z flags (pt_lookup fr r) v"
  shows "mapped_pages fr1 r \<subseteq> mapped_pages fr r \<union> block_pages z k"
proof
  fix x
  assume "x \<in> mapped_pages fr1 r"
  then obtain v p where v: "unat v < 2 ^ 27" "pt_lookup fr1 r v = Some p" "x = pte_ppn sv39 p"
    unfolding mapped_pages_def by blast
  show "x \<in> mapped_pages fr r \<union> block_pages z k"
  proof (cases "v \<in> block_pages n k")
    case True
    then have p: "p = build_pte sv39 flags (z + (v - n))"
      using assms(4) [OF v(1)] v(2) by (simp add: mapped_def block_pages_def)
    have zs: "z + (v - n) \<in> block_pages z k" using block_shift [OF True, of z] assms(2) by simp
    then have "unat (z + (v - n)) < 2 ^ 44" using assms(2) by (auto simp: block_pages_def)
    with zs show ?thesis by (simp add: v(3) p pte_parts(1) [OF _ assms(3)])
  next
    case False
    then have "pt_lookup fr r v = Some p"
      using assms(4) [OF v(1)] v(2) by (auto simp: mapped_def block_pages_def)
    with v show ?thesis unfolding mapped_pages_def by blast
  qed
qed

lemma backed_cong:
  assumes "backed L n k b flags" "\<And>v. v \<in> area_pages (n, n + of_nat k) \<Longrightarrow> L' v = L v"
  shows "backed L' n k b flags"
proof -
  have "unat n + k \<le> 2 ^ 27" using assms(1) unfolding backed_def by blast
  from area_pages_iff [OF this] assms show ?thesis unfolding backed_def by simp
qed

lemma child_ok:
  assumes ok: "space_ok free ph new" "page_of (page_manager new) = r"
    and cp: "area_copied free avail r ph ph1 n k b flags z" and bk: "backed L n k b flags"
    and dis: "sorted_wrt (\<lambda>a c. area_pages a \<inter> area_pages c = {}) (areas new @ [(n, n + of_nat k)])"
  shows "space_ok free ph1 (new\<lparr>areas := areas new @ [(n, n + of_nat k)]\<rparr>)"
proof -
  let ?L = "pt_lookup (frames ph) r" and ?L1 = "pt_lookup (frames ph1) r"
  have k: "k > 0" "unat n + k \<le> 2 ^ 27" "meta_is_valid flags" "flags AND ppn_mask sv39 = 0" "unat z + k \<le> 2 ^ 26"
    using bk cp unfolding backed_def area_copied_def by blast+
  note fl = owned_flags [OF k(3,4)]
  have lk: "?L1 v = mapped n k z (flags OR OWNED) ?L v" if "unat v < 2 ^ 27" for v
    using cp that unfolding area_copied_def by blast
  have old: "backed ?L1 m j c f" if "backed ?L m j c f" "area_pages (m, m + of_nat j) \<inter> area_pages (n, n + of_nat k) = {}" for m j c f
  proof (rule backed_cong [OF that(1)])
    fix v
    assume v: "v \<in> area_pages (m, m + of_nat j)"
    have "unat m + j \<le> 2 ^ 27" using that(1) unfolding backed_def by blast
    with v have "unat v < 2 ^ 27" by (auto simp: area_pages_iff)
    moreover have "v \<notin> area_pages (n, n + of_nat k)" using v that(2) by blast
    ultimately show "?L1 v = ?L v" using lk by (auto simp: mapped_def area_pages_iff [OF k(2)])
  qed
  have new: "backed ?L1 n k z (flags OR OWNED)" using k fl lk unfolding backed_def by (auto simp: mapped_def)
  have "mapped_pages (frames ph1) r \<inter> free (heap ph1) = {}"
    using mapped_block [OF k(2,5) fl(2) lk] ok cp unfolding space_ok_def area_copied_def grows_def by blast
  moreover have "\<forall>a \<in> set (areas new). \<exists>k b flags. snd a = fst a + of_nat k \<and> backed ?L1 (fst a) k b flags"
  proof
    fix a
    assume a: "a \<in> set (areas new)"
    with ok obtain j c f where j: "snd a = fst a + of_nat j" "backed ?L (fst a) j c f"
      unfolding space_ok_def by blast
    moreover have "area_pages a \<inter> area_pages (n, n + of_nat k) = {}" using a dis by (simp add: sorted_wrt_append)
    ultimately show "\<exists>k b flags. snd a = fst a + of_nat k \<and> backed ?L1 (fst a) k b flags"
      using old [OF j(2)] by (metis prod.collapse)
  qed
  ultimately show ?thesis
    using cp dis new ok(2) unfolding space_ok_def area_copied_def by (auto simp: sorted_wrt_append)
qed

lemma clonable_step:
  assumes pre: "clonable free ph sp new ((n, n + of_nat k) # as)" and r: "page_of (page_manager new) = r"
    and bk: "backed (pt_lookup (frames ph) (page_of (page_manager sp))) n k b flags"
    and cp: "area_copied free avail r ph ph1 n k b flags z"
  shows "clonable free ph1 sp (new\<lparr>areas := areas new @ [(n, n + of_nat k)]\<rparr>) as"
proof -
  have g: "grows free r ph ph1" using cp unfolding area_copied_def by blast
  have pk: "tables_ok OWNED (free (heap ph)) (frames ph) (page_of (page_manager sp))"
    "(tree_pages (frames ph) (page_of (page_manager sp)) \<union> mapped_pages (frames ph) (page_of (page_manager sp))) \<inter>
      (free (heap ph) \<union> tree_pages (frames ph) r) = {}"
    and ok: "space_ok free ph new"
    and sw: "sorted_wrt (\<lambda>a c. area_pages a \<inter> area_pages c = {}) (areas new @ (n, n + of_nat k) # as)"
    and nn: "\<forall>a \<in> set as. \<forall>v \<in> area_pages a. pt_lookup (frames ph) r v = None"
    and bs: "\<forall>a \<in> set as. \<exists>k b flags. snd a = fst a + of_nat k \<and>
      backed (pt_lookup (frames ph) (page_of (page_manager sp))) (fst a) k b flags"
    using pre r unfolding clonable_def by (auto simp: Let_def)
  note kept = parent_kept [OF pk g]
  have k: "unat n + k \<le> 2 ^ 27" using bk unfolding backed_def by blast
  have "sorted_wrt (\<lambda>a c. area_pages a \<inter> area_pages c = {}) (areas new @ [(n, n + of_nat k)])"
    using sw by (simp add: sorted_wrt_append)
  note child = child_ok [OF ok r cp bk this]
  have "pt_lookup (frames ph1) r v = None" if a: "a \<in> set as" and v: "v \<in> area_pages a" for a v
  proof -
    obtain j c f where j: "snd a = fst a + of_nat j" "unat (fst a) + j \<le> 2 ^ 27"
      using bs a unfolding backed_def by blast
    then have "unat v < 2 ^ 27" using v area_pages_iff [OF j(2), of v] by (metis order_less_le_trans prod.collapse)
    moreover have "v \<notin> area_pages (n, n + of_nat k)" using sw a v by (auto simp: sorted_wrt_append)
    ultimately show ?thesis
      using cp nn a v unfolding area_copied_def by (auto simp: mapped_def area_pages_iff [OF k])
  qed
  with kept child bs sw r show ?thesis
    unfolding clonable_def by (simp add: Let_def)
qed

lemma clonable_ConsD:
  assumes "clonable free ph sp new (a # as)"
  shows "tables_ok OWNED (free (heap ph)) (frames ph) (page_of (page_manager sp))"
    "(tree_pages (frames ph) (page_of (page_manager sp)) \<union> mapped_pages (frames ph) (page_of (page_manager sp))) \<inter>
      (free (heap ph) \<union> tree_pages (frames ph) (page_of (page_manager new))) = {}"
    "tables_ok OWNED (free (heap ph)) (frames ph) (page_of (page_manager new))"
    "\<exists>k b flags. snd a = fst a + of_nat k \<and>
      backed (pt_lookup (frames ph) (page_of (page_manager sp))) (fst a) k b flags"
    "v \<in> area_pages a \<Longrightarrow> pt_lookup (frames ph) (page_of (page_manager new)) v = None"
    "c \<in> set as \<Longrightarrow> area_pages a \<inter> area_pages c = {}"
  using assms unfolding clonable_def space_ok_def by (simp_all add: Let_def sorted_wrt_append)

text \<open>The copy of the first area and the copies of the others together.\<close>

lemma copies_combine:
  assumes par: "tables_ok OWNED (free (heap ph)) (frames ph) rp"
    "(tree_pages (frames ph) rp \<union> mapped_pages (frames ph) rp) \<inter> (free (heap ph) \<union> tree_pages (frames ph) r) = {}"
    and bk: "backed (pt_lookup (frames ph) rp) n k b flags" and cp: "area_copied free avail r ph ph1 n k b flags z"
    and bs: "\<forall>c \<in> set as. \<forall>v \<in> area_pages c. unat v < 2 ^ 27"
    and dis: "\<forall>c \<in> set as. area_pages (n, n + of_nat k) \<inter> area_pages c = {}"
    and g2: "grows free r ph1 ph2"
    and c2: "\<forall>c \<in> set as. \<forall>v \<in> area_pages c. page_copied (free (heap ph1)) (frames ph1) rp (frames ph2) r v"
    and o2: "\<forall>v. unat v < 2 ^ 27 \<longrightarrow> (\<forall>c \<in> set as. v \<notin> area_pages c) \<longrightarrow>
      pt_lookup (frames ph2) r v = pt_lookup (frames ph1) r v"
  shows "\<forall>c \<in> set ((n, n + of_nat k) # as). \<forall>v \<in> area_pages c. page_copied (free (heap ph)) (frames ph) rp (frames ph2) r v"
    and "\<forall>v. unat v < 2 ^ 27 \<longrightarrow> (\<forall>c \<in> set ((n, n + of_nat k) # as). v \<notin> area_pages c) \<longrightarrow>
      pt_lookup (frames ph2) r v = pt_lookup (frames ph) r v"
proof -
  have g: "grows free r ph ph1" using cp unfolding area_copied_def by blast
  have k: "unat n + k \<le> 2 ^ 27" using bk unfolding backed_def by blast
  note kept = parent_kept [OF par g]
  have first: "page_copied (free (heap ph)) (frames ph) rp (frames ph2) r v" if v: "v \<in> area_pages (n, n + of_nat k)" for v
  proof -
    from area_page_copied [OF cp bk v] obtain p q where
      pq: "pt_lookup (frames ph) rp v = Some p" "pt_lookup (frames ph1) r v = Some q"
        "pte_flags sv39 q = pte_flags sv39 p OR OWNED" "frames ph1 (pte_ppn sv39 q) = frames ph (pte_ppn sv39 p)"
        "pte_ppn sv39 q \<in> block_pages z k" by blast
    have q: "pte_ppn sv39 q \<in> free (heap ph)" "pte_ppn sv39 q \<notin> tree_pages (frames ph1) r \<union> free (heap ph1)"
      using pq(5) cp unfolding area_copied_def by blast+
    have "unat v < 2 ^ 27" using v k unfolding area_pages_iff [OF k] by simp
    with o2 dis v have "pt_lookup (frames ph2) r v = pt_lookup (frames ph1) r v" by blast
    moreover have "frames ph2 (pte_ppn sv39 q) = frames ph1 (pte_ppn sv39 q)"
      using q(2) g2 unfolding grows_def by blast
    ultimately show ?thesis by (rule page_copied_later [OF pq(1-4) q(1)])
  qed
  have later: "page_copied (free (heap ph)) (frames ph) rp (frames ph2) r v" if c: "c \<in> set as" "v \<in> area_pages c" for c v
  proof -
    have "page_copied (free (heap ph1)) (frames ph1) rp (frames ph2) r v" "unat v < 2 ^ 27" using c2 bs c by blast+
    moreover have "free (heap ph1) \<subseteq> free (heap ph)" using g unfolding grows_def by blast
    ultimately show ?thesis using page_copied_from [OF _ kept(2)] kept(5) by blast
  qed
  show "\<forall>c \<in> set ((n, n + of_nat k) # as). \<forall>v \<in> area_pages c. page_copied (free (heap ph)) (frames ph) rp (frames ph2) r v"
    using first later by auto
  show "\<forall>v. unat v < 2 ^ 27 \<longrightarrow> (\<forall>c \<in> set ((n, n + of_nat k) # as). v \<notin> area_pages c) \<longrightarrow>
      pt_lookup (frames ph2) r v = pt_lookup (frames ph) r v"
    using o2 cp unfolding area_copied_def by (auto simp: mapped_def area_pages_iff [OF k])
qed

lemma clonable_bounds:
  assumes "clonable free ph sp new as" "c \<in> set as" "v \<in> area_pages c"
  shows "unat v < 2 ^ 27"
proof -
  obtain j where j: "snd c = fst c + of_nat j" "unat (fst c) + j \<le> 2 ^ 27"
    using assms(1,2) unfolding clonable_def backed_def Let_def by blast
  have "v \<in> area_pages (fst c, fst c + of_nat j)" using assms(3) j(1) by (metis prod.collapse)
  then show ?thesis using j(2) by (simp add: area_pages_iff)
qed

locale sv39_clone = sv39_space +
  assumes blocks: "block_laws bd free avail"
begin

lemma allocate_block:
  assumes "0 < k" "k \<le> 2 ^ 27" "bd (push_bit 12 (of_nat k)) 4096 (heap ph) = Some (p, h1)"
  shows "\<exists>z. p = push_bit 12 z \<and> unat z + k \<le> 2 ^ 26 \<and> block_pages z k \<subseteq> free (heap ph) \<and>
     free h1 \<subseteq> free (heap ph) - block_pages z k \<and> avail (heap ph) \<le> avail h1 + 2 * k \<and>
     sv39_allocate bd mgr (of_nat k) flags ph = Inr (push_bit 12 z, flags OR OWNED,
       ph\<lparr>frames := (\<lambda>x. if x \<in> block_pages z k then zero_page else frames ph x), heap := h1\<rparr>)"
proof -
  from blocks assms obtain z where
    z: "p = push_bit 12 z" "0 < z" "unat z + k \<le> 2 ^ 26" "block_pages z k \<subseteq> free (heap ph)"
      "free h1 \<subseteq> free (heap ph) - block_pages z k" "avail (heap ph) \<le> avail h1 + 2 * k"
    unfolding block_laws_def by blast
  have zb: "unat z < 2 ^ 26" using z(3) assms(1) by linarith
  have pz: "page_of (push_bit 12 z) = z" by (rule sv39_p_to_v_eq(2) [OF zb])
  then have "push_bit 12 z \<noteq> 0" using z(2) by (auto simp: page_of_def)
  then have "sv39_allocate bd mgr (of_nat k) flags ph = Inr (push_bit 12 z, flags OR OWNED,
       ph\<lparr>frames := (\<lambda>x. if x \<in> block_pages z k then zero_page else frames ph x), heap := h1\<rparr>)"
    using assms(3) z(1) pz
    by (simp add: sv39_allocate_def page_alloc_def global_alloc_def zero_pages_def nonnull_def in_pages_block [OF z(3)]
        cong: if_cong)
  with z show ?thesis by blast
qed

lemma map_copied:
  fixes new :: "sv39_manager address_space"
  assumes r: "page_of (page_manager new) = r" and ok: "tables_ok OWNED (free (heap ph)) (frames ph) r"
    and bk: "backed L n k b flags" and src: "block_pages b k \<inter> free (heap ph) = {}"
    and none: "\<And>v. unat n \<le> unat v \<Longrightarrow> unat v < unat n + k \<Longrightarrow> pt_lookup (frames ph) r v = None"
    and av: "avail (heap ph) \<ge> 4 * k"
    and z: "unat z + k \<le> 2 ^ 26" "block_pages z k \<subseteq> free (heap ph)" "free h1 \<subseteq> free (heap ph) - block_pages z k"
      "avail (heap ph) \<le> avail h1 + 2 * k"
    and ph2: "heap ph2 = h1"
      "\<And>x. frames ph2 x = (if x \<in> block_pages z k then frames ph (b + (x - z)) else frames ph x)"
  shows "\<exists>ph1. map_extern sv39 (sv39_manage bd) n (n + of_nat k) z (flags OR OWNED) new ph2 =
      Some (Inr (new\<lparr>areas := areas new @ [(n, n + of_nat k)]\<rparr>, ph1)) \<and> area_copied free avail r ph ph1 n k b flags z"
proof -
  have tf: "tree_pages (frames ph) r \<inter> free (heap ph) = {}" by (rule tree_not_free [OF ok])
  have same: "frames ph2 x = frames ph x" if "x \<in> tree_pages (frames ph) r" for x
    using that tf z(2) by (auto simp: ph2(2))
  have sub: "free (heap ph2) \<subseteq> free (heap ph)" using z(3) by (auto simp: ph2(1))
  note t = tree_unchanged [OF ok same sub]
  have k: "k > 0" "unat n + k \<le> 2 ^ 27" "meta_is_valid flags" "flags AND ppn_mask sv39 = 0"
    using bk unfolding backed_def by blast+
  note fl = owned_flags [OF k(3,4)]
  note few = tables_for_le [OF k(1), of "unat n"]
  have av2: "avail (heap ph2) \<ge> tables_for (unat n) k" using av z(4) few by (simp add: ph2(1))
  from pm.map_extern_maps [OF t(1) _ k(2,1) av2 fl, of new z] r none obtain ph1 where
    m: "map_extern sv39 (sv39_manage bd) n (n + of_nat k) z (flags OR OWNED) new ph2 =
        Some (Inr (new\<lparr>areas := areas new @ [(n, n + of_nat k)]\<rparr>, ph1))"
      "tables_ok OWNED (free (heap ph1)) (frames ph1) r" "grows free r ph2 ph1"
      "avail (heap ph2) \<le> avail (heap ph1) + tables_for (unat n) k"
      "\<forall>v. unat v < 2 ^ 27 \<longrightarrow> pt_lookup (frames ph1) r v = mapped n k z (flags OR OWNED) (pt_lookup (frames ph2) r) v"
    by (auto simp: t(3))
  have out: "x \<notin> tree_pages (frames ph2) r \<union> free (heap ph2)" if "x \<in> block_pages z k" for x
    using that tf z(2,3) by (auto simp: t(4) ph2(1))
  have "grows free r ph ph2"
    unfolding grows_def using sub z(2) by (auto simp: t(4) ph2(2))
  with m(3) have g: "grows free r ph ph1" by (rule grows_trans [rotated])
  have "block_pages z k \<subseteq> free (heap ph) - free (heap ph1) - tree_pages (frames ph1) r"
    using out z(2) m(3) unfolding grows_def by blast
  moreover have "frames ph1 x = frames ph (b + (x - z))" if "x \<in> block_pages z k" for x
    using out [OF that] m(3) that unfolding grows_def by (simp add: ph2(2))
  moreover have "avail (heap ph) \<le> avail (heap ph1) + 4 * k" using m(4) z(4) few by (simp add: ph2(1))
  ultimately have "area_copied free avail r ph ph1 n k b flags z"
    unfolding area_copied_def using m(2,5) g z(1) by (simp add: t(3))
  with m(1) show ?thesis by blast
qed

lemma clone_area_result:
  fixes sp new :: "sv39_manager address_space"
  assumes rp: "page_of (page_manager sp) = rp" "tables_ok OWNED (free (heap ph)) (frames ph) rp"
    "mapped_pages (frames ph) rp \<inter> free (heap ph) = {}"
    and rc: "page_of (page_manager new) = r" "tables_ok OWNED (free (heap ph)) (frames ph) r"
    and bk: "backed (pt_lookup (frames ph) rp) n k b flags"
    and none: "\<And>v. unat n \<le> unat v \<Longrightarrow> unat v < unat n + k \<Longrightarrow> pt_lookup (frames ph) r v = None"
    and av: "avail (heap ph) \<ge> 4 * k"
  shows "if bd (push_bit 12 (of_nat k)) 4096 (heap ph) = None
    then clone_area sv39 (sv39_manage bd) sp (n, n + of_nat k) (new, ph) = Some (Inl Explicit_Panic)
    else \<exists>z ph1. clone_area sv39 (sv39_manage bd) sp (n, n + of_nat k) (new, ph) =
        Some (Inr (new\<lparr>areas := areas new @ [(n, n + of_nat k)]\<rparr>, ph1)) \<and> area_copied free avail r ph ph1 n k b flags z"
proof -
  have k: "k > 0" "unat n + k \<le> 2 ^ 27" "unat b + k \<le> 2 ^ 26" "meta_is_valid flags" "flags AND ppn_mask sv39 = 0"
    and lk: "pt_lookup (frames ph) rp n = Some (build_pte sv39 flags b)"
    using bk unfolding backed_def by auto
  have bb: "unat b < 2 ^ 26" "unat b < 2 ^ 44" using k(1,3) by simp_all
  note pt = pte_parts [OF bb(2) k(5)]
  have n: "unat n < 2 ^ 27" using k(1,2) by simp
  have visit: "space_visit sv39 (sv39_manage bd) sp n ph = Some (Inr (Some (build_pte sv39 flags b)))"
    using pm.space_visit_lookup [OF rp(2) _ n, of sp] rp(1) lk by simp
  have uk: "unat (of_nat k :: usize) = k" using k(2) by (simp add: unsigned_of_nat take_bit_nat_eq_self)
  have nk: "\<not> n + of_nat k < n" using k(2) by (simp add: word_less_nat_alt unat_word_ariths uk)
  have src: "block_pages b k \<inter> free (heap ph) = {}" using backed_mapped [OF bk] rp(3) by blast
  show ?thesis
  proof (cases "bd (push_bit 12 (of_nat k)) 4096 (heap ph)")
    case None
    then show ?thesis
      using visit k(4) nk pt
      by (simp add: clone_area_def sv39_allocate_def page_alloc_def global_alloc_def)
  next
    case (Some s)
    obtain p h1 where "s = (p, h1)" by force
    with Some have sm: "bd (push_bit 12 (of_nat k)) 4096 (heap ph) = Some (p, h1)" by simp
    have "k \<le> 2 ^ 27" using k(2) by simp
    from allocate_block [OF k(1) this sm, of "page_manager new" flags] obtain z where
      z: "unat z + k \<le> 2 ^ 26" "block_pages z k \<subseteq> free (heap ph)" "free h1 \<subseteq> free (heap ph) - block_pages z k"
        "avail (heap ph) \<le> avail h1 + 2 * k"
      and al: "sv39_allocate bd (page_manager new) (of_nat k) flags ph = Inr (push_bit 12 z, flags OR OWNED,
        ph\<lparr>frames := (\<lambda>x. if x \<in> block_pages z k then zero_page else frames ph x), heap := h1\<rparr>)"
      by blast
    have zb: "unat z < 2 ^ 26" using z(1) k(1) by linarith
    define ph2 where "ph2 = copy_pages b z (of_nat k)
      (ph\<lparr>frames := (\<lambda>x. if x \<in> block_pages z k then zero_page else frames ph x), heap := h1\<rparr>)"
    have far: "b + (x - z) \<notin> block_pages z k" if "x \<in> block_pages z k" for x
      using block_shift [OF that, of b] k(3) src z(2) by auto
    have ph2: "heap ph2 = h1"
      "\<And>x. frames ph2 x = (if x \<in> block_pages z k then frames ph (b + (x - z)) else frames ph x)"
      by (auto simp: ph2_def copy_pages_def in_pages_block [OF z(1)] far)
    note m = map_copied [OF rc bk src none av z ph2]
    have "clone_area sv39 (sv39_manage bd) sp (n, n + of_nat k) (new, ph) =
        map_extern sv39 (sv39_manage bd) n (n + of_nat k) z (flags OR OWNED) new ph2"
      using visit k(4) nk pt al
      by (simp add: clone_area_def sv39_p_to_v_eq [OF zb] sv39_p_to_v_eq [OF bb(1)] ph2_def Let_def)
    with m Some show ?thesis by auto
  qed
qed

lemma clone_areas_result:
  fixes sp new :: "sv39_manager address_space"
  defines "rp \<equiv> page_of (page_manager sp)" and "r \<equiv> page_of (page_manager new)"
  assumes "clonable free ph sp new as" "avail (heap ph) \<ge> 4 * pages_of_areas as"
  shows "clone_areas sv39 (sv39_manage bd) sp as (new, ph) = Some (Inl Explicit_Panic) \<and>
      refuses bd avail (heap ph) (4 * pages_of_areas as) as \<or>
    (\<exists>ph1. clone_areas sv39 (sv39_manage bd) sp as (new, ph) = Some (Inr (new\<lparr>areas := areas new @ as\<rparr>, ph1)) \<and>
       grows free r ph ph1 \<and> clonable free ph1 sp (new\<lparr>areas := areas new @ as\<rparr>) [] \<and>
       (\<forall>a \<in> set as. \<forall>v \<in> area_pages a. page_copied (free (heap ph)) (frames ph) rp (frames ph1) r v) \<and>
       (\<forall>v. unat v < 2 ^ 27 \<longrightarrow> (\<forall>a \<in> set as. v \<notin> area_pages a) \<longrightarrow>
          pt_lookup (frames ph1) r v = pt_lookup (frames ph) r v))"
  using assms(3-) unfolding r_def
proof (induction as arbitrary: new ph)
  case Nil
  then show ?case by simp
next
  case (Cons a as)
  define r where "r = page_of (page_manager new)"
  note pre = clonable_ConsD [OF Cons.prems(1), folded r_def rp_def]
  from pre(4) obtain n k b flags where a: "a = (n, n + of_nat k)" and bk: "backed (pt_lookup (frames ph) rp) n k b flags"
    by (metis prod.collapse)
  have k: "unat n + k \<le> 2 ^ 27" using bk unfolding backed_def by blast
  have none: "\<And>v. unat n \<le> unat v \<Longrightarrow> unat v < unat n + k \<Longrightarrow> pt_lookup (frames ph) r v = None"
    using pre(5) area_pages_iff [OF k] by (simp add: a)
  have mf: "mapped_pages (frames ph) rp \<inter> free (heap ph) = {}" using pre(2) by blast
  have uk: "unat (of_nat k :: usize) = k" using k by (simp add: unsigned_of_nat take_bit_nat_eq_self)
  have av: "avail (heap ph) \<ge> 4 * k" "avail (heap ph) \<ge> 4 * k + 4 * pages_of_areas as"
    using Cons.prems(2) by (simp_all add: pages_of_areas_def a uk)
  let ?new = "new\<lparr>areas := areas new @ [a]\<rparr>"
  note res = clone_area_result [OF rp_def [symmetric, THEN meta_eq_to_obj_eq] pre(1) mf r_def [symmetric] pre(3) bk none av(1), folded a]
  show ?case
  proof (cases "bd (push_bit 12 (of_nat k)) 4096 (heap ph) = None")
    case True
    moreover have "refuses bd avail (heap ph) (4 * pages_of_areas (a # as)) (a # as)"
      unfolding refuses_def using True by (intro exI [of _ "heap ph"] bexI [of _ a]) (simp_all add: a)
    ultimately show ?thesis using res by simp
  next
    case False
    with res obtain z ph1 where
      step: "clone_area sv39 (sv39_manage bd) sp a (new, ph) = Some (Inr (?new, ph1))"
      and cp: "area_copied free avail r ph ph1 n k b flags z" by auto
    have g: "grows free r ph ph1" using cp unfolding area_copied_def by blast
    have pre1: "clonable free ph1 sp ?new as"
      using clonable_step [OF Cons.prems(1) [unfolded a] r_def [symmetric] bk [unfolded rp_def] cp, folded a] .
    have av1: "avail (heap ph1) \<ge> 4 * pages_of_areas as" using av(2) cp unfolding area_copied_def by linarith
    have rn: "page_of (page_manager ?new) = r" by (simp add: r_def)
    show ?thesis
    proof (cases "clone_areas sv39 (sv39_manage bd) sp as (?new, ph1) = Some (Inl Explicit_Panic)")
      case True
      with Cons.IH [OF pre1 av1] have "refuses bd avail (heap ph1) (4 * pages_of_areas as) as" by auto
      moreover have "avail (heap ph) \<le> avail (heap ph1) + 4 * k" using cp unfolding area_copied_def by blast
      ultimately have "refuses bd avail (heap ph) (4 * pages_of_areas as + 4 * k) (a # as)"
        by (rule refuses_mono) auto
      then have "refuses bd avail (heap ph) (4 * pages_of_areas (a # as)) (a # as)"
        by (simp add: pages_of_areas_def a uk algebra_simps)
      with True step show ?thesis by simp
    next
      case False
      with Cons.IH [OF pre1 av1, unfolded rn] obtain ph2 where
        run: "clone_areas sv39 (sv39_manage bd) sp as (?new, ph1) = Some (Inr (new\<lparr>areas := areas new @ a # as\<rparr>, ph2))"
        and g2: "grows free r ph1 ph2" and pre2: "clonable free ph2 sp (new\<lparr>areas := areas new @ a # as\<rparr>) []"
        and c2: "\<forall>c \<in> set as. \<forall>v \<in> area_pages c. page_copied (free (heap ph1)) (frames ph1) rp (frames ph2) r v"
        and o2: "\<forall>v. unat v < 2 ^ 27 \<longrightarrow> (\<forall>c \<in> set as. v \<notin> area_pages c) \<longrightarrow>
          pt_lookup (frames ph2) r v = pt_lookup (frames ph1) r v"
        by auto
      have "\<forall>c \<in> set as. \<forall>v \<in> area_pages c. unat v < 2 ^ 27" "\<forall>c \<in> set as. area_pages (n, n + of_nat k) \<inter> area_pages c = {}"
        using clonable_bounds [OF pre1] pre(6) a by blast+
      note all = copies_combine [OF pre(1,2) bk cp this g2 c2 o2, folded a]
      from step run g2 pre2 grows_trans [OF g g2] all show ?thesis by (simp flip: r_def)
    qed
  qed
qed

text \<open>The new address space that \<^verbatim>\<open>fork\<close> copies into.\<close>

lemma new_clonable:
  assumes ok: "space_ok free ph sp" and av: "avail (heap ph) > 0"
  shows "\<exists>z h. space_new (sv39_manage bd) ph =
      Inr (\<lparr>areas = [], page_manager = push_bit 12 z\<rparr>, ph\<lparr>frames := (frames ph)(z := zero_page), heap := h\<rparr>) \<and>
     page_of (push_bit 12 z) = z \<and> z \<in> free (heap ph) \<and> free h \<subseteq> free (heap ph) \<and> avail (heap ph) \<le> Suc (avail h) \<and>
     pt_lookup ((frames ph)(z := zero_page)) z = (\<lambda>_. None) \<and>
     pt_lookup ((frames ph)(z := zero_page)) (page_of (page_manager sp)) = pt_lookup (frames ph) (page_of (page_manager sp)) \<and>
     clonable free (ph\<lparr>frames := (frames ph)(z := zero_page), heap := h\<rparr>) sp
       \<lparr>areas = [], page_manager = push_bit 12 z\<rparr> (areas sp)"
proof -
  define rp where "rp = page_of (page_manager sp)"
  from page_alloc_one [OF laws av] obtain z h where
    a: "page_alloc bd 1 ph = Inr (push_bit 12 z, ph\<lparr>frames := (frames ph)(z := zero_page), heap := h\<rparr>)"
      "z \<noteq> 0" "unat z < 2 ^ 26" "z \<in> free (heap ph)" "free h = free (heap ph) - {z}" "avail (heap ph) \<le> Suc (avail h)"
    by blast
  let ?ph1 = "ph\<lparr>frames := (frames ph)(z := zero_page), heap := h\<rparr>"
  have pz: "page_of (push_bit 12 z) = z" by (rule sv39_p_to_v_eq(2) [OF a(3)])
  then have "push_bit 12 z \<noteq> 0" using a(2) by (auto simp: page_of_def)
  then have new: "space_new (sv39_manage bd) ph = Inr (\<lparr>areas = [], page_manager = push_bit 12 z\<rparr>, ?ph1)"
    by (simp add: space_new_def sv39_new_root_def a(1) nonnull_def)
  have empty: "tables_ok OWNED (free h) (frames ?ph1) z" "pt_lookup (frames ?ph1) z v = None" for v
    using tables_ok_empty [of "frames ?ph1" z "free h"] a(3,5) by simp_all
  have tz: "tree_pages (frames ?ph1) z = {z}"
    using walk_path_empty [of "frames ?ph1" z] tree_pagesI [of "[]" "frames ?ph1" z z]
    by (auto simp: tree_pages_def split: if_splits)
  have par: "tables_ok OWNED (free (heap ph)) (frames ph) rp" "mapped_pages (frames ph) rp \<inter> free (heap ph) = {}"
    using ok unfolding space_ok_def rp_def by blast+
  have out: "x \<noteq> z" if "x \<in> tree_pages (frames ph) rp" for x
    using tree_not_free [OF par(1)] that a(4) by blast
  note t = tree_unchanged [OF par(1), of "frames ?ph1" "free h"]
  have t1: "tables_ok OWNED (free h) (frames ?ph1) rp" "pt_lookup (frames ?ph1) rp = pt_lookup (frames ph) rp"
    "tree_pages (frames ?ph1) rp = tree_pages (frames ph) rp"
    using t(1,3,4) out a(5) by auto
  have "space_ok free ?ph1 \<lparr>areas = [], page_manager = push_bit 12 z\<rparr>"
    unfolding space_ok_def mapped_pages_def using empty pz by simp
  moreover have "(tree_pages (frames ?ph1) rp \<union> mapped_pages (frames ?ph1) rp) \<inter> (free h \<union> tree_pages (frames ?ph1) z) = {}"
    unfolding tz t1(3) mapped_pages_lookup [OF t1(2)] using par(2) tree_not_free [OF par(1)] a(4,5) by blast
  ultimately have "clonable free ?ph1 sp \<lparr>areas = [], page_manager = push_bit 12 z\<rparr> (areas sp)"
    using t1 empty pz ok unfolding clonable_def space_ok_def [of _ _ sp] by (simp add: Let_def rp_def)
  with new pz a empty t1(2) show ?thesis unfolding rp_def by (intro exI [of _ z] exI [of _ h]) auto
qed

text \<open>Creating the child and copying, as \<^verbatim>\<open>fork\<close> does it.\<close>

lemma clone_new:
  fixes sp :: "sv39_manager address_space"
  defines "rp \<equiv> page_of (page_manager sp)"
    and "res \<equiv> \<lambda>ph. obind (Some (space_new (sv39_manage bd) ph)) (\<lambda>(new, ph1). cloneself sv39 (sv39_manage bd) sp new ph1)"
  assumes ok: "space_ok free ph sp" and av: "avail (heap ph) > 4 * pages_of_areas (areas sp)"
  shows "res ph = Some (Inl Explicit_Panic) \<and> refuses bd avail (heap ph) (4 * pages_of_areas (areas sp) + 1) (areas sp) \<or>
    (\<exists>child ph1. res ph = Some (Inr (child, ph1)) \<and> areas child = areas sp \<and>
       space_ok free ph1 child \<and> space_ok free ph1 sp \<and>
       (\<forall>a \<in> set (areas sp). \<forall>v \<in> area_pages a.
          page_copied (free (heap ph)) (frames ph) rp (frames ph1) (page_of (page_manager child)) v) \<and>
       (\<forall>v. unat v < 2 ^ 27 \<longrightarrow> (\<forall>a \<in> set (areas sp). v \<notin> area_pages a) \<longrightarrow>
          pt_lookup (frames ph1) (page_of (page_manager child)) v = None) \<and>
       pt_lookup (frames ph1) rp = pt_lookup (frames ph) rp \<and>
       (\<forall>x \<in> mapped_pages (frames ph) rp. frames ph1 x = frames ph x))"
proof -
  have "avail (heap ph) > 0" using av by simp
  from new_clonable [OF ok this] obtain z h where
    new: "space_new (sv39_manage bd) ph =
      Inr (\<lparr>areas = [], page_manager = push_bit 12 z\<rparr>, ph\<lparr>frames := (frames ph)(z := zero_page), heap := h\<rparr>)"
    and z: "page_of (push_bit 12 z) = z" "z \<in> free (heap ph)" "free h \<subseteq> free (heap ph)" "avail (heap ph) \<le> Suc (avail h)"
      "pt_lookup ((frames ph)(z := zero_page)) z = (\<lambda>_. None)"
      "pt_lookup ((frames ph)(z := zero_page)) rp = pt_lookup (frames ph) rp"
    and pre: "clonable free (ph\<lparr>frames := (frames ph)(z := zero_page), heap := h\<rparr>) sp
       \<lparr>areas = [], page_manager = push_bit 12 z\<rparr> (areas sp)"
    unfolding rp_def by blast
  define ph0 where "ph0 = ph\<lparr>frames := (frames ph)(z := zero_page), heap := h\<rparr>"
  define child where "child = \<lparr>areas = areas sp, page_manager = push_bit 12 z\<rparr>"
  have mp: "mapped_pages (frames ph) rp \<inter> free (heap ph) = {}" and pok: "tables_ok OWNED (free (heap ph)) (frames ph) rp"
    using ok unfolding space_ok_def rp_def by blast+
  have res: "res ph = clone_areas sv39 (sv39_manage bd) sp (areas sp) (\<lparr>areas = [], page_manager = push_bit 12 z\<rparr>, ph0)"
    by (simp add: res_def new cloneself_def ph0_def)
  have av0: "avail (heap ph0) \<ge> 4 * pages_of_areas (areas sp)" using av z(4) by (simp add: ph0_def)
  have l0: "pt_lookup (frames ph0) rp = pt_lookup (frames ph) rp" using z(6) by (simp add: ph0_def)
  have f0: "frames ph0 x = frames ph x" if "x \<in> mapped_pages (frames ph) rp" for x
    using that mp z(2) by (auto simp: ph0_def)
  note r = clone_areas_result [OF pre [folded ph0_def] av0, folded res rp_def child_def, simplified, folded child_def]
  show ?thesis
  proof (cases "res ph = Some (Inl Explicit_Panic)")
    case True
    with r have "refuses bd avail (heap ph0) (4 * pages_of_areas (areas sp)) (areas sp)" by simp
    then have "refuses bd avail (heap ph) (4 * pages_of_areas (areas sp) + 1) (areas sp)"
      by (rule refuses_mono) (use z(4) in \<open>simp_all add: ph0_def\<close>)
    with True show ?thesis by blast
  next
    case False
    with r z(1) obtain ph1 where
      run: "res ph = Some (Inr (child, ph1))" and g: "grows free z ph0 ph1" and post: "clonable free ph1 sp child []"
      and cp: "\<forall>a \<in> set (areas sp). \<forall>v \<in> area_pages a. page_copied (free (heap ph0)) (frames ph0) rp (frames ph1) z v"
      and o: "\<forall>v. unat v < 2 ^ 27 \<longrightarrow> (\<forall>a \<in> set (areas sp). v \<notin> area_pages a) \<longrightarrow>
        pt_lookup (frames ph1) z v = pt_lookup (frames ph0) z v"
      by auto
    have child: "areas child = areas sp" "page_of (page_manager child) = z" using z(1) by (simp_all add: child_def)
    have pre0: "tables_ok OWNED (free (heap ph0)) (frames ph0) rp"
      "(tree_pages (frames ph0) rp \<union> mapped_pages (frames ph0) rp) \<inter> (free (heap ph0) \<union> tree_pages (frames ph0) z) = {}"
      using pre z(1) unfolding clonable_def rp_def ph0_def by (simp_all add: Let_def)
    note kept = parent_kept [OF pre0 g]
    have m0: "mapped_pages (frames ph0) rp = mapped_pages (frames ph) rp" by (rule mapped_pages_lookup [OF l0])
    have "page_copied (free (heap ph)) (frames ph) rp (frames ph1) z v" if "a \<in> set (areas sp)" "v \<in> area_pages a" for a v
    proof -
      have "unat v < 2 ^ 27" by (rule clonable_bounds [OF pre that])
      moreover have "free (heap ph0) \<subseteq> free (heap ph)" using z(3) by (simp add: ph0_def)
      ultimately show ?thesis
        using cp that page_copied_from [OF _ l0 _ _ f0] by blast
    qed
    moreover have "space_ok free ph1 sp"
      using post ok kept(2) l0 unfolding clonable_def space_ok_def rp_def by (auto simp: Let_def)
    moreover have "space_ok free ph1 child" using post unfolding clonable_def by (simp add: Let_def)
    moreover have "frames ph1 x = frames ph x" if "x \<in> mapped_pages (frames ph) rp" for x
      using kept(5) [of x] that f0 [OF that] by (simp add: m0)
    ultimately show ?thesis
      using run child kept(2) l0 o z(5) by (intro disjI2 exI [of _ child] exI [of _ ph1]) (simp add: ph0_def)
  qed
qed

end

interpretation bump_clone: sv39_clone bump bump_free bump_avail
  by unfold_locales (rule bump_blocks)

section \<open>Properties\<close>

lemma copied_disjoint:
  assumes "\<forall>a \<in> set as. \<forall>v \<in> area_pages a. page_copied F fr rp fr1 r v"
    and "\<forall>v. unat v < 2 ^ 27 \<longrightarrow> (\<forall>a \<in> set as. v \<notin> area_pages a) \<longrightarrow> pt_lookup fr1 r v = None"
    and "mapped_pages fr rp \<inter> F = {}"
  shows "mapped_pages fr1 r \<inter> mapped_pages fr rp = {}"
proof -
  have "mapped_pages fr1 r \<subseteq> F"
  proof
    fix x
    assume "x \<in> mapped_pages fr1 r"
    then obtain v p where v: "unat v < 2 ^ 27" "pt_lookup fr1 r v = Some p" "x = pte_ppn sv39 p"
      unfolding mapped_pages_def by blast
    with assms(2) obtain a where "a \<in> set as" "v \<in> area_pages a" by (metis option.distinct(1))
    with assms(1) v show "x \<in> F" unfolding page_copied_def by fastforce
  qed
  with assms(3) show ?thesis by blast
qed

text \<open>
  C5. Copying an address space for \<^verbatim>\<open>fork\<close>. For a well-formed address space, creating a new one and \<^verbatim>\<open>cloneself\<close>
  into it either panics, because the allocator refused the block of pages for one of the areas, or returns
  a child with the same areas in which every page of an area has the flags of the parent's page, marked as
  owned, and its contents, and nothing else is mapped. The parent translates every address as before and
  no page it maps has changed, the two map no common physical page, and both are well-formed.
\<close>

theorem fork_copies_and_isolates:
  fixes sp :: "sv39_manager address_space" and ph :: "'h phys"
  assumes "buddy_laws bd free avail" "block_laws bd free avail"
    and "space_ok free ph sp" "avail (heap ph) > 4 * pages_of_areas (areas sp)"
  shows "let M = sv39_manage bd; rp = page_of (page_manager sp);
     res = obind (Some (space_new M ph)) (\<lambda>(new, ph1). cloneself sv39 M sp new ph1) in
     res = Some (Inl Explicit_Panic) \<and> refuses bd avail (heap ph) (4 * pages_of_areas (areas sp) + 1) (areas sp) \<or>
     (\<exists>child ph1. res = Some (Inr (child, ph1)) \<and> areas child = areas sp \<and>
        space_ok free ph1 child \<and> space_ok free ph1 sp \<and>
        (\<forall>a \<in> set (areas sp). \<forall>v \<in> area_pages a.
           page_copied (free (heap ph)) (frames ph) rp (frames ph1) (page_of (page_manager child)) v) \<and>
        (\<forall>v. unat v < 2 ^ 27 \<longrightarrow> (\<forall>a \<in> set (areas sp). v \<notin> area_pages a) \<longrightarrow>
           pt_lookup (frames ph1) (page_of (page_manager child)) v = None) \<and>
        (\<forall>v want. translate sv39 M sp (vaddr_new sv39 v) want ph1 = translate sv39 M sp (vaddr_new sv39 v) want ph) \<and>
        (\<forall>x \<in> mapped_pages (frames ph) rp. frames ph1 x = frames ph x) \<and>
        mapped_pages (frames ph1) (page_of (page_manager child)) \<inter> mapped_pages (frames ph) rp = {})"
proof -
  have loc: "sv39_clone bd free avail"
    by (rule sv39_clone.intro [OF sv39_space.intro [OF assms(1)] sv39_clone_axioms.intro [OF assms(2)]])
  have sp: "mapped_pages (frames ph) (page_of (page_manager sp)) \<inter> free (heap ph) = {}"
    using assms(3) unfolding space_ok_def by blast
  have tr: "translate sv39 (sv39_manage bd) sp (vaddr_new sv39 v) want ph1 =
      translate sv39 (sv39_manage bd) sp (vaddr_new sv39 v) want ph"
    if "space_ok free ph1 sp" "pt_lookup (frames ph1) (page_of (page_manager sp)) = pt_lookup (frames ph) (page_of (page_manager sp))"
    for ph1 v want
  proof -
    note t = sv39_space.sv39_translate [OF sv39_space.intro [OF assms(1)] _ refl refl, of _ _ sp v want]
    have "tables_ok OWNED (free (heap ph1)) (frames ph1) (page_of (page_manager sp))"
      "tables_ok OWNED (free (heap ph)) (frames ph) (page_of (page_manager sp))"
      using that(1) assms(3) unfolding space_ok_def by blast+
    then show ?thesis using t [of _ ph] t [of _ ph1] that(2) by simp
  qed
  show ?thesis
    using sv39_clone.clone_new [OF loc assms(3,4)] copied_disjoint [OF _ _ sp] tr
    unfolding Let_def by blast
qed

text \<open>A parent with one area of two pages, mapped into the demonstration memory.\<close>

lemma demo_parent:
  "\<exists>sp ph. map_extern sv39 (sv39_manage bump) 16 (16 + of_nat 2) 5000 0x17 demo_space demo_phys = Some (Inr (sp, ph)) \<and>
     areas sp = [(16, 18)] \<and> space_ok bump_free ph sp \<and> bump_avail (heap ph) \<ge> 996"
proof -
  have fl: "meta_is_valid 0x17" "(0x17 :: usize) AND ppn_mask sv39 = 0"
    by (simp_all add: meta_is_valid_def VALID_FLAG_def ppn_mask_def vm_mask_def push_bit_eq_mult)
  from bump.pm.map_extern_maps [OF demo_space_ok(1) _ _ _ _ fl, of demo_space 16 2 5000] demo_space_ok tables_for_le [of 2 16] obtain ph where
    m: "map_extern sv39 (sv39_manage bump) 16 (16 + of_nat 2) 5000 0x17 demo_space demo_phys =
        Some (Inr (demo_space\<lparr>areas := areas demo_space @ [(16, 16 + of_nat 2)]\<rparr>, ph))"
      "tables_ok OWNED (bump_free (heap ph)) (frames ph) 999" "grows bump_free 999 demo_phys ph"
      "bump_avail (heap demo_phys) \<le> bump_avail (heap ph) + 2 * 2"
      "\<forall>v. unat v < 2 ^ 27 \<longrightarrow> pt_lookup (frames ph) 999 v =
        mapped 16 2 5000 0x17 (pt_lookup (frames demo_phys) 999) v"
    by auto
  let ?sp = "demo_space\<lparr>areas := areas demo_space @ [(16, 16 + of_nat 2)]\<rparr>"
  have sp: "page_of (page_manager ?sp) = 999" "areas ?sp = [(16, 18)]" using demo_space_ok(3) by (simp_all add: demo_space_def)
  have lk: "pt_lookup (frames ph) 999 v = mapped 16 2 5000 0x17 (pt_lookup (frames demo_phys) 999) v" if "unat v < 2 ^ 27" for v
    using m(5) that by blast
  have bk: "backed (pt_lookup (frames ph) 999) 16 2 5000 0x17"
    unfolding backed_def using fl lk by (auto simp: mapped_def)
  then have bk': "\<exists>k. (18 :: usize) = 16 + of_nat k \<and> (\<exists>b flags. backed (pt_lookup (frames ph) 999) 16 k b flags)"
    by (intro exI [of _ 2]) auto
  have "mapped_pages (frames demo_phys) 999 = {}" by (simp add: mapped_pages_def demo_space_ok(2))
  then have "mapped_pages (frames ph) 999 \<subseteq> block_pages 5000 2"
    using mapped_block [of 16 2 5000 "0x17" "frames ph" 999 "frames demo_phys"] fl(2) lk by simp
  moreover have "bump_free (heap ph) \<subseteq> bump_free (heap demo_phys)" using m(3) unfolding grows_def by blast
  moreover have "block_pages 5000 2 \<inter> bump_free (heap demo_phys) = {}"
    by (auto simp: block_pages_def bump_free_def demo_phys_def)
  ultimately have "space_ok bump_free ph ?sp"
    unfolding space_ok_def sp using m(2) bk' by auto
  with m(1,4) sp(2) demo_space_ok(4) show ?thesis by (intro exI [of _ ?sp] exI [of _ ph]) simp
qed

theorem fork_copies_and_isolates_witness:
  "\<exists>sp ph child ph1.
     map_extern sv39 (sv39_manage bump) 16 (16 + of_nat 2) 5000 0x17 demo_space demo_phys = Some (Inr (sp, ph)) \<and>
     obind (Some (space_new (sv39_manage bump) ph)) (\<lambda>(new, ph1). cloneself sv39 (sv39_manage bump) sp new ph1) =
       Some (Inr (child, ph1)) \<and>
     page_copied (bump_free (heap ph)) (frames ph) (page_of (page_manager sp)) (frames ph1) (page_of (page_manager child)) 17"
proof -
  from demo_parent obtain sp ph where
    m: "map_extern sv39 (sv39_manage bump) 16 (16 + of_nat 2) 5000 0x17 demo_space demo_phys = Some (Inr (sp, ph))"
    and ar: "areas sp = [(16, 18)]" and ok: "space_ok bump_free ph sp" and av: "bump_avail (heap ph) \<ge> 996"
    by blast
  have pg: "pages_of_areas (areas sp) = 2" by (simp add: pages_of_areas_def ar)
  then have "bump_avail (heap ph) > 4 * pages_of_areas (areas sp)" using av by simp
  note f = fork_copies_and_isolates [OF bump_laws bump_blocks ok this]
  have "\<not> refuses bump bump_avail (heap ph) (4 * pages_of_areas (areas sp) + 1) (areas sp)"
    using av pg unfolding refuses_def ar
    by (auto simp: bump_def bump_avail_def Let_def split: if_splits)
  with f obtain child ph1 where
    c: "obind (Some (space_new (sv39_manage bump) ph)) (\<lambda>(new, ph1). cloneself sv39 (sv39_manage bump) sp new ph1) =
       Some (Inr (child, ph1))"
    "\<forall>a \<in> set (areas sp). \<forall>v \<in> area_pages a.
       page_copied (bump_free (heap ph)) (frames ph) (page_of (page_manager sp)) (frames ph1) (page_of (page_manager child)) v"
    unfolding Let_def by blast
  have "17 \<in> area_pages (16, 18)" by (simp add: area_pages_def)
  with c(2) ar have "page_copied (bump_free (heap ph)) (frames ph) (page_of (page_manager sp)) (frames ph1) (page_of (page_manager child)) 17"
    by simp
  with m c(1) show ?thesis by blast
qed

end
