(* ===== verification/Firmware.thy ===== *)
theory Firmware
  imports Prelude
begin

unbundle bit_operations_syntax

text \<open>
  The machine-mode firmware with which the kernels of chapters 3 and 4 run without an external SBI,
  from \<^verbatim>\<open>ch3/src/msbi.rs\<close> (\<^verbatim>\<open>ch4/src/msbi.rs\<close> is the same file), on the 64-bit target. The serial port is a
  parameter: what successive volatile reads of its registers return. The state collects what the
  firmware writes to the devices.
\<close>

section \<open>The devices\<close>

record uart =
  uart_lsr :: "nat \<Rightarrow> u8"
  uart_rbr :: "nat \<Rightarrow> u8"

record firmware =
  fw_reads :: nat
  fw_sent :: "u8 list"
  fw_mtimecmp :: u64
  fw_mip :: usize
  fw_test :: "u32 option"

definition is_tx_ready :: "uart \<Rightarrow> nat \<Rightarrow> bool" where
  "is_tx_ready D n \<longleftrightarrow> uart_lsr D n AND 0x20 \<noteq> 0"

text \<open>The busy wait of \<^verbatim>\<open>putchar\<close>: the number of reads after it, no value when the port never is ready.\<close>

partial_function (option) wait_tx :: "uart \<Rightarrow> nat \<Rightarrow> nat option" where
  "wait_tx D n = (if is_tx_ready D n then Some (n + 1) else wait_tx D (n + 1))"

definition uart_putchar :: "uart \<Rightarrow> u8 \<Rightarrow> firmware \<Rightarrow> firmware option" where
  "uart_putchar D c s =
     map_option (\<lambda>n. s\<lparr>fw_reads := n, fw_sent := fw_sent s @ [c]\<rparr>) (wait_tx D (fw_reads s))"

definition uart_getchar :: "uart \<Rightarrow> firmware \<Rightarrow> u8 option \<times> firmware" where
  "uart_getchar D s =
     (let n = fw_reads s in
      if uart_lsr D n AND 0x01 \<noteq> 0 then (Some (uart_rbr D (n + 1)), s\<lparr>fw_reads := n + 2\<rparr>)
      else (None, s\<lparr>fw_reads := n + 1\<rparr>))"

section \<open>SBI calls\<close>

definition EID_CONSOLE_PUTCHAR :: usize where "EID_CONSOLE_PUTCHAR = 0x1"
definition EID_CONSOLE_GETCHAR :: usize where "EID_CONSOLE_GETCHAR = 0x2"
definition EID_SHUTDOWN :: usize where "EID_SHUTDOWN = 0x8"
definition EID_BASE :: usize where "EID_BASE = 0x10"
definition EID_TIMER :: usize where "EID_TIMER = 0x54494D45"
definition EID_SRST :: usize where "EID_SRST = 0x53525354"

lemmas eids = EID_CONSOLE_PUTCHAR_def EID_CONSOLE_GETCHAR_def EID_SHUTDOWN_def EID_BASE_def EID_TIMER_def EID_SRST_def

definition ERR_NOT_SUPPORTED :: isize where "ERR_NOT_SUPPORTED = - 2"

record sbi_ret =
  sbi_error :: isize
  sbi_value :: usize

definition sbi_success :: "usize \<Rightarrow> sbi_ret" where
  "sbi_success value = \<lparr>sbi_error = 0, sbi_value = value\<rparr>"

definition sbi_not_supported :: sbi_ret where
  "sbi_not_supported = \<lparr>sbi_error = ERR_NOT_SUPPORTED, sbi_value = 0\<rparr>"

text \<open>A call returns, or spins in the \<^verbatim>\<open>loop {}\<close> after the write that turns the machine off.\<close>

datatype sbi_outcome = Returns sbi_ret | Spins

definition handle_console_putchar :: "uart \<Rightarrow> usize \<Rightarrow> firmware \<Rightarrow> (sbi_outcome \<times> firmware) option" where
  "handle_console_putchar D c s =
     map_option (\<lambda>s1. (Returns (sbi_success 0), s1)) (uart_putchar D (ucast c) s)"

definition handle_console_getchar :: "uart \<Rightarrow> firmware \<Rightarrow> sbi_outcome \<times> firmware" where
  "handle_console_getchar D s =
     (case uart_getchar D s of
        (Some c, s1) \<Rightarrow> (Returns (sbi_success (ucast c)), s1)
      | (None, s1) \<Rightarrow> (Returns (sbi_success (- 1)), s1))"

definition handle_system_reset :: "usize \<Rightarrow> usize \<Rightarrow> firmware \<Rightarrow> sbi_outcome \<times> firmware" where
  "handle_system_reset reset_type reset_reason s =
     (Spins, s\<lparr>fw_test := Some (if reset_reason = 0 then 0x5555 else 0x3333)\<rparr>)"

definition handle_legacy_shutdown :: "firmware \<Rightarrow> sbi_outcome \<times> firmware" where
  "handle_legacy_shutdown s = handle_system_reset 0 0 s"

definition handle_base :: "usize \<Rightarrow> sbi_ret" where
  "handle_base fid =
     (if fid = 0 then sbi_success 2
      else if fid = 1 then sbi_success 0
      else if fid = 2 then sbi_success 1
      else if fid = 3 then sbi_success 1
      else if fid = 4 then sbi_success 0
      else if fid = 5 then sbi_success 0
      else if fid = 6 then sbi_success 0
      else sbi_not_supported)"

definition handle_timer :: "u64 \<Rightarrow> firmware \<Rightarrow> sbi_outcome \<times> firmware" where
  "handle_timer time s =
     (Returns (sbi_success 0), s\<lparr>fw_mtimecmp := time, fw_mip := fw_mip s AND NOT (push_bit 5 1)\<rparr>)"

definition m_trap_handler ::
    "uart \<Rightarrow> usize \<Rightarrow> usize \<Rightarrow> usize \<Rightarrow> usize \<Rightarrow> usize \<Rightarrow> firmware \<Rightarrow> (sbi_outcome \<times> firmware) option" where
  "m_trap_handler D mcause a0 a1 fid eid s =
     (if mcause \<noteq> 9 then Some (Returns sbi_not_supported, s)
      else if eid = EID_CONSOLE_PUTCHAR then handle_console_putchar D a0 s
      else if eid = EID_CONSOLE_GETCHAR then Some (handle_console_getchar D s)
      else if eid = EID_SHUTDOWN then Some (handle_legacy_shutdown s)
      else if eid = EID_BASE then Some (Returns (handle_base fid), s)
      else if eid = EID_TIMER then Some (handle_timer (a0 OR push_bit 32 a1) s)
      else if eid = EID_SRST then
        (if fid = 0 then Some (handle_system_reset a0 a1 s) else Some (Returns sbi_not_supported, s))
      else Some (Returns sbi_not_supported, s))"

section \<open>Lemmas\<close>

lemma wait_tx_returns:
  assumes "is_tx_ready D m" "n \<le> m"
  shows "wait_tx D n = Some (Suc (LEAST k. n \<le> k \<and> is_tx_ready D k))"
  using assms(2)
proof (induction "m - n" arbitrary: n)
  case 0
  with assms(1) have "m = n" "(LEAST k. n \<le> k \<and> is_tx_ready D k) = n" by (auto intro: Least_equality)
  with assms(1) show ?case by (simp add: wait_tx.simps)
next
  case (Suc x)
  show ?case
  proof (cases "is_tx_ready D n")
    case True
    then have "(LEAST k. n \<le> k \<and> is_tx_ready D k) = n" by (auto intro: Least_equality)
    with True show ?thesis by (simp add: wait_tx.simps)
  next
    case False
    then have "(n \<le> k \<and> is_tx_ready D k) = (Suc n \<le> k \<and> is_tx_ready D k)" for k by (metis Suc_leD le_antisym not_less_eq_eq)
    moreover have "wait_tx D (Suc n) = Some (Suc (LEAST k. Suc n \<le> k \<and> is_tx_ready D k))"
      using Suc by (intro Suc.hyps) auto
    ultimately show ?thesis using False by (subst wait_tx.simps) simp
  qed
qed

lemma wait_tx_hangs:
  assumes "\<And>k. n \<le> k \<Longrightarrow> \<not> is_tx_ready D k"
  shows "wait_tx D n = None"
proof (rule ccontr)
  assume "wait_tx D n \<noteq> None"
  then obtain y where "wait_tx D n = Some y" by blast
  have "\<exists>k \<ge> n. is_tx_ready D k"
  proof (rule wait_tx.raw_induct [OF _ \<open>wait_tx D n = Some y\<close>])
    fix w D n y
    assume "\<And>D n y. w D n = Some y \<Longrightarrow> \<exists>k \<ge> n. is_tx_ready D k"
      and "(if is_tx_ready D n then Some (n + 1) else w D (n + 1)) = Some y"
    then show "\<exists>k \<ge> n. is_tx_ready D k" by (metis Suc_eq_plus1 Suc_leD le_refl)
  qed
  with assms show False by blast
qed

lemma eids_distinct [simp]:
  "EID_CONSOLE_PUTCHAR \<noteq> EID_CONSOLE_GETCHAR" "EID_TIMER \<noteq> EID_CONSOLE_PUTCHAR" "EID_TIMER \<noteq> EID_CONSOLE_GETCHAR"
  "EID_TIMER \<noteq> EID_SHUTDOWN" "EID_TIMER \<noteq> EID_BASE" "EID_BASE \<noteq> EID_CONSOLE_PUTCHAR" "EID_BASE \<noteq> EID_CONSOLE_GETCHAR"
  "EID_BASE \<noteq> EID_SHUTDOWN"
  by (simp_all add: eids)

text \<open>Every extension probes as available, also the ones whose calls are refused.\<close>

lemma probe_claims_every_extension:
  "m_trap_handler D 9 ext a1 3 EID_BASE s = Some (Returns (sbi_success 1), s)"
  "eid \<notin> {EID_CONSOLE_PUTCHAR, EID_CONSOLE_GETCHAR, EID_SHUTDOWN, EID_BASE, EID_TIMER, EID_SRST} \<Longrightarrow>
   m_trap_handler D 9 a0 a1 fid eid s = Some (Returns sbi_not_supported, s)"
  by (auto simp: m_trap_handler_def handle_base_def)

section \<open>Properties\<close>

text \<open>
  Writing to the serial console through the firmware. A \<^verbatim>\<open>console_putchar\<close> from supervisor mode returns
  exactly when the serial port becomes ready at some later read of its status, and then it has sent the
  low byte of its argument, once, and changed nothing else; if the port never becomes ready it does not
  return.
\<close>

theorem firmware_putchar:
  "m_trap_handler D 9 c a1 fid EID_CONSOLE_PUTCHAR s =
     (if \<exists>k \<ge> fw_reads s. is_tx_ready D k
      then Some (Returns (sbi_success 0),
        s\<lparr>fw_reads := Suc (LEAST k. fw_reads s \<le> k \<and> is_tx_ready D k), fw_sent := fw_sent s @ [ucast c]\<rparr>)
      else None)"
  using wait_tx_returns [of D] wait_tx_hangs [of "fw_reads s" D]
  by (auto simp: m_trap_handler_def handle_console_putchar_def uart_putchar_def)

text \<open>
  The deadline of the timer. The handler of \<^verbatim>\<open>set_timer\<close> combines \<^verbatim>\<open>a0\<close> with \<^verbatim>\<open>a1\<close> shifted by 32 bits, as
  on a 32-bit machine. On the 64-bit target the deadline is all of \<^verbatim>\<open>a0\<close>, and \<^verbatim>\<open>a1\<close> is no argument of the
  call: the deadline is the requested one only if the low half of \<^verbatim>\<open>a1\<close> happens to have no bit outside the
  high half of \<^verbatim>\<open>a0\<close>, and otherwise it is later than the requested one.
\<close>

theorem timer_deadline:
  "\<exists>s1. m_trap_handler D 9 a0 a1 fid EID_TIMER s = Some (Returns (sbi_success 0), s1) \<and>
     (fw_mtimecmp s1 = a0 \<longleftrightarrow> take_bit 32 a1 AND NOT (drop_bit 32 a0) = 0) \<and> a0 \<le> fw_mtimecmp s1"
proof -
  let ?d = "a0 OR push_bit 32 a1"
  have "?d = a0 \<longleftrightarrow> take_bit 32 a1 AND NOT (drop_bit 32 a0) = 0" (is "?L \<longleftrightarrow> ?R")
  proof
    assume ?L
    have "bit a0 (i + 32)" if "bit a1 i" "i < 32" for i
    proof -
      from \<open>?L\<close> have "bit ?d (i + 32) = bit a0 (i + 32)" by simp
      with that show ?thesis by (simp add: bit_simps)
    qed
    then show ?R by (intro bit_word_eqI) (auto simp: bit_simps add.commute)
  next
    assume ?R
    have "bit a0 (i + 32)" if "bit a1 i" "i < 32" for i
    proof (rule ccontr)
      assume "\<not> bit a0 (i + 32)"
      with that have "bit (take_bit 32 a1 AND NOT (drop_bit 32 a0)) i" by (simp add: bit_simps add.commute)
      with \<open>?R\<close> show False by simp
    qed
    then have "bit a0 n" if "32 \<le> n" "n < 64" "bit a1 (n - 32)" for n using that by fastforce
    then show ?L by (intro bit_word_eqI) (auto simp: bit_simps)
  qed
  moreover have "a0 \<le> ?d" by (rule le_word_or2)
  ultimately show ?thesis by (simp add: m_trap_handler_def handle_timer_def)
qed

end
