(* ===== verification/Kernel_Ch3.thy ===== *)
theory Kernel_Ch3
  imports Apps Codec
begin

text \<open>
  The kernels without address translation: the batch system of chapter 2 (\<^verbatim>\<open>ch2/src/main.rs\<close>), which runs
  one application after the other, and the multiprogramming system of chapter 3 (\<^verbatim>\<open>ch3/src/main.rs\<close> and
  \<^verbatim>\<open>task.rs\<close>), which shares the processor between the applications of the image by a timer. What an
  application does between two traps is the parameter \<open>run\<close>, which also gives the clock at the trap; the
  addresses of the stacks in the kernel's own memory are parameters. Log lines are not modelled.
\<close>

section \<open>State\<close>

text \<open>What was printed, \<^verbatim>\<open>LINE_START\<close> and the clock; then memory and the deadline of the timer.\<close>

record console =
  b_out :: "u8 list"
  b_line_start :: bool
  b_time :: u64

record bare = console +
  b_mem :: flat
  b_timer :: u64

datatype bare_trap = Supervisor_Timer | Env_Call | Other_Exception | Other_Interrupt

record user_stay =
  us_context :: local_context
  us_mem :: flat
  us_trap :: bare_trap
  us_time :: u64

type_synonym bare_code = "local_context \<Rightarrow> bare \<Rightarrow> user_stay"

definition set_mem :: "flat \<Rightarrow> bare \<Rightarrow> bare" where
  "set_mem mem s = s\<lparr>b_mem := mem\<rparr>"

text \<open>\<^verbatim>\<open>LocalContext::execute\<close>, with the cause of the trap that ends it.\<close>

definition execute :: "bare_code \<Rightarrow> local_context \<Rightarrow> bare \<Rightarrow> bare_trap \<times> local_context \<times> bare" where
  "execute run ctx s =
     (let u = run ctx s in (us_trap u, us_context u, s\<lparr>b_mem := us_mem u, b_time := us_time u\<rparr>))"

definition print_bytes :: "u8 list \<Rightarrow> 'z console_scheme \<Rightarrow> 'z console_scheme" where
  "print_bytes bs s = s\<lparr>b_out := b_out s @ bs\<rparr>"

section \<open>Chapter 2\<close>

definition ch2_write :: "caller \<Rightarrow> usize \<Rightarrow> usize \<Rightarrow> usize \<Rightarrow> bare sys" where
  "ch2_write clr fd buf cnt s =
     (if fd = STDOUT \<or> fd = STDDEBUG then Inr (cnt, print_bytes (mem_read (b_mem s) buf (unat cnt)) s)
      else Inr (- 1, s))"

definition ch2_exit :: "caller \<Rightarrow> usize \<Rightarrow> bare sys" where
  "ch2_exit clr status s = Inr (0, s)"

definition ch2_containers :: "bare containers" where
  "ch2_containers =
     init_process (process_sys_default\<lparr>sys_exit := ch2_exit\<rparr>)
       (init_io (io_sys_default\<lparr>sys_write := ch2_write\<rparr>) containers_new)"

datatype ch2_result = Ch2_Done | Ch2_Exit usize | Ch2_Error syscall_id

definition ch2_handle_syscall :: "local_context \<Rightarrow> bare \<Rightarrow> (ch2_result \<times> local_context \<times> bare) res" where
  "ch2_handle_syscall ctx s =
     rbind (read_frame ctx) (\<lambda>(sid, args).
     rbind (handle ch2_containers \<lparr>entity = 0, flow = 0\<rparr> sid args s) (\<lambda>(r, s1).
       case r of
         Done ret \<Rightarrow>
           if sid = SYS_EXIT then rbind (ctx_a ctx 0) (\<lambda>code. Inr (Ch2_Exit code, ctx, s1))
           else rbind (ctx_set_a 0 ret ctx) (\<lambda>ctx1. Inr (Ch2_Done, ctx_move_next ctx1, s1))
       | Unsupported e \<Rightarrow> Inr (Ch2_Error e, ctx, s1)))"

text \<open>One turn of the inner loop: whether the application goes on.\<close>

definition ch2_turn :: "bare_code \<Rightarrow> local_context \<Rightarrow> bare \<Rightarrow> (bool \<times> local_context \<times> bare) res" where
  "ch2_turn run ctx s =
     (let (trap, ctx1, s1) = execute run ctx s in
      case trap of
        Env_Call \<Rightarrow>
          rbind (ch2_handle_syscall ctx1 s1) (\<lambda>(r, ctx2, s2).
            case r of Ch2_Done \<Rightarrow> Inr (True, ctx2, s2) | _ \<Rightarrow> Inr (False, ctx2, s2))
      | _ \<Rightarrow> Inr (False, ctx1, s1))"

partial_function (option) ch2_run :: "bare_code \<Rightarrow> local_context \<Rightarrow> bare \<Rightarrow> bare res option" where
  "ch2_run run ctx s =
     (case ch2_turn run ctx s of
        Inl e \<Rightarrow> Some (Inl e)
      | Inr (go, ctx1, s1) \<Rightarrow> if go then ch2_run run ctx1 s1 else Some (Inr s1))"

text \<open>The loop of \<^verbatim>\<open>rust_main\<close>; \<^verbatim>\<open>stk\<close> is the address of the array \<^verbatim>\<open>user_stack\<close> of 256 words.\<close>

definition ch2_app :: "bare_code \<Rightarrow> usize \<Rightarrow> nat \<Rightarrow> usize \<times> usize \<Rightarrow> bare \<Rightarrow> bare res" where
  "ch2_app run stk i app s =
     rbind (ctx_set_sp (stk + 256 * 8) (ctx_user (fst app))) (\<lambda>ctx.
     rbind (finished (ch2_run run ctx s)) (\<lambda>s1. Inr (print_bytes [0x0A] s1)))"

definition ch2_main :: "bare_code \<Rightarrow> usize \<Rightarrow> app_meta \<Rightarrow> bare \<Rightarrow> bare res" where
  "ch2_main run stk meta s = apps_loop (ch2_app run stk) b_mem set_mem meta 0 s"

section \<open>Chapter 3: system calls\<close>

definition monotonic_time_ns :: "u64 \<Rightarrow> usize res" where
  "monotonic_time_ns now = (if unat now * 10000 < 2 ^ 64 then Inr (now * 10000 div 125) else Inl Arith_Overflow)"

text \<open>Decimal digits, and the format \<^verbatim>\<open>"[{ts_ms:>5} ms] "\<close>.\<close>

fun decimal :: "nat \<Rightarrow> u8 list" where
  "decimal n = (if n < 10 then [of_nat (0x30 + n)] else decimal (n div 10) @ [of_nat (0x30 + n mod 10)])"

declare decimal.simps [simp del]

definition time_stamp :: "usize \<Rightarrow> u8 list" where
  "time_stamp ts_ms =
     (let ds = decimal (unat ts_ms) in
      [0x5B] @ replicate (5 - length ds) 0x20 @ ds @ [0x20, 0x6D, 0x73, 0x5D, 0x20])"

text \<open>\<^verbatim>\<open>str::split_inclusive('\n')\<close>, on bytes.\<close>

fun split_inclusive :: "u8 list \<Rightarrow> u8 list list" where
  "split_inclusive [] = []"
| "split_inclusive (c # cs) =
     (if c = 0x0A then [c] # split_inclusive cs
      else case split_inclusive cs of [] \<Rightarrow> [[c]] | seg # segs \<Rightarrow> (c # seg) # segs)"

definition ends_with_newline :: "u8 list \<Rightarrow> bool" where
  "ends_with_newline seg \<longleftrightarrow> seg \<noteq> [] \<and> last seg = 0x0A"

definition print_segment :: "u8 list \<Rightarrow> 'z console_scheme \<Rightarrow> 'z console_scheme res" where
  "print_segment seg s =
     rbind (if b_line_start s
            then rbind (monotonic_time_ns (b_time s)) (\<lambda>ns. Inr (print_bytes (time_stamp (ns div 1000000)) s))
            else Inr s) (\<lambda>s1.
       Inr ((print_bytes seg s1)\<lparr>b_line_start := ends_with_newline seg\<rparr>))"

definition print_with_timestamp :: "u8 list \<Rightarrow> 'z console_scheme \<Rightarrow> 'z console_scheme res" where
  "print_with_timestamp str s = rfold print_segment (split_inclusive str) s"

definition ch3_write :: "caller \<Rightarrow> usize \<Rightarrow> usize \<Rightarrow> usize \<Rightarrow> bare sys" where
  "ch3_write clr fd buf cnt s =
     (if fd = STDOUT \<or> fd = STDDEBUG
      then rbind (print_with_timestamp (mem_read (b_mem s) buf (unat cnt)) s) (\<lambda>s1. Inr (cnt, s1))
      else Inr (- 1, s))"

definition ch3_exit :: "caller \<Rightarrow> usize \<Rightarrow> bare sys" where
  "ch3_exit clr status s = Inr (0, s)"

definition ch3_sched_yield :: "caller \<Rightarrow> bare sys" where
  "ch3_sched_yield clr s = Inr (0, s)"

definition ch3_clock_gettime :: "caller \<Rightarrow> usize \<Rightarrow> usize \<Rightarrow> bare sys" where
  "ch3_clock_gettime clr clock_id tp s =
     (if clock_id = CLOCK_MONOTONIC then
        rbind (monotonic_time_ns (b_time s)) (\<lambda>time.
          Inr (0, set_mem (mem_store tp (to_le 8 (time div 1000000000) @ to_le 8 (time mod 1000000000)) (b_mem s)) s))
      else Inr (- 1, s))"

definition ch3_containers :: "bare containers" where
  "ch3_containers =
     init_clock (clock_sys_default\<lparr>sys_clock_gettime := ch3_clock_gettime\<rparr>)
      (init_scheduling (scheduling_sys_default\<lparr>sys_sched_yield := ch3_sched_yield\<rparr>)
       (init_process (process_sys_default\<lparr>sys_exit := ch3_exit\<rparr>)
         (init_io (io_sys_default\<lparr>sys_write := ch3_write\<rparr>) containers_new)))"

section \<open>Chapter 3: tasks\<close>

text \<open>\<^verbatim>\<open>tcb_stack\<close> is the address of the array \<^verbatim>\<open>stack\<close> of 1024 words inside the control block.\<close>

record tcb =
  tcb_ctx :: local_context
  tcb_finish :: bool
  tcb_stack :: usize

definition tcb_ZERO :: "usize \<Rightarrow> tcb" where
  "tcb_ZERO stk = \<lparr>tcb_ctx = ctx_empty, tcb_finish = False, tcb_stack = stk\<rparr>"

definition tcb_init :: "usize \<Rightarrow> tcb \<Rightarrow> bare \<Rightarrow> (tcb \<times> bare) res" where
  "tcb_init entry t s =
     (let s1 = set_mem (mem_fill (tcb_stack t) (1024 * 8) 0 (b_mem s)) s in
      rbind (checked_usize_add (tcb_stack t) (1024 * 8)) (\<lambda>sp.
      rbind (ctx_set_sp sp (ctx_user entry)) (\<lambda>ctx. Inr (t\<lparr>tcb_finish := False, tcb_ctx := ctx\<rparr>, s1))))"

datatype scheduling_event = Ev_None | Ev_Yield | Ev_Exit usize | Ev_UnsupportedSyscall syscall_id

definition ch3_handle_syscall :: "tcb \<Rightarrow> bare \<Rightarrow> (scheduling_event \<times> tcb \<times> bare) res" where
  "ch3_handle_syscall t s =
     rbind (read_frame (tcb_ctx t)) (\<lambda>(sid, args).
     rbind (handle ch3_containers \<lparr>entity = 0, flow = 0\<rparr> sid args s) (\<lambda>(r, s1).
       case r of
         Done ret \<Rightarrow>
           if sid = SYS_EXIT then rbind (ctx_a (tcb_ctx t) 0) (\<lambda>code. Inr (Ev_Exit code, t, s1))
           else rbind (ctx_set_a 0 ret (tcb_ctx t)) (\<lambda>ctx.
             let t1 = t\<lparr>tcb_ctx := ctx_move_next ctx\<rparr>
             in Inr (if sid = SYS_SCHED_YIELD then Ev_Yield else Ev_None, t1, s1))
       | Unsupported _ \<Rightarrow> Inr (Ev_UnsupportedSyscall sid, t, s1)))"

section \<open>Chapter 3: the main loop\<close>

definition APP_CAPACITY :: nat where
  "APP_CAPACITY = 32"

definition set_timer :: "u64 \<Rightarrow> bare \<Rightarrow> bare" where
  "set_timer t s = s\<lparr>b_timer := t\<rparr>"

text \<open>
  One turn of the inner loop: no value when the task goes on, or whether it is finished. Without the
  feature \<^verbatim>\<open>coop\<close> the timer is set first.
\<close>

definition ch3_turn :: "bool \<Rightarrow> bare_code \<Rightarrow> tcb \<Rightarrow> bare \<Rightarrow> (bool option \<times> tcb \<times> bare) res" where
  "ch3_turn coop run t s =
     rbind (if coop then Inr s else rbind (checked_usize_add (b_time s) 12500) (\<lambda>d. Inr (set_timer d s))) (\<lambda>s0.
       let (trap, ctx, s1) = execute run (tcb_ctx t) s0; t1 = t\<lparr>tcb_ctx := ctx\<rparr> in
       case trap of
         Supervisor_Timer \<Rightarrow> Inr (Some False, t1, set_timer (- 1) s1)
       | Env_Call \<Rightarrow>
           rbind (ch3_handle_syscall t1 s1) (\<lambda>(ev, t2, s2).
             case ev of
               Ev_None \<Rightarrow> Inr (None, t2, s2)
             | Ev_Exit code \<Rightarrow> Inr (Some True, t2, s2)
             | Ev_Yield \<Rightarrow> Inr (Some False, t2, s2)
             | Ev_UnsupportedSyscall sid \<Rightarrow> Inr (Some True, t2, s2))
       | Other_Exception \<Rightarrow> Inr (Some True, t1, s1)
       | Other_Interrupt \<Rightarrow> Inr (Some True, t1, s1))"

partial_function (option) ch3_inner :: "bool \<Rightarrow> bare_code \<Rightarrow> tcb \<Rightarrow> bare \<Rightarrow> (bool \<times> tcb \<times> bare) res option" where
  "ch3_inner coop run t s =
     (case ch3_turn coop run t s of
        Inl e \<Rightarrow> Some (Inl e)
      | Inr (r, t1, s1) \<Rightarrow> (case r of None \<Rightarrow> ch3_inner coop run t1 s1 | Some fin \<Rightarrow> Some (Inr (fin, t1, s1))))"

text \<open>The \<^verbatim>\<open>while\<close> loop over the first \<^verbatim>\<open>n\<close> control blocks, with its variables \<^verbatim>\<open>remain\<close> and \<^verbatim>\<open>i\<close>.\<close>

partial_function (option) ch3_loop ::
    "bool \<Rightarrow> bare_code \<Rightarrow> nat \<Rightarrow> tcb list \<Rightarrow> nat \<Rightarrow> nat \<Rightarrow> bare \<Rightarrow> (tcb list \<times> bare) res option" where
  "ch3_loop coop run n tcbs remain i s =
     (if remain = 0 then Some (Inr (tcbs, s))
      else case vec_index tcbs i of
        Inl e \<Rightarrow> Some (Inl e)
      | Inr t \<Rightarrow>
          if tcb_finish t then
            (if n = 0 then Some (Inl Arith_Overflow) else ch3_loop coop run n tcbs remain ((i + 1) mod n) s)
          else Option.bind (ch3_inner coop run t s) (\<lambda>r. case r of
              Inl e \<Rightarrow> Some (Inl e)
            | Inr (fin, t1, s1) \<Rightarrow>
                if n = 0 then Some (Inl Arith_Overflow)
                else ch3_loop coop run n (tcbs[i := if fin then t1\<lparr>tcb_finish := True\<rparr> else t1])
                  (if fin then remain - 1 else remain) ((i + 1) mod n) s1))"

text \<open>The loop that loads the applications and initialises their control blocks, and \<^verbatim>\<open>rust_main\<close>.\<close>

definition ch3_load :: "nat \<Rightarrow> usize \<times> usize \<Rightarrow> tcb list \<times> nat \<times> bare \<Rightarrow> (tcb list \<times> nat \<times> bare) res" where
  "ch3_load i app st =
     (let (tcbs, index_mod, s) = st in
      rbind (vec_index tcbs i) (\<lambda>t.
      rbind (tcb_init (fst app) t s) (\<lambda>(t1, s1). Inr (tcbs[i := t1], index_mod + 1, s1))))"

definition ch3_boot :: "(nat \<Rightarrow> usize) \<Rightarrow> app_meta \<Rightarrow> bare \<Rightarrow> (tcb list \<times> nat \<times> bare) res" where
  "ch3_boot stk meta s =
     apps_loop ch3_load (\<lambda>(_, _, s). b_mem s) (\<lambda>mem (ts, k, s). (ts, k, set_mem mem s)) meta 0
       (map (\<lambda>i. tcb_ZERO (stk i)) [0..<APP_CAPACITY], 0, s)"

definition ch3_main :: "bool \<Rightarrow> bare_code \<Rightarrow> (nat \<Rightarrow> usize) \<Rightarrow> app_meta \<Rightarrow> bare \<Rightarrow> (tcb list \<times> bare) res option" where
  "ch3_main coop run stk meta s =
     (case ch3_boot stk meta s of
        Inl e \<Rightarrow> Some (Inl e)
      | Inr (tcbs, index_mod, s1) \<Rightarrow> ch3_loop coop run index_mod tcbs index_mod 0 (print_bytes [0x0A] s1))"

end
