(* ===== verification/Bare_Props.thy ===== *)
theory Bare_Props
  imports Kernel_Ch3
begin

text \<open>
  Properties of the kernels of chapters 2 and 3: loading puts every application into its place, programs that end make the kernel shut down, a program
  cannot keep the others from running, and what is printed.
\<close>

section \<open>System calls\<close>

lemmas ch3_call_simps =
  read_frame_def handle_def container_call_def ch3_containers_def init_clock_def init_scheduling_def
  init_process_def init_io_def containers_new_def container_init_def container_new_def
  scheduling_sys_default_def process_sys_default_def io_sys_default_def clock_sys_default_def sys_todo_def
  ch3_sched_yield_def ch3_exit_def syscall_ids

lemma ch3_handle_syscall_eqs:
  assumes "ctx_wf (tcb_ctx t)"
  shows "xregs (tcb_ctx t) ! 16 = SYS_EXIT \<Longrightarrow>
      ch3_handle_syscall t s = Inr (Ev_Exit (xregs (tcb_ctx t) ! 9), t, s)"
    and "xregs (tcb_ctx t) ! 16 = SYS_SCHED_YIELD \<Longrightarrow>
      ch3_handle_syscall t s =
        Inr (Ev_Yield, t\<lparr>tcb_ctx := ctx_move_next ((tcb_ctx t)\<lparr>xregs := (xregs (tcb_ctx t))[9 := 0]\<rparr>)\<rparr>, s)"
    and "xregs (tcb_ctx t) ! 16 \<in> {SYS_READ, SYS_OPENAT, SYS_CLOSE, SYS_CLONE, SYS_EXECVE, SYS_WAIT4, SYS_GETPID} \<Longrightarrow>
      ch3_handle_syscall t s = Inl Todo"
    and "xregs (tcb_ctx t) ! 16 \<notin> {SYS_READ, SYS_OPENAT, SYS_CLOSE, SYS_CLONE, SYS_EXECVE, SYS_WAIT4, SYS_GETPID,
        SYS_WRITE, SYS_EXIT, SYS_SCHED_YIELD, SYS_CLOCK_GETTIME} \<Longrightarrow>
      ch3_handle_syscall t s = Inr (Ev_UnsupportedSyscall (xregs (tcb_ctx t) ! 16), t, s)"
  using assms by (auto simp: ch3_handle_syscall_def ch3_call_simps)

section \<open>The batch system\<close>

text \<open>An application that makes only finitely many served calls is left after finitely many turns.\<close>

lemma ch2_run_returns:
  assumes "\<And>ctx s ctx1 s1. ch2_turn run ctx s = Inr (True, ctx1, s1) \<Longrightarrow> work ctx1 s1 < (work ctx s :: nat)"
  shows "\<exists>r. ch2_run run ctx s = Some r"
proof (induction "work ctx s" arbitrary: ctx s rule: less_induct)
  case less
  show ?case
  proof (cases "ch2_turn run ctx s")
    case (Inr x)
    obtain go ctx1 s1 where x: "ch2_turn run ctx s = Inr (go, ctx1, s1)" using Inr by (cases x) auto
    show ?thesis
      using less [of ctx1 s1] assms [of ctx s ctx1 s1] by (subst ch2_run.simps) (cases go; simp add: x)
  qed (subst ch2_run.simps, simp)
qed

section \<open>Turns\<close>

lemma ch3_handle_keeps:
  "ch3_handle_syscall t s = Inr (ev, t1, s1) \<Longrightarrow> tcb_finish t1 = tcb_finish t \<and> tcb_stack t1 = tcb_stack t"
  by (auto simp: ch3_handle_syscall_def Let_def elim!: rbindE split: syscall_result.splits if_splits)

lemma ch3_turn_keeps:
  "ch3_turn coop run t s = Inr (r, t1, s1) \<Longrightarrow> tcb_finish t1 = tcb_finish t \<and> tcb_stack t1 = tcb_stack t"
  by (auto simp: ch3_turn_def Let_def execute_def dest!: ch3_handle_keeps elim!: rbindE
      split: bare_trap.splits scheduling_event.splits)

text \<open>
  Programs that end, for a measure of the work a task has left: every turn of a task finishes it or
  leaves it with less, and gives no other task more.
\<close>

definition programs_end :: "bool \<Rightarrow> bare_code \<Rightarrow> (tcb \<Rightarrow> bare \<Rightarrow> nat) \<Rightarrow> bool" where
  "programs_end coop run work \<longleftrightarrow>
     (\<forall>t s r t1 s1. ch3_turn coop run t s = Inr (r, t1, s1) \<longrightarrow>
        (r = Some True \<or> work t1 s1 < work t s) \<and> (\<forall>t'. work t' s1 \<le> work t' s))"

text \<open>
  The states of the scheduling loop, turn by turn: the control blocks, the number of the task that is next
  and the machine. A finished task is passed over; a turn after which the task goes on keeps the number, and
  one that gives up the processor or finishes the task moves to the next number.
\<close>

inductive ch3_reach :: "bool \<Rightarrow> bare_code \<Rightarrow> nat \<Rightarrow> tcb list \<Rightarrow> bare \<Rightarrow> tcb list \<Rightarrow> nat \<Rightarrow> bare \<Rightarrow> bool"
  for coop run n ts0 s0 where
  ch3_here: "ch3_reach coop run n ts0 s0 ts0 0 s0"
| ch3_skip: "ch3_reach coop run n ts0 s0 ts i s \<Longrightarrow> tcb_finish (ts ! i) \<Longrightarrow>
    ch3_reach coop run n ts0 s0 ts ((i + 1) mod n) s"
| ch3_go_on: "ch3_reach coop run n ts0 s0 ts i s \<Longrightarrow> \<not> tcb_finish (ts ! i) \<Longrightarrow>
    ch3_turn coop run (ts ! i) s = Inr (None, t1, s1) \<Longrightarrow> ch3_reach coop run n ts0 s0 (ts[i := t1]) i s1"
| ch3_next: "ch3_reach coop run n ts0 s0 ts i s \<Longrightarrow> \<not> tcb_finish (ts ! i) \<Longrightarrow>
    ch3_turn coop run (ts ! i) s = Inr (Some fin, t1, s1) \<Longrightarrow>
    ch3_reach coop run n ts0 s0 (ts[i := if fin then t1\<lparr>tcb_finish := True\<rparr> else t1]) ((i + 1) mod n) s1"

text \<open>A turn that the loop really comes to panics.\<close>

definition turn_panics :: "bool \<Rightarrow> bare_code \<Rightarrow> nat \<Rightarrow> tcb list \<Rightarrow> bare \<Rightarrow> panic \<Rightarrow> bool" where
  "turn_panics coop run n ts0 s0 e \<longleftrightarrow>
     (\<exists>ts i s. ch3_reach coop run n ts0 s0 ts i s \<and> i < n \<and> \<not> tcb_finish (ts ! i) \<and> ch3_turn coop run (ts ! i) s = Inl e)"

lemma ch3_inner_returns:
  assumes "programs_end coop run work" "i < n"
    and "ch3_reach coop run n ts0 s0 (ts[i := t]) i s" "\<not> tcb_finish t" "i < length ts"
  shows "\<exists>r. ch3_inner coop run t s = Some r \<and>
     (case r of Inl e \<Rightarrow> turn_panics coop run n ts0 s0 e
      | Inr (fin, t1, s1) \<Rightarrow> (fin \<or> work t1 s1 < work t s) \<and> (\<forall>t'. work t' s1 \<le> work t' s) \<and> \<not> tcb_finish t1 \<and>
          ch3_reach coop run n ts0 s0 (ts[i := if fin then t1\<lparr>tcb_finish := True\<rparr> else t1]) ((i + 1) mod n) s1)"
  using assms(3,4)
proof (induction "work t s" arbitrary: t s rule: less_induct)
  case less
  have t: "ts[i := t] ! i = t" using assms(5) by simp
  show ?case
  proof (cases "ch3_turn coop run t s")
    case (Inl e)
    then have "turn_panics coop run n ts0 s0 e"
      using less.prems assms(2) t unfolding turn_panics_def by metis
    with Inl show ?thesis by (subst ch3_inner.simps) auto
  next
    case (Inr x)
    obtain r t1 s1 where x: "ch3_turn coop run t s = Inr (r, t1, s1)" using Inr by (cases x) auto
    then have w: "r = Some True \<or> work t1 s1 < work t s" "\<And>t'. work t' s1 \<le> work t' s"
      using assms(1) unfolding programs_end_def by blast+
    have k: "\<not> tcb_finish t1" using ch3_turn_keeps [OF x] less.prems(2) by simp
    show ?thesis
    proof (cases r)
      case None
      with w(1) have lt: "work t1 s1 < work t s" by simp
      have "ch3_reach coop run n ts0 s0 (ts[i := t1]) i s1"
        using ch3_go_on [OF less.prems(1), of t1 s1] less.prems(2) x None t by simp
      from less.hyps [OF lt this k] obtain q where
        q: "ch3_inner coop run t1 s1 = Some q"
          "case q of Inl e \<Rightarrow> turn_panics coop run n ts0 s0 e
           | Inr (fin, t2, s2) \<Rightarrow> (fin \<or> work t2 s2 < work t1 s1) \<and> (\<forall>t'. work t' s2 \<le> work t' s1) \<and> \<not> tcb_finish t2 \<and>
               ch3_reach coop run n ts0 s0 (ts[i := if fin then t2\<lparr>tcb_finish := True\<rparr> else t2]) ((i + 1) mod n) s2" by blast
      have "ch3_inner coop run t s = Some q" by (subst ch3_inner.simps) (simp add: x None q(1))
      moreover have "case q of Inl e \<Rightarrow> turn_panics coop run n ts0 s0 e
           | Inr (fin, t2, s2) \<Rightarrow> (fin \<or> work t2 s2 < work t s) \<and> (\<forall>t'. work t' s2 \<le> work t' s) \<and> \<not> tcb_finish t2 \<and>
               ch3_reach coop run n ts0 s0 (ts[i := if fin then t2\<lparr>tcb_finish := True\<rparr> else t2]) ((i + 1) mod n) s2"
        using q(2) lt w(2) by (auto split: sum.splits intro: order_trans)
      ultimately show ?thesis by blast
    next
      case (Some fin)
      have "ch3_inner coop run t s = Some (Inr (fin, t1, s1))"
        by (subst ch3_inner.simps) (simp add: x Some)
      moreover have "ch3_reach coop run n ts0 s0 (ts[i := if fin then t1\<lparr>tcb_finish := True\<rparr> else t1]) ((i + 1) mod n) s1"
        using ch3_next [OF less.prems(1), of fin t1 s1] less.prems(2) x Some t by simp
      ultimately show ?thesis using w k Some by auto
    qed
  qed
qed

section \<open>The loop\<close>

text \<open>The loop passes over finished tasks to the next unfinished one.\<close>

lemma ch3_loop_skip:
  assumes "i < n" "n \<le> length tcbs" "remain > 0" "\<not> tcb_finish (tcbs ! ((i + d) mod n))"
    and "ch3_reach coop run n ts0 s0 tcbs i s"
  shows "\<exists>j < n. \<not> tcb_finish (tcbs ! j) \<and> ch3_reach coop run n ts0 s0 tcbs j s \<and>
     ch3_loop coop run n tcbs remain i s = ch3_loop coop run n tcbs remain j s"
  using assms
proof (induction d arbitrary: i)
  case 0
  then show ?case by auto
next
  case (Suc d)
  show ?case
  proof (cases "tcb_finish (tcbs ! i)")
    case True
    have "(i + 1) mod n < n" "((i + 1) mod n + d) mod n = (i + Suc d) mod n"
      using Suc.prems(1) by (simp_all add: mod_add_left_eq)
    with Suc.IH [of "(i + 1) mod n"] Suc.prems ch3_skip [OF Suc.prems(5) True] obtain j where
      "j < n" "\<not> tcb_finish (tcbs ! j)" "ch3_reach coop run n ts0 s0 tcbs j s"
      "ch3_loop coop run n tcbs remain ((i + 1) mod n) s = ch3_loop coop run n tcbs remain j s"
      by auto
    moreover have "ch3_loop coop run n tcbs remain i s = ch3_loop coop run n tcbs remain ((i + 1) mod n) s"
      using Suc.prems True by (subst ch3_loop.simps) simp
    ultimately show ?thesis by metis
  qed (use Suc.prems in blast)
qed

definition unfinished :: "nat \<Rightarrow> tcb list \<Rightarrow> nat set" where
  "unfinished n tcbs = {k. k < n \<and> \<not> tcb_finish (tcbs ! k)}"

definition work_left :: "(tcb \<Rightarrow> bare \<Rightarrow> nat) \<Rightarrow> nat \<Rightarrow> tcb list \<Rightarrow> bare \<Rightarrow> nat" where
  "work_left work n tcbs s = (\<Sum>k \<in> unfinished n tcbs. Suc (work (tcbs ! k) s))"

lemma finite_unfinished [simp]: "finite (unfinished n tcbs)"
  by (simp add: unfinished_def)

lemma unfinished_step:
  assumes "j \<in> unfinished n tcbs" "n \<le> length tcbs" "\<not> tcb_finish t1"
  shows "unfinished n (tcbs[j := if fin then t1\<lparr>tcb_finish := True\<rparr> else t1]) =
    (if fin then unfinished n tcbs - {j} else unfinished n tcbs)"
  using assms by (auto simp: unfinished_def nth_list_update split: if_splits)

lemma work_left_step:
  assumes j: "j \<in> unfinished n tcbs" and n: "n \<le> length tcbs" and t1: "\<not> tcb_finish t1"
    and w: "fin \<or> work t1 s1 < work (tcbs ! j) s" "\<And>t'. work t' s1 \<le> work t' s"
  shows "work_left work n (tcbs[j := if fin then t1\<lparr>tcb_finish := True\<rparr> else t1]) s1 < work_left work n tcbs s"
proof -
  let ?U = "unfinished n tcbs - {j}" and ?ts = "tcbs[j := if fin then t1\<lparr>tcb_finish := True\<rparr> else t1]"
  have jn: "j < length tcbs" using j n by (simp add: unfinished_def)
  have others: "(\<Sum>k \<in> ?U. Suc (work (?ts ! k) s1)) \<le> (\<Sum>k \<in> ?U. Suc (work (tcbs ! k) s))"
    using w(2) by (intro sum_mono) simp
  have all: "work_left work n tcbs s = Suc (work (tcbs ! j) s) + (\<Sum>k \<in> ?U. Suc (work (tcbs ! k) s))"
    unfolding work_left_def by (rule sum.remove [OF finite_unfinished j])
  show ?thesis
  proof (cases fin)
    case True
    then have "work_left work n ?ts s1 = (\<Sum>k \<in> ?U. Suc (work (?ts ! k) s1))"
      using unfinished_step [OF j n t1, of fin] by (simp add: work_left_def)
    with others all show ?thesis by simp
  next
    case False
    then have "work_left work n ?ts s1 = Suc (work t1 s1) + (\<Sum>k \<in> ?U. Suc (work (?ts ! k) s1))"
      using unfinished_step [OF j n t1, of fin] sum.remove [OF finite_unfinished j, of "\<lambda>k. Suc (work (?ts ! k) s1)"] jn
      by (simp add: work_left_def)
    with others all w(1) False show ?thesis by simp
  qed
qed

lemma ch3_loop_returns:
  assumes pe: "programs_end coop run work"
    and "n \<le> length tcbs" "i < n \<or> n = 0" "remain = card (unfinished n tcbs)"
    and "ch3_reach coop run n ts0 s0 tcbs i s"
  shows "\<exists>r. ch3_loop coop run n tcbs remain i s = Some r \<and>
     (case r of Inl e \<Rightarrow> turn_panics coop run n ts0 s0 e
      | Inr (tcbs1, s1) \<Rightarrow> length tcbs1 = length tcbs \<and> (\<forall>k < n. tcb_finish (tcbs1 ! k)))"
  using assms(2-)
proof (induction "work_left work n tcbs s" arbitrary: tcbs remain i s rule: less_induct)
  case less
  show ?case
  proof (cases "remain = 0")
    case True
    then have "unfinished n tcbs = {}" using less.prems by simp
    then have "\<forall>k < n. tcb_finish (tcbs ! k)" by (auto simp: unfinished_def)
    with True show ?thesis by (subst ch3_loop.simps) simp
  next
    case False
    then obtain k where k: "k < n" "\<not> tcb_finish (tcbs ! k)"
      using less.prems(3) by (auto simp: unfinished_def card_gt_0_iff)
    with less.prems(2) have i: "i < n" by auto
    then have "(i + (k + n - i)) mod n = k" using k(1) by simp
    with ch3_loop_skip [OF i less.prems(1), of remain "k + n - i" coop run ts0 s0 s] k False less.prems(4) obtain j where
      j: "j < n" "\<not> tcb_finish (tcbs ! j)" "ch3_reach coop run n ts0 s0 tcbs j s"
      and sk: "ch3_loop coop run n tcbs remain i s = ch3_loop coop run n tcbs remain j s" by auto
    have ju: "j \<in> unfinished n tcbs" using j by (simp add: unfinished_def)
    from ch3_inner_returns [OF pe j(1), of ts0 s0 tcbs "tcbs ! j" s] j less.prems(1) obtain q where
      q: "ch3_inner coop run (tcbs ! j) s = Some q"
        "case q of Inl e \<Rightarrow> turn_panics coop run n ts0 s0 e
         | Inr (fin, t1, s1) \<Rightarrow> (fin \<or> work t1 s1 < work (tcbs ! j) s) \<and> (\<forall>t'. work t' s1 \<le> work t' s) \<and> \<not> tcb_finish t1 \<and>
             ch3_reach coop run n ts0 s0 (tcbs[j := if fin then t1\<lparr>tcb_finish := True\<rparr> else t1]) ((j + 1) mod n) s1"
      by (auto simp: list_update_id)
    show ?thesis
    proof (cases q)
      case (Inl e)
      then have "ch3_loop coop run n tcbs remain j s = Some (Inl e)"
        using j less.prems(1) False q(1) by (subst ch3_loop.simps) simp
      with sk q(2) Inl show ?thesis by simp
    next
      case (Inr x)
      obtain fin t1 s1 where x: "q = Inr (fin, t1, s1)" using Inr by (cases x) auto
      define ts where "ts = tcbs[j := if fin then t1\<lparr>tcb_finish := True\<rparr> else t1]"
      have t1: "\<not> tcb_finish t1" using q(2) x by simp
      have "work_left work n ts s1 < work_left work n tcbs s"
        unfolding ts_def using q(2) x by (intro work_left_step [OF ju less.prems(1) t1]) auto
      moreover have "(if fin then remain - 1 else remain) = card (unfinished n ts)"
        unfolding ts_def unfinished_step [OF ju less.prems(1) t1] using less.prems(3) ju by (simp add: card_Diff_singleton)
      moreover have "n \<le> length ts" "(j + 1) mod n < n \<or> n = 0" using less.prems(1) i by (auto simp: ts_def)
      moreover have "ch3_reach coop run n ts0 s0 ts ((j + 1) mod n) s1" using q(2) x by (simp add: ts_def)
      ultimately obtain r where
        r: "ch3_loop coop run n ts (if fin then remain - 1 else remain) ((j + 1) mod n) s1 = Some r"
          "case r of Inl e \<Rightarrow> turn_panics coop run n ts0 s0 e
           | Inr (tcbs1, s2) \<Rightarrow> length tcbs1 = length ts \<and> (\<forall>k < n. tcb_finish (tcbs1 ! k))"
        using less.hyps by blast
      have "ch3_loop coop run n tcbs remain j s = Some r"
        using j less.prems(1) False q(1) x r(1) i by (subst ch3_loop.simps) (simp add: ts_def)
      with sk r(2) show ?thesis by (auto simp: ts_def split: sum.splits)
    qed
  qed
qed

section \<open>Booting\<close>

lemma ch3_load_keeps:
  assumes "ch3_load i app (tcbs, k, s) = Inr (tcbs1, k1, s1)" "\<forall>t \<in> set tcbs. \<not> tcb_finish t"
  shows "i < length tcbs" "length tcbs1 = length tcbs" "k1 = k + 1" "\<forall>t \<in> set tcbs1. \<not> tcb_finish t"
proof -
  from assms(1) obtain t1 where
    l: "i < length tcbs" "tcb_init (fst app) (tcbs ! i) s = Inr (t1, s1)" "tcbs1 = tcbs[i := t1]" "k1 = k + 1"
    by (auto simp: ch3_load_def rbind_eq_Inr vec_index_eq_Inr)
  have "\<not> tcb_finish t1" using l(2) by (auto simp: tcb_init_def rbind_eq_Inr Let_def)
  with l assms(2) show "i < length tcbs" "length tcbs1 = length tcbs" "k1 = k + 1" "\<forall>t \<in> set tcbs1. \<not> tcb_finish t"
    using set_update_subset_insert [of tcbs i t1] by auto
qed

lemma ch3_boot_from:
  fixes s :: bare
  assumes "apps_loop ch3_load (\<lambda>(_, _, s). b_mem s) (\<lambda>mem (ts, k, s). (ts, k, set_mem mem s)) meta i (tcbs, k, s) =
      Inr (tcbs1, k1, s1)"
    and "k = unat i" "unat i \<le> unat (am_count meta)" "k \<le> length tcbs" "\<forall>t \<in> set tcbs. \<not> tcb_finish t"
  shows "length tcbs1 = length tcbs \<and> k1 = unat (am_count meta) \<and> k1 \<le> length tcbs1 \<and> (\<forall>t \<in> set tcbs1. \<not> tcb_finish t)"
  using assms
proof (induction "unat (am_count meta) - unat i" arbitrary: i tcbs k s)
  case 0
  then have c: "am_count meta \<le> i" "unat i = unat (am_count meta)" by (simp_all add: word_le_nat_alt)
  with 0 show ?case by (subst (asm) apps_loop.simps) (simp add: app_next_def)
next
  case (Suc n)
  then have i: "unat i < unat (am_count meta)" by simp
  then have i1: "unat (i + 1) = Suc (unat i)" using unat_inc [of i "am_count meta"] by (simp add: word_less_nat_alt)
  have nc: "\<not> am_count meta \<le> i" using i by (simp add: word_le_nat_alt)
  from Suc.prems(1) obtain r mem where r: "app_next meta i (b_mem s) = Inr (r, mem)"
    by (subst (asm) apps_loop.simps) (auto elim!: rbindE)
  from r nc obtain app j where rj: "r = Some (app, j)"
    by (cases r) (auto simp: app_next_def Let_def elim!: rbindE split: if_splits)
  have j: "j = i + 1" using app_next_advances r rj by blast
  from Suc.prems(1) r rj j obtain st2 where
    l: "ch3_load (unat i) app (tcbs, k, set_mem mem s) = Inr st2"
    and rest: "apps_loop ch3_load (\<lambda>(_, _, s). b_mem s) (\<lambda>mem (ts, k, s). (ts, k, set_mem mem s)) meta (i + 1) st2 =
      Inr (tcbs1, k1, s1)"
    by (subst (asm) apps_loop.simps) (auto elim!: rbindE)
  obtain tcbs2 k2 s2 where st2: "st2 = (tcbs2, k2, s2)" by (cases st2) auto
  note kp = ch3_load_keeps [OF l [unfolded st2] Suc.prems(5)]
  have "n = unat (am_count meta) - unat (i + 1)" "k2 = unat (i + 1)" "unat (i + 1) \<le> unat (am_count meta)" "k2 \<le> length tcbs2"
    using Suc.hyps(2) i i1 kp Suc.prems(2,4) by simp_all
  from Suc.hyps(1) [OF this(1) rest [unfolded st2] this(2-4) kp(4)] kp(2) show ?case by simp
qed

lemma ch3_boot_result:
  assumes "ch3_boot stk meta s = Inr (tcbs, n, s1)"
  shows "n \<le> length tcbs" "n = unat (am_count meta)" "unfinished n tcbs = {..<n}"
  using ch3_boot_from [OF assms [unfolded ch3_boot_def]] by (auto simp: tcb_ZERO_def unfinished_def)

text \<open>
  The stack of control block k, of 8192 bytes at \<^verbatim>\<open>stk k\<close>. The control blocks are on the stack of the kernel,
  which is part of its image: their stacks end below the top of the address space and meet neither the areas
  of the applications nor their images.
\<close>

definition stack_area :: "(nat \<Rightarrow> usize) \<Rightarrow> nat \<Rightarrow> nat set" where
  "stack_area stk k = {a. unat (stk k) \<le> a \<and> a < unat (stk k) + 8192}"

definition stacks_wf :: "(nat \<Rightarrow> usize) \<Rightarrow> app_meta \<Rightarrow> bool" where
  "stacks_wf stk meta \<longleftrightarrow>
     (\<forall>k < unat (am_count meta). unat (stk k) + 8192 < 2 ^ 64 \<and>
        (\<forall>l < unat (am_count meta). \<forall>a \<in> stack_area stk k. a \<notin> app_area meta l \<and>
           \<not> (unat (am_table meta ! l) \<le> a \<and> a < unat (am_table meta ! (l + 1)))))"

text \<open>The context with which application k starts: at its area, with its stack, all other registers zero.\<close>

definition start_context :: "(nat \<Rightarrow> usize) \<Rightarrow> app_meta \<Rightarrow> nat \<Rightarrow> local_context" where
  "start_context stk meta k =
     (ctx_user (am_base meta + of_nat k * am_step meta))\<lparr>xregs := (replicate 31 0)[1 := stk k + 8192]\<rparr>"

lemma tcb_init_result:
  assumes "tcb_stack t = stk" "unat stk + 8192 < 2 ^ 64"
  shows "tcb_init entry t s = Inr (\<lparr>tcb_ctx = (ctx_user entry)\<lparr>xregs := (replicate 31 0)[1 := stk + 8192]\<rparr>, tcb_finish = False, tcb_stack = stk\<rparr>,
      set_mem (\<lambda>x. if unat stk \<le> unat x \<and> unat x < unat stk + 8192 then 0 else b_mem s x) s)"
proof -
  have "mem_fill stk 8192 0 (b_mem s) = (\<lambda>x. if unat stk \<le> unat x \<and> unat x < unat stk + 8192 then 0 else b_mem s x)"
    using in_range_iff [of stk 8192] assms(2) by (auto simp: mem_fill_def fun_eq_iff)
  with assms show ?thesis
    by (cases t) (simp add: tcb_init_def checked_usize_add_def ctx_set_sp_def ctx_set_x_def ctx_user_def Let_def)
qed

lemma area_addr:
  fixes i :: usize
  assumes wf: "apps_wf meta" and i: "unat i < unat (am_count meta)" and j: "j < 0x200000"
  shows "unat (am_base meta + of_nat (unat i) * am_step meta + of_nat j) \<in> app_area meta (unat i)"
proof -
  let ?base = "am_base meta + i * am_step meta"
  have b: "unat ?base = unat (am_base meta) + unat i * unat (am_step meta)" using app_next_loads [OF wf i] by blast
  have "unat (am_base meta) + unat (am_count meta) * unat (am_step meta) < 2 ^ 64" "0x200000 \<le> unat (am_step meta)"
    using wf unfolding apps_wf_def by (simp_all add: word_le_nat_alt)
  moreover have "Suc (unat i) * unat (am_step meta) \<le> unat (am_count meta) * unat (am_step meta)"
    using i by (intro mult_le_mono1) simp
  ultimately have "unat ?base + j < 2 ^ 64" using b j unfolding mult_Suc by linarith
  then have "unat (?base + of_nat j) = unat ?base + j" by (rule unat_add_small)
  then show ?thesis using j by (simp add: app_area_def b)
qed

text \<open>One application: its area holds its image and zeroes, its stack is cleared and nothing else changes.\<close>

lemma ch3_load_one:
  fixes s :: bare
  assumes wf: "apps_wf meta" and st: "stacks_wf stk meta" and i: "unat i < unat (am_count meta)"
    and t: "unat i < length tcbs" "tcb_stack (tcbs ! unat i) = stk (unat i)"
  shows "\<exists>app mem1 s2. app_next meta i (b_mem s) = Inr (Some (app, i + 1), mem1) \<and>
     ch3_load (unat i) app (tcbs, unat i, set_mem mem1 s) =
       Inr (tcbs[unat i := \<lparr>tcb_ctx = start_context stk meta (unat i), tcb_finish = False, tcb_stack = stk (unat i)\<rparr>],
         Suc (unat i), s2) \<and>
     (\<forall>j < 0x200000. b_mem s2 (am_base meta + of_nat (unat i) * am_step meta + of_nat j) = app_byte meta (b_mem s) (unat i) j) \<and>
     (\<forall>x. unat x \<in> stack_area stk (unat i) \<longrightarrow> b_mem s2 x = 0) \<and>
     (\<forall>x. unat x \<notin> app_area meta (unat i) \<longrightarrow> unat x \<notin> stack_area stk (unat i) \<longrightarrow> b_mem s2 x = b_mem s x)"
proof -
  let ?base = "am_base meta + i * am_step meta"
  let ?len = "am_table meta ! (unat i + 1) - am_table meta ! unat i"
  from app_next_loads [OF wf i, of "b_mem s"] obtain mem1 where
    nx: "app_next meta i (b_mem s) = Inr (Some ((?base, ?len), i + 1), mem1)"
      "unat ?base = unat (am_base meta) + unat i * unat (am_step meta)"
    and m1: "\<And>x. mem1 x = (if unat x \<in> app_area meta (unat i)
        then if x - ?base < ?len then b_mem s (am_table meta ! unat i + (x - ?base)) else 0 else b_mem s x)"
    by blast
  have sk: "unat (stk (unat i)) + 8192 < 2 ^ 64" "\<And>a. a \<in> stack_area stk (unat i) \<Longrightarrow> a \<notin> app_area meta (unat i)"
    using st i unfolding stacks_wf_def by blast+
  define s2 where "s2 = set_mem (\<lambda>x. if unat x \<in> stack_area stk (unat i) then 0 else mem1 x) s"
  have "tcb_init ?base (tcbs ! unat i) (set_mem mem1 s) =
      Inr (\<lparr>tcb_ctx = start_context stk meta (unat i), tcb_finish = False, tcb_stack = stk (unat i)\<rparr>, s2)"
    using tcb_init_result [OF t(2) sk(1), of ?base "set_mem mem1 s"]
    by (simp add: start_context_def s2_def set_mem_def stack_area_def cong: if_cong)
  then have ld: "ch3_load (unat i) (?base, ?len) (tcbs, unat i, set_mem mem1 s) =
       Inr (tcbs[unat i := \<lparr>tcb_ctx = start_context stk meta (unat i), tcb_finish = False, tcb_stack = stk (unat i)\<rparr>],
         Suc (unat i), s2)"
    using t(1) by (simp add: ch3_load_def vec_index_def)
  have area: "b_mem s2 (am_base meta + of_nat (unat i) * am_step meta + of_nat j) = app_byte meta (b_mem s) (unat i) j"
    if j: "j < 0x200000" for j
  proof -
    let ?x = "?base + of_nat j"
    have uj: "unat (of_nat j :: usize) = j" using j by (simp add: unsigned_of_nat take_bit_nat_eq_self)
    have a: "unat ?x \<in> app_area meta (unat i)" using area_addr [OF wf i j] by simp
    then have "b_mem s2 ?x = mem1 ?x" using sk(2) by (auto simp: s2_def set_mem_def)
    with m1 [of ?x] a show ?thesis
      by (simp only: if_True add_diff_cancel_left' word_less_nat_alt uj app_byte_def Let_def of_nat_unat ucast_id)
  qed
  show ?thesis
    using nx(1) ld area m1 by (intro exI [of _ "(?base, ?len)"] exI [of _ mem1] exI [of _ s2]) (simp add: s2_def set_mem_def)
qed

lemma image_beside_stacks:
  assumes "apps_wf meta" "stacks_wf stk meta" "k < unat (am_count meta)" "l < unat (am_count meta)"
    and "j < unat (am_table meta ! (k + 1) - am_table meta ! k)"
  shows "unat (am_table meta ! k + of_nat j) \<notin> stack_area stk l"
proof -
  let ?p = "am_table meta ! k" and ?q = "am_table meta ! (k + 1)"
  have "?p \<le> ?q" using assms(1,3) unfolding apps_wf_def by blast
  then have d: "unat (?q - ?p) = unat ?q - unat ?p" by (simp add: unat_sub)
  have "unat (?p + of_nat j) = unat ?p + j"
    using assms(5) d unsigned_less [of ?q, where 'a = nat] by (intro unat_add_small) simp
  then show ?thesis using assms d unfolding stacks_wf_def by force
qed

lemma ch3_boot_loads:
  fixes s :: bare
  assumes wf: "apps_wf meta" and st: "stacks_wf stk meta"
    and "unat i \<le> unat (am_count meta)" "unat (am_count meta) \<le> length tcbs" "\<forall>k < length tcbs. tcb_stack (tcbs ! k) = stk k"
  shows "\<exists>tcbs1 s1. apps_loop ch3_load (\<lambda>(_, _, s). b_mem s) (\<lambda>mem (ts, k, s). (ts, k, set_mem mem s)) meta i (tcbs, unat i, s) =
        Inr (tcbs1, unat (am_count meta), s1) \<and>
     (\<forall>k < unat i. tcbs1 ! k = tcbs ! k) \<and>
     (\<forall>k. unat i \<le> k \<longrightarrow> k < unat (am_count meta) \<longrightarrow>
        tcbs1 ! k = \<lparr>tcb_ctx = start_context stk meta k, tcb_finish = False, tcb_stack = stk k\<rparr>) \<and>
     (\<forall>k j. unat i \<le> k \<longrightarrow> k < unat (am_count meta) \<longrightarrow> j < 0x200000 \<longrightarrow>
        b_mem s1 (am_base meta + of_nat k * am_step meta + of_nat j) = app_byte meta (b_mem s) k j) \<and>
     (\<forall>k x. unat i \<le> k \<longrightarrow> k < unat (am_count meta) \<longrightarrow> unat x \<in> stack_area stk k \<longrightarrow> b_mem s1 x = 0) \<and>
     (\<forall>x. (\<forall>k < unat (am_count meta). unat i \<le> k \<longrightarrow> unat x \<notin> app_area meta k \<and> unat x \<notin> stack_area stk k) \<longrightarrow>
        b_mem s1 x = b_mem s x)"
  using assms(3-)
proof (induction "unat (am_count meta) - unat i" arbitrary: i tcbs s)
  case 0
  then have "am_count meta \<le> i" "unat i = unat (am_count meta)" by (simp_all add: word_le_nat_alt)
  with 0 show ?case by (subst apps_loop.simps) (auto simp: app_next_def set_mem_def)
next
  case (Suc n)
  then have i: "unat i < unat (am_count meta)" by simp
  then have i1: "unat (i + 1) = Suc (unat i)" using unat_inc [of i "am_count meta"] by (simp add: word_less_nat_alt)
  let ?t = "\<lparr>tcb_ctx = start_context stk meta (unat i), tcb_finish = False, tcb_stack = stk (unat i)\<rparr>"
  have il: "unat i < length tcbs" using i Suc.prems(2) by simp
  from ch3_load_one [OF wf st i il, of s] Suc.prems(3) il obtain app mem1 s2 where
    nx: "app_next meta i (b_mem s) = Inr (Some (app, i + 1), mem1)"
    and ld: "ch3_load (unat i) app (tcbs, unat i, set_mem mem1 s) = Inr (tcbs[unat i := ?t], Suc (unat i), s2)"
    and here: "\<And>j. j < 0x200000 \<Longrightarrow>
        b_mem s2 (am_base meta + of_nat (unat i) * am_step meta + of_nat j) = app_byte meta (b_mem s) (unat i) j"
    and zero: "\<And>x. unat x \<in> stack_area stk (unat i) \<Longrightarrow> b_mem s2 x = 0"
    and rest: "\<And>x. unat x \<notin> app_area meta (unat i) \<Longrightarrow> unat x \<notin> stack_area stk (unat i) \<Longrightarrow> b_mem s2 x = b_mem s x"
    by blast
  have "n = unat (am_count meta) - unat (i + 1)" "unat (i + 1) \<le> unat (am_count meta)"
    "unat (am_count meta) \<le> length (tcbs[unat i := ?t])"
    "\<forall>k < length (tcbs[unat i := ?t]). tcb_stack (tcbs[unat i := ?t] ! k) = stk k"
    using Suc.hyps(2) Suc.prems i i1 by (simp_all add: nth_list_update)
  from Suc.hyps(1) [OF this, of s2] i1 obtain tcbs1 s1 where
    run: "apps_loop ch3_load (\<lambda>(_, _, s). b_mem s) (\<lambda>mem (ts, k, s). (ts, k, set_mem mem s)) meta (i + 1)
        (tcbs[unat i := ?t], Suc (unat i), s2) = Inr (tcbs1, unat (am_count meta), s1)"
    and t1: "\<And>k. k < Suc (unat i) \<Longrightarrow> tcbs1 ! k = tcbs[unat i := ?t] ! k"
    and t2: "\<And>k. Suc (unat i) \<le> k \<Longrightarrow> k < unat (am_count meta) \<Longrightarrow>
        tcbs1 ! k = \<lparr>tcb_ctx = start_context stk meta k, tcb_finish = False, tcb_stack = stk k\<rparr>"
    and l2: "\<And>k j. Suc (unat i) \<le> k \<Longrightarrow> k < unat (am_count meta) \<Longrightarrow> j < 0x200000 \<Longrightarrow>
        b_mem s1 (am_base meta + of_nat k * am_step meta + of_nat j) = app_byte meta (b_mem s2) k j"
    and z2: "\<And>k x. Suc (unat i) \<le> k \<Longrightarrow> k < unat (am_count meta) \<Longrightarrow> unat x \<in> stack_area stk k \<Longrightarrow> b_mem s1 x = 0"
    and o2: "\<And>x. (\<forall>k < unat (am_count meta). Suc (unat i) \<le> k \<longrightarrow> unat x \<notin> app_area meta k \<and> unat x \<notin> stack_area stk k) \<Longrightarrow>
        b_mem s1 x = b_mem s2 x"
    by auto
  have stk: "\<And>k l a. k < unat (am_count meta) \<Longrightarrow> l < unat (am_count meta) \<Longrightarrow> a \<in> stack_area stk k \<Longrightarrow> a \<notin> app_area meta l"
    using st unfolding stacks_wf_def by blast
  have all: "apps_loop ch3_load (\<lambda>(_, _, s). b_mem s) (\<lambda>mem (ts, k, s). (ts, k, set_mem mem s)) meta i (tcbs, unat i, s) =
      Inr (tcbs1, unat (am_count meta), s1)"
    by (subst apps_loop.simps) (simp add: nx ld run)
  have byte: "app_byte meta (b_mem s2) k j = app_byte meta (b_mem s) k j" if "k < unat (am_count meta)" for k j
    using image_kept [OF wf that _ i, of j] image_beside_stacks [OF wf st that i, of j] rest by (simp add: app_byte_def Let_def)
  have here1: "b_mem s1 (am_base meta + of_nat (unat i) * am_step meta + of_nat j) = app_byte meta (b_mem s) (unat i) j"
    if j: "j < 0x200000" for j
  proof -
    note a = area_addr [OF wf i j]
    have "\<forall>k < unat (am_count meta). Suc (unat i) \<le> k \<longrightarrow>
        unat (am_base meta + of_nat (unat i) * am_step meta + of_nat j) \<notin> app_area meta k \<and>
        unat (am_base meta + of_nat (unat i) * am_step meta + of_nat j) \<notin> stack_area stk k"
      using app_area_unique [OF wf a] stk [OF _ i] a by (metis Suc_n_not_le_n)
    from o2 [OF this] here [OF j] show ?thesis by simp
  qed
  have zero1: "b_mem s1 x = 0" if x: "unat x \<in> stack_area stk (unat i)" for x
  proof (cases "\<exists>k < unat (am_count meta). Suc (unat i) \<le> k \<and> unat x \<in> stack_area stk k")
    case True
    then show ?thesis using z2 by blast
  next
    case False
    then show ?thesis using o2 [of x] stk [OF i _ x] zero [OF x] by simp
  qed
  have split: "k = unat i \<or> Suc (unat i) \<le> k" if "unat i \<le> k" for k using that by auto
  have "\<forall>k < unat i. tcbs1 ! k = tcbs ! k" using t1 by simp
  moreover have "\<forall>k. unat i \<le> k \<longrightarrow> k < unat (am_count meta) \<longrightarrow>
        tcbs1 ! k = \<lparr>tcb_ctx = start_context stk meta k, tcb_finish = False, tcb_stack = stk k\<rparr>"
    using t1 [of "unat i"] t2 il split by auto
  moreover have "\<forall>k j. unat i \<le> k \<longrightarrow> k < unat (am_count meta) \<longrightarrow> j < 0x200000 \<longrightarrow>
        b_mem s1 (am_base meta + of_nat k * am_step meta + of_nat j) = app_byte meta (b_mem s) k j"
    using here1 l2 byte split by metis
  moreover have "\<forall>k x. unat i \<le> k \<longrightarrow> k < unat (am_count meta) \<longrightarrow> unat x \<in> stack_area stk k \<longrightarrow> b_mem s1 x = 0"
    using zero1 z2 split by blast
  moreover have "\<forall>x. (\<forall>k < unat (am_count meta). unat i \<le> k \<longrightarrow> unat x \<notin> app_area meta k \<and> unat x \<notin> stack_area stk k) \<longrightarrow>
        b_mem s1 x = b_mem s x"
    using o2 rest i by (metis Suc_leD order_refl)
  ultimately show ?case using all by blast
qed

text \<open>
  C39. Booting the multiprogramming kernel. For a table as the build makes it for chapter 3 (a base
  address, areas of at least 2 MiB each, images that fit into them, at most 32 applications) and stacks
  beside the areas and the images, loading does not panic. Every application's area then
  holds the bytes of its image followed by zeroes up to 2 MiB, its control block is unfinished and starts at that area
  with the end of its cleared stack in \<^verbatim>\<open>sp\<close> and zero in the other registers, and no byte outside the
  areas and the stacks has changed.
\<close>

theorem ch3_boots:
  assumes "apps_wf meta" "unat (am_count meta) \<le> APP_CAPACITY" "stacks_wf stk meta"
  shows "\<exists>tcbs s1. ch3_boot stk meta s = Inr (tcbs, unat (am_count meta), s1) \<and>
     (\<forall>k < unat (am_count meta).
        tcbs ! k = \<lparr>tcb_ctx = start_context stk meta k, tcb_finish = False, tcb_stack = stk k\<rparr> \<and>
        (\<forall>j < 0x200000. b_mem s1 (am_base meta + of_nat k * am_step meta + of_nat j) = app_byte meta (b_mem s) k j) \<and>
        (\<forall>x. unat x \<in> stack_area stk k \<longrightarrow> b_mem s1 x = 0)) \<and>
     (\<forall>x. (\<forall>k < unat (am_count meta). unat x \<notin> app_area meta k \<and> unat x \<notin> stack_area stk k) \<longrightarrow> b_mem s1 x = b_mem s x)"
proof -
  let ?ts = "map (\<lambda>i. tcb_ZERO (stk i)) [0..<APP_CAPACITY]"
  have "unat (am_count meta) \<le> length ?ts" "\<forall>k < length ?ts. tcb_stack (?ts ! k) = stk k"
    using assms(2) by (simp_all add: tcb_ZERO_def)
  note b = ch3_boot_loads [OF assms(1,3) _ this, of 0 s]
  obtain tcbs s1 where "ch3_boot stk meta s = Inr (tcbs, unat (am_count meta), s1)"
    "\<And>k. k < unat (am_count meta) \<Longrightarrow> tcbs ! k = \<lparr>tcb_ctx = start_context stk meta k, tcb_finish = False, tcb_stack = stk k\<rparr>"
    "\<And>k j. k < unat (am_count meta) \<Longrightarrow> j < 0x200000 \<Longrightarrow>
       b_mem s1 (am_base meta + of_nat k * am_step meta + of_nat j) = app_byte meta (b_mem s) k j"
    "\<And>k x. k < unat (am_count meta) \<Longrightarrow> unat x \<in> stack_area stk k \<Longrightarrow> b_mem s1 x = 0"
    "\<And>x. \<forall>k < unat (am_count meta). unat x \<notin> app_area meta k \<and> unat x \<notin> stack_area stk k \<Longrightarrow> b_mem s1 x = b_mem s x"
    using b unfolding ch3_boot_def by auto
  then show ?thesis by blast
qed

theorem ch3_boots_witness:
  "\<exists>tcbs s1. ch3_boot (\<lambda>i. 0x80210000 + of_nat i * 0x3000) demo_apps
       \<lparr>b_out = [], b_line_start = True, b_time = 0, b_mem = (\<lambda>a. ucast a), b_timer = 0\<rparr> = Inr (tcbs, 2, s1) \<and>
     sepc (tcb_ctx (tcbs ! 1)) = 0x80600000 \<and> b_mem s1 0x80600001 = 0x04 \<and> b_mem s1 0x80600002 = 0"
proof -
  let ?stk = "\<lambda>i. 0x80210000 + of_nat i * 0x3000 :: usize"
  let ?s = "\<lparr>b_out = [], b_line_start = True, b_time = 0, b_mem = (\<lambda>a. ucast a), b_timer = 0\<rparr> :: bare"
  have n: "unat (am_count demo_apps) = 2" by (simp add: demo_apps_def)
  have two: "(k < 2) = (k = 0 \<or> k = 1)" for k :: nat by auto
  have st: "stacks_wf ?stk demo_apps" unfolding stacks_wf_def n two
    by (auto simp: stack_area_def app_area_def demo_apps_def)
  have "unat (am_count demo_apps) \<le> APP_CAPACITY" by (simp add: n APP_CAPACITY_def)
  from ch3_boots [OF demo_apps_wf this st, of ?s] obtain tcbs s1 where
    l: "ch3_boot ?stk demo_apps ?s = Inr (tcbs, 2, s1)"
    and t: "\<And>k. k < 2 \<Longrightarrow> tcbs ! k = \<lparr>tcb_ctx = start_context ?stk demo_apps k, tcb_finish = False, tcb_stack = ?stk k\<rparr>"
    and b: "\<And>k j. k < 2 \<Longrightarrow> j < 0x200000 \<Longrightarrow>
      b_mem s1 (0x80400000 + of_nat k * 0x200000 + of_nat j) = app_byte demo_apps (\<lambda>a. ucast a) k j"
    unfolding n by (auto simp: demo_apps_def)
  from b [of 1 1] b [of 1 2] have "b_mem s1 0x80600001 = 0x04" "b_mem s1 0x80600002 = 0"
    by (simp_all add: app_byte_def demo_apps_def)
  moreover have "sepc (tcb_ctx (tcbs ! 1)) = 0x80600000"
    using t [of 1] by (simp add: start_context_def demo_apps_def ctx_user_def)
  ultimately show ?thesis using l by blast
qed

text \<open>
  C38. The scheduling loop of the multiprogramming kernel comes to an end. If the programs end (every turn of a
  task that does not panic finishes it or leaves it with less work, and gives no other task more), the
  kernel returns after finitely many turns, whatever the timer does, and in one of three ways only: every
  application of the image has finished, exited or killed; or loading the applications panicked; or
  a turn of an unfinished task panicked, in a state that the loop came to turn by turn from the loaded
  applications. So programs whose turns do not panic in the states they come to are all run to their end.
\<close>

theorem ch3_shuts_down:
  assumes "programs_end coop run work"
  shows "\<exists>r. ch3_main coop run stk meta s = Some r \<and>
     (case r of
        Inl e \<Rightarrow> ch3_boot stk meta s = Inl e \<or>
          (\<exists>ts0 n s0 ts i s1. ch3_boot stk meta s = Inr (ts0, n, s0) \<and>
             ch3_reach coop run n ts0 (print_bytes [0x0A] s0) ts i s1 \<and> i < n \<and> \<not> tcb_finish (ts ! i) \<and>
             ch3_turn coop run (ts ! i) s1 = Inl e)
      | Inr (tcbs, s1) \<Rightarrow> \<forall>k < unat (am_count meta). tcb_finish (tcbs ! k))"
proof (cases "ch3_boot stk meta s")
  case (Inl e)
  then show ?thesis by (simp add: ch3_main_def)
next
  case (Inr x)
  obtain tcbs n s0 where b: "ch3_boot stk meta s = Inr (tcbs, n, s0)" using Inr by (cases x) auto
  note r = ch3_boot_result [OF b]
  let ?s = "print_bytes [0x0A] s0"
  from ch3_loop_returns [OF assms r(1) _ _ ch3_here, of n] r(3) obtain q where
    q: "ch3_loop coop run n tcbs n 0 ?s = Some q"
      "case q of Inl e \<Rightarrow> turn_panics coop run n tcbs ?s e
       | Inr (tcbs1, s2) \<Rightarrow> length tcbs1 = length tcbs \<and> (\<forall>k < n. tcb_finish (tcbs1 ! k))"
    by auto
  have m: "ch3_main coop run stk meta s = Some q" using q(1) by (simp add: ch3_main_def b)
  show ?thesis
  proof (cases q)
    case (Inl e)
    with q(2) m b show ?thesis by (auto simp: turn_panics_def)
  next
    case (Inr y)
    with q(2) m show ?thesis unfolding r(2) by (auto split: prod.splits)
  qed
qed

text \<open>A program that yields as often as register \<^verbatim>\<open>a2\<close> says, and then exits.\<close>

definition demo_code :: bare_code where
  "demo_code ctx s =
     (let k = unat (xregs ctx ! 11) in
      \<lparr>us_context = \<lparr>sctx = 0, xregs = (replicate 31 0)[16 := if k = 0 then SYS_EXIT else SYS_SCHED_YIELD, 11 := of_nat (k - 1)],
         sepc = sepc ctx, supervisor = False, interrupt = True\<rparr>,
       us_mem = b_mem s, us_trap = Env_Call, us_time = b_time s\<rparr>)"

lemma bare_demo_turn:
  "ch3_turn True demo_code t s =
     (let k = unat (xregs (tcb_ctx t) ! 11); u = us_context (demo_code (tcb_ctx t) s); s1 = s\<lparr>b_mem := b_mem s, b_time := b_time s\<rparr> in
      if k = 0 then Inr (Some True, t\<lparr>tcb_ctx := u\<rparr>, s1)
      else Inr (Some False, t\<lparr>tcb_ctx := ctx_move_next (u\<lparr>xregs := (xregs u)[9 := 0]\<rparr>)\<rparr>, s1))"
proof -
  have wf: "ctx_wf (us_context (demo_code c s))" for c by (simp add: demo_code_def ctx_wf_def Let_def)
  have r: "xregs (us_context (demo_code c s)) ! 16 = (if unat (xregs c ! 11) = 0 then SYS_EXIT else SYS_SCHED_YIELD)" for c
    by (simp add: demo_code_def Let_def)
  let ?t = "t\<lparr>tcb_ctx := us_context (demo_code (tcb_ctx t) s)\<rparr>"
  have "ctx_wf (tcb_ctx ?t)" using wf by simp
  note eqs = ch3_handle_syscall_eqs [OF this, of s]
  have tr: "us_trap (demo_code c s) = Env_Call" "us_mem (demo_code c s) = b_mem s" "us_time (demo_code c s) = b_time s" for c
    by (simp_all add: demo_code_def Let_def)
  show ?thesis
    using eqs(1,2) r [of "tcb_ctx t"] by (cases "unat (xregs (tcb_ctx t) ! 11) = 0") (simp_all add: ch3_turn_def execute_def tr Let_def)
qed

lemma demo_ends: "programs_end True demo_code (\<lambda>t s. unat (xregs (tcb_ctx t) ! 11))"
proof -
  have "unat (w - 1) < unat w" if "0 < unat w" for w :: usize
  proof -
    have "1 \<le> w" using that by (simp add: word_le_nat_alt)
    then show ?thesis using that by (simp add: unat_sub)
  qed
  then show ?thesis
    by (auto simp: programs_end_def bare_demo_turn Let_def demo_code_def ctx_move_next_def split: if_splits)
qed

lemma demo_boots:
  "\<exists>x. ch3_boot (\<lambda>i. 0x80210000 + of_nat i * 0x3000) demo_apps
     \<lparr>b_out = [], b_line_start = True, b_time = 0, b_mem = (\<lambda>_. 0), b_timer = 0\<rparr> = Inr x"
  unfolding ch3_boot_def
  by (simp add: apps_loop.simps app_next_def demo_apps_def ch3_load_def tcb_init_def tcb_ZERO_def APP_CAPACITY_def
      checked_usize_add_def checked_usize_sub_def checked_usize_mul_def ctx_set_sp_def APP_AREA_def Let_def upt_rec)

theorem ch3_shuts_down_witness:
  "\<exists>tcbs s1. ch3_main True demo_code (\<lambda>i. 0x80210000 + of_nat i * 0x3000) demo_apps
       \<lparr>b_out = [], b_line_start = True, b_time = 0, b_mem = (\<lambda>_. 0), b_timer = 0\<rparr> = Some (Inr (tcbs, s1)) \<and>
     tcb_finish (tcbs ! 0) \<and> tcb_finish (tcbs ! 1)"
proof -
  let ?stk = "\<lambda>i. 0x80210000 + of_nat i * 0x3000 :: usize"
  let ?s = "\<lparr>b_out = [], b_line_start = True, b_time = 0, b_mem = (\<lambda>_. 0), b_timer = 0\<rparr> :: bare"
  have np: "ch3_turn True demo_code t s \<noteq> Inl e" for t s e by (auto simp: bare_demo_turn Let_def split: if_splits)
  have n: "unat (am_count demo_apps) = 2" by (simp add: demo_apps_def)
  obtain x where x: "ch3_boot ?stk demo_apps ?s = Inr x" using demo_boots by blast
  show ?thesis
    using ch3_shuts_down [OF demo_ends, of ?stk demo_apps ?s] np x unfolding n by (elim exE conjE) (case_tac r; auto)
qed

section \<open>Unimplemented calls\<close>

text \<open>
  A program can stop the kernel of chapter 3. A call whose trait the kernel has registered without
  implementing the method (\<^verbatim>\<open>read\<close>, \<^verbatim>\<open>open\<close>, \<^verbatim>\<open>close\<close>, \<^verbatim>\<open>fork\<close>, \<^verbatim>\<open>exec\<close>, \<^verbatim>\<open>wait\<close>, \<^verbatim>\<open>getpid\<close>) runs into the
  \<^verbatim>\<open>unimplemented!()\<close> of the default method and panics the kernel, while a call of an unregistered trait only
  ends the program.
\<close>

theorem unimplemented_call_panics:
  assumes "us_trap (run (tcb_ctx t) s) = Env_Call" "ctx_wf (us_context (run (tcb_ctx t) s))"
    and "xregs (us_context (run (tcb_ctx t) s)) ! 16 = sid"
  shows "if sid \<in> {SYS_READ, SYS_OPENAT, SYS_CLOSE, SYS_CLONE, SYS_EXECVE, SYS_WAIT4, SYS_GETPID}
     then ch3_turn True run t s = Inl Todo
     else sid \<in> {SYS_WRITE, SYS_EXIT, SYS_SCHED_YIELD, SYS_CLOCK_GETTIME} \<or>
       (\<exists>t1 s1. ch3_turn True run t s = Inr (Some True, t1, s1))"
proof -
  let ?c = "us_context (run (tcb_ctx t) s)"
  let ?t = "t\<lparr>tcb_ctx := ?c\<rparr>" and ?s = "s\<lparr>b_mem := us_mem (run (tcb_ctx t) s), b_time := us_time (run (tcb_ctx t) s)\<rparr>"
  have wf: "ctx_wf (tcb_ctx ?t)" using assms(2) by simp
  have turn: "ch3_turn True run t s = rbind (ch3_handle_syscall ?t ?s) (\<lambda>(ev, t2, s2).
       case ev of Ev_None \<Rightarrow> Inr (None, t2, s2) | Ev_Exit code \<Rightarrow> Inr (Some True, t2, s2)
       | Ev_Yield \<Rightarrow> Inr (Some False, t2, s2) | Ev_UnsupportedSyscall sid \<Rightarrow> Inr (Some True, t2, s2))"
    using assms(1) by (simp add: ch3_turn_def execute_def Let_def)
  show ?thesis
    using turn ch3_handle_syscall_eqs(3,4) [OF wf, of ?s] assms(3) by auto
qed

theorem unimplemented_call_panics_witness:
  "ch3_turn True (\<lambda>c s. \<lparr>us_context = c, us_mem = b_mem s, us_trap = Env_Call, us_time = 0\<rparr>)
     \<lparr>tcb_ctx = (ctx_user 0)\<lparr>xregs := (replicate 31 0)[16 := 63]\<rparr>, tcb_finish = False, tcb_stack = 0\<rparr>
     \<lparr>b_out = [], b_line_start = True, b_time = 0, b_mem = (\<lambda>_. 0), b_timer = 0\<rparr> = Inl Todo"
  using unimplemented_call_panics [of "\<lambda>c s. \<lparr>us_context = c, us_mem = b_mem s, us_trap = Env_Call, us_time = 0\<rparr>"
      "\<lparr>tcb_ctx = (ctx_user 0)\<lparr>xregs := (replicate 31 0)[16 := 63]\<rparr>, tcb_finish = False, tcb_stack = 0\<rparr>"
      "\<lparr>b_out = [], b_line_start = True, b_time = 0, b_mem = (\<lambda>_. 0), b_timer = 0\<rparr>" 63]
  by (simp add: ctx_wf_def SYS_READ_def)

section \<open>Printing\<close>

text \<open>The reference: a stamp before every byte that starts a line.\<close>

fun stamped :: "u8 list \<Rightarrow> bool \<Rightarrow> u8 list \<Rightarrow> u8 list" where
  "stamped st start [] = []"
| "stamped st start (b # bs) = (if start then st else []) @ b # stamped st (b = 0x0A) bs"

lemma stamped_append:
  "stamped st start (xs @ ys) = stamped st start xs @ stamped st (if xs = [] then start else last xs = 0x0A) ys"
  by (induction xs arbitrary: start) auto

lemma stamped_no_newline: "0x0A \<notin> set xs \<Longrightarrow> stamped st False xs = xs"
  by (induction xs) auto

text \<open>A segment has its newline, if any, at the end; the segments make up the text.\<close>

lemma split_inclusive_segments:
  "concat (split_inclusive xs) = xs"
  "seg \<in> set (split_inclusive xs) \<Longrightarrow> seg \<noteq> [] \<and> 0x0A \<notin> set (butlast seg)"
proof -
  show "concat (split_inclusive xs) = xs" by (induction xs) (auto split: list.splits)
  show "seg \<in> set (split_inclusive xs) \<Longrightarrow> seg \<noteq> [] \<and> 0x0A \<notin> set (butlast seg)"
    by (induction xs arbitrary: seg) (auto split: list.splits if_splits)
qed

lemma stamped_segment:
  assumes "seg \<noteq> []" "0x0A \<notin> set (butlast seg)"
  shows "stamped st start seg = (if start then st else []) @ seg"
proof (cases seg)
  case (Cons b bs)
  show ?thesis
  proof (cases "bs = []")
    case False
    with assms Cons have "b \<noteq> 0x0A" "0x0A \<notin> set (butlast bs)" by auto
    moreover have "bs = butlast bs @ [last bs]" using False by simp
    moreover have "butlast bs = [] \<or> last (butlast bs) \<noteq> 0x0A" using calculation(2) last_in_set by metis
    ultimately have "stamped st False bs = bs"
      using stamped_append [of st False "butlast bs" "[last bs]"] stamped_no_newline [of "butlast bs" st] by auto
    with Cons \<open>b \<noteq> 0x0A\<close> show ?thesis by simp
  qed (simp add: Cons)
qed (use assms in simp)

lemma print_segments:
  assumes "\<forall>seg \<in> set segs. seg \<noteq> [] \<and> 0x0A \<notin> set (butlast seg)" "monotonic_time_ns (b_time s) = Inr ns"
  shows "rfold print_segment segs s =
    Inr (s\<lparr>b_out := b_out s @ stamped (time_stamp (ns div 1000000)) (b_line_start s) (concat segs),
      b_line_start := if concat segs = [] then b_line_start s else last (concat segs) = 0x0A\<rparr>)"
  using assms
proof (induction segs arbitrary: s)
  case (Cons seg segs)
  let ?st = "time_stamp (ns div 1000000)"
  let ?s1 = "s\<lparr>b_out := b_out s @ stamped ?st (b_line_start s) seg, b_line_start := last seg = 0x0A\<rparr>"
  have seg: "seg \<noteq> []" "0x0A \<notin> set (butlast seg)" using Cons.prems by auto
  have one: "print_segment seg s = Inr ?s1"
    using Cons.prems(2) seg stamped_segment [OF seg]
    by (simp add: print_segment_def print_bytes_def ends_with_newline_def)
  have "rfold print_segment segs ?s1 = Inr (?s1\<lparr>b_out := b_out ?s1 @ stamped ?st (b_line_start ?s1) (concat segs),
      b_line_start := if concat segs = [] then b_line_start ?s1 else last (concat segs) = 0x0A\<rparr>)"
    using Cons.prems by (intro Cons.IH) auto
  then show ?case using one seg by (simp add: stamped_append)
qed simp

text \<open>
  What the kernel of chapter 3 prints. While the clock is in range, printing a text through
  \<^verbatim>\<open>print_with_timestamp\<close>, which splits it into lines and remembers whether the last one was complete, appends
  the text with a time stamp before every byte that starts a line and nowhere else; so a text written
  in pieces looks the same as the text written at once.
\<close>

theorem timestamps_at_line_starts:
  assumes "unat (b_time s) * 10000 < 2 ^ 64"
  shows "print_with_timestamp str s =
      Inr (s\<lparr>b_out := b_out s @ stamped (time_stamp (b_time s * 10000 div 125 div 1000000)) (b_line_start s) str,
        b_line_start := if str = [] then b_line_start s else last str = 0x0A\<rparr>) \<and>
    (\<forall>xs ys. str = xs @ ys \<longrightarrow>
      rbind (print_with_timestamp xs s) (print_with_timestamp ys) = print_with_timestamp str s)"
proof -
  have p: "print_with_timestamp str s =
      Inr (s\<lparr>b_out := b_out s @ stamped (time_stamp (b_time s * 10000 div 125 div 1000000)) (b_line_start s) str,
        b_line_start := if str = [] then b_line_start s else last str = 0x0A\<rparr>)"
    if "unat (b_time s) * 10000 < 2 ^ 64" for str s
    using print_segments [of "split_inclusive str" s] split_inclusive_segments that
    by (simp add: print_with_timestamp_def monotonic_time_ns_def)
  have "print_with_timestamp ys (s\<lparr>b_out := bs, b_line_start := l\<rparr>) =
      Inr (s\<lparr>b_out := bs @ stamped (time_stamp (b_time s * 10000 div 125 div 1000000)) l ys,
        b_line_start := if ys = [] then l else last ys = 0x0A\<rparr>)" for ys bs l
    using p [of "s\<lparr>b_out := bs, b_line_start := l\<rparr>" ys] assms by simp
  then show ?thesis using p [OF assms] by (auto simp: stamped_append)
qed

theorem timestamps_at_line_starts_witness:
  "rbind (print_with_timestamp [0x41, 0x0A, 0x42] \<lparr>b_out = [], b_line_start = True, b_time = 25000, b_mem = (\<lambda>_. 0), b_timer = 0\<rparr>)
     (\<lambda>s. Inr (b_out s, b_line_start s)) =
   Inr ([0x5B, 0x20, 0x20, 0x20, 0x20, 0x32, 0x20, 0x6D, 0x73, 0x5D, 0x20, 0x41, 0x0A,
         0x5B, 0x20, 0x20, 0x20, 0x20, 0x32, 0x20, 0x6D, 0x73, 0x5D, 0x20, 0x42], False)"
proof -
  have "replicate 4 x = [x, x, x, x]" for x :: u8 by (simp add: numeral_eq_Suc)
  then show ?thesis
    using timestamps_at_line_starts [of "\<lparr>b_out = [], b_line_start = True, b_time = 25000, b_mem = (\<lambda>_. 0), b_timer = 0\<rparr>"
        "[0x41, 0x0A, 0x42]"]
    by (simp add: time_stamp_def decimal.simps Let_def)
qed

end
