(* ===== verification/Kernel_Ch4.thy ===== *)
theory Kernel_Ch4
  imports Kernel_Ch5 Kernel_Ch3
begin

unbundle bit_operations_syntax

text \<open>
  The kernel of chapter 4, from \<^verbatim>\<open>ch4/src/main.rs\<close> and \<^verbatim>\<open>ch4/src/process.rs\<close>, on the 64-bit target: the
  applications of the image become processes with an address space each, and a scheduling thread runs the
  first process of the list until it ends. The building of an address space is that of theory \<^verbatim>\<open>Kernel_Ch5\<close>,
  the time stamps are those of theory \<^verbatim>\<open>Kernel_Ch3\<close>.
\<close>

section \<open>State\<close>

record proc4 =
  p4_context :: foreign_context
  p4_space :: "sv39_manager address_space"

record 'h ch4_kernel = console +
  c4_processes :: "proc4 list"
  c4_phys :: "'h phys"
  c4_kspace :: "sv39_manager address_space"

section \<open>Processes\<close>

definition ch4_process_new ::
    "('d, 'h) kenv \<Rightarrow> elf_file \<Rightarrow> 'h phys \<Rightarrow> (proc4 option \<times> 'h phys) res" where
  "ch4_process_new E elf ph =
     (if \<not> elf_accepted elf then Inr (None, ph)
      else
        rbind (elf_image E elf ph) (\<lambda>(sp, ph1).
        rbind (elf_context elf sp) (\<lambda>ctx. Inr (Some \<lparr>p4_context = ctx, p4_space = sp\<rparr>, ph1))))"

definition ch4_set_phys :: "'h phys \<Rightarrow> 'h ch4_kernel \<Rightarrow> 'h ch4_kernel" where
  "ch4_set_phys ph k = k\<lparr>c4_phys := ph\<rparr>"

text \<open>The entry of the portal page, from the kernel's root table to that of the process.\<close>

definition ch4_map_portal :: "sv39_manager address_space \<Rightarrow> 'h ch4_kernel \<Rightarrow> 'h ch4_kernel res" where
  "ch4_map_portal sp k =
     rbind (index_in sv39 PROTAL_TRANSIT (MAX_LEVEL sv39)) (\<lambda>i.
     rbind (from_root sv39 (page_manager (c4_kspace k))) (\<lambda>kroot.
     rbind (pt_index (frames (c4_phys k)) kroot i) (\<lambda>p.
     rbind (from_root sv39 (page_manager sp)) (\<lambda>root.
     rbind (pt_index_mut root i p (c4_phys k)) (\<lambda>ph. Inr (ch4_set_phys ph k))))))"

text \<open>One turn of the loop over the applications.\<close>

definition ch4_load :: "('d, 'h) kenv \<Rightarrow> nat \<Rightarrow> usize \<times> usize \<Rightarrow> 'h ch4_kernel \<Rightarrow> 'h ch4_kernel res" where
  "ch4_load E i app k =
     (let (base, len) = app in
      rbind (unwrap (ke_elf E (load_bytes (c4_phys k) base (unat len)))) (\<lambda>elf.
      rbind (ch4_process_new E elf (c4_phys k)) (\<lambda>(r, ph).
        let k1 = ch4_set_phys ph k in
        case r of
          Some process \<Rightarrow>
            rbind (ch4_map_portal (p4_space process) k1) (\<lambda>k2.
              Inr (k2\<lparr>c4_processes := c4_processes k2 @ [process]\<rparr>))
        | None \<Rightarrow> Inr k1)))"

section \<open>System calls\<close>

text \<open>\<^verbatim>\<open>PROCESSES.get(caller.entity).unwrap()\<close>.\<close>

definition ch4_process :: "caller \<Rightarrow> 'h ch4_kernel \<Rightarrow> proc4 res" where
  "ch4_process clr k =
     unwrap (if unat (entity clr) < length (c4_processes k) then Some (c4_processes k ! unat (entity clr)) else None)"

definition ch4_ptr :: "('d, 'h) kenv \<Rightarrow> proc4 \<Rightarrow> usize \<Rightarrow> vm_flags \<Rightarrow> 'h ch4_kernel \<Rightarrow> usize option res" where
  "ch4_ptr E p a flags k =
     finished (translate sv39 (kmgr E) (p4_space p) (vaddr_new sv39 a) flags (c4_phys k))"

definition ch4_write :: "('d, 'h) kenv \<Rightarrow> caller \<Rightarrow> usize \<Rightarrow> usize \<Rightarrow> usize \<Rightarrow> 'h ch4_kernel sys" where
  "ch4_write E clr fd buf cnt k =
     (if fd = STDOUT \<or> fd = STDDEBUG then
        rbind (ch4_process clr k) (\<lambda>p.
        rbind (ch4_ptr E p buf READABLE k) (\<lambda>r.
          case r of
            Some ptr \<Rightarrow>
              rbind (print_with_timestamp (load_bytes (c4_phys k) ptr (unat cnt)) k) (\<lambda>k1. Inr (cnt, k1))
          | None \<Rightarrow> Inr (- 1, k)))
      else Inr (- 1, k))"

definition ch4_exit :: "caller \<Rightarrow> usize \<Rightarrow> 'h ch4_kernel sys" where
  "ch4_exit clr status k = Inr (0, k)"

definition ch4_sched_yield :: "caller \<Rightarrow> 'h ch4_kernel sys" where
  "ch4_sched_yield clr k = Inr (0, k)"

definition ch4_clock_gettime :: "('d, 'h) kenv \<Rightarrow> caller \<Rightarrow> usize \<Rightarrow> usize \<Rightarrow> 'h ch4_kernel sys" where
  "ch4_clock_gettime E clr clock_id tp k =
     (if clock_id = CLOCK_MONOTONIC then
        rbind (ch4_process clr k) (\<lambda>p.
        rbind (ch4_ptr E p tp WRITEABLE k) (\<lambda>r.
          case r of
            Some ptr \<Rightarrow>
              rbind (monotonic_time_ns (b_time k)) (\<lambda>time.
                let t = \<lparr>tv_sec = time div 1000000000, tv_nsec = time mod 1000000000\<rparr>
                in Inr (0, ch4_set_phys (store_bytes ptr (time_spec_bytes t) (c4_phys k)) k))
          | None \<Rightarrow> Inr (- 1, k)))
      else Inr (- 1, k))"

definition ch4_containers :: "('d, 'h) kenv \<Rightarrow> 'h ch4_kernel containers" where
  "ch4_containers E =
     init_clock (clock_sys_default\<lparr>sys_clock_gettime := ch4_clock_gettime E\<rparr>)
      (init_scheduling (scheduling_sys_default\<lparr>sys_sched_yield := ch4_sched_yield\<rparr>)
       (init_process (process_sys_default\<lparr>sys_exit := ch4_exit\<rparr>)
         (init_io (io_sys_default\<lparr>sys_write := ch4_write E\<rparr>) containers_new)))"

section \<open>The scheduling thread\<close>

definition ch4_remove :: "'h ch4_kernel \<Rightarrow> 'h ch4_kernel" where
  "ch4_remove k = k\<lparr>c4_processes := tl (c4_processes k)\<rparr>"

definition ch4_set_context :: "local_context \<Rightarrow> 'h ch4_kernel \<Rightarrow> 'h ch4_kernel res" where
  "ch4_set_context c k =
     rbind (vec_index (c4_processes k) 0) (\<lambda>p.
       Inr (k\<lparr>c4_processes := (c4_processes k)[0 := p\<lparr>p4_context := (p4_context p)\<lparr>fcontext := c\<rparr>\<rparr>]\<rparr>))"

text \<open>The branch of \<^verbatim>\<open>UserEnvCall\<close>, with the context of the first process.\<close>

definition ch4_serve :: "'h ch4_kernel containers \<Rightarrow> local_context \<Rightarrow> 'h ch4_kernel \<Rightarrow> 'h ch4_kernel res" where
  "ch4_serve C ctx k =
     rbind (read_frame ctx) (\<lambda>(sid, args).
     rbind (handle C \<lparr>entity = 0, flow = 0\<rparr> sid args k) (\<lambda>(r, k1).
       case r of
         Done ret \<Rightarrow>
           if sid = SYS_EXIT then Inr (ch4_remove k1)
           else rbind (ctx_set_a 0 ret ctx) (\<lambda>ctx1. ch4_set_context (ctx_move_next ctx1) k1)
       | Unsupported _ \<Rightarrow> Inr (ch4_remove k1)))"

text \<open>One turn of the loop of \<^verbatim>\<open>schedule\<close>: the process runs, then its trap is served.\<close>

definition ch4_turn :: "'h ch4_kernel containers \<Rightarrow> 'h user_code \<Rightarrow> 'h ch4_kernel \<Rightarrow> 'h ch4_kernel res" where
  "ch4_turn C run k =
     rbind (vec_index (c4_processes k) 0) (\<lambda>p.
       let u = run (p4_context p) (c4_phys k) in
       rbind (ch4_set_context (ut_context u) (k\<lparr>c4_phys := ut_phys u, b_time := ut_time u\<rparr>)) (\<lambda>k1.
         case ut_trap u of
           UserEnvCall \<Rightarrow> ch4_serve C (ut_context u) k1
         | OtherTrap \<Rightarrow> Inr (ch4_remove k1)))"

partial_function (option) schedule ::
    "'h ch4_kernel containers \<Rightarrow> 'h user_code \<Rightarrow> 'h ch4_kernel \<Rightarrow> 'h ch4_kernel res option" where
  "schedule C run k =
     (if c4_processes k = [] then Some (Inr k)
      else case ch4_turn C run k of Inl e \<Rightarrow> Some (Inl e) | Inr k1 \<Rightarrow> schedule C run k1)"

section \<open>Start\<close>

definition CH4_MEMORY :: usize where
  "CH4_MEMORY = push_bit 20 24"

text \<open>\<^verbatim>\<open>"_WRV"\<close>.\<close>

definition SCHEDULE_STACK_FLAGS :: vm_flags where
  "SCHEDULE_STACK_FLAGS = build_from_str [0x5F, 0x57, 0x52, 0x56]"

definition ch4_start ::
    "('d, 'h) kenv \<Rightarrow> kernel_layout \<Rightarrow> nat \<Rightarrow> app_meta \<Rightarrow> 'h phys \<Rightarrow> usize \<Rightarrow> 'h ch4_kernel res" where
  "ch4_start E lay text meta ph now =
     rbind (portal_alloc E text ph) (\<lambda>(portal_ptr, ph1).
     rbind (ch5_kernel_space E lay CH4_MEMORY portal_ptr ph1) (\<lambda>(ks, ph2).
     rbind (apps_loop (ch4_load E) (\<lambda>k. load_byte (c4_phys k)) (\<lambda>mem k. ch4_set_phys (set_flat mem (c4_phys k)) k) meta 0
              \<lparr>b_out = [0x0A], b_line_start = True, b_time = now, c4_processes = [], c4_phys = ph2, c4_kspace = ks\<rparr>) (\<lambda>k.
     rbind (global_alloc (ke_buddy E) (push_bit 12 2) (push_bit 12 1) (c4_phys k)) (\<lambda>(stack, ph3).
     rbind (finished (map_extern sv39 (kmgr E) (push_bit 26 1 - 2) (push_bit 26 1) (drop_bit 12 stack)
              SCHEDULE_STACK_FLAGS (c4_kspace k) ph3)) (\<lambda>(ks1, ph4).
       Inr (k\<lparr>c4_kspace := ks1, c4_phys := ph4\<rparr>))))))"

definition ch4_main ::
    "('d, 'h) kenv \<Rightarrow> 'h user_code \<Rightarrow> kernel_layout \<Rightarrow> nat \<Rightarrow> app_meta \<Rightarrow> 'h phys \<Rightarrow> usize \<Rightarrow> 'h ch4_kernel res option" where
  "ch4_main E run lay text meta ph now =
     (case ch4_start E lay text meta ph now of
        Inl e \<Rightarrow> Some (Inl e)
      | Inr k \<Rightarrow> schedule (ch4_containers E) run k)"

end
