(* ===== verification/Ch4_Props.thy ===== *)
theory Ch4_Props
  imports Kernel_Ch4
begin

text \<open>
  Properties of the kernel of chapter 4: the processes run one after the other in the order of the image,
  a process that yields is not switched, and programs that end make the kernel shut down.
\<close>

section \<open>System calls leave the list of processes alone\<close>

lemma print_segment_keeps: "print_segment seg k = Inr k1 \<Longrightarrow> c4_processes k1 = c4_processes k"
  by (auto simp: print_segment_def print_bytes_def elim!: rbindE split: if_splits)

lemma rfold_print_keeps: "rfold print_segment segs k = Inr k1 \<Longrightarrow> c4_processes k1 = c4_processes k"
  by (induction segs arbitrary: k) (auto dest: print_segment_keeps elim!: rbindE)

lemma print_keeps_processes: "print_with_timestamp bs k = Inr k1 \<Longrightarrow> c4_processes k1 = c4_processes k"
  unfolding print_with_timestamp_def by (rule rfold_print_keeps)

lemma ch4_write_keeps: "ch4_write E clr fd buf cnt k = Inr (r, k1) \<Longrightarrow> c4_processes k1 = c4_processes k"
  by (auto simp: ch4_write_def dest: print_keeps_processes elim!: rbindE split: if_splits option.splits)

lemma ch4_clock_keeps: "ch4_clock_gettime E clr cid tp k = Inr (r, k1) \<Longrightarrow> c4_processes k1 = c4_processes k"
  by (auto simp: ch4_clock_gettime_def ch4_set_phys_def Let_def elim!: rbindE split: if_splits option.splits)

lemmas ch4_call_simps =
  handle_def container_call_def ch4_containers_def init_clock_def init_scheduling_def
  init_process_def init_io_def containers_new_def container_init_def container_new_def
  scheduling_sys_default_def process_sys_default_def io_sys_default_def clock_sys_default_def sys_todo_def
  ch4_sched_yield_def ch4_exit_def syscall_ids

definition ch4_served :: "syscall_id set" where
  "ch4_served = {SYS_WRITE, SYS_SCHED_YIELD, SYS_CLOCK_GETTIME}"

lemma ch4_handle_cases:
  assumes "handle (ch4_containers E) clr sid args k = Inr (r, k1)"
  shows "c4_processes k1 = c4_processes k"
    and "sid \<in> insert SYS_EXIT ch4_served \<Longrightarrow> \<exists>ret. r = Done ret"
    and "sid \<notin> insert SYS_EXIT ch4_served \<Longrightarrow> r = Unsupported sid"
    and "sid = SYS_SCHED_YIELD \<Longrightarrow> k1 = k"
  using assms
  by (auto simp: ch4_served_def ch4_call_simps elim!: rbindE split: prod.splits if_splits dest!: ch4_write_keeps ch4_clock_keeps)

section \<open>One turn\<close>

definition with_context :: "proc4 \<Rightarrow> local_context \<Rightarrow> proc4" where
  "with_context p c = p\<lparr>p4_context := (p4_context p)\<lparr>fcontext := c\<rparr>\<rparr>"

lemma ch4_turn_processes:
  assumes "c4_processes k = p # ps" "ch4_turn (ch4_containers E) run k = Inr k1"
    and "u = run (p4_context p) (c4_phys k)" "ctx_wf (ut_context u)"
  shows "(if ut_trap u = UserEnvCall \<and> xregs (ut_context u) ! 16 \<in> ch4_served
      then \<exists>ret. c4_processes k1 =
        with_context p (ctx_move_next ((ut_context u)\<lparr>xregs := (xregs (ut_context u))[9 := ret]\<rparr>)) # ps
      else c4_processes k1 = ps)"
proof (cases "ut_trap u")
  case UserEnvCall
  let ?c = "ut_context u" and ?k = "k\<lparr>c4_phys := ut_phys u, b_time := ut_time u, c4_processes := with_context p (ut_context u) # ps\<rparr>"
  have "ch4_serve (ch4_containers E) ?c ?k = Inr k1"
    using assms UserEnvCall by (simp add: ch4_turn_def ch4_set_context_def with_context_def Let_def)
  then obtain args r k2 where h: "handle (ch4_containers E) \<lparr>entity = 0, flow = 0\<rparr> (xregs ?c ! 16) args ?k = Inr (r, k2)"
    and e: "(case r of Done ret \<Rightarrow> if xregs ?c ! 16 = SYS_EXIT then Inr (ch4_remove k2)
           else rbind (ctx_set_a 0 ret ?c) (\<lambda>ctx1. ch4_set_context (ctx_move_next ctx1) k2)
       | Unsupported _ \<Rightarrow> Inr (ch4_remove k2)) = Inr k1"
    using read_frame_wf [OF assms(4)] unfolding ch4_serve_def by (auto simp del: ctx_set_a_wf elim!: rbindE)
  note c = ch4_handle_cases [OF h]
  show ?thesis
    using e c UserEnvCall assms(4)
    by (auto simp: ch4_remove_def ch4_set_context_def with_context_def ch4_served_def syscall_ids split: if_splits syscall_result.splits)
next
  case OtherTrap
  with assms show ?thesis by (auto simp: ch4_turn_def ch4_set_context_def ch4_remove_def Let_def)
qed

section \<open>The order of the processes\<close>

text \<open>
  Whether the turn of the first process ends it: the trap is no system call, or the call is \<^verbatim>\<open>exit\<close> or one
  that the kernel does not serve.
\<close>

definition ends_first :: "'h user_code \<Rightarrow> 'h ch4_kernel \<Rightarrow> bool" where
  "ends_first run k \<longleftrightarrow>
     (let u = run (p4_context (hd (c4_processes k))) (c4_phys k) in
      ut_trap u \<noteq> UserEnvCall \<or> xregs (ut_context u) ! 16 \<notin> ch4_served)"

text \<open>The states the scheduling thread reaches, with the number of turns so far that ended a process.\<close>

inductive ch4_reach :: "('d, 'h) kenv \<Rightarrow> 'h user_code \<Rightarrow> 'h ch4_kernel \<Rightarrow> nat \<Rightarrow> 'h ch4_kernel \<Rightarrow> bool"
  for E :: "('d, 'h) kenv" and run :: "'h user_code" and k :: "'h ch4_kernel" where
  ch4_here: "ch4_reach E run k 0 k"
| ch4_step: "ch4_reach E run k n k1 \<Longrightarrow> ch4_turn (ch4_containers E) run k1 = Inr k2 \<Longrightarrow>
    ch4_reach E run k (if ends_first run k1 then Suc n else n) k2"

text \<open>The contexts of user code have their registers.\<close>

definition contexts_fine :: "'h user_code \<Rightarrow> bool" where
  "contexts_fine run \<longleftrightarrow> (\<forall>c ph. ctx_wf (ut_context (run c ph)))"

text \<open>A list of processes of which the ones before \<^verbatim>\<open>n\<close> have ended and those after \<^verbatim>\<open>n\<close> have not run.\<close>

definition in_order :: "proc4 list \<Rightarrow> nat \<Rightarrow> proc4 list \<Rightarrow> bool" where
  "in_order l n now \<longleftrightarrow>
     (if n < length l then \<exists>c. now = with_context (l ! n) c # drop (Suc n) l else now = [])"

lemma in_order_start: "in_order l 0 l"
proof (cases l)
  case (Cons p ps)
  have "p = with_context p (fcontext (p4_context p))" by (simp add: with_context_def)
  with Cons show ?thesis by (auto simp: in_order_def)
qed (simp add: in_order_def)

lemma in_order_drop: "in_order l (Suc n) (drop (Suc n) l)"
proof (cases "Suc n < length l")
  case True
  have "l ! Suc n = with_context (l ! Suc n) (fcontext (p4_context (l ! Suc n)))" by (simp add: with_context_def)
  with True show ?thesis by (auto simp: in_order_def Cons_nth_drop_Suc [symmetric])
qed (simp add: in_order_def)

lemma with_context_again: "with_context (with_context p c) d = with_context p d"
  by (simp add: with_context_def)

lemma ch4_turn_in_order:
  assumes "contexts_fine run" "in_order l n (c4_processes k)" "ch4_turn (ch4_containers E) run k = Inr k1"
  shows "n < length l \<and> in_order l (if ends_first run k then Suc n else n) (c4_processes k1)"
proof -
  have n: "n < length l"
    using assms(2,3) by (auto simp: in_order_def ch4_turn_def vec_index_def split: if_splits)
  with assms(2) obtain c where c: "c4_processes k = with_context (l ! n) c # drop (Suc n) l"
    by (auto simp: in_order_def)
  have "ctx_wf (ut_context (run (p4_context (with_context (l ! n) c)) (c4_phys k)))"
    using assms(1) by (simp add: contexts_fine_def)
  from ch4_turn_processes [OF c assms(3) refl this] n show ?thesis
    by (auto simp: c ends_first_def Let_def with_context_again in_order_def [of l n] in_order_drop split: if_splits)
qed

text \<open>
  C37. The processes of chapter 4 run one after the other in the order of the image, each until it ends
  itself. In every state the scheduling thread reaches after n turns that ended a process (with a trap that is
  no system call, with \<^verbatim>\<open>exit\<close>, or with a call the kernel does not serve; so not with \<^verbatim>\<open>sched_yield\<close>), exactly
  the first n processes are gone: process n is at the head with the address space it started
  with and a context of its own, and every process after it is exactly as it was loaded: it has not run, and
  no turn of another process has touched it.
\<close>

theorem ch4_runs_in_order:
  assumes "contexts_fine run" "ch4_reach E run k n k1"
  shows "n \<le> length (c4_processes k) \<and> in_order (c4_processes k) n (c4_processes k1)"
  using assms(2)
proof (induction rule: ch4_reach.induct)
  case ch4_here
  then show ?case using in_order_start by blast
next
  case (ch4_step n k1 k2)
  then have "n < length (c4_processes k) \<and>
      in_order (c4_processes k) (if ends_first run k1 then Suc n else n) (c4_processes k2)"
    using ch4_turn_in_order [OF assms(1)] by blast
  then show ?case by simp
qed

section \<open>Shutting down\<close>

text \<open>Programs that end: every served call leaves a process with less work.\<close>

definition calls_end :: "'h user_code \<Rightarrow> (foreign_context \<Rightarrow> nat) \<Rightarrow> bool" where
  "calls_end run work \<longleftrightarrow>
     (\<forall>c ph ret. let u = run c ph; d = ut_context u in
        ut_trap u = UserEnvCall \<longrightarrow> xregs d ! 16 \<in> ch4_served \<longrightarrow>
          work (c\<lparr>fcontext := ctx_move_next (d\<lparr>xregs := (xregs d)[9 := ret]\<rparr>)\<rparr>) < work c)"

lemma ch4_turn_decreases:
  assumes "contexts_fine run" "calls_end run work" "c4_processes k = p # ps" "ch4_turn (ch4_containers E) run k = Inr k1"
  shows "sum_list (map (\<lambda>q. Suc (work (p4_context q))) (c4_processes k1)) <
    sum_list (map (\<lambda>q. Suc (work (p4_context q))) (c4_processes k))"
proof -
  let ?u = "run (p4_context p) (c4_phys k)"
  have wf: "ctx_wf (ut_context ?u)" using assms(1) by (simp add: contexts_fine_def)
  show ?thesis
  proof (cases "ut_trap ?u = UserEnvCall \<and> xregs (ut_context ?u) ! 16 \<in> ch4_served")
    case True
    then obtain ret where
      "c4_processes k1 = with_context p (ctx_move_next ((ut_context ?u)\<lparr>xregs := (xregs (ut_context ?u))[9 := ret]\<rparr>)) # ps"
      using ch4_turn_processes [OF assms(3,4) refl wf] by auto
    moreover have "work ((p4_context p)\<lparr>fcontext := ctx_move_next ((ut_context ?u)\<lparr>xregs := (xregs (ut_context ?u))[9 := ret]\<rparr>)\<rparr>)
        < work (p4_context p)"
      using assms(2) True unfolding calls_end_def Let_def by blast
    ultimately show ?thesis using assms(3) by (simp add: with_context_def)
  next
    case False
    then have "c4_processes k1 = ps" using ch4_turn_processes [OF assms(3,4) refl wf] by (simp only: if_False)
    with assms(3) show ?thesis by simp
  qed
qed

text \<open>
  The kernel of chapter 4 shuts down. If the programs end (every call of a process that the kernel serves
  leaves it with less work), the scheduling thread returns after finitely many turns, whatever the
  programs do to memory in between: either every process is gone, or a turn panicked, and then the panic
  is that of a turn in a state the thread reached.
\<close>

theorem ch4_shuts_down:
  assumes "contexts_fine run" "calls_end run work"
  shows "\<exists>r. schedule (ch4_containers E) run k = Some r \<and>
     (case r of
        Inl e \<Rightarrow> \<exists>n k1. ch4_reach E run k n k1 \<and> c4_processes k1 \<noteq> [] \<and> ch4_turn (ch4_containers E) run k1 = Inl e
      | Inr k1 \<Rightarrow> \<exists>n. ch4_reach E run k n k1 \<and> c4_processes k1 = [])"
proof -
  have "\<exists>r. schedule (ch4_containers E) run j = Some r \<and>
     (case r of
        Inl e \<Rightarrow> \<exists>n k1. ch4_reach E run k n k1 \<and> c4_processes k1 \<noteq> [] \<and> ch4_turn (ch4_containers E) run k1 = Inl e
      | Inr k1 \<Rightarrow> \<exists>n. ch4_reach E run k n k1 \<and> c4_processes k1 = [])" if "ch4_reach E run k n j" for n j
    using that
  proof (induction "sum_list (map (\<lambda>q. Suc (work (p4_context q))) (c4_processes j))" arbitrary: n j rule: less_induct)
    case less
    show ?case
    proof (cases "c4_processes j")
      case Nil
      then show ?thesis using less.prems by (subst schedule.simps) auto
    next
      case (Cons p ps)
      show ?thesis
      proof (cases "ch4_turn (ch4_containers E) run j")
        case (Inl e)
        then show ?thesis using less.prems Cons by (subst schedule.simps) (simp, metis list.distinct(1))
      next
        case (Inr j1)
        from less.hyps [OF ch4_turn_decreases [OF assms Cons Inr] ch4_step [OF less.prems Inr]]
        show ?thesis using Cons Inr by (subst schedule.simps) simp
      qed
    qed
  qed
  then show ?thesis using ch4_here by blast
qed

section \<open>Two concrete processes\<close>

text \<open>User code that yields as often as register \<^verbatim>\<open>a2\<close> says, and then exits.\<close>

definition yields_then_exits :: "'h user_code" where
  "yields_then_exits c ph =
     (let j = unat (xregs (fcontext c) ! 11) in
      \<lparr>ut_context = \<lparr>sctx = 0, xregs = (replicate 31 0)[16 := if j = 0 then SYS_EXIT else SYS_SCHED_YIELD, 11 := of_nat (j - 1)],
         sepc = sepc (fcontext c), supervisor = False, interrupt = True\<rparr>,
       ut_phys = ph, ut_trap = UserEnvCall, ut_time = 0, ut_input = []\<rparr>)"

definition pair4 :: "sv39_manager address_space \<Rightarrow> 'h phys \<Rightarrow> 'h ch4_kernel" where
  "pair4 sp ph =
     (let p = \<lambda>n. \<lparr>p4_context = \<lparr>fcontext = \<lparr>sctx = 0, xregs = (replicate 31 0)[11 := n], sepc = 0x10000,
          supervisor = False, interrupt = True\<rparr>, fsatp = 0\<rparr>, p4_space = sp\<rparr> in
      \<lparr>b_out = [], b_line_start = True, b_time = 0, c4_processes = [p 2, p 1], c4_phys = ph, c4_kspace = sp\<rparr>)"

lemma yields_fine: "contexts_fine yields_then_exits"
  by (simp add: contexts_fine_def yields_then_exits_def ctx_wf_def Let_def)

lemma yields_end: "calls_end yields_then_exits (\<lambda>c. unat (xregs (fcontext c) ! 11))"
proof -
  have "unat (w - 1) < unat w" if "0 < unat w" for w :: usize
  proof -
    have "1 \<le> w" using that by (simp add: word_le_nat_alt)
    then show ?thesis using that by (simp add: unat_sub)
  qed
  then show ?thesis
    by (auto simp: calls_end_def yields_then_exits_def Let_def ctx_move_next_def ch4_served_def syscall_ids split: if_splits)
qed

lemma yields_turn:
  assumes "c4_processes k = p # ps"
  shows "\<exists>k1. ch4_turn (ch4_containers E) yields_then_exits k = Inr k1"
proof -
  let ?c = "ut_context (yields_then_exits (p4_context p) (c4_phys k))"
  have wf: "ctx_wf ?c" by (rule yields_fine [unfolded contexts_fine_def, rule_format])
  have "xregs ?c ! 16 \<in> {SYS_EXIT, SYS_SCHED_YIELD}" "ut_trap (yields_then_exits (p4_context p) (c4_phys k)) = UserEnvCall"
    by (simp_all add: yields_then_exits_def Let_def)
  then show ?thesis
    using assms wf
    by (auto simp: ch4_turn_def ch4_set_context_def ch4_serve_def read_frame_wf ch4_call_simps Let_def)
qed

lemma yields_processes:
  assumes "c4_processes k = p # ps" "ch4_turn (ch4_containers E) yields_then_exits k = Inr k1"
  shows "if xregs (fcontext (p4_context p)) ! 11 = 0 then ends_first yields_then_exits k \<and> c4_processes k1 = ps
    else \<not> ends_first yields_then_exits k \<and>
      (\<exists>q. c4_processes k1 = q # ps \<and> xregs (fcontext (p4_context q)) ! 11 = xregs (fcontext (p4_context p)) ! 11 - 1)"
proof -
  let ?u = "yields_then_exits (p4_context p) (c4_phys k)"
  have wf: "ctx_wf (ut_context ?u)" by (rule yields_fine [unfolded contexts_fine_def, rule_format])
  have dec: "of_nat (unat w - Suc 0) = w - 1" if "w \<noteq> 0" for w :: usize
  proof -
    have "0 < unat w" using that by (simp add: unat_gt_0)
    then show ?thesis by (simp add: of_nat_diff)
  qed
  show ?thesis
    using ch4_turn_processes [OF assms refl wf] dec
    by (auto simp: ends_first_def assms(1) yields_then_exits_def Let_def ch4_served_def syscall_ids with_context_def
        ctx_move_next_def unat_eq_0 split: if_splits)
qed

theorem ch4_runs_in_order_witness:
  "\<forall>E sp ph. \<exists>k3. ch4_reach E yields_then_exits (pair4 sp ph) 1 k3 \<and>
     in_order (c4_processes (pair4 sp ph)) 1 (c4_processes k3)"
proof (intro allI)
  fix E :: "('d, 'h) kenv" and sp and ph :: "'h phys"
  let ?k = "pair4 sp ph"
  obtain p ps where p: "c4_processes ?k = p # ps" "xregs (fcontext (p4_context p)) ! 11 = 2"
    by (simp add: pair4_def Let_def)
  obtain k1 where k1: "ch4_turn (ch4_containers E) yields_then_exits ?k = Inr k1" using yields_turn [OF p(1)] by blast
  from yields_processes [OF p(1) k1] p(2) obtain q where
    q: "\<not> ends_first yields_then_exits ?k" "c4_processes k1 = q # ps" "xregs (fcontext (p4_context q)) ! 11 = 1" by auto
  obtain k2 where k2: "ch4_turn (ch4_containers E) yields_then_exits k1 = Inr k2" using yields_turn [OF q(2)] by blast
  from yields_processes [OF q(2) k2] q(3) obtain r where
    r: "\<not> ends_first yields_then_exits k1" "c4_processes k2 = r # ps" "xregs (fcontext (p4_context r)) ! 11 = 0" by auto
  obtain k3 where k3: "ch4_turn (ch4_containers E) yields_then_exits k2 = Inr k3" using yields_turn [OF r(2)] by blast
  have e: "ends_first yields_then_exits k2" using yields_processes [OF r(2) k3] r(3) by simp
  have "ch4_reach E yields_then_exits ?k 1 k3"
    using ch4_step [OF ch4_step [OF ch4_step [OF ch4_here k1] k2] k3] q(1) r(1) e by simp
  with ch4_runs_in_order [OF yields_fine this]
  show "\<exists>k3. ch4_reach E yields_then_exits ?k 1 k3 \<and> in_order (c4_processes ?k) 1 (c4_processes k3)" by blast
qed

theorem ch4_shuts_down_witness:
  "\<forall>E sp ph. \<exists>k1. schedule (ch4_containers E) yields_then_exits (pair4 sp ph) = Some (Inr k1) \<and> c4_processes k1 = []"
proof (intro allI)
  fix E :: "('d, 'h) kenv" and sp and ph :: "'h phys"
  have fine: "ch4_turn (ch4_containers E) yields_then_exits j \<noteq> Inl e" if "c4_processes j \<noteq> []" for j :: "'h ch4_kernel" and e
    using that yields_turn [of j _ _ E] by (cases "c4_processes j") fastforce+
  obtain r where "schedule (ch4_containers E) yields_then_exits (pair4 sp ph) = Some r"
    "case r of
        Inl e \<Rightarrow> \<exists>n k1. ch4_reach E yields_then_exits (pair4 sp ph) n k1 \<and> c4_processes k1 \<noteq> [] \<and>
          ch4_turn (ch4_containers E) yields_then_exits k1 = Inl e
      | Inr k1 \<Rightarrow> \<exists>n. ch4_reach E yields_then_exits (pair4 sp ph) n k1 \<and> c4_processes k1 = []"
    using ch4_shuts_down [OF yields_fine yields_end] by blast
  with fine show "\<exists>k1. schedule (ch4_containers E) yields_then_exits (pair4 sp ph) = Some (Inr k1) \<and> c4_processes k1 = []"
    by (cases r) auto
qed

end
