(* ===== verification/Spec2Isabelle.thy ===== *)
theory Spec2Isabelle
  imports Switch Build User_Abi Kernel_Props File_Calls Kernel_Space Vm_Clone Firmware Bare_Props Ch4_Props
begin

text \<open>
  A verification development for the rCore tutorial kernels: the library crates from which the kernels
  of chapters 1 to 8 are built, and the kernels of chapters 2 to 8 themselves: two that run on flat memory, one
  that adds address spaces, three that add processes, files and signals, and the kernel of chapter 8 with
  threads and locks, which uses all crates.

  \<^bold>\<open>The program and its model.\<close> All paths are under \<^verbatim>\<open>src/\<close>. A fallible operation returns a value of type
  \<^verbatim>\<open>'a res\<close>, whose left side names the Rust panic (theory \<^verbatim>\<open>Prelude\<close>); stateful code passes its state
  explicitly; a \<^verbatim>\<open>usize\<close> is a 64-bit word where its width matters and a natural number in \<^verbatim>\<open>easy-fs\<close>, where
  sizes are checked against their bounds; arithmetic is overflow-checked, as in a debug build.

  \<^item> \<^verbatim>\<open>Context\<close>: thread contexts, portals and \<^verbatim>\<open>ForeignContext::execute\<close> (\<^verbatim>\<open>kernel-context\<close>).
  \<^item> \<^verbatim>\<open>Switch\<close>: the assembly of the context switch and of the portal between address spaces, as lists of instructions of a
    machine with registers, control registers and translated memory, and the Rust code around it.
  \<^item> \<^verbatim>\<open>Signal_Defs\<close>, \<^verbatim>\<open>Signals\<close>: signal numbers and the signal module of a process (\<^verbatim>\<open>signal-defs\<close>, \<^verbatim>\<open>signal\<close>,
    \<^verbatim>\<open>signal-impl\<close>), as a state machine with an invariant.
  \<^item> \<^verbatim>\<open>Sync_Prims\<close>: interrupt masking, mutex, semaphore and condition variable (\<^verbatim>\<open>sync\<close>).
  \<^item> \<^verbatim>\<open>Task_Proc\<close>, \<^verbatim>\<open>Task_Thread\<close>: the managers of processes and of threads (\<^verbatim>\<open>task-manage\<close>, the
    \<^verbatim>\<open>processor.rs\<close> files), generic in the traits \<^verbatim>\<open>Manage\<close> and \<^verbatim>\<open>Schedule\<close>, which are locales.
  \<^item> \<^verbatim>\<open>Block_Cache\<close>, \<^verbatim>\<open>Codec\<close>, \<^verbatim>\<open>Bitmap\<close>, \<^verbatim>\<open>Layout\<close>, \<^verbatim>\<open>Inode_Data\<close>, \<^verbatim>\<open>Inode_Size\<close>, \<^verbatim>\<open>Efs\<close>, \<^verbatim>\<open>Vfs\<close>, \<^verbatim>\<open>File_Ops\<close>: the file system
    \<^verbatim>\<open>easy-fs\<close> from the block device to file handles, and the \<^verbatim>\<open>fs.rs\<close> of the kernels.
  \<^item> \<^verbatim>\<open>Efs_Inv\<close>, \<^verbatim>\<open>Efs_Refine\<close>, \<^verbatim>\<open>Efs_Files\<close>: the invariant of a whole file system, the effect of every inode operation
    under it, and the refinement of a table of files (\<^verbatim>\<open>files_exec\<close>) by the operations of \<^verbatim>\<open>vfs.rs\<close> (\<^verbatim>\<open>efs_exec\<close>).
    \<^verbatim>\<open>Read_Only\<close>: operations that only read leave a written-back device as it is.
  \<^item> \<^verbatim>\<open>Packer\<close>: the packer of the disk image (\<^verbatim>\<open>xtask/src/fs_pack.rs\<close>), and what a kernel finds in its image.
  \<^item> \<^verbatim>\<open>Build\<close>: the build commands (\<^verbatim>\<open>xtask/src/main.rs\<close>, \<^verbatim>\<open>user.rs\<close>, \<^verbatim>\<open>user/build.rs\<close>), as the requests they send to the host.
  \<^item> \<^verbatim>\<open>Syscall\<close>, \<^verbatim>\<open>User_Abi\<close>: system-call numbers, the traits a kernel implements, dispatch, and the user
    library (\<^verbatim>\<open>syscall\<close>).
  \<^item> \<^verbatim>\<open>Page_Table\<close>, \<^verbatim>\<open>Address_Space\<close>, \<^verbatim>\<open>Vm_Walk\<close>, \<^verbatim>\<open>Vm_Space\<close>, \<^verbatim>\<open>Vm_Sv39\<close>, \<^verbatim>\<open>Vm_Clone\<close>: page numbers,
    entries, tables and walks (\<^verbatim>\<open>patches/page-table\<close>), address spaces and their copies (\<^verbatim>\<open>kernel-vm\<close>), and the
    page manager of the kernel.
  \<^item> \<^verbatim>\<open>Kernel_Space\<close>: the layout that the linker script gives to a kernel image and \<^verbatim>\<open>zero_bss\<close> (\<^verbatim>\<open>linker\<close>), and the address
    space that \<^verbatim>\<open>kernel_space\<close> makes of it.
  \<^item> \<^verbatim>\<open>Firmware\<close>: the machine-mode handler of SBI calls (\<^verbatim>\<open>msbi.rs\<close> of \<^verbatim>\<open>ch3\<close> and \<^verbatim>\<open>ch4\<close>).
  \<^item> \<^verbatim>\<open>Apps\<close>, \<^verbatim>\<open>Kernel_Ch3\<close>, \<^verbatim>\<open>Bare_Props\<close>: the applications in the image (\<^verbatim>\<open>linker/src/app.rs\<close>), the batch kernel
    (\<^verbatim>\<open>ch2\<close>) and the multiprogramming kernel (\<^verbatim>\<open>ch3\<close>) on flat memory, and their properties.
  \<^item> \<^verbatim>\<open>Kernel_Ch4\<close>, \<^verbatim>\<open>Ch4_Props\<close>: the kernel with address spaces (\<^verbatim>\<open>ch4/src/main.rs\<close>, \<^verbatim>\<open>process.rs\<close>), whose scheduling
    thread runs one process after the other.
  \<^item> \<^verbatim>\<open>Kernel_Ch5\<close>, \<^verbatim>\<open>Kernel_Ch6\<close>: the kernels with processes, files and signals (\<^verbatim>\<open>main.rs\<close> and \<^verbatim>\<open>process.rs\<close> of
    \<^verbatim>\<open>ch5\<close>, \<^verbatim>\<open>ch6\<close> and \<^verbatim>\<open>ch7\<close>). Each chapter extends the records of the one before, so the calls that do not
    change are defined once, for every extension of the process and of the kernel state.
  \<^item> \<^verbatim>\<open>Proc_Inv\<close>, \<^verbatim>\<open>Proc_Props\<close>: the invariant of these three kernels and their properties. The locales
    \<^verbatim>\<open>process_fields\<close>, \<^verbatim>\<open>file_fields\<close> and \<^verbatim>\<open>process_kernel\<close> state what a chapter promises of its fields and of the
    way it serves a call, and are interpreted on the definitions of the three chapters.
  \<^item> \<^verbatim>\<open>File_Calls\<close>: \<^verbatim>\<open>read\<close>, \<^verbatim>\<open>write\<close> and \<^verbatim>\<open>exec\<close> of these kernels on the table of files that the disk stands for.
  \<^item> \<^verbatim>\<open>Ch8_Process\<close>, \<^verbatim>\<open>Kernel_Ch8\<close>, \<^verbatim>\<open>Kernel_Sync\<close>, \<^verbatim>\<open>Kernel_Loop\<close>: the kernel of chapter 8: its state, \<^verbatim>\<open>fork\<close> and
    \<^verbatim>\<open>exec\<close>, every system call, its start and its main loop (\<^verbatim>\<open>ch8/src\<close>, \<^verbatim>\<open>linker/src/lib.rs\<close>).
  \<^item> \<^verbatim>\<open>Kernel_Inv\<close>, \<^verbatim>\<open>Kernel_Props\<close>: the invariant of that kernel and its properties.

  \<^bold>\<open>How the parts interact.\<close> The main loop (\<^verbatim>\<open>main_turn\<close>) takes a thread from the thread manager, runs it
  through a portal, decodes its system call (\<^verbatim>\<open>read_frame\<close>, \<^verbatim>\<open>handle\<close>), and finishes the turn by delivering
  signals and suspending, blocking or ending the thread. The calls reach user memory through
  \<^verbatim>\<open>translate\<close> on the address space of the process, files through the file handles, and other threads
  through the queues of the primitives and \<^verbatim>\<open>re_enque\<close>.

  \<^bold>\<open>What the lemmas show.\<close> The block cache refines a plain disk, and the layers above it are proved
  against that disk. A file that grows keeps its bytes, and clearing it gives back exactly its blocks. From
  \<^verbatim>\<open>create\<close> on, every sequence of file operations returns what it returns on a table of byte sequences, no block is
  lost or shared, and the files survive a restart; every program that the packer put into an image is found and read by
  a kernel that boots from it. The calls \<^verbatim>\<open>read\<close> and \<^verbatim>\<open>write\<close> of a process act on these files as on byte lists, and \<^verbatim>\<open>exec\<close>
  replaces the address space and the context of the caller by those of the file it names. The managers keep a consistent forest of processes and the relation of threads to
  processes under every sequence of operations, and the only operation that panics while process 0 lives is its own exit with
  children left; the thread manager refines the process manager on
  exits. The signal module panics exactly on signals above 31, delivers the lowest first and restores the
  interrupted context. The mutex excludes and admits threads in the order of their calls, the semaphore is fair. After \<^verbatim>\<open>map_extern\<close> exactly the mapped
  pages translate differently, to the given frames and flags: the laws the proof needs of a page manager
  are the locale \<^verbatim>\<open>page_manager_laws\<close>, interpreted on \<^verbatim>\<open>Sv39Manager\<close> over any allocator with the laws of a buddy
  allocator. The address space of a kernel translates the image that the linker script laid out, the heap and the
  devices to themselves, with the access rights of each region. Every system call and every turn of the chapter 8 kernel keeps its invariant. In the
  kernels of chapters 5 to 7 no process is lost or starves, a parent learns the exit code of a child exactly
  once, and a killed process ends; the kernel of chapter 3 puts every application of its image into its area, the processes of chapter 4 run in
  order, each until it ends itself, and both kernels leave their loops when their programs end, unless a turn panics.
  The switch into a thread of another address space and back is transparent to the thread and to the kernel: this is
  proved of the assembly, for every thread that cannot write the words of the switch. A program of the first kernels is
  loaded where the build linked it.
  \<^verbatim>\<open>cloneself\<close>, on which \<^verbatim>\<open>fork\<close> rests, copies the pages of the parent and shares none. Further properties state what single calls do and the ways in which a program can panic the kernel or observe
  a wrong result; these are listed as findings.

  \<^bold>\<open>Bounds and fuel.\<close> Walks of page tables are partial functions whose value is \<^verbatim>\<open>None\<close> where they run for
  ever; the properties of \<^verbatim>\<open>map_extern\<close> and \<^verbatim>\<open>translate\<close> show that they return. \<^verbatim>\<open>read_all\<close> takes the number of
  turns of its loop; the bound \<^verbatim>\<open>READ_ALL_FUEL\<close> = 2 ^ 24 that the kernel model passes is enough for every file
  below 2 ^ 32 bytes, since every turn but the last reads 512 bytes, and its termination is a property. The
  polling loops of the user library are partial functions, with a theorem on when they return.
  Mapping a range needs at most \<^verbatim>\<open>tables_for\<close> free pages for tables, two and one for each table that the range enters; for the address space of
  a kernel with up to 48 MiB these are 37, and one for the root.
  The main loops are partial functions, because an operating system need not stop.

  \<^bold>\<open>Not modelled.\<close> The kernel of chapter 1, which prints one line; the virtio drivers, which are glue over a
  third-party driver for a device that is a parameter here; the console and log output; the user programs;
  \<^verbatim>\<open>Debug\<close> output; the entry of the firmware and the assembly that sets up the first stack; the machine-mode part of
  the linker script \<^verbatim>\<open>SCRIPT_NOBIOS\<close>; outside \<^verbatim>\<open>Switch\<close> and \<^verbatim>\<open>Build\<close> the
  branches for 32-bit targets. The buddy allocator, the ELF parser, the block device, cargo, objcopy and QEMU, and the
  behaviour of a program in user mode are parameters or requests. In \<^verbatim>\<open>Switch\<close> a control register holds what was
  written to it, code is fetched by virtual address, and a block of code is executed without interruption or not at all. References
  into the tables of processes and threads are modelled by keys.
\<close>

end
